(* ===== verification/Prelude.thy ===== *)
theory Prelude
  imports Main "HOL-Library.Sublist"
begin

text \<open>
  What the components share: the JavaScript containers the client is written with, the string
  operations it calls, and the generic locales the component theories interpret.

  A JavaScript \<open>Map\<close> (and a plain object used as a dictionary) iterates in insertion order, and
  overwriting a key keeps its place, so a map is an association list: \<open>map_set\<close> replaces in
  place or appends at the end.  A \<open>Set\<close> is a list without duplicates, in insertion order.
  A string is a \<open>char list\<close>: one \<open>char\<close> stands for one UTF-16 code unit below 256, which
  covers the whole Latin-1 block and every literal of the source.
\<close>

section \<open>Collections of facts\<close>

named_theorems js_map \<open>laws of Map and Set operations\<close>
named_theorems js_str \<open>laws of string operations\<close>

section \<open>Maps\<close>

type_synonym ('k, 'v) jmap = "('k \<times> 'v) list"

fun map_get :: "('k, 'v) jmap \<Rightarrow> 'k \<Rightarrow> 'v option" where
  "map_get [] k = None"
| "map_get ((a, v) # m) k = (if a = k then Some v else map_get m k)"

fun map_set :: "'k \<Rightarrow> 'v \<Rightarrow> ('k, 'v) jmap \<Rightarrow> ('k, 'v) jmap" where
  "map_set k v [] = [(k, v)]"
| "map_set k v ((a, w) # m) = (if a = k then (k, v) # m else (a, w) # map_set k v m)"

definition map_del :: "'k \<Rightarrow> ('k, 'v) jmap \<Rightarrow> ('k, 'v) jmap" where
  "map_del k m = filter (\<lambda>p. fst p \<noteq> k) m"

definition map_has :: "('k, 'v) jmap \<Rightarrow> 'k \<Rightarrow> bool" where
  "map_has m k \<longleftrightarrow> map_get m k \<noteq> None"

definition map_keys :: "('k, 'v) jmap \<Rightarrow> 'k list" where
  "map_keys m = map fst m"

definition map_values :: "('k, 'v) jmap \<Rightarrow> 'v list" where
  "map_values m = map snd m"

text \<open>Every map built by the operations has each key once.\<close>

definition map_wf :: "('k, 'v) jmap \<Rightarrow> bool" where
  "map_wf m \<longleftrightarrow> distinct (map fst m)"

lemma map_get_set [simp, js_map]: "map_get (map_set k v m) = (map_get m)(k \<mapsto> v)"
  by (induction k v m rule: map_set.induct) (auto simp: fun_eq_iff)

lemma map_get_del [simp, js_map]: "map_get (map_del k m) = (map_get m)(k := None)"
  by (induction m) (auto simp: map_del_def fun_eq_iff)

lemma map_get_Nil [simp, js_map]: "map_get [] = Map.empty"
  by (simp add: fun_eq_iff)

lemma set_keys_set [simp, js_map]: "fst ` set (map_set k v m) = insert k (fst ` set m)"
  by (induction k v m rule: map_set.induct) auto

lemma map_wf_Nil [simp]: "map_wf []"
  by (simp add: map_wf_def)

lemma map_wf_set [simp, js_map]: "map_wf m \<Longrightarrow> map_wf (map_set k v m)"
proof (induction k v m rule: map_set.induct)
  case (2 k v a w m)
  then show ?case
    using set_keys_set [of k v m] by (auto simp: map_wf_def simp del: set_keys_set)
qed (simp add: map_wf_def)

lemma map_wf_del [simp, js_map]: "map_wf m \<Longrightarrow> map_wf (map_del k m)"
  by (induction m) (auto simp: map_wf_def map_del_def)

lemma map_get_in_set: "map_get m k = Some v \<Longrightarrow> (k, v) \<in> set m"
  by (induction m k rule: map_get.induct) (auto split: if_splits)

lemma map_get_None_iff: "map_get m k = None \<longleftrightarrow> k \<notin> fst ` set m"
  by (induction m k rule: map_get.induct) auto

lemma map_get_iff: "map_wf m \<Longrightarrow> map_get m k = Some v \<longleftrightarrow> (k, v) \<in> set m"
proof (induction m k rule: map_get.induct)
  case (2 a w m k)
  then show ?case by (force simp: map_wf_def)
qed (simp add: map_wf_def)

lemma map_get_map_of: "map_get m = map_of m"
  by (rule ext, induct_tac m) auto

lemma map_values_iff:
  "map_wf m \<Longrightarrow> v \<in> set (map_values m) \<longleftrightarrow> (\<exists>k. map_get m k = Some v)"
  by (force simp: map_values_def map_get_iff)

lemma map_set_overwrite_order:
  "map_has m k \<Longrightarrow> map_keys (map_set k v m) = map_keys m"
  by (induction m) (auto simp: map_has_def map_keys_def)

lemma map_set_fresh: "\<not> map_has m k \<Longrightarrow> map_set k v m = m @ [(k, v)]"
  by (induction m) (auto simp: map_has_def split: if_splits)

lemma map_set_idem: "map_get m k = Some v \<Longrightarrow> map_set k v m = m"
  by (induction m) (auto split: if_splits)

lemma map_del_absent: "\<not> map_has m k \<Longrightarrow> map_del k m = m"
  by (induction m) (auto simp: map_has_def map_del_def split: if_splits)

lemma map_set_set [js_map]: "map_set k v (map_set k w m) = map_set k v m"
  by (induction k w m rule: map_set.induct) auto

lemma map_del_set [js_map]: "map_del k (map_set k w m) = map_del k m"
  by (induction k w m rule: map_set.induct) (auto simp: map_del_def)

lemma map_set_not_Nil [simp]: "map_set k v m \<noteq> []"
  by (cases m) (auto simp: split_paired_all)

lemma keys_map_del [simp, js_map]: "fst ` set (map_del k m) = fst ` set m - {k}"
  by (auto simp: map_del_def)

lemma map_wf_single [simp]: "map_wf [p]"
  by (simp add: map_wf_def)

text \<open>A property of every value of a map.\<close>

definition map_all :: "('v \<Rightarrow> bool) \<Rightarrow> ('k, 'v) jmap \<Rightarrow> bool" where
  "map_all P m \<longleftrightarrow> (\<forall>p \<in> set m. P (snd p))"

lemma map_all_Nil [simp]: "map_all P []"
  by (simp add: map_all_def)

lemma map_all_set [simp, js_map]: "map_all P m \<Longrightarrow> P v \<Longrightarrow> map_all P (map_set k v m)"
  by (induction k v m rule: map_set.induct) (auto simp: map_all_def)

lemma map_all_del [simp, js_map]: "map_all P m \<Longrightarrow> map_all P (map_del k m)"
  by (simp add: map_all_def map_del_def)

lemma map_all_get: "map_all P m \<Longrightarrow> map_get m k = Some v \<Longrightarrow> P v"
  by (force simp: map_all_def dest: map_get_in_set)

section \<open>Sets\<close>

type_synonym 'a jset = "'a list"

definition set_add :: "'a \<Rightarrow> 'a jset \<Rightarrow> 'a jset" where
  "set_add x s = (if x \<in> set s then s else s @ [x])"

definition set_remove :: "'a \<Rightarrow> 'a jset \<Rightarrow> 'a jset" where
  "set_remove x s = filter (\<lambda>y. y \<noteq> x) s"

definition set_has :: "'a jset \<Rightarrow> 'a \<Rightarrow> bool" where
  "set_has s x \<longleftrightarrow> x \<in> set s"

text \<open>\<open>new Set(xs)\<close>.\<close>

definition set_of_list :: "'a list \<Rightarrow> 'a jset" where
  "set_of_list xs = foldl (\<lambda>s x. set_add x s) [] xs"

lemma set_set_add [simp, js_map]: "set (set_add x s) = insert x (set s)"
  by (auto simp: set_add_def)

lemma set_set_remove [simp, js_map]: "set (set_remove x s) = set s - {x}"
  by (auto simp: set_remove_def)

lemma distinct_set_add [simp, js_map]: "distinct s \<Longrightarrow> distinct (set_add x s)"
  by (simp add: set_add_def)

lemma distinct_set_remove [simp, js_map]: "distinct s \<Longrightarrow> distinct (set_remove x s)"
  by (simp add: set_remove_def)

lemma foldl_set_add: "set (foldl (\<lambda>s x. set_add x s) s xs) = set s \<union> set xs"
  by (induction xs arbitrary: s) auto

lemma set_set_of_list [simp, js_map]: "set (set_of_list xs) = set xs"
  by (simp add: set_of_list_def foldl_set_add)

lemma foldl_set_add_distinct: "distinct s \<Longrightarrow> distinct (foldl (\<lambda>s x. set_add x s) s xs)"
  by (induction xs arbitrary: s) auto

lemma distinct_set_of_list [simp, js_map]: "distinct (set_of_list xs)"
  by (simp add: set_of_list_def foldl_set_add_distinct)

lemma set_add_Nil [simp]: "set_add x [] = [x]"
  by (simp add: set_add_def)

lemma set_remove_Nil_iff: "set_remove x s = [] \<longleftrightarrow> set s \<subseteq> {x}"
  by (auto simp: set_remove_def filter_empty_conv)

lemma set_add_not_Nil [simp]: "set_add x s \<noteq> []"
  by (auto simp: set_add_def)

lemma set_has_iff [simp]: "set_has s x \<longleftrightarrow> x \<in> set s"
  by (simp add: set_has_def)

section \<open>Arrays\<close>

text \<open>\<open>xs.indexOf(x)\<close>, with \<open>None\<close> for -1, and \<open>xs.find(p)\<close>.\<close>

fun index_of :: "'a list \<Rightarrow> 'a \<Rightarrow> nat option" where
  "index_of [] x = None"
| "index_of (y # ys) x = (if y = x then Some 0 else map_option Suc (index_of ys x))"

lemma index_of_Some: "index_of xs x = Some i \<Longrightarrow> i < length xs \<and> xs ! i = x"
  by (induction xs arbitrary: i) (auto split: if_splits)

lemma index_of_None: "index_of xs x = None \<longleftrightarrow> x \<notin> set xs"
  by (induction xs) auto

lemma index_of_nth: "distinct xs \<Longrightarrow> i < length xs \<Longrightarrow> index_of xs (xs ! i) = Some i"
  by (induction xs arbitrary: i) (auto simp: nth_Cons split: nat.splits)

lemma find_Some_in: "List.find p xs = Some x \<Longrightarrow> x \<in> set xs \<and> p x"
  by (induction xs) (auto split: if_splits)

section \<open>Strings\<close>

text \<open>The white space \<open>trim\<close> strips, below code unit 256.\<close>

definition is_ws :: "char \<Rightarrow> bool" where
  "is_ws c \<longleftrightarrow> (let n = (of_char c :: nat) in (9 \<le> n \<and> n \<le> 13) \<or> n = 32 \<or> n = 160)"

definition trim_start :: "string \<Rightarrow> string" where
  "trim_start s = dropWhile is_ws s"

definition trim :: "string \<Rightarrow> string" where
  "trim s = rev (dropWhile is_ws (rev (dropWhile is_ws s)))"

definition lower_char :: "char \<Rightarrow> char" where
  "lower_char c =
     (let n = (of_char c :: nat) in
      if (65 \<le> n \<and> n \<le> 90) \<or> (192 \<le> n \<and> n \<le> 222 \<and> n \<noteq> 215) then char_of (n + 32) else c)"

definition to_lower :: "string \<Rightarrow> string" where
  "to_lower s = map lower_char s"

definition starts_with :: "string \<Rightarrow> string \<Rightarrow> bool" where
  "starts_with s p \<longleftrightarrow> prefix p s"

definition includes_str :: "string \<Rightarrow> string \<Rightarrow> bool" where
  "includes_str s p \<longleftrightarrow> sublist p s"

lemma trim_Nil [simp]: "trim [] = []"
  by (simp add: trim_def)

lemma dropWhile_hd: "dropWhile P xs = y # ys \<Longrightarrow> \<not> P y"
  by (induction xs) (auto split: if_splits)

lemma dropWhile_idem_hd: "(xs \<noteq> [] \<Longrightarrow> \<not> P (hd xs)) \<Longrightarrow> dropWhile P xs = xs"
  by (cases xs) auto

lemma set_trim: "set (trim s) \<subseteq> set s"
  by (auto simp: trim_def dest!: set_dropWhileD)

lemma trim_idem [simp, js_str]: "trim (trim s) = trim s"
proof -
  define a where "a = dropWhile is_ws s"
  define b where "b = rev (dropWhile is_ws (rev a))"
  obtain z where z: "a = b @ z"
    unfolding b_def by (metis append_Nil2 rev_append rev_rev_ident takeWhile_dropWhile_id)
  have "\<not> is_ws (hd b)" if "b \<noteq> []"
    using that z hd_dropWhile [of is_ws s] by (simp add: a_def [symmetric])
  then have "dropWhile is_ws b = b" by (intro dropWhile_idem_hd) blast
  moreover have "dropWhile is_ws (rev b) = rev b" by (simp add: b_def dropWhile_idem)
  ultimately show ?thesis by (simp add: trim_def a_def [symmetric] b_def [symmetric])
qed

lemma lower_char_idem [simp, js_str]: "lower_char (lower_char c) = lower_char c"
  by (auto simp: lower_char_def Let_def)

lemma to_lower_idem [simp, js_str]: "to_lower (to_lower s) = to_lower s"
  by (simp add: to_lower_def)

lemma length_to_lower [simp, js_str]: "length (to_lower s) = length s"
  by (simp add: to_lower_def)

section \<open>Decimal numerals\<close>

definition digit_char :: "nat \<Rightarrow> char" where
  "digit_char d = char_of (48 + d)"

text \<open>\<open>String(n)\<close> of a non-negative integer.\<close>

fun show_nat :: "nat \<Rightarrow> string" where
  "show_nat n = (if n < 10 then [digit_char n] else show_nat (n div 10) @ [digit_char (n mod 10)])"

declare show_nat.simps [simp del]

definition show_int :: "int \<Rightarrow> string" where
  "show_int i = (if i < 0 then CHR ''-'' # show_nat (nat (- i)) else show_nat (nat i))"

definition is_digit :: "char \<Rightarrow> bool" where
  "is_digit c \<longleftrightarrow> (let n = (of_char c :: nat) in 48 \<le> n \<and> n \<le> 57)"

definition digit_val :: "char \<Rightarrow> nat" where
  "digit_val c = of_char c - 48"

definition read_digits :: "string \<Rightarrow> nat" where
  "read_digits s = foldl (\<lambda>a c. 10 * a + digit_val c) 0 s"

lemma digit_char_simps [simp]:
  assumes "d < 10"
  shows "is_digit (digit_char d)" "digit_val (digit_char d) = d"
  using assms by (simp_all add: is_digit_def digit_val_def digit_char_def)

lemma show_nat_digits: "c \<in> set (show_nat n) \<Longrightarrow> is_digit c"
proof (induction n rule: show_nat.induct)
  case (1 n)
  then show ?case by (subst (asm) show_nat.simps) (auto split: if_splits)
qed

lemma read_show_nat [simp, js_str]: "read_digits (show_nat n) = n"
proof (induction n rule: show_nat.induct)
  case (1 n)
  show ?case
  proof (cases "n < 10")
    case True
    then show ?thesis by (simp add: show_nat.simps [of n] read_digits_def)
  next
    case False
    then show ?thesis
      using 1 by (simp add: show_nat.simps [of n] read_digits_def)
  qed
qed

lemma show_nat_inject [simp, js_str]: "show_nat m = show_nat n \<longleftrightarrow> m = n"
  by (metis read_show_nat)

lemma show_nat_not_Nil [simp]: "show_nat n \<noteq> []"
  by (subst show_nat.simps) simp

lemma show_int_inject [simp, js_str]: "show_int i = show_int j \<longleftrightarrow> i = j"
proof -
  have dash: "show_nat n \<noteq> CHR ''-'' # xs" for n xs
    using show_nat_digits [of "CHR ''-''" n] by (auto simp: is_digit_def)
  show ?thesis
    using dash by (auto simp: show_int_def dash [symmetric])
qed

section \<open>Optional values\<close>

text \<open>\<open>a ?? b\<close>.\<close>

definition or_else :: "'a option \<Rightarrow> 'a \<Rightarrow> 'a" where
  "or_else a b = (case a of None \<Rightarrow> b | Some x \<Rightarrow> x)"

lemma or_else_simps [simp]: "or_else None b = b" "or_else (Some x) b = x"
  by (simp_all add: or_else_def)

definition or_opt :: "'a option \<Rightarrow> 'a option \<Rightarrow> 'a option" where
  "or_opt a b = (case a of None \<Rightarrow> b | Some x \<Rightarrow> Some x)"

lemma or_opt_simps [simp]: "or_opt None b = b" "or_opt (Some x) b = Some x"
  by (simp_all add: or_opt_def)

section \<open>Interfaces\<close>

text \<open>
  A keyed store: what the components rely on of the containers they keep their state in.
\<close>

locale keyed_store =
  fixes empty :: 'm
    and get :: "'m \<Rightarrow> 'k \<Rightarrow> 'v option"
    and put :: "'k \<Rightarrow> 'v \<Rightarrow> 'm \<Rightarrow> 'm"
    and del :: "'k \<Rightarrow> 'm \<Rightarrow> 'm"
    and invar :: "'m \<Rightarrow> bool"
  assumes get_empty: "get empty k = None"
    and get_put: "invar m \<Longrightarrow> get (put k v m) j = (if j = k then Some v else get m j)"
    and get_del: "invar m \<Longrightarrow> get (del k m) j = (if j = k then None else get m j)"
    and invar_empty: "invar empty"
    and invar_put: "invar m \<Longrightarrow> invar (put k v m)"
    and invar_del: "invar m \<Longrightarrow> invar (del k m)"
begin

lemma get_put_same: "invar m \<Longrightarrow> get (put k v m) k = Some v"
  by (simp add: get_put)

lemma get_put_other: "invar m \<Longrightarrow> j \<noteq> k \<Longrightarrow> get (put k v m) j = get m j"
  by (simp add: get_put)

lemma get_del_other: "invar m \<Longrightarrow> j \<noteq> k \<Longrightarrow> get (del k m) j = get m j"
  by (simp add: get_del)

lemma del_put_fresh: "invar m \<Longrightarrow> get m k = None \<Longrightarrow> get (del k (put k v m)) j = get m j"
  by (simp add: get_del get_put invar_put)

lemma put_all:
  "invar m \<Longrightarrow> invar (foldl (\<lambda>s p. put (fst p) (snd p) s) m ps)
    \<and> get (foldl (\<lambda>s p. put (fst p) (snd p) s) m ps) j
      = (case map_of (rev ps) j of None \<Rightarrow> get m j | Some v \<Rightarrow> Some v)"
  by (induction ps arbitrary: m) (auto simp: get_put invar_put map_add_def split: option.split)

lemma del_all:
  "invar m \<Longrightarrow> invar (foldl (\<lambda>s k. del k s) m ks)
    \<and> get (foldl (\<lambda>s k. del k s) m ks) j = (if j \<in> set ks then None else get m j)"
  by (induction ks arbitrary: m) (auto simp: get_del invar_del)

end

interpretation jm: keyed_store "[]" map_get map_set map_del map_wf
  by unfold_locales simp_all

text \<open>
  An event handler that keeps an invariant keeps it along every sequence of events: the
  store's listeners are such handlers, one event at a time on the single JavaScript thread.
\<close>

locale event_machine =
  fixes handle :: "'s \<Rightarrow> 'e \<Rightarrow> 's"
    and inv :: "'s \<Rightarrow> bool"
  assumes handle_inv: "inv s \<Longrightarrow> inv (handle s e)"
begin

lemma run_inv: "inv s \<Longrightarrow> inv (foldl handle s es)"
  by (induction es arbitrary: s) (auto simp: handle_inv)

end

text \<open>A handler that implements an abstract one, and the run that implements its run.\<close>

locale simulation = event_machine handle inv
  for handle :: "'s \<Rightarrow> 'e \<Rightarrow> 's" and inv :: "'s \<Rightarrow> bool" +
  fixes abs :: "'s \<Rightarrow> 'a"
    and step :: "'a \<Rightarrow> 'e \<Rightarrow> 'a"
  assumes simulates: "inv s \<Longrightarrow> abs (handle s e) = step (abs s) e"
begin

lemma run_simulates: "inv s \<Longrightarrow> abs (foldl handle s es) = foldl step (abs s) es"
proof (induction es arbitrary: s)
  case (Cons e es)
  then have "abs (foldl handle (handle s e) es) = foldl step (abs (handle s e)) es"
    by (simp add: handle_inv)
  then show ?case using Cons.prems by (simp add: simulates)
qed simp

end

end
