(* ===== verification/AppTypes.thy ===== *)
theory AppTypes
  imports Prelude
begin

text \<open>
  The value types the components exchange, from \<open>types.ts\<close>.  Numbers of the source that are
  identifiers, counters or millisecond clocks are \<open>int\<close>: the backend sends them as 32-bit or
  53-bit values, so the double arithmetic of the source is exact on them.  An optional or
  nullable field is an \<open>option\<close>.
\<close>

section \<open>Channels, users, messages\<close>

datatype pchat_protocol = ProtoNone | FancyV1FullArchive | SignalV1

record channel_entry =
  ch_id :: int
  ch_parent_id :: "int option"
  ch_name :: string
  ch_description_size :: "int option"
  ch_user_count :: int
  ch_permissions :: "int option"
  ch_temporary :: bool
  ch_position :: int
  ch_max_users :: int
  ch_pchat_protocol :: "pchat_protocol option"
  ch_pchat_max_history :: "int option"
  ch_pchat_retention_days :: "int option"
  ch_is_enter_restricted :: "bool option"

record user_entry =
  us_session :: int
  us_name :: string
  us_channel_id :: int
  us_user_id :: "int option"
  us_texture_size :: "int option"
  us_comment_size :: "int option"
  us_comment :: "string option"
  us_mute :: bool
  us_deaf :: bool
  us_suppress :: bool
  us_self_mute :: bool
  us_self_deaf :: bool
  us_priority_speaker :: bool
  us_hash :: "string option"

record chat_message =
  cm_sender_session :: "int option"
  cm_sender_name :: string
  cm_sender_hash :: "string option"
  cm_body :: string
  cm_channel_id :: int
  cm_is_own :: bool
  cm_dm_session :: "int option"
  cm_message_id :: "string option"
  cm_timestamp :: "int option"
  cm_is_legacy :: "bool option"
  cm_edited_at :: "int option"
  cm_pinned :: "bool option"
  cm_pinned_by :: "string option"
  cm_pinned_at :: "int option"
  cm_plugin_name :: "string option"
  cm_plugin_components :: "string option"   \<comment> \<open>opaque to the store\<close>

datatype pending_state = Sending | Failed

record pending_message =
  pm_pendingId :: string
  pm_channelId :: "int option"
  pm_dmSession :: "int option"
  pm_body :: string
  pm_createdAt :: int
  pm_state :: pending_state
  pm_errorMessage :: "string option"

section \<open>Connections\<close>

datatype connection_status = Disconnected | Connecting | Connected

type_synonym server_id = string

record session_meta =
  sm_id :: server_id
  sm_label :: string
  sm_host :: string
  sm_port :: int
  sm_username :: string
  sm_certLabel :: "string option"
  sm_status :: connection_status

datatype voice_state = Inactive | Active | Muted

section \<open>Read receipts\<close>

record read_state =
  rs_cert_hash :: string
  rs_name :: string
  rs_is_online :: bool
  rs_last_read_message_id :: string
  rs_timestamp :: int

section \<open>Shared lookups\<close>

text \<open>\<open>users.find((u) => u.hash === h)?.name ?? fallback\<close>, used by the reaction and pin listeners.\<close>

definition resolve_by_hash :: "user_entry list \<Rightarrow> string \<Rightarrow> string \<Rightarrow> string" where
  "resolve_by_hash users h fallback =
     (case List.find (\<lambda>u. us_hash u = Some h) users of None \<Rightarrow> fallback | Some u \<Rightarrow> us_name u)"

lemma resolve_by_hash_unknown:
  "\<forall>u \<in> set users. us_hash u \<noteq> Some h \<Longrightarrow> resolve_by_hash users h fallback = fallback"
  by (induction users) (auto simp: resolve_by_hash_def)

end
