(* ===== verification/Windowing.thy ===== *)
theory Windowing
  imports Prelude
begin

text \<open>
  The tail-anchored render window of the chat list: the sizing policy of
  \<open>components/chat/chatWindowing.ts\<close> and the places of \<open>components/chat/useChatScroll.ts\<close>
  that apply it (\<open>growWindow\<close>, \<open>handleHistoryPrepend\<close>, \<open>ensureMessageRendered\<close>, the append
  effect, the channel-switch effect, \<open>handleScrollToBottom\<close>).  The state is the message list
  and the number of trailing messages that are mounted; scroll positions in pixels are not
  modelled.
\<close>

section \<open>The sizing policy\<close>

definition BASE_WINDOW :: int where
  "BASE_WINDOW = 100"

definition WINDOW_GROW_CHUNK :: int where
  "WINDOW_GROW_CHUNK = 100"

definition CONTEXT_ABOVE :: int where
  "CONTEXT_ABOVE = 20"

definition initialTailCount :: "int \<Rightarrow> int" where
  "initialTailCount pendingUnread = max BASE_WINDOW (pendingUnread + CONTEXT_ABOVE)"

definition tailCountAfterAppend :: "int \<Rightarrow> int \<Rightarrow> bool \<Rightarrow> int" where
  "tailCountAfterAppend prev appended atBottom = (if atBottom then BASE_WINDOW else prev + appended)"

definition grownTailCount :: "int \<Rightarrow> int \<Rightarrow> int" where
  "grownTailCount prev tot = min tot (prev + WINDOW_GROW_CHUNK)"

definition tailCountToInclude :: "int \<Rightarrow> int \<Rightarrow> int \<Rightarrow> int" where
  "tailCountToInclude prev msgIdx tot =
     (let needed = min tot (tot - msgIdx + CONTEXT_ABOVE) in max prev needed)"

section \<open>The rendered slice\<close>

definition windowStart :: "'m list \<Rightarrow> int \<Rightarrow> int" where
  "windowStart allMessages tailCount = max 0 (int (length allMessages) - tailCount)"

definition visibleMessages :: "'m list \<Rightarrow> int \<Rightarrow> 'm list" where
  "visibleMessages allMessages tailCount =
     (let s = windowStart allMessages tailCount
      in if s = 0 then allMessages else drop (nat s) allMessages)"

section \<open>The hook's transitions\<close>

record 'm scroll_state =
  allMessages :: "'m list"
  tailCount :: int

datatype 'm scroll_event =
    SwitchThread "'m list" int            \<comment> \<open>its messages and its pending unread count\<close>
  | AppendMessages "'m list" bool         \<comment> \<open>new tail messages, and whether the reader is at the bottom\<close>
  | GrowWindow
  | HistoryPrepend "'m list"
  | EnsureRendered nat
  | JumpToBottom

definition growWindow :: "'m scroll_state \<Rightarrow> 'm scroll_state" where
  "growWindow s =
     (let tot = int (length (allMessages s)) in
      if tailCount s \<ge> tot then s
      else s\<lparr>tailCount := grownTailCount (tailCount s) tot\<rparr>)"

definition handleHistoryPrepend :: "'m scroll_state \<Rightarrow> 'm list \<Rightarrow> 'm scroll_state" where
  "handleHistoryPrepend s older =
     (let msgs = older @ allMessages s; count = int (length msgs) in
      if tailCount s < count
      then s\<lparr>allMessages := msgs, tailCount := tailCount s + int (length older)\<rparr>
      else s\<lparr>allMessages := msgs\<rparr>)"

definition ensureMessageRendered :: "'m scroll_state \<Rightarrow> nat \<Rightarrow> 'm scroll_state" where
  "ensureMessageRendered s idx =
     (if idx < length (allMessages s)
      then s\<lparr>tailCount := tailCountToInclude (tailCount s) (int idx) (int (length (allMessages s)))\<rparr>
      else s)"

fun scroll_step :: "'m scroll_state \<Rightarrow> 'm scroll_event \<Rightarrow> 'm scroll_state" where
  "scroll_step s (SwitchThread ms unread) =
     s\<lparr>allMessages := ms, tailCount := initialTailCount unread\<rparr>"
| "scroll_step s (AppendMessages new atBottom) =
     s\<lparr>allMessages := allMessages s @ new,
       tailCount := tailCountAfterAppend (tailCount s) (int (length new)) atBottom\<rparr>"
| "scroll_step s GrowWindow = growWindow s"
| "scroll_step s (HistoryPrepend older) = handleHistoryPrepend s older"
| "scroll_step s (EnsureRendered idx) = ensureMessageRendered s idx"
| "scroll_step s JumpToBottom = s\<lparr>tailCount := BASE_WINDOW\<rparr>"

section \<open>Lemmas\<close>

lemmas window_defs =
  BASE_WINDOW_def WINDOW_GROW_CHUNK_def CONTEXT_ABOVE_def initialTailCount_def
  tailCountAfterAppend_def grownTailCount_def tailCountToInclude_def windowStart_def

lemma visibleMessages_drop:
  "visibleMessages ms t = drop (nat (int (length ms) - t)) ms"
  by (simp add: visibleMessages_def windowStart_def Let_def)

text \<open>The window never shrinks below its base size.\<close>

definition window_ok :: "'m scroll_state \<Rightarrow> bool" where
  "window_ok s \<longleftrightarrow> tailCount s \<ge> BASE_WINDOW"

lemma scroll_step_window_ok: "window_ok s \<Longrightarrow> window_ok (scroll_step s e)"
  by (cases e)
    (auto simp: window_ok_def window_defs growWindow_def handleHistoryPrepend_def
      ensureMessageRendered_def Let_def)

interpretation sw: event_machine scroll_step window_ok
  by unfold_locales (rule scroll_step_window_ok)

lemma length_visibleMessages:
  "t \<ge> 0 \<Longrightarrow> int (length (visibleMessages ms t)) = min (int (length ms)) t"
  by (simp add: visibleMessages_drop)

lemma visibleMessages_suffix: "suffix (visibleMessages ms t) ms"
  by (simp add: visibleMessages_drop suffix_drop)

lemma visibleMessages_contains:
  assumes "windowStart ms t \<le> int i" and "i < length ms"
  shows "ms ! i \<in> set (visibleMessages ms t)"
proof -
  let ?k = "nat (int (length ms) - t)"
  have "?k \<le> i" using assms(1) by (simp add: windowStart_def)
  then have "ms ! i = drop ?k ms ! (i - ?k)" and "i - ?k < length (drop ?k ms)"
    using assms(2) by auto
  then show ?thesis
    unfolding visibleMessages_drop by (metis nth_mem)
qed

lemma visibleMessages_mono: "t \<le> t' \<Longrightarrow> suffix (visibleMessages ms t) (visibleMessages ms t')"
proof -
  assume "t \<le> t'"
  then have "nat (int (length ms) - t') \<le> nat (int (length ms) - t)" by arith
  then obtain d where "nat (int (length ms) - t) = d + nat (int (length ms) - t')"
    by (metis le_add_diff_inverse2)
  then show ?thesis
    unfolding visibleMessages_drop by (metis drop_drop suffix_drop)
qed

lemma growWindow_run_tail:
  "int (length (allMessages s)) \<le> tailCount s + 100 * int n \<Longrightarrow>
   int (length (allMessages s)) \<le> tailCount ((growWindow ^^ n) s)
   \<and> allMessages ((growWindow ^^ n) s) = allMessages s"
proof (induction n arbitrary: s)
  case (Suc n)
  have "int (length (allMessages (growWindow s))) \<le> tailCount (growWindow s) + 100 * int n"
    using Suc.prems by (auto simp: growWindow_def window_defs Let_def)
  moreover have "allMessages (growWindow s) = allMessages s"
    by (simp add: growWindow_def Let_def)
  ultimately show ?case
    using Suc.IH [of "growWindow s"] by (simp add: funpow_swap1)
qed simp

section \<open>Properties\<close>

text \<open>
  while the reader is scrolled up, messages arriving at the tail extend the rendered slice
  and nothing above the viewport shifts: the new slice is the old one followed by exactly the
  new messages.
\<close>

theorem append_scrolled_up_keeps_view:
  "tailCount s \<ge> 0 \<Longrightarrow>
   visibleMessages (allMessages (scroll_step s (AppendMessages new False)))
       (tailCount (scroll_step s (AppendMessages new False)))
     = visibleMessages (allMessages s) (tailCount s) @ new"
  by (simp add: visibleMessages_drop tailCountAfterAppend_def)

theorem append_scrolled_up_keeps_view_witness:
  "visibleMessages (allMessages (scroll_step \<lparr>allMessages = [1,2,3], tailCount = 2\<rparr>
        (AppendMessages [4,5::nat] False)))
     (tailCount (scroll_step \<lparr>allMessages = [1,2,3], tailCount = 2\<rparr>
        (AppendMessages [4,5::nat] False))) = [2,3,4,5]"
  using append_scrolled_up_keeps_view [of "\<lparr>allMessages = [1,2,3], tailCount = 2\<rparr>" "[4,5::nat]"]
  by (simp add: visibleMessages_drop)

text \<open>
  jump-to-message mounts the target.  After \<open>ensureMessageRendered\<close> for a message of the
  thread, the message is in the rendered slice, with twenty messages of context above it where
  the thread has them, and everything that was rendered before still is.
\<close>

theorem ensure_rendered_shows_target:
  assumes "idx < length (allMessages s)"
  shows "let s' = scroll_step s (EnsureRendered idx) in
      windowStart (allMessages s') (tailCount s') \<le> max 0 (int idx - 20)
    \<and> allMessages s ! idx \<in> set (visibleMessages (allMessages s') (tailCount s'))
    \<and> suffix (visibleMessages (allMessages s) (tailCount s))
        (visibleMessages (allMessages s') (tailCount s'))"
proof -
  define s' where "s' = scroll_step s (EnsureRendered idx)"
  have ms: "allMessages s' = allMessages s" and t: "tailCount s' = max (tailCount s)
      (min (int (length (allMessages s))) (int (length (allMessages s)) - int idx + 20))"
    using assms by (simp_all add: s'_def ensureMessageRendered_def tailCountToInclude_def
        CONTEXT_ABOVE_def Let_def)
  have start: "windowStart (allMessages s') (tailCount s') \<le> max 0 (int idx - 20)"
    unfolding windowStart_def ms t by arith
  have target: "allMessages s ! idx \<in> set (visibleMessages (allMessages s') (tailCount s'))"
      unfolding ms
  proof (rule visibleMessages_contains)
    show "windowStart (allMessages s) (tailCount s') \<le> int idx"
      using start unfolding ms by linarith
  qed (rule assms)
  have "suffix (visibleMessages (allMessages s) (tailCount s))
      (visibleMessages (allMessages s') (tailCount s'))"
    unfolding ms by (rule visibleMessages_mono) (simp add: t)
  then show ?thesis using start target unfolding s'_def Let_def by blast
qed

theorem ensure_rendered_shows_target_witness:
  "(30::nat) < length [0..<150] \<and>
   windowStart (allMessages (scroll_step \<lparr>allMessages = [0..<150], tailCount = 100\<rparr> (EnsureRendered 30)))
     (tailCount (scroll_step \<lparr>allMessages = [0..<150::nat], tailCount = 100\<rparr> (EnsureRendered 30))) \<le> 10"
  using ensure_rendered_shows_target [of 30 "\<lparr>allMessages = [0..<150], tailCount = 100\<rparr>"]
  by (simp add: Let_def)

text \<open>
  along every sequence of the hook's events the window keeps at least its base size, so a
  thread of at least a hundred messages never renders fewer than a hundred of them.
\<close>

theorem window_never_below_base:
  assumes "tailCount s \<ge> BASE_WINDOW"
  shows "int (length (visibleMessages (allMessages (foldl scroll_step s es))
            (tailCount (foldl scroll_step s es))))
         \<ge> min (int (length (allMessages (foldl scroll_step s es)))) 100"
proof -
  have "window_ok (foldl scroll_step s es)"
    using assms by (intro sw.run_inv) (simp add: window_ok_def)
  then show ?thesis
    by (simp add: length_visibleMessages window_ok_def BASE_WINDOW_def)
qed

theorem window_never_below_base_witness:
  "int (length (visibleMessages (allMessages (foldl scroll_step
      \<lparr>allMessages = [0..<300], tailCount = 100\<rparr> [GrowWindow, JumpToBottom]))
     (tailCount (foldl scroll_step \<lparr>allMessages = [0..<300], tailCount = 100\<rparr>
        [GrowWindow, JumpToBottom :: nat scroll_event])))) \<ge> 100"
proof -
  have "tailCount (\<lparr>allMessages = [0..<300], tailCount = 100\<rparr> :: nat scroll_state) \<ge> BASE_WINDOW"
    by (simp add: BASE_WINDOW_def)
  note w = window_never_below_base [OF this, of "[GrowWindow, JumpToBottom]"]
  have "allMessages (foldl scroll_step \<lparr>allMessages = [0..<300], tailCount = 100\<rparr>
      [GrowWindow, JumpToBottom :: nat scroll_event]) = [0..<300]"
    by (simp add: growWindow_def Let_def)
  then show ?thesis using w by simp
qed

text \<open>
  scrolling to the top terminates: a growth step per hundred missing messages mounts the
  whole thread.
\<close>

theorem growth_reaches_top:
  assumes "n \<ge> nat ((int (length (allMessages s)) - tailCount s + 99) div 100)"
  shows "visibleMessages (allMessages ((growWindow ^^ n) s)) (tailCount ((growWindow ^^ n) s))
     = allMessages s"
proof -
  have "int (length (allMessages s)) \<le> tailCount s + 100 * int n"
    using assms by arith
  from growWindow_run_tail [OF this] show ?thesis
    by (simp add: visibleMessages_drop)
qed

theorem growth_reaches_top_witness:
  "visibleMessages (allMessages ((growWindow ^^ 3) \<lparr>allMessages = [0..<350::nat], tailCount = 100\<rparr>))
     (tailCount ((growWindow ^^ 3) \<lparr>allMessages = [0..<350], tailCount = 100\<rparr>)) = [0..<350]"
  using growth_reaches_top [of "\<lparr>allMessages = [0..<350], tailCount = 100\<rparr>" 3] by simp

end
