(* ===== verification/Reactions.thy ===== *)
theory Reactions
  imports AppTypes "HOL-Library.Multiset"
begin

text \<open>
  The in-memory reaction store of \<open>components/chat/reaction/reactionStore.ts\<close>, the two store
  listeners that feed it (\<open>PchatReactionDeliver\<close> and \<open>PchatReactionFetchResponse\<close> of
  \<open>store.ts\<close>) and the toggle decision of \<open>useReactions.ts\<close>.  \<open>Date.now()\<close> is the argument
  \<open>now\<close>.  The abstract specification is the relation "user \<open>h\<close> reacted to message \<open>m\<close> with
  emoji \<open>e\<close>", a set of triples.
\<close>

section \<open>State\<close>

record reaction_summary =
  sum_emoji :: string
  sum_reactorHashes :: "string jset"
  sum_reactorHashNames :: "(string, string) jmap"
  sum_firstTimestamp :: int

record custom_reaction =
  cr_shortcode :: string
  cr_display :: string
  cr_label :: "string option"

record reaction_data =
  rd_hashes :: "string jset"
  rd_hashNames :: "(string, string) jmap"
  rd_firstTimestamp :: int

record reaction_store =
  reactionMap :: "(string, (string, reaction_data) jmap) jmap"
  serverCustomReactions :: "custom_reaction list"

datatype reaction_action = AddReaction | RemoveReaction

section \<open>Accessors\<close>

definition getReactions :: "reaction_store \<Rightarrow> string \<Rightarrow> reaction_summary list" where
  "getReactions s messageId =
     (case map_get (reactionMap s) messageId of
        None \<Rightarrow> []
      | Some byEmoji \<Rightarrow>
          sort_key sum_firstTimestamp
            (map (\<lambda>(emoji, d). \<lparr>sum_emoji = emoji, sum_reactorHashes = rd_hashes d,
                    sum_reactorHashNames = rd_hashNames d, sum_firstTimestamp = rd_firstTimestamp d\<rparr>)
              (filter (\<lambda>(emoji, d). rd_hashes d \<noteq> []) byEmoji)))"

definition hasReacted :: "reaction_store \<Rightarrow> string \<Rightarrow> string \<Rightarrow> string \<Rightarrow> bool" where
  "hasReacted s messageId emoji certHash =
     (case map_get (reactionMap s) messageId of
        None \<Rightarrow> False
      | Some byEmoji \<Rightarrow>
          (case map_get byEmoji emoji of
             None \<Rightarrow> False
           | Some d \<Rightarrow> set_has (rd_hashes d) certHash))"

section \<open>Mutations\<close>

definition fresh_data :: "int \<Rightarrow> reaction_data" where
  "fresh_data now = \<lparr>rd_hashes = [], rd_hashNames = [], rd_firstTimestamp = now\<rparr>"

definition add_reactor :: "string \<Rightarrow> string \<Rightarrow> reaction_data \<Rightarrow> reaction_data" where
  "add_reactor h n d =
     d\<lparr>rd_hashes := set_add h (rd_hashes d), rd_hashNames := map_set h n (rd_hashNames d)\<rparr>"

definition remove_reactor :: "string \<Rightarrow> reaction_data \<Rightarrow> reaction_data" where
  "remove_reactor h d =
     d\<lparr>rd_hashes := set_remove h (rd_hashes d), rd_hashNames := map_del h (rd_hashNames d)\<rparr>"

definition applyReaction ::
  "int \<Rightarrow> string \<Rightarrow> string \<Rightarrow> reaction_action \<Rightarrow> string \<Rightarrow> string \<Rightarrow> reaction_store \<Rightarrow> reaction_store"
where
  "applyReaction now messageId emoji action senderHash senderName s =
     (let byEmoji = or_else (map_get (reactionMap s) messageId) [];
          m0 = (if map_has (reactionMap s) messageId then reactionMap s
                else map_set messageId [] (reactionMap s));
          d0 = or_else (map_get byEmoji emoji) (fresh_data now);
          by0 = (if map_has byEmoji emoji then byEmoji else map_set emoji d0 byEmoji)
      in case action of
           AddReaction \<Rightarrow>
             s\<lparr>reactionMap := map_set messageId
                 (map_set emoji (add_reactor senderHash senderName d0) by0) m0\<rparr>
         | RemoveReaction \<Rightarrow>
             let d1 = remove_reactor senderHash d0;
                 by1 = (if rd_hashes d1 = [] then map_del emoji by0 else map_set emoji d1 by0)
             in s\<lparr>reactionMap := (if by1 = [] then map_del messageId m0
                                  else map_set messageId by1 m0)\<rparr>)"

definition setServerCustomReactions :: "custom_reaction list \<Rightarrow> reaction_store \<Rightarrow> reaction_store" where
  "setServerCustomReactions rs s = s\<lparr>serverCustomReactions := rs\<rparr>"

definition resetReactions :: "reaction_store \<Rightarrow> reaction_store" where
  "resetReactions s = \<lparr>reactionMap = [], serverCustomReactions = []\<rparr>"

section \<open>The listeners\<close>

record reaction_deliver_event =
  rv_message_id :: string
  rv_emoji :: string
  rv_action :: reaction_action
  rv_sender_hash :: string
  rv_sender_name :: string

record stored_reaction =
  sr_message_id :: string
  sr_emoji :: string
  sr_sender_hash :: string
  sr_sender_name :: string
  sr_timestamp :: int

definition onReactionDeliver ::
  "int \<Rightarrow> user_entry list \<Rightarrow> reaction_deliver_event \<Rightarrow> reaction_store \<times> int \<Rightarrow> reaction_store \<times> int"
where
  "onReactionDeliver now users e st =
     (case st of (s, reactionVersion) \<Rightarrow>
       (let resolvedName = resolve_by_hash users (rv_sender_hash e) (rv_sender_name e)
        in (applyReaction now (rv_message_id e) (rv_emoji e) (rv_action e) (rv_sender_hash e)
              resolvedName s,
            reactionVersion + 1)))"

definition onReactionFetchResponse ::
  "int \<Rightarrow> user_entry list \<Rightarrow> stored_reaction list \<Rightarrow> reaction_store \<times> int \<Rightarrow> reaction_store \<times> int"
where
  "onReactionFetchResponse now users reactions st =
     (case st of (s, reactionVersion) \<Rightarrow>
       (foldl (\<lambda>s r. applyReaction now (sr_message_id r) (sr_emoji r) AddReaction (sr_sender_hash r)
                 (resolve_by_hash users (sr_sender_hash r) (sr_sender_name r)) s) s reactions,
        reactionVersion + 1))"

text \<open>
  \<open>toggleReaction\<close>: the channel, message, emoji and action sent to the server, \<open>None\<close> when
  nothing is sent.  A message without an id is not reacted to, and \<open>doSendReaction\<close> sends
  nothing without an own session.  A message's \<open>channel_id\<close> is never null, so the fallbacks to
  the selected channel and to 0 do not apply.
\<close>

definition toggleReaction ::
  "reaction_store \<Rightarrow> user_entry list \<Rightarrow> int option \<Rightarrow> chat_message \<Rightarrow> string
    \<Rightarrow> (int \<times> string \<times> string \<times> reaction_action) option"
where
  "toggleReaction s users ownSession msg emoji =
     (case cm_message_id msg of
        None \<Rightarrow> None
      | Some mid \<Rightarrow>
          if mid = '''' then None
          else (case ownSession of
            None \<Rightarrow> None
          | Some own \<Rightarrow>
              (let ownHash = (case List.find (\<lambda>u. us_session u = own) users of
                     None \<Rightarrow> '''' | Some u \<Rightarrow> or_else (us_hash u) '''');
                   alreadyReacted = (ownHash \<noteq> '''' \<and> hasReacted s mid emoji ownHash)
               in Some (cm_channel_id msg, mid, emoji,
                    if alreadyReacted then RemoveReaction else AddReaction))))"

section \<open>Well-formed stores\<close>

definition data_ok :: "reaction_data \<Rightarrow> bool" where
  "data_ok d \<longleftrightarrow> rd_hashes d \<noteq> [] \<and> distinct (rd_hashes d) \<and> map_wf (rd_hashNames d)
     \<and> fst ` set (rd_hashNames d) = set (rd_hashes d)"

definition emojis_ok :: "(string, reaction_data) jmap \<Rightarrow> bool" where
  "emojis_ok m \<longleftrightarrow> m \<noteq> [] \<and> map_wf m \<and> map_all data_ok m"

definition reactions_ok :: "reaction_store \<Rightarrow> bool" where
  "reactions_ok s \<longleftrightarrow> map_wf (reactionMap s) \<and> map_all emojis_ok (reactionMap s)"

section \<open>Lemmas\<close>

lemma data_ok_add:
  "data_ok d \<or> d = fresh_data now \<Longrightarrow> data_ok (add_reactor h n d)"
  by (auto simp: data_ok_def add_reactor_def fresh_data_def)

lemma data_ok_remove:
  "data_ok d \<or> d = fresh_data now \<Longrightarrow> rd_hashes (remove_reactor h d) \<noteq> [] \<Longrightarrow>
   data_ok (remove_reactor h d)"
  by (auto simp: data_ok_def remove_reactor_def fresh_data_def)

lemma emojis_ok_set: "map_wf m \<Longrightarrow> map_all data_ok m \<Longrightarrow> data_ok d \<Longrightarrow> emojis_ok (map_set e d m)"
  by (simp add: emojis_ok_def)

lemma reactions_ok_get: "reactions_ok s \<Longrightarrow> map_get (reactionMap s) m = Some b \<Longrightarrow> emojis_ok b"
  by (auto simp: reactions_ok_def dest: map_all_get)

text \<open>The two branches of \<open>applyReaction\<close> without the intermediate insertions.\<close>

lemma applyReaction_add:
  "reactionMap (applyReaction now m e AddReaction h n s) =
     (let b = or_else (map_get (reactionMap s) m) [] in
      map_set m (map_set e (add_reactor h n (or_else (map_get b e) (fresh_data now))) b) (reactionMap s))"
  by (simp add: applyReaction_def Let_def map_set_set)

lemma applyReaction_remove:
  "reactionMap (applyReaction now m e RemoveReaction h n s) =
     (let b = or_else (map_get (reactionMap s) m) [];
          d = remove_reactor h (or_else (map_get b e) (fresh_data now));
          b' = (if rd_hashes d = [] then map_del e b else map_set e d b)
      in if b' = [] then map_del m (reactionMap s) else map_set m b' (reactionMap s))"
  by (simp add: applyReaction_def Let_def map_set_set map_del_set)

definition reacted_in :: "(string, reaction_data) jmap \<Rightarrow> string \<Rightarrow> string \<Rightarrow> bool" where
  "reacted_in b e h = (case map_get b e of None \<Rightarrow> False | Some d \<Rightarrow> h \<in> set (rd_hashes d))"

lemma hasReacted_in: "hasReacted s m e h = reacted_in (or_else (map_get (reactionMap s) m) []) e h"
  by (cases "map_get (reactionMap s) m") (auto simp: hasReacted_def reacted_in_def split: option.split)

lemma reacted_in_add:
  "reacted_in (map_set e (add_reactor h n (or_else (map_get b e) (fresh_data now))) b) e' h' \<longleftrightarrow>
     (e' = e \<and> h' = h) \<or> reacted_in b e' h'"
  by (cases "map_get b e") (auto simp: reacted_in_def add_reactor_def fresh_data_def)

lemma reacted_in_remove:
  assumes "d = remove_reactor h (or_else (map_get b e) (fresh_data now))"
  shows "reacted_in (if rd_hashes d = [] then map_del e b else map_set e d b) e' h' \<longleftrightarrow>
     reacted_in b e' h' \<and> \<not> (e' = e \<and> h' = h)"
proof (cases "e' = e")
  case False
  then show ?thesis by (simp add: reacted_in_def)
next
  case True
  then show ?thesis
    by (cases "map_get b e")
      (auto simp: assms reacted_in_def remove_reactor_def fresh_data_def set_remove_Nil_iff)
qed

lemma hasReacted_add:
  "hasReacted (applyReaction now m e AddReaction h n s) m' e' h' \<longleftrightarrow>
     (m' = m \<and> e' = e \<and> h' = h) \<or> hasReacted s m' e' h'"
  by (cases "m' = m") (simp_all add: hasReacted_in applyReaction_add Let_def reacted_in_add)

lemma hasReacted_remove:
  "hasReacted (applyReaction now m e RemoveReaction h n s) m' e' h' \<longleftrightarrow>
     hasReacted s m' e' h' \<and> \<not> (m' = m \<and> e' = e \<and> h' = h)"
proof -
  define b where "b = or_else (map_get (reactionMap s) m) []"
  define d where "d = remove_reactor h (or_else (map_get b e) (fresh_data now))"
  define b' where "b' = (if rd_hashes d = [] then map_del e b else map_set e d b)"
  have "or_else (map_get (reactionMap (applyReaction now m e RemoveReaction h n s)) m') [] =
      (if m' = m then b' else or_else (map_get (reactionMap s) m') [])"
    by (auto simp: applyReaction_remove b'_def d_def b_def Let_def)
  moreover have "reacted_in b' e' h' \<longleftrightarrow> reacted_in b e' h' \<and> \<not> (e' = e \<and> h' = h)"
    unfolding b'_def by (rule reacted_in_remove) (simp add: d_def)
  ultimately show ?thesis by (auto simp: hasReacted_in b_def)
qed

lemma applyReaction_ok:
  assumes "reactions_ok s"
  shows "reactions_ok (applyReaction now m e a h n s)"
proof -
  define b where "b = or_else (map_get (reactionMap s) m) []"
  define d0 where "d0 = or_else (map_get b e) (fresh_data now)"
  have b: "map_wf b" "map_all data_ok b"
    using reactions_ok_get [OF assms, of m] unfolding b_def
    by (cases "map_get (reactionMap s) m"; simp add: emojis_ok_def)+
  have d0: "data_ok d0 \<or> d0 = fresh_data now"
    using map_all_get [OF b(2), of e] by (cases "map_get b e") (auto simp: d0_def)
  have put: "emojis_ok x \<Longrightarrow> map_wf (map_set m x (reactionMap s)) \<and> map_all emojis_ok (map_set m x (reactionMap s))"
    and del: "map_wf (map_del m (reactionMap s)) \<and> map_all emojis_ok (map_del m (reactionMap s))" for x
    using assms by (auto simp: reactions_ok_def)
  show ?thesis
  proof (cases a)
    case AddReaction
    from put [OF emojis_ok_set [OF b data_ok_add [OF d0]]] show ?thesis
      by (simp add: reactions_ok_def AddReaction applyReaction_add b_def d0_def Let_def)
  next
    case RemoveReaction
    define b' where "b' = (if rd_hashes (remove_reactor h d0) = [] then map_del e b
        else map_set e (remove_reactor h d0) b)"
    have "b' \<noteq> [] \<Longrightarrow> emojis_ok b'"
      using b emojis_ok_set [OF b data_ok_remove [OF d0]] by (auto simp: b'_def emojis_ok_def)
    then show ?thesis
      using put [of b'] del
      by (auto simp: reactions_ok_def RemoveReaction applyReaction_remove b_def d0_def b'_def Let_def)
  qed
qed

section \<open>The abstract specification\<close>

type_synonym reaction_rel = "(string \<times> string \<times> string) set"

datatype reaction_op = ReactionOp int string string reaction_action string string

fun reaction_handle :: "reaction_store \<Rightarrow> reaction_op \<Rightarrow> reaction_store" where
  "reaction_handle s (ReactionOp now m e a h n) = applyReaction now m e a h n s"

fun reaction_spec :: "reaction_rel \<Rightarrow> reaction_op \<Rightarrow> reaction_rel" where
  "reaction_spec R (ReactionOp now m e AddReaction h n) = insert (m, e, h) R"
| "reaction_spec R (ReactionOp now m e RemoveReaction h n) = R - {(m, e, h)}"

definition reaction_abs :: "reaction_store \<Rightarrow> reaction_rel" where
  "reaction_abs s = {(m, e, h). hasReacted s m e h}"

lemma reaction_handle_simulates: "reaction_abs (reaction_handle s op) = reaction_spec (reaction_abs s) op"
proof (cases op)
  case (ReactionOp now m e a h n)
  then show ?thesis
    by (cases a) (auto simp: reaction_abs_def hasReacted_add hasReacted_remove)
qed

interpretation rx: simulation reaction_handle reactions_ok reaction_abs reaction_spec
proof unfold_locales
  show "reactions_ok s \<Longrightarrow> reactions_ok (reaction_handle s e)" for s e
    by (cases e) (simp add: applyReaction_ok)
  show "reactions_ok s \<Longrightarrow> reaction_abs (reaction_handle s e) = reaction_spec (reaction_abs s) e" for s e
    by (rule reaction_handle_simulates)
qed

section \<open>Properties\<close>

text \<open>
  C16: the reaction store implements the relation "user reacted to message with emoji": after
  any sequence of add and remove deliveries, \<open>hasReacted\<close> answers exactly as the set of triples
  kept by inserting on add and deleting on remove, and the store is well formed (no message or
  emoji entry without a reactor, names known for exactly the reactors).
\<close>

theorem reactions_refine_relation:
  assumes "reactions_ok s"
  shows "reaction_abs (foldl reaction_handle s ops) = foldl reaction_spec (reaction_abs s) ops
    \<and> reactions_ok (foldl reaction_handle s ops)"
  using rx.run_simulates [OF assms] rx.run_inv [OF assms] by blast

theorem reactions_refine_relation_witness:
  "reaction_abs (foldl reaction_handle \<lparr>reactionMap = [], serverCustomReactions = []\<rparr>
      [ReactionOp 1 ''m'' ''+1'' AddReaction ''h'' ''Ann'', ReactionOp 2 ''m'' ''+1'' AddReaction ''k'' ''Bob'',
       ReactionOp 3 ''m'' ''+1'' RemoveReaction ''h'' ''Ann'']) = {(''m'', ''+1'', ''k'')}"
proof -
  have "reactions_ok \<lparr>reactionMap = [], serverCustomReactions = []\<rparr>" by (simp add: reactions_ok_def)
  note r = reactions_refine_relation [OF this, of
      "[ReactionOp 1 ''m'' ''+1'' AddReaction ''h'' ''Ann'', ReactionOp 2 ''m'' ''+1'' AddReaction ''k'' ''Bob'',
       ReactionOp 3 ''m'' ''+1'' RemoveReaction ''h'' ''Ann'']"]
  have "reaction_abs \<lparr>reactionMap = [], serverCustomReactions = []\<rparr> = {}"
    by (simp add: reaction_abs_def hasReacted_def)
  then show ?thesis using r by auto
qed

text \<open>
  what a message shows.  On a well-formed store, \<open>getReactions\<close> lists exactly the emojis
  somebody reacted with, each once, with exactly its reactors, in order of their first
  reaction.
\<close>

theorem getReactions_exact:
  assumes "reactions_ok s"
  shows "sorted (map sum_firstTimestamp (getReactions s m))
    \<and> distinct (map sum_emoji (getReactions s m))
    \<and> (\<forall>e h. (\<exists>r. r \<in> set (getReactions s m) \<and> sum_emoji r = e \<and> h \<in> set (sum_reactorHashes r))
          \<longleftrightarrow> hasReacted s m e h)"
proof (cases "map_get (reactionMap s) m")
  case None
  then show ?thesis by (simp add: getReactions_def hasReacted_def)
next
  case (Some b)
  define mk :: "string \<times> reaction_data \<Rightarrow> reaction_summary" where
    "mk = (\<lambda>(emoji, d). \<lparr>sum_emoji = emoji, sum_reactorHashes = rd_hashes d,
      sum_reactorHashNames = rd_hashNames d, sum_firstTimestamp = rd_firstTimestamp d\<rparr>)"
  have ok: "emojis_ok b" using reactions_ok_get [OF assms Some] .
  then have all: "filter (\<lambda>(emoji, d). rd_hashes d \<noteq> []) b = b"
    by (force simp: emojis_ok_def data_ok_def map_all_def filter_id_conv)
  have g: "getReactions s m = sort_key sum_firstTimestamp (map mk b)"
    by (simp add: getReactions_def Some all mk_def [symmetric])
  have "mset (map sum_emoji (getReactions s m)) = mset (map fst b)"
    by (simp add: g mk_def multiset.map_comp comp_def case_prod_unfold)
  then have "distinct (map sum_emoji (getReactions s m))"
    using ok unfolding emojis_ok_def map_wf_def by (metis mset_eq_imp_distinct_iff)
  moreover have "hasReacted s m e h \<longleftrightarrow> (\<exists>d. (e, d) \<in> set b \<and> h \<in> set (rd_hashes d))" for e h
    using ok by (auto simp: hasReacted_in Some reacted_in_def emojis_ok_def
        map_get_iff [symmetric] split: option.split)
  moreover have "(\<exists>r. r \<in> set (getReactions s m) \<and> sum_emoji r = e \<and> h \<in> set (sum_reactorHashes r))
      \<longleftrightarrow> (\<exists>d. (e, d) \<in> set b \<and> h \<in> set (rd_hashes d))" for e h
    by (auto simp: g mk_def intro: bexI [of _ "(e, d)" for d])
  ultimately show ?thesis by (simp add: g)
qed

theorem getReactions_exact_witness:
  "\<exists>r. r \<in> set (getReactions
        (applyReaction 7 ''m'' ''ok'' AddReaction ''h'' ''Ann'' \<lparr>reactionMap = [], serverCustomReactions = []\<rparr>) ''m'')
      \<and> sum_emoji r = ''ok'' \<and> ''h'' \<in> set (sum_reactorHashes r)"
proof -
  have "reactions_ok (applyReaction 7 ''m'' ''ok'' AddReaction ''h'' ''Ann''
      \<lparr>reactionMap = [], serverCustomReactions = []\<rparr>)"
    by (rule applyReaction_ok) (simp add: reactions_ok_def)
  from getReactions_exact [OF this, of "''m''"] show ?thesis
    by (simp add: hasReacted_add)
qed

end
