(* ===== verification/ReadReceipts.thy ===== *)
theory ReadReceipts
  imports AppTypes
begin

text \<open>
  Read watermarks: the module store of \<open>components/chat/readreceipt/readReceiptStore.ts\<close> and the
  sending hook \<open>useReadReceipts.ts\<close>.  A channel's messages are the list of their ids, oldest
  first, as the callers pass it.
\<close>

section \<open>State\<close>

type_synonym read_map = "(int, (string, read_state) jmap) jmap"

section \<open>Accessors\<close>

definition getChannelReadStates :: "read_map \<Rightarrow> int \<Rightarrow> read_state list" where
  "getChannelReadStates m channelId =
     (case map_get m channelId of None \<Rightarrow> [] | Some byHash \<Rightarrow> map_values byHash)"

definition hasUserReadMessage :: "read_map \<Rightarrow> int \<Rightarrow> string \<Rightarrow> string \<Rightarrow> string list \<Rightarrow> bool" where
  "hasUserReadMessage m channelId certHash messageId allMessageIds =
     (case map_get m channelId of
        None \<Rightarrow> False
      | Some byHash \<Rightarrow>
          (case map_get byHash certHash of
             None \<Rightarrow> False
           | Some state \<Rightarrow>
               (case (index_of allMessageIds (rs_last_read_message_id state),
                      index_of allMessageIds messageId) of
                  (Some watermarkIdx, Some messageIdx) \<Rightarrow> watermarkIdx \<ge> messageIdx
                | _ \<Rightarrow> False)))"

text \<open>\<open>watermarkIdx >= targetIdx\<close>, where an absent watermark is -1 and the target is present.\<close>

definition at_or_past :: "string list \<Rightarrow> nat \<Rightarrow> read_state \<Rightarrow> bool" where
  "at_or_past allMessageIds targetIdx state =
     (case index_of allMessageIds (rs_last_read_message_id state) of
        None \<Rightarrow> False
      | Some watermarkIdx \<Rightarrow> watermarkIdx \<ge> targetIdx)"

definition getReadersForMessage :: "read_map \<Rightarrow> int \<Rightarrow> string \<Rightarrow> string list \<Rightarrow> read_state list" where
  "getReadersForMessage m channelId messageId allMessageIds =
     (case map_get m channelId of
        None \<Rightarrow> []
      | Some byHash \<Rightarrow>
          (case index_of allMessageIds messageId of
             None \<Rightarrow> []
           | Some targetIdx \<Rightarrow> filter (at_or_past allMessageIds targetIdx) (map_values byHash)))"

definition allActiveUsersRead ::
  "read_map \<Rightarrow> int \<Rightarrow> string \<Rightarrow> string list \<Rightarrow> string list \<Rightarrow> string option \<Rightarrow> bool" where
  "allActiveUsersRead m channelId messageId allMessageIds activeUserHashes ownCertHash =
     (if activeUserHashes = [] then False
      else
        (let othersHashes = (case ownCertHash of
               None \<Rightarrow> activeUserHashes
             | Some own \<Rightarrow> if own = '''' then activeUserHashes
                           else filter (\<lambda>h. h \<noteq> own) activeUserHashes)
         in if othersHashes = [] then True
            else (case index_of allMessageIds messageId of
                    None \<Rightarrow> False
                  | Some targetIdx \<Rightarrow>
                      (case map_get m channelId of
                         None \<Rightarrow> False
                       | Some byHash \<Rightarrow>
                           list_all (\<lambda>hash. case map_get byHash hash of
                                None \<Rightarrow> False
                              | Some state \<Rightarrow> at_or_past allMessageIds targetIdx state) othersHashes))))"

section \<open>Mutations\<close>

definition apply_one :: "(string, read_state) jmap \<Rightarrow> read_state \<Rightarrow> (string, read_state) jmap" where
  "apply_one byHash rs =
     (if rs_cert_hash rs = '''' then byHash
      else case map_get byHash (rs_cert_hash rs) of
             None \<Rightarrow> map_set (rs_cert_hash rs) rs byHash
           | Some existing \<Rightarrow>
               if rs_timestamp rs \<ge> rs_timestamp existing
               then map_set (rs_cert_hash rs) rs byHash else byHash)"

definition applyReadStates :: "int \<Rightarrow> read_state list \<Rightarrow> read_map \<Rightarrow> read_map" where
  "applyReadStates channelId states m =
     map_set channelId (foldl apply_one (or_else (map_get m channelId) []) states) m"

definition clearReadReceipts :: "read_map \<Rightarrow> read_map" where
  "clearReadReceipts m = []"

text \<open>The \<open>ReadReceiptDeliver\<close> listener of the store, with its version counter.\<close>

definition onReadReceiptDeliver :: "int \<Rightarrow> read_state list \<Rightarrow> read_map \<times> int \<Rightarrow> read_map \<times> int" where
  "onReadReceiptDeliver channel_id read_states st =
     (case st of (m, readReceiptVersion) \<Rightarrow>
       (applyReadStates channel_id read_states m, readReceiptVersion + 1))"

section \<open>The sending hook\<close>

record receipt_hook =
  rh_channelRef :: "int option"
  rh_lastSentRef :: "string option"
  rh_disabledRef :: bool

datatype receipt_call = QueryReceipts int | SendReceipt int string

definition sendReceipt :: "receipt_hook \<Rightarrow> int \<Rightarrow> string \<Rightarrow> receipt_call list" where
  "sendReceipt h chId msgId = (if rh_disabledRef h then [] else [SendReceipt chId msgId])"

definition effect_query :: "receipt_hook \<Rightarrow> int option \<Rightarrow> receipt_hook \<times> receipt_call list" where
  "effect_query h channelId =
     (case channelId of
        None \<Rightarrow> (h, [])
      | Some c \<Rightarrow> if rh_channelRef h = Some c then (h, [])
                  else (h\<lparr>rh_channelRef := Some c, rh_lastSentRef := None\<rparr>, [QueryReceipts c]))"

definition effect_send ::
  "receipt_hook \<Rightarrow> int option \<Rightarrow> string option \<Rightarrow> bool \<Rightarrow> receipt_hook \<times> receipt_call list" where
  "effect_send h channelId lastMessageId visible =
     (case (channelId, lastMessageId) of
        (Some c, Some mid) \<Rightarrow>
          if mid = '''' then (h, [])
          else if \<not> visible then (h, [])
          else if rh_lastSentRef h = Some mid then (h, [])
          else (h\<lparr>rh_lastSentRef := Some mid\<rparr>, sendReceipt h c mid)
      | _ \<Rightarrow> (h, []))"

definition handleVisibility :: "receipt_hook \<Rightarrow> bool \<Rightarrow> receipt_call list" where
  "handleVisibility h visible =
     (if \<not> visible then []
      else case (rh_channelRef h, rh_lastSentRef h) of
             (Some c, Some mid) \<Rightarrow> if mid = '''' then [] else sendReceipt h c mid
           | _ \<Rightarrow> [])"

section \<open>Lemmas\<close>

text \<open>What a channel's map holds for a user after a delivery: the newest state seen.\<close>

definition newest :: "read_state option \<Rightarrow> read_state \<Rightarrow> read_state option" where
  "newest old rs =
     (case old of None \<Rightarrow> Some rs
      | Some e \<Rightarrow> if rs_timestamp rs \<ge> rs_timestamp e then Some rs else Some e)"

lemma apply_one_get:
  "map_get (apply_one b rs) h =
     (if rs_cert_hash rs = h \<and> h \<noteq> '''' then newest (map_get b h) rs else map_get b h)"
  by (auto simp: apply_one_def newest_def split: option.split)

lemma apply_states_get:
  "map_get (foldl apply_one b states) h =
     foldl newest (map_get b h) (filter (\<lambda>rs. rs_cert_hash rs = h \<and> h \<noteq> '''') states)"
  by (induction states arbitrary: b) (auto simp: apply_one_get)

lemma foldl_newest_max:
  assumes "foldl newest old xs = Some r"
  shows "r \<in> set xs \<union> set_option old
    \<and> (\<forall>x \<in> set xs \<union> set_option old. rs_timestamp x \<le> rs_timestamp r)"
  using assms
proof (induction xs arbitrary: old r)
  case (Cons x xs)
  have "\<exists>e. newest old x = Some e \<and> e \<in> insert x (set_option old)
      \<and> (\<forall>y \<in> insert x (set_option old). rs_timestamp y \<le> rs_timestamp e)"
    by (cases old) (auto simp: newest_def)
  then obtain e where e: "newest old x = Some e" and "e \<in> insert x (set_option old)"
    and "\<forall>y \<in> insert x (set_option old). rs_timestamp y \<le> rs_timestamp e"
    by blast
  with Cons.IH [of "Some e" r] Cons.prems show ?case by (auto simp: e)
qed simp

lemma foldl_newest_Some: "xs \<noteq> [] \<Longrightarrow> \<exists>r. foldl newest old xs = Some r"
proof (induction xs arbitrary: old)
  case (Cons x xs)
  have "newest old x \<noteq> None" by (cases old) (auto simp: newest_def)
  with Cons show ?case by (cases xs) auto
qed simp

lemma foldl_newest_perm:
  assumes "set xs = set ys" and "inj_on rs_timestamp (set xs \<union> set_option old)"
  shows "foldl newest old xs = foldl newest old ys"
proof (cases "xs = []")
  case True
  with assms(1) show ?thesis by simp
next
  case False
  with assms(1) have "ys \<noteq> []" by auto
  with False obtain r q where r: "foldl newest old xs = Some r" and q: "foldl newest old ys = Some q"
    using foldl_newest_Some by blast
  from foldl_newest_max [OF r] foldl_newest_max [OF q] assms
  have "rs_timestamp r = rs_timestamp q" and "r \<in> set xs \<union> set_option old" and "q \<in> set xs \<union> set_option old"
    by (auto intro!: antisym)
  with assms(2) have "r = q" by (auto dest: inj_onD)
  with r q show ?thesis by simp
qed

lemma at_or_past_iff:
  "index_of ids m = Some i \<Longrightarrow>
   at_or_past ids i st = (case (index_of ids (rs_last_read_message_id st), index_of ids m) of
       (Some w, Some t) \<Rightarrow> w \<ge> t | _ \<Rightarrow> False)"
  by (simp add: at_or_past_def split: option.split)

lemma apply_batches_get:
  "map_get (or_else (map_get (foldl (\<lambda>m xs. applyReadStates ch xs m) m xss) ch) []) h
     = foldl newest (map_get (or_else (map_get m ch) []) h)
         (filter (\<lambda>rs. rs_cert_hash rs = h \<and> h \<noteq> '''') (concat xss))"
proof (induction xss arbitrary: m)
  case (Cons xs xss)
  have "map_get (or_else (map_get (applyReadStates ch xs m) ch) []) h
      = foldl newest (map_get (or_else (map_get m ch) []) h)
          (filter (\<lambda>rs. rs_cert_hash rs = h \<and> h \<noteq> '''') xs)"
    by (simp add: applyReadStates_def apply_states_get)
  then show ?case using Cons [of "applyReadStates ch xs m"] by simp
qed simp

section \<open>Properties\<close>

text \<open>
  C23: watermarks converge.  Where the states delivered for a user, and the one held before, have pairwise
  distinct timestamps, the stored read state of that user does not depend on how the deliveries of the
  channel are ordered or batched: two clients that received the same states agree.  On equal timestamps the
  state delivered last is kept, and they may not (\<open>read_tie_keeps_last\<close>).
\<close>

theorem read_states_converge:
  assumes "set (concat xss) = set (concat yss)"
    and "inj_on rs_timestamp ({s \<in> set (concat xss). rs_cert_hash s = h} \<union> set_option (map_get (or_else (map_get m ch) []) h))"
  shows "map_get (or_else (map_get (foldl (\<lambda>m xs. applyReadStates ch xs m) m xss) ch) []) h
       = map_get (or_else (map_get (foldl (\<lambda>m xs. applyReadStates ch xs m) m yss) ch) []) h"
proof -
  let ?old = "map_get (or_else (map_get m ch) []) h"
  let ?f = "filter (\<lambda>rs. rs_cert_hash rs = h \<and> h \<noteq> '''')"
  have "foldl newest ?old (?f (concat xss)) = foldl newest ?old (?f (concat yss))"
  proof (rule foldl_newest_perm)
    show "set (?f (concat xss)) = set (?f (concat yss))" using assms(1) by simp
    show "inj_on rs_timestamp (set (?f (concat xss)) \<union> set_option ?old)"
      by (rule inj_on_subset [OF assms(2)]) auto
  qed
  then show ?thesis by (simp only: apply_batches_get)
qed

theorem read_states_converge_witness:
  "map_get (or_else (map_get (foldl (\<lambda>m xs. applyReadStates 1 xs m) []
       [[\<lparr>rs_cert_hash = ''a'', rs_name = '''', rs_is_online = True, rs_last_read_message_id = ''m1'', rs_timestamp = 1\<rparr>],
        [\<lparr>rs_cert_hash = ''a'', rs_name = '''', rs_is_online = True, rs_last_read_message_id = ''m2'', rs_timestamp = 2\<rparr>]]) 1) []) ''a''
   = map_get (or_else (map_get (foldl (\<lambda>m xs. applyReadStates 1 xs m) []
       [[\<lparr>rs_cert_hash = ''a'', rs_name = '''', rs_is_online = True, rs_last_read_message_id = ''m2'', rs_timestamp = 2\<rparr>,
        \<lparr>rs_cert_hash = ''a'', rs_name = '''', rs_is_online = True, rs_last_read_message_id = ''m1'', rs_timestamp = 1\<rparr>]]) 1) []) ''a''"
  by (rule read_states_converge) (auto simp: inj_on_def)

lemma read_tie_keeps_last:
  "let s = \<lparr>rs_cert_hash = ''a'', rs_name = '''', rs_is_online = True, rs_last_read_message_id = ''m1'', rs_timestamp = 1\<rparr>;
       t = s\<lparr>rs_last_read_message_id := ''m2''\<rparr>
   in map_get (or_else (map_get (applyReadStates 1 [s, t] []) 1) []) ''a'' = Some t
    \<and> map_get (or_else (map_get (applyReadStates 1 [t, s] []) 1) []) ''a'' = Some s"
  by code_simp

text \<open>
  the double check mark is sound and complete: when somebody other than the sender is
  active, the message is shown as read by all exactly when each of the others has read it, and
  having read a message implies having read every earlier one.
\<close>

theorem all_read_iff_each_read:
  assumes "own \<noteq> ''''" and "\<exists>h. h \<in> set active \<and> h \<noteq> own"
  shows "(allActiveUsersRead m ch mid ids active (Some own)
       = list_all (\<lambda>h. h = own \<or> hasUserReadMessage m ch h mid ids) active)
    \<and> (hasUserReadMessage m ch h (ids ! j) ids \<and> distinct ids \<and> i \<le> j \<and> j < length ids
       \<longrightarrow> hasUserReadMessage m ch h (ids ! i) ids)"
proof
  have "active \<noteq> []" and "filter (\<lambda>h. h \<noteq> own) active \<noteq> []"
    using assms(2) by (auto simp: filter_empty_conv)
  then show "allActiveUsersRead m ch mid ids active (Some own)
      = list_all (\<lambda>h. h = own \<or> hasUserReadMessage m ch h mid ids) active"
    using assms
    by (auto simp: allActiveUsersRead_def hasUserReadMessage_def at_or_past_def list_all_iff
        split: option.splits)
  show "hasUserReadMessage m ch h (ids ! j) ids \<and> distinct ids \<and> i \<le> j \<and> j < length ids
      \<longrightarrow> hasUserReadMessage m ch h (ids ! i) ids"
    by (auto simp: hasUserReadMessage_def index_of_nth split: option.splits)
qed

theorem all_read_iff_each_read_witness:
  "allActiveUsersRead (applyReadStates 1
       [\<lparr>rs_cert_hash = ''b'', rs_name = '''', rs_is_online = True, rs_last_read_message_id = ''m2'', rs_timestamp = 2\<rparr>] [])
     1 ''m1'' [''m1'', ''m2''] [''a'', ''b''] (Some ''a'')"
proof -
  have h: "''a'' \<noteq> ''''" "\<exists>h. h \<in> set [''a'', ''b''] \<and> h \<noteq> ''a''" by auto
  show ?thesis
    using all_read_iff_each_read [OF h, of _ 1 "''m1''" "[''m1'', ''m2'']"]
    by (simp add: hasUserReadMessage_def applyReadStates_def apply_one_def)
qed

end
