(* ===== verification/Watch.thy ===== *)
theory Watch
  imports AppTypes Complex_Main "HOL-Library.Word"
begin

text \<open>
  Watch-together: the wire types (\<open>watchTypes.ts\<close>), the reducer for incoming events
  (\<open>watchStore.ts\<close>), the lifecycle effects with the host election (\<open>useWatchLifecycle.ts\<close>), the
  host's rate limiter and the follower's projection (\<open>useWatchSync.ts\<close>), the mount claims
  (\<open>watchMountClaim.ts\<close>) and the auto-start flags (\<open>watchAutoStart.ts\<close>).  An effect returns the
  wire events it sends.  Playback positions, which are doubles in the source, are rationals;
  wall-clock milliseconds are integers.
\<close>

unbundle bit_operations_syntax

section \<open>Types\<close>

datatype watch_source_kind = DirectMedia | Youtube

datatype watch_playback_state = Paused | Playing | Ended

datatype watch_event =
    WStart "int option" "string option" "watch_source_kind option" "string option" "int option"
  | WState "watch_playback_state option" "rat option" "int option" "int option"
  | WJoin "int option"
  | WLeave "int option"
  | WStateRequest
  | WEnd
  | WHostTransfer "int option"

record watch_payload =
  wp_sessionId :: "string option"
  wp_actor :: "int option"
  wp_event :: watch_event

record watch_session =
  ws_sessionId :: string
  ws_channelId :: int
  ws_hostSession :: int
  ws_sourceUrl :: string
  ws_sourceKind :: watch_source_kind
  ws_title :: "string option"
  ws_participants :: "int jset"
  ws_state :: watch_playback_state
  ws_currentTime :: rat
  ws_updatedAtMs :: int

type_synonym watch_sessions = "(string, watch_session) jmap"

record watch_slice =
  watchSessions :: watch_sessions
  watchSessionsVersion :: int

section \<open>The reducer\<close>

definition isActionable :: "watch_payload \<Rightarrow> bool" where
  "isActionable p \<longleftrightarrow> wp_sessionId p \<noteq> None \<and> wp_actor p \<noteq> None"

definition applyStart ::
  "int \<Rightarrow> watch_sessions \<Rightarrow> string \<Rightarrow> int \<Rightarrow>
   int option \<Rightarrow> string option \<Rightarrow> watch_source_kind option \<Rightarrow> string option \<Rightarrow> int option \<Rightarrow> watch_sessions"
where
  "applyStart now sessions sessionId actor channelId sourceUrl sourceKind title host =
     (case (sourceUrl, channelId) of
        (Some url, Some ch) \<Rightarrow>
          (let hostSession = or_else host actor; existing = map_get sessions sessionId
           in map_set sessionId
                \<lparr>ws_sessionId = sessionId, ws_channelId = ch, ws_hostSession = hostSession,
                 ws_sourceUrl = url, ws_sourceKind = or_else sourceKind DirectMedia, ws_title = title,
                 ws_participants = or_else (map_option ws_participants existing) [hostSession],
                 ws_state = or_else (map_option ws_state existing) Paused,
                 ws_currentTime = or_else (map_option ws_currentTime existing) 0,
                 ws_updatedAtMs = or_else (map_option ws_updatedAtMs existing) now\<rparr> sessions)
      | _ \<Rightarrow> sessions)"

definition applyState ::
  "watch_sessions \<Rightarrow> string \<Rightarrow> watch_session \<Rightarrow>
   watch_playback_state option \<Rightarrow> rat option \<Rightarrow> int option \<Rightarrow> int option \<Rightarrow> watch_sessions"
where
  "applyState sessions sessionId existing st currentTime updatedAtMs host =
     map_set sessionId
       (existing\<lparr>ws_state := or_else st (ws_state existing),
                 ws_currentTime := or_else currentTime (ws_currentTime existing),
                 ws_updatedAtMs := or_else updatedAtMs (ws_updatedAtMs existing),
                 ws_hostSession := or_else host (ws_hostSession existing)\<rparr>) sessions"

definition applyJoin :: "watch_sessions \<Rightarrow> string \<Rightarrow> watch_session \<Rightarrow> int \<Rightarrow> watch_sessions" where
  "applyJoin sessions sessionId existing session =
     (if set_has (ws_participants existing) session then sessions
      else map_set sessionId
             (existing\<lparr>ws_participants := set_add session (ws_participants existing)\<rparr>) sessions)"

definition applyLeave :: "watch_sessions \<Rightarrow> string \<Rightarrow> watch_session \<Rightarrow> int \<Rightarrow> watch_sessions" where
  "applyLeave sessions sessionId existing session =
     (if \<not> set_has (ws_participants existing) session then sessions
      else map_set sessionId
             (existing\<lparr>ws_participants := set_remove session (ws_participants existing)\<rparr>) sessions)"

definition apply_event ::
  "int \<Rightarrow> string \<Rightarrow> int \<Rightarrow> watch_event \<Rightarrow> watch_sessions \<Rightarrow> watch_sessions" where
  "apply_event now sessionId actor event sessions =
     (let existing = map_get sessions sessionId in
      case event of
        WStart ch url kind title host \<Rightarrow> applyStart now sessions sessionId actor ch url kind title host
      | WState st time upd host \<Rightarrow>
          (case existing of None \<Rightarrow> sessions | Some e \<Rightarrow> applyState sessions sessionId e st time upd host)
      | WJoin s \<Rightarrow>
          (case existing of None \<Rightarrow> sessions | Some e \<Rightarrow> applyJoin sessions sessionId e (or_else s actor))
      | WLeave s \<Rightarrow>
          (case existing of None \<Rightarrow> sessions | Some e \<Rightarrow> applyLeave sessions sessionId e (or_else s actor))
      | WStateRequest \<Rightarrow> sessions
      | WEnd \<Rightarrow> map_del sessionId sessions
      | WHostTransfer h \<Rightarrow>
          (case (existing, h) of
             (Some e, Some newHost) \<Rightarrow> map_set sessionId (e\<lparr>ws_hostSession := newHost\<rparr>) sessions
           | _ \<Rightarrow> sessions))"

text \<open>
  The reducer copies the map before the switch, so its identity test against the previous map
  never holds: every actionable event but \<open>stateRequest\<close> bumps the version.
\<close>

definition applyWatchSyncEvent :: "int \<Rightarrow> watch_payload \<Rightarrow> watch_slice \<Rightarrow> watch_slice" where
  "applyWatchSyncEvent now payload prev =
     (case (wp_sessionId payload, wp_actor payload) of
        (Some sessionId, Some actor) \<Rightarrow>
          (if wp_event payload = WStateRequest then prev
           else \<lparr>watchSessions = apply_event now sessionId actor (wp_event payload) (watchSessions prev),
                 watchSessionsVersion = watchSessionsVersion prev + 1\<rparr>)
      | _ \<Rightarrow> prev)"

section \<open>Host election\<close>

text \<open>32-bit FNV-1a; \<open>Math.imul(..) >>> 0\<close> is multiplication of unsigned 32-bit words.\<close>

definition fnv1a :: "string \<Rightarrow> 32 word" where
  "fnv1a input = foldl (\<lambda>hash c. (hash XOR of_char c) * 0x01000193) 0x811c9dc5 input"

definition host_hash :: "string \<Rightarrow> int \<Rightarrow> 32 word" where
  "host_hash sessionId session = fnv1a (show_int session @ '':'' @ sessionId)"

definition elect_step ::
  "string \<Rightarrow> (32 word \<times> int) option \<Rightarrow> int \<Rightarrow> (32 word \<times> int) option" where
  "elect_step sessionId best session =
     (let hash = host_hash sessionId session in
      case best of
        None \<Rightarrow> Some (hash, session)
      | Some (bh, bs) \<Rightarrow>
          if hash < bh \<or> (hash = bh \<and> session < bs) then Some (hash, session) else best)"

definition electHost :: "int list \<Rightarrow> string \<Rightarrow> int option" where
  "electHost candidates sessionId = map_option snd (foldl (elect_step sessionId) None candidates)"

section \<open>Lifecycle effects\<close>

datatype watch_call =
    SendHostTransfer string int
  | SendLeave string int
  | SendEnd string
  | SendStart string watch_event
  | SendState string watch_event

definition present_sessions :: "user_entry list \<Rightarrow> int jset" where
  "present_sessions users = set_of_list (map us_session users)"

definition dedup_key :: "watch_session \<Rightarrow> string" where
  "dedup_key s = ws_sessionId s @ '':'' @ show_int (ws_hostSession s)"

definition host_candidates :: "user_entry list \<Rightarrow> watch_session \<Rightarrow> int list" where
  "host_candidates users s =
     filter (\<lambda>p. p \<noteq> ws_hostSession s \<and> set_has (present_sessions users) p) (ws_participants s)"

definition reelect_one ::
  "int \<Rightarrow> user_entry list \<Rightarrow> string jset \<times> watch_call list \<Rightarrow> watch_session \<Rightarrow> string jset \<times> watch_call list"
where
  "reelect_one own users acc s =
     (case acc of (ref, out) \<Rightarrow>
       if \<not> set_has (ws_participants s) own then (ref, out)
       else if set_has (present_sessions users) (ws_hostSession s) then (ref, out)
       else if set_has ref (dedup_key s) then (ref, out)
       else if host_candidates users s = [] then (ref, out)
       else (set_add (dedup_key s) ref,
             if electHost (host_candidates users s) (ws_sessionId s) = Some own
             then out @ [SendHostTransfer (ws_sessionId s) own] else out))"

definition effect_reelect ::
  "int option \<Rightarrow> user_entry list \<Rightarrow> watch_sessions \<Rightarrow> string jset \<Rightarrow> string jset \<times> watch_call list" where
  "effect_reelect ownSession users sessions reelectedRef =
     (case ownSession of
        None \<Rightarrow> (reelectedRef, [])
      | Some own \<Rightarrow> foldl (reelect_one own users) (reelectedRef, []) (map_values sessions))"

definition effect_channel_switch ::
  "int option \<Rightarrow> int option \<Rightarrow> int option \<Rightarrow> watch_sessions \<Rightarrow> watch_call list" where
  "effect_channel_switch ownSession previous currentChannel sessions =
     (if previous = None \<or> previous = currentChannel then []
      else case ownSession of
        None \<Rightarrow> []
      | Some own \<Rightarrow>
          map (\<lambda>s. if ws_hostSession s = own then SendEnd (ws_sessionId s)
                   else SendLeave (ws_sessionId s) own)
            (filter (\<lambda>s. Some (ws_channelId s) = previous \<and> set_has (ws_participants s) own)
              (map_values sessions)))"

definition leave_payload :: "string \<Rightarrow> int \<Rightarrow> watch_payload" where
  "leave_payload sid p = \<lparr>wp_sessionId = Some sid, wp_actor = Some p, wp_event = WLeave (Some p)\<rparr>"

definition effect_prune :: "int \<Rightarrow> user_entry list \<Rightarrow> watch_slice \<Rightarrow> watch_slice" where
  "effect_prune now users w =
     foldl (\<lambda>w s. foldl (\<lambda>w p. if set_has (present_sessions users) p then w
                              else applyWatchSyncEvent now (leave_payload (ws_sessionId s) p) w)
                    w (ws_participants s))
       w (map_values (watchSessions w))"

definition users_by_channel :: "user_entry list \<Rightarrow> (int, int jset) jmap" where
  "users_by_channel users =
     foldl (\<lambda>m u. map_set (us_channel_id u)
              (set_add (us_session u) (or_else (map_get m (us_channel_id u)) [])) m) [] users"

definition effect_readvertise ::
  "int \<Rightarrow> int option \<Rightarrow> user_entry list \<Rightarrow> watch_sessions \<Rightarrow> (int, int jset) jmap
    \<Rightarrow> (int, int jset) jmap \<times> watch_call list"
where
  "effect_readvertise now ownSession users sessions seenInChannelRef =
     (case ownSession of
        None \<Rightarrow> (seenInChannelRef, [])
      | Some own \<Rightarrow>
          (let byChannel = users_by_channel users in
           (byChannel,
            concat (map (\<lambda>s.
              if ws_hostSession s \<noteq> own then []
              else case map_get byChannel (ws_channelId s) of
                None \<Rightarrow> []
              | Some present \<Rightarrow>
                  (let previouslySeen = or_else (map_get seenInChannelRef (ws_channelId s)) [];
                       newcomers = filter (\<lambda>x. x \<noteq> own \<and> \<not> set_has previouslySeen x) present
                   in if newcomers = [] then []
                      else [SendStart (ws_sessionId s)
                              (WStart (Some (ws_channelId s)) (Some (ws_sourceUrl s))
                                 (Some (ws_sourceKind s)) (ws_title s) (Some (ws_hostSession s))),
                            SendState (ws_sessionId s)
                              (WState (Some (ws_state s)) (Some (ws_currentTime s)) (Some now)
                                 (Some (ws_hostSession s)))]))
              (map_values sessions)))))"

section \<open>Host heartbeat and follower projection\<close>

definition DRIFT_RESYNC_SECONDS :: rat where
  "DRIFT_RESYNC_SECONDS = 1 / 2"

definition HOST_HEARTBEAT_MS :: int where
  "HOST_HEARTBEAT_MS = 1000"

definition SEEK_THRESHOLD_SECONDS :: rat where
  "SEEK_THRESHOLD_SECONDS = 3 / 4"

record host_sync =
  hs_lastHeartbeat :: int
  hs_lastSent :: "(watch_playback_state \<times> rat) option"

definition host_local_event ::
  "watch_session \<Rightarrow> int \<Rightarrow> watch_playback_state \<Rightarrow> rat \<Rightarrow> host_sync \<Rightarrow> host_sync \<times> watch_call list" where
  "host_local_event session now st time h =
     (let stateChanged = (case hs_lastSent h of None \<Rightarrow> True | Some (ls, _) \<Rightarrow> ls \<noteq> st);
          seeked = (case hs_lastSent h of None \<Rightarrow> False
                    | Some (_, lt) \<Rightarrow> \<bar>lt - time\<bar> > SEEK_THRESHOLD_SECONDS);
          isImportant = (stateChanged \<or> seeked)
      in if \<not> isImportant \<and> now - hs_lastHeartbeat h < HOST_HEARTBEAT_MS then (h, [])
         else (\<lparr>hs_lastHeartbeat = now, hs_lastSent = Some (st, time)\<rparr>,
               [SendState (ws_sessionId session)
                  (WState (Some st) (Some time) (Some now) (Some (ws_hostSession session)))]))"

definition projectExpectedTime :: "int \<Rightarrow> watch_session \<Rightarrow> rat" where
  "projectExpectedTime now session =
     (if ws_state session \<noteq> Playing then ws_currentTime session
      else ws_currentTime session + max 0 (of_int (now - ws_updatedAtMs session) / 1000))"

datatype adapter_call = AdapterPlay rat | AdapterPause rat | AdapterSeek rat

definition applyRemoteState :: "watch_playback_state \<Rightarrow> rat \<Rightarrow> rat \<Rightarrow> adapter_call list" where
  "applyRemoteState st pos drift =
     (case st of Playing \<Rightarrow> [AdapterPlay pos] | Paused \<Rightarrow> [AdapterPause pos] | Ended \<Rightarrow> [AdapterPause pos])"

text \<open>The follower's effect: nothing for the host or for an update already applied.\<close>

definition follower_apply ::
  "bool \<Rightarrow> int \<Rightarrow> rat \<Rightarrow> watch_session \<Rightarrow> int \<Rightarrow> int \<times> adapter_call list" where
  "follower_apply isHost now adapterTime session lastAppliedAt =
     (if isHost then (lastAppliedAt, [])
      else if ws_updatedAtMs session = lastAppliedAt then (lastAppliedAt, [])
      else (let expected = projectExpectedTime now session; drift = \<bar>adapterTime - expected\<bar>
            in (ws_updatedAtMs session, applyRemoteState (ws_state session) expected drift)))"

section \<open>Mount claims and auto-start flags\<close>

type_synonym mount_claims = "(string, string) jmap"

definition claimWatchMount :: "string \<Rightarrow> string \<Rightarrow> mount_claims \<Rightarrow> mount_claims \<times> bool" where
  "claimWatchMount sessionId mountKey claims =
     (case map_get claims sessionId of
        Some current \<Rightarrow> (claims, current = mountKey)
      | None \<Rightarrow> (map_set sessionId mountKey claims, True))"

definition releaseWatchMount :: "string \<Rightarrow> string \<Rightarrow> mount_claims \<Rightarrow> mount_claims" where
  "releaseWatchMount sessionId mountKey claims =
     (if map_get claims sessionId \<noteq> Some mountKey then claims else map_del sessionId claims)"

definition ownsWatchMount :: "string \<Rightarrow> string \<Rightarrow> mount_claims \<Rightarrow> bool" where
  "ownsWatchMount sessionId mountKey claims \<longleftrightarrow> map_get claims sessionId = Some mountKey"

definition markPendingAutoStart :: "string \<Rightarrow> string jset \<Rightarrow> string jset" where
  "markPendingAutoStart sessionId pending = set_add sessionId pending"

definition consumePendingAutoStart :: "string \<Rightarrow> string jset \<Rightarrow> string jset \<times> bool" where
  "consumePendingAutoStart sessionId pending =
     (if \<not> set_has pending sessionId then (pending, False)
      else (set_remove sessionId pending, True))"

section \<open>Lemmas\<close>

subsection \<open>Election\<close>

definition host_key :: "string \<Rightarrow> int \<Rightarrow> nat \<times> int" where
  "host_key sid s = (unat (host_hash sid s), s)"

text \<open>The comparison of the loop is the lexicographic order on (hash, session id).\<close>

definition beats :: "string \<Rightarrow> int \<Rightarrow> int \<Rightarrow> bool" where
  "beats sid a b \<longleftrightarrow> host_hash sid a < host_hash sid b \<or> (host_hash sid a = host_hash sid b \<and> a \<le> b)"

lemma beats_refl [simp]: "beats sid a a"
  by (simp add: beats_def)

lemma beats_total: "beats sid a b \<or> beats sid b a"
  by (auto simp: beats_def)

lemma beats_trans: "beats sid a b \<Longrightarrow> beats sid b c \<Longrightarrow> beats sid a c"
  by (auto simp: beats_def)

lemma beats_antisym: "beats sid a b \<Longrightarrow> beats sid b a \<Longrightarrow> a = b"
  by (auto simp: beats_def)

lemma elect_fold:
  assumes "foldl (elect_step sid) (Some (host_hash sid b, b)) cs = Some (h, w)"
  shows "h = host_hash sid w \<and> w \<in> insert b (set cs) \<and> (\<forall>c \<in> insert b (set cs). beats sid w c)"
  using assms
proof (induction cs arbitrary: b)
  case (Cons c cs)
  let ?n = "if host_hash sid c < host_hash sid b \<or> (host_hash sid c = host_hash sid b \<and> c < b) then c else b"
  have "elect_step sid (Some (host_hash sid b, b)) c = Some (host_hash sid ?n, ?n)"
    by (simp add: elect_step_def Let_def)
  with Cons have IH: "h = host_hash sid w \<and> w \<in> insert ?n (set cs) \<and> (\<forall>x \<in> insert ?n (set cs). beats sid w x)"
    by (metis foldl_Cons)
  have "beats sid ?n b \<and> beats sid ?n c" by (auto simp: beats_def)
  with IH show ?case by (auto split: if_splits intro: beats_trans)
qed simp

lemma elect_fold_Some:
  "\<exists>h w. foldl (elect_step sid) (Some p) cs = Some (h, w)"
proof (induction cs arbitrary: p)
  case (Cons c cs)
  have "\<exists>q. elect_step sid (Some p) c = Some q"
    by (cases p) (simp add: elect_step_def Let_def)
  with Cons show ?case by auto
qed (cases p, simp)

lemma electHost_Some:
  assumes "cs \<noteq> []"
  shows "\<exists>w. electHost cs sid = Some w \<and> w \<in> set cs \<and> (\<forall>c \<in> set cs. beats sid w c)"
proof -
  obtain b cs' where cs: "cs = b # cs'" using assms by (cases cs) auto
  obtain h w where f: "foldl (elect_step sid) (Some (host_hash sid b, b)) cs' = Some (h, w)"
    using elect_fold_Some by blast
  with elect_fold [OF f] show ?thesis
    by (auto simp: electHost_def cs elect_step_def Let_def)
qed

lemma electHost_unique:
  assumes "w \<in> set cs" and "\<forall>c \<in> set cs. beats sid w c"
  shows "electHost cs sid = Some w"
proof -
  have "cs \<noteq> []" using assms(1) by auto
  from electHost_Some [OF this] obtain v where
    "electHost cs sid = Some v" "v \<in> set cs" "\<forall>c \<in> set cs. beats sid v c" by blast
  with assms show ?thesis by (metis beats_antisym)
qed

lemma electHost_set_cong:
  assumes "set cs = set ds"
  shows "electHost cs sid = electHost ds sid"
proof (cases "cs = []")
  case True
  with assms show ?thesis by (simp add: electHost_def)
next
  case False
  from electHost_Some [OF this] obtain w where "electHost cs sid = Some w" "w \<in> set cs" "\<forall>c \<in> set cs. beats sid w c"
    by blast
  with assms show ?thesis by (metis electHost_unique)
qed

subsection \<open>The reducer\<close>

text \<open>Well-formed slices: keys match the sessions stored under them, participants are sets.\<close>

definition watch_ok :: "watch_slice \<Rightarrow> bool" where
  "watch_ok w \<longleftrightarrow> map_wf (watchSessions w)
     \<and> (\<forall>(k, s) \<in> set (watchSessions w). ws_sessionId s = k \<and> distinct (ws_participants s))"

lemma watch_okI:
  "map_wf m \<Longrightarrow> (\<And>k s. map_get m k = Some s \<Longrightarrow> ws_sessionId s = k \<and> distinct (ws_participants s)) \<Longrightarrow>
   watch_ok \<lparr>watchSessions = m, watchSessionsVersion = v\<rparr>"
  by (auto simp: watch_ok_def map_get_iff)

lemma watch_ok_get:
  "watch_ok w \<Longrightarrow> map_get (watchSessions w) k = Some s \<Longrightarrow> ws_sessionId s = k \<and> distinct (ws_participants s)"
  by (force simp: watch_ok_def dest: map_get_in_set)

lemma apply_event_frame: "k \<noteq> sid \<Longrightarrow> map_get (apply_event now sid actor e m) k = map_get m k"
  by (cases e) (auto simp: apply_event_def applyStart_def applyState_def applyJoin_def applyLeave_def
      Let_def split: option.splits)

lemma apply_event_wf: "map_wf m \<Longrightarrow> map_wf (apply_event now sid actor e m)"
  by (cases e) (auto simp: apply_event_def applyStart_def applyState_def applyJoin_def applyLeave_def
      Let_def split: option.splits)

lemma apply_event_same:
  assumes "map_get (apply_event now sid actor e m) sid = Some s"
    and "\<And>x. map_get m sid = Some x \<Longrightarrow> ws_sessionId x = sid \<and> distinct (ws_participants x)"
  shows "ws_sessionId s = sid \<and> distinct (ws_participants s)"
  using assms
  by (cases e; cases "map_get m sid")
    (auto simp: apply_event_def applyStart_def applyState_def applyJoin_def applyLeave_def
      Let_def split: option.splits if_splits)

lemma applyWatchSyncEvent_ok: "watch_ok w \<Longrightarrow> watch_ok (applyWatchSyncEvent now p w)"
proof -
  assume ok: "watch_ok w"
  then have wf: "map_wf (watchSessions w)" by (simp add: watch_ok_def)
  have "watch_ok \<lparr>watchSessions = apply_event now sid actor e (watchSessions w), watchSessionsVersion = v\<rparr>"
    for sid actor e v
  proof (rule watch_okI)
    show "map_wf (apply_event now sid actor e (watchSessions w))" by (rule apply_event_wf [OF wf])
    fix k s assume g: "map_get (apply_event now sid actor e (watchSessions w)) k = Some s"
    show "ws_sessionId s = k \<and> distinct (ws_participants s)"
      using g apply_event_same [of now sid actor e "watchSessions w" s] apply_event_frame [of k sid]
        watch_ok_get [OF ok] by (cases "k = sid") auto
  qed
  with ok show ?thesis by (auto simp: applyWatchSyncEvent_def split: option.split)
qed

fun watch_handle :: "watch_slice \<Rightarrow> int \<times> watch_payload \<Rightarrow> watch_slice" where
  "watch_handle w (now, p) = applyWatchSyncEvent now p w"

interpretation wm: event_machine watch_handle watch_ok
  by unfold_locales (auto simp: applyWatchSyncEvent_ok)

subsection \<open>Pruning\<close>

definition prune_session :: "(int \<Rightarrow> bool) \<Rightarrow> watch_session \<Rightarrow> watch_session" where
  "prune_session present s = s\<lparr>ws_participants := filter present (ws_participants s)\<rparr>"

lemma leave_get:
  "map_get (watchSessions (applyWatchSyncEvent now (leave_payload sid p) w)) k =
     (if k = sid then map_option (prune_session (\<lambda>x. x \<noteq> p)) (map_get (watchSessions w) sid)
      else map_get (watchSessions w) k)"
proof (cases "map_get (watchSessions w) sid")
  case (Some s)
  have "p \<notin> set (ws_participants s) \<Longrightarrow> filter (\<lambda>x. x \<noteq> p) (ws_participants s) = ws_participants s"
    by (auto simp: filter_id_conv)
  with Some show ?thesis
    by (auto simp: applyWatchSyncEvent_def leave_payload_def apply_event_def applyLeave_def
        prune_session_def set_remove_def Let_def)
qed (auto simp: applyWatchSyncEvent_def leave_payload_def apply_event_def)

lemma prune_session_comp:
  "prune_session P (prune_session Q s) = prune_session (\<lambda>x. Q x \<and> P x) s"
  by (simp add: prune_session_def conj_commute)

lemma prune_participants_get:
  "map_get (watchSessions (foldl (\<lambda>w p. if P p then w
        else applyWatchSyncEvent now (leave_payload sid p) w) w ps)) k =
     (if k = sid then map_option (prune_session (\<lambda>x. x \<notin> set ps \<or> P x)) (map_get (watchSessions w) sid)
      else map_get (watchSessions w) k)"
proof (induction ps arbitrary: w)
  case Nil
  then show ?case by (cases "map_get (watchSessions w) sid") (auto simp: prune_session_def)
next
  case (Cons p ps)
  have eq: "(\<lambda>x. x \<noteq> p \<and> (x \<notin> set ps \<or> P x)) = (\<lambda>x. x \<notin> set (p # ps) \<or> P x)" if "\<not> P p"
    using that by auto
  have eq': "(\<lambda>x. x \<notin> set ps \<or> P x) = (\<lambda>x. x \<notin> set (p # ps) \<or> P x)" if "P p"
    using that by auto
  show ?case
    using eq eq' by (cases "P p"; cases "map_get (watchSessions w) sid")
      (simp_all add: Cons.IH leave_get prune_session_comp)
qed

lemma prune_sessions_get:
  assumes "distinct (map ws_sessionId ss)"
    and "\<And>s. s \<in> set ss \<Longrightarrow> map_get (watchSessions w) (ws_sessionId s) = Some s"
  shows "map_get (watchSessions (foldl (\<lambda>w s. foldl (\<lambda>w p. if P p then w
        else applyWatchSyncEvent now (leave_payload (ws_sessionId s) p) w) w (ws_participants s)) w ss)) k =
     (if k \<in> ws_sessionId ` set ss then map_option (prune_session P) (map_get (watchSessions w) k)
      else map_get (watchSessions w) k)"
  using assms
proof (induction ss arbitrary: w)
  case (Cons s ss)
  let ?w = "foldl (\<lambda>w p. if P p then w
      else applyWatchSyncEvent now (leave_payload (ws_sessionId s) p) w) w (ws_participants s)"
  have "map_get (watchSessions ?w) (ws_sessionId t) = Some t" if "t \<in> set ss" for t
  proof -
    have "ws_sessionId t \<noteq> ws_sessionId s" using Cons.prems(1) imageI [OF that, of ws_sessionId] by auto
    with Cons.prems(2) that show ?thesis by (simp add: prune_participants_get)
  qed
  with Cons.IH [of ?w] Cons.prems(1)
  have "map_get (watchSessions (foldl (\<lambda>w s. foldl (\<lambda>w p. if P p then w
        else applyWatchSyncEvent now (leave_payload (ws_sessionId s) p) w) w (ws_participants s)) w (s # ss))) k =
     (if k \<in> ws_sessionId ` set ss then map_option (prune_session P) (map_get (watchSessions ?w) k)
      else map_get (watchSessions ?w) k)" by simp
  moreover have "filter (\<lambda>x. x \<notin> set (ws_participants s) \<or> P x) (ws_participants s) = filter P (ws_participants s)"
    by (rule filter_cong) auto
  then have "prune_session (\<lambda>x. x \<notin> set (ws_participants s) \<or> P x) s = prune_session P s"
    unfolding prune_session_def by (rule arg_cong)
  ultimately show ?case
    using Cons.prems by (auto simp: prune_participants_get)
qed simp

section \<open>Properties\<close>

text \<open>
  C21: host re-election needs no coordination among clients that hold the same session.  Where every
  remaining participant holds the same set of participants and the same set of users (each in whatever
  order), and has not yet answered for this host, all elect the same present participant, and exactly that
  one sends the host transfer.  A client that joined late knows only the host and itself, and may elect
  itself beside the others (\<open>late_joiner_elects_itself\<close>).
\<close>

theorem election_unique_sender:
  assumes "P \<inter> U \<noteq> {}" and "h \<notin> U"
    and "\<And>p. p \<in> P \<inter> U \<Longrightarrow> ws_sessionId (view p) = sid \<and> ws_hostSession (view p) = h
          \<and> set (ws_participants (view p)) = P \<and> set (map us_session (users p)) = U
          \<and> dedup_key (view p) \<notin> set (ref p)"
  shows "\<exists>w. w \<in> P \<inter> U \<and> (\<forall>p. p \<in> P \<inter> U \<longrightarrow>
      electHost (host_candidates (users p) (view p)) sid = Some w
    \<and> snd (reelect_one p (users p) (ref p, []) (view p))
        = (if p = w then [SendHostTransfer sid w] else []))"
proof -
  have cand: "set (host_candidates (users p) (view p)) = P \<inter> U" if "p \<in> P \<inter> U" for p
  proof -
    have "set (host_candidates (users p) (view p)) = {x \<in> P. x \<noteq> h \<and> x \<in> U}"
      using assms(3) [OF that] by (simp add: host_candidates_def present_sessions_def)
    with assms(2) show ?thesis by blast
  qed
  obtain q where q: "q \<in> P \<inter> U" using assms(1) by blast
  with cand [OF q] have "host_candidates (users q) (view q) \<noteq> []" by auto
  from electHost_Some [OF this] obtain w where
    w: "electHost (host_candidates (users q) (view q)) sid = Some w" "w \<in> P \<inter> U"
    using cand [OF q] by blast
  have "electHost (host_candidates (users p) (view p)) sid = Some w
    \<and> snd (reelect_one p (users p) (ref p, []) (view p)) = (if p = w then [SendHostTransfer sid w] else [])"
    if p: "p \<in> P \<inter> U" for p
  proof -
    have e: "electHost (host_candidates (users p) (view p)) sid = Some w"
      using w(1) electHost_set_cong [of "host_candidates (users p) (view p)" "host_candidates (users q) (view q)" sid]
        cand [OF p] cand [OF q] by simp
    have "host_candidates (users p) (view p) \<noteq> []" using cand [OF p] q by auto
    then show ?thesis
      using e assms(2) assms(3) [OF p] p by (auto simp: reelect_one_def present_sessions_def)
  qed
  with w(2) show ?thesis by blast
qed

definition example_session :: "int jset \<Rightarrow> watch_session" where
  "example_session ps = \<lparr>ws_sessionId = ''u'', ws_channelId = 1, ws_hostSession = 9, ws_sourceUrl = ''v'',
     ws_sourceKind = Youtube, ws_title = None, ws_participants = ps, ws_state = Playing,
     ws_currentTime = 12, ws_updatedAtMs = 5\<rparr>"

definition example_user :: "int \<Rightarrow> user_entry" where
  "example_user s = \<lparr>us_session = s, us_name = ''x'', us_channel_id = 1, us_user_id = None,
     us_texture_size = None, us_comment_size = None, us_comment = None, us_mute = False, us_deaf = False,
     us_suppress = False, us_self_mute = False, us_self_deaf = False, us_priority_speaker = False,
     us_hash = None\<rparr>"

theorem election_unique_sender_witness:
  "\<exists>w. w \<in> {3, 4, 9} \<inter> {3, 4} \<and> (\<forall>p. p \<in> {3, 4, 9} \<inter> {3, 4} \<longrightarrow>
      electHost (host_candidates (map example_user [3, 4]) (example_session [9, 3, 4])) ''u'' = Some w
    \<and> snd (reelect_one p (map example_user [3, 4]) ([], []) (example_session [9, 3, 4]))
        = (if p = w then [SendHostTransfer ''u'' w] else []))"
  by (rule election_unique_sender [of "{3, 4, 9}" "{3, 4}" 9 "\<lambda>_. example_session [9, 3, 4]" "''u''"
        "\<lambda>_. map example_user [3, 4]" "\<lambda>_. []"])
    (auto simp: example_session_def example_user_def)

text \<open>The host 9 leaves; 7 joined late and holds only the host and itself.  Two clients announce themselves.\<close>

lemma late_joiner_elects_itself:
  "snd (reelect_one 7 (map example_user [3, 4, 7]) ([], []) (example_session [9, 7])) = [SendHostTransfer ''u'' 7]"
  "snd (reelect_one 3 (map example_user [3, 4, 7]) ([], []) (example_session [9, 3, 4, 7])) = [SendHostTransfer ''u'' 3]"
  by code_simp+

text \<open>
  pruning is exact.  After the pruning effect every session keeps precisely the participants
  still on the server, in their order, and nothing else of any session changes.
\<close>

theorem prune_exact:
  assumes "watch_ok w"
  shows "map_get (watchSessions (effect_prune now users w)) k =
    map_option (\<lambda>s. s\<lparr>ws_participants :=
        filter (\<lambda>p. p \<in> set (map us_session users)) (ws_participants s)\<rparr>) (map_get (watchSessions w) k)"
proof -
  have wf: "map_wf (watchSessions w)" and ids: "\<And>k s. (k, s) \<in> set (watchSessions w) \<Longrightarrow> ws_sessionId s = k"
    using assms by (auto simp: watch_ok_def)
  have "map ws_sessionId (map_values (watchSessions w)) = map fst (watchSessions w)"
    using ids by (auto simp: map_values_def)
  with wf have d: "distinct (map ws_sessionId (map_values (watchSessions w)))"
    by (simp add: map_wf_def del: map_map)
  have g: "map_get (watchSessions w) (ws_sessionId s) = Some s" if "s \<in> set (map_values (watchSessions w))" for s
    using that ids by (auto simp: map_values_def map_get_iff [OF wf])
  have dom: "k \<in> ws_sessionId ` set (map_values (watchSessions w)) \<or> map_get (watchSessions w) k = None"
  proof (cases "map_get (watchSessions w) k")
    case (Some s)
    then have "(k, s) \<in> set (watchSessions w)" by (rule map_get_in_set)
    with ids have "s \<in> set (map_values (watchSessions w))" "k = ws_sessionId s"
      by (force simp: map_values_def)+
    then show ?thesis by blast
  qed simp
  have p: "prune_session (set_has (present_sessions users)) s =
      s\<lparr>ws_participants := filter (\<lambda>p. p \<in> set (map us_session users)) (ws_participants s)\<rparr>" for s
    by (simp add: prune_session_def present_sessions_def set_has_def [abs_def])
  have "map_get (watchSessions (effect_prune now users w)) k =
      map_option (prune_session (set_has (present_sessions users))) (map_get (watchSessions w) k)"
    unfolding effect_prune_def
    using prune_sessions_get [OF d g, of "set_has (present_sessions users)" now k] dom
    by (elim disjE) (simp_all only: if_True if_False option.map if_cancel)
  then show ?thesis by (simp only: p [abs_def])
qed

theorem prune_exact_witness:
  "map_get (watchSessions (effect_prune 1 (map example_user [3, 4])
      \<lparr>watchSessions = [(''u'', example_session [9, 3, 4])], watchSessionsVersion = 0\<rparr>)) ''u''
   = Some (example_session [3, 4])"
proof -
  have "watch_ok \<lparr>watchSessions = [(''u'', example_session [9, 3, 4])], watchSessionsVersion = 0\<rparr>"
    by (simp add: watch_ok_def example_session_def)
  from prune_exact [OF this, of 1 "map example_user [3, 4]" "''u''"] show ?thesis
    by (simp add: example_session_def example_user_def)
qed

text \<open>
  a newcomer catches up from the host's re-advertisement.  When somebody unseen appears in
  the channel of a session we host, the effect sends exactly a start and a state event, and a
  client that holds no such session ends up with the same channel, host, source, title, playback
  state and position, with the host as its only known participant; a client that already holds
  the session loses neither its participants nor its position on the start event.
\<close>

theorem readvertise_restores_session:
  assumes "ws_hostSession s = own" and "x \<noteq> own"
    and "map_get (users_by_channel users) (ws_channelId s) = Some present" and "x \<in> set present"
    and "map_get seen (ws_channelId s) = None"
  shows "\<exists>ev1 ev2. snd (effect_readvertise now (Some own) users [(ws_sessionId s, s)] seen)
      = [SendStart (ws_sessionId s) ev1, SendState (ws_sessionId s) ev2]
    \<and> (map_get m (ws_sessionId s) = None \<longrightarrow>
        map_get (apply_event t2 (ws_sessionId s) own ev2 (apply_event t1 (ws_sessionId s) own ev1 m)) (ws_sessionId s)
          = Some (s\<lparr>ws_participants := [own], ws_updatedAtMs := now\<rparr>))
    \<and> (\<forall>old. map_get m (ws_sessionId s) = Some old \<longrightarrow>
        (\<exists>new. map_get (apply_event t1 (ws_sessionId s) own ev1 m) (ws_sessionId s) = Some new
          \<and> ws_participants new = ws_participants old \<and> ws_state new = ws_state old
          \<and> ws_currentTime new = ws_currentTime old \<and> ws_updatedAtMs new = ws_updatedAtMs old))"
proof -
  let ?ev1 = "WStart (Some (ws_channelId s)) (Some (ws_sourceUrl s)) (Some (ws_sourceKind s)) (ws_title s) (Some own)"
  let ?ev2 = "WState (Some (ws_state s)) (Some (ws_currentTime s)) (Some now) (Some own)"
  have "filter (\<lambda>y. y \<noteq> own \<and> \<not> set_has [] y) present \<noteq> []"
    using assms(2,4) by (auto simp: filter_empty_conv)
  then have out: "snd (effect_readvertise now (Some own) users [(ws_sessionId s, s)] seen)
      = [SendStart (ws_sessionId s) ?ev1, SendState (ws_sessionId s) ?ev2]"
    using assms(1,3,5) by (simp add: effect_readvertise_def Let_def map_values_def)
  have "map_get m (ws_sessionId s) = None \<Longrightarrow>
      map_get (apply_event t2 (ws_sessionId s) own ?ev2 (apply_event t1 (ws_sessionId s) own ?ev1 m)) (ws_sessionId s)
        = Some (s\<lparr>ws_participants := [own], ws_updatedAtMs := now\<rparr>)"
    using assms(1) by (simp add: apply_event_def applyStart_def applyState_def Let_def)
  moreover have "\<exists>new. map_get (apply_event t1 (ws_sessionId s) own ?ev1 m) (ws_sessionId s) = Some new
      \<and> ws_participants new = ws_participants old \<and> ws_state new = ws_state old
      \<and> ws_currentTime new = ws_currentTime old \<and> ws_updatedAtMs new = ws_updatedAtMs old"
    if "map_get m (ws_sessionId s) = Some old" for old
    using that by (simp add: apply_event_def applyStart_def Let_def)
  ultimately show ?thesis
    by (intro exI [of _ ?ev1] exI [of _ ?ev2] conjI out impI allI) auto
qed

theorem readvertise_restores_session_witness:
  "\<exists>ev1 ev2. snd (effect_readvertise 50 (Some 9) (map example_user [9, 3]) [(''u'', example_session [9])] [])
      = [SendStart ''u'' ev1, SendState ''u'' ev2]
    \<and> map_get (apply_event 0 ''u'' 9 ev2 (apply_event 0 ''u'' 9 ev1 [])) ''u''
        = Some ((example_session [9])\<lparr>ws_participants := [9], ws_updatedAtMs := 50\<rparr>)"
proof -
  have h: "ws_hostSession (example_session [9]) = 9" "(3::int) \<noteq> 9"
    "map_get (users_by_channel (map example_user [9, 3])) (ws_channelId (example_session [9])) = Some [9, 3]"
    "(3::int) \<in> set [9, 3]" "map_get ([] :: (int, int jset) jmap) (ws_channelId (example_session [9])) = None"
    by (simp_all add: example_session_def example_user_def users_by_channel_def set_add_def)
  have "ws_sessionId (example_session [9]) = ''u''" by (simp add: example_session_def)
  with readvertise_restores_session [OF h, of 50 "[]" 0 0] show ?thesis by auto
qed

end
