(* ===== verification/DmHistory.thy ===== *)
theory DmHistory
  imports AppTypes "HOL-Library.Countable"
begin

text \<open>
  On-device direct-message history: \<open>dmStorage.ts\<close> and \<open>applyDmPersistence\<close> of \<open>store.ts\<close>.
  The encrypted store file is a map from entry names to payloads.  WebCrypto and JSON are not
  part of the program: \<open>enc\<close> stands for \<open>encryptJson\<close> (\<open>None\<close> when it throws) and \<open>dec\<close> for
  \<open>decryptJson\<close>; what the program relies on, that a payload decrypts to what was encrypted, is
  the hypothesis \<open>cipher_ok\<close> of the theorems that need it.
\<close>

section \<open>Keys\<close>

definition friendKeyFor :: "string option \<Rightarrow> string \<Rightarrow> string option \<Rightarrow> string" where
  "friendKeyFor uhash uname serverId =
     (if uhash \<noteq> None \<and> uhash \<noteq> Some '''' then ''hash:'' @ or_else uhash ''''
      else ''anon:'' @ or_else serverId '''' @ '':'' @ uname)"

definition HISTORY_KEY_PREFIX :: string where
  "HISTORY_KEY_PREFIX = ''history:''"

definition MAX_MESSAGES_PER_FRIEND :: nat where
  "MAX_MESSAGES_PER_FRIEND = 5000"

section \<open>Merging\<close>

definition opt_num :: "int option \<Rightarrow> string" where
  "opt_num n = (case n of None \<Rightarrow> ''?'' | Some i \<Rightarrow> show_int i)"

definition keyOf :: "chat_message \<Rightarrow> string" where
  "keyOf m = (case cm_message_id m of
      Some i \<Rightarrow> i
    | None \<Rightarrow> opt_num (cm_sender_session m) @ ''|'' @ opt_num (cm_timestamp m) @ ''|'' @ cm_body m)"

definition merge_step ::
  "string jset \<times> chat_message list \<Rightarrow> chat_message \<Rightarrow> string jset \<times> chat_message list" where
  "merge_step acc m =
     (case acc of (seen, out) \<Rightarrow>
        if set_has seen (keyOf m) then (seen, out) else (set_add (keyOf m) seen, out @ [m]))"

definition mergeMessages :: "chat_message list \<Rightarrow> chat_message list \<Rightarrow> chat_message list" where
  "mergeMessages persisted remote = snd (foldl merge_step (foldl merge_step ([], []) persisted) remote)"

section \<open>The store file\<close>

type_synonym dm_store = "(string, string) jmap"

definition loadDmHistory ::
  "(string \<Rightarrow> chat_message list option) \<Rightarrow> dm_store \<Rightarrow> string \<Rightarrow> chat_message list" where
  "loadDmHistory dec store friendKey =
     (case map_get store (HISTORY_KEY_PREFIX @ friendKey) of
        None \<Rightarrow> []
      | Some payload \<Rightarrow> if payload = '''' then [] else or_else (dec payload) [])"

definition saveDmHistory ::
  "(chat_message list \<Rightarrow> string option) \<Rightarrow> string \<Rightarrow> chat_message list \<Rightarrow> dm_store \<Rightarrow> dm_store" where
  "saveDmHistory enc friendKey msgs store =
     (let trimmed = (if length msgs > MAX_MESSAGES_PER_FRIEND
                     then drop (length msgs - MAX_MESSAGES_PER_FRIEND) msgs else msgs)
      in case enc trimmed of
           None \<Rightarrow> store
         | Some payload \<Rightarrow> map_set (HISTORY_KEY_PREFIX @ friendKey) payload store)"

definition clearDmHistory :: "string \<Rightarrow> dm_store \<Rightarrow> dm_store" where
  "clearDmHistory friendKey store = map_del (HISTORY_KEY_PREFIX @ friendKey) store"

definition clearAllDmHistory :: "dm_store \<Rightarrow> dm_store" where
  "clearAllDmHistory store =
     foldl (\<lambda>s k. if starts_with k HISTORY_KEY_PREFIX then map_del k s else s) store (map_keys store)"

definition applyDmPersistence ::
  "(chat_message list \<Rightarrow> string option) \<Rightarrow> (string \<Rightarrow> chat_message list option) \<Rightarrow> bool
    \<Rightarrow> user_entry list \<Rightarrow> server_id option \<Rightarrow> int \<Rightarrow> chat_message list \<Rightarrow> dm_store
    \<Rightarrow> chat_message list \<times> dm_store"
where
  "applyDmPersistence enc dec enabled users activeServerId session remote store =
     (if \<not> enabled then (remote, store)
      else case List.find (\<lambda>u. us_session u = session) users of
        None \<Rightarrow> (remote, store)
      | Some user \<Rightarrow>
          (let key = friendKeyFor (us_hash user) (us_name user) activeServerId;
               merged = mergeMessages (loadDmHistory dec store key) remote
           in (merged, saveDmHistory enc key merged store)))"

section \<open>Lemmas\<close>

text \<open>The reference: the first message of every key, in order.\<close>

fun first_by_key :: "string set \<Rightarrow> chat_message list \<Rightarrow> chat_message list" where
  "first_by_key seen [] = []"
| "first_by_key seen (m # ms) =
     (if keyOf m \<in> seen then first_by_key seen ms
      else m # first_by_key (insert (keyOf m) seen) ms)"

lemma merge_step_simp [simp]:
  "merge_step (seen, out) m =
    (if keyOf m \<in> set seen then (seen, out) else (set_add (keyOf m) seen, out @ [m]))"
  by (simp add: merge_step_def)

lemma merge_fold:
  "foldl merge_step (seen, out) ms = (seen', out') \<Longrightarrow>
   set seen' = set seen \<union> keyOf ` set ms \<and> out' = out @ first_by_key (set seen) ms"
proof (induction ms arbitrary: seen out)
  case (Cons m ms)
  show ?case
  proof (cases "keyOf m \<in> set seen")
    case True
    with Cons have "foldl merge_step (seen, out) ms = (seen', out')" by simp
    from Cons.IH [OF this] True show ?thesis by auto
  next
    case False
    with Cons have "foldl merge_step (set_add (keyOf m) seen, out @ [m]) ms = (seen', out')"
      by simp
    from Cons.IH [OF this] False show ?thesis by auto
  qed
qed auto

lemma first_by_key_append:
  "first_by_key seen (xs @ ys) = first_by_key seen xs @ first_by_key (seen \<union> keyOf ` set xs) ys"
  by (induction xs arbitrary: seen) (auto simp: insert_absorb)

lemma mergeMessages_first: "mergeMessages p r = first_by_key {} (p @ r)"
proof -
  obtain seen out where f: "foldl merge_step ([], []) (p @ r) = (seen, out)" by fastforce
  from merge_fold [OF f] f show ?thesis by (simp add: mergeMessages_def)
qed

lemma keys_first_by_key: "keyOf ` set (first_by_key seen ms) = keyOf ` set ms - seen"
  by (induction ms arbitrary: seen) auto

lemma distinct_first_by_key: "distinct (map keyOf (first_by_key seen ms))"
proof (induction ms arbitrary: seen)
  case (Cons m ms)
  have "keyOf m \<notin> keyOf ` set (first_by_key (insert (keyOf m) seen) ms)"
    by (simp add: keys_first_by_key)
  with Cons show ?case by auto
qed simp

lemma first_by_key_id:
  "distinct (map keyOf ms) \<Longrightarrow> keyOf ` set ms \<inter> seen = {} \<Longrightarrow> first_by_key seen ms = ms"
proof (induction ms arbitrary: seen)
  case (Cons m ms)
  have "keyOf ` set ms \<inter> insert (keyOf m) seen = {}" using Cons.prems by auto
  with Cons show ?case by auto
qed simp

lemma first_by_key_first_by_key:
  "first_by_key {} (first_by_key {} xs @ ys) = first_by_key {} (xs @ ys)"
  by (simp add: first_by_key_append first_by_key_id distinct_first_by_key keys_first_by_key)

lemma find_some_user:
  "List.find (\<lambda>u. us_session u = s) users = Some u \<Longrightarrow> us_session u = s"
  by (induction users) (auto split: if_splits)

text \<open>What the program relies on of the cipher.\<close>

definition cipher_ok ::
  "(chat_message list \<Rightarrow> string option) \<Rightarrow> (string \<Rightarrow> chat_message list option) \<Rightarrow> bool" where
  "cipher_ok enc dec \<longleftrightarrow> (\<forall>ms. \<exists>p. enc ms = Some p \<and> p \<noteq> '''' \<and> dec p = Some ms)"

lemma load_save:
  assumes "cipher_ok enc dec"
  shows "loadDmHistory dec (saveDmHistory enc k ms store) j =
    (if j = k then drop (length ms - MAX_MESSAGES_PER_FRIEND) ms else loadDmHistory dec store j)"
proof -
  obtain p where p: "enc (drop (length ms - MAX_MESSAGES_PER_FRIEND) ms) = Some p" "p \<noteq> ''''"
    "dec p = Some (drop (length ms - MAX_MESSAGES_PER_FRIEND) ms)"
    using assms unfolding cipher_ok_def by blast
  have "(if length ms > MAX_MESSAGES_PER_FRIEND then drop (length ms - MAX_MESSAGES_PER_FRIEND) ms else ms)
      = drop (length ms - MAX_MESSAGES_PER_FRIEND) ms" by simp
  with p show ?thesis by (simp add: loadDmHistory_def saveDmHistory_def)
qed

text \<open>Consecutive refreshes of one conversation: the shown list after each.\<close>

fun refresh_run ::
  "(chat_message list \<Rightarrow> string option) \<Rightarrow> (string \<Rightarrow> chat_message list option) \<Rightarrow> user_entry list
    \<Rightarrow> server_id option \<Rightarrow> int \<Rightarrow> dm_store \<Rightarrow> chat_message list list \<Rightarrow> chat_message list list"
where
  "refresh_run enc dec users srv s store [] = []"
| "refresh_run enc dec users srv s store (r # rs) =
     (case applyDmPersistence enc dec True users srv s r store of
        (shown, store') \<Rightarrow> shown # refresh_run enc dec users srv s store' rs)"

lemma refresh_run_shows:
  assumes c: "cipher_ok enc dec"
    and u: "List.find (\<lambda>u. us_session u = s) users = Some u"
    and k: "k = friendKeyFor (us_hash u) (us_name u) srv"
    and "loadDmHistory dec store k = first_by_key {} pre"
    and "length (first_by_key {} (pre @ concat rs)) \<le> MAX_MESSAGES_PER_FRIEND"
  shows "i < length rs \<Longrightarrow>
    refresh_run enc dec users srv s store rs ! i = first_by_key {} (pre @ concat (take (Suc i) rs))"
  using assms(4,5)
proof (induction rs arbitrary: store pre i)
  case (Cons r rs)
  let ?m = "first_by_key {} (pre @ r)"
  let ?store = "saveDmHistory enc k ?m store"
  have m: "mergeMessages (loadDmHistory dec store k) r = ?m"
    using Cons.prems(2) by (simp add: mergeMessages_first first_by_key_first_by_key)
  have step: "applyDmPersistence enc dec True users srv s r store = (?m, ?store)"
    by (simp add: applyDmPersistence_def u k [symmetric] m Let_def)
  have "length ?m \<le> MAX_MESSAGES_PER_FRIEND"
    using Cons.prems(3) by (simp add: first_by_key_append)
  then have "loadDmHistory dec ?store k = ?m" by (simp add: load_save [OF c])
  note IH = Cons.IH [OF _ this]
  show ?case
  proof (cases i)
    case 0
    then show ?thesis by (simp add: step)
  next
    case (Suc j)
    with IH [of j] Cons.prems show ?thesis by (simp add: step)
  qed
qed simp

lemma starts_with_append [simp]: "starts_with (p @ s) p"
  by (simp add: starts_with_def)

lemma clear_fold:
  "map_get (foldl (\<lambda>s k. if P k then map_del k s else s) store ks) j =
    (if j \<in> set ks \<and> P j then None else map_get store j)"
  by (induction ks arbitrary: store) auto

section \<open>Properties\<close>

text \<open>
  merging loses and duplicates nothing.  The merged list is the persisted one, without repeated
  keys, followed by the remote messages whose key is new, each key once; every key of either
  side is present, and merging the same remote list again changes nothing.
\<close>

theorem dm_merge_exact:
  "mergeMessages p r = first_by_key {} p @ first_by_key (keyOf ` set p) r
   \<and> distinct (map keyOf (mergeMessages p r))
   \<and> keyOf ` set (mergeMessages p r) = keyOf ` set p \<union> keyOf ` set r
   \<and> mergeMessages (mergeMessages p r) r = mergeMessages p r"
proof -
  have "first_by_key {} (first_by_key {} (p @ r) @ r) = first_by_key {} (p @ r) @ first_by_key (keyOf ` set (p @ r)) r"
    using first_by_key_first_by_key [of "p @ r" r] first_by_key_append [of "{}" "p @ r" r] by simp
  moreover have "first_by_key (keyOf ` set (p @ r)) r = []"
  proof -
    have "keyOf ` set (first_by_key (keyOf ` set (p @ r)) r) = {}"
      unfolding keys_first_by_key by auto
    then show ?thesis by simp
  qed
  ultimately show ?thesis
    by (simp add: mergeMessages_first first_by_key_append [of "{}" p r] distinct_first_by_key
        keys_first_by_key image_Un)
qed

text \<open>
  nothing seen is lost across sessions.  Over any sequence of refreshes of one conversation
  with persistence on, starting from an empty history and staying within the cap, the list shown
  after the i-th refresh is exactly the first occurrence of every message the server returned so
  far, whatever the server has forgotten since; clearing the history empties it and touches no
  other conversation.
\<close>

theorem dm_history_accumulates:
  assumes "cipher_ok enc dec" and "List.find (\<lambda>u. us_session u = s) users = Some u"
    and "length (first_by_key {} (concat rs)) \<le> MAX_MESSAGES_PER_FRIEND" and "i < length rs"
  shows "refresh_run enc dec users srv s [] rs ! i = first_by_key {} (concat (take (Suc i) rs))
    \<and> loadDmHistory dec (clearDmHistory k store) k = []
    \<and> (j \<noteq> k \<longrightarrow> loadDmHistory dec (clearDmHistory k store) j = loadDmHistory dec store j)
    \<and> loadDmHistory dec (clearAllDmHistory store) j = []"
proof -
  have "refresh_run enc dec users srv s [] rs ! i = first_by_key {} ([] @ concat (take (Suc i) rs))"
    using assms(3,4) by (intro refresh_run_shows [OF assms(1,2) refl]) (simp_all add: loadDmHistory_def)
  moreover have "map_get (clearAllDmHistory store) (HISTORY_KEY_PREFIX @ j) = None"
    using map_get_None_iff [of store "HISTORY_KEY_PREFIX @ j"]
    by (auto simp: clearAllDmHistory_def clear_fold map_keys_def)
  ultimately show ?thesis
    by (simp add: loadDmHistory_def clearDmHistory_def)
qed

text \<open>
  A cipher that satisfies the hypothesis: messages are numbered, and a list is written as the
  decimal of its number.
\<close>

instance chat_message_ext :: (countable) countable
proof (rule countable_classI [of "\<lambda>m. to_nat
    ((cm_sender_session m, cm_sender_name m, cm_sender_hash m, cm_body m, cm_channel_id m, cm_is_own m,
      cm_dm_session m, cm_message_id m),
     (cm_timestamp m, cm_is_legacy m, cm_edited_at m, cm_pinned m, cm_pinned_by m, cm_pinned_at m,
      cm_plugin_name m, cm_plugin_components m, chat_message.more m))"])
  fix x y :: "'a chat_message_scheme"
  assume "to_nat
    ((cm_sender_session x, cm_sender_name x, cm_sender_hash x, cm_body x, cm_channel_id x, cm_is_own x,
      cm_dm_session x, cm_message_id x),
     (cm_timestamp x, cm_is_legacy x, cm_edited_at x, cm_pinned x, cm_pinned_by x, cm_pinned_at x,
      cm_plugin_name x, cm_plugin_components x, chat_message.more x)) = to_nat
    ((cm_sender_session y, cm_sender_name y, cm_sender_hash y, cm_body y, cm_channel_id y, cm_is_own y,
      cm_dm_session y, cm_message_id y),
     (cm_timestamp y, cm_is_legacy y, cm_edited_at y, cm_pinned y, cm_pinned_by y, cm_pinned_at y,
      cm_plugin_name y, cm_plugin_components y, chat_message.more y))"
  then show "x = y" by (simp only: to_nat_split prod.inject) (rule chat_message.equality; simp)
qed

definition number_enc :: "chat_message list \<Rightarrow> string option" where
  "number_enc ms = Some (show_nat (to_nat ms))"

definition number_dec :: "string \<Rightarrow> chat_message list option" where
  "number_dec p = Some (from_nat (read_digits p))"

lemma number_cipher_ok: "cipher_ok number_enc number_dec"
  by (simp add: cipher_ok_def number_enc_def number_dec_def)

text \<open>Example data: a message with an id.\<close>

definition example_message :: "string \<Rightarrow> chat_message" where
  "example_message i = \<lparr>cm_sender_session = None, cm_sender_name = ''x'', cm_sender_hash = None, cm_body = i,
     cm_channel_id = 0, cm_is_own = False, cm_dm_session = None, cm_message_id = Some i, cm_timestamp = None,
     cm_is_legacy = None, cm_edited_at = None, cm_pinned = None, cm_pinned_by = None, cm_pinned_at = None,
     cm_plugin_name = None, cm_plugin_components = None\<rparr>"

definition example_peer :: user_entry where
  "example_peer = \<lparr>us_session = 7, us_name = ''x'', us_channel_id = 1, us_user_id = None,
     us_texture_size = None, us_comment_size = None, us_comment = None, us_mute = False, us_deaf = False,
     us_suppress = False, us_self_mute = False, us_self_deaf = False, us_priority_speaker = False,
     us_hash = Some ''ab''\<rparr>"

theorem dm_history_accumulates_witness:
  "refresh_run number_enc number_dec [example_peer] None 7 []
      [[example_message ''a'', example_message ''b''], [example_message ''c'']] ! 1
   = [example_message ''a'', example_message ''b'', example_message ''c'']"
proof -
  have u: "List.find (\<lambda>u. us_session u = 7) [example_peer] = Some example_peer"
    by (simp add: example_peer_def)
  have k: "keyOf (example_message i) = i" for i by (simp add: keyOf_def example_message_def)
  have "length (first_by_key {} (concat [[example_message ''a'', example_message ''b''], [example_message ''c'']]))
      \<le> MAX_MESSAGES_PER_FRIEND" by (simp add: k MAX_MESSAGES_PER_FRIEND_def)
  from dm_history_accumulates [OF number_cipher_ok u this, of 1 None]
  show ?thesis by (simp add: k)
qed

end
