(* ===== verification/Polls.thy ===== *)
theory Polls
  imports AppTypes
begin

text \<open>
  Polls: the module-level vote and poll registries of \<open>poll/PollCard.tsx\<close> with its tally and its
  voting handlers, the creation and voting handlers of \<open>poll/usePolls.ts\<close>, and \<open>addPoll\<close> with the
  two poll listeners of \<open>store.ts\<close>.  Option indices are integers: a vote from the network may
  carry any.
\<close>

section \<open>Payloads\<close>

record poll =
  po_id :: string
  po_question :: string
  po_options :: "string list"
  po_multiple :: bool
  po_creator :: int
  po_creatorName :: string
  po_createdAt :: string
  po_channelId :: "int option"

record poll_vote =
  pv_pollId :: string
  pv_selected :: "int list"
  pv_voter :: int
  pv_voterName :: string

section \<open>Registries\<close>

record poll_registry =
  voteStore :: "(string, poll_vote list) jmap"
  pollStore :: "(string, poll) jmap"
  localVotes :: "(string, int list) jmap"

definition getVotes :: "poll_registry \<Rightarrow> string \<Rightarrow> poll_vote list" where
  "getVotes r pollId = or_else (map_get (voteStore r) pollId) []"

definition registerVote :: "poll_vote \<Rightarrow> poll_registry \<Rightarrow> poll_registry" where
  "registerVote vote r =
     r\<lparr>voteStore := map_set (pv_pollId vote)
         (filter (\<lambda>v. pv_voter v \<noteq> pv_voter vote) (getVotes r (pv_pollId vote)) @ [vote]) (voteStore r)\<rparr>"

definition registerPoll :: "poll \<Rightarrow> poll_registry \<Rightarrow> poll_registry" where
  "registerPoll p r = r\<lparr>pollStore := map_set (po_id p) p (pollStore r)\<rparr>"

definition getPoll :: "poll_registry \<Rightarrow> string \<Rightarrow> poll option" where
  "getPoll r pollId = map_get (pollStore r) pollId"

definition registerLocalVote :: "string \<Rightarrow> int list \<Rightarrow> poll_registry \<Rightarrow> poll_registry" where
  "registerLocalVote pollId sel r = r\<lparr>localVotes := map_set pollId sel (localVotes r)\<rparr>"

definition getLocalVote :: "poll_registry \<Rightarrow> string \<Rightarrow> int list option" where
  "getLocalVote r pollId = map_get (localVotes r) pollId"

section \<open>The card\<close>

text \<open>\<open>counts[idx]++\<close> when the index is in range.\<close>

definition count_one :: "int list \<Rightarrow> int \<Rightarrow> int list" where
  "count_one counts idx =
     (if idx \<ge> 0 \<and> idx < int (length counts) then counts[nat idx := counts ! nat idx + 1] else counts)"

definition voteCounts :: "poll \<Rightarrow> poll_vote list \<Rightarrow> int list" where
  "voteCounts p votes =
     foldl (\<lambda>counts v. foldl count_one counts (pv_selected v)) (replicate (length (po_options p)) 0) votes"

definition myVote :: "poll_registry \<Rightarrow> poll \<Rightarrow> int option \<Rightarrow> poll_vote option" where
  "myVote r p ownSession =
     (case ownSession of None \<Rightarrow> None | Some own \<Rightarrow> List.find (\<lambda>v. pv_voter v = own) (getVotes r (po_id p)))"

definition hasVoted :: "poll_registry \<Rightarrow> poll \<Rightarrow> int option \<Rightarrow> bool" where
  "hasVoted r p ownSession \<longleftrightarrow> myVote r p ownSession \<noteq> None \<or> getLocalVote r (po_id p) \<noteq> None"

definition mySelected :: "poll_registry \<Rightarrow> poll \<Rightarrow> int option \<Rightarrow> int list" where
  "mySelected r p ownSession =
     (case myVote r p ownSession of
        Some v \<Rightarrow> pv_selected v
      | None \<Rightarrow> or_else (getLocalVote r (po_id p)) [])"

text \<open>A click either changes the pending selection or votes.\<close>

datatype click_result = NoClick | Pending "int list" | Vote "int list"

definition handleOptionClick ::
  "poll_registry \<Rightarrow> poll \<Rightarrow> int option \<Rightarrow> int list \<Rightarrow> int \<Rightarrow> click_result" where
  "handleOptionClick r p ownSession pending idx =
     (if hasVoted r p ownSession then NoClick
      else if po_multiple p then
        Pending (if idx \<in> set pending then filter (\<lambda>i. i \<noteq> idx) pending else pending @ [idx])
      else Vote [idx])"

definition handleSubmitMultiple :: "int list \<Rightarrow> click_result" where
  "handleSubmitMultiple pending = (if pending = [] then NoClick else Vote pending)"

section \<open>Creating and voting\<close>

definition name_of_session :: "user_entry list \<Rightarrow> int \<Rightarrow> string option" where
  "name_of_session users s = map_option us_name (List.find (\<lambda>u. us_session u = s) users)"

text \<open>\<open>handlePollVote\<close>: the registries afterwards and the channel the vote is sent to.\<close>

definition handlePollVote ::
  "user_entry list \<Rightarrow> int option \<Rightarrow> int option \<Rightarrow> string \<Rightarrow> int list \<Rightarrow> poll_registry \<Rightarrow> poll_registry \<times> int"
where
  "handlePollVote users ownSession selectedChannel pollId sel r =
     (let ownName = (case ownSession of None \<Rightarrow> '''' | Some own \<Rightarrow> or_else (name_of_session users own) '''');
          vote = \<lparr>pv_pollId = pollId, pv_selected = sel, pv_voter = or_else ownSession 0, pv_voterName = ownName\<rparr>;
          r' = registerLocalVote pollId sel (registerVote vote r);
          targetChannel = or_else (or_opt (case getPoll r' pollId of None \<Rightarrow> None | Some p \<Rightarrow> po_channelId p)
                                      selectedChannel) 0
      in (r', targetChannel))"

section \<open>The store\<close>

record poll_slice =
  polls :: "(string, poll) jmap"
  pollMessages :: "chat_message list"

definition poll_message :: "poll \<Rightarrow> bool \<Rightarrow> chat_message" where
  "poll_message p isOwn =
     \<lparr>cm_sender_session = Some (po_creator p),
      cm_sender_name = (if po_creatorName p = '''' then ''Unknown'' else po_creatorName p),
      cm_sender_hash = None, cm_body = ''<!-- FANCY_POLL:'' @ po_id p @ '' -->'',
      cm_channel_id = or_else (po_channelId p) 0, cm_is_own = isOwn, cm_dm_session = None,
      cm_message_id = None, cm_timestamp = None, cm_is_legacy = None, cm_edited_at = None,
      cm_pinned = None, cm_pinned_by = None, cm_pinned_at = None, cm_plugin_name = None,
      cm_plugin_components = None\<rparr>"

definition addPoll :: "poll \<Rightarrow> bool \<Rightarrow> poll_registry \<times> poll_slice \<Rightarrow> poll_registry \<times> poll_slice" where
  "addPoll p isOwn st =
     (case st of (r, s) \<Rightarrow>
       (registerPoll p r,
        s\<lparr>polls := map_set (po_id p) p (polls s),
          pollMessages := (if list_ex (\<lambda>m. includes_str (cm_body m) (po_id p)) (pollMessages s)
                           then pollMessages s else pollMessages s @ [poll_message p isOwn])\<rparr>))"

text \<open>\<open>a || b\<close> on strings.\<close>

definition or_str :: "string \<Rightarrow> string \<Rightarrow> string" where
  "or_str a b = (if a = '''' then b else a)"

definition onFancyPoll :: "user_entry list \<Rightarrow> poll \<Rightarrow> poll_registry \<times> poll_slice \<Rightarrow> poll_registry \<times> poll_slice" where
  "onFancyPoll users e st =
     (let resolvedName = or_str (po_creatorName e) (or_else (name_of_session users (po_creator e)) '''')
      in addPoll (e\<lparr>po_creatorName := resolvedName\<rparr>) False st)"

definition onFancyPollVote :: "user_entry list \<Rightarrow> poll_vote \<Rightarrow> poll_registry \<Rightarrow> poll_registry" where
  "onFancyPollVote users e r =
     (let resolvedName = or_str (pv_voterName e) (or_else (name_of_session users (pv_voter e)) '''')
      in registerVote (e\<lparr>pv_voterName := resolvedName\<rparr>) r)"

text \<open>\<open>handlePollCreate\<close>: the poll is registered locally and returned for sending.\<close>

definition handlePollCreate ::
  "user_entry list \<Rightarrow> int option \<Rightarrow> int option \<Rightarrow> string \<Rightarrow> string \<Rightarrow> string \<Rightarrow> string list \<Rightarrow> bool
    \<Rightarrow> poll_registry \<times> poll_slice \<Rightarrow> (poll_registry \<times> poll_slice) \<times> poll option"
where
  "handlePollCreate users ownSession selectedChannel pollId createdAt question options multiple st =
     (case selectedChannel of
        None \<Rightarrow> (st, None)
      | Some ch \<Rightarrow>
          (let p = \<lparr>po_id = pollId, po_question = question, po_options = options, po_multiple = multiple,
                po_creator = or_else ownSession 0,
                po_creatorName = (case ownSession of None \<Rightarrow> '''' | Some own \<Rightarrow> or_else (name_of_session users own) ''''),
                po_createdAt = createdAt, po_channelId = Some ch\<rparr>
           in (addPoll p True st, Some p)))"

section \<open>Lemmas\<close>

lemma getVotes_register:
  "getVotes (registerVote v r) k =
    (if k = pv_pollId v then filter (\<lambda>x. pv_voter x \<noteq> pv_voter v) (getVotes r k) @ [v] else getVotes r k)"
  by (simp add: getVotes_def registerVote_def)

text \<open>The last vote of a voter in a list of votes.\<close>

definition last_vote :: "poll_vote list \<Rightarrow> int \<Rightarrow> poll_vote option" where
  "last_vote vs x = List.find (\<lambda>v. pv_voter v = x) (rev vs)"

lemma find_filter: "(\<And>x. p x \<Longrightarrow> q x) \<Longrightarrow> List.find p (filter q xs) = List.find p xs"
  by (induction xs) auto

lemma find_append: "List.find p (xs @ ys) = or_opt (List.find p xs) (List.find p ys)"
  by (induction xs) auto

lemma find_filter_none: "(\<And>x. p x \<Longrightarrow> \<not> q x) \<Longrightarrow> List.find p (filter q xs) = None"
  by (induction xs) auto

lemma votes_run:
  assumes "distinct (map pv_voter (getVotes r k))"
  shows "distinct (map pv_voter (getVotes (foldl (\<lambda>r v. registerVote v r) r vs) k))
    \<and> (\<forall>x. List.find (\<lambda>v. pv_voter v = x) (getVotes (foldl (\<lambda>r v. registerVote v r) r vs) k)
        = or_opt (last_vote (filter (\<lambda>v. pv_pollId v = k) vs) x) (List.find (\<lambda>v. pv_voter v = x) (getVotes r k)))"
  using assms
proof (induction vs arbitrary: r)
  case Nil
  then show ?case by (simp add: last_vote_def)
next
  case (Cons v vs)
  let ?r = "registerVote v r"
  have d: "distinct (map pv_voter (getVotes ?r k))"
    using Cons.prems by (auto simp: getVotes_register distinct_map_filter)
  have f: "List.find (\<lambda>w. pv_voter w = x) (getVotes ?r k) =
      (if pv_pollId v = k \<and> pv_voter v = x then Some v else List.find (\<lambda>w. pv_voter w = x) (getVotes r k))" for x
    by (auto simp: getVotes_register find_append find_filter find_filter_none)
      (metis (mono_tags, lifting) find_filter or_opt_def option.case_eq_if option.collapse)
  have l: "or_opt (last_vote (filter (\<lambda>v. pv_pollId v = k) (v # vs)) x) d =
      or_opt (last_vote (filter (\<lambda>v. pv_pollId v = k) vs) x)
        (if pv_pollId v = k \<and> pv_voter v = x then Some v else d)" for x d
    by (auto simp: last_vote_def find_append or_opt_def split: option.splits)
  show ?case using Cons.IH [OF d] by (simp only: f l foldl_Cons) simp
qed

lemma count_one_nth:
  "i < length c \<Longrightarrow> count_one c idx ! i = c ! i + (if idx = int i then 1 else 0)"
  by (auto simp: count_one_def nth_list_update)

lemma length_count_one [simp]: "length (count_one c idx) = length c"
  by (simp add: count_one_def)

lemma length_foldl_count [simp]: "length (foldl count_one c sel) = length c"
  by (induction sel arbitrary: c) auto

lemma foldl_count_nth:
  "i < length c \<Longrightarrow> foldl count_one c sel ! i = c ! i + int (count_list sel (int i))"
  by (induction sel arbitrary: c) (auto simp: count_one_nth)

lemma voteCounts_nth:
  assumes "i < length (po_options p)"
  shows "voteCounts p vs ! i = (\<Sum>v\<leftarrow>vs. int (count_list (pv_selected v) (int i)))"
proof -
  have "i < length c \<Longrightarrow> foldl (\<lambda>c v. foldl count_one c (pv_selected v)) c vs ! i
      = c ! i + (\<Sum>v\<leftarrow>vs. int (count_list (pv_selected v) (int i)))" for c
    by (induction vs arbitrary: c) (auto simp: foldl_count_nth)
  with assms show ?thesis by (simp add: voteCounts_def)
qed

lemma find_distinct:
  "distinct (map f vs) \<Longrightarrow> v \<in> set vs \<Longrightarrow> List.find (\<lambda>w. f w = f v) vs = Some v"
  by (induction vs) (auto simp: rev_image_eqI)

lemma sum_by_voter:
  assumes "distinct (map pv_voter vs)"
  shows "(\<Sum>v\<leftarrow>vs. g v) = (\<Sum>x\<in>pv_voter ` set vs. g (the (List.find (\<lambda>v. pv_voter v = x) vs)))"
    (is "_ = (\<Sum>x\<in>_. ?h x)")
proof -
  have "map g vs = map ?h (map pv_voter vs)"
    using find_distinct [OF assms] by auto
  then have "(\<Sum>v\<leftarrow>vs. g v) = sum_list (map ?h (map pv_voter vs))" by metis
  also have "\<dots> = sum ?h (set (map pv_voter vs))" by (rule sum_list_distinct_conv_sum_set [OF assms])
  finally show ?thesis by simp
qed

lemma find_in_set_iff: "x \<in> pv_voter ` set vs \<longleftrightarrow> List.find (\<lambda>v. pv_voter v = x) vs \<noteq> None"
  by (induction vs) auto

lemma last_vote_None_iff: "last_vote vs x = None \<longleftrightarrow> x \<notin> pv_voter ` set vs"
  using find_in_set_iff [of x "rev vs"] by (auto simp: last_vote_def)

section \<open>Properties\<close>

text \<open>
  C14: one voter, one vote.  After any sequence of vote deliveries (for any polls, in any order,
  with re-votes and out-of-range options), the number of voters of a poll is the number of
  distinct sessions that voted on it, and the count of each option is exactly what those
  sessions' last votes give it.
\<close>

theorem poll_tally_exact:
  assumes "k = po_id p" and "i < length (po_options p)"
    and "vs_k = filter (\<lambda>v. pv_pollId v = k) vs"
    and "votes = getVotes (foldl (\<lambda>r v. registerVote v r) \<lparr>voteStore = [], pollStore = ps, localVotes = ls\<rparr> vs) k"
  shows "length votes = card (pv_voter ` set vs_k)
    \<and> voteCounts p votes ! i
      = (\<Sum>x\<in>pv_voter ` set vs_k. int (count_list (pv_selected (the (last_vote vs_k x))) (int i)))"
proof -
  let ?r = "\<lparr>voteStore = [], pollStore = ps, localVotes = ls\<rparr> :: poll_registry"
  have "distinct (map pv_voter (getVotes ?r k))" by (simp add: getVotes_def)
  from votes_run [OF this, of vs] have d: "distinct (map pv_voter votes)"
    and f: "List.find (\<lambda>v. pv_voter v = x) votes = last_vote vs_k x" for x
    by (auto simp: assms(3,4) getVotes_def or_opt_def split: option.split)
  have s: "pv_voter ` set votes = pv_voter ` set vs_k"
    by (rule set_eqI) (metis f find_in_set_iff last_vote_None_iff)
  have "length votes = card (set (map pv_voter votes))" using distinct_card [OF d] by simp
  then show ?thesis
    by (simp add: s [symmetric] voteCounts_nth [OF assms(2)] sum_by_voter [OF d] f)
qed

definition example_vote :: "int \<Rightarrow> int list \<Rightarrow> poll_vote" where
  "example_vote v sel = \<lparr>pv_pollId = ''p'', pv_selected = sel, pv_voter = v, pv_voterName = ''''\<rparr>"

definition example_poll :: poll where
  "example_poll = \<lparr>po_id = ''p'', po_question = ''q'', po_options = [''a'', ''b''], po_multiple = False,
     po_creator = 1, po_creatorName = '''', po_createdAt = '''', po_channelId = Some 1\<rparr>"

theorem poll_tally_exact_witness:
  "voteCounts example_poll (getVotes (foldl (\<lambda>r v. registerVote v r)
      \<lparr>voteStore = [], pollStore = [], localVotes = []\<rparr>
      [example_vote 1 [0], example_vote 2 [1], example_vote 1 [1, 9]]) ''p'') ! 1 = 2"
proof -
  have "''p'' = po_id example_poll" "1 < length (po_options example_poll)" by (simp_all add: example_poll_def)
  note poll_tally_exact [OF this refl refl, of "[]" "[]"
      "[example_vote 1 [0], example_vote 2 [1], example_vote 1 [1, 9]]"]
  moreover have "{1, 2, 1 :: int} = {1, 2}" by auto
  ultimately show ?thesis by (simp add: example_vote_def last_vote_def)
qed

end
