(* ===== verification/ChatStore.thy ===== *)
theory ChatStore
  imports DmHistory Polls
begin

text \<open>
  The chat part of \<open>store.ts\<close>: what is selected and shown (channel or direct messages), optimistic
  outbound messages, typing indicators, unread counts, pins, downloads, link previews.

  An asynchronous action is cut at its \<open>await\<close>s.  Starting it runs the code up to the first
  \<open>await\<close> and leaves a \<open>chat_task\<close>, the rest of the action with what it has captured; \<open>resume\<close> runs
  that rest up to the next \<open>await\<close> when the backend's reply (or rejection) arrives.  The event
  loop holds the tasks in flight and may resume any of them at any time, which is every
  interleaving JavaScript allows.  Random ids and the clock are arguments.
\<close>

section \<open>State\<close>

record download_entry =
  dl_id :: string
  dl_filename :: string
  dl_destPath :: string
  dl_sizeBytes :: int
  dl_sourceUrl :: string
  dl_mode :: string
  dl_downloadedAt :: int

record chat_slice =
  selectedChannel :: "int option"
  currentChannel :: "int option"
  selectedUser :: "int option"
  selectedDmUser :: "int option"
  messages :: "chat_message list"
  dmMessages :: "chat_message list"
  unreadCounts :: "(int, int) jmap"
  dmUnreadCounts :: "(int, int) jmap"
  pendingMessages :: "pending_message list"
  unseenPinIds :: "(int, string jset) jmap"
  typingUsers :: "(int, int jset) jmap"
  listenedChannels :: "int jset"
  silencedChannels :: "int jset"
  linkEmbeds :: "(string, string list) jmap"   \<comment> \<open>embeds are opaque\<close>
  downloads :: "download_entry list"
  unseenDownloadCount :: int
  messageWriteSeq :: int                        \<comment> \<open>module variable\<close>
  pendingPreviewRequests :: "string jset"       \<comment> \<open>module variable\<close>

text \<open>The chat fields of \<open>INITIAL\<close>; the module variables are not part of it.\<close>

definition chat_initial :: chat_slice where
  "chat_initial = \<lparr>selectedChannel = None, currentChannel = None, selectedUser = None, selectedDmUser = None,
     messages = [], dmMessages = [], unreadCounts = [], dmUnreadCounts = [], pendingMessages = [],
     unseenPinIds = [], typingUsers = [], listenedChannels = [], silencedChannels = [], linkEmbeds = [],
     downloads = [], unseenDownloadCount = 0, messageWriteSeq = 0, pendingPreviewRequests = []\<rparr>"

definition chat_reset :: "chat_slice \<Rightarrow> chat_slice" where
  "chat_reset s = chat_initial\<lparr>messageWriteSeq := messageWriteSeq s,
     pendingPreviewRequests := pendingPreviewRequests s\<rparr>"

section \<open>Tasks\<close>

datatype chat_task =
    SelectTask int int                   \<comment> \<open>\<open>select_channel\<close> sent, the channel and its sequence number\<close>
  | FetchTask int int                    \<comment> \<open>\<open>get_messages\<close> sent, guarded by the sequence number\<close>
  | SendTask int string bool             \<comment> \<open>\<open>send_message\<close> sent: channel, pending id, placeholder shown\<close>
  | SendFetchTask int int string bool    \<comment> \<open>\<open>get_messages\<close> after a send\<close>
  | EditTask int                         \<comment> \<open>\<open>edit_message\<close> sent\<close>
  | DeleteTask int "string list"         \<comment> \<open>\<open>delete_pchat_messages\<close> sent\<close>
  | DmSelectTask int                     \<comment> \<open>\<open>select_dm_user\<close> sent\<close>
  | DmFetchTask int                      \<comment> \<open>\<open>get_dm_messages\<close> sent\<close>
  | DmMergeTask int "chat_message list"  \<comment> \<open>the history on the device being read\<close>
  | DmSendTask int string bool           \<comment> \<open>\<open>send_dm\<close> sent\<close>
  | DmSendFetchTask int string bool
  | DmSendMergeTask int "chat_message list" string bool
  | SwitchChannelTask bool               \<comment> \<open>\<open>get_current_channel\<close> sent; whether no channel empties the list\<close>
  | SwitchMessagesTask int               \<comment> \<open>\<open>get_messages\<close> sent for the tab switched to, without a guard\<close>
  | ThenClearUser chat_task              \<comment> \<open>an awaited action, then \<open>selectedUser\<close> is cleared\<close>

datatype chat_reply = Done | Msgs "chat_message list" | Chan "int option" | Rejected string

section \<open>Pending messages\<close>

definition LARGE_MESSAGE_THRESHOLD :: nat where
  "LARGE_MESSAGE_THRESHOLD = 4096"

definition bodyNeedsProgressUI :: "string \<Rightarrow> bool" where
  "bodyNeedsProgressUI body \<longleftrightarrow>
     includes_str body ''<img'' \<or> includes_str body ''<video'' \<or> length body > LARGE_MESSAGE_THRESHOLD"

definition mk_pending :: "string \<Rightarrow> int option \<Rightarrow> int option \<Rightarrow> string \<Rightarrow> int \<Rightarrow> pending_message" where
  "mk_pending pid ch dm body now =
     \<lparr>pm_pendingId = pid, pm_channelId = ch, pm_dmSession = dm, pm_body = body, pm_createdAt = now,
      pm_state = Sending, pm_errorMessage = None\<rparr>"

definition addPendingPlaceholder ::
  "string \<Rightarrow> int \<Rightarrow> int option \<Rightarrow> int option \<Rightarrow> string \<Rightarrow> chat_slice \<Rightarrow> chat_slice" where
  "addPendingPlaceholder pid now ch dm body s =
     s\<lparr>pendingMessages := pendingMessages s @ [mk_pending pid ch dm body now]\<rparr>"

definition dismissPendingMessage :: "string \<Rightarrow> chat_slice \<Rightarrow> chat_slice" where
  "dismissPendingMessage pid s =
     s\<lparr>pendingMessages := filter (\<lambda>p. pm_pendingId p \<noteq> pid) (pendingMessages s)\<rparr>"

definition fail_pending :: "string \<Rightarrow> string \<Rightarrow> pending_message \<Rightarrow> pending_message" where
  "fail_pending pid e p =
     (if pm_pendingId p = pid then p\<lparr>pm_state := Failed, pm_errorMessage := Some e\<rparr> else p)"

definition markPendingFailed :: "string \<Rightarrow> string \<Rightarrow> chat_slice \<Rightarrow> chat_slice" where
  "markPendingFailed pid e s = s\<lparr>pendingMessages := map (fail_pending pid e) (pendingMessages s)\<rparr>"

section \<open>Actions, up to their first await\<close>

definition bump :: "chat_slice \<Rightarrow> chat_slice" where
  "bump s = s\<lparr>messageWriteSeq := messageWriteSeq s + 1\<rparr>"

definition selectChannel :: "int \<Rightarrow> chat_slice \<Rightarrow> chat_slice \<times> chat_task list" where
  "selectChannel ch s =
     (let s1 = bump (s\<lparr>selectedChannel := Some ch, selectedDmUser := None, dmMessages := []\<rparr>)
      in (s1, [SelectTask ch (messageWriteSeq s1)]))"

definition refreshMessages :: "int \<Rightarrow> chat_slice \<Rightarrow> chat_slice \<times> chat_task list" where
  "refreshMessages ch s = (let s1 = bump s in (s1, [FetchTask ch (messageWriteSeq s1)]))"

definition sendMessage :: "string \<Rightarrow> int \<Rightarrow> int \<Rightarrow> string \<Rightarrow> chat_slice \<Rightarrow> chat_slice \<times> chat_task list" where
  "sendMessage pid now ch body s =
     (let show = bodyNeedsProgressUI body
      in (if show then addPendingPlaceholder pid now (Some ch) None body s else s, [SendTask ch pid show]))"

definition editMessage :: "int \<Rightarrow> chat_slice \<Rightarrow> chat_slice \<times> chat_task list" where
  "editMessage ch s = (s, [EditTask ch])"

definition deletePchatMessages :: "int \<Rightarrow> string list \<Rightarrow> chat_slice \<Rightarrow> chat_slice \<times> chat_task list" where
  "deletePchatMessages ch ids s = (s, [DeleteTask ch ids])"

definition selectDmUser :: "int \<Rightarrow> chat_slice \<Rightarrow> chat_slice \<times> chat_task list" where
  "selectDmUser session s =
     (if selectedDmUser s = Some session
      then (case currentChannel s of
              None \<Rightarrow> (s\<lparr>selectedDmUser := None, dmMessages := [], selectedUser := None\<rparr>, [])
            | Some ch \<Rightarrow> (case selectChannel ch s of (s1, ts) \<Rightarrow> (s1, map ThenClearUser ts)))
      else (s\<lparr>selectedDmUser := Some session, selectedChannel := None, messages := [],
              selectedUser := Some session\<rparr>, [DmSelectTask session]))"

definition sendDm :: "string \<Rightarrow> int \<Rightarrow> int \<Rightarrow> string \<Rightarrow> chat_slice \<Rightarrow> chat_slice \<times> chat_task list" where
  "sendDm pid now session body s =
     (let show = bodyNeedsProgressUI body
      in (if show then addPendingPlaceholder pid now None (Some session) body s else s, [DmSendTask session pid show]))"

definition refreshDmMessages :: "int \<Rightarrow> chat_slice \<Rightarrow> chat_slice \<times> chat_task list" where
  "refreshDmMessages session s = (s, [DmFetchTask session])"

definition retryPendingMessage ::
  "string \<Rightarrow> int \<Rightarrow> string \<Rightarrow> chat_slice \<Rightarrow> chat_slice \<times> chat_task list" where
  "retryPendingMessage newPid now pid s =
     (case List.find (\<lambda>p. pm_pendingId p = pid) (pendingMessages s) of
        None \<Rightarrow> (s, [])
      | Some target \<Rightarrow>
          (let s1 = dismissPendingMessage pid s in
           case pm_dmSession target of
             Some dm \<Rightarrow> sendDm newPid now dm (pm_body target) s1
           | None \<Rightarrow>
               (case pm_channelId target of
                  Some ch \<Rightarrow> sendMessage newPid now ch (pm_body target) s1
                | None \<Rightarrow> (s1, []))))"

text \<open>
  The part of \<open>switchServer\<close>, and of the restore when the client starts, that writes this slice: it begins when the
  tab's channels and users are loaded.
\<close>

definition switchChat :: "bool \<Rightarrow> chat_slice \<Rightarrow> chat_slice \<times> chat_task list" where
  "switchChat clear s = (s, [SwitchChannelTask clear])"

section \<open>Resuming\<close>

text \<open>
  \<open>persist\<close> is the result of \<open>applyDmPersistence\<close>, which reads a setting and a file before it merges; that
  is a task of its own.  A task ignores a reply of the wrong
  shape: the backend never sends one.
\<close>

fun resume ::
  "(int \<Rightarrow> chat_message list \<Rightarrow> chat_message list) \<Rightarrow> chat_task \<Rightarrow> chat_reply \<Rightarrow> chat_slice
    \<Rightarrow> chat_slice \<times> chat_task list"
where
  "resume persist (SelectTask ch q) r s =
     (case r of Rejected e \<Rightarrow> (s, []) | _ \<Rightarrow> (s, [FetchTask ch q]))"
| "resume persist (FetchTask ch q) r s =
     (case r of
        Msgs ms \<Rightarrow> (if messageWriteSeq s = q then s\<lparr>messages := ms\<rparr> else s, [])
      | _ \<Rightarrow> (s, []))"
| "resume persist (SendTask ch pid show) r s =
     (case r of
        Rejected e \<Rightarrow> (if show then markPendingFailed pid e s else s, [])
      | _ \<Rightarrow> (let s1 = bump s in (s1, [SendFetchTask ch (messageWriteSeq s1) pid show])))"
| "resume persist (SendFetchTask ch q pid show) r s =
     (case r of
        Msgs ms \<Rightarrow>
          (let s1 = (if messageWriteSeq s = q then s\<lparr>messages := ms\<rparr> else s)
           in (if show then dismissPendingMessage pid s1 else s1, []))
      | Rejected e \<Rightarrow> (if show then markPendingFailed pid e s else s, [])
      | _ \<Rightarrow> (s, []))"
| "resume persist (EditTask ch) r s =
     (case r of Rejected e \<Rightarrow> (s, []) | _ \<Rightarrow> refreshMessages ch s)"
| "resume persist (DeleteTask ch ids) r s =
     (case r of
        Rejected e \<Rightarrow> (s, [])
      | _ \<Rightarrow> if ids \<noteq> [] then
               (s\<lparr>messages := filter (\<lambda>m. case cm_message_id m of
                     None \<Rightarrow> True | Some i \<Rightarrow> i = '''' \<or> i \<notin> set ids) (messages s)\<rparr>, [])
             else refreshMessages ch s)"
| "resume persist (DmSelectTask session) r s =
     (case r of Rejected e \<Rightarrow> (s, []) | _ \<Rightarrow> (s, [DmFetchTask session]))"
| "resume persist (DmFetchTask session) r s =
     (case r of Msgs remote \<Rightarrow> (s, [DmMergeTask session remote]) | _ \<Rightarrow> (s, []))"
| "resume persist (DmMergeTask session remote) r s =
     (case r of Rejected e \<Rightarrow> (s, []) | _ \<Rightarrow> (s\<lparr>dmMessages := persist session remote\<rparr>, []))"
| "resume persist (DmSendTask session pid show) r s =
     (case r of
        Rejected e \<Rightarrow> (if show then markPendingFailed pid e s else s, [])
      | _ \<Rightarrow> (s, [DmSendFetchTask session pid show]))"
| "resume persist (DmSendFetchTask session pid show) r s =
     (case r of
        Msgs remote \<Rightarrow> (s, [DmSendMergeTask session remote pid show])
      | Rejected e \<Rightarrow> (if show then markPendingFailed pid e s else s, [])
      | _ \<Rightarrow> (s, []))"
| "resume persist (DmSendMergeTask session remote pid show) r s =
     (case r of
        Rejected e \<Rightarrow> (if show then markPendingFailed pid e s else s, [])
      | _ \<Rightarrow>
          (let s1 = s\<lparr>dmMessages := persist session remote\<rparr>
           in (if show then dismissPendingMessage pid s1 else s1, [])))"
| "resume persist (SwitchChannelTask clear) r s =
     (case r of
        Chan cur \<Rightarrow>
          (let s1 = s\<lparr>currentChannel := cur, selectedChannel := cur\<rparr>
           in case cur of
                None \<Rightarrow> (if clear then s1\<lparr>messages := []\<rparr> else s1, [])
              | Some ch \<Rightarrow> (s1, [SwitchMessagesTask ch]))
      | _ \<Rightarrow> (s, []))"
| "resume persist (SwitchMessagesTask ch) r s =
     (case r of Msgs ms \<Rightarrow> (s\<lparr>messages := ms\<rparr>, []) | _ \<Rightarrow> (s, []))"
| "resume persist (ThenClearUser t) r s =
     (case resume persist t r s of
        (s1, []) \<Rightarrow> (s1\<lparr>selectedUser := None\<rparr>, [])
      | (s1, ts) \<Rightarrow> (s1, map ThenClearUser ts))"

section \<open>Synchronous actions and listeners\<close>

definition selectUser :: "int option \<Rightarrow> chat_slice \<Rightarrow> chat_slice" where
  "selectUser session s = s\<lparr>selectedUser := session\<rparr>"

text \<open>\<open>toggleListen\<close> after its reply.\<close>

definition toggleListen :: "int \<Rightarrow> bool \<Rightarrow> chat_slice \<Rightarrow> chat_slice" where
  "toggleListen ch isNowListened s =
     s\<lparr>listenedChannels := (if isNowListened then set_add ch (listenedChannels s)
                            else set_remove ch (listenedChannels s))\<rparr>"

definition onListenDenied :: "int \<Rightarrow> chat_slice \<Rightarrow> chat_slice" where
  "onListenDenied ch s = s\<lparr>listenedChannels := set_remove ch (listenedChannels s)\<rparr>"

definition onCurrentChannelChanged :: "int \<Rightarrow> chat_slice \<Rightarrow> chat_slice" where
  "onCurrentChannelChanged ch s = s\<lparr>currentChannel := Some ch\<rparr>"

definition clearUnseenPins :: "int \<Rightarrow> chat_slice \<Rightarrow> chat_slice" where
  "clearUnseenPins ch s = s\<lparr>unseenPinIds := map_del ch (unseenPinIds s)\<rparr>"

definition addDownload :: "download_entry \<Rightarrow> chat_slice \<Rightarrow> chat_slice" where
  "addDownload d s =
     s\<lparr>downloads := take 200 (d # downloads s), unseenDownloadCount := unseenDownloadCount s + 1\<rparr>"

definition markDownloadsSeen :: "chat_slice \<Rightarrow> chat_slice" where
  "markDownloadsSeen s = s\<lparr>unseenDownloadCount := 0\<rparr>"

definition removeDownload :: "string \<Rightarrow> chat_slice \<Rightarrow> chat_slice" where
  "removeDownload i s = s\<lparr>downloads := filter (\<lambda>d. dl_id d \<noteq> i) (downloads s)\<rparr>"

definition clearDownloads :: "chat_slice \<Rightarrow> chat_slice" where
  "clearDownloads s = s\<lparr>downloads := [], unseenDownloadCount := 0\<rparr>"

definition onTypingIndicator :: "int \<Rightarrow> int \<Rightarrow> chat_slice \<Rightarrow> chat_slice" where
  "onTypingIndicator session ch s =
     s\<lparr>typingUsers := map_set ch (set_add session (or_else (map_get (typingUsers s) ch) [])) (typingUsers s)\<rparr>"

text \<open>The timer that expires an indicator after five seconds.\<close>

definition drop_typing :: "int \<Rightarrow> int jset \<Rightarrow> int \<Rightarrow> (int, int jset) jmap \<Rightarrow> (int, int jset) jmap" where
  "drop_typing ch channelSet session m =
     (let updated = set_remove session channelSet
      in if updated = [] then map_del ch m else map_set ch updated m)"

definition typingExpired :: "int \<Rightarrow> int \<Rightarrow> chat_slice \<Rightarrow> chat_slice" where
  "typingExpired session ch s =
     (case map_get (typingUsers s) ch of
        None \<Rightarrow> s
      | Some channelSet \<Rightarrow> s\<lparr>typingUsers := drop_typing ch channelSet session (typingUsers s)\<rparr>)"

definition onNewMessage :: "int \<Rightarrow> int option \<Rightarrow> chat_slice \<Rightarrow> chat_slice \<times> chat_task list" where
  "onNewMessage ch sender s =
     (let s1 = (case sender of
                  None \<Rightarrow> s
                | Some u \<Rightarrow>
                    (case map_get (typingUsers s) ch of
                       None \<Rightarrow> s
                     | Some channelSet \<Rightarrow>
                         if \<not> set_has channelSet u then s
                         else s\<lparr>typingUsers := drop_typing ch channelSet u (typingUsers s)\<rparr>))
      in if selectedChannel s1 = Some ch then refreshMessages ch s1 else (s1, []))"

definition onNewDm :: "int \<Rightarrow> chat_slice \<Rightarrow> chat_slice \<times> chat_task list" where
  "onNewDm session s = (if selectedDmUser s = Some session then refreshDmMessages session s else (s, []))"

text \<open>The number on the taskbar badge; \<open>None\<close> clears it.\<close>

definition updateBadgeCount :: "chat_slice \<Rightarrow> int option" where
  "updateBadgeCount s =
     (let channelSum = sum_list (map snd (filter (\<lambda>p. \<not> set_has (silencedChannels s) (fst p)) (unreadCounts s)));
          dmSum = sum_list (map_values (dmUnreadCounts s));
          tot = channelSum + dmSum
      in if tot > 0 then Some tot else None)"

record pin_deliver_event =
  pe_channel_id :: int
  pe_message_id :: string
  pe_pinned :: bool
  pe_pinner_hash :: string
  pe_pinner_name :: string
  pe_timestamp :: int

definition onPinDeliver :: "user_entry list \<Rightarrow> pin_deliver_event \<Rightarrow> chat_slice \<Rightarrow> chat_slice" where
  "onPinDeliver users e s =
     (let resolvedName = resolve_by_hash users (pe_pinner_hash e) (pe_pinner_name e);
          old = or_else (map_get (unseenPinIds s) (pe_channel_id e)) [];
          channelSet = (if pe_pinned e then set_add (pe_message_id e) old else set_remove (pe_message_id e) old)
      in s\<lparr>messages := map (\<lambda>m. if cm_message_id m = Some (pe_message_id e)
              then m\<lparr>cm_pinned := Some (pe_pinned e),
                     cm_pinned_by := (if pe_pinned e then Some resolvedName else None),
                     cm_pinned_at := (if pe_pinned e then Some (pe_timestamp e) else None)\<rparr>
              else m) (messages s),
           unseenPinIds := (if channelSet \<noteq> [] then map_set (pe_channel_id e) channelSet (unseenPinIds s)
                            else map_del (pe_channel_id e) (unseenPinIds s))\<rparr>)"

record stored_pin =
  sp_message_id :: string
  sp_pinner_hash :: string
  sp_pinner_name :: string
  sp_timestamp :: int

definition onPinFetchResponse :: "user_entry list \<Rightarrow> stored_pin list \<Rightarrow> chat_slice \<Rightarrow> chat_slice" where
  "onPinFetchResponse users pins s =
     (let pinnedIds = foldl (\<lambda>m p. map_set (sp_message_id p)
              (resolve_by_hash users (sp_pinner_hash p) (sp_pinner_name p), sp_timestamp p) m) [] pins
      in s\<lparr>messages := map (\<lambda>m.
           case (case cm_message_id m of None \<Rightarrow> None
                 | Some i \<Rightarrow> if i = '''' then None else map_get pinnedIds i) of
             None \<Rightarrow> m
           | Some (by_name, tstamp) \<Rightarrow>
               m\<lparr>cm_pinned := Some True, cm_pinned_by := Some by_name, cm_pinned_at := Some tstamp\<rparr>)
           (messages s)\<rparr>)"

text \<open>\<open>requestLinkPreview\<close> up to its await (whether a request is sent), and its failure.\<close>

definition requestLinkPreview :: "string \<Rightarrow> chat_slice \<Rightarrow> chat_slice \<times> bool" where
  "requestLinkPreview requestId s =
     (if set_has (pendingPreviewRequests s) requestId then (s, False)
      else (s\<lparr>pendingPreviewRequests := set_add requestId (pendingPreviewRequests s)\<rparr>, True))"

definition linkPreviewFailed :: "string \<Rightarrow> chat_slice \<Rightarrow> chat_slice" where
  "linkPreviewFailed requestId s =
     s\<lparr>pendingPreviewRequests := set_remove requestId (pendingPreviewRequests s)\<rparr>"

definition onLinkPreviewResponse :: "string \<Rightarrow> string list \<Rightarrow> chat_slice \<Rightarrow> chat_slice" where
  "onLinkPreviewResponse requestId embeds s =
     (if requestId = '''' \<or> embeds = [] then s
      else s\<lparr>linkEmbeds := map_set requestId embeds (linkEmbeds s)\<rparr>)"

end
