(* ===== verification/ChatLoop.thy ===== *)
theory ChatLoop
  imports ChatStore
begin

text \<open>
  The event loop over the chat actions of \<open>ChatStore\<close>: actions and listeners start, replies
  arrive for any task in flight, in any order.  The lemmas follow the sequence numbers that guard
  \<open>messages\<close>, the placeholders of outbound messages and the well-formedness of the slice through
  every interleaving.
\<close>

section \<open>The loop\<close>

datatype chat_action =
    ASelectChannel int
  | ARefreshMessages int
  | ASendMessage string int int string
  | AEditMessage int
  | ADeleteMessages int "string list"
  | ASelectDmUser int
  | ASendDm string int int string
  | ARefreshDm int
  | ARetry string int string
  | ADismiss string
  | AMarkFailed string string
  | APlaceholder string int "int option" "int option" string
  | ANewMessage int "int option"
  | ANewDm int
  | ATyping int int
  | ATypingExpired int int
  | APinDeliver "user_entry list" pin_deliver_event
  | APinFetch "user_entry list" "stored_pin list"
  | AClearPins int
  | ADownload download_entry
  | ACurrentChannel int
  | ASelectUser "int option"
  | AToggleListen int bool
  | AReset
  | ASwitchServer
  | AStartRestore
  | AKeyRevoked int

text \<open>What the revocation of a channel's key does to this slice.\<close>

definition clear_revoked :: "int \<Rightarrow> chat_slice \<Rightarrow> chat_slice" where
  "clear_revoked ch s = (if selectedChannel s = Some ch then s\<lparr>messages := []\<rparr> else s)"

lemma clear_revoked_keeps [simp]:
  "messageWriteSeq (clear_revoked ch s) = messageWriteSeq s" "selectedChannel (clear_revoked ch s) = selectedChannel s"
  "selectedDmUser (clear_revoked ch s) = selectedDmUser s" "typingUsers (clear_revoked ch s) = typingUsers s"
  "unseenPinIds (clear_revoked ch s) = unseenPinIds s" "listenedChannels (clear_revoked ch s) = listenedChannels s"
  "downloads (clear_revoked ch s) = downloads s" "pendingMessages (clear_revoked ch s) = pendingMessages s"
  by (simp_all add: clear_revoked_def)

fun perform :: "chat_action \<Rightarrow> chat_slice \<Rightarrow> chat_slice \<times> chat_task list" where
  "perform (ASelectChannel ch) s = selectChannel ch s"
| "perform (ARefreshMessages ch) s = refreshMessages ch s"
| "perform (ASendMessage pid now ch body) s = sendMessage pid now ch body s"
| "perform (AEditMessage ch) s = editMessage ch s"
| "perform (ADeleteMessages ch ids) s = deletePchatMessages ch ids s"
| "perform (ASelectDmUser u) s = selectDmUser u s"
| "perform (ASendDm pid now u body) s = sendDm pid now u body s"
| "perform (ARefreshDm u) s = refreshDmMessages u s"
| "perform (ARetry newPid now pid) s = retryPendingMessage newPid now pid s"
| "perform (ADismiss pid) s = (dismissPendingMessage pid s, [])"
| "perform (AMarkFailed pid e) s = (markPendingFailed pid e s, [])"
| "perform (APlaceholder pid now ch dm body) s = (addPendingPlaceholder pid now ch dm body s, [])"
| "perform (ANewMessage ch u) s = onNewMessage ch u s"
| "perform (ANewDm u) s = onNewDm u s"
| "perform (ATyping u ch) s = (onTypingIndicator u ch s, [])"
| "perform (ATypingExpired u ch) s = (typingExpired u ch s, [])"
| "perform (APinDeliver us e) s = (onPinDeliver us e s, [])"
| "perform (APinFetch us ps) s = (onPinFetchResponse us ps s, [])"
| "perform (AClearPins ch) s = (clearUnseenPins ch s, [])"
| "perform (ADownload d) s = (addDownload d s, [])"
| "perform (ACurrentChannel ch) s = (onCurrentChannelChanged ch s, [])"
| "perform (ASelectUser u) s = (selectUser u s, [])"
| "perform (AToggleListen ch b) s = (toggleListen ch b s, [])"
| "perform AReset s = (chat_reset s, [])"
| "perform ASwitchServer s = switchChat True s"
| "perform AStartRestore s = switchChat False s"
| "perform (AKeyRevoked ch) s = (clear_revoked ch s, [])"

type_synonym chat_loop = "chat_slice \<times> chat_task list"

datatype chat_ev = Start chat_action | Reply nat chat_reply

text \<open>
  The replies a command has: a message list for the queries, a channel or none for the question for the current
  channel, nothing for the others.
\<close>

fun is_query :: "chat_task \<Rightarrow> bool" where
  "is_query (FetchTask ch q) = True"
| "is_query (SendFetchTask ch q pid show) = True"
| "is_query (DmFetchTask u) = True"
| "is_query (DmSendFetchTask u pid show) = True"
| "is_query (SwitchMessagesTask ch) = True"
| "is_query (ThenClearUser t) = is_query t"
| "is_query t = False"

fun asks_channel :: "chat_task \<Rightarrow> bool" where
  "asks_channel (SwitchChannelTask clear) = True"
| "asks_channel (ThenClearUser t) = asks_channel t"
| "asks_channel t = False"

fun fits :: "chat_task \<Rightarrow> chat_reply \<Rightarrow> bool" where
  "fits t (Rejected e) = True"
| "fits t Done = (\<not> is_query t \<and> \<not> asks_channel t)"
| "fits t (Chan c) = asks_channel t"
| "fits t (Msgs ms) = is_query t"

fun loop_step ::
  "(int \<Rightarrow> chat_message list \<Rightarrow> chat_message list) \<Rightarrow> chat_loop \<Rightarrow> chat_ev \<Rightarrow> chat_loop" where
  "loop_step persist (s, ts) (Start a) = (case perform a s of (s', new) \<Rightarrow> (s', ts @ new))"
| "loop_step persist (s, ts) (Reply i r) =
     (if i < length ts \<and> fits (ts ! i) r
      then (case resume persist (ts ! i) r s of (s', new) \<Rightarrow> (s', take i ts @ drop (Suc i) ts @ new))
      else (s, ts))"

lemmas chat_action_defs =
  selectChannel_def refreshMessages_def sendMessage_def editMessage_def deletePchatMessages_def
  selectDmUser_def sendDm_def refreshDmMessages_def retryPendingMessage_def onNewMessage_def onNewDm_def switchChat_def
  bump_def Let_def

lemmas chat_sync_defs =
  dismissPendingMessage_def markPendingFailed_def addPendingPlaceholder_def onTypingIndicator_def
  typingExpired_def onPinDeliver_def onPinFetchResponse_def clearUnseenPins_def addDownload_def
  onCurrentChannelChanged_def selectUser_def toggleListen_def chat_reset_def chat_initial_def

section \<open>Sequence numbers\<close>

fun task_seqs :: "chat_task \<Rightarrow> int list" where
  "task_seqs (SelectTask ch q) = [q]"
| "task_seqs (FetchTask ch q) = [q]"
| "task_seqs (SendFetchTask ch q pid show) = [q]"
| "task_seqs (ThenClearUser t) = task_seqs t"
| "task_seqs t = []"

definition inflight :: "chat_task list \<Rightarrow> int list" where
  "inflight ts = concat (map task_seqs ts)"

definition seqs_ok :: "chat_loop \<Rightarrow> bool" where
  "seqs_ok l \<longleftrightarrow> distinct (inflight (snd l)) \<and> (\<forall>q \<in> set (inflight (snd l)). q \<le> messageWriteSeq (fst l))"

text \<open>The sequence number an event writes \<open>messages\<close> under, if it is a guarded write that applies.\<close>

fun guarded_seq :: "chat_task \<Rightarrow> int option" where
  "guarded_seq (FetchTask ch q) = Some q"
| "guarded_seq (SendFetchTask ch q pid show) = Some q"
| "guarded_seq (ThenClearUser t) = guarded_seq t"
| "guarded_seq t = None"

fun write_of :: "chat_loop \<Rightarrow> chat_ev \<Rightarrow> int list" where
  "write_of (s, ts) (Start a) = []"
| "write_of (s, ts) (Reply i r) =
     (if i < length ts then
        (case (r, guarded_seq (ts ! i)) of
           (Msgs ms, Some q) \<Rightarrow> if messageWriteSeq s = q then [q] else []
         | _ \<Rightarrow> [])
      else [])"

fun writes ::
  "(int \<Rightarrow> chat_message list \<Rightarrow> chat_message list) \<Rightarrow> chat_loop \<Rightarrow> chat_ev list \<Rightarrow> int list" where
  "writes persist l [] = []"
| "writes persist l (e # es) = write_of l e @ writes persist (loop_step persist l e) es"

lemma inflight_simps [simp]:
  "inflight [] = []" "inflight (t # ts) = task_seqs t @ inflight ts"
  "inflight (ts @ us) = inflight ts @ inflight us"
  by (simp_all add: inflight_def)

lemma inflight_map_ThenClearUser [simp]: "inflight (map ThenClearUser ts) = inflight ts"
  by (induction ts) auto

lemma chat_task_write: "guarded_seq t = Some q \<Longrightarrow> task_seqs t = [q]"
  by (induction t) auto

lemma perform_seq:
  assumes "perform a s = (s', new)"
  shows "messageWriteSeq s \<le> messageWriteSeq s' \<and> distinct (inflight new)
    \<and> (\<forall>q \<in> set (inflight new). messageWriteSeq s < q \<and> q \<le> messageWriteSeq s')"
  using assms
  by (cases a) (auto simp: chat_action_defs chat_sync_defs drop_typing_def split: if_splits option.splits)

lemma resume_seq:
  assumes "resume persist t r s = (s', new)"
  shows "messageWriteSeq s \<le> messageWriteSeq s' \<and> distinct (inflight new)
    \<and> (\<forall>q \<in> set (inflight new). q \<in> set (task_seqs t) \<or> messageWriteSeq s < q \<and> q \<le> messageWriteSeq s')"
  using assms
proof (induction t arbitrary: s' new)
  case (ThenClearUser t)
  obtain s1 ts where "resume persist t r s = (s1, ts)" by fastforce
  with ThenClearUser.IH [OF this] ThenClearUser.prems show ?case by (cases ts) auto
qed (auto simp: chat_action_defs chat_sync_defs split: chat_reply.splits if_splits option.splits)

lemma inflight_split:
  assumes "i < length ts"
  shows "inflight ts = inflight (take i ts) @ task_seqs (ts ! i) @ inflight (drop (Suc i) ts)"
  using id_take_nth_drop [OF assms] inflight_simps by metis

lemma seqs_replace:
  fixes m m' :: int
  assumes "distinct (A @ B @ C)" and old: "\<forall>q \<in> set (A @ B @ C). q \<le> m" and mm: "m \<le> m'"
    and N: "distinct N" "\<forall>q \<in> set N. q \<in> set B \<or> m < q \<and> q \<le> m'"
  shows "distinct (A @ C @ N) \<and> (\<forall>q \<in> set (A @ C @ N). q \<le> m')
    \<and> set (A @ C @ N) \<subseteq> set (A @ B @ C) \<union> {q. m < q}"
proof -
  have "q \<notin> set A \<union> set C" if "q \<in> set N" for q
    using N(2) that assms(1) old by (cases "q \<in> set B") force+
  then have "distinct (A @ C @ N)" using assms(1) N(1) by auto
  moreover have "q \<le> m'" if "q \<in> set (A @ C @ N)" for q
    using that old mm N(2) by (auto intro: order_trans)
  ultimately show ?thesis using N(2) by auto
qed

lemma loop_step_seqs:
  assumes "seqs_ok l"
  shows "seqs_ok (loop_step persist l e) \<and> messageWriteSeq (fst l) \<le> messageWriteSeq (fst (loop_step persist l e))
    \<and> set (inflight (snd (loop_step persist l e)))
        \<subseteq> set (inflight (snd l)) \<union> {q. messageWriteSeq (fst l) < q}"
proof (cases l; cases e)
  fix s ts a assume l: "l = (s, ts)" and e: "e = Start a"
  obtain s' new where p: "perform a s = (s', new)" by fastforce
  from perform_seq [OF p] assms show ?thesis by (fastforce simp: l e p seqs_ok_def)
next
  fix s ts i r assume l: "l = (s, ts)" and e: "e = Reply i r"
  show ?thesis
  proof (cases "i < length ts \<and> fits (ts ! i) r")
    case True
    obtain s' new where p: "resume persist (ts ! i) r s = (s', new)" by fastforce
    note sp = inflight_split [OF conjunct1 [OF True]]
    have "distinct (inflight (take i ts) @ inflight (drop (Suc i) ts) @ inflight new)
        \<and> (\<forall>q \<in> set (inflight (take i ts) @ inflight (drop (Suc i) ts) @ inflight new). q \<le> messageWriteSeq s')
        \<and> set (inflight (take i ts) @ inflight (drop (Suc i) ts) @ inflight new)
          \<subseteq> set (inflight (take i ts) @ task_seqs (ts ! i) @ inflight (drop (Suc i) ts)) \<union> {q. messageWriteSeq s < q}"
      using assms resume_seq [OF p] by (intro seqs_replace) (auto simp: l seqs_ok_def sp)
    with resume_seq [OF p] True show ?thesis
      by (simp add: l e p seqs_ok_def sp)
  qed (use assms in \<open>auto simp: l e\<close>)
qed

lemma loop_run_seqs:
  "seqs_ok l \<Longrightarrow> seqs_ok (foldl (loop_step persist) l es)
    \<and> messageWriteSeq (fst l) \<le> messageWriteSeq (fst (foldl (loop_step persist) l es))"
proof (induction es arbitrary: l)
  case (Cons e es)
  from loop_step_seqs [OF Cons.prems, of persist e] Cons.IH [of "loop_step persist l e"]
  show ?case by auto
qed simp

subsection \<open>Guarded writes\<close>

lemma guarded_is_query: "guarded_seq t = Some q \<Longrightarrow> is_query t"
  by (induction t) auto

lemma resume_guarded:
  assumes "guarded_seq t = Some q" and "resume persist t (Msgs ms) s = (s', new)"
  shows "new = [] \<and> messageWriteSeq s' = messageWriteSeq s
    \<and> messages s' = (if messageWriteSeq s = q then ms else messages s)"
  using assms
proof (induction t arbitrary: s' new)
  case (ThenClearUser t)
  obtain s1 ts where "resume persist t (Msgs ms) s = (s1, ts)" by fastforce
  with ThenClearUser.IH [OF _ this] ThenClearUser.prems show ?case by auto
qed (auto simp: dismissPendingMessage_def Let_def split: if_splits)

lemma write_of_cases:
  assumes "write_of l e \<noteq> []"
  obtains s ts i ms where "l = (s, ts)" "e = Reply i (Msgs ms)" "i < length ts"
    "guarded_seq (ts ! i) = Some (messageWriteSeq s)" "write_of l e = [messageWriteSeq s]"
proof (cases l; cases e)
  fix s ts i r assume "l = (s, ts)" "e = Reply i r"
  with assms that show thesis
    by (auto split: if_splits chat_reply.splits option.splits)
qed (use assms in auto)

lemma write_step:
  assumes "seqs_ok l" and "write_of l e \<noteq> []"
  shows "write_of l e = [messageWriteSeq (fst l)] \<and> messageWriteSeq (fst l) \<in> set (inflight (snd l))
    \<and> messageWriteSeq (fst l) \<notin> set (inflight (snd (loop_step persist l e)))"
proof -
  from assms(2) obtain s ts i ms where
    w: "l = (s, ts)" "e = Reply i (Msgs ms)" "i < length ts"
      "guarded_seq (ts ! i) = Some (messageWriteSeq s)" "write_of l e = [messageWriteSeq s]"
    by (rule write_of_cases)
  obtain s' new where p: "resume persist (ts ! i) (Msgs ms) s = (s', new)" by fastforce
  have "distinct (inflight ts)" using assms(1) by (simp add: w(1) seqs_ok_def)
  then show ?thesis
    using resume_guarded [OF w(4) p] chat_task_write [OF w(4)] guarded_is_query [OF w(4)] w(1,2,3,5) p
    by (simp add: inflight_split [OF w(3)])
qed

lemma writes_bounds:
  assumes "seqs_ok l" and "q \<in> set (writes persist l es)"
  shows "messageWriteSeq (fst l) \<le> q \<and> (q \<in> set (inflight (snd l)) \<or> messageWriteSeq (fst l) < q)"
  using assms
proof (induction es arbitrary: l)
  case (Cons e es)
  note st = loop_step_seqs [OF Cons.prems(1), of persist e]
  show ?case
  proof (cases "q \<in> set (write_of l e)")
    case True
    then have "write_of l e \<noteq> []" by auto
    from write_step [OF Cons.prems(1) this] True show ?thesis by auto
  next
    case False
    with Cons.prems(2) have "q \<in> set (writes persist (loop_step persist l e) es)" by auto
    from Cons.IH [OF conjunct1 [OF st] this] st show ?thesis by auto
  qed
qed simp

lemma writes_increasing:
  assumes "seqs_ok l"
  shows "sorted_wrt (<) (writes persist l es)"
  using assms
proof (induction es arbitrary: l)
  case (Cons e es)
  note st = loop_step_seqs [OF Cons.prems, of persist e]
  let ?l = "loop_step persist l e"
  from Cons.IH [OF conjunct1 [OF st]] have IH: "sorted_wrt (<) (writes persist ?l es)" .
  show ?case
  proof (cases "write_of l e = []")
    case False
    note w = write_step [OF Cons.prems False, of persist]
    have "messageWriteSeq (fst l) < q" if "q \<in> set (writes persist ?l es)" for q
      using writes_bounds [OF conjunct1 [OF st] that] w st by (cases "q = messageWriteSeq (fst l)") auto
    with IH w show ?thesis by simp
  qed (simp add: IH)
qed simp

text \<open>The tasks that write \<open>messages\<close> without a guard: a deletion, and a switch to another tab.\<close>

fun is_unguarded :: "chat_task \<Rightarrow> bool" where
  "is_unguarded (DeleteTask ch ids) = True"
| "is_unguarded (SwitchChannelTask clear) = True"
| "is_unguarded (SwitchMessagesTask ch) = True"
| "is_unguarded (ThenClearUser t) = is_unguarded t"
| "is_unguarded t = False"

lemma resume_messages:
  assumes "\<not> is_unguarded t" and "resume persist t r s = (s', new)"
  shows "(messages s' = messages s \<or> guarded_seq t = Some (messageWriteSeq s)) \<and> \<not> list_ex is_unguarded new"
  using assms
proof (induction t arbitrary: s' new)
  case (ThenClearUser t)
  obtain s1 ts where "resume persist t r s = (s1, ts)" by fastforce
  with ThenClearUser.IH [OF _ this] ThenClearUser.prems show ?case by (cases ts) (auto simp: list_ex_iff)
qed (auto simp: dismissPendingMessage_def markPendingFailed_def refreshMessages_def bump_def Let_def
      split: chat_reply.splits if_splits option.splits)

fun is_reply :: "chat_ev \<Rightarrow> bool" where
  "is_reply (Reply i r) = True"
| "is_reply (Start a) = False"

lemma stragglers_keep_messages:
  assumes "seqs_ok l" and "messageWriteSeq (fst l) \<notin> set (inflight (snd l))"
    and "\<not> list_ex is_unguarded (snd l)" and "list_all is_reply es"
    and "messageWriteSeq (fst (foldl (loop_step persist) l es)) = messageWriteSeq (fst l)"
  shows "messages (fst (foldl (loop_step persist) l es)) = messages (fst l)"
  using assms
proof (induction es arbitrary: l)
  case (Cons e es)
  obtain s ts where l: "l = (s, ts)" by fastforce
  obtain i r where e: "e = Reply i r" using Cons.prems(4) by (cases e) auto
  let ?l = "loop_step persist l e"
  note st = loop_step_seqs [OF Cons.prems(1), of persist e]
  have eq: "messageWriteSeq (fst ?l) = messageWriteSeq s"
    using loop_run_seqs [OF conjunct1 [OF st], of persist es] Cons.prems(5) st by (simp add: l)
  have one: "messages (fst ?l) = messages s \<and> \<not> list_ex is_unguarded (snd ?l)"
  proof (cases "i < length ts \<and> fits (ts ! i) r")
    case True
    obtain s' new where p: "resume persist (ts ! i) r s = (s', new)" by fastforce
    have nd: "\<not> is_unguarded (ts ! i)" using Cons.prems(3) True by (auto simp: l list_ex_iff)
    have "messageWriteSeq s \<notin> set (task_seqs (ts ! i))"
      using Cons.prems(2) inflight_split [OF conjunct1 [OF True]] by (simp add: l)
    with resume_messages [OF nd p] have "messages s' = messages s" "\<not> list_ex is_unguarded new"
      by (auto dest: chat_task_write)
    then show ?thesis using True p Cons.prems(3) by (auto simp: l e list_ex_iff dest: in_set_takeD in_set_dropD)
  qed (use Cons.prems(3) in \<open>auto simp: l e\<close>)
  have "messageWriteSeq (fst ?l) \<notin> set (inflight (snd ?l))"
    using st Cons.prems(2) eq by (auto simp: l)
  from Cons.IH [OF conjunct1 [OF st] this] one Cons.prems(4,5) eq show ?case by (simp add: l)
qed simp

section \<open>Placeholders\<close>

text \<open>The pending ids whose placeholder a task in flight will remove or mark as failed.\<close>

fun task_pids :: "chat_task \<Rightarrow> string list" where
  "task_pids (SendTask ch pid show) = (if show then [pid] else [])"
| "task_pids (SendFetchTask ch q pid show) = (if show then [pid] else [])"
| "task_pids (DmSendTask u pid show) = (if show then [pid] else [])"
| "task_pids (DmSendFetchTask u pid show) = (if show then [pid] else [])"
| "task_pids (DmSendMergeTask u ms pid show) = (if show then [pid] else [])"
| "task_pids (ThenClearUser t) = task_pids t"
| "task_pids t = []"

definition covered :: "chat_loop \<Rightarrow> bool" where
  "covered l \<longleftrightarrow> (\<forall>p \<in> set (pendingMessages (fst l)). pm_state p = Sending \<longrightarrow>
      (\<exists>t \<in> set (snd l). pm_pendingId p \<in> set (task_pids t)))"

fun is_placeholder :: "chat_ev \<Rightarrow> bool" where
  "is_placeholder (Start (APlaceholder pid now ch dm body)) = True"
| "is_placeholder e = False"

lemma perform_covered:
  assumes "perform a s = (s', new)" and "\<not> is_placeholder (Start a)"
    and "p \<in> set (pendingMessages s')" and "pm_state p = Sending"
  shows "p \<in> set (pendingMessages s) \<or> (\<exists>t \<in> set new. pm_pendingId p \<in> set (task_pids t))"
  using assms
  by (cases a) (auto simp: chat_action_defs chat_sync_defs mk_pending_def fail_pending_def
      split: if_splits option.splits)

lemma failed_not_sending:
  assumes "p \<in> set (pendingMessages (markPendingFailed pid e s))" and "pm_state p = Sending"
  shows "p \<in> set (pendingMessages s) \<and> pm_pendingId p \<noteq> pid"
proof -
  from assms(1) obtain x where "x \<in> set (pendingMessages s)" "p = fail_pending pid e x"
    by (auto simp: markPendingFailed_def)
  with assms(2) show ?thesis by (cases "pm_pendingId x = pid") (simp_all add: fail_pending_def)
qed

lemma resume_covered:
  assumes "resume persist t r s = (s', new)" and "fits t r"
    and "p \<in> set (pendingMessages s')" and "pm_state p = Sending"
  shows "p \<in> set (pendingMessages s)
    \<and> (pm_pendingId p \<in> set (task_pids t) \<longrightarrow> (\<exists>u \<in> set new. pm_pendingId p \<in> set (task_pids u)))"
  using assms
proof (induction t arbitrary: s' new)
  case (ThenClearUser t)
  obtain s1 ts where r: "resume persist t r s = (s1, ts)" by fastforce
  have "fits t r" using ThenClearUser.prems(2) by (cases r) auto
  with ThenClearUser.IH [OF r] ThenClearUser.prems r show ?case by (cases ts) auto
next
  case (SendTask x1 x2 x3)
  then show ?case by (cases r; cases x3) (auto simp: Let_def bump_def dest: failed_not_sending)
next
  case (SendFetchTask x1 x2 x3 x4)
  then show ?case
    by (cases r; cases x4) (auto simp: Let_def dismissPendingMessage_def dest: failed_not_sending split: if_splits)
next
  case (DmSendTask x1 x2 x3)
  then show ?case by (cases r; cases x3) (auto dest: failed_not_sending)
next
  case (DmSendFetchTask x1 x2 x3)
  then show ?case by (cases r; cases x3) (auto simp: Let_def dismissPendingMessage_def dest: failed_not_sending)
next
  case (DmSendMergeTask x1 x2 x3 x4)
  then show ?case by (cases r; cases x4) (auto simp: Let_def dismissPendingMessage_def dest: failed_not_sending)
next
  case (SwitchChannelTask x)
  then show ?case by (cases r) (auto simp: Let_def split: option.splits if_splits)
qed (cases r; auto simp: refreshMessages_def Let_def bump_def split: if_splits)+

lemma loop_step_covered:
  assumes "covered l" and "\<not> is_placeholder e"
  shows "covered (loop_step persist l e)"
proof (cases l; cases e)
  fix s ts a assume l: "l = (s, ts)" and e: "e = Start a"
  obtain s' new where p: "perform a s = (s', new)" by fastforce
  from perform_covered [OF p] assms show ?thesis by (fastforce simp: l e p covered_def)
next
  fix s ts i r assume l: "l = (s, ts)" and e: "e = Reply i r"
  show ?thesis
  proof (cases "i < length ts \<and> fits (ts ! i) r")
    case True
    obtain s' new where p: "resume persist (ts ! i) r s = (s', new)" by fastforce
    have "set ts = set (take i ts @ ts ! i # drop (Suc i) ts)"
      by (rule arg_cong [OF id_take_nth_drop]) (use True in simp)
    then have split: "t \<in> set (take i ts) \<or> t = ts ! i \<or> t \<in> set (drop (Suc i) ts)" if "t \<in> set ts" for t
      using that by auto
    show ?thesis
      unfolding covered_def
    proof (intro ballI impI)
      fix x assume x: "x \<in> set (pendingMessages (fst (loop_step persist l e)))" "pm_state x = Sending"
      then have x': "x \<in> set (pendingMessages s')" by (simp add: l e True p)
      note rc = resume_covered [OF p conjunct2 [OF True] x' x(2)]
      from assms(1) rc x(2) obtain t where "t \<in> set ts" "pm_pendingId x \<in> set (task_pids t)"
        by (auto simp: covered_def l)
      with rc split [of t] show "\<exists>t\<in>set (snd (loop_step persist l e)). pm_pendingId x \<in> set (task_pids t)"
        by (auto simp: l e True p)
    qed
  qed (use assms in \<open>auto simp: l e\<close>)
qed

section \<open>Well-formed slices\<close>

definition entries_ok :: "('k, 'a jset) jmap \<Rightarrow> bool" where
  "entries_ok m \<longleftrightarrow> map_wf m \<and> map_all (\<lambda>s. s \<noteq> [] \<and> distinct s) m"

definition collections_ok :: "chat_slice \<Rightarrow> bool" where
  "collections_ok s \<longleftrightarrow> entries_ok (typingUsers s) \<and> entries_ok (unseenPinIds s)
     \<and> distinct (listenedChannels s) \<and> length (downloads s) \<le> 200"

definition one_selected :: "chat_slice \<Rightarrow> bool" where
  "one_selected s \<longleftrightarrow> selectedChannel s = None \<or> selectedDmUser s = None"

definition chat_ok :: "chat_slice \<Rightarrow> bool" where
  "chat_ok s \<longleftrightarrow> one_selected s \<and> collections_ok s"

definition loop_ok :: "chat_loop \<Rightarrow> bool" where
  "loop_ok l \<longleftrightarrow> seqs_ok l \<and> collections_ok (fst l)"

text \<open>
  The selection is exclusive as long as no tab is switched: \<open>switchServer\<close> selects the channel of the new tab and
  leaves a selected direct conversation as it is.
\<close>

fun is_switch :: "chat_ev \<Rightarrow> bool" where
  "is_switch (Start ASwitchServer) = True"
| "is_switch (Start AStartRestore) = True"
| "is_switch e = False"

fun task_switches :: "chat_task \<Rightarrow> bool" where
  "task_switches (SwitchChannelTask clear) = True"
| "task_switches (ThenClearUser t) = task_switches t"
| "task_switches t = False"

definition unswitched_ok :: "chat_loop \<Rightarrow> bool" where
  "unswitched_ok l \<longleftrightarrow> one_selected (fst l) \<and> \<not> list_ex task_switches (snd l)"

lemma entries_ok_get: "entries_ok m \<Longrightarrow> map_get m k = Some v \<Longrightarrow> distinct v"
  by (auto simp: entries_ok_def dest: map_all_get)

lemma entries_ok_add:
  "entries_ok m \<Longrightarrow> entries_ok (map_set k (set_add x (or_else (map_get m k) [])) m)"
  by (cases "map_get m k") (auto simp: entries_ok_def intro!: map_all_set dest: map_all_get)

lemma entries_ok_set: "entries_ok m \<Longrightarrow> v \<noteq> [] \<Longrightarrow> distinct v \<Longrightarrow> entries_ok (map_set k v m)"
  by (simp add: entries_ok_def)

lemma entries_ok_drop:
  "entries_ok m \<Longrightarrow> distinct v \<Longrightarrow>
   entries_ok (if set_remove x v = [] then map_del k m else map_set k (set_remove x v) m)"
  by (auto simp: entries_ok_def)

lemma entries_ok_drop_typing:
  "entries_ok m \<Longrightarrow> map_get m k = Some v \<Longrightarrow> entries_ok (drop_typing k v x m)"
  using entries_ok_drop [of m v x k] entries_ok_get [of m k v] by (simp add: drop_typing_def Let_def)

lemma entries_ok_del [simp]: "entries_ok m \<Longrightarrow> entries_ok (map_del k m)"
  by (simp add: entries_ok_def)

lemma entries_ok_Nil [simp]: "entries_ok []"
  by (simp add: entries_ok_def)

lemma typing_ok:
  "collections_ok s \<Longrightarrow> collections_ok (onTypingIndicator u ch s)"
  "collections_ok s \<Longrightarrow> collections_ok (typingExpired u ch s)"
  by (auto simp: collections_ok_def onTypingIndicator_def typingExpired_def entries_ok_add entries_ok_drop_typing
      split: option.split)

lemma onPinDeliver_ok: "collections_ok s \<Longrightarrow> collections_ok (onPinDeliver users e s)"
proof -
  assume ok: "collections_ok s"
  then have "distinct (or_else (map_get (unseenPinIds s) (pe_channel_id e)) [])"
    by (cases "map_get (unseenPinIds s) (pe_channel_id e)") (auto simp: collections_ok_def dest: entries_ok_get)
  with ok show ?thesis
    by (auto simp: collections_ok_def onPinDeliver_def Let_def entries_ok_add intro: entries_ok_set)
qed

lemma onNewMessage_ok: "collections_ok s \<Longrightarrow> collections_ok (fst (onNewMessage ch u s))"
  by (auto simp: collections_ok_def onNewMessage_def refreshMessages_def bump_def Let_def entries_ok_drop_typing
      split: option.split)

lemma perform_ok: "collections_ok s \<Longrightarrow> collections_ok (fst (perform a s))"
  by (cases a)
    (auto simp: typing_ok onPinDeliver_ok onNewMessage_ok,
     auto simp: collections_ok_def selectChannel_def refreshMessages_def sendMessage_def editMessage_def
      deletePchatMessages_def selectDmUser_def sendDm_def refreshDmMessages_def retryPendingMessage_def
      onNewDm_def bump_def Let_def dismissPendingMessage_def markPendingFailed_def addPendingPlaceholder_def
      onPinFetchResponse_def clearUnseenPins_def addDownload_def onCurrentChannelChanged_def selectUser_def
      toggleListen_def chat_reset_def chat_initial_def switchChat_def split: option.split)

lemma resume_ok: "collections_ok s \<Longrightarrow> collections_ok (fst (resume persist t r s))"
proof (induction t)
  case (ThenClearUser t)
  obtain s1 ts where "resume persist t r s = (s1, ts)" by fastforce
  with ThenClearUser show ?case by (cases ts) (auto simp: collections_ok_def)
qed (auto simp: collections_ok_def dismissPendingMessage_def markPendingFailed_def refreshMessages_def bump_def
      Let_def split: chat_reply.split option.split)

lemma loop_step_ok: "loop_ok l \<Longrightarrow> loop_ok (loop_step persist l e)"
proof -
  assume "loop_ok l"
  moreover obtain s ts where l: "l = (s, ts)" by fastforce
  moreover have "collections_ok s \<Longrightarrow> collections_ok (fst (loop_step persist (s, ts) e))"
  proof (cases e)
    case (Start a)
    then show "collections_ok s \<Longrightarrow> ?thesis" using perform_ok [of s a] by (auto split: prod.split)
  next
    case (Reply i r)
    then show "collections_ok s \<Longrightarrow> ?thesis" using resume_ok [of s persist "ts ! i" r] by (auto split: prod.split)
  qed
  ultimately show ?thesis using loop_step_seqs [of l persist e] by (auto simp: loop_ok_def)
qed

lemma perform_unswitched:
  assumes "one_selected s" "\<not> is_switch (Start a)"
  shows "one_selected (fst (perform a s)) \<and> \<not> list_ex task_switches (snd (perform a s))"
  using assms
  by (cases a) (auto simp: one_selected_def chat_action_defs chat_sync_defs split: option.split)

lemma resume_unswitched:
  assumes "one_selected s" "\<not> task_switches t"
  shows "one_selected (fst (resume persist t r s)) \<and> \<not> list_ex task_switches (snd (resume persist t r s))"
  using assms
proof (induction t)
  case (ThenClearUser t)
  obtain s1 ts where "resume persist t r s = (s1, ts)" by fastforce
  with ThenClearUser show ?case by (cases ts) (auto simp: one_selected_def list_ex_iff)
qed (auto simp: one_selected_def dismissPendingMessage_def markPendingFailed_def refreshMessages_def bump_def
      Let_def split: chat_reply.split)

lemma loop_step_unswitched:
  assumes "unswitched_ok l" "\<not> is_switch e"
  shows "unswitched_ok (loop_step persist l e)"
proof (cases l; cases e)
  fix s ts a assume "l = (s, ts)" "e = Start a"
  then show ?thesis
    using perform_unswitched [of s a] assms by (auto simp: unswitched_ok_def split: prod.split)
next
  fix s ts i r assume "l = (s, ts)" "e = Reply i r"
  then show ?thesis
    using resume_unswitched [of s "ts ! i" persist r] assms
    by (auto simp: unswitched_ok_def list_ex_iff split: prod.split dest: in_set_takeD in_set_dropD)
qed

lemma loop_run_unswitched:
  "unswitched_ok l \<Longrightarrow> \<not> list_ex is_switch es \<Longrightarrow> unswitched_ok (foldl (loop_step persist) l es)"
  by (induction es arbitrary: l) (simp_all add: loop_step_unswitched)

interpretation cl: event_machine "loop_step persist" loop_ok for persist
  by unfold_locales (rule loop_step_ok)

section \<open>Properties\<close>

text \<open>
  C1: stale replies never overwrite fresher messages.  Through every interleaving of actions,
  listeners and replies, the guarded writes of \<open>messages\<close> are applied in the order in which their
  requests were issued, and the reply to a request that is no longer the newest changes nothing
  of \<open>messages\<close>.
\<close>

theorem stale_reply_never_overwrites:
  assumes "l = foldl (loop_step persist) (s, []) es"
  shows "sorted_wrt (<) (writes persist (s, []) es)
    \<and> (i < length (snd l) \<and> guarded_seq (snd l ! i) = Some q \<and> q \<noteq> messageWriteSeq (fst l)
       \<longrightarrow> q < messageWriteSeq (fst l)
         \<and> messages (fst (loop_step persist l (Reply i (Msgs ms)))) = messages (fst l))"
proof
  have ok: "seqs_ok (s, [])" by (simp add: seqs_ok_def)
  show "sorted_wrt (<) (writes persist (s, []) es)" by (rule writes_increasing [OF ok])
  show "i < length (snd l) \<and> guarded_seq (snd l ! i) = Some q \<and> q \<noteq> messageWriteSeq (fst l)
       \<longrightarrow> q < messageWriteSeq (fst l)
         \<and> messages (fst (loop_step persist l (Reply i (Msgs ms)))) = messages (fst l)"
  proof
    assume a: "i < length (snd l) \<and> guarded_seq (snd l ! i) = Some q \<and> q \<noteq> messageWriteSeq (fst l)"
    obtain s' ts where l: "l = (s', ts)" by fastforce
    obtain s2 new where p: "resume persist (ts ! i) (Msgs ms) s' = (s2, new)" by fastforce
    have "seqs_ok l" using loop_run_seqs [OF ok, of persist es] by (simp add: assms)
    moreover have "q \<in> set (inflight ts)"
      using a chat_task_write [of "ts ! i" q] inflight_split [of i ts] by (simp add: l)
    ultimately have "q \<le> messageWriteSeq s'" by (simp add: seqs_ok_def l)
    moreover have "fits (ts ! i) (Msgs ms)" using a guarded_is_query by (auto simp: l)
    ultimately show "q < messageWriteSeq (fst l)
        \<and> messages (fst (loop_step persist l (Reply i (Msgs ms)))) = messages (fst l)"
      using a resume_guarded [OF _ p, of q] by (simp add: l p)
  qed
qed

theorem stale_reply_never_overwrites_witness:
  "messages (fst (foldl (loop_step (\<lambda>_ ms. ms)) (chat_initial, [])
     [Start (ASelectChannel 1), Reply 0 Done, Start (ASelectChannel 2), Reply 1 Done,
      Reply 1 (Msgs [example_message ''b'']), Reply 0 (Msgs [example_message ''a''])]))
   = [example_message ''b'']"
  using stale_reply_never_overwrites [OF refl, of "\<lambda>_ ms. ms" chat_initial
      "[Start (ASelectChannel 1), Reply 0 Done, Start (ASelectChannel 2), Reply 1 Done,
      Reply 1 (Msgs [example_message ''b''])]" 0 1 "[example_message ''a'']"]
  by (simp add: selectChannel_def bump_def chat_initial_def Let_def)

text \<open>
  C9: the newest request wins.  When no deletion, no switch to another tab and no restore at the start is in
  flight, the answer of the newest request for messages is what is shown, and it stays shown through any replies to
  older tasks, whatever they carry and in whatever order they arrive, until a newer request is issued.
\<close>

theorem newest_request_wins:
  assumes "l = foldl (loop_step persist) (s, []) es0" and "i < length (snd l)"
    and "guarded_seq (snd l ! i) = Some (messageWriteSeq (fst l))"
    and "\<not> list_ex is_unguarded (snd l)" and "list_all is_reply es"
    and "messageWriteSeq (fst (foldl (loop_step persist) l (Reply i (Msgs ms) # es))) = messageWriteSeq (fst l)"
  shows "messages (fst (foldl (loop_step persist) l (Reply i (Msgs ms) # es))) = ms"
proof -
  obtain s' ts where l: "l = (s', ts)" by fastforce
  let ?l = "loop_step persist l (Reply i (Msgs ms))"
  have ok: "seqs_ok l" using loop_run_seqs [of "(s, [])" persist es0] by (simp add: assms(1) seqs_ok_def)
  note st = loop_step_seqs [OF ok, of persist "Reply i (Msgs ms)"]
  obtain s2 new where p: "resume persist (ts ! i) (Msgs ms) s' = (s2, new)" by fastforce
  have g: "guarded_seq (ts ! i) = Some (messageWriteSeq s')" using assms(3) by (simp add: l)
  have l': "?l = (s2, take i ts @ drop (Suc i) ts)" "messages s2 = ms" "messageWriteSeq s2 = messageWriteSeq s'"
    using resume_guarded [OF g p] guarded_is_query [OF g] assms(2) by (simp_all add: l p)
  have w: "write_of l (Reply i (Msgs ms)) \<noteq> []" using assms(2) g by (simp add: l)
  have "\<not> list_ex is_unguarded (snd ?l)"
    using assms(4) l'(1) by (auto simp: l list_ex_iff dest: in_set_takeD in_set_dropD)
  moreover have "messageWriteSeq (fst ?l) \<notin> set (inflight (snd ?l))"
    using write_step [OF ok w, of persist] l' by (simp add: l)
  ultimately have "messages (fst (foldl (loop_step persist) ?l es)) = messages (fst ?l)"
    using st assms(5,6) l' by (intro stragglers_keep_messages) (auto simp: l)
  then show ?thesis using l' by simp
qed

theorem newest_request_wins_witness:
  "messages (fst (foldl (loop_step (\<lambda>_ ms. ms)) (chat_initial, [])
     [Start (ARefreshMessages 1), Start (ARefreshMessages 1), Reply 1 (Msgs [example_message ''b'']),
      Reply 0 (Msgs [example_message ''a''])]))
   = [example_message ''b'']"
  using newest_request_wins [OF refl, of 1 "\<lambda>_ ms. ms" chat_initial
      "[Start (ARefreshMessages 1), Start (ARefreshMessages 1)]" "[Reply 0 (Msgs [example_message ''a''])]"
      "[example_message ''b'']"]
  by (simp add: refreshMessages_def bump_def chat_initial_def Let_def)

text \<open>
  C8: no outbound message is stuck as "sending".  Start from no pending messages and run any
  sequence of actions and replies (the composer's own media placeholders apart); when nothing is
  in flight any more, every pending message left is one whose sending failed.
\<close>

theorem no_stuck_placeholder:
  assumes "pendingMessages s = []" and "\<not> list_ex is_placeholder es"
    and "snd (foldl (loop_step persist) (s, []) es) = []"
  shows "list_all (\<lambda>p. pm_state p = Failed) (pendingMessages (fst (foldl (loop_step persist) (s, []) es)))"
proof -
  have "covered (foldl (loop_step persist) l es)" if "covered l" "\<not> list_ex is_placeholder es" for l es
    using that by (induction es arbitrary: l) (auto simp: loop_step_covered)
  moreover have "covered (s, [])" using assms(1) by (simp add: covered_def)
  ultimately have "covered (foldl (loop_step persist) (s, []) es)" using assms(2) by blast
  then show ?thesis
    using assms(3) by (auto simp: covered_def list_all_iff) (metis pending_state.exhaust)
qed

theorem no_stuck_placeholder_witness:
  "list_all (\<lambda>p. pm_state p = Failed) (pendingMessages (fst (foldl (loop_step (\<lambda>_ ms. ms)) (chat_initial, [])
     [Start (ASendMessage ''p'' 0 1 ''<img>''), Reply 0 (Rejected ''offline'')])))
   \<and> length (pendingMessages (fst (foldl (loop_step (\<lambda>_ ms. ms)) (chat_initial, [])
     [Start (ASendMessage ''p'' 0 1 ''<img>''), Reply 0 (Rejected ''offline'')]))) = 1"
proof -
  have img: "bodyNeedsProgressUI ''<img>''"
    by (simp add: bodyNeedsProgressUI_def includes_str_def sublist_code)
  show ?thesis
    using no_stuck_placeholder [of chat_initial
        "[Start (ASendMessage ''p'' 0 1 ''<img>''), Reply 0 (Rejected ''offline'')]" "\<lambda>_ ms. ms"]
    by (simp add: sendMessage_def img addPendingPlaceholder_def markPendingFailed_def chat_initial_def Let_def)
qed

text \<open>
  C10: the slice stays well formed through every interleaving: no channel keeps an empty set of typing
  users or unseen pins, the sets hold no duplicates, the download list stays within its cap, and the sequence
  numbers in flight are distinct and never ahead of the counter.  As long as no tab is switched and nothing is
  restored at the start, a channel and a direct conversation are never selected at once.
\<close>

theorem chat_slice_invariant:
  assumes "chat_ok s"
  shows "collections_ok (fst (foldl (loop_step persist) (s, []) es))
    \<and> seqs_ok (foldl (loop_step persist) (s, []) es)
    \<and> (\<not> list_ex is_switch es \<longrightarrow> one_selected (fst (foldl (loop_step persist) (s, []) es)))"
  using cl.run_inv [of "(s, [])" persist es] loop_run_unswitched [of "(s, [])" es persist] assms
  by (simp add: loop_ok_def seqs_ok_def chat_ok_def unswitched_ok_def)

theorem chat_slice_invariant_witness:
  "chat_ok (fst (foldl (loop_step (\<lambda>_ ms. ms)) (chat_initial, [])
     [Start (ATyping 5 1), Start (ASelectChannel 1), Start (ASelectDmUser 5), Start (ANewMessage 1 (Some 5))]))"
proof -
  have "chat_ok chat_initial" by (simp add: chat_ok_def collections_ok_def one_selected_def chat_initial_def)
  from chat_slice_invariant [OF this, of "\<lambda>_ ms. ms"
      "[Start (ATyping 5 1), Start (ASelectChannel 1), Start (ASelectDmUser 5), Start (ANewMessage 1 (Some 5))]"]
  show ?thesis by (simp add: chat_ok_def)
qed

text \<open>
  a tab switched to while a direct conversation is selected: its channel and the conversation are both selected, and
  its answer replaces a list that was requested later.
\<close>

theorem tab_switch_unguarded:
  "let l = foldl (loop_step persist) (chat_initial, [])
       [Start (ASelectDmUser 5), Start ASwitchServer, Reply 1 (Chan (Some 1)), Start (ARefreshMessages 1),
        Reply 2 (Msgs [example_message ''b'']), Reply 1 (Msgs [example_message ''a''])]
   in selectedChannel (fst l) = Some 1 \<and> selectedDmUser (fst l) = Some 5
      \<and> messages (fst l) = [example_message ''a'']"
  by (simp add: chat_action_defs chat_initial_def example_message_def)

text \<open>
  what the guard does not cover.  A message sent to channel 1 whose acknowledgement arrives
  after the reader switched to channel 2 re-fetches channel 1 under a new sequence number, so the
  messages of channel 1 are shown while channel 2 is selected.
\<close>

theorem send_reply_shows_other_channel:
  "let l = foldl (loop_step persist) (chat_initial, [])
       [Start (ASelectChannel 1), Reply 0 Done, Reply 0 (Msgs []),
        Start (ASendMessage ''p'' 0 1 ''hi''),
        Start (ASelectChannel 2), Reply 1 Done, Reply 1 (Msgs []),
        Reply 0 Done, Reply 0 (Msgs [(example_message ''a'')\<lparr>cm_channel_id := 1\<rparr>])]
   in selectedChannel (fst l) = Some 2 \<and> snd l = [] \<and> map cm_channel_id (messages (fst l)) = [1]"
proof -
  have hi: "\<not> bodyNeedsProgressUI ''hi''"
    by (simp add: bodyNeedsProgressUI_def includes_str_def sublist_code LARGE_MESSAGE_THRESHOLD_def)
  show ?thesis
    by (simp add: selectChannel_def sendMessage_def hi bump_def chat_initial_def Let_def example_message_def)
qed

end
