(* ===== verification/PchatStore.thy ===== *)
theory PchatStore
  imports ChatStore
begin

text \<open>
  The persistent-chat part of \<open>store.ts\<close>: per-channel persistence state and history fetching, key
  trust, custodian pins, key disputes, key-share requests, key holders and revocation.  The source
  spreads entries that may not exist yet (\<open>...prev.keyTrust[channelId]\<close> of a missing key is
  nothing), so an entry may lack fields: they are options.  Actions are cut at their \<open>await\<close>: the
  definitions named \<open>..._done\<close> and \<open>..._failed\<close> are what runs after the backend's reply.
\<close>

section \<open>State\<close>

datatype persistence_mode = ModeNone | ModeFullArchive | ModeSignalV1

datatype key_trust_level = ManuallyVerified | Verified | Unverified | Disputed

record persist_config =
  pc_mode :: persistence_mode
  pc_maxHistory :: int
  pc_retentionDays :: int
  pc_keyCustodians :: "string list"

record persistence_state =
  ps_mode :: "persistence_mode option"
  ps_maxHistory :: "int option"
  ps_retentionDays :: "int option"
  ps_hasMore :: "bool option"
  ps_isFetching :: "bool option"
  ps_totalStored :: "int option"

record key_fingerprints =
  kf_emoji :: "string list"
  kf_words :: "string list"
  kf_hex :: string

record key_trust_state =
  kt_trustLevel :: "key_trust_level option"
  kt_fingerprint :: "key_fingerprints option"
  kt_distributorName :: "string option"
  kt_distributorHash :: "string option"
  kt_lastChanged :: "int option"

record custodian_pin =
  cp_pinned :: "string list option"
  cp_confirmed :: "bool option"
  cp_pendingUpdate :: "string list option"

record conflicting_key =
  ck_senderHash :: string
  ck_senderName :: string
  ck_fingerprint :: string
  ck_timestamp :: int

record pending_dispute =
  pd_conflictingKeys :: "conflicting_key list"
  pd_canResolve :: bool
  pd_selectedSenderHash :: "string option"

record key_share_request =
  ks_channel_id :: int
  ks_peer_cert_hash :: string
  ks_peer_name :: string

record key_holder =
  kh_cert_hash :: string
  kh_name :: string
  kh_is_online :: bool

record pchat_slice =
  channelPersistence :: "(int, persistence_state) jmap"
  keyTrust :: "(int, key_trust_state) jmap"
  custodianPins :: "(int, custodian_pin) jmap"
  pendingDisputes :: "(int, pending_dispute) jmap"
  pchatHistoryLoading :: "int jset"
  pendingKeyShares :: "(int, key_share_request list) jmap"
  keyHolders :: "(int, key_holder list) jmap"
  pchatKeyRevoked :: "int jset"
  signalBridgeError :: "string option"

definition pchat_initial :: pchat_slice where
  "pchat_initial = \<lparr>channelPersistence = [], keyTrust = [], custodianPins = [], pendingDisputes = [],
     pchatHistoryLoading = [], pendingKeyShares = [], keyHolders = [], pchatKeyRevoked = [],
     signalBridgeError = None\<rparr>"

text \<open>\<open>{...undefined}\<close>.\<close>

definition no_persistence :: persistence_state where
  "no_persistence = \<lparr>ps_mode = None, ps_maxHistory = None, ps_retentionDays = None, ps_hasMore = None,
     ps_isFetching = None, ps_totalStored = None\<rparr>"

definition no_trust :: key_trust_state where
  "no_trust = \<lparr>kt_trustLevel = None, kt_fingerprint = None, kt_distributorName = None,
     kt_distributorHash = None, kt_lastChanged = None\<rparr>"

definition no_pin :: custodian_pin where
  "no_pin = \<lparr>cp_pinned = None, cp_confirmed = None, cp_pendingUpdate = None\<rparr>"

definition upd_persistence ::
  "int \<Rightarrow> (persistence_state \<Rightarrow> persistence_state) \<Rightarrow> pchat_slice \<Rightarrow> pchat_slice" where
  "upd_persistence ch f s = s\<lparr>channelPersistence :=
     map_set ch (f (or_else (map_get (channelPersistence s) ch) no_persistence)) (channelPersistence s)\<rparr>"

section \<open>Actions\<close>

definition getPersistenceMode :: "pchat_slice \<Rightarrow> int \<Rightarrow> persistence_mode" where
  "getPersistenceMode s ch =
     or_else (case map_get (channelPersistence s) ch of None \<Rightarrow> None | Some p \<Rightarrow> ps_mode p) ModeNone"

definition fetchHistory :: "int \<Rightarrow> pchat_slice \<Rightarrow> pchat_slice" where
  "fetchHistory ch s = upd_persistence ch (\<lambda>p. p\<lparr>ps_isFetching := Some True\<rparr>) s"

definition fetchHistory_failed :: "int \<Rightarrow> pchat_slice \<Rightarrow> pchat_slice" where
  "fetchHistory_failed ch s = upd_persistence ch (\<lambda>p. p\<lparr>ps_isFetching := Some False\<rparr>) s"

definition set_trust_level :: "int \<Rightarrow> key_trust_level \<Rightarrow> pchat_slice \<Rightarrow> pchat_slice" where
  "set_trust_level ch lvl s = s\<lparr>keyTrust :=
     map_set ch ((or_else (map_get (keyTrust s) ch) no_trust)\<lparr>kt_trustLevel := Some lvl\<rparr>) (keyTrust s)\<rparr>"

definition verifyKeyFingerprint_done :: "int \<Rightarrow> pchat_slice \<Rightarrow> pchat_slice" where
  "verifyKeyFingerprint_done ch s = set_trust_level ch ManuallyVerified s"

definition acceptCustodianChanges_done :: "int \<Rightarrow> pchat_slice \<Rightarrow> pchat_slice" where
  "acceptCustodianChanges_done ch s =
     (case map_get (custodianPins s) ch of
        None \<Rightarrow> s
      | Some pin \<Rightarrow>
          (case cp_pendingUpdate pin of
             None \<Rightarrow> s
           | Some upd \<Rightarrow> s\<lparr>custodianPins := map_set ch
               \<lparr>cp_pinned = Some upd, cp_confirmed = Some True, cp_pendingUpdate = None\<rparr> (custodianPins s)\<rparr>))"

text \<open>The hashes sent to the backend, \<open>None\<close> when nothing is sent.\<close>

definition confirmCustodians :: "int \<Rightarrow> pchat_slice \<Rightarrow> string list option" where
  "confirmCustodians ch s =
     (case map_get (custodianPins s) ch of None \<Rightarrow> None | Some pin \<Rightarrow> Some (or_else (cp_pinned pin) []))"

definition confirmCustodians_done :: "int \<Rightarrow> pchat_slice \<Rightarrow> pchat_slice" where
  "confirmCustodians_done ch s = s\<lparr>custodianPins :=
     map_set ch ((or_else (map_get (custodianPins s) ch) no_pin)\<lparr>cp_confirmed := Some True\<rparr>) (custodianPins s)\<rparr>"

definition resolveKeyDispute_done :: "int \<Rightarrow> pchat_slice \<Rightarrow> pchat_slice" where
  "resolveKeyDispute_done ch s =
     set_trust_level ch ManuallyVerified (s\<lparr>pendingDisputes := map_del ch (pendingDisputes s)\<rparr>)"

definition updateChannelPersistenceConfig :: "int \<Rightarrow> persist_config \<Rightarrow> pchat_slice \<Rightarrow> pchat_slice" where
  "updateChannelPersistenceConfig ch config s =
     upd_persistence ch (\<lambda>p. \<lparr>ps_mode = Some (pc_mode config), ps_maxHistory = Some (pc_maxHistory config),
       ps_retentionDays = Some (pc_retentionDays config), ps_hasMore = Some False, ps_isFetching = Some False,
       ps_totalStored = Some (or_else (ps_totalStored p) 0)\<rparr>) s"

text \<open>The part of \<open>refreshState\<close> that derives the persistence state from the channel list.\<close>

definition mode_of_protocol :: "pchat_protocol \<Rightarrow> persistence_mode" where
  "mode_of_protocol p =
     (case p of ProtoNone \<Rightarrow> ModeNone | FancyV1FullArchive \<Rightarrow> ModeFullArchive | SignalV1 \<Rightarrow> ModeSignalV1)"

definition derive_one ::
  "(int, persistence_state) jmap \<Rightarrow> (int, persistence_state) jmap \<Rightarrow> channel_entry
    \<Rightarrow> (int, persistence_state) jmap"
where
  "derive_one prev nxt ch =
     (case ch_pchat_protocol ch of
        None \<Rightarrow> nxt
      | Some proto \<Rightarrow>
          if proto = ProtoNone then nxt
          else (let old = or_else (map_get prev (ch_id ch)) no_persistence in
            map_set (ch_id ch)
              \<lparr>ps_mode = Some (mode_of_protocol proto),
               ps_maxHistory = Some (or_else (or_opt (ch_pchat_max_history ch) (ps_maxHistory old)) 0),
               ps_retentionDays = Some (or_else (or_opt (ch_pchat_retention_days ch) (ps_retentionDays old)) 0),
               ps_hasMore = Some (or_else (ps_hasMore old) False),
               ps_isFetching = Some (or_else (ps_isFetching old) False),
               ps_totalStored = Some (or_else (ps_totalStored old) 0)\<rparr> nxt))"

definition derive_persistence :: "channel_entry list \<Rightarrow> pchat_slice \<Rightarrow> pchat_slice" where
  "derive_persistence channels s =
     s\<lparr>channelPersistence := foldl (derive_one (channelPersistence s)) (channelPersistence s) channels\<rparr>"

section \<open>Listeners\<close>

definition onKeyTrustChanged :: "int \<Rightarrow> key_trust_state \<Rightarrow> pchat_slice \<Rightarrow> pchat_slice" where
  "onKeyTrustChanged ch trust s =
     s\<lparr>keyTrust := map_set ch trust (keyTrust s), pchatKeyRevoked := set_remove ch (pchatKeyRevoked s)\<rparr>"

definition onCustodianPinChanged :: "int \<Rightarrow> custodian_pin \<Rightarrow> pchat_slice \<Rightarrow> pchat_slice" where
  "onCustodianPinChanged ch pin s = s\<lparr>custodianPins := map_set ch pin (custodianPins s)\<rparr>"

definition onKeyDisputeDetected :: "int \<Rightarrow> pending_dispute \<Rightarrow> pchat_slice \<Rightarrow> pchat_slice" where
  "onKeyDisputeDetected ch dispute s = s\<lparr>pendingDisputes := map_set ch dispute (pendingDisputes s)\<rparr>"

definition onKeyDisputeResolved :: "int \<Rightarrow> pchat_slice \<Rightarrow> pchat_slice" where
  "onKeyDisputeResolved ch s = s\<lparr>pendingDisputes := map_del ch (pendingDisputes s)\<rparr>"

definition onPchatHistoryLoading :: "int \<Rightarrow> bool \<Rightarrow> pchat_slice \<Rightarrow> pchat_slice" where
  "onPchatHistoryLoading ch loading s =
     s\<lparr>pchatHistoryLoading := (if loading then set_add ch (pchatHistoryLoading s)
                               else set_remove ch (pchatHistoryLoading s))\<rparr>"

definition onPchatFetchComplete ::
  "int \<Rightarrow> bool \<Rightarrow> int \<Rightarrow> chat_slice \<times> pchat_slice \<Rightarrow> (chat_slice \<times> pchat_slice) \<times> chat_task list" where
  "onPchatFetchComplete ch has_more total_stored st =
     (case st of (c, s) \<Rightarrow>
       (let s1 = upd_persistence ch (\<lambda>p. p\<lparr>ps_hasMore := Some has_more, ps_isFetching := Some False,
                                      ps_totalStored := Some total_stored\<rparr>) s
        in if selectedChannel c = Some ch
           then (case refreshMessages ch c of (c1, ts) \<Rightarrow> ((c1, s1), ts))
           else ((c, s1), [])))"

definition onPchatKeyShareRequest :: "key_share_request \<Rightarrow> pchat_slice \<Rightarrow> pchat_slice" where
  "onPchatKeyShareRequest req s =
     (let existing = or_else (map_get (pendingKeyShares s) (ks_channel_id req)) []
      in if list_ex (\<lambda>p. ks_peer_cert_hash p = ks_peer_cert_hash req) existing then s
         else s\<lparr>pendingKeyShares := map_set (ks_channel_id req) (existing @ [req]) (pendingKeyShares s)\<rparr>)"

definition onPchatKeyShareRequestsChanged :: "int \<Rightarrow> key_share_request list \<Rightarrow> pchat_slice \<Rightarrow> pchat_slice" where
  "onPchatKeyShareRequestsChanged ch pending s =
     s\<lparr>pendingKeyShares := (if pending = [] then map_del ch (pendingKeyShares s)
                            else map_set ch pending (pendingKeyShares s))\<rparr>"

definition onPchatKeyHoldersChanged :: "int \<Rightarrow> key_holder list \<Rightarrow> pchat_slice \<Rightarrow> pchat_slice" where
  "onPchatKeyHoldersChanged ch holders s = s\<lparr>keyHolders := map_set ch holders (keyHolders s)\<rparr>"

definition onPchatKeyRestored :: "int \<Rightarrow> pchat_slice \<Rightarrow> pchat_slice" where
  "onPchatKeyRestored ch s = s\<lparr>pchatKeyRevoked := set_remove ch (pchatKeyRevoked s)\<rparr>"

definition onPchatKeyRevoked :: "int \<Rightarrow> chat_slice \<times> pchat_slice \<Rightarrow> chat_slice \<times> pchat_slice" where
  "onPchatKeyRevoked ch st =
     (case st of (c, s) \<Rightarrow>
       (if selectedChannel c = Some ch then c\<lparr>messages := []\<rparr> else c,
        upd_persistence ch (\<lambda>p. p\<lparr>ps_isFetching := Some False\<rparr>)
          (s\<lparr>pchatKeyRevoked := set_add ch (pchatKeyRevoked s),
             keyTrust := map_del ch (keyTrust s),
             pchatHistoryLoading := set_remove ch (pchatHistoryLoading s)\<rparr>)))"

definition onSignalBridgeError :: "string \<Rightarrow> pchat_slice \<Rightarrow> pchat_slice" where
  "onSignalBridgeError msg s = s\<lparr>signalBridgeError := Some msg\<rparr>"

section \<open>Runs\<close>

datatype pchat_event =
    EKeyTrust int key_trust_state
  | EPin int custodian_pin
  | EDispute int pending_dispute
  | EDisputeResolved int
  | ELoading int bool
  | EFetchComplete int bool int
  | EShareRequest key_share_request
  | EShareRequests int "key_share_request list"
  | EHolders int "key_holder list"
  | ERestored int
  | ERevoked int
  | EConfig int persist_config
  | EChannels "channel_entry list"
  | EBridgeError string
  | EFetch int
  | EFetchFailed int
  | EVerified int
  | EAccepted int
  | EConfirmed int
  | EDisputeDone int

fun pchat_handle :: "chat_slice \<times> pchat_slice \<Rightarrow> pchat_event \<Rightarrow> chat_slice \<times> pchat_slice" where
  "pchat_handle (c, s) (EKeyTrust ch t) = (c, onKeyTrustChanged ch t s)"
| "pchat_handle (c, s) (EPin ch p) = (c, onCustodianPinChanged ch p s)"
| "pchat_handle (c, s) (EDispute ch d) = (c, onKeyDisputeDetected ch d s)"
| "pchat_handle (c, s) (EDisputeResolved ch) = (c, onKeyDisputeResolved ch s)"
| "pchat_handle (c, s) (ELoading ch b) = (c, onPchatHistoryLoading ch b s)"
| "pchat_handle (c, s) (EFetchComplete ch b n) = fst (onPchatFetchComplete ch b n (c, s))"
| "pchat_handle (c, s) (EShareRequest r) = (c, onPchatKeyShareRequest r s)"
| "pchat_handle (c, s) (EShareRequests ch rs) = (c, onPchatKeyShareRequestsChanged ch rs s)"
| "pchat_handle (c, s) (EHolders ch hs) = (c, onPchatKeyHoldersChanged ch hs s)"
| "pchat_handle (c, s) (ERestored ch) = (c, onPchatKeyRestored ch s)"
| "pchat_handle (c, s) (ERevoked ch) = onPchatKeyRevoked ch (c, s)"
| "pchat_handle (c, s) (EConfig ch cfg) = (c, updateChannelPersistenceConfig ch cfg s)"
| "pchat_handle (c, s) (EChannels chs) = (c, derive_persistence chs s)"
| "pchat_handle (c, s) (EBridgeError m) = (c, onSignalBridgeError m s)"
| "pchat_handle (c, s) (EFetch ch) = (c, fetchHistory ch s)"
| "pchat_handle (c, s) (EFetchFailed ch) = (c, fetchHistory_failed ch s)"
| "pchat_handle (c, s) (EVerified ch) = (c, verifyKeyFingerprint_done ch s)"
| "pchat_handle (c, s) (EAccepted ch) = (c, acceptCustodianChanges_done ch s)"
| "pchat_handle (c, s) (EConfirmed ch) = (c, confirmCustodians_done ch s)"
| "pchat_handle (c, s) (EDisputeDone ch) = (c, resolveKeyDispute_done ch s)"

lemmas pchat_defs =
  onKeyTrustChanged_def onCustodianPinChanged_def onKeyDisputeDetected_def onKeyDisputeResolved_def
  onPchatHistoryLoading_def onPchatFetchComplete_def onPchatKeyShareRequest_def
  onPchatKeyShareRequestsChanged_def onPchatKeyHoldersChanged_def onPchatKeyRestored_def
  onPchatKeyRevoked_def updateChannelPersistenceConfig_def derive_persistence_def onSignalBridgeError_def
  fetchHistory_def fetchHistory_failed_def verifyKeyFingerprint_done_def acceptCustodianChanges_done_def
  confirmCustodians_done_def resolveKeyDispute_done_def set_trust_level_def upd_persistence_def Let_def

text \<open>The events that give the channel a new key, and those that set its trust or its custodians.\<close>

fun restores :: "int \<Rightarrow> pchat_event \<Rightarrow> bool" where
  "restores ch (EKeyTrust c t) = (c = ch)"
| "restores ch (ERestored c) = (c = ch)"
| "restores ch e = False"

fun sets_trust :: "int \<Rightarrow> pchat_event \<Rightarrow> bool" where
  "sets_trust ch (EKeyTrust c t) = (c = ch)"
| "sets_trust ch (EVerified c) = (c = ch)"
| "sets_trust ch (EDisputeDone c) = (c = ch)"
| "sets_trust ch e = False"

fun sets_pins :: "int \<Rightarrow> pchat_event \<Rightarrow> bool" where
  "sets_pins ch (EPin c p) = (c = ch)"
| "sets_pins ch (EAccepted c) = (c = ch)"
| "sets_pins ch e = False"

definition pinned_of :: "pchat_slice \<Rightarrow> int \<Rightarrow> string list option" where
  "pinned_of s ch = (case map_get (custodianPins s) ch of None \<Rightarrow> None | Some p \<Rightarrow> cp_pinned p)"

lemma revoked_step:
  "\<not> restores ch e \<Longrightarrow> ch \<in> set (pchatKeyRevoked (snd st)) \<Longrightarrow>
   ch \<in> set (pchatKeyRevoked (snd (pchat_handle st e)))"
  by (cases st; cases e) (auto simp: pchat_defs split: option.split prod.split)

lemma trust_step:
  "\<not> sets_trust ch e \<Longrightarrow> map_get (keyTrust (snd st)) ch = None \<Longrightarrow>
   map_get (keyTrust (snd (pchat_handle st e))) ch = None"
  by (cases st; cases e) (auto simp: pchat_defs split: option.split prod.split)

lemma pins_step:
  "\<not> sets_pins ch e \<Longrightarrow> pinned_of (snd (pchat_handle st e)) ch = pinned_of (snd st) ch"
  by (cases st; cases e)
    (auto simp: pchat_defs pinned_of_def no_pin_def or_else_def split: option.splits prod.split)

lemma run_keeps:
  assumes "\<And>st e. \<not> Q e \<Longrightarrow> P st \<Longrightarrow> P (h st e)" and "P st" and "\<not> list_ex Q es"
  shows "P (foldl h st es)"
  using assms(2,3) by (induction es arbitrary: st) (auto intro: assms(1))

subsection \<open>Key-share requests\<close>

definition shares_ok :: "pchat_slice \<Rightarrow> bool" where
  "shares_ok s \<longleftrightarrow> map_all (\<lambda>rs. rs \<noteq> [] \<and> distinct (map ks_peer_cert_hash rs)) (pendingKeyShares s)"

text \<open>The backend's replacement lists name every peer once.\<close>

fun honest_shares :: "pchat_event \<Rightarrow> bool" where
  "honest_shares (EShareRequests ch rs) = distinct (map ks_peer_cert_hash rs)"
| "honest_shares e = True"

lemma shares_step: "honest_shares e \<Longrightarrow> shares_ok (snd st) \<Longrightarrow> shares_ok (snd (pchat_handle st e))"
proof (cases st; cases e)
  fix c s r assume st: "st = (c, s)" and e: "e = EShareRequest r" and ok: "shares_ok (snd st)"
  let ?old = "or_else (map_get (pendingKeyShares s) (ks_channel_id r)) []"
  have "distinct (map ks_peer_cert_hash ?old)"
    using ok by (cases "map_get (pendingKeyShares s) (ks_channel_id r)") (auto simp: shares_ok_def st dest: map_all_get)
  moreover have "ks_peer_cert_hash r \<notin> ks_peer_cert_hash ` set ?old"
    if "\<not> list_ex (\<lambda>p. ks_peer_cert_hash p = ks_peer_cert_hash r) ?old"
    using that by (force simp: list_ex_iff)
  ultimately show ?thesis
    using ok by (simp add: st e shares_ok_def pchat_defs)
qed (auto simp: shares_ok_def pchat_defs split: option.split prod.split)

subsection \<open>Deriving the persistence state\<close>

lemma derive_fold_get:
  "map_get (foldl (derive_one prev) m chs) k =
    (case map_of (map (\<lambda>c. (ch_id c, c)) (rev (filter (\<lambda>c. ch_pchat_protocol c \<noteq> None \<and> ch_pchat_protocol c \<noteq> Some ProtoNone) chs))) k of
       None \<Rightarrow> map_get m k
     | Some c \<Rightarrow> map_get (derive_one prev [] c) k)"
proof (induction chs arbitrary: m)
  case (Cons c chs)
  have "map_get (derive_one prev m c) k =
      (if ch_pchat_protocol c \<noteq> None \<and> ch_pchat_protocol c \<noteq> Some ProtoNone \<and> ch_id c = k
       then map_get (derive_one prev [] c) k else map_get m k)"
    by (auto simp: derive_one_def Let_def split: option.split)
  then show ?case
    by (auto simp: Cons.IH map_add_def map_of_append split: option.split)
qed simp

section \<open>Properties\<close>

text \<open>
  C6: a revoked key hides the channel and stays revoked.  When the key challenge of a channel
  fails, its trust entry, its loading spinner and fetch flag are dropped and, if it is on screen,
  its messages; no other channel's trust or persistence entry changes.  Whatever happens then,
  the channel stays marked as revoked until a new key or a restore event for it arrives, and it
  stays without trust until one of the three events that set it.
\<close>

theorem revoked_until_restored:
  assumes "st' = pchat_handle (c, s) (ERevoked ch)" and "st'' = foldl pchat_handle st' es"
  shows "map_get (keyTrust (snd st')) ch = None \<and> ch \<notin> set (pchatHistoryLoading (snd st'))
    \<and> (\<exists>p. map_get (channelPersistence (snd st')) ch = Some p \<and> ps_isFetching p = Some False)
    \<and> (selectedChannel c = Some ch \<longrightarrow> messages (fst st') = [])
    \<and> (k \<noteq> ch \<longrightarrow> map_get (keyTrust (snd st')) k = map_get (keyTrust s) k
        \<and> map_get (channelPersistence (snd st')) k = map_get (channelPersistence s) k)
    \<and> (\<not> list_ex (restores ch) es \<longrightarrow> ch \<in> set (pchatKeyRevoked (snd st'')))
    \<and> (\<not> list_ex (sets_trust ch) es \<longrightarrow> map_get (keyTrust (snd st'')) ch = None)"
proof -
  have st': "ch \<in> set (pchatKeyRevoked (snd st'))" "map_get (keyTrust (snd st')) ch = None"
    by (simp_all add: assms(1) pchat_defs)
  have "ch \<in> set (pchatKeyRevoked (snd st''))" if "\<not> list_ex (restores ch) es"
    unfolding assms(2)
    by (rule run_keeps [where P = "\<lambda>st. ch \<in> set (pchatKeyRevoked (snd st))", OF revoked_step st'(1) that])
  moreover have "map_get (keyTrust (snd st'')) ch = None" if "\<not> list_ex (sets_trust ch) es"
    unfolding assms(2)
    by (rule run_keeps [where P = "\<lambda>st. map_get (keyTrust (snd st)) ch = None", OF trust_step st'(2) that])
  ultimately show ?thesis by (simp add: assms(1) pchat_defs)
qed

theorem revoked_until_restored_witness:
  "2 \<in> set (pchatKeyRevoked (snd (foldl pchat_handle
      (pchat_handle (chat_initial\<lparr>selectedChannel := Some 2\<rparr>, pchat_initial) (ERevoked 2))
      [EFetch 2, ERestored 3, EVerified 3])))"
  using revoked_until_restored [OF refl refl, of "chat_initial\<lparr>selectedChannel := Some 2\<rparr>" pchat_initial 2 1
      "[EFetch 2, ERestored 3, EVerified 3]"]
  by simp

text \<open>
  custodians change only with consent.  Through any run, the pinned custodians of a channel
  change only by the backend's pin event for that channel or by the user accepting the pending
  change; accepting installs exactly the pending list as confirmed and leaves nothing pending,
  and does nothing when nothing is pending.
\<close>

theorem custodians_change_only_by_consent:
  "(\<not> list_ex (sets_pins ch) es \<longrightarrow> pinned_of (snd (foldl pchat_handle st es)) ch = pinned_of (snd st) ch)
   \<and> (map_get (custodianPins s) ch = Some p \<and> cp_pendingUpdate p = Some u \<longrightarrow>
        map_get (custodianPins (acceptCustodianChanges_done ch s)) ch
          = Some \<lparr>cp_pinned = Some u, cp_confirmed = Some True, cp_pendingUpdate = None\<rparr>)
   \<and> (map_get (custodianPins s) ch = Some p \<and> cp_pendingUpdate p = None \<longrightarrow> acceptCustodianChanges_done ch s = s)
   \<and> (k \<noteq> ch \<longrightarrow> map_get (custodianPins (acceptCustodianChanges_done ch s)) k = map_get (custodianPins s) k)"
proof -
  have "pinned_of (snd (foldl pchat_handle st es)) ch = pinned_of (snd st) ch" if "\<not> list_ex (sets_pins ch) es"
    using that by (induction es arbitrary: st) (auto simp: pins_step)
  then show ?thesis by (auto simp: acceptCustodianChanges_done_def split: option.split)
qed

theorem custodians_change_only_by_consent_witness:
  "pinned_of (snd (foldl pchat_handle
      (chat_initial, pchat_initial\<lparr>custodianPins := [(1, \<lparr>cp_pinned = Some [''a''], cp_confirmed = None, cp_pendingUpdate = Some [''b'']\<rparr>)]\<rparr>)
      [EConfirmed 1, EAccepted 2, ERevoked 1])) 1 = Some [''a'']"
  using custodians_change_only_by_consent [of 1 "[EConfirmed 1, EAccepted 2, ERevoked 1]"
      "(chat_initial, pchat_initial\<lparr>custodianPins := [(1, \<lparr>cp_pinned = Some [''a''], cp_confirmed = None, cp_pendingUpdate = Some [''b'']\<rparr>)]\<rparr>)"]
  by (simp add: pinned_of_def)

text \<open>
  a peer asks once.  Through any run in which the backend's replacement lists name every
  peer once, each channel's list of pending key-share requests is non-empty and holds at most
  one request per certificate.
\<close>

theorem one_key_share_request_per_peer:
  assumes "list_all honest_shares es"
  shows "shares_ok (snd (foldl pchat_handle (c, pchat_initial) es))"
proof (rule run_keeps [where P = "\<lambda>st. shares_ok (snd st)" and Q = "\<lambda>e. \<not> honest_shares e"])
  show "shares_ok (snd (c, pchat_initial))" by (simp add: shares_ok_def pchat_initial_def)
  show "\<not> list_ex (\<lambda>e. \<not> honest_shares e) es" using assms by (auto simp: list_all_iff list_ex_iff)
qed (auto intro: shares_step)

theorem one_key_share_request_per_peer_witness:
  "shares_ok (snd (foldl pchat_handle (chat_initial, pchat_initial)
      [EShareRequest \<lparr>ks_channel_id = 1, ks_peer_cert_hash = ''h'', ks_peer_name = ''Ann''\<rparr>,
       EShareRequest \<lparr>ks_channel_id = 1, ks_peer_cert_hash = ''h'', ks_peer_name = ''Ann''\<rparr>]))"
  by (rule one_key_share_request_per_peer) simp

text \<open>
  refreshing the channel list never loses pagination state.  Every listed channel that has a
  persistent protocol gets that protocol's mode; what was known of its history (whether there is
  more, whether a fetch is running, how much is stored) is kept; every other channel's entry is
  untouched.
\<close>

theorem refresh_keeps_pagination:
  assumes "distinct (map ch_id channels)" and "c \<in> set channels" and "s' = derive_persistence channels s"
  shows "(\<forall>proto. ch_pchat_protocol c = Some proto \<and> proto \<noteq> ProtoNone \<longrightarrow>
      getPersistenceMode s' (ch_id c) = mode_of_protocol proto
    \<and> (\<exists>p. map_get (channelPersistence s') (ch_id c) = Some p
        \<and> (\<forall>old. map_get (channelPersistence s) (ch_id c) = Some old \<longrightarrow>
              ps_hasMore p = Some (or_else (ps_hasMore old) False)
            \<and> ps_isFetching p = Some (or_else (ps_isFetching old) False)
            \<and> ps_totalStored p = Some (or_else (ps_totalStored old) 0))))
    \<and> (ch_pchat_protocol c = None \<or> ch_pchat_protocol c = Some ProtoNone \<longrightarrow>
        map_get (channelPersistence s') (ch_id c) = map_get (channelPersistence s) (ch_id c))
    \<and> (k \<notin> ch_id ` set channels \<longrightarrow>
        map_get (channelPersistence s') k = map_get (channelPersistence s) k)"
proof -
  let ?sel = "filter (\<lambda>c. ch_pchat_protocol c \<noteq> None \<and> ch_pchat_protocol c \<noteq> Some ProtoNone) channels"
  let ?m = "map_of (map (\<lambda>c. (ch_id c, c)) (rev ?sel))"
  have d: "distinct (map fst (map (\<lambda>c. (ch_id c, c)) (rev ?sel)))"
    using assms(1) by (simp add: rev_map [symmetric] o_def distinct_map_filter)
  have sel: "?m (ch_id x) = Some x" if "x \<in> set ?sel" for x
    using that by (intro map_of_is_SomeI [OF d]) auto
  have out: "?m k = None" if "k \<notin> ch_id ` set ?sel" for k
    using that by (auto simp: map_of_eq_None_iff)
  have inj: "x = c" if "x \<in> set channels" "ch_id x = ch_id c" for x
    using assms(1,2) that by (auto simp: distinct_map inj_on_def)
  have g: "map_get (channelPersistence s') j = (case ?m j of None \<Rightarrow> map_get (channelPersistence s) j
      | Some c \<Rightarrow> map_get (derive_one (channelPersistence s) [] c) j)" for j
    unfolding assms(3) derive_persistence_def
    using derive_fold_get [of "channelPersistence s" "channelPersistence s" channels j] by simp
  have "?m (ch_id c) = None" if "ch_pchat_protocol c = None \<or> ch_pchat_protocol c = Some ProtoNone"
    using that inj by (intro out) auto
  moreover have "?m k = None" if "k \<notin> ch_id ` set channels" using that by (intro out) auto
  moreover have "?m (ch_id c) = Some c" if "ch_pchat_protocol c = Some proto" "proto \<noteq> ProtoNone" for proto
    using that assms(2) by (intro sel) auto
  ultimately show ?thesis
    by (auto simp: g getPersistenceMode_def derive_one_def Let_def)
qed

definition example_channel :: "int \<Rightarrow> pchat_protocol option \<Rightarrow> channel_entry" where
  "example_channel i p = \<lparr>ch_id = i, ch_parent_id = None, ch_name = ''c'', ch_description_size = None,
     ch_user_count = 0, ch_permissions = None, ch_temporary = False, ch_position = 0, ch_max_users = 0,
     ch_pchat_protocol = p, ch_pchat_max_history = None, ch_pchat_retention_days = None,
     ch_is_enter_restricted = None\<rparr>"

theorem refresh_keeps_pagination_witness:
  "getPersistenceMode (derive_persistence [example_channel 1 (Some SignalV1), example_channel 2 None] pchat_initial) 1
   = ModeSignalV1"
proof -
  have "distinct (map ch_id [example_channel 1 (Some SignalV1), example_channel 2 None])"
    "example_channel 1 (Some SignalV1) \<in> set [example_channel 1 (Some SignalV1), example_channel 2 None]"
    by (simp_all add: example_channel_def)
  from refresh_keeps_pagination [OF this refl, of pchat_initial 3] show ?thesis
    by (simp add: example_channel_def mode_of_protocol_def)
qed

end
