(* ===== verification/LiveDocStore.thy ===== *)
theory LiveDocStore
  imports AppTypes
begin

text \<open>
  The live-document part of \<open>store.ts\<close>: the maps of open documents, announcements and seeds scoped
  to a server tab, opening by slug with its in-flight table (\<open>requestOpenLiveDoc\<close>), the invite and
  announce dispatchers, renaming, and the removal of a closed tab's entries.  What an operation
  sends to the server is returned as a list of \<open>doc_out\<close>.  A timer is an event of its own
  (\<open>openTimedOut\<close>).
\<close>

section \<open>State\<close>

record live_doc_session =
  ld_serverId :: int
  ld_appServerId :: "server_id option"
  ld_channelId :: int
  ld_slug :: string
  ld_title :: string
  ld_wsUrl :: string
  ld_token :: string
  ld_ownSession :: int
  ld_ownName :: string
  ld_ownColor :: string
  ld_isOwner :: bool

record live_doc_announce =
  la_openerName :: string
  la_title :: string
  la_appServerId :: "server_id option"
  la_channelId :: int
  la_slug :: string

datatype doc_mode = PrivateDoc | PublishDoc

record pending_open =
  po_silent :: bool
  po_mode :: doc_mode

record live_doc_slice =
  activeLiveDocs :: "(string, live_doc_session) jmap"
  pendingLiveDocAnnounces :: "(string, live_doc_announce) jmap"
  pendingLiveDocSeeds :: "(string, string) jmap"
  pendingLiveDocOpens :: "(string, pending_open) jmap"   \<comment> \<open>module variable\<close>

definition live_doc_reset :: "live_doc_slice \<Rightarrow> live_doc_slice" where
  "live_doc_reset s = \<lparr>activeLiveDocs = [], pendingLiveDocAnnounces = [], pendingLiveDocSeeds = [],
     pendingLiveDocOpens = pendingLiveDocOpens s\<rparr>"

datatype doc_out =
    SendOpenRequest int string string doc_mode
  | SendAnnounce int string string
  | SendInviteMessage int string string
  | SendPublish int string
  | SendRename int string string
  | SendPersist int string

section \<open>Keys and slugs\<close>

definition liveDocKey :: "server_id option \<Rightarrow> int \<Rightarrow> string" where
  "liveDocKey appServerId channelId = or_else appServerId '''' @ ''|'' @ show_int channelId"

definition openKey :: "int \<Rightarrow> string \<Rightarrow> string" where
  "openKey channelId slug = show_int channelId @ ''|'' @ slug"

text \<open>An argument that is \<open>undefined\<close> means the active server tab.\<close>

datatype server_arg = ActiveTab | Tab "server_id option"

definition target_server :: "server_id option \<Rightarrow> server_arg \<Rightarrow> server_id option" where
  "target_server active a = (case a of ActiveTab \<Rightarrow> active | Tab t \<Rightarrow> t)"

definition slug_char :: "char \<Rightarrow> bool" where
  "slug_char c \<longleftrightarrow> (let n = (of_char c :: nat) in
     (97 \<le> n \<and> n \<le> 122) \<or> (48 \<le> n \<and> n \<le> 57) \<or> n = 95 \<or> n = 45)"

text \<open>\<open>replaceAll(/[^a-z0-9_-]+/g, "-")\<close>: every maximal run of other characters becomes one dash.\<close>

fun dash_runs :: "bool \<Rightarrow> string \<Rightarrow> string" where
  "dash_runs inRun [] = []"
| "dash_runs inRun (c # cs) =
     (if slug_char c then c # dash_runs False cs
      else if inRun then dash_runs True cs else CHR ''-'' # dash_runs True cs)"

definition strip_dashes :: "string \<Rightarrow> string" where
  "strip_dashes s =
     rev (dropWhile (\<lambda>c. c = CHR ''-'') (rev (dropWhile (\<lambda>c. c = CHR ''-'') s)))"

definition sanitise_slug :: "string \<Rightarrow> string" where
  "sanitise_slug slug = take 64 (strip_dashes (dash_runs False (to_lower slug)))"

section \<open>Synchronous actions\<close>

definition openLiveDoc :: "live_doc_session \<Rightarrow> live_doc_slice \<Rightarrow> live_doc_slice" where
  "openLiveDoc session s =
     (let k = liveDocKey (ld_appServerId session) (ld_channelId session)
      in s\<lparr>activeLiveDocs := map_set k session (activeLiveDocs s),
           pendingLiveDocAnnounces := map_del k (pendingLiveDocAnnounces s)\<rparr>)"

definition closeActiveLiveDoc :: "server_id option \<Rightarrow> int \<Rightarrow> server_arg \<Rightarrow> live_doc_slice \<Rightarrow> live_doc_slice" where
  "closeActiveLiveDoc active ch a s =
     (let k = liveDocKey (target_server active a) ch
      in if \<not> map_has (activeLiveDocs s) k then s
         else s\<lparr>activeLiveDocs := map_del k (activeLiveDocs s)\<rparr>)"

definition setLiveDocAnnounce :: "live_doc_announce \<Rightarrow> live_doc_slice \<Rightarrow> live_doc_slice" where
  "setLiveDocAnnounce an s =
     s\<lparr>pendingLiveDocAnnounces :=
         map_set (liveDocKey (la_appServerId an) (la_channelId an)) an (pendingLiveDocAnnounces s)\<rparr>"

definition clearLiveDocAnnounce :: "server_id option \<Rightarrow> int \<Rightarrow> server_arg \<Rightarrow> live_doc_slice \<Rightarrow> live_doc_slice" where
  "clearLiveDocAnnounce active ch a s =
     (let k = liveDocKey (target_server active a) ch
      in if \<not> map_has (pendingLiveDocAnnounces s) k then s
         else s\<lparr>pendingLiveDocAnnounces := map_del k (pendingLiveDocAnnounces s)\<rparr>)"

definition setPendingLiveDocSeed ::
  "server_id option \<Rightarrow> int \<Rightarrow> string \<Rightarrow> server_arg \<Rightarrow> live_doc_slice \<Rightarrow> live_doc_slice" where
  "setPendingLiveDocSeed active ch markdown a s =
     s\<lparr>pendingLiveDocSeeds := map_set (liveDocKey (target_server active a) ch) markdown (pendingLiveDocSeeds s)\<rparr>"

definition consumePendingLiveDocSeed ::
  "server_id option \<Rightarrow> int \<Rightarrow> server_arg \<Rightarrow> live_doc_slice \<Rightarrow> live_doc_slice \<times> string option" where
  "consumePendingLiveDocSeed active ch a s =
     (let k = liveDocKey (target_server active a) ch
      in case map_get (pendingLiveDocSeeds s) k of
           None \<Rightarrow> (s, None)
         | Some current \<Rightarrow> (s\<lparr>pendingLiveDocSeeds := map_del k (pendingLiveDocSeeds s)\<rparr>, Some current))"

definition renameActiveLiveDoc ::
  "server_id option \<Rightarrow> int \<Rightarrow> string \<Rightarrow> string \<Rightarrow> server_arg \<Rightarrow> live_doc_slice \<Rightarrow> live_doc_slice \<times> doc_out list"
where
  "renameActiveLiveDoc active ch slug title a s =
     (let trimmed = take 200 (trim title) in
      if trimmed = '''' then (s, [])
      else (let k = liveDocKey (target_server active a) ch;
                s1 = (case map_get (activeLiveDocs s) k of
                        None \<Rightarrow> s
                      | Some current \<Rightarrow>
                          if ld_title current = trimmed then s
                          else s\<lparr>activeLiveDocs := map_set k (current\<lparr>ld_title := trimmed\<rparr>) (activeLiveDocs s)\<rparr>)
            in (s1, [SendRename ch slug trimmed])))"

definition publishLiveDoc :: "int \<Rightarrow> string \<Rightarrow> doc_out list" where
  "publishLiveDoc ch slug = [SendPublish ch slug]"

definition saveLiveDoc :: "int \<Rightarrow> string \<Rightarrow> doc_out list" where
  "saveLiveDoc ch slug = [SendPersist ch slug]"

text \<open>The removal of a closed tab's entries, in \<open>disconnectSession\<close>.\<close>

definition drop_prefix :: "string \<Rightarrow> (string, 'v) jmap \<Rightarrow> (string, 'v) jmap" where
  "drop_prefix p m = foldl (\<lambda>nxt k. if starts_with k p then map_del k nxt else nxt) m (map_keys m)"

definition forget_server_docs :: "server_id \<Rightarrow> live_doc_slice \<Rightarrow> live_doc_slice" where
  "forget_server_docs sid s =
     s\<lparr>activeLiveDocs := drop_prefix (sid @ ''|'') (activeLiveDocs s),
       pendingLiveDocAnnounces := drop_prefix (sid @ ''|'') (pendingLiveDocAnnounces s),
       pendingLiveDocSeeds := drop_prefix (sid @ ''|'') (pendingLiveDocSeeds s)\<rparr>"

section \<open>Opening by slug\<close>

datatype open_result = EmptySlug | AlreadyInFlight | AlreadyActive | AwaitInvite string

definition requestOpenLiveDoc ::
  "server_id option \<Rightarrow> int \<Rightarrow> string \<Rightarrow> string \<Rightarrow> bool \<Rightarrow> doc_mode option \<Rightarrow> live_doc_slice
    \<Rightarrow> live_doc_slice \<times> doc_out list \<times> open_result"
where
  "requestOpenLiveDoc active ch slug title silent modeOpt s =
     (let sanitised = sanitise_slug slug in
      if sanitised = '''' then (s, [], EmptySlug)
      else (let trimmedTitle = take 200 (trim title);
                mode = or_else modeOpt PublishDoc;
                key = openKey ch sanitised
            in if map_has (pendingLiveDocOpens s) key then (s, [], AlreadyInFlight)
               else if map_has (activeLiveDocs s) (liveDocKey active ch)
               then (s, [SendOpenRequest ch sanitised trimmedTitle mode], AlreadyActive)
               else (s\<lparr>pendingLiveDocOpens := map_set key \<lparr>po_silent = silent, po_mode = mode\<rparr> (pendingLiveDocOpens s)\<rparr>,
                     [SendOpenRequest ch sanitised trimmedTitle mode], AwaitInvite key)))"

definition openTimedOut :: "string \<Rightarrow> live_doc_slice \<Rightarrow> live_doc_slice" where
  "openTimedOut key s = s\<lparr>pendingLiveDocOpens := map_del key (pendingLiveDocOpens s)\<rparr>"

section \<open>Dispatchers\<close>

definition LIVE_DOC_COLORS :: "string list" where
  "LIVE_DOC_COLORS =
    [''#2aabee'', ''#ff6f61'', ''#7cd66c'', ''#ffb74d'', ''#b388ff'', ''#ff66cc'', ''#00bfa5'', ''#ffd54f'',
     ''#90caf9'', ''#f48fb1'', ''#80deea'', ''#ce93d8'']"

definition pickLiveDocCursorColor :: "int \<Rightarrow> string" where
  "pickLiveDocCursorColor session = LIVE_DOC_COLORS ! (nat \<bar>session\<bar> mod length LIVE_DOC_COLORS)"

text \<open>\<open>Number.parseInt(s, 10) || 0\<close>.\<close>

definition parse_int_or_0 :: "string \<Rightarrow> int" where
  "parse_int_or_0 s =
     (let t = trim_start s in
      case t of
        [] \<Rightarrow> 0
      | c # cs \<Rightarrow>
          if c = CHR ''-'' then - int (read_digits (takeWhile is_digit cs))
          else if c = CHR ''+'' then int (read_digits (takeWhile is_digit cs))
          else int (read_digits (takeWhile is_digit t)))"

record live_doc_invite =
  li_channelId :: int
  li_slug :: string
  li_title :: string
  li_wsUrl :: string
  li_token :: "string option"
  li_serverId :: "string option"

definition dispatchLiveDocInvite ::
  "server_id option \<Rightarrow> int option \<Rightarrow> user_entry list \<Rightarrow> live_doc_invite \<Rightarrow> live_doc_slice
    \<Rightarrow> live_doc_slice \<times> doc_out list"
where
  "dispatchLiveDocInvite active ownSession users p s =
     (case ownSession of
        None \<Rightarrow> (s, [])
      | Some own \<Rightarrow>
          (let key = openKey (li_channelId p) (li_slug p);
               pending = map_get (pendingLiveDocOpens s) key;
               isOwner = (case pending of None \<Rightarrow> False | Some q \<Rightarrow> \<not> po_silent q);
               shouldPublish = (isOwner \<and> (case pending of None \<Rightarrow> False | Some q \<Rightarrow> po_mode q = PublishDoc));
               s1 = (if pending \<noteq> None then s\<lparr>pendingLiveDocOpens := map_del key (pendingLiveDocOpens s)\<rparr> else s);
               ownName = (case List.find (\<lambda>u. us_session u = own) users of
                            None \<Rightarrow> ''You'' | Some u \<Rightarrow> us_name u);
               doc = \<lparr>ld_serverId = (case li_serverId p of None \<Rightarrow> 0 | Some x \<Rightarrow> parse_int_or_0 x),
                      ld_appServerId = active, ld_channelId = li_channelId p, ld_slug = li_slug p,
                      ld_title = li_title p, ld_wsUrl = li_wsUrl p, ld_token = or_else (li_token p) '''',
                      ld_ownSession = own, ld_ownName = ownName, ld_ownColor = pickLiveDocCursorColor own,
                      ld_isOwner = isOwner\<rparr>
           in (openLiveDoc doc s1,
               if shouldPublish then [SendAnnounce (li_channelId p) (li_slug p) (li_title p),
                                      SendInviteMessage (li_channelId p) (li_slug p) (li_title p)]
               else [])))"

record live_doc_announce_event =
  lv_channelId :: int
  lv_slug :: string
  lv_title :: string
  lv_openerSession :: int
  lv_openerName :: string

definition dispatchLiveDocAnnounce ::
  "server_id option \<Rightarrow> live_doc_announce_event \<Rightarrow> live_doc_slice \<Rightarrow> live_doc_slice" where
  "dispatchLiveDocAnnounce active p s =
     setLiveDocAnnounce \<lparr>la_openerName = (if lv_openerName p = '''' then ''Someone'' else lv_openerName p),
       la_title = lv_title p, la_appServerId = active, la_channelId = lv_channelId p, la_slug = lv_slug p\<rparr> s"

section \<open>Lemmas\<close>

lemma bar_not_in_show_int: "CHR ''|'' \<notin> set (show_int i)"
  using show_nat_digits [of "CHR ''|''"] by (auto simp: show_int_def is_digit_def)

lemma append_sep_inj:
  assumes "c \<notin> set xs" and "c \<notin> set ys" and "xs @ c # us = ys @ c # vs"
  shows "xs = ys \<and> us = vs"
  using assms by (induction xs arbitrary: ys) (auto simp: Cons_eq_append_conv append_eq_Cons_conv)

lemma openKey_inject: "openKey c x = openKey d y \<longleftrightarrow> c = d \<and> x = y"
  using append_sep_inj [OF bar_not_in_show_int bar_not_in_show_int, of c x d y]
  by (auto simp: openKey_def)

lemma liveDocKey_inject: "liveDocKey a c = liveDocKey b d \<longleftrightarrow> or_else a '''' = or_else b '''' \<and> c = d"
proof
  assume "liveDocKey a c = liveDocKey b d"
  then have "rev (liveDocKey a c) = rev (liveDocKey b d)" by simp
  then have "rev (show_int c) @ CHR ''|'' # rev (or_else a '''') = rev (show_int d) @ CHR ''|'' # rev (or_else b '''')"
    by (simp add: liveDocKey_def)
  from append_sep_inj [OF _ _ this] show "or_else a '''' = or_else b '''' \<and> c = d"
    using bar_not_in_show_int by auto
qed (simp add: liveDocKey_def)

lemma drop_prefix_get: "map_get (drop_prefix p m) k = (if starts_with k p then None else map_get m k)"
proof -
  have "map_get (foldl (\<lambda>n k. if starts_with k p then map_del k n else n) m ks) k =
      (if k \<in> set ks \<and> starts_with k p then None else map_get m k)" for ks
    by (induction ks arbitrary: m) auto
  moreover have "map_get m k = None" if "k \<notin> set (map_keys m)"
    using that by (simp add: map_get_None_iff map_keys_def)
  ultimately show ?thesis by (auto simp: drop_prefix_def)
qed

lemma key_of_server:
  assumes "CHR ''|'' \<notin> set sid" and "CHR ''|'' \<notin> set (or_else a '''')"
  shows "starts_with (liveDocKey a c) (sid @ ''|'') \<longleftrightarrow> or_else a '''' = sid"
proof
  assume "starts_with (liveDocKey a c) (sid @ ''|'')"
  then obtain zs where "or_else a '''' @ CHR ''|'' # show_int c = sid @ CHR ''|'' # zs"
    by (auto simp: starts_with_def prefix_def liveDocKey_def)
  from append_sep_inj [OF assms(2,1) this] show "or_else a '''' = sid" by simp
qed (simp add: starts_with_def prefix_def liveDocKey_def)

subsection \<open>Slugs\<close>

lemma dash_runs_chars: "c \<in> set (dash_runs b s) \<Longrightarrow> slug_char c"
  by (induction b s rule: dash_runs.induct) (auto simp: slug_char_def split: if_splits)

lemma dash_runs_id: "list_all slug_char s \<Longrightarrow> dash_runs b s = s"
  by (induction b s rule: dash_runs.induct) auto

lemma strip_dashes_set: "set (strip_dashes s) \<subseteq> set s"
  by (auto simp: strip_dashes_def dest!: set_dropWhileD)

lemma strip_dashes_hd: "strip_dashes s = c # cs \<Longrightarrow> c \<noteq> CHR ''-''"
proof -
  assume s: "strip_dashes s = c # cs"
  let ?t = "dropWhile (\<lambda>c. c = CHR ''-'') s"
  have "suffix (dropWhile (\<lambda>c. c = CHR ''-'') (rev ?t)) (rev ?t)" by (rule suffix_dropWhile)
  then have "prefix (strip_dashes s) ?t" by (simp add: strip_dashes_def suffix_to_prefix)
  with s obtain ds where "?t = c # ds" by (auto simp: prefix_def)
  then show ?thesis using dropWhile_hd by fast
qed

lemma to_lower_slug: "list_all slug_char s \<Longrightarrow> to_lower s = s"
  by (induction s) (auto simp: to_lower_def lower_char_def slug_char_def Let_def)

lemma strip_dashes_id: "s = [] \<or> hd s \<noteq> CHR ''-'' \<and> last s \<noteq> CHR ''-'' \<Longrightarrow> strip_dashes s = s"
  by (cases s rule: rev_cases) (auto simp: strip_dashes_def dropWhile_idem_hd hd_append hd_rev split: if_splits)

subsection \<open>Runs\<close>

datatype doc_event =
    RequestOpen "server_id option" int string string bool "doc_mode option"
  | InviteArrived "server_id option" "int option" "user_entry list" live_doc_invite
  | AnnounceArrived "server_id option" live_doc_announce_event
  | OpenTimeout string
  | CloseDoc "server_id option" int server_arg
  | RenameDoc "server_id option" int string string server_arg
  | CloseTab server_id
  | ResetDocs

fun doc_step :: "live_doc_slice \<Rightarrow> doc_event \<Rightarrow> live_doc_slice \<times> doc_out list" where
  "doc_step s (RequestOpen active ch slug title silent mode) =
     (case requestOpenLiveDoc active ch slug title silent mode s of (s', out, r) \<Rightarrow> (s', out))"
| "doc_step s (InviteArrived active own users p) = dispatchLiveDocInvite active own users p s"
| "doc_step s (AnnounceArrived active p) = (dispatchLiveDocAnnounce active p s, [])"
| "doc_step s (OpenTimeout key) = (openTimedOut key s, [])"
| "doc_step s (CloseDoc active ch a) = (closeActiveLiveDoc active ch a s, [])"
| "doc_step s (RenameDoc active ch slug title a) = renameActiveLiveDoc active ch slug title a s"
| "doc_step s (CloseTab sid) = (forget_server_docs sid s, [])"
| "doc_step s ResetDocs = (live_doc_reset s, [])"

fun doc_run :: "live_doc_slice \<Rightarrow> doc_event list \<Rightarrow> live_doc_slice \<times> doc_out list" where
  "doc_run s [] = (s, [])"
| "doc_run s (e # es) =
     (case doc_step s e of (s', out) \<Rightarrow> (case doc_run s' es of (s'', outs) \<Rightarrow> (s'', out @ outs)))"

text \<open>Requests that may announce a document, and the announcements of it.\<close>

fun publish_request :: "int \<Rightarrow> string \<Rightarrow> doc_event \<Rightarrow> bool" where
  "publish_request ch slug (RequestOpen active c sl title silent mode) \<longleftrightarrow>
     c = ch \<and> sanitise_slug sl = slug \<and> \<not> silent \<and> or_else mode PublishDoc = PublishDoc"
| "publish_request ch slug e = False"

fun announces :: "int \<Rightarrow> string \<Rightarrow> doc_out \<Rightarrow> bool" where
  "announces ch slug (SendAnnounce c sl title) \<longleftrightarrow> c = ch \<and> sl = slug"
| "announces ch slug (SendInviteMessage c sl title) = False"
| "announces ch slug e = False"

fun invites :: "int \<Rightarrow> string \<Rightarrow> doc_out \<Rightarrow> bool" where
  "invites ch slug (SendInviteMessage c sl title) \<longleftrightarrow> c = ch \<and> sl = slug"
| "invites ch slug e = False"

definition may_announce :: "int \<Rightarrow> string \<Rightarrow> live_doc_slice \<Rightarrow> nat" where
  "may_announce ch slug s =
     (if map_get (pendingLiveDocOpens s) (openKey ch slug) = Some \<lparr>po_silent = False, po_mode = PublishDoc\<rparr>
      then 1 else 0)"

lemma doc_step_count:
  assumes "doc_step s e = (s', out)"
  shows "length (filter (announces ch slug) out) + may_announce ch slug s'
      \<le> may_announce ch slug s + (if publish_request ch slug e then 1 else 0)
    \<and> length (filter (invites ch slug) out) = length (filter (announces ch slug) out)"
proof (cases e)
  case (RequestOpen active c sl title silent mode)
  with assms show ?thesis
    by (auto simp: requestOpenLiveDoc_def Let_def may_announce_def openKey_inject split: if_splits)
next
  case (InviteArrived active own users p)
  show ?thesis
  proof (cases own)
    case None
    with assms InviteArrived show ?thesis by (simp add: dispatchLiveDocInvite_def)
  next
    case (Some o')
    let ?key = "openKey (li_channelId p) (li_slug p)"
    let ?pub = "map_get (pendingLiveDocOpens s) ?key = Some \<lparr>po_silent = False, po_mode = PublishDoc\<rparr>"
    have pub: "(case map_get (pendingLiveDocOpens s) ?key of None \<Rightarrow> False | Some q \<Rightarrow> \<not> po_silent q)
        \<and> (case map_get (pendingLiveDocOpens s) ?key of None \<Rightarrow> False | Some q \<Rightarrow> po_mode q = PublishDoc) \<longleftrightarrow> ?pub"
      by (cases "map_get (pendingLiveDocOpens s) ?key") auto
    have "pendingLiveDocOpens s' = (if map_get (pendingLiveDocOpens s) ?key \<noteq> None
        then map_del ?key (pendingLiveDocOpens s) else pendingLiveDocOpens s)"
      using assms InviteArrived Some by (auto simp: dispatchLiveDocInvite_def openLiveDoc_def Let_def)
    then have g: "map_get (pendingLiveDocOpens s') = (map_get (pendingLiveDocOpens s))(?key := None)"
      by (auto simp: fun_eq_iff)
    have "out = (if ?pub then [SendAnnounce (li_channelId p) (li_slug p) (li_title p),
        SendInviteMessage (li_channelId p) (li_slug p) (li_title p)] else [])"
      using assms InviteArrived Some by (simp only: doc_step.simps dispatchLiveDocInvite_def option.case Let_def pub prod.inject)
    then show ?thesis using InviteArrived by (auto simp: may_announce_def g openKey_inject)
  qed
qed (use assms in \<open>auto simp: may_announce_def dispatchLiveDocAnnounce_def setLiveDocAnnounce_def
      openTimedOut_def closeActiveLiveDoc_def renameActiveLiveDoc_def forget_server_docs_def live_doc_reset_def
      Let_def split: if_splits option.splits\<close>)

lemma doc_run_count:
  "doc_run s es = (s', outs) \<Longrightarrow>
   length (filter (announces ch slug) outs) + may_announce ch slug s'
     \<le> may_announce ch slug s + length (filter (publish_request ch slug) es)
   \<and> length (filter (invites ch slug) outs) = length (filter (announces ch slug) outs)"
proof (induction es arbitrary: s outs)
  case (Cons e es)
  obtain s1 out where st: "doc_step s e = (s1, out)" by fastforce
  obtain s2 outs' where r: "doc_run s1 es = (s2, outs')" by fastforce
  with Cons.prems st have "s' = s2" "outs = out @ outs'" by simp_all
  with doc_step_count [OF st, of ch slug] Cons.IH [of s1 outs'] r show ?case by auto
qed simp

section \<open>Properties\<close>

text \<open>
  C5: a document is announced to the channel only on request.  Over any run of requests, invites,
  timeouts, renames and closed tabs, the number of announcements of a document never exceeds the
  number of non-silent publish requests for it, and each announcement comes with exactly one chat
  invitation: a document opened privately or joined silently is never announced.
\<close>

theorem announced_only_on_request:
  assumes "pendingLiveDocOpens s = []" and "doc_run s es = (s', outs)"
  shows "length (filter (announces ch slug) outs) \<le> length (filter (publish_request ch slug) es)
    \<and> length (filter (invites ch slug) outs) = length (filter (announces ch slug) outs)"
  using doc_run_count [OF assms(2), of ch slug] assms(1) by (simp add: may_announce_def)

definition example_invite :: live_doc_invite where
  "example_invite = \<lparr>li_channelId = 3, li_slug = ''plan'', li_title = ''Plan'', li_wsUrl = ''wss://h'',
     li_token = None, li_serverId = None\<rparr>"

theorem announced_only_on_request_witness:
  "length (filter (announces 3 ''plan'') (snd (doc_run
      \<lparr>activeLiveDocs = [], pendingLiveDocAnnounces = [], pendingLiveDocSeeds = [], pendingLiveDocOpens = []\<rparr>
      [RequestOpen None 3 ''plan'' ''Plan'' False (Some PrivateDoc), InviteArrived None (Some 1) [] example_invite]))) = 0"
proof -
  let ?s = "\<lparr>activeLiveDocs = [], pendingLiveDocAnnounces = [], pendingLiveDocSeeds = [], pendingLiveDocOpens = []\<rparr> :: live_doc_slice"
  let ?es = "[RequestOpen None 3 ''plan'' ''Plan'' False (Some PrivateDoc), InviteArrived None (Some 1) [] example_invite]"
  obtain s' outs where r: "doc_run ?s ?es = (s', outs)" by fastforce
  have "pendingLiveDocOpens ?s = []" by simp
  from announced_only_on_request [OF this r, of 3 "''plan''"] show ?thesis unfolding r by simp
qed

text \<open>
  server tabs do not see each other's documents.  With server ids free of the separator,
  closing a tab removes its open documents, announcements and seeds for every channel and leaves
  every other tab's alone; opening a document on one tab changes no entry of another tab or
  channel.
\<close>

theorem live_docs_scoped_to_tab:
  assumes "CHR ''|'' \<notin> set sid" and "CHR ''|'' \<notin> set (or_else a '''')"
  shows "(let s' = forget_server_docs sid s; k = liveDocKey a ch; mine = (or_else a '''' = sid) in
      map_get (activeLiveDocs s') k = (if mine then None else map_get (activeLiveDocs s) k)
    \<and> map_get (pendingLiveDocAnnounces s') k = (if mine then None else map_get (pendingLiveDocAnnounces s) k)
    \<and> map_get (pendingLiveDocSeeds s') k = (if mine then None else map_get (pendingLiveDocSeeds s) k))
    \<and> ((or_else (ld_appServerId d) '''', ld_channelId d) \<noteq> (or_else a '''', ch) \<longrightarrow>
        map_get (activeLiveDocs (openLiveDoc d s)) (liveDocKey a ch) = map_get (activeLiveDocs s) (liveDocKey a ch)
      \<and> map_get (pendingLiveDocAnnounces (openLiveDoc d s)) (liveDocKey a ch)
          = map_get (pendingLiveDocAnnounces s) (liveDocKey a ch))"
  using key_of_server [OF assms, of ch]
  by (auto simp: Let_def forget_server_docs_def drop_prefix_get openLiveDoc_def liveDocKey_inject)

theorem live_docs_scoped_to_tab_witness:
  "map_get (pendingLiveDocSeeds (forget_server_docs ''s1''
      \<lparr>activeLiveDocs = [], pendingLiveDocAnnounces = [],
       pendingLiveDocSeeds = [(liveDocKey (Some ''s12'') 0, ''# x'')], pendingLiveDocOpens = []\<rparr>))
    (liveDocKey (Some ''s12'') 0) = Some ''# x''"
  using live_docs_scoped_to_tab [of "''s1''" "Some ''s12''"
      "\<lparr>activeLiveDocs = [], pendingLiveDocAnnounces = [],
       pendingLiveDocSeeds = [(liveDocKey (Some ''s12'') 0, ''# x'')], pendingLiveDocOpens = []\<rparr>" 0]
  by (simp add: Let_def)

text \<open>
  slugs sent to the server are well formed: only lower-case letters, digits, underscores and
  dashes, at most 64 of them, not starting with a dash; a valid slug is sent as it is; and while
  an open request for a document is in flight no second one is sent.
\<close>

theorem slug_well_formed:
  "list_all slug_char (sanitise_slug s) \<and> length (sanitise_slug s) \<le> 64
   \<and> (\<forall>c cs. sanitise_slug s = c # cs \<longrightarrow> c \<noteq> CHR ''-'')
   \<and> (list_all slug_char s \<and> s \<noteq> [] \<and> hd s \<noteq> CHR ''-'' \<and> last s \<noteq> CHR ''-'' \<and> length s \<le> 64
        \<longrightarrow> sanitise_slug s = s)
   \<and> (map_has (pendingLiveDocOpens d) (openKey ch (sanitise_slug s)) \<longrightarrow>
        fst (snd (requestOpenLiveDoc active ch s title silent mode d)) = []
      \<and> fst (requestOpenLiveDoc active ch s title silent mode d) = d)"
proof (intro conjI impI allI)
  show "list_all slug_char (sanitise_slug s)"
    using dash_runs_chars strip_dashes_set
    by (fastforce simp: sanitise_slug_def list_all_iff dest: in_set_takeD)
  show "length (sanitise_slug s) \<le> 64" by (simp add: sanitise_slug_def)
  show "c \<noteq> CHR ''-''" if "sanitise_slug s = c # cs" for c cs
    using that strip_dashes_hd [of "dash_runs False (to_lower s)"]
    by (cases "strip_dashes (dash_runs False (to_lower s))") (auto simp: sanitise_slug_def)
  show "sanitise_slug s = s" if "list_all slug_char s \<and> s \<noteq> [] \<and> hd s \<noteq> CHR ''-'' \<and> last s \<noteq> CHR ''-'' \<and> length s \<le> 64"
    using that by (simp add: sanitise_slug_def to_lower_slug dash_runs_id strip_dashes_id)
qed (auto simp: requestOpenLiveDoc_def Let_def)

theorem slug_well_formed_witness: "sanitise_slug ''road-map_2'' = ''road-map_2''"
  using slug_well_formed [of "''road-map_2''"] by (simp add: slug_char_def)

end
