(* ===== verification/Signals.thy ===== *)
theory Signals
  imports AppTypes
begin

text \<open>
  Screen-share signalling (\<open>stream/screenShareSignals.ts\<close>): the registry that retains the current
  broadcast announcements per server and replays them to a view that mounts late.  A handler is an
  identifier; calling handlers is returned as the list of calls made.
\<close>

section \<open>Model\<close>

record signal =
  sg_sender :: "int option"
  sg_target :: "int option"
  sg_kind :: int
  sg_payload :: string
  sg_serverId :: "server_id option"

record signal_registry =
  handlers :: "nat jset"
  announcements :: "(server_id option, (int, signal) jmap) jmap"

definition START :: int where
  "START = 0"

definition STOP :: int where
  "STOP = 1"

definition retain :: "signal \<Rightarrow> (server_id option, (int, signal) jmap) jmap \<Rightarrow> (server_id option, (int, signal) jmap) jmap" where
  "retain sg m =
     (case sg_sender sg of
        None \<Rightarrow> m
      | Some sender \<Rightarrow>
          if sg_kind sg = START then
            map_set (sg_serverId sg) (map_set sender sg (or_else (map_get m (sg_serverId sg)) [])) m
          else if sg_kind sg = STOP then
            (case map_get m (sg_serverId sg) of
               None \<Rightarrow> m
             | Some broadcasts \<Rightarrow>
                 (let b = map_del sender broadcasts
                  in if b = [] then map_del (sg_serverId sg) m else map_set (sg_serverId sg) b m))
          else m)"

definition dispatchWebRtcSignal :: "signal \<Rightarrow> signal_registry \<Rightarrow> signal_registry \<times> (nat \<times> signal) list" where
  "dispatchWebRtcSignal sg r =
     (r\<lparr>announcements := retain sg (announcements r)\<rparr>, map (\<lambda>h. (h, sg)) (handlers r))"

definition announcedBroadcasts :: "signal_registry \<Rightarrow> server_id option \<Rightarrow> int list" where
  "announcedBroadcasts r sid = map_keys (or_else (map_get (announcements r) sid) [])"

text \<open>
  \<open>onWebRtcSignal\<close>: the second argument is \<open>None\<close> for \<open>undefined\<close> (replay every server).
\<close>

definition onWebRtcSignal ::
  "nat \<Rightarrow> server_id option option \<Rightarrow> signal_registry \<Rightarrow> signal_registry \<times> (nat \<times> signal) list" where
  "onWebRtcSignal h replayServerId r =
     (r\<lparr>handlers := set_add h (handlers r)\<rparr>,
      concat (map (\<lambda>(sid, broadcasts).
          if replayServerId \<noteq> None \<and> replayServerId \<noteq> Some sid then []
          else map (\<lambda>sg. (h, sg)) (map_values broadcasts)) (announcements r)))"

definition offWebRtcSignal :: "nat \<Rightarrow> signal_registry \<Rightarrow> signal_registry" where
  "offWebRtcSignal h r = r\<lparr>handlers := set_remove h (handlers r)\<rparr>"

definition stop_signal :: "server_id option \<Rightarrow> int \<Rightarrow> signal" where
  "stop_signal sid session =
     \<lparr>sg_sender = Some session, sg_target = None, sg_kind = STOP, sg_payload = '''', sg_serverId = sid\<rparr>"

definition forgetBroadcasts ::
  "server_id option \<Rightarrow> int list \<Rightarrow> signal_registry \<Rightarrow> signal_registry \<times> (nat \<times> signal) list" where
  "forgetBroadcasts sid sessions r =
     foldl (\<lambda>(r, out) session.
       if map_has (or_else (map_get (announcements r) sid) []) session
       then (case dispatchWebRtcSignal (stop_signal sid session) r of (r', calls) \<Rightarrow> (r', out @ calls))
       else (r, out)) (r, []) sessions"

text \<open>The default second argument: every announced broadcast of the server.\<close>

definition forgetAllBroadcasts :: "server_id option \<Rightarrow> signal_registry \<Rightarrow> signal_registry \<times> (nat \<times> signal) list" where
  "forgetAllBroadcasts sid r = forgetBroadcasts sid (announcedBroadcasts r sid) r"

section \<open>Lemmas\<close>

definition announced :: "signal_registry \<Rightarrow> server_id option \<Rightarrow> int \<Rightarrow> signal option" where
  "announced r sid sender = map_get (or_else (map_get (announcements r) sid) []) sender"

definition signals_ok :: "signal_registry \<Rightarrow> bool" where
  "signals_ok r \<longleftrightarrow> map_wf (announcements r) \<and> map_all (\<lambda>b. b \<noteq> [] \<and> map_wf b) (announcements r)"

text \<open>The specification: the latest START of every broadcaster that has not stopped.\<close>

fun signal_spec :: "(server_id option \<Rightarrow> int \<Rightarrow> signal option) \<Rightarrow> signal \<Rightarrow> server_id option \<Rightarrow> int \<Rightarrow> signal option" where
  "signal_spec a sg sid x =
     (if sg_sender sg = Some x \<and> sg_serverId sg = sid then
        (if sg_kind sg = START then Some sg else if sg_kind sg = STOP then None else a sid x)
      else a sid x)"

fun signal_handle :: "signal_registry \<Rightarrow> signal \<Rightarrow> signal_registry" where
  "signal_handle r sg = fst (dispatchWebRtcSignal sg r)"

lemma retain_lookup:
  "map_get (or_else (map_get (retain sg m) sid) []) x =
    (if sg_sender sg = Some x \<and> sg_serverId sg = sid \<and> sg_kind sg = START then Some sg
     else if sg_sender sg = Some x \<and> sg_serverId sg = sid \<and> sg_kind sg = STOP then None
     else map_get (or_else (map_get m sid) []) x)"
proof (cases "sg_sender sg")
  case (Some s)
  show ?thesis
  proof (cases "sg_kind sg = STOP")
    case True
    show ?thesis
    proof (cases "map_get m (sg_serverId sg)")
      case (Some b)
      have "map_get b x = None" if "map_del s b = []" "s \<noteq> x"
        using map_get_del [of s b] that by (metis fun_upd_apply map_get_Nil)
      then show ?thesis using True Some \<open>sg_sender sg = _\<close>
        by (auto simp: retain_def START_def STOP_def Let_def fun_upd_def)
    qed (use True Some in \<open>auto simp: retain_def START_def STOP_def\<close>)
  qed (use Some in \<open>auto simp: retain_def START_def STOP_def\<close>)
qed (simp add: retain_def)

lemma retain_ok:
  assumes "map_wf m" and "map_all (\<lambda>b. b \<noteq> [] \<and> map_wf b) m"
  shows "map_wf (retain sg m) \<and> map_all (\<lambda>b. b \<noteq> [] \<and> map_wf b) (retain sg m)"
proof -
  have "map_wf (or_else (map_get m (sg_serverId sg)) [])"
    using assms(2) by (cases "map_get m (sg_serverId sg)") (auto dest: map_all_get)
  moreover have "map_wf b" if "map_get m (sg_serverId sg) = Some b" for b
    using assms(2) that by (auto dest: map_all_get)
  ultimately show ?thesis
    using assms by (auto simp: retain_def Let_def split: option.split)
qed

interpretation sig: simulation signal_handle signals_ok announced signal_spec
proof
  show "signals_ok (signal_handle r sg)" if "signals_ok r" for r sg
    using that retain_ok by (simp add: signals_ok_def dispatchWebRtcSignal_def)
  show "announced (signal_handle r sg) = signal_spec (announced r) sg" if "signals_ok r" for r sg
    by (intro ext) (auto simp: announced_def dispatchWebRtcSignal_def retain_lookup)
qed

lemma forget_step:
  assumes "signals_ok r"
  shows "announced (fst (forgetBroadcasts sid ss r)) sid' x =
    (if sid' = sid \<and> x \<in> set ss then None else announced r sid' x)"
proof -
  let ?f = "\<lambda>(r, out) session. if map_has (or_else (map_get (announcements r) sid) []) session
       then (case dispatchWebRtcSignal (stop_signal sid session) r of (r', calls) \<Rightarrow> (r', out @ calls))
       else (r, out)"
  have "announced (fst (foldl ?f (r, out) ss)) sid' x =
      (if sid' = sid \<and> x \<in> set ss then None else announced r sid' x)" for r out
  proof (induction ss arbitrary: r out)
    case (Cons s ss)
    have one: "announced (fst (?f (r, out) s)) sid' x = (if sid' = sid \<and> x = s then None else announced r sid' x)"
      by (auto simp: announced_def dispatchWebRtcSignal_def retain_lookup stop_signal_def START_def STOP_def map_has_def)
    obtain r' out' where "?f (r, out) s = (r', out')" by fastforce
    with Cons [of r' out'] one show ?case by auto
  qed simp
  then show ?thesis by (simp add: forgetBroadcasts_def)
qed

section \<open>Properties\<close>

text \<open>
  C13: the registry holds exactly the running broadcasts.  After any sequence of signals, a
  broadcaster is announced on a server exactly when its last START or STOP there was a START,
  with that START's payload; signals of other kinds and of other servers never change it; and
  forgetting a server's broadcasts removes exactly those.
\<close>

theorem announcements_track_broadcasts:
  assumes "signals_ok r"
  shows "announced (foldl signal_handle r sgs) = foldl signal_spec (announced r) sgs
    \<and> signals_ok (foldl signal_handle r sgs)
    \<and> announced (fst (forgetAllBroadcasts sid r)) sid' x = (if sid' = sid then None else announced r sid' x)"
proof -
  have "announced r sid x = None" if "x \<notin> set (announcedBroadcasts r sid)"
    using that by (simp add: announced_def announcedBroadcasts_def map_keys_def map_get_None_iff)
  then show ?thesis
    using sig.run_simulates [OF assms] sig.run_inv [OF assms] forget_step [OF assms, of sid "announcedBroadcasts r sid" sid' x]
    by (auto simp: forgetAllBroadcasts_def)
qed

theorem announcements_track_broadcasts_witness:
  "announced (foldl signal_handle \<lparr>handlers = [], announcements = []\<rparr>
     [\<lparr>sg_sender = Some 4, sg_target = None, sg_kind = 0, sg_payload = ''a'', sg_serverId = None\<rparr>,
      \<lparr>sg_sender = Some 4, sg_target = None, sg_kind = 2, sg_payload = ''sdp'', sg_serverId = None\<rparr>,
      \<lparr>sg_sender = Some 5, sg_target = None, sg_kind = 0, sg_payload = ''b'', sg_serverId = None\<rparr>,
      \<lparr>sg_sender = Some 4, sg_target = None, sg_kind = 1, sg_payload = '''', sg_serverId = None\<rparr>]) None 4 = None"
proof -
  have "signals_ok \<lparr>handlers = [], announcements = []\<rparr>" by (simp add: signals_ok_def)
  note r = announcements_track_broadcasts [OF this, THEN conjunct1]
  show ?thesis unfolding r by (simp add: START_def STOP_def)
qed

text \<open>
  a view that mounts late misses nothing.  Subscribing with a server id replays exactly the
  announcements of that server, each once, and subscribing without one those of every server.
\<close>

theorem late_subscriber_replay:
  assumes "signals_ok r"
  shows "set (snd (onWebRtcSignal h (Some sid) r)) = {(h, sg) | sg x. announced r sid x = Some sg}
    \<and> set (snd (onWebRtcSignal h None r)) = {(h, sg) | sg sid x. announced r sid x = Some sg}
    \<and> length (snd (onWebRtcSignal h (Some sid) r)) = length (announcedBroadcasts r sid)"
proof -
  have wf: "map_wf (announcements r)" and wb: "\<And>k b. map_get (announcements r) k = Some b \<Longrightarrow> map_wf b"
    using assms by (auto simp: signals_ok_def dest: map_all_get)
  have mem: "(k, b) \<in> set (announcements r) \<longleftrightarrow> map_get (announcements r) k = Some b" for k b
    by (simp add: map_get_iff [OF wf])
  have vals: "sg \<in> set (map_values b) \<longleftrightarrow> (\<exists>x. announced r k x = Some sg)" if "map_get (announcements r) k = Some b" for k b sg
    using that by (simp add: announced_def map_values_iff [OF wb [OF that]])
  have ann: "announced r k x = Some sg \<Longrightarrow> \<exists>b. map_get (announcements r) k = Some b" for k x sg
    by (cases "map_get (announcements r) k") (auto simp: announced_def)
  have "length (concat (map (\<lambda>(k, b). if Some sid \<noteq> Some k then [] else map (\<lambda>sg. (h, sg)) (map_values b)) m))
      = length (or_else (map_get m sid) [])" if "map_wf m" for m
    using that
  proof (induction m)
    case (Cons p m)
    obtain k b where p: "p = (k, b)" by fastforce
    have "map_get m sid = None" if "k = sid"
      using Cons.prems that by (simp add: p map_get_None_iff map_wf_def)
    with Cons show ?case by (auto simp: p map_values_def map_wf_def)
  qed simp
  with wf have len: "length (snd (onWebRtcSignal h (Some sid) r)) = length (announcedBroadcasts r sid)"
    by (simp add: onWebRtcSignal_def announcedBroadcasts_def map_keys_def)
  have m: "p \<in> set (snd (onWebRtcSignal h f r)) \<longleftrightarrow>
      (\<exists>k b sg. map_get (announcements r) k = Some b \<and> (f = None \<or> f = Some k) \<and> sg \<in> set (map_values b) \<and> p = (h, sg))"
    for f p
    by (auto simp: onWebRtcSignal_def mem [symmetric] split: if_splits)
  have "p \<in> set (snd (onWebRtcSignal h f r)) \<longleftrightarrow>
      (\<exists>k sg x. (f = None \<or> f = Some k) \<and> announced r k x = Some sg \<and> p = (h, sg))" for f p
  proof -
    have "(\<exists>b. map_get (announcements r) k = Some b \<and> sg \<in> set (map_values b)) \<longleftrightarrow> (\<exists>x. announced r k x = Some sg)" for k sg
      using vals [of k _ sg] ann [of k _ sg] by blast
    then show ?thesis unfolding m by blast
  qed
  then have "set (snd (onWebRtcSignal h (Some sid) r)) = {(h, sg) | sg x. announced r sid x = Some sg}"
    and "set (snd (onWebRtcSignal h None r)) = {(h, sg) | sg sid x. announced r sid x = Some sg}"
    by blast+
  with len show ?thesis by blast
qed

theorem late_subscriber_replay_witness:
  "set (snd (onWebRtcSignal 1 (Some None) \<lparr>handlers = [], announcements =
      [(None, [(4, \<lparr>sg_sender = Some 4, sg_target = None, sg_kind = 0, sg_payload = ''a'', sg_serverId = None\<rparr>)])]\<rparr>))
   = {(1, \<lparr>sg_sender = Some 4, sg_target = None, sg_kind = 0, sg_payload = ''a'', sg_serverId = None\<rparr>)}"
proof -
  let ?r = "\<lparr>handlers = [], announcements =
      [(None, [(4, \<lparr>sg_sender = Some 4, sg_target = None, sg_kind = 0, sg_payload = ''a'', sg_serverId = None\<rparr>)])]\<rparr>
      :: signal_registry"
  have "signals_ok ?r" by (simp add: signals_ok_def map_all_def)
  from late_subscriber_replay [OF this, of 1 None] show ?thesis by (auto simp: announced_def split: if_splits)
qed

end
