(* ===== verification/PluginTrust.thy ===== *)
theory PluginTrust
  imports AppTypes
begin

text \<open>
  Trust in server plugins: \<open>plugins/tier1/trust.ts\<close>, \<open>trustStorage.ts\<close>, \<open>manifest.ts\<close>, \<open>store.ts\<close>
  and \<open>store/plugins.ts\<close>.  A plugin's manifest is honoured only when the user has granted trust to
  it; decisions are stored per server or globally and reconciled with every registry the server
  sends.

  The blob \<open>info_json\<close> of a registry entry is represented by what \<open>JSON.parse\<close> makes of it, and so
  are inbound payloads.  The actions of \<open>store/plugins.ts\<close> are cut at their \<open>await\<close>s: what they
  capture and write to disk, and the commit that runs afterwards on whatever the state is then.
\<close>

section \<open>Manifests\<close>

datatype capability = SlashCommands | Modals | Components | Notifications | SettingsPanelCap | RichLayout

record option_choice =
  oc_label :: string
  oc_value :: string

datatype option_type = OString | OInteger | OBoolean | OUser | OChannel

record command_option =
  co_name :: string
  co_description :: string
  co_type :: option_type
  co_required :: "bool option"
  co_choices :: "option_choice list option"

record slash_command =
  sl_name :: string
  sl_description :: string
  sl_options :: "command_option list option"

record panel_row =
  pr_label :: string
  pr_value :: string

record settings_panel =
  sp_id :: string
  sp_title :: string
  sp_rows :: "panel_row list option"

record client_manifest =
  mf_schema_version :: "int option"
  mf_slash_commands :: "slash_command list option"
  mf_capabilities :: "capability list option"
  mf_settings_panels :: "settings_panel list option"

definition CLIENT_MANIFEST_SCHEMA_VERSION :: int where
  "CLIENT_MANIFEST_SCHEMA_VERSION = 2"

text \<open>What \<open>JSON.parse\<close> makes of the blob; an object may lack a usable \<open>client_manifest\<close>.\<close>

datatype info_json = Unparsable | PlainInfo | ManifestInfo client_manifest

definition parseClientManifest :: "info_json option \<Rightarrow> client_manifest option" where
  "parseClientManifest infoJson =
     (case infoJson of
        Some (ManifestInfo m) \<Rightarrow>
          (let version = or_else (mf_schema_version m) CLIENT_MANIFEST_SCHEMA_VERSION
           in if version > CLIENT_MANIFEST_SCHEMA_VERSION then None else Some m)
      | _ \<Rightarrow> None)"

record registry_entry =
  re_pluginName :: string
  re_version :: string
  re_pluginSlot :: "int option"
  re_infoJson :: "info_json option"

section \<open>Decisions\<close>

datatype trust_decision = Allow | Deny

datatype trust_scope = ScopeOnce | ScopeServer | ScopeGlobal

record trust_record =
  tr_decision :: trust_decision
  tr_version :: string
  tr_capabilities :: "capability list"
  tr_decidedAt :: int
  tr_scope :: "trust_scope option"

datatype trust_status = NoPrompt | Decided trust_record | NeedsPrompt "trust_record option"

definition is_gated :: "capability \<Rightarrow> bool" where
  "is_gated c \<longleftrightarrow> c \<noteq> RichLayout"

definition gated :: "client_manifest \<Rightarrow> capability list" where
  "gated m = filter is_gated (or_else (mf_capabilities m) [])"

definition capabilitiesExpanded :: "capability list \<Rightarrow> capability list \<Rightarrow> bool" where
  "capabilitiesExpanded previous nxt \<longleftrightarrow> list_ex (\<lambda>c. \<not> set_has (set_of_list previous) c) nxt"

definition evaluateTrust :: "client_manifest \<Rightarrow> trust_record option \<Rightarrow> string \<Rightarrow> trust_status" where
  "evaluateTrust manifest previous currentVersion =
     (if gated manifest = [] \<and> or_else (mf_slash_commands manifest) [] = [] then NoPrompt
      else (case previous of
        None \<Rightarrow> NeedsPrompt None
      | Some r \<Rightarrow>
          if tr_version r \<noteq> currentVersion then NeedsPrompt (Some r)
          else if capabilitiesExpanded (tr_capabilities r) (gated manifest) then NeedsPrompt (Some r)
          else Decided r))"

definition recordFromDecision ::
  "int \<Rightarrow> trust_decision \<Rightarrow> string \<Rightarrow> client_manifest \<Rightarrow> trust_scope \<Rightarrow> trust_record" where
  "recordFromDecision now decision version manifest scope =
     \<lparr>tr_decision = decision, tr_version = version, tr_capabilities = gated manifest, tr_decidedAt = now,
      tr_scope = Some scope\<rparr>"

section \<open>Storage\<close>

type_synonym trust_map = "(string, trust_record) jmap"
type_synonym trust_store = "(string, trust_map) jmap"

definition NO_SERVER_KEY :: string where
  "NO_SERVER_KEY = ''<no-server>''"

definition GLOBAL_KEY :: string where
  "GLOBAL_KEY = ''*''"

definition keyFor :: "string option \<Rightarrow> string" where
  "keyFor serverId = or_else serverId NO_SERVER_KEY"

text \<open>\<open>{...a, ...b}\<close>.\<close>

definition spread :: "('k, 'v) jmap \<Rightarrow> ('k, 'v) jmap \<Rightarrow> ('k, 'v) jmap" where
  "spread a b = foldl (\<lambda>m p. map_set (fst p) (snd p) m) a b"

definition loadServerTrust :: "trust_store \<Rightarrow> string option \<Rightarrow> trust_map" where
  "loadServerTrust store serverId =
     spread (or_else (map_get store GLOBAL_KEY) []) (or_else (map_get store (keyFor serverId)) [])"

definition writeRecords :: "string \<Rightarrow> (string \<times> trust_record) list \<Rightarrow> trust_store \<Rightarrow> trust_store" where
  "writeRecords bucketKey records store =
     (if records = [] then store
      else map_set bucketKey (spread (or_else (map_get store bucketKey) []) records) store)"

definition saveTrustRecords :: "string option \<Rightarrow> (string \<times> trust_record) list \<Rightarrow> trust_store \<Rightarrow> trust_store" where
  "saveTrustRecords serverId records store = writeRecords (keyFor serverId) records store"

definition saveGlobalTrustRecords :: "(string \<times> trust_record) list \<Rightarrow> trust_store \<Rightarrow> trust_store" where
  "saveGlobalTrustRecords records store = writeRecords GLOBAL_KEY records store"

definition drop_record :: "string \<Rightarrow> string \<Rightarrow> trust_store \<Rightarrow> trust_store" where
  "drop_record bucketKey pluginName store =
     (case map_get store bucketKey of
        None \<Rightarrow> store
      | Some bucket \<Rightarrow> map_set bucketKey (map_del pluginName bucket) store)"

definition revokeTrustRecord :: "string option \<Rightarrow> string \<Rightarrow> trust_store \<Rightarrow> trust_store" where
  "revokeTrustRecord serverId pluginName store =
     drop_record GLOBAL_KEY pluginName (drop_record (keyFor serverId) pluginName store)"

section \<open>The slice\<close>

record trust_prompt =
  tp_serverId :: "string option"
  tp_pluginName :: string
  tp_version :: string
  tp_manifest :: client_manifest
  tp_registryEntry :: registry_entry
  tp_previous :: "trust_record option"

text \<open>
  A component of an action row: its \<open>type\<close>, its other fields (opaque), and what it nests.
\<close>

datatype plugin_component =
    Leaf string string
  | Container string "plugin_component list"
  | Section string "plugin_component list" plugin_component
  | Label string plugin_component

type_synonym action_row = "plugin_component list"

record plugin_card =
  pk_id :: string
  pk_pluginName :: string
  pk_messageId :: string
  pk_content :: string
  pk_components :: "action_row list"
  pk_ephemeral :: bool
  pk_channelId :: "int option"

record plugin_modal =
  mo_id :: string
  mo_pluginName :: string
  mo_customId :: string
  mo_title :: string
  mo_content :: string
  mo_components :: "action_row list"
  mo_ephemeral :: bool
  mo_channelId :: "int option"

datatype toast_level = LInfo | LSuccess | LWarning | LError

record plugin_toast =
  pt_id :: string
  pt_pluginName :: string
  pt_message :: string
  pt_level :: toast_level

record plugin_panel =
  pp_pluginName :: string
  pp_panelId :: string
  pp_title :: string
  pp_rows :: "panel_row list"

record tier1_slice =
  pluginRegistry :: "registry_entry list"
  pluginManifests :: "(string, client_manifest) jmap"
  pluginTrust :: "(string, trust_record) jmap"
  pluginTrustQueue :: "trust_prompt list"
  pluginPanels :: "(string, plugin_panel) jmap"
  pluginCards :: "plugin_card list"
  pluginModal :: "plugin_modal option"
  pluginToasts :: "plugin_toast list"
  pluginSessionTrust :: "string jset"

definition emptyPluginTier1Slice :: tier1_slice where
  "emptyPluginTier1Slice = \<lparr>pluginRegistry = [], pluginManifests = [], pluginTrust = [], pluginTrustQueue = [],
     pluginPanels = [], pluginCards = [], pluginModal = None, pluginToasts = [], pluginSessionTrust = []\<rparr>"

definition panelKey :: "string \<Rightarrow> string \<Rightarrow> string" where
  "panelKey pluginName panelId = pluginName @ '':'' @ panelId"

definition seed_panel :: "string \<Rightarrow> (string, plugin_panel) jmap \<Rightarrow> settings_panel \<Rightarrow> (string, plugin_panel) jmap" where
  "seed_panel pluginName out panel =
     map_set (panelKey pluginName (sp_id panel))
       \<lparr>pp_pluginName = pluginName, pp_panelId = sp_id panel, pp_title = sp_title panel,
        pp_rows = or_else (sp_rows panel) []\<rparr> out"

definition seedPanels ::
  "(string, plugin_panel) jmap \<Rightarrow> string \<Rightarrow> client_manifest \<Rightarrow> (string, plugin_panel) jmap" where
  "seedPanels out pluginName manifest = foldl (seed_panel pluginName) out (or_else (mf_settings_panels manifest) [])"

text \<open>One entry of the registry; the accumulator is (manifests, panels, queue).\<close>

type_synonym registry_acc =
  "(string, client_manifest) jmap \<times> (string, plugin_panel) jmap \<times> trust_prompt list"

definition apply_entry ::
  "string option \<Rightarrow> trust_map \<Rightarrow> registry_acc \<Rightarrow> registry_entry \<Rightarrow> registry_acc" where
  "apply_entry serverId storedTrust acc entry =
     (case acc of (manifests, panels, queue) \<Rightarrow>
       (case parseClientManifest (re_infoJson entry) of
          None \<Rightarrow> acc
        | Some manifest \<Rightarrow>
            (let granted = (map_set (re_pluginName entry) manifest manifests,
                            seedPanels panels (re_pluginName entry) manifest, queue) in
             case evaluateTrust manifest (map_get storedTrust (re_pluginName entry)) (re_version entry) of
               NoPrompt \<Rightarrow> granted
             | Decided r \<Rightarrow> if tr_decision r = Allow then granted else acc
             | NeedsPrompt previous \<Rightarrow>
                 (manifests, panels, queue @ [\<lparr>tp_serverId = serverId, tp_pluginName = re_pluginName entry,
                    tp_version = re_version entry, tp_manifest = manifest, tp_registryEntry = entry,
                    tp_previous = previous\<rparr>]))))"

definition applyRegistryWithTrust ::
  "string option \<Rightarrow> registry_entry list \<Rightarrow> trust_map \<Rightarrow> registry_acc" where
  "applyRegistryWithTrust serverId entries storedTrust = foldl (apply_entry serverId storedTrust) ([], [], []) entries"

definition drop_panels :: "string \<Rightarrow> (string, plugin_panel) jmap \<Rightarrow> (string, plugin_panel) jmap" where
  "drop_panels pluginName panels =
     foldl (\<lambda>m k. if starts_with k (pluginName @ '':'') then map_del k m else m) panels (map_keys panels)"

definition applyTrustDecision ::
  "string \<Rightarrow> trust_record \<Rightarrow> client_manifest \<Rightarrow> tier1_slice \<Rightarrow> tier1_slice" where
  "applyTrustDecision pluginName rec manifest s =
     (let s1 = s\<lparr>pluginTrust := map_set pluginName rec (pluginTrust s),
                 pluginTrustQueue := filter (\<lambda>p. tp_pluginName p \<noteq> pluginName) (pluginTrustQueue s)\<rparr>
      in if tr_decision rec = Allow
         then s1\<lparr>pluginManifests := map_set pluginName manifest (pluginManifests s),
                 pluginPanels := seedPanels (pluginPanels s) pluginName manifest\<rparr>
         else s1\<lparr>pluginManifests := map_del pluginName (pluginManifests s),
                 pluginPanels := drop_panels pluginName (pluginPanels s)\<rparr>)"

definition applyTrustRevocation :: "string \<Rightarrow> tier1_slice \<Rightarrow> tier1_slice" where
  "applyTrustRevocation pluginName s =
     s\<lparr>pluginTrust := map_del pluginName (pluginTrust s),
       pluginManifests := map_del pluginName (pluginManifests s),
       pluginPanels := drop_panels pluginName (pluginPanels s)\<rparr>"

section \<open>Inbound responses\<close>

fun normaliseComponentDeep :: "plugin_component \<Rightarrow> plugin_component" where
  "normaliseComponentDeep (Leaf ty flds) =
     Leaf (if ty = ''select-menu'' then ''string-select'' else ty) flds"
| "normaliseComponentDeep (Container flds cs) = Container flds (map normaliseComponentDeep cs)"
| "normaliseComponentDeep (Section flds cs acc) =
     Section flds (map normaliseComponentDeep cs) (normaliseComponentDeep acc)"
| "normaliseComponentDeep (Label flds c) = Label flds (normaliseComponentDeep c)"

definition normaliseActionRow :: "action_row \<Rightarrow> action_row" where
  "normaliseActionRow row = map normaliseComponentDeep row"

text \<open>A field of a response that may be missing, \<open>null\<close> or given.\<close>

datatype 'a field = Missing | Null | Given 'a

datatype response =
    ShowModal string "string option" "string option" "action_row list option" "bool option"
  | ChatMessage string "int list option" "string option" "action_row list option" "bool option"
  | UpdateMessage string "string option" "action_row list field"
  | UpdatePanel string "panel_row list"
  | Toast string "toast_level option"

datatype response_kind = KShowModal | KChatMessage | KUpdateMessage | KUpdatePanel | KToast

fun kind_of :: "response \<Rightarrow> response_kind" where
  "kind_of (ShowModal cid ttl txt rows eph) = KShowModal"
| "kind_of (ChatMessage mid chs txt rows eph) = KChatMessage"
| "kind_of (UpdateMessage mid txt rows) = KUpdateMessage"
| "kind_of (UpdatePanel pid rows) = KUpdatePanel"
| "kind_of (Toast msg lvl) = KToast"

fun normaliseInboundResponse :: "response \<Rightarrow> response" where
  "normaliseInboundResponse (ShowModal cid ttl txt rows eph) =
     ShowModal cid ttl txt (Some (map normaliseActionRow (or_else rows []))) eph"
| "normaliseInboundResponse (ChatMessage mid chs txt rows eph) =
     ChatMessage mid chs txt (Some (map normaliseActionRow (or_else rows []))) eph"
| "normaliseInboundResponse (UpdateMessage mid txt rows) =
     UpdateMessage mid txt (case rows of Given rs \<Rightarrow> Given (map normaliseActionRow rs) | r \<Rightarrow> r)"
| "normaliseInboundResponse (UpdatePanel pid rows) = UpdatePanel pid rows"
| "normaliseInboundResponse (Toast msg lvl) = Toast msg lvl"

fun acceptedCapabilitiesFor :: "response_kind \<Rightarrow> capability list" where
  "acceptedCapabilitiesFor KShowModal = [Modals, Components]"
| "acceptedCapabilitiesFor KToast = [Notifications]"
| "acceptedCapabilitiesFor KUpdatePanel = [SettingsPanelCap]"
| "acceptedCapabilitiesFor KChatMessage = [Components]"
| "acceptedCapabilitiesFor KUpdateMessage = [Components]"

definition manifestPermitsResponse :: "client_manifest \<Rightarrow> response_kind \<Rightarrow> bool" where
  "manifestPermitsResponse manifest kind \<longleftrightarrow>
     (let accepted = acceptedCapabilitiesFor kind
      in accepted = [] \<or> list_ex (\<lambda>cap. cap \<in> set (or_else (mf_capabilities manifest) [])) accepted)"

definition applyUpdateMessage ::
  "string \<Rightarrow> string option \<Rightarrow> action_row list field \<Rightarrow> tier1_slice \<Rightarrow> tier1_slice" where
  "applyUpdateMessage mid txt rows s =
     s\<lparr>pluginCards := map (\<lambda>c. if pk_messageId c \<noteq> mid then c
         else c\<lparr>pk_content := or_else txt (pk_content c),
                pk_components := (case rows of Null \<Rightarrow> [] | Missing \<Rightarrow> pk_components c | Given rs \<Rightarrow> rs)\<rparr>)
       (pluginCards s)\<rparr>"

definition applyUpdatePanel :: "string \<Rightarrow> string \<Rightarrow> panel_row list \<Rightarrow> tier1_slice \<Rightarrow> tier1_slice" where
  "applyUpdatePanel pluginName panel_id rows s =
     (let key = panelKey pluginName panel_id in
      case map_get (pluginPanels s) key of
        None \<Rightarrow> s
      | Some existing \<Rightarrow> s\<lparr>pluginPanels := map_set key (existing\<lparr>pp_rows := rows\<rparr>) (pluginPanels s)\<rparr>)"

text \<open>The correlation id is an argument.\<close>

fun applyInteractionResponse ::
  "string \<Rightarrow> string \<Rightarrow> response \<Rightarrow> int option \<Rightarrow> tier1_slice \<Rightarrow> tier1_slice" where
  "applyInteractionResponse cid pluginName (ShowModal custom_id ttl txt rows eph) channelId s =
     s\<lparr>pluginModal := Some \<lparr>mo_id = pluginName @ '':'' @ custom_id @ '':'' @ cid, mo_pluginName = pluginName,
         mo_customId = custom_id, mo_title = or_else ttl '''', mo_content = or_else txt '''',
         mo_components = or_else rows [], mo_ephemeral = or_else eph False, mo_channelId = channelId\<rparr>\<rparr>"
| "applyInteractionResponse cid pluginName (ChatMessage mid chs txt rows eph) channelId s = s"
| "applyInteractionResponse cid pluginName (UpdateMessage mid txt rows) channelId s = applyUpdateMessage mid txt rows s"
| "applyInteractionResponse cid pluginName (UpdatePanel pid rows) channelId s = applyUpdatePanel pluginName pid rows s"
| "applyInteractionResponse cid pluginName (Toast msg lvl) channelId s =
     s\<lparr>pluginToasts := pluginToasts s @ [\<lparr>pt_id = pluginName @ '':'' @ cid, pt_pluginName = pluginName,
         pt_message = msg, pt_level = or_else lvl LInfo\<rparr>]\<rparr>"

definition pluginResponseAllowed :: "tier1_slice \<Rightarrow> string \<Rightarrow> response_kind \<Rightarrow> bool" where
  "pluginResponseAllowed s pluginName kind =
     (case map_get (pluginManifests s) pluginName of
        Some manifest \<Rightarrow> manifestPermitsResponse manifest kind
      | None \<Rightarrow>
          (let hasManifest = (case List.find (\<lambda>e. re_pluginName e = pluginName) (pluginRegistry s) of
                 None \<Rightarrow> False | Some entry \<Rightarrow> parseClientManifest (re_infoJson entry) \<noteq> None)
           in if hasManifest then False else kind \<noteq> KChatMessage))"

text \<open>The commands a response makes the backend run on the chat history.\<close>

datatype plugin_out =
    InjectMessage string "int list" string string "action_row list"
  | UpdateBubble string string "string option" "action_row list option" bool

definition response_effects :: "string \<Rightarrow> response \<Rightarrow> plugin_out list" where
  "response_effects pluginName r =
     (case r of
        ChatMessage mid chs txt rows eph \<Rightarrow>
          [InjectMessage pluginName (or_else chs []) mid (or_else txt '''') (or_else rows [])]
      | UpdateMessage mid txt rows \<Rightarrow>
          [UpdateBubble pluginName mid txt (case rows of Given rs \<Rightarrow> Some rs | _ \<Rightarrow> None) (rows = Null)]
      | _ \<Rightarrow> [])"

text \<open>The part of \<open>dispatchPluginMessage\<close> for a decoded response.\<close>

definition dispatch_response ::
  "string \<Rightarrow> string \<Rightarrow> response \<Rightarrow> int option \<Rightarrow> tier1_slice \<Rightarrow> tier1_slice \<times> plugin_out list" where
  "dispatch_response cid pluginName raw channelId s =
     (let r = normaliseInboundResponse raw in
      if \<not> pluginResponseAllowed s pluginName (kind_of r) then (s, [])
      else (applyInteractionResponse cid pluginName r channelId s, response_effects pluginName r))"

section \<open>Storage keys\<close>

definition stableKeyFromMeta :: "session_meta \<Rightarrow> string" where
  "stableKeyFromMeta meta = to_lower (sm_host meta) @ '':'' @ show_int (sm_port meta) @ '':'' @ sm_username meta"

text \<open>
  The server's session data: from the store, or from the backend's list (\<open>None\<close> when the call
  fails).
\<close>

definition meta_of :: "session_meta list \<Rightarrow> session_meta list option \<Rightarrow> server_id \<Rightarrow> session_meta option" where
  "meta_of sessions listed serverId =
     or_opt (List.find (\<lambda>s. sm_id s = serverId) sessions)
       (List.find (\<lambda>s. sm_id s = serverId) (or_else listed []))"

definition stableServerKey ::
  "server_id option \<Rightarrow> server_id option \<Rightarrow> session_meta list \<Rightarrow> session_meta list option \<Rightarrow> string option" where
  "stableServerKey active backendActive sessions listed =
     (case or_opt active backendActive of
        None \<Rightarrow> None
      | Some serverId \<Rightarrow>
          if serverId = '''' then None
          else (case meta_of sessions listed serverId of
                  None \<Rightarrow> Some serverId | Some meta \<Rightarrow> Some (stableKeyFromMeta meta)))"

definition storedServerKeys ::
  "server_id option \<Rightarrow> server_id option \<Rightarrow> session_meta list \<Rightarrow> session_meta list option
    \<Rightarrow> string option \<times> string option" where
  "storedServerKeys active backendActive sessions listed =
     (case or_opt active backendActive of
        None \<Rightarrow> (None, None)
      | Some serverId \<Rightarrow>
          if serverId = '''' then (None, None)
          else (case meta_of sessions listed serverId of
                  None \<Rightarrow> (Some serverId, None)
                | Some meta \<Rightarrow> (Some (stableKeyFromMeta meta), Some serverId)))"

section \<open>Actions\<close>

text \<open>\<open>reconcilePluginRegistry\<close>: the trust in effect, with what was captured before the loads.\<close>

definition stored_trust :: "trust_store \<Rightarrow> string option \<times> string option \<Rightarrow> trust_map" where
  "stored_trust store keys =
     (case keys of (primary, legacy) \<Rightarrow>
       spread
         (if legacy \<noteq> None \<and> legacy \<noteq> Some '''' \<and> legacy \<noteq> primary then loadServerTrust store legacy else [])
         (if primary \<noteq> None \<and> primary \<noteq> Some '''' then loadServerTrust store primary else []))"

definition overlay_session :: "string jset \<Rightarrow> trust_map \<Rightarrow> trust_map \<Rightarrow> trust_map" where
  "overlay_session sessionTrust trust stored =
     foldl (\<lambda>m name. case map_get trust name of None \<Rightarrow> m | Some r \<Rightarrow> map_set name r m) stored sessionTrust"

definition keep_rows ::
  "(string, plugin_panel) jmap \<Rightarrow> (string, plugin_panel) jmap \<Rightarrow> (string, plugin_panel) jmap" where
  "keep_rows fresh old =
     foldl (\<lambda>m p. if map_has m (fst p) then map_set (fst p) (snd p) m else m) fresh old"

definition reconcile_commit :: "string option \<Rightarrow> registry_entry list \<Rightarrow> trust_map \<Rightarrow> tier1_slice \<Rightarrow> tier1_slice" where
  "reconcile_commit serverId entries effectiveTrust s =
     (case applyRegistryWithTrust serverId entries effectiveTrust of (manifests, panels, queue) \<Rightarrow>
       s\<lparr>pluginRegistry := entries, pluginManifests := manifests, pluginPanels := keep_rows panels (pluginPanels s),
         pluginTrust := effectiveTrust, pluginTrustQueue := queue\<rparr>)"

text \<open>An uninterrupted reconciliation.\<close>

definition reconcilePluginRegistry ::
  "string option \<Rightarrow> string option \<times> string option \<Rightarrow> trust_store \<Rightarrow> registry_entry list \<Rightarrow> tier1_slice \<Rightarrow> tier1_slice"
where
  "reconcilePluginRegistry serverId keys store entries s =
     reconcile_commit serverId entries
       (overlay_session (pluginSessionTrust s) (pluginTrust s) (stored_trust store keys)) s"

definition save_decision ::
  "string option \<Rightarrow> trust_decision \<Rightarrow> trust_scope \<Rightarrow> (string \<times> trust_record) list \<Rightarrow> trust_store \<Rightarrow> trust_store" where
  "save_decision key decision scope named store =
     (if decision = Allow \<and> scope = ScopeGlobal then saveGlobalTrustRecords named store
      else if scope \<noteq> ScopeOnce then saveTrustRecords key named store else store)"

definition decision_record :: "int \<Rightarrow> trust_decision \<Rightarrow> trust_scope \<Rightarrow> trust_prompt \<Rightarrow> trust_record" where
  "decision_record now decision scope p = recordFromDecision now decision (tp_version p) (tp_manifest p) scope"

definition resolve_commit ::
  "int \<Rightarrow> trust_decision \<Rightarrow> trust_scope \<Rightarrow> tier1_slice \<Rightarrow> trust_prompt \<Rightarrow> tier1_slice" where
  "resolve_commit now decision scope s p =
     (let s1 = applyTrustDecision (tp_pluginName p) (decision_record now decision scope p) (tp_manifest p) s
      in s1\<lparr>pluginSessionTrust := (if decision = Allow \<and> scope = ScopeOnce
               then set_add (tp_pluginName p) (pluginSessionTrust s) else pluginSessionTrust s)\<rparr>)"

definition resolvePluginTrust ::
  "int \<Rightarrow> string option \<Rightarrow> string \<Rightarrow> trust_decision \<Rightarrow> trust_scope \<Rightarrow> trust_store \<times> tier1_slice \<Rightarrow> trust_store \<times> tier1_slice"
where
  "resolvePluginTrust now key pluginName decision scope st =
     (case st of (store, s) \<Rightarrow>
       (case List.find (\<lambda>p. tp_pluginName p = pluginName) (pluginTrustQueue s) of
          None \<Rightarrow> st
        | Some pending \<Rightarrow>
            (save_decision key decision scope [(pluginName, decision_record now decision scope pending)] store,
             resolve_commit now decision scope s pending)))"

definition resolvePluginTrustBulk ::
  "int \<Rightarrow> string option \<Rightarrow> string list \<Rightarrow> trust_decision \<Rightarrow> trust_scope \<Rightarrow> trust_store \<times> tier1_slice
    \<Rightarrow> trust_store \<times> tier1_slice"
where
  "resolvePluginTrustBulk now key pluginNames decision scope st =
     (case st of (store, s) \<Rightarrow>
       (let pendings = List.map_filter
              (\<lambda>n. List.find (\<lambda>p. tp_pluginName p = n) (pluginTrustQueue s)) pluginNames
        in if pendings = [] then st
           else (save_decision key decision scope
                   (map (\<lambda>p. (tp_pluginName p, decision_record now decision scope p)) pendings) store,
                 foldl (resolve_commit now decision scope) s pendings)))"

text \<open>The manifest and entry \<open>revokePluginTrust\<close> finds, \<open>None\<close> when it has to fall back.\<close>

definition revoke_target :: "string \<Rightarrow> tier1_slice \<Rightarrow> (registry_entry \<times> client_manifest) option" where
  "revoke_target pluginName s =
     (case List.find (\<lambda>e. re_pluginName e = pluginName) (pluginRegistry s) of
        None \<Rightarrow> None
      | Some entry \<Rightarrow>
          map_option (Pair entry)
            (or_opt (map_get (pluginManifests s) pluginName) (parseClientManifest (re_infoJson entry))))"

definition revoke_commit ::
  "int \<Rightarrow> string \<Rightarrow> (registry_entry \<times> client_manifest) option \<Rightarrow> tier1_slice \<Rightarrow> tier1_slice" where
  "revoke_commit now pluginName target s =
     (case target of
        None \<Rightarrow> applyTrustRevocation pluginName s
      | Some (entry, manifest) \<Rightarrow>
          (applyTrustDecision pluginName (recordFromDecision now Deny (re_version entry) manifest ScopeServer) manifest s)
            \<lparr>pluginSessionTrust := set_remove pluginName (pluginSessionTrust s)\<rparr>)"

definition revokePluginTrust ::
  "int \<Rightarrow> string option \<Rightarrow> string \<Rightarrow> trust_store \<times> tier1_slice \<Rightarrow> trust_store \<times> tier1_slice" where
  "revokePluginTrust now key pluginName st =
     (case st of (store, s) \<Rightarrow>
       (let target = revoke_target pluginName s; store1 = revokeTrustRecord key pluginName store in
        (case target of
           None \<Rightarrow> store1
         | Some (entry, manifest) \<Rightarrow>
             saveTrustRecords key [(pluginName, recordFromDecision now Deny (re_version entry) manifest ScopeServer)] store1,
         revoke_commit now pluginName target s)))"

definition reset_commit ::
  "string option \<Rightarrow> string \<Rightarrow> (registry_entry \<times> client_manifest) option \<Rightarrow> tier1_slice \<Rightarrow> tier1_slice" where
  "reset_commit active pluginName found s =
     (let nxt = applyTrustRevocation pluginName s in
      nxt\<lparr>pluginTrustQueue := (case found of
            None \<Rightarrow> pluginTrustQueue nxt
          | Some (entry, manifest) \<Rightarrow>
              pluginTrustQueue nxt @ [\<lparr>tp_serverId = active, tp_pluginName = pluginName, tp_version = re_version entry,
                 tp_manifest = manifest, tp_registryEntry = entry, tp_previous = map_get (pluginTrust s) pluginName\<rparr>]),
          pluginSessionTrust := set_remove pluginName (pluginSessionTrust s)\<rparr>)"

definition registry_manifest :: "string \<Rightarrow> tier1_slice \<Rightarrow> (registry_entry \<times> client_manifest) option" where
  "registry_manifest pluginName s =
     (case List.find (\<lambda>e. re_pluginName e = pluginName) (pluginRegistry s) of
        None \<Rightarrow> None
      | Some entry \<Rightarrow> map_option (Pair entry) (parseClientManifest (re_infoJson entry)))"

definition resetPluginTrust ::
  "string option \<Rightarrow> string option \<Rightarrow> string \<Rightarrow> trust_store \<times> tier1_slice \<Rightarrow> trust_store \<times> tier1_slice" where
  "resetPluginTrust active key pluginName st =
     (case st of (store, s) \<Rightarrow>
       (revokeTrustRecord key pluginName store, reset_commit active pluginName (registry_manifest pluginName s) s))"

definition allow_commit ::
  "int \<Rightarrow> string \<Rightarrow> registry_entry \<Rightarrow> client_manifest \<Rightarrow> trust_scope \<Rightarrow> tier1_slice \<Rightarrow> tier1_slice" where
  "allow_commit now pluginName entry manifest scope s =
     (applyTrustDecision pluginName (recordFromDecision now Allow (re_version entry) manifest scope) manifest s)
       \<lparr>pluginSessionTrust := (if scope = ScopeOnce then set_add pluginName (pluginSessionTrust s)
                               else pluginSessionTrust s)\<rparr>"

definition allowPlugin ::
  "int \<Rightarrow> string option \<Rightarrow> string \<Rightarrow> trust_scope \<Rightarrow> trust_store \<times> tier1_slice \<Rightarrow> trust_store \<times> tier1_slice" where
  "allowPlugin now key pluginName scope st =
     (case st of (store, s) \<Rightarrow>
       (case registry_manifest pluginName s of
          None \<Rightarrow> st
        | Some (entry, manifest) \<Rightarrow>
            (save_decision key Allow scope
               [(pluginName, recordFromDecision now Allow (re_version entry) manifest scope)] store,
             allow_commit now pluginName entry manifest scope s)))"

definition dismissPluginCard :: "string \<Rightarrow> tier1_slice \<Rightarrow> tier1_slice" where
  "dismissPluginCard messageId s = s\<lparr>pluginCards := filter (\<lambda>c. pk_messageId c \<noteq> messageId) (pluginCards s)\<rparr>"

definition dismissPluginModal :: "tier1_slice \<Rightarrow> tier1_slice" where
  "dismissPluginModal s = s\<lparr>pluginModal := None\<rparr>"

definition dismissPluginToast :: "string \<Rightarrow> tier1_slice \<Rightarrow> tier1_slice" where
  "dismissPluginToast i s = s\<lparr>pluginToasts := filter (\<lambda>t. pt_id t \<noteq> i) (pluginToasts s)\<rparr>"

section \<open>Runs\<close>

text \<open>
  Commits in any order, each with whatever its action captured earlier, responses of plugins, and
  the reset on disconnect.
\<close>

datatype plugin_event =
    PReconcile "string option" "registry_entry list" trust_map
  | PResolve int trust_decision trust_scope "trust_prompt list"
  | PRevoke int string "(registry_entry \<times> client_manifest) option"
  | PReset "string option" string "(registry_entry \<times> client_manifest) option"
  | PAllow int string registry_entry client_manifest trust_scope
  | PDismissCard string
  | PDismissModal
  | PDismissToast string
  | PResponse string string response "int option"
  | PClear

fun plugin_step :: "tier1_slice \<Rightarrow> plugin_event \<Rightarrow> tier1_slice" where
  "plugin_step s (PReconcile serverId entries eff) = reconcile_commit serverId entries eff s"
| "plugin_step s (PResolve now decision scope ps) = foldl (resolve_commit now decision scope) s ps"
| "plugin_step s (PRevoke now name target) = revoke_commit now name target s"
| "plugin_step s (PReset active name found) = reset_commit active name found s"
| "plugin_step s (PAllow now name entry manifest scope) = allow_commit now name entry manifest scope s"
| "plugin_step s (PDismissCard mid) = dismissPluginCard mid s"
| "plugin_step s PDismissModal = dismissPluginModal s"
| "plugin_step s (PDismissToast i) = dismissPluginToast i s"
| "plugin_step s (PResponse cid name raw ch) = fst (dispatch_response cid name raw ch s)"
| "plugin_step s PClear = emptyPluginTier1Slice"

end
