(* ===== verification/AppState.thy ===== *)
theory AppState
  imports ChatLoop PchatStore LiveDocStore Signals Watch Reactions ReadReceipts PluginTrust
begin

text \<open>
  The state of \<open>store.ts\<close> as one record of slices, its initial value \<open>INITIAL\<close> and the reset every
  disconnect path performs.  Slices that have a theory of their own come from there; here are the
  connection slice, the server tabs (kept outside \<open>INITIAL\<close> so that they survive the disconnect of
  a single session), the directory of channels and users, voice and sharing, plugin state, and
  the module variables of the connection logic.
\<close>

section \<open>Connection\<close>

record conn_target =
  ct_host :: string
  ct_port :: int
  ct_username :: string
  ct_certLabel :: "string option"

record conn_slice =
  status :: connection_status
  error :: "string option"
  passwordRequired :: bool
  passwordAttempted :: bool
  pendingConnect :: "conn_target option"
  connectedCertLabel :: "string option"
  bootstrapStage :: "string option"
  reconnectAttempts :: nat
  connectionLostAt :: "int option"
  reconnectScheduled :: bool
  nextReconnectAt :: "int option"

definition conn_initial :: conn_slice where
  "conn_initial = \<lparr>status = Disconnected, error = None, passwordRequired = False, passwordAttempted = False,
     pendingConnect = None, connectedCertLabel = None, bootstrapStage = None, reconnectAttempts = 0,
     connectionLostAt = None, reconnectScheduled = False, nextReconnectAt = None\<rparr>"

section \<open>Server tabs\<close>

record tabs_slice =
  sessions :: "session_meta list"
  activeServerId :: "server_id option"
  sessionUnreadTotals :: "(string, int) jmap"
  sessionErrors :: "(string, string option) jmap"

section \<open>Directory\<close>

record server_config =
  sc_max_message_length :: int
  sc_max_image_message_length :: int
  sc_allow_html :: bool
  sc_webrtc_sfu_available :: bool
  sc_webrtc_p2p_relay_available :: bool
  sc_fancy_rest_api_url :: "string option"

record log_entry =
  le_timestamp_ms :: int
  le_message :: string

record dir_slice =
  channels :: "channel_entry list"
  users :: "user_entry list"
  ownSession :: "int option"
  serverConfig :: server_config
  serverFancyVersion :: "int option"
  serverHostAbiVersion :: "int option"
  mutedPushChannels :: "int jset"
  pushSubscribedChannels :: "int jset"
  userVolumes :: "(string, int) jmap"
  serverLog :: "log_entry list"

definition dir_initial :: dir_slice where
  "dir_initial = \<lparr>channels = [], users = [], ownSession = None,
     serverConfig = \<lparr>sc_max_message_length = 5000, sc_max_image_message_length = 131072, sc_allow_html = True,
       sc_webrtc_sfu_available = False, sc_webrtc_p2p_relay_available = False, sc_fancy_rest_api_url = None\<rparr>,
     serverFancyVersion = None, serverHostAbiVersion = None, mutedPushChannels = [],
     pushSubscribedChannels = [], userVolumes = [], serverLog = []\<rparr>"

section \<open>Voice and sharing\<close>

record voice_slice =
  voiceState :: voice_state
  udpActive :: bool
  inCall :: bool
  talkingSessions :: "int jset"
  isSharingOwn :: bool
  broadcastingOwnSession :: "int option"
  webrtcConnecting :: bool
  webrtcError :: "string option"
  desktopDrawingOverlayOpen :: bool
  drawingActiveChannels :: "int jset"
  broadcastingSessions :: "int jset"
  poppedOutStreamSessions :: "int jset"
  watchingSession :: "int option"
  watchingOwnSession :: "int option"

definition voice_initial :: voice_slice where
  "voice_initial = \<lparr>voiceState = Inactive, udpActive = False, inCall = False, talkingSessions = [],
     isSharingOwn = False, broadcastingOwnSession = None, webrtcConnecting = False, webrtcError = None,
     desktopDrawingOverlayOpen = False, drawingActiveChannels = [], broadcastingSessions = [],
     poppedOutStreamSessions = [], watchingSession = None, watchingOwnSession = None\<rparr>"

section \<open>Plugins and file server\<close>

record file_server_config =
  fs_baseUrl :: string
  fs_internalBaseUrl :: string
  fs_sessionId :: int
  fs_uploadToken :: string
  fs_sessionJwt :: string
  fs_maxFileSizeBytes :: int
  fs_deleteOnTtl :: bool
  fs_ttlSeconds :: int
  fs_maxTtlSeconds :: int
  fs_deleteOnDownload :: bool
  fs_deleteOnDisconnect :: bool
  fs_canManageEmotes :: bool
  fs_canShareFiles :: bool
  fs_canShareFilesPublic :: bool
  fs_registered :: bool

record custom_emote =
  em_shortcode :: string
  em_aliasEmoji :: string
  em_description :: "string option"
  em_imageDataUrl :: string

record plugin_slice =
  fileServerConfig :: "file_server_config option"
  fileServerCapabilities :: "string option"                 \<comment> \<open>opaque\<close>
  liveDocPluginConfig :: "(string \<times> string) option"       \<comment> \<open>version and socket base URL\<close>
  customServerEmotes :: "custom_emote list"
  pluginInfos :: "(string, string) jmap"                    \<comment> \<open>records are opaque\<close>
  pluginDisabledNotice :: "string option"
  fileServerAdminOpen :: bool

definition plugin_initial :: plugin_slice where
  "plugin_initial = \<lparr>fileServerConfig = None, fileServerCapabilities = None, liveDocPluginConfig = None,
     customServerEmotes = [], pluginInfos = [], pluginDisabledNotice = None, fileServerAdminOpen = False\<rparr>"

section \<open>Module variables\<close>

record conn_module =
  autoReconnectEnabled :: bool
  autoReconnectTimer :: "conn_target option"                \<comment> \<open>the target of the timer that is set\<close>
  manualDisconnectRequested :: bool
  intentionallyClosingSessions :: "server_id jset"
  isRestoringVoice :: bool
  volumeAppliedSessions :: "int jset"

section \<open>The whole state\<close>

record app_state =
  a_conn :: conn_slice
  a_tabs :: tabs_slice
  a_dir :: dir_slice
  a_chat :: chat_slice
  a_pchat :: pchat_slice
  a_docs :: live_doc_slice
  a_voice :: voice_slice
  a_plugins :: plugin_slice
  a_tier1 :: tier1_slice
  a_polls :: "poll_registry \<times> poll_slice"
  a_watch :: watch_slice
  a_reactions :: "reaction_store \<times> int"
  a_receipts :: "read_map \<times> int"
  a_signals :: signal_registry
  a_module :: conn_module

text \<open>
  \<open>set({...INITIAL})\<close>: every slice of \<open>INITIAL\<close>, not the tabs and not the module-level registries
  of polls, reactions, receipts and signals (their version counters are part of \<open>INITIAL\<close>).
\<close>

definition set_initial :: "app_state \<Rightarrow> app_state" where
  "set_initial a = a\<lparr>
     a_conn := conn_initial,
     a_dir := dir_initial,
     a_chat := chat_reset (a_chat a),
     a_pchat := pchat_initial,
     a_docs := live_doc_reset (a_docs a),
     a_voice := voice_initial,
     a_plugins := plugin_initial,
     a_tier1 := emptyPluginTier1Slice,
     a_polls := (fst (a_polls a), \<lparr>polls = [], pollMessages = []\<rparr>),
     a_watch := \<lparr>watchSessions = [], watchSessionsVersion = 0\<rparr>,
     a_reactions := (fst (a_reactions a), 0),
     a_receipts := (fst (a_receipts a), 0)\<rparr>"

end
