(* ===== verification/Sessions.thy ===== *)
theory Sessions
  imports AppState
begin

text \<open>
  The server tabs of \<open>store.ts\<close>: \<open>refreshSessions\<close>, \<open>refreshState\<close>, \<open>switchServer\<close> and the listeners
  of unread counts.  Asynchronous actions are cut at their \<open>await\<close>s as in \<open>ChatStore\<close>: the pieces
  named \<open>..._done\<close> run when a reply has arrived; \<open>switchServer\<close> composes its pieces from the replies
  of one uninterrupted execution (\<open>None\<close> for a rejected call).
\<close>

section \<open>The session list\<close>

text \<open>\<open>k.split(":")[0]\<close>.\<close>

definition baseId :: "string \<Rightarrow> string" where
  "baseId k = takeWhile (\<lambda>c. c \<noteq> CHR '':'') k"

definition find_session :: "session_meta list \<Rightarrow> server_id \<Rightarrow> session_meta option" where
  "find_session ss i = List.find (\<lambda>s. sm_id s = i) ss"

definition active_meta :: "session_meta list \<Rightarrow> server_id option \<Rightarrow> session_meta option" where
  "active_meta ss active =
     (case active of None \<Rightarrow> None | Some i \<Rightarrow> if i = '''' then None else find_session ss i)"

text \<open>\<open>errors[k] ?? d\<close>: a missing entry and a stored null both give the default.\<close>

definition error_or :: "(string, string option) jmap \<Rightarrow> string \<Rightarrow> string option \<Rightarrow> string option" where
  "error_or errs k d = (case map_get errs k of Some (Some e) \<Rightarrow> Some e | _ \<Rightarrow> d)"

definition refreshSessions_done ::
  "session_meta list \<Rightarrow> server_id option \<Rightarrow> app_state \<Rightarrow> app_state" where
  "refreshSessions_done ss active a =
     (let ids = set_of_list (map sm_id ss);
          t = a_tabs a; c = a_conn a;
          nxt = filter (\<lambda>p. set_has ids (baseId (fst p))) (sessionUnreadTotals t);
          nextErrors = filter (\<lambda>p. set_has ids (fst p)) (sessionErrors t);
          meta = active_meta ss active;
          st = (case meta of None \<Rightarrow> status c | Some m \<Rightarrow> sm_status m);
          err = (if map_option sm_status meta = Some Connected then None
                 else error_or nextErrors (or_else active '''') (error c))
      in a\<lparr>a_tabs := \<lparr>sessions = ss, activeServerId = active, sessionUnreadTotals = nxt, sessionErrors = nextErrors\<rparr>,
           a_conn := c\<lparr>status := st, error := err\<rparr>\<rparr>)"

text \<open>\<open>refreshSessions\<close> with its reply; a rejected call is only logged.\<close>

definition refreshSessions ::
  "(session_meta list \<times> server_id option) option \<Rightarrow> app_state \<Rightarrow> app_state" where
  "refreshSessions reply a = (case reply of None \<Rightarrow> a | Some (ss, active) \<Rightarrow> refreshSessions_done ss active a)"

section \<open>Channels and users\<close>

definition refreshState_done ::
  "server_id option \<Rightarrow> user_entry list \<Rightarrow> channel_entry list \<Rightarrow> user_entry list \<Rightarrow> int list \<Rightarrow> app_state \<Rightarrow> app_state"
where
  "refreshState_done previousServerId previousUsers chs us pushSubscribed a =
     (let d = a_dir a;
          a1 = a\<lparr>a_dir := d\<lparr>channels := chs, users := us, pushSubscribedChannels := set_of_list pushSubscribed\<rparr>,
                 a_pchat := derive_persistence chs (a_pchat a)\<rparr>;
          currentSessions = set_of_list (map us_session us);
          gone = filter (\<lambda>s. \<not> set_has currentSessions s) (map us_session previousUsers);
          a2 = (if activeServerId (a_tabs a1) = previousServerId
                then a1\<lparr>a_signals := fst (forgetBroadcasts previousServerId gone (a_signals a1))\<rparr> else a1);
          b = broadcastingSessions (a_voice a2);
          pruned = filter (set_has currentSessions) b
      in if b \<noteq> [] \<and> length pruned \<noteq> length b
         then a2\<lparr>a_voice := (a_voice a2)\<lparr>broadcastingSessions := pruned\<rparr>\<rparr> else a2)"

definition refreshState ::
  "(channel_entry list \<times> user_entry list \<times> int list) option \<Rightarrow> app_state \<Rightarrow> app_state" where
  "refreshState reply a =
     (case reply of
        None \<Rightarrow> a
      | Some (chs, us, push) \<Rightarrow>
          refreshState_done (activeServerId (a_tabs a)) (users (a_dir a)) chs us push a)"

section \<open>Switching tabs\<close>

definition tab_keys :: "server_id \<Rightarrow> string list" where
  "tab_keys sid = [sid, sid @ '':ch'', sid @ '':dm'']"

definition switch_mark :: "server_id \<Rightarrow> app_state \<Rightarrow> app_state" where
  "switch_mark sid a =
     (let t = a_tabs a
      in a\<lparr>a_tabs := t\<lparr>activeServerId := Some sid,
             sessionUnreadTotals := foldl (\<lambda>m k. map_del k m) (sessionUnreadTotals t) (tab_keys sid)\<rparr>\<rparr>)"

definition switch_status :: "server_id \<Rightarrow> app_state \<Rightarrow> app_state" where
  "switch_status sid a =
     (let t = a_tabs a;
          st = (case find_session (sessions t) sid of None \<Rightarrow> Disconnected | Some m \<Rightarrow> sm_status m)
      in a\<lparr>a_conn := (a_conn a)\<lparr>status := st,
             error := (if st = Connected then None else error_or (sessionErrors t) sid None)\<rparr>\<rparr>)"

definition switch_channel :: "int option \<Rightarrow> app_state \<Rightarrow> app_state" where
  "switch_channel cur a =
     (let c = (a_chat a)\<lparr>currentChannel := cur, selectedChannel := cur\<rparr>
      in a\<lparr>a_chat := (if cur = None then c\<lparr>messages := []\<rparr> else c)\<rparr>)"

definition switch_messages :: "chat_message list \<Rightarrow> app_state \<Rightarrow> app_state" where
  "switch_messages ms a = a\<lparr>a_chat := (a_chat a)\<lparr>messages := ms\<rparr>\<rparr>"

record switch_replies =
  sw_sessions :: "(session_meta list \<times> server_id option) option"
  sw_state :: "(channel_entry list \<times> user_entry list \<times> int list) option"
  sw_current :: "int option option"
  sw_messages :: "chat_message list option"
  sw_own :: "int option option"

definition switchServer :: "server_id \<Rightarrow> switch_replies \<Rightarrow> app_state \<Rightarrow> app_state" where
  "switchServer sid r a =
     (let a1 = switch_status sid (refreshSessions (sw_sessions r) (switch_mark sid a));
          a2 = refreshState (sw_state r) a1;
          a3 = (case sw_current r of
                  None \<Rightarrow> a2
                | Some cur \<Rightarrow>
                    (let b = switch_channel cur a2
                     in if cur = None then b
                        else (case sw_messages r of None \<Rightarrow> b | Some ms \<Rightarrow> switch_messages ms b)))
      in case sw_own r of
           None \<Rightarrow> a3
         | Some own \<Rightarrow> a3\<lparr>a_dir := (a_dir a3)\<lparr>ownSession := own\<rparr>\<rparr>)"

section \<open>Unread counts\<close>

datatype unread_kind = ChannelUnread | DmUnread

definition kind_key :: "unread_kind \<Rightarrow> server_id \<Rightarrow> string" where
  "kind_key k sid = (case k of ChannelUnread \<Rightarrow> sid @ '':ch'' | DmUnread \<Rightarrow> sid @ '':dm'')"

definition other_kind :: "unread_kind \<Rightarrow> unread_kind" where
  "other_kind k = (case k of ChannelUnread \<Rightarrow> DmUnread | DmUnread \<Rightarrow> ChannelUnread)"

text \<open>
  The two listeners \<open>unread-changed\<close> and \<open>dm-unread-changed\<close>; the second component is the badge
  update they issue (\<open>None\<close> when they issue none).
\<close>

definition onUnreadChanged ::
  "unread_kind \<Rightarrow> (int, int) jmap \<Rightarrow> server_id option \<Rightarrow> app_state \<Rightarrow> app_state \<times> int option option" where
  "onUnreadChanged kind unreads eventServerId a =
     (let tot = sum_list (map_values unreads); t = a_tabs a
      in if eventServerId \<noteq> None \<and> eventServerId \<noteq> Some '''' \<and> eventServerId \<noteq> activeServerId t
         then (let sid = or_else eventServerId '''';
                   prev = or_else (map_get (sessionUnreadTotals t) (kind_key (other_kind kind) sid)) 0
               in (a\<lparr>a_tabs := t\<lparr>sessionUnreadTotals :=
                       map_set sid (tot + prev) (map_set (kind_key kind sid) tot (sessionUnreadTotals t))\<rparr>\<rparr>, None))
         else (let c = (case kind of
                          ChannelUnread \<Rightarrow> (a_chat a)\<lparr>unreadCounts := unreads\<rparr>
                        | DmUnread \<Rightarrow> (a_chat a)\<lparr>dmUnreadCounts := unreads\<rparr>)
               in (a\<lparr>a_chat := c\<rparr>, Some (updateBadgeCount c))))"

section \<open>Lemmas\<close>

lemma filter_get: "map_get (filter (\<lambda>p. P (fst p)) m) k = (if P k then map_get m k else None)"
  by (induction m) auto

lemmas filter_get_simps =
  filter_get [where P = "\<lambda>k. baseId k \<in> S" for S] filter_get [where P = "\<lambda>k. k \<in> S" for S]

lemma foldl_del_get: "map_get (foldl (\<lambda>m k. map_del k m) m ks) j = (if j \<in> set ks then None else map_get m j)"
  by (induction ks arbitrary: m) auto

lemma baseId_suffix: "CHR '':'' \<notin> set sid \<Longrightarrow> baseId (sid @ CHR '':'' # s) = sid"
  by (induction sid) (auto simp: baseId_def)

lemma baseId_plain: "CHR '':'' \<notin> set sid \<Longrightarrow> baseId sid = sid"
  by (induction sid) (auto simp: baseId_def)

lemma colon_neq: "CHR '':'' \<notin> set sid \<Longrightarrow> sid \<noteq> t @ CHR '':'' # u"
  by auto

lemma kind_key_facts:
  "CHR '':'' \<notin> set s \<Longrightarrow> CHR '':'' \<notin> set t \<Longrightarrow> kind_key k s = kind_key j t \<longleftrightarrow> k = j \<and> s = t"
  "CHR '':'' \<notin> set t \<Longrightarrow> kind_key k s \<noteq> t"
  "CHR '':'' \<notin> set t \<Longrightarrow> t \<noteq> kind_key k s"
  by (cases k; cases j; auto simp: kind_key_def append_eq_append_conv2 Cons_eq_append_conv append_eq_Cons_conv)
    (cases k; auto simp: kind_key_def)+

text \<open>The badge of a tab is the sum of its two parts.\<close>

definition totals_ok :: "tabs_slice \<Rightarrow> bool" where
  "totals_ok t \<longleftrightarrow> (\<forall>sid. CHR '':'' \<notin> set sid \<longrightarrow>
     or_else (map_get (sessionUnreadTotals t) sid) 0
       = or_else (map_get (sessionUnreadTotals t) (kind_key ChannelUnread sid)) 0
         + or_else (map_get (sessionUnreadTotals t) (kind_key DmUnread sid)) 0)"

datatype tab_event =
    TabUnread unread_kind "(int, int) jmap" "server_id option"
  | TabRefresh "session_meta list" "server_id option"
  | TabSwitch server_id

fun tab_handle :: "app_state \<Rightarrow> tab_event \<Rightarrow> app_state" where
  "tab_handle a (TabUnread kind unreads sid) = fst (onUnreadChanged kind unreads sid a)"
| "tab_handle a (TabRefresh ss active) = refreshSessions_done ss active a"
| "tab_handle a (TabSwitch sid) = switch_mark sid a"

text \<open>Server ids are UUIDs: they contain no colon.\<close>

fun plain_ids :: "tab_event \<Rightarrow> bool" where
  "plain_ids (TabUnread kind unreads sid) = (CHR '':'' \<notin> set (or_else sid ''''))"
| "plain_ids (TabRefresh ss active) = list_all (\<lambda>s. CHR '':'' \<notin> set (sm_id s)) ss"
| "plain_ids (TabSwitch sid) = (CHR '':'' \<notin> set sid)"

lemma kind_key_base: "CHR '':'' \<notin> set sid \<Longrightarrow> baseId (kind_key k sid) = sid"
  by (cases k) (simp_all add: kind_key_def baseId_suffix)

lemma unread_totals:
  assumes "CHR '':'' \<notin> set sid" and "totals_ok (a_tabs a)"
    and "Some sid \<noteq> activeServerId (a_tabs a)" and "sid \<noteq> ''''"
  shows "totals_ok (a_tabs (fst (onUnreadChanged kind unreads (Some sid) a)))"
proof -
  have ok: "CHR '':'' \<notin> set x \<Longrightarrow> or_else (map_get (sessionUnreadTotals (a_tabs a)) x) 0
      = or_else (map_get (sessionUnreadTotals (a_tabs a)) (kind_key ChannelUnread x)) 0
        + or_else (map_get (sessionUnreadTotals (a_tabs a)) (kind_key DmUnread x)) 0" for x
    using assms(2) by (simp add: totals_ok_def)
  show ?thesis
    using assms(1,3,4) ok
    by (cases kind) (auto simp: totals_ok_def onUnreadChanged_def Let_def kind_key_facts other_kind_def)
qed

lemma refresh_totals:
  assumes "totals_ok (a_tabs a)"
  shows "totals_ok (a_tabs (refreshSessions_done ss active a))"
  using assms
  by (auto simp: totals_ok_def refreshSessions_done_def Let_def filter_get_simps baseId_plain kind_key_base)

lemma switch_totals:
  assumes "totals_ok (a_tabs a)" and "CHR '':'' \<notin> set sid"
  shows "totals_ok (a_tabs (switch_mark sid a))"
proof -
  have k: "set (tab_keys sid) = {sid, kind_key ChannelUnread sid, kind_key DmUnread sid}"
    by (simp add: tab_keys_def kind_key_def)
  show ?thesis
    using assms by (auto simp: totals_ok_def switch_mark_def Let_def foldl_del_get k kind_key_facts)
qed

lemma tab_handle_totals:
  "plain_ids e \<Longrightarrow> totals_ok (a_tabs a) \<Longrightarrow> totals_ok (a_tabs (tab_handle a e))"
proof (cases e)
  case (TabUnread kind unreads sid)
  assume "plain_ids e" "totals_ok (a_tabs a)"
  show ?thesis
  proof (cases "sid \<noteq> None \<and> sid \<noteq> Some '''' \<and> sid \<noteq> activeServerId (a_tabs a)")
    case True
    then obtain y where "sid = Some y" "y \<noteq> ''''" "Some y \<noteq> activeServerId (a_tabs a)" by auto
    with \<open>plain_ids e\<close> \<open>totals_ok (a_tabs a)\<close> TabUnread show ?thesis
      using unread_totals [of y a kind unreads] by simp
  next
    case False
    with \<open>totals_ok (a_tabs a)\<close> TabUnread show ?thesis by (auto simp: onUnreadChanged_def Let_def)
  qed
qed (auto simp: refresh_totals switch_totals)

section \<open>Properties\<close>

text \<open>
  tab badges add up.  Through any run of unread notifications (of either kind, for any tab),
  session refreshes and tab switches, the total shown for every tab is the sum of its channel
  part and its direct-message part.
\<close>

theorem tab_badges_add_up:
  assumes "totals_ok (a_tabs a)" and "list_all plain_ids es"
  shows "totals_ok (a_tabs (foldl tab_handle a es))"
  by (rule run_keeps [where Q = "\<lambda>e. \<not> plain_ids e"])
    (use assms in \<open>auto simp: tab_handle_totals list_all_iff list_ex_iff\<close>)

text \<open>An empty application state, for the examples.\<close>

definition app_empty :: app_state where
  "app_empty = \<lparr>a_conn = conn_initial,
     a_tabs = \<lparr>sessions = [], activeServerId = None, sessionUnreadTotals = [], sessionErrors = []\<rparr>,
     a_dir = dir_initial, a_chat = chat_initial, a_pchat = pchat_initial,
     a_docs = \<lparr>activeLiveDocs = [], pendingLiveDocAnnounces = [], pendingLiveDocSeeds = [], pendingLiveDocOpens = []\<rparr>,
     a_voice = voice_initial, a_plugins = plugin_initial, a_tier1 = emptyPluginTier1Slice,
     a_polls = (\<lparr>voteStore = [], pollStore = [], localVotes = []\<rparr>, \<lparr>polls = [], pollMessages = []\<rparr>),
     a_watch = \<lparr>watchSessions = [], watchSessionsVersion = 0\<rparr>,
     a_reactions = (\<lparr>reactionMap = [], serverCustomReactions = []\<rparr>, 0), a_receipts = ([], 0),
     a_signals = \<lparr>handlers = [], announcements = []\<rparr>,
     a_module = \<lparr>autoReconnectEnabled = True, autoReconnectTimer = None, manualDisconnectRequested = False,
       intentionallyClosingSessions = [], isRestoringVoice = False, volumeAppliedSessions = []\<rparr>\<rparr>"

theorem tab_badges_add_up_witness:
  "map_get (sessionUnreadTotals (a_tabs (foldl tab_handle app_empty
      [TabUnread ChannelUnread [(1, 2), (3, 4)] (Some ''s''), TabUnread DmUnread [(7, 5)] (Some ''s'')]))) ''s'' = Some 11
   \<and> totals_ok (a_tabs (foldl tab_handle app_empty
      [TabUnread ChannelUnread [(1, 2), (3, 4)] (Some ''s''), TabUnread DmUnread [(7, 5)] (Some ''s'')]))"
proof
  have "totals_ok (a_tabs app_empty)" by (simp add: totals_ok_def app_empty_def)
  then show "totals_ok (a_tabs (foldl tab_handle app_empty
      [TabUnread ChannelUnread [(1, 2), (3, 4)] (Some ''s''), TabUnread DmUnread [(7, 5)] (Some ''s'')]))"
    by (rule tab_badges_add_up) simp
qed (simp add: app_empty_def onUnreadChanged_def map_values_def kind_key_def other_kind_def Let_def)

text \<open>
  a notification for a background tab touches nothing of the foreground: it changes that
  tab's badge total alone, issues no badge update, and leaves every slice of the active session
  (and every other tab's total) as it was.
\<close>

theorem background_unread_isolated:
  assumes "eventServerId = Some sid" and "sid \<noteq> ''''" and "eventServerId \<noteq> activeServerId (a_tabs a)"
    and "CHR '':'' \<notin> set sid" and "CHR '':'' \<notin> set other" and "other \<noteq> sid"
    and "a' = fst (onUnreadChanged kind unreads eventServerId a)"
  shows "a'\<lparr>a_tabs := a_tabs a\<rparr> = a \<and> snd (onUnreadChanged kind unreads eventServerId a) = None
    \<and> sessions (a_tabs a') = sessions (a_tabs a) \<and> activeServerId (a_tabs a') = activeServerId (a_tabs a)
    \<and> sessionErrors (a_tabs a') = sessionErrors (a_tabs a)
    \<and> map_get (sessionUnreadTotals (a_tabs a')) other = map_get (sessionUnreadTotals (a_tabs a)) other
    \<and> map_get (sessionUnreadTotals (a_tabs a')) (kind_key kind sid) = Some (sum_list (map_values unreads))"
  using assms by (auto simp: onUnreadChanged_def Let_def kind_key_facts)

theorem background_unread_isolated_witness:
  "snd (onUnreadChanged ChannelUnread [(1, 2)] (Some ''s'') app_empty) = None
   \<and> a_chat (fst (onUnreadChanged ChannelUnread [(1, 2)] (Some ''s'') app_empty)) = a_chat app_empty"
proof -
  have "Some ''s'' \<noteq> activeServerId (a_tabs app_empty)" by (simp add: app_empty_def)
  note b = background_unread_isolated [OF refl _ this _ _ _ refl, of "''t''" ChannelUnread "[(1, 2)]"]
  have "a_chat (fst (onUnreadChanged ChannelUnread [(1, 2)] (Some ''s'') app_empty))
      = a_chat ((fst (onUnreadChanged ChannelUnread [(1, 2)] (Some ''s'') app_empty))\<lparr>a_tabs := a_tabs app_empty\<rparr>)"
    by simp
  also have "\<dots> = a_chat app_empty" using b by simp
  finally show ?thesis using b by simp
qed

text \<open>
  refreshing the session list.  The tabs become the backend's; stored errors are kept exactly
  for sessions that still exist, and so are the totals of tabs; and the global status is the
  active session's own, with no error shown when it is connected.
\<close>

theorem refresh_sessions_exact:
  assumes "a' = refreshSessions_done ss active a" and "CHR '':'' \<notin> set sid"
  shows "sessions (a_tabs a') = ss \<and> activeServerId (a_tabs a') = active
    \<and> map_get (sessionErrors (a_tabs a')) sid
        = (if sid \<in> sm_id ` set ss then map_get (sessionErrors (a_tabs a)) sid else None)
    \<and> map_get (sessionUnreadTotals (a_tabs a')) sid
        = (if sid \<in> sm_id ` set ss then map_get (sessionUnreadTotals (a_tabs a)) sid else None)
    \<and> (\<forall>m. active = Some (sm_id m) \<and> sm_id m \<noteq> '''' \<and> distinct (map sm_id ss) \<and> m \<in> set ss \<longrightarrow>
        status (a_conn a') = sm_status m \<and> (sm_status m = Connected \<longrightarrow> error (a_conn a') = None))
    \<and> a'\<lparr>a_tabs := a_tabs a, a_conn := a_conn a\<rparr> = a"
proof -
  have f: "find_session ss (sm_id m) = Some m" if "distinct (map sm_id ss)" "m \<in> set ss" for m
    using find_distinct [OF that] by (simp add: find_session_def)
  show ?thesis
    using assms f
    by (auto simp: refreshSessions_done_def Let_def filter_get_simps baseId_plain active_meta_def)
qed

definition example_meta :: "string \<Rightarrow> connection_status \<Rightarrow> session_meta" where
  "example_meta i st = \<lparr>sm_id = i, sm_label = i, sm_host = ''h'', sm_port = 64738, sm_username = ''u'',
     sm_certLabel = None, sm_status = st\<rparr>"

theorem refresh_sessions_exact_witness:
  "status (a_conn (refreshSessions_done [example_meta ''s'' Connected] (Some ''s'') app_empty)) = Connected"
proof -
  let ?m = "example_meta ''s'' Connected"
  have "CHR '':'' \<notin> set ''s''" by simp
  from refresh_sessions_exact [OF refl this, of "[?m]" "Some ''s''" app_empty]
  have "Some ''s'' = Some (sm_id ?m) \<and> sm_id ?m \<noteq> '''' \<and> distinct (map sm_id [?m]) \<and> ?m \<in> set [?m] \<longrightarrow>
      status (a_conn (refreshSessions_done [?m] (Some ''s'') app_empty)) = sm_status ?m"
    by blast
  then show ?thesis by (simp add: example_meta_def)
qed

text \<open>
  switching tabs leaves an open direct conversation selected.  After a switch that lands in a
  channel, the selected channel is the new server's, but the direct conversation of the previous
  server is still selected beside it, which the chat slice otherwise never allows.
\<close>

theorem switch_keeps_dm_selected:
  assumes "selectedDmUser (a_chat a) = Some u" and "sw_current r = Some (Some ch)"
  shows "selectedChannel (a_chat (switchServer sid r a)) = Some ch
    \<and> selectedDmUser (a_chat (switchServer sid r a)) = Some u \<and> \<not> chat_ok (a_chat (switchServer sid r a))"
proof -
  have k: "a_chat (refreshSessions x b) = a_chat b" "a_chat (switch_mark sid b) = a_chat b"
    "a_chat (switch_status sid b) = a_chat b" "a_chat (refreshState y b) = a_chat b" for x y b
    by (auto simp: refreshSessions_def refreshSessions_done_def switch_mark_def switch_status_def refreshState_def
        refreshState_done_def Let_def split: option.split prod.split)
  show ?thesis
    using assms by (cases "sw_own r"; cases "sw_messages r")
      (auto simp: switchServer_def switch_channel_def switch_messages_def Let_def k chat_ok_def one_selected_def)
qed

theorem switch_keeps_dm_selected_witness:
  "\<not> chat_ok (a_chat (switchServer ''s'' \<lparr>sw_sessions = None, sw_state = None, sw_current = Some (Some 1),
      sw_messages = Some [], sw_own = None\<rparr> (app_empty\<lparr>a_chat := chat_initial\<lparr>selectedDmUser := Some 7\<rparr>\<rparr>)))"
  using switch_keeps_dm_selected [of "app_empty\<lparr>a_chat := chat_initial\<lparr>selectedDmUser := Some 7\<rparr>\<rparr>" 7
      "\<lparr>sw_sessions = None, sw_state = None, sw_current = Some (Some 1), sw_messages = Some [], sw_own = None\<rparr>" 1 "''s''"]
  by simp

end
