(* ===== verification/Connection.thy ===== *)
theory Connection
  imports Sessions
begin

text \<open>
  Connecting, disconnecting and reconnecting: \<open>utils/reconnectBackoff.ts\<close> and, of \<open>store.ts\<close>, the
  auto-reconnect timer, \<open>connect\<close>, \<open>disconnect\<close>, \<open>disconnectSession\<close>, the password prompt and the
  listeners of \<open>server-connected\<close> (with the bootstrap after it), \<open>server-disconnected\<close> and
  \<open>connection-rejected\<close>.  The clock is an argument.  The last part is the event loop of the
  connection: user actions, backend events, the timer, and the replies to calls in flight, in any
  order.
\<close>

section \<open>Backoff\<close>

definition RECONNECT_BACKOFF_CAP_MS :: int where
  "RECONNECT_BACKOFF_CAP_MS = 30000"

text \<open>The loop \<open>[a, b] = [b, a + b]\<close>.\<close>

fun fib_loop :: "nat \<Rightarrow> int \<Rightarrow> int \<Rightarrow> int" where
  "fib_loop 0 a b = a"
| "fib_loop (Suc n) a b = fib_loop n b (a + b)"

definition reconnectDelayMs :: "nat \<Rightarrow> int" where
  "reconnectDelayMs attemptIndex = min (fib_loop attemptIndex 2 3 * 1000) RECONNECT_BACKOFF_CAP_MS"

section \<open>The auto-reconnect timer\<close>

definition upd_conn :: "(conn_slice \<Rightarrow> conn_slice) \<Rightarrow> app_state \<Rightarrow> app_state" where
  "upd_conn f a = a\<lparr>a_conn := f (a_conn a)\<rparr>"

definition upd_module :: "(conn_module \<Rightarrow> conn_module) \<Rightarrow> app_state \<Rightarrow> app_state" where
  "upd_module f a = a\<lparr>a_module := f (a_module a)\<rparr>"

definition clearAutoReconnectTimer :: "app_state \<Rightarrow> app_state" where
  "clearAutoReconnectTimer a =
     upd_conn (\<lambda>c. c\<lparr>reconnectScheduled := False, nextReconnectAt := None\<rparr>)
       (upd_module (\<lambda>m. m\<lparr>autoReconnectTimer := None\<rparr>) a)"

definition scheduleAutoReconnect :: "int \<Rightarrow> conn_target \<Rightarrow> app_state \<Rightarrow> app_state" where
  "scheduleAutoReconnect now fallbackTarget a =
     (let a1 = clearAutoReconnectTimer a in
      if \<not> autoReconnectEnabled (a_module a1) \<or> manualDisconnectRequested (a_module a1) then a1
      else (let delay = reconnectDelayMs (reconnectAttempts (a_conn a1))
            in upd_module (\<lambda>m. m\<lparr>autoReconnectTimer := Some fallbackTarget\<rparr>)
                 (upd_conn (\<lambda>c. c\<lparr>reconnectScheduled := True, nextReconnectAt := Some (now + delay)\<rparr>) a1)))"

section \<open>Connecting\<close>

definition connect_start :: "conn_target \<Rightarrow> app_state \<Rightarrow> app_state" where
  "connect_start t a =
     upd_conn (\<lambda>c. c\<lparr>status := Connecting, error := None, passwordRequired := False, pendingConnect := Some t,
         connectedCertLabel := ct_certLabel t, bootstrapStage := Some ''Negotiating with server...''\<rparr>)
       (clearAutoReconnectTimer (upd_module (\<lambda>m. m\<lparr>manualDisconnectRequested := False\<rparr>) a))"

definition connect_failed :: "string \<Rightarrow> app_state \<Rightarrow> app_state" where
  "connect_failed e a =
     upd_conn (\<lambda>c. c\<lparr>status := Disconnected, error := Some e, pendingConnect := None,
       connectedCertLabel := None, bootstrapStage := None\<rparr>) a"

text \<open>The timer fires: the state before \<open>connect\<close> is called, and the target it is called with.\<close>

definition attemptAutoReconnect :: "int \<Rightarrow> conn_target \<Rightarrow> app_state \<Rightarrow> app_state \<times> conn_target option" where
  "attemptAutoReconnect now fallbackTarget a =
     (let a1 = upd_module (\<lambda>m. m\<lparr>autoReconnectTimer := None\<rparr>) a in
      if manualDisconnectRequested (a_module a1) \<or> \<not> autoReconnectEnabled (a_module a1)
      then (upd_conn (\<lambda>c. c\<lparr>reconnectScheduled := False, nextReconnectAt := None\<rparr>) a1, None)
      else if status (a_conn a1) \<noteq> Disconnected \<or> passwordRequired (a_conn a1) then (a1, None)
      else (let target = or_else (pendingConnect (a_conn a1)) fallbackTarget
            in (upd_conn (\<lambda>c. c\<lparr>reconnectAttempts := reconnectAttempts c + 1,
                    connectionLostAt := or_opt (connectionLostAt c) (Some now)\<rparr>) a1, Some target)))"

text \<open>What follows the awaited \<open>connect\<close> of an attempt.\<close>

definition attempt_after :: "int \<Rightarrow> conn_target \<Rightarrow> app_state \<Rightarrow> app_state" where
  "attempt_after now target a =
     (if status (a_conn a) = Disconnected \<and> \<not> passwordRequired (a_conn a)
         \<and> \<not> manualDisconnectRequested (a_module a) \<and> autoReconnectEnabled (a_module a)
      then scheduleAutoReconnect now target a else a)"

definition preferencesChanged :: "bool option \<Rightarrow> app_state \<Rightarrow> app_state" where
  "preferencesChanged autoReconnect a =
     (case autoReconnect of None \<Rightarrow> a | Some b \<Rightarrow> upd_module (\<lambda>m. m\<lparr>autoReconnectEnabled := b\<rparr>) a)"

definition dismissPasswordPrompt :: "app_state \<Rightarrow> app_state" where
  "dismissPasswordPrompt a =
     upd_conn (\<lambda>c. c\<lparr>passwordRequired := False, passwordAttempted := False, pendingConnect := None,
       connectedCertLabel := None\<rparr>) a"

text \<open>\<open>retryWithPassword\<close>: the state before \<open>connect\<close> is called, and its target.\<close>

definition retryWithPassword :: "app_state \<Rightarrow> app_state \<times> conn_target option" where
  "retryWithPassword a =
     (case pendingConnect (a_conn a) of
        None \<Rightarrow> (a, None)
      | Some t \<Rightarrow> (upd_conn (\<lambda>c. c\<lparr>passwordRequired := False, passwordAttempted := True, pendingConnect := None\<rparr>) a, Some t))"

section \<open>Disconnecting\<close>

definition clear_receipts :: "app_state \<Rightarrow> app_state" where
  "clear_receipts a = a\<lparr>a_receipts := (clearReadReceipts (fst (a_receipts a)), snd (a_receipts a))\<rparr>"

definition forget_signals :: "server_id option \<Rightarrow> app_state \<Rightarrow> app_state" where
  "forget_signals sid a = a\<lparr>a_signals := fst (forgetAllBroadcasts sid (a_signals a))\<rparr>"

definition drop_error :: "server_id \<Rightarrow> app_state \<Rightarrow> app_state" where
  "drop_error sid a =
     (if error_or (sessionErrors (a_tabs a)) sid None = None then a
      else a\<lparr>a_tabs := (a_tabs a)\<lparr>sessionErrors := map_del sid (sessionErrors (a_tabs a))\<rparr>\<rparr>)"

definition disconnectSession_start :: "server_id \<Rightarrow> app_state \<Rightarrow> app_state" where
  "disconnectSession_start sid a =
     upd_module (\<lambda>m. m\<lparr>intentionallyClosingSessions := set_add sid (intentionallyClosingSessions m)\<rparr>) a"

definition unmark_closing :: "server_id \<Rightarrow> app_state \<Rightarrow> app_state" where
  "unmark_closing sid a =
     upd_module (\<lambda>m. m\<lparr>intentionallyClosingSessions := set_remove sid (intentionallyClosingSessions m)\<rparr>) a"

text \<open>
  The rest once the backend has closed the session: \<open>wasActive\<close> was read before the call, \<open>r1\<close> is
  the reply to \<open>refreshSessions\<close>, \<open>r2\<close> the replies to the switch to the next tab.
\<close>

definition disconnectSession_done ::
  "server_id \<Rightarrow> bool \<Rightarrow> (session_meta list \<times> server_id option) option \<Rightarrow> switch_replies \<Rightarrow> app_state \<Rightarrow> app_state"
where
  "disconnectSession_done sid wasActive r1 r2 a =
     (let a1 = drop_error sid (forget_signals (Some sid) a);
          a2 = refreshSessions r1 (a1\<lparr>a_docs := forget_server_docs sid (a_docs a1)\<rparr>);
          t = a_tabs a2;
          a3 = (if \<not> wasActive then a2
                else (case activeServerId t of
                  Some nxt \<Rightarrow>
                    if nxt \<noteq> '''' \<and> find_session (sessions t) nxt \<noteq> None then switchServer nxt r2 a2
                    else set_initial (clear_receipts (upd_module (\<lambda>m. m\<lparr>manualDisconnectRequested := True,
                           volumeAppliedSessions := []\<rparr>) a2))
                | None \<Rightarrow>
                    set_initial (clear_receipts (upd_module (\<lambda>m. m\<lparr>manualDisconnectRequested := True,
                           volumeAppliedSessions := []\<rparr>) a2))))
      in unmark_closing sid a3)"

text \<open>\<open>disconnect\<close> without an active session; with one it clears the timer and closes that session.\<close>

definition disconnect_local :: "app_state \<Rightarrow> app_state" where
  "disconnect_local a =
     (let a1 = upd_module (\<lambda>m. m\<lparr>manualDisconnectRequested := True\<rparr>) (clearAutoReconnectTimer a);
          a2 = forget_signals None (a1\<lparr>a_reactions := (resetReactions (fst (a_reactions a1)), snd (a_reactions a1))\<rparr>)
      in set_initial (clear_receipts a2))"

section \<open>Connected\<close>

definition onServerConnected :: "app_state \<Rightarrow> app_state" where
  "onServerConnected a = clearAutoReconnectTimer (upd_module (\<lambda>m. m\<lparr>manualDisconnectRequested := False\<rparr>) a)"

definition serverConnected_loaded ::
  "int jset \<Rightarrow> int jset \<Rightarrow> (string, int) jmap \<Rightarrow> app_state \<Rightarrow> app_state" where
  "serverConnected_loaded silenced mutedPush storedVolumes a =
     (let a1 = upd_module (\<lambda>m. m\<lparr>volumeAppliedSessions := []\<rparr>) a
      in a1\<lparr>a_conn := (a_conn a1)\<lparr>status := Connected, passwordRequired := False,
              bootstrapStage := Some ''Fetching channels and users...'', reconnectAttempts := 0,
              connectionLostAt := None, reconnectScheduled := False, nextReconnectAt := None\<rparr>,
            a_chat := (a_chat a1)\<lparr>silencedChannels := silenced\<rparr>,
            a_dir := (a_dir a1)\<lparr>mutedPushChannels := mutedPush, userVolumes := storedVolumes\<rparr>\<rparr>)"

definition serverConnected_sessions :: "app_state \<Rightarrow> app_state" where
  "serverConnected_sessions a =
     (case activeServerId (a_tabs a) of None \<Rightarrow> a | Some sid \<Rightarrow> if sid = '''' then a else drop_error sid a)"

definition set_stage :: "string option \<Rightarrow> app_state \<Rightarrow> app_state" where
  "set_stage st a = upd_conn (\<lambda>c. c\<lparr>bootstrapStage := st\<rparr>) a"

definition bootstrap_channel :: "int option \<Rightarrow> app_state \<Rightarrow> app_state" where
  "bootstrap_channel cur a =
     set_stage (Some ''Identifying you to the server...'')
       (case cur of None \<Rightarrow> a | Some ch \<Rightarrow> a\<lparr>a_chat := (a_chat a)\<lparr>currentChannel := Some ch\<rparr>\<rparr>)"

definition bootstrap_own :: "int option \<Rightarrow> app_state \<Rightarrow> app_state" where
  "bootstrap_own own a = a\<lparr>a_dir := (a_dir a)\<lparr>ownSession := own\<rparr>\<rparr>"

definition bootstrap_version :: "int option \<Rightarrow> app_state \<Rightarrow> app_state" where
  "bootstrap_version fv a = a\<lparr>a_dir := (a_dir a)\<lparr>serverFancyVersion := fv, serverHostAbiVersion := None\<rparr>\<rparr>"

definition bootstrap_select :: "int option \<Rightarrow> app_state \<Rightarrow> app_state \<times> chat_task list" where
  "bootstrap_select cur a =
     (case (selectedChannel (a_chat a), channels (a_dir a)) of
        (None, ch # chs) \<Rightarrow>
          (case selectChannel (or_else cur (ch_id ch)) (a_chat a) of (c, ts) \<Rightarrow> (a\<lparr>a_chat := c\<rparr>, ts))
      | _ \<Rightarrow> (a, []))"

text \<open>The volume commands sent for users that appeared, and the sessions marked as handled.\<close>

definition apply_volume ::
  "(string, int) jmap \<Rightarrow> int jset \<times> (int \<times> int) list \<Rightarrow> user_entry \<Rightarrow> int jset \<times> (int \<times> int) list" where
  "apply_volume vols acc u =
     (case acc of (applied, out) \<Rightarrow>
       if us_hash u = None \<or> us_hash u = Some '''' \<or> set_has applied (us_session u) then (applied, out)
       else (set_add (us_session u) applied,
             case map_get vols (or_else (us_hash u) '''') of
               None \<Rightarrow> out
             | Some v \<Rightarrow> if v \<noteq> 100 then out @ [(us_session u, v)] else out))"

definition applyStoredVolumesToNewUsers :: "app_state \<Rightarrow> app_state \<times> (int \<times> int) list" where
  "applyStoredVolumesToNewUsers a =
     (case foldl (apply_volume (userVolumes (a_dir a))) (volumeAppliedSessions (a_module a), []) (users (a_dir a)) of
        (applied, out) \<Rightarrow> (upd_module (\<lambda>m. m\<lparr>volumeAppliedSessions := applied\<rparr>) a, out))"

definition setUserVolume :: "string \<Rightarrow> int \<Rightarrow> app_state \<Rightarrow> app_state" where
  "setUserVolume h v a =
     a\<lparr>a_dir := (a_dir a)\<lparr>userVolumes := (if v = 100 then map_del h (userVolumes (a_dir a))
                                          else map_set h v (userVolumes (a_dir a)))\<rparr>\<rparr>"

section \<open>Disconnected\<close>

text \<open>Whether an event tagged with \<open>eventServerId\<close> belongs to the session on screen.\<close>

definition pendingFallbackApplies :: "app_state \<Rightarrow> server_id option \<Rightarrow> bool" where
  "pendingFallbackApplies a eventServerId \<longleftrightarrow>
     pendingConnect (a_conn a) \<noteq> None \<and> activeServerId (a_tabs a) = None
     \<and> (eventServerId = None \<or> eventServerId \<noteq> activeServerId (a_tabs a))"

definition isActiveSession :: "app_state \<Rightarrow> server_id option \<Rightarrow> bool" where
  "isActiveSession a eventServerId \<longleftrightarrow>
     (eventServerId \<noteq> None \<and> eventServerId = activeServerId (a_tabs a)) \<or> pendingFallbackApplies a eventServerId"

definition truthy :: "string option \<Rightarrow> bool" where
  "truthy s \<longleftrightarrow> s \<noteq> None \<and> s \<noteq> Some ''''"

definition remember_error :: "server_id option \<Rightarrow> string option \<Rightarrow> app_state \<Rightarrow> app_state" where
  "remember_error sid reason a =
     (if truthy sid \<and> truthy reason
      then a\<lparr>a_tabs := (a_tabs a)\<lparr>sessionErrors := map_set (or_else sid '''') reason (sessionErrors (a_tabs a))\<rparr>\<rparr>
      else a)"

text \<open>Before the awaited \<open>refreshSessions\<close>: whether the user is closing it, whether it is the active one.\<close>

definition onServerDisconnected :: "server_id option \<Rightarrow> app_state \<Rightarrow> app_state \<times> bool \<times> bool" where
  "onServerDisconnected eventServerId a =
     (let a1 = forget_signals eventServerId a
      in (a1, truthy eventServerId \<and> set_has (intentionallyClosingSessions (a_module a1)) (or_else eventServerId ''''),
          isActiveSession a1 eventServerId))"

definition disconnected_cleanup :: "int \<Rightarrow> string option \<Rightarrow> app_state \<Rightarrow> app_state" where
  "disconnected_cleanup now eventReason a =
     (let a1 = clear_receipts (upd_module (\<lambda>m. m\<lparr>volumeAppliedSessions := []\<rparr>) a);
          c = a_conn a1;
          reason = (if passwordRequired c then error c else or_opt eventReason (error c));
          willReconnect = (\<not> manualDisconnectRequested (a_module a1) \<and> \<not> passwordRequired c
             \<and> pendingConnect c \<noteq> None \<and> autoReconnectEnabled (a_module a1));
          a2 = upd_conn (\<lambda>i. i\<lparr>error := reason, passwordRequired := passwordRequired c, pendingConnect := pendingConnect c,
                   connectionLostAt := (if willReconnect then or_opt (connectionLostAt c) (Some now) else None),
                   reconnectAttempts := (if willReconnect then reconnectAttempts c else 0)\<rparr>) (set_initial a1)
      in case pendingConnect c of
           Some t \<Rightarrow> if willReconnect then scheduleAutoReconnect now t a2 else a2
         | None \<Rightarrow> a2)"

definition serverDisconnected_done ::
  "int \<Rightarrow> server_id option \<Rightarrow> string option \<Rightarrow> bool \<Rightarrow> bool \<Rightarrow> (session_meta list \<times> server_id option) option
    \<Rightarrow> app_state \<Rightarrow> app_state"
where
  "serverDisconnected_done now eventServerId eventReason closing active r a =
     (let a1 = refreshSessions r a in
      if closing then a1
      else (let a2 = remember_error eventServerId eventReason a1
            in if \<not> active then a2 else disconnected_cleanup now eventReason a2))"

section \<open>Rejected\<close>

text \<open>\<open>/password|wrong\s+(?:user|server)|certificate/i\<close>.\<close>

fun wrong_who :: "string \<Rightarrow> bool" where
  "wrong_who [] = False"
| "wrong_who (c # cs) =
     ((starts_with (c # cs) ''wrong'' \<and>
       (let rest = drop 5 (c # cs); after = dropWhile is_ws rest
        in after \<noteq> rest \<and> (starts_with after ''user'' \<or> starts_with after ''server'')))
      \<or> wrong_who cs)"

definition reasonLooksLikePwError :: "string \<Rightarrow> bool" where
  "reasonLooksLikePwError reason \<longleftrightarrow>
     (let r = to_lower reason in includes_str r ''password'' \<or> wrong_who r \<or> includes_str r ''certificate'')"

definition isPasswordError :: "int option \<Rightarrow> string \<Rightarrow> bool" where
  "isPasswordError rt reason \<longleftrightarrow>
     rt = Some 3 \<or> rt = Some 4 \<or> (rt = None \<and> reasonLooksLikePwError reason)"

datatype rejection = Ignored | PasswordPrompt bool | PlainRejection

text \<open>
  Up to the first \<open>await\<close>; \<open>PasswordPrompt\<close> carries whether a password had been tried.  The reason
  is remembered even when it is empty, unlike on a disconnect.
\<close>

definition onConnectionRejected ::
  "server_id option \<Rightarrow> string \<Rightarrow> int option \<Rightarrow> app_state \<Rightarrow> app_state \<times> rejection" where
  "onConnectionRejected eventServerId reason rt a =
     (let a1 = (if truthy eventServerId
                then a\<lparr>a_tabs := (a_tabs a)\<lparr>sessionErrors :=
                       map_set (or_else eventServerId '''') (Some reason) (sessionErrors (a_tabs a))\<rparr>\<rparr>
                else a)
      in if eventServerId \<noteq> None \<and> eventServerId \<noteq> activeServerId (a_tabs a1)
            \<and> \<not> pendingFallbackApplies a1 eventServerId then (a1, Ignored)
         else if isPasswordError rt reason
         then (let tried = passwordAttempted (a_conn a1)
               in (upd_conn (\<lambda>c. c\<lparr>status := Disconnected, error := (if tried then Some reason else None),
                     passwordRequired := True, bootstrapStage := None\<rparr>) a1, PasswordPrompt tried))
         else (upd_conn (\<lambda>c. c\<lparr>status := Disconnected, error := Some reason, bootstrapStage := None\<rparr>) a1,
               PlainRejection))"

text \<open>After the replies: the failed tab is made active and the prompt restored over it.\<close>

definition passwordPrompt_done ::
  "server_id option \<Rightarrow> string \<Rightarrow> bool \<Rightarrow> (session_meta list \<times> server_id option) option \<Rightarrow> switch_replies
    \<Rightarrow> app_state \<Rightarrow> app_state"
where
  "passwordPrompt_done eventServerId reason tried r1 r2 a =
     (let a1 = refreshSessions r1 a
      in if truthy eventServerId \<and> find_session (sessions (a_tabs a1)) (or_else eventServerId '''') \<noteq> None
         then upd_conn (\<lambda>c. c\<lparr>status := Disconnected, passwordRequired := True,
                error := (if tried then Some reason else None)\<rparr>) (switchServer (or_else eventServerId '''') r2 a1)
         else a1)"

end
