(* ===== verification/ConnLoop.thy ===== *)
theory ConnLoop
  imports Connection
begin

text \<open>
  The event loop of the connection logic: user actions, backend events, the reconnect timer and
  the replies to calls in flight, in any order.  The loop also logs the targets of automatic
  connection attempts.  Every event carries the clock.
\<close>

section \<open>The loop\<close>

datatype conn_task =
    TConnect conn_target bool                 \<comment> \<open>\<open>connect\<close> sent; whether by the reconnect timer\<close>
  | TConnectRefresh conn_target bool          \<comment> \<open>\<open>refreshSessions\<close> of \<open>connect\<close>\<close>
  | TClose server_id bool                     \<comment> \<open>\<open>disconnect_server\<close> sent; whether it was active\<close>
  | TLoaded                                   \<comment> \<open>preferences of \<open>server-connected\<close>\<close>
  | TConnectedRefresh
  | TDisconnected "server_id option" "string option" bool bool
  | TRejectedRefresh
  | TPrompt "server_id option" string bool

datatype conn_reply =
    ReplyOk
  | ReplyErr string
  | ReplySessions "(session_meta list \<times> server_id option) option"
  | ReplyLoaded "int jset" "int jset" "(string, int) jmap"
  | ReplySwitch "(session_meta list \<times> server_id option) option" switch_replies

datatype conn_event =
    UConnect conn_target
  | URetryPassword
  | UDismissPassword
  | UDisconnect
  | UCloseTab server_id
  | USwitch server_id switch_replies
  | UPreference "bool option"
  | TimerFires
  | BConnected
  | BDisconnected "server_id option" "string option"
  | BRejected "server_id option" string "int option"
  | BReply nat conn_reply

type_synonym conn_loop = "app_state \<times> conn_task list \<times> conn_target list"

fun conn_resume :: "int \<Rightarrow> conn_task \<Rightarrow> conn_reply \<Rightarrow> app_state \<Rightarrow> app_state \<times> conn_task list" where
  "conn_resume now (TConnect t auto) r a =
     (case r of
        ReplyErr e \<Rightarrow> (if auto then attempt_after now t (connect_failed e a) else connect_failed e a, [])
      | _ \<Rightarrow> (a, [TConnectRefresh t auto]))"
| "conn_resume now (TConnectRefresh t auto) r a =
     (let a1 = (case r of ReplySessions x \<Rightarrow> refreshSessions x a | _ \<Rightarrow> a)
      in (if auto then attempt_after now t a1 else a1, []))"
| "conn_resume now (TClose sid wasActive) r a =
     (case r of
        ReplySwitch r1 r2 \<Rightarrow> (disconnectSession_done sid wasActive r1 r2 a, [])
      | _ \<Rightarrow> (unmark_closing sid a, []))"
| "conn_resume now TLoaded r a =
     (case r of
        ReplyLoaded silenced mutedPush vols \<Rightarrow> (serverConnected_loaded silenced mutedPush vols a, [TConnectedRefresh])
      | _ \<Rightarrow> (serverConnected_loaded [] [] [] a, [TConnectedRefresh]))"
| "conn_resume now TConnectedRefresh r a =
     (serverConnected_sessions (case r of ReplySessions x \<Rightarrow> refreshSessions x a | _ \<Rightarrow> a), [])"
| "conn_resume now (TDisconnected sid reason closing active) r a =
     (serverDisconnected_done now sid reason closing active
        (case r of ReplySessions x \<Rightarrow> x | _ \<Rightarrow> None) a, [])"
| "conn_resume now TRejectedRefresh r a =
     (case r of ReplySessions x \<Rightarrow> refreshSessions x a | _ \<Rightarrow> a, [])"
| "conn_resume now (TPrompt sid reason tried) r a =
     (case r of ReplySwitch r1 r2 \<Rightarrow> passwordPrompt_done sid reason tried r1 r2 a | _ \<Rightarrow> a, [])"

definition start_connect :: "conn_target option \<Rightarrow> bool \<Rightarrow> app_state \<Rightarrow> app_state \<times> conn_task list" where
  "start_connect target auto a =
     (case target of None \<Rightarrow> (a, []) | Some t \<Rightarrow> (connect_start t a, [TConnect t auto]))"

fun conn_start :: "int \<Rightarrow> conn_event \<Rightarrow> app_state \<Rightarrow> app_state \<times> conn_task list \<times> conn_target list" where
  "conn_start now (UConnect t) a = (connect_start t a, [TConnect t False], [])"
| "conn_start now URetryPassword a =
     (case retryWithPassword a of (a1, target) \<Rightarrow>
        (case start_connect target False a1 of (a2, ts) \<Rightarrow> (a2, ts, [])))"
| "conn_start now UDismissPassword a = (dismissPasswordPrompt a, [], [])"
| "conn_start now UDisconnect a =
     (case activeServerId (a_tabs a) of
        Some sid \<Rightarrow>
          if sid = '''' then (disconnect_local a, [], [])
          else (disconnectSession_start sid (clearAutoReconnectTimer a), [TClose sid True], [])
      | None \<Rightarrow> (disconnect_local a, [], []))"
| "conn_start now (UCloseTab sid) a =
     (disconnectSession_start sid a, [TClose sid (activeServerId (a_tabs a) = Some sid)], [])"
| "conn_start now (USwitch sid r) a = (switchServer sid r a, [], [])"
| "conn_start now (UPreference b) a = (preferencesChanged b a, [], [])"
| "conn_start now TimerFires a =
     (case autoReconnectTimer (a_module a) of
        None \<Rightarrow> (a, [], [])
      | Some t \<Rightarrow>
          (case attemptAutoReconnect now t a of (a1, target) \<Rightarrow>
            (case start_connect target True a1 of (a2, ts) \<Rightarrow> (a2, ts, or_else (map_option (\<lambda>x. [x]) target) []))))"
| "conn_start now BConnected a = (onServerConnected a, [TLoaded], [])"
| "conn_start now (BDisconnected sid reason) a =
     (case onServerDisconnected sid a of (a1, closing, active) \<Rightarrow> (a1, [TDisconnected sid reason closing active], []))"
| "conn_start now (BRejected sid reason rt) a =
     (case onConnectionRejected sid reason rt a of
        (a1, Ignored) \<Rightarrow> (a1, [], [])
      | (a1, PasswordPrompt tried) \<Rightarrow> (a1, [TPrompt sid reason tried], [])
      | (a1, PlainRejection) \<Rightarrow> (a1, [TRejectedRefresh], []))"
| "conn_start now (BReply i r) a = (a, [], [])"

fun conn_step :: "conn_loop \<Rightarrow> int \<times> conn_event \<Rightarrow> conn_loop" where
  "conn_step (a, ts, lg) (now, BReply i r) =
     (if i < length ts
      then (case conn_resume now (ts ! i) r a of (a', new) \<Rightarrow> (a', take i ts @ drop (Suc i) ts @ new, lg))
      else (a, ts, lg))"
| "conn_step (a, ts, lg) (now, e) =
     (case conn_start now e a of (a', new, tried) \<Rightarrow> (a', ts @ new, lg @ tried))"

section \<open>Lemmas\<close>

subsection \<open>Backoff\<close>

lemma fib_loop_step: "fib_loop (Suc (Suc n)) a b = fib_loop (Suc n) a b + fib_loop n a b"
proof (induction n arbitrary: a b)
  case (Suc n)
  have "fib_loop (Suc (Suc (Suc n))) a b = fib_loop (Suc (Suc n)) b (a + b)" by (rule fib_loop.simps(2))
  also have "\<dots> = fib_loop (Suc n) b (a + b) + fib_loop n b (a + b)" by (rule Suc.IH)
  finally show ?case by (simp only: fib_loop.simps(2))
qed simp

lemma fib_loop_ge: "2 \<le> a \<Longrightarrow> a \<le> b \<Longrightarrow> a \<le> fib_loop n a b"
proof (induction n arbitrary: a b)
  case (Suc n)
  from Suc.IH [of b "a + b"] Suc.prems show ?case by simp
qed simp

lemma fib_loop_mono: "2 \<le> a \<Longrightarrow> a \<le> b \<Longrightarrow> fib_loop n a b \<le> fib_loop (Suc n) a b"
proof (induction n arbitrary: a b)
  case (Suc n)
  from Suc.IH [of b "a + b"] Suc.prems show ?case by (simp only: fib_loop.simps(2))
qed simp

lemma fib_grows: "2 + int n \<le> fib_loop n 2 3"
proof (induction n rule: less_induct)
  case (less n)
  show ?case
  proof (cases n)
    case (Suc m)
    show ?thesis
    proof (cases m)
      case (Suc k)
      then have "fib_loop n 2 3 = fib_loop m 2 3 + fib_loop k 2 3"
        using \<open>n = Suc m\<close> fib_loop_step [of k 2 3] by simp
      with less.IH [of m] less.IH [of k] \<open>n = Suc m\<close> Suc show ?thesis by simp
    qed (use \<open>n = Suc m\<close> in simp)
  qed simp
qed

subsection \<open>Frames\<close>

text \<open>What the tab operations leave alone.\<close>

lemma module_frames [simp]:
  "a_module (refreshSessions r a) = a_module a"
  "a_module (refreshState s a) = a_module a"
  "a_module (switch_mark sid a) = a_module a"
  "a_module (switch_status sid a) = a_module a"
  "a_module (switch_channel cur a) = a_module a"
  "a_module (switch_messages ms a) = a_module a"
  "a_module (drop_error sid a) = a_module a"
  "a_module (forget_signals o' a) = a_module a"
  "a_module (remember_error o' e a) = a_module a"
  "a_module (clear_receipts a) = a_module a"
  "a_module (set_initial a) = a_module a"
  "a_module (upd_conn f a) = a_module a"
  "a_module (upd_module g a) = g (a_module a)"
  by (auto simp: refreshSessions_def refreshSessions_done_def refreshState_def refreshState_done_def
      switch_mark_def switch_status_def switch_channel_def switch_messages_def drop_error_def forget_signals_def
      remember_error_def clear_receipts_def set_initial_def upd_conn_def upd_module_def Let_def
      split: option.split prod.split)

lemma module_switchServer [simp]: "a_module (switchServer sid r a) = a_module a"
  by (auto simp: switchServer_def Let_def split: option.split)

lemma conn_frames [simp]:
  "a_conn (forget_signals o' a) = a_conn a" "a_tabs (forget_signals o' a) = a_tabs a"
  "a_conn (upd_module g a) = a_conn a" "a_tabs (upd_module g a) = a_tabs a"
  "a_conn (upd_conn f a) = f (a_conn a)" "a_tabs (upd_conn f a) = a_tabs a"
  "a_conn (clear_receipts a) = a_conn a" "a_tabs (clear_receipts a) = a_tabs a"
  "a_conn (set_initial a) = conn_initial" "a_tabs (set_initial a) = a_tabs a"
  "a_conn (remember_error o' e a) = a_conn a"
  by (simp_all add: forget_signals_def upd_module_def upd_conn_def clear_receipts_def set_initial_def remember_error_def)

subsection \<open>A requested disconnect stays\<close>

text \<open>The events by which the user or the backend asks for a connection again.\<close>

fun asks_connection :: "int \<times> conn_event \<Rightarrow> bool" where
  "asks_connection (now, UConnect t) = True"
| "asks_connection (now, URetryPassword) = True"
| "asks_connection (now, BConnected) = True"
| "asks_connection e = False"

abbreviation manual :: "app_state \<Rightarrow> bool" where
  "manual a \<equiv> manualDisconnectRequested (a_module a)"

lemma manual_schedule [simp]: "manual (scheduleAutoReconnect now t a) = manual a"
  by (simp add: scheduleAutoReconnect_def clearAutoReconnectTimer_def Let_def)

lemma manual_resume:
  assumes "manual a"
  shows "manual (fst (conn_resume now t r a))"
  using assms
  by (cases t)
    (auto simp: attempt_after_def connect_failed_def disconnectSession_done_def unmark_closing_def
      serverConnected_loaded_def serverConnected_sessions_def serverDisconnected_done_def disconnected_cleanup_def
      passwordPrompt_done_def Let_def split: conn_reply.split option.split)

lemma manual_start:
  assumes "manual a" and "\<not> asks_connection (now, e)"
  shows "manual (fst (conn_start now e a)) \<and> snd (snd (conn_start now e a)) = []"
  using assms
  by (cases e)
    (auto simp: dismissPasswordPrompt_def disconnect_local_def disconnectSession_start_def preferencesChanged_def
      clearAutoReconnectTimer_def attemptAutoReconnect_def start_connect_def onServerDisconnected_def
      onConnectionRejected_def Let_def split: option.split if_splits)

lemma manual_step:
  assumes "manual (fst l)" and "\<not> asks_connection e"
  shows "manual (fst (conn_step l e)) \<and> snd (snd (conn_step l e)) = snd (snd l)"
proof -
  obtain a ts lg where l: "l = (a, ts, lg)" by (cases l) auto
  obtain now ev where e: "e = (now, ev)" by fastforce
  show ?thesis
  proof (cases "\<exists>i r. ev = BReply i r")
    case True
    then obtain i r where "ev = BReply i r" by blast
    with assms(1) manual_resume [of a now "ts ! i" r] show ?thesis by (auto simp: l e split: prod.split)
  next
    case False
    then have "conn_step l e = (case conn_start now ev a of (a', new, tried) \<Rightarrow> (a', ts @ new, lg @ tried))"
      by (cases ev) (simp_all add: l e)
    with assms manual_start [of a now ev] show ?thesis by (auto simp: l e split: prod.split)
  qed
qed

lemma manual_run:
  "manual (fst l) \<Longrightarrow> \<not> list_ex asks_connection es \<Longrightarrow>
   manual (fst (foldl conn_step l es)) \<and> snd (snd (foldl conn_step l es)) = snd (snd l)"
proof (induction es arbitrary: l)
  case (Cons e es)
  from Cons.prems manual_step [of l e] Cons.IH [of "conn_step l e"] show ?case by auto
qed simp

subsection \<open>Failed rounds\<close>

text \<open>Waiting for the next attempt: \<open>n\<close> attempts made since the loss.\<close>

definition waiting :: "server_id \<Rightarrow> conn_target \<Rightarrow> nat \<Rightarrow> int \<Rightarrow> app_state \<Rightarrow> bool" where
  "waiting sid t n lost a \<longleftrightarrow>
     autoReconnectTimer (a_module a) = Some t \<and> \<not> manual a \<and> autoReconnectEnabled (a_module a)
     \<and> sid \<notin> set (intentionallyClosingSessions (a_module a)) \<and> activeServerId (a_tabs a) = Some sid \<and> sid \<noteq> ''''
     \<and> status (a_conn a) = Disconnected \<and> \<not> passwordRequired (a_conn a) \<and> pendingConnect (a_conn a) = Some t
     \<and> reconnectAttempts (a_conn a) = n \<and> connectionLostAt (a_conn a) = Some lost \<and> reconnectScheduled (a_conn a)"

record conn_round =
  rd_fire :: int
  rd_lost :: int
  rd_sessions1 :: "session_meta list"
  rd_sessions2 :: "session_meta list"
  rd_reason :: "string option"

definition round_events :: "server_id \<Rightarrow> conn_round \<Rightarrow> (int \<times> conn_event) list" where
  "round_events sid r =
     [(rd_fire r, TimerFires), (rd_fire r, BReply 0 ReplyOk),
      (rd_fire r, BReply 0 (ReplySessions (Some (rd_sessions1 r, Some sid)))),
      (rd_lost r, BDisconnected (Some sid) (rd_reason r)),
      (rd_lost r, BReply 0 (ReplySessions (Some (rd_sessions2 r, Some sid))))]"

definition round_connects :: "server_id \<Rightarrow> conn_round \<Rightarrow> bool" where
  "round_connects sid r \<longleftrightarrow> map_option sm_status (find_session (rd_sessions1 r) sid) = Some Connecting"

lemma attempt_waiting:
  assumes "waiting sid t n lost a"
  shows "attemptAutoReconnect now t a =
    (upd_conn (\<lambda>c. c\<lparr>reconnectAttempts := Suc n\<rparr>) (upd_module (\<lambda>m. m\<lparr>autoReconnectTimer := None\<rparr>) a), Some t)"
  using assms by (simp add: waiting_def attemptAutoReconnect_def Let_def upd_conn_def upd_module_def)

lemma cleanup_waiting:
  assumes "\<not> manual a" and "autoReconnectEnabled (a_module a)" and "\<not> passwordRequired (a_conn a)"
    and "pendingConnect (a_conn a) = Some t" and "connectionLostAt (a_conn a) = Some lost"
    and "sid \<notin> set (intentionallyClosingSessions (a_module a))" and "activeServerId (a_tabs a) = Some sid" and "sid \<noteq> ''''"
  shows "waiting sid t (reconnectAttempts (a_conn a)) lost (disconnected_cleanup now reason a)
    \<and> nextReconnectAt (a_conn (disconnected_cleanup now reason a))
        = Some (now + reconnectDelayMs (reconnectAttempts (a_conn a)))"
  using assms
  by (simp add: disconnected_cleanup_def scheduleAutoReconnect_def clearAutoReconnectTimer_def waiting_def
      conn_initial_def Let_def)

lemma failed_round:
  assumes w: "waiting sid t n lost a" and "round_connects sid r"
  shows "\<exists>a'. foldl conn_step (a, [], lg) (round_events sid r) = (a', [], lg @ [t])
    \<and> waiting sid t (Suc n) lost a'
    \<and> nextReconnectAt (a_conn a') = Some (rd_lost r + reconnectDelayMs (Suc n))"
proof -
  have timer: "autoReconnectTimer (a_module a) = Some t" and sid: "sid \<noteq> ''''"
    using w by (simp_all add: waiting_def)
  let ?a1 = "connect_start t (upd_conn (\<lambda>c. c\<lparr>reconnectAttempts := Suc n\<rparr>)
      (upd_module (\<lambda>m. m\<lparr>autoReconnectTimer := None\<rparr>) a))"
  let ?a2 = "refreshSessions (Some (rd_sessions1 r, Some sid)) ?a1"
  let ?a3 = "remember_error (Some sid) (rd_reason r)
      (refreshSessions (Some (rd_sessions2 r, Some sid)) (forget_signals (Some sid) ?a2))"
  obtain m where m: "find_session (rd_sessions1 r) sid = Some m" "sm_status m = Connecting"
    using assms(2) by (auto simp: round_connects_def)
  have c2: "status (a_conn ?a2) = Connecting"
    "activeServerId (a_tabs ?a2) = Some sid"
    using m sid by (simp_all add: refreshSessions_def refreshSessions_done_def active_meta_def Let_def)
  have stay: "attempt_after now t ?a2 = ?a2" for now
    by (simp add: attempt_after_def c2(1))
  have closing: "sid \<notin> set (intentionallyClosingSessions (a_module ?a2))"
    "\<not> manual ?a2" "autoReconnectEnabled (a_module ?a2)"
    using w by (simp_all add: waiting_def connect_start_def clearAutoReconnectTimer_def)
  have run: "foldl conn_step (a, [], lg) (round_events sid r) =
      (disconnected_cleanup (rd_lost r) (rd_reason r) ?a3, [], lg @ [t])"
    using closing c2(2)
    by (simp add: round_events_def timer attempt_waiting [OF w] start_connect_def stay onServerDisconnected_def
        isActiveSession_def truthy_def serverDisconnected_done_def Let_def)
  have c3: "passwordRequired (a_conn ?a3) = False" "pendingConnect (a_conn ?a3) = Some t"
    "reconnectAttempts (a_conn ?a3) = Suc n" "connectionLostAt (a_conn ?a3) = Some lost"
    "activeServerId (a_tabs ?a3) = Some sid" "a_module ?a3 = a_module ?a2"
    using w by (simp_all add: refreshSessions_def refreshSessions_done_def remember_error_def connect_start_def
        clearAutoReconnectTimer_def waiting_def Let_def)
  have "waiting sid t (Suc n) lost (disconnected_cleanup (rd_lost r) (rd_reason r) ?a3)
    \<and> nextReconnectAt (a_conn (disconnected_cleanup (rd_lost r) (rd_reason r) ?a3))
      = Some (rd_lost r + reconnectDelayMs (Suc n))"
    using cleanup_waiting [of ?a3 t lost sid "rd_lost r" "rd_reason r"] c3 closing sid by simp
  with run show ?thesis by blast
qed

subsection \<open>The password prompt\<close>

definition prompting :: "server_id \<Rightarrow> conn_target \<Rightarrow> app_state \<Rightarrow> bool" where
  "prompting sid t a \<longleftrightarrow> passwordRequired (a_conn a) \<and> pendingConnect (a_conn a) = Some t
     \<and> activeServerId (a_tabs a) = Some sid \<and> autoReconnectTimer (a_module a) = None
     \<and> sid \<notin> set (intentionallyClosingSessions (a_module a))"

text \<open>The backend's session list, when it arrives, names the session as the active one.\<close>

definition reports_active :: "server_id \<Rightarrow> (session_meta list \<times> server_id option) option \<Rightarrow> bool" where
  "reports_active sid r \<longleftrightarrow> r = None \<or> map_option snd r = Some (Some sid)"

lemma rejected_prompts:
  assumes "activeServerId (a_tabs a) = Some sid" and "sid \<noteq> ''''"
    and "sid \<notin> set (intentionallyClosingSessions (a_module a))"
    and "isPasswordError rt reason" and "pendingConnect (a_conn a) = Some t"
    and "autoReconnectTimer (a_module a) = None"
  shows "\<exists>a1. onConnectionRejected (Some sid) reason rt a = (a1, PasswordPrompt (passwordAttempted (a_conn a)))
    \<and> prompting sid t a1"
  using assms
  by (simp add: onConnectionRejected_def prompting_def truthy_def upd_conn_def Let_def)

lemma refresh_prompting: "prompting sid t a \<Longrightarrow> reports_active sid r \<Longrightarrow> prompting sid t (refreshSessions r a)"
  by (auto simp: prompting_def reports_active_def refreshSessions_def refreshSessions_done_def Let_def
      split: option.split)

lemma switch_prompting:
  assumes "prompting sid t a" and "reports_active sid (sw_sessions r)"
  shows "prompting sid t (switchServer sid r a)"
proof -
  have "prompting sid t (switch_mark sid a)" using assms(1) by (simp add: prompting_def switch_mark_def Let_def)
  from refresh_prompting [OF this assms(2)]
  have s: "prompting sid t (switch_status sid (refreshSessions (sw_sessions r) (switch_mark sid a)))"
    by (simp add: prompting_def switch_status_def Let_def)
  have keep: "prompting sid t b'" if "prompting sid t b" "a_conn b' = a_conn b" "a_tabs b' = a_tabs b"
    "a_module b' = a_module b" for b b' using that by (simp add: prompting_def)
  have "a_conn (refreshState x b) = a_conn b" "a_tabs (refreshState x b) = a_tabs b" for x b
    by (auto simp: refreshState_def refreshState_done_def Let_def split: option.split prod.split)
  then show ?thesis
    by (intro keep [OF s]) (auto simp: switchServer_def switch_channel_def switch_messages_def Let_def split: option.split)
qed

lemma prompt_done_prompts:
  assumes "prompting sid t a" and "reports_active sid r1" and "reports_active sid (sw_sessions r2)"
  shows "prompting sid t (passwordPrompt_done (Some sid) reason tried r1 r2 a)"
proof -
  note r = refresh_prompting [OF assms(1,2)]
  note s = switch_prompting [OF r assms(3)]
  show ?thesis
    using r s by (simp add: passwordPrompt_done_def Let_def) (simp add: prompting_def)
qed

lemma disconnected_prompts:
  assumes "prompting sid t a" and "reports_active sid r"
  shows "prompting sid t (serverDisconnected_done now (Some sid) why False True r a)
    \<and> \<not> reconnectScheduled (a_conn (serverDisconnected_done now (Some sid) why False True r a))"
proof -
  have "prompting sid t (remember_error (Some sid) why (refreshSessions r a))"
    using refresh_prompting [OF assms] by (simp add: prompting_def remember_error_def)
  then show ?thesis
    by (simp add: serverDisconnected_done_def Let_def)
      (simp add: prompting_def disconnected_cleanup_def conn_initial_def Let_def)
qed

subsection \<open>Switching tabs\<close>

lemma switch_conn:
  assumes "sw_sessions r = Some (ss, Some sid)" and "find_session ss sid = Some m"
  shows "status (a_conn (switchServer sid r a)) = sm_status m
    \<and> reconnectScheduled (a_conn (switchServer sid r a)) = reconnectScheduled (a_conn a)
    \<and> passwordRequired (a_conn (switchServer sid r a)) = passwordRequired (a_conn a)"
proof -
  have "a_conn (refreshState x b) = a_conn b" for x b
    by (auto simp: refreshState_def refreshState_done_def Let_def split: option.split prod.split)
  then have "a_conn (switchServer sid r a) = a_conn (switch_status sid (refreshSessions (sw_sessions r) (switch_mark sid a)))"
    by (auto simp: switchServer_def switch_channel_def switch_messages_def Let_def split: option.split)
  with assms show ?thesis
    by (simp add: switch_status_def switch_mark_def refreshSessions_def refreshSessions_done_def Let_def)
qed

section \<open>Properties\<close>

text \<open>
  the backoff schedule.  The delays follow the Fibonacci recurrence from 2 and 3 seconds until
  the cap, never decrease, lie between 2 and 30 seconds, and from the seventh attempt on are the
  cap.
\<close>

theorem backoff_schedule:
  "reconnectDelayMs 0 = 2000 \<and> reconnectDelayMs 1 = 3000
   \<and> reconnectDelayMs (n + 2) = min (fib_loop (n + 1) 2 3 * 1000 + fib_loop n 2 3 * 1000) RECONNECT_BACKOFF_CAP_MS
   \<and> reconnectDelayMs n \<le> reconnectDelayMs (Suc n)
   \<and> 2000 \<le> reconnectDelayMs n \<and> reconnectDelayMs n \<le> RECONNECT_BACKOFF_CAP_MS
   \<and> reconnectDelayMs (n + 6) = RECONNECT_BACKOFF_CAP_MS"
proof -
  have "34 \<le> fib_loop (n + 6) 2 3"
  proof (induction n)
    case (Suc n)
    then show ?case using fib_loop_mono [of 2 3 "n + 6"] by simp
  qed (simp add: numeral_eq_Suc)
  moreover have "2 \<le> fib_loop n 2 3" by (rule fib_loop_ge) simp_all
  moreover have "fib_loop n 2 3 \<le> fib_loop (Suc n) 2 3" by (rule fib_loop_mono) simp_all
  ultimately show ?thesis
    using fib_loop_step [of n 2 3] by (simp add: reconnectDelayMs_def RECONNECT_BACKOFF_CAP_MS_def)
qed

text \<open>
  C7: the client keeps trying, ever more slowly.  While it waits to reconnect, every round in
  which the timer fires, the connection is opened and is lost again makes exactly one automatic
  attempt to the same target and leaves the client waiting once more: the attempts are counted,
  the time of the original loss is kept, nothing is left in flight, and the next attempt is set
  for the delay the schedule gives for the attempts made so far.
\<close>

theorem reconnect_keeps_trying:
  assumes "waiting sid t n lost a" and "list_all (round_connects sid) rs"
  shows "\<exists>a'. foldl conn_step (a, [], lg) (concat (map (round_events sid) rs))
      = (a', [], lg @ replicate (length rs) t)
    \<and> waiting sid t (n + length rs) lost a'
    \<and> (rs \<noteq> [] \<longrightarrow> nextReconnectAt (a_conn a') = Some (rd_lost (last rs) + reconnectDelayMs (n + length rs)))"
  using assms
proof (induction rs arbitrary: a n lg)
  case (Cons r rs)
  from Cons.prems obtain a1 where r:
    "foldl conn_step (a, [], lg) (round_events sid r) = (a1, [], lg @ [t])" "waiting sid t (Suc n) lost a1"
    "nextReconnectAt (a_conn a1) = Some (rd_lost r + reconnectDelayMs (Suc n))"
    using failed_round [of sid t n lost a r lg] by auto
  with Cons.IH [of "Suc n" a1 "lg @ [t]"] Cons.prems show ?case by (cases rs) auto
qed simp

definition example_target :: conn_target where
  "example_target = \<lparr>ct_host = ''h'', ct_port = 64738, ct_username = ''u'', ct_certLabel = None\<rparr>"

definition example_waiting :: app_state where
  "example_waiting = app_empty\<lparr>
     a_tabs := (a_tabs app_empty)\<lparr>activeServerId := Some ''A''\<rparr>,
     a_module := (a_module app_empty)\<lparr>autoReconnectTimer := Some example_target\<rparr>,
     a_conn := conn_initial\<lparr>pendingConnect := Some example_target, connectionLostAt := Some 7, reconnectScheduled := True\<rparr>\<rparr>"

theorem reconnect_keeps_trying_witness:
  "reconnectAttempts (a_conn (fst (foldl conn_step (example_waiting, [], []) (round_events ''A''
      \<lparr>rd_fire = 2007, rd_lost = 2100, rd_sessions1 = [example_meta ''A'' Connecting],
       rd_sessions2 = [example_meta ''A'' Disconnected], rd_reason = None\<rparr>)))) = 1"
proof -
  let ?r = "\<lparr>rd_fire = 2007, rd_lost = 2100, rd_sessions1 = [example_meta ''A'' Connecting],
       rd_sessions2 = [example_meta ''A'' Disconnected], rd_reason = None\<rparr> :: conn_round"
  have w: "waiting ''A'' example_target 0 7 example_waiting"
    by (simp add: waiting_def example_waiting_def app_empty_def conn_initial_def)
  have "list_all (round_connects ''A'') [?r]"
    by (simp add: round_connects_def find_session_def example_meta_def)
  from reconnect_keeps_trying [OF w this, of "[]"] obtain a' where
    "foldl conn_step (example_waiting, [], []) (round_events ''A'' ?r) = (a', [], [example_target])"
    "waiting ''A'' example_target 1 7 a'" by auto
  then show ?thesis by (simp add: waiting_def)
qed

text \<open>
  C2: a requested disconnect is final.  When the user disconnects and no session is left, the
  client is back in its initial connection state, and whatever happens afterwards (timers still
  running, late replies, late disconnect events, preference changes), no automatic attempt is
  ever made until the user connects again or the backend reports a connection.
\<close>

theorem user_disconnect_is_final:
  assumes "activeServerId (a_tabs a) = Some sid" and "sid \<noteq> ''''" and "\<not> list_ex asks_connection es"
    and "l = foldl conn_step (a, [], lg) [(now, UDisconnect), (now', BReply 0 (ReplySwitch (Some ([], None)) r2))]"
  shows "a_conn (fst l) = conn_initial \<and> snd (snd l) = lg
    \<and> snd (snd (foldl conn_step l es)) = lg \<and> manualDisconnectRequested (a_module (fst (foldl conn_step l es)))"
proof -
  have l: "l = (disconnectSession_done sid True (Some ([], None)) r2
      (disconnectSession_start sid (clearAutoReconnectTimer a)), [], lg)"
    using assms(1,2,4) by simp
  have "a_conn (fst l) = conn_initial \<and> manual (fst l)"
    by (simp add: l disconnectSession_done_def refreshSessions_def refreshSessions_done_def unmark_closing_def Let_def)
  with manual_run [OF _ assms(3), of l] show ?thesis by (simp add: l)
qed

theorem user_disconnect_is_final_witness:
  "snd (snd (foldl conn_step (example_waiting, [], [])
      [(0, UDisconnect), (1, BReply 0 (ReplySwitch (Some ([], None)) \<lparr>sw_sessions = None, sw_state = None,
          sw_current = None, sw_messages = None, sw_own = None\<rparr>)),
       (5, TimerFires), (6, UPreference (Some True)), (7, BDisconnected (Some ''A'') None)])) = []"
proof -
  have h: "activeServerId (a_tabs example_waiting) = Some ''A''" "''A'' \<noteq> ''''"
    "\<not> list_ex asks_connection [(5, TimerFires), (6, UPreference (Some True)), (7, BDisconnected (Some ''A'') None)]"
    by (simp_all add: example_waiting_def)
  show ?thesis
    using user_disconnect_is_final [OF h refl, of "[]" 0 1 "\<lparr>sw_sessions = None, sw_state = None,
          sw_current = None, sw_messages = None, sw_own = None\<rparr>"]
    by (simp only: foldl_Cons foldl_Nil)
qed

lemma forgets_only_own: "signals_ok r \<Longrightarrow> srv \<noteq> sid \<Longrightarrow>
    announced (fst (forgetAllBroadcasts sid r)) srv x = announced r srv x"
  by (simp add: forgetAllBroadcasts_def forget_step)

text \<open>
  C11: a background tab never disturbs the foreground.  A disconnect of a session that is not the active one (while
  another one is active) that is answered with the list of sessions changes of the foreground only what that list says
  of it: the status shown is the one listed for the active session, the error shown is the active session's own,
  none when it is connected, and never the reason of the disconnect.  The list of tabs and their unread counts follow
  the list of sessions, the errors and the broadcasts of all other tabs are kept, the reason is remembered for its own
  tab unless the user is closing that tab, and nothing else of the state changes: no timer is stopped or started.
\<close>

theorem background_disconnect_isolated:
  assumes "activeServerId (a_tabs a) = Some act" and "sid \<noteq> act" and "sid \<noteq> ''''" and "act \<noteq> ''''"
    and "onServerDisconnected (Some sid) a = (a1, closing, active)"
    and "a' = serverDisconnected_done now (Some sid) (Some reason) closing active (Some (ss, Some act)) a1"
    and "reason \<noteq> ''''" and "signals_ok (a_signals a)"
  shows "\<not> active \<and> a'\<lparr>a_tabs := a_tabs a, a_conn := a_conn a, a_signals := a_signals a\<rparr> = a
    \<and> (a_conn a')\<lparr>status := status (a_conn a), error := error (a_conn a)\<rparr> = a_conn a
    \<and> status (a_conn a') = (case find_session ss act of None \<Rightarrow> status (a_conn a) | Some m \<Rightarrow> sm_status m)
    \<and> error (a_conn a') =
        (if map_option sm_status (find_session ss act) = Some Connected then None
         else if act \<in> sm_id ` set ss then error_or (sessionErrors (a_tabs a)) act (error (a_conn a))
         else error (a_conn a))
    \<and> activeServerId (a_tabs a') = Some act \<and> sessions (a_tabs a') = ss
    \<and> (\<forall>k. map_get (sessionUnreadTotals (a_tabs a')) k =
          (if baseId k \<in> sm_id ` set ss then map_get (sessionUnreadTotals (a_tabs a)) k else None))
    \<and> (\<forall>k. k \<noteq> sid \<longrightarrow> map_get (sessionErrors (a_tabs a')) k =
          (if k \<in> sm_id ` set ss then map_get (sessionErrors (a_tabs a)) k else None))
    \<and> (\<forall>srv x. srv \<noteq> Some sid \<longrightarrow> announced (a_signals a') srv x = announced (a_signals a) srv x)
    \<and> (sid \<notin> set (intentionallyClosingSessions (a_module a)) \<longrightarrow>
        map_get (sessionErrors (a_tabs a')) sid = Some (Some reason))"
proof -
  let ?b = "refreshSessions_done ss (Some act) (forget_signals (Some sid) a)"
  have ev: "a1 = forget_signals (Some sid) a" "closing \<longleftrightarrow> sid \<in> set (intentionallyClosingSessions (a_module a))"
      "\<not> active"
    using assms(1-3,5) by (auto simp: onServerDisconnected_def isActiveSession_def pendingFallbackApplies_def
        truthy_def forget_signals_def Let_def)
  have a': "a' = (if closing then ?b
      else ?b\<lparr>a_tabs := (a_tabs ?b)\<lparr>sessionErrors := map_set sid (Some reason) (sessionErrors (a_tabs ?b))\<rparr>\<rparr>)"
    using assms(3,6,7) ev by (simp add: serverDisconnected_done_def refreshSessions_def remember_error_def truthy_def Let_def)
  have errs: "map_get (sessionErrors (a_tabs ?b)) k =
      (if k \<in> sm_id ` set ss then map_get (sessionErrors (a_tabs a)) k else None)" for k
    by (simp add: refreshSessions_done_def Let_def forget_signals_def filter_get_simps)
  have totals: "map_get (sessionUnreadTotals (a_tabs ?b)) k =
      (if baseId k \<in> sm_id ` set ss then map_get (sessionUnreadTotals (a_tabs a)) k else None)" for k
    by (simp add: refreshSessions_done_def Let_def forget_signals_def filter_get_simps)
  have st: "status (a_conn ?b) = (case find_session ss act of None \<Rightarrow> status (a_conn a) | Some m \<Rightarrow> sm_status m)"
    using assms(4) by (simp add: refreshSessions_done_def Let_def forget_signals_def active_meta_def)
  have er: "error (a_conn ?b) =
        (if map_option sm_status (find_session ss act) = Some Connected then None
         else if act \<in> sm_id ` set ss then error_or (sessionErrors (a_tabs a)) act (error (a_conn a))
         else error (a_conn a))"
    using assms(4)
    by (cases "find_session ss act") (auto simp: refreshSessions_done_def Let_def forget_signals_def active_meta_def error_or_def filter_get_simps)
  have rest: "?b\<lparr>a_tabs := a_tabs a, a_conn := a_conn a, a_signals := a_signals a\<rparr> = a"
      "(a_conn ?b)\<lparr>status := status (a_conn a), error := error (a_conn a)\<rparr> = a_conn a"
      "activeServerId (a_tabs ?b) = Some act" "sessions (a_tabs ?b) = ss"
      "a_signals ?b = fst (forgetAllBroadcasts (Some sid) (a_signals a))"
    by (simp_all add: refreshSessions_done_def Let_def forget_signals_def)
  have sig: "announced (a_signals ?b) srv x = announced (a_signals a) srv x" if "srv \<noteq> Some sid" for srv x
    using forgets_only_own [OF assms(8) that] by (simp add: rest(5))
  show ?thesis
  proof (cases closing)
    case True
    then show ?thesis using a' ev errs totals st er rest sig by simp
  next
    case False
    then have a2: "a' = ?b\<lparr>a_tabs := (a_tabs ?b)\<lparr>sessionErrors := map_set sid (Some reason) (sessionErrors (a_tabs ?b))\<rparr>\<rparr>"
      using a' by simp
    have "a'\<lparr>a_tabs := a_tabs a, a_conn := a_conn a, a_signals := a_signals a\<rparr> = a"
      using rest(1) by (simp add: a2)
    then show ?thesis using ev errs totals st er rest(2-5) sig by (simp add: a2)
  qed
qed

theorem background_disconnect_isolated_witness:
  "\<exists>a1 closing active. onServerDisconnected (Some ''B'') example_waiting = (a1, closing, active)
     \<and> map_get (sessionErrors (a_tabs (serverDisconnected_done 0 (Some ''B'') (Some ''kicked'') closing active
          (Some ([example_meta ''B'' Disconnected], Some ''A'')) a1))) ''B'' = Some (Some ''kicked'')"
proof -
  obtain a1 closing active where d: "onServerDisconnected (Some ''B'') example_waiting = (a1, closing, active)"
    by (cases "onServerDisconnected (Some ''B'') example_waiting") auto
  have h: "activeServerId (a_tabs example_waiting) = Some ''A''" "signals_ok (a_signals example_waiting)"
    by (simp_all add: example_waiting_def app_empty_def signals_ok_def)
  from background_disconnect_isolated [OF h(1) _ _ _ d refl _ h(2), of "''kicked''" 0 "[example_meta ''B'' Disconnected]"]
  show ?thesis using d by (auto simp: example_waiting_def app_empty_def)
qed

text \<open>
  C12: the password prompt survives the disconnect that follows it.  When the active session is
  rejected for a wrong or missing password, the prompt is shown, the target is kept, and the
  disconnect event that follows neither hides the prompt nor schedules a reconnect nor replaces
  the message; answering the prompt connects to the same target.
\<close>

theorem password_prompt_survives_disconnect:
  assumes "activeServerId (a_tabs a) = Some sid" and "sid \<noteq> ''''"
    and "sid \<notin> set (intentionallyClosingSessions (a_module a))"
    and "isPasswordError rt reason" and "pendingConnect (a_conn a) = Some t"
    and "autoReconnectTimer (a_module a) = None"
    and "reports_active sid r1" and "reports_active sid (sw_sessions r2)" and "reports_active sid r3"
    and "l = foldl conn_step (a, [], lg)
      [(now, BRejected (Some sid) reason rt), (now, BReply 0 (ReplySwitch r1 r2)),
       (now', BDisconnected (Some sid) why), (now', BReply 0 (ReplySessions r3))]"
  shows "passwordRequired (a_conn (fst l)) \<and> pendingConnect (a_conn (fst l)) = Some t
    \<and> autoReconnectTimer (a_module (fst l)) = None \<and> \<not> reconnectScheduled (a_conn (fst l))
    \<and> snd l = ([], lg) \<and> fst (snd (conn_step l (now'', URetryPassword))) = [TConnect t False]"
proof -
  obtain a1 where r: "onConnectionRejected (Some sid) reason rt a = (a1, PasswordPrompt (passwordAttempted (a_conn a)))"
    and p1: "prompting sid t a1"
    using rejected_prompts [OF assms(1-6)] by blast
  let ?a2 = "passwordPrompt_done (Some sid) reason (passwordAttempted (a_conn a)) r1 r2 a1"
  have p2: "prompting sid t ?a2" by (rule prompt_done_prompts [OF p1 assms(7,8)])
  let ?a4 = "serverDisconnected_done now' (Some sid) why False True r3 (forget_signals (Some sid) ?a2)"
  have l: "l = (?a4, [], lg)"
    using p2 assms(2) by (simp add: assms(10) r prompting_def onServerDisconnected_def isActiveSession_def truthy_def)
  have "prompting sid t ?a4 \<and> \<not> reconnectScheduled (a_conn ?a4)"
    using p2 assms(9) by (intro disconnected_prompts) (auto simp: prompting_def)
  then show ?thesis by (simp add: l prompting_def retryWithPassword_def start_connect_def)
qed

theorem password_prompt_survives_disconnect_witness:
  "passwordRequired (a_conn (fst (foldl conn_step
      (example_waiting\<lparr>a_module := (a_module app_empty)\<rparr>, [], [])
      [(0, BRejected (Some ''A'') ''no'' (Some 4)), (0, BReply 0 (ReplySwitch None \<lparr>sw_sessions = None, sw_state = None,
          sw_current = None, sw_messages = None, sw_own = None\<rparr>)),
       (1, BDisconnected (Some ''A'') (Some ''closed'')), (1, BReply 0 (ReplySessions None))])))"
proof -
  let ?a = "example_waiting\<lparr>a_module := (a_module app_empty)\<rparr>"
  have h: "activeServerId (a_tabs ?a) = Some ''A''" "''A'' \<noteq> ''''"
    "''A'' \<notin> set (intentionallyClosingSessions (a_module ?a))" "isPasswordError (Some 4) ''no''"
    "pendingConnect (a_conn ?a) = Some example_target" "autoReconnectTimer (a_module ?a) = None"
    by (simp_all add: example_waiting_def app_empty_def isPasswordError_def)
  show ?thesis
    by (rule password_prompt_survives_disconnect [OF h _ _ _ refl, THEN conjunct1]) (simp_all add: reports_active_def)
qed

text \<open>
  what the timer misses.  A session A loses its connection and a reconnect is scheduled; the
  user looks at another, connected tab when the timer fires, and then returns to A: no attempt has
  been made, no timer is running and nothing is in flight, yet a reconnect is still shown as
  scheduled.
\<close>

theorem reconnect_lost_on_other_tab:
  assumes "waiting sid t n lost a"
    and "sw_sessions r = Some (ss, Some other)" and "find_session ss other = Some m" and "sm_status m = Connected"
    and "sw_sessions r' = Some (ss, Some sid)" and "find_session ss sid = Some m'" and "sm_status m' = Disconnected"
    and "l = foldl conn_step (a, [], lg) [(n1, USwitch other r), (n2, TimerFires), (n3, USwitch sid r')]"
  shows "status (a_conn (fst l)) = Disconnected \<and> reconnectScheduled (a_conn (fst l))
    \<and> autoReconnectTimer (a_module (fst l)) = None \<and> snd l = ([], lg)"
proof -
  note s = switch_conn [OF assms(2,3), of a]
  have "attemptAutoReconnect n2 t (switchServer other r a)
      = (upd_module (\<lambda>m. m\<lparr>autoReconnectTimer := None\<rparr>) (switchServer other r a), None)"
    using assms(1,4) s by (simp add: attemptAutoReconnect_def waiting_def Let_def)
  moreover have "autoReconnectTimer (a_module (switchServer other r a)) = Some t"
    using assms(1) by (simp add: waiting_def)
  ultimately have "l = (switchServer sid r' (upd_module (\<lambda>m. m\<lparr>autoReconnectTimer := None\<rparr>) (switchServer other r a)), [], lg)"
    by (simp add: assms(8) start_connect_def)
  then show ?thesis
    using switch_conn [OF assms(5,6), of "upd_module (\<lambda>m. m\<lparr>autoReconnectTimer := None\<rparr>) (switchServer other r a)"]
      s assms(1,7) by (simp add: waiting_def)
qed

theorem reconnect_lost_on_other_tab_witness:
  "snd (foldl conn_step (example_waiting, [], [])
     [(500, USwitch ''B'' \<lparr>sw_sessions = Some ([example_meta ''A'' Disconnected, example_meta ''B'' Connected], Some ''B''),
         sw_state = None, sw_current = None, sw_messages = None, sw_own = None\<rparr>),
      (2000, TimerFires),
      (3000, USwitch ''A'' \<lparr>sw_sessions = Some ([example_meta ''A'' Disconnected, example_meta ''B'' Connected], Some ''A''),
         sw_state = None, sw_current = None, sw_messages = None, sw_own = None\<rparr>)]) = ([], [])"
proof -
  have w: "waiting ''A'' example_target 0 7 example_waiting"
    by (simp add: waiting_def example_waiting_def app_empty_def conn_initial_def)
  have f: "find_session [example_meta ''A'' Disconnected, example_meta ''B'' Connected] ''B'' = Some (example_meta ''B'' Connected)"
    "sm_status (example_meta ''B'' Connected) = Connected"
    "find_session [example_meta ''A'' Disconnected, example_meta ''B'' Connected] ''A'' = Some (example_meta ''A'' Disconnected)"
    "sm_status (example_meta ''A'' Disconnected) = Disconnected"
    by (simp_all add: find_session_def example_meta_def)
  show ?thesis
    by (rule reconnect_lost_on_other_tab [OF w _ f(1,2) _ f(3,4) refl, THEN conjunct2, THEN conjunct2, THEN conjunct2])
      simp_all
qed

end
