(* ===== verification/PluginGate.thy ===== *)
theory PluginGate
  imports PluginTrust
begin

text \<open>
  What the trust model of \<open>PluginTrust\<close> guarantees: every honoured manifest is backed by consent, so
  that no plugin acts without it; refreshes of the registry sort plugins exactly; revocations
  last; deciding in bulk is deciding one by one; settings panels belong to honoured plugins.
\<close>

section \<open>Maps\<close>



lemma spread_append: "spread a (b @ c) = spread (spread a b) c"
  by (simp add: spread_def)

section \<open>Trust behind every honoured manifest\<close>

definition exempt :: "client_manifest \<Rightarrow> bool" where
  "exempt m \<longleftrightarrow> gated m = [] \<and> or_else (mf_slash_commands m) [] = []"

text \<open>
  The versions under which a plugin's manifest was offered so far: \<open>(name, version, manifest)\<close>.
\<close>

type_synonym offers = "(string \<times> string \<times> client_manifest) set"

definition backed :: "offers \<Rightarrow> trust_map \<Rightarrow> string \<Rightarrow> client_manifest \<Rightarrow> bool" where
  "backed offs trust n m \<longleftrightarrow> exempt m \<or>
     (\<exists>r. map_get trust n = Some r \<and> tr_decision r = Allow \<and> set (gated m) \<subseteq> set (tr_capabilities r)
        \<and> (n, tr_version r, m) \<in> offs)"

definition trusted_ok :: "offers \<times> tier1_slice \<Rightarrow> bool" where
  "trusted_ok w \<longleftrightarrow>
     (\<forall>n m. map_get (pluginManifests (snd w)) n = Some m \<longrightarrow> backed (fst w) (pluginTrust (snd w)) n m)"

fun offered :: "plugin_event \<Rightarrow> offers" where
  "offered (PReconcile sid es eff) =
     {(re_pluginName e, re_version e, m) | e m. e \<in> set es \<and> parseClientManifest (re_infoJson e) = Some m}"
| "offered (PResolve now d sc ps) = (\<lambda>p. (tp_pluginName p, tp_version p, tp_manifest p)) ` set ps"
| "offered (PAllow now n en m sc) = {(n, re_version en, m)}"
| "offered _ = {}"

definition offering_step :: "offers \<times> tier1_slice \<Rightarrow> plugin_event \<Rightarrow> offers \<times> tier1_slice" where
  "offering_step w e = (fst w \<union> offered e, plugin_step (snd w) e)"

lemma not_expanded: "\<not> capabilitiesExpanded old new \<longleftrightarrow> set new \<subseteq> set old"
  by (auto simp: capabilitiesExpanded_def list_ex_iff)

lemma evaluateTrust_cases:
  "evaluateTrust m prev v =
     (if exempt m then NoPrompt
      else case prev of None \<Rightarrow> NeedsPrompt None
        | Some r \<Rightarrow> if tr_version r = v \<and> set (gated m) \<subseteq> set (tr_capabilities r) then Decided r else NeedsPrompt (Some r))"
  using not_expanded by (auto simp: evaluateTrust_def exempt_def split: option.split)

definition grants :: "trust_map \<Rightarrow> registry_entry \<Rightarrow> client_manifest \<Rightarrow> bool" where
  "grants trust e m \<longleftrightarrow> exempt m \<or>
     (\<exists>r. map_get trust (re_pluginName e) = Some r \<and> tr_decision r = Allow \<and> tr_version r = re_version e
        \<and> set (gated m) \<subseteq> set (tr_capabilities r))"

definition asks :: "trust_map \<Rightarrow> registry_entry \<Rightarrow> client_manifest \<Rightarrow> bool" where
  "asks trust e m \<longleftrightarrow> \<not> exempt m \<and>
     (\<forall>r. map_get trust (re_pluginName e) = Some r \<longrightarrow>
        tr_version r \<noteq> re_version e \<or> \<not> set (gated m) \<subseteq> set (tr_capabilities r))"

lemma apply_entry_granted:
  "fst (apply_entry sid trust (ms, ps, q) e) =
     (case parseClientManifest (re_infoJson e) of
        Some m \<Rightarrow> if grants trust e m then map_set (re_pluginName e) m ms else ms
      | None \<Rightarrow> ms)"
  by (auto simp: apply_entry_def evaluateTrust_cases grants_def Let_def split: option.split)

lemma apply_entry_queue:
  "map tp_pluginName (snd (snd (apply_entry sid trust (ms, ps, q) e))) =
     map tp_pluginName q @ (case parseClientManifest (re_infoJson e) of
        Some m \<Rightarrow> if asks trust e m then [re_pluginName e] else []
      | None \<Rightarrow> [])"
  by (auto simp: apply_entry_def evaluateTrust_cases asks_def Let_def split: option.split)

lemma backed_mono: "backed offs trust n m \<Longrightarrow> offs \<subseteq> offs' \<Longrightarrow> backed offs' trust n m"
  by (auto simp: backed_def)

lemma trusted_mono: "trusted_ok (offs, s) \<Longrightarrow> offs \<subseteq> offs' \<Longrightarrow> trusted_ok (offs', s)"
  by (auto simp: trusted_ok_def intro: backed_mono)

lemma registry_backed:
  assumes "\<forall>n m. map_get (fst acc) n = Some m \<longrightarrow> backed offs trust n m"
    and "\<And>e m. e \<in> set es \<Longrightarrow> parseClientManifest (re_infoJson e) = Some m \<Longrightarrow> (re_pluginName e, re_version e, m) \<in> offs"
  shows "map_get (fst (foldl (apply_entry sid trust) acc es)) n = Some m \<Longrightarrow> backed offs trust n m"
  using assms
proof (induction es arbitrary: acc)
  case (Cons e es)
  obtain ms ps q where acc: "acc = (ms, ps, q)" by (cases acc)
  have "backed offs trust (re_pluginName e) m'"
    if "parseClientManifest (re_infoJson e) = Some m'" "grants trust e m'" for m'
    using that Cons.prems(3) [of e m'] by (auto simp: grants_def backed_def)
  then have "\<forall>n m. map_get (fst (apply_entry sid trust acc e)) n = Some m \<longrightarrow> backed offs trust n m"
    using Cons.prems(2) by (auto simp: acc apply_entry_granted split: option.splits if_splits)
  then show ?case using Cons by simp
qed simp

lemma reconcile_trusted: "trusted_ok (offs \<union> offered (PReconcile sid es eff), reconcile_commit sid es eff s)"
proof -
  let ?O = "offs \<union> offered (PReconcile sid es eff)"
  have "backed ?O eff n m" if "map_get (fst (foldl (apply_entry sid eff) ([], [], []) es)) n = Some m" for n m
    by (rule registry_backed [OF _ _ that]) auto
  then show ?thesis
    unfolding trusted_ok_def reconcile_commit_def applyRegistryWithTrust_def
    by (simp del: offered.simps split: prod.split)
qed

lemma decision_trusted:
  assumes "trusted_ok (offs, s)" and "set (gated m) \<subseteq> set (tr_capabilities r)"
    and "tr_decision r = Allow \<Longrightarrow> (n, tr_version r, m) \<in> offs"
  shows "trusted_ok (offs, applyTrustDecision n r m s)"
  using assms by (auto simp: trusted_ok_def applyTrustDecision_def backed_def Let_def)

lemma revocation_trusted: "trusted_ok (offs, s) \<Longrightarrow> trusted_ok (offs, applyTrustRevocation n s)"
  by (auto simp: trusted_ok_def applyTrustRevocation_def backed_def split: if_splits)

lemma record_capabilities [simp]:
  "tr_capabilities (recordFromDecision now d v m sc) = gated m"
  "tr_decision (recordFromDecision now d v m sc) = d"
  "tr_version (recordFromDecision now d v m sc) = v"
  by (simp_all add: recordFromDecision_def)

lemma trusted_fields:
  "trusted_ok (offs, s) \<longleftrightarrow>
     (\<forall>n m. map_get (pluginManifests s) n = Some m \<longrightarrow> backed offs (pluginTrust s) n m)"
  by (simp add: trusted_ok_def)

lemma resolve_trusted:
  assumes "trusted_ok (offs, s)" "(tp_pluginName p, tp_version p, tp_manifest p) \<in> offs"
  shows "trusted_ok (offs, resolve_commit now d sc s p)"
  using decision_trusted [OF assms(1), of "tp_manifest p" "decision_record now d sc p" "tp_pluginName p"] assms(2)
  by (simp add: resolve_commit_def decision_record_def trusted_fields Let_def)

lemma response_keeps_trust [simp]:
  "pluginManifests (applyInteractionResponse cid n r ch s) = pluginManifests s"
  "pluginTrust (applyInteractionResponse cid n r ch s) = pluginTrust s"
  by (cases r; simp add: applyUpdateMessage_def applyUpdatePanel_def Let_def split: option.split)+

lemma dispatch_keeps_trust [simp]:
  "pluginManifests (fst (dispatch_response cid n r ch s)) = pluginManifests s"
  "pluginTrust (fst (dispatch_response cid n r ch s)) = pluginTrust s"
  by (simp_all add: dispatch_response_def Let_def)

lemma resolve_all_trusted:
  "trusted_ok (offs, s) \<Longrightarrow> (\<lambda>p. (tp_pluginName p, tp_version p, tp_manifest p)) ` set ps \<subseteq> offs \<Longrightarrow>
     trusted_ok (offs, foldl (resolve_commit now d sc) s ps)"
  by (induction ps arbitrary: s) (auto simp: resolve_trusted)

lemma step_trusted: "trusted_ok (offs, s) \<Longrightarrow> trusted_ok (offs \<union> offered e, plugin_step s e)"
proof (cases e)
  case (PReconcile sid es eff)
  then show ?thesis using reconcile_trusted by simp
next
  case (PResolve now d sc ps)
  assume "trusted_ok (offs, s)"
  then have "trusted_ok (offs \<union> offered e, s)" by (rule trusted_mono) simp
  then show ?thesis using PResolve by (simp add: resolve_all_trusted)
next
  case (PRevoke now n t)
  assume "trusted_ok (offs, s)"
  then have "trusted_ok (offs, applyTrustDecision n (recordFromDecision now Deny v m ScopeServer) m s)"
    "trusted_ok (offs, applyTrustRevocation n s)" for v m
    by (rule decision_trusted, simp_all) (rule revocation_trusted)
  then show ?thesis
    using PRevoke by (simp add: revoke_commit_def trusted_fields split: option.split)
next
  case (PReset a n f)
  assume "trusted_ok (offs, s)"
  then show ?thesis
    using PReset revocation_trusted [of offs s n] by (simp add: reset_commit_def trusted_fields Let_def)
next
  case (PAllow now n en m sc)
  assume "trusted_ok (offs, s)"
  then have "trusted_ok (offs \<union> offered e, s)" by (rule trusted_mono) simp
  then have "trusted_ok (offs \<union> offered e, applyTrustDecision n (recordFromDecision now Allow (re_version en) m sc) m s)"
    by (rule decision_trusted) (simp_all add: PAllow)
  then show ?thesis using PAllow by (simp add: allow_commit_def trusted_fields)
qed (auto simp: trusted_fields dismissPluginCard_def dismissPluginModal_def
  dismissPluginToast_def emptyPluginTier1Slice_def)

interpretation pl: event_machine offering_step trusted_ok
proof
  show "trusted_ok (offering_step w e)" if "trusted_ok w" for w e
    using that step_trusted [of "fst w" "snd w" e] by (simp add: offering_step_def)
qed

lemma empty_trusted: "trusted_ok ({}, emptyPluginTier1Slice)"
  by (simp add: trusted_ok_def emptyPluginTier1Slice_def)

lemma offering_run: "foldl offering_step (offs, s) es = (offs \<union> \<Union> (offered ` set es), foldl plugin_step s es)"
  by (induction es arbitrary: offs s) (auto simp: offering_step_def)

section \<open>The gate\<close>

lemma kind_of_normalise [simp]: "kind_of (normaliseInboundResponse r) = kind_of r"
  by (cases r) simp_all

lemma accepted_gated: "c \<in> set (acceptedCapabilitiesFor k) \<Longrightarrow> is_gated c"
  by (cases k) (auto simp: is_gated_def)

lemma permits_needs_gated:
  assumes "manifestPermitsResponse m k"
  obtains c where "c \<in> set (acceptedCapabilitiesFor k)" and "c \<in> set (gated m)"
proof -
  have "acceptedCapabilitiesFor k \<noteq> []" by (cases k) simp_all
  then obtain c where "c \<in> set (acceptedCapabilitiesFor k)" and "c \<in> set (or_else (mf_capabilities m) [])"
    using assms by (auto simp: manifestPermitsResponse_def list_ex_iff Let_def)
  then show ?thesis using that accepted_gated by (auto simp: gated_def)
qed

definition legacy_plugin :: "tier1_slice \<Rightarrow> string \<Rightarrow> bool" where
  "legacy_plugin s n \<longleftrightarrow> map_get (pluginManifests s) n = None \<and> registry_manifest n s = None"

definition consented :: "offers \<Rightarrow> tier1_slice \<Rightarrow> string \<Rightarrow> response_kind \<Rightarrow> bool" where
  "consented offs s n k \<longleftrightarrow>
     (\<exists>m r c. map_get (pluginManifests s) n = Some m \<and> map_get (pluginTrust s) n = Some r \<and> tr_decision r = Allow
        \<and> (n, tr_version r, m) \<in> offs \<and> set (gated m) \<subseteq> set (tr_capabilities r)
        \<and> c \<in> set (gated m) \<and> c \<in> set (acceptedCapabilitiesFor k))"

lemma allowed_cases:
  assumes "trusted_ok (offs, s)" and "pluginResponseAllowed s n k"
  shows "consented offs s n k \<or> (legacy_plugin s n \<and> k \<noteq> KChatMessage)"
proof (cases "map_get (pluginManifests s) n")
  case None
  then show ?thesis
    using assms(2) by (auto simp: pluginResponseAllowed_def legacy_plugin_def registry_manifest_def Let_def
      split: option.splits if_splits)
next
  case (Some m)
  then have permits: "manifestPermitsResponse m k" using assms(2) by (simp add: pluginResponseAllowed_def)
  then obtain c where c: "c \<in> set (acceptedCapabilitiesFor k)" "c \<in> set (gated m)" by (rule permits_needs_gated)
  moreover have "backed offs (pluginTrust s) n m" using assms(1) Some by (simp add: trusted_fields)
  ultimately have "consented offs s n k" using Some by (auto simp: backed_def exempt_def consented_def)
  then show ?thesis by simp
qed

text \<open>
  C17: A plugin acts only with consent.  Through any interleaving of registry refreshes, decisions, revocations,
  responses and disconnects, a response that changes anything on screen or touches the chat history comes from a
  plugin whose manifest is in force, and the user has allowed the very version this manifest was offered under, with
  all capabilities the manifest asks for, one of which covers this kind of response; or it comes from a plugin
  that ships no manifest, and the latter never injects chat messages.
\<close>

theorem plugin_acts_only_with_consent:
  assumes "s = foldl plugin_step emptyPluginTier1Slice es"
    and "dispatch_response cid n raw ch s \<noteq> (s, [])"
  shows "consented (\<Union> (offered ` set es)) s n (kind_of raw)
    \<or> (legacy_plugin s n \<and> kind_of raw \<noteq> KChatMessage
        \<and> list_all (\<lambda>out. case out of InjectMessage _ _ _ _ _ \<Rightarrow> False | _ \<Rightarrow> True) (snd (dispatch_response cid n raw ch s)))"
proof -
  have ok: "trusted_ok (\<Union> (offered ` set es), s)"
    using pl.run_inv [OF empty_trusted, of es] assms(1) by (simp add: offering_run)
  have allowed: "pluginResponseAllowed s n (kind_of raw)"
    using assms(2) by (auto simp: dispatch_response_def Let_def split: if_splits)
  have "kind_of raw \<noteq> KChatMessage \<Longrightarrow>
      list_all (\<lambda>out. case out of InjectMessage _ _ _ _ _ \<Rightarrow> False | _ \<Rightarrow> True) (snd (dispatch_response cid n raw ch s))"
    by (cases raw) (auto simp: dispatch_response_def response_effects_def Let_def)
  then show ?thesis using allowed_cases [OF ok allowed] by blast
qed

definition example_manifest :: client_manifest where
  "example_manifest = \<lparr>mf_schema_version = Some 2, mf_slash_commands = None, mf_capabilities = Some [Components],
     mf_settings_panels = None\<rparr>"

definition example_entry :: registry_entry where
  "example_entry = \<lparr>re_pluginName = ''dice'', re_version = ''1'', re_pluginSlot = None,
     re_infoJson = Some (ManifestInfo example_manifest)\<rparr>"

lemmas example_defs = example_manifest_def example_entry_def

theorem plugin_acts_only_with_consent_witness:
  "let es = [PReconcile None [example_entry] [], PAllow 0 ''dice'' example_entry example_manifest ScopeServer];
       s = foldl plugin_step emptyPluginTier1Slice es;
       raw = ChatMessage ''m'' None (Some ''rolled 6'') None None
   in consented (\<Union> (offered ` set es)) s ''dice'' (kind_of raw)
    \<or> (legacy_plugin s ''dice'' \<and> kind_of raw \<noteq> KChatMessage
        \<and> list_all (\<lambda>out. case out of InjectMessage _ _ _ _ _ \<Rightarrow> False | _ \<Rightarrow> True)
            (snd (dispatch_response ''c'' ''dice'' raw None s)))"
  unfolding Let_def
  by (rule plugin_acts_only_with_consent [OF refl]) (simp add: dispatch_response_def pluginResponseAllowed_def
    allow_commit_def applyTrustDecision_def manifestPermitsResponse_def response_effects_def example_defs Let_def)

section \<open>Reconciliation\<close>

lemma registry_manifests_other:
  "n \<notin> re_pluginName ` set es \<Longrightarrow> map_get (fst (foldl (apply_entry sid trust) acc es)) n = map_get (fst acc) n"
proof (induction es arbitrary: acc)
  case (Cons e es)
  obtain ms ps q where "acc = (ms, ps, q)" by (cases acc)
  then show ?case using Cons by (auto simp: apply_entry_granted split: option.split)
qed simp

lemma registry_queue:
  "map tp_pluginName (snd (snd (foldl (apply_entry sid trust) acc es))) = map tp_pluginName (snd (snd acc)) @
     map re_pluginName (filter (\<lambda>e. \<exists>m. parseClientManifest (re_infoJson e) = Some m \<and> asks trust e m) es)"
proof (induction es arbitrary: acc)
  case (Cons e es)
  obtain ms ps q where acc: "acc = (ms, ps, q)" by (cases acc)
  show ?case
    using Cons.IH [of "apply_entry sid trust acc e"]
    by (simp add: acc apply_entry_queue split: option.split)
qed simp

lemma registry_manifest_of:
  assumes "distinct (map re_pluginName es)" and "e \<in> set es" and "map_get (fst acc) (re_pluginName e) = None"
  shows "map_get (fst (foldl (apply_entry sid trust) acc es)) (re_pluginName e) =
    (case parseClientManifest (re_infoJson e) of
       Some m \<Rightarrow> if grants trust e m then Some m else None | None \<Rightarrow> None)"
  using assms
proof (induction es arbitrary: acc)
  case (Cons d es)
  obtain ms ps q where acc: "acc = (ms, ps, q)" by (cases acc)
  show ?case
  proof (cases "e = d")
    case True
    then have "re_pluginName e \<notin> re_pluginName ` set es" using Cons.prems(1) by auto
    from registry_manifests_other [OF this, of sid trust "apply_entry sid trust acc d"] show ?thesis
      using True Cons.prems(3) by (auto simp: acc apply_entry_granted split: option.split)
  next
    case False
    then have "re_pluginName e \<in> set (map re_pluginName es)" using Cons.prems(2) by simp
    then have "re_pluginName e \<noteq> re_pluginName d"
      using Cons.prems(1) by (metis distinct.simps(2) list.simps(9))
    then have "map_get (fst (apply_entry sid trust acc d)) (re_pluginName e) = None"
      using Cons.prems(3) by (auto simp: acc apply_entry_granted split: option.split)
    then show ?thesis using Cons False by simp
  qed
qed simp

lemma reconcile_fields:
  "pluginManifests (reconcile_commit sid entries eff s) = fst (applyRegistryWithTrust sid entries eff)"
  "pluginTrustQueue (reconcile_commit sid entries eff s) = snd (snd (applyRegistryWithTrust sid entries eff))"
  by (simp_all add: reconcile_commit_def split: prod.split)

lemma reconcile_manifest_of:
  "distinct (map re_pluginName entries) \<Longrightarrow> e \<in> set entries \<Longrightarrow>
     map_get (pluginManifests (reconcile_commit sid entries eff s)) (re_pluginName e) =
       (case parseClientManifest (re_infoJson e) of Some m \<Rightarrow> if grants eff e m then Some m else None | None \<Rightarrow> None)"
  using registry_manifest_of [of entries e "([], [], [])" sid eff]
  by (simp add: reconcile_fields applyRegistryWithTrust_def)

lemma reconcile_queue_of:
  assumes "distinct (map re_pluginName entries)" and "e \<in> set entries"
  shows "re_pluginName e \<in> tp_pluginName ` set (pluginTrustQueue (reconcile_commit sid entries eff s)) \<longleftrightarrow>
    (\<exists>m. parseClientManifest (re_infoJson e) = Some m \<and> asks eff e m)"
proof -
  have queue: "tp_pluginName ` set (pluginTrustQueue (reconcile_commit sid entries eff s)) = re_pluginName `
      {d \<in> set entries. \<exists>m. parseClientManifest (re_infoJson d) = Some m \<and> asks eff d m}"
    using arg_cong [OF registry_queue [of sid eff "([], [], [])" entries], of set]
    by (simp add: reconcile_fields applyRegistryWithTrust_def)
  have inj: "d = e" if "d \<in> set entries" "re_pluginName d = re_pluginName e" for d
    using that assms by (metis distinct_map inj_onD)
  show ?thesis
    unfolding queue
  proof
    assume "re_pluginName e \<in> re_pluginName `
      {d \<in> set entries. \<exists>m. parseClientManifest (re_infoJson d) = Some m \<and> asks eff d m}"
    then show "\<exists>m. parseClientManifest (re_infoJson e) = Some m \<and> asks eff e m" using inj by force
  qed (use assms(2) in blast)
qed

text \<open>
  A registry refresh sorts the plugins exactly.  A plugin with a usable manifest is honoured
  exactly when it needs no consent or an allowing record covers its version and capabilities; it
  is put to the user exactly when it needs consent and no record covers it; a plugin that left
  the registry is not honoured any more.
\<close>

theorem reconcile_sorts_plugins:
  assumes "distinct (map re_pluginName entries)" and "e \<in> set entries"
    and "s' = reconcile_commit sid entries eff s"
  shows "map_get (pluginManifests s') (re_pluginName e) =
      (case parseClientManifest (re_infoJson e) of Some m \<Rightarrow> if grants eff e m then Some m else None | None \<Rightarrow> None)
    \<and> (re_pluginName e \<in> tp_pluginName ` set (pluginTrustQueue s') \<longleftrightarrow>
        (\<exists>m. parseClientManifest (re_infoJson e) = Some m \<and> asks eff e m))
    \<and> (n \<notin> re_pluginName ` set entries \<longrightarrow> map_get (pluginManifests s') n = None)"
  unfolding assms(3)
  using reconcile_manifest_of [OF assms(1,2)] reconcile_queue_of [OF assms(1,2)]
    registry_manifests_other [of n entries sid eff "([], [], [])"]
  by (simp add: reconcile_fields applyRegistryWithTrust_def)

theorem reconcile_sorts_plugins_witness:
  "let s' = reconcile_commit None [example_entry] [] emptyPluginTier1Slice in
   map_get (pluginManifests s') ''dice'' =
      (case parseClientManifest (re_infoJson example_entry) of
         Some m \<Rightarrow> if grants [] example_entry m then Some m else None | None \<Rightarrow> None)
    \<and> (''dice'' \<in> tp_pluginName ` set (pluginTrustQueue s') \<longleftrightarrow>
        (\<exists>m. parseClientManifest (re_infoJson example_entry) = Some m \<and> asks [] example_entry m))
    \<and> (''chess'' \<notin> re_pluginName ` set [example_entry] \<longrightarrow> map_get (pluginManifests s') ''chess'' = None)"
  using reconcile_sorts_plugins [of "[example_entry]" example_entry _ None "[]" emptyPluginTier1Slice "''chess''"]
  by (simp add: example_entry_def)

section \<open>Revocation\<close>






















text \<open>
  Where a denial does not last: recorded under the identifier of an earlier session (the bucket
  older builds wrote) it loses to a grant for all servers, although a denial of one server is
  meant to win over a global grant.
\<close>

lemma legacy_deny_overridden:
  "let allow = recordFromDecision 0 Allow ''1'' example_manifest ScopeGlobal;
       deny = recordFromDecision 1 Deny ''1'' example_manifest ScopeServer;
       store = [(GLOBAL_KEY, [(''dice'', allow)]), (''uuid'', [(''dice'', deny)])]
   in map_get (loadServerTrust store (Some ''uuid'')) ''dice'' = Some deny
    \<and> map_get (stored_trust store (Some ''h:1:u'', Some ''uuid'')) ''dice'' = Some allow"
  by (simp add: loadServerTrust_def stored_trust_def spread_def keyFor_def GLOBAL_KEY_def Let_def)

section \<open>Bulk decisions\<close>

lemma writeRecords_Cons:
  "rs \<noteq> [] \<Longrightarrow> writeRecords k (r # rs) store = writeRecords k rs (writeRecords k [r] store)"
  using spread_append [of _ "[r]" rs] by (simp add: writeRecords_def map_set_set)

lemma save_decision_Cons:
  "rs \<noteq> [] \<Longrightarrow> save_decision key d sc (r # rs) store = save_decision key d sc rs (save_decision key d sc [r] store)"
  using writeRecords_Cons [of rs GLOBAL_KEY r store] writeRecords_Cons [of rs "keyFor key" r store]
  by (simp add: save_decision_def saveGlobalTrustRecords_def saveTrustRecords_def)

lemma find_filter_other:
  "n \<noteq> n' \<Longrightarrow> List.find (\<lambda>p. tp_pluginName p = n) (filter (\<lambda>p. tp_pluginName p \<noteq> n') q)
     = List.find (\<lambda>p. tp_pluginName p = n) q"
  by (induction q) auto

lemma resolve_commit_queue:
  "pluginTrustQueue (resolve_commit now d sc s p) = filter (\<lambda>q. tp_pluginName q \<noteq> tp_pluginName p) (pluginTrustQueue s)"
  by (simp add: resolve_commit_def applyTrustDecision_def Let_def)

lemma map_filter_queue:
  "n \<notin> set ns \<Longrightarrow> List.map_filter (\<lambda>m. List.find (\<lambda>p. tp_pluginName p = m) (filter (\<lambda>p. tp_pluginName p \<noteq> n) q)) ns
     = List.map_filter (\<lambda>m. List.find (\<lambda>p. tp_pluginName p = m) q) ns"
  by (induction ns) (auto simp: map_filter_simps find_filter_other split: option.split)

text \<open>
  Deciding in bulk is deciding one by one: the same prompts are resolved, the same slice results
  and the same records are on disk as if each named plugin had been decided in turn, without the
  lost updates that parallel writes would have.
\<close>

theorem bulk_decision_is_sequential:
  assumes "distinct names"
  shows "resolvePluginTrustBulk now key names d sc st
    = foldl (\<lambda>st n. resolvePluginTrust now key n d sc st) st names"
  using assms
proof (induction names arbitrary: st)
  case Nil
  then show ?case by (simp add: resolvePluginTrustBulk_def map_filter_simps split: prod.split)
next
  case (Cons n ns)
  obtain store s where st: "st = (store, s)" by (cases st)
  show ?case
  proof (cases "List.find (\<lambda>p. tp_pluginName p = n) (pluginTrustQueue s)")
    case None
    then have "resolvePluginTrust now key n d sc st = st"
      and "resolvePluginTrustBulk now key (n # ns) d sc st = resolvePluginTrustBulk now key ns d sc st"
      by (simp_all add: st resolvePluginTrust_def resolvePluginTrustBulk_def map_filter_simps)
    then show ?thesis using Cons by simp
  next
    case (Some p)
    then have name: "tp_pluginName p = n" using find_Some_in by fastforce
    let ?st1 = "(save_decision key d sc [(n, decision_record now d sc p)] store, resolve_commit now d sc s p)"
    let ?ps = "List.map_filter (\<lambda>m. List.find (\<lambda>p. tp_pluginName p = m) (pluginTrustQueue s)) ns"
    have bulk: "resolvePluginTrustBulk now key ns d sc ?st1 = (if ?ps = [] then ?st1
      else (save_decision key d sc (map (\<lambda>p. (tp_pluginName p, decision_record now d sc p)) ?ps) (fst ?st1),
            foldl (resolve_commit now d sc) (snd ?st1) ?ps))"
      using Cons.prems map_filter_queue [of n ns "pluginTrustQueue s"]
      by (simp add: resolvePluginTrustBulk_def resolve_commit_queue name Let_def)
    have "resolvePluginTrustBulk now key (n # ns) d sc st = resolvePluginTrustBulk now key ns d sc ?st1"
      unfolding bulk using Some
      by (simp add: st resolvePluginTrustBulk_def map_filter_simps name Let_def
        save_decision_Cons [of "map f xs" for f xs])
    also have "\<dots> = foldl (\<lambda>st n. resolvePluginTrust now key n d sc st) ?st1 ns"
      using Cons by simp
    finally show ?thesis using Some by (simp add: st resolvePluginTrust_def)
  qed
qed

theorem bulk_decision_is_sequential_witness:
  "let st = ([], reconcile_commit None [example_entry] [] emptyPluginTier1Slice)
   in resolvePluginTrustBulk 3 None [''dice'', ''chess''] Allow ScopeGlobal st
    = foldl (\<lambda>st n. resolvePluginTrust 3 None n Allow ScopeGlobal st) st [''dice'', ''chess'']"
  unfolding Let_def by (rule bulk_decision_is_sequential) simp

section \<open>Settings panels\<close>

definition plain_name :: "string \<Rightarrow> bool" where
  "plain_name n \<longleftrightarrow> CHR '':'' \<notin> set n"

definition panel_ok :: "(string, client_manifest) jmap \<Rightarrow> string \<times> plugin_panel \<Rightarrow> bool" where
  "panel_ok ms p \<longleftrightarrow> fst p = panelKey (pp_pluginName (snd p)) (pp_panelId (snd p))
     \<and> plain_name (pp_pluginName (snd p)) \<and> map_has ms (pp_pluginName (snd p))"

definition panels_ok :: "tier1_slice \<Rightarrow> bool" where
  "panels_ok s \<longleftrightarrow> list_all (panel_ok (pluginManifests s)) (pluginPanels s)"

lemma panelKey_inj: "plain_name a \<Longrightarrow> plain_name b \<Longrightarrow> panelKey a i = panelKey b j \<Longrightarrow> a = b \<and> i = j"
proof (induction a arbitrary: b)
  case Nil
  then show ?case by (cases b) (auto simp: panelKey_def plain_name_def)
next
  case (Cons x a)
  then show ?case by (cases b) (auto simp: panelKey_def plain_name_def)
qed

lemma list_all_map_set: "list_all P m \<Longrightarrow> P (k, v) \<Longrightarrow> list_all P (map_set k v m)"
  by (induction k v m rule: map_set.induct) auto

lemma panel_ok_set: "panel_ok ms p \<Longrightarrow> panel_ok (map_set n m ms) p"
  by (auto simp: panel_ok_def map_has_def)

lemma seedPanels_ok:
  assumes "plain_name n" and "list_all (panel_ok ms) ps"
  shows "list_all (panel_ok (map_set n m ms)) (seedPanels ps n m)"
proof -
  have "list_all (panel_ok (map_set n m ms)) ps" using assms(2) panel_ok_set by (force simp: list_all_iff)
  then have "list_all (panel_ok (map_set n m ms)) (foldl (seed_panel n) ps panels)" for panels
  proof (induction panels arbitrary: ps)
    case (Cons x panels)
    from Cons.prems have "list_all (panel_ok (map_set n m ms)) (seed_panel n ps x)"
      unfolding seed_panel_def by (rule list_all_map_set) (simp add: panel_ok_def assms(1) map_has_def)
    then show ?case using Cons.IH by simp
  qed simp
  then show ?thesis by (simp add: seedPanels_def)
qed

lemma drop_panels_subset: "set (drop_panels n ps) \<subseteq> {p \<in> set ps. \<not> starts_with (fst p) (n @ '':'')}"
proof -
  have "set (foldl (\<lambda>m k. if starts_with k (n @ '':'') then map_del k m else m) m ks)
      \<subseteq> {p \<in> set m. fst p \<in> set ks \<longrightarrow> \<not> starts_with (fst p) (n @ '':'')}" for m :: "(string, plugin_panel) jmap" and ks
  proof (induction ks arbitrary: m)
    case (Cons k ks)
    show ?case using Cons.IH [of "if starts_with k (n @ '':'') then map_del k m else m"]
      by (auto simp: map_del_def split: if_splits)
  qed auto
  from this [of ps "map_keys ps"] show ?thesis by (force simp: drop_panels_def map_keys_def)
qed

lemma drop_panels_ok:
  "list_all (panel_ok ms) ps \<Longrightarrow> list_all (panel_ok (map_del n ms)) (drop_panels n ps)"
  unfolding list_all_iff
proof
  fix p assume all: "\<forall>p \<in> set ps. panel_ok ms p" and "p \<in> set (drop_panels n ps)"
  then have "p \<in> set ps" and other: "\<not> starts_with (fst p) (n @ '':'')" using drop_panels_subset by auto
  then have ok: "panel_ok ms p" using all by simp
  then have "pp_pluginName (snd p) \<noteq> n"
    using other by (auto simp: panel_ok_def starts_with_def panelKey_def)
  then show "panel_ok (map_del n ms) p" using ok by (simp add: panel_ok_def map_has_def)
qed

lemma keep_rows_ok:
  assumes "list_all (panel_ok ms) fresh"
    and "list_all (panel_ok ms') old"
  shows "list_all (panel_ok ms) (keep_rows fresh old)"
  using assms
proof (induction old arbitrary: fresh)
  case (Cons p old)
  have "list_all (panel_ok ms) (if map_has fresh (fst p) then map_set (fst p) (snd p) fresh else fresh)"
  proof (cases "map_has fresh (fst p)")
    case True
    then obtain q where "(fst p, q) \<in> set fresh" by (auto simp: map_has_def dest: map_get_in_set)
    then have q: "panel_ok ms (fst p, q)" using Cons.prems(1) by (auto simp: list_all_iff)
    have key: "panel_ok ms' p" using Cons.prems(2) by simp
    have "panelKey (pp_pluginName (snd p)) (pp_panelId (snd p)) = panelKey (pp_pluginName q) (pp_panelId q)"
      using q key by (metis panel_ok_def fst_conv snd_conv)
    then have "pp_pluginName (snd p) = pp_pluginName q"
      using q key panelKey_inj by (metis panel_ok_def snd_conv)
    then have "panel_ok ms (fst p, snd p)" using q Cons.prems(2) by (simp add: panel_ok_def)
    then show ?thesis using Cons.prems(1) by (simp add: list_all_map_set)
  qed (use Cons.prems(1) in simp)
  then show ?case using Cons by (simp add: keep_rows_def)
qed (simp add: keep_rows_def)

lemma registry_panels_ok:
  "list_all (panel_ok (fst acc)) (fst (snd acc)) \<Longrightarrow> list_all (\<lambda>e. plain_name (re_pluginName e)) es \<Longrightarrow>
    list_all (panel_ok (fst (foldl (apply_entry sid trust) acc es))) (fst (snd (foldl (apply_entry sid trust) acc es)))"
proof (induction es arbitrary: acc)
  case (Cons e es)
  obtain ms ps q where acc: "acc = (ms, ps, q)" by (cases acc)
  have "list_all (panel_ok (fst (apply_entry sid trust acc e))) (fst (snd (apply_entry sid trust acc e)))"
    using Cons.prems
    by (auto simp: acc apply_entry_def Let_def intro!: seedPanels_ok split: option.split trust_status.split)
  then show ?case using Cons by simp
qed simp

fun plain_event :: "plugin_event \<Rightarrow> bool" where
  "plain_event (PReconcile sid es eff) = list_all (\<lambda>e. plain_name (re_pluginName e)) es"
| "plain_event (PResolve now d sc ps) = list_all (\<lambda>p. plain_name (tp_pluginName p)) ps"
| "plain_event (PAllow now n e m sc) = plain_name n"
| "plain_event e = True"

lemma decision_panels: "panels_ok s \<Longrightarrow> plain_name n \<or> tr_decision r = Deny \<Longrightarrow> panels_ok (applyTrustDecision n r m s)"
  by (auto simp: panels_ok_def applyTrustDecision_def Let_def seedPanels_ok drop_panels_ok)

lemma revocation_panels: "panels_ok s \<Longrightarrow> panels_ok (applyTrustRevocation n s)"
  by (simp add: panels_ok_def applyTrustRevocation_def drop_panels_ok)

lemma response_panels: "panels_ok s \<Longrightarrow> panels_ok (applyInteractionResponse cid n r ch s)"
proof (cases r)
  case (UpdatePanel pid rows)
  assume ok: "panels_ok s"
  then have "panel_ok (pluginManifests s) (panelKey n pid, p)"
    if "map_get (pluginPanels s) (panelKey n pid) = Some p" for p
    using map_get_in_set [OF that] by (auto simp: panels_ok_def list_all_iff)
  then show ?thesis
    using ok UpdatePanel by (auto simp: applyUpdatePanel_def panels_ok_def panel_ok_def Let_def
      intro!: list_all_map_set split: option.split)
qed (simp_all add: panels_ok_def applyUpdateMessage_def)

lemma resolve_panels:
  "panels_ok s \<Longrightarrow> list_all (\<lambda>p. plain_name (tp_pluginName p)) ps \<Longrightarrow> panels_ok (foldl (resolve_commit now d sc) s ps)"
proof (induction ps arbitrary: s)
  case (Cons p ps)
  have "panels_ok (resolve_commit now d sc s p)"
    using Cons.prems decision_panels [of s "tp_pluginName p" "decision_record now d sc p" "tp_manifest p"]
    by (simp add: resolve_commit_def panels_ok_def Let_def)
  then show ?case using Cons by simp
qed simp

lemma reconcile_panels:
  assumes "panels_ok s" and "list_all (\<lambda>e. plain_name (re_pluginName e)) es"
  shows "panels_ok (reconcile_commit sid es eff s)"
proof -
  obtain ms ps q where acc: "applyRegistryWithTrust sid es eff = (ms, ps, q)"
    by (cases "applyRegistryWithTrust sid es eff")
  then have "list_all (panel_ok ms) ps"
    using registry_panels_ok [of "([], [], [])" es sid eff] assms(2) by (simp add: applyRegistryWithTrust_def)
  then have "list_all (panel_ok ms) (keep_rows ps (pluginPanels s))"
    using assms(1) unfolding panels_ok_def by (rule keep_rows_ok)
  then show ?thesis by (simp add: panels_ok_def reconcile_commit_def acc)
qed

lemma step_panels: "panels_ok s \<Longrightarrow> plain_event e \<Longrightarrow> panels_ok (plugin_step s e)"
proof (cases e)
  case (PRevoke now n t)
  assume "panels_ok s"
  then show ?thesis
    using PRevoke decision_panels [of s n] revocation_panels [of s n]
    by (auto simp: revoke_commit_def panels_ok_def split: option.split)
next
  case (PReset a n f)
  assume "panels_ok s"
  then show ?thesis using PReset revocation_panels [of s n] by (simp add: reset_commit_def panels_ok_def Let_def)
next
  case (PAllow now n en m sc)
  assume "panels_ok s" and "plain_event e"
  then show ?thesis
    using PAllow decision_panels [of s n "recordFromDecision now Allow (re_version en) m sc" m]
    by (simp add: allow_commit_def panels_ok_def)
next
  case (PResponse cid n raw ch)
  assume "panels_ok s"
  then show ?thesis using PResponse response_panels by (simp add: dispatch_response_def Let_def)
qed (auto simp: reconcile_panels resolve_panels, auto simp: panels_ok_def dismissPluginCard_def dismissPluginModal_def
  dismissPluginToast_def emptyPluginTier1Slice_def)

text \<open>
  Only honoured plugins have settings panels.  With plugin names free of the separator, through any
  interleaving every panel shown belongs to a plugin whose manifest is honoured, under the key of
  that plugin and panel: the panels of a denied, revoked or departed plugin are gone.
\<close>

theorem panels_only_of_honoured:
  assumes "list_all plain_event es" and "s = foldl plugin_step emptyPluginTier1Slice es"
    and "map_get (pluginPanels s) k = Some p"
  shows "map_has (pluginManifests s) (pp_pluginName p) \<and> k = panelKey (pp_pluginName p) (pp_panelId p)"
proof -
  have "panels_ok s0 \<Longrightarrow> panels_ok (foldl plugin_step s0 es)" for s0
    using assms(1) by (induction es arbitrary: s0) (auto simp: step_panels)
  moreover have "panels_ok emptyPluginTier1Slice" by (simp add: panels_ok_def emptyPluginTier1Slice_def)
  ultimately have "panels_ok s" by (simp add: assms(2))
  then show ?thesis using map_get_in_set [OF assms(3)] by (auto simp: panels_ok_def panel_ok_def list_all_iff)
qed

definition example_panel :: settings_panel where
  "example_panel = \<lparr>sp_id = ''main'', sp_title = ''Dice'', sp_rows = None\<rparr>"

theorem panels_only_of_honoured_witness:
  "let s = foldl plugin_step emptyPluginTier1Slice [PAllow 0 ''dice'' example_entry
             (example_manifest\<lparr>mf_settings_panels := Some [example_panel]\<rparr>) ScopeOnce];
       p = \<lparr>pp_pluginName = ''dice'', pp_panelId = ''main'', pp_title = ''Dice'', pp_rows = []\<rparr>
   in map_has (pluginManifests s) (pp_pluginName p) \<and> ''dice:main'' = panelKey (pp_pluginName p) (pp_panelId p)"
  unfolding Let_def
  by (rule panels_only_of_honoured [OF _ refl]) (simp_all add: plain_name_def allow_commit_def applyTrustDecision_def
    recordFromDecision_def seedPanels_def seed_panel_def panelKey_def example_panel_def emptyPluginTier1Slice_def Let_def)

end
