(* ===== verification/PluginDispatch.thy ===== *)
theory PluginDispatch
  imports Connection PluginGate
begin

text \<open>
  What the store does with plugin traffic and server settings: the dispatcher of plugin messages,
  the lifecycle of server plugins, the configuration broadcasts of the file server, live documents
  and emotes, and the guards of the file-server actions (\<open>store.ts\<close>, \<open>store/fileServer.ts\<close>,
  \<open>constants/pluginData.ts\<close>); then the voice and directory listeners.  Payloads are represented by
  what decoding makes of them (\<open>BadPayload\<close> when it throws); the socket URL of an invite and of the
  live-doc configuration is taken after \<open>sanitiseWsUrl\<close>.  The text of the activity-log entry comes
  from the translation catalogue, the argument \<open>tr\<close>.
\<close>

section \<open>Plugin lifecycle\<close>

definition PLUGIN_NAME_FILE_SERVER :: string where
  "PLUGIN_NAME_FILE_SERVER = ''fancy-file-server''"

definition PLUGIN_NAME_LIVE_DOC :: string where
  "PLUGIN_NAME_LIVE_DOC = ''fancy-live-doc''"

definition upd_plugins :: "(plugin_slice \<Rightarrow> plugin_slice) \<Rightarrow> app_state \<Rightarrow> app_state" where
  "upd_plugins f a = a\<lparr>a_plugins := f (a_plugins a)\<rparr>"

definition set_custom_reactions :: "custom_reaction list \<Rightarrow> app_state \<Rightarrow> app_state" where
  "set_custom_reactions rs a =
     a\<lparr>a_reactions := (setServerCustomReactions rs (fst (a_reactions a)), snd (a_reactions a))\<rparr>"

definition recordPluginDisabled :: "(string \<Rightarrow> string) \<Rightarrow> int \<Rightarrow> string \<Rightarrow> app_state \<Rightarrow> app_state" where
  "recordPluginDisabled tr now name a =
     (let isFs = (name = PLUGIN_NAME_FILE_SERVER); isDoc = (name = PLUGIN_NAME_LIVE_DOC);
          viewOpen = (if isFs then fileServerAdminOpen (a_plugins a)
                      else if isDoc then activeLiveDocs (a_docs a) \<noteq> [] else False);
          a1 = upd_plugins (\<lambda>s. s\<lparr>
                 pluginInfos := map_del name (pluginInfos s),
                 fileServerConfig := (if isFs then None else fileServerConfig s),
                 fileServerCapabilities := (if isFs then None else fileServerCapabilities s),
                 customServerEmotes := (if isFs then [] else customServerEmotes s),
                 liveDocPluginConfig := (if isDoc \<and> \<not> isFs then None else liveDocPluginConfig s),
                 pluginDisabledNotice := (if viewOpen then Some name else pluginDisabledNotice s)\<rparr>) a;
          a2 = a1\<lparr>a_dir := (a_dir a1)\<lparr>serverLog := serverLog (a_dir a1)
                 @ [\<lparr>le_timestamp_ms = now, le_message = tr name\<rparr>]\<rparr>\<rparr>
      in if isFs then set_custom_reactions [] a2 else a2)"

definition dismissPluginDisabledNotice :: "app_state \<Rightarrow> app_state" where
  "dismissPluginDisabledNotice a =
     (case pluginDisabledNotice (a_plugins a) of
        None \<Rightarrow> a
      | Some name \<Rightarrow>
          (let a1 = upd_plugins (\<lambda>s. s\<lparr>pluginDisabledNotice := None\<rparr>) a
           in if name = PLUGIN_NAME_LIVE_DOC \<and> activeLiveDocs (a_docs a) \<noteq> []
              then a1\<lparr>a_docs := (a_docs a1)\<lparr>activeLiveDocs := []\<rparr>\<rparr> else a1))"

definition setFileServerAdminOpen :: "bool \<Rightarrow> app_state \<Rightarrow> app_state" where
  "setFileServerAdminOpen opened a = upd_plugins (\<lambda>s. s\<lparr>fileServerAdminOpen := opened\<rparr>) a"

section \<open>Plugin messages\<close>

datatype plugin_payload =
    BadPayload
  | InvitePayload live_doc_invite
  | AnnouncePayload live_doc_announce_event
  | SharedPayload string "string list option"
  | ResponsePayload response

record plugin_message =
  pg_pluginName :: string
  pg_pluginSlot :: "int option"
  pg_payloadType :: string
  pg_payload :: plugin_payload
  pg_targetSessions :: "int list"
  pg_channelId :: "int option"
  pg_senderSession :: "int option"
  pg_senderName :: "string option"

datatype dispatch_out = DocOut doc_out | ChatOut plugin_out | SharedWith string "string list"

definition decodeInteractionResponse :: "string \<Rightarrow> plugin_payload \<Rightarrow> response option" where
  "decodeInteractionResponse payloadType payload =
     (if payloadType \<noteq> ''InteractionResponse'' then None
      else (case payload of ResponsePayload r \<Rightarrow> Some r | _ \<Rightarrow> None))"

text \<open>The live-doc messages; \<open>None\<close> when the message is not one of them.\<close>

definition dispatch_live_doc ::
  "plugin_message \<Rightarrow> app_state \<Rightarrow> (app_state \<times> dispatch_out list) option" where
  "dispatch_live_doc p a =
     (if pg_pluginName p \<noteq> PLUGIN_NAME_LIVE_DOC then None
      else if pg_payloadType p = ''Invite'' then
        Some (case pg_payload p of
          InvitePayload invite \<Rightarrow>
            (case dispatchLiveDocInvite (activeServerId (a_tabs a)) (ownSession (a_dir a)) (users (a_dir a)) invite (a_docs a)
             of (d, outs) \<Rightarrow> (a\<lparr>a_docs := d\<rparr>, map DocOut outs))
        | _ \<Rightarrow> (a, []))
      else if pg_payloadType p = ''Announce'' then
        Some (case pg_payload p of
          AnnouncePayload an \<Rightarrow> (a\<lparr>a_docs := dispatchLiveDocAnnounce (activeServerId (a_tabs a)) an (a_docs a)\<rparr>, [])
        | _ \<Rightarrow> (a, []))
      else if pg_payloadType p = ''SharedWith'' then
        Some (case pg_payload p of
          SharedPayload slug members \<Rightarrow> (a, [SharedWith slug (or_else members [])])
        | _ \<Rightarrow> (a, []))
      else None)"

definition dispatchPluginMessage ::
  "(string \<Rightarrow> string) \<Rightarrow> int \<Rightarrow> string \<Rightarrow> plugin_message \<Rightarrow> app_state \<Rightarrow> app_state \<times> dispatch_out list" where
  "dispatchPluginMessage tr now cid p a =
     (if pg_payloadType p = ''PluginDeactivated'' then (recordPluginDisabled tr now (pg_pluginName p) a, [])
      else if pg_payloadType p = ''PluginActivated'' then (a, [])
      else (case dispatch_live_doc p a of
        Some res \<Rightarrow> res
      | None \<Rightarrow>
          (case decodeInteractionResponse (pg_payloadType p) (pg_payload p) of
             None \<Rightarrow> (a, [])
           | Some r \<Rightarrow>
               (case dispatch_response cid (pg_pluginName p) r (pg_channelId p) (a_tier1 a)
                of (t, outs) \<Rightarrow> (a\<lparr>a_tier1 := t\<rparr>, map ChatOut outs)))))"

section \<open>Configuration broadcasts\<close>

text \<open>\<open>s.replace(/\/+$/, "")\<close>.\<close>

definition strip_slashes :: "string \<Rightarrow> string" where
  "strip_slashes s = rev (dropWhile (\<lambda>c. c = CHR ''/'') (rev s))"

text \<open>\<open>override && override.length > 0\<close>, stripped.\<close>

definition rest_override :: "server_config \<Rightarrow> string option" where
  "rest_override cfg =
     (case sc_fancy_rest_api_url cfg of
        None \<Rightarrow> None
      | Some u \<Rightarrow> if u = '''' then None else Some (strip_slashes u))"

record raw_fs_config =
  rf_base_url :: string
  rf_session_id :: int
  rf_upload_token :: string
  rf_session_jwt :: string
  rf_max_file_size_bytes :: int
  rf_delete_on_ttl :: "bool option"
  rf_ttl_seconds :: "int option"
  rf_max_ttl_seconds :: "int option"
  rf_delete_on_download :: "bool option"
  rf_delete_on_disconnect :: "bool option"
  rf_can_manage_emotes :: "bool option"
  rf_can_share_files :: "bool option"
  rf_can_share_files_public :: "bool option"
  rf_registered :: "bool option"

definition mk_fs_config :: "server_config \<Rightarrow> raw_fs_config \<Rightarrow> file_server_config" where
  "mk_fs_config sc raw =
     (let internalBaseUrl = strip_slashes (rf_base_url raw) in
      \<lparr>fs_baseUrl = or_else (rest_override sc) internalBaseUrl,
       fs_internalBaseUrl = internalBaseUrl,
       fs_sessionId = rf_session_id raw, fs_uploadToken = rf_upload_token raw, fs_sessionJwt = rf_session_jwt raw,
       fs_maxFileSizeBytes = rf_max_file_size_bytes raw, fs_deleteOnTtl = or_else (rf_delete_on_ttl raw) False,
       fs_ttlSeconds = or_else (rf_ttl_seconds raw) 0, fs_maxTtlSeconds = or_else (rf_max_ttl_seconds raw) 0,
       fs_deleteOnDownload = or_else (rf_delete_on_download raw) False,
       fs_deleteOnDisconnect = or_else (rf_delete_on_disconnect raw) False,
       fs_canManageEmotes = or_else (rf_can_manage_emotes raw) False,
       fs_canShareFiles = or_else (rf_can_share_files raw) True,
       fs_canShareFilesPublic = or_else (rf_can_share_files_public raw) True,
       fs_registered = or_else (rf_registered raw) False\<rparr>)"

datatype plugin_data =
    FileServerData raw_fs_config
  | LiveDocData string string
  | EmotesData "custom_emote list option"
  | PluginInfoData                          \<comment> \<open>decoded by the backend, see \<open>pluginInfo_done\<close>\<close>
  | OtherData
  | MalformedData

definition emote_reaction :: "custom_emote \<Rightarrow> custom_reaction" where
  "emote_reaction e = \<lparr>cr_shortcode = '':'' @ em_shortcode e @ '':'', cr_display = em_imageDataUrl e,
     cr_label = Some (or_else (em_description e) (em_aliasEmoji e))\<rparr>"

fun processPluginDataEvent :: "plugin_data \<Rightarrow> app_state \<Rightarrow> app_state" where
  "processPluginDataEvent (FileServerData raw) a =
     upd_plugins (\<lambda>s. s\<lparr>fileServerConfig := Some (mk_fs_config (serverConfig (a_dir a)) raw)\<rparr>) a"
| "processPluginDataEvent (LiveDocData version wsBaseUrl) a =
     upd_plugins (\<lambda>s. s\<lparr>liveDocPluginConfig := Some (version, wsBaseUrl)\<rparr>) a"
| "processPluginDataEvent (EmotesData emotes) a =
     set_custom_reactions (map emote_reaction (or_else emotes []))
       (upd_plugins (\<lambda>s. s\<lparr>customServerEmotes := or_else emotes []\<rparr>) a)"
| "processPluginDataEvent PluginInfoData a = a"
| "processPluginDataEvent OtherData a = a"
| "processPluginDataEvent MalformedData a = a"

definition pluginInfo_done :: "string \<Rightarrow> string \<Rightarrow> app_state \<Rightarrow> app_state" where
  "pluginInfo_done name info a = upd_plugins (\<lambda>s. s\<lparr>pluginInfos := map_set name info (pluginInfos s)\<rparr>) a"

text \<open>\<open>server-config\<close> once the configuration has been fetched.\<close>

definition onServerConfig :: "server_config \<Rightarrow> app_state \<Rightarrow> app_state" where
  "onServerConfig cfg a =
     upd_plugins (\<lambda>s. s\<lparr>fileServerConfig := (case (rest_override cfg, fileServerConfig s) of
         (Some u, Some fs) \<Rightarrow> Some (fs\<lparr>fs_baseUrl := u\<rparr>)
       | _ \<Rightarrow> fileServerConfig s)\<rparr>) (a\<lparr>a_dir := (a_dir a)\<lparr>serverConfig := cfg\<rparr>\<rparr>)"

definition DEFAULT_FILE_SERVER_PORT :: int where
  "DEFAULT_FILE_SERVER_PORT = 64739"

definition fileServerBaseUrl :: "app_state \<Rightarrow> string option" where
  "fileServerBaseUrl a =
     (case rest_override (serverConfig (a_dir a)) of
        Some u \<Rightarrow> Some u
      | None \<Rightarrow>
          (case pendingConnect (a_conn a) of
             None \<Rightarrow> None
           | Some t \<Rightarrow> Some (''http://'' @ (if ct_host t = ''localhost'' then ''127.0.0.1'' else ct_host t)
                        @ '':'' @ show_int DEFAULT_FILE_SERVER_PORT)))"

definition capabilities_done :: "string \<Rightarrow> app_state \<Rightarrow> app_state" where
  "capabilities_done caps a = upd_plugins (\<lambda>s. s\<lparr>fileServerCapabilities := Some caps\<rparr>) a"

section \<open>File-server actions\<close>

datatype access_mode = ModePublic | ModePassword | ModeSession

datatype 'a guarded = Refused string | Sent 'a

record upload_params =
  up_filePath :: string
  up_channelId :: int
  up_mode :: access_mode
  up_password :: "string option"
  up_ttlSeconds :: "int option"
  up_filename :: "string option"
  up_mimeType :: "string option"
  up_uploadId :: "string option"

record upload_request =
  ur_baseUrl :: string
  ur_session :: int
  ur_uploadToken :: string
  ur_params :: upload_params

definition uploadFile :: "upload_params \<Rightarrow> app_state \<Rightarrow> upload_request guarded" where
  "uploadFile p a =
     (case fileServerConfig (a_plugins a) of
        None \<Rightarrow> Refused ''file-server is not configured for this server''
      | Some cfg \<Rightarrow>
          if up_mode p = ModePassword \<and> (up_password p = None \<or> up_password p = Some '''')
          then Refused ''mode=password requires a password''
          else Sent \<lparr>ur_baseUrl = fs_baseUrl cfg, ur_session = fs_sessionId cfg, ur_uploadToken = fs_uploadToken cfg,
                     ur_params = p\<lparr>up_uploadId := Some (or_else (up_uploadId p) '''')\<rparr>\<rparr>)"

datatype credential = PasswordCred string | SessionCred string

definition downloadFile :: "string option \<Rightarrow> app_state \<Rightarrow> credential option" where
  "downloadFile password a =
     (case password of
        Some pw \<Rightarrow> Some (PasswordCred pw)
      | None \<Rightarrow>
          (case fileServerConfig (a_plugins a) of
             None \<Rightarrow> None
           | Some cfg \<Rightarrow> if fs_sessionJwt cfg = '''' then None else Some (SessionCred (fs_sessionJwt cfg))))"

text \<open>The address and token the emote commands are sent with.\<close>

definition emote_request :: "app_state \<Rightarrow> (string \<times> string) guarded" where
  "emote_request a =
     (case fileServerConfig (a_plugins a) of
        None \<Rightarrow> Refused ''file-server is not configured for this server''
      | Some cfg \<Rightarrow>
          if \<not> fs_canManageEmotes cfg then Refused ''you are not allowed to manage emotes''
          else Sent (fs_baseUrl cfg, fs_sessionJwt cfg))"

section \<open>Voice and directory listeners\<close>

definition upd_voice :: "(voice_slice \<Rightarrow> voice_slice) \<Rightarrow> app_state \<Rightarrow> app_state" where
  "upd_voice f a = a\<lparr>a_voice := f (a_voice a)\<rparr>"

definition enableVoice_done :: "app_state \<Rightarrow> app_state" where
  "enableVoice_done a = upd_voice (\<lambda>v. v\<lparr>voiceState := Active, inCall := True\<rparr>) a"

definition disableVoice_done :: "app_state \<Rightarrow> app_state" where
  "disableVoice_done a = upd_voice (\<lambda>v. v\<lparr>voiceState := Inactive, inCall := False, talkingSessions := []\<rparr>) a"

definition onVoiceStateChanged :: "voice_state \<Rightarrow> app_state \<Rightarrow> app_state" where
  "onVoiceStateChanged vs a =
     upd_voice (\<lambda>v. v\<lparr>voiceState := vs, talkingSessions := (if vs = Inactive then [] else talkingSessions v)\<rparr>) a"

definition onAudioTransportChanged :: "bool \<Rightarrow> app_state \<Rightarrow> app_state" where
  "onAudioTransportChanged udp a = upd_voice (\<lambda>v. v\<lparr>udpActive := udp\<rparr>) a"

definition onStreamPopoutState :: "int \<Rightarrow> bool \<Rightarrow> app_state \<Rightarrow> app_state" where
  "onStreamPopoutState session opened a =
     upd_voice (\<lambda>v. v\<lparr>poppedOutStreamSessions := (if opened then set_add session (poppedOutStreamSessions v)
       else set_remove session (poppedOutStreamSessions v))\<rparr>) a"

definition onUserTalking :: "int \<Rightarrow> bool \<Rightarrow> app_state \<Rightarrow> app_state" where
  "onUserTalking session talking a =
     upd_voice (\<lambda>v. v\<lparr>talkingSessions := (if talking then set_add session (talkingSessions v)
       else set_remove session (talkingSessions v))\<rparr>) a"

definition onServerVersion :: "server_id option \<Rightarrow> int option \<Rightarrow> app_state \<Rightarrow> app_state" where
  "onServerVersion eventServerId fancy_version a =
     (if eventServerId \<noteq> None \<and> eventServerId \<noteq> activeServerId (a_tabs a) then a
      else a\<lparr>a_dir := (a_dir a)\<lparr>serverFancyVersion := fancy_version\<rparr>\<rparr>)"

definition MAX_LOG_ENTRIES :: nat where
  "MAX_LOG_ENTRIES = 200"

definition onServerLog :: "log_entry \<Rightarrow> app_state \<Rightarrow> app_state" where
  "onServerLog e a =
     (let l = serverLog (a_dir a) @ [e]
      in a\<lparr>a_dir := (a_dir a)\<lparr>serverLog := drop (length l - MAX_LOG_ENTRIES) l\<rparr>\<rparr>)"

text \<open>
  Silencing a channel: what is asked of the settings file (its server key and the new flag), and
  the state once the file's new list is back, with the badge count then shown.
\<close>

definition toggleSilenceChannel :: "int \<Rightarrow> app_state \<Rightarrow> (string \<times> bool) option" where
  "toggleSilenceChannel ch a =
     (case pendingConnect (a_conn a) of
        None \<Rightarrow> None
      | Some t \<Rightarrow> Some (ct_host t @ '':'' @ show_int (ct_port t), \<not> set_has (silencedChannels (a_chat a)) ch))"

definition toggleSilence_done :: "int list \<Rightarrow> app_state \<Rightarrow> app_state \<times> int option" where
  "toggleSilence_done updated a =
     (let a1 = a\<lparr>a_chat := (a_chat a)\<lparr>silencedChannels := set_of_list updated\<rparr>\<rparr>
      in (a1, updateBadgeCount (a_chat a1)))"

definition toggleMutePushChannel :: "int \<Rightarrow> app_state \<Rightarrow> (string \<times> bool) option" where
  "toggleMutePushChannel ch a =
     (case pendingConnect (a_conn a) of
        None \<Rightarrow> None
      | Some t \<Rightarrow> Some (ct_host t @ '':'' @ show_int (ct_port t), \<not> set_has (mutedPushChannels (a_dir a)) ch))"

definition toggleMutePush_done :: "int list \<Rightarrow> app_state \<Rightarrow> app_state" where
  "toggleMutePush_done updated a = a\<lparr>a_dir := (a_dir a)\<lparr>mutedPushChannels := set_of_list updated\<rparr>\<rparr>"

section \<open>Lemmas\<close>

lemma strip_slashes_last: "strip_slashes s = '''' \<or> last (strip_slashes s) \<noteq> CHR ''/''"
proof (cases "dropWhile (\<lambda>c. c = CHR ''/'') (rev s)")
  case (Cons x xs)
  then show ?thesis using dropWhile_hd [OF Cons] by (simp add: strip_slashes_def)
qed (simp add: strip_slashes_def)

lemma rest_override_last: "rest_override cfg = Some u \<Longrightarrow> u = '''' \<or> last u \<noteq> CHR ''/''"
  using strip_slashes_last by (auto simp: rest_override_def split: option.splits if_splits)

text \<open>
  The two configuration messages may arrive in either order.  The server's settings and the file
  server's own configuration, received in either order, leave the same state, with requests going
  to the announced override if there is one and to the plugin's own address otherwise, never with
  a trailing slash.  (A server that withdraws an earlier override is the exception.)
\<close>

theorem config_order_irrelevant:
  assumes "rest_override cfg \<noteq> None \<or> rest_override (serverConfig (a_dir a)) = None"
    and "a' = processPluginDataEvent (FileServerData raw) (onServerConfig cfg a)"
  shows "a' = onServerConfig cfg (processPluginDataEvent (FileServerData raw) a)
    \<and> (\<exists>c. fileServerConfig (a_plugins a') = Some c
        \<and> fs_baseUrl c = or_else (rest_override cfg) (fs_internalBaseUrl c)
        \<and> (fs_baseUrl c = '''' \<or> last (fs_baseUrl c) \<noteq> CHR ''/''))"
proof
  show "a' = onServerConfig cfg (processPluginDataEvent (FileServerData raw) a)"
    using assms by (auto simp: onServerConfig_def upd_plugins_def mk_fs_config_def Let_def split: option.split)
  have "fs_baseUrl (mk_fs_config cfg raw) = '''' \<or> last (fs_baseUrl (mk_fs_config cfg raw)) \<noteq> CHR ''/''"
    using rest_override_last [of cfg] strip_slashes_last
    by (cases "rest_override cfg") (auto simp: mk_fs_config_def Let_def)
  then show "\<exists>c. fileServerConfig (a_plugins a') = Some c
        \<and> fs_baseUrl c = or_else (rest_override cfg) (fs_internalBaseUrl c)
        \<and> (fs_baseUrl c = '''' \<or> last (fs_baseUrl c) \<noteq> CHR ''/'')"
    by (simp add: assms(2) upd_plugins_def onServerConfig_def) (simp add: mk_fs_config_def Let_def)
qed

definition example_raw :: raw_fs_config where
  "example_raw = \<lparr>rf_base_url = ''http://h:64739/'', rf_session_id = 7, rf_upload_token = ''t'', rf_session_jwt = ''j'',
     rf_max_file_size_bytes = 100, rf_delete_on_ttl = None, rf_ttl_seconds = None, rf_max_ttl_seconds = None,
     rf_delete_on_download = None, rf_delete_on_disconnect = None, rf_can_manage_emotes = Some True,
     rf_can_share_files = None, rf_can_share_files_public = None, rf_registered = None\<rparr>"

definition example_server_config :: "string option \<Rightarrow> server_config" where
  "example_server_config u = (serverConfig dir_initial)\<lparr>sc_fancy_rest_api_url := u\<rparr>"

theorem config_order_irrelevant_witness:
  "let cfg = example_server_config (Some ''https://f/''); raw = example_raw;
       a' = processPluginDataEvent (FileServerData raw) (onServerConfig cfg app_empty)
   in a' = onServerConfig cfg (processPluginDataEvent (FileServerData raw) app_empty)
    \<and> (\<exists>c. fileServerConfig (a_plugins a') = Some c
        \<and> fs_baseUrl c = or_else (rest_override cfg) (fs_internalBaseUrl c)
        \<and> (fs_baseUrl c = '''' \<or> last (fs_baseUrl c) \<noteq> CHR ''/''))"
  unfolding Let_def
  by (rule config_order_irrelevant [OF _ refl]) (simp add: example_server_config_def rest_override_def)

text \<open>
  The exception: when the server withdraws the override, the file server's configuration keeps
  the old one instead of the plugin's own address.
\<close>

lemma withdrawn_override_kept:
  "let a1 = processPluginDataEvent (FileServerData example_raw)
             (onServerConfig (example_server_config (Some ''https://f'')) app_empty);
       a2 = onServerConfig (example_server_config None) a1
   in map_option fs_baseUrl (fileServerConfig (a_plugins a2)) = Some ''https://f''
    \<and> map_option fs_internalBaseUrl (fileServerConfig (a_plugins a2)) = Some ''http://h:64739''"
  by (simp add: onServerConfig_def upd_plugins_def mk_fs_config_def rest_override_def strip_slashes_def
    example_server_config_def example_raw_def Let_def)

section \<open>Disabled plugins\<close>

datatype feed_event =
    FMessage "string \<Rightarrow> string" int string plugin_message
  | FData plugin_data
  | FInfo string string
  | FConfig server_config
  | FCapabilities string
  | FDismissNotice
  | FAdminOpen bool
  | FReset

fun feed_step :: "app_state \<Rightarrow> feed_event \<Rightarrow> app_state" where
  "feed_step a (FMessage tr now cid p) = fst (dispatchPluginMessage tr now cid p a)"
| "feed_step a (FData d) = processPluginDataEvent d a"
| "feed_step a (FInfo n i) = pluginInfo_done n i a"
| "feed_step a (FConfig cfg) = onServerConfig cfg a"
| "feed_step a (FCapabilities c) = capabilities_done c a"
| "feed_step a FDismissNotice = dismissPluginDisabledNotice a"
| "feed_step a (FAdminOpen b) = setFileServerAdminOpen b a"
| "feed_step a FReset = set_initial a"

fun announces_fs :: "feed_event \<Rightarrow> bool" where
  "announces_fs (FData (FileServerData raw)) = True"
| "announces_fs e = False"

lemma dispatch_live_doc_plugins:
  "dispatch_live_doc p a = Some res \<Longrightarrow> a_plugins (fst res) = a_plugins a"
  by (auto simp: dispatch_live_doc_def split: if_splits plugin_payload.splits prod.splits)

lemma record_disabled_fs:
  "fileServerConfig (a_plugins a) = None \<Longrightarrow> fileServerConfig (a_plugins (recordPluginDisabled tr now n a)) = None"
  by (simp add: recordPluginDisabled_def set_custom_reactions_def upd_plugins_def Let_def)

lemma dispatch_fs:
  assumes "fileServerConfig (a_plugins a) = None"
  shows "fileServerConfig (a_plugins (fst (dispatchPluginMessage tr now cid p a))) = None"
proof (cases "dispatch_live_doc p a")
  case (Some res)
  then show ?thesis
    using dispatch_live_doc_plugins [OF Some] assms by (simp add: dispatchPluginMessage_def record_disabled_fs)
qed (simp add: dispatchPluginMessage_def record_disabled_fs assms split: option.split prod.split)

lemma feed_keeps_off:
  assumes "fileServerConfig (a_plugins a) = None" and "\<not> announces_fs e"
  shows "fileServerConfig (a_plugins (feed_step a e)) = None"
proof (cases e)
  case (FData d)
  then show ?thesis using assms by (cases d) (simp_all add: upd_plugins_def set_custom_reactions_def)
qed (use assms in \<open>simp_all add: dispatch_fs upd_plugins_def pluginInfo_done_def onServerConfig_def capabilities_done_def
  dismissPluginDisabledNotice_def setFileServerAdminOpen_def set_initial_def plugin_initial_def Let_def split: option.split\<close>)

text \<open>
  A disabled file server is out of use.  From the moment the server reports the file-server plugin
  as disabled until it announces its configuration again, whatever messages, broadcasts, settings
  and disconnects arrive: uploads and emote changes are refused and downloads carry no session
  token, so that credentials of the disabled plugin are never sent anywhere.
\<close>

theorem disabled_file_server_unused:
  assumes "\<not> list_ex announces_fs es"
    and "a' = foldl feed_step (recordPluginDisabled tr now PLUGIN_NAME_FILE_SERVER a) es"
  shows "uploadFile p a' = Refused ''file-server is not configured for this server''
    \<and> emote_request a' = Refused ''file-server is not configured for this server''
    \<and> downloadFile None a' = None"
proof -
  have "fileServerConfig (a_plugins b) = None \<Longrightarrow> fileServerConfig (a_plugins (foldl feed_step b es)) = None" for b
    using assms(1) by (induction es arbitrary: b) (simp_all add: feed_keeps_off)
  moreover have "fileServerConfig (a_plugins (recordPluginDisabled tr now PLUGIN_NAME_FILE_SERVER a)) = None"
    by (simp add: recordPluginDisabled_def set_custom_reactions_def upd_plugins_def Let_def)
  ultimately have "fileServerConfig (a_plugins a') = None" by (simp add: assms(2))
  then show ?thesis by (simp add: uploadFile_def emote_request_def downloadFile_def)
qed

theorem disabled_file_server_unused_witness:
  "let a = processPluginDataEvent (FileServerData example_raw) app_empty;
       a' = foldl feed_step (recordPluginDisabled (\<lambda>n. n) 3 PLUGIN_NAME_FILE_SERVER a) [FConfig (example_server_config None)];
       p = \<lparr>up_filePath = ''/f'', up_channelId = 1, up_mode = ModeSession, up_password = None, up_ttlSeconds = None,
            up_filename = None, up_mimeType = None, up_uploadId = None\<rparr>
   in uploadFile p a' = Refused ''file-server is not configured for this server''
    \<and> emote_request a' = Refused ''file-server is not configured for this server''
    \<and> downloadFile None a' = None"
  unfolding Let_def by (rule disabled_file_server_unused [OF _ refl]) simp

end
