(* ===== verification/Sidebar.thy ===== *)
theory Sidebar
  imports AppTypes "HOL-Library.Multiset"
begin

text \<open>
  The document sidebar: the tree helpers of \<open>components/chat/livedoc/sidebarModel.ts\<close> and the store
  of \<open>sidebarStore.ts\<close> that persists the tree in the file server's private storage after a
  debounce.  Fresh ids are arguments.  What is stored is represented by the JSON value of its
  text.
\<close>

section \<open>The tree\<close>

record doc_link =
  dk_slug :: string
  dk_title :: string
  dk_channel :: "int option"
  dk_owned :: bool

datatype folder = Folder (f_id: string) (f_name: string) (f_folders: "folder list") (f_docs: "doc_link list")

record doc_index =
  ix_v :: int
  ix_sections :: "folder list"

definition SIDEBAR_VERSION :: int where
  "SIDEBAR_VERSION = 1"

definition emptyIndex :: doc_index where
  "emptyIndex = \<lparr>ix_v = SIDEBAR_VERSION, ix_sections = []\<rparr>"

fun mapNode :: "string \<Rightarrow> (folder \<Rightarrow> folder) \<Rightarrow> folder \<Rightarrow> folder" where
  "mapNode targetId fn (Folder i nm fs ds) =
     (if i = targetId then fn (Folder i nm fs ds) else Folder i nm (map (mapNode targetId fn) fs) ds)"

fun removeChildNode :: "string \<Rightarrow> folder \<Rightarrow> folder" where
  "removeChildNode i (Folder j nm fs ds) =
     Folder j nm (map (removeChildNode i) (filter (\<lambda>f. f_id f \<noteq> i) fs)) ds"

fun findFolder :: "folder list \<Rightarrow> string \<Rightarrow> folder option" where
  "findFolder [] i = None"
| "findFolder (Folder j nm fs ds # rest) i =
     (if j = i then Some (Folder j nm fs ds)
      else (case findFolder fs i of Some f \<Rightarrow> Some f | None \<Rightarrow> findFolder rest i))"

fun containsFolder :: "string \<Rightarrow> folder \<Rightarrow> bool" where
  "containsFolder i (Folder j nm fs ds) \<longleftrightarrow> j = i \<or> list_ex (containsFolder i) fs"

fun has_doc_in :: "string \<Rightarrow> folder \<Rightarrow> bool" where
  "has_doc_in slug (Folder j nm fs ds) \<longleftrightarrow> list_ex (\<lambda>d. dk_slug d = slug) ds \<or> list_ex (has_doc_in slug) fs"

definition hasDoc :: "doc_index \<Rightarrow> string \<Rightarrow> bool" where
  "hasDoc ix slug \<longleftrightarrow> list_ex (has_doc_in slug) (ix_sections ix)"

definition or_default :: "string \<Rightarrow> string \<Rightarrow> string" where
  "or_default s d = (if s = '''' then d else s)"

definition add_child :: "folder \<Rightarrow> folder \<Rightarrow> folder" where
  "add_child f n = Folder (f_id n) (f_name n) (f_folders n @ [f]) (f_docs n)"

definition set_docs :: "(doc_link list \<Rightarrow> doc_link list) \<Rightarrow> folder \<Rightarrow> folder" where
  "set_docs g n = Folder (f_id n) (f_name n) (f_folders n) (g (f_docs n))"

definition addSection :: "string \<Rightarrow> doc_index \<Rightarrow> string \<Rightarrow> doc_index \<times> string" where
  "addSection nid ix name =
     (ix\<lparr>ix_sections := ix_sections ix @ [Folder nid (or_default (trim name) ''New section'') [] []]\<rparr>, nid)"

definition addFolder :: "string \<Rightarrow> doc_index \<Rightarrow> string \<Rightarrow> string \<Rightarrow> doc_index \<times> string" where
  "addFolder nid ix parentId name =
     (let f = Folder nid (or_default (trim name) ''New folder'') [] [];
          added = list_ex (containsFolder parentId) (ix_sections ix)
      in (ix\<lparr>ix_sections := map (mapNode parentId (add_child f)) (ix_sections ix)\<rparr>, if added then nid else ''''))"

definition renameNode :: "doc_index \<Rightarrow> string \<Rightarrow> string \<Rightarrow> doc_index" where
  "renameNode ix i name =
     (let trimmed = trim name in
      if trimmed = '''' then ix
      else ix\<lparr>ix_sections := map (mapNode i (\<lambda>n. Folder (f_id n) trimmed (f_folders n) (f_docs n))) (ix_sections ix)\<rparr>)"

definition remove_forest :: "string \<Rightarrow> folder list \<Rightarrow> folder list" where
  "remove_forest i fs = map (removeChildNode i) (filter (\<lambda>f. f_id f \<noteq> i) fs)"

definition removeNode :: "doc_index \<Rightarrow> string \<Rightarrow> doc_index" where
  "removeNode ix i = ix\<lparr>ix_sections := remove_forest i (ix_sections ix)\<rparr>"

definition addDocLink :: "doc_index \<Rightarrow> string \<Rightarrow> doc_link \<Rightarrow> doc_index" where
  "addDocLink ix parentId link =
     ix\<lparr>ix_sections := map (mapNode parentId (set_docs (\<lambda>ds. filter (\<lambda>d. dk_slug d \<noteq> dk_slug link) ds @ [link])))
         (ix_sections ix)\<rparr>"

definition removeDocLink :: "doc_index \<Rightarrow> string \<Rightarrow> string \<Rightarrow> doc_index" where
  "removeDocLink ix parentId slug =
     ix\<lparr>ix_sections := map (mapNode parentId (set_docs (filter (\<lambda>d. dk_slug d \<noteq> slug)))) (ix_sections ix)\<rparr>"

fun rename_in_node :: "string \<Rightarrow> string \<Rightarrow> folder \<Rightarrow> folder" where
  "rename_in_node slug title (Folder i nm fs ds) =
     Folder i nm (map (rename_in_node slug title) fs)
       (map (\<lambda>d. if dk_slug d = slug then d\<lparr>dk_title := title\<rparr> else d) ds)"

definition renameDocLink :: "doc_index \<Rightarrow> string \<Rightarrow> string \<Rightarrow> doc_index" where
  "renameDocLink ix slug title =
     (let trimmed = trim title in
      if trimmed = '''' then ix
      else ix\<lparr>ix_sections := map (rename_in_node slug trimmed) (ix_sections ix)\<rparr>)"

definition moveNode :: "doc_index \<Rightarrow> string \<Rightarrow> string option \<Rightarrow> doc_index" where
  "moveNode ix nodeId targetParentId =
     (if Some nodeId = targetParentId then ix
      else (case findFolder (ix_sections ix) nodeId of
        None \<Rightarrow> ix
      | Some node \<Rightarrow>
          (case targetParentId of
             None \<Rightarrow> (let without = removeNode ix nodeId
                      in without\<lparr>ix_sections := ix_sections without @ [node]\<rparr>)
           | Some t \<Rightarrow>
               if containsFolder t node then ix
               else (let without = removeNode ix nodeId;
                         inserted = list_ex (containsFolder t) (ix_sections without)
                     in if inserted
                        then without\<lparr>ix_sections := map (mapNode t (add_child node)) (ix_sections without)\<rparr>
                        else ix))))"

definition moveDoc :: "doc_index \<Rightarrow> doc_link \<Rightarrow> string \<Rightarrow> string \<Rightarrow> doc_index" where
  "moveDoc ix link fromParentId targetParentId =
     (if fromParentId = targetParentId then ix
      else addDocLink (removeDocLink ix fromParentId (dk_slug link)) targetParentId link)"

section \<open>Stored form\<close>

datatype json = JNull | JBool bool | JNum int | JStr string | JArr "json list" | JObj "(string \<times> json) list"

definition json_field :: "json \<Rightarrow> string \<Rightarrow> json option" where
  "json_field j k = (case j of JObj o' \<Rightarrow> map_get o' k | _ \<Rightarrow> None)"

definition field_str :: "json \<Rightarrow> string \<Rightarrow> string option" where
  "field_str j k = (case json_field j k of Some (JStr s) \<Rightarrow> Some s | _ \<Rightarrow> None)"

definition field_arr :: "json \<Rightarrow> string \<Rightarrow> json list" where
  "field_arr j k = (case json_field j k of Some (JArr xs) \<Rightarrow> xs | _ \<Rightarrow> [])"

definition isDocLink :: "json \<Rightarrow> bool" where
  "isDocLink j \<longleftrightarrow> field_str j ''slug'' \<noteq> None \<and> field_str j ''title'' \<noteq> None"

text \<open>A link object keeps its other fields; a missing channel is none and a missing flag is false.\<close>

definition link_of :: "json \<Rightarrow> doc_link" where
  "link_of j = \<lparr>dk_slug = or_else (field_str j ''slug'') '''', dk_title = or_else (field_str j ''title'') '''',
     dk_channel = (case json_field j ''channel'' of Some (JNum n) \<Rightarrow> Some n | _ \<Rightarrow> None),
     dk_owned = (json_field j ''owned'' = Some (JBool True))\<rparr>"

lemma json_get_size: "map_get ps k = Some v \<Longrightarrow> size v < Suc (size_list (size_prod (\<lambda>_. 0) size) ps)"
  by (induction ps k rule: map_get.induct) (auto split: if_splits)

lemma field_arr_size: "size_list size (field_arr j k) \<le> size j"
proof (cases "field_arr j k = []")
  case False
  then obtain ps where j: "j = JObj ps" and "map_get ps k = Some (JArr (field_arr j k))"
    by (auto simp: field_arr_def json_field_def split: json.splits option.splits)
  from json_get_size [OF this(2)] show ?thesis by (simp add: j)
qed simp

text \<open>The ids of folders that lack one are drawn from \<open>newId\<close>, counted by the second argument.\<close>

function (sequential) normaliseFolder :: "(nat \<Rightarrow> string) \<Rightarrow> nat \<Rightarrow> json \<Rightarrow> folder \<times> nat"
  and normaliseFolders :: "(nat \<Rightarrow> string) \<Rightarrow> nat \<Rightarrow> json list \<Rightarrow> folder list \<times> nat"
where
  "normaliseFolder newId k raw =
     (case (case field_str raw ''id'' of Some i \<Rightarrow> (i, k) | None \<Rightarrow> (newId k, Suc k)) of (i, k1) \<Rightarrow>
       (case normaliseFolders newId k1 (field_arr raw ''folders'') of (fs, k2) \<Rightarrow>
         (Folder i (or_else (field_str raw ''name'') ''Untitled'') fs
            (map link_of (filter isDocLink (field_arr raw ''docs''))), k2)))"
| "normaliseFolders newId k [] = ([], k)"
| "normaliseFolders newId k (j # js) =
     (case normaliseFolder newId k j of (f, k1) \<Rightarrow>
       (case normaliseFolders newId k1 js of (fs, k2) \<Rightarrow> (f # fs, k2)))"
  by pat_completeness auto

termination
proof (relation "measure (\<lambda>x. case x of Inl (_, _, j) \<Rightarrow> Suc (2 * size j) | Inr (_, _, js) \<Rightarrow> 2 * size_list size js)")
qed (auto simp: less_Suc_eq_le field_arr_size)

definition normaliseIndex :: "(nat \<Rightarrow> string) \<Rightarrow> json \<Rightarrow> doc_index" where
  "normaliseIndex newId raw = \<lparr>ix_v = SIDEBAR_VERSION,
     ix_sections = fst (normaliseFolders newId 0 (field_arr raw ''sections''))\<rparr>"

text \<open>\<open>JSON.stringify(index)\<close>, as the value it writes.\<close>

definition link_json :: "doc_link \<Rightarrow> json" where
  "link_json d = JObj [(''slug'', JStr (dk_slug d)), (''title'', JStr (dk_title d)),
     (''channel'', case dk_channel d of None \<Rightarrow> JNull | Some n \<Rightarrow> JNum n), (''owned'', JBool (dk_owned d))]"

fun folder_json :: "folder \<Rightarrow> json" where
  "folder_json (Folder i nm fs ds) = JObj [(''id'', JStr i), (''name'', JStr nm),
     (''folders'', JArr (map folder_json fs)), (''docs'', JArr (map link_json ds))]"

definition index_json :: "doc_index \<Rightarrow> json" where
  "index_json ix = JObj [(''v'', JNum (ix_v ix)), (''sections'', JArr (map folder_json (ix_sections ix)))]"

section \<open>The store\<close>

datatype unavailable = Guest | LoadError

type_synonym creds = "string \<times> string"

record sidebar_state =
  sb_index :: doc_index
  sb_loaded :: bool
  sb_available :: bool
  sb_reason :: "unavailable option"
  sb_timer :: "(creds \<times> doc_index) option"   \<comment> \<open>the write the debounce timer will make\<close>

definition sidebar_initial :: sidebar_state where
  "sidebar_initial = \<lparr>sb_index = emptyIndex, sb_loaded = False, sb_available = False, sb_reason = None, sb_timer = None\<rparr>"

text \<open>\<open>c\<close> below is what \<open>privateStorageCreds\<close> gives: none for a guest or without a file server.\<close>

definition schedulePersist :: "creds option \<Rightarrow> doc_index \<Rightarrow> sidebar_state \<Rightarrow> sidebar_state" where
  "schedulePersist c ix s = (case c of None \<Rightarrow> s | Some creds \<Rightarrow> s\<lparr>sb_timer := Some (creds, ix)\<rparr>)"

definition mutate :: "creds option \<Rightarrow> doc_index \<Rightarrow> sidebar_state \<Rightarrow> sidebar_state" where
  "mutate c nxt s = schedulePersist c nxt (s\<lparr>sb_index := nxt\<rparr>)"

text \<open>The timer fires: the write it makes.\<close>

definition persist_fires :: "sidebar_state \<Rightarrow> sidebar_state \<times> (creds \<times> doc_index) option" where
  "persist_fires s = (s\<lparr>sb_timer := None\<rparr>, sb_timer s)"

datatype load_reply = Stored "json option" | LoadFailed string

definition load_guest :: "sidebar_state \<Rightarrow> sidebar_state" where
  "load_guest s = s\<lparr>sb_index := emptyIndex, sb_loaded := True, sb_available := False, sb_reason := Some Guest\<rparr>"

definition load_done :: "(nat \<Rightarrow> string) \<Rightarrow> load_reply \<Rightarrow> sidebar_state \<Rightarrow> sidebar_state" where
  "load_done newId r s =
     (case r of
        Stored raw \<Rightarrow> s\<lparr>sb_index := (case raw of None \<Rightarrow> emptyIndex | Some j \<Rightarrow> normaliseIndex newId j),
          sb_loaded := True, sb_available := True, sb_reason := None\<rparr>
      | LoadFailed e \<Rightarrow> s\<lparr>sb_loaded := True, sb_available := False,
          sb_reason := Some (if starts_with e ''forbidden:'' then Guest else LoadError)\<rparr>)"

definition saveDocToDefault ::
  "string \<Rightarrow> creds option \<Rightarrow> doc_link \<Rightarrow> string \<Rightarrow> sidebar_state \<Rightarrow> sidebar_state \<times> string" where
  "saveDocToDefault nid c link defaultSectionName s =
     (case (case ix_sections (sb_index s) of
              f # fs \<Rightarrow> if f_id f = '''' then addSection nid (sb_index s) defaultSectionName else (sb_index s, f_id f)
            | [] \<Rightarrow> addSection nid (sb_index s) defaultSectionName) of
        (ix, sectionId) \<Rightarrow> (mutate c (addDocLink ix sectionId link) s, sectionId))"

section \<open>Lemmas\<close>

lemma forest_induct [case_names Nil Folder]:
  assumes "P []" and "\<And>j nm fs ds rest. P fs \<Longrightarrow> P rest \<Longrightarrow> P (Folder j nm fs ds # rest)"
  shows "P fs"
proof (induction fs rule: measure_induct_rule [of "size_list size"])
  case (less fs)
  show ?case
  proof (cases fs)
    case (Cons f rest)
    obtain j nm gs ds where "f = Folder j nm gs ds" by (cases f)
    then show ?thesis using Cons less [of gs] less [of rest] assms(2) by simp
  qed (simp add: assms(1))
qed

subsection \<open>Ids\<close>

fun ids_of :: "folder \<Rightarrow> string list" where
  "ids_of (Folder i nm fs ds) = i # concat (map ids_of fs)"

definition tree_ids :: "folder list \<Rightarrow> string list" where
  "tree_ids fs = concat (map ids_of fs)"

lemma tree_ids_simps [simp]:
  "tree_ids [] = []"
  "tree_ids (Folder i nm fs ds # rest) = i # tree_ids fs @ tree_ids rest"
  "tree_ids (fs @ gs) = tree_ids fs @ tree_ids gs"
  by (simp_all add: tree_ids_def)

lemma ids_of_tree: "ids_of f = tree_ids [f]"
  by (simp add: tree_ids_def)

lemma contains_iff: "containsFolder i f \<longleftrightarrow> i \<in> set (ids_of f)"
  by (induction i f rule: containsFolder.induct) (auto simp: list_ex_iff)

lemma contains_forest: "list_ex (containsFolder i) fs \<longleftrightarrow> i \<in> set (tree_ids fs)"
  by (auto simp: list_ex_iff contains_iff tree_ids_def)

lemma find_None_iff: "findFolder fs i = None \<longleftrightarrow> i \<notin> set (tree_ids fs)"
  by (induction fs rule: forest_induct) (auto split: option.split)

lemma find_Some_id: "findFolder fs i = Some f \<Longrightarrow> f_id f = i"
  by (induction fs i rule: findFolder.induct) (auto split: if_splits option.splits)

lemma remove_forest_Cons:
  "remove_forest i (Folder j nm fs ds # rest) =
     (if j = i then remove_forest i rest else Folder j nm (remove_forest i fs) ds # remove_forest i rest)"
  by (simp add: remove_forest_def)

lemma remove_absent: "i \<notin> set (tree_ids fs) \<Longrightarrow> remove_forest i fs = fs"
  by (induction fs rule: forest_induct) (simp add: remove_forest_def, auto simp: remove_forest_Cons)

lemma map_forest_Cons:
  "map (mapNode t fn) (Folder j nm fs ds # rest) =
     (if j = t then fn (Folder j nm fs ds) else Folder j nm (map (mapNode t fn) fs) ds) # map (mapNode t fn) rest"
  by simp

lemma map_absent: "t \<notin> set (tree_ids fs) \<Longrightarrow> map (mapNode t fn) fs = fs"
  by (induction fs rule: forest_induct) (auto simp: map_forest_Cons simp del: map_eq_conv)

subsection \<open>What a tree holds\<close>

text \<open>Any bag gathered from the folders of a tree.\<close>

fun coll :: "(string \<Rightarrow> string \<Rightarrow> doc_link list \<Rightarrow> 'a multiset) \<Rightarrow> folder \<Rightarrow> 'a multiset" where
  "coll own (Folder i nm fs ds) = own i nm ds + sum_list (map (coll own) fs)"

definition forest :: "(string \<Rightarrow> string \<Rightarrow> doc_link list \<Rightarrow> 'a multiset) \<Rightarrow> folder list \<Rightarrow> 'a multiset" where
  "forest own fs = sum_list (map (coll own) fs)"

lemma forest_simps [simp]:
  "forest own [] = {#}"
  "forest own (f # fs) = coll own f + forest own fs"
  "forest own (fs @ gs) = forest own fs + forest own gs"
  by (simp_all add: forest_def)

lemma coll_forest: "coll own (Folder i nm fs ds) = own i nm ds + forest own fs"
  by (simp add: forest_def)

declare coll.simps [simp del]

lemmas coll_forest [simp]

lemma forest_ids: "forest (\<lambda>i nm ds. {#i#}) fs = mset (tree_ids fs)"
  by (induction fs rule: forest_induct) simp_all

lemma remove_forest_coll:
  "distinct (tree_ids fs) \<Longrightarrow> findFolder fs i = Some node \<Longrightarrow>
     forest own (remove_forest i fs) + coll own node = forest own fs"
proof (induction fs rule: forest_induct)
  case (Folder j nm fs ds rest)
  show ?case
  proof (cases "j = i")
    case True
    then have "remove_forest i rest = rest" using Folder.prems(1) by (simp add: remove_absent)
    then show ?thesis using True Folder.prems(2) by (auto simp: remove_forest_Cons)
  next
    case False
    show ?thesis
    proof (cases "findFolder fs i")
      case None
      then have "remove_forest i fs = fs" by (simp add: remove_absent find_None_iff)
      then show ?thesis using False None Folder by (simp add: remove_forest_Cons add.assoc)
    next
      case (Some f)
      then have "i \<in> set (tree_ids fs)" using find_None_iff [of fs i] by simp
      then have "remove_forest i rest = rest" using Folder.prems(1) by (auto intro!: remove_absent)
      moreover have "forest own (remove_forest i fs) + coll own f = forest own fs"
        using Folder False Some by simp
      ultimately show ?thesis
        using False Some Folder.prems(2) by (simp add: remove_forest_Cons ac_simps)
    qed
  qed
qed simp

lemma add_child_coll: "coll own (add_child node n) = coll own n + coll own node"
  by (cases n) (simp add: add_child_def)

lemma insert_forest_coll:
  "distinct (tree_ids fs) \<Longrightarrow> t \<in> set (tree_ids fs) \<Longrightarrow>
     forest own (map (mapNode t (add_child node)) fs) = forest own fs + coll own node"
proof (induction fs rule: forest_induct)
  case (Folder j nm fs ds rest)
  consider "j = t" "t \<notin> set (tree_ids rest)" | "j \<noteq> t" "t \<in> set (tree_ids fs)" "t \<notin> set (tree_ids rest)"
    | "j \<noteq> t" "t \<notin> set (tree_ids fs)" "t \<in> set (tree_ids rest)"
    using Folder.prems by auto
  then show ?case
    by cases (use Folder in \<open>simp_all del: list.map add: map_forest_Cons add_child_coll map_absent ac_simps\<close>)
qed simp

lemma find_after_map:
  "f_id (fn x) = t \<Longrightarrow> findFolder fs t = Some x \<Longrightarrow> findFolder (map (mapNode t fn) fs) t = Some (fn x)"
proof (induction fs rule: forest_induct)
  case (Folder j nm fs ds rest)
  show ?case
  proof (cases "j = t")
    case True
    then show ?thesis using Folder.prems by (cases "fn x") auto
  next
    case False
    show ?thesis
    proof (cases "findFolder fs t")
      case None
      then have "map (mapNode t fn) fs = fs" by (simp add: find_None_iff map_absent)
      then show ?thesis using False None Folder by (simp del: list.map add: map_forest_Cons)
    next
      case (Some f)
      then show ?thesis using False Folder by (simp del: list.map add: map_forest_Cons)
    qed
  qed
qed simp

section \<open>Properties\<close>

definition node_bag :: "doc_index \<Rightarrow> (string \<times> string \<times> doc_link list) multiset" where
  "node_bag ix = forest (\<lambda>i nm ds. {#(i, nm, ds)#}) (ix_sections ix)"

lemma without_distinct:
  assumes "distinct (tree_ids fs)" and "findFolder fs i = Some node"
  shows "distinct (tree_ids (remove_forest i fs))"
proof -
  have "coll (\<lambda>i nm ds. {#i#}) node = mset (ids_of node)"
    using forest_ids [of "[node]"] by (simp add: ids_of_tree)
  then have "mset (tree_ids (remove_forest i fs) @ ids_of node) = mset (tree_ids fs)"
    using remove_forest_coll [OF assms, of "\<lambda>i nm ds. {#i#}"] by (simp add: forest_ids)
  then have "distinct (tree_ids (remove_forest i fs) @ ids_of node)"
    using assms(1) by (metis mset_eq_imp_distinct_iff)
  then show ?thesis by simp
qed

text \<open>
  Moving never loses anything.  With distinct ids, moving a folder anywhere (under itself or under
  a descendant, to a target that does not exist, to the top level) keeps every folder with its id,
  name and documents, exactly once; and a move that is carried out puts the whole subtree,
  unchanged, under its target.
\<close>

theorem move_keeps_everything:
  assumes "distinct (tree_ids (ix_sections ix))" and "ix' = moveNode ix n t"
  shows "node_bag ix' = node_bag ix
    \<and> (\<forall>node p. findFolder (ix_sections ix) n = Some node \<and> t = Some p \<and> p \<noteq> n \<and> \<not> containsFolder p node
        \<and> findFolder (ix_sections (removeNode ix n)) p \<noteq> None
        \<longrightarrow> (\<exists>q. findFolder (ix_sections ix') p = Some q \<and> node \<in> set (f_folders q)))"
proof (cases "findFolder (ix_sections ix) n")
  case None
  then show ?thesis by (simp add: assms(2) moveNode_def)
next
  case (Some node)
  let ?w = "remove_forest n (ix_sections ix)"
  have bag: "forest own ?w + coll own node = forest own (ix_sections ix)" for own :: "string \<Rightarrow> string \<Rightarrow> doc_link list \<Rightarrow> 'b multiset"
    by (rule remove_forest_coll [OF assms(1) Some])
  have ins: "forest own (map (mapNode p (add_child node)) ?w) = forest own ?w + coll own node"
    if "list_ex (containsFolder p) ?w" for p and own :: "string \<Rightarrow> string \<Rightarrow> doc_link list \<Rightarrow> 'b multiset"
    using that insert_forest_coll [OF without_distinct [OF assms(1) Some]] by (simp add: contains_forest)
  have "node_bag ix' = node_bag ix"
    by (simp add: assms(2) moveNode_def Some node_bag_def removeNode_def bag ins Let_def split: option.split)
  moreover have "\<exists>q. findFolder (ix_sections ix') p = Some q \<and> node \<in> set (f_folders q)"
    if "t = Some p" "p \<noteq> n" "\<not> containsFolder p node" "findFolder ?w p = Some x" for p x
  proof -
    have "list_ex (containsFolder p) ?w" using that(4) find_None_iff [of ?w p] by (simp add: contains_forest)
    then have "ix_sections ix' = map (mapNode p (add_child node)) ?w"
      using that by (simp add: assms(2) moveNode_def Some removeNode_def Let_def)
    then show ?thesis
      using find_after_map [of "add_child node" x p ?w] find_Some_id [OF that(4)] that(4) by (simp add: add_child_def)
  qed
  ultimately show ?thesis by (auto simp: Some removeNode_def)
qed

definition example_link :: doc_link where
  "example_link = \<lparr>dk_slug = ''notes'', dk_title = ''Notes'', dk_channel = None, dk_owned = True\<rparr>"

definition example_index :: doc_index where
  "example_index = \<lparr>ix_v = 1, ix_sections = [Folder ''a'' ''A'' [Folder ''b'' ''B'' [] [example_link]] [], Folder ''c'' ''C'' [] []]\<rparr>"

theorem move_keeps_everything_witness:
  "let ix' = moveNode example_index ''b'' (Some ''c'') in
   ix_sections ix' = [Folder ''a'' ''A'' [] [], Folder ''c'' ''C'' [Folder ''b'' ''B'' [] [example_link]] []]
   \<and> node_bag ix' = node_bag example_index
   \<and> (\<forall>node p. findFolder (ix_sections example_index) ''b'' = Some node \<and> Some ''c'' = Some p \<and> p \<noteq> ''b''
        \<and> \<not> containsFolder p node \<and> findFolder (ix_sections (removeNode example_index ''b'')) p \<noteq> None
        \<longrightarrow> (\<exists>q. findFolder (ix_sections ix') p = Some q \<and> node \<in> set (f_folders q)))"
  unfolding Let_def
proof
  show "ix_sections (moveNode example_index ''b'' (Some ''c'')) =
      [Folder ''a'' ''A'' [] [], Folder ''c'' ''C'' [Folder ''b'' ''B'' [] [example_link]] []]"
    by (simp add: moveNode_def example_index_def removeNode_def remove_forest_def add_child_def Let_def)
qed (rule move_keeps_everything [OF _ refl], simp add: example_index_def)

text \<open>
  Moving a document link is not guarded in that way: with a target that does not exist the link
  is removed from its folder and added nowhere.
\<close>

lemma moveDoc_missing_target_drops:
  "hasDoc example_index ''notes'' \<and> \<not> hasDoc (moveDoc example_index example_link ''b'' ''gone'') ''notes''"
  by (simp add: hasDoc_def moveDoc_def addDocLink_def removeDocLink_def set_docs_def example_index_def example_link_def)

lemma link_of_json [simp]: "link_of (link_json d) = d" "isDocLink (link_json d)"
  by (simp_all add: link_of_def link_json_def isDocLink_def field_str_def json_field_def split: option.split)

lemma normalise_stored: "normaliseFolders newId k (map folder_json fs) = (fs, k)"
proof (induction fs arbitrary: k rule: forest_induct)
  case (Folder j nm fs ds rest)
  then show ?case
    by (simp add: field_str_def field_arr_def json_field_def comp_def)
qed simp

text \<open>
  A sidebar that was saved loads back as it was: folders, their order and nesting, names, ids and
  every field of the links, with no fresh id drawn.
\<close>

theorem sidebar_roundtrip:
  "normaliseIndex newId (index_json ix) = ix\<lparr>ix_v := SIDEBAR_VERSION\<rparr>"
  by (simp add: normaliseIndex_def index_json_def field_arr_def json_field_def normalise_stored)

text \<open>
  A failed load does not disable saving.  The sidebar cannot be read; the store marks it as not
  persistable; the user adds a section; the debounce timer writes an index that holds this section
  alone over whatever was stored.
\<close>

theorem failed_load_overwrites_storage:
  assumes "s1 = load_done newId (LoadFailed e) sidebar_initial"
    and "s2 = mutate (Some c) (fst (addSection nid (sb_index s1) ''New'')) s1"
  shows "\<not> sb_available s2
    \<and> snd (persist_fires s2) = Some (c, \<lparr>ix_v = SIDEBAR_VERSION, ix_sections = [Folder nid ''New'' [] []]\<rparr>)"
  by (simp add: assms load_done_def sidebar_initial_def mutate_def schedulePersist_def persist_fires_def addSection_def
    emptyIndex_def or_default_def trim_def is_ws_def)

theorem failed_load_overwrites_storage_witness:
  "let s1 = load_done (\<lambda>k. show_nat k) (LoadFailed ''timeout'') sidebar_initial;
       s2 = mutate (Some (''https://f'', ''jwt'')) (fst (addSection ''x'' (sb_index s1) ''New'')) s1
   in \<not> sb_available s2 \<and> snd (persist_fires s2)
     = Some ((''https://f'', ''jwt''), \<lparr>ix_v = SIDEBAR_VERSION, ix_sections = [Folder ''x'' ''New'' [] []]\<rparr>)"
  unfolding Let_def by (rule failed_load_overwrites_storage [OF refl refl])

end
