(* ===== verification/JsText.thy ===== *)
theory JsText
  imports Prelude "HOL-Library.Log_Nat"
begin

text \<open>
  String searching and number parsing as the language library does them: \<open>indexOf\<close>,
  \<open>lastIndexOf\<close>, \<open>slice\<close>, \<open>Number.parseInt\<close> in base ten, and the conversion of an integer literal
  to a double.
\<close>

section \<open>Searching\<close>

fun index_str :: "string \<Rightarrow> string \<Rightarrow> nat option" where
  "index_str p [] = (if p = [] then Some 0 else None)"
| "index_str p (c # s) = (if prefix p (c # s) then Some 0 else map_option Suc (index_str p s))"

definition slice :: "nat \<Rightarrow> nat \<Rightarrow> 'a list \<Rightarrow> 'a list" where
  "slice i j s = take (j - i) (drop i s)"

fun last_index :: "'a \<Rightarrow> 'a list \<Rightarrow> nat option" where
  "last_index c [] = None"
| "last_index c (x # s) =
     (case last_index c s of Some i \<Rightarrow> Some (Suc i) | None \<Rightarrow> if x = c then Some 0 else None)"

lemma index_str_occurs: "index_str p s = Some i \<Longrightarrow> i \<le> length s \<and> prefix p (drop i s)"
  by (induction s arbitrary: i) (auto split: if_splits)

lemma index_str_first: "index_str p s = Some i \<Longrightarrow> j < i \<Longrightarrow> \<not> prefix p (drop j s)"
proof (induction s arbitrary: i j)
  case (Cons c s)
  then show ?case by (cases j) (auto split: if_splits)
qed (auto split: if_splits)

lemma index_str_None: "index_str p s = None \<longleftrightarrow> \<not> sublist p s"
  by (induction s) (auto simp: sublist_Cons_right)

lemma index_str_skip:
  "\<forall>c \<in> set a. c \<noteq> hd p \<Longrightarrow> p \<noteq> [] \<Longrightarrow> index_str p (a @ s) = map_option ((+) (length a)) (index_str p s)"
proof (induction a)
  case Nil
  then show ?case by (simp add: option.map_id0 [unfolded id_def])
next
  case (Cons c a)
  then have "\<not> prefix p ((c # a) @ s)" by (cases p) auto
  with Cons show ?case by (simp add: option.map_comp o_def)
qed

lemma index_str_here [simp]: "index_str p (p @ s) = Some 0"
  by (cases "p @ s") (auto simp del: append_eq_Cons_conv, metis prefixI)

lemma last_index_None: "last_index c s = None \<longleftrightarrow> c \<notin> set s"
  by (induction s) (auto split: option.splits)

lemma last_index_append:
  "last_index c (a @ c # b) = Some (length a)" if "c \<notin> set b"
  using that by (induction a) (auto simp: last_index_None [THEN iffD2])

lemma slice_prefix [simp]: "slice 0 (length a) (a @ b) = a"
  by (simp add: slice_def)

section \<open>Numbers\<close>

text \<open>
  The double nearest to an integer, ties to even: integers up to \<open>2 ^ 53\<close> are exact; from
  \<open>2 ^ 1024\<close> on the result is an infinity, \<open>None\<close>.
\<close>

definition MAX_EXACT :: int where
  "MAX_EXACT = 2 ^ 53"

definition round_double :: "int \<Rightarrow> int option" where
  "round_double n =
     (if \<bar>n\<bar> \<le> MAX_EXACT then Some n
      else let u = (2 :: int) ^ (floorlog 2 (nat \<bar>n\<bar>) - 53);
               q = \<bar>n\<bar> div u;
               r = \<bar>n\<bar> mod u;
               q' = (if u < 2 * r \<or> (u = 2 * r \<and> odd q) then q + 1 else q);
               m = q' * u
           in if 2 ^ 1024 \<le> m then None else Some (sgn n * m))"

text \<open>\<open>Number.parseInt(s, 10)\<close>: \<open>None\<close> stands for \<open>NaN\<close> and the infinities.\<close>

definition parse_sign :: "string \<Rightarrow> bool \<times> string" where
  "parse_sign s =
     (case s of [] \<Rightarrow> (False, [])
      | c # t \<Rightarrow> if c = CHR ''-'' then (True, t) else if c = CHR ''+'' then (False, t) else (False, s))"

definition parse_int :: "string \<Rightarrow> int option" where
  "parse_int s =
     (let (neg, t) = parse_sign (trim_start s);
          ds = takeWhile is_digit t
      in if ds = [] then None
         else round_double (if neg then - int (read_digits ds) else int (read_digits ds)))"

lemma round_double_exact [simp]: "\<bar>n\<bar> \<le> MAX_EXACT \<Longrightarrow> round_double n = Some n"
  by (simp add: round_double_def)

lemma digit_not_ws: "is_digit c \<Longrightarrow> \<not> is_ws c"
  by (auto simp: is_digit_def is_ws_def Let_def)

lemma digit_not_sign: "is_digit c \<Longrightarrow> c \<noteq> CHR ''-'' \<and> c \<noteq> CHR ''+''"
  by (auto simp: is_digit_def)

lemma show_nat_Cons: obtains c t where "show_nat n = c # t" "is_digit c"
  by (metis list.exhaust list.set_intros(1) show_nat_digits show_nat_not_Nil)

lemma takeWhile_show_nat [simp]:
  "takeWhile is_digit (show_nat n) = show_nat n"
  "(s \<noteq> [] \<Longrightarrow> \<not> is_digit (hd s)) \<Longrightarrow> takeWhile is_digit (show_nat n @ s) = show_nat n"
proof -
  show "takeWhile is_digit (show_nat n) = show_nat n"
    using show_nat_digits by (meson takeWhile_eq_all_conv)
  show "takeWhile is_digit (show_nat n @ s) = show_nat n" if "s \<noteq> [] \<Longrightarrow> \<not> is_digit (hd s)"
    using that by (cases s) (auto simp: show_nat_digits takeWhile_append2)
qed

lemma parse_int_show_nat:
  assumes "int n \<le> MAX_EXACT" "s \<noteq> [] \<Longrightarrow> \<not> is_digit (hd s)"
  shows "parse_int (show_nat n @ s) = Some (int n)"
proof -
  obtain c t where c: "show_nat n = c # t" "is_digit c" by (rule show_nat_Cons)
  then have "parse_sign (trim_start (show_nat n @ s)) = (False, show_nat n @ s)"
    by (auto simp: parse_sign_def trim_start_def digit_not_ws dest: digit_not_sign)
  then show ?thesis using assms by (simp add: parse_int_def)
qed

lemma parse_int_show_int [simp, js_str]:
  assumes "\<bar>i\<bar> \<le> MAX_EXACT"
  shows "parse_int (show_int i) = Some i"
proof (cases "i < 0")
  case True
  have "\<not> is_ws (CHR ''-'')" by (simp add: is_ws_def)
  then show ?thesis using True assms
    by (simp add: parse_int_def show_int_def trim_start_def parse_sign_def)
next
  case False
  then show ?thesis
    using parse_int_show_nat [of "nat i" "[]"] assms by (simp add: show_int_def)
qed

end
