(* ===== verification/JsSort.thy ===== *)
theory JsSort
  imports Prelude "HOL-Library.Multiset"
begin

text \<open>
  \<open>Array.prototype.sort\<close> is stable; with a comparator that orders the elements consistently its
  result is the one of insertion sort.  Comparators that depend on the locale are parameters of the
  definitions that sort.
\<close>

fun insert_sorted :: "('a \<Rightarrow> 'a \<Rightarrow> int) \<Rightarrow> 'a \<Rightarrow> 'a list \<Rightarrow> 'a list" where
  "insert_sorted cmp x [] = [x]"
| "insert_sorted cmp x (y # ys) = (if cmp x y < 0 then x # y # ys else y # insert_sorted cmp x ys)"

definition js_sort :: "('a \<Rightarrow> 'a \<Rightarrow> int) \<Rightarrow> 'a list \<Rightarrow> 'a list" where
  "js_sort cmp xs = foldl (\<lambda>acc x. insert_sorted cmp x acc) [] xs"

lemma mset_insert_sorted [simp]: "mset (insert_sorted cmp x xs) = add_mset x (mset xs)"
  by (induction xs) auto

lemma mset_js_sort [simp]: "mset (js_sort cmp xs) = mset xs"
proof -
  have "mset (foldl (\<lambda>acc x. insert_sorted cmp x acc) acc xs) = mset acc + mset xs" for acc
    by (induction xs arbitrary: acc) auto
  then show ?thesis by (simp add: js_sort_def)
qed

lemma set_js_sort [simp]: "set (js_sort cmp xs) = set xs"
  by (metis mset_js_sort set_mset_mset)

lemma distinct_js_sort [simp]: "distinct (js_sort cmp xs) = distinct xs"
  by (metis mset_js_sort mset_eq_imp_distinct_iff)

text \<open>A comparator that agrees with a key sorts by it.\<close>

definition compares_by :: "('a \<Rightarrow> int) \<Rightarrow> ('a \<Rightarrow> 'a \<Rightarrow> int) \<Rightarrow> bool" where
  "compares_by key cmp \<longleftrightarrow> (\<forall>x y. if cmp x y < 0 then key x \<le> key y else key y \<le> key x)"

lemma insert_sorted_sorted:
  assumes "compares_by key cmp"
  shows "sorted (map key xs) \<Longrightarrow> sorted (map key (insert_sorted cmp x xs))"
proof (induction xs)
  case (Cons y xs)
  have "set (insert_sorted cmp x xs) = insert x (set xs)"
    by (metis mset_insert_sorted set_mset_add_mset_insert set_mset_mset)
  moreover have "if cmp x y < 0 then key x \<le> key y else key y \<le> key x"
    using assms by (simp add: compares_by_def)
  ultimately show ?case using Cons by (auto split: if_splits)
qed simp

lemma js_sort_sorted:
  assumes "compares_by key cmp"
  shows "sorted (map key (js_sort cmp xs))"
proof -
  have "sorted (map key acc) \<Longrightarrow> sorted (map key (foldl (\<lambda>acc x. insert_sorted cmp x acc) acc xs))" for acc
    by (induction xs arbitrary: acc) (simp_all add: insert_sorted_sorted [OF assms])
  then show ?thesis by (simp add: js_sort_def)
qed

text \<open>A list whose keys increase is the only sorted arrangement of its elements.\<close>

lemma js_sort_unique:
  assumes "compares_by key cmp" "sorted (map key ys)" "distinct (map key ys)" "mset xs = mset ys"
  shows "js_sort cmp xs = ys"
proof (rule map_sorted_distinct_set_unique)
  have set: "set xs = set ys" using assms(4) by (metis set_mset_mset)
  show "inj_on key (set (js_sort cmp xs) \<union> set ys)" using assms(3) by (simp add: set distinct_map)
  show "sorted (map key (js_sort cmp xs))" by (rule js_sort_sorted [OF assms(1)])
  show "distinct (map key (js_sort cmp xs))"
    using assms(3,4) by (metis mset_eq_imp_distinct_iff mset_js_sort mset_map)
  show "set (js_sort cmp xs) = set ys" by (simp add: set)
qed (use assms in auto)

end
