(* ===== verification/Slash.thy ===== *)
theory Slash
  imports PluginTrust JsText JsSort
begin

text \<open>
  Slash commands of plugins: \<open>plugins/tier1/slashParser.ts\<close> and the command list of
  \<open>plugins/tier1/manifest.ts\<close>.  A draft line is split into tokens, its head looked up among the
  commands of the honoured manifests, and its arguments bound to the declared options by name or by
  position.  Results: bound values always have the declared type and a line without errors binds
  every required option (\<open>slash_values_typed\<close>), and every well-typed invocation can be typed
  (\<open>slash_line_roundtrip\<close>).
\<close>

section \<open>Tokens\<close>

type_synonym tok_state = "string list \<times> string \<times> bool"

fun tok_step :: "tok_state \<Rightarrow> char \<Rightarrow> tok_state" where
  "tok_step (out, buf, True) ch =
     (if ch = CHR 0x22 then (out @ [buf], [], False) else (out, buf @ [ch], True))"
| "tok_step (out, buf, False) ch =
     (if ch = CHR 0x22 then (out, buf, True)
      else if ch = CHR '' '' \<or> ch = CHR 0x09 then
        (if buf \<noteq> [] then (out @ [buf], [], False) else (out, buf, False))
      else (out, buf @ [ch], False))"

definition tok_end :: "tok_state \<Rightarrow> string list" where
  "tok_end st = (case st of (out, buf, q) \<Rightarrow> if buf \<noteq> [] then out @ [buf] else out)"

definition tokenise :: "string \<Rightarrow> string list option" where
  "tokenise line =
     (case trim_start line of
        [] \<Rightarrow> None
      | c # body \<Rightarrow> if c \<noteq> CHR ''/'' then None else Some (tok_end (foldl tok_step ([], [], False) body)))"

section \<open>Commands\<close>

record slash_entry =
  se_pluginName :: string
  se_command :: slash_command

definition collectSlashCommands ::
  "(string \<Rightarrow> string \<Rightarrow> int) \<Rightarrow> (string, client_manifest) jmap \<Rightarrow> slash_entry list" where
  "collectSlashCommands localeCompare manifests =
     js_sort (\<lambda>a b. localeCompare (sl_name (se_command a)) (sl_name (se_command b)))
       (concat (map (\<lambda>(pluginName, manifest).
          map (\<lambda>command. \<lparr>se_pluginName = pluginName, se_command = command\<rparr>)
            (or_else (mf_slash_commands manifest) [])) manifests))"

definition filterSlashCommands :: "slash_entry list \<Rightarrow> string \<Rightarrow> slash_entry list" where
  "filterSlashCommands entries query =
     (let needle = to_lower (trim query)
      in if needle = [] then entries
         else filter (\<lambda>e. starts_with (to_lower (sl_name (se_command e))) needle) entries)"

definition findCommandByName :: "slash_entry list \<Rightarrow> string \<Rightarrow> slash_entry option" where
  "findCommandByName entries name =
     (let lower = to_lower name in List.find (\<lambda>e. to_lower (sl_name (se_command e)) = lower) entries)"

section \<open>Options\<close>

datatype option_value = VString string | VNumber int | VBool bool

fun coerceOption :: "string \<Rightarrow> option_type \<Rightarrow> option_value option" where
  "coerceOption raw OString = Some (VString raw)"
| "coerceOption raw OUser = Some (VString raw)"
| "coerceOption raw OChannel = Some (VString raw)"
| "coerceOption raw OInteger = map_option VNumber (parse_int raw)"
| "coerceOption raw OBoolean =
     (let l = to_lower raw
      in if l \<in> {''true'', ''yes'', ''on'', ''1''} then Some (VBool True)
         else if l \<in> {''false'', ''no'', ''off'', ''0''} then Some (VBool False)
         else None)"

datatype slash_error =
    UnknownOption string
  | BadOption string option_type string     \<comment> \<open>\<open>option <name> expects type, got "raw"\<close>\<close>
  | MissingOption string

text \<open>
  Assigning a primitive to the property \<open>__proto__\<close> of an object literal reaches the setter of
  \<open>Object.prototype\<close>, which ignores it.
\<close>

type_synonym option_values = "(string, option_value) jmap"

definition set_option :: "string \<Rightarrow> option_value \<Rightarrow> option_values \<Rightarrow> option_values" where
  "set_option name v vals = (if name = ''__proto__'' then vals else map_set name v vals)"

record parse_acc =
  pa_options :: option_values
  pa_errors :: "slash_error list"
  pa_filled :: "string jset"
  pa_positional :: "string list"

definition by_name :: "command_option list \<Rightarrow> (string, command_option) jmap" where
  "by_name declared = foldl (\<lambda>m opt. map_set (co_name opt) opt m) [] declared"

text \<open>The first pass takes out the tokens \<open>name=value\<close>.\<close>

definition named_arg :: "command_option list \<Rightarrow> parse_acc \<Rightarrow> string \<Rightarrow> parse_acc" where
  "named_arg declared acc arg =
     (case index_of arg (CHR ''='') of
        None \<Rightarrow> acc\<lparr>pa_positional := pa_positional acc @ [arg]\<rparr>
      | Some eq \<Rightarrow>
          if eq = 0 then acc\<lparr>pa_positional := pa_positional acc @ [arg]\<rparr>
          else let name = take eq arg; raw = drop (eq + 1) arg in
               (case map_get (by_name declared) name of
                  None \<Rightarrow> acc\<lparr>pa_errors := pa_errors acc @ [UnknownOption name]\<rparr>
                | Some opt \<Rightarrow>
                    (case coerceOption raw (co_type opt) of
                       None \<Rightarrow> acc\<lparr>pa_errors := pa_errors acc @ [BadOption name (co_type opt) raw]\<rparr>
                     | Some v \<Rightarrow> acc\<lparr>pa_options := set_option name v (pa_options acc),
                                    pa_filled := set_add name (pa_filled acc)\<rparr>)))"

text \<open>The second pass drops the positional values into the options still open, in declared order.\<close>

fun fill_positional ::
  "command_option list \<Rightarrow> string list \<Rightarrow> option_values \<times> slash_error list \<Rightarrow> option_values \<times> slash_error list" where
  "fill_positional [] ps acc = acc"
| "fill_positional (opt # unfilled) [] (vals, errs) =
     fill_positional unfilled []
       (vals, if co_required opt = Some True then errs @ [MissingOption (co_name opt)] else errs)"
| "fill_positional (opt # unfilled) (raw # ps) (vals, errs) =
     fill_positional unfilled ps
       (case coerceOption raw (co_type opt) of
          None \<Rightarrow> (vals, errs @ [BadOption (co_name opt) (co_type opt) raw])
        | Some v \<Rightarrow> (set_option (co_name opt) v vals, errs))"

record parsed_line =
  pl_pluginName :: string
  pl_command :: slash_command
  pl_name :: string
  pl_options :: option_values
  pl_errors :: "slash_error list"

definition first_pass :: "command_option list \<Rightarrow> string list \<Rightarrow> parse_acc" where
  "first_pass declared args =
     foldl (named_arg declared) \<lparr>pa_options = [], pa_errors = [], pa_filled = [], pa_positional = []\<rparr> args"

definition parseAgainstCommand :: "slash_entry \<Rightarrow> string list \<Rightarrow> parsed_line" where
  "parseAgainstCommand entry args =
     (let declared = or_else (sl_options (se_command entry)) [];
          acc = first_pass declared args;
          unfilled = filter (\<lambda>opt. \<not> set_has (pa_filled acc) (co_name opt)) declared;
          (vals, errs) = fill_positional unfilled (pa_positional acc) (pa_options acc, pa_errors acc)
      in \<lparr>pl_pluginName = se_pluginName entry, pl_command = se_command entry,
          pl_name = sl_name (se_command entry), pl_options = vals, pl_errors = errs\<rparr>)"

definition parseSlashLine :: "string \<Rightarrow> slash_entry list \<Rightarrow> parsed_line option" where
  "parseSlashLine line entries =
     (case tokenise line of
        Some (head # rest) \<Rightarrow>
          (case findCommandByName entries head of
             None \<Rightarrow> None
           | Some entry \<Rightarrow> Some (parseAgainstCommand entry rest))
      | _ \<Rightarrow> None)"

definition extractSlashQuery :: "string \<Rightarrow> string option" where
  "extractSlashQuery draft =
     (case trim_start draft of
        [] \<Rightarrow> None
      | c # afterSlash \<Rightarrow>
          if c \<noteq> CHR ''/'' then None
          else if CHR '' '' \<in> set afterSlash \<or> CHR 0x0A \<in> set afterSlash then None
          else Some afterSlash)"

section \<open>Typing\<close>

fun value_has_type :: "option_value \<Rightarrow> option_type \<Rightarrow> bool" where
  "value_has_type (VString s) t = (t \<in> {OString, OUser, OChannel})"
| "value_has_type (VNumber n) t = (t = OInteger)"
| "value_has_type (VBool b) t = (t = OBoolean)"

definition declared_options :: "slash_command \<Rightarrow> command_option list" where
  "declared_options command = or_else (sl_options command) []"

definition typed_values :: "command_option list \<Rightarrow> option_values \<Rightarrow> bool" where
  "typed_values declared vals \<longleftrightarrow>
     (\<forall>(n, v) \<in> set vals. \<exists>opt \<in> set declared. co_name opt = n \<and> value_has_type v (co_type opt))"

definition required_bound :: "command_option list \<Rightarrow> option_values \<Rightarrow> bool" where
  "required_bound declared vals \<longleftrightarrow>
     (\<forall>opt \<in> set declared. co_required opt = Some True \<longrightarrow> co_name opt \<noteq> ''__proto__'' \<longrightarrow>
        map_get vals (co_name opt) \<noteq> None)"

lemma coerce_typed: "coerceOption raw t = Some v \<Longrightarrow> value_has_type v t"
  by (cases t) (auto simp: Let_def split: if_splits)

lemma in_map_set: "p \<in> set (map_set k v m) \<Longrightarrow> p = (k, v) \<or> p \<in> set m"
  by (induction m) (auto split: if_splits)

lemma typed_values_Nil [simp]: "typed_values declared []"
  by (simp add: typed_values_def)

lemma typed_set_option:
  assumes "typed_values declared vals" "opt \<in> set declared" "coerceOption raw (co_type opt) = Some v"
    "co_name opt = n"
  shows "typed_values declared (set_option n v vals)"
  using assms coerce_typed [OF assms(3)]
  by (fastforce simp: typed_values_def set_option_def dest: in_map_set)

lemma by_name_in: "map_get (by_name declared) n = Some opt \<Longrightarrow> opt \<in> set declared \<and> co_name opt = n"
proof -
  have "map_get (foldl (\<lambda>m opt. map_set (co_name opt) opt m) m declared) n = Some opt \<Longrightarrow>
        (opt \<in> set declared \<and> co_name opt = n) \<or> map_get m n = Some opt" for m
    by (induction declared arbitrary: m) (fastforce split: if_splits)+
  then show "map_get (by_name declared) n = Some opt \<Longrightarrow> opt \<in> set declared \<and> co_name opt = n"
    by (fastforce simp: by_name_def)
qed

text \<open>What the first pass keeps: its values are typed and the names it marks as filled are bound.\<close>

definition pass_inv :: "command_option list \<Rightarrow> parse_acc \<Rightarrow> bool" where
  "pass_inv declared acc \<longleftrightarrow>
     typed_values declared (pa_options acc) \<and>
     (\<forall>n \<in> set (pa_filled acc). n = ''__proto__'' \<or> map_get (pa_options acc) n \<noteq> None)"

lemma named_arg_inv: "pass_inv declared acc \<Longrightarrow> pass_inv declared (named_arg declared acc arg)"
  using typed_set_option [of declared "pa_options acc"]
  by (auto simp: named_arg_def pass_inv_def Let_def dest!: by_name_in split: option.splits)
     (auto simp: set_option_def split: if_splits)

lemma first_pass_inv: "pass_inv declared (first_pass declared args)"
proof -
  have "pass_inv declared acc \<Longrightarrow> pass_inv declared (foldl (named_arg declared) acc args)" for acc
    by (induction args arbitrary: acc) (auto simp: named_arg_inv)
  then show ?thesis by (simp add: first_pass_def pass_inv_def)
qed

lemma fill_typed:
  "typed_values declared (fst acc) \<Longrightarrow> set unfilled \<subseteq> set declared \<Longrightarrow>
   typed_values declared (fst (fill_positional unfilled ps acc))"
  by (induction unfilled ps acc rule: fill_positional.induct)
     (auto simp: typed_set_option split: option.splits)

lemma fill_keeps:
  "map_get (fst acc) n \<noteq> None \<Longrightarrow> map_get (fst (fill_positional unfilled ps acc)) n \<noteq> None"
  by (induction unfilled ps acc rule: fill_positional.induct)
     (auto simp: set_option_def split: option.splits)

lemma fill_no_errors: "snd (fill_positional unfilled ps acc) = [] \<Longrightarrow> snd acc = []"
  by (induction unfilled ps acc rule: fill_positional.induct)
     (auto split: option.splits if_splits)

lemma fill_binds:
  assumes "snd (fill_positional unfilled ps acc) = []" "opt \<in> set unfilled"
    "co_required opt = Some True" "co_name opt \<noteq> ''__proto__''"
  shows "map_get (fst (fill_positional unfilled ps acc)) (co_name opt) \<noteq> None"
  using assms
proof (induction unfilled ps acc rule: fill_positional.induct)
  case (3 x unfilled raw ps vals errs)
  show ?case
  proof (cases "opt = x")
    case True
    then show ?thesis using 3 fill_keeps [of "(set_option (co_name x) v vals, errs)" for v]
      by (auto simp: set_option_def dest!: fill_no_errors split: option.splits)
  next
    case False
    with 3 show ?thesis by (auto split: option.splits)
  qed
qed (auto dest!: fill_no_errors)

lemma parseSlashLine_cases:
  assumes "parseSlashLine line entries = Some p"
  obtains e args where "e \<in> set entries" "p = parseAgainstCommand e args"
  using assms by (auto simp: parseSlashLine_def findCommandByName_def Let_def
      split: option.splits list.splits dest!: find_Some_in)

lemma against_typed:
  "typed_values (declared_options (se_command e)) (pl_options (parseAgainstCommand e args))"
  unfolding parseAgainstCommand_def declared_options_def Let_def
  using first_pass_inv [of "or_else (sl_options (se_command e)) []" args]
  by (auto simp: pass_inv_def case_prod_beta intro!: fill_typed)

lemma against_required:
  assumes "pl_errors (parseAgainstCommand e args) = []"
  shows "required_bound (declared_options (se_command e)) (pl_options (parseAgainstCommand e args))"
proof -
  define declared where "declared = or_else (sl_options (se_command e)) []"
  define acc where "acc = first_pass declared args"
  define unfilled where "unfilled = filter (\<lambda>opt. \<not> set_has (pa_filled acc) (co_name opt)) declared"
  define r where "r = fill_positional unfilled (pa_positional acc) (pa_options acc, pa_errors acc)"
  have parse: "pl_options (parseAgainstCommand e args) = fst r" "pl_errors (parseAgainstCommand e args) = snd r"
    by (simp_all add: parseAgainstCommand_def Let_def case_prod_beta r_def unfilled_def acc_def declared_def)
  have inv: "pass_inv declared acc" by (simp add: acc_def first_pass_inv)
  have "map_get (fst r) (co_name opt) \<noteq> None"
    if "opt \<in> set declared" "co_required opt = Some True" "co_name opt \<noteq> ''__proto__''" for opt
  proof (cases "opt \<in> set unfilled")
    case True
    then show ?thesis using that assms parse fill_binds unfolding r_def by metis
  next
    case False
    then have "map_get (pa_options acc) (co_name opt) \<noteq> None"
      using that inv by (auto simp: unfilled_def pass_inv_def)
    then show ?thesis unfolding r_def by (intro fill_keeps) simp
  qed
  then show ?thesis by (simp add: required_bound_def parse declared_options_def declared_def)
qed

text \<open>
  C25: Whatever line is typed, a parsed slash command belongs to a declared command, every value it binds
  has the declared type of an option of that name, and when no error is reported every required
  option is bound.
\<close>

theorem slash_values_typed:
  assumes "parseSlashLine line entries = Some p"
  shows "(\<exists>e \<in> set entries. pl_pluginName p = se_pluginName e \<and> pl_command p = se_command e) \<and>
         typed_values (declared_options (pl_command p)) (pl_options p) \<and>
         (pl_errors p = [] \<longrightarrow> required_bound (declared_options (pl_command p)) (pl_options p))"
proof -
  obtain e args where e: "e \<in> set entries" "p = parseAgainstCommand e args"
    using assms by (rule parseSlashLine_cases)
  have "pl_pluginName p = se_pluginName e" "pl_command p = se_command e"
    by (simp_all add: e(2) parseAgainstCommand_def Let_def case_prod_beta)
  then show ?thesis using e against_typed against_required by metis
qed

definition example_entry :: slash_entry where
  "example_entry = \<lparr>se_pluginName = ''dice'', se_command = \<lparr>sl_name = ''roll'', sl_description = '''',
     sl_options = Some [
       \<lparr>co_name = ''sides'', co_description = '''', co_type = OInteger, co_required = Some True, co_choices = None\<rparr>,
       \<lparr>co_name = ''note'', co_description = '''', co_type = OString, co_required = None, co_choices = None\<rparr>]\<rparr>\<rparr>"

theorem slash_values_typed_witness:
  "\<exists>p. parseSlashLine ''/roll note=hi 20'' [example_entry] = Some p \<and> pl_errors p = [] \<and>
     pl_options p = [(''note'', VString ''hi''), (''sides'', VNumber 20)] \<and>
     typed_values (declared_options (pl_command p)) (pl_options p)"
proof -
  let ?line = "''/roll note=hi 20''"
  obtain p where p: "parseSlashLine ?line [example_entry] = Some p" "pl_errors p = []"
    "pl_options p = [(''note'', VString ''hi''), (''sides'', VNumber 20)]"
    by (rule that [of "the (parseSlashLine ?line [example_entry])"]) code_simp+
  with slash_values_typed [OF p(1)] show ?thesis by blast
qed

section \<open>Typing an invocation\<close>

text \<open>
  The line a user types for given option values: each value quoted after its name.
\<close>

fun show_value :: "option_value \<Rightarrow> string" where
  "show_value (VString s) = s"
| "show_value (VNumber n) = show_int n"
| "show_value (VBool b) = (if b then ''true'' else ''false'')"

definition show_arg :: "string \<times> option_value \<Rightarrow> string" where
  "show_arg nv = (case nv of (n, v) \<Rightarrow> CHR '' '' # n @ CHR ''='' # CHR 0x22 # show_value v @ [CHR 0x22])"

definition arg_token :: "string \<times> option_value \<Rightarrow> string" where
  "arg_token nv = (case nv of (n, v) \<Rightarrow> n @ CHR ''='' # show_value v)"

definition show_invocation :: "string \<Rightarrow> option_values \<Rightarrow> string" where
  "show_invocation name vals = CHR ''/'' # name @ concat (map show_arg vals)"

definition plain :: "string \<Rightarrow> bool" where
  "plain s \<longleftrightarrow> CHR 0x22 \<notin> set s \<and> CHR '' '' \<notin> set s \<and> CHR 0x09 \<notin> set s"

definition typeable_value :: "option_value \<Rightarrow> option_type \<Rightarrow> bool" where
  "typeable_value v t \<longleftrightarrow> value_has_type v t \<and>
     (case v of VString s \<Rightarrow> CHR 0x22 \<notin> set s | VNumber n \<Rightarrow> \<bar>n\<bar> \<le> MAX_EXACT | VBool b \<Rightarrow> True)"

text \<open>The values respect the declaration: known names, declared types, nothing required left out.\<close>

definition invocable :: "slash_command \<Rightarrow> option_values \<Rightarrow> bool" where
  "invocable command vals \<longleftrightarrow>
     sl_name command \<noteq> [] \<and> plain (sl_name command) \<and>
     distinct (map co_name (declared_options command)) \<and> distinct (map fst vals) \<and>
     (\<forall>opt \<in> set (declared_options command).
        co_name opt \<notin> {[], ''__proto__''} \<and> plain (co_name opt) \<and> CHR ''='' \<notin> set (co_name opt) \<and>
        (co_required opt = Some True \<longrightarrow> co_name opt \<in> fst ` set vals)) \<and>
     (\<forall>(n, v) \<in> set vals. \<exists>opt \<in> set (declared_options command).
        co_name opt = n \<and> typeable_value v (co_type opt))"

lemma tok_plain: "plain s \<Longrightarrow> foldl tok_step (out, buf, False) s = (out, buf @ s, False)"
  by (induction s arbitrary: buf) (auto simp: plain_def)

lemma tok_quoted:
  "CHR 0x22 \<notin> set s \<Longrightarrow> foldl tok_step (out, buf, True) (s @ [CHR 0x22]) = (out @ [buf @ s], [], False)"
  by (induction s arbitrary: buf) auto

lemma show_value_no_quote: "typeable_value v t \<Longrightarrow> CHR 0x22 \<notin> set (show_value v)"
proof (cases v)
  case (VNumber n)
  have "CHR 0x22 \<notin> set (show_int n)"
    using show_nat_digits [of "CHR 0x22"] by (auto simp: show_int_def is_digit_def)
  then show ?thesis using VNumber by simp
qed (auto simp: typeable_value_def)

lemma tok_arg:
  assumes "plain n" "CHR 0x22 \<notin> set (show_value v)"
  shows "foldl tok_step (out, buf, False) (show_arg (n, v)) =
         (out @ (if buf = [] then [] else [buf]) @ [arg_token (n, v)], [], False)"
proof -
  let ?out = "out @ (if buf = [] then [] else [buf])"
  have "foldl tok_step (out, buf, False) (show_arg (n, v)) =
        foldl tok_step (?out, [], False) (n @ CHR ''='' # CHR 0x22 # show_value v @ [CHR 0x22])"
    by (simp add: show_arg_def)
  also have "\<dots> = foldl tok_step (?out, n @ [CHR ''=''], True) (show_value v @ [CHR 0x22])"
    using tok_plain [OF assms(1)] by simp
  also have "\<dots> = (?out @ [(n @ [CHR ''='']) @ show_value v], [], False)"
    by (rule tok_quoted [OF assms(2)])
  finally show ?thesis by (simp add: arg_token_def)
qed

lemma tok_args:
  assumes "\<forall>(n, v) \<in> set vals. plain n \<and> CHR 0x22 \<notin> set (show_value v)"
  shows "tok_end (foldl tok_step (out, buf, False) (concat (map show_arg vals))) =
         out @ (if buf = [] then [] else [buf]) @ map arg_token vals"
  using assms
proof (induction vals arbitrary: out buf)
  case (Cons nv vals)
  then show ?case by (cases nv) (simp add: tok_arg)
qed (simp add: tok_end_def)

lemma coerce_show: "typeable_value v t \<Longrightarrow> coerceOption (show_value v) t = Some v"
  by (cases v) (auto simp: typeable_value_def to_lower_def lower_char_def)

lemma invocable_arg:
  assumes "invocable command vals" "(n, v) \<in> set vals"
  obtains opt where "opt \<in> set (declared_options command)" "co_name opt = n" "typeable_value v (co_type opt)"
    "plain n" "CHR ''='' \<notin> set n" "n \<noteq> []" "n \<noteq> ''__proto__''"
  using assms by (fastforce simp: invocable_def)

lemma tokenise_invocation:
  assumes "invocable command vals"
  shows "tokenise (show_invocation (sl_name command) vals) = Some (sl_name command # map arg_token vals)"
proof -
  have args: "\<forall>(n, v) \<in> set vals. plain n \<and> CHR 0x22 \<notin> set (show_value v)"
    using assms by (auto elim!: invocable_arg dest: show_value_no_quote)
  have name: "plain (sl_name command)" "sl_name command \<noteq> []" using assms by (simp_all add: invocable_def)
  have "\<not> is_ws (CHR ''/'')" by (simp add: is_ws_def)
  then show ?thesis
    using tok_args [OF args, of "[]" "sl_name command"] tok_plain [OF name(1), of "[]" "[]"] name
    by (simp add: tokenise_def show_invocation_def trim_start_def)
qed

lemma index_of_append: "c \<notin> set n \<Longrightarrow> index_of (n @ c # s) c = Some (length n)"
  by (induction n) auto

lemma by_name_distinct:
  assumes "distinct (map co_name declared)" "opt \<in> set declared"
  shows "map_get (by_name declared) (co_name opt) = Some opt"
proof -
  have "distinct (map co_name declared) \<Longrightarrow> opt \<in> set declared \<Longrightarrow>
    map_get (foldl (\<lambda>m opt. map_set (co_name opt) opt m) m declared) (co_name opt) = Some opt" for m
  proof (induction declared arbitrary: m)
    case (Cons x declared)
    have keep: "co_name opt \<notin> co_name ` set ds \<Longrightarrow>
      map_get (foldl (\<lambda>m opt. map_set (co_name opt) opt m) m ds) (co_name opt) = map_get m (co_name opt)" for m ds
      by (induction ds arbitrary: m) auto
    show ?case
    proof (cases "opt = x")
      case True
      then show ?thesis using Cons.prems keep [of declared "map_set (co_name x) x m"] by simp
    next
      case False
      then show ?thesis using Cons by simp
    qed
  qed simp
  then show ?thesis using assms by (simp add: by_name_def)
qed

lemma named_arg_token:
  assumes "invocable command vals" "(n, v) \<in> set vals"
  shows "named_arg (declared_options command) acc (arg_token (n, v)) =
    acc\<lparr>pa_options := map_set n v (pa_options acc), pa_filled := set_add n (pa_filled acc)\<rparr>"
proof -
  obtain opt where opt: "opt \<in> set (declared_options command)" "co_name opt = n" "typeable_value v (co_type opt)"
    "CHR ''='' \<notin> set n" "n \<noteq> []" "n \<noteq> ''__proto__''"
    using assms by (rule invocable_arg)
  have "map_get (by_name (declared_options command)) n = Some opt"
    using opt assms(1) by_name_distinct by (auto simp: invocable_def)
  then show ?thesis using opt
    by (simp add: named_arg_def arg_token_def index_of_append coerce_show set_option_def Let_def)
qed

lemma first_pass_tokens:
  assumes "invocable command vals"
  shows "first_pass (declared_options command) (map arg_token vals) =
    \<lparr>pa_options = vals, pa_errors = [], pa_filled = set_of_list (map fst vals), pa_positional = []\<rparr>"
proof -
  have "set ws \<subseteq> set vals \<Longrightarrow> distinct (map fst (us @ ws)) \<Longrightarrow> pa_options acc = us \<Longrightarrow>
    foldl (named_arg (declared_options command)) acc (map arg_token ws) =
    acc\<lparr>pa_options := us @ ws,
        pa_filled := foldl (\<lambda>s x. set_add x s) (pa_filled acc) (map fst ws)\<rparr>" for acc us ws
  proof (induction ws arbitrary: acc us)
    case (Cons nv ws)
    obtain n v where nv: "nv = (n, v)" by (cases nv)
    have "\<not> map_has us n"
      using Cons.prems nv map_get_None_iff [of us n] by (auto simp: map_has_def)
    then have "map_set n v us = us @ [(n, v)]" by (rule map_set_fresh)
    then show ?case
      using Cons.prems Cons.IH [of "us @ [(n, v)]"] nv named_arg_token [OF assms] by simp
  qed simp
  from this [of vals "[]"] show ?thesis using assms
    by (simp add: first_pass_def set_of_list_def invocable_def)
qed

lemma fill_optional:
  "\<forall>opt \<in> set unfilled. co_required opt \<noteq> Some True \<Longrightarrow> fill_positional unfilled [] acc = acc"
  by (induction unfilled arbitrary: acc) (auto split: prod.splits simp: split_paired_all)

text \<open>
  Every invocation that respects the declaration can be typed: quoting each value after its option's
  name gives a line that parses, without errors, to exactly these values.
\<close>

theorem slash_line_roundtrip:
  assumes "findCommandByName entries (sl_name (se_command e)) = Some e" "invocable (se_command e) vals"
  shows "parseSlashLine (show_invocation (sl_name (se_command e)) vals) entries =
    Some \<lparr>pl_pluginName = se_pluginName e, pl_command = se_command e, pl_name = sl_name (se_command e),
          pl_options = vals, pl_errors = []\<rparr>"
proof -
  let ?unfilled = "filter (\<lambda>opt. co_name opt \<notin> fst ` set vals) (declared_options (se_command e))"
  have "fill_positional ?unfilled [] (vals, []) = (vals, [])"
    using assms(2) by (intro fill_optional) (auto simp: invocable_def)
  then have "parseAgainstCommand e (map arg_token vals) =
    \<lparr>pl_pluginName = se_pluginName e, pl_command = se_command e, pl_name = sl_name (se_command e),
     pl_options = vals, pl_errors = []\<rparr>"
    using first_pass_tokens [OF assms(2)] by (simp add: parseAgainstCommand_def declared_options_def Let_def)
  then show ?thesis
    using tokenise_invocation [OF assms(2)] assms(1) by (simp add: parseSlashLine_def)
qed

theorem slash_line_roundtrip_witness:
  "show_invocation ''roll'' [(''sides'', VNumber 20), (''note'', VString ''a b'')] =
     ''/roll sides='' @ [CHR 0x22] @ ''20'' @ [CHR 0x22] @ '' note='' @ [CHR 0x22] @ ''a b'' @ [CHR 0x22] \<and>
   parseSlashLine (show_invocation ''roll'' [(''sides'', VNumber 20), (''note'', VString ''a b'')]) [example_entry] =
    Some \<lparr>pl_pluginName = ''dice'', pl_command = se_command example_entry, pl_name = ''roll'',
          pl_options = [(''sides'', VNumber 20), (''note'', VString ''a b'')], pl_errors = []\<rparr>"
proof -
  let ?vals = "[(''sides'', VNumber 20), (''note'', VString ''a b'')]"
  have name: "sl_name (se_command example_entry) = ''roll''" "se_pluginName example_entry = ''dice''"
    by (simp_all add: example_entry_def)
  have found: "findCommandByName [example_entry] (sl_name (se_command example_entry)) = Some example_entry"
    by (simp add: findCommandByName_def)
  have ok: "invocable (se_command example_entry) ?vals"
    by (simp add: invocable_def example_entry_def declared_options_def plain_def typeable_value_def MAX_EXACT_def)
  have line: "show_invocation ''roll'' ?vals =
     ''/roll sides='' @ [CHR 0x22] @ ''20'' @ [CHR 0x22] @ '' note='' @ [CHR 0x22] @ ''a b'' @ [CHR 0x22]"
    by code_simp
  show ?thesis using slash_line_roundtrip [OF found ok] line unfolding name by blast
qed

end
