(* ===== verification/JsRegex.thy ===== *)
theory JsRegex
  imports JsText
begin

text \<open>
  Global search and replace with regular expressions, \<open>s.replace(/.../g, f)\<close> and \<open>s.matchAll(...)\<close>:
  a matcher decides at a position whether the expression matches there, how many characters it
  consumes and what it yields; the scan takes the leftmost match and goes on behind it.  A matcher
  sees the character before the position, which look-behind, \<open>^\<close> and word boundaries need.  No
  expression of the sources matches the empty string, so a match consumes at least one character.
\<close>

type_synonym 'a matcher = "char option \<Rightarrow> string \<Rightarrow> (nat \<times> 'a) option"

section \<open>Scanning\<close>

function replace_from :: "string matcher \<Rightarrow> char option \<Rightarrow> string \<Rightarrow> string" where
  "replace_from m prev [] = []"
| "replace_from m prev (c # s) =
     (case m prev (c # s) of
        None \<Rightarrow> c # replace_from m (Some c) s
      | Some (n, rep) \<Rightarrow> rep @ replace_from m (Some (last (c # take (n - 1) s))) (drop (n - 1) s))"
  by pat_completeness auto
termination by (relation "measure (length \<circ> snd \<circ> snd)") auto

definition replace_all :: "string matcher \<Rightarrow> string \<Rightarrow> string" where
  "replace_all m s = replace_from m None s"

text \<open>A replacement that also stashes something: the yield is stored and a reference left behind.\<close>

function stash_from ::
  "'a matcher \<Rightarrow> (nat \<Rightarrow> string) \<Rightarrow> char option \<Rightarrow> 'a list \<Rightarrow> string \<Rightarrow> string \<times> 'a list" where
  "stash_from m ref prev st [] = ([], st)"
| "stash_from m ref prev st (c # s) =
     (case m prev (c # s) of
        None \<Rightarrow> (let (out, st') = stash_from m ref (Some c) st s in (c # out, st'))
      | Some (n, a) \<Rightarrow>
          (let (out, st') = stash_from m ref (Some (last (c # take (n - 1) s))) (st @ [a]) (drop (n - 1) s)
           in (ref (length st) @ out, st')))"
  by pat_completeness auto
termination by (relation "measure (\<lambda>(m, ref, prev, st, s). length s)") auto

function match_from :: "'a matcher \<Rightarrow> char option \<Rightarrow> string \<Rightarrow> 'a list" where
  "match_from m prev [] = []"
| "match_from m prev (c # s) =
     (case m prev (c # s) of
        None \<Rightarrow> match_from m (Some c) s
      | Some (n, a) \<Rightarrow> a # match_from m (Some (last (c # take (n - 1) s))) (drop (n - 1) s))"
  by pat_completeness auto
termination by (relation "measure (length \<circ> snd \<circ> snd)") auto

definition match_all :: "'a matcher \<Rightarrow> string \<Rightarrow> 'a list" where
  "match_all m s = match_from m None s"

section \<open>Pieces of expressions\<close>

text \<open>A literal text.\<close>

definition lit :: "string \<Rightarrow> 'a \<Rightarrow> 'a matcher" where
  "lit p a prev s = (if prefix p s then Some (length p, a) else None)"

text \<open>Line terminators, which the dot does not match (those below code unit 256).\<close>

definition is_dot :: "char \<Rightarrow> bool" where
  "is_dot c \<longleftrightarrow> c \<noteq> CHR 0x0A \<and> c \<noteq> CHR 0x0D"

text \<open>Lazy repetition \<open>X*?d\<close>: the least number of characters satisfying \<open>ok\<close> before the text \<open>d\<close>.\<close>

fun lazy_until :: "(char \<Rightarrow> bool) \<Rightarrow> string \<Rightarrow> string \<Rightarrow> nat option" where
  "lazy_until ok d [] = (if d = [] then Some 0 else None)"
| "lazy_until ok d (c # s) =
     (if prefix d (c # s) then Some 0
      else if ok c then map_option Suc (lazy_until ok d s) else None)"

text \<open>\<open>X+?d\<close>: at least one.\<close>

definition lazy_until1 :: "(char \<Rightarrow> bool) \<Rightarrow> string \<Rightarrow> string \<Rightarrow> nat option" where
  "lazy_until1 ok d s =
     (case s of [] \<Rightarrow> None | c # t \<Rightarrow> if ok c then map_option Suc (lazy_until ok d t) else None)"

definition strip_prefix :: "string \<Rightarrow> string \<Rightarrow> string option" where
  "strip_prefix p s = (if prefix p s then Some (drop (length p) s) else None)"

lemma strip_prefix_Some [simp]: "strip_prefix p s = Some t \<longleftrightarrow> s = p @ t"
  by (auto simp: strip_prefix_def prefix_def)

lemma lazy_until_Some:
  "lazy_until ok d s = Some k \<Longrightarrow> \<exists>a b. s = a @ d @ b \<and> length a = k \<and> (\<forall>c \<in> set a. ok c)"
proof (induction s arbitrary: k)
  case (Cons c s)
  show ?case
  proof (cases "prefix d (c # s)")
    case True
    then show ?thesis using Cons.prems by (auto simp: prefix_def)
  next
    case False
    then obtain j where j: "lazy_until ok d s = Some j" "ok c" "k = Suc j"
      using Cons.prems by (auto split: if_splits)
    then obtain a b where "s = a @ d @ b" "length a = j" "\<forall>c \<in> set a. ok c" using Cons.IH by blast
    then show ?thesis using j by - (rule exI [of _ "c # a"], rule exI [of _ b], auto)
  qed
qed (auto split: if_splits)

lemma lazy_until1_Some:
  "lazy_until1 ok d s = Some k \<Longrightarrow> \<exists>a b. s = a @ d @ b \<and> length a = k \<and> 0 < k \<and> (\<forall>c \<in> set a. ok c)"
proof (cases s)
  case (Cons c t)
  assume "lazy_until1 ok d s = Some k"
  then obtain j where j: "lazy_until ok d t = Some j" "ok c" "k = Suc j"
    using Cons by (auto simp: lazy_until1_def split: if_splits)
  then obtain a b where "t = a @ d @ b" "length a = j" "\<forall>c \<in> set a. ok c"
    using lazy_until_Some by blast
  then show ?thesis using j Cons by - (rule exI [of _ "c # a"], rule exI [of _ b], auto)
qed (simp add: lazy_until1_def)

section \<open>When nothing matches\<close>

lemma replace_from_none:
  "(\<And>p t. suffix t s \<Longrightarrow> t \<noteq> [] \<Longrightarrow> m p t = None) \<Longrightarrow> replace_from m prev s = s"
proof (induction s arbitrary: prev)
  case (Cons c s)
  have "replace_from m (Some c) s = s" using Cons by (auto simp: suffix_Cons)
  then show ?case using Cons.prems [of "c # s"] by simp
qed simp

lemma replace_all_none:
  "(\<And>p t. suffix t s \<Longrightarrow> t \<noteq> [] \<Longrightarrow> m p t = None) \<Longrightarrow> replace_all m s = s"
  by (simp add: replace_all_def replace_from_none)

lemma stash_from_none:
  "(\<And>p t. suffix t s \<Longrightarrow> t \<noteq> [] \<Longrightarrow> m p t = None) \<Longrightarrow> stash_from m ref prev st s = (s, st)"
proof (induction s arbitrary: prev)
  case (Cons c s)
  have "stash_from m ref (Some c) st s = (s, st)" using Cons by (auto simp: suffix_Cons)
  then show ?case using Cons.prems [of "c # s"] by simp
qed simp

lemma match_all_none:
  "(\<And>p t. suffix t s \<Longrightarrow> t \<noteq> [] \<Longrightarrow> m p t = None) \<Longrightarrow> match_all m s = []"
proof -
  have "(\<And>p t. suffix t s \<Longrightarrow> t \<noteq> [] \<Longrightarrow> m p t = None) \<Longrightarrow> match_from m prev s = []" for prev
  proof (induction s arbitrary: prev)
    case (Cons c s)
    have "match_from m (Some c) s = []" using Cons by (auto simp: suffix_Cons)
    then show ?case using Cons.prems [of "c # s"] by simp
  qed simp
  then show "(\<And>p t. suffix t s \<Longrightarrow> t \<noteq> [] \<Longrightarrow> m p t = None) \<Longrightarrow> match_all m s = []"
    by (simp add: match_all_def)
qed

text \<open>Replacing single characters is a homomorphism.\<close>

definition char_matcher :: "(char \<Rightarrow> string option) \<Rightarrow> string matcher" where
  "char_matcher f prev s = (case s of [] \<Rightarrow> None | c # t \<Rightarrow> map_option (\<lambda>r. (1, r)) (f c))"

lemma replace_all_chars: "replace_all (char_matcher f) s = concat (map (\<lambda>c. or_else (f c) [c]) s)"
proof -
  have "replace_from (char_matcher f) prev s = concat (map (\<lambda>c. or_else (f c) [c]) s)" for prev
    by (induction s arbitrary: prev) (auto simp: char_matcher_def split: option.splits)
  then show ?thesis by (simp add: replace_all_def)
qed

section \<open>Invariants of a scan\<close>

text \<open>
  A property of the whole text survives the scan when every single replacement keeps it, whatever
  stands to its left; a position without a character before it is the start of the text.
\<close>

lemma replace_from_inv:
  assumes step: "\<And>w p s n rep. m p s = Some (n, rep) \<Longrightarrow> (p = None \<Longrightarrow> w = []) \<Longrightarrow> Q (w @ s) \<Longrightarrow>
      0 < n \<and> Q (w @ rep @ drop n s)"
    and "prev = None \<Longrightarrow> w = []" "Q (w @ s)"
  shows "Q (w @ replace_from m prev s)"
  using assms(2,3)
proof (induction "length s" arbitrary: w prev s rule: less_induct)
  case less
  show ?case
  proof (cases s)
    case (Cons c u)
    show ?thesis
    proof (cases "m prev s")
      case None
      then show ?thesis using less(1) [of u "Some c" "w @ [c]"] less(2,3) Cons by simp
    next
      case (Some r)
      obtain n rep where r: "r = (n, rep)" by (cases r)
      have "0 < n" "Q (w @ rep @ drop n s)" using step [of prev s n rep w] Some r less(2,3) by auto
      then have "Q ((w @ rep) @ drop (n - 1) u)" using Cons by (cases n) auto
      then have "Q ((w @ rep) @ replace_from m (Some (last (c # take (n - 1) u))) (drop (n - 1) u))"
        using Cons by (intro less(1)) auto
      then show ?thesis using Some r Cons by simp
    qed
  qed (use less in simp)
qed

lemma replace_all_inv:
  assumes "\<And>w p s n rep. m p s = Some (n, rep) \<Longrightarrow> (p = None \<Longrightarrow> w = []) \<Longrightarrow> Q (w @ s) \<Longrightarrow>
      0 < n \<and> Q (w @ rep @ drop n s)"
    and "Q s"
  shows "Q (replace_all m s)"
proof -
  have "Q ([] @ replace_from m None s)" by (rule replace_from_inv, rule assms(1)) (use assms(2) in simp_all)
  then show ?thesis by (simp add: replace_all_def)
qed

lemma stash_from_inv:
  assumes step: "\<And>w p s n a i. m p s = Some (n, a) \<Longrightarrow> Q (w @ s) \<Longrightarrow>
      0 < n \<and> P a \<and> Q (w @ ref i @ drop n s)"
    and "Q (w @ s)" "list_all P st" "stash_from m ref prev st s = (out, st')"
  shows "Q (w @ out) \<and> list_all P st'"
  using assms(2-)
proof (induction "length s" arbitrary: w prev s st out rule: less_induct)
  case less
  show ?case
  proof (cases s)
    case (Cons c u)
    show ?thesis
    proof (cases "m prev s")
      case None
      then obtain out' where "stash_from m ref (Some c) st u = (out', st')" "out = c # out'"
        using less(4) Cons by (auto split: prod.splits)
      then show ?thesis using less(1) [of u "w @ [c]" st "Some c" out'] less(2,3) Cons by simp
    next
      case (Some r)
      obtain n a where r: "r = (n, a)" by (cases r)
      obtain out' where out': "stash_from m ref (Some (last (c # take (n - 1) u))) (st @ [a]) (drop (n - 1) u) = (out', st')"
          "out = ref (length st) @ out'"
        using less(4) Some r Cons by (auto split: prod.splits)
      have "0 < n" "P a" "Q (w @ ref (length st) @ drop n s)" using step Some r less(2) by blast+
      then have "Q ((w @ ref (length st)) @ drop (n - 1) u)" "list_all P (st @ [a])"
        using Cons less(3) by (cases n; auto)+
      then show ?thesis
        using less(1) [OF _ _ _ out'(1), of "w @ ref (length st)"] Cons out'(2) by simp
    qed
  qed (use less in simp)
qed

end
