(* ===== verification/Markdown.thy ===== *)
theory Markdown
  imports JsRegex
begin

text \<open>
  The live preview of the chat input, \<open>components/chat/markdown/MarkdownInput.tsx\<close>: the draft is
  split into decorated segments (\<open>parseMarkdown\<close>), code fences are expanded into highlighted tokens,
  and the segments are rendered as an overlay with a caret that must sit over the same characters as
  the invisible text area below it.  Results: the segments spell the draft exactly
  (\<open>segments_spell_draft\<close>), and the caret stands exactly behind the characters before the cursor
  (\<open>caret_after_cursor_text\<close>).  The highlighter is a parameter.
\<close>

section \<open>Segments\<close>

datatype seg_kind =
    PlainSeg | BoldSeg | ItalicSeg | UnderlineSeg | StrikeSeg | CodeSeg | LinkSeg | SpoilerSeg
  | MentionSeg "int option"        \<comment> \<open>\<open>mentionSession\<close>; \<open>None\<close> when the number is too large for a double\<close>
  | FenceSeg string string         \<comment> \<open>language and body\<close>
  | HljsSeg string

record segment =
  sg_text :: string
  sg_kind :: seg_kind

definition seg :: "string \<Rightarrow> seg_kind \<Rightarrow> segment" where
  "seg t k = \<lparr>sg_text = t, sg_kind = k\<rparr>"

lemma seg_simps [simp]: "sg_text (seg t k) = t" "sg_kind (seg t k) = k"
  by (simp_all add: seg_def)

section \<open>Links\<close>

definition is_url_char :: "char \<Rightarrow> bool" where
  "is_url_char c \<longleftrightarrow> \<not> is_ws c \<and> c \<notin> {CHR ''<'', CHR ''>'', CHR 0x22, CHR 0x27, CHR 0x60}"

definition url_scheme :: "string \<Rightarrow> string option" where
  "url_scheme s =
     (if prefix ''https://'' s then Some ''https://''
      else if prefix ''http://'' s then Some ''http://''
      else if prefix ''ftp://'' s then Some ''ftp://''
      else None)"

text \<open>\<open>URL_RE\<close>: the length of the match at a position.\<close>

definition match_url :: "nat matcher" where
  "match_url prev s =
     (case url_scheme s of
        None \<Rightarrow> None
      | Some p \<Rightarrow>
          (let n = length (takeWhile is_url_char (drop (length p) s))
           in if n = 0 then None else Some (length p + n, length p + n)))"

definition is_trailing :: "char \<Rightarrow> bool" where
  "is_trailing c \<longleftrightarrow> c \<in> set ''.,;:!?'' \<or> c = CHR 0x27"

definition count_char :: "char \<Rightarrow> string \<Rightarrow> nat" where
  "count_char c s = length (filter ((=) c) s)"

function drop_brackets :: "string \<Rightarrow> string" where
  "drop_brackets out =
     (if out = [] then []
      else if (last out = CHR '')'' \<and> count_char (CHR ''('') out < count_char (CHR '')'') out)
            \<or> (last out = CHR '']'' \<and> count_char (CHR ''['') out < count_char (CHR '']'') out)
            \<or> last out = CHR ''>'' \<or> last out = CHR 0xBB
           then drop_brackets (butlast out)
      else out)"
  by pat_completeness auto
termination by (relation "measure length") auto

declare drop_brackets.simps [simp del]

definition trimTrailingPunctuation :: "string \<Rightarrow> string" where
  "trimTrailingPunctuation url = drop_brackets (rev (dropWhile is_trailing (rev url)))"

function push_urls :: "string \<Rightarrow> string \<Rightarrow> segment list" where
  "push_urls pre [] = (if pre = [] then [] else [seg pre PlainSeg])"
| "push_urls pre (c # s) =
     (case match_url None (c # s) of
        None \<Rightarrow> push_urls (pre @ [c]) s
      | Some (n, _) \<Rightarrow>
          (let hit = c # take (n - 1) s;
               trimmed = trimTrailingPunctuation hit
           in (if pre = [] then [] else [seg pre PlainSeg]) @ [seg trimmed LinkSeg] @
              (if length trimmed < length hit then [seg (drop (length trimmed) hit) PlainSeg] else []) @
              push_urls [] (drop (n - 1) s)))"
  by pat_completeness auto
termination by (relation "measure (length \<circ> snd)") auto

definition pushWithUrls :: "string \<Rightarrow> segment list" where
  "pushWithUrls t = push_urls [] t"

section \<open>Parsing the draft\<close>

text \<open>A mention token \<open><@digits>\<close>: its length and session.\<close>

definition try_mention :: "string \<Rightarrow> (nat \<times> seg_kind) option" where
  "try_mention s =
     (case strip_prefix ''<@'' s of
        None \<Rightarrow> None
      | Some t \<Rightarrow>
          (let ds = takeWhile is_digit t
           in if ds \<noteq> [] \<and> prefix ''>'' (drop (length ds) t)
              then Some (length ds + 3, MentionSeg (parse_int ds)) else None))"

text \<open>A fenced block, closed or still being typed.  The closing fence is searched from the line end on.\<close>

definition FENCE :: string where
  "FENCE = [CHR 0x60, CHR 0x60, CHR 0x60]"

definition CLOSING :: string where
  "CLOSING = CHR 0x0A # FENCE"

definition try_fence :: "string \<Rightarrow> (nat \<times> seg_kind) option" where
  "try_fence s =
     (if \<not> prefix FENCE s then None
      else case index_of (drop 3 s) (CHR 0x0A) of
        None \<Rightarrow> None
      | Some l \<Rightarrow>
          (let lineEnd = 3 + l; lang = take l (drop 3 s) in
           case index_str CLOSING (drop lineEnd s) of
             Some k \<Rightarrow> Some (lineEnd + k + 4, FenceSeg lang (slice (lineEnd + 1) (lineEnd + k) s))
           | None \<Rightarrow> Some (length s, FenceSeg lang (drop (lineEnd + 1) s))))"

datatype scan_action = Emit nat seg_kind | FlushOnly | Ordinary

text \<open>Delimited text; an opening delimiter that is not closed only flushes the text before it.\<close>

definition delimited :: "string \<Rightarrow> seg_kind \<Rightarrow> string \<Rightarrow> scan_action" where
  "delimited d k s =
     (case index_str d (drop (length d) s) of
        Some e \<Rightarrow> Emit (length d + e + length d) k
      | None \<Rightarrow> FlushOnly)"

definition inline_action :: "string \<Rightarrow> scan_action" where
  "inline_action s =
     (if prefix [CHR 0x60] s then delimited [CHR 0x60] CodeSeg s
      else if prefix ''**'' s then delimited ''**'' BoldSeg s
      else if prefix ''||'' s then delimited ''||'' SpoilerSeg s
      else if prefix ''*'' s then
        (case index_str ''*'' (drop 1 s) of
           Some e \<Rightarrow> if prefix ''*'' (drop (e + 2) s) then FlushOnly else Emit (e + 2) ItalicSeg
         | None \<Rightarrow> FlushOnly)
      else if prefix ''__'' s then delimited ''__'' UnderlineSeg s
      else if prefix ''~~'' s then delimited ''~~'' StrikeSeg s
      else Ordinary)"

definition block_action :: "string \<Rightarrow> scan_action" where
  "block_action s =
     (case try_mention s of
        Some (n, k) \<Rightarrow> Emit n k
      | None \<Rightarrow> (case try_fence s of Some (n, k) \<Rightarrow> Emit n k | None \<Rightarrow> inline_action s))"

text \<open>The loop over the draft; \<open>current\<close> is the text not yet pushed.\<close>

function parse_md :: "string \<Rightarrow> string \<Rightarrow> segment list" where
  "parse_md current [] = pushWithUrls current"
| "parse_md current (c # s) =
     (case block_action (c # s) of
        Emit n k \<Rightarrow> pushWithUrls current @ seg (c # take (n - 1) s) k # parse_md [] (drop (n - 1) s)
      | FlushOnly \<Rightarrow> pushWithUrls current @ parse_md [c] s
      | Ordinary \<Rightarrow> parse_md (current @ [c]) s)"
  by pat_completeness auto
termination by (relation "measure (length \<circ> snd)") auto

definition parseMarkdown :: "string \<Rightarrow> segment list" where
  "parseMarkdown raw = parse_md [] raw"

section \<open>Code fences\<close>

text \<open>
  The highlighter together with \<open>flattenHljs\<close>: tokens with a class name, or \<open>None\<close> when it is not
  loaded or throws.
\<close>

type_synonym highlighter = "string \<Rightarrow> string \<Rightarrow> (string \<times> string) list option"

definition expand_fence :: "highlighter \<Rightarrow> segment \<Rightarrow> segment list" where
  "expand_fence hljs sg =
     (case sg_kind sg of
        FenceSeg lang body \<Rightarrow>
          [seg (FENCE @ lang @ [CHR 0x0A]) PlainSeg] @
          map (\<lambda>(t, cls). seg t (if cls = [] then PlainSeg else HljsSeg cls)) (or_else (hljs lang body) [(body, [])]) @
          (if suffix CLOSING (sg_text sg) then [seg CLOSING PlainSeg] else [])
      | _ \<Rightarrow> [sg])"

definition expandFenceSegments :: "highlighter \<Rightarrow> segment list \<Rightarrow> segment list" where
  "expandFenceSegments hljs segments = concat (map (expand_fence hljs) segments)"

section \<open>The overlay\<close>

fun getSegmentClass :: "seg_kind \<Rightarrow> string list" where
  "getSegmentClass BoldSeg = [''mdBold'']"
| "getSegmentClass ItalicSeg = [''mdItalic'']"
| "getSegmentClass UnderlineSeg = [''mdUnderline'']"
| "getSegmentClass StrikeSeg = [''mdStrike'']"
| "getSegmentClass CodeSeg = [''mdCode'']"
| "getSegmentClass LinkSeg = [''mdLink'']"
| "getSegmentClass SpoilerSeg = [''mdSpoiler'']"
| "getSegmentClass (HljsSeg cls) = [cls]"
| "getSegmentClass _ = []"

datatype overlay_node = Caret | Chip string bool | Span string "string list" bool

record view_range =
  ov_cursor :: "nat option"
  ov_sel :: "(nat \<times> nat) option"

definition overlay_view :: "nat \<Rightarrow> nat \<Rightarrow> bool \<Rightarrow> view_range" where
  "overlay_view selStart selEnd showCursor =
     \<lparr>ov_cursor = (if showCursor \<and> selStart = selEnd then Some selStart else None),
      ov_sel = (if showCursor \<and> selStart \<noteq> selEnd then Some (min selStart selEnd, max selStart selEnd) else None)\<rparr>"

definition boundaries :: "view_range \<Rightarrow> nat list" where
  "boundaries v =
     (case ov_cursor v of Some p \<Rightarrow> [p] | None \<Rightarrow> []) @
     (case ov_sel v of Some (f, t) \<Rightarrow> [f, t] | None \<Rightarrow> [])"

type_synonym render_state = "overlay_node list \<times> nat \<times> bool"   \<comment> \<open>nodes, \<open>charIdx\<close>, \<open>cursorInserted\<close>\<close>

definition chip_name :: "(int option \<Rightarrow> string option) \<Rightarrow> int option \<Rightarrow> string" where
  "chip_name resolver session =
     CHR ''@'' # or_else (resolver session) (case session of Some n \<Rightarrow> show_int n | None \<Rightarrow> ''Infinity'')"

definition render_chip ::
  "view_range \<Rightarrow> (int option \<Rightarrow> string option) \<Rightarrow> nat \<Rightarrow> int option \<Rightarrow> render_state \<Rightarrow> render_state" where
  "render_chip v resolver len session st =
     (case st of (nodes, segStart, inserted) \<Rightarrow>
        let segEnd = segStart + len;
            inSel = (case ov_sel v of Some (f, t) \<Rightarrow> segStart < t \<and> f < segEnd | None \<Rightarrow> False);
            before = (\<not> inserted \<and> ov_cursor v = Some segStart);
            behind = (\<not> inserted \<and> \<not> before \<and>
                      (case ov_cursor v of Some p \<Rightarrow> segStart < p \<and> p \<le> segEnd | None \<Rightarrow> False))
        in (nodes @ (if before then [Caret] else []) @ [Chip (chip_name resolver session) inSel] @
              (if behind then [Caret] else []),
            segEnd, inserted \<or> before \<or> behind))"

definition breaks :: "view_range \<Rightarrow> nat \<Rightarrow> nat \<Rightarrow> nat list" where
  "breaks v segStart len =
     sort (remdups (0 # map (\<lambda>p. p - segStart) (filter (\<lambda>p. segStart < p \<and> p < segStart + len) (boundaries v)) @ [len]))"

fun render_slices ::
  "view_range \<Rightarrow> segment \<Rightarrow> nat \<Rightarrow> nat list \<Rightarrow> overlay_node list \<times> bool \<Rightarrow> overlay_node list \<times> bool" where
  "render_slices v sg segStart (from # to # bs) (nodes, inserted) =
     (let caret = (\<not> inserted \<and> ov_cursor v = Some (segStart + from));
          txt = slice from to (sg_text sg);
          inSelection = (case ov_sel v of
             Some (f, t) \<Rightarrow> f \<le> segStart + from \<and> segStart + to \<le> t | None \<Rightarrow> False)
      in render_slices v sg segStart (to # bs)
           (nodes @ (if caret then [Caret] else []) @
              (if txt = [] then [] else [Span txt (getSegmentClass (sg_kind sg)) inSelection]),
            inserted \<or> caret))"
| "render_slices v sg segStart bs st = st"

definition render_segment ::
  "view_range \<Rightarrow> (int option \<Rightarrow> string option) \<Rightarrow> render_state \<Rightarrow> segment \<Rightarrow> render_state" where
  "render_segment v resolver st sg =
     (case sg_kind sg of
        MentionSeg session \<Rightarrow> render_chip v resolver (length (sg_text sg)) session st
      | _ \<Rightarrow>
          (case st of (nodes, segStart, inserted) \<Rightarrow>
             let len = length (sg_text sg);
                 (nodes', inserted') = render_slices v sg segStart (breaks v segStart len) (nodes, inserted)
             in (nodes', segStart + len, inserted')))"

definition renderFormattedOverlay ::
  "(int option \<Rightarrow> string option) \<Rightarrow> segment list \<Rightarrow> nat \<Rightarrow> nat \<Rightarrow> bool \<Rightarrow> overlay_node list" where
  "renderFormattedOverlay resolver segments selStart selEnd showCursor =
     (let v = overlay_view selStart selEnd showCursor;
          (nodes, _, inserted) = foldl (render_segment v resolver) ([], 0, ov_cursor v = None) segments
      in nodes @ (if inserted then [] else [Caret]))"

section \<open>The segments spell the draft\<close>

definition spell :: "segment list \<Rightarrow> string" where
  "spell segments = concat (map sg_text segments)"

lemma spell_simps [simp]:
  "spell [] = []" "spell (sg # segments) = sg_text sg @ spell segments" "spell (a @ b) = spell a @ spell b"
  by (simp_all add: spell_def)

lemma drop_brackets_prefix: "prefix (drop_brackets s) s"
proof (induction s rule: drop_brackets.induct)
  case (1 s)
  have "prefix (butlast s) s" by (cases s rule: rev_cases) simp_all
  then have "prefix (drop_brackets (butlast s)) s" if "s \<noteq> []"
      "(last s = CHR '')'' \<and> count_char (CHR ''('') s < count_char (CHR '')'') s)
        \<or> (last s = CHR '']'' \<and> count_char (CHR ''['') s < count_char (CHR '']'') s)
        \<or> last s = CHR ''>'' \<or> last s = CHR 0xBB"
    using 1 [OF that] prefix_order.trans by blast
  then show ?case by (subst drop_brackets.simps) (simp only: split: if_splits, simp)
qed

lemma trimTrailingPunctuation_prefix: "prefix (trimTrailingPunctuation u) u"
proof -
  have "prefix (rev (dropWhile is_trailing (rev u))) u"
    by (metis rev_rev_ident suffix_dropWhile suffix_to_prefix)
  then show ?thesis
    unfolding trimTrailingPunctuation_def using drop_brackets_prefix prefix_order.trans by blast
qed

lemma trimmed_rest: "trimTrailingPunctuation u @ drop (length (trimTrailingPunctuation u)) u = u"
  using trimTrailingPunctuation_prefix [of u] by (metis append_eq_conv_conj prefix_def)

lemma trimmed_all: "\<not> length (trimTrailingPunctuation u) < length u \<Longrightarrow> trimTrailingPunctuation u = u"
  using trimmed_rest [of u] by (metis append_Nil2 drop_all linorder_not_less)

lemma push_urls_spell: "spell (push_urls pre s) = pre @ s"
proof (induction pre s rule: push_urls.induct)
  case (2 pre c s)
  show ?case
  proof (cases "match_url None (c # s)")
    case None
    then show ?thesis using 2(1) by simp
  next
    case (Some r)
    obtain n k where r: "r = (n, k)" by (cases r)
    let ?hit = "c # take (n - 1) s"
    let ?trimmed = "trimTrailingPunctuation ?hit"
    have "spell ([seg ?trimmed LinkSeg] @
        (if length ?trimmed < length ?hit then [seg (drop (length ?trimmed) ?hit) PlainSeg] else [])) = ?hit"
      using trimmed_rest [of ?hit] trimmed_all [of ?hit] by (simp del: length_Cons)
    then have hit: "?trimmed @
        spell (if length ?trimmed < length ?hit then [seg (drop (length ?trimmed) ?hit) PlainSeg] else []) = ?hit"
      by simp
    have pre: "spell (if pre = [] then [] else [seg pre PlainSeg]) = pre" by simp
    have ih: "spell (push_urls [] (drop (n - 1) s)) = drop (n - 1) s"
      using 2(2) [OF Some [unfolded r]] by simp
    have "spell (push_urls pre (c # s)) = pre @ ?hit @ drop (n - 1) s"
      using hit unfolding push_urls.simps Some r option.case prod.case Let_def spell_simps pre ih
      by (simp only: seg_simps append_assoc [symmetric] append_Nil2)
    then show ?thesis by simp
  qed
qed auto

lemma parse_md_spell: "spell (parse_md current s) = current @ s"
proof (induction current s rule: parse_md.induct)
  case (2 current c s)
  then show ?case
    by (cases "block_action (c # s)") (auto simp: pushWithUrls_def push_urls_spell)
qed (simp add: pushWithUrls_def push_urls_spell)

lemma parseMarkdown_spell: "spell (parseMarkdown raw) = raw"
  by (simp add: parseMarkdown_def parse_md_spell)

section \<open>Expanding code fences\<close>

text \<open>What \<open>flattenHljs\<close> documents: the tokens spell the highlighted source.\<close>

definition faithful :: "highlighter \<Rightarrow> bool" where
  "faithful hljs \<longleftrightarrow> (\<forall>lang body ts. hljs lang body = Some ts \<longrightarrow> concat (map fst ts) = body)"

text \<open>A block closed on the line of its opening fence.\<close>

definition empty_fence :: "segment \<Rightarrow> bool" where
  "empty_fence sg = (case sg_kind sg of FenceSeg lang body \<Rightarrow> sg_text sg = FENCE @ lang @ CLOSING | _ \<Rightarrow> False)"

lemma slice_upto: "i \<le> j \<Longrightarrow> j \<le> length s \<Longrightarrow> drop i s = slice i j s @ drop j s"
  by (metis append_take_drop_id drop_drop le_add_diff_inverse2 slice_def)

lemma suffix_closing_append: "suffix CLOSING (a @ CLOSING)"
  by (simp add: suffix_def)

lemma not_suffix_closing:
  assumes "CHR 0x0A \<notin> set a" "\<not> sublist CLOSING (CHR 0x0A # b)"
  shows "\<not> suffix CLOSING (a @ CHR 0x0A # b)"
proof
  assume "suffix CLOSING (a @ CHR 0x0A # b)"
  then obtain z where z: "a @ CHR 0x0A # b = z @ CHR 0x0A # FENCE"
    by (auto simp: suffix_def CLOSING_def)
  then obtain us where "z = a @ us \<and> CHR 0x0A # b = us @ CHR 0x0A # FENCE \<or>
      a = z @ us \<and> us @ CHR 0x0A # b = CHR 0x0A # FENCE"
    by (auto simp: append_eq_append_conv2)
  then show False
  proof
    assume "z = a @ us \<and> CHR 0x0A # b = us @ CHR 0x0A # FENCE"
    then show False using assms(2) by (metis CLOSING_def append_Nil2 sublist_appendI)
  next
    assume us: "a = z @ us \<and> us @ CHR 0x0A # b = CHR 0x0A # FENCE"
    show False
    proof (cases us)
      case Nil
      then show False using us assms(2) by (metis CLOSING_def append_Nil sublist_order.order_refl)
    next
      case (Cons x xs)
      then show False using us assms(1) by auto
    qed
  qed
qed

lemma drop_fence [simp]: "drop (3 + l) (FENCE @ t) = drop l t" "drop (Suc (3 + l)) (FENCE @ t) = drop (Suc l) t"
  by (simp_all add: FENCE_def numeral_3_eq_3)

lemma take_fence [simp]: "take (3 + l) (FENCE @ t) = FENCE @ take l t"
  by (simp add: FENCE_def numeral_3_eq_3)

text \<open>The text of a fence segment is its language line, its body and, if it was closed, the closing fence.\<close>

definition fence_shape :: "segment \<Rightarrow> bool" where
  "fence_shape sg =
     (case sg_kind sg of
        FenceSeg lang body \<Rightarrow>
          sg_text sg = FENCE @ lang @ CHR 0x0A # body @ (if suffix CLOSING (sg_text sg) then CLOSING else []) \<or>
          empty_fence sg
      | _ \<Rightarrow> True)"

lemma try_fence_shape:
  assumes "try_fence s = Some (n, k)"
  shows "fence_shape (seg (take n s) k) \<and> 0 < n"
proof -
  obtain l where l: "prefix FENCE s" "index_of (drop 3 s) (CHR 0x0A) = Some l"
    using assms by (auto simp: try_fence_def split: if_splits option.splits)
  define lang where "lang = take l (drop 3 s)"
  obtain t where s: "s = FENCE @ t" using l(1) by (auto simp: prefix_def)
  have t: "index_of t (CHR 0x0A) = Some l" "lang = take l t" using l(2) by (simp_all add: s FENCE_def lang_def)
  have lt: "l < length t" "t ! l = CHR 0x0A" using index_of_Some [OF t(1)] by auto
  have nl: "CHR 0x0A \<notin> set lang"
    using t by (induction t arbitrary: l lang) (auto split: if_splits)
  obtain b where b: "t = lang @ CHR 0x0A # b" using lt t(2) by (metis id_take_nth_drop)
  have len: "length lang = l" using lt t(2) by simp
  have "drop (3 + l) s = drop l t" unfolding s by (rule drop_fence)
  then have rest: "drop (3 + l) s = CHR 0x0A # b" using b len by simp
  have fence3: "length FENCE = 3" by (simp add: FENCE_def)
  show ?thesis
  proof (cases "index_str CLOSING (drop (3 + l) s)")
    case None
    then have k: "n = length s" "k = FenceSeg lang (drop (3 + l + 1) s)"
      using assms l lang_def by (auto simp: try_fence_def Let_def)
    have body: "drop (3 + l + 1) s = b" using rest drop_drop [of 1 "3 + l" s] by (simp add: ac_simps)
    have "CHR 0x0A \<notin> set (FENCE @ lang)" using nl by (simp add: FENCE_def)
    then have "\<not> suffix CLOSING ((FENCE @ lang) @ CHR 0x0A # b)"
      using None by (intro not_suffix_closing) (simp_all only: rest index_str_None not_False_eq_True)
    then show ?thesis using k body s b by (simp add: fence_shape_def FENCE_def)
  next
    case (Some e)
    then have k: "n = 3 + l + e + 4" "k = FenceSeg lang (slice (3 + l + 1) (3 + l + e) s)"
      using assms l lang_def by (auto simp: try_fence_def Let_def)
    have "prefix CLOSING (drop e (CHR 0x0A # b))" "e \<le> length (CHR 0x0A # b)"
      using index_str_occurs [OF Some] rest by simp_all
    then obtain z where z: "drop e (CHR 0x0A # b) = CLOSING @ z" by (auto simp: prefix_def)
    show ?thesis
    proof (cases e)
      case 0
      then have "take n s = FENCE @ lang @ CLOSING"
        using z k(1) s b len take_fence [of "l + 4" t] by (simp add: CLOSING_def FENCE_def)
      then show ?thesis using k by (simp add: fence_shape_def empty_fence_def)
    next
      case (Suc d)
      have db: "drop d b = CLOSING @ z" using z Suc by simp
      have dl: "d \<le> length b" using \<open>e \<le> length (CHR 0x0A # b)\<close> Suc by simp
      have body: "slice (3 + l + 1) (3 + l + e) s = take d b"
        using rest drop_drop [of 1 "3 + l" s] Suc by (simp add: slice_def ac_simps)
      have "take (d + 5) (CHR 0x0A # b) = CHR 0x0A # take (d + 4) b"
        using take_Suc_Cons [of "d + 4" "CHR 0x0A" b] by (simp add: numeral_eq_Suc)
      then have "take n s = FENCE @ lang @ CHR 0x0A # take d b @ CLOSING"
        using db dl k(1) s b len Suc take_fence [of "l + Suc (d + 4)" t] take_add [of d 4 b]
        by (simp add: CLOSING_def FENCE_def ac_simps)
      then show ?thesis using k body suffix_closing_append [of "FENCE @ lang @ CHR 0x0A # take d b"]
        by (simp add: fence_shape_def)
    qed
  qed
qed

lemma inline_action_kind: "inline_action s = Emit n k \<Longrightarrow> fence_shape (seg t k)"
  by (auto simp: inline_action_def delimited_def fence_shape_def split: if_splits option.splits)

lemma block_action_shape:
  assumes "block_action (c # s) = Emit n k"
  shows "fence_shape (seg (c # take (n - 1) s) k)"
proof (cases "try_mention (c # s)")
  case (Some r)
  then show ?thesis using assms
    by (auto simp: block_action_def try_mention_def fence_shape_def Let_def split: if_splits option.splits)
next
  case None
  note nomention = None
  show ?thesis
  proof (cases "try_fence (c # s)")
    case (Some r)
    then have "try_fence (c # s) = Some (n, k)"
      using assms nomention by (cases r) (simp add: block_action_def)
    then have "fence_shape (seg (take n (c # s)) k)" "0 < n" using try_fence_shape by blast+
    then show ?thesis by (cases n) auto
  next
    case None
    then show ?thesis using assms nomention inline_action_kind by (simp add: block_action_def)
  qed
qed

lemma fence_shape_plain [simp]: "fence_shape (seg t PlainSeg)" "fence_shape (seg t LinkSeg)"
  by (simp_all add: fence_shape_def)

lemma push_urls_shape: "sg \<in> set (push_urls pre s) \<Longrightarrow> fence_shape sg"
  by (induction pre s rule: push_urls.induct) (auto simp: Let_def split: if_splits option.splits)

lemma parse_md_shape: "sg \<in> set (parse_md current s) \<Longrightarrow> fence_shape sg"
proof (induction current s rule: parse_md.induct)
  case (2 current c s)
  then show ?case
    using block_action_shape [of c s]
    by (auto simp: pushWithUrls_def dest: push_urls_shape split: scan_action.splits)
qed (auto simp: pushWithUrls_def dest: push_urls_shape)

lemma spell_tokens:
  "spell (map (\<lambda>(t, cls). seg t (if cls = [] then PlainSeg else HljsSeg cls)) ts) = concat (map fst ts)"
  by (induction ts) auto

lemma expand_fence_spell:
  assumes "faithful hljs" "fence_shape sg" "\<not> empty_fence sg"
  shows "spell (expand_fence hljs sg) = sg_text sg"
proof (cases "sg_kind sg")
  case (FenceSeg lang body)
  have "concat (map fst (or_else (hljs lang body) [(body, [])])) = body"
    using assms(1) by (cases "hljs lang body") (auto simp: faithful_def)
  then show ?thesis using assms FenceSeg
    by (simp add: expand_fence_def fence_shape_def spell_tokens split: if_splits)
qed (simp_all add: expand_fence_def)

lemma expand_spell:
  assumes "faithful hljs" "\<forall>sg \<in> set (parseMarkdown raw). \<not> empty_fence sg"
  shows "spell (expandFenceSegments hljs (parseMarkdown raw)) = raw"
proof -
  have "\<forall>sg \<in> set segs. fence_shape sg \<and> \<not> empty_fence sg \<Longrightarrow>
        spell (expandFenceSegments hljs segs) = spell segs" for segs
    using expand_fence_spell [OF assms(1)]
    by (induction segs) (auto simp: expandFenceSegments_def)
  then show ?thesis
    using assms(2) parse_md_shape parseMarkdown_spell unfolding parseMarkdown_def by metis
qed

text \<open>
  The segments the draft is split into, with every code fence expanded into highlighted tokens, spell
  the draft exactly, character by character: nothing is lost, added or moved between the text area
  and its overlay.
\<close>

theorem segments_spell_draft:
  assumes "faithful hljs" "\<forall>sg \<in> set (parseMarkdown raw). \<not> empty_fence sg"
  shows "spell (expandFenceSegments hljs (parseMarkdown raw)) = raw"
  using assms by (rule expand_spell)

theorem segments_spell_draft_witness:
  "spell (expandFenceSegments (\<lambda>lang body. Some [(body, ''kw'')])
      (parseMarkdown (FENCE @ ''c'' @ CHR 0x0A # ''x'' @ CLOSING @ '' **b**''))) =
   FENCE @ ''c'' @ CHR 0x0A # ''x'' @ CLOSING @ '' **b**''"
proof (rule segments_spell_draft)
  show "faithful (\<lambda>lang body. Some [(body, ''kw'')])" by (simp add: faithful_def)
  show "\<forall>sg \<in> set (parseMarkdown (FENCE @ ''c'' @ CHR 0x0A # ''x'' @ CLOSING @ '' **b**'')). \<not> empty_fence sg"
    by code_simp
qed

text \<open>An empty block closed on the next line gains a line in the overlay.\<close>

lemma empty_fence_grows:
  "spell (expandFenceSegments hljs (parseMarkdown (FENCE @ CLOSING))) =
   FENCE @ CHR 0x0A # concat (map fst (or_else (hljs [] []) [([], [])])) @ CLOSING"
proof -
  have "parseMarkdown (FENCE @ CLOSING) = [seg (FENCE @ CLOSING) (FenceSeg [] [])]" by code_simp
  then show ?thesis
    by (simp add: expandFenceSegments_def expand_fence_def spell_tokens suffix_closing_append)
qed

section \<open>The caret\<close>

fun node_text :: "overlay_node \<Rightarrow> string" where
  "node_text Caret = []"
| "node_text (Chip name insel) = name"
| "node_text (Span t cls insel) = t"

definition shown :: "overlay_node list \<Rightarrow> string" where
  "shown nodes = concat (map node_text nodes)"

lemma shown_simps [simp]:
  "shown [] = []" "shown (n # ns) = node_text n @ shown ns" "shown (a @ b) = shown a @ shown b"
  by (simp_all add: shown_def)

definition is_mention :: "segment \<Rightarrow> bool" where
  "is_mention sg = (case sg_kind sg of MentionSeg session \<Rightarrow> True | _ \<Rightarrow> False)"

text \<open>While the text \<open>done\<close> has been rendered: the caret is still to come, or it splits that text at \<open>p\<close>.\<close>

definition caret_inv :: "nat \<Rightarrow> string \<Rightarrow> overlay_node list \<times> bool \<Rightarrow> bool" where
  "caret_inv p dn st =
     (case st of (nodes, inserted) \<Rightarrow>
        if inserted then p \<le> length dn \<and>
          (\<exists>a b. nodes = a @ Caret # b \<and> Caret \<notin> set a \<union> set b \<and> shown a = take p dn \<and> shown b = drop p dn)
        else length dn \<le> p \<and> Caret \<notin> set nodes \<and> shown nodes = dn)"

abbreviation cursor_at :: "nat \<Rightarrow> view_range" where
  "cursor_at p \<equiv> \<lparr>ov_cursor = Some p, ov_sel = None\<rparr>"

lemma caret_inv_text:
  "caret_inv p dn (nodes, inserted) \<Longrightarrow> inserted \<or> length dn + length t \<le> p \<Longrightarrow>
   caret_inv p (dn @ t) (nodes @ (if t = [] then [] else [Span t cls insel]), inserted)"
proof (cases inserted)
  case True
  assume "caret_inv p dn (nodes, inserted)"
  then obtain a b where ab: "p \<le> length dn" "nodes = a @ Caret # b" "Caret \<notin> set a \<union> set b"
      "shown a = take p dn" "shown b = drop p dn"
    using True by (auto simp: caret_inv_def)
  let ?b = "b @ (if t = [] then [] else [Span t cls insel])"
  have "nodes @ (if t = [] then [] else [Span t cls insel]) = a @ Caret # ?b" "Caret \<notin> set a \<union> set ?b"
      "shown a = take p (dn @ t)" "shown ?b = drop p (dn @ t)"
    using ab by auto
  then show ?thesis using True ab(1) unfolding caret_inv_def prod.case by (metis length_append trans_le_add1)
qed (auto simp: caret_inv_def)

lemma caret_inv_caret:
  "caret_inv p dn (nodes, False) \<Longrightarrow> p = length dn \<Longrightarrow> caret_inv p dn (nodes @ [Caret], True)"
  by (simp add: caret_inv_def) (rule exI [of _ nodes], rule exI [of _ "[]"], simp)

lemma breaks_cursor:
  "breaks (cursor_at p) i len =
     (if len = 0 then [0] else if i < p \<and> p < i + len then [0, p - i, len] else [0, len])"
  by (auto simp: breaks_def boundaries_def)

lemma render_slice_step:
  assumes "caret_inv p dn (nodes, inserted)" "segStart + from = length dn" "from < to" "to \<le> length (sg_text sg)"
    "p \<le> length dn \<or> segStart + to \<le> p"
  shows "\<exists>nodes' inserted'.
     render_slices (cursor_at p) sg segStart (from # to # bs) (nodes, inserted) =
       render_slices (cursor_at p) sg segStart (to # bs) (nodes', inserted') \<and>
     caret_inv p (dn @ slice from to (sg_text sg)) (nodes', inserted')"
proof -
  let ?t = "slice from to (sg_text sg)"
  have t: "length ?t = to - from" "?t \<noteq> []" using assms(3,4) by (auto simp: slice_def)
  show ?thesis
  proof (cases "\<not> inserted \<and> p = segStart + from")
    case True
    then have "caret_inv p dn (nodes @ [Caret], True)" using assms(1,2) by (intro caret_inv_caret) auto
    from caret_inv_text [OF this, of ?t "getSegmentClass (sg_kind sg)" False]
    have inv: "caret_inv p (dn @ ?t) ((nodes @ [Caret]) @ [Span ?t (getSegmentClass (sg_kind sg)) False], True)"
      using t(2) by simp
    show ?thesis
      by (rule exI, rule exI, rule conjI [OF _ inv]) (use True t in \<open>simp add: Let_def\<close>)
  next
    case False
    have "inserted \<or> length dn + length ?t \<le> p"
      using assms False t by (auto simp: caret_inv_def split: if_splits)
    from caret_inv_text [OF assms(1) this, of "getSegmentClass (sg_kind sg)" False]
    have inv: "caret_inv p (dn @ ?t) (nodes @ [Span ?t (getSegmentClass (sg_kind sg)) False], inserted)"
      using t(2) by simp
    show ?thesis
      by (rule exI, rule exI, rule conjI [OF _ inv], cases inserted) (use False t in \<open>simp_all add: Let_def\<close>)
  qed
qed

declare render_slices.simps(1) [simp del]

lemma slice_slice: "i \<le> j \<Longrightarrow> slice 0 i s @ slice i j s = slice 0 j s"
  by (simp add: slice_def) (metis append_take_drop_id le_add_diff_inverse take_add)

lemma render_slices_caret:
  assumes inv: "caret_inv p dn (nodes, inserted)"
  shows "caret_inv p (dn @ sg_text sg)
    (render_slices (cursor_at p) sg (length dn) (breaks (cursor_at p) (length dn) (length (sg_text sg))) (nodes, inserted))"
proof -
  let ?i = "length dn" and ?n = "length (sg_text sg)"
  consider "?n = 0" | (split) "?n \<noteq> 0" "?i < p" "p < ?i + ?n" | (whole) "?n \<noteq> 0" "p \<le> ?i \<or> ?i + ?n \<le> p"
    by linarith
  then show ?thesis
  proof cases
    case 1
    then show ?thesis using inv by (simp add: breaks_cursor)
  next
    case whole
    then obtain ns ins where
      "render_slices (cursor_at p) sg ?i [0, ?n] (nodes, inserted) = (ns, ins)"
      "caret_inv p (dn @ slice 0 ?n (sg_text sg)) (ns, ins)"
      using render_slice_step [OF inv, of ?i 0 ?n sg "[]"] by auto
    then show ?thesis using whole by (auto simp: breaks_cursor slice_def)
  next
    case split
    let ?k = "p - ?i"
    obtain ns ins where one:
      "render_slices (cursor_at p) sg ?i [0, ?k, ?n] (nodes, inserted) = render_slices (cursor_at p) sg ?i [?k, ?n] (ns, ins)"
      "caret_inv p (dn @ slice 0 ?k (sg_text sg)) (ns, ins)"
      using render_slice_step [OF inv, of ?i 0 ?k sg "[?n]"] split by (auto simp: le_diff_conv)
    have "length (dn @ slice 0 ?k (sg_text sg)) = p" using split by (simp add: slice_def)
    then obtain ns' ins' where
      "render_slices (cursor_at p) sg ?i [?k, ?n] (ns, ins) = (ns', ins')"
      "caret_inv p ((dn @ slice 0 ?k (sg_text sg)) @ slice ?k ?n (sg_text sg)) (ns', ins')"
      using render_slice_step [OF one(2), of ?i ?k ?n sg "[]"] split by (auto simp: less_diff_conv2)
    moreover have "slice 0 ?k (sg_text sg) @ slice ?k ?n (sg_text sg) = sg_text sg"
      using split by (simp add: slice_slice) (simp add: slice_def)
    ultimately show ?thesis using one(1) split by (simp add: breaks_cursor)
  qed
qed

lemma render_segments_caret:
  assumes "\<forall>sg \<in> set segs. \<not> is_mention sg" "caret_inv p dn (nodes, inserted)"
  shows "\<exists>nodes' inserted'.
     foldl (render_segment (cursor_at p) resolver) (nodes, length dn, inserted) segs =
       (nodes', length (dn @ spell segs), inserted') \<and>
     caret_inv p (dn @ spell segs) (nodes', inserted')"
  using assms
proof (induction segs arbitrary: dn nodes inserted)
  case (Cons sg segs)
  obtain ns ins where slices: "render_slices (cursor_at p) sg (length dn)
      (breaks (cursor_at p) (length dn) (length (sg_text sg))) (nodes, inserted) = (ns, ins)"
    by fastforce
  then have inv: "caret_inv p (dn @ sg_text sg) (ns, ins)"
    using render_slices_caret [OF Cons.prems(2), of sg] by simp
  have "render_segment (cursor_at p) resolver (nodes, length dn, inserted) sg = (ns, length (dn @ sg_text sg), ins)"
    using Cons.prems(1) slices by (auto simp: render_segment_def is_mention_def split: seg_kind.splits)
  then show ?case using Cons.IH [OF _ inv] Cons.prems(1) by (simp add: ac_simps)
qed simp

text \<open>
  With the cursor at position \<open>p\<close> of a draft without mention chips, the overlay shows exactly one
  caret, the characters in front of it are the first \<open>p\<close> of the draft and those behind it the rest:
  the drawn caret never drifts from the real one.
\<close>

theorem caret_after_cursor_text:
  assumes "faithful hljs" "\<forall>sg \<in> set (parseMarkdown raw). \<not> empty_fence sg"
    "segs = expandFenceSegments hljs (parseMarkdown raw)" "\<forall>sg \<in> set segs. \<not> is_mention sg" "p \<le> length raw"
  shows "\<exists>a b. renderFormattedOverlay resolver segs p p True = a @ Caret # b \<and>
     Caret \<notin> set a \<union> set b \<and> shown a = take p raw \<and> shown b = drop p raw"
proof -
  have raw: "spell segs = raw"
    unfolding assms(3) using assms(1,2) by (rule expand_spell)
  have "caret_inv p [] ([], False)" by (simp add: caret_inv_def)
  from render_segments_caret [OF assms(4) this, of resolver] raw
  obtain ns ins where fold: "foldl (render_segment (cursor_at p) resolver) ([], 0, False) segs = (ns, length raw, ins)"
    "caret_inv p raw (ns, ins)" by auto
  have "caret_inv p raw (ns @ (if ins then [] else [Caret]), True)"
  proof (cases ins)
    case False
    then have "p = length raw" using fold(2) assms(5) by (simp add: caret_inv_def)
    then show ?thesis using False fold(2) caret_inv_caret by simp
  qed (use fold(2) in simp)
  moreover have "renderFormattedOverlay resolver segs p p True = ns @ (if ins then [] else [Caret])"
    using fold(1) by (simp add: renderFormattedOverlay_def overlay_view_def)
  ultimately show ?thesis by (simp only: caret_inv_def prod.case if_True)
qed

theorem caret_after_cursor_text_witness:
  "\<exists>a b. renderFormattedOverlay (\<lambda>s. None) (expandFenceSegments (\<lambda>l b. None) (parseMarkdown ''a **bc** d'')) 5 5 True =
     a @ Caret # b \<and> shown a = ''a **b'' \<and> shown b = ''c** d''"
proof -
  let ?raw = "''a **bc** d''"
  let ?segs = "expandFenceSegments (\<lambda>l b. None) (parseMarkdown ?raw)"
  have "faithful (\<lambda>l b. None)" by (simp add: faithful_def)
  moreover have "\<forall>sg \<in> set (parseMarkdown ?raw). \<not> empty_fence sg" by code_simp
  moreover have "\<forall>sg \<in> set ?segs. \<not> is_mention sg" by code_simp
  ultimately obtain a b where "renderFormattedOverlay (\<lambda>s. None) ?segs 5 5 True = a @ Caret # b"
     "shown a = take 5 ?raw" "shown b = drop 5 ?raw"
    using caret_after_cursor_text [of "\<lambda>l b. None" ?raw ?segs 5 "\<lambda>s. None"] by auto
  moreover have "take 5 ?raw = ''a **b''" "drop 5 ?raw = ''c** d''" by simp_all
  ultimately show ?thesis by metis
qed

end
