(* ===== verification/MarkdownHtml.thy ===== *)
theory MarkdownHtml
  imports Markdown
begin

text \<open>
  From the draft to the message body and back: \<open>markdownToHtml\<close> and \<open>htmlToMarkdown\<close> of
  \<open>components/chat/markdown/MarkdownInput.tsx\<close>, \<open>utils/html.ts\<close>, and the mention chips of
  \<open>utils/mentions.ts\<close> (\<open>applyMentionsToHtml\<close>).  Each \<open>replace\<close> of the source is one scan with the
  matcher of its expression, in the order of the source.
\<close>

section \<open>Escaping\<close>

definition replace_char :: "char \<Rightarrow> string \<Rightarrow> string \<Rightarrow> string" where
  "replace_char c r = replace_all (char_matcher (\<lambda>x. if x = c then Some r else None))"

definition escape_markup :: "string \<Rightarrow> string" where
  "escape_markup raw =
     replace_char (CHR ''>'') ''&gt;'' (replace_char (CHR ''<'') ''&lt;'' (replace_char (CHR ''&'') ''&amp;'' raw))"

definition html_entity :: "char \<Rightarrow> string option" where
  "html_entity c =
     (if c = CHR ''&'' then Some ''&amp;'' else if c = CHR ''<'' then Some ''&lt;''
      else if c = CHR ''>'' then Some ''&gt;'' else if c = CHR 0x22 then Some ''&quot;''
      else if c = CHR 0x27 then Some ''&#39;'' else None)"

definition escapeHtml :: "string \<Rightarrow> string" where
  "escapeHtml s = replace_all (char_matcher html_entity) s"

section \<open>Markdown to HTML\<close>

definition is_lang_char :: "char \<Rightarrow> bool" where
  "is_lang_char c \<longleftrightarrow>
     (let n = (of_char c :: nat) in (97 \<le> n \<and> n \<le> 122) \<or> (65 \<le> n \<and> n \<le> 90)) \<or> is_digit c \<or> c \<in> set ''_+-''"

definition quoted :: "string \<Rightarrow> string" where
  "quoted s = CHR 0x22 # s @ [CHR 0x22]"

definition tag :: "string \<Rightarrow> string" where
  "tag t = CHR ''<'' # t @ ''>''"

definition span_tag :: "string \<Rightarrow> string" where
  "span_tag cls = ''span class='' @ quoted cls"

definition code_tag :: "string \<Rightarrow> string" where
  "code_tag lang = (if lang = [] then ''code'' else ''code class='' @ quoted (''language-'' @ lang))"

definition drop_last_newline :: "string \<Rightarrow> string" where
  "drop_last_newline s = (if s \<noteq> [] \<and> last s = CHR 0x0A then butlast s else s)"

definition match_fence :: "string matcher" where
  "match_fence prev s =
     (case strip_prefix FENCE s of
        None \<Rightarrow> None
      | Some t \<Rightarrow>
          (let lang = takeWhile is_lang_char t in
           case strip_prefix [CHR 0x0A] (drop (length lang) t) of
             None \<Rightarrow> None
           | Some u \<Rightarrow>
               (case lazy_until (\<lambda>c. True) FENCE u of
                  None \<Rightarrow> None
                | Some k \<Rightarrow> Some (3 + length lang + 1 + k + 3,
                    tag ''pre'' @ tag (code_tag lang) @ drop_last_newline (take k u) @ tag ''/code'' @ tag ''/pre''))))"

text \<open>Text between two equal characters, with a condition on the characters between.\<close>

definition match_between :: "char \<Rightarrow> (char \<Rightarrow> bool) \<Rightarrow> (string \<Rightarrow> 'a) \<Rightarrow> 'a matcher" where
  "match_between d ok f prev s =
     (case strip_prefix [d] s of
        None \<Rightarrow> None
      | Some t \<Rightarrow>
          (let body = takeWhile (\<lambda>c. c \<noteq> d \<and> ok c) t
           in if body \<noteq> [] \<and> prefix [d] (drop (length body) t) then Some (length body + 2, f body) else None))"

definition match_icode :: "string matcher" where
  "match_icode = match_between (CHR 0x60) (\<lambda>c. True) (\<lambda>code. tag ''code'' @ code @ tag ''/code'')"

definition match_math_block :: "string matcher" where
  "match_math_block prev s =
     (case strip_prefix ''$$'' s of
        None \<Rightarrow> None
      | Some t \<Rightarrow> map_option (\<lambda>k. (k + 4, trim (take k t))) (lazy_until1 (\<lambda>c. True) ''$$'' t))"

definition match_math_inline :: "string matcher" where
  "match_math_inline = match_between (CHR ''$'') (\<lambda>c. c \<noteq> CHR 0x0A)
     (\<lambda>latex. tag (span_tag ''math-inline'') @ latex @ tag ''/span'')"

definition NUL :: char where
  "NUL = CHR 0x00"

definition stash_ref :: "string \<Rightarrow> nat \<Rightarrow> string" where
  "stash_ref name i = NUL # name @ show_nat i @ [NUL]"

definition match_ref :: "string \<Rightarrow> (string \<Rightarrow> string) \<Rightarrow> string list \<Rightarrow> string matcher" where
  "match_ref name f stash prev s =
     (case strip_prefix (NUL # name) s of
        None \<Rightarrow> None
      | Some t \<Rightarrow>
          (let ds = takeWhile is_digit t in
           if ds \<noteq> [] \<and> prefix [NUL] (drop (length ds) t)
           then Some (length name + length ds + 2,
                      f (let i = read_digits ds in if i < length stash then stash ! i else []))
           else None))"

definition match_wrap :: "string \<Rightarrow> string \<Rightarrow> string \<Rightarrow> string matcher" where
  "match_wrap d opening closing prev s =
     (case strip_prefix d s of
        None \<Rightarrow> None
      | Some t \<Rightarrow> map_option (\<lambda>k. (length d + k + length d, tag opening @ take k t @ tag closing)) (lazy_until1 is_dot d t))"

text \<open>The italic expression with its look-behinds and look-aheads; \<open>p\<close> is the character before.\<close>

fun italic_close :: "char \<Rightarrow> string \<Rightarrow> nat option" where
  "italic_close p [] = None"
| "italic_close p (c # s) =
     (if c = CHR ''*'' \<and> p \<noteq> CHR ''*'' \<and> \<not> prefix ''*'' s then Some 0
      else if is_dot c then map_option Suc (italic_close c s) else None)"

definition match_italic :: "string matcher" where
  "match_italic prev s =
     (if prev = Some (CHR ''*'') then None
      else case strip_prefix ''*'' s of
        None \<Rightarrow> None
      | Some [] \<Rightarrow> None
      | Some (c # t) \<Rightarrow>
          if c = CHR ''*'' \<or> \<not> is_dot c then None
          else map_option (\<lambda>k. (k + 3, tag ''i'' @ take (k + 1) (c # t) @ tag ''/i'')) (italic_close c t))"

definition link_tag :: "string \<Rightarrow> string" where
  "link_tag u = ''a href='' @ quoted u @ '' target='' @ quoted ''_blank'' @ '' rel='' @ quoted ''noopener noreferrer''"

definition match_link :: "string matcher" where
  "match_link prev s =
     (case match_url prev s of
        None \<Rightarrow> None
      | Some (n, _) \<Rightarrow>
          (let raw = take n s;
               url = trimTrailingPunctuation raw;
               safe = replace_char (CHR 0x22) ''&quot;'' url
           in Some (n, tag (link_tag safe) @ safe @ tag ''/a'' @ drop (length url) raw)))"

definition inline_marks :: "string \<Rightarrow> string" where
  "inline_marks html =
     replace_all (match_wrap ''||'' (span_tag ''spoiler'') ''/span'')
       (replace_all (match_wrap ''~~'' ''s'' ''/s'')
         (replace_all (match_wrap ''__'' ''u'' ''/u'')
           (replace_all match_italic
             (replace_all (match_wrap ''**'' ''b'' ''/b'') html))))"

definition math_block_html :: "string \<Rightarrow> string" where
  "math_block_html latex = tag (span_tag ''math-display'') @ latex @ tag ''/span''"

definition markdownToHtml :: "string \<Rightarrow> string" where
  "markdownToHtml raw =
     (let (html1, fences) = stash_from match_fence (stash_ref ''FENCE'') None [] (escape_markup raw);
          (html2, icodes) = stash_from match_icode (stash_ref ''ICODE'') None [] html1;
          (html3, maths) = stash_from match_math_block (stash_ref ''MATH_BLOCK'') None [] html2;
          html4 = replace_all match_math_inline html3;
          html5 = replace_all (match_ref ''ICODE'' (\<lambda>x. x) icodes) html4;
          html6 = inline_marks html5;
          html7 = replace_all match_link html6;
          html8 = replace_char (CHR 0x0A) (tag ''br'') html7;
          html9 = replace_all (match_ref ''FENCE'' (\<lambda>x. x) fences) html8
      in replace_all (match_ref ''MATH_BLOCK'' math_block_html maths) html9)"

section \<open>HTML to markdown\<close>

text \<open>A replacement template with one group, as \<open>String.prototype.replace\<close> reads it.\<close>

fun expand_template :: "string \<Rightarrow> string \<Rightarrow> string" where
  "expand_template (a # b # t) g =
     (if a = CHR ''$'' \<and> b = CHR ''$'' then CHR ''$'' # expand_template t g
      else if a = CHR ''$'' \<and> b = CHR ''1'' then g @ expand_template t g
      else a # expand_template (b # t) g)"
| "expand_template t g = t"

definition strip_ci :: "string \<Rightarrow> string \<Rightarrow> string option" where
  "strip_ci p s = (if to_lower (take (length p) s) = p then Some (drop (length p) s) else None)"

fun ci_until :: "string \<Rightarrow> string \<Rightarrow> nat option" where
  "ci_until p [] = None"
| "ci_until p (c # s) = (if strip_ci p (c # s) \<noteq> None then Some 0 else map_option Suc (ci_until p s))"

definition match_br :: "string matcher" where
  "match_br prev s =
     (case strip_ci ''<br'' s of
        None \<Rightarrow> None
      | Some t \<Rightarrow>
          (let ws = takeWhile is_ws t; u = drop (length ws) t;
               sl = (if prefix ''/'' u then 1 else 0)
           in if prefix ''>'' (drop sl u) then Some (3 + length ws + sl + 1, [CHR 0x0A]) else None))"

definition lang_attr :: "string \<Rightarrow> (string \<times> string) option" where
  "lang_attr t =
     (let ws = takeWhile is_ws t in
      if ws = [] then None
      else case strip_ci (''class='' @ CHR 0x22 # ''language-'') (drop (length ws) t) of
        None \<Rightarrow> None
      | Some u \<Rightarrow>
          (let lang = takeWhile is_lang_char u in
           if lang = [] then None
           else map_option (\<lambda>r. (lang, r)) (strip_prefix [CHR 0x22] (drop (length lang) u))))"

definition match_pre :: "string matcher" where
  "match_pre prev s =
     (case strip_ci ''<pre><code'' s of
        None \<Rightarrow> None
      | Some t \<Rightarrow>
          (let (lang, u) = (case lang_attr t of Some lu \<Rightarrow> lu | None \<Rightarrow> ([], t)) in
           case strip_prefix ''>'' u of
             None \<Rightarrow> None
           | Some v \<Rightarrow>
               (case ci_until ''</code></pre>'' v of
                  None \<Rightarrow> None
                | Some k \<Rightarrow> Some (length s - length v + k + 13,
                    FENCE @ lang @ CHR 0x0A # take k v @ CLOSING))))"

text \<open>The rest of an element: its content up to the closing tag, rewritten by the template.\<close>

definition close_element :: "string \<Rightarrow> string \<Rightarrow> string \<Rightarrow> string \<Rightarrow> (nat \<times> string) option" where
  "close_element closing template s v =
     (let body = takeWhile (\<lambda>c. c \<noteq> CHR ''<'') v in
      case strip_ci closing (drop (length body) v) of
        None \<Rightarrow> None
      | Some r \<Rightarrow> Some (length s - length r, expand_template template body))"

definition match_element :: "string \<Rightarrow> string \<Rightarrow> string matcher" where
  "match_element name template prev s =
     (case strip_ci (tag name) s of
        None \<Rightarrow> None
      | Some v \<Rightarrow> close_element (tag (CHR ''/'' # name)) template s v)"

definition skip_attrs :: "string \<Rightarrow> string option" where
  "skip_attrs t = strip_prefix ''>'' (dropWhile (\<lambda>c. c \<noteq> CHR ''>'') t)"

definition match_anchor :: "string matcher" where
  "match_anchor prev s =
     (case strip_ci ''<a'' s of
        None \<Rightarrow> None
      | Some t \<Rightarrow> (case skip_attrs t of None \<Rightarrow> None | Some v \<Rightarrow> close_element ''</a>'' ''$1'' s v))"

definition open_span :: "string \<Rightarrow> string \<Rightarrow> string option" where
  "open_span cls s =
     (case strip_ci ''<span'' s of
        None \<Rightarrow> None
      | Some t \<Rightarrow>
          if \<not> (t \<noteq> [] \<and> is_ws (hd t)) then None
          else case strip_ci (''class='' @ quoted cls) (dropWhile is_ws t) of
            None \<Rightarrow> None
          | Some u \<Rightarrow> skip_attrs u)"

definition match_span :: "string \<Rightarrow> string \<Rightarrow> string matcher" where
  "match_span cls template prev s =
     (case open_span cls s of None \<Rightarrow> None | Some v \<Rightarrow> close_element ''</span>'' template s v)"

definition match_math_display :: "string matcher" where
  "match_math_display prev s =
     (case open_span ''math-display'' s of
        None \<Rightarrow> None
      | Some v \<Rightarrow> map_option (\<lambda>k. (length s - length v + k + 7, expand_template ''$$$$1$$'' (take k v)))
                     (ci_until ''</span>'' v))"

definition match_comment :: "string matcher" where
  "match_comment prev s =
     (case strip_prefix ''<!--'' s of
        None \<Rightarrow> None
      | Some t \<Rightarrow> map_option (\<lambda>k. (k + 7, [])) (lazy_until (\<lambda>c. True) ''-->'' t))"

definition match_tag :: "string matcher" where
  "match_tag prev s =
     (case strip_prefix ''<'' s of
        None \<Rightarrow> None
      | Some t \<Rightarrow> map_option (\<lambda>r. (length s - length r, [])) (skip_attrs t))"

definition strip_elements :: "string \<Rightarrow> string" where
  "strip_elements t =
     replace_all match_tag
       (replace_all match_comment
         (replace_all (match_span ''spoiler'' ''||$1||'')
           (replace_all (match_element ''s'' ''~~$1~~'')
             (replace_all (match_element ''u'' ''__$1__'')
               (replace_all (match_element ''em'' ''*$1*'')
                 (replace_all (match_element ''i'' ''*$1*'')
                   (replace_all (match_element ''strong'' ''**$1**'')
                     (replace_all (match_element ''b'' ''**$1**'')
                       (replace_all (match_span ''math-inline'' ''$$1$'')
                         (replace_all match_math_display
                           (replace_all (match_element ''code'' (CHR 0x60 # ''$1'' @ [CHR 0x60]))
                             (replace_all match_anchor
                               (replace_all match_pre t)))))))))))))"

definition decode_entities :: "string \<Rightarrow> string" where
  "decode_entities t =
     replace_all (lit ''&amp;'' ''&'') (replace_all (lit ''&gt;'' ''>'') (replace_all (lit ''&lt;'' ''<'') t))"

definition htmlToMarkdown :: "string \<Rightarrow> string" where
  "htmlToMarkdown html = decode_entities (strip_elements (replace_all match_br html))"

end
