(* ===== verification/Mentions.thy ===== *)
theory Mentions
  imports MarkdownHtml AppTypes
begin

text \<open>
  Mentions, \<open>utils/mentions.ts\<close>, \<open>components/chat/mention/MentionAutocomplete.tsx\<close> and
  \<open>components/chat/mention/useMentionCandidates.ts\<close>: detecting that one is being typed, the
  candidates offered, the marker inserted, the chips of the sent body, and what a receiver reads out
  of them.
\<close>

section \<open>Markers and triggers\<close>

definition formatUserMention :: "int \<Rightarrow> string" where
  "formatUserMention session = ''<@'' @ show_int session @ ''>''"

definition formatRoleMention :: "string \<Rightarrow> string" where
  "formatRoleMention name = ''<@&'' @ name @ ''>''"

datatype mention_kind = UserMention | RoleMention

record mention_trigger =
  mt_anchor :: nat
  mt_query :: string
  mt_kind :: mention_kind

definition char_at :: "string \<Rightarrow> nat \<Rightarrow> char option" where
  "char_at s i = (if i < length s then Some (s ! i) else None)"

definition breaks_token :: "char \<Rightarrow> bool" where
  "breaks_token c \<longleftrightarrow> is_ws c \<or> c = CHR ''<'' \<or> c = CHR ''>''"

text \<open>The walk backwards from the cursor to the \<open>@\<close> of an unbroken token.\<close>

fun walk_back :: "string \<Rightarrow> nat \<Rightarrow> nat option" where
  "walk_back draft 0 = None"
| "walk_back draft (Suc i) =
     (if char_at draft i = Some (CHR ''@'') then Some i
      else if (case char_at draft i of Some c \<Rightarrow> breaks_token c | None \<Rightarrow> False) then None
      else walk_back draft i)"

definition parseMentionTrigger :: "string \<Rightarrow> nat \<Rightarrow> mention_trigger option" where
  "parseMentionTrigger draft cursor =
     (case walk_back draft cursor of
        None \<Rightarrow> None
      | Some i \<Rightarrow>
          if 0 < i \<and> \<not> (case char_at draft (i - 1) of Some c \<Rightarrow> is_ws c | None \<Rightarrow> False) then None
          else let kind = (if char_at draft (i + 1) = Some (CHR ''&'') then RoleMention else UserMention);
                   queryStart = (case kind of RoleMention \<Rightarrow> i + 2 | UserMention \<Rightarrow> i + 1)
               in Some \<lparr>mt_anchor = i, mt_query = slice queryStart cursor draft, mt_kind = kind\<rparr>)"

section \<open>Candidates\<close>

datatype mention_candidate =
    CandUser int string "string option"     \<comment> \<open>session, name, avatar\<close>
  | CandRole string
  | CandEveryone
  | CandHere

definition MAX_CANDIDATES :: nat where
  "MAX_CANDIDATES = 8"

definition role_candidates :: "string list \<Rightarrow> string \<Rightarrow> mention_candidate list" where
  "role_candidates roleGroups q =
     map CandRole (take MAX_CANDIDATES
       (filter (\<lambda>g. \<not> starts_with g ''~'' \<and> includes_str (to_lower g) q) roleGroups))"

definition user_candidates ::
  "(int \<Rightarrow> int option \<Rightarrow> string option) \<Rightarrow> user_entry list \<Rightarrow> int option \<Rightarrow> int option \<Rightarrow> string \<Rightarrow> mention_candidate list" where
  "user_candidates avatar users selectedChannel ownSession q =
     (let allOthers = filter (\<lambda>u. Some (us_session u) \<noteq> ownSession \<and> includes_str (to_lower (us_name u)) q) users;
          inChannel = filter (\<lambda>u. selectedChannel = Some (us_channel_id u)) allOthers;
          elsewhere = filter (\<lambda>u. selectedChannel \<noteq> Some (us_channel_id u)) allOthers
      in map (\<lambda>u. CandUser (us_session u) (us_name u) (avatar (us_session u) (us_texture_size u)))
           (take MAX_CANDIDATES (inChannel @ elsewhere)))"

definition useMentionCandidates ::
  "(int \<Rightarrow> int option \<Rightarrow> string option) \<Rightarrow> user_entry list \<Rightarrow> int option \<Rightarrow> int option \<Rightarrow> string list \<Rightarrow>
   mention_kind option \<Rightarrow> string \<Rightarrow> mention_candidate list" where
  "useMentionCandidates avatar users selectedChannel ownSession roleGroups kind query =
     (let q = to_lower query in
      case kind of
        None \<Rightarrow> []
      | Some UserMention \<Rightarrow>
          user_candidates avatar users selectedChannel ownSession q @ role_candidates roleGroups q @
          (if starts_with ''everyone'' q then [CandEveryone] else []) @
          (if starts_with ''here'' q then [CandHere] else [])
      | Some RoleMention \<Rightarrow> role_candidates roleGroups q)"

fun candidateInsertText :: "mention_candidate \<Rightarrow> string" where
  "candidateInsertText (CandUser session name avatar) = formatUserMention session"
| "candidateInsertText (CandRole name) = formatRoleMention name"
| "candidateInsertText CandEveryone = ''@everyone''"
| "candidateInsertText CandHere = ''@here''"

section \<open>Chips\<close>

text \<open>
  \<open>Number(digits)\<close> is \<open>None\<close> when it overflows to infinity; numbers are printed in decimal notation,
  which the language does below \<open>10 ^ 21\<close>.
\<close>

definition num_text :: "int option \<Rightarrow> string" where
  "num_text n = (case n of Some i \<Rightarrow> show_int i | None \<Rightarrow> ''Infinity'')"

record resolver =
  resolveSession :: "int option \<Rightarrow> string option"
  resolveRole :: "string \<Rightarrow> string option option"     \<comment> \<open>a known role with its colour, if any\<close>

definition is_colour_char :: "char \<Rightarrow> bool" where
  "is_colour_char c \<longleftrightarrow>
     (let n = (of_char c :: nat) in (97 \<le> n \<and> n \<le> 122) \<or> (65 \<le> n \<and> n \<le> 90)) \<or> is_digit c \<or> c \<in> set ''# .,()%/''"

definition sanitiseColor :: "string \<Rightarrow> string option" where
  "sanitiseColor color =
     (let trimmed = trim color in
      if trimmed = [] \<or> 64 < length trimmed \<or> \<not> list_all is_colour_char trimmed then None else Some trimmed)"

definition user_tag :: "string \<Rightarrow> string" where
  "user_tag session = ''span class='' @ quoted ''mention mention-user'' @ '' data-mention-session='' @ quoted session"

definition match_user_mention :: "resolver \<Rightarrow> string matcher" where
  "match_user_mention r prev s =
     (case strip_prefix ''&lt;@'' s of
        None \<Rightarrow> None
      | Some t \<Rightarrow>
          (let ds = takeWhile is_digit t in
           if ds \<noteq> [] \<and> prefix ''&gt;'' (drop (length ds) t)
           then let session = round_double (int (read_digits ds));
                    name = or_else (resolveSession r session) (''user-'' @ num_text session)
                in Some (5 + length ds + 4,
                     tag (user_tag (num_text session)) @ ''@'' @ escapeHtml name @ tag ''/span'')
           else None))"

definition is_role_char :: "char \<Rightarrow> bool" where
  "is_role_char c \<longleftrightarrow> c \<noteq> CHR ''&'' \<and> c \<noteq> CHR ''<'' \<and> c \<noteq> CHR ''>'' \<and> \<not> is_ws c"

definition style_attr :: "string option option \<Rightarrow> string" where
  "style_attr role =
     (case role of
        Some (Some color) \<Rightarrow>
          (case (if color = [] then None else sanitiseColor color) of
             None \<Rightarrow> []
           | Some c \<Rightarrow> '' style='' @ quoted (''color:'' @ c @ '';background:color-mix(in srgb, '' @ c @ '' 22%, transparent)''))
      | _ \<Rightarrow> [])"

definition role_tag :: "string \<Rightarrow> string \<Rightarrow> string" where
  "role_tag name style = ''span class='' @ quoted ''mention mention-role'' @ '' data-mention-role='' @ quoted (escapeHtml name) @ style"

definition match_role_mention :: "resolver \<Rightarrow> string matcher" where
  "match_role_mention r prev s =
     (case strip_prefix ''&lt;@&amp;'' s of
        None \<Rightarrow> None
      | Some t \<Rightarrow>
          (let name = takeWhile is_role_char t in
           if name \<noteq> [] \<and> prefix ''&gt;'' (drop (length name) t)
           then Some (10 + length name + 4,
                  tag (role_tag name (style_attr (resolveRole r name))) @ ''@'' @ escapeHtml name @ tag ''/span'')
           else None))"

definition is_word :: "char \<Rightarrow> bool" where
  "is_word c \<longleftrightarrow>
     (let n = (of_char c :: nat) in (97 \<le> n \<and> n \<le> 122) \<or> (65 \<le> n \<and> n \<le> 90)) \<or> is_digit c \<or> c = CHR ''_''"

text \<open>\<open>@word\b\<close> at a position; the word ends in a letter.\<close>

definition at_word :: "string \<Rightarrow> string \<Rightarrow> bool" where
  "at_word word s \<longleftrightarrow> prefix (CHR ''@'' # word) s \<and>
     (case drop (Suc (length word)) s of [] \<Rightarrow> True | c # t \<Rightarrow> \<not> is_word c)"

definition all_tag :: "string \<Rightarrow> string" where
  "all_tag word = ''span class='' @ quoted (''mention mention-'' @ word) @ '' data-mention-'' @ word @ ''='' @ quoted ''1''"

definition match_all_mention :: "string \<Rightarrow> string matcher" where
  "match_all_mention word prev s =
     (let chip = tag (all_tag word) @ CHR ''@'' # word @ tag ''/span'' in
      if prev = None \<and> at_word word s then Some (Suc (length word), chip)
      else case s of
        [] \<Rightarrow> None
      | lead # t \<Rightarrow> if is_ws lead \<and> at_word word t then Some (length word + 2, lead # chip) else None)"

definition applyMentionsToHtml :: "resolver \<Rightarrow> string \<Rightarrow> string" where
  "applyMentionsToHtml r escapedHtml =
     replace_all (match_all_mention ''here'')
       (replace_all (match_all_mention ''everyone'')
         (replace_all (match_role_mention r)
           (replace_all (match_user_mention r) escapedHtml)))"

section \<open>Reading mentions\<close>

record mention_targets =
  mg_sessions :: "int option jset"
  mg_roles :: "string jset"
  mg_everyone :: bool
  mg_here :: bool

definition match_attr :: "string \<Rightarrow> (char \<Rightarrow> bool) \<Rightarrow> string matcher" where
  "match_attr name ok prev s =
     (case strip_prefix (name @ ''='' @ [CHR 0x22]) s of
        None \<Rightarrow> None
      | Some t \<Rightarrow>
          (let v = takeWhile ok t in
           if v \<noteq> [] \<and> prefix [CHR 0x22] (drop (length v) t) then Some (length name + length v + 3, v) else None))"

definition match_marker :: "string \<Rightarrow> (char \<Rightarrow> bool) \<Rightarrow> string matcher" where
  "match_marker opening ok prev s =
     (case strip_prefix opening s of
        None \<Rightarrow> None
      | Some t \<Rightarrow>
          (let v = takeWhile ok t in
           if v \<noteq> [] \<and> prefix ''>'' (drop (length v) t) then Some (length opening + length v + 1, v) else None))"

definition match_raw_all :: "string \<Rightarrow> unit matcher" where
  "match_raw_all word prev s =
     (if prev = None \<and> at_word word s then Some (1, ())
      else case s of
        [] \<Rightarrow> None
      | lead # t \<Rightarrow> if (is_ws lead \<or> lead = CHR ''>'') \<and> at_word word t then Some (1, ()) else None)"

definition session_number :: "string \<Rightarrow> int option" where
  "session_number ds = round_double (int (read_digits ds))"

definition extractMentionTargets :: "string \<Rightarrow> mention_targets" where
  "extractMentionTargets html =
     (let chips = filter (\<lambda>n. n \<noteq> None) (map session_number (match_all (match_attr ''data-mention-session'' is_digit) html));
          raws = map session_number (match_all (match_marker ''<@'' is_digit) html);
          chipRoles = match_all (match_attr ''data-mention-role'' (\<lambda>c. c \<noteq> CHR 0x22)) html;
          rawRoles = match_all (match_marker ''<@&'' (\<lambda>c. c \<noteq> CHR ''>'' \<and> \<not> is_ws c)) html
      in \<lparr>mg_sessions = set_of_list (chips @ raws), mg_roles = set_of_list (chipRoles @ rawRoles),
          mg_everyone = (includes_str html (''data-mention-everyone='' @ quoted ''1'') \<or> match_all (match_raw_all ''everyone'') html \<noteq> []),
          mg_here = (includes_str html (''data-mention-here='' @ quoted ''1'') \<or> match_all (match_raw_all ''here'') html \<noteq> [])\<rparr>)"

record self_context =
  sx_ownSession :: "int option"
  sx_ownRoles :: "string jset option"
  sx_isInMessageChannel :: bool

definition containsSelfMention :: "string \<Rightarrow> self_context \<Rightarrow> bool" where
  "containsSelfMention html ctx =
     (let targets = extractMentionTargets html in
      (case sx_ownSession ctx of Some own \<Rightarrow> set_has (mg_sessions targets) (Some own) | None \<Rightarrow> False) \<or>
      (sx_isInMessageChannel ctx \<and> (mg_everyone targets \<or> mg_here targets)) \<or>
      (case sx_ownRoles ctx of Some roles \<Rightarrow> list_ex (set_has roles) (mg_roles targets) | None \<Rightarrow> False))"

end
