(* ===== verification/HtmlSafety.thy ===== *)
theory HtmlSafety
  imports Mentions
begin

text \<open>
  What the conversion of a draft guarantees: the body contains no markup but the tags the client
  writes itself (\<open>markdown_writes_own_tags\<close>).  \<open>MessageBody\<close> adds mentions and the way back into the
  editor.
\<close>

section \<open>Text with a given set of tags\<close>

inductive marked :: "(string \<Rightarrow> bool) \<Rightarrow> string \<Rightarrow> bool" for T where
  marked_Nil [intro!, simp]: "marked T []"
| marked_char: "c \<noteq> CHR ''<'' \<Longrightarrow> c \<noteq> CHR ''>'' \<Longrightarrow> marked T s \<Longrightarrow> marked T (c # s)"
| marked_tag: "T t \<Longrightarrow> CHR ''<'' \<notin> set t \<Longrightarrow> CHR ''>'' \<notin> set t \<Longrightarrow> marked T s \<Longrightarrow> marked T (tag t @ s)"

definition no_angle :: "string \<Rightarrow> bool" where
  "no_angle s \<longleftrightarrow> CHR ''<'' \<notin> set s \<and> CHR ''>'' \<notin> set s"

lemma no_angle_simps [simp]:
  "no_angle []" "no_angle (c # s) \<longleftrightarrow> c \<noteq> CHR ''<'' \<and> c \<noteq> CHR ''>'' \<and> no_angle s"
  "no_angle (a @ b) \<longleftrightarrow> no_angle a \<and> no_angle b"
  by (auto simp: no_angle_def)

lemma marked_plain: "no_angle s \<Longrightarrow> marked T s"
  by (induction s) (auto intro: marked_char)

lemma marked_append: "marked T a \<Longrightarrow> marked T b \<Longrightarrow> marked T (a @ b)"
  by (induction rule: marked.induct) (auto intro: marked.intros)

lemma marked_tagI: "T t \<Longrightarrow> no_angle t \<Longrightarrow> marked T s \<Longrightarrow> marked T (tag t @ s)"
  by (simp add: marked_tag no_angle_def)

lemma marked_single_tag: "T t \<Longrightarrow> no_angle t \<Longrightarrow> marked T (tag t)"
  using marked_tagI [of T t "[]"] by simp

lemma marked_mono: "marked T s \<Longrightarrow> (\<And>t. T t \<Longrightarrow> U t) \<Longrightarrow> marked U s"
  by (induction rule: marked.induct) (auto intro: marked.intros)

inductive_cases marked_ConsE: "marked T (c # s)"

lemma marked_drop_plain: "marked T (d @ y) \<Longrightarrow> no_angle d \<Longrightarrow> marked T y"
  by (induction d) (auto simp: tag_def elim: marked_ConsE)

text \<open>
  A text that occurs in no tag splits marked text where it occurs: it cannot straddle a tag either,
  having no angle brackets.
\<close>

lemma marked_split:
  assumes "marked T (x @ d @ y)" "d \<noteq> []" "no_angle d" "\<And>t. T t \<Longrightarrow> \<not> sublist d t"
  shows "marked T x \<and> marked T y"
  using assms(1)
proof (induction "x @ d @ y" arbitrary: x rule: marked.induct)
  case marked_Nil
  then show ?case using assms(2) by simp
next
  case (marked_char c s)
  show ?case
  proof (cases x)
    case Nil
    then obtain d' where "d = c # d'" "s = d' @ y"
      using marked_char.hyps(5) assms(2) by (cases d) auto
    then show ?thesis using Nil marked_char.hyps(3) assms(3) marked_drop_plain [of T d' y] by simp
  next
    case (Cons c' x')
    then have "c' = c" "s = x' @ d @ y" using marked_char.hyps(5) by auto
    then show ?thesis using marked_char.hyps(1,2) marked_char.hyps(4) [of x'] Cons
      by (auto intro: marked.marked_char)
  qed
next
  case (marked_tag t s)
  from marked_tag.hyps(6) consider (inside) us where "tag t = x @ us" "us @ s = d @ y"
    | (behind) us where "x = tag t @ us" "s = us @ d @ y"
    by (metis append_eq_append_conv2)
  then show ?case
  proof cases
    case behind
    then show ?thesis using marked_tag.hyps(1-3) marked_tag.hyps(5) [of us]
      by (auto intro: marked.marked_tag)
  next
    case inside
    show ?thesis
    proof (cases us rule: rev_cases)
      case Nil
      then have "marked T (d @ y)" using inside marked_tag.hyps(4) by simp
      then have "marked T y" using assms(3) by (rule marked_drop_plain)
      moreover have "marked T (tag t)" using marked_tag.hyps(1-3) by (intro marked_single_tag) (auto simp: no_angle_def)
      ultimately show ?thesis using inside Nil by simp
    next
      case (snoc vs z)
      have z: "z = CHR ''>''" "CHR ''<'' # t = x @ vs" using inside(1) snoc by (auto simp: tag_def)
      have "(vs @ CHR ''>'' # s) = d @ y" using inside(2) snoc z(1) by simp
      then obtain us' where "vs = d @ us'"
        using assms(3) by (auto simp: append_eq_append_conv2 no_angle_def Cons_eq_append_conv)
      moreover have "x \<noteq> []" using z(2) calculation assms(2,3) by (cases d) auto
      ultimately have "sublist d t" using z(2) by (cases x) auto
      then show ?thesis using assms(4) marked_tag.hyps(1) by blast
    qed
  qed
qed

text \<open>The same at a character no tag contains.\<close>

lemma marked_split_char:
  assumes "marked T (x @ c # y)" "c \<noteq> CHR ''<''" "c \<noteq> CHR ''>''" "\<And>t. T t \<Longrightarrow> c \<notin> set t"
  shows "marked T x \<and> marked T y"
proof (rule marked_split [of T x "[c]"])
  show "\<not> sublist [c] t" if "T t" for t
    using assms(4) [OF that] by (auto simp: sublist_def)
qed (use assms in auto)

lemma drop_exact: "s = a @ b \<Longrightarrow> length a = n \<Longrightarrow> drop n s = b"
  by simp

section \<open>Passes that wrap text in tags\<close>

text \<open>
  Tags of one stage, and characters that occur in none of them.  Between two such characters the text
  is marked on its own, so a pass that replaces them by tags keeps the whole marked.
\<close>

locale tag_set =
  fixes T :: "string \<Rightarrow> bool" and D :: "char set"
  assumes tag_plain: "T t \<Longrightarrow> no_angle t"
    and delim_outside: "T t \<Longrightarrow> c \<in> D \<Longrightarrow> c \<notin> set t"
begin

lemma split:
  assumes "marked T (x @ d @ y)" "no_angle d" "d \<noteq> []" "hd d \<in> D"
  shows "marked T x \<and> marked T y"
proof (rule marked_split [OF assms(1,3,2)])
  show "\<not> sublist d t" if "T t" for t
    using delim_outside [OF that assms(4)] assms(3) by (cases d) (auto simp: sublist_def)
qed

lemma wrap: "T a \<Longrightarrow> T b \<Longrightarrow> marked T s \<Longrightarrow> marked T (tag a @ s @ tag b)"
  by (intro marked_tagI marked_append marked_single_tag tag_plain)

lemma wrap_pass:
  assumes "d \<noteq> []" "hd d \<in> D" "no_angle d" "T a" "T b" "marked T s"
  shows "marked T (replace_all (match_wrap d a b) s)"
proof (rule replace_all_inv [where Q = "marked T", OF _ assms(6)])
  fix w p s n rep
  assume m: "match_wrap d a b p s = Some (n, rep)" and Q: "marked T (w @ s)"
  obtain t k where t: "s = d @ t" "lazy_until1 is_dot d t = Some k" "n = length d + k + length d"
      "rep = tag a @ take k t @ tag b"
    using m by (auto simp: match_wrap_def split: option.splits)
  obtain x y where xy: "t = x @ d @ y" "length x = k" using lazy_until1_Some [OF t(2)] by blast
  have "marked T w \<and> marked T (x @ d @ y)" using split [of w d "x @ d @ y"] Q t(1) xy assms(1-3) by simp
  moreover from this have "marked T x \<and> marked T y" using split [of x d y] assms(1-3) by simp
  ultimately have "marked T (w @ (tag a @ x @ tag b) @ y)"
    by (intro marked_append wrap assms) auto
  moreover have "drop n s = y" using t xy by (intro drop_exact [of _ "d @ x @ d"]) simp_all
  ultimately show "0 < n \<and> marked T (w @ rep @ drop n s)" using t(3,4) xy assms(1) by simp
qed

lemma italic_close_Some:
  "italic_close p s = Some k \<Longrightarrow> \<exists>a b. s = a @ CHR ''*'' # b \<and> length a = k"
proof (induction p s arbitrary: k rule: italic_close.induct)
  case (2 p c s)
  show ?case
  proof (cases "c = CHR ''*'' \<and> p \<noteq> CHR ''*'' \<and> \<not> prefix ''*'' s")
    case True
    then show ?thesis using 2(2) by auto
  next
    case False
    then obtain j where "italic_close c s = Some j" "is_dot c" "k = Suc j" using 2(2) by (auto split: if_splits)
    then obtain a b where "s = a @ CHR ''*'' # b" "length a = j" using 2(1) [OF False] by blast
    then show ?thesis using \<open>k = Suc j\<close> by - (rule exI [of _ "c # a"], rule exI [of _ b], simp)
  qed
qed simp

lemma italic_pass:
  assumes "CHR ''*'' \<in> D" "T ''i''" "T ''/i''" "marked T s"
  shows "marked T (replace_all match_italic s)"
proof (rule replace_all_inv [where Q = "marked T", OF _ assms(4)])
  fix w p s n rep
  assume m: "match_italic p s = Some (n, rep)" and Q: "marked T (w @ s)"
  obtain c t k where t: "s = CHR ''*'' # c # t" "italic_close c t = Some k" "n = k + 3"
      "rep = tag ''i'' @ (c # take k t) @ tag ''/i''"
    using m by (auto simp: match_italic_def split: option.splits list.splits if_splits)
  obtain x y where xy: "t = x @ CHR ''*'' # y" "length x = k" using italic_close_Some [OF t(2)] by blast
  have "marked T w \<and> marked T ((c # x) @ [CHR ''*''] @ y)"
    using split [of w "[CHR ''*'']" "c # t"] Q t(1) xy assms(1) by simp
  moreover from this have "marked T (c # x) \<and> marked T y" using split [of "c # x" "[CHR ''*'']" y] assms(1) by simp
  ultimately have "marked T (w @ (tag ''i'' @ (c # x) @ tag ''/i'') @ y)"
    by (intro marked_append wrap assms) auto
  moreover have "drop n s = y" using t xy by (intro drop_exact [of _ "CHR ''*'' # c # x @ ''*''"]) auto
  ultimately show "0 < n \<and> marked T (w @ rep @ drop n s)" using t(3,4) xy by simp
qed

lemma between_pass:
  assumes "d \<in> D" "no_angle [d]" "T a" "T b" "marked T s"
  shows "marked T (replace_all (match_between d ok (\<lambda>x. tag a @ x @ tag b)) s)"
proof (rule replace_all_inv [where Q = "marked T", OF _ assms(5)])
  fix w p s n rep
  assume m: "match_between d ok (\<lambda>x. tag a @ x @ tag b) p s = Some (n, rep)" and Q: "marked T (w @ s)"
  obtain t x where t: "s = d # t" "x = takeWhile (\<lambda>c. c \<noteq> d \<and> ok c) t" "prefix [d] (drop (length x) t)"
      "n = length x + 2" "rep = tag a @ x @ tag b"
    using m by (auto simp: match_between_def Let_def split: option.splits if_splits)
  obtain y where "t = x @ [d] @ y"
    using t(2,3) unfolding prefix_def by (metis append_take_drop_id takeWhile_eq_take)
  then have "marked T w \<and> marked T (x @ [d] @ y)" using split [of w "[d]" t] Q t(1) assms(1,2) by simp
  moreover from this have "marked T x \<and> marked T y" using split [of x "[d]" y] assms(1,2) by simp
  ultimately have "marked T (w @ (tag a @ x @ tag b) @ y)"
    by (intro marked_append wrap assms) auto
  moreover have "drop n s = y" using t(1,4) \<open>t = x @ [d] @ y\<close> by (intro drop_exact [of _ "d # x @ [d]"]) simp_all
  ultimately show "0 < n \<and> marked T (w @ rep @ drop n s)" using t(4,5) by simp
qed

lemma ref_pass:
  assumes "NUL \<in> D" "no_angle name" "marked T (f [])" "\<forall>x \<in> set stash. marked T (f x)" "marked T s"
  shows "marked T (replace_all (match_ref name f stash) s)"
proof (rule replace_all_inv [where Q = "marked T", OF _ assms(5)])
  fix w p s n rep
  assume m: "match_ref name f stash p s = Some (n, rep)" and Q: "marked T (w @ s)"
  obtain t ds x where t: "s = (NUL # name) @ t" "ds = takeWhile is_digit t" "prefix [NUL] (drop (length ds) t)"
      "n = length name + length ds + 2" "rep = f x" "x = [] \<or> x \<in> set stash"
    using m by (auto simp: match_ref_def Let_def split: option.splits if_splits)
  obtain y where y: "t = ds @ [NUL] @ y"
    using t(2,3) unfolding prefix_def by (metis append_take_drop_id takeWhile_eq_take)
  have "no_angle ds" using t(2) by (auto simp: no_angle_def is_digit_def dest: set_takeWhileD)
  then have "no_angle (NUL # name @ ds @ [NUL])" using assms(2) by (simp add: NUL_def)
  then have "marked T w \<and> marked T y"
    using split [of w "NUL # name @ ds @ [NUL]" y] Q t(1) y assms(1) by simp
  then have "marked T (w @ f x @ y)" using t(6) assms(3,4) by (intro marked_append) auto
  moreover have "drop n s = y" using t(1,4) y by (intro drop_exact [of _ "NUL # name @ ds @ [NUL]"]) simp_all
  ultimately show "0 < n \<and> marked T (w @ rep @ drop n s)" using t(4,5) by simp
qed

lemma char_pass:
  assumes "c \<in> D" "no_angle [c]" "T a" "marked T s"
  shows "marked T (replace_char c (tag a) s)"
  unfolding replace_char_def
proof (rule replace_all_inv [where Q = "marked T", OF _ assms(4)])
  fix w p s n rep
  assume m: "char_matcher (\<lambda>x. if x = c then Some (tag a) else None) p s = Some (n, rep)" and Q: "marked T (w @ s)"
  obtain y where y: "s = c # y" "n = 1" "rep = tag a"
    using m by (auto simp: char_matcher_def split: list.splits if_splits)
  then have "marked T w \<and> marked T y" using split [of w "[c]" y] Q assms(1,2) by simp
  then have "marked T (w @ tag a @ y)" using assms(3) tag_plain by (intro marked_append marked_single_tag) auto
  then show "0 < n \<and> marked T (w @ rep @ drop n s)" using y by simp
qed

end

section \<open>The tags of the conversion\<close>

definition mark_tag :: "string \<Rightarrow> bool" where
  "mark_tag t \<longleftrightarrow> t \<in> {''code'', ''/code'', ''b'', ''/b'', ''i'', ''/i'', ''u'', ''/u'', ''s'', ''/s'', ''/span'',
     span_tag ''math-inline'', span_tag ''spoiler''}"

definition basic_tag :: "string \<Rightarrow> bool" where
  "basic_tag t \<longleftrightarrow> mark_tag t \<or> t \<in> {''br'', ''pre'', ''/pre'', span_tag ''math-display''} \<or>
     (\<exists>lang. list_all is_lang_char lang \<and> t = code_tag lang)"

definition own_tag :: "string \<Rightarrow> bool" where
  "own_tag t \<longleftrightarrow> basic_tag t \<or> t = ''/a'' \<or> (\<exists>u. list_all is_url_char u \<and> t = link_tag u)"

lemma lang_char_plain: "is_lang_char c \<Longrightarrow> c \<notin> {CHR ''<'', CHR ''>'', CHR 0x0A, NUL}"
  by (auto simp: is_lang_char_def is_digit_def NUL_def)

lemma url_char_plain: "is_url_char c \<Longrightarrow> c \<notin> {CHR ''<'', CHR ''>'', CHR 0x0A}"
  by (auto simp: is_url_char_def is_ws_def)

lemma mark_tag_chars:
  "mark_tag t \<Longrightarrow> set t \<inter> {CHR ''<'', CHR ''>'', CHR ''*'', CHR ''_'', CHR ''~'', CHR ''|'', CHR ''$'', CHR 0x0A, NUL, CHR '':''} = {}"
  by (auto simp: mark_tag_def quoted_def span_tag_def NUL_def)

lemma code_tag_chars:
  "list_all is_lang_char lang \<Longrightarrow> set (code_tag lang) \<inter> {CHR ''<'', CHR ''>'', CHR 0x0A, NUL} = {}"
  using lang_char_plain by (auto simp: code_tag_def quoted_def NUL_def list_all_iff)

lemma basic_tag_chars:
  assumes "basic_tag t"
  shows "set t \<inter> {CHR ''<'', CHR ''>'', CHR 0x0A, NUL} = {}"
proof -
  consider "mark_tag t" | "t \<in> {''br'', ''pre'', ''/pre'', span_tag ''math-display''}"
    | lang where "list_all is_lang_char lang" "t = code_tag lang"
    using assms unfolding basic_tag_def by blast
  then show ?thesis
  proof cases
    case 1
    from mark_tag_chars [OF this] show ?thesis by blast
  next
    case 2
    then show ?thesis by (auto simp: span_tag_def quoted_def NUL_def)
  next
    case 3
    then show ?thesis using code_tag_chars by blast
  qed
qed

lemma link_tag_chars: "list_all is_url_char u \<Longrightarrow> set (link_tag u) \<inter> {CHR ''<'', CHR ''>'', CHR 0x0A} = {}"
  using url_char_plain by (auto simp: link_tag_def quoted_def list_all_iff)

lemma own_tag_chars: "own_tag t \<Longrightarrow> set t \<inter> {CHR ''<'', CHR ''>'', CHR 0x0A} = {}"
  unfolding own_tag_def by (elim disjE exE conjE) (auto dest: basic_tag_chars link_tag_chars)

interpretation marks: tag_set mark_tag "{CHR ''*'', CHR ''_'', CHR ''~'', CHR ''|'', CHR ''$'', NUL}"
  by unfold_locales (use mark_tag_chars in \<open>fastforce simp: no_angle_def\<close>)+

interpretation basic: tag_set basic_tag "{CHR 0x0A, NUL}"
  by unfold_locales (use basic_tag_chars in \<open>fastforce simp: no_angle_def\<close>)+

interpretation own: tag_set own_tag "{CHR 0x0A}"
  by unfold_locales (use own_tag_chars in \<open>fastforce simp: no_angle_def\<close>)+

lemma mark_tag_intros [simp]:
  "mark_tag ''code''" "mark_tag ''/code''" "mark_tag ''b''" "mark_tag ''/b''" "mark_tag ''i''" "mark_tag ''/i''"
  "mark_tag ''u''" "mark_tag ''/u''" "mark_tag ''s''" "mark_tag ''/s''" "mark_tag ''/span''"
  "mark_tag (span_tag ''math-inline'')" "mark_tag (span_tag ''spoiler'')"
  by (simp_all add: mark_tag_def)

lemma basic_tag_intros [simp]:
  "basic_tag ''br''" "basic_tag ''pre''" "basic_tag ''/pre''" "basic_tag ''/code''" "basic_tag ''/span''"
  "basic_tag (span_tag ''math-display'')" "list_all is_lang_char lang \<Longrightarrow> basic_tag (code_tag lang)"
  by (auto simp: basic_tag_def)

lemma inline_marks_marked: "marked mark_tag s \<Longrightarrow> marked mark_tag (inline_marks s)"
  unfolding inline_marks_def
  by (intro marks.wrap_pass marks.italic_pass) (simp_all add: no_angle_def)

section \<open>The stages of the conversion\<close>

definition esc :: "char \<Rightarrow> string" where
  "esc c = (if c = CHR ''&'' then ''&amp;'' else if c = CHR ''<'' then ''&lt;'' else if c = CHR ''>'' then ''&gt;'' else [c])"

lemma escape_markup_esc: "escape_markup raw = concat (map esc raw)"
  unfolding escape_markup_def replace_char_def replace_all_chars
  by (induction raw) (auto simp: esc_def)

lemma no_angle_escape: "no_angle (escape_markup raw)"
  unfolding escape_markup_esc by (induction raw) (auto simp: esc_def)

lemma no_angle_sub: "no_angle s \<Longrightarrow> set t \<subseteq> set s \<Longrightarrow> no_angle t"
  by (auto simp: no_angle_def)

lemma no_angle_ref: "no_angle name \<Longrightarrow> no_angle (stash_ref name i)"
  using show_nat_digits by (fastforce simp: stash_ref_def NUL_def no_angle_def is_digit_def)

lemma match_fence_Some:
  assumes "match_fence p s = Some (n, a)"
  shows "0 < n \<and> (\<exists>lang body. set body \<subseteq> set s \<and> list_all is_lang_char lang \<and>
    a = tag ''pre'' @ tag (code_tag lang) @ body @ tag ''/code'' @ tag ''/pre'')"
proof -
  obtain t u k where "s = FENCE @ t" "drop (length (takeWhile is_lang_char t)) t = [CHR 0x0A] @ u" "0 < n"
    "a = tag ''pre'' @ tag (code_tag (takeWhile is_lang_char t)) @ drop_last_newline (take k u) @ tag ''/code'' @ tag ''/pre''"
    using assms by (auto simp: match_fence_def Let_def split: option.splits)
  moreover from this have "set u \<subseteq> set s" using set_drop_subset [of "length (takeWhile is_lang_char t)" t] by auto
  then have "set (drop_last_newline (take k u)) \<subseteq> set s"
    by (auto simp: drop_last_newline_def dest!: in_set_butlastD in_set_takeD)
  moreover have "list_all is_lang_char (takeWhile is_lang_char t)" by (auto simp: list_all_iff dest: set_takeWhileD)
  ultimately show ?thesis by blast
qed

lemma match_between_Some:
  assumes "match_between d ok f p s = Some (n, a)"
  shows "0 < n \<and> (\<exists>body. set body \<subseteq> set s \<and> a = f body)"
  using assms by (auto simp: match_between_def Let_def split: option.splits if_splits dest: set_takeWhileD)

lemma match_math_block_Some:
  assumes "match_math_block p s = Some (n, a)"
  shows "0 < n \<and> set a \<subseteq> set s"
proof -
  obtain t k where "s = ''$$'' @ t" "a = trim (take k t)" "0 < n"
    using assms by (auto simp: match_math_block_def split: option.splits)
  then show ?thesis using set_trim [of "take k t"] set_take_subset [of k t] by auto
qed

lemma stash_plain:
  assumes "stash_from m (stash_ref name) None [] s = (out, st)" "no_angle s" "no_angle name"
    and entry: "\<And>p s n a. m p s = Some (n, a) \<Longrightarrow> no_angle s \<Longrightarrow> 0 < n \<and> P a"
  shows "no_angle out \<and> list_all P st"
proof -
  have "no_angle ([] @ out) \<and> list_all P st"
  proof (rule stash_from_inv [OF _ _ _ assms(1)])
    fix w p s n a i
    assume "m p s = Some (n, a)" and plain: "no_angle (w @ s)"
    moreover from this have "no_angle (drop n s)" by (auto intro: no_angle_sub dest: in_set_dropD)
    ultimately show "0 < n \<and> P a \<and> no_angle (w @ stash_ref name i @ drop n s)"
      using entry [of p s n a] no_angle_ref [OF assms(3)] by auto
  qed (use assms(2) in auto)
  then show ?thesis by simp
qed

section \<open>Characters a scan cannot introduce\<close>

lemma replace_all_free:
  assumes step: "\<And>p s n rep. m p s = Some (n, rep) \<Longrightarrow> c \<notin> set s \<Longrightarrow> c \<notin> set rep" and "c \<notin> set s"
  shows "c \<notin> set (replace_all m s)"
proof -
  have "c \<notin> set (replace_from m prev s)" for prev
    using assms(2)
  proof (induction "length s" arbitrary: prev s rule: less_induct)
    case less
    show ?case
    proof (cases s)
      case (Cons x u)
      have free: "c \<notin> set (replace_from m q (drop k u))" for q k
        using less Cons by (intro less(1)) (auto dest: in_set_dropD)
      show ?thesis
      proof (cases "m prev s")
        case None
        then show ?thesis using free [of "Some x" 0] less(2) Cons by simp
      next
        case (Some r)
        then show ?thesis using free step [of prev s] less(2) Cons by (cases r) auto
      qed
    qed simp
  qed
  then show ?thesis by (simp add: replace_all_def)
qed

lemma stash_from_free:
  assumes step: "\<And>p s n a. m p s = Some (n, a) \<Longrightarrow> c \<notin> set s \<Longrightarrow> c \<notin> set a" and "\<And>i. c \<notin> set (ref i)"
    and "c \<notin> set s" "\<forall>a \<in> set st. c \<notin> set a" "stash_from m ref prev st s = (out, st')"
  shows "c \<notin> set out \<and> (\<forall>a \<in> set st'. c \<notin> set a)"
  using assms(3-)
proof (induction "length s" arbitrary: prev s st out rule: less_induct)
  case less
  show ?case
  proof (cases s)
    case (Cons x u)
    show ?thesis
    proof (cases "m prev s")
      case None
      then obtain out' where "stash_from m ref (Some x) st u = (out', st')" "out = x # out'"
        using less(4) Cons by (auto split: prod.splits)
      then show ?thesis using less(1) [of u st "Some x" out'] less(2,3) Cons by simp
    next
      case (Some r)
      obtain n a where r: "r = (n, a)" by (cases r)
      obtain out' where out': "stash_from m ref (Some (last (x # take (n - 1) u))) (st @ [a]) (drop (n - 1) u) = (out', st')"
          "out = ref (length st) @ out'"
        using less(4) Some r Cons by (auto split: prod.splits)
      have "c \<notin> set a" using step Some r less(2) by blast
      then have "c \<notin> set out' \<and> (\<forall>a \<in> set st'. c \<notin> set a)"
        using less(2,3) Cons by (intro less(1) [OF _ _ _ out'(1)]) (auto dest: in_set_dropD)
      then show ?thesis using out'(2) assms(2) by simp
    qed
  qed (use less in simp)
qed

lemma wrap_free:
  assumes "c \<notin> set (tag a)" "c \<notin> set (tag b)" "c \<notin> set s"
  shows "c \<notin> set (replace_all (match_wrap d a b) s)"
  using assms by (intro replace_all_free) (auto simp: match_wrap_def split: option.splits dest: in_set_takeD)

lemma italic_free:
  assumes "c \<notin> set (tag ''i'')" "c \<notin> set (tag ''/i'')" "c \<notin> set s"
  shows "c \<notin> set (replace_all match_italic s)"
  using assms by (intro replace_all_free)
    (auto simp: match_italic_def split: option.splits list.splits if_splits dest: in_set_takeD)

lemma inline_marks_free:
  assumes "c \<notin> set s" "c = CHR '':'' \<or> c = NUL"
  shows "c \<notin> set (inline_marks s)"
  unfolding inline_marks_def using assms
  by (intro wrap_free italic_free) (auto simp: tag_def span_tag_def quoted_def NUL_def)

lemma ref_free:
  assumes "c \<notin> set (f [])" "\<forall>x \<in> set stash. c \<notin> set (f x)" "c \<notin> set s"
  shows "c \<notin> set (replace_all (match_ref name f stash) s)"
  using assms by (intro replace_all_free) (auto simp: match_ref_def Let_def split: option.splits if_splits)

lemma between_free:
  assumes "c \<notin> set (tag a)" "c \<notin> set (tag b)" "c \<notin> set s"
  shows "c \<notin> set (replace_all (match_between d ok (\<lambda>x. tag a @ x @ tag b)) s)"
  using assms by (intro replace_all_free) (auto dest!: match_between_Some)

lemma escape_free: "c \<notin> set raw \<Longrightarrow> c \<notin> set ''&;ampltg'' \<Longrightarrow> c \<notin> set (escape_markup raw)"
  unfolding escape_markup_esc by (induction raw) (auto simp: esc_def)

lemma ref_text_free: "c \<notin> set (NUL # name) \<Longrightarrow> \<not> is_digit c \<Longrightarrow> c \<notin> set (stash_ref name i)"
  using show_nat_digits by (auto simp: stash_ref_def)

lemma strip_prefix_absent: "c \<notin> set s \<Longrightarrow> strip_prefix (c # p) s = None"
  by (auto simp: strip_prefix_def prefix_def)

lemma match_url_absent: "CHR '':'' \<notin> set s \<Longrightarrow> match_url p s = None"
  by (auto simp: match_url_def url_scheme_def prefix_def)

section \<open>Drafts without links\<close>

lemma match_icode_eq: "match_icode = match_between (CHR 0x60) (\<lambda>c. True) (\<lambda>x. tag ''code'' @ x @ tag ''/code'')"
  by (simp add: match_icode_def)

lemma ref_no_colon: "CHR '':'' \<notin> set name \<Longrightarrow> CHR '':'' \<notin> set (stash_ref name i)"
  by (rule ref_text_free) (auto simp: NUL_def is_digit_def)

lemma code_tag_no_colon: "list_all is_lang_char lang \<Longrightarrow> CHR '':'' \<notin> set (code_tag lang)"
  by (auto simp: code_tag_def quoted_def list_all_iff is_lang_char_def is_digit_def)

lemma fence_no_colon: "match_fence p s = Some (n, a) \<Longrightarrow> CHR '':'' \<notin> set s \<Longrightarrow> CHR '':'' \<notin> set a"
  using match_fence_Some [of p s n a] code_tag_no_colon by (auto simp: tag_def)

lemma icode_no_colon: "match_icode p s = Some (n, a) \<Longrightarrow> CHR '':'' \<notin> set s \<Longrightarrow> CHR '':'' \<notin> set a"
  unfolding match_icode_eq by (auto dest!: match_between_Some simp: tag_def)

lemma math_no_colon: "match_math_block p s = Some (n, a) \<Longrightarrow> CHR '':'' \<notin> set s \<Longrightarrow> CHR '':'' \<notin> set a"
  using match_math_block_Some by blast

lemma no_link_stage:
  assumes "stash_from match_fence (stash_ref ''FENCE'') None [] (escape_markup raw) = (h1, fences)"
    "stash_from match_icode (stash_ref ''ICODE'') None [] h1 = (h2, icodes)"
    "stash_from match_math_block (stash_ref ''MATH_BLOCK'') None [] h2 = (h3, maths)"
    "h6 = inline_marks (replace_all (match_ref ''ICODE'' (\<lambda>x. x) icodes) (replace_all match_math_inline h3))"
  shows "marked mark_tag h6 \<and> list_all (marked basic_tag) fences \<and> list_all no_angle maths \<and>
    (CHR '':'' \<notin> set raw \<longrightarrow> CHR '':'' \<notin> set h6)"
proof -
  have s1: "no_angle h1 \<and> list_all (marked basic_tag) fences"
  proof (rule stash_plain [OF assms(1) no_angle_escape])
    fix p s n a
    assume m: "match_fence p s = Some (n, a)" "no_angle s"
    obtain lang body where a: "0 < n" "set body \<subseteq> set s" "list_all is_lang_char lang"
      "a = tag ''pre'' @ tag (code_tag lang) @ body @ tag ''/code'' @ tag ''/pre''"
      using match_fence_Some [OF m(1)] by blast
    have "marked basic_tag body" by (rule marked_plain [OF no_angle_sub [OF m(2) a(2)]])
    then have "marked basic_tag (tag ''pre'' @ tag (code_tag lang) @ body @ tag ''/code'' @ tag ''/pre'')"
      using a(3) by (intro marked_tagI marked_append marked_single_tag basic.tag_plain) simp_all
    then show "0 < n \<and> marked basic_tag a" using a(1,4) by simp
  qed simp
  have s2: "no_angle h2 \<and> list_all (marked mark_tag) icodes"
  proof (rule stash_plain [OF assms(2)])
    fix p s n a
    assume m: "match_icode p s = Some (n, a)" "no_angle s"
    obtain body where a: "0 < n" "set body \<subseteq> set s" "a = tag ''code'' @ body @ tag ''/code''"
      using match_between_Some [OF m(1) [unfolded match_icode_eq]] by blast
    have "marked mark_tag (tag ''code'' @ body @ tag ''/code'')"
      by (rule marks.wrap) (use marked_plain [OF no_angle_sub [OF m(2) a(2)]] in simp_all)
    then show "0 < n \<and> marked mark_tag a" using a by simp
  qed (use s1 in simp_all)
  have s3: "no_angle h3 \<and> list_all no_angle maths"
    by (rule stash_plain [OF assms(3)]) (use s2 in \<open>auto dest!: match_math_block_Some intro: no_angle_sub\<close>)
  have "marked mark_tag (replace_all match_math_inline h3)"
    unfolding match_math_inline_def using s3 by (intro marks.between_pass marked_plain) auto
  then have "marked mark_tag (replace_all (match_ref ''ICODE'' (\<lambda>x. x) icodes) (replace_all match_math_inline h3))"
    using s2 by (intro marks.ref_pass) (auto simp: list_all_iff)
  then have m6: "marked mark_tag h6" unfolding assms(4) by (rule inline_marks_marked)
  have "CHR '':'' \<notin> set h6" if raw: "CHR '':'' \<notin> set raw"
  proof -
    have f1: "CHR '':'' \<notin> set h1 \<and> (\<forall>a \<in> set fences. CHR '':'' \<notin> set a)"
      by (rule stash_from_free [OF fence_no_colon ref_no_colon _ _ assms(1)]) (simp_all add: escape_free raw)
    have f2: "CHR '':'' \<notin> set h2 \<and> (\<forall>a \<in> set icodes. CHR '':'' \<notin> set a)"
      by (rule stash_from_free [OF icode_no_colon ref_no_colon _ _ assms(2)]) (simp_all add: f1)
    have "CHR '':'' \<notin> set h3 \<and> (\<forall>a \<in> set maths. CHR '':'' \<notin> set a)"
      by (rule stash_from_free [OF math_no_colon ref_no_colon _ _ assms(3)]) (simp_all add: f2)
    then have "CHR '':'' \<notin> set (replace_all match_math_inline h3)"
      unfolding match_math_inline_def by (intro between_free) (auto simp: tag_def span_tag_def quoted_def)
    then show ?thesis unfolding assms(4) using f2 by (intro inline_marks_free ref_free) auto
  qed
  then show ?thesis using m6 s1 s3 by blast
qed

lemma mark_basic: "mark_tag t \<Longrightarrow> basic_tag t"
  by (simp add: basic_tag_def)

lemma no_link_marked:
  assumes "CHR '':'' \<notin> set raw"
  shows "marked basic_tag (markdownToHtml raw)"
proof -
  obtain h1 fences where 1: "stash_from match_fence (stash_ref ''FENCE'') None [] (escape_markup raw) = (h1, fences)" by fastforce
  obtain h2 icodes where 2: "stash_from match_icode (stash_ref ''ICODE'') None [] h1 = (h2, icodes)" by fastforce
  obtain h3 maths where 3: "stash_from match_math_block (stash_ref ''MATH_BLOCK'') None [] h2 = (h3, maths)" by fastforce
  define h6 where h6: "h6 = inline_marks (replace_all (match_ref ''ICODE'' (\<lambda>x. x) icodes) (replace_all match_math_inline h3))"
  note stage = no_link_stage [OF 1 2 3 h6]
  have "match_link p t = None" if "suffix t h6" for p t
  proof -
    have "CHR '':'' \<notin> set t" using stage assms that set_mono_suffix by blast
    then show ?thesis by (simp add: match_link_def match_url_absent)
  qed
  then have h7: "replace_all match_link h6 = h6" by (intro replace_all_none) auto
  have "marked basic_tag (replace_char (CHR 0x0A) (tag ''br'') h6)"
    using stage mark_basic by (intro basic.char_pass) (auto intro: marked_mono)
  then have "marked basic_tag (replace_all (match_ref ''FENCE'' (\<lambda>x. x) fences) (replace_char (CHR 0x0A) (tag ''br'') h6))"
    using stage by (intro basic.ref_pass) (auto simp: list_all_iff)
  moreover have "marked basic_tag (math_block_html x)" if "no_angle x" for x
    unfolding math_block_html_def using that by (intro basic.wrap marked_plain) auto
  ultimately have "marked basic_tag (replace_all (match_ref ''MATH_BLOCK'' math_block_html maths)
      (replace_all (match_ref ''FENCE'' (\<lambda>x. x) fences) (replace_char (CHR 0x0A) (tag ''br'') h6)))"
    using stage by - (rule basic.ref_pass, auto simp: list_all_iff)
  then show ?thesis by (simp add: markdownToHtml_def 1 2 3 h6 [symmetric] h7)
qed

section \<open>Drafts with links\<close>

lemma replace_from_skip_rest:
  assumes "\<And>u c. suffix u a \<Longrightarrow> u \<noteq> [] \<Longrightarrow> m (Some c) (u @ s) = None"
  shows "\<exists>q. replace_from m (Some c) (a @ s) = a @ replace_from m q s"
  using assms
proof (induction a arbitrary: c)
  case (Cons x a)
  have "m (Some c) ((x # a) @ s) = None" by (rule Cons.prems) auto
  moreover obtain q where "replace_from m (Some x) (a @ s) = a @ replace_from m q s"
    using Cons.IH [of x] Cons.prems by (auto simp: suffix_Cons)
  ultimately show ?case by auto
qed auto

lemma replace_from_skip:
  assumes "\<And>u p. suffix u a \<Longrightarrow> u \<noteq> [] \<Longrightarrow> (p = None \<Longrightarrow> u = a) \<Longrightarrow> m p (u @ s) = None"
  shows "\<exists>q. replace_from m prev (a @ s) = a @ replace_from m q s"
proof (cases a)
  case (Cons x b)
  have "m prev ((x # b) @ s) = None" using assms Cons by blast
  moreover obtain q where "replace_from m (Some x) (b @ s) = b @ replace_from m q s"
    using replace_from_skip_rest [of b m s x] assms Cons by (auto simp: suffix_Cons)
  ultimately show ?thesis using Cons by auto
qed auto

lemma url_scheme_chars: "url_scheme s = Some p \<Longrightarrow> prefix p s \<and> list_all is_url_char p \<and> CHR '':'' \<in> set p"
  by (auto simp: url_scheme_def is_url_char_def is_ws_def split: if_splits)

lemma match_url_chars:
  assumes "match_url p s = Some (n, k)"
  shows "0 < n \<and> list_all is_url_char (take n s)"
proof -
  obtain sch where sch: "url_scheme s = Some sch" "n = length sch + length (takeWhile is_url_char (drop (length sch) s))" "0 < length sch"
    using assms by (auto simp: match_url_def Let_def url_scheme_def split: option.splits if_splits)
  then obtain t where t: "s = sch @ t" using url_scheme_chars by (auto simp: prefix_def)
  have "take n s = sch @ takeWhile is_url_char t" using sch(2) t by (simp add: takeWhile_eq_take [symmetric])
  then show ?thesis using url_scheme_chars [OF sch(1)] sch(2,3)
    by (auto simp: list_all_iff dest: set_takeWhileD)
qed

lemma url_no_angle: "list_all is_url_char u \<Longrightarrow> no_angle u"
  using url_char_plain by (auto simp: no_angle_def list_all_iff)

lemma replace_quote_url: "list_all is_url_char u \<Longrightarrow> replace_char (CHR 0x22) r u = u"
  unfolding replace_char_def replace_all_chars
  by (induction u) (auto simp: is_url_char_def)

lemma match_link_marked:
  assumes "match_link p s = Some (n, rep)"
  shows "0 < n \<and> no_angle (take n s) \<and> marked own_tag rep"
proof -
  obtain k where k: "match_url p s = Some (n, k)"
    using assms by (auto simp: match_link_def Let_def split: option.splits)
  define raw where "raw = take n s"
  define url where "url = trimTrailingPunctuation raw"
  have raw: "0 < n" "list_all is_url_char raw" using match_url_chars [OF k] by (simp_all add: raw_def)
  have url: "list_all is_url_char url" "list_all is_url_char (drop (length url) raw)"
    using raw(2) trimTrailingPunctuation_prefix [of raw]
    by (auto simp: url_def prefix_def list_all_iff dest: in_set_dropD) (metis Un_iff set_append)
  have rep: "rep = tag (link_tag url) @ url @ tag ''/a'' @ drop (length url) raw"
    using assms k replace_quote_url [OF url(1)] by (simp add: match_link_def Let_def raw_def url_def)
  have "own_tag (link_tag url)" "own_tag ''/a''" using url(1) by (auto simp: own_tag_def)
  then have "marked own_tag rep" unfolding rep using url
    by (intro marked_tagI marked_append own.tag_plain marked_plain url_no_angle marked_single_tag)
  then show ?thesis using raw url_no_angle by (simp add: raw_def)
qed

lemma no_link_in_tag:
  assumes "mark_tag t" "suffix u (tag t)" "u \<noteq> []"
  shows "match_link p (u @ s) = None"
proof -
  have "url_scheme (u @ s) = None"
  proof (rule ccontr)
    assume "url_scheme (u @ s) \<noteq> None"
    then obtain sch where sch: "url_scheme (u @ s) = Some sch" by blast
    have pre: "prefix sch (u @ s)" "list_all is_url_char sch" "CHR '':'' \<in> set sch"
      using url_scheme_chars [OF sch] by auto
    obtain v zs where vz: "u = v @ ''>''" "CHR ''<'' # t = zs @ v"
      using assms(2,3) by (cases u rule: rev_cases) (auto simp: tag_def suffix_def)
    have v: "u = v @ ''>''" "set v \<subseteq> insert (CHR ''<'') (set t)"
      using vz(1) arg_cong [OF vz(2), of set] by auto
    have "CHR ''>'' \<notin> set sch" using pre(2) by (auto simp: list_all_iff is_url_char_def)
    then have "prefix sch v" using pre(1) v(1)
      by (auto simp: prefix_def append_eq_append_conv2 Cons_eq_append_conv)
    then have "CHR '':'' \<in> set v" using pre(3) set_mono_prefix by blast
    then show False using v(2) mark_tag_chars [OF assms(1)] by auto
  qed
  then show ?thesis by (simp add: match_link_def match_url_def)
qed

text \<open>
  A scan that never matches inside a tag and replaces plain text by marked text turns marked text
  into marked text over a larger set of tags.
\<close>

lemma structural_pass:
  assumes outside: "\<And>t u p s. T t \<Longrightarrow> suffix u (tag t) \<Longrightarrow> u \<noteq> [] \<Longrightarrow> (p = None \<Longrightarrow> u = tag t) \<Longrightarrow> m p (u @ s) = None"
    and match: "\<And>p s n rep. m p s = Some (n, rep) \<Longrightarrow> 0 < n \<and> no_angle (take n s) \<and> marked U rep"
    and larger: "\<And>t. T t \<Longrightarrow> U t \<and> no_angle t"
  shows "marked T s \<Longrightarrow> marked U (replace_from m prev s)"
proof (induction "length s" arbitrary: prev s rule: less_induct)
  case less
  from less.prems show ?case
  proof (cases rule: marked.cases)
    case (marked_char c u)
    show ?thesis
    proof (cases "m prev s")
      case None
      then show ?thesis using marked_char less.hyps [of u "Some c"] by (auto intro: marked.marked_char)
    next
      case (Some r)
      obtain n rep where r: "r = (n, rep)" by (cases r)
      note m = match [OF Some [unfolded r]]
      have "marked T (drop n s)"
        using marked_drop_plain [of T "take n s" "drop n s"] m less.prems by simp
      then have "marked U (replace_from m q (drop n s))" for q
        using m marked_char(1) by (intro less.hyps) auto
      moreover have "drop n s = drop (n - 1) u" using m marked_char(1) by (cases n) auto
      ultimately show ?thesis using Some r marked_char(1) m by (auto intro: marked_append)
    qed
  next
    case (marked_tag t u)
    obtain q where "replace_from m prev s = tag t @ replace_from m q u"
      using replace_from_skip [of "tag t" m u prev] outside [OF marked_tag(2)] marked_tag(1) by auto
    moreover have "marked U (replace_from m q u)"
      using marked_tag by (intro less.hyps) (auto simp: tag_def)
    ultimately show ?thesis using larger [OF marked_tag(2)] by (auto intro: marked_tagI)
  qed simp
qed

lemma link_marked: "marked mark_tag s \<Longrightarrow> marked own_tag (replace_from match_link prev s)"
  by (rule structural_pass [of mark_tag match_link own_tag])
     (auto simp: no_link_in_tag match_link_marked own_tag_def basic_tag_def intro: marks.tag_plain)

lemma replace_all_absent:
  assumes "c \<notin> set h" "\<And>p s. c \<notin> set s \<Longrightarrow> m p s = None"
  shows "replace_all m h = h"
  using assms set_mono_suffix by (intro replace_all_none) blast

lemma stash_absent:
  assumes "c \<notin> set h" "\<And>p s. c \<notin> set s \<Longrightarrow> m p s = None"
  shows "stash_from m ref None [] h = (h, [])"
  using assms set_mono_suffix by (intro stash_from_none) blast

lemma absent_matchers:
  "CHR 0x60 \<notin> set s \<Longrightarrow> match_fence p s = None"
  "CHR 0x60 \<notin> set s \<Longrightarrow> match_icode p s = None"
  "CHR ''$'' \<notin> set s \<Longrightarrow> match_math_block p s = None"
  "CHR ''$'' \<notin> set s \<Longrightarrow> match_math_inline p s = None"
  "NUL \<notin> set s \<Longrightarrow> match_ref name f stash p s = None"
  by (simp_all add: match_fence_def FENCE_def match_icode_def match_math_block_def match_math_inline_def
      match_between_def match_ref_def strip_prefix_absent)

lemma plain_conversion:
  assumes "set raw \<inter> {CHR 0x60, CHR ''$'', NUL} = {}"
  shows "markdownToHtml raw = replace_char (CHR 0x0A) (tag ''br'') (replace_all match_link (inline_marks (escape_markup raw)))"
proof -
  define h where "h = escape_markup raw"
  have free: "CHR 0x60 \<notin> set h" "CHR ''$'' \<notin> set h" "NUL \<notin> set h"
    unfolding h_def by (intro escape_free; use assms in \<open>auto simp: NUL_def\<close>)+
  have "NUL \<notin> set rep" if m: "match_link p s = Some (n, rep)" and s: "NUL \<notin> set s" for p s n rep
  proof -
    define u where "u = trimTrailingPunctuation (take n s)"
    obtain k where "match_url p s = Some (n, k)"
      using m by (auto simp: match_link_def Let_def split: option.splits)
    then have u: "list_all is_url_char u" "NUL \<notin> set u"
      using match_url_chars [of p s n k] trimTrailingPunctuation_prefix [of "take n s"] s
      by (auto simp: u_def prefix_def list_all_iff dest: in_set_takeD) (metis Un_iff in_set_takeD set_append)+
    have "rep = tag (link_tag u) @ u @ tag ''/a'' @ drop (length u) (take n s)"
      using m \<open>match_url p s = Some (n, k)\<close> replace_quote_url [OF u(1)] by (simp add: match_link_def Let_def u_def)
    then show ?thesis using u(2) s
      by (auto simp: tag_def link_tag_def quoted_def NUL_def dest: in_set_dropD in_set_takeD)
  qed
  then have "NUL \<notin> set (replace_all match_link (inline_marks h))"
    using free(3) by (intro replace_all_free inline_marks_free) auto
  then have nul: "NUL \<notin> set (replace_char (CHR 0x0A) (tag ''br'') (replace_all match_link (inline_marks h)))"
    unfolding replace_char_def replace_all_chars by (auto simp: NUL_def tag_def split: if_splits)
  have "stash_from match_fence (stash_ref ''FENCE'') None [] h = (h, [])"
    "stash_from match_icode (stash_ref ''ICODE'') None [] h = (h, [])"
    "stash_from match_math_block (stash_ref ''MATH_BLOCK'') None [] h = (h, [])"
    "replace_all match_math_inline h = h" "replace_all (match_ref ''ICODE'' (\<lambda>x. x) []) h = h"
    using free by (auto intro: stash_absent replace_all_absent absent_matchers)
  then show ?thesis using nul
    by (simp add: markdownToHtml_def h_def [symmetric] replace_all_absent [OF nul] absent_matchers)
qed

lemma no_code_marked:
  assumes "set raw \<inter> {CHR 0x60, CHR ''$'', NUL} = {}"
  shows "marked own_tag (markdownToHtml raw)"
proof -
  have "marked mark_tag (inline_marks (escape_markup raw))"
    by (intro inline_marks_marked marked_plain no_angle_escape)
  then have "marked own_tag (replace_all match_link (inline_marks (escape_markup raw)))"
    unfolding replace_all_def by (rule link_marked)
  then show ?thesis unfolding plain_conversion [OF assms]
    by (intro own.char_pass) (simp_all add: own_tag_def)
qed

text \<open>
  C19: The HTML body of a draft without a colon (so without links), or without backtick, dollar and NUL
  (so without code and formulas), contains no markup except the tags the client writes itself, and no stray
  angle bracket, whatever else the user typed.  A draft with both a link and code may put a tag of the
  client inside an attribute (\<open>link_swallows_fence\<close>).
\<close>

theorem markdown_writes_own_tags:
  assumes "CHR '':'' \<notin> set raw \<or> set raw \<inter> {CHR 0x60, CHR ''$'', NUL} = {}"
  shows "marked own_tag (markdownToHtml raw)"
  using assms
proof
  assume "CHR '':'' \<notin> set raw"
  from no_link_marked [OF this] show ?thesis by (rule marked_mono) (simp add: own_tag_def)
qed (rule no_code_marked)

theorem markdown_writes_own_tags_witness:
  "marked own_tag (markdownToHtml ''<script>alert(1)</script> **b** https://e.org/<b>'')"
  by (rule markdown_writes_own_tags) (simp add: NUL_def)

text \<open>A fence directly behind a link ends up inside the attribute of the link.\<close>

lemma link_swallows_fence:
  "markdownToHtml (''http://x'' @ FENCE @ CHR 0x0A # ''y'' @ CLOSING) =
   ''<a href='' @ [CHR 0x22] @ ''http://x<pre><code>y</code></pre>'' @ [CHR 0x22] @ '' target='' @ quoted ''_blank'' @
   '' rel='' @ quoted ''noopener noreferrer'' @ ''>http://x<pre><code>y</code></pre></a>''"
  by code_simp

text \<open>Inline code inside a displayed formula is lost: its placeholder is sent instead.\<close>

lemma code_in_formula_lost:
  "markdownToHtml (''$$a'' @ [CHR 0x60] @ ''b'' @ [CHR 0x60] @ ''$$'') =
   tag (span_tag ''math-display'') @ ''a'' @ stash_ref ''ICODE'' 0 @ tag ''/span''"
  by code_simp

end
