(* ===== verification/MessageBody.thy ===== *)
theory MessageBody
  imports HtmlSafety
begin

text \<open>
  The body of a message as a whole: mention chips added to the converted draft keep the body free of
  foreign markup whatever names and colours the server supplies (\<open>mention_chips_own_tags\<close>), and a
  message without marks, links and mentions comes back unchanged when it is edited (\<open>edit_roundtrip\<close>).
\<close>

section \<open>Tags of the mention chips\<close>

definition is_number :: "string \<Rightarrow> bool" where
  "is_number s \<longleftrightarrow> list_all is_digit s \<or> s = ''Infinity''"

definition user_chip_tag :: "string \<Rightarrow> bool" where
  "user_chip_tag t \<longleftrightarrow> basic_tag t \<or> (\<exists>n. is_number n \<and> t = user_tag n)"

definition role_chip_tag :: "string \<Rightarrow> bool" where
  "role_chip_tag t \<longleftrightarrow> user_chip_tag t \<or>
     (\<exists>name role. list_all is_role_char name \<and> t = role_tag name (style_attr role))"

definition everyone_chip_tag :: "string \<Rightarrow> bool" where
  "everyone_chip_tag t \<longleftrightarrow> role_chip_tag t \<or> t = all_tag ''everyone''"

definition chip_tag :: "string \<Rightarrow> bool" where
  "chip_tag t \<longleftrightarrow> everyone_chip_tag t \<or> t = all_tag ''here''"

lemma escapeHtml_concat: "escapeHtml s = concat (map (\<lambda>c. or_else (html_entity c) [c]) s)"
  by (simp add: escapeHtml_def replace_all_chars)

lemma escapeHtml_no_angle: "no_angle (escapeHtml s)"
  unfolding escapeHtml_concat by (induction s) (auto simp: html_entity_def)

lemma number_chars: "is_number n \<Longrightarrow> set n \<inter> {CHR ''<'', CHR ''>'', CHR ''&'', CHR ''@''} = {}"
  by (auto simp: is_number_def list_all_iff is_digit_def)

lemma round_double_nonneg: "0 \<le> i \<Longrightarrow> round_double i = Some j \<Longrightarrow> 0 \<le> j"
proof -
  assume i: "0 \<le> i" "round_double i = Some j"
  define u where "u = (2 :: int) ^ (floorlog 2 (nat \<bar>i\<bar>) - 53)"
  have u: "0 < u" by (simp add: u_def)
  have "j = i \<or> j = sgn i * ((i div u + 1) * u) \<or> j = sgn i * ((i div u) * u)"
    using i unfolding round_double_def Let_def u_def [symmetric] by (auto split: if_splits)
  moreover have "0 \<le> i div u" using i(1) u by (simp add: pos_imp_zdiv_nonneg_iff)
  ultimately show ?thesis using i(1) u by (auto simp: sgn_if)
qed

lemma num_text_number: "0 \<le> i \<Longrightarrow> round_double i = n \<Longrightarrow> is_number (num_text n)"
proof -
  assume i: "0 \<le> i" "round_double i = n"
  have "0 \<le> j" if "n = Some j" for j
    using i that round_double_nonneg by blast
  then show ?thesis
    using show_nat_digits by (cases n) (auto simp: num_text_def is_number_def show_int_def list_all_iff)
qed

lemma colour_plain: "is_colour_char c \<Longrightarrow> c \<notin> {CHR ''<'', CHR ''>'', CHR ''@'', CHR ''&''}"
  by (auto simp: is_colour_char_def is_digit_def)

lemma style_attr_chars: "set (style_attr role) \<inter> {CHR ''<'', CHR ''>'', CHR ''@'', CHR ''&''} = {}"
proof (cases "style_attr role = []")
  case False
  then obtain c where c: "list_all is_colour_char c"
      "style_attr role = '' style='' @ quoted (''color:'' @ c @ '';background:color-mix(in srgb, '' @ c @ '' 22%, transparent)'')"
    by (auto simp: style_attr_def sanitiseColor_def Let_def split: option.splits if_splits)
  have "set c \<inter> {CHR ''<'', CHR ''>'', CHR ''@'', CHR ''&''} = {}"
    using c(1) colour_plain by (auto simp: list_all_iff)
  then show ?thesis unfolding c(2) quoted_def by simp
qed simp

lemma basic_tag_no_at: "basic_tag t \<Longrightarrow> set t \<inter> {CHR ''@'', CHR ''&''} = {}"
  unfolding basic_tag_def
proof (elim disjE exE conjE)
  fix lang assume "list_all is_lang_char lang" "t = code_tag lang"
  then show ?thesis by (auto simp: code_tag_def quoted_def list_all_iff is_lang_char_def is_digit_def)
qed (auto simp: mark_tag_def span_tag_def quoted_def)

lemma user_chip_tag_chars:
  assumes "user_chip_tag t"
  shows "set t \<inter> {CHR ''<'', CHR ''>'', CHR ''@'', CHR ''&''} = {}"
proof -
  consider "basic_tag t" | n where "is_number n" "t = user_tag n" using assms by (auto simp: user_chip_tag_def)
  then show ?thesis
  proof cases
    case 1
    then show ?thesis using basic_tag_chars [of t] basic_tag_no_at [of t] by simp
  next
    case 2
    then show ?thesis using number_chars [of n] unfolding user_tag_def quoted_def by simp
  qed
qed

lemma role_tag_no_angle: "no_angle (role_tag name (style_attr role))"
  using escapeHtml_no_angle [of name] style_attr_chars [of role]
  by (auto simp: role_tag_def quoted_def no_angle_def)

lemma role_chip_no_angle: "role_chip_tag t \<Longrightarrow> no_angle t"
  using user_chip_tag_chars role_tag_no_angle by (auto simp: role_chip_tag_def no_angle_def)

lemma everyone_chip_no_angle: "everyone_chip_tag t \<Longrightarrow> no_angle t"
  using role_chip_no_angle by (auto simp: everyone_chip_tag_def all_tag_def quoted_def)

lemma chip_tag_no_angle: "chip_tag t \<Longrightarrow> no_angle t"
  using everyone_chip_no_angle by (auto simp: chip_tag_def all_tag_def quoted_def)

section \<open>White space before an at sign\<close>

fun ws_at :: "string \<Rightarrow> bool" where
  "ws_at (a # b # t) \<longleftrightarrow> is_ws a \<and> b = CHR ''@'' \<or> ws_at (b # t)"
| "ws_at t \<longleftrightarrow> False"

lemma ws_at_append:
  "ws_at (x @ y) \<longleftrightarrow> ws_at x \<or> ws_at y \<or> (x \<noteq> [] \<and> y \<noteq> [] \<and> is_ws (last x) \<and> hd y = CHR ''@'')"
proof (induction x)
  case (Cons a x)
  note IH = Cons.IH
  show ?case
  proof (cases x)
    case Nil
    then show ?thesis by (cases y) auto
  next
    case (Cons b z)
    then show ?thesis using IH by auto
  qed
qed simp

lemma no_at_ws_at: "CHR ''@'' \<notin> set s \<Longrightarrow> \<not> ws_at s"
  by (induction s rule: ws_at.induct) auto

lemma no_ws_ws_at: "\<forall>c \<in> set s. \<not> is_ws c \<Longrightarrow> \<not> ws_at s"
  by (induction s rule: ws_at.induct) auto

lemma escaped_role_no_ws:
  assumes "list_all is_role_char name" "c \<in> set (escapeHtml name)"
  shows "\<not> is_ws c"
proof -
  obtain x where x: "x \<in> set name" "c \<in> set (or_else (html_entity x) [x])"
    using assms(2) by (auto simp: escapeHtml_concat)
  show ?thesis
  proof (cases "html_entity x")
    case None
    then show ?thesis using x assms(1) by (simp add: list_all_iff is_role_char_def)
  next
    case (Some e)
    then have "c \<in> set (''&amp;'' @ ''&lt;'' @ ''&gt;'' @ ''&quot;'' @ ''&#39;'')"
      using x(2) by (auto simp: html_entity_def split: if_splits)
    then show ?thesis by (auto simp: is_ws_def)
  qed
qed

lemma role_tag_ws_at: "list_all is_role_char name \<Longrightarrow> \<not> ws_at (role_tag name (style_attr role))"
proof -
  assume name: "list_all is_role_char name"
  let ?front = "''span class='' @ quoted ''mention mention-role'' @ '' data-mention-role='' @ [CHR 0x22]"
  let ?rear = "CHR 0x22 # style_attr role"
  have split: "role_tag name (style_attr role) = ?front @ escapeHtml name @ ?rear"
    by (simp add: role_tag_def quoted_def)
  have front: "\<not> ws_at ?front" "last ?front = CHR 0x22" by (rule no_at_ws_at) (simp_all add: quoted_def)
  have mid: "\<not> ws_at (escapeHtml name)" using escaped_role_no_ws [OF name] by (intro no_ws_ws_at) blast
  have rest: "\<not> ws_at ?rear" using style_attr_chars [of role] by (intro no_at_ws_at) auto
  have "\<not> ws_at (escapeHtml name @ ?rear)" using mid rest by (auto simp: ws_at_append)
  moreover have "\<not> is_ws (CHR 0x22)" by (simp add: is_ws_def)
  ultimately show ?thesis unfolding split ws_at_append [of ?front] using front by simp
qed

lemma everyone_chip_ws_at: "everyone_chip_tag t \<Longrightarrow> \<not> ws_at t"
  unfolding everyone_chip_tag_def role_chip_tag_def
proof (elim disjE exE conjE)
  assume "user_chip_tag t"
  then show ?thesis using user_chip_tag_chars by (intro no_at_ws_at) blast
next
  assume "t = all_tag ''everyone''"
  then show ?thesis by (simp add: no_at_ws_at all_tag_def quoted_def)
qed (simp add: role_tag_ws_at)

section \<open>The passes that write chips\<close>

lemma strip_prefix_in_tag:
  assumes "suffix u (tag t)" "c \<notin> set t" "c \<noteq> CHR ''<''" "c \<noteq> CHR ''>''" "u \<noteq> []"
  shows "strip_prefix (c # p) (u @ s) = None"
proof (cases u)
  case (Cons x v)
  have "x \<in> set (tag t)" using assms(1) Cons set_mono_suffix by fastforce
  then have "x \<noteq> c" using assms(2-4) by (auto simp: tag_def)
  then show ?thesis using Cons by (simp add: strip_prefix_def)
qed (use assms(5) in simp)

lemma take_exact: "s = a @ b \<Longrightarrow> length a = n \<Longrightarrow> take n s = a"
  by simp

lemma chip_marked:
  assumes "T t" "T ''/span''" "no_angle t" "no_angle name"
  shows "marked T (tag t @ ''@'' @ name @ tag ''/span'')"
  using assms by (intro marked_tagI marked_append marked_single_tag marked_plain) auto

lemma user_pass: "marked basic_tag s \<Longrightarrow> marked user_chip_tag (replace_from (match_user_mention r) prev s)"
proof (rule structural_pass [of basic_tag "match_user_mention r" user_chip_tag])
  fix t u p s
  assume "basic_tag t" "suffix u (tag t)" "u \<noteq> []"
  then show "match_user_mention r p (u @ s) = None"
    using basic_tag_no_at [of t] by (simp add: match_user_mention_def strip_prefix_in_tag)
next
  fix p s n rep
  assume m: "match_user_mention r p s = Some (n, rep)"
  obtain t where t: "strip_prefix ''&lt;@'' s = Some t"
    using m by (cases "strip_prefix ''&lt;@'' s") (simp_all add: match_user_mention_def)
  define ds where "ds = takeWhile is_digit t"
  define session where "session = round_double (int (read_digits ds))"
  have s: "s = ''&lt;@'' @ t" "prefix ''&gt;'' (drop (length ds) t)" "n = 5 + length ds + 4"
      "rep = tag (user_tag (num_text session)) @ ''@'' @
         escapeHtml (or_else (resolveSession r session) (''user-'' @ num_text session)) @ tag ''/span''"
    using m strip_prefix_Some [THEN iffD1, OF t]
    unfolding match_user_mention_def t option.case ds_def [symmetric] session_def [symmetric] Let_def
    by (simp_all split: if_splits)
  obtain y where y: "t = ds @ ''&gt;'' @ y"
    using s(2) unfolding prefix_def ds_def by (metis append_take_drop_id takeWhile_eq_take)
  have "take n s = ''&lt;@'' @ ds @ ''&gt;''" using s(1,3) y by (intro take_exact [of _ _ y]) simp_all
  moreover have "no_angle ds" unfolding ds_def no_angle_def by (auto dest: set_takeWhileD simp: is_digit_def)
  moreover have num: "is_number (num_text session)" unfolding session_def by (rule num_text_number) auto
  then have "marked user_chip_tag rep" unfolding s(4)
    using number_chars [OF num]
    by (intro chip_marked escapeHtml_no_angle) (auto simp: user_chip_tag_def user_tag_def quoted_def no_angle_def [of "num_text _"])
  ultimately show "0 < n \<and> no_angle (take n s) \<and> marked user_chip_tag rep" using s(3) by simp
next
  show "user_chip_tag t \<and> no_angle t" if "basic_tag t" for t
    using that basic.tag_plain by (simp add: user_chip_tag_def)
qed

lemma role_pass: "marked user_chip_tag s \<Longrightarrow> marked role_chip_tag (replace_from (match_role_mention r) prev s)"
proof (rule structural_pass [of user_chip_tag "match_role_mention r" role_chip_tag])
  fix t u p s
  assume "user_chip_tag t" "suffix u (tag t)" "u \<noteq> []"
  then show "match_role_mention r p (u @ s) = None"
    using user_chip_tag_chars [of t] by (simp add: match_role_mention_def strip_prefix_in_tag)
next
  fix p s n rep
  assume m: "match_role_mention r p s = Some (n, rep)"
  obtain t where t: "strip_prefix ''&lt;@&amp;'' s = Some t"
    using m by (cases "strip_prefix ''&lt;@&amp;'' s") (simp_all add: match_role_mention_def)
  define name where "name = takeWhile is_role_char t"
  have s: "s = ''&lt;@&amp;'' @ t" "prefix ''&gt;'' (drop (length name) t)" "n = 10 + length name + 4"
      "rep = tag (role_tag name (style_attr (resolveRole r name))) @ ''@'' @ escapeHtml name @ tag ''/span''"
    using m strip_prefix_Some [THEN iffD1, OF t]
    unfolding match_role_mention_def t option.case name_def [symmetric] Let_def
    by (simp_all split: if_splits)
  obtain y where y: "t = name @ ''&gt;'' @ y"
    using s(2) unfolding prefix_def name_def by (metis append_take_drop_id takeWhile_eq_take)
  have "take n s = ''&lt;@&amp;'' @ name @ ''&gt;''" using s(1,3) y by (intro take_exact [of _ _ y]) simp_all
  moreover have ok: "list_all is_role_char name" by (auto simp: name_def list_all_iff dest: set_takeWhileD)
  moreover from ok have "no_angle name" by (auto simp: list_all_iff no_angle_def is_role_char_def)
  moreover from ok have "role_chip_tag (role_tag name (style_attr (resolveRole r name)))"
    unfolding role_chip_tag_def by blast
  then have "marked role_chip_tag rep" unfolding s(4)
    by (intro chip_marked escapeHtml_no_angle role_tag_no_angle) (auto simp: role_chip_tag_def user_chip_tag_def)
  ultimately show "0 < n \<and> no_angle (take n s) \<and> marked role_chip_tag rep" using s(3) by simp
next
  show "role_chip_tag t \<and> no_angle t" if "user_chip_tag t" for t
    using that role_chip_no_angle by (simp add: role_chip_tag_def)
qed

lemma ws_plain: "is_ws c \<Longrightarrow> c \<noteq> CHR ''<'' \<and> c \<noteq> CHR ''>'' \<and> c \<noteq> CHR ''@''"
  by (auto simp: is_ws_def)

lemma all_mention_in_tag:
  assumes "\<not> ws_at t" "suffix u (tag t)" "u \<noteq> []" "p = None \<Longrightarrow> u = tag t"
  shows "match_all_mention word p (u @ s) = None"
proof (cases u)
  case (Cons x v)
  have "\<not> (p = None \<and> at_word word (u @ s))" using assms(4) by (auto simp: at_word_def tag_def)
  moreover have "\<not> (is_ws x \<and> at_word word (v @ s))"
  proof
    assume ws: "is_ws x \<and> at_word word (v @ s)"
    obtain z where z: "tag t = z @ x # v" using assms(2) Cons by (auto simp: suffix_def)
    then obtain w where w: "v = w @ ''>''" "z \<noteq> []" "CHR ''<'' # t = z @ x # w"
      using ws ws_plain by (cases v rule: rev_cases; cases z) (auto simp: tag_def)
    then obtain z' where t: "t = z' @ x # w" by (cases z) auto
    have "w \<noteq> [] \<and> hd w = CHR ''@''" using ws w(1) by (cases w) (auto simp: at_word_def)
    then have "ws_at t" unfolding t using ws by (cases w) (auto simp: ws_at_append)
    then show False using assms(1) by simp
  qed
  ultimately show ?thesis using Cons by (simp add: match_all_mention_def Let_def)
qed (use assms(3) in simp)

lemma at_word_prefix: "at_word word s \<Longrightarrow> \<exists>y. s = CHR ''@'' # word @ y"
  by (auto simp: at_word_def prefix_def)

lemma all_mention_match:
  assumes "match_all_mention word p s = Some (n, rep)" "no_angle word" "T (all_tag word)" "T ''/span''"
    "no_angle (all_tag word)"
  shows "0 < n \<and> no_angle (take n s) \<and> marked T rep"
proof -
  let ?chip = "tag (all_tag word) @ CHR ''@'' # word @ tag ''/span''"
  have chip: "marked T ?chip" using chip_marked [OF assms(3,4,5,2)] by simp
  consider "at_word word s" "n = Suc (length word)" "rep = ?chip"
    | lead t where "s = lead # t" "is_ws lead" "at_word word t" "n = length word + 2" "rep = lead # ?chip"
    using assms(1) by (auto simp: match_all_mention_def Let_def split: if_splits list.splits)
  then show ?thesis
  proof cases
    case 1
    then obtain y where "s = CHR ''@'' # word @ y" using at_word_prefix by blast
    then show ?thesis using 1 chip assms(2) by simp
  next
    case 2
    then obtain y where "t = CHR ''@'' # word @ y" using at_word_prefix by blast
    then show ?thesis using 2 chip assms(2) ws_plain [OF 2(2)] by (auto intro: marked_char)
  qed
qed

lemma everyone_pass:
  "marked role_chip_tag s \<Longrightarrow> marked everyone_chip_tag (replace_from (match_all_mention ''everyone'') prev s)"
proof (rule structural_pass [of role_chip_tag "match_all_mention ''everyone''" everyone_chip_tag])
  show "match_all_mention ''everyone'' p (u @ s) = None"
    if "role_chip_tag t" "suffix u (tag t)" "u \<noteq> []" "p = None \<Longrightarrow> u = tag t" for t u p s
    by (rule all_mention_in_tag [OF _ that(2-4)]) (use that(1) everyone_chip_ws_at in \<open>auto simp: everyone_chip_tag_def\<close>)
  show "0 < n \<and> no_angle (take n s) \<and> marked everyone_chip_tag rep"
    if "match_all_mention ''everyone'' p s = Some (n, rep)" for p s n rep
    by (rule all_mention_match [OF that])
       (auto simp: everyone_chip_tag_def role_chip_tag_def user_chip_tag_def all_tag_def quoted_def)
qed (use everyone_chip_no_angle in \<open>auto simp: everyone_chip_tag_def\<close>)

lemma here_pass:
  "marked everyone_chip_tag s \<Longrightarrow> marked chip_tag (replace_from (match_all_mention ''here'') prev s)"
proof (rule structural_pass [of everyone_chip_tag "match_all_mention ''here''" chip_tag])
  show "match_all_mention ''here'' p (u @ s) = None"
    if "everyone_chip_tag t" "suffix u (tag t)" "u \<noteq> []" "p = None \<Longrightarrow> u = tag t" for t u p s
    by (rule all_mention_in_tag [OF everyone_chip_ws_at [OF that(1)] that(2-4)])
  show "0 < n \<and> no_angle (take n s) \<and> marked chip_tag rep"
    if "match_all_mention ''here'' p s = Some (n, rep)" for p s n rep
    by (rule all_mention_match [OF that])
       (auto simp: chip_tag_def everyone_chip_tag_def role_chip_tag_def user_chip_tag_def all_tag_def quoted_def)
qed (use chip_tag_no_angle in \<open>auto simp: chip_tag_def\<close>)

text \<open>
  The body sent for a draft without links contains only the client's own tags and the tags of its
  mention chips, whatever user names, role names and role colours the server has supplied: none of
  them can inject markup.
\<close>

theorem mention_chips_own_tags:
  assumes "CHR '':'' \<notin> set raw"
  shows "marked chip_tag (applyMentionsToHtml r (markdownToHtml raw))"
  unfolding applyMentionsToHtml_def replace_all_def
  by (intro here_pass everyone_pass role_pass user_pass no_link_marked assms)

theorem mention_chips_own_tags_witness:
  "marked chip_tag (applyMentionsToHtml
     \<lparr>resolveSession = (\<lambda>s. Some ''<b>x</b>''), resolveRole = (\<lambda>n. Some (Some ''red;x''))\<rparr>
     (markdownToHtml ''hi <@5> and <@&admin> @here''))"
  by (rule mention_chips_own_tags) simp

text \<open>A mention marker glued to a link is replaced inside the attribute of the link.\<close>

lemma mention_breaks_link:
  "applyMentionsToHtml \<lparr>resolveSession = (\<lambda>s. None), resolveRole = (\<lambda>n. None)\<rparr> (markdownToHtml ''http://x/<@5>y'') =
   ''<a href='' @ CHR 0x22 # ''http://x/'' @ tag (user_tag ''5'') @ ''@user-5</span>y'' @ CHR 0x22 #
   '' target='' @ quoted ''_blank'' @ '' rel='' @ quoted ''noopener noreferrer'' @
   ''>http://x/'' @ tag (user_tag ''5'') @ ''@user-5</span>y</a>''"
  by code_simp

text \<open>Mentioning a user called \<open>everyone\<close> notifies the whole channel.\<close>

lemma user_called_everyone:
  "mg_everyone (extractMentionTargets (applyMentionsToHtml
     \<lparr>resolveSession = (\<lambda>s. Some ''everyone''), resolveRole = (\<lambda>n. None)\<rparr> (markdownToHtml ''<@5>'')))"
  by code_simp

section \<open>Editing a message\<close>

lemma replace_from_hom:
  assumes "\<And>c rest prev. c \<in> set s \<Longrightarrow> \<exists>q. replace_from m prev (f c @ rest) = g c @ replace_from m q rest"
  shows "replace_from m prev (concat (map f s)) = concat (map g s)"
  using assms
proof (induction s arbitrary: prev)
  case (Cons c s)
  obtain q where "replace_from m prev (f c @ concat (map f s)) = g c @ replace_from m q (concat (map f s))"
    using Cons.prems [of c prev "concat (map f s)"] by auto
  then show ?case using Cons.IH Cons.prems by simp
qed simp

lemma replace_all_hom:
  assumes "\<And>c rest prev. c \<in> set s \<Longrightarrow> \<exists>q. replace_from m prev (f c @ rest) = g c @ replace_from m q rest"
  shows "replace_all m (concat (map f s)) = concat (map g s)"
  using replace_from_hom [of s m f g None] assms by (simp add: replace_all_def)

lemma replace_from_no_match: "m prev (c # rest) = None \<Longrightarrow> \<exists>q. replace_from m prev ([c] @ rest) = [c] @ replace_from m q rest"
  by auto

text \<open>The entities are decoded in the reverse order of their escaping.\<close>

lemma decode_escaped: "decode_entities (concat (map esc s)) = s"
proof -
  let ?d1 = "\<lambda>c. if c = CHR ''&'' then ''&amp;'' else if c = CHR ''>'' then ''&gt;'' else [c]"
  let ?d2 = "\<lambda>c. if c = CHR ''&'' then ''&amp;'' else [c]"
  have "replace_all (lit ''&lt;'' ''<'') (concat (map esc s)) = concat (map ?d1 s)"
    by (rule replace_all_hom) (auto simp: esc_def lit_def)
  moreover have "replace_all (lit ''&gt;'' ''>'') (concat (map ?d1 s)) = concat (map ?d2 s)"
    by (rule replace_all_hom) (auto simp: lit_def)
  moreover have "replace_all (lit ''&amp;'' ''&'') (concat (map ?d2 s)) = concat (map (\<lambda>c. [c]) s)"
    by (rule replace_all_hom) (auto simp: lit_def)
  ultimately show ?thesis by (simp add: decode_entities_def concat_map_singleton)
qed

lemma lower_lt: "lower_char c = CHR ''<'' \<Longrightarrow> c = CHR ''<''"
  by (auto simp: lower_char_def Let_def split: if_splits dest!: arg_cong [where f = "of_char :: char \<Rightarrow> nat"])

lemma strip_ci_absent: "CHR ''<'' \<notin> set s \<Longrightarrow> strip_ci (CHR ''<'' # p) s = None"
  using lower_lt by (cases s) (auto simp: strip_ci_def to_lower_def)

lemma no_elements: "CHR ''<'' \<notin> set s \<Longrightarrow> strip_elements s = s"
proof -
  assume s: "CHR ''<'' \<notin> set s"
  have absent: "replace_all m s = s" if "\<And>p t. CHR ''<'' \<notin> set t \<Longrightarrow> m p t = None" for m
    using s that by (rule replace_all_absent)
  show ?thesis unfolding strip_elements_def
    by (simp add: absent match_pre_def match_anchor_def match_element_def match_math_display_def open_span_def
        match_span_def match_comment_def match_tag_def strip_ci_absent strip_prefix_absent tag_def)
qed

text \<open>Escaping neither creates nor hides the text that starts a link.\<close>

lemma esc_prefix:
  assumes "set p \<inter> set ''&;ampltg<>'' = {}"
  shows "prefix p (concat (map esc s)) \<Longrightarrow> prefix p s"
  using assms
proof (induction s arbitrary: p)
  case (Cons c s)
  show ?case
  proof (cases p)
    case (Cons a q)
    then have "a = c \<and> prefix q (concat (map esc s))" using Cons.prems by (auto simp: esc_def [of c] split: if_splits)
    then show ?thesis using Cons Cons.IH [of q] Cons.prems by auto
  qed simp
qed simp

lemma esc_sublist:
  assumes "set p \<inter> set ''&;ampltg<>'' = {}" "p \<noteq> []"
  shows "sublist p (concat (map esc s)) \<Longrightarrow> sublist p s"
proof (induction s)
  case (Cons c s)
  obtain a q where p: "p = a # q" using assms(2) by (cases p) auto
  have plain: "prefix p (c # s) \<or> sublist p s" if "esc c = [c]"
    using Cons esc_prefix [OF assms(1), of "c # s"] that by (auto simp: sublist_Cons_right)
  have "sublist p s" if "esc c \<noteq> [c]"
    using Cons that assms(1) p by (auto simp: esc_def [of c] sublist_Cons_right split: if_splits)
  with plain show ?case by (auto simp: sublist_Cons_right)
qed (use assms in simp)

lemma url_scheme_colon: "url_scheme s = Some p \<Longrightarrow> sublist ''://'' s"
proof -
  assume p: "url_scheme s = Some p"
  then have "sublist ''://'' p" by (auto simp: url_scheme_def sublist_Cons_right split: if_splits)
  moreover have "sublist p s" using url_scheme_chars [OF p] by (simp add: prefix_imp_sublist)
  ultimately show ?thesis by (rule sublist_order.order_trans)
qed

definition unformatted :: "string \<Rightarrow> bool" where
  "unformatted raw \<longleftrightarrow> set raw \<inter> {CHR 0x60, CHR ''$'', NUL, CHR ''*'', CHR ''_'', CHR ''~'', CHR ''|''} = {} \<and>
     \<not> sublist ''://'' raw"

lemma marks_absent:
  "c \<notin> set s \<Longrightarrow> match_wrap [c, c] a b p s = None" "CHR ''*'' \<notin> set s \<Longrightarrow> match_italic p s = None"
  by (simp_all add: match_wrap_def match_italic_def strip_prefix_absent)

lemma unformatted_html:
  assumes "unformatted raw"
  shows "markdownToHtml raw = concat (map (\<lambda>c. if c = CHR 0x0A then tag ''br'' else esc c) raw)"
proof -
  let ?h = "escape_markup raw"
  have free: "CHR ''*'' \<notin> set ?h" "CHR ''_'' \<notin> set ?h" "CHR ''~'' \<notin> set ?h" "CHR ''|'' \<notin> set ?h"
    by (intro escape_free; use assms in \<open>auto simp: unformatted_def\<close>)+
  have marks: "inline_marks ?h = ?h"
    unfolding inline_marks_def using free
    by (simp add: replace_all_absent [OF free(1)] replace_all_absent [OF free(2)] replace_all_absent [OF free(3)]
        replace_all_absent [OF free(4)] marks_absent)
  have "match_link p t = None" if "suffix t ?h" for p t
  proof -
    have "\<not> sublist ''://'' ?h"
      using assms esc_sublist [of "''://''" raw] by (auto simp: unformatted_def escape_markup_esc)
    then have "\<not> sublist ''://'' t" using that by (meson sublist_order.order_trans suffix_imp_sublist)
    then have "url_scheme t = None" using url_scheme_colon by (cases "url_scheme t") auto
    then show ?thesis by (simp add: match_link_def match_url_def)
  qed
  then have link: "replace_all match_link ?h = ?h" by (intro replace_all_none) auto
  have "markdownToHtml raw = replace_char (CHR 0x0A) (tag ''br'') ?h"
    using plain_conversion [of raw] assms marks link by (auto simp: unformatted_def)
  also have "\<dots> = concat (map (\<lambda>c. if c = CHR 0x0A then tag ''br'' else esc c) raw)"
    unfolding replace_char_def replace_all_chars escape_markup_esc
    by (induction raw) (auto simp: esc_def)
  finally show ?thesis .
qed

definition escaped_char :: "char \<Rightarrow> string" where
  "escaped_char c = (if c = CHR 0x0A then tag ''br'' else esc c)"

lemma unformatted_edit:
  shows "htmlToMarkdown (concat (map escaped_char raw)) = raw"
proof -
  have br: "replace_all match_br (concat (map (\<lambda>c. if c = CHR 0x0A then tag ''br'' else esc c) raw)) = concat (map esc raw)"
  proof (rule replace_all_hom)
    fix c rest prev
    have plain: "match_br p (x # rest) = None" if "x \<noteq> CHR ''<''" for p x rest
      using that lower_lt [of x] by (auto simp: match_br_def strip_ci_def to_lower_def)
    show "\<exists>q. replace_from match_br prev ((if c = CHR 0x0A then tag ''br'' else esc c) @ rest) =
      esc c @ replace_from match_br q rest"
    proof (cases "c = CHR 0x0A")
      case True
      have "match_br prev (''<br>'' @ rest) = Some (4, [CHR 0x0A])"
        by (simp add: match_br_def strip_ci_def to_lower_def lower_char_def is_ws_def)
      then show ?thesis using True by (auto simp: tag_def esc_def)
    next
      case False
      then show ?thesis by (auto simp: esc_def plain)
    qed
  qed
  have "CHR ''<'' \<notin> set (concat (map esc raw))"
    using no_angle_escape [of raw] by (simp add: escape_markup_esc no_angle_def)
  then show ?thesis
    unfolding htmlToMarkdown_def escaped_char_def br by (simp add: no_elements decode_escaped)
qed

text \<open>Where the draft has no mention there is none in its conversion, so that no chip is added.\<close>

lemma escaped_char_cases: "escaped_char c = [c] \<and> c \<noteq> CHR ''<'' \<and> c \<noteq> CHR ''&'' \<or> escaped_char c \<in> {''<br>'', ''&amp;'', ''&lt;'', ''&gt;''}"
  by (simp add: escaped_char_def esc_def tag_def)

lemma escaped_lt: "escaped_char c = ''&lt;'' \<Longrightarrow> c = CHR ''<''"
  by (auto simp: escaped_char_def esc_def tag_def split: if_splits)

lemma escaped_prefix: "prefix p (concat (map escaped_char s)) \<Longrightarrow> CHR ''&'' \<notin> set p \<Longrightarrow> CHR ''<'' \<notin> set p \<Longrightarrow> prefix p s"
proof (induction s arbitrary: p)
  case (Cons c s)
  then show ?case using escaped_char_cases [of c] by (cases p) auto
qed simp

lemma escaped_at:
  assumes "CHR ''&'' \<notin> set w" "CHR ''<'' \<notin> set w"
  shows "sublist (CHR ''@'' # w) (concat (map escaped_char s)) \<Longrightarrow> sublist (CHR ''@'' # w) s"
proof (induction s)
  case (Cons c s)
  have "prefix (CHR ''@'' # w) (c # concat (map escaped_char s)) \<Longrightarrow> prefix (CHR ''@'' # w) (c # s)"
    using escaped_prefix [of w s] assms by auto
  then show ?case using Cons escaped_char_cases [of c] by (auto simp: sublist_Cons_right)
qed simp

lemma escaped_marker: "sublist ''&lt;@'' (concat (map escaped_char s)) \<Longrightarrow> sublist ''<@'' s"
proof (induction s)
  case (Cons c s)
  have "prefix ''@'' (concat (map escaped_char s)) \<Longrightarrow> prefix ''@'' s" by (rule escaped_prefix) auto
  then show ?case
    using Cons escaped_char_cases [of c] escaped_lt [of c] by (auto simp: sublist_Cons_right)
qed simp

definition unmentioned :: "string \<Rightarrow> bool" where
  "unmentioned raw \<longleftrightarrow> \<not> sublist ''<@'' raw \<and> \<not> sublist ''@everyone'' raw \<and> \<not> sublist ''@here'' raw"

lemma suffix_without: "\<not> sublist w s \<Longrightarrow> suffix t s \<Longrightarrow> \<not> prefix w t \<and> (t \<noteq> [] \<longrightarrow> \<not> prefix w (tl t))"
  by (meson prefix_imp_sublist sublist_order.order_trans suffix_imp_sublist suffix_tl)

lemma no_marker:
  assumes "\<not> sublist ''&lt;@'' s"
  shows "replace_all (match_user_mention r) s = s" "replace_all (match_role_mention r) s = s"
proof -
  have lone: "strip_prefix (''&lt;@'' @ w) t = None" if "suffix t s" for w t
    using suffix_without [OF assms that] by (auto simp: strip_prefix_def append_prefixD)
  show "replace_all (match_user_mention r) s = s"
    using lone [of _ "[]"] by (intro replace_all_none) (simp add: match_user_mention_def)
  show "replace_all (match_role_mention r) s = s"
    using lone [of _ "''&amp;''"] by (intro replace_all_none) (simp add: match_role_mention_def)
qed

lemma no_word:
  assumes "\<not> sublist (CHR ''@'' # word) s"
  shows "replace_all (match_all_mention word) s = s"
proof (rule replace_all_none)
  fix p t
  assume "suffix t s" "t \<noteq> []"
  then have "\<not> at_word word t" "\<not> at_word word (tl t)"
    using suffix_without [OF assms] by (auto simp: at_word_def)
  then show "match_all_mention word p t = None"
    using \<open>t \<noteq> []\<close> by (cases t) (simp_all add: match_all_mention_def Let_def)
qed

lemma unmentioned_chips:
  assumes "unmentioned raw"
  shows "applyMentionsToHtml r (concat (map escaped_char raw)) = concat (map escaped_char raw)"
proof -
  let ?h = "concat (map escaped_char raw)"
  have "\<not> sublist ''&lt;@'' ?h" "\<not> sublist ''@everyone'' ?h" "\<not> sublist ''@here'' ?h"
    using assms escaped_marker [of raw] escaped_at [of "''everyone''" raw] escaped_at [of "''here''" raw]
    by (auto simp: unmentioned_def)
  then show ?thesis by (simp add: applyMentionsToHtml_def no_marker no_word)
qed

text \<open>
  C24: Opening a sent message for editing gives back exactly what was typed, angle brackets, ampersands and
  line breaks included, when the text has no formatting marks (no backtick, dollar, NUL, star, underscore,
  tilde or bar), no address and no mention marker.  The sent body is the converted draft with the chips of
  mentions added, as \<open>renderBody\<close> composes it.
\<close>

theorem edit_roundtrip:
  assumes "unformatted raw" "unmentioned raw"
  shows "htmlToMarkdown (applyMentionsToHtml r (markdownToHtml raw)) = raw"
proof -
  have "markdownToHtml raw = concat (map escaped_char raw)"
    using unformatted_html [OF assms(1)] by (simp add: escaped_char_def [abs_def])
  then show ?thesis using unmentioned_chips [OF assms(2)] unformatted_edit by simp
qed

theorem edit_roundtrip_witness:
  "htmlToMarkdown (applyMentionsToHtml \<lparr>resolveSession = \<lambda>s. Some ''Ann'', resolveRole = \<lambda>n. None\<rparr>
     (markdownToHtml (''if a<b && b>c: &lt; me@x 12:30'' @ CHR 0x0A # ''next''))) =
   ''if a<b && b>c: &lt; me@x 12:30'' @ CHR 0x0A # ''next''"
proof (rule edit_roundtrip)
  show "unformatted (''if a<b && b>c: &lt; me@x 12:30'' @ CHR 0x0A # ''next'')" by code_simp
  show "unmentioned (''if a<b && b>c: &lt; me@x 12:30'' @ CHR 0x0A # ''next'')" by code_simp
qed

text \<open>The replacement templates for formulas drop the formula: editing replaces it by a literal \<open>1\<close>.\<close>

lemma formula_lost_on_edit:
  "htmlToMarkdown (markdownToHtml ''$x$'') = ''$1$''" "htmlToMarkdown (markdownToHtml ''$$x$$'') = ''$$1$''"
  by code_simp+

end
