(* ===== verification/Composer.thy ===== *)
theory Composer
  imports Slash Mentions
begin

text \<open>
  The composer of the chat, \<open>components/chat/ChatComposer.tsx\<close>, with the keyboard handling of
  \<open>components/plugin/SlashCommandMenu.tsx\<close> and \<open>components/chat/mention/MentionAutocomplete.tsx\<close> and
  the text edits of \<open>MarkdownInput.tsx\<close>: the draft, the mention popup, the slash-command menu, and what
  the send button does.  A key press, a selection change or a click is one event; the effects React
  runs after each render are \<open>settle\<close>.
\<close>

section \<open>Keys\<close>

datatype key = ArrowDown | ArrowUp | EnterKey | TabKey | EscapeKey | OtherKey

datatype key_action = MoveTo nat | Pick nat | CloseMenu

definition handleMentionKey :: "key \<Rightarrow> nat \<Rightarrow> nat \<Rightarrow> key_action option" where
  "handleMentionKey k activeIndex cnt =
     (if cnt = 0 then None
      else case k of
        ArrowDown \<Rightarrow> Some (MoveTo ((activeIndex + 1) mod cnt))
      | ArrowUp \<Rightarrow> Some (MoveTo ((activeIndex + cnt - 1) mod cnt))
      | EnterKey \<Rightarrow> Some (Pick activeIndex)
      | TabKey \<Rightarrow> Some (Pick activeIndex)
      | EscapeKey \<Rightarrow> Some CloseMenu
      | OtherKey \<Rightarrow> None)"

definition handleSlashKey :: "key \<Rightarrow> nat \<Rightarrow> nat \<Rightarrow> key_action option" where
  "handleSlashKey k activeIndex cnt =
     (if cnt = 0 then (if k = EscapeKey then Some CloseMenu else None)
      else case k of
        ArrowDown \<Rightarrow> Some (MoveTo ((activeIndex + 1) mod cnt))
      | ArrowUp \<Rightarrow> Some (MoveTo ((activeIndex + cnt - 1) mod cnt))
      | TabKey \<Rightarrow> Some (Pick activeIndex)
      | EnterKey \<Rightarrow> Some (Pick activeIndex)
      | EscapeKey \<Rightarrow> Some CloseMenu
      | OtherKey \<Rightarrow> None)"

section \<open>State\<close>

text \<open>What the composer reads of the store: the plugins' commands and the candidates for a query.\<close>

record composer_env =
  ce_entries :: "slash_entry list"
  ce_candidates :: "mention_kind option \<Rightarrow> string \<Rightarrow> mention_candidate list"
  ce_selectedChannel :: "int option"

definition composer_inputs ::
  "(string \<Rightarrow> string \<Rightarrow> int) \<Rightarrow> (int \<Rightarrow> int option \<Rightarrow> string option) \<Rightarrow> (string, client_manifest) jmap \<Rightarrow>
   user_entry list \<Rightarrow> int option \<Rightarrow> int option \<Rightarrow> string list \<Rightarrow> composer_env" where
  "composer_inputs localeCompare avatar manifests users selectedChannel ownSession roleGroups =
     \<lparr>ce_entries = collectSlashCommands localeCompare manifests,
      ce_candidates = useMentionCandidates avatar users selectedChannel ownSession roleGroups,
      ce_selectedChannel = selectedChannel\<rparr>"

record composer =
  cp_draft :: string
  cp_trigger :: "mention_trigger option"
  cp_activeIndex :: nat
  cp_slashActiveIndex :: nat

definition slash_entries :: "composer_env \<Rightarrow> composer \<Rightarrow> slash_entry list" where
  "slash_entries env c =
     (case extractSlashQuery (cp_draft c) of
        None \<Rightarrow> []
      | Some q \<Rightarrow> filterSlashCommands (ce_entries env) q)"

definition slash_open :: "composer_env \<Rightarrow> composer \<Rightarrow> bool" where
  "slash_open env c \<longleftrightarrow> extractSlashQuery (cp_draft c) \<noteq> None \<and> slash_entries env c \<noteq> []"

definition candidates :: "composer_env \<Rightarrow> composer \<Rightarrow> mention_candidate list" where
  "candidates env c =
     ce_candidates env (map_option mt_kind (cp_trigger c)) (case cp_trigger c of Some t \<Rightarrow> mt_query t | None \<Rightarrow> [])"

text \<open>The three effects that run after a render.\<close>

definition drop_stale_trigger :: "composer \<Rightarrow> composer" where
  "drop_stale_trigger c =
     (case cp_trigger c of
        Some t \<Rightarrow> if char_at (cp_draft c) (mt_anchor t) \<noteq> Some (CHR ''@'') then c\<lparr>cp_trigger := None\<rparr> else c
      | None \<Rightarrow> c)"

definition reset_slash_index :: "composer_env \<Rightarrow> composer \<Rightarrow> composer" where
  "reset_slash_index env c =
     (if length (slash_entries env c) \<le> cp_slashActiveIndex c then c\<lparr>cp_slashActiveIndex := 0\<rparr> else c)"

definition reset_active_index :: "composer_env \<Rightarrow> composer \<Rightarrow> composer" where
  "reset_active_index env c =
     (if length (candidates env c) \<le> cp_activeIndex c then c\<lparr>cp_activeIndex := 0\<rparr> else c)"

definition settle :: "composer_env \<Rightarrow> composer \<Rightarrow> composer" where
  "settle env c = reset_active_index env (reset_slash_index env (drop_stale_trigger c))"

section \<open>Handlers\<close>

definition handleSelectionChange :: "nat \<Rightarrow> nat \<Rightarrow> composer \<Rightarrow> composer" where
  "handleSelectionChange start stop c =
     (if start \<noteq> stop then c\<lparr>cp_trigger := None\<rparr>
      else let next = parseMentionTrigger (cp_draft c) start
           in if next = cp_trigger c then c else c\<lparr>cp_trigger := next, cp_activeIndex := 0\<rparr>)"

definition replaceRange :: "nat \<Rightarrow> nat \<Rightarrow> string \<Rightarrow> string \<Rightarrow> string" where
  "replaceRange start stop txt value = take start value @ txt @ drop stop value"

definition wrapSelection :: "string \<Rightarrow> string \<Rightarrow> nat \<Rightarrow> nat \<Rightarrow> string \<Rightarrow> string \<times> nat \<times> nat" where
  "wrapSelection before after start stop value =
     (take start value @ before @ slice start stop value @ after @ drop stop value,
      start + length before, stop + length before)"

definition insertCandidate :: "mention_candidate \<Rightarrow> composer \<Rightarrow> composer" where
  "insertCandidate cand c =
     (case cp_trigger c of
        None \<Rightarrow> c
      | Some t \<Rightarrow>
          (let queryLen = (case mt_kind t of RoleMention \<Rightarrow> length (mt_query t) + 2 | UserMention \<Rightarrow> length (mt_query t) + 1);
               stop = mt_anchor t + queryLen
           in c\<lparr>cp_draft := replaceRange (mt_anchor t) stop (candidateInsertText cand @ '' '') (cp_draft c),
                cp_trigger := None\<rparr>))"

definition pickSlashEntry :: "slash_entry \<Rightarrow> composer \<Rightarrow> composer" where
  "pickSlashEntry entry c =
     (let trimmedStart = length (cp_draft c) - length (trim_start (cp_draft c))
      in c\<lparr>cp_draft := take trimmedStart (cp_draft c) @ ''/'' @ sl_name (se_command entry) @ '' '',
           cp_slashActiveIndex := 0\<rparr>)"

datatype submit_outcome =
    Interaction string string option_values "int option"   \<comment> \<open>plugin, command, options, channel\<close>
  | PostDraft string                                       \<comment> \<open>\<open>onSend\<close> with the draft\<close>

definition handleSlashSubmit :: "composer_env \<Rightarrow> composer \<Rightarrow> (composer \<times> submit_outcome) option" where
  "handleSlashSubmit env c =
     (case parseSlashLine (cp_draft c) (ce_entries env) of
        None \<Rightarrow> None
      | Some p \<Rightarrow>
          if pl_errors p \<noteq> [] then None
          else Some (c\<lparr>cp_draft := []\<rparr>, Interaction (pl_pluginName p) (pl_name p) (pl_options p) (ce_selectedChannel env)))"

definition handleSendIntercept :: "composer_env \<Rightarrow> composer \<Rightarrow> composer \<times> submit_outcome" where
  "handleSendIntercept env c =
     (case handleSlashSubmit env c of Some r \<Rightarrow> r | None \<Rightarrow> (c, PostDraft (cp_draft c)))"

text \<open>The key handler: the new state and whether the key was consumed.\<close>

definition handleKeyDownCapture :: "composer_env \<Rightarrow> key \<Rightarrow> composer \<Rightarrow> composer \<times> bool" where
  "handleKeyDownCapture env k c =
     (if slash_open env c then
        (case handleSlashKey k (cp_slashActiveIndex c) (length (slash_entries env c)) of
           None \<Rightarrow> (c, False)
         | Some (MoveTo i) \<Rightarrow> (c\<lparr>cp_slashActiveIndex := i\<rparr>, True)
         | Some (Pick i) \<Rightarrow> (pickSlashEntry (slash_entries env c ! i) c, True)
         | Some CloseMenu \<Rightarrow> (c\<lparr>cp_draft := []\<rparr>, True))
      else if cp_trigger c = None \<or> candidates env c = [] then (c, False)
      else
        (case handleMentionKey k (cp_activeIndex c) (length (candidates env c)) of
           None \<Rightarrow> (c, False)
         | Some (MoveTo i) \<Rightarrow> (c\<lparr>cp_activeIndex := i\<rparr>, True)
         | Some (Pick i) \<Rightarrow> (insertCandidate (candidates env c ! i) c, True)
         | Some CloseMenu \<Rightarrow> (c\<lparr>cp_trigger := None\<rparr>, True)))"

text \<open>\<open>handleKeyDown\<close> of the text area: an Enter the popups leave alone submits.\<close>

definition handleKeyDown :: "composer_env \<Rightarrow> key \<Rightarrow> bool \<Rightarrow> composer \<Rightarrow> composer \<times> submit_outcome option" where
  "handleKeyDown env k shift c =
     (case handleKeyDownCapture env k c of
        (c', True) \<Rightarrow> (c', None)
      | (c', False) \<Rightarrow>
          if k = EnterKey \<and> \<not> shift then map_prod (\<lambda>x. x) Some (handleSendIntercept env c') else (c', None))"

datatype composer_event =
    KeyPressed key bool
  | SelectionChanged nat nat
  | DraftChanged string
  | EntryClicked nat
  | CandidateClicked nat
  | SendClicked

fun composer_step :: "composer_env \<Rightarrow> composer \<Rightarrow> composer_event \<Rightarrow> composer" where
  "composer_step env c (KeyPressed k shift) = settle env (fst (handleKeyDown env k shift c))"
| "composer_step env c (SelectionChanged a b) = settle env (handleSelectionChange a b c)"
| "composer_step env c (DraftChanged d) = settle env (c\<lparr>cp_draft := d\<rparr>)"
| "composer_step env c (EntryClicked i) =
     settle env (if i < length (slash_entries env c) then pickSlashEntry (slash_entries env c ! i) c else c)"
| "composer_step env c (CandidateClicked i) =
     settle env (if i < length (candidates env c) then insertCandidate (candidates env c ! i) c else c)"
| "composer_step env c SendClicked = settle env (fst (handleSendIntercept env c))"

section \<open>Menus\<close>

lemma settle_slash_index:
  "cp_slashActiveIndex (settle env c) < length (slash_entries env (settle env c)) \<or> cp_slashActiveIndex (settle env c) = 0"
  by (simp add: settle_def reset_active_index_def reset_slash_index_def slash_entries_def not_le)

lemma settle_active_index:
  "cp_activeIndex (settle env c) < length (candidates env (settle env c)) \<or> cp_activeIndex (settle env c) = 0"
  by (simp add: settle_def reset_active_index_def candidates_def not_le)

lemma settle_trigger: "cp_trigger (settle env c) = Some t \<Longrightarrow> char_at (cp_draft (settle env c)) (mt_anchor t) = Some (CHR ''@'')"
  by (auto simp: settle_def reset_active_index_def reset_slash_index_def drop_stale_trigger_def split: option.splits if_splits)

lemma step_settles: "\<exists>c'. composer_step env c e = settle env c'"
  by (cases e) auto

text \<open>
  After any event, whatever happened before it and however users and plugins have changed meanwhile,
  the highlighted row of an open menu exists, so Enter and Tab pick an offered entry, the arrow keys
  stay on the menu, and an open mention popup hangs on an at sign of the draft.
\<close>

theorem menu_rows_exist:
  assumes "c = composer_step env c0 e"
  shows "(slash_open env c \<longrightarrow> cp_slashActiveIndex c < length (slash_entries env c)) \<and>
     (candidates env c \<noteq> [] \<longrightarrow> cp_activeIndex c < length (candidates env c)) \<and>
     (\<forall>t. cp_trigger c = Some t \<longrightarrow> char_at (cp_draft c) (mt_anchor t) = Some (CHR ''@'')) \<and>
     (\<forall>k i. handleSlashKey k (cp_slashActiveIndex c) (length (slash_entries env c)) \<in> {Some (MoveTo i), Some (Pick i)} \<longrightarrow>
        i < length (slash_entries env c)) \<and>
     (\<forall>k i. handleMentionKey k (cp_activeIndex c) (length (candidates env c)) \<in> {Some (MoveTo i), Some (Pick i)} \<longrightarrow>
        i < length (candidates env c))"
proof -
  obtain c' where c: "c = settle env c'" using assms step_settles by metis
  have s: "cp_slashActiveIndex c < length (slash_entries env c)" if "slash_entries env c \<noteq> []"
    using settle_slash_index [of env c'] that unfolding c by auto
  have a: "cp_activeIndex c < length (candidates env c)" if "candidates env c \<noteq> []"
    using settle_active_index [of env c'] that unfolding c by auto
  have "i < length (slash_entries env c)"
    if "handleSlashKey k (cp_slashActiveIndex c) (length (slash_entries env c)) \<in> {Some (MoveTo i), Some (Pick i)}" for k i
    using that s by (cases k) (auto simp: handleSlashKey_def split: if_splits)
  moreover have "i < length (candidates env c)"
    if "handleMentionKey k (cp_activeIndex c) (length (candidates env c)) \<in> {Some (MoveTo i), Some (Pick i)}" for k i
    using that a by (cases k) (auto simp: handleMentionKey_def split: if_splits)
  ultimately show ?thesis using s a settle_trigger [of env c'] c by (simp add: slash_open_def)
qed

definition example_env :: composer_env where
  "example_env = \<lparr>ce_entries = [example_entry], ce_candidates = (\<lambda>k q. if k = None then [] else [CandEveryone, CandHere]),
     ce_selectedChannel = Some 3\<rparr>"

definition example_composer :: composer where
  "example_composer = \<lparr>cp_draft = ''hi @he'', cp_trigger = None, cp_activeIndex = 7, cp_slashActiveIndex = 0\<rparr>"

theorem menu_rows_exist_witness:
  "cp_activeIndex (composer_step example_env example_composer (SelectionChanged 6 6)) <
   length (candidates example_env (composer_step example_env example_composer (SelectionChanged 6 6)))"
proof -
  have "candidates example_env (composer_step example_env example_composer (SelectionChanged 6 6)) \<noteq> []" by code_simp
  then show ?thesis using menu_rows_exist [OF refl] by blast
qed

section \<open>Inserting a mention\<close>

lemma walk_back_Some:
  "walk_back draft n = Some i \<Longrightarrow> i < n \<and> char_at draft i = Some (CHR ''@'') \<and>
     (\<forall>j. i < j \<and> j < n \<longrightarrow> (\<forall>c. char_at draft j = Some c \<longrightarrow> c \<noteq> CHR ''@'' \<and> \<not> breaks_token c))"
proof (induction n)
  case (Suc n)
  show ?case
  proof (cases "char_at draft n = Some (CHR ''@'')")
    case True
    then show ?thesis using Suc.prems by auto
  next
    case False
    then have "walk_back draft n = Some i" "\<not> (case char_at draft n of Some c \<Rightarrow> breaks_token c | None \<Rightarrow> False)"
      using Suc.prems by (auto split: if_splits)
    then show ?thesis using Suc.IH False by (auto simp: less_Suc_eq split: option.splits)
  qed
qed simp

lemma trigger_Some:
  assumes "parseMentionTrigger draft cursor = Some t"
  shows "walk_back draft cursor = Some (mt_anchor t)"
    "mt_query t = slice (mt_anchor t + (case mt_kind t of RoleMention \<Rightarrow> 2 | UserMention \<Rightarrow> 1)) cursor draft"
    "mt_anchor t = 0 \<or> (\<exists>c. char_at draft (mt_anchor t - 1) = Some c \<and> is_ws c)"
  using assms by (auto simp: parseMentionTrigger_def Let_def split: option.splits if_splits mention_kind.splits)

text \<open>
  Picking a candidate replaces exactly the token being typed, from its at sign to the cursor, by the
  marker and a blank: the text before the token and all text behind the cursor stay, and the token is
  one unbroken word at the start of the draft or behind white space.
\<close>

theorem mention_replaces_token:
  assumes "parseMentionTrigger (cp_draft c) cursor = Some t" "cp_trigger c = Some t" "cursor \<le> length (cp_draft c)"
    "mt_kind t = UserMention \<or> mt_anchor t + 2 \<le> cursor"
  shows "cp_draft (insertCandidate cand c) =
      take (mt_anchor t) (cp_draft c) @ candidateInsertText cand @ '' '' @ drop cursor (cp_draft c) \<and>
    (\<exists>token. take cursor (cp_draft c) = take (mt_anchor t) (cp_draft c) @ CHR ''@'' # token \<and>
       (\<forall>x \<in> set token. \<not> is_ws x \<and> x \<noteq> CHR ''@'')) \<and>
    (mt_anchor t = 0 \<or> is_ws (cp_draft c ! (mt_anchor t - 1)))"
proof -
  let ?d = "cp_draft c" and ?i = "mt_anchor t"
  note walk = walk_back_Some [OF trigger_Some(1) [OF assms(1)]]
  have i: "?i < cursor" "?d ! ?i = CHR ''@''" using walk by (auto simp: char_at_def split: if_splits)
  have stop: "?i + (case mt_kind t of RoleMention \<Rightarrow> length (mt_query t) + 2 | UserMention \<Rightarrow> length (mt_query t) + 1) = cursor"
    using trigger_Some(2) [OF assms(1)] assms(3,4) i(1) by (auto simp: slice_def split: mention_kind.splits)
  let ?token = "slice (?i + 1) cursor ?d"
  have "?i < length (take cursor ?d)" using i(1) assms(3) by simp
  from id_take_nth_drop [OF this] have parts: "take cursor ?d = take ?i ?d @ CHR ''@'' # ?token"
    using i by (simp add: slice_def drop_take min_def)
  have "\<not> is_ws x \<and> x \<noteq> CHR ''@''" if x: "x \<in> set ?token" for x
  proof -
    obtain j where "j < length ?token" "x = ?token ! j" using x by (metis in_set_conv_nth)
    then have j: "?i < ?i + 1 + j" "?i + 1 + j < cursor" "x = ?d ! (?i + 1 + j)"
      using assms(3) by (auto simp: slice_def)
    then have "char_at ?d (?i + 1 + j) = Some x" using assms(3) by (simp add: char_at_def)
    then show ?thesis using walk j(1,2) unfolding breaks_token_def by blast
  qed
  moreover have "?i = 0 \<or> is_ws (?d ! (?i - 1))"
    using trigger_Some(3) [OF assms(1)] by (auto simp: char_at_def split: if_splits)
  moreover have "cp_draft (insertCandidate cand c) = take ?i ?d @ candidateInsertText cand @ '' '' @ drop cursor ?d"
    using assms(2) stop by (simp add: insertCandidate_def Let_def replaceRange_def)
  ultimately show ?thesis using parts by blast
qed

theorem mention_replaces_token_witness:
  "cp_draft (insertCandidate (CandUser 5 ''al'' None)
     \<lparr>cp_draft = ''hi @al you'', cp_trigger = parseMentionTrigger ''hi @al you'' 6, cp_activeIndex = 0, cp_slashActiveIndex = 0\<rparr>) =
   ''hi <@5>  you''"
proof -
  let ?c = "\<lparr>cp_draft = ''hi @al you'', cp_trigger = parseMentionTrigger ''hi @al you'' 6, cp_activeIndex = 0, cp_slashActiveIndex = 0\<rparr>"
  let ?t = "\<lparr>mt_anchor = 3, mt_query = ''al'', mt_kind = UserMention\<rparr>"
  have t: "parseMentionTrigger ''hi @al you'' 6 = Some ?t" by code_simp
  have "cp_draft (insertCandidate (CandUser 5 ''al'' None) ?c) =
      take (mt_anchor ?t) (cp_draft ?c) @ candidateInsertText (CandUser 5 ''al'' None) @ '' '' @ drop 6 (cp_draft ?c)"
    using mention_replaces_token [of ?c 6 ?t "CandUser 5 ''al'' None"] t by simp
  also have "\<dots> = ''hi <@5>  you''" by code_simp
  finally show ?thesis .
qed

section \<open>Submitting\<close>

lemma collected_declared:
  "e \<in> set (collectSlashCommands localeCompare manifests) \<Longrightarrow>
   \<exists>m. (se_pluginName e, m) \<in> set manifests \<and> se_command e \<in> set (or_else (mf_slash_commands m) [])"
  by (auto simp: collectSlashCommands_def)

text \<open>
  Submitting the composer either sends an interaction or posts the draft.  An interaction goes to a
  plugin whose manifest is honoured, for a command that manifest declares, with every option value of
  its declared type and every required option bound, and it empties the draft; in every other case the
  draft is posted unchanged and stays in the composer.
\<close>

theorem submit_reaches_declared_command:
  assumes "env = composer_inputs localeCompare avatar manifests users selectedChannel ownSession roleGroups"
    "handleSendIntercept env c = (c', outcome)"
  shows "(\<exists>p cmd m vals. outcome = Interaction p (sl_name cmd) vals selectedChannel \<and> cp_draft c' = [] \<and>
       (p, m) \<in> set manifests \<and> cmd \<in> set (or_else (mf_slash_commands m) []) \<and>
       typed_values (declared_options cmd) vals \<and> required_bound (declared_options cmd) vals) \<or>
     (outcome = PostDraft (cp_draft c) \<and> c' = c)"
proof (cases "handleSlashSubmit env c")
  case None
  then show ?thesis using assms(2) by (auto simp: handleSendIntercept_def)
next
  case (Some r)
  then obtain p where p: "parseSlashLine (cp_draft c) (ce_entries env) = Some p" "pl_errors p = []"
      "c' = c\<lparr>cp_draft := []\<rparr>" "outcome = Interaction (pl_pluginName p) (pl_name p) (pl_options p) selectedChannel"
    using assms by (auto simp: handleSlashSubmit_def handleSendIntercept_def composer_inputs_def split: option.splits if_splits)
  obtain e args where e: "e \<in> set (ce_entries env)" "p = parseAgainstCommand e args"
    using p(1) by (rule parseSlashLine_cases)
  obtain m where m: "(se_pluginName e, m) \<in> set manifests" "se_command e \<in> set (or_else (mf_slash_commands m) [])"
    using e(1) collected_declared by (fastforce simp: assms(1) composer_inputs_def)
  have "pl_pluginName p = se_pluginName e" "pl_name p = sl_name (se_command e)"
    by (simp_all add: e(2) parseAgainstCommand_def Let_def case_prod_beta)
  moreover have "typed_values (declared_options (se_command e)) (pl_options p)"
      "required_bound (declared_options (se_command e)) (pl_options p)"
    using against_typed against_required p(2) e(2) by auto
  ultimately show ?thesis using p(3,4) m
    by (intro disjI1 exI [of _ "se_pluginName e"] exI [of _ "se_command e"] exI [of _ m] exI [of _ "pl_options p"]) simp
qed

theorem submit_reaches_declared_command_witness:
  "let manifests = [(''dice'', \<lparr>mf_schema_version = None, mf_slash_commands = Some [se_command example_entry],
                       mf_capabilities = Some [SlashCommands], mf_settings_panels = None\<rparr>)];
       env = composer_inputs (\<lambda>a b. 0) (\<lambda>s t. None) manifests [] (Some 3) None [];
       c = example_composer\<lparr>cp_draft := ''/roll 20''\<rparr>
   in snd (handleSendIntercept env c) = Interaction ''dice'' ''roll'' [(''sides'', VNumber 20)] (Some 3) \<and>
      cp_draft (fst (handleSendIntercept env c)) = []"
proof -
  let ?manifests = "[(''dice'', \<lparr>mf_schema_version = None, mf_slash_commands = Some [se_command example_entry],
                       mf_capabilities = Some [SlashCommands], mf_settings_panels = None\<rparr>)]"
  let ?env = "composer_inputs (\<lambda>a b. 0) (\<lambda>s t. None) ?manifests [] (Some 3) None []"
  let ?c = "example_composer\<lparr>cp_draft := ''/roll 20''\<rparr>"
  have out: "snd (handleSendIntercept ?env ?c) = Interaction ''dice'' ''roll'' [(''sides'', VNumber 20)] (Some 3)" by code_simp
  have "handleSendIntercept ?env ?c = (fst (handleSendIntercept ?env ?c), snd (handleSendIntercept ?env ?c))"
    by (rule surjective_pairing)
  from submit_reaches_declared_command [OF refl this] have "cp_draft (fst (handleSendIntercept ?env ?c)) = []"
    unfolding out by blast
  then show ?thesis using out by (simp add: Let_def)
qed

text \<open>A command with a missing or ill-typed argument is posted to the channel as a chat message.\<close>

lemma rejected_command_posted:
  "snd (handleSendIntercept example_env (example_composer\<lparr>cp_draft := ''/roll many''\<rparr>)) = PostDraft ''/roll many''"
  by code_simp

end
