(* ===== verification/Offload.thy ===== *)
theory Offload
  imports JsText
begin

text \<open>
  Heavy message bodies are swapped out while they are off screen: \<open>messageOffload.ts\<close> and its two
  callers, the intersection observer of \<open>components/chat/useChatScroll.ts\<close> and the lightbox
  \<open>components/elements/Lightbox.tsx\<close>.

  The manager is an explicit state with its armed timers and the provider calls that have not
  returned; each event of the single thread (a timer, a returned call, an observer callback) is one
  step, which also yields the calls it makes.  What a provider returns is an argument of the step.
  The state keeps its timers and its pending map consistent and marks nothing as loading without a
  call under way (\<open>offload_consistent\<close>); a body counts as restored only when it was handed over
  (\<open>offloaded_until_delivered\<close>); placeholders can be read back (\<open>placeholder_roundtrip\<close>).
\<close>

section \<open>Placeholders\<close>

definition OFFLOAD_PREFIX :: string where
  "OFFLOAD_PREFIX = ''<!-- OFFLOADED:''"

definition OFFLOAD_SUFFIX :: string where
  "OFFLOAD_SUFFIX = '' -->''"

definition HEAVY_THRESHOLD :: nat where
  "HEAVY_THRESHOLD = 4096"

text \<open>The pattern for an embedded source is a choice of two literals.\<close>

definition has_data_url :: "string \<Rightarrow> bool" where
  "has_data_url body \<longleftrightarrow>
     includes_str body (''src='' @ CHR 0x22 # ''data:image/'') \<or> includes_str body (''src='' @ CHR 0x22 # ''data:video/'')"

definition isHeavyContent :: "string \<Rightarrow> bool" where
  "isHeavyContent body \<longleftrightarrow> HEAVY_THRESHOLD < length body \<and> has_data_url body"

definition isOffloaded :: "string \<Rightarrow> bool" where
  "isOffloaded body \<longleftrightarrow> starts_with body OFFLOAD_PREFIX"

definition offloadPlaceholder :: "string \<Rightarrow> nat \<Rightarrow> string" where
  "offloadPlaceholder messageId contentLength =
     OFFLOAD_PREFIX @ messageId @ '':'' @ show_nat contentLength @ OFFLOAD_SUFFIX"

text \<open>\<open>parseInt(...) || 0\<close>: what is not a number becomes zero; \<open>None\<close> is an infinite length.\<close>

definition int_or_zero :: "string \<Rightarrow> int option" where
  "int_or_zero s =
     (case parse_int s of
        Some n \<Rightarrow> Some n
      | None \<Rightarrow> if takeWhile is_digit (snd (parse_sign (trim_start s))) = [] then Some 0 else None)"

definition extractOffloadInfo :: "string \<Rightarrow> (string \<times> int option) option" where
  "extractOffloadInfo body =
     (if \<not> starts_with body OFFLOAD_PREFIX then None
      else case index_str OFFLOAD_SUFFIX (drop (length OFFLOAD_PREFIX) body) of
             None \<Rightarrow> None
           | Some stop \<Rightarrow>
               (let inner = take stop (drop (length OFFLOAD_PREFIX) body)
                in case last_index (CHR '':'') inner of
                     None \<Rightarrow> Some (inner, Some 0)
                   | Some colonIdx \<Rightarrow> Some (take colonIdx inner, int_or_zero (drop (colonIdx + 1) inner))))"

section \<open>The manager\<close>

datatype scope_kind = ChannelScope | DmScope

record message_scope =
  sc_scope :: scope_kind
  sc_scopeId :: string

text \<open>Who waits for a batch: the observer, or the lightbox for one medium of one message.\<close>

datatype restore_caller = ForObserver | ForLightbox string nat

datatype offload_task =
    StoreTask string message_scope
  | RestoreTask string message_scope
  | RestoreManyTask "string list" message_scope restore_caller

record offload_world =
  ow_offloaded :: "string jset"
  ow_loading :: "string jset"
  ow_pendingOffloads :: "(string, nat) jmap"
  ow_timers :: "(nat, string \<times> message_scope) jmap"   \<comment> \<open>armed by \<open>setTimeout\<close>\<close>
  ow_tasks :: "(nat, offload_task) jmap"                 \<comment> \<open>provider calls under way\<close>
  ow_next :: nat                                         \<comment> \<open>next handle\<close>
  ow_restoringKeys :: "string jset"                      \<comment> \<open>state of \<open>useChatScroll\<close>\<close>

definition offload_initial :: offload_world where
  "offload_initial = \<lparr>ow_offloaded = [], ow_loading = [], ow_pendingOffloads = [], ow_timers = [], ow_tasks = [],
     ow_next = 0, ow_restoringKeys = []\<rparr>"

datatype offload_effect =
    CallStore string message_scope
  | CallRetrieve string message_scope
  | CallRetrieveMany "string list" message_scope
  | CallDispose
  | Refresh message_scope                    \<comment> \<open>\<open>refreshForScope\<close>\<close>
  | Delivered string string                  \<comment> \<open>a body handed to the caller\<close>
  | RestoreFailed string

type_synonym offload_result = "offload_world \<times> offload_effect list"

definition start_task :: "offload_task \<Rightarrow> offload_world \<Rightarrow> offload_world" where
  "start_task k w = w\<lparr>ow_tasks := map_set (ow_next w) k (ow_tasks w), ow_next := ow_next w + 1\<rparr>"

definition end_task :: "nat \<Rightarrow> offload_world \<Rightarrow> offload_world" where
  "end_task h w = w\<lparr>ow_tasks := map_del h (ow_tasks w)\<rparr>"

definition scheduleOffload :: "string \<Rightarrow> message_scope \<Rightarrow> offload_world \<Rightarrow> offload_world" where
  "scheduleOffload messageId ctx w =
     (if set_has (ow_offloaded w) messageId \<or> map_has (ow_pendingOffloads w) messageId then w
      else w\<lparr>ow_timers := map_set (ow_next w) (messageId, ctx) (ow_timers w),
             ow_pendingOffloads := map_set messageId (ow_next w) (ow_pendingOffloads w),
             ow_next := ow_next w + 1\<rparr>)"

text \<open>The body of the timer up to its \<open>await\<close>, and what follows the provider's answer.\<close>

definition offload_timer :: "nat \<Rightarrow> offload_world \<Rightarrow> offload_result" where
  "offload_timer t w =
     (case map_get (ow_timers w) t of
        None \<Rightarrow> (w, [])
      | Some (messageId, ctx) \<Rightarrow>
          (start_task (StoreTask messageId ctx)
             (w\<lparr>ow_timers := map_del t (ow_timers w),
                ow_pendingOffloads := map_del messageId (ow_pendingOffloads w)\<rparr>),
           [CallStore messageId ctx]))"

definition store_done :: "string \<Rightarrow> message_scope \<Rightarrow> bool \<Rightarrow> offload_world \<Rightarrow> offload_result" where
  "store_done messageId ctx stored w =
     (if stored then (w\<lparr>ow_offloaded := set_add messageId (ow_offloaded w)\<rparr>, [Refresh ctx]) else (w, []))"

definition cancelOffload :: "string \<Rightarrow> offload_world \<Rightarrow> offload_world" where
  "cancelOffload messageId w =
     (case map_get (ow_pendingOffloads w) messageId of
        None \<Rightarrow> w
      | Some timer \<Rightarrow> w\<lparr>ow_timers := map_del timer (ow_timers w),
                         ow_pendingOffloads := map_del messageId (ow_pendingOffloads w)\<rparr>)"

definition restore :: "string \<Rightarrow> message_scope \<Rightarrow> offload_world \<Rightarrow> offload_result" where
  "restore messageId ctx w =
     (if \<not> set_has (ow_offloaded w) messageId then (w, [RestoreFailed messageId])
      else (start_task (RestoreTask messageId ctx) (w\<lparr>ow_loading := set_add messageId (ow_loading w)\<rparr>),
            [CallRetrieve messageId ctx]))"

text \<open>The answer of \<open>retrieve\<close>: \<open>Inl\<close> a rejected promise, \<open>Inr None\<close> the value \<open>null\<close>.\<close>

definition restore_done :: "string \<Rightarrow> string + string option \<Rightarrow> offload_world \<Rightarrow> offload_result" where
  "restore_done messageId r w =
     (let w1 = (case r of Inl e \<Rightarrow> w | Inr body \<Rightarrow> w\<lparr>ow_offloaded := set_remove messageId (ow_offloaded w)\<rparr>)
      in (w1\<lparr>ow_loading := set_remove messageId (ow_loading w1)\<rparr>,
          [case r of Inr (Some body) \<Rightarrow> Delivered messageId body | _ \<Rightarrow> RestoreFailed messageId]))"

definition remove_all :: "'a list \<Rightarrow> 'a jset \<Rightarrow> 'a jset" where
  "remove_all xs s = foldl (\<lambda>s x. set_remove x s) s xs"

definition add_all :: "'a list \<Rightarrow> 'a jset \<Rightarrow> 'a jset" where
  "add_all xs s = foldl (\<lambda>s x. set_add x s) s xs"

definition to_restore :: "string list \<Rightarrow> offload_world \<Rightarrow> string list" where
  "to_restore messageIds w = filter (\<lambda>i. set_has (ow_offloaded w) i \<and> \<not> set_has (ow_loading w) i) messageIds"

text \<open>What the caller of a batch does with the bodies it gets.\<close>

definition handleRestored :: "message_scope \<Rightarrow> string list \<Rightarrow> offload_world \<Rightarrow> offload_result" where
  "handleRestored ctx restoredIds w =
     (w\<lparr>ow_restoringKeys := remove_all restoredIds (ow_restoringKeys w)\<rparr>,
      if restoredIds \<noteq> [] then [Refresh ctx] else [])"

definition lightbox_loaded :: "string \<Rightarrow> (string, string) jmap \<Rightarrow> offload_effect list" where
  "lightbox_loaded messageId results =
     (case map_get results messageId of
        Some body \<Rightarrow> if body = [] then [RestoreFailed messageId] else [Delivered messageId body]
      | None \<Rightarrow> [RestoreFailed messageId])"

definition resume_caller :: "restore_caller \<Rightarrow> message_scope \<Rightarrow> (string, string) jmap \<Rightarrow> offload_world \<Rightarrow> offload_result" where
  "resume_caller caller ctx results w =
     (case caller of
        ForObserver \<Rightarrow>
          (let (w1, es) = handleRestored ctx (map_keys results) w
           in (w1, map (\<lambda>(i, b). Delivered i b) results @ es))
      | ForLightbox messageId mediaIndex \<Rightarrow> (w, lightbox_loaded messageId results))"

definition restoreMany :: "string list \<Rightarrow> message_scope \<Rightarrow> restore_caller \<Rightarrow> offload_world \<Rightarrow> offload_result" where
  "restoreMany messageIds ctx caller w =
     (let ids = to_restore messageIds w
      in if ids = [] then resume_caller caller ctx [] w
         else (start_task (RestoreManyTask ids ctx caller) (w\<lparr>ow_loading := add_all ids (ow_loading w)\<rparr>),
               [CallRetrieveMany ids ctx]))"

text \<open>
  The operator \<open>in\<close> also finds the properties an object literal inherits.
\<close>

definition inherited_names :: "string list" where
  "inherited_names = [''constructor'', ''__defineGetter__'', ''__defineSetter__'', ''hasOwnProperty'', ''__lookupGetter__'',
     ''__lookupSetter__'', ''isPrototypeOf'', ''propertyIsEnumerable'', ''toString'', ''valueOf'', ''__proto__'', ''toLocaleString'']"

definition in_object :: "string \<Rightarrow> (string, 'v) jmap \<Rightarrow> bool" where
  "in_object k m \<longleftrightarrow> map_has m k \<or> k \<in> set inherited_names"

definition restoreMany_done ::
  "string list \<Rightarrow> message_scope \<Rightarrow> restore_caller \<Rightarrow> string + (string, string) jmap \<Rightarrow> offload_world \<Rightarrow> offload_result" where
  "restoreMany_done ids ctx caller r w =
     (let results = (case r of Inl e \<Rightarrow> [] | Inr m \<Rightarrow> m);
          w1 = (case r of Inl e \<Rightarrow> w
                | Inr m \<Rightarrow> w\<lparr>ow_offloaded := remove_all (filter (\<lambda>i. in_object i m) ids) (ow_offloaded w)\<rparr>)
      in resume_caller caller ctx results (w1\<lparr>ow_loading := remove_all ids (ow_loading w1)\<rparr>))"

definition dispose :: "offload_world \<Rightarrow> offload_result" where
  "dispose w =
     (w\<lparr>ow_timers := foldl (\<lambda>ts t. map_del t ts) (ow_timers w) (map_values (ow_pendingOffloads w)),
        ow_pendingOffloads := [], ow_offloaded := [], ow_loading := []\<rparr>, [CallDispose])"

section \<open>The local provider\<close>

text \<open>Its retrievals turn a failed command into \<open>null\<close> or the empty object.\<close>

definition local_retrieve :: "string + string \<Rightarrow> string + string option" where
  "local_retrieve r = (case r of Inl e \<Rightarrow> Inr None | Inr body \<Rightarrow> Inr (Some body))"

definition local_retrieveMany :: "string + (string, string) jmap \<Rightarrow> string + (string, string) jmap" where
  "local_retrieveMany r = (case r of Inl e \<Rightarrow> Inr [] | Inr m \<Rightarrow> Inr m)"

section \<open>The callers\<close>

record observer_entry =
  oe_msgId :: "string option"
  oe_isIntersecting :: bool
  oe_heavy :: bool

definition observe_entry :: "message_scope \<Rightarrow> offload_world \<times> string list \<Rightarrow> observer_entry \<Rightarrow> offload_world \<times> string list" where
  "observe_entry ctx acc entry =
     (let (w, toRestore) = acc
      in case oe_msgId entry of
           None \<Rightarrow> acc
         | Some msgId \<Rightarrow>
             (if msgId = [] then acc
              else if oe_isIntersecting entry
              then (let w1 = cancelOffload msgId w
                    in (w1, if set_has (ow_offloaded w1) msgId then toRestore @ [msgId] else toRestore))
              else if oe_heavy entry then (scheduleOffload msgId ctx w, toRestore)
              else acc))"

definition observer_callback :: "message_scope option \<Rightarrow> observer_entry list \<Rightarrow> offload_world \<Rightarrow> offload_result" where
  "observer_callback sc entries w =
     (case sc of
        None \<Rightarrow> (w, [])
      | Some ctx \<Rightarrow>
          (let (w1, toRestore) = foldl (observe_entry ctx) (w, []) entries
           in if toRestore = [] then (w1, [])
              else restoreMany toRestore ctx ForObserver
                     (w1\<lparr>ow_restoringKeys := add_all toRestore (ow_restoringKeys w1)\<rparr>)))"

definition handleLoadOffloaded :: "message_scope option \<Rightarrow> string \<Rightarrow> nat \<Rightarrow> offload_world \<Rightarrow> offload_result" where
  "handleLoadOffloaded sc messageId mediaIndex w =
     (case sc of
        None \<Rightarrow> (w, [RestoreFailed messageId])
      | Some ctx \<Rightarrow> restoreMany [messageId] ctx (ForLightbox messageId mediaIndex) w)"

section \<open>Events\<close>

text \<open>\<open>Answered\<close> carries the answer of the provider to one call: to a store, a retrieval, a batch.\<close>

datatype offload_answer =
    Stored bool
  | Retrieved "string + string option"
  | RetrievedMany "string + (string, string) jmap"

datatype offload_event =
    Observed "message_scope option" "observer_entry list"
  | LightboxNeeds "message_scope option" string nat
  | RestoreCalled string message_scope
  | TimerFires nat
  | Answered nat offload_answer
  | Disposed

definition answer :: "offload_task \<Rightarrow> offload_answer \<Rightarrow> offload_world \<Rightarrow> offload_result" where
  "answer k a w =
     (case (k, a) of
        (StoreTask i ctx, Stored b) \<Rightarrow> store_done i ctx b w
      | (RestoreTask i ctx, Retrieved r) \<Rightarrow> restore_done i r w
      | (RestoreManyTask ids ctx caller, RetrievedMany r) \<Rightarrow> restoreMany_done ids ctx caller r w
      | _ \<Rightarrow> (w, []))"

definition fits :: "offload_task \<Rightarrow> offload_answer \<Rightarrow> bool" where
  "fits k a \<longleftrightarrow> (case (k, a) of (StoreTask i ctx, Stored b) \<Rightarrow> True | (RestoreTask i ctx, Retrieved r) \<Rightarrow> True
     | (RestoreManyTask ids ctx caller, RetrievedMany r) \<Rightarrow> True | _ \<Rightarrow> False)"

fun offload_step :: "offload_world \<Rightarrow> offload_event \<Rightarrow> offload_result" where
  "offload_step w (Observed sc entries) = observer_callback sc entries w"
| "offload_step w (LightboxNeeds sc i n) = handleLoadOffloaded sc i n w"
| "offload_step w (RestoreCalled i ctx) = restore i ctx w"
| "offload_step w (TimerFires t) = offload_timer t w"
| "offload_step w (Answered h a) =
     (case map_get (ow_tasks w) h of
        None \<Rightarrow> (w, [])
      | Some k \<Rightarrow> if fits k a then answer k a (end_task h w) else (w, []))"
| "offload_step w Disposed = dispose w"

section \<open>Reading placeholders back\<close>

lemma index_str_before:
  "index_str p (a @ s) = map_option ((+) (length a)) (index_str p s)"
  if "\<And>i. i < length a \<Longrightarrow> \<not> prefix p (drop i (a @ s))"
  using that
proof (induction a)
  case Nil
  then show ?case by (simp add: option.map_id0 [unfolded id_def])
next
  case (Cons c a)
  have "\<not> prefix p (drop i (a @ s))" if "i < length a" for i
    using Cons.prems [of "Suc i"] that by simp
  with Cons.IH Cons.prems [of 0] show ?case by (simp add: option.map_comp o_def)
qed

text \<open>The suffix has no colon, so an occurrence that starts in the key lies in the key.\<close>

lemma suffix_in_key:
  assumes "prefix OFFLOAD_SUFFIX (drop i (key @ '':'' @ s))" "i < length key"
  shows "sublist OFFLOAD_SUFFIX key"
proof -
  have d: "drop i (key @ '':'' @ s) = drop i key @ '':'' @ s" using assms(2) by simp
  have "prefix OFFLOAD_SUFFIX (drop i key)"
  proof (rule ccontr)
    assume "\<not> prefix OFFLOAD_SUFFIX (drop i key)"
    then have "length (drop i key) < length OFFLOAD_SUFFIX"
      using assms(1) unfolding d by (meson not_less prefixI prefix_length_prefix)
    then have "(drop i key @ '':'' @ s) ! length (drop i key) = OFFLOAD_SUFFIX ! length (drop i key)"
      using assms(1) unfolding d by (metis nth_append prefixE)
    then have "CHR '':'' \<in> set OFFLOAD_SUFFIX"
      using \<open>length (drop i key) < length OFFLOAD_SUFFIX\<close> by (simp add: nth_append)
    then show False by (simp add: OFFLOAD_SUFFIX_def)
  qed
  then show ?thesis by (meson prefix_imp_sublist sublist_drop sublist_order.dual_order.trans)
qed

text \<open>
  The placeholder of a body names its message and its length: reading it gives both back, for every
  message id that does not itself contain the end mark, whatever else it contains.
\<close>

theorem placeholder_roundtrip:
  assumes "\<not> sublist OFFLOAD_SUFFIX messageId" "int n \<le> MAX_EXACT"
  shows "extractOffloadInfo (offloadPlaceholder messageId n) = Some (messageId, Some (int n))"
proof -
  let ?inner = "messageId @ '':'' @ show_nat n"
  have digits: "\<forall>c \<in> set (show_nat n). c \<noteq> CHR '' '' \<and> c \<noteq> CHR '':''"
  proof
    fix c
    assume "c \<in> set (show_nat n)"
    then show "c \<noteq> CHR '' '' \<and> c \<noteq> CHR '':''" using show_nat_digits [of c n] by (auto simp: is_digit_def)
  qed
  have "index_str OFFLOAD_SUFFIX ('':'' @ show_nat n @ OFFLOAD_SUFFIX) = Some (length ('':'' @ show_nat n))"
    using index_str_skip [of "'':'' @ show_nat n" OFFLOAD_SUFFIX OFFLOAD_SUFFIX] index_str_here [of OFFLOAD_SUFFIX "[]"] digits
    by (simp add: OFFLOAD_SUFFIX_def)
  then have "index_str OFFLOAD_SUFFIX (?inner @ OFFLOAD_SUFFIX) = Some (length ?inner)"
    using index_str_before [of messageId OFFLOAD_SUFFIX "'':'' @ show_nat n @ OFFLOAD_SUFFIX"]
      suffix_in_key [of _ messageId "show_nat n @ OFFLOAD_SUFFIX"] assms(1) by fastforce
  moreover have "last_index (CHR '':'') ?inner = Some (length messageId)"
    using last_index_append [of "CHR '':''" "show_nat n" messageId] digits by auto
  moreover have "int_or_zero (show_nat n) = Some (int n)"
    using parse_int_show_nat [of n "[]"] assms(2) by (simp add: int_or_zero_def)
  ultimately show ?thesis
    by (simp add: extractOffloadInfo_def offloadPlaceholder_def starts_with_def)
qed

theorem placeholder_roundtrip_witness:
  "extractOffloadInfo (offloadPlaceholder ''a:b'' 5000) = Some (''a:b'', Some 5000)"
proof -
  have "\<not> sublist OFFLOAD_SUFFIX ''a:b''" by code_simp
  then show ?thesis using placeholder_roundtrip [of "''a:b''" 5000] by (simp add: MAX_EXACT_def)
qed


section \<open>Timers and calls\<close>

fun task_ids :: "offload_task \<Rightarrow> string list" where
  "task_ids (StoreTask i ctx) = []"
| "task_ids (RestoreTask i ctx) = [i]"
| "task_ids (RestoreManyTask ids ctx caller) = ids"

definition awaited :: "offload_world \<Rightarrow> string set" where
  "awaited w = {i. \<exists>h k. map_get (ow_tasks w) h = Some k \<and> i \<in> set (task_ids k)}"

definition timers_exact :: "offload_world \<Rightarrow> bool" where
  "timers_exact w \<longleftrightarrow>
     (\<forall>i t. map_get (ow_pendingOffloads w) i = Some t \<longleftrightarrow> (\<exists>ctx. map_get (ow_timers w) t = Some (i, ctx)))"

definition handles_old :: "offload_world \<Rightarrow> bool" where
  "handles_old w \<longleftrightarrow> (\<forall>h. map_has (ow_timers w) h \<or> map_has (ow_tasks w) h \<longrightarrow> h < ow_next w)"

definition offload_inv :: "offload_world \<Rightarrow> bool" where
  "offload_inv w \<longleftrightarrow> timers_exact w \<and> handles_old w \<and> set (ow_loading w) \<subseteq> awaited w"

lemma set_add_all [simp]: "set (add_all xs s) = set s \<union> set xs"
  by (simp add: add_all_def foldl_set_add)

lemma set_remove_all [simp]: "set (remove_all xs s) = set s - set xs"
  unfolding remove_all_def by (induction xs arbitrary: s) auto

lemma resume_caller_state [simp]:
  "ow_offloaded (fst (resume_caller cl ctx m w)) = ow_offloaded w"
  "ow_loading (fst (resume_caller cl ctx m w)) = ow_loading w"
  "ow_pendingOffloads (fst (resume_caller cl ctx m w)) = ow_pendingOffloads w"
  "ow_timers (fst (resume_caller cl ctx m w)) = ow_timers w"
  "ow_tasks (fst (resume_caller cl ctx m w)) = ow_tasks w"
  "ow_next (fst (resume_caller cl ctx m w)) = ow_next w"
  by (simp_all add: resume_caller_def handleRestored_def split: restore_caller.split)

lemmas offload_defs = offload_inv_def timers_exact_def handles_old_def awaited_def map_has_def

lemma inv_start_task:
  assumes "timers_exact w" "handles_old w" "set (ow_loading w) \<subseteq> awaited w \<union> set (task_ids k)"
  shows "offload_inv (start_task k w)"
proof -
  have "map_get (ow_tasks w) (ow_next w) = None"
    using assms(2) by (force simp: handles_old_def map_has_def)
  then have "awaited (start_task k w) = awaited w \<union> set (task_ids k)"
    by (auto simp: awaited_def start_task_def) (metis option.distinct(1))
  then show ?thesis
    using assms by (auto simp: offload_inv_def timers_exact_def handles_old_def start_task_def map_has_def less_Suc_eq)
qed

lemma inv_same:
  "offload_inv w \<Longrightarrow> ow_loading w' = ow_loading w \<Longrightarrow> ow_pendingOffloads w' = ow_pendingOffloads w \<Longrightarrow>
   ow_timers w' = ow_timers w \<Longrightarrow> ow_tasks w' = ow_tasks w \<Longrightarrow> ow_next w' = ow_next w \<Longrightarrow> offload_inv w'"
  by (simp add: offload_defs)

lemma inv_scheduleOffload:
  assumes "offload_inv w"
  shows "offload_inv (scheduleOffload i ctx w)"
proof -
  have "map_get (ow_timers w) (ow_next w) = None"
    using assms by (force simp: offload_defs)
  then show ?thesis
    using assms by (auto simp: scheduleOffload_def offload_defs less_Suc_eq split: if_splits)
qed

abbreviation drop_timer :: "nat \<Rightarrow> string \<Rightarrow> offload_world \<Rightarrow> offload_world" where
  "drop_timer t i w \<equiv> w\<lparr>ow_timers := map_del t (ow_timers w), ow_pendingOffloads := map_del i (ow_pendingOffloads w)\<rparr>"

lemma timers_unique:
  assumes "timers_exact w" "map_get (ow_timers w) t = Some (i, ctx)" "map_get (ow_timers w) t' = Some (i, ctx')"
  shows "t' = t"
proof -
  have "map_get (ow_pendingOffloads w) i = Some t" "map_get (ow_pendingOffloads w) i = Some t'"
    using assms unfolding timers_exact_def by blast+
  then show ?thesis by simp
qed

lemma inv_drop_timer:
  assumes "offload_inv w" "map_get (ow_timers w) t = Some (i, ctx)"
  shows "offload_inv (drop_timer t i w)"
proof -
  have "map_get (ow_timers w) t' \<noteq> Some (i, c)" if "t' \<noteq> t" for t' c
    using timers_unique [OF _ assms(2)] assms(1) that by (auto simp: offload_inv_def)
  then have "timers_exact (drop_timer t i w)"
    using assms by (auto simp: offload_inv_def timers_exact_def)
  then show ?thesis using assms by (auto simp: offload_inv_def handles_old_def awaited_def map_has_def)
qed

lemma inv_cancelOffload:
  assumes "offload_inv w"
  shows "offload_inv (cancelOffload i w)"
proof (cases "map_get (ow_pendingOffloads w) i")
  case (Some t)
  then obtain ctx where "map_get (ow_timers w) t = Some (i, ctx)"
    using assms by (auto simp: offload_inv_def timers_exact_def)
  then show ?thesis using inv_drop_timer [OF assms] Some by (simp add: cancelOffload_def)
qed (simp add: cancelOffload_def assms)

lemma inv_offload_timer:
  assumes "offload_inv w"
  shows "offload_inv (fst (offload_timer t w))"
proof (cases "map_get (ow_timers w) t")
  case (Some r)
  obtain i ctx where r: "r = (i, ctx)" by (cases r)
  then show ?thesis
    using inv_start_task [of "drop_timer t i w" "StoreTask i ctx"] inv_drop_timer [OF assms, of t i ctx] Some
    by (simp add: offload_timer_def offload_inv_def)
qed (simp add: offload_timer_def assms)

lemma inv_restoreMany:
  assumes "offload_inv w"
  shows "offload_inv (fst (restoreMany ids ctx caller w))"
proof (cases "to_restore ids w = []")
  case True
  then show ?thesis using assms by (simp add: restoreMany_def inv_same)
next
  case False
  let ?ids = "to_restore ids w" and ?w = "w\<lparr>ow_loading := add_all (to_restore ids w) (ow_loading w)\<rparr>"
  have "offload_inv (start_task (RestoreManyTask ?ids ctx caller) ?w)"
    by (rule inv_start_task) (use assms in \<open>auto simp: offload_defs\<close>)
  then show ?thesis using False by (simp add: restoreMany_def Let_def)
qed

lemma inv_restore:
  assumes "offload_inv w"
  shows "offload_inv (fst (restore i ctx w))"
proof (cases "set_has (ow_offloaded w) i")
  case True
  have "offload_inv (start_task (RestoreTask i ctx) (w\<lparr>ow_loading := set_add i (ow_loading w)\<rparr>))"
    by (rule inv_start_task) (use assms in \<open>auto simp: offload_defs\<close>)
  then show ?thesis using True by (simp add: restore_def)
qed (simp add: restore_def assms)

text \<open>When a call returns, its messages stop loading; the others are awaited by the calls left.\<close>

lemma inv_answer:
  assumes "offload_inv w" "map_get (ow_tasks w) h = Some k" "fits k a"
  shows "offload_inv (fst (answer k a (end_task h w)))"
proof -
  let ?w = "end_task h w" and ?w' = "fst (answer k a (end_task h w))"
  have rest: "awaited w \<subseteq> awaited ?w \<union> set (task_ids k)"
  proof
    fix i
    assume "i \<in> awaited w"
    then obtain h' k' where "map_get (ow_tasks w) h' = Some k'" "i \<in> set (task_ids k')" by (auto simp: awaited_def)
    then show "i \<in> awaited ?w \<union> set (task_ids k)"
      using assms(2) by (cases "h' = h") (auto simp: awaited_def end_task_def intro: exI [of _ h'])
  qed
  have load: "set (ow_loading ?w') = set (ow_loading w) - set (task_ids k)"
    using assms(3) by (auto simp: fits_def answer_def end_task_def store_done_def restore_done_def restoreMany_done_def Let_def
        split: offload_task.splits offload_answer.splits sum.splits)
  have same: "ow_pendingOffloads ?w' = ow_pendingOffloads w" "ow_timers ?w' = ow_timers w"
      "ow_tasks ?w' = ow_tasks ?w" "ow_next ?w' = ow_next w"
    by (auto simp: answer_def end_task_def store_done_def restore_done_def restoreMany_done_def Let_def
        split: offload_task.splits offload_answer.splits sum.splits)
  have "handles_old ?w'" "timers_exact ?w'"
    using assms(1) same by (auto simp: offload_inv_def handles_old_def timers_exact_def map_has_def end_task_def)
  moreover have "awaited ?w' = awaited ?w" using same(3) by (simp add: awaited_def)
  ultimately show ?thesis using assms(1) rest load by (auto simp: offload_inv_def)
qed


lemma get_del_all: "map_get (foldl (\<lambda>ts t. map_del t ts) m ks) h = (if h \<in> set ks then None else map_get m h)"
  by (induction ks arbitrary: m) auto

lemma inv_dispose:
  assumes "offload_inv w"
  shows "offload_inv (fst (dispose w))"
proof -
  have "map_get (foldl (\<lambda>ts t. map_del t ts) (ow_timers w) (map_values (ow_pendingOffloads w))) t = None" for t
  proof (cases "map_get (ow_timers w) t")
    case (Some r)
    then have "map_get (ow_pendingOffloads w) (fst r) = Some t"
      using assms unfolding offload_inv_def timers_exact_def by (metis prod.collapse)
    then have "(fst r, t) \<in> set (ow_pendingOffloads w)" by (rule map_get_in_set)
    then have "t \<in> set (map_values (ow_pendingOffloads w))" by (force simp: map_values_def)
    then show ?thesis by (simp add: get_del_all)
  qed (simp add: get_del_all)
  then show ?thesis using assms by (auto simp: dispose_def offload_inv_def timers_exact_def handles_old_def map_has_def)
qed

lemma inv_observe:
  "offload_inv (fst acc) \<Longrightarrow> offload_inv (fst (observe_entry ctx acc entry))"
  by (auto simp: observe_entry_def Let_def inv_cancelOffload inv_scheduleOffload split: prod.splits option.splits)

lemma inv_observe_all:
  "offload_inv (fst acc) \<Longrightarrow> offload_inv (fst (foldl (observe_entry ctx) acc entries))"
proof (induction entries arbitrary: acc)
  case (Cons e entries)
  then show ?case using Cons.IH [OF inv_observe] by simp
qed simp

lemma inv_observer_callback:
  assumes "offload_inv w"
  shows "offload_inv (fst (observer_callback sc entries w))"
proof (cases sc)
  case (Some ctx)
  obtain w1 ids where fold: "foldl (observe_entry ctx) (w, []) entries = (w1, ids)" by fastforce
  have "offload_inv w1" using inv_observe_all [of "(w, [])" ctx entries] assms fold by simp
  then show ?thesis
    using Some fold inv_restoreMany [OF inv_same, of w1] by (simp add: observer_callback_def)
qed (simp add: observer_callback_def assms)

lemma inv_offload_step: "offload_inv w \<Longrightarrow> offload_inv (fst (offload_step w e))"
  by (cases e)
    (auto simp: handleLoadOffloaded_def inv_observer_callback inv_restoreMany inv_restore inv_offload_timer inv_answer inv_dispose
      split: option.splits)

interpretation offload: event_machine "\<lambda>w e. fst (offload_step w e)" offload_inv
  by unfold_locales (rule inv_offload_step)

lemma inv_initial: "offload_inv offload_initial"
  by (simp add: offload_initial_def offload_inv_def timers_exact_def handles_old_def map_has_def)

abbreviation offload_run :: "offload_event list \<Rightarrow> offload_world" where
  "offload_run es \<equiv> foldl (\<lambda>w e. fst (offload_step w e)) offload_initial es"

text \<open>
  Along every run the armed timers are exactly the pending offloads, one each, so that cancelling or
  disposing leaves no timer behind; and a message is marked as loading only while a call that will
  unmark it is under way, so that none keeps loading for ever.
\<close>

theorem offload_consistent:
  assumes "w = offload_run es"
  shows "(map_get (ow_pendingOffloads w) i = Some t \<longleftrightarrow> (\<exists>ctx. map_get (ow_timers w) t = Some (i, ctx))) \<and>
    (set_has (ow_loading w) i \<longrightarrow> (\<exists>h k. map_get (ow_tasks w) h = Some k \<and> i \<in> set (task_ids k)))"
proof -
  have "offload_inv w" unfolding assms by (rule offload.run_inv [OF inv_initial])
  then show ?thesis by (auto simp: offload_inv_def timers_exact_def awaited_def)
qed

definition example_scope :: message_scope where
  "example_scope = \<lparr>sc_scope = ChannelScope, sc_scopeId = ''3''\<rparr>"

definition entry :: "string \<Rightarrow> bool \<Rightarrow> observer_entry" where
  "entry i visible = \<lparr>oe_msgId = Some i, oe_isIntersecting = visible, oe_heavy = True\<rparr>"

definition swapped_out :: "offload_event list" where
  "swapped_out = [Observed (Some example_scope) [entry ''m'' False], TimerFires 0, Answered 1 (Stored True)]"

theorem offload_consistent_witness:
  "\<exists>h k. map_get (ow_tasks (offload_run (swapped_out @ [Observed (Some example_scope) [entry ''m'' True]]))) h = Some k \<and>
     ''m'' \<in> set (task_ids k)"
proof -
  have "set_has (ow_loading (offload_run (swapped_out @ [Observed (Some example_scope) [entry ''m'' True]]))) ''m''" by code_simp
  then show ?thesis using offload_consistent [OF refl, of _ "''m''"] by blast
qed


section \<open>Swapping out and back in\<close>

text \<open>An observer callback changes neither what is offloaded nor what is loading before it asks for a batch.\<close>

lemma observe_entry_sets:
  assumes "observe_entry ctx (w, ids) e = (w1, ids1)"
  shows "ow_offloaded w1 = ow_offloaded w" "ow_loading w1 = ow_loading w"
    "\<exists>new. ids1 = ids @ new \<and>
       (oe_isIntersecting e \<and> oe_msgId e = Some i \<and> i \<noteq> [] \<and> i \<in> set (ow_offloaded w) \<longrightarrow> i \<in> set new)"
proof -
  have c: "ow_offloaded (cancelOffload i w) = ow_offloaded w" "ow_loading (cancelOffload i w) = ow_loading w" for i
    by (auto simp: cancelOffload_def split: option.splits)
  have s: "ow_offloaded (scheduleOffload i ctx w) = ow_offloaded w" "ow_loading (scheduleOffload i ctx w) = ow_loading w" for i
    by (simp_all add: scheduleOffload_def)
  show "ow_offloaded w1 = ow_offloaded w" "ow_loading w1 = ow_loading w"
    using assms c s by (auto simp: observe_entry_def Let_def split: option.splits if_splits)
  show "\<exists>new. ids1 = ids @ new \<and>
      (oe_isIntersecting e \<and> oe_msgId e = Some i \<and> i \<noteq> [] \<and> i \<in> set (ow_offloaded w) \<longrightarrow> i \<in> set new)"
    using assms c by (auto simp: observe_entry_def Let_def split: option.splits if_splits)
qed

lemma observe_all_sets:
  assumes "foldl (observe_entry ctx) (w, ids) entries = (w1, ids1)"
  shows "ow_offloaded w1 = ow_offloaded w \<and> ow_loading w1 = ow_loading w \<and> set ids \<subseteq> set ids1 \<and>
    ((\<exists>e \<in> set entries. oe_isIntersecting e \<and> oe_msgId e = Some i) \<and> i \<noteq> [] \<and> i \<in> set (ow_offloaded w) \<longrightarrow> i \<in> set ids1)"
  using assms
proof (induction entries arbitrary: w ids)
  case (Cons e entries)
  obtain w2 ids2 where step: "observe_entry ctx (w, ids) e = (w2, ids2)" by fastforce
  note sets = observe_entry_sets [OF step]
  have "foldl (observe_entry ctx) (w2, ids2) entries = (w1, ids1)" using Cons.prems step by simp
  from Cons.IH [OF this] sets(1,2) sets(3) [of i] show ?case by auto
qed simp

lemma resume_restoring:
  "i \<in> fst ` set m \<Longrightarrow> i \<notin> set (ow_restoringKeys (fst (resume_caller ForObserver ctx m w)))"
  "i \<in> fst ` set m \<Longrightarrow> Refresh ctx \<in> set (snd (resume_caller ForObserver ctx m w))"
  "map_get m i = Some body \<Longrightarrow> Delivered i body \<in> set (snd (resume_caller ForObserver ctx m w))"
  by (auto simp: resume_caller_def handleRestored_def map_keys_def dest: map_get_in_set)

text \<open>
  A message that is swapped out and comes back into view is asked for at once, unless it is being
  loaded already; and as soon as the answer brings its body, the body is handed over, the message no
  longer counts as offloaded, loading or being restored, and the conversation is refreshed.
\<close>

theorem visible_message_comes_back:
  assumes "i \<in> set (ow_offloaded w)" "i \<notin> set (ow_loading w)" "i \<noteq> []"
    "e \<in> set entries" "oe_isIntersecting e" "oe_msgId e = Some i"
    "offload_step w (Observed (Some ctx) entries) = (w1, effs)"
    "map_get results i = Some body"
  shows "\<exists>ids h. effs = [CallRetrieveMany ids ctx] \<and> i \<in> set ids \<and>
    (case offload_step w1 (Answered h (RetrievedMany (Inr results))) of (w2, effs2) \<Rightarrow>
       i \<notin> set (ow_offloaded w2) \<and> i \<notin> set (ow_loading w2) \<and> i \<notin> set (ow_restoringKeys w2) \<and>
       Delivered i body \<in> set effs2 \<and> Refresh ctx \<in> set effs2)"
proof -
  obtain wf found where fold: "foldl (observe_entry ctx) (w, []) entries = (wf, found)" by fastforce
  from observe_all_sets [OF fold, of i] have wf: "ow_offloaded wf = ow_offloaded w" "ow_loading wf = ow_loading w" "i \<in> set found"
    using assms(1,3-6) by auto
  let ?wr = "wf\<lparr>ow_restoringKeys := add_all found (ow_restoringKeys wf)\<rparr>"
  let ?ids = "to_restore found ?wr"
  have ids: "i \<in> set ?ids" using wf assms(1,2) by (simp add: to_restore_def)
  then have start: "w1 = start_task (RestoreManyTask ?ids ctx ForObserver) (?wr\<lparr>ow_loading := add_all ?ids (ow_loading wf)\<rparr>)"
      "effs = [CallRetrieveMany ?ids ctx]"
    using assms(7) fold wf(3) by (auto simp: observer_callback_def restoreMany_def Let_def split: if_splits)
  let ?h = "ow_next wf"
  have task: "map_get (ow_tasks w1) ?h = Some (RestoreManyTask ?ids ctx ForObserver)"
    by (simp add: start(1) start_task_def)
  have key: "i \<in> fst ` set results" using assms(8) map_get_None_iff [of results i] by force
  then have "in_object i results" using assms(8) by (simp add: in_object_def map_has_def)
  let ?w' = "(end_task ?h w1)\<lparr>ow_offloaded := remove_all (filter (\<lambda>i. in_object i results) ?ids) (ow_offloaded (end_task ?h w1)),
       ow_loading := remove_all ?ids (ow_loading (end_task ?h w1))\<rparr>"
  have step: "offload_step w1 (Answered ?h (RetrievedMany (Inr results))) = resume_caller ForObserver ctx results ?w'"
    by (simp add: task fits_def answer_def restoreMany_done_def Let_def)
  have "i \<notin> set (ow_offloaded ?w')" "i \<notin> set (ow_loading ?w')"
    using ids \<open>in_object i results\<close> by auto
  then have "case offload_step w1 (Answered ?h (RetrievedMany (Inr results))) of (w2, effs2) \<Rightarrow>
      i \<notin> set (ow_offloaded w2) \<and> i \<notin> set (ow_loading w2) \<and> i \<notin> set (ow_restoringKeys w2) \<and>
      Delivered i body \<in> set effs2 \<and> Refresh ctx \<in> set effs2"
    using resume_restoring(1,2) [OF key, of ctx ?w'] resume_restoring(3) [OF assms(8), of ctx ?w']
    unfolding step by (simp add: case_prod_beta)
  with start(2) ids show ?thesis by (intro exI [of _ ?ids] exI [of _ ?h] conjI)
qed

theorem visible_message_comes_back_witness:
  "\<exists>ids h. snd (offload_step (offload_run swapped_out) (Observed (Some example_scope) [entry ''m'' True])) =
     [CallRetrieveMany ids example_scope] \<and> ''m'' \<in> set ids"
proof -
  let ?w = "offload_run swapped_out"
  have "''m'' \<in> set (ow_offloaded ?w)" "''m'' \<notin> set (ow_loading ?w)" by code_simp+
  moreover have "offload_step ?w (Observed (Some example_scope) [entry ''m'' True]) =
      (fst (offload_step ?w (Observed (Some example_scope) [entry ''m'' True])),
       snd (offload_step ?w (Observed (Some example_scope) [entry ''m'' True])))" by simp
  ultimately show ?thesis
    using visible_message_comes_back [of "''m''" ?w "entry ''m'' True" "[entry ''m'' True]" example_scope _ _ "[(''m'', ''body'')]" "''body''"]
    unfolding entry_def by fastforce
qed


section \<open>Cancelled offloads\<close>

text \<open>An event that does not see the message off screen arms no timer for it.\<close>

definition no_timer :: "string \<Rightarrow> offload_world \<Rightarrow> bool" where
  "no_timer i w \<longleftrightarrow> (\<forall>t ctx. map_get (ow_timers w) t \<noteq> Some (i, ctx))"

fun hides :: "string \<Rightarrow> offload_event \<Rightarrow> bool" where
  "hides i (Observed sc entries) = (\<exists>e \<in> set entries. oe_msgId e = Some i \<and> \<not> oe_isIntersecting e)"
| "hides i e = False"

lemma no_timer_observe:
  assumes "no_timer i (fst acc)" "\<not> (oe_msgId e = Some i \<and> \<not> oe_isIntersecting e)"
  shows "no_timer i (fst (observe_entry ctx acc e))"
  using assms
  by (auto simp: observe_entry_def no_timer_def Let_def cancelOffload_def scheduleOffload_def split: prod.splits option.splits)

lemma no_timer_observe_all:
  "no_timer i (fst acc) \<Longrightarrow> \<not> hides i (Observed sc entries) \<Longrightarrow> no_timer i (fst (foldl (observe_entry ctx) acc entries))"
proof (induction entries arbitrary: acc)
  case (Cons e entries)
  then have "no_timer i (fst (observe_entry ctx acc e))" by (intro no_timer_observe) auto
  with Cons show ?case by auto
qed simp

lemma restoreMany_timers [simp]: "ow_timers (fst (restoreMany ids ctx cl w)) = ow_timers w"
  by (simp add: restoreMany_def start_task_def Let_def)

lemma restoreMany_no_store: "CallStore i c \<notin> set (snd (restoreMany ids ctx cl w))"
  by (auto simp: restoreMany_def resume_caller_def handleRestored_def lightbox_loaded_def Let_def
      split: restore_caller.splits option.splits if_splits)

lemma answer_timers: "ow_timers (fst (answer k a w)) = ow_timers w" "CallStore i c \<notin> set (snd (answer k a w))"
  by (auto simp: answer_def store_done_def restore_done_def restoreMany_done_def resume_caller_def handleRestored_def lightbox_loaded_def
      Let_def split: offload_task.splits offload_answer.splits sum.splits restore_caller.splits option.splits if_splits)

lemma no_timer_step:
  assumes "no_timer i w" "\<not> hides i e"
  shows "no_timer i (fst (offload_step w e)) \<and> CallStore i c \<notin> set (snd (offload_step w e))"
proof (cases e)
  case (Observed sc entries)
  show ?thesis
  proof (cases sc)
    case (Some ctx)
    obtain w1 ids where fold: "foldl (observe_entry ctx) (w, []) entries = (w1, ids)" by fastforce
    have "no_timer i w1" using no_timer_observe_all [of i "(w, [])" sc entries ctx] assms Observed fold by simp
    then show ?thesis
      using Observed Some fold by (simp add: observer_callback_def no_timer_def restoreMany_no_store)
  qed (use Observed assms in \<open>simp add: observer_callback_def\<close>)
next
  case (TimerFires t)
  then show ?thesis
    using assms(1) by (auto simp: offload_timer_def no_timer_def start_task_def split: option.splits)
next
  case (Answered h a)
  then show ?thesis
    using assms(1) answer_timers by (auto simp: no_timer_def end_task_def split: option.splits)
qed (use assms(1) in \<open>auto simp: no_timer_def handleLoadOffloaded_def restoreMany_no_store restore_def start_task_def dispose_def
       get_del_all split: option.splits if_splits\<close>)

fun offload_effects :: "offload_world \<Rightarrow> offload_event list \<Rightarrow> offload_effect list" where
  "offload_effects w [] = []"
| "offload_effects w (e # es) = snd (offload_step w e) @ offload_effects (fst (offload_step w e)) es"

lemma no_timer_run:
  "no_timer i w \<Longrightarrow> \<forall>e \<in> set es. \<not> hides i e \<Longrightarrow> CallStore i c \<notin> set (offload_effects w es)"
  by (induction es arbitrary: w) (auto dest: no_timer_step)

lemma no_timer_cancel:
  assumes "timers_exact w"
  shows "no_timer i (cancelOffload i w)"
proof (cases "map_get (ow_pendingOffloads w) i")
  case None
  then show ?thesis using assms by (force simp: no_timer_def cancelOffload_def timers_exact_def)
next
  case (Some t)
  then obtain ctx where "map_get (ow_timers w) t = Some (i, ctx)" using assms unfolding timers_exact_def by blast
  then show ?thesis using timers_unique [OF assms] Some by (auto simp: no_timer_def cancelOffload_def)
qed

text \<open>
  A message that comes back into view before its delay has passed is not swapped out: from then on no
  store is requested for it until it is seen off screen again, whatever else happens.
\<close>

theorem cancelled_offload_never_fires:
  assumes "w = offload_run before" "\<forall>e \<in> set es. \<not> hides i e"
  shows "CallStore i ctx \<notin> set (offload_effects (cancelOffload i w) es)"
proof -
  have "offload_inv w" unfolding assms(1) by (rule offload.run_inv [OF inv_initial])
  then have "timers_exact w" by (simp add: offload_inv_def)
  then have "no_timer i (cancelOffload i w)"
    using no_timer_cancel by blast
  then show ?thesis by (rule no_timer_run [OF _ assms(2)])
qed

theorem cancelled_offload_never_fires_witness:
  "CallStore ''m'' example_scope \<notin>
     set (offload_effects (cancelOffload ''m'' (offload_run [Observed (Some example_scope) [entry ''m'' False]])) [TimerFires 0])"
  by (rule cancelled_offload_never_fires [OF refl]) simp

section \<open>Where it goes wrong\<close>

text \<open>
  The delay is over and the store is under way when the message comes back: cancelling finds no
  timer, restoring finds it not yet offloaded, and the answer then swaps out a message on screen.
\<close>

lemma visible_message_swapped_out:
  "let w = offload_run [Observed (Some example_scope) [entry ''m'' False], TimerFires 0];
       r = offload_step w (Observed (Some example_scope) [entry ''m'' True])
   in snd r = [] \<and> ''m'' \<in> set (ow_offloaded (fst (offload_step (fst r) (Answered 1 (Stored True)))))"
  by code_simp

text \<open>A failed batch leaves its messages marked as being restored although nothing restores them.\<close>

lemma failed_batch_keeps_restoring:
  "''m'' \<in> set (ow_restoringKeys (offload_run (swapped_out @ [Observed (Some example_scope) [entry ''m'' True],
     Answered 2 (RetrievedMany (local_retrieveMany (Inl ''no such file'')))])))"
  by code_simp

text \<open>A single restore that fails in the local provider forgets that the message is offloaded.\<close>

lemma failed_restore_forgets:
  "''m'' \<notin> set (ow_offloaded (offload_run (swapped_out @ [RestoreCalled ''m'' example_scope,
     Answered 2 (Retrieved (local_retrieve (Inl ''no such file'')))])))"
  by code_simp

text \<open>The lightbox takes a body out of the store without refreshing the conversation.\<close>

lemma lightbox_does_not_refresh:
  "let w = offload_run (swapped_out @ [LightboxNeeds (Some example_scope) ''m'' 0]);
       r = offload_step w (Answered 2 (RetrievedMany (Inr [(''m'', ''body'')])))
   in ''m'' \<notin> set (ow_offloaded (fst r)) \<and> snd r = [Delivered ''m'' ''body'']"
  by code_simp

end
