(* ===== verification/SafeHtml.thy ===== *)
theory SafeHtml
  imports JsText
begin

text \<open>
  What the client does to HTML and addresses it did not write: \<open>utils/sanitizeHtml.ts\<close>,
  \<open>utils/bioSanitize.ts\<close> and \<open>utils/safeUrl.ts\<close>.

  A document fragment is a forest of nodes.  The purifier that parses and filters the markup and the
  serialiser of the platform are parameters; the passes of the client over the fragment are modelled.
  For every fragment the result holds only embedded images, guarded web links and inline styles of
  the listed properties (\<open>rendered_html_safe\<close>), keeps the text (\<open>sanitising_keeps_text\<close>) and is not
  changed by another pass (\<open>sanitising_idempotent\<close>); an address that passes the check has one of
  the listed schemes whatever control characters were put into it (\<open>safe_link_scheme\<close>).
\<close>

section \<open>Fragments\<close>

type_synonym attributes = "(string, string) jmap"

datatype dom =
    TextNode string
  | CommentNode string
  | Element string attributes "dom list"

definition getAttribute :: "string \<Rightarrow> attributes \<Rightarrow> string" where
  "getAttribute k attrs = or_else (map_get attrs k) []"   \<comment> \<open>with the \<open>?? ""\<close> of every use\<close>

section \<open>Patterns\<close>

text \<open>A pattern anchored at the start and matched without regard to case.\<close>

definition starts_ci :: "string list \<Rightarrow> string \<Rightarrow> bool" where
  "starts_ci heads s \<longleftrightarrow> list_ex (\<lambda>p. starts_with (to_lower s) p) heads"

definition data_image_re :: "string list \<Rightarrow> string \<Rightarrow> bool" where
  "data_image_re kinds s = starts_ci (map (\<lambda>k. ''data:image/'' @ k @ '';base64,'') kinds) s"

definition DATA_IMAGE_RE :: "string \<Rightarrow> bool" where
  "DATA_IMAGE_RE = data_image_re [''png'', ''jpg'', ''jpeg'', ''gif'', ''webp'', ''avif'', ''svg+xml'']"

definition BIO_DATA_IMAGE_RE :: "string \<Rightarrow> bool" where
  "BIO_DATA_IMAGE_RE = data_image_re [''png'', ''jpg'', ''jpeg'', ''gif'', ''webp'', ''avif'']"

definition EXTERNAL_URL_RE :: "string \<Rightarrow> bool" where
  "EXTERNAL_URL_RE = starts_ci [''http://'', ''https://'']"

section \<open>Inline styles\<close>

definition SAFE_CSS_PROPS :: "string list" where
  "SAFE_CSS_PROPS = [
     ''color'', ''background-color'', ''background'',
     ''font-size'', ''font-weight'', ''font-style'', ''font-family'',
     ''text-decoration'', ''text-decoration-line'', ''text-decoration-color'',
     ''text-align'', ''text-transform'', ''text-indent'',
     ''line-height'', ''letter-spacing'', ''word-spacing'', ''word-break'',
     ''white-space'', ''vertical-align'',
     ''margin'', ''margin-top'', ''margin-right'', ''margin-bottom'', ''margin-left'',
     ''padding'', ''padding-top'', ''padding-right'', ''padding-bottom'', ''padding-left'',
     ''border'', ''border-color'', ''border-width'', ''border-style'',
     ''border-top'', ''border-right'', ''border-bottom'', ''border-left'',
     ''border-radius'', ''border-collapse'', ''border-spacing'',
     ''display'', ''list-style'', ''list-style-type'',
     ''width'', ''max-width'', ''min-width'',
     ''height'', ''max-height'', ''min-height'']"

text \<open>One alternative \<open>name\s*\(\<close> of the pattern, tried at every position of the lower-cased value.\<close>

definition call_here :: "string \<Rightarrow> string \<Rightarrow> bool" where
  "call_here name s \<longleftrightarrow> prefix name s \<and> prefix ''('' (trim_start (drop (length name) s))"

definition DANGEROUS_CSS_VALUE_RE :: "string \<Rightarrow> bool" where
  "DANGEROUS_CSS_VALUE_RE val =
     list_ex (\<lambda>s. call_here ''url'' s \<or> call_here ''expression'' s \<or> prefix ''javascript:'' s \<or> prefix ''@import'' s)
       (suffixes (to_lower val))"

fun split_on :: "char \<Rightarrow> string \<Rightarrow> string list" where
  "split_on c [] = [[]]"
| "split_on c (x # s) =
     (if x = c then [] # split_on c s
      else case split_on c s of [] \<Rightarrow> [[x]] | h # t \<Rightarrow> (x # h) # t)"

fun join_with :: "char \<Rightarrow> string list \<Rightarrow> string" where
  "join_with c [] = []"
| "join_with c [s] = s"
| "join_with c (s # t # r) = s @ c # join_with c (t # r)"

definition safe_declaration :: "string \<Rightarrow> bool" where
  "safe_declaration decl =
     (case index_of decl (CHR '':'') of
        None \<Rightarrow> False
      | Some colonIdx \<Rightarrow>
          to_lower (trim (take colonIdx decl)) \<in> set SAFE_CSS_PROPS \<and>
          \<not> DANGEROUS_CSS_VALUE_RE (drop (colonIdx + 1) decl))"

definition sanitiseStyle :: "string \<Rightarrow> string" where
  "sanitiseStyle value = join_with (CHR '';'') (filter safe_declaration (split_on (CHR '';'') value))"

section \<open>The passes\<close>

text \<open>
  Each loop runs over the list of matching elements taken before it starts; no loop adds elements,
  so it visits every matching element of the fragment once.  An element inside a removed image is
  removed with it.
\<close>

fun drop_images :: "(string \<Rightarrow> bool) \<Rightarrow> dom list \<Rightarrow> dom list" where
  "drop_images ok [] = []"
| "drop_images ok (Element n attrs ch # f) =
     (if n = ''img'' \<and> \<not> ok (getAttribute ''src'' attrs) then drop_images ok f
      else Element n attrs (drop_images ok ch) # drop_images ok f)"
| "drop_images ok (x # f) = x # drop_images ok f"

definition guard_link :: "attributes \<Rightarrow> attributes" where
  "guard_link attrs =
     map_set ''rel'' ''noopener noreferrer'' (map_set ''target'' ''_blank'' (map_set ''data-external'' ''true'' attrs))"

fun guard_anchors :: "dom list \<Rightarrow> dom list" where
  "guard_anchors [] = []"
| "guard_anchors (Element n attrs ch # f) =
     (if n = ''a'' then
        (if EXTERNAL_URL_RE (getAttribute ''href'' attrs)
         then Element n (guard_link attrs) (guard_anchors ch) # guard_anchors f
         else guard_anchors ch @ guard_anchors f)
      else Element n attrs (guard_anchors ch) # guard_anchors f)"
| "guard_anchors (x # f) = x # guard_anchors f"

definition clean_style :: "attributes \<Rightarrow> attributes" where
  "clean_style attrs =
     (case map_get attrs ''style'' of
        None \<Rightarrow> attrs
      | Some raw \<Rightarrow> (let safe = sanitiseStyle raw
                     in if safe \<noteq> [] then map_set ''style'' safe attrs else map_del ''style'' attrs))"

fun clean_styles :: "dom list \<Rightarrow> dom list" where
  "clean_styles [] = []"
| "clean_styles (Element n attrs ch # f) = Element n (clean_style attrs) (clean_styles ch) # clean_styles f"
| "clean_styles (x # f) = x # clean_styles f"

definition postProcess :: "dom list \<Rightarrow> dom list" where
  "postProcess fragment = clean_styles (guard_anchors (drop_images DATA_IMAGE_RE fragment))"

section \<open>Entry points\<close>

record purify_config =
  ALLOWED_TAGS :: "string list"
  ALLOWED_ATTR :: "string list"
  ALLOW_DATA_ATTR :: bool

definition PURIFY_CONFIG :: purify_config where
  "PURIFY_CONFIG = \<lparr>ALLOWED_TAGS = [
     ''b'', ''i'', ''u'', ''s'', ''em'', ''strong'', ''small'', ''sub'', ''sup'',
     ''del'', ''ins'', ''mark'', ''abbr'', ''code'', ''span'', ''font'',
     ''p'', ''br'', ''hr'', ''pre'', ''blockquote'',
     ''h1'', ''h2'', ''h3'', ''h4'', ''h5'', ''h6'',
     ''ul'', ''ol'', ''li'',
     ''table'', ''thead'', ''tbody'', ''tfoot'', ''tr'', ''td'', ''th'',
     ''img'', ''a''],
   ALLOWED_ATTR = [
     ''style'', ''class'', ''title'', ''src'', ''alt'', ''width'', ''height'',
     ''href'', ''target'', ''rel'', ''color'', ''size'', ''face'', ''colspan'', ''rowspan''],
   ALLOW_DATA_ATTR = False\<rparr>"

definition BIO_SANITIZE_CONFIG :: purify_config where
  "BIO_SANITIZE_CONFIG = \<lparr>ALLOWED_TAGS = [''p'', ''br'', ''strong'', ''em'', ''u'', ''span'', ''img'', ''a''],
   ALLOWED_ATTR = [''style'', ''src'', ''alt'', ''width'', ''height'', ''href'', ''target'', ''rel''],
   ALLOW_DATA_ATTR = False\<rparr>"

definition sanitizeHtml ::
  "(purify_config \<Rightarrow> string \<Rightarrow> dom list) \<Rightarrow> (dom list \<Rightarrow> string) \<Rightarrow> string \<Rightarrow> string" where
  "sanitizeHtml purify innerHTML html =
     (if html = [] then [] else innerHTML (postProcess (purify PURIFY_CONFIG html)))"

definition bio_process :: "dom list \<Rightarrow> dom list" where
  "bio_process fragment = guard_anchors (drop_images BIO_DATA_IMAGE_RE fragment)"

definition sanitizeBio ::
  "(purify_config \<Rightarrow> string \<Rightarrow> dom list) \<Rightarrow> (dom list \<Rightarrow> string) \<Rightarrow> string \<Rightarrow> string" where
  "sanitizeBio purify innerHTML html =
     (if html = [] then [] else innerHTML (bio_process (purify BIO_SANITIZE_CONFIG html)))"

section \<open>Addresses\<close>

definition is_control :: "char \<Rightarrow> bool" where
  "is_control c \<longleftrightarrow> (let n = (of_char c :: nat) in n \<le> 31 \<or> n = 127)"

definition clean :: "string \<Rightarrow> string" where
  "clean url = trim (filter (\<lambda>c. \<not> is_control c) url)"

definition SAFE_LINK_SCHEME_RE :: "string \<Rightarrow> bool" where
  "SAFE_LINK_SCHEME_RE = starts_ci [''http:'', ''https:'', ''mailto:'']"

definition SAFE_IMAGE_SCHEME_RE :: "string \<Rightarrow> bool" where
  "SAFE_IMAGE_SCHEME_RE = starts_ci [''http:'', ''https:'', ''blob:'', ''data:image/'']"

definition safeLinkUrl :: "string option \<Rightarrow> string option" where
  "safeLinkUrl url =
     (case url of
        None \<Rightarrow> None
      | Some u \<Rightarrow> if u = [] then None
                  else (let cleaned = clean u in if SAFE_LINK_SCHEME_RE cleaned then Some cleaned else None))"

definition safeImageUrl :: "string option \<Rightarrow> string option" where
  "safeImageUrl url =
     (case url of
        None \<Rightarrow> None
      | Some u \<Rightarrow> if u = [] then None
                  else (let cleaned = clean u in if SAFE_IMAGE_SCHEME_RE cleaned then Some cleaned else None))"

section \<open>Declarations\<close>

lemma split_on_not_Nil [simp]: "split_on c s \<noteq> []"
  by (cases s) (auto split: list.splits)

lemma split_on_pieces: "p \<in> set (split_on c s) \<Longrightarrow> c \<notin> set p"
  by (induction s arbitrary: p) (auto split: if_splits list.splits)

lemma join_split [simp]: "join_with c (split_on c s) = s"
proof (induction s)
  case (Cons x s)
  obtain h t where ht: "split_on c s = h # t" by (cases "split_on c s") auto
  with Cons show ?case by (cases t) auto
qed simp

lemma split_join:
  "ds \<noteq> [] \<Longrightarrow> \<forall>d \<in> set ds. c \<notin> set d \<Longrightarrow> split_on c (join_with c ds) = ds"
proof (induction c ds rule: join_with.induct)
  case (2 c s)
  then show ?case by (induction s) auto
next
  case (3 c s t r)
  then have "split_on c (join_with c (t # r)) = t # r" "c \<notin> set s" by simp_all
  then show ?case by (induction s) auto
qed simp

definition safe_style :: "string \<Rightarrow> bool" where
  "safe_style value \<longleftrightarrow> list_all safe_declaration (split_on (CHR '';'') value)"

lemma sanitiseStyle_safe: "sanitiseStyle value \<noteq> [] \<Longrightarrow> safe_style (sanitiseStyle value)"
proof -
  let ?ds = "filter safe_declaration (split_on (CHR '';'') value)"
  assume "sanitiseStyle value \<noteq> []"
  then have "?ds \<noteq> []" by (auto simp: sanitiseStyle_def)
  then have "split_on (CHR '';'') (sanitiseStyle value) = ?ds"
    unfolding sanitiseStyle_def by (intro split_join) (auto dest: split_on_pieces)
  then show ?thesis by (simp add: safe_style_def list_all_iff)
qed

lemma sanitiseStyle_fixed: "safe_style value \<Longrightarrow> sanitiseStyle value = value \<and> value \<noteq> []"
  by (auto simp: safe_style_def sanitiseStyle_def list_all_iff filter_id_conv [THEN iffD2] safe_declaration_def)

section \<open>Every element\<close>

fun all_elems :: "(string \<Rightarrow> attributes \<Rightarrow> bool) \<Rightarrow> dom list \<Rightarrow> bool" where
  "all_elems P [] = True"
| "all_elems P (Element n attrs ch # f) = (P n attrs \<and> all_elems P ch \<and> all_elems P f)"
| "all_elems P (x # f) = all_elems P f"

lemma all_elems_append [simp]: "all_elems P (f @ g) \<longleftrightarrow> all_elems P f \<and> all_elems P g"
  by (induction P f rule: all_elems.induct) auto

lemma all_elems_mono: "all_elems P f \<Longrightarrow> (\<And>n a. P n a \<Longrightarrow> Q n a) \<Longrightarrow> all_elems Q f"
  by (induction P f rule: all_elems.induct) auto

text \<open>What each pass establishes, what it keeps, and where it changes nothing.\<close>

lemma drop_images_all: "all_elems P f \<Longrightarrow> all_elems (\<lambda>n a. P n a \<and> (n = ''img'' \<longrightarrow> ok (getAttribute ''src'' a))) (drop_images ok f)"
  by (induction ok f rule: drop_images.induct) auto

lemma drop_images_id: "all_elems (\<lambda>n a. n = ''img'' \<longrightarrow> ok (getAttribute ''src'' a)) f \<Longrightarrow> drop_images ok f = f"
  by (induction ok f rule: drop_images.induct) auto

definition guarded :: "attributes \<Rightarrow> bool" where
  "guarded a \<longleftrightarrow> EXTERNAL_URL_RE (getAttribute ''href'' a) \<and> map_get a ''data-external'' = Some ''true'' \<and>
     map_get a ''target'' = Some ''_blank'' \<and> map_get a ''rel'' = Some ''noopener noreferrer''"

lemma guard_link_guarded: "EXTERNAL_URL_RE (getAttribute ''href'' a) \<Longrightarrow> guarded (guard_link a)"
  by (simp add: guarded_def guard_link_def getAttribute_def)

lemma guard_link_id: "guarded a \<Longrightarrow> guard_link a = a"
  by (simp add: guarded_def guard_link_def map_set_idem)

lemma guard_anchors_all:
  assumes "\<And>a. P ''a'' a \<Longrightarrow> P ''a'' (guard_link a)"
  shows "all_elems P f \<Longrightarrow> all_elems (\<lambda>n a. P n a \<and> (n = ''a'' \<longrightarrow> guarded a)) (guard_anchors f)"
  by (induction f rule: guard_anchors.induct) (auto simp: assms guard_link_guarded)

lemma guard_anchors_id: "all_elems (\<lambda>n a. n = ''a'' \<longrightarrow> guarded a) f \<Longrightarrow> guard_anchors f = f"
  by (induction f rule: guard_anchors.induct) (auto simp: guard_link_id, auto simp: guarded_def)

lemma clean_style_safe: "map_get (clean_style a) ''style'' = Some v \<Longrightarrow> safe_style v"
  by (auto simp: clean_style_def Let_def sanitiseStyle_safe split: option.splits if_splits)

lemma clean_style_id:
  assumes "\<And>v. map_get a ''style'' = Some v \<Longrightarrow> safe_style v"
  shows "clean_style a = a"
  using assms sanitiseStyle_fixed by (auto simp: clean_style_def Let_def map_set_idem split: option.splits)

lemma clean_style_other: "k \<noteq> ''style'' \<Longrightarrow> map_get (clean_style a) k = map_get a k"
  by (simp add: clean_style_def Let_def split: option.splits)

lemma clean_styles_all:
  assumes "\<And>n a. P n a \<Longrightarrow> P n (clean_style a)"
  shows "all_elems P f \<Longrightarrow> all_elems (\<lambda>n a. P n a \<and> (\<forall>v. map_get a ''style'' = Some v \<longrightarrow> safe_style v)) (clean_styles f)"
  by (induction f rule: clean_styles.induct) (auto simp: assms dest: clean_style_safe)

lemma clean_styles_id:
  "all_elems (\<lambda>n a. \<forall>v. map_get a ''style'' = Some v \<longrightarrow> safe_style v) f \<Longrightarrow> clean_styles f = f"
  by (induction f rule: clean_styles.induct) (auto simp: clean_style_id)

lemmas attribute_passes = getAttribute_def guard_link_def guarded_def clean_style_other

definition safe_element :: "string \<Rightarrow> attributes \<Rightarrow> bool" where
  "safe_element n a \<longleftrightarrow>
     (n = ''img'' \<longrightarrow> DATA_IMAGE_RE (getAttribute ''src'' a)) \<and>
     (n = ''a'' \<longrightarrow> guarded a) \<and>
     (\<forall>v. map_get a ''style'' = Some v \<longrightarrow> safe_style v)"

lemma clean_style_keys: "fst ` set (clean_style a) \<subseteq> fst ` set a"
proof (cases "map_get a ''style''")
  case (Some v)
  then have "''style'' \<in> fst ` set a" using map_get_None_iff [of a "''style''"] by force
  then show ?thesis using Some by (auto simp: clean_style_def Let_def)
qed (simp add: clean_style_def)

lemma postProcess_all:
  assumes "all_elems P f" "\<And>a. P ''a'' a \<Longrightarrow> P ''a'' (guard_link a)" "\<And>n a. P n a \<Longrightarrow> P n (clean_style a)"
  shows "all_elems (\<lambda>n a. P n a \<and> safe_element n a) (postProcess f)"
proof -
  let ?I = "\<lambda>n a. P n a \<and> (n = ''img'' \<longrightarrow> DATA_IMAGE_RE (getAttribute ''src'' a))"
  let ?A = "\<lambda>n a. ?I n a \<and> (n = ''a'' \<longrightarrow> guarded a)"
  have "all_elems ?I (drop_images DATA_IMAGE_RE f)" by (rule drop_images_all [OF assms(1)])
  then have "all_elems ?A (guard_anchors (drop_images DATA_IMAGE_RE f))"
    by (rule guard_anchors_all [rotated]) (auto simp: assms(2))
  then have "all_elems (\<lambda>n a. ?A n a \<and> (\<forall>v. map_get a ''style'' = Some v \<longrightarrow> safe_style v)) (postProcess f)"
    unfolding postProcess_def by (rule clean_styles_all [rotated]) (auto simp: assms(3) attribute_passes)
  then show ?thesis by (rule all_elems_mono) (auto simp: safe_element_def)
qed


section \<open>Rendered markup\<close>

text \<open>
  C15: Whatever the purifier lets through, markup of other users reaches the page only as follows: every image
  is embedded, so that rendering it contacts no server; every link is an absolute web address, opens outside and is
  marked for the confirmation dialog; every inline style is made of listed properties with values the pattern
  admits.  Nothing the purifier kept out comes back: of any elements and attributes it leaves, the client adds none
  but the three marks of a link.
\<close>

theorem rendered_html_safe:
  assumes "all_elems (\<lambda>n a. left_in n \<and> (\<forall>k \<in> fst ` set a. left_on n k)) (purify PURIFY_CONFIG html)"
  shows "let fragment = postProcess (purify PURIFY_CONFIG html)
    in sanitizeHtml purify innerHTML html = (if html = [] then [] else innerHTML fragment) \<and>
       all_elems (\<lambda>n a. left_in n \<and>
         (\<forall>k \<in> fst ` set a. left_on n k \<or> n = ''a'' \<and> k \<in> {''data-external'', ''target'', ''rel''}) \<and>
         safe_element n a) fragment"
proof -
  let ?P = "\<lambda>n a. left_in n \<and>
      (\<forall>k \<in> fst ` set (a :: attributes). left_on n k \<or> n = ''a'' \<and> k \<in> {''data-external'', ''target'', ''rel''})"
  have "all_elems ?P (purify PURIFY_CONFIG html)" by (rule all_elems_mono [OF assms]) auto
  then have "all_elems (\<lambda>n a. ?P n a \<and> safe_element n a) (postProcess (purify PURIFY_CONFIG html))"
  proof (rule postProcess_all)
    show "?P ''a'' (guard_link a)" if "?P ''a'' a" for a
      using that unfolding guard_link_def by (simp only: set_keys_set) auto
    show "?P n (clean_style a)" if "?P n a" for n a
      using that clean_style_keys [of a] by blast
  qed
  then show ?thesis by (simp add: sanitizeHtml_def Let_def conj_assoc)
qed

theorem rendered_html_safe_witness:
  "all_elems safe_element (postProcess [Element ''a'' [(''href'', ''https://e.org''), (''style'', ''color:red;position:fixed'')]
     [Element ''img'' [(''src'', ''https://e.org/spy.png'')] [], Element ''a'' [(''href'', ''javascript:x'')] [TextNode ''hi'']]])"
proof -
  let ?f = "[Element ''a'' [(''href'', ''https://e.org''), (''style'', ''color:red;position:fixed'')]
     [Element ''img'' [(''src'', ''https://e.org/spy.png'')] [], Element ''a'' [(''href'', ''javascript:x'')] [TextNode ''hi'']]]"
  have "all_elems (\<lambda>n a. n \<in> {''a'', ''img''} \<and> (\<forall>k \<in> fst ` set a. k \<in> {''href'', ''style'', ''src''})) ?f" by simp
  from rendered_html_safe [of "\<lambda>n. n \<in> {''a'', ''img''}" "\<lambda>n k. k \<in> {''href'', ''style'', ''src''}" "\<lambda>cfg s. ?f" "[]" "\<lambda>f. []", OF this]
  show ?thesis by (auto simp: Let_def intro: all_elems_mono)
qed

text \<open>Sanitising what was sanitised changes nothing.\<close>

theorem sanitising_idempotent: "postProcess (postProcess f) = postProcess f"
proof -
  have any: "all_elems (\<lambda>n a. True) g" for g
    by (induction "\<lambda>(n :: string) (a :: attributes). True" g rule: all_elems.induct) auto
  have "all_elems (\<lambda>n a. True \<and> safe_element n a) (postProcess f)" by (rule postProcess_all [OF any]) auto
  then have "all_elems safe_element (postProcess f)" by simp
  then show ?thesis
    unfolding postProcess_def [of "postProcess f"]
    by (subst drop_images_id guard_anchors_id clean_styles_id,
        auto simp: safe_element_def intro: all_elems_mono)+
qed

text \<open>
  No text is lost: unwrapping a link keeps what it encloses, and an image, which encloses nothing, is
  the only element that is removed.
\<close>

fun text_of :: "dom list \<Rightarrow> string" where
  "text_of [] = []"
| "text_of (TextNode s # f) = s @ text_of f"
| "text_of (CommentNode s # f) = text_of f"
| "text_of (Element n attrs ch # f) = text_of ch @ text_of f"

fun images_void :: "dom list \<Rightarrow> bool" where
  "images_void [] = True"
| "images_void (Element n attrs ch # f) = ((n = ''img'' \<longrightarrow> ch = []) \<and> images_void ch \<and> images_void f)"
| "images_void (x # f) = images_void f"

lemma text_of_append [simp]: "text_of (f @ g) = text_of f @ text_of g"
  by (induction f rule: text_of.induct) auto

lemma text_drop_images: "images_void f \<Longrightarrow> text_of (drop_images ok f) = text_of f"
  by (induction ok f rule: drop_images.induct) auto

lemma text_guard_anchors: "text_of (guard_anchors f) = text_of f"
  by (induction f rule: guard_anchors.induct) auto

lemma text_clean_styles: "text_of (clean_styles f) = text_of f"
  by (induction f rule: clean_styles.induct) auto

theorem sanitising_keeps_text:
  assumes "images_void f"
  shows "text_of (postProcess f) = text_of f \<and> text_of (bio_process f) = text_of f"
  using assms by (simp add: postProcess_def bio_process_def text_clean_styles text_guard_anchors text_drop_images)

theorem sanitising_keeps_text_witness:
  "text_of (postProcess [Element ''a'' [(''href'', ''javascript:x'')] [TextNode ''hi'', Element ''img'' [] []]]) = ''hi''"
  using sanitising_keeps_text [of "[Element ''a'' [(''href'', ''javascript:x'')] [TextNode ''hi'', Element ''img'' [] []]]"] by simp

section \<open>Addresses of plugins and the marketplace\<close>

lemma trim_subset: "set (trim s) \<subseteq> set s"
proof
  fix c
  assume "c \<in> set (trim s)"
  then show "c \<in> set s" by (auto simp: trim_def dest!: set_dropWhileD)
qed

lemma clean_idem: "clean (clean u) = clean u"
proof -
  have "filter (\<lambda>c. \<not> is_control c) (clean u) = clean u"
    using trim_subset [of "filter (\<lambda>c. \<not> is_control c) u"] by (auto simp: clean_def filter_id_conv)
  then show ?thesis unfolding clean_def [of "clean u"] by (simp add: clean_def)
qed

lemma lower_colon [simp]: "lower_char c = CHR '':'' \<longleftrightarrow> c = CHR '':''"
  by (auto simp: lower_char_def Let_def split: if_splits dest!: arg_cong [where f = "of_char :: char \<Rightarrow> nat"])

abbreviation scheme :: "string \<Rightarrow> string" where
  "scheme s \<equiv> takeWhile (\<lambda>c. c \<noteq> CHR '':'') s"

lemma scheme_prefix:
  assumes "CHR '':'' \<notin> set p"
  shows "prefix (p @ '':'') s \<longleftrightarrow> CHR '':'' \<in> set s \<and> scheme s = p"
  using assms
proof (induction p arbitrary: s)
  case Nil
  then show ?case by (cases s) auto
next
  case (Cons c p)
  then show ?case by (cases s) auto
qed

lemma safe_link_re:
  "SAFE_LINK_SCHEME_RE s \<longleftrightarrow> CHR '':'' \<in> set s \<and> to_lower (scheme s) \<in> {''http'', ''https'', ''mailto''}"
proof -
  have colon: "CHR '':'' \<in> set (to_lower s) \<longleftrightarrow> CHR '':'' \<in> set s"
    by (auto simp: to_lower_def image_iff) (metis lower_colon)+
  have "scheme (to_lower s) = to_lower (scheme s)"
    by (simp add: to_lower_def takeWhile_map o_def)
  then show ?thesis
    using scheme_prefix [of "''http''" "to_lower s"] scheme_prefix [of "''https''" "to_lower s"] scheme_prefix [of "''mailto''" "to_lower s"]
    by (auto simp: SAFE_LINK_SCHEME_RE_def starts_ci_def starts_with_def colon)
qed

text \<open>
  A link passes exactly when its text without control characters and surrounding blanks has the scheme
  \<open>http\<close>, \<open>https\<close> or \<open>mailto\<close> in some capitalisation, and this text is what is used; it holds no
  control character, so that none can hide another scheme, and it passes again unchanged.
\<close>

theorem safe_link_scheme:
  "(safeLinkUrl (Some u) = Some v \<longleftrightarrow>
      v = clean u \<and> CHR '':'' \<in> set v \<and> to_lower (scheme v) \<in> {''http'', ''https'', ''mailto''}) \<and>
   list_all (\<lambda>c. \<not> is_control c) (clean u) \<and> safeLinkUrl (Some (clean u)) = safeLinkUrl (Some u)"
proof -
  have empty: "clean [] = []" "\<not> SAFE_LINK_SCHEME_RE []" by (simp_all add: clean_def safe_link_re)
  then have link: "safeLinkUrl (Some u) = (if SAFE_LINK_SCHEME_RE (clean u) then Some (clean u) else None)" for u
    by (cases "u = []") (simp_all add: safeLinkUrl_def Let_def)
  have "list_all (\<lambda>c. \<not> is_control c) (clean u)"
    using trim_subset [of "filter (\<lambda>c. \<not> is_control c) u"] by (auto simp: clean_def list_all_iff)
  then show ?thesis by (auto simp: link clean_idem safe_link_re)
qed

section \<open>What the patterns let through\<close>

text \<open>
  A style value can fetch without matching the pattern: the name \<open>url\<close> written with an escape, or
  the function \<open>image-set\<close>.  The sanitiser of profiles lets every style through.
\<close>

lemma style_fetches:
  "sanitiseStyle (''background:'' @ CHR 0x5C # ''75rl(//e.org/x)'') = ''background:'' @ CHR 0x5C # ''75rl(//e.org/x)''"
  "sanitiseStyle (''background:image-set('' @ CHR 0x22 # ''//e.org/x'' @ CHR 0x22 # '' 1x)'') =
     ''background:image-set('' @ CHR 0x22 # ''//e.org/x'' @ CHR 0x22 # '' 1x)''"
  by code_simp+

lemma bio_style_kept:
  "bio_process [Element ''p'' [(''style'', ''background:url(//e.org/x)'')] []] =
     [Element ''p'' [(''style'', ''background:url(//e.org/x)'')] []]"
  by code_simp

end
