(* ===== verification/ChannelTree.thy ===== *)
theory ChannelTree
  imports AppTypes JsSort
begin

text \<open>
  The channel list of the sidebar: hiding empty channels (\<open>utils/channelVisibility.ts\<close>), the
  depth-first list of the flat and icon viewers (\<open>components/sidebar/flat/ModernChannelList.tsx\<close>,
  \<open>components/sidebar/modern/ChannelIconList.tsx\<close>), the tree viewer
  (\<open>components/sidebar/classic/ClassicChannelList.tsx\<close>) and reordering by drag and drop
  (\<open>components/sidebar/channel/channelReorder.tsx\<close>).

  The loops over ancestors end on every input, cyclic data included (\<open>nearest_parent\<close> is total); the
  recursions into subchannels may not, so they are partial and their results are proved to exist for
  channels that form a forest.  Hiding keeps exactly the channels it should, each below its nearest
  visible ancestor (\<open>visible_channels_exact\<close>); the list drawn from the result shows each of them once,
  behind its parent (\<open>every_visible_channel_listed\<close>); a dropped channel lands where it was dropped
  (\<open>reorder_lands\<close>).  The tree viewer loses channels when the root is hidden (\<open>classic_loses_channels\<close>).
\<close>

section \<open>Hiding empty channels\<close>

record always_visible =
  av_currentChannel :: "int option"
  av_selectedChannel :: "int option"
  av_listenedChannels :: "int jset"

definition member_count :: "user_entry list \<Rightarrow> (int, nat) jmap" where
  "member_count users =
     foldl (\<lambda>m u. map_set (us_channel_id u) (or_else (map_get m (us_channel_id u)) 0 + 1) m) [] users"

definition by_id :: "channel_entry list \<Rightarrow> (int, channel_entry) jmap" where
  "by_id channels = foldl (\<lambda>m c. map_set (ch_id c) c m) [] channels"

definition isVisible :: "user_entry list \<Rightarrow> always_visible \<Rightarrow> channel_entry \<Rightarrow> bool" where
  "isVisible users av ch \<longleftrightarrow>
     0 < or_else (map_get (member_count users) (ch_id ch)) 0 \<or>
     Some (ch_id ch) = av_currentChannel av \<or>
     Some (ch_id ch) = av_selectedChannel av \<or>
     set_has (av_listenedChannels av) (ch_id ch)"

definition visible_ids :: "channel_entry list \<Rightarrow> user_entry list \<Rightarrow> always_visible \<Rightarrow> int jset" where
  "visible_ids channels users av = set_of_list (map ch_id (filter (isVisible users av) channels))"

text \<open>The \<open>while\<close> loop of \<open>nearestVisibleParent\<close>: each round puts one more id into \<open>seen\<close>.\<close>

function nearest_parent :: "int jset \<Rightarrow> (int, channel_entry) jmap \<Rightarrow> int jset \<Rightarrow> int option \<Rightarrow> int option" where
  "nearest_parent visibleIds byId seen None = None"
| "nearest_parent visibleIds byId seen (Some parentId) =
     (if set_has seen parentId then None
      else if set_has visibleIds parentId then Some parentId
      else nearest_parent visibleIds byId (set_add parentId seen)
             (case map_get byId parentId of None \<Rightarrow> None | Some p \<Rightarrow> ch_parent_id p))"
  by pat_completeness auto
termination
proof (relation "measure (\<lambda>(v, m, seen, p). case p of None \<Rightarrow> 0 | Some _ \<Rightarrow> Suc (card (fst ` set m - set seen)))")
  fix v :: "int jset" and m :: "(int, channel_entry) jmap" and seen :: "int jset" and parentId
  assume new: "\<not> set_has seen parentId"
  show "((v, m, set_add parentId seen, case map_get m parentId of None \<Rightarrow> None | Some p \<Rightarrow> ch_parent_id p), v, m, seen, Some parentId)
        \<in> measure (\<lambda>(v, m, seen, p). case p of None \<Rightarrow> 0 | Some _ \<Rightarrow> Suc (card (fst ` set m - set seen)))"
  proof (cases "map_get m parentId")
    case (Some p)
    then have "parentId \<in> fst ` set m" using map_get_None_iff [of m parentId] by force
    then have "card (fst ` set m - insert parentId (set seen)) < card (fst ` set m - set seen)"
      using new by (intro psubset_card_mono) auto
    then show ?thesis using Some by (cases "ch_parent_id p") auto
  qed simp
qed simp

definition nearestVisibleParent :: "int jset \<Rightarrow> (int, channel_entry) jmap \<Rightarrow> channel_entry \<Rightarrow> int option" where
  "nearestVisibleParent visibleIds byId ch = nearest_parent visibleIds byId [ch_id ch] (ch_parent_id ch)"

definition filterVisibleChannels :: "channel_entry list \<Rightarrow> user_entry list \<Rightarrow> always_visible \<Rightarrow> channel_entry list" where
  "filterVisibleChannels channels users av =
     (let visibleIds = visible_ids channels users av;
          byId = by_id channels
      in map (\<lambda>ch. let newParent = nearestVisibleParent visibleIds byId ch
                   in if newParent = ch_parent_id ch then ch else ch\<lparr>ch_parent_id := newParent\<rparr>)
           (filter (\<lambda>ch. set_has visibleIds (ch_id ch)) channels))"

section \<open>The depth-first list\<close>

definition parent_key :: "channel_entry \<Rightarrow> int" where
  "parent_key ch = (if ch_parent_id ch = Some (ch_id ch) then -1 else or_else (ch_parent_id ch) (-1))"

definition childrenOf :: "channel_entry list \<Rightarrow> (int, channel_entry list) jmap" where
  "childrenOf channels =
     foldl (\<lambda>m ch. map_set (parent_key ch) (or_else (map_get m (parent_key ch)) [] @ [ch]) m) [] channels"

definition by_position :: "(string \<Rightarrow> string \<Rightarrow> int) \<Rightarrow> channel_entry \<Rightarrow> channel_entry \<Rightarrow> int" where
  "by_position localeCompare a b =
     (if ch_position a \<noteq> ch_position b then ch_position a - ch_position b else localeCompare (ch_name a) (ch_name b))"

definition sortLevel :: "(string \<Rightarrow> string \<Rightarrow> int) \<Rightarrow> channel_entry list \<Rightarrow> channel_entry list" where
  "sortLevel localeCompare = js_sort (by_position localeCompare)"

text \<open>The loop of \<open>visit\<close> over one level, with the recursive call for each channel; \<open>None\<close> is a run that never ends.\<close>

partial_function (option) visit :: "(int \<Rightarrow> channel_entry list) \<Rightarrow> channel_entry list \<Rightarrow> channel_entry list option" where
  "visit kids level =
     (case level of
        [] \<Rightarrow> Some []
      | ch # rest \<Rightarrow>
          Option.bind (visit kids (kids (ch_id ch))) (\<lambda>below.
            Option.bind (visit kids rest) (\<lambda>more. Some (ch # below @ more))))"

definition flatChannels :: "(string \<Rightarrow> string \<Rightarrow> int) \<Rightarrow> channel_entry list \<Rightarrow> channel_entry list option" where
  "flatChannels localeCompare channels =
     (let kids = (\<lambda>p. sortLevel localeCompare (or_else (map_get (childrenOf channels) p) []))
      in visit kids (kids (-1)))"

section \<open>The tree viewer\<close>

definition members_by_channel :: "user_entry list \<Rightarrow> (int, user_entry list) jmap" where
  "members_by_channel users =
     foldl (\<lambda>m u. map_set (us_channel_id u) (or_else (map_get m (us_channel_id u)) [] @ [u]) m) [] users"

definition classic_root :: "channel_entry list \<Rightarrow> channel_entry option" where
  "classic_root channels = List.find (\<lambda>c. ch_parent_id c = None \<or> ch_parent_id c = Some (ch_id c)) channels"

definition direct_children :: "channel_entry list \<Rightarrow> int \<Rightarrow> channel_entry list" where
  "direct_children channels parentId = filter (\<lambda>c. ch_parent_id c = Some parentId \<and> ch_id c \<noteq> parentId) channels"

text \<open>The recursions of \<open>subtreeUserCount\<close> and \<open>subtreeUsers\<close>, over the children of one channel.\<close>

partial_function (option) sum_counts ::
  "channel_entry list \<Rightarrow> (int, user_entry list) jmap \<Rightarrow> channel_entry list \<Rightarrow> nat option" where
  "sum_counts channels members level =
     (case level of
        [] \<Rightarrow> Some 0
      | ch # rest \<Rightarrow>
          Option.bind (sum_counts channels members (direct_children channels (ch_id ch))) (\<lambda>below.
            Option.bind (sum_counts channels members rest) (\<lambda>more.
              Some (length (or_else (map_get members (ch_id ch)) []) + below + more))))"

definition subtreeUserCount :: "channel_entry list \<Rightarrow> (int, user_entry list) jmap \<Rightarrow> int \<Rightarrow> nat option" where
  "subtreeUserCount channels members channelId =
     map_option (\<lambda>n. length (or_else (map_get members channelId) []) + n)
       (sum_counts channels members (direct_children channels channelId))"

partial_function (option) collect_users ::
  "channel_entry list \<Rightarrow> (int, user_entry list) jmap \<Rightarrow> channel_entry list \<Rightarrow> user_entry list option" where
  "collect_users channels members level =
     (case level of
        [] \<Rightarrow> Some []
      | ch # rest \<Rightarrow>
          Option.bind (collect_users channels members (direct_children channels (ch_id ch))) (\<lambda>below.
            Option.bind (collect_users channels members rest) (\<lambda>more.
              Some (or_else (map_get members (ch_id ch)) [] @ below @ more))))"

definition subtreeUsers :: "channel_entry list \<Rightarrow> (int, user_entry list) jmap \<Rightarrow> int \<Rightarrow> user_entry list option" where
  "subtreeUsers channels members channelId =
     map_option (\<lambda>us. or_else (map_get members channelId) [] @ us)
       (collect_users channels members (direct_children channels channelId))"

definition populated_first ::
  "(string \<Rightarrow> string \<Rightarrow> int) \<Rightarrow> (int \<Rightarrow> nat) \<Rightarrow> channel_entry \<Rightarrow> channel_entry \<Rightarrow> int" where
  "populated_first localeCompare members_in a b =
     (if 0 < members_in (ch_id a) \<and> members_in (ch_id b) = 0 then -1
      else if members_in (ch_id a) = 0 \<and> 0 < members_in (ch_id b) then 1
      else localeCompare (ch_name a) (ch_name b))"

definition sortedDirectChildren ::
  "(string \<Rightarrow> string \<Rightarrow> int) \<Rightarrow> channel_entry list \<Rightarrow> (int, user_entry list) jmap \<Rightarrow> int \<Rightarrow> channel_entry list option" where
  "sortedDirectChildren localeCompare channels members parentId =
     (let level = direct_children channels parentId;
          counts = map (\<lambda>c. subtreeUserCount channels members (ch_id c)) level
      in if 1 < length level \<and> None \<in> set counts then None   \<comment> \<open>one channel is not compared\<close>
         else Some (js_sort (populated_first localeCompare (\<lambda>i. or_else (subtreeUserCount channels members i) 0)) level))"

text \<open>
  The rows \<open>renderChannel\<close> draws for one level: a channel, and what is below it while it is open.  The
  copy of the current channel at the top of the viewer is not counted.
\<close>

partial_function (option) classic_level ::
  "(int \<Rightarrow> channel_entry list option) \<Rightarrow> int jset \<Rightarrow> channel_entry list \<Rightarrow> channel_entry list option" where
  "classic_level kids expanded level =
     (case level of
        [] \<Rightarrow> Some []
      | ch # rest \<Rightarrow>
          Option.bind (kids (ch_id ch)) (\<lambda>children.
            Option.bind (if children \<noteq> [] \<and> set_has expanded (ch_id ch) then classic_level kids expanded children else Some []) (\<lambda>below.
              Option.bind (classic_level kids expanded rest) (\<lambda>more. Some (ch # below @ more)))))"

definition classic_rows ::
  "(string \<Rightarrow> string \<Rightarrow> int) \<Rightarrow> int jset \<Rightarrow> channel_entry list \<Rightarrow> user_entry list \<Rightarrow> channel_entry list option" where
  "classic_rows localeCompare expanded channels users =
     (case classic_root channels of
        None \<Rightarrow> Some []
      | Some r \<Rightarrow>
          (let kids = sortedDirectChildren localeCompare channels (members_by_channel users)
           in Option.bind (kids (ch_id r)) (\<lambda>level.
                map_option (\<lambda>rows. r # rows) (classic_level kids expanded level))))"

lemma visit_simps [simp, code]:
  "visit kids [] = Some []"
  "visit kids (ch # rest) =
     Option.bind (visit kids (kids (ch_id ch))) (\<lambda>below. Option.bind (visit kids rest) (\<lambda>more. Some (ch # below @ more)))"
  by (subst visit.simps; simp)+

lemma sum_counts_simps [simp, code]:
  "sum_counts channels members [] = Some 0"
  "sum_counts channels members (ch # rest) =
     Option.bind (sum_counts channels members (direct_children channels (ch_id ch))) (\<lambda>below.
       Option.bind (sum_counts channels members rest) (\<lambda>more. Some (length (or_else (map_get members (ch_id ch)) []) + below + more)))"
  by (subst sum_counts.simps; simp)+

lemma collect_users_simps [simp, code]:
  "collect_users channels members [] = Some []"
  "collect_users channels members (ch # rest) =
     Option.bind (collect_users channels members (direct_children channels (ch_id ch))) (\<lambda>below.
       Option.bind (collect_users channels members rest) (\<lambda>more. Some (or_else (map_get members (ch_id ch)) [] @ below @ more)))"
  by (subst collect_users.simps; simp)+

lemma classic_level_simps [simp, code]:
  "classic_level kids expanded [] = Some []"
  "classic_level kids expanded (ch # rest) =
     Option.bind (kids (ch_id ch)) (\<lambda>children.
       Option.bind (if children \<noteq> [] \<and> set_has expanded (ch_id ch) then classic_level kids expanded children else Some []) (\<lambda>below.
         Option.bind (classic_level kids expanded rest) (\<lambda>more. Some (ch # below @ more))))"
  by (subst classic_level.simps; simp)+

section \<open>Reordering\<close>

record drop_event =
  de_draggedId :: int
  de_targetId :: int
  de_insertBefore :: bool

definition siblings_of :: "(string \<Rightarrow> string \<Rightarrow> int) \<Rightarrow> channel_entry list \<Rightarrow> channel_entry \<Rightarrow> channel_entry list" where
  "siblings_of localeCompare channels dragged =
     js_sort (by_position localeCompare)
       (filter (\<lambda>c. ch_parent_id c = ch_parent_id dragged \<or>
                  (ch_parent_id c = Some (ch_id c) \<and> ch_parent_id dragged = Some (ch_id dragged))) channels)"

fun find_index :: "('a \<Rightarrow> bool) \<Rightarrow> 'a list \<Rightarrow> nat option" where
  "find_index p [] = None"
| "find_index p (x # xs) = (if p x then Some 0 else map_option Suc (find_index p xs))"

definition new_order :: "(string \<Rightarrow> string \<Rightarrow> int) \<Rightarrow> channel_entry list \<Rightarrow> drop_event \<Rightarrow> channel_entry list option" where
  "new_order localeCompare channels ev =
     (case List.find (\<lambda>c. ch_id c = de_draggedId ev) channels of
        None \<Rightarrow> None
      | Some dragged \<Rightarrow>
          (let withoutDragged = filter (\<lambda>c. ch_id c \<noteq> de_draggedId ev) (siblings_of localeCompare channels dragged)
           in case find_index (\<lambda>c. ch_id c = de_targetId ev) withoutDragged of
                None \<Rightarrow> None
              | Some targetIdx \<Rightarrow>
                  (let insertIdx = (if de_insertBefore ev then targetIdx else targetIdx + 1)
                   in Some (take insertIdx withoutDragged @ dragged # drop insertIdx withoutDragged))))"

text \<open>The calls of \<open>updateChannel\<close>: a channel id and its new position.\<close>

definition handleReorder :: "(string \<Rightarrow> string \<Rightarrow> int) \<Rightarrow> channel_entry list \<Rightarrow> drop_event \<Rightarrow> (int \<times> int) list" where
  "handleReorder localeCompare channels ev =
     (case new_order localeCompare channels ev of
        None \<Rightarrow> []
      | Some order \<Rightarrow>
          map (\<lambda>(c, i). (ch_id c, int i * 100))
            (filter (\<lambda>(c, i). ch_position c \<noteq> int i * 100) (zip order [0..<length order])))"

section \<open>Nearest visible ancestors\<close>

text \<open>The parent relation on channel ids; a channel that names itself as its parent is a root.\<close>

definition parent_rel :: "channel_entry list \<Rightarrow> (int \<times> int) set" where
  "parent_rel L = {(ch_id c, p) | c p. c \<in> set L \<and> ch_parent_id c = Some p \<and> p \<noteq> ch_id c}"

text \<open>Channels with unique ids whose parents come before them in some ranking: no cycles.\<close>

definition tree_like :: "channel_entry list \<Rightarrow> (int \<Rightarrow> nat) \<Rightarrow> bool" where
  "tree_like L rank \<longleftrightarrow> distinct (map ch_id L) \<and> (\<forall>(i, p) \<in> parent_rel L. rank p < rank i)"

lemma or_else_member_count:
  "or_else (map_get (member_count users) i) 0 = length (filter (\<lambda>u. us_channel_id u = i) users)"
  unfolding member_count_def by (induction users rule: rev_induct) auto

lemma isVisible_iff:
  "isVisible users av ch \<longleftrightarrow> (\<exists>u \<in> set users. us_channel_id u = ch_id ch) \<or> av_currentChannel av = Some (ch_id ch) \<or>
     av_selectedChannel av = Some (ch_id ch) \<or> ch_id ch \<in> set (av_listenedChannels av)"
  by (auto simp: isVisible_def or_else_member_count filter_empty_conv eq_commute [of "Some _"])

lemma get_by_id:
  assumes "distinct (map ch_id L)"
  shows "map_get (by_id L) i = Some c \<longleftrightarrow> c \<in> set L \<and> ch_id c = i"
  using assms unfolding by_id_def
proof (induction L rule: rev_induct)
  case (snoc x L)
  then have "ch_id x \<noteq> ch_id c" if "c \<in> set L" using that by force
  with snoc show ?case by auto
qed simp

lemma parent_rel_unique: "distinct (map ch_id L) \<Longrightarrow> (i, p) \<in> parent_rel L \<Longrightarrow> (i, q) \<in> parent_rel L \<Longrightarrow> q = p"
proof -
  assume L: "distinct (map ch_id L)" "(i, p) \<in> parent_rel L" "(i, q) \<in> parent_rel L"
  then obtain c d where "c \<in> set L" "ch_id c = i" "ch_parent_id c = Some p" "d \<in> set L" "ch_id d = i" "ch_parent_id d = Some q"
    by (auto simp: parent_rel_def)
  moreover from this have "c = d" using L(1) by (simp add: distinct_map inj_on_def)
  ultimately show "q = p" by simp
qed

lemma rank_trancl:
  assumes "tree_like L rank" "(i, p) \<in> (parent_rel L)\<^sup>+"
  shows "rank p < rank i"
  using assms(2) by induction (use assms(1) in \<open>fastforce simp: tree_like_def\<close>)+

definition is_nearest :: "(int \<times> int) set \<Rightarrow> int set \<Rightarrow> int \<Rightarrow> int option \<Rightarrow> bool" where
  "is_nearest R V i r =
     (case r of
        None \<Rightarrow> \<forall>x. (i, x) \<in> R\<^sup>+ \<longrightarrow> x \<notin> V
      | Some p \<Rightarrow> (i, p) \<in> R\<^sup>+ \<and> p \<in> V \<and> (\<forall>x. (i, x) \<in> R\<^sup>+ \<and> (x, p) \<in> R\<^sup>+ \<longrightarrow> x \<notin> V))"

lemma is_nearest_root: "\<forall>p. (i, p) \<notin> R \<Longrightarrow> is_nearest R V i None"
  by (auto simp: is_nearest_def dest: tranclD)

lemma is_nearest_visible:
  assumes "tree_like L rank" "(i, p) \<in> parent_rel L" "p \<in> V"
  shows "is_nearest (parent_rel L) V i (Some p)"
proof -
  have "(x, p) \<notin> (parent_rel L)\<^sup>+" if x: "(i, x) \<in> (parent_rel L)\<^sup>+" for x
  proof
    assume back_edge: "(x, p) \<in> (parent_rel L)\<^sup>+"
    obtain y where "(i, y) \<in> parent_rel L" "(y, x) \<in> (parent_rel L)\<^sup>*" using x by (auto dest: tranclD)
    moreover have "y = p" using calculation(1) assms(1,2) parent_rel_unique by (fastforce simp: tree_like_def)
    ultimately have "(p, p) \<in> (parent_rel L)\<^sup>+" using back_edge by simp
    then show False using rank_trancl [OF assms(1)] by blast
  qed
  then show ?thesis using assms(2,3) by (auto simp: is_nearest_def)
qed

lemma is_nearest_hidden:
  assumes "tree_like L rank" "(i, p) \<in> parent_rel L" "p \<notin> V" "is_nearest (parent_rel L) V p r"
  shows "is_nearest (parent_rel L) V i r"
proof -
  have step: "(i, x) \<in> (parent_rel L)\<^sup>+ \<longleftrightarrow> x = p \<or> (p, x) \<in> (parent_rel L)\<^sup>+" for x
    using assms(1,2) parent_rel_unique [of L i p] unfolding tree_like_def
    by (metis rtranclD tranclD trancl.r_into_trancl trancl_trans)
  show ?thesis using assms(3,4) by (auto simp: is_nearest_def step split: option.splits)
qed

lemma nearest_parent_spec:
  assumes "tree_like L rank" "(i, p) \<in> parent_rel L" "\<forall>s \<in> set seen. rank p < rank s"
  shows "is_nearest (parent_rel L) (set V) i (nearest_parent V (by_id L) seen (Some p))"
  using assms(2,3)
proof (induction "rank p" arbitrary: i p seen rule: less_induct)
  case less
  have fresh: "p \<notin> set seen" using less.prems(2) by blast
  have get: "map_get (by_id L) x = Some c \<longleftrightarrow> c \<in> set L \<and> ch_id c = x" for x c
    using get_by_id assms(1) by (simp add: tree_like_def)
  show ?case
  proof (cases "p \<in> set V")
    case True
    then show ?thesis using is_nearest_visible [OF assms(1) less.prems(1)] fresh by simp
  next
    case hidden: False
    show ?thesis
    proof (cases "\<exists>q. (p, q) \<in> parent_rel L")
      case True
      then obtain c q where c: "c \<in> set L" "ch_id c = p" "ch_parent_id c = Some q" "q \<noteq> p"
        by (auto simp: parent_rel_def)
      then have edge: "(p, q) \<in> parent_rel L" by (auto simp: parent_rel_def)
      then have "rank q < rank p" using assms(1) by (auto simp: tree_like_def)
      then have "is_nearest (parent_rel L) (set V) p (nearest_parent V (by_id L) (set_add p seen) (Some q))"
        using less.hyps [of q p "set_add p seen"] edge less.prems(2) by fastforce
      moreover have "map_get (by_id L) p = Some c" using c by (simp add: get)
      ultimately show ?thesis
        using is_nearest_hidden [OF assms(1) less.prems(1) hidden] fresh hidden c(3) by simp
    next
      case False
      then have "case map_get (by_id L) p of None \<Rightarrow> True | Some c \<Rightarrow> ch_parent_id c \<in> {None, Some p}"
        using get by (auto simp: parent_rel_def split: option.splits) (metis option.exhaust)
      then have "nearest_parent V (by_id L) seen (Some p) = None"
        using fresh hidden by (auto split: option.splits)
      then show ?thesis
        using is_nearest_hidden [OF assms(1) less.prems(1) hidden is_nearest_root] False by simp
    qed
  qed
qed


lemma nearestVisibleParent_spec:
  assumes "tree_like L rank" "c \<in> set L"
  shows "is_nearest (parent_rel L) (set V) (ch_id c) (nearestVisibleParent V (by_id L) c)"
proof (cases "\<exists>p. (ch_id c, p) \<in> parent_rel L")
  case True
  then obtain d p where "d \<in> set L" "ch_id d = ch_id c" "ch_parent_id d = Some p" "p \<noteq> ch_id c"
    by (auto simp: parent_rel_def)
  moreover from this have "d = c" using assms by (simp add: tree_like_def distinct_map inj_on_def)
  ultimately have p: "ch_parent_id c = Some p" "(ch_id c, p) \<in> parent_rel L" using assms(2) by (auto simp: parent_rel_def)
  then have "rank p < rank (ch_id c)" using assms(1) by (auto simp: tree_like_def)
  then show ?thesis unfolding nearestVisibleParent_def p(1) by (intro nearest_parent_spec [OF assms(1) p(2)]) simp
next
  case False
  then have "ch_parent_id c \<in> {None, Some (ch_id c)}"
    using assms(2) by (cases "ch_parent_id c") (auto simp: parent_rel_def)
  then have "nearestVisibleParent V (by_id L) c = None" by (auto simp: nearestVisibleParent_def)
  then show ?thesis using False is_nearest_root by simp
qed

lemma filterVisible_map:
  "filterVisibleChannels L users av =
     map (\<lambda>c. c\<lparr>ch_parent_id := nearestVisibleParent (visible_ids L users av) (by_id L) c\<rparr>)
       (filter (\<lambda>c. ch_id c \<in> set (visible_ids L users av)) L)"
  by (simp add: filterVisibleChannels_def Let_def)

lemma filterVisible_ids: "map ch_id (filterVisibleChannels L users av) = filter (\<lambda>i. i \<in> set (visible_ids L users av)) (map ch_id L)"
  by (simp add: filterVisible_map filter_map o_def)

lemma filterVisible_cases:
  assumes "tree_like L rank" "c \<in> set (filterVisibleChannels L users av)"
  obtains d where "d \<in> set L" "c = d\<lparr>ch_parent_id := ch_parent_id c\<rparr>"
    "is_nearest (parent_rel L) (set (visible_ids L users av)) (ch_id c) (ch_parent_id c)"
proof -
  let ?V = "visible_ids L users av"
  obtain d where d: "d \<in> set L" "c = d\<lparr>ch_parent_id := nearestVisibleParent ?V (by_id L) d\<rparr>"
    using assms(2) unfolding filterVisible_map by auto
  then show ?thesis using that [of d] nearestVisibleParent_spec [OF assms(1) d(1), of ?V] by auto
qed

text \<open>
  Hiding empty channels keeps, in their order, exactly the channels with a member and the current, the
  selected and the listened ones; each is unchanged except that it hangs below its nearest ancestor
  among them, and becomes a root when it has none.
\<close>

theorem visible_channels_exact:
  assumes "tree_like channels rank" "out = filterVisibleChannels channels users av"
    "V = {i \<in> ch_id ` set channels. (\<exists>u \<in> set users. us_channel_id u = i) \<or>
       i \<in> set_option (av_currentChannel av) \<union> set_option (av_selectedChannel av) \<union> set (av_listenedChannels av)}"
  shows "map ch_id out = filter (\<lambda>i. i \<in> V) (map ch_id channels) \<and>
    (\<forall>c \<in> set out. (\<exists>d \<in> set channels. c = d\<lparr>ch_parent_id := ch_parent_id c\<rparr>) \<and>
       is_nearest (parent_rel channels) V (ch_id c) (ch_parent_id c))"
proof -
  let ?V = "visible_ids channels users av"
  have V: "set ?V = V"
    unfolding assms(3) visible_ids_def by (auto simp: isVisible_iff)
  have "(\<exists>d \<in> set channels. c = d\<lparr>ch_parent_id := ch_parent_id c\<rparr>) \<and>
      is_nearest (parent_rel channels) V (ch_id c) (ch_parent_id c)" if c: "c \<in> set out" for c
    using filterVisible_cases [OF assms(1) c [unfolded assms(2)]] V by metis
  then show ?thesis using filterVisible_ids [of channels users av] by (simp add: assms(2) V)
qed

definition example_channel :: "int \<Rightarrow> int option \<Rightarrow> channel_entry" where
  "example_channel i p = \<lparr>ch_id = i, ch_parent_id = p, ch_name = ''c'', ch_description_size = None, ch_user_count = 0,
     ch_permissions = None, ch_temporary = False, ch_position = i, ch_max_users = 0, ch_pchat_protocol = None,
     ch_pchat_max_history = None, ch_pchat_retention_days = None, ch_is_enter_restricted = None\<rparr>"

definition example_channels :: "channel_entry list" where
  "example_channels = [example_channel 0 None, example_channel 1 (Some 0), example_channel 2 (Some 1), example_channel 3 (Some 0)]"

definition example_view :: always_visible where
  "example_view = \<lparr>av_currentChannel = Some 2, av_selectedChannel = Some 3, av_listenedChannels = []\<rparr>"

lemma example_tree: "tree_like example_channels nat"
  by (auto simp: tree_like_def parent_rel_def example_channels_def example_channel_def)

theorem visible_channels_exact_witness:
  "map ch_id (filterVisibleChannels example_channels [] example_view) = [2, 3]"
proof -
  note exact = visible_channels_exact [OF example_tree refl refl, of "[]" example_view]
  have "ch_id ` set example_channels = {0, 1, 2, 3}" "map ch_id example_channels = [0, 1, 2, 3]"
    by (simp_all add: example_channels_def example_channel_def)
  then show ?thesis unfolding conjunct1 [OF exact] by (simp add: example_view_def)
qed

section \<open>Every channel is drawn\<close>

definition key_rel :: "channel_entry list \<Rightarrow> (int \<times> int) set" where
  "key_rel L = {(ch_id c, parent_key c) | c. c \<in> set L}"

text \<open>A list the recursion can draw: unique ids, and every parent is listed and ranked before its children.\<close>

definition drawable :: "channel_entry list \<Rightarrow> (int \<Rightarrow> nat) \<Rightarrow> bool" where
  "drawable L rank \<longleftrightarrow> distinct (map ch_id L) \<and>
     (\<forall>c \<in> set L. ch_id c \<noteq> -1 \<and>
        (parent_key c = -1 \<or> (parent_key c \<in> ch_id ` set L \<and> rank (parent_key c) < rank (ch_id c))))"

lemma same_id: "drawable L rank \<Longrightarrow> c \<in> set L \<Longrightarrow> d \<in> set L \<Longrightarrow> ch_id c = ch_id d \<Longrightarrow> c = d"
  by (simp add: drawable_def distinct_map inj_on_def)

lemma key_rank:
  assumes "drawable L rank" "(i, j) \<in> (key_rel L)\<^sup>*" "j \<noteq> -1"
  shows "i \<noteq> -1 \<and> rank j \<le> rank i"
  using assms(2,3)
proof (induction rule: converse_rtrancl_induct)
  case (step x y)
  then obtain c where "c \<in> set L" "x = ch_id c" "y = parent_key c" by (auto simp: key_rel_def)
  then show ?case using assms(1) step by (fastforce simp: drawable_def)
qed simp

lemma key_single_valued: "drawable L rank \<Longrightarrow> single_valued (key_rel L)"
  by (auto simp: single_valued_def key_rel_def dest: same_id)

lemma siblings_unrelated:
  assumes "drawable L rank" "c \<in> set L" "d \<in> set L" "parent_key c = parent_key d" "(ch_id c, ch_id d) \<in> (key_rel L)\<^sup>*"
  shows "c = d"
proof (rule ccontr)
  assume "c \<noteq> d"
  then have "ch_id c \<noteq> ch_id d" using same_id assms(1-3) by blast
  with assms(5) obtain y where y: "(ch_id c, y) \<in> key_rel L" "(y, ch_id d) \<in> (key_rel L)\<^sup>*"
    by (metis converse_rtranclE)
  have "y = parent_key d"
    using y(1) assms(1-4) same_id by (fastforce simp: key_rel_def)
  moreover have d: "ch_id d \<noteq> -1" using assms(1,3) by (simp add: drawable_def)
  ultimately have "parent_key d \<noteq> -1" "rank (ch_id d) \<le> rank (parent_key d)"
    using key_rank [OF assms(1) y(2)] by auto
  then show False using assms(1,3) by (fastforce simp: drawable_def)
qed


definition below :: "channel_entry list \<Rightarrow> channel_entry set \<Rightarrow> channel_entry set" where
  "below L S = {d \<in> set L. \<exists>c \<in> S. (ch_id d, ch_id c) \<in> (key_rel L)\<^sup>*}"

abbreviation children :: "channel_entry list \<Rightarrow> int \<Rightarrow> channel_entry set" where
  "children L p \<equiv> {c \<in> set L. parent_key c = p}"

lemma child_reaches:
  "(i, ch_id e) \<in> (key_rel L)\<^sup>* \<Longrightarrow> e \<in> set L \<Longrightarrow> parent_key e = p \<Longrightarrow> (i, p) \<in> (key_rel L)\<^sup>*"
  by (rule rtrancl_into_rtrancl) (auto simp: key_rel_def)

lemma below_insert:
  assumes "drawable L rank" "c \<in> set L"
  shows "below L (insert c S) = insert c (below L (children L (ch_id c)) \<union> below L S)"
proof -
  have "(ch_id d, ch_id c) \<in> (key_rel L)\<^sup>* \<longleftrightarrow> d = c \<or> (\<exists>e \<in> children L (ch_id c). (ch_id d, ch_id e) \<in> (key_rel L)\<^sup>*)"
    if d: "d \<in> set L" for d
  proof
    assume "(ch_id d, ch_id c) \<in> (key_rel L)\<^sup>*"
    then consider "ch_id d = ch_id c" | y where "(ch_id d, y) \<in> (key_rel L)\<^sup>*" "(y, ch_id c) \<in> key_rel L"
      by (metis rtranclE)
    then show "d = c \<or> (\<exists>e \<in> children L (ch_id c). (ch_id d, ch_id e) \<in> (key_rel L)\<^sup>*)"
    proof cases
      case 1
      then show ?thesis using same_id [OF assms(1) d assms(2)] by blast
    next
      case 2
      then show ?thesis by (auto simp: key_rel_def)
    qed
  next
    assume "d = c \<or> (\<exists>e \<in> children L (ch_id c). (ch_id d, ch_id e) \<in> (key_rel L)\<^sup>*)"
    then show "(ch_id d, ch_id c) \<in> (key_rel L)\<^sup>*"
      by (auto intro: child_reaches)
  qed
  then show ?thesis using assms(2) by (auto simp: below_def)
qed

lemma child_rank:
  assumes "drawable L rank" "c \<in> set L" "e \<in> set L" "parent_key e = ch_id c"
  shows "rank (ch_id c) < rank (ch_id e)"
proof -
  have "parent_key e \<noteq> -1" using assms(1,2,4) by (simp add: drawable_def)
  then show ?thesis using assms(1,3,4) unfolding drawable_def by metis
qed

lemma below_disjoint:
  assumes "drawable L rank" "c \<in> set L" "S \<subseteq> set L" "c \<notin> S" "\<forall>d \<in> S. parent_key d = parent_key c"
  shows "c \<notin> below L (children L (ch_id c))" "c \<notin> below L S"
    "below L (children L (ch_id c)) \<inter> below L S = {}"
proof -
  show "c \<notin> below L (children L (ch_id c))"
  proof
    assume "c \<in> below L (children L (ch_id c))"
    then obtain e where e: "e \<in> set L" "parent_key e = ch_id c" "(ch_id c, ch_id e) \<in> (key_rel L)\<^sup>*" by (auto simp: below_def)
    have "ch_id e \<noteq> -1" using assms(1) e(1) by (simp add: drawable_def)
    then show False using child_rank [OF assms(1,2) e(1,2)] key_rank [OF assms(1) e(3)] by simp
  qed
  show "c \<notin> below L S"
    using siblings_unrelated [OF assms(1,2)] assms(3-5) by (force simp: below_def)
  have False if e: "e \<in> children L (ch_id c)" "(ch_id x, ch_id e) \<in> (key_rel L)\<^sup>*" and d: "d \<in> S" "(ch_id x, ch_id d) \<in> (key_rel L)\<^sup>*" for x e d
  proof -
    have "(ch_id x, ch_id c) \<in> (key_rel L)\<^sup>*" using e by (auto intro: child_reaches)
    then have "(ch_id c, ch_id d) \<in> (key_rel L)\<^sup>* \<or> (ch_id d, ch_id c) \<in> (key_rel L)\<^sup>*"
      using single_valued_confluent [OF key_single_valued [OF assms(1)]] d(2) by blast
    then show False
      using siblings_unrelated [OF assms(1)] assms(2-5) d(1) by (metis subsetD)
  qed
  then show "below L (children L (ch_id c)) \<inter> below L S = {}" by (auto simp: below_def)
qed

text \<open>Every channel comes behind its parent, the given ids counting as seen.\<close>

fun parents_first :: "int set \<Rightarrow> channel_entry list \<Rightarrow> bool" where
  "parents_first seen [] = True"
| "parents_first seen (c # cs) = (parent_key c \<in> seen \<and> parents_first (insert (ch_id c) seen) cs)"

lemma parents_first_mono: "parents_first S cs \<Longrightarrow> S \<subseteq> T \<Longrightarrow> parents_first T cs"
  by (induction cs arbitrary: S T) (auto, blast)

lemma parents_first_append: "parents_first S (a @ b) \<longleftrightarrow> parents_first S a \<and> parents_first (S \<union> ch_id ` set a) b"
  by (induction a arbitrary: S) auto

lemma parents_first_tree:
  "parents_first {ch_id c} a \<Longrightarrow> parents_first {k} b \<Longrightarrow> parent_key c = k \<Longrightarrow> parents_first {k} (c # a @ b)"
  by (auto simp: parents_first_append elim!: parents_first_mono)


lemma get_childrenOf: "or_else (map_get (childrenOf L) p) [] = filter (\<lambda>c. parent_key c = p) L"
  unfolding childrenOf_def by (induction L rule: rev_induct) auto

lemma visit_level:
  assumes "drawable L rank" "\<And>p. mset (kids p) = mset (filter (\<lambda>c. parent_key c = p) L)" "\<forall>c \<in> set L. rank (ch_id c) \<le> M"
  shows "set level \<subseteq> set L \<Longrightarrow> distinct level \<Longrightarrow> \<forall>c \<in> set level. parent_key c = k \<and> M - rank (ch_id c) < n \<Longrightarrow>
    \<exists>fs. visit kids level = Some fs \<and> distinct fs \<and> set fs = below L (set level) \<and> parents_first {k} fs"
proof (induction n arbitrary: level k)
  case 0
  then have "level = []" by (cases level) auto
  then show ?case by (simp add: below_def)
next
  case (Suc n)
  have kids: "set (kids p) = children L p" for p using assms(2) [of p] by (metis mset_eq_setD set_filter)
  have kids_distinct: "distinct (kids p)" for p
    using assms(1) mset_eq_imp_distinct_iff [OF assms(2) [of p]] by (simp add: drawable_def distinct_map)
  show ?case using Suc.prems
  proof (induction level)
    case Nil
    then show ?case by (simp add: below_def)
  next
    case (Cons c level)
    have c: "c \<in> set L" "parent_key c = k" using Cons.prems by auto
    have "M - rank (ch_id e) < n" if "e \<in> children L (ch_id c)" for e
      using child_rank [OF assms(1) c(1), of e] that Cons.prems(3) assms(3) by fastforce
    then have "\<forall>e \<in> set (kids (ch_id c)). parent_key e = ch_id c \<and> M - rank (ch_id e) < n" unfolding kids by blast
    from Suc.IH [OF _ kids_distinct this, unfolded kids] obtain a where a: "visit kids (kids (ch_id c)) = Some a" "distinct a"
        "set a = below L (children L (ch_id c))" "parents_first {ch_id c} a"
      by blast
    obtain b where b: "visit kids level = Some b" "distinct b" "set b = below L (set level)" "parents_first {k} b"
      using Cons by auto
    have "\<forall>d \<in> set level. parent_key d = parent_key c" "c \<notin> set level" using Cons.prems by auto
    with below_disjoint [OF assms(1) c(1), of "set level"] Cons.prems(1)
    have "distinct (c # a @ b)" using a b by auto
    moreover have "set (c # a @ b) = below L (set (c # level))"
      using below_insert [OF assms(1) c(1)] a(3) b(3) by simp
    ultimately show ?case
      using a b c(2) parents_first_tree [OF a(4) b(4)] by simp
  qed
qed

lemma reaches_root:
  assumes "drawable L rank" "d \<in> set L"
  shows "\<exists>c \<in> children L (-1). (ch_id d, ch_id c) \<in> (key_rel L)\<^sup>*"
  using assms(2)
proof (induction "rank (ch_id d)" arbitrary: d rule: less_induct)
  case less
  show ?case
  proof (cases "parent_key d = -1")
    case False
    then have "parent_key d \<in> ch_id ` set L" "rank (parent_key d) < rank (ch_id d)"
      using assms(1) less.prems unfolding drawable_def by metis+
    then obtain p where p: "p \<in> set L" "ch_id p = parent_key d" "rank (ch_id p) < rank (ch_id d)" by force
    moreover have "(ch_id d, ch_id p) \<in> key_rel L" using less.prems p(2) by (auto simp: key_rel_def)
    ultimately show ?thesis using less.hyps [OF p(3,1)] by (meson converse_rtrancl_into_rtrancl)
  qed (use less.prems in auto)
qed

lemma flatChannels_lists_all:
  assumes "drawable L rank"
  shows "\<exists>flat. flatChannels localeCompare L = Some flat \<and> distinct flat \<and> set flat = set L \<and> parents_first {-1} flat"
proof -
  define kids where "kids = (\<lambda>p. sortLevel localeCompare (or_else (map_get (childrenOf L) p) []))"
  define M where "M = Max ((\<lambda>c. rank (ch_id c)) ` set L)"
  have M: "\<forall>c \<in> set L. rank (ch_id c) \<le> M" by (simp add: M_def)
  have kids: "mset (kids p) = mset (filter (\<lambda>c. parent_key c = p) L)" for p
    by (simp add: kids_def sortLevel_def get_childrenOf)
  have top: "set (kids (-1)) = children L (-1)" "distinct (kids (-1))"
    using assms by (simp_all add: kids_def sortLevel_def get_childrenOf drawable_def distinct_map)
  have "set (kids (-1)) \<subseteq> set L" "\<forall>c \<in> set (kids (-1)). parent_key c = -1 \<and> M - rank (ch_id c) < Suc M"
    by (auto simp: top(1))
  from visit_level [OF assms kids M this(1) top(2) this(2), unfolded top(1)]
  obtain fs where fs: "visit kids (kids (-1)) = Some fs" "distinct fs" "set fs = below L (children L (-1))" "parents_first {-1} fs"
    by blast
  moreover have "below L (children L (-1)) = set L"
    using reaches_root [OF assms] by (auto simp: below_def)
  ultimately show ?thesis by (simp add: flatChannels_def Let_def kids_def)
qed


lemma filterVisible_drawable:
  assumes "tree_like channels rank" "\<forall>c \<in> set channels. ch_id c \<noteq> -1"
  shows "drawable (filterVisibleChannels channels users av) rank"
proof -
  let ?out = "filterVisibleChannels channels users av" and ?V = "set (visible_ids channels users av)"
  have ids: "ch_id ` set ?out = ?V \<inter> ch_id ` set channels"
    using arg_cong [OF filterVisible_ids [of channels users av], of set] by auto
  have V: "?V \<subseteq> ch_id ` set channels" by (auto simp: visible_ids_def)
  have "distinct (map ch_id ?out)"
    using assms(1) unfolding filterVisible_ids by (simp add: tree_like_def)
  moreover have "ch_id c \<noteq> -1 \<and> (parent_key c = -1 \<or> (parent_key c \<in> ch_id ` set ?out \<and> rank (parent_key c) < rank (ch_id c)))"
    if c: "c \<in> set ?out" for c
  proof -
    have "ch_id c \<in> ch_id ` set channels" using ids c by blast
    then have "ch_id c \<noteq> -1" using assms(2) by auto
    moreover obtain d where near: "is_nearest (parent_rel channels) ?V (ch_id c) (ch_parent_id c)"
      using filterVisible_cases [OF assms(1) c] by metis
    moreover have "p \<in> ch_id ` set ?out \<and> rank p < rank (ch_id c)" if "ch_parent_id c = Some p" for p
      using near that rank_trancl [OF assms(1)] V ids by (auto simp: is_nearest_def)
    ultimately show ?thesis by (cases "ch_parent_id c") (auto simp: parent_key_def)
  qed
  ultimately show ?thesis by (auto simp: drawable_def)
qed

text \<open>
  Hiding empty channels hides no one: the list drawn from the channels that are kept is finite, shows
  each of them exactly once, and shows none before the channel it hangs below.
\<close>

theorem every_visible_channel_listed:
  assumes "tree_like channels rank" "\<forall>c \<in> set channels. ch_id c \<noteq> -1"
  shows "\<exists>flat. flatChannels localeCompare (filterVisibleChannels channels users av) = Some flat \<and>
    distinct flat \<and> set flat = set (filterVisibleChannels channels users av) \<and> parents_first {-1} flat"
  by (rule flatChannels_lists_all [OF filterVisible_drawable [OF assms]])

theorem every_visible_channel_listed_witness:
  "\<exists>flat. flatChannels (\<lambda>a b. 0) (filterVisibleChannels example_channels [] example_view) = Some flat \<and> ch_id ` set flat = {2, 3}"
proof -
  have "\<forall>c \<in> set example_channels. ch_id c \<noteq> -1" by (simp add: example_channels_def example_channel_def)
  from every_visible_channel_listed [OF example_tree this] obtain flat where
    "flatChannels (\<lambda>a b. 0) (filterVisibleChannels example_channels [] example_view) = Some flat"
    "set flat = set (filterVisibleChannels example_channels [] example_view)" by blast
  moreover have "map ch_id (filterVisibleChannels example_channels [] example_view) = [2, 3]" by code_simp
  ultimately show ?thesis by (metis list.set_map list.simps(15) list.set(1))
qed

section \<open>Dropping a channel\<close>

text \<open>The channel list once the server has applied the updates.\<close>

definition apply_updates :: "(int \<times> int) list \<Rightarrow> channel_entry \<Rightarrow> channel_entry" where
  "apply_updates ups c = (case map_of ups (ch_id c) of None \<Rightarrow> c | Some pos \<Rightarrow> c\<lparr>ch_position := pos\<rparr>)"

lemma by_position_compares: "compares_by ch_position (by_position localeCompare)"
  by (auto simp: compares_by_def by_position_def)

lemma find_index_Some: "find_index p xs = Some i \<Longrightarrow> i < length xs \<and> p (xs ! i)"
  by (induction xs arbitrary: i) (auto split: if_splits)

lemma find_index_None: "find_index p xs = None \<longleftrightarrow> (\<forall>x \<in> set xs. \<not> p x)"
  by (induction xs) auto

lemma filter_splice: "\<not> P y \<Longrightarrow> filter P (take n xs @ y # drop n xs) = filter P xs"
  by (metis append_take_drop_id filter.simps(2) filter_append)

lemma new_order_cases:
  assumes "new_order localeCompare channels ev = Some order"
  obtains dragged rest i where "dragged \<in> set channels" "ch_id dragged = de_draggedId ev"
    "rest = filter (\<lambda>c. ch_id c \<noteq> de_draggedId ev) (siblings_of localeCompare channels dragged)"
    "i < length rest" "ch_id (rest ! i) = de_targetId ev"
    "order = (if de_insertBefore ev then take i rest @ dragged # drop i rest else take (Suc i) rest @ dragged # drop (Suc i) rest)"
  using assms that by (auto simp: new_order_def Let_def split: option.splits if_splits dest!: find_index_Some find_Some_in)

lemma order_positions:
  assumes "new_order localeCompare channels ev = Some order" "distinct (map ch_id order)" "i < length order"
  shows "ch_position (apply_updates (handleReorder localeCompare channels ev) (order ! i)) = int i * 100"
proof -
  let ?ups = "map (\<lambda>(c, i). (ch_id c, int i * 100)) (filter (\<lambda>(c, i). ch_position c \<noteq> int i * 100) (zip order [0..<length order]))"
  have ups: "(ch_id (order ! i), p) \<in> set ?ups \<longleftrightarrow> p = int i * 100 \<and> ch_position (order ! i) \<noteq> p" for p
  proof -
    have "j = i" if "j < length order" "ch_id (order ! j) = ch_id (order ! i)" for j
      using assms(2,3) that by (simp add: distinct_conv_nth) metis
    moreover have "(order ! i, i) \<in> set (zip order [0..<length order])" using assms(3) by (force simp: set_zip)
    ultimately show ?thesis by (force simp: set_zip image_iff)
  qed
  show ?thesis
  proof (cases "map_of ?ups (ch_id (order ! i))")
    case None
    then have "ch_position (order ! i) = int i * 100" using ups [of "int i * 100"] by (auto simp: map_of_eq_None_iff image_iff)
    then show ?thesis using None assms(1) by (simp add: apply_updates_def handleReorder_def)
  next
    case (Some p)
    then have "p = int i * 100" using ups [of p] by (auto dest: map_of_SomeD)
    then show ?thesis using Some assms(1) by (simp add: apply_updates_def handleReorder_def)
  qed
qed


lemma order_siblings:
  assumes "new_order localeCompare channels ev = Some order" "distinct (map ch_id channels)"
    "dragged \<in> set channels" "ch_id dragged = de_draggedId ev"
  shows "mset order = mset (siblings_of localeCompare channels dragged)" "distinct (map ch_id order)"
proof -
  from assms(1) obtain d rest i where d: "d \<in> set channels" "ch_id d = de_draggedId ev"
      "rest = filter (\<lambda>c. ch_id c \<noteq> de_draggedId ev) (siblings_of localeCompare channels d)"
      "order = (if de_insertBefore ev then take i rest @ d # drop i rest else take (Suc i) rest @ d # drop (Suc i) rest)"
    by (rule new_order_cases)
  have d_eq: "d = dragged" using d(1,2) assms(2-4) by (simp add: distinct_map inj_on_def)
  let ?sibs = "siblings_of localeCompare channels dragged"
  have sibs: "dragged \<in> set ?sibs" "distinct (map ch_id ?sibs)"
    using assms(2,3) by (auto simp: siblings_of_def distinct_map inj_on_def)
  have "mset order = mset (dragged # rest)"
    using d(4) d_eq by (metis append_take_drop_id mset.simps(2) mset_append union_mset_add_mset_right)
  also have "set (dragged # rest) = set ?sibs"
    using sibs assms(4) unfolding d(3) d_eq by (auto simp: distinct_map inj_on_def)
  then have "mset (dragged # rest) = mset ?sibs"
    using sibs(2) assms(4) d(3) d_eq by (subst set_eq_iff_mset_eq_distinct [symmetric]) (auto simp: distinct_map)
  finally show "mset order = mset ?sibs" .
  then show "distinct (map ch_id order)" using sibs(2) by (metis mset_eq_imp_distinct_iff mset_map)
qed


lemma siblings_update:
  assumes "\<And>c. ch_id (f c) = ch_id c \<and> ch_parent_id (f c) = ch_parent_id c"
  shows "siblings_of localeCompare (map f channels) (f dragged) =
    js_sort (by_position localeCompare)
      (map f (filter (\<lambda>c. ch_parent_id c = ch_parent_id dragged \<or>
         (ch_parent_id c = Some (ch_id c) \<and> ch_parent_id dragged = Some (ch_id dragged))) channels))"
  by (simp add: siblings_of_def filter_map o_def assms)

lemma updated_order:
  assumes "new_order localeCompare channels ev = Some order" "distinct (map ch_id channels)"
    "dragged \<in> set channels" "ch_id dragged = de_draggedId ev" "f = apply_updates (handleReorder localeCompare channels ev)"
  shows "siblings_of localeCompare (map f channels) (f dragged) = map f order"
proof -
  note order = order_siblings [OF assms(1-4)]
  have keep: "ch_id (f c) = ch_id c \<and> ch_parent_id (f c) = ch_parent_id c" for c
    by (simp add: assms(5) apply_updates_def split: option.splits)
  have "map ch_position (map f order) = map (\<lambda>i. int i * 100) [0..<length order]"
    using order_positions [OF assms(1) order(2)] by (auto intro!: nth_equalityI simp: assms(5))
  moreover have "sorted (map (\<lambda>i. int i * 100) [0..<n])" "distinct (map (\<lambda>i. int i * 100) [0..<n])" for n
    by (auto simp: sorted_iff_nth_mono distinct_map inj_on_def)
  ultimately show ?thesis
    unfolding siblings_update [OF keep] using order(1)
    by (intro js_sort_unique [OF by_position_compares]) (simp_all add: siblings_of_def)
qed

text \<open>
  Dropping a channel on a sibling puts it where it was dropped: once the updates are applied, the
  siblings sorted by position show the dragged channel directly before or behind the target, and all
  others in the order they had.
\<close>

theorem reorder_lands:
  assumes "distinct (map ch_id channels)" "dragged \<in> set channels" "target \<in> set (siblings_of localeCompare channels dragged)"
    "target \<noteq> dragged" "ev = \<lparr>de_draggedId = ch_id dragged, de_targetId = ch_id target, de_insertBefore = before\<rparr>"
    "f = apply_updates (handleReorder localeCompare channels ev)"
    "ids = map ch_id (siblings_of localeCompare (map f channels) (f dragged))"
  shows "(\<exists>pre post. ids = pre @ (if before then [ch_id dragged, ch_id target] else [ch_id target, ch_id dragged]) @ post) \<and>
    filter (\<lambda>i. i \<noteq> ch_id dragged) ids =
      filter (\<lambda>i. i \<noteq> ch_id dragged) (map ch_id (siblings_of localeCompare channels dragged))"
proof -
  have same: "c = dragged" if "c \<in> set channels" "ch_id c = ch_id dragged" for c
    using assms(1,2) that by (simp add: distinct_map inj_on_def)
  let ?rest = "filter (\<lambda>c. ch_id c \<noteq> ch_id dragged) (siblings_of localeCompare channels dragged)"
  have found: "List.find (\<lambda>c. ch_id c = ch_id dragged) channels = Some dragged"
    using assms(2) same by (cases "List.find (\<lambda>c. ch_id c = ch_id dragged) channels") (auto simp: find_None_iff dest: find_Some_in)
  have "target \<in> set ?rest" using assms(3,4) same by (auto simp: siblings_of_def)
  then obtain i where i: "find_index (\<lambda>c. ch_id c = ch_id target) ?rest = Some i"
    using find_index_None [of "\<lambda>c. ch_id c = ch_id target" ?rest] by auto
  then have ri: "i < length ?rest" "ch_id (?rest ! i) = ch_id target" by (auto dest: find_index_Some)
  let ?order = "if before then take i ?rest @ dragged # drop i ?rest else take (Suc i) ?rest @ dragged # drop (Suc i) ?rest"
  have order: "new_order localeCompare channels ev = Some ?order"
    using found i by (simp add: new_order_def Let_def assms(5))
  then have ids: "ids = map ch_id ?order"
    using updated_order [OF order assms(1,2) _ assms(6)]
    by (simp add: assms(5-7) apply_updates_def o_def option.case_eq_if)
  have "filter (\<lambda>c. ch_id c \<noteq> ch_id dragged) ?order = ?rest"
    by (simp add: filter_splice del: filter_append)
  then have "filter (\<lambda>i. i \<noteq> ch_id dragged) ids = map ch_id ?rest"
    by (simp add: ids filter_map o_def)
  moreover have "\<exists>pre post. ids = pre @ (if before then [ch_id dragged, ch_id target] else [ch_id target, ch_id dragged]) @ post"
    using ri by (intro exI [of _ "map ch_id (take i ?rest)"] exI [of _ "map ch_id (drop (Suc i) ?rest)"])
      (simp add: ids take_Suc_conv_app_nth flip: Cons_nth_drop_Suc)
  ultimately show ?thesis by (simp add: filter_map o_def)
qed

theorem reorder_lands_witness:
  "\<exists>pre post. map ch_id (siblings_of (\<lambda>a b. 0)
       (map (apply_updates (handleReorder (\<lambda>a b. 0) example_channels \<lparr>de_draggedId = 1, de_targetId = 3, de_insertBefore = False\<rparr>))
         example_channels)
       (apply_updates (handleReorder (\<lambda>a b. 0) example_channels \<lparr>de_draggedId = 1, de_targetId = 3, de_insertBefore = False\<rparr>)
         (example_channel 1 (Some 0)))) = pre @ [3, 1] @ post"
proof -
  have "distinct (map ch_id example_channels)" "example_channel 1 (Some 0) \<in> set example_channels"
      "example_channel 3 (Some 0) \<in> set (siblings_of (\<lambda>a b. 0) example_channels (example_channel 1 (Some 0)))"
      "example_channel 3 (Some 0) \<noteq> example_channel 1 (Some 0)"
    by (simp_all add: example_channels_def example_channel_def siblings_of_def)
  from reorder_lands [OF this refl refl refl, of False] show ?thesis by (simp add: example_channel_def)
qed

section \<open>The tree viewer\<close>

lemma sum_then_collect:
  assumes "sum_counts L members level = Some n"
  shows "\<exists>us. collect_users L members level = Some us \<and> length us = n"
proof (rule sum_counts.raw_induct [where P = "\<lambda>L members level n. \<exists>us. collect_users L members level = Some us \<and> length us = n", OF _ assms])
  fix f L members level n
  assume IH: "\<And>L members level n. f L members level = Some n \<Longrightarrow> \<exists>us. collect_users L members level = Some us \<and> length us = n"
    and "(case level of [] \<Rightarrow> Some 0 | ch # rest \<Rightarrow>
       Option.bind (f L members (direct_children L (ch_id ch))) (\<lambda>below.
         Option.bind (f L members rest) (\<lambda>more. Some (length (or_else (map_get members (ch_id ch)) []) + below + more)))) = Some n"
  then show "\<exists>us. collect_users L members level = Some us \<and> length us = n"
    by (cases level) (fastforce simp: bind_eq_Some_conv dest: IH)+
qed

lemma collect_then_sum:
  assumes "collect_users L members level = Some us"
  shows "sum_counts L members level = Some (length us)"
proof (rule collect_users.raw_induct [where P = "\<lambda>L members level us. sum_counts L members level = Some (length us)", OF _ assms])
  fix f L members level us
  assume IH: "\<And>L members level us. f L members level = Some us \<Longrightarrow> sum_counts L members level = Some (length us)"
    and "(case level of [] \<Rightarrow> Some [] | ch # rest \<Rightarrow>
       Option.bind (f L members (direct_children L (ch_id ch))) (\<lambda>below.
         Option.bind (f L members rest) (\<lambda>more. Some (or_else (map_get members (ch_id ch)) [] @ below @ more)))) = Some us"
  then show "sum_counts L members level = Some (length us)"
    by (cases level) (auto simp: bind_eq_Some_conv dest!: IH)
qed

text \<open>
  The member count of a folder is the number of avatars it stacks, whatever the channels look like:
  either both recursions end, with a count that is the length of the list, or neither does.
\<close>

theorem folder_count_matches_avatars:
  "subtreeUserCount channels members i = map_option length (subtreeUsers channels members i)"
proof (cases "collect_users channels members (direct_children channels i)")
  case None
  then have "sum_counts channels members (direct_children channels i) = None"
    using sum_then_collect by (metis not_None_eq)
  then show ?thesis using None by (simp add: subtreeUserCount_def subtreeUsers_def)
next
  case (Some us)
  then show ?thesis by (simp add: subtreeUserCount_def subtreeUsers_def collect_then_sum)
qed

text \<open>
  With the root hidden, the channels below it become roots, of which the tree viewer draws only the
  first: the other channels with members cannot be reached.
\<close>

lemma classic_loses_channels:
  "map_option (map ch_id) (classic_rows (\<lambda>a b. 0) [0, 1, 2, 3] (filterVisibleChannels example_channels [] example_view) []) = Some [2]"
  by code_simp

end
