(* ===== verification/LazyBlobs.thy ===== *)
theory LazyBlobs
  imports JsSort
begin

text \<open>
  Avatars, channel descriptions and user comments that are fetched when they are shown:
  \<open>lazyBlobs.ts\<close>, with the address handling of \<open>utils/imageBlobs.ts\<close>.

  The state holds the three caches, the fetches under way, and the object addresses the platform has
  handed out and released; \<open>createObjectURL\<close> returns a new address each time.  Asynchronous functions
  are cut at their awaits.  The caches stay bounded (\<open>caches_bounded\<close>) and hold the keys fetched most
  recently (\<open>cache_holds_latest\<close>); every address that was created is either cached or released, never
  both (\<open>addresses_accounted\<close>); one fetch per key is under way at a time (\<open>one_fetch_per_key\<close>).
\<close>

section \<open>State\<close>

record cached_blob =
  cb_size :: nat
  cb_value :: string

definition CACHE_MAX :: nat where
  "CACHE_MAX = 200"

definition TEXTURE_DOWNSCALE_THRESHOLD :: nat where
  "TEXTURE_DOWNSCALE_THRESHOLD = 256 * 1024"

type_synonym blob_cache = "(int, cached_blob) jmap"

datatype blob_kind = Avatar | Description | UserComment

text \<open>
  What a call under way waits for: the reply of the command, the address of the decoded image, or,
  for bytes that were handed in, the address alone.
\<close>

datatype blob_task =
    AwaitReply blob_kind int nat
  | AwaitUrl int nat
  | AwaitInstall int nat

text \<open>The module variables: a cache and a map of pending promises for each kind.\<close>

record blob_world =
  bw_cache :: "blob_kind \<Rightarrow> blob_cache"
  bw_pending :: "blob_kind \<Rightarrow> (int, nat) jmap"
  bw_tasks :: "(nat, blob_task) jmap"
  bw_next :: nat            \<comment> \<open>next promise\<close>
  bw_created :: nat         \<comment> \<open>object addresses created so far\<close>
  bw_revoked :: "string list"

definition blob_initial :: blob_world where
  "blob_initial = \<lparr>bw_cache = (\<lambda>k. []), bw_pending = (\<lambda>k. []), bw_tasks = [], bw_next = 0, bw_created = 0, bw_revoked = []\<rparr>"

section \<open>Addresses\<close>

definition object_url :: "nat \<Rightarrow> string" where
  "object_url n = ''blob:'' @ show_nat n"

definition createObjectURL :: "blob_world \<Rightarrow> string \<times> blob_world" where
  "createObjectURL w = (object_url (bw_created w), w\<lparr>bw_created := bw_created w + 1\<rparr>)"

definition revokeDisplayUrl :: "string option \<Rightarrow> string list" where
  "revokeDisplayUrl url =
     (case url of None \<Rightarrow> [] | Some u \<Rightarrow> if starts_with u ''blob:'' then [u] else [])"

section \<open>The caches\<close>

text \<open>The new cache and the addresses released.\<close>

definition evict_oldest :: "blob_cache \<Rightarrow> blob_cache \<times> string list" where
  "evict_oldest cache =
     (if CACHE_MAX < length cache then
        (case map_keys cache of
           [] \<Rightarrow> (cache, [])
         | oldestKey # _ \<Rightarrow>
             (map_del oldestKey cache, revokeDisplayUrl (map_option cb_value (map_get cache oldestKey))))
      else (cache, []))"

definition lruTouch :: "int \<Rightarrow> cached_blob \<Rightarrow> blob_cache \<Rightarrow> blob_cache \<times> string list" where
  "lruTouch key entry cache =
     (let replaced = map_get cache key;
          released = (case replaced of
                        None \<Rightarrow> []
                      | Some r \<Rightarrow> if cb_value r \<noteq> cb_value entry then revokeDisplayUrl (Some (cb_value r)) else []);
          (cache2, released2) = evict_oldest (map_set key entry (map_del key cache))
      in (cache2, released @ released2))"

definition touch :: "blob_kind \<Rightarrow> int \<Rightarrow> cached_blob \<Rightarrow> blob_world \<Rightarrow> blob_world" where
  "touch k key entry w =
     (let (cache, released) = lruTouch key entry (bw_cache w k)
      in w\<lparr>bw_cache := (bw_cache w)(k := cache), bw_revoked := bw_revoked w @ released\<rparr>)"

text \<open>\<open>getCachedUserAvatar\<close>, \<open>getCachedChannelDescription\<close> and \<open>getCachedUserComment\<close>.\<close>

definition getCached :: "blob_kind \<Rightarrow> int \<Rightarrow> nat option \<Rightarrow> blob_world \<Rightarrow> string option" where
  "getCached k key bytes w =
     (case bytes of
        None \<Rightarrow> None
      | Some n \<Rightarrow> if n = 0 then None
                  else case map_get (bw_cache w k) key of
                         None \<Rightarrow> None
                       | Some c \<Rightarrow> if cb_size c = n then Some (cb_value c) else None)"

section \<open>Fetching\<close>

text \<open>Keys for which a fetch resolves to \<open>null\<close> without a call.\<close>

definition no_fetch :: "blob_kind \<Rightarrow> int \<Rightarrow> bool" where
  "no_fetch k key = (case k of Avatar \<Rightarrow> key = 0 | Description \<Rightarrow> False | UserComment \<Rightarrow> key \<le> 0)"

datatype command =
    GetRegisteredUserTexture int
  | GetUserTexture int
  | GetChannelDescription int
  | GetUserComment int

definition fetch_command :: "blob_kind \<Rightarrow> int \<Rightarrow> command" where
  "fetch_command k key =
     (case k of
        Avatar \<Rightarrow> if key < 0 then GetRegisteredUserTexture (- key - 1) else GetUserTexture key
      | Description \<Rightarrow> GetChannelDescription key
      | UserComment \<Rightarrow> GetUserComment key)"

text \<open>The promise a fetch returns, and the command it sends; \<open>None\<close> resolves to \<open>null\<close> at once.\<close>

definition fetch :: "blob_kind \<Rightarrow> int \<Rightarrow> nat \<Rightarrow> blob_world \<Rightarrow> nat option \<times> blob_world \<times> command list" where
  "fetch k key expectedSize w =
     (if no_fetch k key then (None, w, [])
      else case map_get (bw_pending w k) key of
             Some existing \<Rightarrow> (Some existing, w, [])
           | None \<Rightarrow>
               (Some (bw_next w),
                w\<lparr>bw_pending := (bw_pending w)(k := map_set key (bw_next w) (bw_pending w k)),
                  bw_tasks := map_set (bw_next w) (AwaitReply k key expectedSize) (bw_tasks w),
                  bw_next := bw_next w + 1\<rparr>,
                [fetch_command k key]))"

definition finish_fetch :: "nat \<Rightarrow> blob_kind \<Rightarrow> int \<Rightarrow> blob_world \<Rightarrow> blob_world" where
  "finish_fetch h k key w = w\<lparr>bw_tasks := map_del h (bw_tasks w), bw_pending := (bw_pending w)(k := map_del key (bw_pending w k))\<rparr>"

text \<open>
  The reply of the command: \<open>None\<close> for a failed call and for \<open>null\<close>.  The value the promise
  resolves to is given once it is settled.  An avatar goes on to the decoder.
\<close>

definition reply_done :: "nat \<Rightarrow> string option \<Rightarrow> blob_world \<Rightarrow> string option option \<times> blob_world" where
  "reply_done h reply w =
     (case map_get (bw_tasks w) h of
        Some (AwaitReply k key expectedSize) \<Rightarrow>
          (case reply of
             None \<Rightarrow> (Some None, finish_fetch h k key w)
           | Some content \<Rightarrow>
               if content = [] then (Some None, finish_fetch h k key w)
               else if k = Avatar
               then (None, w\<lparr>bw_tasks := map_set h (AwaitUrl key expectedSize) (bw_tasks w)\<rparr>)
               else (Some (Some content), finish_fetch h k key (touch k key \<lparr>cb_size = expectedSize, cb_value = content\<rparr> w)))
      | _ \<Rightarrow> (None, w))"

definition url_done :: "nat \<Rightarrow> blob_world \<Rightarrow> string option option \<times> blob_world" where
  "url_done h w =
     (case map_get (bw_tasks w) h of
        Some (AwaitUrl key expectedSize) \<Rightarrow>
          (let (url, w1) = createObjectURL w
           in (Some (Some url), finish_fetch h Avatar key (touch Avatar key \<lparr>cb_size = expectedSize, cb_value = url\<rparr> w1)))
      | Some (AwaitInstall key bytes) \<Rightarrow>
          (let (url, w1) = createObjectURL (w\<lparr>bw_tasks := map_del h (bw_tasks w)\<rparr>)
           in (None, touch Avatar key \<lparr>cb_size = bytes, cb_value = url\<rparr> w1))
      | _ \<Rightarrow> (None, w))"

text \<open>Bytes that are handed in are installed at once, or after they were scaled down.\<close>

definition install_avatar :: "int \<Rightarrow> nat \<Rightarrow> blob_world \<Rightarrow> blob_world" where
  "install_avatar session bytes w =
     (if bytes \<le> TEXTURE_DOWNSCALE_THRESHOLD
      then (let (url, w1) = createObjectURL w in touch Avatar session \<lparr>cb_size = bytes, cb_value = url\<rparr> w1)
      else w\<lparr>bw_tasks := map_set (bw_next w) (AwaitInstall session bytes) (bw_tasks w), bw_next := bw_next w + 1\<rparr>)"

definition setUserAvatarBytes :: "int \<Rightarrow> nat \<Rightarrow> blob_world \<Rightarrow> blob_world" where
  "setUserAvatarBytes session bytes w =
     (if bytes = 0 then w
      else case map_get (bw_cache w Avatar) session of
             Some c \<Rightarrow> if cb_size c = bytes then w else install_avatar session bytes w
           | None \<Rightarrow> install_avatar session bytes w)"

text \<open>\<open>prefetchUserAvatar\<close> (positive sessions only) and \<open>prefetchChannelDescription\<close>.\<close>

definition prefetch :: "blob_kind \<Rightarrow> int \<Rightarrow> nat option \<Rightarrow> blob_world \<Rightarrow> blob_world" where
  "prefetch k key bytes w =
     (case bytes of
        None \<Rightarrow> w
      | Some n \<Rightarrow>
          if n = 0 \<or> (k = Avatar \<and> key \<le> 0) \<or> or_else (getCached k key bytes w) [] \<noteq> [] then w
          else fst (snd (fetch k key n w)))"

section \<open>Hooks\<close>

text \<open>
  A mounted \<open>useUserAvatar\<close>, \<open>useUserComment\<close> or \<open>useChannelDescription\<close>: what it shows and the
  promise whose value it will show; the cleanup of an effect forgets the promise.
\<close>

record blob_hook =
  bh_shown :: "string option"
  bh_waiting :: "nat option"

definition run_effect ::
  "blob_kind \<Rightarrow> bool \<Rightarrow> int option \<Rightarrow> nat option \<Rightarrow> blob_world \<Rightarrow> blob_hook \<times> blob_world" where
  "run_effect k enabled key bytes w =
     (case (key, bytes) of
        (Some i, Some n) \<Rightarrow>
          if \<not> enabled \<or> no_fetch k i \<or> n = 0 then (\<lparr>bh_shown = None, bh_waiting = None\<rparr>, w)
          else (case getCached k i (Some n) w of
                  Some v \<Rightarrow> if v \<noteq> [] then (\<lparr>bh_shown = Some v, bh_waiting = None\<rparr>, w)
                            else let (p, w1, cs) = fetch k i n w in (\<lparr>bh_shown = None, bh_waiting = p\<rparr>, w1)
                | None \<Rightarrow> let (p, w1, cs) = fetch k i n w in (\<lparr>bh_shown = None, bh_waiting = p\<rparr>, w1))
      | _ \<Rightarrow> (\<lparr>bh_shown = None, bh_waiting = None\<rparr>, w))"

definition useUserAvatar :: "int option \<Rightarrow> nat option \<Rightarrow> blob_world \<Rightarrow> blob_hook \<times> blob_world" where
  "useUserAvatar session textureSize = run_effect Avatar True session textureSize"

definition useUserComment :: "int option \<Rightarrow> nat option \<Rightarrow> bool \<Rightarrow> blob_world \<Rightarrow> blob_hook \<times> blob_world" where
  "useUserComment session commentSize enabled = run_effect UserComment enabled session commentSize"

definition useChannelDescription :: "int option \<Rightarrow> nat option \<Rightarrow> blob_world \<Rightarrow> blob_hook \<times> blob_world" where
  "useChannelDescription channelId descriptionSize = run_effect Description True channelId descriptionSize"

definition hook_effect ::
  "blob_kind \<Rightarrow> bool \<Rightarrow> int option \<Rightarrow> nat option \<Rightarrow> blob_world \<Rightarrow> blob_hook \<times> blob_world" where
  "hook_effect k enabled key bytes =
     (case k of
        Avatar \<Rightarrow> useUserAvatar key bytes
      | UserComment \<Rightarrow> useUserComment key bytes enabled
      | Description \<Rightarrow> useChannelDescription key bytes)"

lemma hook_effect_run: "hook_effect k enabled key bytes w = run_effect k (k = UserComment \<longrightarrow> enabled) key bytes w"
  by (cases k) (simp_all add: hook_effect_def useUserAvatar_def useUserComment_def useChannelDescription_def)

definition deliver :: "nat \<Rightarrow> string option option \<Rightarrow> (nat, blob_hook) jmap \<Rightarrow> (nat, blob_hook) jmap" where
  "deliver h result hooks =
     (case result of
        None \<Rightarrow> hooks
      | Some v \<Rightarrow> map (\<lambda>(i, hk). (i, if bh_waiting hk = Some h then \<lparr>bh_shown = v, bh_waiting = None\<rparr> else hk)) hooks)"

section \<open>Events\<close>

datatype blob_event =
    Effect nat blob_kind bool "int option" "nat option"
  | Unmount nat
  | Prefetch blob_kind int "nat option"
  | SetBytes int nat
  | Replied nat "string option"
  | Decoded nat

fun blob_step :: "blob_world \<times> (nat, blob_hook) jmap \<Rightarrow> blob_event \<Rightarrow> blob_world \<times> (nat, blob_hook) jmap" where
  "blob_step (w, hooks) (Effect i k enabled key bytes) =
     (let (hk, w1) = hook_effect k enabled key bytes w in (w1, map_set i hk hooks))"
| "blob_step (w, hooks) (Unmount i) = (w, map_del i hooks)"
| "blob_step (w, hooks) (Prefetch k key bytes) = (prefetch k key bytes w, hooks)"
| "blob_step (w, hooks) (SetBytes session bytes) = (setUserAvatarBytes session bytes w, hooks)"
| "blob_step (w, hooks) (Replied h reply) = (let (r, w1) = reply_done h reply w in (w1, deliver h r hooks))"
| "blob_step (w, hooks) (Decoded h) = (let (r, w1) = url_done h w in (w1, deliver h r hooks))"

section \<open>One touch\<close>

lemma map_del_fresh_set: "map_set key e (map_del key c) = map_del key c @ [(key, e)]"
  by (rule map_set_fresh) (simp add: map_has_def)

lemma map_del_head: "map_wf ((k, e) # c) \<Longrightarrow> map_del k ((k, e) # c) = c"
  by (auto simp: map_wf_def map_del_def image_iff intro!: filter_True)

lemma map_wf_snoc: "map_wf c \<Longrightarrow> map_wf (map_del key c @ [(key, e)])"
  by (metis map_del_fresh_set map_wf_del map_wf_set)

text \<open>A touch moves the key to the end and drops the first entry of a cache that grew too long.\<close>

lemma evict_oldest_eq:
  assumes "map_wf c"
  shows "evict_oldest c =
    (if CACHE_MAX < length c then (tl c, revokeDisplayUrl (Some (cb_value (snd (hd c))))) else (c, []))"
proof (cases c)
  case (Cons p c')
  obtain k e where p: "p = (k, e)" by (cases p)
  then show ?thesis using assms map_del_head [of k e c'] unfolding Cons p by (simp add: evict_oldest_def map_keys_def)
qed (simp add: evict_oldest_def)

lemma lruTouch_cache:
  assumes "map_wf c"
  shows "fst (lruTouch key e c) =
    (let xs = map_del key c @ [(key, e)] in if CACHE_MAX < length xs then tl xs else xs)"
  using evict_oldest_eq [OF map_wf_snoc [OF assms, of key e]]
  by (simp add: lruTouch_def map_del_fresh_set Let_def case_prod_beta)

definition cache_ok :: "blob_cache \<Rightarrow> bool" where
  "cache_ok c \<longleftrightarrow> map_wf c \<and> length c \<le> CACHE_MAX"

lemma map_wf_tl: "map_wf c \<Longrightarrow> map_wf (tl c)"
  by (simp add: map_wf_def map_tl distinct_tl)

lemma lruTouch_ok:
  assumes "cache_ok c"
  shows "cache_ok (fst (lruTouch key e c))"
proof -
  have "length (map_del key c) \<le> CACHE_MAX"
    using assms unfolding cache_ok_def map_del_def by (meson length_filter_le order_trans)
  then show ?thesis
    using assms map_wf_snoc [of c key e] by (auto simp: cache_ok_def lruTouch_cache Let_def intro: map_wf_tl)
qed

lemma map_get_snoc: "key \<notin> fst ` set c \<Longrightarrow> map_get (c @ [(key, e)]) key = Some e"
  by (induction c) auto

lemma lruTouch_get:
  assumes "map_wf c"
  shows "map_get (fst (lruTouch key e c)) key = Some e"
proof -
  have "key \<notin> fst ` set (map_del key c)" by simp
  then show ?thesis
    by (cases "map_del key c") (auto simp: lruTouch_cache [OF assms] Let_def CACHE_MAX_def map_get_snoc)
qed

section \<open>Addresses\<close>

abbreviation cached_values :: "blob_cache \<Rightarrow> string multiset" where
  "cached_values c \<equiv> image_mset (\<lambda>p. cb_value (snd p)) (mset c)"

lemma del_values:
  assumes "map_wf c"
  shows "cached_values (map_del key c) + mset (map cb_value (case map_get c key of None \<Rightarrow> [] | Some r \<Rightarrow> [r])) = cached_values c"
  using assms
proof (induction c)
  case (Cons p c)
  obtain k e where p: "p = (k, e)" by (cases p)
  show ?case
  proof (cases "k = key")
    case True
    then show ?thesis using Cons.prems map_del_head [of k e c] unfolding p by simp
  next
    case False
    then have "map_del key (p # c) = p # map_del key c" by (simp add: p map_del_def)
    then show ?thesis using Cons False by (simp add: p map_wf_def)
  qed
qed (simp add: map_del_def)

text \<open>Of a cache of addresses, what a touch releases is what it no longer holds.\<close>

lemma lruTouch_values:
  assumes "map_wf c" "\<forall>v \<in># cached_values c. starts_with v ''blob:''" "starts_with (cb_value e) ''blob:''" "cb_value e \<notin># cached_values c"
  shows "cached_values (fst (lruTouch key e c)) + mset (snd (lruTouch key e c)) = add_mset (cb_value e) (cached_values c)"
proof -
  let ?xs = "map_del key c @ [(key, e)]"
  let ?released = "case map_get c key of None \<Rightarrow> [] | Some r \<Rightarrow> [cb_value r]"
  have r: "cb_value r \<noteq> cb_value e \<and> starts_with (cb_value r) ''blob:''" if "map_get c key = Some r" for r
    using map_get_in_set [OF that] assms(2,4) by force
  have released: "snd (lruTouch key e c) =
      ?released @ (if CACHE_MAX < length ?xs then revokeDisplayUrl (Some (cb_value (snd (hd ?xs)))) else [])"
    using r evict_oldest_eq [OF map_wf_snoc [OF assms(1), of key e]]
    by (auto simp: lruTouch_def map_del_fresh_set case_prod_beta revokeDisplayUrl_def split: option.splits)
  have vals: "cached_values ?xs + mset ?released = add_mset (cb_value e) (cached_values c)"
    using del_values [OF assms(1), of key] by (auto split: option.splits)
  have "hd ?xs \<in> set ?xs" by (intro hd_in_set) simp
  then have "hd ?xs \<in> insert (key, e) (set c)" by (auto simp: map_del_def)
  then have "starts_with (cb_value (snd (hd ?xs))) ''blob:''" using assms(2,3) by auto
  moreover have "cached_values ?xs = add_mset (cb_value (snd (hd ?xs))) (cached_values (tl ?xs))"
    by (cases ?xs) auto
  ultimately show ?thesis
    using vals by (simp add: lruTouch_cache [OF assms(1)] released Let_def revokeDisplayUrl_def)
qed


section \<open>Along a run\<close>

text \<open>Every step is a sequence of elementary changes: of the pending calls, and touches.\<close>

definition same_caches :: "blob_world \<Rightarrow> blob_world \<Rightarrow> bool" where
  "same_caches w w' \<longleftrightarrow> bw_cache w' = bw_cache w \<and> bw_created w' = bw_created w \<and> bw_revoked w' = bw_revoked w"

definition touches_text :: "blob_world \<Rightarrow> blob_world \<Rightarrow> string \<Rightarrow> bool" where
  "touches_text w w' content \<longleftrightarrow> (\<exists>k key n. k \<noteq> Avatar \<and> same_caches (touch k key \<lparr>cb_size = n, cb_value = content\<rparr> w) w')"

definition touches_avatar :: "blob_world \<Rightarrow> blob_world \<Rightarrow> bool" where
  "touches_avatar w w' \<longleftrightarrow> (\<exists>key n. same_caches
     (touch Avatar key \<lparr>cb_size = n, cb_value = object_url (bw_created w)\<rparr> (w\<lparr>bw_created := bw_created w + 1\<rparr>)) w')"

lemma same_caches_refl [simp]: "same_caches w w"
  by (simp add: same_caches_def)

lemma touch_tasks [simp]:
  "bw_pending (touch k key e w) = bw_pending w" "bw_tasks (touch k key e w) = bw_tasks w" "bw_next (touch k key e w) = bw_next w"
  "bw_created (touch k key e w) = bw_created w"
  by (simp_all add: touch_def Let_def case_prod_beta)

lemma same_caches_finish [simp]: "same_caches w (finish_fetch h k key w)"
  by (simp add: same_caches_def finish_fetch_def)

lemma same_caches_fetch: "same_caches w (fst (snd (fetch k key n w)))"
  by (simp add: fetch_def same_caches_def split: option.splits)

lemma fetch_world: "fetch k key n w = (p, w1, cs) \<Longrightarrow> same_caches w w1"
  using same_caches_fetch [of w k key n] by simp

lemma run_effect_caches: "same_caches w (snd (run_effect k enabled key n w))"
  using same_caches_fetch by (auto simp: run_effect_def case_prod_beta split: option.splits)

lemma same_caches_touch: "same_caches w w' \<Longrightarrow> same_caches (touch k key e w) (touch k key e w')"
  by (simp add: same_caches_def touch_def case_prod_beta)

lemma touches_avatarI:
  assumes "same_caches w w0" "same_caches (touch Avatar key \<lparr>cb_size = n, cb_value = object_url (bw_created w)\<rparr>
      (w0\<lparr>bw_created := bw_created w + 1\<rparr>)) w'"
  shows "touches_avatar w w'"
proof -
  have "same_caches (w\<lparr>bw_created := bw_created w + 1\<rparr>) (w0\<lparr>bw_created := bw_created w + 1\<rparr>)"
    using assms(1) by (simp add: same_caches_def)
  from same_caches_touch [OF this] assms(2) show ?thesis
    unfolding touches_avatar_def by (metis (no_types, lifting) same_caches_def)
qed

lemma install_touches: "same_caches w (install_avatar session n w) \<or> touches_avatar w (install_avatar session n w)"
proof (cases "n \<le> TEXTURE_DOWNSCALE_THRESHOLD")
  case True
  then have "touches_avatar w (install_avatar session n w)"
    by (intro touches_avatarI [of w w session n]) (simp_all add: install_avatar_def createObjectURL_def)
  then show ?thesis by blast
qed (simp add: install_avatar_def same_caches_def)

lemma url_done_touches: "same_caches w (snd (url_done h w)) \<or> touches_avatar w (snd (url_done h w))"
proof (cases "map_get (bw_tasks w) h")
  case (Some t)
  show ?thesis
  proof (cases t)
    case (AwaitUrl key n)
    then have "touches_avatar w (snd (url_done h w))"
      using Some by (intro touches_avatarI [of w w key n]) (simp_all add: url_done_def createObjectURL_def)
    then show ?thesis by blast
  next
    case (AwaitInstall key n)
    then have "touches_avatar w (snd (url_done h w))"
      using Some by (intro touches_avatarI [of w "w\<lparr>bw_tasks := map_del h (bw_tasks w)\<rparr>" key n])
        (simp_all add: url_done_def createObjectURL_def same_caches_def)
    then show ?thesis by blast
  qed (simp add: url_done_def Some)
qed (simp add: url_done_def)

lemma reply_done_touches:
  "same_caches w (snd (reply_done h reply w)) \<or> (\<exists>content. reply = Some content \<and> touches_text w (snd (reply_done h reply w)) content)"
proof (cases "map_get (bw_tasks w) h")
  case (Some t)
  show ?thesis
  proof (cases t)
    case (AwaitReply k key n)
    show ?thesis
    proof (cases "\<exists>content. reply = Some content \<and> content \<noteq> [] \<and> k \<noteq> Avatar")
      case True
      then obtain content where c: "reply = Some content" "content \<noteq> []" "k \<noteq> Avatar" by blast
      then have "touches_text w (snd (reply_done h reply w)) content"
        unfolding touches_text_def using Some AwaitReply
        by (intro exI [of _ k] exI [of _ key] exI [of _ n]) (simp add: reply_done_def)
      then show ?thesis using c by blast
    qed (use Some AwaitReply in \<open>auto simp: reply_done_def same_caches_def finish_fetch_def split: option.splits\<close>)
  qed (simp_all add: reply_done_def Some)
qed (simp add: reply_done_def)

lemma blob_step_cases:
  assumes "blob_step (w, hooks) e = (w', hooks')"
  obtains "same_caches w w'" | content h where "e = Replied h (Some content)" "touches_text w w' content" | "touches_avatar w w'"
proof (cases e)
  case (Replied h reply)
  then show ?thesis using that assms reply_done_touches [of w h reply] by (auto simp: case_prod_beta)
next
  case (Decoded h)
  then show ?thesis using that assms url_done_touches [of w h] by (auto simp: case_prod_beta)
next
  case (SetBytes session n)
  then show ?thesis using that assms install_touches [of w session n]
    by (auto simp: setUserAvatarBytes_def split: option.splits if_splits)
next
  case (Prefetch k key n)
  then show ?thesis using that assms same_caches_fetch
    by (auto simp: prefetch_def split: option.splits if_splits)
next
  case (Effect i k enabled key n)
  then show ?thesis using that assms run_effect_caches [of w k _ key n] by (auto simp: case_prod_beta hook_effect_run)
qed (use that assms in auto)

lemma touch_cache: "bw_cache (touch k key e w) = (bw_cache w)(k := fst (lruTouch key e (bw_cache w k)))"
  by (simp add: touch_def case_prod_beta)

lemma caches_ok_step:
  assumes "\<forall>k. cache_ok (bw_cache (fst s) k)"
  shows "\<forall>k. cache_ok (bw_cache (fst (blob_step s e)) k)"
proof -
  obtain w hooks w' hooks' where s: "s = (w, hooks)" "blob_step (w, hooks) e = (w', hooks')" by (cases s, cases "blob_step s e") auto
  have "\<forall>k. cache_ok (bw_cache w' k)"
    using s(2) by (rule blob_step_cases)
      (use assms s in \<open>auto simp: touches_text_def touches_avatar_def same_caches_def touch_cache lruTouch_ok\<close>)
  then show ?thesis by (simp add: s)
qed

interpretation caches: event_machine blob_step "\<lambda>s. \<forall>k. cache_ok (bw_cache (fst s) k)"
  by unfold_locales (rule caches_ok_step)

abbreviation blob_run :: "blob_event list \<Rightarrow> blob_world" where
  "blob_run es \<equiv> fst (foldl blob_step (blob_initial, []) es)"

text \<open>No cache ever holds more than its limit of entries, nor two entries for one key.\<close>

theorem caches_bounded:
  "length (bw_cache (blob_run es) k) \<le> CACHE_MAX \<and> distinct (map_keys (bw_cache (blob_run es) k))"
proof -
  have "\<forall>k. cache_ok (bw_cache (fst (blob_initial, [] :: (nat, blob_hook) jmap)) k)" by (simp add: blob_initial_def cache_ok_def)
  from caches.run_inv [OF this, of es] show ?thesis by (simp add: cache_ok_def map_wf_def map_keys_def)
qed


section \<open>No address is lost or released twice\<close>

definition plain_text :: "string \<Rightarrow> bool" where
  "plain_text s \<longleftrightarrow> \<not> starts_with s ''blob:''"

definition addresses_inv :: "blob_world \<Rightarrow> bool" where
  "addresses_inv w \<longleftrightarrow> (\<forall>k. map_wf (bw_cache w k)) \<and>
     (\<forall>k v. k \<noteq> Avatar \<longrightarrow> v \<in># cached_values (bw_cache w k) \<longrightarrow> plain_text v) \<and>
     cached_values (bw_cache w Avatar) + mset (bw_revoked w) = mset (map object_url [0..<bw_created w])"

lemma addresses_same: "addresses_inv w \<Longrightarrow> same_caches w w' \<Longrightarrow> addresses_inv w'"
  by (simp add: addresses_inv_def same_caches_def)

lemma object_url_inject [simp]: "object_url m = object_url n \<longleftrightarrow> m = n"
  by (simp add: object_url_def)

lemma object_url_blob [simp]: "starts_with (object_url n) ''blob:''"
  by (simp add: object_url_def starts_with_def)

lemma lruTouch_text:
  assumes "map_wf c" "\<forall>v \<in># cached_values c. plain_text v" "plain_text (cb_value e)"
  shows "snd (lruTouch key e c) = []" "\<forall>v \<in># cached_values (fst (lruTouch key e c)). plain_text v"
proof -
  let ?xs = "map_del key c @ [(key, e)]"
  have sub: "set ?xs \<subseteq> insert (key, e) (set c)" by (auto simp: map_del_def)
  have "hd ?xs \<in> set ?xs" by (intro hd_in_set) simp
  then have "plain_text (cb_value (snd (hd ?xs)))" using sub assms(2,3) by auto
  moreover have "plain_text (cb_value r)" if "map_get c key = Some r" for r
    using map_get_in_set [OF that] assms(2) by force
  ultimately show "snd (lruTouch key e c) = []"
    using evict_oldest_eq [OF map_wf_snoc [OF assms(1), of key e]]
    by (auto simp: lruTouch_def map_del_fresh_set case_prod_beta revokeDisplayUrl_def plain_text_def split: option.splits)
  have "set (fst (lruTouch key e c)) \<subseteq> set ?xs"
    by (cases "map_del key c") (auto simp: lruTouch_cache [OF assms(1)] Let_def)
  with sub have "set (fst (lruTouch key e c)) \<subseteq> insert (key, e) (set c)" by (rule order_trans [rotated])
  then show "\<forall>v \<in># cached_values (fst (lruTouch key e c)). plain_text v" using assms(2,3) by fastforce
qed

lemma lruTouch_wf: "map_wf c \<Longrightarrow> map_wf (fst (lruTouch key e c))"
  using map_wf_snoc [of c key e] by (simp add: lruTouch_cache Let_def map_wf_tl)

lemma addresses_touch_text:
  assumes "addresses_inv w" "k \<noteq> Avatar" "plain_text (cb_value e)"
  shows "addresses_inv (touch k key e w)"
proof -
  have "\<forall>v \<in># cached_values (bw_cache w k). plain_text v" using assms(1,2) by (auto simp: addresses_inv_def)
  from lruTouch_text [OF _ this assms(3)] assms(1)
  have "snd (lruTouch key e (bw_cache w k)) = []" "\<forall>v \<in># cached_values (fst (lruTouch key e (bw_cache w k))). plain_text v"
    by (auto simp: addresses_inv_def)
  then show ?thesis
    using assms(1,2) lruTouch_wf by (auto simp: addresses_inv_def touch_def case_prod_beta)
qed

lemma addresses_touch_avatar:
  assumes "addresses_inv w" "cb_value e = object_url (bw_created w)"
  shows "addresses_inv (touch Avatar key e (w\<lparr>bw_created := bw_created w + 1\<rparr>))"
proof -
  let ?c = "bw_cache w Avatar" and ?t = "lruTouch key e (bw_cache w Avatar)"
  have sum: "cached_values ?c + mset (bw_revoked w) = mset (map object_url [0..<bw_created w])" and wf: "map_wf ?c"
    using assms(1) by (auto simp: addresses_inv_def)
  have "set_mset (cached_values ?c) \<subseteq> object_url ` {0..<bw_created w}"
    using arg_cong [OF sum, of set_mset] by auto
  moreover have "\<forall>v \<in> object_url ` {0..<bw_created w}. starts_with v ''blob:'' \<and> v \<noteq> cb_value e"
    by (auto simp: assms(2))
  ultimately have "\<forall>v \<in># cached_values ?c. starts_with v ''blob:''" "cb_value e \<notin># cached_values ?c" by blast+
  from lruTouch_values [OF wf this(1) _ this(2), of key]
  have "cached_values (fst ?t) + mset (snd ?t) = add_mset (cb_value e) (cached_values ?c)" by (simp add: assms(2))
  then have "cached_values (fst ?t) + mset (bw_revoked w @ snd ?t) = mset (map object_url [0..<bw_created w + 1])"
    using sum assms(2) by (simp add: ac_simps)
  then show ?thesis
    using assms(1) lruTouch_wf [OF wf] by (auto simp: addresses_inv_def touch_def case_prod_beta)
qed


fun texts_plain :: "blob_event \<Rightarrow> bool" where
  "texts_plain (Replied h (Some content)) = plain_text content"
| "texts_plain e = True"

lemma addresses_step:
  assumes "addresses_inv w" "texts_plain e" "blob_step (w, hooks) e = (w', hooks')"
  shows "addresses_inv w'"
  using assms(3)
proof (rule blob_step_cases)
  show "addresses_inv w'" if "same_caches w w'" by (rule addresses_same [OF assms(1) that])
  show "addresses_inv w'" if "e = Replied h (Some content)" "touches_text w w' content" for h content
    using that assms(1,2) addresses_touch_text [of w _ "\<lparr>cb_size = _, cb_value = content\<rparr>"]
    by (auto simp: touches_text_def intro: addresses_same)
  show "addresses_inv w'" if "touches_avatar w w'"
    using that assms(1) addresses_touch_avatar [of w "\<lparr>cb_size = _, cb_value = object_url (bw_created w)\<rparr>"]
    by (auto simp: touches_avatar_def intro: addresses_same)
qed

lemma addresses_run:
  "addresses_inv (fst s) \<Longrightarrow> \<forall>e \<in> set es. texts_plain e \<Longrightarrow> addresses_inv (fst (foldl blob_step s es))"
proof (induction es arbitrary: s)
  case (Cons e es)
  obtain w hooks w' hooks' where s: "s = (w, hooks)" "blob_step (w, hooks) e = (w', hooks')" by (cases s, cases "blob_step s e") auto
  then have "addresses_inv w'" using addresses_step [OF _ _ s(2)] Cons.prems by simp
  then show ?case using Cons s by simp
qed simp

text \<open>
  C26: Where no comment or other text the server sends begins with \<open>blob:\<close> (\<open>texts_plain\<close>), every object
  address ever created for an avatar is accounted for: it is held by exactly one entry of the cache, or it
  was released exactly once.  So a cached avatar can always be shown, and no image stays in memory that the
  cache no longer knows.  A text that looks like an address releases one
  (\<open>text_releases_avatar\<close>).
\<close>

theorem addresses_accounted:
  assumes "\<forall>e \<in> set es. texts_plain e" "w = blob_run es"
  shows "cached_values (bw_cache w Avatar) + mset (bw_revoked w) = mset (map object_url [0..<bw_created w]) \<and>
    distinct (map (\<lambda>p. cb_value (snd p)) (bw_cache w Avatar) @ bw_revoked w)"
proof -
  have "addresses_inv (fst (blob_initial, [] :: (nat, blob_hook) jmap))"
    by (simp add: addresses_inv_def blob_initial_def map_wf_def)
  from addresses_run [OF this assms(1)]
  have eq: "cached_values (bw_cache w Avatar) + mset (bw_revoked w) = mset (map object_url [0..<bw_created w])"
    by (simp add: addresses_inv_def assms(2))
  have "distinct (map object_url [0..<bw_created w])" by (simp add: distinct_map inj_on_def)
  moreover have "mset (map (\<lambda>p. cb_value (snd p)) (bw_cache w Avatar) @ bw_revoked w) = mset (map object_url [0..<bw_created w])"
    using eq by simp
  ultimately show ?thesis using eq mset_eq_imp_distinct_iff by blast
qed

theorem addresses_accounted_witness:
  "distinct (map (\<lambda>p. cb_value (snd p)) (bw_cache (blob_run [SetBytes 5 10, SetBytes 6 10, SetBytes 5 11]) Avatar) @
     bw_revoked (blob_run [SetBytes 5 10, SetBytes 6 10, SetBytes 5 11]))"
  using addresses_accounted [OF _ refl, of "[SetBytes 5 10, SetBytes 6 10, SetBytes 5 11]"] by simp

section \<open>What the cache holds\<close>

lemma remdups_snoc: "remdups (xs @ [x]) = removeAll x (remdups xs) @ [x]"
  by (induction xs) auto

text \<open>Moving a key to the end of the keys in the order of their last fetch, and what the cache keeps of them.\<close>

lemma latest_step:
  assumes "distinct R" "0 < M"
  shows "(let xs = removeAll k (drop (length R - M) R) @ [k] in if M < length xs then tl xs else xs) =
    drop (length (removeAll k R @ [k]) - M) (removeAll k R @ [k])"
proof -
  let ?d = "length R - M"
  let ?A = "take ?d R" and ?B = "drop ?d R"
  have R: "removeAll k R = removeAll k ?A @ removeAll k ?B" by (metis append_take_drop_id removeAll_append)
  have len: "length ?A = ?d" "length ?B = min M (length R)" by auto
  have disj: "set ?A \<inter> set ?B = {}" "distinct ?A" "distinct ?B"
    using assms(1) by (auto simp: set_take_disj_set_drop_if_distinct)
  have gone: "removeAll x ys = ys" if "x \<notin> set ys" for x and ys :: "'a list" using that by simp
  have less: "length (removeAll x ys) = length ys - 1" if "x \<in> set ys" "distinct ys" for x and ys :: "'a list"
    using that by (metis distinct_remove1_removeAll length_remove1)
  consider "k \<in> set ?A" | "k \<in> set ?B" | "k \<notin> set ?A" "k \<notin> set ?B" by blast
  then show ?thesis
  proof cases
    case 1
    then have B: "removeAll k ?B = ?B" using disj(1) gone by blast
    have d: "0 < ?d" using 1 by (cases ?d) auto
    then have "length (removeAll k ?A) = ?d - 1" "length ?B = M" using assms(2) less [OF 1 disj(2)] len by auto
    then show ?thesis using d assms(2) unfolding R B by (cases ?B) (auto simp: Let_def)
  next
    case 2
    then have A: "removeAll k ?A = ?A" using disj(1) gone by blast
    have "length (removeAll k ?B) = length ?B - 1" by (rule less [OF 2 disj(3)])
    moreover have "0 < length ?B" by (rule length_pos_if_in_set [OF 2])
    ultimately have "length (removeAll k ?B @ [k]) = min M (length R)" using len(2) by (simp del: length_drop)
    then show ?thesis unfolding R A using len(1) assms(2) by (auto simp: Let_def min_def)
  next
    case 3
    then have AB: "removeAll k ?A = ?A" "removeAll k ?B = ?B" using gone by blast+
    have R': "removeAll k R = R" unfolding R AB by simp
    show ?thesis
    proof (cases "length R < M")
      case True
      then show ?thesis using AB R' by (simp add: Let_def)
    next
      case False
      then have "length ?B = M" "length R + 1 - M = Suc ?d" using len(2) by auto
      moreover have "drop (Suc ?d) R = tl ?B" by (simp add: drop_Suc tl_drop)
      ultimately show ?thesis using AB R' assms(2) False by (cases ?B) (auto simp: Let_def)
    qed
  qed
qed

lemma map_del_keys: "map fst (map_del k c) = removeAll k (map fst c)"
  by (induction c) (auto simp: map_del_def)

text \<open>
  A cache filled by any sequence of fetches holds exactly the keys fetched most recently, up to its
  limit, in the order of their last fetch.
\<close>

theorem cache_holds_latest:
  "map_keys (foldl (\<lambda>c (key, e). fst (lruTouch key e c)) [] fetches) =
     (let keys = remdups (map fst fetches) in drop (length keys - CACHE_MAX) keys)"
proof (induction fetches rule: rev_induct)
  case (snoc f fetches)
  let ?c = "foldl (\<lambda>c (key, e). fst (lruTouch key e c)) [] fetches" and ?R = "remdups (map fst fetches)"
  obtain k e where f: "f = (k, e)" by (cases f)
  have keys: "map fst ?c = drop (length ?R - CACHE_MAX) ?R" using snoc by (simp add: map_keys_def Let_def)
  then have "map_wf ?c" by (simp add: map_wf_def)
  then have "map fst (fst (lruTouch k e ?c)) =
      (let xs = removeAll k (map fst ?c) @ [k] in if CACHE_MAX < length xs then tl xs else xs)"
    using length_map [of fst "map_del k ?c"] by (auto simp: lruTouch_cache Let_def map_del_keys map_tl)
  also have "\<dots> = drop (length (removeAll k ?R @ [k]) - CACHE_MAX) (removeAll k ?R @ [k])"
    unfolding keys by (rule latest_step) (simp_all add: CACHE_MAX_def)
  finally show ?case by (simp add: f map_keys_def remdups_snoc Let_def)
qed (simp add: map_keys_def)


section \<open>Fetches under way\<close>

text \<open>What a promise stands for; a scaled image that is only to be installed is no fetch.\<close>

fun fetches :: "blob_task \<Rightarrow> (blob_kind \<times> int) option" where
  "fetches (AwaitReply k key n) = Some (k, key)"
| "fetches (AwaitUrl key n) = Some (Avatar, key)"
| "fetches (AwaitInstall key n) = None"

definition fetch_of :: "(nat, blob_task) jmap \<Rightarrow> nat \<Rightarrow> (blob_kind \<times> int) option" where
  "fetch_of tasks h = Option.bind (map_get tasks h) fetches"

lemma fetch_of_set [simp]: "fetch_of (map_set h t tasks) = (fetch_of tasks)(h := fetches t)"
  by (auto simp: fetch_of_def fun_eq_iff)

lemma fetch_of_del [simp]: "fetch_of (map_del h tasks) = (fetch_of tasks)(h := None)"
  by (auto simp: fetch_of_def fun_eq_iff)

lemma fetch_of_get: "map_get tasks h = Some t \<Longrightarrow> fetch_of tasks h = fetches t"
  by (simp add: fetch_of_def)

text \<open>The pending maps list exactly the fetches under way, and promises are new when they are made.\<close>

definition pending_inv :: "blob_world \<Rightarrow> bool" where
  "pending_inv w \<longleftrightarrow> (\<forall>h. map_has (bw_tasks w) h \<longrightarrow> h < bw_next w) \<and>
     (\<forall>k key h. map_get (bw_pending w k) key = Some h \<longleftrightarrow> fetch_of (bw_tasks w) h = Some (k, key))"

lemma fetch_of_fresh: "pending_inv w \<Longrightarrow> fetch_of (bw_tasks w) (bw_next w) = None"
  by (force simp: pending_inv_def fetch_of_def map_has_def)

lemma pending_same:
  "pending_inv w \<Longrightarrow> bw_tasks w' = bw_tasks w \<Longrightarrow> bw_pending w' = bw_pending w \<Longrightarrow> bw_next w' = bw_next w \<Longrightarrow> pending_inv w'"
  by (simp add: pending_inv_def)

lemma pending_touch: "pending_inv w \<Longrightarrow> pending_inv (touch k key e w)"
  by (rule pending_same) simp_all

lemma pending_fetch:
  assumes "pending_inv w"
  shows "pending_inv (fst (snd (fetch k key n w)))"
proof (cases "no_fetch k key \<or> map_has (bw_pending w k) key")
  case True
  then show ?thesis using assms by (auto simp: fetch_def map_has_def split: option.splits)
next
  case False
  then have none: "fetch_of (bw_tasks w) h \<noteq> Some (k, key)" for h
    using assms by (metis map_has_def option.distinct(1) pending_inv_def)
  have "map_has (bw_pending w k) key = False" using False by simp
  then show ?thesis using assms False none fetch_of_fresh [OF assms]
    by (auto simp: fetch_def pending_inv_def map_has_def less_Suc_eq split: option.splits)
qed

lemma pending_finish:
  assumes "pending_inv w" "fetch_of (bw_tasks w) h = Some (k, key)"
  shows "pending_inv (finish_fetch h k key w)"
proof -
  have p: "map_get (bw_pending w k') key' = Some h' \<longleftrightarrow> fetch_of (bw_tasks w) h' = Some (k', key')" for k' key' h'
    using assms(1) by (simp add: pending_inv_def)
  then have h: "map_get (bw_pending w k) key = Some h" using assms(2) by simp
  have "map_get (bw_pending (finish_fetch h k key w) k') key' = Some h' \<longleftrightarrow> fetch_of (bw_tasks (finish_fetch h k key w)) h' = Some (k', key')"
    for k' key' h'
  proof (cases "k' = k \<and> key' = key")
    case True
    then show ?thesis using p [of k key h'] h by (auto simp: finish_fetch_def)
  next
    case False
    then show ?thesis using p [of k' key' h'] assms(2) by (auto simp: finish_fetch_def)
  qed
  then show ?thesis using assms(1) by (simp add: pending_inv_def finish_fetch_def map_has_def)
qed

lemma pending_install:
  assumes "pending_inv w"
  shows "pending_inv (install_avatar session n w)"
proof (cases "n \<le> TEXTURE_DOWNSCALE_THRESHOLD")
  case True
  then show ?thesis
    using pending_touch [OF pending_same [OF assms]] by (simp add: install_avatar_def createObjectURL_def)
next
  case False
  then show ?thesis using assms fetch_of_fresh [OF assms]
    by (auto simp: install_avatar_def pending_inv_def map_has_def less_Suc_eq)
qed

lemma pending_move:
  assumes "pending_inv w" "map_has (bw_tasks w) h" "fetches t = fetch_of (bw_tasks w) h"
  shows "pending_inv (w\<lparr>bw_tasks := map_set h t (bw_tasks w)\<rparr>)"
proof -
  have "(fetch_of (bw_tasks w))(h := fetches t) = fetch_of (bw_tasks w)" using assms(3) by auto
  then show ?thesis using assms(1,2) by (auto simp: pending_inv_def map_has_def)
qed

lemma pending_reply: "pending_inv w \<Longrightarrow> pending_inv (snd (reply_done h reply w))"
  by (auto simp: reply_done_def fetch_of_get map_has_def intro: pending_finish pending_touch pending_move
      split: option.splits blob_task.splits)

lemma pending_url:
  assumes "pending_inv w"
  shows "pending_inv (snd (url_done h w))"
proof (cases "map_get (bw_tasks w) h")
  case (Some t)
  show ?thesis
  proof (cases t)
    case (AwaitUrl key n)
    have "pending_inv (touch Avatar key e (w\<lparr>bw_created := c\<rparr>))" for e c
      by (rule pending_touch) (rule pending_same [OF assms], simp_all)
    then show ?thesis
      using Some AwaitUrl by (auto simp: url_done_def createObjectURL_def fetch_of_get intro!: pending_finish)
  next
    case (AwaitInstall key n)
    have "pending_inv (w\<lparr>bw_tasks := map_del h (bw_tasks w), bw_created := c\<rparr>)" for c
      using assms Some AwaitInstall by (auto simp: pending_inv_def map_has_def fetch_of_get)
    then show ?thesis
      using Some AwaitInstall by (auto simp: url_done_def createObjectURL_def intro!: pending_touch)
  qed (simp add: url_done_def Some assms)
qed (simp add: url_done_def assms)

lemma pending_effect: "pending_inv w \<Longrightarrow> pending_inv (snd (run_effect k enabled key n w))"
  using pending_fetch by (auto simp: run_effect_def case_prod_beta split: option.splits)

lemma pending_step: "pending_inv (fst s) \<Longrightarrow> pending_inv (fst (blob_step s e))"
  by (cases s; cases e)
    (auto simp: case_prod_beta hook_effect_run prefetch_def setUserAvatarBytes_def pending_effect pending_fetch pending_install pending_reply pending_url
      split: option.splits)

interpretation pending: event_machine blob_step "\<lambda>s. pending_inv (fst s)"
  by unfold_locales (rule pending_step)

text \<open>
  One fetch per avatar, description or comment is under way at a time: a second request joins the
  first, and when it is settled, the next request starts a new one.
\<close>

theorem one_fetch_per_key:
  assumes "w = blob_run es" "fetch_of (bw_tasks w) h = Some (k, key)" "fetch_of (bw_tasks w) h' = Some (k, key)"
  shows "h' = h \<and> (no_fetch k key \<or> fst (fetch k key n w) = Some h)"
proof -
  have "pending_inv (fst (blob_initial, [] :: (nat, blob_hook) jmap))"
    by (simp add: pending_inv_def blob_initial_def map_has_def fetch_of_def)
  from pending.run_inv [OF this, of es] have "pending_inv w" by (simp add: assms(1))
  then have "map_get (bw_pending w k) key = Some h" "map_get (bw_pending w k) key = Some h'"
    using assms(2,3) by (simp_all add: pending_inv_def)
  then show ?thesis by (simp add: fetch_def)
qed

definition two_requests :: "blob_event list" where
  "two_requests = [Effect 0 Avatar True (Some 5) (Some 100), Effect 1 Avatar True (Some 5) (Some 200)]"

theorem one_fetch_per_key_witness:
  "fst (fetch Avatar 5 300 (blob_run two_requests)) = Some 0"
proof -
  have "fetch_of (bw_tasks (blob_run two_requests)) 0 = Some (Avatar, 5)" by code_simp
  from one_fetch_per_key [OF refl this this, of 300] show ?thesis by (simp add: no_fetch_def)
qed

section \<open>Where it goes wrong\<close>

text \<open>
  A request that joins one for an older version is answered with the older version: the avatar is
  cached under the old length, the view of the new length shows it, and nothing fetches the new one.
\<close>

lemma joined_request_is_stale:
  "let s = foldl blob_step (blob_initial, []) (two_requests @ [Replied 0 (Some ''bytes''), Decoded 0])
   in map_option bh_shown (map_get (snd s) 1) = Some (Some (object_url 0)) \<and> bw_tasks (fst s) = [] \<and>
      getCached Avatar 5 (Some 200) (fst s) = None"
  by code_simp

text \<open>A text that looks like an object address is released like one: here, an avatar still in the cache.\<close>

lemma text_releases_avatar:
  "let w = blob_run [Effect 0 Avatar True (Some 5) (Some 10), Replied 0 (Some ''bytes''), Decoded 0,
                     Effect 1 UserComment True (Some 6) (Some 6), Replied 1 (Some (object_url 0)),
                     Effect 1 UserComment True (Some 6) (Some 7), Replied 2 (Some ''hello'')]
   in getCached Avatar 5 (Some 10) w = Some (object_url 0) \<and> object_url 0 \<in> set (bw_revoked w)"
  by code_simp

end
