(* ===== verification/Media.thy ===== *)
theory Media
  imports Complex_Main MarkdownHtml AppTypes
begin

text \<open>
  Images and videos as message bodies, \<open>utils/media.ts\<close>, and the markers that tie the images of a
  gallery together, \<open>utils/gallery.ts\<close>.

  What the platform does with a file is a parameter: reading it, decoding its size, drawing and
  encoding it again, and taking a frame of a video.  Each of these may fail, \<open>Inl\<close>.  Scales and
  qualities are real numbers; the code has doubles, whose rounding decides nothing but how close two
  candidates are.  An image is returned unchanged when it fits, and otherwise stays within the budget
  (\<open>fitted_image_within_limit\<close>); the quality found is the best one up to the width of the search
  (\<open>best_quality_near_optimal\<close>); a gallery marker is read back as it was written
  (\<open>gallery_marker_roundtrip\<close>).
\<close>

section \<open>Kinds of media\<close>

datatype media_kind = ImageKind | GifKind | VideoKind

record js_file =
  file_name :: string
  file_type :: string
  file_content :: string

definition EXT_TO_MIME :: "(string, string) jmap" where
  "EXT_TO_MIME =
    [(''png'', ''image/png''), (''jpg'', ''image/jpeg''), (''jpeg'', ''image/jpeg''), (''gif'', ''image/gif''),
     (''webp'', ''image/webp''), (''avif'', ''image/avif''), (''svg'', ''image/svg+xml''), (''ico'', ''image/x-icon''),
     (''bmp'', ''image/bmp''), (''mp4'', ''video/mp4''), (''webm'', ''video/webm''), (''mov'', ''video/quicktime''),
     (''mkv'', ''video/x-matroska''), (''avi'', ''video/x-msvideo''), (''mp3'', ''audio/mpeg''), (''ogg'', ''audio/ogg''),
     (''opus'', ''audio/opus''), (''wav'', ''audio/wav''), (''flac'', ''audio/flac''), (''aac'', ''audio/aac''),
     (''m4a'', ''audio/mp4''), (''pdf'', ''application/pdf''), (''zip'', ''application/zip''),
     (''gz'', ''application/gzip''), (''tar'', ''application/x-tar''), (''txt'', ''text/plain''),
     (''md'', ''text/markdown''), (''csv'', ''text/csv''), (''json'', ''application/json'')]"

text \<open>\<open>split(sep).pop()\<close>: what follows the last separator, or everything.\<close>

definition last_part :: "char \<Rightarrow> string \<Rightarrow> string" where
  "last_part sep s = rev (takeWhile (\<lambda>c. c \<noteq> sep) (rev s))"

text \<open>
  The table is an object literal, so an inherited member is found too when its name is in lower
  case; its value is no text, but not null either: \<open>Inl\<close> stands for it.
\<close>

definition object_members :: "string list" where
  "object_members = [''constructor'', ''__proto__'']"

definition inferMimeType :: "string \<Rightarrow> (unit + string) option" where
  "inferMimeType filePath =
     (let ext = last_part (CHR ''.'') (to_lower filePath)
      in if ext \<in> set object_members then Some (Inl ()) else map_option Inr (map_get EXT_TO_MIME ext))"

definition mediaKind :: "string \<Rightarrow> media_kind option" where
  "mediaKind mime =
     (if mime = ''image/gif'' then Some GifKind
      else if starts_with mime ''image/'' then Some ImageKind
      else if starts_with mime ''video/'' then Some VideoKind
      else None)"

section \<open>Fitting an image into the limit\<close>

record media_env =
  env_read :: "js_file \<Rightarrow> string + string"             \<comment> \<open>\<open>readAsDataURL\<close>\<close>
  env_load :: "string \<Rightarrow> string + int \<times> int"          \<comment> \<open>natural width and height of the decoded image\<close>
  env_draw :: "string \<Rightarrow> int \<Rightarrow> int \<Rightarrow> real \<Rightarrow> string + string"   \<comment> \<open>drawn at a size and encoded as JPEG\<close>
  env_frame :: "js_file \<Rightarrow> string + js_file"           \<comment> \<open>a frame of a video as \<open>frame.jpg\<close>\<close>

definition and_then :: "'e + 'a \<Rightarrow> ('a \<Rightarrow> 'e + 'b) \<Rightarrow> 'e + 'b" where
  "and_then r f = (case r of Inl e \<Rightarrow> Inl e | Inr x \<Rightarrow> f x)"

definition tryEncode :: "media_env \<Rightarrow> string \<Rightarrow> int \<times> int \<Rightarrow> real \<Rightarrow> real \<Rightarrow> string + string" where
  "tryEncode env img dims scale quality =
     env_draw env img (max 1 (round (real_of_int (fst dims) * scale))) (max 1 (round (real_of_int (snd dims) * scale))) quality"

text \<open>The loop of \<open>bestQualityAt\<close> over an encoder at a fixed scale.\<close>

fun quality_search :: "(real \<Rightarrow> string + string) \<Rightarrow> int \<Rightarrow> nat \<Rightarrow> real \<Rightarrow> real \<Rightarrow> string \<Rightarrow> string + string" where
  "quality_search enc budget 0 lo hi best = Inr best"
| "quality_search enc budget (Suc n) lo hi best =
     (let mid = (lo + hi) / 2
      in and_then (enc mid) (\<lambda>r.
           if int (length r) \<le> budget then quality_search enc budget n mid hi r
           else quality_search enc budget n lo mid best))"

definition bestQualityAt :: "(real \<Rightarrow> string + string) \<Rightarrow> int \<Rightarrow> real \<Rightarrow> real \<Rightarrow> nat \<Rightarrow> string + string option" where
  "bestQualityAt enc budget qMin qMax iterations =
     and_then (enc qMin) (\<lambda>best.
       if budget < int (length best) then Inr None
       else and_then (quality_search enc budget iterations qMin qMax best) (\<lambda>r. Inr (Some r)))"

text \<open>Halving the estimate until an encoding fits: the scale and the encoding, or nothing.\<close>

fun probe_scale :: "(real \<Rightarrow> string + string) \<Rightarrow> int \<Rightarrow> nat \<Rightarrow> real \<Rightarrow> string + (real \<times> string) option" where
  "probe_scale enc budget 0 probe = Inr None"
| "probe_scale enc budget (Suc n) probe =
     (if 5 / 1000 \<le> probe
      then and_then (enc probe) (\<lambda>r.
             if int (length r) \<le> budget then Inr (Some (probe, r)) else probe_scale enc budget n (probe * (1 / 2)))
      else Inr None)"

fun scale_search :: "(real \<Rightarrow> string + string) \<Rightarrow> int \<Rightarrow> nat \<Rightarrow> real \<Rightarrow> real \<Rightarrow> string \<Rightarrow> string + real \<times> string" where
  "scale_search enc budget 0 lo hi best = Inr (lo, best)"
| "scale_search enc budget (Suc n) lo hi best =
     (if hi - lo < 2 / 1000 then Inr (lo, best)
      else let mid = (lo + hi) / 2
           in and_then (enc mid) (\<lambda>r.
                if int (length r) \<le> budget then scale_search enc budget n mid hi r
                else scale_search enc budget n lo mid best))"

definition estimate_scale :: "int \<Rightarrow> string \<Rightarrow> real" where
  "estimate_scale budget lowQ =
     (if lowQ = [] then 95 / 100
      else min (95 / 100) (sqrt (real_of_int budget / real (length lowQ)) * (11 / 10)))"

text \<open>Step 3, when the image does not fit at its full size; an empty text counts as nothing found.\<close>

definition scale_down :: "(real \<Rightarrow> real \<Rightarrow> string + string) \<Rightarrow> int \<Rightarrow> string + string" where
  "scale_down enc budget =
     and_then (enc 1 (1 / 10)) (\<lambda>lowQ.
     and_then (probe_scale (\<lambda>s. enc s (7 / 10)) budget 15 (estimate_scale budget lowQ)) (\<lambda>found.
       case found of
         None \<Rightarrow> enc (1 / 100) (1 / 10)
       | Some (lo, first) \<Rightarrow>
           if first = [] then enc (1 / 100) (1 / 10)
           else and_then (scale_search (\<lambda>s. enc s (7 / 10)) budget 12 lo (min 1 (lo * 3)) first) (\<lambda>(lo, bestScaled).
                and_then (bestQualityAt (enc lo) budget (7 / 10) (95 / 100) 6) (\<lambda>finalQ.
                  Inr (case finalQ of Some q \<Rightarrow> q | None \<Rightarrow> bestScaled)))))"

definition effective_limit :: "int \<Rightarrow> int" where
  "effective_limit maxBytes = (if maxBytes < 5000 then 131072 else maxBytes)"

definition fitImage :: "media_env \<Rightarrow> js_file \<Rightarrow> int \<Rightarrow> string + string" where
  "fitImage env file maxBytes =
     (let limit = effective_limit maxBytes
      in and_then (env_read env file) (\<lambda>dataUrl.
           if int (length dataUrl) \<le> limit then Inr dataUrl
           else and_then (env_load env dataUrl) (\<lambda>dims.
             if fst dims = 0 \<or> snd dims = 0 then Inl ''Image has zero dimensions''
             else let budget = limit - 100; enc = tryEncode env dataUrl dims
                  in and_then (bestQualityAt (enc 1) budget (1 / 10) (95 / 100) 8) (\<lambda>fullRes.
                       case fullRes of
                         Some u \<Rightarrow> if u = [] then scale_down enc budget else Inr u
                       | None \<Rightarrow> scale_down enc budget))))"

section \<open>Markup\<close>

definition escapeAttr :: "string \<Rightarrow> string" where
  "escapeAttr s =
     replace_char (CHR ''>'') ''&gt;'' (replace_char (CHR ''<'') ''&lt;''
       (replace_char (CHR 0x22) ''&quot;'' (replace_char (CHR ''&'') ''&amp;'' s)))"

definition mediaToHtml :: "string \<Rightarrow> media_kind \<Rightarrow> string \<Rightarrow> string" where
  "mediaToHtml dataUrl kind fileName =
     (case kind of
        VideoKind \<Rightarrow> ''<video src='' @ quoted dataUrl @ '' controls>'' @ escapeAttr fileName @ ''</video>''
      | _ \<Rightarrow> ''<img src='' @ quoted dataUrl @ '' alt='' @ quoted (escapeAttr fileName) @ '' />'')"

datatype gallery_quality = FullQuality | Compressed

definition MAX_GALLERY_IMAGES :: nat where
  "MAX_GALLERY_IMAGES = 10"

definition fitVideo :: "media_env \<Rightarrow> js_file \<Rightarrow> int \<Rightarrow> string + string \<times> media_kind" where
  "fitVideo env file maxBytes =
     and_then (env_read env file) (\<lambda>dataUrl.
       if int (length dataUrl) \<le> maxBytes then Inr (dataUrl, VideoKind)
       else and_then (env_frame env file) (\<lambda>frameFile.
            and_then (fitImage env frameFile maxBytes) (\<lambda>frameDataUrl. Inr (frameDataUrl, ImageKind))))"

section \<open>Gallery markers\<close>

record gallery_ref =
  gr_groupId :: string
  gr_index :: "int option"     \<comment> \<open>\<open>None\<close>: too many digits, the number is infinite\<close>
  gr_total :: "int option"

definition GALLERY_PREFIX :: string where
  "GALLERY_PREFIX = ''<!-- FANCY_GALLERY:''"

definition GALLERY_SUFFIX :: string where
  "GALLERY_SUFFIX = '' -->''"

definition galleryMarker :: "string \<Rightarrow> nat \<Rightarrow> nat \<Rightarrow> string" where
  "galleryMarker groupId index n =
     GALLERY_PREFIX @ groupId @ '':'' @ show_nat index @ '':'' @ show_nat n @ GALLERY_SUFFIX"

definition is_group_char :: "char \<Rightarrow> bool" where
  "is_group_char c \<longleftrightarrow> c \<noteq> CHR '':'' \<and> \<not> is_ws c"

text \<open>A run of at least one character of a class, followed by a fixed text: the run and the rest.\<close>

definition run_then :: "(char \<Rightarrow> bool) \<Rightarrow> string \<Rightarrow> string \<Rightarrow> (string \<times> string) option" where
  "run_then P stop s =
     (let r = takeWhile P s
      in if r = [] then None else map_option (Pair r) (strip_prefix stop (drop (length r) s)))"

definition number_of :: "string \<Rightarrow> int option" where
  "number_of ds = round_double (int (read_digits ds))"

definition GALLERY_RE :: "gallery_ref matcher" where
  "GALLERY_RE prev s =
     Option.bind (strip_prefix GALLERY_PREFIX s) (\<lambda>t.
     Option.bind (run_then is_group_char '':'' t) (\<lambda>(g, t1).
     Option.bind (run_then is_digit '':'' t1) (\<lambda>(i, t2).
     map_option (\<lambda>(n, t3). (length s - length t3, \<lparr>gr_groupId = g, gr_index = number_of i, gr_total = number_of n\<rparr>))
       (run_then is_digit GALLERY_SUFFIX t2))))"

text \<open>\<open>exec\<close>: where the expression first matches, how far, and what it captures.\<close>

fun first_match :: "'a matcher \<Rightarrow> char option \<Rightarrow> string \<Rightarrow> (nat \<times> nat \<times> 'a) option" where
  "first_match m prev s =
     (case m prev s of
        Some (n, a) \<Rightarrow> Some (0, n, a)
      | None \<Rightarrow>
          (case s of [] \<Rightarrow> None
           | c # t \<Rightarrow> map_option (\<lambda>(i, r). (Suc i, r)) (first_match m (Some c) t)))"

definition parseGalleryMarker :: "string \<Rightarrow> gallery_ref option" where
  "parseGalleryMarker body = map_option (\<lambda>(i, n, ref). ref) (first_match GALLERY_RE None body)"

definition stripGalleryMarker :: "string \<Rightarrow> string" where
  "stripGalleryMarker body =
     trim (case first_match GALLERY_RE None body of
             None \<Rightarrow> body
           | Some (i, n, ref) \<Rightarrow> take i body @ drop (i + n) body)"

definition remember_ref :: "chat_message \<Rightarrow> (string, gallery_ref) jmap \<Rightarrow> (string, gallery_ref) jmap" where
  "remember_ref m refs =
     (case cm_message_id m of
        None \<Rightarrow> refs
      | Some mid \<Rightarrow>
          if mid = '''' then refs
          else (case parseGalleryMarker (cm_body m) of None \<Rightarrow> refs | Some ref \<Rightarrow> map_set mid ref refs))"

definition rememberGalleryRefs :: "chat_message list \<Rightarrow> (string, gallery_ref) jmap \<Rightarrow> (string, gallery_ref) jmap" where
  "rememberGalleryRefs msgs refs = foldl (\<lambda>r m. remember_ref m r) refs msgs"

definition getGalleryRef :: "(string, gallery_ref) jmap \<Rightarrow> string option \<Rightarrow> gallery_ref option" where
  "getGalleryRef refs messageId =
     (case messageId of None \<Rightarrow> None | Some mid \<Rightarrow> if mid = '''' then None else map_get refs mid)"

section \<open>An image fits\<close>

lemma and_then_Inr [simp]: "and_then r f = Inr y \<longleftrightarrow> (\<exists>x. r = Inr x \<and> f x = Inr y)"
  by (auto simp: and_then_def split: sum.splits)

lemma and_then_simps [simp]: "and_then (Inr x) f = f x" "and_then (Inl e) f = Inl e"
  by (simp_all add: and_then_def)

lemma quality_search_fits:
  "quality_search enc budget n lo hi best = Inr r \<Longrightarrow> int (length best) \<le> budget \<Longrightarrow> int (length r) \<le> budget"
  by (induction n arbitrary: lo hi best) (auto simp: Let_def split: if_splits)

lemma bestQualityAt_fits:
  "bestQualityAt enc budget qMin qMax n = Inr (Some r) \<Longrightarrow> int (length r) \<le> budget"
  by (auto simp: bestQualityAt_def dest: quality_search_fits split: if_splits)

lemma probe_scale_fits:
  "probe_scale enc budget n probe = Inr (Some (lo, r)) \<Longrightarrow> enc lo = Inr r \<and> int (length r) \<le> budget"
  by (induction n arbitrary: probe) (auto split: if_splits)

lemma scale_search_fits:
  "scale_search enc budget n lo hi best = Inr (lo', r) \<Longrightarrow> int (length best) \<le> budget \<Longrightarrow> int (length r) \<le> budget"
  by (induction n arbitrary: lo hi best) (auto simp: Let_def split: if_splits)

text \<open>Scaling down fits, unless not even the smallest encoding does.\<close>

lemma scale_down_fits:
  assumes "scale_down enc budget = Inr u"
  shows "int (length u) \<le> budget \<or> enc (1 / 100) (1 / 10) = Inr u"
proof -
  from assms obtain lowQ found where
    found: "probe_scale (\<lambda>s. enc s (7 / 10)) budget 15 (estimate_scale budget lowQ) = Inr found"
    and rest: "(case found of None \<Rightarrow> enc (1 / 100) (1 / 10) | Some (lo, first) \<Rightarrow>
           if first = [] then enc (1 / 100) (1 / 10)
           else and_then (scale_search (\<lambda>s. enc s (7 / 10)) budget 12 lo (min 1 (lo * 3)) first) (\<lambda>(lo, bestScaled).
                and_then (bestQualityAt (enc lo) budget (7 / 10) (95 / 100) 6) (\<lambda>finalQ.
                  Inr (case finalQ of Some q \<Rightarrow> q | None \<Rightarrow> bestScaled)))) = Inr u"
    by (auto simp: scale_down_def)
  show ?thesis
  proof (cases found)
    case (Some p)
    obtain lo first where p: "p = (lo, first)" by fastforce
    have "int (length first) \<le> budget" using probe_scale_fits found Some p by blast
    then show ?thesis using rest Some p
      by (auto dest: scale_search_fits bestQualityAt_fits split: if_splits option.splits)
  qed (use rest in simp)
qed

text \<open>
  C28: An image that is sent is either the file as it is, which fits the limit, or an encoding that
  leaves the hundred bytes for the markup around it; the only exception is the last resort, the image
  at a hundredth of its size and the lowest quality.  A limit below 5000 bytes counts as 131072.
\<close>

theorem fitted_image_within_limit:
  assumes "fitImage env file maxBytes = Inr u"
  shows "(env_read env file = Inr u \<and> int (length u) \<le> effective_limit maxBytes)
    \<or> int (length u) \<le> effective_limit maxBytes - 100
    \<or> (\<exists>img dims. env_read env file = Inr img \<and> env_load env img = Inr dims
         \<and> tryEncode env img dims (1 / 100) (1 / 10) = Inr u)"
proof -
  from assms obtain img where img: "env_read env file = Inr img" by (auto simp: fitImage_def Let_def)
  show ?thesis
  proof (cases "int (length img) \<le> effective_limit maxBytes")
    case False
    with assms img obtain dims fullRes where dims: "env_load env img = Inr dims"
      and full: "bestQualityAt (tryEncode env img dims 1) (effective_limit maxBytes - 100) (1 / 10) (95 / 100) 8 = Inr fullRes"
      and rest: "(case fullRes of
            Some u \<Rightarrow> if u = [] then scale_down (tryEncode env img dims) (effective_limit maxBytes - 100) else Inr u
          | None \<Rightarrow> scale_down (tryEncode env img dims) (effective_limit maxBytes - 100)) = Inr u"
      by (auto simp: fitImage_def Let_def split: if_splits)
    show ?thesis using rest full dims img
      by (cases dims) (auto dest!: scale_down_fits dest: bestQualityAt_fits split: option.splits if_splits)
  qed (use assms img in \<open>simp add: fitImage_def Let_def\<close>)
qed


definition padding :: "nat \<Rightarrow> string" where
  "padding n = replicate n (CHR ''x'')"

lemma length_padding [simp]: "length (padding n) = n"
  by (simp add: padding_def)

definition example_media :: media_env where
  "example_media =
     \<lparr>env_read = (\<lambda>f. Inr (''data:image/png,'' @ file_content f)),
      env_load = (\<lambda>u. Inr (64, 48)),
      env_draw = (\<lambda>u w h q. Inr (''data:image/jpeg,'' @ padding (if q < 1 / 2 then 3 else 4900))),
      env_frame = (\<lambda>f. Inr f)\<rparr>"

definition big_file :: js_file where
  "big_file = \<lparr>file_name = ''a.png'', file_type = ''image/png'', file_content = padding 5000\<rparr>"

lemma quality_search_numeral [simp]:
  "quality_search enc budget (numeral n) lo hi best =
     (let mid = (lo + hi) / 2
      in and_then (enc mid) (\<lambda>r.
           if int (length r) \<le> budget then quality_search enc budget (pred_numeral n) mid hi r
           else quality_search enc budget (pred_numeral n) lo mid best))"
  by (simp only: numeral_eq_Suc quality_search.simps)

lemma and_then_cong: "r = r' \<Longrightarrow> and_then r f = and_then r' f"
  by simp

lemma big_file_fitted: "fitImage example_media big_file 5000 = Inr (''data:image/jpeg,'' @ padding 3)"
proof -
  let ?enc = "tryEncode example_media (''data:image/png,'' @ padding 5000) (64, 48) 1"
  have "?enc q = Inr (''data:image/jpeg,'' @ padding (if q < 1 / 2 then 3 else 4900))" for q
    by (simp add: tryEncode_def example_media_def)
  then have "bestQualityAt ?enc 4900 (1 / 10) (95 / 100) 8 = Inr (Some (''data:image/jpeg,'' @ padding 3))"
    by (simp add: bestQualityAt_def Let_def cong: and_then_cong)
  then show ?thesis by (simp add: fitImage_def example_media_def big_file_def effective_limit_def)
qed

theorem fitted_image_within_limit_witness:
  "int (length (''data:image/jpeg,'' @ padding 3)) \<le> effective_limit 5000 - 100
    \<or> tryEncode example_media (''data:image/png,'' @ padding 5000) (64, 48) (1 / 100) (1 / 10)
        = Inr (''data:image/jpeg,'' @ padding 3)"
  using fitted_image_within_limit [OF big_file_fitted]
  by (auto simp: example_media_def big_file_def)

text \<open>
  An image that fits as it is leaves no room for the markup around it: at the limit the message is
  longer than the server accepts.
\<close>

lemma length_mediaToHtml:
  "length (mediaToHtml u ImageKind name) = length u + length (escapeAttr name) + 21"
  by (simp add: mediaToHtml_def quoted_def)

lemma unchanged_image_over_limit:
  "fitImage example_media (big_file\<lparr>file_content := padding 4985\<rparr>) 5000 = Inr (''data:image/png,'' @ padding 4985)"
  "length (mediaToHtml (''data:image/png,'' @ padding 4985) ImageKind '''') > 5000"
  by (simp_all add: fitImage_def example_media_def effective_limit_def length_mediaToHtml Let_def)


section \<open>The best quality\<close>

lemma quality_search_optimal:
  fixes g :: "real \<Rightarrow> string"
  assumes mono: "\<And>q q'. q \<le> q' \<Longrightarrow> length (g q) \<le> length (g q')"
  shows "lo \<le> hi \<Longrightarrow> int (length (g lo)) \<le> budget \<Longrightarrow> (\<And>q. hi \<le> q \<Longrightarrow> q < qTop \<Longrightarrow> budget < int (length (g q))) \<Longrightarrow>
    \<exists>q. quality_search (\<lambda>q. Inr (g q)) budget n lo hi (g lo) = Inr (g q) \<and> lo \<le> q \<and> q \<le> hi \<and> int (length (g q)) \<le> budget
      \<and> (\<forall>q'. q + (hi - lo) / 2 ^ n \<le> q' \<and> q' < qTop \<longrightarrow> budget < int (length (g q')))"
proof (induction n arbitrary: lo hi)
  case (Suc n)
  let ?mid = "(lo + hi) / 2"
  have between: "lo \<le> ?mid" "?mid \<le> hi" using Suc.prems(1) by simp_all
  show ?case
  proof (cases "int (length (g ?mid)) \<le> budget")
    case True
    from Suc.IH [OF between(2) True Suc.prems(3)] obtain q where q:
      "quality_search (\<lambda>q. Inr (g q)) budget n ?mid hi (g ?mid) = Inr (g q)" "?mid \<le> q" "q \<le> hi" "int (length (g q)) \<le> budget"
      "\<And>q'. q + (hi - ?mid) / 2 ^ n \<le> q' \<Longrightarrow> q' < qTop \<Longrightarrow> budget < int (length (g q'))" by blast
    have "(hi - ?mid) / 2 ^ n = (hi - lo) / 2 ^ Suc n" by (simp add: field_simps)
    then show ?thesis using q True between by (intro exI [of _ q]) (simp add: Let_def)
  next
    case False
    then have over: "budget < int (length (g q))" if "?mid \<le> q" for q using mono [OF that] by simp
    from Suc.IH [OF between(1) Suc.prems(2) over] obtain q where q:
      "quality_search (\<lambda>q. Inr (g q)) budget n lo ?mid (g lo) = Inr (g q)" "lo \<le> q" "q \<le> ?mid" "int (length (g q)) \<le> budget"
      "\<And>q'. q + (?mid - lo) / 2 ^ n \<le> q' \<Longrightarrow> q' < qTop \<Longrightarrow> budget < int (length (g q'))" by blast
    have "(?mid - lo) / 2 ^ n = (hi - lo) / 2 ^ Suc n" by (simp add: field_simps)
    then show ?thesis using q False between by (intro exI [of _ q]) (simp add: Let_def)
  qed
next
  case 0
  then show ?case by (intro exI [of _ lo]) auto
qed

text \<open>
  Where encodings grow with the quality, the search returns an encoding that fits whose quality
  is the best one up to the interval divided by two to the number of rounds: everything better by
  that much, below the upper end, is over the budget.
\<close>

theorem best_quality_near_optimal:
  fixes g :: "real \<Rightarrow> string"
  assumes "\<And>q q'. q \<le> q' \<Longrightarrow> length (g q) \<le> length (g q')"
    and "qMin \<le> qMax" and "int (length (g qMin)) \<le> budget"
  shows "\<exists>q. bestQualityAt (\<lambda>q. Inr (g q)) budget qMin qMax n = Inr (Some (g q)) \<and> qMin \<le> q \<and> q \<le> qMax
    \<and> int (length (g q)) \<le> budget
    \<and> (\<forall>q'. q + (qMax - qMin) / 2 ^ n \<le> q' \<and> q' < qMax \<longrightarrow> budget < int (length (g q')))"
proof -
  have none: "budget < int (length (g q))" if "qMax \<le> q" "q < qMax" for q using that by linarith
  have "\<exists>q. quality_search (\<lambda>q. Inr (g q)) budget n qMin qMax (g qMin) = Inr (g q) \<and> qMin \<le> q \<and> q \<le> qMax
    \<and> int (length (g q)) \<le> budget
    \<and> (\<forall>q'. q + (qMax - qMin) / 2 ^ n \<le> q' \<and> q' < qMax \<longrightarrow> budget < int (length (g q')))"
    by (rule quality_search_optimal [of g, OF assms none])
  then show ?thesis using assms(3) by (auto simp: bestQualityAt_def)
qed

theorem best_quality_near_optimal_witness:
  "\<exists>q :: real. bestQualityAt (\<lambda>q. Inr (padding (nat \<lfloor>100 * q\<rfloor>))) 60 (1 / 10) (95 / 100) 8 = Inr (Some (padding (nat \<lfloor>100 * q\<rfloor>)))
    \<and> (\<forall>q'. q + (95 / 100 - 1 / 10) / 2 ^ 8 \<le> q' \<and> q' < 95 / 100 \<longrightarrow> 60 < int (length (padding (nat \<lfloor>100 * q'\<rfloor>))))"
proof -
  have fits: "int (length (padding (nat \<lfloor>100 * (1 / 10 :: real)\<rfloor>))) \<le> 60" by simp
  have mono: "length (padding (nat \<lfloor>100 * q\<rfloor>)) \<le> length (padding (nat \<lfloor>100 * q'\<rfloor>))" if "q \<le> q'" for q q' :: real
    using that by (simp add: nat_mono floor_mono)
  have "1 / 10 \<le> (95 / 100 :: real)" by simp
  from best_quality_near_optimal [of "\<lambda>q. padding (nat \<lfloor>100 * q\<rfloor>)", OF mono this fits, of 8] show ?thesis by blast
qed


section \<open>Markers and attributes\<close>

lemma run_then_append [simp]:
  assumes "r \<noteq> []" "\<forall>c \<in> set r. P c" "stop \<noteq> []" "\<not> P (hd stop)"
  shows "run_then P stop (r @ stop @ t) = Some (r, t)"
proof -
  have "takeWhile P (r @ stop @ t) = r" using assms(2-4) by (cases stop) (auto simp: takeWhile_append2)
  then show ?thesis using assms(1) by (simp add: run_then_def)
qed

lemma strip_prefix_append: "strip_prefix p (p @ s) = Some s"
  by simp

lemma GALLERY_RE_marker:
  assumes "g \<noteq> []" "\<forall>c \<in> set g. is_group_char c"
  shows "GALLERY_RE prev (galleryMarker g i n @ t) =
    Some (length (galleryMarker g i n),
      \<lparr>gr_groupId = g, gr_index = round_double (int i), gr_total = round_double (int n)\<rparr>)"
proof -
  have "run_then is_group_char '':'' (g @ CHR '':'' # u) = Some (g, u)" for u
    using assms run_then_append [of g is_group_char "'':''" u] by (simp add: is_group_char_def)
  moreover have "run_then is_digit '':'' (show_nat i @ CHR '':'' # u) = Some (show_nat i, u)" for u
    using run_then_append [of "show_nat i" is_digit "'':''" u] show_nat_digits by (simp add: is_digit_def)
  moreover have "run_then is_digit GALLERY_SUFFIX (show_nat n @ GALLERY_SUFFIX @ t) = Some (show_nat n, t)"
    by (intro run_then_append) (auto dest: show_nat_digits simp: is_digit_def GALLERY_SUFFIX_def)
  ultimately show ?thesis by (simp add: GALLERY_RE_def galleryMarker_def number_of_def strip_prefix_append)
qed

text \<open>
  A marker at the start of a body is read back as it was written, and stripping it leaves the
  rest of the body without the white space around it, as long as the group id has no colon and no
  white space.
\<close>

theorem gallery_marker_roundtrip:
  assumes "g \<noteq> []" "\<forall>c \<in> set g. is_group_char c" "int i \<le> MAX_EXACT" "int n \<le> MAX_EXACT"
  shows "parseGalleryMarker (galleryMarker g i n @ body) =
      Some \<lparr>gr_groupId = g, gr_index = Some (int i), gr_total = Some (int n)\<rparr>
    \<and> stripGalleryMarker (galleryMarker g i n @ body) = trim body"
  using GALLERY_RE_marker [OF assms(1,2), of None i n body] assms(3,4)
  by (simp add: parseGalleryMarker_def stripGalleryMarker_def)

theorem gallery_marker_roundtrip_witness:
  "parseGalleryMarker (galleryMarker ''1f0a'' 2 3 @ ''<img>'') =
      Some \<lparr>gr_groupId = ''1f0a'', gr_index = Some 2, gr_total = Some 3\<rparr>
    \<and> stripGalleryMarker (galleryMarker ''1f0a'' 2 3 @ ''<img>'') = trim ''<img>''"
  using gallery_marker_roundtrip [of "''1f0a''" 2 3 "''<img>''"]
  by (simp add: is_group_char_def is_ws_def MAX_EXACT_def)

text \<open>The file name cannot leave the attribute it is written into.\<close>

lemma escapeAttr_chars:
  "escapeAttr s = concat (map (\<lambda>c. if c = CHR ''&'' then ''&amp;'' else if c = CHR 0x22 then ''&quot;''
     else if c = CHR ''<'' then ''&lt;'' else if c = CHR ''>'' then ''&gt;'' else [c]) s)"
  by (induction s) (auto simp: escapeAttr_def replace_char_def replace_all_chars)

lemma escapeAttr_closed: "set (escapeAttr s) \<inter> {CHR 0x22, CHR ''<'', CHR ''>''} = {}"
  by (auto simp: escapeAttr_chars split: if_splits)

end
