(* ===== verification/MessageList.thy ===== *)
theory MessageList
  imports Media Offload "HOL-Library.Multiset"
begin

text \<open>
  What the chat list puts on the page, \<open>components/chat/ChatMessageList.tsx\<close>: the messages in groups
  by sender and day, date chips, the divider before the unread messages, and the images of a gallery
  in one grid.

  A row is a record of what the component decides about it: the message it shows, its position in the
  thread, and which handlers and decorations it has.  \<open>dateKey\<close> depends on the time zone and is a
  parameter.  Grouping loses and reorders nothing (\<open>groups_partition_thread\<close>), every message outside
  a gallery is drawn (\<open>every_message_rendered\<close>), and a gallery that has arrived is one grid
  with image \<open>i\<close> in tile \<open>i\<close> (\<open>gallery_grid_complete\<close>).
\<close>

section \<open>Groups\<close>

record msg_group =
  mg_senderId :: "int option"
  mg_senderHash :: "string option"
  mg_isOwn :: bool
  mg_startIdx :: nat
  mg_messages :: "chat_message list"
  mg_day :: string

definition msg_day :: "(int \<Rightarrow> string) \<Rightarrow> chat_message \<Rightarrow> string" where
  "msg_day dateKey msg =
     (case cm_timestamp msg of None \<Rightarrow> '''' | Some t \<Rightarrow> if t = 0 then '''' else dateKey t)"

definition continues_group :: "(int \<Rightarrow> string) \<Rightarrow> chat_message \<Rightarrow> msg_group \<Rightarrow> bool" where
  "continues_group dateKey msg prev \<longleftrightarrow>
     mg_senderId prev = cm_sender_session msg \<and> mg_isOwn prev = cm_is_own msg \<and> mg_day prev = msg_day dateKey msg"

definition push_message :: "(int \<Rightarrow> string) \<Rightarrow> nat \<Rightarrow> msg_group list \<Rightarrow> nat \<times> chat_message \<Rightarrow> msg_group list" where
  "push_message dateKey indexOffset groups = (\<lambda>(i, msg).
     if groups \<noteq> [] \<and> continues_group dateKey msg (last groups)
     then butlast groups @ [(last groups)\<lparr>mg_messages := mg_messages (last groups) @ [msg]\<rparr>]
     else groups @ [\<lparr>mg_senderId = cm_sender_session msg, mg_senderHash = cm_sender_hash msg, mg_isOwn = cm_is_own msg,
                     mg_startIdx = i + indexOffset, mg_messages = [msg], mg_day = msg_day dateKey msg\<rparr>])"

definition message_groups :: "(int \<Rightarrow> string) \<Rightarrow> nat \<Rightarrow> chat_message list \<Rightarrow> msg_group list" where
  "message_groups dateKey indexOffset msgs = foldl (push_message dateKey indexOffset) [] (List.enumerate 0 msgs)"

section \<open>Rows\<close>

record list_props =
  lp_selectionMode :: bool
  lp_canDelete :: bool
  lp_selectedMsgIds :: "string jset"
  lp_restoringKeys :: "string jset"
  lp_isMobile :: bool
  lp_alwaysShowMessageActions :: bool
  lp_flatBubbles :: bool
  lp_lastReadIdx :: "nat option"
  lp_userBySession :: "(int, user_entry) jmap"
  lp_userByHash :: "(string, user_entry) jmap"
  lp_avatarBySession :: "(int, string) jmap"
  lp_avatarByHash :: "(string, string) jmap"

record row_view =
  rv_msg :: chat_message
  rv_index :: nat
  rv_tile :: bool
  rv_msgId :: "string option"
  rv_heavy :: bool
  rv_selectable :: bool
  rv_selected :: bool
  rv_contextMenu :: bool
  rv_citeOnDoubleClick :: bool
  rv_longPress :: bool
  rv_actionBar :: bool
  rv_deleteAction :: bool
  rv_restoring :: bool
  rv_first :: bool
  rv_receipt :: bool
  rv_inlineActions :: bool

definition has_msg_id :: "chat_message \<Rightarrow> bool" where
  "has_msg_id msg \<longleftrightarrow> cm_message_id msg \<noteq> None \<and> cm_message_id msg \<noteq> Some ''''"

text \<open>\<open>renderMessage\<close>; the list is not empty where it is called, so a channel id is known.\<close>

definition renderMessage :: "list_props \<Rightarrow> chat_message \<Rightarrow> nat \<Rightarrow> nat \<Rightarrow> bool \<Rightarrow> row_view" where
  "renderMessage props msg globalIdx j galleryTile =
     (let hasMsgId = has_msg_id msg;
          mid = (case cm_message_id msg of None \<Rightarrow> '''' | Some i \<Rightarrow> i);
          selectable = lp_selectionMode props \<and> lp_canDelete props \<and> hasMsgId
      in \<lparr>rv_msg = (if galleryTile then msg\<lparr>cm_body := stripGalleryMarker (cm_body msg)\<rparr> else msg),
          rv_index = globalIdx,
          rv_tile = galleryTile,
          rv_msgId = cm_message_id msg,
          rv_heavy = (hasMsgId \<and> isHeavyContent (cm_body msg)),
          rv_selectable = selectable,
          rv_selected = (hasMsgId \<and> set_has (lp_selectedMsgIds props) mid),
          rv_contextMenu = (hasMsgId \<and> \<not> lp_selectionMode props),
          rv_citeOnDoubleClick = (hasMsgId \<and> \<not> lp_selectionMode props \<and> \<not> lp_isMobile props),
          rv_longPress = (hasMsgId \<and> \<not> lp_selectionMode props),
          rv_actionBar = (\<not> lp_selectionMode props \<and> \<not> lp_isMobile props),
          rv_deleteAction = (lp_canDelete props \<and> hasMsgId),
          rv_restoring = (hasMsgId \<and> set_has (lp_restoringKeys props) mid),
          rv_first = (j = 0),
          rv_receipt = (cm_is_own msg \<and> hasMsgId),
          rv_inlineActions = (lp_alwaysShowMessageActions props \<and> hasMsgId \<and> cm_is_legacy msg \<noteq> Some True)\<rparr>)"

section \<open>Galleries\<close>

datatype gallery_tile = Tile row_view | Hole

datatype block_node =
    Row row_view
  | Grid string bool "gallery_tile list"    \<comment> \<open>group id, odd number of tiles, tiles\<close>

type_synonym gallery_refs = "(string, gallery_ref) jmap"

definition ref_of :: "gallery_refs \<Rightarrow> chat_message \<Rightarrow> gallery_ref option" where
  "ref_of refs msg = getGalleryRef refs (cm_message_id msg)"

definition by_index :: "gallery_refs \<Rightarrow> chat_message list \<Rightarrow> (int option, chat_message) jmap" where
  "by_index refs run =
     foldl (\<lambda>m msg. case ref_of refs msg of None \<Rightarrow> m | Some r \<Rightarrow> map_set (gr_index r) msg m) [] run"

definition tile_at :: "list_props \<Rightarrow> (int option, chat_message) jmap \<Rightarrow> nat \<Rightarrow> nat \<Rightarrow> nat \<Rightarrow> gallery_tile" where
  "tile_at props byIndex startIdx runStart i =
     (case map_get byIndex (Some (int i)) of
        Some m \<Rightarrow> Tile (renderMessage props m (startIdx + runStart + i) (runStart + i) True)
      | None \<Rightarrow> Hole)"

text \<open>The loop over the tiles never ends when the announced number is infinite: \<open>None\<close>.\<close>

definition gallery_tiles ::
  "list_props \<Rightarrow> gallery_refs \<Rightarrow> gallery_ref \<Rightarrow> chat_message list \<Rightarrow> nat \<Rightarrow> nat \<Rightarrow> gallery_tile list option" where
  "gallery_tiles props refs ref run startIdx runStart =
     map_option (\<lambda>n. map (tile_at props (by_index refs run) startIdx runStart) [0..<nat n]) (gr_total ref)"

definition same_gallery :: "gallery_refs \<Rightarrow> gallery_ref \<Rightarrow> chat_message \<Rightarrow> bool" where
  "same_gallery refs ref msg \<longleftrightarrow> map_option gr_groupId (ref_of refs msg) = Some (gr_groupId ref)"

text \<open>
  The loop of \<open>renderGroupBlock\<close> from message \<open>j\<close> on.  A run starts with the message that has the
  reference.
\<close>

function block_nodes :: "list_props \<Rightarrow> gallery_refs \<Rightarrow> nat \<Rightarrow> nat \<Rightarrow> chat_message list \<Rightarrow> block_node list option" where
  "block_nodes props refs startIdx j [] = Some []"
| "block_nodes props refs startIdx j (msg # msgs) =
     (case ref_of refs msg of
        None \<Rightarrow>
          map_option ((#) (Row (renderMessage props msg (startIdx + j) j False)))
            (block_nodes props refs startIdx (Suc j) msgs)
      | Some ref \<Rightarrow>
          (let peers = takeWhile (same_gallery refs ref) msgs;
               rest = block_nodes props refs startIdx (Suc j + length peers) (drop (length peers) msgs)
           in if peers = []
              then map_option ((#) (Row (renderMessage props msg (startIdx + j) j False))) rest
              else Option.bind (gallery_tiles props refs ref (msg # peers) startIdx j) (\<lambda>tiles.
                     map_option ((#) (Grid (gr_groupId ref) (odd (the (gr_total ref))) tiles)) rest)))"
  by pat_completeness auto
termination
  by (relation "measure (\<lambda>(props, refs, startIdx, j, msgs). length msgs)") auto

section \<open>The list\<close>

datatype list_node =
    DateChip string
  | UnreadDivider
  | Block "user_entry option" "string option" bool "block_node list"   \<comment> \<open>sender, avatar, avatar column, rows\<close>

definition sender_entry :: "msg_group \<Rightarrow> (int, 'v) jmap \<Rightarrow> (string, 'v) jmap \<Rightarrow> 'v option" where
  "sender_entry grp bySession byHash =
     or_opt (Option.bind (mg_senderId grp) (map_get bySession))
       (case mg_senderHash grp of None \<Rightarrow> None | Some h \<Rightarrow> if h = '''' then None else map_get byHash h)"

definition renderGroupBlock ::
  "list_props \<Rightarrow> gallery_refs \<Rightarrow> msg_group \<Rightarrow> chat_message list \<Rightarrow> nat \<Rightarrow> list_node option" where
  "renderGroupBlock props refs grp msgs startIdx =
     map_option
       (Block (sender_entry grp (lp_userBySession props) (lp_userByHash props))
              (sender_entry grp (lp_avatarBySession props) (lp_avatarByHash props))
              (\<not> mg_isOwn grp \<or> lp_flatBubbles props))
       (block_nodes props refs startIdx 0 msgs)"

definition date_chip :: "string \<Rightarrow> msg_group \<Rightarrow> list_node list" where
  "date_chip lastDay grp = (if mg_day grp \<noteq> '''' \<and> mg_day grp \<noteq> lastDay then [DateChip (mg_day grp)] else [])"

definition render_group :: "list_props \<Rightarrow> gallery_refs \<Rightarrow> msg_group \<Rightarrow> list_node list option" where
  "render_group props refs grp =
     (let start = mg_startIdx grp; msgs = mg_messages grp;
          inGroup = (\<lambda>i. start \<le> i \<and> i < start + length msgs)
      in case lp_lastReadIdx props of
           Some i \<Rightarrow>
             if inGroup i \<and> i \<noteq> start
             then Option.bind (renderGroupBlock props refs grp (take (i - start) msgs) start) (\<lambda>pre.
                  map_option (\<lambda>post. [pre, UnreadDivider, post])
                    (renderGroupBlock props refs grp (drop (i - start) msgs) i))
             else map_option (\<lambda>b. (if inGroup i then [UnreadDivider] else []) @ [b])
                    (renderGroupBlock props refs grp msgs start)
         | None \<Rightarrow> map_option (\<lambda>b. [b]) (renderGroupBlock props refs grp msgs start))"

fun render_groups :: "list_props \<Rightarrow> gallery_refs \<Rightarrow> string \<Rightarrow> msg_group list \<Rightarrow> list_node list option" where
  "render_groups props refs lastDay [] = Some []"
| "render_groups props refs lastDay (g # gs) =
     Option.bind (render_group props refs g) (\<lambda>nodes.
     map_option (\<lambda>rest. date_chip lastDay g @ nodes @ rest)
       (render_groups props refs (if date_chip lastDay g = [] then lastDay else mg_day g) gs))"

text \<open>One rendering: the gallery map is brought up to date first.\<close>

definition ChatMessageList ::
  "list_props \<Rightarrow> (int \<Rightarrow> string) \<Rightarrow> nat \<Rightarrow> chat_message list \<Rightarrow> gallery_refs \<Rightarrow> gallery_refs \<times> list_node list option" where
  "ChatMessageList props dateKey indexOffset msgs refs =
     (let refs' = rememberGalleryRefs msgs refs
      in (refs', render_groups props refs' '''' (message_groups dateKey indexOffset msgs)))"

section \<open>Grouping\<close>

text \<open>
  Groups in the order of the thread: each starts where the one before ends, all its messages belong to
  it, and the first message of the next one does not.
\<close>

fun groups_ok :: "(int \<Rightarrow> string) \<Rightarrow> nat \<Rightarrow> msg_group list \<Rightarrow> bool" where
  "groups_ok dateKey start [] = True"
| "groups_ok dateKey start (g # gs) \<longleftrightarrow>
     mg_startIdx g = start \<and> mg_messages g \<noteq> [] \<and> (\<forall>m \<in> set (mg_messages g). continues_group dateKey m g)
     \<and> (gs \<noteq> [] \<longrightarrow> \<not> continues_group dateKey (hd (mg_messages (hd gs))) g)
     \<and> groups_ok dateKey (start + length (mg_messages g)) gs"

definition grouped :: "msg_group list \<Rightarrow> chat_message list" where
  "grouped gs = concat (map mg_messages gs)"

lemma push_message_Cons:
  "gs \<noteq> [] \<Longrightarrow> push_message dateKey off (g # gs) p = g # push_message dateKey off gs p"
  by (simp add: push_message_def split: prod.splits)

lemma push_message_grouped: "grouped (push_message dateKey off gs (i, msg)) = grouped gs @ [msg]"
  by (cases gs rule: rev_cases) (simp_all add: push_message_def grouped_def)

lemma push_message_hd:
  assumes "groups_ok dateKey start gs" "gs \<noteq> []"
  shows "push_message dateKey off gs p \<noteq> []"
    "hd (mg_messages (hd (push_message dateKey off gs p))) = hd (mg_messages (hd gs))"
  using assms by (cases gs rule: rev_cases; cases p; auto simp: push_message_def hd_append split: if_splits)+

lemma push_message_ok:
  assumes "groups_ok dateKey start gs" "start + length (grouped gs) = i + off"
  shows "groups_ok dateKey start (push_message dateKey off gs (i, msg))"
  using assms
proof (induction gs arbitrary: start)
  case Nil
  then show ?case by (simp add: push_message_def grouped_def continues_group_def)
next
  case (Cons g gs)
  show ?case
  proof (cases "gs = []")
    case True
    then show ?thesis using Cons.prems
      by (auto simp: push_message_def grouped_def continues_group_def)
  next
    case False
    have ok: "groups_ok dateKey (start + length (mg_messages g)) gs" using Cons.prems by simp
    have "groups_ok dateKey (start + length (mg_messages g)) (push_message dateKey off gs (i, msg))"
      using Cons by (simp add: grouped_def)
    then show ?thesis using Cons.prems False push_message_hd [OF ok False] by (simp add: push_message_Cons)
  qed
qed

lemma message_groups_ok:
  "grouped (message_groups dateKey off msgs) = msgs \<and> groups_ok dateKey off (message_groups dateKey off msgs)"
proof (induction msgs rule: rev_induct)
  case (snoc msg msgs)
  then show ?case
    by (simp add: message_groups_def enumerate_append_eq push_message_grouped push_message_ok)
qed (simp add: message_groups_def grouped_def)

text \<open>
  The groups together are the thread, in its order; each group is not empty, starts at the
  position of its first message, and holds messages of one sender session and one day only; a group
  ends only where the next message belongs to another one.
\<close>

theorem groups_partition_thread:
  "grouped (message_groups dateKey off msgs) = msgs \<and> groups_ok dateKey off (message_groups dateKey off msgs)"
  by (rule message_groups_ok)

section \<open>Every message has its row\<close>

fun tile_rows :: "gallery_tile \<Rightarrow> row_view list" where
  "tile_rows (Tile r) = [r]"
| "tile_rows Hole = []"

fun node_rows :: "block_node \<Rightarrow> row_view list" where
  "node_rows (Row r) = [r]"
| "node_rows (Grid g odd_n tiles) = concat (map tile_rows tiles)"

fun list_rows :: "list_node \<Rightarrow> row_view list" where
  "list_rows (Block u a c nodes) = concat (map node_rows nodes)"
| "list_rows n = []"

text \<open>A message up to its body: the tiles of a gallery have the marker cut off.\<close>

definition sans_body :: "chat_message \<Rightarrow> chat_message" where
  "sans_body m = m\<lparr>cm_body := ''''\<rparr>"

definition shown_rows :: "row_view list \<Rightarrow> chat_message multiset" where
  "shown_rows rows = mset (map (sans_body \<circ> rv_msg) rows)"

definition gallery_of :: "gallery_refs \<Rightarrow> chat_message \<Rightarrow> string option" where
  "gallery_of refs m = map_option gr_groupId (ref_of refs m)"

definition index_in :: "gallery_refs \<Rightarrow> chat_message \<Rightarrow> int option" where
  "index_in refs m = Option.bind (ref_of refs m) gr_index"

text \<open>
  The numbers the sender gives out: the images of a gallery have different indices, each below the
  number of images that every one of them announces.
\<close>

definition index_below :: "gallery_ref \<Rightarrow> gallery_ref \<Rightarrow> bool" where
  "index_below r r' \<longleftrightarrow> (\<exists>i n. gr_index r = Some (int i) \<and> gr_total r' = Some (int n) \<and> i < n)"

definition well_numbered :: "gallery_refs \<Rightarrow> chat_message list \<Rightarrow> bool" where
  "well_numbered refs msgs \<longleftrightarrow>
     (\<forall>m \<in> set msgs. \<forall>m' \<in> set msgs. \<forall>r r'. ref_of refs m = Some r \<and> ref_of refs m' = Some r' \<and> gr_groupId r = gr_groupId r' \<longrightarrow>
        index_below r r')
     \<and> (\<forall>g. distinct (map (index_in refs) (filter (\<lambda>m. gallery_of refs m = Some g) msgs)))"

lemma well_numbered_append: "well_numbered refs (xs @ ys) \<Longrightarrow> well_numbered refs xs \<and> well_numbered refs ys"
  by (simp add: well_numbered_def) blast

lemma well_numbered_Cons: "well_numbered refs (x # xs) \<Longrightarrow> well_numbered refs xs"
  using well_numbered_append [of refs "[x]" xs] by simp

lemma well_numbered_sub: "well_numbered refs xs \<Longrightarrow> well_numbered refs (take n xs) \<and> well_numbered refs (drop n xs)"
  using well_numbered_append [of refs "take n xs" "drop n xs"] by simp

lemma by_index_get:
  assumes "\<forall>m \<in> set run. ref_of refs m \<noteq> None" "distinct (map (index_in refs) run)"
  shows "map_get (by_index refs run) k = Some m \<longleftrightarrow> m \<in> set run \<and> index_in refs m = k"
  using assms
proof (induction run rule: rev_induct)
  case (snoc x run)
  obtain r where r: "ref_of refs x = Some r" using snoc.prems(1) by auto
  have IH: "map_get (by_index refs run) k = Some m \<longleftrightarrow> m \<in> set run \<and> index_in refs m = k"
    using snoc by simp
  have "by_index refs (run @ [x]) = map_set (index_in refs x) x (by_index refs run)"
    by (simp add: by_index_def r index_in_def)
  then show ?case using IH snoc.prems(2) by (auto simp: image_iff)
qed (simp add: by_index_def)

lemma found_at_indices:
  assumes "\<And>i m. f i = Some m \<Longrightarrow> idx m = Some (int i)"
  shows "map idx (List.map_filter f is) = map (Some \<circ> int) (filter (\<lambda>i. f i \<noteq> None) is)"
  using assms by (induction "is") (auto simp: List.map_filter_simps split: option.splits)

lemma set_map_filter: "set (List.map_filter f xs) = {y. \<exists>x \<in> set xs. f x = Some y}"
  by (induction xs) (auto simp: List.map_filter_simps split: option.splits)

lemma tiles_show_run:
  assumes refs: "\<forall>m \<in> set run. ref_of refs m \<noteq> None" and dist: "distinct (map (index_in refs) run)"
    and bound: "\<forall>m \<in> set run. \<exists>i<n. index_in refs m = Some (int i)"
  shows "shown_rows (concat (map tile_rows (map (tile_at props (by_index refs run) s j) [0..<n]))) = mset (map sans_body run)"
proof -
  define f where "f = (\<lambda>i. map_get (by_index refs run) (Some (int i)))"
  note get = by_index_get [OF refs dist]
  have idx: "index_in refs m = Some (int i)" if "f i = Some m" for i m using that get by (simp add: f_def)
  let ?ms = "List.map_filter f [0..<n]"
  have "map (index_in refs) ?ms = map (Some \<circ> int) (filter (\<lambda>i. f i \<noteq> None) [0..<n])"
    by (rule found_at_indices) (rule idx)
  moreover have "distinct (map (Some \<circ> int) (filter (\<lambda>i. f i \<noteq> None) [0..<n]))" by (simp add: distinct_map inj_on_def)
  ultimately have "distinct (map (index_in refs) ?ms)" by (simp only:)
  then have "distinct ?ms" by (simp add: distinct_map)
  moreover have "distinct run" using dist by (simp add: distinct_map)
  moreover have "set ?ms = set run" using bound get by (fastforce simp: set_map_filter f_def)
  ultimately have "mset ?ms = mset run" by (simp add: set_eq_iff_mset_eq_distinct)
  moreover have "map (sans_body \<circ> rv_msg) (concat (map tile_rows (map (tile_at props (by_index refs run) s j) is)))
    = map sans_body (List.map_filter f is)" for "is"
    by (induction "is")
      (auto simp: List.map_filter_simps tile_at_def f_def renderMessage_def sans_body_def Let_def split: option.splits)
  ultimately show ?thesis by (simp add: shown_rows_def mset_map)
qed


lemma shown_rows_append [simp]: "shown_rows (xs @ ys) = shown_rows xs + shown_rows ys"
  by (simp add: shown_rows_def)

lemma shown_rows_row [simp]:
  "shown_rows (renderMessage props m i j False # rows) = add_mset (sans_body m) (shown_rows rows)"
  by (simp add: shown_rows_def renderMessage_def Let_def)

lemma same_gallery_iff: "same_gallery refs r m \<longleftrightarrow> gallery_of refs m = Some (gr_groupId r)"
  by (simp add: same_gallery_def gallery_of_def)

lemma run_shown:
  assumes "well_numbered refs (msg # msgs)" "ref_of refs msg = Some r" "peers = takeWhile (same_gallery refs r) msgs"
  shows "\<exists>tiles. gallery_tiles props refs r (msg # peers) s j = Some tiles
    \<and> shown_rows (concat (map tile_rows tiles)) = mset (map sans_body (msg # peers))"
proof -
  let ?run = "msg # peers"
  have run: "\<forall>m \<in> set ?run. gallery_of refs m = Some (gr_groupId r)"
    using assms(2,3) by (auto simp: gallery_of_def same_gallery_iff dest: set_takeWhileD)
  then have refs: "\<forall>m \<in> set ?run. \<exists>r'. ref_of refs m = Some r' \<and> gr_groupId r' = gr_groupId r"
    by (auto simp: gallery_of_def)
  have split: "msg # msgs = ?run @ drop (length peers) msgs" using assms(3) by (simp add: dropWhile_eq_drop [symmetric])
  then have wn: "well_numbered refs ?run" using assms(1) well_numbered_append by metis
  have "filter (\<lambda>m. gallery_of refs m = Some (gr_groupId r)) ?run = ?run" using run by (simp only: filter_id_conv)
  then have dist: "distinct (map (index_in refs) ?run)" using wn unfolding well_numbered_def by metis
  have below: "\<And>m r'. m \<in> set ?run \<Longrightarrow> ref_of refs m = Some r' \<Longrightarrow> index_below r' r"
    using wn refs assms(2) unfolding well_numbered_def by (metis list.set_intros(1) option.inject)
  then obtain n where n: "gr_total r = Some (int n)" using assms(2) by (fastforce simp: index_below_def)
  have "\<forall>m \<in> set ?run. \<exists>i<n. index_in refs m = Some (int i)"
    using refs below by (fastforce simp: index_in_def index_below_def n)
  moreover have "\<forall>m \<in> set ?run. ref_of refs m \<noteq> None" using refs by fastforce
  ultimately show ?thesis
    using tiles_show_run [OF _ dist] by (simp add: gallery_tiles_def n)
qed

lemma block_nodes_show:
  "well_numbered refs msgs \<Longrightarrow>
    \<exists>nodes. block_nodes props refs s j msgs = Some nodes \<and> shown_rows (concat (map node_rows nodes)) = mset (map sans_body msgs)"
proof (induction props refs s j msgs rule: block_nodes.induct)
  case (2 props refs s j msg msgs)
  show ?case
  proof (cases "ref_of refs msg")
    case None
    with 2(1) [OF None] 2(3) well_numbered_Cons obtain nodes where
      "block_nodes props refs s (Suc j) msgs = Some nodes" "shown_rows (concat (map node_rows nodes)) = mset (map sans_body msgs)"
      by blast
    then show ?thesis using None by simp
  next
    case (Some r)
    define peers where "peers = takeWhile (same_gallery refs r) msgs"
    let ?rest = "drop (length peers) msgs"
    have wn: "well_numbered refs ?rest" using 2(3) well_numbered_Cons well_numbered_sub by metis
    have "\<exists>nodes. block_nodes props refs s (Suc j + length peers) ?rest = Some nodes
        \<and> shown_rows (concat (map node_rows nodes)) = mset (map sans_body ?rest)"
      using 2(2) [OF Some peers_def wn] by simp
    then obtain nodes where nodes: "block_nodes props refs s (Suc j + length peers) ?rest = Some nodes"
      "shown_rows (concat (map node_rows nodes)) = mset (map sans_body ?rest)" by auto
    have split: "msgs = peers @ ?rest" by (simp add: peers_def dropWhile_eq_drop [symmetric])
    show ?thesis
    proof (cases "peers = []")
      case True
      then show ?thesis using nodes Some by (simp add: peers_def [symmetric])
    next
      case False
      from run_shown [OF 2(3) Some peers_def] obtain tiles where
        t: "gallery_tiles props refs r (msg # peers) s j = Some tiles"
           "shown_rows (concat (map tile_rows tiles)) = mset (map sans_body (msg # peers))" by metis
      have "mset (map sans_body (msg # msgs)) = mset (map sans_body (msg # peers)) + mset (map sans_body ?rest)"
        by (subst split) simp
      then show ?thesis using nodes Some False t by (simp add: peers_def [symmetric] Let_def)
    qed
  qed
qed (simp add: shown_rows_def)


lemma renderGroupBlock_show:
  assumes "well_numbered refs msgs"
  shows "\<exists>b. renderGroupBlock props refs g msgs s = Some b \<and> b \<noteq> UnreadDivider \<and> shown_rows (list_rows b) = mset (map sans_body msgs)"
  using block_nodes_show [OF assms, of props s 0] by (auto simp: renderGroupBlock_def)

definition rows_of :: "list_node list \<Rightarrow> row_view list" where
  "rows_of nodes = concat (map list_rows nodes)"

lemma rows_of_simps [simp]:
  "rows_of [] = []" "rows_of (n # ns) = list_rows n @ rows_of ns" "rows_of (ns @ ns') = rows_of ns @ rows_of ns'"
  by (simp_all add: rows_of_def)

lemma date_chip_rows [simp]: "rows_of (date_chip d g) = []"
  by (simp add: date_chip_def)

lemma shown_rows_Nil [simp]: "shown_rows [] = {#}"
  by (simp add: shown_rows_def)

lemma mset_take_drop: "mset (map f (take n xs)) + mset (map f (drop n xs)) = mset (map f xs)"
  by (metis append_take_drop_id map_append mset_append)

text \<open>A divider that falls into a group stands between what was read and what was not.\<close>

lemma render_group_divider:
  assumes "well_numbered refs (mg_messages g)" "lp_lastReadIdx props = Some i"
    "mg_startIdx g \<le> i" "i < mg_startIdx g + length (mg_messages g)"
  shows "\<exists>pre post. render_group props refs g = Some (pre @ UnreadDivider # post)
    \<and> shown_rows (rows_of pre) = mset (map sans_body (take (i - mg_startIdx g) (mg_messages g)))
    \<and> shown_rows (rows_of post) = mset (map sans_body (drop (i - mg_startIdx g) (mg_messages g)))"
proof (cases "i = mg_startIdx g")
  case True
  obtain b where "renderGroupBlock props refs g (mg_messages g) (mg_startIdx g) = Some b"
    "shown_rows (list_rows b) = mset (map sans_body (mg_messages g))"
    using renderGroupBlock_show [OF assms(1)] by blast
  then show ?thesis using True assms(2-4)
    by (intro exI [of _ "[]"] exI [of _ "[b]"]) (simp add: render_group_def)
next
  case False
  note wn = well_numbered_sub [OF assms(1), of "i - mg_startIdx g"]
  obtain b c where "renderGroupBlock props refs g (take (i - mg_startIdx g) (mg_messages g)) (mg_startIdx g) = Some b"
    "shown_rows (list_rows b) = mset (map sans_body (take (i - mg_startIdx g) (mg_messages g)))"
    "renderGroupBlock props refs g (drop (i - mg_startIdx g) (mg_messages g)) i = Some c"
    "shown_rows (list_rows c) = mset (map sans_body (drop (i - mg_startIdx g) (mg_messages g)))"
    using renderGroupBlock_show [OF conjunct1 [OF wn]] renderGroupBlock_show [OF conjunct2 [OF wn]] by metis
  then show ?thesis using False assms(2-4)
    by (intro exI [of _ "[b]"] exI [of _ "[c]"]) (simp add: render_group_def)
qed

lemma render_group_show:
  assumes "well_numbered refs (mg_messages g)"
  shows "\<exists>nodes. render_group props refs g = Some nodes \<and> shown_rows (rows_of nodes) = mset (map sans_body (mg_messages g))"
proof (cases "\<exists>i. lp_lastReadIdx props = Some i \<and> mg_startIdx g \<le> i \<and> i < mg_startIdx g + length (mg_messages g)")
  case True
  with render_group_divider [OF assms] obtain i pre post where
    r: "render_group props refs g = Some (pre @ UnreadDivider # post)"
      "shown_rows (rows_of pre) = mset (map sans_body (take (i - mg_startIdx g) (mg_messages g)))"
      "shown_rows (rows_of post) = mset (map sans_body (drop (i - mg_startIdx g) (mg_messages g)))" by metis
  then have "shown_rows (rows_of (pre @ UnreadDivider # post)) = mset (map sans_body (mg_messages g))"
    by (simp only: rows_of_simps list_rows.simps append_Nil shown_rows_append mset_take_drop)
  then show ?thesis using r(1) by blast
next
  case False
  obtain b where "renderGroupBlock props refs g (mg_messages g) (mg_startIdx g) = Some b"
    "shown_rows (list_rows b) = mset (map sans_body (mg_messages g))"
    using renderGroupBlock_show [OF assms] by blast
  then show ?thesis using False by (cases "lp_lastReadIdx props") (auto simp: render_group_def)
qed

lemma render_groups_show:
  "well_numbered refs (grouped gs) \<Longrightarrow>
    \<exists>nodes. render_groups props refs d gs = Some nodes \<and> shown_rows (rows_of nodes) = mset (map sans_body (grouped gs))"
proof (induction gs arbitrary: d)
  case (Cons g gs)
  have wn: "well_numbered refs (mg_messages g)" "well_numbered refs (grouped gs)"
    using Cons.prems well_numbered_append [of refs "mg_messages g" "grouped gs"] by (simp_all add: grouped_def)
  obtain a where "render_group props refs g = Some a" "shown_rows (rows_of a) = mset (map sans_body (mg_messages g))"
    using render_group_show [OF wn(1)] by blast
  moreover obtain b where "render_groups props refs (if date_chip d g = [] then d else mg_day g) gs = Some b"
    "shown_rows (rows_of b) = mset (map sans_body (grouped gs))" using Cons.IH [OF wn(2)] by blast
  ultimately show ?case by (simp add: grouped_def)
qed (simp add: grouped_def)

text \<open>
  C22: Where the galleries of the thread are numbered the way a sender numbers them (\<open>well_numbered\<close>: the
  images of a gallery have different indices, each below the finite number of images that every one of them
  announces), drawing the list ends, and every message of the thread has exactly one row: the rows
  show the messages of the thread, each as often as it is there, whatever the selection and the divider.
  A gallery that announces too large a number never ends (\<open>infinite_gallery_hangs\<close>).
\<close>

theorem every_message_rendered:
  assumes "well_numbered (rememberGalleryRefs msgs refs) msgs"
  shows "\<exists>nodes. snd (ChatMessageList props dateKey off msgs refs) = Some nodes
    \<and> shown_rows (rows_of nodes) = mset (map sans_body msgs)"
  using render_groups_show [of _ "message_groups dateKey off msgs" props "''''"] assms message_groups_ok [of dateKey off msgs]
  by (simp add: ChatMessageList_def Let_def)

lemma render_groups_divider:
  assumes "lp_lastReadIdx props = Some i" "groups_ok dateKey start gs" "well_numbered refs (grouped gs)"
    "start \<le> i" "i < start + length (grouped gs)"
  shows "\<exists>pre post. render_groups props refs d gs = Some (pre @ UnreadDivider # post)
    \<and> shown_rows (rows_of pre) = mset (map sans_body (take (i - start) (grouped gs)))
    \<and> shown_rows (rows_of post) = mset (map sans_body (drop (i - start) (grouped gs)))"
  using assms(2-)
proof (induction gs arbitrary: d start)
  case (Cons g gs)
  have split: "grouped (g # gs) = mg_messages g @ grouped gs" by (simp add: grouped_def)
  have wn: "well_numbered refs (mg_messages g)" "well_numbered refs (grouped gs)"
    using Cons.prems(2) well_numbered_append [of refs "mg_messages g" "grouped gs"] by (simp_all add: split)
  have start: "mg_startIdx g = start" using Cons.prems(1) by simp
  let ?d = "if date_chip d g = [] then d else mg_day g"
  show ?case
  proof (cases "i < start + length (mg_messages g)")
    case True
    obtain pre post where "render_group props refs g = Some (pre @ UnreadDivider # post)"
      "shown_rows (rows_of pre) = mset (map sans_body (take (i - start) (mg_messages g)))"
      "shown_rows (rows_of post) = mset (map sans_body (drop (i - start) (mg_messages g)))"
      using render_group_divider [OF wn(1) assms(1)] True Cons.prems(3) by (auto simp: start)
    moreover obtain b where "render_groups props refs ?d gs = Some b" "shown_rows (rows_of b) = mset (map sans_body (grouped gs))"
      using render_groups_show [OF wn(2)] by blast
    ultimately show ?thesis using True
      by (intro exI [of _ "date_chip d g @ pre"] exI [of _ "post @ b"]) (simp add: split)
  next
    case False
    obtain a where "render_group props refs g = Some a" "shown_rows (rows_of a) = mset (map sans_body (mg_messages g))"
      using render_group_show [OF wn(1)] by blast
    moreover obtain pre post where "render_groups props refs ?d gs = Some (pre @ UnreadDivider # post)"
      "shown_rows (rows_of pre) = mset (map sans_body (take (i - (start + length (mg_messages g))) (grouped gs)))"
      "shown_rows (rows_of post) = mset (map sans_body (drop (i - (start + length (mg_messages g))) (grouped gs)))"
      using Cons.IH [of "start + length (mg_messages g)" ?d] Cons.prems False wn(2) by (auto simp: split)
    ultimately show ?thesis using False
      by (intro exI [of _ "date_chip d g @ a @ pre"] exI [of _ post]) (simp add: split)
  qed
qed (simp add: grouped_def)

text \<open>
  The divider stands exactly at the first unread message: above it are the messages of the thread
  before that position, below it the rest.
\<close>

theorem unread_divider_splits_thread:
  assumes "well_numbered (rememberGalleryRefs msgs refs) msgs" "lp_lastReadIdx props = Some i" "off \<le> i" "i < off + length msgs"
  shows "\<exists>pre post. snd (ChatMessageList props dateKey off msgs refs) = Some (pre @ UnreadDivider # post)
    \<and> shown_rows (rows_of pre) = mset (map sans_body (take (i - off) msgs))
    \<and> shown_rows (rows_of post) = mset (map sans_body (drop (i - off) msgs))"
  using render_groups_divider [OF assms(2), of dateKey off "message_groups dateKey off msgs" _ "''''"] assms
    message_groups_ok [of dateKey off msgs]
  by (simp add: ChatMessageList_def Let_def)


section \<open>A gallery\<close>

lemma parse_marker:
  assumes "g \<noteq> []" "\<forall>c \<in> set g. is_group_char c" "int i \<le> MAX_EXACT" "int n \<le> MAX_EXACT"
  shows "parseGalleryMarker (galleryMarker g i n @ body) = Some \<lparr>gr_groupId = g, gr_index = Some (int i), gr_total = Some (int n)\<rparr>"
    and "stripGalleryMarker (galleryMarker g i n @ body) = trim body"
  using GALLERY_RE_marker [OF assms(1,2), of None i n body] assms(3,4)
  by (simp_all add: parseGalleryMarker_def stripGalleryMarker_def)

lemma remember_get:
  assumes "m \<in> set msgs" "cm_message_id m = Some mid" "mid \<noteq> ''''" "parseGalleryMarker (cm_body m) = Some r"
    "\<forall>m' \<in> set msgs. cm_message_id m' = Some mid \<longrightarrow> m' = m"
  shows "map_get (rememberGalleryRefs msgs refs) mid = Some r"
  using assms
proof (induction msgs rule: rev_induct)
  case (snoc x msgs)
  let ?refs = "rememberGalleryRefs msgs refs"
  have step: "rememberGalleryRefs (msgs @ [x]) refs = remember_ref x ?refs" by (simp add: rememberGalleryRefs_def)
  show ?case
  proof (cases "x = m")
    case True
    then show ?thesis unfolding step using snoc.prems(2-4) by (simp add: remember_ref_def)
  next
    case False
    then have other: "cm_message_id x \<noteq> Some mid" using snoc.prems(5) by fastforce
    have m: "m \<in> set msgs" using False snoc.prems(1) by auto
    have "\<forall>m' \<in> set msgs. cm_message_id m' = Some mid \<longrightarrow> m' = m" using snoc.prems(5) unfolding set_append by blast
    then have "map_get ?refs mid = Some r" by (rule snoc.IH [OF m snoc.prems(2-4)])
    then show ?thesis using other by (simp add: step remember_ref_def split: option.splits)
  qed
next
  case Nil
  from Nil(1) show ?case by simp
qed

lemma block_nodes_run:
  assumes "ref_of refs msg = Some r" "\<forall>m \<in> set msgs. same_gallery refs r m" "msgs \<noteq> []"
  shows "block_nodes props refs s j (msg # msgs) =
    map_option (\<lambda>tiles. [Grid (gr_groupId r) (odd (the (gr_total r))) tiles]) (gallery_tiles props refs r (msg # msgs) s j)"
proof -
  have run: "takeWhile (same_gallery refs r) msgs = msgs" using assms(2) by (simp add: takeWhile_eq_all_conv)
  show ?thesis using assms(1,3) by (cases "gallery_tiles props refs r (msg # msgs) s j") (simp_all add: Let_def run)
qed

text \<open>The messages of a gallery, as a sender writes them.\<close>

definition gallery_sent ::
  "string \<Rightarrow> nat \<Rightarrow> (nat \<Rightarrow> chat_message) \<Rightarrow> (nat \<Rightarrow> string) \<Rightarrow> (nat \<Rightarrow> string) \<Rightarrow> bool" where
  "gallery_sent g n sent media mid \<longleftrightarrow>
     g \<noteq> [] \<and> (\<forall>c \<in> set g. is_group_char c) \<and> int n \<le> MAX_EXACT \<and> inj_on mid {..<n}
     \<and> (\<forall>i<n. cm_body (sent i) = galleryMarker g i n @ media i \<and> cm_message_id (sent i) = Some (mid i) \<and> mid i \<noteq> '''')"

lemma gallery_sentD:
  assumes "gallery_sent g n sent media mid"
  shows "g \<noteq> []" "\<forall>c \<in> set g. is_group_char c" "int n \<le> MAX_EXACT" "inj_on mid {..<n}"
    and "i < n \<Longrightarrow> cm_body (sent i) = galleryMarker g i n @ media i"
    and "i < n \<Longrightarrow> cm_message_id (sent i) = Some (mid i) \<and> mid i \<noteq> ''''"
  using assms by (simp_all add: gallery_sent_def)

lemma sent_ref:
  assumes gal: "gallery_sent g n sent media mid" and "set is \<subseteq> {..<n}" "i \<in> set is"
  shows "ref_of (rememberGalleryRefs (map sent is) refs) (sent i) = Some \<lparr>gr_groupId = g, gr_index = Some (int i), gr_total = Some (int n)\<rparr>"
proof -
  note group_id = gallery_sentD(1,2) [OF gal] and number = gallery_sentD(3) [OF gal]
    and bodies = gallery_sentD(5) [OF gal] and ids = gallery_sentD(6,4) [OF gal]
  have i: "i < n" using assms(2,3) by auto
  have "sent k = sent i" if k: "k \<in> set is" "cm_message_id (sent k) = Some (mid i)" for k
  proof -
    have "k < n" using k(1) assms(2) by auto
    then have "k = i" using ids(1) [of k] k(2) i by (intro inj_onD [OF ids(2)]) simp_all
    then show ?thesis by simp
  qed
  then have only: "\<forall>m' \<in> set (map sent is). cm_message_id m' = Some (mid i) \<longrightarrow> m' = sent i" by simp
  have parsed: "parseGalleryMarker (cm_body (sent i)) = Some \<lparr>gr_groupId = g, gr_index = Some (int i), gr_total = Some (int n)\<rparr>"
    using parse_marker(1) [OF group_id _ number] i number by (simp add: bodies)
  have "sent i \<in> set (map sent is)" using assms(3) by simp
  from remember_get [OF this _ _ parsed only] ids(1) [OF i] show ?thesis by (simp add: ref_of_def getGalleryRef_def)
qed

lemma arrived_grid:
  assumes gal: "gallery_sent g n sent media mid" and sub: "set is \<subseteq> {..<n}" and dist: "distinct is" and two: "2 \<le> length is"
  shows "block_nodes props (rememberGalleryRefs (map sent is) refs) start 0 (map sent is) =
    Some [Grid g (odd n) (map (\<lambda>i. if i \<in> set is then Tile (renderMessage props (sent i) (start + i) i True) else Hole) [0..<n])]"
proof -
  let ?R = "rememberGalleryRefs (map sent is) refs" and ?run = "map sent is"
  let ?r = "\<lambda>i. \<lparr>gr_groupId = g, gr_index = Some (int i), gr_total = Some (int n)\<rparr>"
  obtain a b tl' where iss: "is = a # b # tl'" using two by (cases "is"; cases "tl is") auto
  note ref = sent_ref [OF gal sub, of _ refs]
  have idx: "index_in ?R (sent i) = Some (int i)" if "i \<in> set is" for i using ref [OF that] by (simp add: index_in_def)
  have "map (index_in ?R) ?run = map (Some \<circ> int) is" using idx by simp
  moreover have "distinct (map (Some \<circ> int) is)" using dist by (simp add: distinct_map inj_on_def)
  ultimately have d: "distinct (map (index_in ?R) ?run)" by (simp only:)
  have get: "map_get (by_index ?R ?run) k = Some m \<longleftrightarrow> m \<in> set ?run \<and> index_in ?R m = k" for k m
    by (rule by_index_get [OF _ d]) (use ref in auto)
  have tile: "tile_at props (by_index ?R ?run) start 0 i =
      (if i \<in> set is then Tile (renderMessage props (sent i) (start + i) i True) else Hole)" for i
  proof (cases "i \<in> set is")
    case True
    then have "map_get (by_index ?R ?run) (Some (int i)) = Some (sent i)" using get idx by simp
    then show ?thesis using True by (simp add: tile_at_def)
  next
    case False
    then have "map_get (by_index ?R ?run) (Some (int i)) \<noteq> Some m" for m using get idx by fastforce
    then have "map_get (by_index ?R ?run) (Some (int i)) = None" by auto
    then show ?thesis using False by (simp add: tile_at_def)
  qed
  have run: "?run = sent a # map sent (b # tl')" by (simp add: iss)
  have "\<forall>m \<in> set (map sent (b # tl')). same_gallery ?R (?r a) m" using ref by (auto simp: same_gallery_def iss)
  then have "block_nodes props ?R start 0 ?run =
      map_option (\<lambda>tiles. [Grid g (odd n) tiles]) (gallery_tiles props ?R (?r a) ?run start 0)"
    using block_nodes_run [of ?R "sent a" "?r a" "map sent (b # tl')" props start 0] ref [of a] unfolding run
    by (simp add: iss del: block_nodes.simps)
  then show ?thesis by (simp add: gallery_tiles_def tile)
qed

lemma tile_body:
  assumes "gallery_sent g n sent media mid" "i < n"
  shows "cm_body (rv_msg (renderMessage props (sent i) k j True)) = trim (media i)"
  using parse_marker(2) [OF gallery_sentD(1,2) [OF assms(1)], of i n "media i"] gallery_sentD(3,5) [OF assms(1)] assms(2)
  by (simp add: renderMessage_def Let_def)

definition gallery_message :: "string \<Rightarrow> nat \<Rightarrow> (nat \<Rightarrow> string) \<Rightarrow> (nat \<Rightarrow> string) \<Rightarrow> chat_message \<Rightarrow> nat \<Rightarrow> chat_message" where
  "gallery_message g n media mid m i = m\<lparr>cm_body := galleryMarker g i n @ media i, cm_message_id := Some (mid i)\<rparr>"

text \<open>The ids a server could give: the number of the image behind a letter.\<close>

definition image_id :: "nat \<Rightarrow> string" where
  "image_id i = CHR ''m'' # show_nat i"

definition plain_message :: chat_message where
  "plain_message =
     \<lparr>cm_sender_session = Some 5, cm_sender_name = ''ann'', cm_sender_hash = None, cm_body = '''', cm_channel_id = 0,
      cm_is_own = False, cm_dm_session = None, cm_message_id = None, cm_timestamp = None, cm_is_legacy = None,
      cm_edited_at = None, cm_pinned = None, cm_pinned_by = None, cm_pinned_at = None, cm_plugin_name = None,
      cm_plugin_components = None\<rparr>"

text \<open>
  The images of a gallery of which at least two have arrived, in whatever order, are one grid with
  a tile for every image announced: image \<open>i\<close> stands in tile \<open>i\<close> with the marker cut off its body,
  and a tile whose image is still missing is empty.
\<close>

theorem gallery_grid_complete:
  assumes "gallery_sent g n sent media mid" "set is \<subseteq> {..<n}" "distinct is" "2 \<le> length is"
  shows "block_nodes props (rememberGalleryRefs (map sent is) refs) start 0 (map sent is) =
      Some [Grid g (odd n) (map (\<lambda>i. if i \<in> set is then Tile (renderMessage props (sent i) (start + i) i True) else Hole) [0..<n])]
    \<and> (\<forall>i \<in> set is. cm_body (rv_msg (renderMessage props (sent i) (start + i) i True)) = trim (media i))"
  using arrived_grid [OF assms] tile_body [OF assms(1)] assms(2) by auto

definition example_props :: list_props where
  "example_props =
     \<lparr>lp_selectionMode = False, lp_canDelete = True, lp_selectedMsgIds = [], lp_restoringKeys = [], lp_isMobile = False,
      lp_alwaysShowMessageActions = False, lp_flatBubbles = False, lp_lastReadIdx = Some 8, lp_userBySession = [],
      lp_userByHash = [], lp_avatarBySession = [], lp_avatarByHash = []\<rparr>"

definition picture :: "nat \<Rightarrow> chat_message" where
  "picture = gallery_message ''1f0a'' 3 (\<lambda>i. ''<img>'') image_id plain_message"

lemma pictures_sent: "gallery_sent ''1f0a'' 3 picture (\<lambda>i. ''<img>'') image_id"
  by (simp add: gallery_sent_def picture_def gallery_message_def image_id_def is_group_char_def is_ws_def MAX_EXACT_def inj_on_def)

theorem gallery_grid_complete_witness:
  "block_nodes example_props (rememberGalleryRefs (map picture [2, 0]) []) 7 0 (map picture [2, 0]) =
    Some [Grid ''1f0a'' (odd (3 :: nat))
      (map (\<lambda>i. if i \<in> set [2, 0] then Tile (renderMessage example_props (picture i) (7 + i) i True) else Hole) [0..<3])]"
  using gallery_grid_complete [OF pictures_sent, of "[2, 0]" example_props "[]" 7] by simp

lemma gallery_well_numbered:
  assumes "gallery_sent g n sent media mid" "set is \<subseteq> {..<n}" "distinct is"
  shows "well_numbered (rememberGalleryRefs (map sent is) refs) (map sent is)"
proof -
  let ?R = "rememberGalleryRefs (map sent is) refs"
  note ref = sent_ref [OF assms(1,2), of _ refs]
  have "distinct (map (index_in ?R) (filter (\<lambda>m. gallery_of ?R m = Some h) (map sent is)))" for h
  proof -
    have "map (index_in ?R) (filter (\<lambda>m. gallery_of ?R m = Some h) (map sent is))
        = map (Some \<circ> int) (filter (\<lambda>i. gallery_of ?R (sent i) = Some h) is)"
      unfolding filter_map map_map comp_def by (rule map_cong) (auto simp: ref index_in_def)
    moreover have "distinct (map (Some \<circ> int) (filter (\<lambda>i. gallery_of ?R (sent i) = Some h) is))"
      using assms(3) by (simp add: distinct_map inj_on_def)
    ultimately show ?thesis by (simp only:)
  qed
  moreover have "index_below r r'" if "i \<in> set is" "j \<in> set is" "ref_of ?R (sent i) = Some r" "ref_of ?R (sent j) = Some r'" for i j r r'
    using that ref assms(2) by (auto simp: index_below_def)
  ultimately show ?thesis by (auto simp: well_numbered_def)
qed

lemma pictures_numbered: "well_numbered (rememberGalleryRefs (map picture [2, 0]) []) (map picture [2, 0])"
  by (rule gallery_well_numbered [OF pictures_sent]) auto

theorem every_message_rendered_witness:
  "\<exists>nodes. snd (ChatMessageList example_props (\<lambda>t. ''today'') 7 (map picture [2, 0]) []) = Some nodes
    \<and> shown_rows (rows_of nodes) = mset (map sans_body (map picture [2, 0]))"
  by (rule every_message_rendered [OF pictures_numbered])

theorem unread_divider_splits_thread_witness:
  "\<exists>pre post. snd (ChatMessageList example_props (\<lambda>t. ''today'') 7 (map picture [2, 0]) []) = Some (pre @ UnreadDivider # post)
    \<and> shown_rows (rows_of pre) = {# sans_body (picture 2) #} \<and> shown_rows (rows_of post) = {# sans_body (picture 0) #}"
  using unread_divider_splits_thread [OF pictures_numbered, of example_props 8 7 "\<lambda>t. ''today''"]
  by (simp add: example_props_def)

section \<open>What the list gets wrong\<close>

text \<open>
  Messages of senders who are no longer connected have no session.  Two such senders on one day are
  one group, and only the first row of a group carries a name.
\<close>

lemma offline_senders_merged:
  assumes "cm_sender_session a = None" "cm_sender_session b = None" "cm_is_own a = cm_is_own b"
    "msg_day dateKey a = msg_day dateKey b" "ref_of refs a = None" "ref_of refs b = None"
  shows "message_groups dateKey 0 [a, b] = [\<lparr>mg_senderId = None, mg_senderHash = cm_sender_hash a, mg_isOwn = cm_is_own a,
      mg_startIdx = 0, mg_messages = [a, b], mg_day = msg_day dateKey a\<rparr>]"
    and "block_nodes props refs 0 0 [a, b] = Some [Row (renderMessage props a 0 0 False), Row (renderMessage props b 1 1 False)]"
    and "\<not> rv_first (renderMessage props b 1 1 False)"
  using assms by (simp_all add: message_groups_def push_message_def continues_group_def renderMessage_def Let_def)

text \<open>
  The number of tiles is whatever the first message announces: any number there is, and when it has
  more digits than a number can hold, the loop over the tiles does not end.
\<close>

lemma announced_tiles_drawn:
  assumes "gallery_sent g n sent media mid" "2 \<le> n"
  shows "\<exists>tiles. block_nodes props (rememberGalleryRefs [sent 0, sent 1] refs) s 0 [sent 0, sent 1] = Some [Grid g (odd n) tiles]
    \<and> length tiles = n"
  using arrived_grid [OF assms(1), of "[0, 1]" props refs s] assms(2) by simp

lemma infinite_gallery_hangs:
  assumes "ref_of refs a = Some r" "gr_total r = None" "same_gallery refs r b"
  shows "block_nodes props refs s j [a, b] = None"
  using block_nodes_run [OF assms(1), of "[b]" props s j] assms(2,3) by (simp add: gallery_tiles_def)

end
