(* ===== verification/ChatSend.thy ===== *)
theory ChatSend
  imports ChatLoop MessageList Mentions
begin

text \<open>
  Sending from the composer: \<open>components/chat/useChatSend.ts\<close> (text, edits, images, videos and
  galleries, pasted images), \<open>components/chat/useDragDropAttachments.ts\<close> (the tray of attachments) and
  the part of \<open>components/chat/ChatView.tsx\<close> that sends the tray.

  An operation yields the effects it has, in their order: calls of the store, the hooks of the view, and
  toasts.  The calls of the store that are awaited never reject, so nothing but the preparation of a file
  can fail.  Ids of placeholders and galleries are arguments.  Whatever happens to the files, the
  composer is ready again afterwards and the placeholder is gone or shows the failure
  (\<open>media_send_settles\<close>); a gallery sends its images in order up to the first that fails
  (\<open>gallery_sends_in_order\<close>), and what it sends is one grid for the reader (\<open>sent_gallery_is_one_grid\<close>); a
  paste is staged once (\<open>paste_staged_once\<close>).  The ellipsis of the labels is written as three dots.
\<close>

section \<open>Effects\<close>

datatype send_effect =
    ClearDraft
  | ClearQuotes
  | EditComplete
  | SendMessage int string
  | SendDm int string
  | EditMessage int string string
  | AddPlaceholder string "int option" "int option" string
  | DismissPlaceholder string
  | FailPlaceholder string string
  | SetSending bool
  | ErrorToast string
  | InfoToast string

record send_context =
  sx_selectedChannel :: "int option"
  sx_selectedDmUser :: "int option"
  sx_max_image_message_length :: int
  sx_max_message_length :: int
  sx_users :: "user_entry list"
  sx_roleGroups :: "(string \<times> string option) list"    \<comment> \<open>name and colour of the groups of the root channel\<close>
  sx_hasToast :: bool

definition rootChannelId :: "channel_entry list \<Rightarrow> int" where
  "rootChannelId channels =
     (case List.find (\<lambda>c. ch_parent_id c = None \<or> ch_parent_id c = Some (ch_id c)) channels of
        None \<Rightarrow> 0 | Some c \<Rightarrow> ch_id c)"

text \<open>The listener of access lists: those of the root channel give the colours of the roles.\<close>

definition onAcl :: "int \<Rightarrow> int \<Rightarrow> (string \<times> string option) list \<Rightarrow> send_context \<Rightarrow> send_context" where
  "onAcl rootId channelId groups ctx = (if channelId = rootId then ctx\<lparr>sx_roleGroups := groups\<rparr> else ctx)"

definition mentionResolver :: "send_context \<Rightarrow> resolver" where
  "mentionResolver ctx =
     \<lparr>resolveSession = (\<lambda>session. map_option us_name (List.find (\<lambda>u. Some (us_session u) = session) (sx_users ctx))),
      resolveRole = (\<lambda>name. map_option snd (List.find (\<lambda>g. fst g = name) (sx_roleGroups ctx)))\<rparr>"

definition renderBody :: "send_context \<Rightarrow> string \<Rightarrow> string" where
  "renderBody ctx draft = applyMentionsToHtml (mentionResolver ctx) (markdownToHtml draft)"

definition send_body :: "send_context \<Rightarrow> string \<Rightarrow> send_effect list" where
  "send_body ctx body =
     (case sx_selectedDmUser ctx of
        Some u \<Rightarrow> [SendDm u body]
      | None \<Rightarrow> (case sx_selectedChannel ctx of Some ch \<Rightarrow> [SendMessage ch body] | None \<Rightarrow> []))"

definition no_target :: "send_context \<Rightarrow> bool" where
  "no_target ctx \<longleftrightarrow> sx_selectedDmUser ctx = None \<and> sx_selectedChannel ctx = None"

section \<open>Text\<close>

definition quote_markers :: "chat_message list \<Rightarrow> string" where
  "quote_markers quotes =
     concat (map (\<lambda>q. ''<!-- FANCY_QUOTE:'' @ the (cm_message_id q) @ '' -->'') (filter has_msg_id quotes))"

text \<open>A new message: the markers of the quoted messages, then the text.\<close>

definition send_new :: "send_context \<Rightarrow> string \<Rightarrow> chat_message list \<Rightarrow> send_effect list" where
  "send_new ctx body_text quotes =
     (let html = quote_markers quotes @ (if body_text = [] then [] else renderBody ctx body_text)
      in if html = [] \<or> no_target ctx then [] else ClearDraft # ClearQuotes # send_body ctx html)"

definition handleSend :: "send_context \<Rightarrow> string \<Rightarrow> chat_message list \<Rightarrow> chat_message option \<Rightarrow> send_effect list" where
  "handleSend ctx draft quotes editing =
     (let body_text = trim draft in
      if body_text = [] \<and> quotes = [] then []
      else case editing of
        Some m \<Rightarrow>
          if has_msg_id m \<and> body_text \<noteq> []
          then [ClearDraft, EditComplete, EditMessage (cm_channel_id m) (the (cm_message_id m)) (renderBody ctx body_text)]
          else send_new ctx body_text quotes
      | None \<Rightarrow> send_new ctx body_text quotes)"

definition handleGifSelect :: "send_context \<Rightarrow> string \<Rightarrow> string \<Rightarrow> send_effect list" where
  "handleGifSelect ctx url alt = send_body ctx (''<img src='' @ quoted url @ '' alt='' @ quoted alt @ '' />'')"

section \<open>One file\<close>

definition max_bytes :: "send_context \<Rightarrow> int" where
  "max_bytes ctx =
     (if 0 < sx_max_image_message_length ctx then sx_max_image_message_length ctx else sx_max_message_length ctx)"

definition name_or :: "string \<Rightarrow> js_file \<Rightarrow> string" where
  "name_or d file = (if file_name file = [] then d else file_name file)"

definition prepare_media :: "media_env \<Rightarrow> media_kind \<Rightarrow> js_file \<Rightarrow> int \<Rightarrow> string + string \<times> media_kind" where
  "prepare_media env kind file maxBytes =
     (case kind of
        ImageKind \<Rightarrow> and_then (fitImage env file maxBytes) (\<lambda>u. Inr (u, ImageKind))
      | VideoKind \<Rightarrow> fitVideo env file maxBytes
      | GifKind \<Rightarrow> and_then (env_read env file) (\<lambda>u.
          if maxBytes < int (length u) then and_then (fitImage env file maxBytes) (\<lambda>v. Inr (v, ImageKind))
          else Inr (u, GifKind)))"

definition error_toast :: "send_context \<Rightarrow> string \<Rightarrow> send_effect list" where
  "error_toast ctx msg = (if sx_hasToast ctx then [ErrorToast msg] else [])"

definition add_placeholder :: "send_context \<Rightarrow> string \<Rightarrow> string \<Rightarrow> send_effect" where
  "add_placeholder ctx pid label =
     AddPlaceholder pid (if sx_selectedDmUser ctx = None then sx_selectedChannel ctx else None) (sx_selectedDmUser ctx)
       (''<em>'' @ label @ ''</em>'')"

definition sendMediaFile :: "media_env \<Rightarrow> send_context \<Rightarrow> string \<Rightarrow> js_file \<Rightarrow> send_effect list" where
  "sendMediaFile env ctx pid file =
     (if no_target ctx then []
      else case mediaKind (file_type file) of
        None \<Rightarrow> error_toast ctx ''Unsupported file type. Pick an image, GIF, or video.''
      | Some kind \<Rightarrow>
          [add_placeholder ctx pid (if kind = VideoKind then ''Preparing video...'' else ''Preparing image...''), SetSending True]
          @ (case prepare_media env kind file (max_bytes ctx) of
               Inr (dataUrl, sendKind) \<Rightarrow>
                 DismissPlaceholder pid # send_body ctx (mediaToHtml dataUrl sendKind (name_or ''clipboard.png'' file))
             | Inl e \<Rightarrow>
                 FailPlaceholder pid (''Couldn'' @ [CHR 0x27] @ ''t prepare media: '' @ e)
                 # error_toast ctx (''Failed to send media: '' @ e))
          @ [SetSending False])"

section \<open>Galleries\<close>

definition image_budget :: "gallery_quality \<Rightarrow> int \<Rightarrow> int" where
  "image_budget quality maxBytes =
     (case quality of Compressed \<Rightarrow> max 60000 (maxBytes div 3) | FullQuality \<Rightarrow> maxBytes)"

definition prepare_image :: "media_env \<Rightarrow> js_file \<Rightarrow> int \<Rightarrow> string + string \<times> media_kind" where
  "prepare_image env file budget =
     (case mediaKind (file_type file) of
        Some VideoKind \<Rightarrow> fitVideo env file budget
      | _ \<Rightarrow> and_then (fitImage env file budget) (\<lambda>u. Inr (u, ImageKind)))"

text \<open>The loop over the files: its effects, and the error that ends it.  \<open>cleared\<close>: the placeholder is gone.\<close>

fun send_images ::
  "media_env \<Rightarrow> send_context \<Rightarrow> int \<Rightarrow> (nat \<Rightarrow> string) \<Rightarrow> string \<Rightarrow> nat \<Rightarrow> bool \<Rightarrow> js_file list \<Rightarrow> send_effect list \<times> string option"
where
  "send_images env ctx budget lead pid index cleared [] = ([], None)"
| "send_images env ctx budget lead pid index cleared (file # files) =
     (case prepare_image env file budget of
        Inl e \<Rightarrow> ([], Some e)
      | Inr (dataUrl, sendKind) \<Rightarrow>
          (case send_images env ctx budget lead pid (Suc index) True files of
             (later, err) \<Rightarrow>
               ((if cleared then [] else [DismissPlaceholder pid])
                @ send_body ctx (lead index @ mediaToHtml dataUrl sendKind (name_or ''image'' file)) @ later, err)))"

definition sendMediaGallery ::
  "media_env \<Rightarrow> send_context \<Rightarrow> string \<Rightarrow> string \<Rightarrow> js_file list \<Rightarrow> string \<Rightarrow> gallery_quality \<Rightarrow> send_effect list" where
  "sendMediaGallery env ctx pid groupId allFiles caption quality =
     (if allFiles = [] \<or> no_target ctx then []
      else let files = take MAX_GALLERY_IMAGES allFiles;
               budget = image_budget quality (max_bytes ctx);
               captionHtml = (if trim caption = [] then [] else renderBody ctx (trim caption));
               single = (length files = 1);
               lead = (\<lambda>i. if single then captionHtml else galleryMarker groupId i (length files));
               first = (if \<not> single \<and> captionHtml \<noteq> [] then DismissPlaceholder pid # send_body ctx captionHtml else []);
               run = send_images env ctx budget lead pid 0 (first \<noteq> []) files
           in (if MAX_GALLERY_IMAGES < length allFiles \<and> sx_hasToast ctx
               then [InfoToast (''Only the first '' @ show_nat MAX_GALLERY_IMAGES @ '' images were sent.'')] else [])
              @ [add_placeholder ctx pid
                   (if 1 < length files then ''Preparing '' @ show_nat (length files) @ '' images...'' else ''Preparing image...''),
                 SetSending True]
              @ first @ fst run
              @ (case snd run of
                   None \<Rightarrow> []
                 | Some e \<Rightarrow> FailPlaceholder pid (''Couldn'' @ [CHR 0x27] @ ''t prepare images: '' @ e)
                             # error_toast ctx (''Failed to send images: '' @ e))
              @ [SetSending False])"

section \<open>Pasting\<close>

record clip_item =
  ci_isFile :: bool
  ci_type :: string
  ci_file :: "js_file option"

record clip_data =
  cd_items :: "clip_item list"
  cd_files :: "js_file list"

definition item_image :: "clip_item \<Rightarrow> js_file option" where
  "item_image item = (if ci_isFile item \<and> starts_with (ci_type item) ''image/'' then ci_file item else None)"

text \<open>The images staged, in order; nothing is staged without a tray.\<close>

definition stageImagesFrom :: "bool \<Rightarrow> clip_data \<Rightarrow> js_file list" where
  "stageImagesFrom hasTray clip =
     (if \<not> hasTray then []
      else let fromItems = List.map_filter item_image (cd_items clip)
           in if fromItems \<noteq> [] then fromItems
              else filter (\<lambda>f. starts_with (file_type f) ''image/'') (cd_files clip))"

text \<open>
  The asynchronous clipboard: \<open>None\<close> when it is not there or reading it fails, and for each item the
  types it offers and the content of a type.
\<close>

definition readClipboardImage :: "bool \<Rightarrow> (string list \<times> (string \<Rightarrow> string)) list option \<Rightarrow> js_file list" where
  "readClipboardImage hasTray clip =
     (case clip of
        None \<Rightarrow> []
      | Some items \<Rightarrow>
          if \<not> hasTray then []
          else List.map_filter (\<lambda>(types, content).
                 map_option (\<lambda>t. \<lparr>file_name = ''clipboard.png'', file_type = t, file_content = content t\<rparr>)
                   (List.find (\<lambda>t. starts_with t ''image/'') types)) items)"

text \<open>
  One paste: the handler of the input runs first when the paste happens there, then the one of the
  document.  The state is \<open>pasteHandledRef\<close> and the images staged so far; the last component tells
  whether the asynchronous clipboard is read.
\<close>

type_synonym paste_state = "bool \<times> js_file list"

definition handlePaste :: "bool \<Rightarrow> clip_data option \<Rightarrow> paste_state \<Rightarrow> paste_state" where
  "handlePaste hasTray clip st =
     (case clip of
        None \<Rightarrow> st
      | Some c \<Rightarrow> (let fs = stageImagesFrom hasTray c in if fs \<noteq> [] then (True, snd st @ fs) else st))"

definition onDocPaste :: "bool \<Rightarrow> bool \<Rightarrow> clip_data option \<Rightarrow> paste_state \<Rightarrow> paste_state \<times> bool" where
  "onDocPaste hasTray inLiveDoc clip st =
     (if fst st then ((False, snd st), False)
      else if inLiveDoc then (st, False)
      else let fs = (case clip of None \<Rightarrow> [] | Some c \<Rightarrow> stageImagesFrom hasTray c)
           in if fs \<noteq> [] then ((fst st, snd st @ fs), False) else (st, True))"

datatype paste_target = InComposer | InLiveDoc | Elsewhere

definition paste :: "bool \<Rightarrow> paste_target \<Rightarrow> clip_data option \<Rightarrow> paste_state \<Rightarrow> paste_state \<times> bool" where
  "paste hasTray target clip st =
     onDocPaste hasTray (target = InLiveDoc) clip (if target = InComposer then handlePaste hasTray clip st else st)"

section \<open>The tray\<close>

definition IMAGE_EXTS :: "string jset" where
  "IMAGE_EXTS = [''png'', ''jpg'', ''jpeg'', ''gif'', ''webp'', ''avif'', ''bmp'', ''svg'', ''ico'']"

record attachment =
  at_id :: string
  at_path :: "string option"
  at_file :: "js_file option"
  at_name :: string
  at_isImage :: bool

definition fileNameFromPath :: "string \<Rightarrow> string" where
  "fileNameFromPath path = last_part (CHR ''/'') (map (\<lambda>c. if c = CHR 0x5C then CHR ''/'' else c) path)"

definition isImageName :: "string \<Rightarrow> bool" where
  "isImageName name = set_has IMAGE_EXTS (last_part (CHR ''.'') (to_lower name))"

definition attachmentFromPath :: "string \<Rightarrow> string \<Rightarrow> attachment" where
  "attachmentFromPath newId path =
     (let name = fileNameFromPath path
      in \<lparr>at_id = newId, at_path = Some path, at_file = None, at_name = name, at_isImage = isImageName name\<rparr>)"

definition attachmentFromFile :: "string \<Rightarrow> js_file \<Rightarrow> attachment" where
  "attachmentFromFile newId file =
     (let name = name_or ''file'' file
      in \<lparr>at_id = newId, at_path = None, at_file = Some file, at_name = name,
          at_isImage = (starts_with (file_type file) ''image/'' \<or> isImageName name)\<rparr>)"

datatype drag_region = ChatRegion | LiveDocRegion

datatype drag_payload =
    DragOver "(int \<times> int) option"
  | DragDrop "(int \<times> int) option" "string list option"
  | DragLeave

record tray =
  tr_attachments :: "attachment list"
  tr_dragTarget :: "drag_region option"
  tr_liveDoc :: "attachment list"       \<comment> \<open>handed to the live document so far\<close>

definition addFromFile :: "string \<Rightarrow> js_file \<Rightarrow> tray \<Rightarrow> tray" where
  "addFromFile newId file t = t\<lparr>tr_attachments := tr_attachments t @ [attachmentFromFile newId file]\<rparr>"

definition removeAttachment :: "string \<Rightarrow> tray \<Rightarrow> tray" where
  "removeAttachment i t = t\<lparr>tr_attachments := filter (\<lambda>a. at_id a \<noteq> i) (tr_attachments t)\<rparr>"

definition clearAttachments :: "tray \<Rightarrow> tray" where
  "clearAttachments t = t\<lparr>tr_attachments := []\<rparr>"

definition targetAt :: "(int \<times> int \<Rightarrow> drag_region option) \<Rightarrow> (int \<times> int) option \<Rightarrow> drag_region" where
  "targetAt resolveTarget position =
     (case position of None \<Rightarrow> ChatRegion | Some p \<Rightarrow> (case resolveTarget p of None \<Rightarrow> ChatRegion | Some r \<Rightarrow> r))"

definition handleDrop :: "(nat \<Rightarrow> string) \<Rightarrow> bool \<Rightarrow> drag_region \<Rightarrow> string list option \<Rightarrow> tray \<Rightarrow> tray" where
  "handleDrop ids takesLiveDoc region paths t =
     (case paths of
        None \<Rightarrow> t
      | Some ps \<Rightarrow>
          (let items = map (\<lambda>(i, p). attachmentFromPath (ids i) p) (List.enumerate 0 ps)
           in if ps = [] then t
              else if region = LiveDocRegion \<and> takesLiveDoc then t\<lparr>tr_liveDoc := tr_liveDoc t @ items\<rparr>
              else t\<lparr>tr_attachments := tr_attachments t @ items\<rparr>))"

definition handleEvent :: "(nat \<Rightarrow> string) \<Rightarrow> bool \<Rightarrow> (int \<times> int \<Rightarrow> drag_region option) \<Rightarrow> drag_payload \<Rightarrow> tray \<Rightarrow> tray" where
  "handleEvent ids takesLiveDoc resolveTarget payload t =
     (case payload of
        DragOver pos \<Rightarrow> t\<lparr>tr_dragTarget := Some (targetAt resolveTarget pos)\<rparr>
      | DragLeave \<Rightarrow> t\<lparr>tr_dragTarget := None\<rparr>
      | DragDrop pos paths \<Rightarrow>
          handleDrop ids takesLiveDoc (targetAt resolveTarget pos) paths (t\<lparr>tr_dragTarget := None\<rparr>))"

text \<open>Reading the files of the images: \<open>fetched\<close> is what the platform gives for a path.\<close>

fun resolve_files :: "(attachment \<Rightarrow> string + js_file) \<Rightarrow> attachment list \<Rightarrow> string + js_file list" where
  "resolve_files fetched [] = Inr []"
| "resolve_files fetched (att # atts) =
     (case at_file att of
        Some f \<Rightarrow> and_then (resolve_files fetched atts) (\<lambda>fs. Inr (f # fs))
      | None \<Rightarrow>
          (case at_path att of
             None \<Rightarrow> resolve_files fetched atts
           | Some p \<Rightarrow> if p = [] then resolve_files fetched atts
                       else and_then (fetched att) (\<lambda>f. and_then (resolve_files fetched atts) (\<lambda>fs. Inr (f # fs)))))"

datatype tray_effect = Send send_effect | EmptyTray | OpenShareDialog string string | ResetTyping

record composer_view =
  cv_draft :: string
  cv_quotes :: "chat_message list"
  cv_editing :: "chat_message option"
  cv_quality :: gallery_quality

text \<open>The effects, and whether the draft was used as the caption.\<close>

definition sendPendingAttachments ::
  "media_env \<Rightarrow> (attachment \<Rightarrow> string + js_file) \<Rightarrow> send_context \<Rightarrow> string \<Rightarrow> string \<Rightarrow> composer_view \<Rightarrow> attachment list
    \<Rightarrow> tray_effect list \<times> bool" where
  "sendPendingAttachments env fetched ctx pid groupId cv pending =
     (if pending = [] then ([], False)
      else let images = filter at_isImage pending;
               files = filter (\<lambda>a. \<not> at_isImage a) pending;
               (gallery, captionConsumed) =
                 (if images = [] then ([], False)
                  else case resolve_files fetched images of
                    Inl e \<Rightarrow> ([ErrorToast (at_name (hd images) @ '': '' @ e)], False)
                  | Inr resolved \<Rightarrow>
                      if resolved = [] then ([], False)
                      else (sendMediaGallery env ctx pid groupId resolved (cv_draft cv) (cv_quality cv) @ [ClearDraft], True));
               share =
                 (case List.find (\<lambda>a. at_path a \<noteq> None \<and> at_path a \<noteq> Some '''') files of
                    Some f \<Rightarrow> [OpenShareDialog (the (at_path f)) (at_name f)]
                  | None \<Rightarrow>
                      if files = [] then []
                      else [Send (ErrorToast (''Cannot share '' @ at_name (hd files) @ '': missing file path.''))])
           in (EmptyTray # map Send gallery @ share, captionConsumed))"

definition handleSendAndResetTyping ::
  "media_env \<Rightarrow> (attachment \<Rightarrow> string + js_file) \<Rightarrow> send_context \<Rightarrow> string \<Rightarrow> string \<Rightarrow> composer_view \<Rightarrow> attachment list
    \<Rightarrow> tray_effect list" where
  "handleSendAndResetTyping env fetched ctx pid groupId cv pending =
     (case sendPendingAttachments env fetched ctx pid groupId cv pending of
        (effects, captionConsumed) \<Rightarrow>
          effects @ (if captionConsumed then [] else map Send (handleSend ctx (cv_draft cv) (cv_quotes cv) (cv_editing cv)))
          @ [ResetTyping])"

section \<open>Uploads\<close>

text \<open>
  \<open>performUpload\<close>, cut at its await: the placeholder while the file goes to the file server, the
  progress events, and the answer with the body to send, or the error.
\<close>

datatype upload_state = Uploading "int option" | UploadFailed string

record upload_view =
  uv_placeholders :: "(string \<times> string \<times> upload_state) list"    \<comment> \<open>id, file name, state\<close>
  uv_isUploading :: bool

definition performUpload :: "string \<Rightarrow> string \<Rightarrow> send_context \<Rightarrow> upload_view \<Rightarrow> upload_view \<times> bool" where
  "performUpload newId filename ctx v =
     (if sx_selectedChannel ctx = None then (v, False)
      else (v\<lparr>uv_placeholders := uv_placeholders v @ [(newId, filename, Uploading None)], uv_isUploading := True\<rparr>, True))"

definition set_upload :: "string \<Rightarrow> upload_state \<Rightarrow> upload_view \<Rightarrow> upload_view" where
  "set_upload i st v =
     v\<lparr>uv_placeholders := map (\<lambda>(j, name, old). (j, name, if j = i then st else old)) (uv_placeholders v)\<rparr>"

definition drop_upload :: "string \<Rightarrow> upload_view \<Rightarrow> upload_view" where
  "drop_upload i v = v\<lparr>uv_placeholders := filter (\<lambda>p. fst p \<noteq> i) (uv_placeholders v)\<rparr>"

text \<open>\<open>Math.round\<close> of the share sent, at most 99.\<close>

definition upload_percent :: "int \<Rightarrow> int \<Rightarrow> int" where
  "upload_percent bytesSent totalBytes =
     (if 0 < totalBytes then min 99 ((200 * bytesSent + totalBytes) div (2 * totalBytes)) else 0)"

definition upload_progress :: "string \<Rightarrow> int \<Rightarrow> int \<Rightarrow> upload_view \<Rightarrow> upload_view" where
  "upload_progress i bytesSent totalBytes v =
     v\<lparr>uv_placeholders := map (\<lambda>(j, name, old). (j, name,
        case old of
          Uploading p \<Rightarrow> if j = i then Uploading (Some (upload_percent bytesSent totalBytes)) else old
        | UploadFailed e \<Rightarrow> old)) (uv_placeholders v)\<rparr>"

definition upload_done :: "send_context \<Rightarrow> string \<Rightarrow> string + string \<Rightarrow> upload_view \<Rightarrow> upload_view \<times> send_effect list" where
  "upload_done ctx i result v =
     (case result of
        Inr body \<Rightarrow>
          ((drop_upload i v)\<lparr>uv_isUploading := False\<rparr>,
           case sx_selectedDmUser ctx of Some u \<Rightarrow> [SendDm u body] | None \<Rightarrow> [SendMessage (the (sx_selectedChannel ctx)) body])
      | Inl detail \<Rightarrow>
          ((if detail = ''upload cancelled'' then v else set_upload i (UploadFailed detail) v)\<lparr>uv_isUploading := False\<rparr>, []))"

definition handleDismissUpload :: "string \<Rightarrow> upload_view \<Rightarrow> upload_view" where
  "handleDismissUpload i v = drop_upload i v"

definition handleCancelUpload :: "string \<Rightarrow> upload_view \<Rightarrow> upload_view" where
  "handleCancelUpload i v = drop_upload i v"

section \<open>What is sent\<close>

fun sent_body :: "send_effect \<Rightarrow> string list" where
  "sent_body (SendMessage ch body) = [body]"
| "sent_body (SendDm u body) = [body]"
| "sent_body (EditMessage ch mid body) = [body]"
| "sent_body e = []"

definition sent_bodies :: "send_effect list \<Rightarrow> string list" where
  "sent_bodies es = concat (map sent_body es)"

lemma sent_bodies_simps [simp]:
  "sent_bodies [] = []" "sent_bodies (e # es) = sent_body e @ sent_bodies es" "sent_bodies (xs @ ys) = sent_bodies xs @ sent_bodies ys"
  by (simp_all add: sent_bodies_def)

lemma sent_send_body [simp]: "\<not> no_target ctx \<Longrightarrow> sent_bodies (send_body ctx body) = [body]"
  by (auto simp: send_body_def no_target_def split: option.splits)

lemma sent_error_toast [simp]: "sent_bodies (error_toast ctx msg) = []"
  by (simp add: error_toast_def)

lemma sent_add_placeholder [simp]: "sent_body (add_placeholder ctx pid label) = []"
  by (simp add: add_placeholder_def)

text \<open>
  The draft is cleared exactly when something leaves the composer: a new message, a direct message
  or an edit, and then exactly one; a draft that goes nowhere stays.
\<close>

theorem draft_kept_unless_sent:
  "(ClearDraft \<in> set (handleSend ctx draft quotes editing) \<longleftrightarrow> sent_bodies (handleSend ctx draft quotes editing) \<noteq> [])
    \<and> length (sent_bodies (handleSend ctx draft quotes editing)) \<le> 1"
proof -
  have "(ClearDraft \<in> set (send_new ctx t quotes) \<longleftrightarrow> sent_bodies (send_new ctx t quotes) \<noteq> [])
      \<and> length (sent_bodies (send_new ctx t quotes)) \<le> 1" for t
    by (auto simp: send_new_def Let_def)
  then show ?thesis by (auto simp: handleSend_def Let_def split: option.splits)
qed

text \<open>The files of a gallery that are sent: those before the first that cannot be prepared.\<close>

definition prepared :: "media_env \<Rightarrow> int \<Rightarrow> js_file \<Rightarrow> bool" where
  "prepared env budget f \<longleftrightarrow> \<not> isl (prepare_image env f budget)"

definition image_html :: "media_env \<Rightarrow> int \<Rightarrow> js_file \<Rightarrow> string" where
  "image_html env budget f =
     (case prepare_image env f budget of
        Inr (dataUrl, kind) \<Rightarrow> mediaToHtml dataUrl kind (name_or ''image'' f)
      | Inl e \<Rightarrow> [])"


lemma send_images_sent:
  assumes "\<not> no_target ctx"
  shows "sent_bodies (fst (send_images env ctx budget lead pid index cleared files)) =
      map (\<lambda>(i, f). lead i @ image_html env budget f) (List.enumerate index (takeWhile (prepared env budget) files))
    \<and> (snd (send_images env ctx budget lead pid index cleared files) = None \<longleftrightarrow> (\<forall>f \<in> set files. prepared env budget f))"
proof (induction files arbitrary: index cleared)
  case (Cons f files)
  show ?case
  proof (cases "prepare_image env f budget")
    case (Inl e)
    then show ?thesis by (simp add: prepared_def)
  next
    case (Inr p)
    obtain u k where "p = (u, k)" by fastforce
    moreover have "prepared env budget f" "image_html env budget f = mediaToHtml u k (name_or ''image'' f)"
      using Inr \<open>p = (u, k)\<close> by (simp_all add: prepared_def image_html_def)
    ultimately show ?thesis using Inr Cons.IH [of "Suc index" True] assms by (simp add: case_prod_beta)
  qed
qed simp

definition gallery_caption :: "send_context \<Rightarrow> string \<Rightarrow> string" where
  "gallery_caption ctx caption = (if trim caption = [] then [] else renderBody ctx (trim caption))"

text \<open>The effects of a gallery of at least two images, with what is sent before and after the loop.\<close>

definition gallery_first :: "send_context \<Rightarrow> string \<Rightarrow> string \<Rightarrow> send_effect list" where
  "gallery_first ctx pid html = (if html \<noteq> [] then DismissPlaceholder pid # send_body ctx html else [])"

definition gallery_failure :: "send_context \<Rightarrow> string \<Rightarrow> string option \<Rightarrow> send_effect list" where
  "gallery_failure ctx pid err =
     (case err of
        None \<Rightarrow> []
      | Some e \<Rightarrow> FailPlaceholder pid (''Couldn'' @ [CHR 0x27] @ ''t prepare images: '' @ e)
                  # error_toast ctx (''Failed to send images: '' @ e))"

lemma gallery_effects:
  assumes "\<not> no_target ctx" "2 \<le> length allFiles"
    "files = take MAX_GALLERY_IMAGES allFiles" "budget = image_budget quality (max_bytes ctx)"
    "run = send_images env ctx budget (\<lambda>i. galleryMarker groupId i (length files)) pid 0 (gallery_caption ctx caption \<noteq> []) files"
  obtains before where "set before \<subseteq> {InfoToast (''Only the first '' @ show_nat MAX_GALLERY_IMAGES @ '' images were sent.''),
      add_placeholder ctx pid (''Preparing '' @ show_nat (length files) @ '' images...''), SetSending True}"
    "sendMediaGallery env ctx pid groupId allFiles caption quality =
      before @ gallery_first ctx pid (gallery_caption ctx caption) @ fst run @ gallery_failure ctx pid (snd run) @ [SetSending False]"
proof
  have "allFiles \<noteq> []" "length files \<noteq> 1" "1 < length files" using assms(2,3) by (auto simp: MAX_GALLERY_IMAGES_def)
  then show "sendMediaGallery env ctx pid groupId allFiles caption quality =
      ((if MAX_GALLERY_IMAGES < length allFiles \<and> sx_hasToast ctx
        then [InfoToast (''Only the first '' @ show_nat MAX_GALLERY_IMAGES @ '' images were sent.'')] else [])
       @ [add_placeholder ctx pid (''Preparing '' @ show_nat (length files) @ '' images...''), SetSending True])
      @ gallery_first ctx pid (gallery_caption ctx caption) @ fst run @ gallery_failure ctx pid (snd run) @ [SetSending False]"
    using assms(1) by (simp add: sendMediaGallery_def assms(3-5) gallery_caption_def gallery_first_def gallery_failure_def Let_def)
qed auto

lemma fail_only_by_failure:
  "FailPlaceholder pid e \<notin> set (send_body ctx b)" "FailPlaceholder pid e \<notin> set (error_toast ctx b)"
  "FailPlaceholder pid e \<noteq> add_placeholder ctx pid b" "FailPlaceholder pid e \<notin> set (gallery_first ctx pid b)"
  "FailPlaceholder pid e \<notin> set (fst (send_images env ctx budget lead pid i c fs))"
proof -
  show body: "FailPlaceholder pid e \<notin> set (send_body ctx b)" for b by (simp add: send_body_def split: option.splits)
  then show "FailPlaceholder pid e \<notin> set (gallery_first ctx pid b)" by (simp add: gallery_first_def)
  show "FailPlaceholder pid e \<notin> set (fst (send_images env ctx budget lead pid i c fs))"
    by (induction fs arbitrary: i c) (auto simp: body case_prod_beta split: sum.splits)
qed (simp_all add: error_toast_def add_placeholder_def)

lemma gallery_sends:
  assumes "\<not> no_target ctx" "2 \<le> length allFiles"
    "files = take MAX_GALLERY_IMAGES allFiles" "budget = image_budget quality (max_bytes ctx)"
    "effects = sendMediaGallery env ctx pid groupId allFiles caption quality"
  shows "sent_bodies effects =
      (if gallery_caption ctx caption = [] then [] else [gallery_caption ctx caption])
      @ map (\<lambda>(i, f). galleryMarker groupId i (length files) @ image_html env budget f)
          (List.enumerate 0 (takeWhile (prepared env budget) files))
    \<and> ((\<exists>e. FailPlaceholder pid e \<in> set effects) \<longleftrightarrow> (\<exists>f \<in> set files. \<not> prepared env budget f))"
proof -
  define run where "run = send_images env ctx budget (\<lambda>i. galleryMarker groupId i (length files)) pid 0 (gallery_caption ctx caption \<noteq> []) files"
  obtain before where before: "set before \<subseteq> {InfoToast (''Only the first '' @ show_nat MAX_GALLERY_IMAGES @ '' images were sent.''),
      add_placeholder ctx pid (''Preparing '' @ show_nat (length files) @ '' images...''), SetSending True}"
    and eq: "effects = before @ gallery_first ctx pid (gallery_caption ctx caption) @ fst run @ gallery_failure ctx pid (snd run) @ [SetSending False]"
    using gallery_effects [OF assms(1-4) run_def] unfolding assms(5) by metis
  have "sent_bodies before = []" using before unfolding sent_bodies_def by fastforce
  moreover have "sent_bodies (gallery_failure ctx pid err) = []" for err by (simp add: gallery_failure_def split: option.splits)
  moreover have "FailPlaceholder pid e \<notin> set before" for e using before fail_only_by_failure(3) by fastforce
  moreover have "(\<exists>e. FailPlaceholder pid e \<in> set (gallery_failure ctx pid err)) \<longleftrightarrow> err \<noteq> None" for err
    by (auto simp: gallery_failure_def fail_only_by_failure split: option.splits)
  ultimately show ?thesis
    using send_images_sent [OF assms(1), of env budget "\<lambda>i. galleryMarker groupId i (length files)" pid 0 "gallery_caption ctx caption \<noteq> []" files] assms(1)
    by (simp add: eq run_def [symmetric] fail_only_by_failure gallery_first_def del: not_None_eq)
      (simp add: run_def fail_only_by_failure del: not_None_eq)
qed

lemmas gallery_bodies = conjunct1 [OF gallery_sends]

text \<open>
  A gallery of two images or more sends its caption first, if there is one, and then its images in
  order, each with the marker of its position, up to the first image that cannot be prepared; of more
  than ten files the first ten are sent.  The failure is reported exactly when there is one.
\<close>

theorem gallery_sends_in_order:
  assumes "\<not> no_target ctx" "2 \<le> length allFiles"
    "files = take MAX_GALLERY_IMAGES allFiles" "budget = image_budget quality (max_bytes ctx)"
    "effects = sendMediaGallery env ctx pid groupId allFiles caption quality"
  shows "sent_bodies effects =
      (if gallery_caption ctx caption = [] then [] else [gallery_caption ctx caption])
      @ map (\<lambda>(i, f). galleryMarker groupId i (length files) @ image_html env budget f)
          (List.enumerate 0 (takeWhile (prepared env budget) files))
    \<and> ((\<exists>e. FailPlaceholder pid e \<in> set effects) \<longleftrightarrow> (\<exists>f \<in> set files. \<not> prepared env budget f))"
  using assms by (rule gallery_sends)

definition example_ctx :: send_context where
  "example_ctx =
     \<lparr>sx_selectedChannel = Some 4, sx_selectedDmUser = None, sx_max_image_message_length = 131072, sx_max_message_length = 5000,
      sx_users = [], sx_roleGroups = [], sx_hasToast = True\<rparr>"

definition failing_media :: media_env where
  "failing_media = example_media\<lparr>env_read := (\<lambda>f. if file_name f = ''bad'' then Inl ''unreadable'' else Inr ''data:,'')\<rparr>"

definition a_file :: "string \<Rightarrow> js_file" where
  "a_file name = \<lparr>file_name = name, file_type = ''image/png'', file_content = ''''\<rparr>"

lemma prepared_a_file: "prepared failing_media b (a_file name) \<longleftrightarrow> name \<noteq> ''bad''"
  by (simp add: prepared_def prepare_image_def a_file_def mediaKind_def starts_with_def failing_media_def fitImage_def effective_limit_def)

theorem gallery_sends_in_order_witness:
  "sent_bodies (sendMediaGallery failing_media example_ctx ''p'' ''1f'' (map a_file [''a'', ''bad'', ''c'']) '''' FullQuality) =
      [galleryMarker ''1f'' 0 3 @ image_html failing_media 131072 (a_file ''a'')]
    \<and> (\<exists>e. FailPlaceholder ''p'' e \<in> set (sendMediaGallery failing_media example_ctx ''p'' ''1f'' (map a_file [''a'', ''bad'', ''c'']) '''' FullQuality))"
  using gallery_sends_in_order [OF _ _ refl refl refl, of example_ctx "map a_file [''a'', ''bad'', ''c'']" failing_media "''p''" "''1f''" "''''" FullQuality]
  by (simp add: numeral_3_eq_3 no_target_def example_ctx_def MAX_GALLERY_IMAGES_def image_budget_def max_bytes_def gallery_caption_def prepared_a_file)

section \<open>A sent gallery, read\<close>

text \<open>
  C27: A gallery of two to ten images that can all be prepared is one grid for whoever reads it: the
  messages arrive under the ids the server gave them, in any order and not necessarily all of them, and
  image \<open>i\<close> of the sender is tile \<open>i\<close>.
\<close>

theorem sent_gallery_is_one_grid:
  assumes target: "\<not> no_target ctx" and files: "2 \<le> length files" "length files \<le> MAX_GALLERY_IMAGES"
    and ok: "\<forall>f \<in> set files. prepared env (image_budget quality (max_bytes ctx)) f"
    and group: "groupId \<noteq> []" "\<forall>c \<in> set groupId. is_group_char c"
    and received: "\<And>i. i < length files \<Longrightarrow>
      cm_body (sent i) = drop (length (sent_bodies effects) - length files) (sent_bodies effects) ! i
      \<and> cm_message_id (sent i) = Some (mid i) \<and> mid i \<noteq> ''''" "inj_on mid {..<length files}"
    and effects: "effects = sendMediaGallery env ctx pid groupId files caption quality"
    and arrived: "set is \<subseteq> {..<length files}" "distinct is" "2 \<le> length is"
  shows "block_nodes props (rememberGalleryRefs (map sent is) refs) start 0 (map sent is) =
    Some [Grid groupId (odd (length files))
      (map (\<lambda>i. if i \<in> set is then Tile (renderMessage props (sent i) (start + i) i True) else Hole) [0..<length files])]"
proof -
  define budget where "budget = image_budget quality (max_bytes ctx)"
  have take: "files = take MAX_GALLERY_IMAGES files" using files(2) by simp
  have all: "takeWhile (prepared env budget) files = files" using ok by (simp add: takeWhile_eq_all_conv budget_def)
  have bodies: "sent_bodies effects = (if gallery_caption ctx caption = [] then [] else [gallery_caption ctx caption])
      @ map (\<lambda>(i, f). galleryMarker groupId i (length files) @ image_html env budget f) (List.enumerate 0 files)"
    using gallery_bodies [OF target files(1) take budget_def effects] by (simp only: all)
  have "cm_body (sent i) = galleryMarker groupId i (length files) @ image_html env budget (files ! i)" if "i < length files" for i
    using received(1) [OF that] that by (simp add: bodies nth_enumerate_eq)
  moreover have "int (length files) \<le> MAX_EXACT" using files(2) by (simp add: MAX_GALLERY_IMAGES_def MAX_EXACT_def)
  ultimately have "gallery_sent groupId (length files) sent (\<lambda>i. image_html env budget (files ! i)) mid"
    using group received by (simp add: gallery_sent_def)
  then show ?thesis using arrived by (rule arrived_grid)
qed


definition two_files :: "js_file list" where
  "two_files = [a_file ''a'', a_file ''c'']"

definition received_image :: "nat \<Rightarrow> chat_message" where
  "received_image = gallery_message ''1f'' 2 (\<lambda>i. image_html failing_media 131072 (two_files ! i)) image_id plain_message"

lemma two_files_sent:
  "sent_bodies (sendMediaGallery failing_media example_ctx ''p'' ''1f'' two_files '''' FullQuality) =
    [cm_body (received_image 0), cm_body (received_image 1)]"
  using gallery_bodies [OF _ _ refl refl refl, of example_ctx two_files failing_media "''p''" "''1f''" "''''" FullQuality]
  by (simp add: two_files_def numeral_2_eq_2 no_target_def example_ctx_def MAX_GALLERY_IMAGES_def image_budget_def max_bytes_def
      gallery_caption_def prepared_a_file received_image_def gallery_message_def)

theorem sent_gallery_is_one_grid_witness:
  "block_nodes example_props (rememberGalleryRefs (map received_image [1, 0]) []) 7 0 (map received_image [1, 0]) =
    Some [Grid ''1f'' (odd (length two_files))
      (map (\<lambda>i. if i \<in> set [1, 0] then Tile (renderMessage example_props (received_image i) (7 + i) i True) else Hole) [0..<length two_files])]"
proof (rule sent_gallery_is_one_grid [where ctx = example_ctx and env = failing_media and pid = "''p''" and caption = "''''"
      and quality = FullQuality and mid = image_id, OF _ _ _ _ _ _ _ _ refl])
  fix i assume "i < length two_files"
  then have "i = 0 \<or> i = 1" by (auto simp: two_files_def)
  then show "cm_body (received_image i) =
      drop (length (sent_bodies (sendMediaGallery failing_media example_ctx ''p'' ''1f'' two_files '''' FullQuality)) - length two_files)
        (sent_bodies (sendMediaGallery failing_media example_ctx ''p'' ''1f'' two_files '''' FullQuality)) ! i
    \<and> cm_message_id (received_image i) = Some (image_id i) \<and> image_id i \<noteq> ''''"
    unfolding two_files_sent by (auto simp: two_files_def received_image_def gallery_message_def image_id_def)
qed (auto simp: no_target_def example_ctx_def two_files_def MAX_GALLERY_IMAGES_def prepared_a_file is_group_char_def is_ws_def
    inj_on_def image_id_def)

section \<open>Placeholders\<close>

text \<open>The effects on the chat slice and on the flag that blocks the composer; \<open>ids\<close> are the ids the store gives.\<close>

fun apply_effect :: "string \<Rightarrow> int \<Rightarrow> send_effect \<Rightarrow> chat_slice \<times> bool \<Rightarrow> chat_slice \<times> bool" where
  "apply_effect i now (SendMessage ch body) (s, b) = (fst (sendMessage i now ch body s), b)"
| "apply_effect i now (SendDm u body) (s, b) = (fst (sendDm i now u body s), b)"
| "apply_effect i now (EditMessage ch mid body) (s, b) = (fst (editMessage ch s), b)"
| "apply_effect i now (AddPlaceholder pid ch dm body) (s, b) = (addPendingPlaceholder pid now ch dm body s, b)"
| "apply_effect i now (DismissPlaceholder pid) (s, b) = (dismissPendingMessage pid s, b)"
| "apply_effect i now (FailPlaceholder pid e) (s, b) = (markPendingFailed pid e s, b)"
| "apply_effect i now (SetSending b') (s, b) = (s, b')"
| "apply_effect i now e st = st"

fun run_effects :: "(nat \<Rightarrow> string) \<Rightarrow> int \<Rightarrow> send_effect list \<Rightarrow> chat_slice \<times> bool \<Rightarrow> chat_slice \<times> bool" where
  "run_effects ids now [] st = st"
| "run_effects ids now (e # es) st = run_effects (ids \<circ> Suc) now es (apply_effect (ids 0) now e st)"

definition placeholders :: "string \<Rightarrow> chat_slice \<Rightarrow> pending_message list" where
  "placeholders pid s = filter (\<lambda>p. pm_pendingId p = pid) (pendingMessages s)"

lemma placeholders_simps [simp]:
  "placeholders pid (addPendingPlaceholder i now ch dm body s) =
    placeholders pid s @ (if i = pid then [mk_pending pid ch dm body now] else [])"
  "placeholders pid (dismissPendingMessage pid s) = []"
  "placeholders pid (markPendingFailed pid e s) = map (fail_pending pid e) (placeholders pid s)"
proof -
  have "filter (\<lambda>p. pm_pendingId p = pid) (map (fail_pending pid e) ps) =
      map (fail_pending pid e) (filter (\<lambda>p. pm_pendingId p = pid) ps)" for ps
    by (induction ps) (auto simp: fail_pending_def)
  then show "placeholders pid (markPendingFailed pid e s) = map (fail_pending pid e) (placeholders pid s)"
    by (simp add: placeholders_def markPendingFailed_def)
qed (auto simp: placeholders_def addPendingPlaceholder_def dismissPendingMessage_def mk_pending_def)

lemma placeholders_send [simp]:
  "i \<noteq> pid \<Longrightarrow> placeholders pid (fst (sendMessage i now ch body s)) = placeholders pid s"
  "i \<noteq> pid \<Longrightarrow> placeholders pid (fst (sendDm i now u body s)) = placeholders pid s"
  by (simp_all add: sendMessage_def sendDm_def Let_def)

lemma run_effects_append:
  "run_effects ids now (xs @ ys) st = run_effects (\<lambda>k. ids (k + length xs)) now ys (run_effects ids now xs st)"
proof (induction xs arbitrary: ids st)
  case (Cons x xs)
  then show ?case by (simp add: comp_def)
qed simp

lemma run_send_body:
  assumes "\<And>k. ids k \<noteq> pid"
  shows "placeholders pid (fst (run_effects ids now (send_body ctx body) st)) = placeholders pid (fst st)
    \<and> snd (run_effects ids now (send_body ctx body) st) = snd st"
  using assms by (cases st) (simp add: send_body_def split: option.splits)

lemma run_ready [simp]: "run_effects ids now (xs @ [SetSending False]) st = (fst (run_effects ids now xs st), False)"
  by (cases "run_effects ids now xs st") (simp add: run_effects_append)

lemma run_error_toast [simp]: "run_effects ids now (error_toast ctx msg) st = st"
  by (cases st) (simp add: error_toast_def)

text \<open>
  C20: Whatever becomes of a file that is sent, the composer is ready again at the end, and the
  placeholder does not stay: it is gone when the file could be prepared, and then the media is sent; it
  shows the error when not, and then nothing is sent.
\<close>

theorem media_send_settles:
  assumes "\<not> no_target ctx" "mediaKind (file_type file) = Some kind" "\<And>k. ids k \<noteq> pid" "placeholders pid s = []"
    and run: "run_effects ids now (sendMediaFile env ctx pid file) (s, busy) = (s', sending)"
  shows "\<not> sending \<and>
    (case prepare_media env kind file (max_bytes ctx) of
       Inr (u, k) \<Rightarrow> placeholders pid s' = []
         \<and> sent_bodies (sendMediaFile env ctx pid file) = [mediaToHtml u k (name_or ''clipboard.png'' file)]
     | Inl e \<Rightarrow> (\<exists>p. placeholders pid s' = [p] \<and> pm_state p = Failed \<and> pm_errorMessage p = Some (''Couldn'' @ [CHR 0x27] @ ''t prepare media: '' @ e))
         \<and> sent_bodies (sendMediaFile env ctx pid file) = [])"
proof (cases "prepare_media env kind file (max_bytes ctx)")
  case (Inl e)
  then show ?thesis using assms run
    by (auto simp: sendMediaFile_def add_placeholder_def run_effects_append fail_pending_def mk_pending_def)
next
  case (Inr p)
  obtain u k where p: "p = (u, k)" by fastforce
  let ?start = "\<lambda>b. [add_placeholder ctx pid b, SetSending True, DismissPlaceholder pid]"
  have "sendMediaFile env ctx pid file = (?start (if kind = VideoKind then ''Preparing video...'' else ''Preparing image...'')
      @ send_body ctx (mediaToHtml u k (name_or ''clipboard.png'' file))) @ [SetSending False]"
    using assms(1,2) Inr p by (simp add: sendMediaFile_def)
  moreover have "placeholders pid (fst (run_effects ids now (?start b @ send_body ctx c) (s, busy))) = []" for b c
    using assms(3) run_send_body [of "ids \<circ> Suc \<circ> Suc \<circ> Suc" pid now ctx c] by (simp add: add_placeholder_def)
  ultimately show ?thesis using run assms(1) Inr p by (simp only: run_ready) auto
qed


theorem media_send_settles_witness:
  "\<exists>s' sending p. run_effects (\<lambda>k. ''n'' @ show_nat k) 0 (sendMediaFile failing_media example_ctx ''p'' (a_file ''bad'')) (chat_initial, False) = (s', sending)
    \<and> \<not> sending \<and> placeholders ''p'' s' = [p] \<and> pm_state p = Failed"
proof -
  obtain s' b where run: "run_effects (\<lambda>k. ''n'' @ show_nat k) 0 (sendMediaFile failing_media example_ctx ''p'' (a_file ''bad'')) (chat_initial, False) = (s', b)"
    by fastforce
  have kind: "mediaKind (file_type (a_file ''bad'')) = Some ImageKind" by (simp add: a_file_def mediaKind_def starts_with_def)
  have "prepare_media failing_media ImageKind (a_file ''bad'') (max_bytes example_ctx) = Inl ''unreadable''"
    by (simp add: prepare_media_def fitImage_def failing_media_def a_file_def Let_def)
  then show ?thesis
    using media_send_settles [OF _ kind _ _ run] run
    by (auto simp: no_target_def example_ctx_def placeholders_def chat_initial_def)
qed

section \<open>Pasting\<close>

text \<open>
  An image that is pasted is staged exactly once, although two handlers see the event: the handler
  of the input passes it by through the flag, and the flag is down again for the next paste.  A paste
  into the live document stays there, and the asynchronous clipboard is read only when the event itself
  brought no image.
\<close>

theorem paste_staged_once:
  assumes "images = (case clip of None \<Rightarrow> [] | Some c \<Rightarrow> stageImagesFrom hasTray c)"
  shows "paste hasTray target clip (False, staged) =
    (if target = InLiveDoc then ((False, staged), False) else ((False, staged @ images), images = []))"
  using assms by (cases target) (simp_all add: paste_def handlePaste_def onDocPaste_def Let_def split: option.splits)

theorem paste_staged_once_witness:
  "paste True InComposer (Some \<lparr>cd_items = [\<lparr>ci_isFile = True, ci_type = ''image/png'', ci_file = Some (a_file ''x'')\<rparr>], cd_files = [a_file ''x'']\<rparr>)
    (False, []) = ((False, [a_file ''x'']), False)"
  using paste_staged_once [where clip = "Some \<lparr>cd_items = [\<lparr>ci_isFile = True, ci_type = ''image/png'', ci_file = Some (a_file ''x'')\<rparr>], cd_files = [a_file ''x'']\<rparr>"
      and hasTray = True and target = InComposer and staged = "[]", OF refl]
  by (simp add: stageImagesFrom_def item_image_def starts_with_def List.map_filter_simps)

section \<open>What goes wrong\<close>

text \<open>With a small limit the compressed quality has the larger budget, beyond what the server takes.\<close>

lemma compressed_beyond_limit: "m < 60000 \<Longrightarrow> m < image_budget Compressed m"
  by (simp add: image_budget_def)

text \<open>
  The caption is cleared although nothing was sent: the gallery reports its failure itself, and its
  caller takes the return as success.
\<close>

lemma caption_lost:
  "sendPendingAttachments failing_media fetched example_ctx ''p'' ''g''
      \<lparr>cv_draft = ''hello'', cv_quotes = [], cv_editing = None, cv_quality = FullQuality\<rparr> [attachmentFromFile ''i'' (a_file ''bad'')] =
    ([EmptyTray, Send (add_placeholder example_ctx ''p'' ''Preparing image...''), Send (SetSending True),
      Send (FailPlaceholder ''p'' (''Couldn'' @ [CHR 0x27] @ ''t prepare images: unreadable'')),
      Send (ErrorToast ''Failed to send images: unreadable''), Send (SetSending False), Send ClearDraft], True)"
  by (simp add: sendPendingAttachments_def attachmentFromFile_def a_file_def starts_with_def sendMediaGallery_def example_ctx_def
      no_target_def MAX_GALLERY_IMAGES_def prepare_image_def mediaKind_def fitImage_def failing_media_def error_toast_def Let_def)

text \<open>Of several files that are no images only the first is offered for sharing, and the tray is emptied.\<close>

lemma later_files_dropped:
  assumes "\<not> isImageName (fileNameFromPath p)" "\<not> isImageName (fileNameFromPath q)" "p \<noteq> []"
  shows "sendPendingAttachments env fetched ctx pid g cv [attachmentFromPath ''1'' p, attachmentFromPath ''2'' q] =
    ([EmptyTray, OpenShareDialog p (fileNameFromPath p)], False)"
  using assms by (simp add: sendPendingAttachments_def attachmentFromPath_def Let_def)

text \<open>
  While a direct conversation is open no channel is selected, so sharing a file there does nothing, and
  the branch that sends the uploaded file as a direct message is never taken.
\<close>

lemma no_upload_in_conversation:
  assumes "chat_ok s" "selectedDmUser s = Some u" "sx_selectedChannel ctx = selectedChannel s"
  shows "performUpload i filename ctx v = (v, False)"
  using assms by (auto simp: performUpload_def chat_ok_def one_selected_def)

end
