(* ===== verification/ScreenShare.thy ===== *)
theory ScreenShare
  imports Signals
begin

text \<open>
  Screen sharing, \<open>components/chat/stream/useScreenShare.ts\<close>: one broadcast of the own screen to the
  relay of the server, and one peer connection for every broadcast that is watched, directly or through
  the relay.

  The module state and the fields of the store it works on are one record.  Peer connections are
  numbers; what the code asks them (\<open>signalingState\<close>, \<open>remoteDescription\<close>, \<open>connectionState\<close>) is kept for
  each.  Promises of the platform are tasks that are resolved or rejected in any order; setting the
  parameters of a sender and creating the offer are one await, nothing is read between them.  Texts of
  other clients that the code parses are parsed by parameters.  Every peer connection that is open has
  an owner (\<open>no_peer_leaks\<close>); a signal of a peer goes through the connection the peer belongs to
  (\<open>signals_stay_on_their_connection\<close>); a direct connection that fails ends in one attempt through the
  relay (\<open>fallback_happens_once\<close>).
\<close>

section \<open>State\<close>

datatype signal_type =
    SigStart | SigStop | SdpOffer | SdpAnswer | IceCandidate
  | P2pOffer | P2pAnswer | P2pIce | P2pRequest | P2pDecline | P2pLeave

datatype signaling = Stable | HaveLocalOffer | HaveRemoteOffer | SigClosed

record peer =
  pr_signaling :: signaling
  pr_remote :: bool             \<comment> \<open>\<open>remoteDescription\<close> is set\<close>
  pr_connected :: bool          \<comment> \<open>\<open>connectionState\<close> is connected\<close>
  pr_ice :: "string list"       \<comment> \<open>candidates added\<close>
  pr_server :: "server_id option"   \<comment> \<open>the server its handlers send to\<close>

definition new_peer :: "server_id option \<Rightarrow> peer" where
  "new_peer sid = \<lparr>pr_signaling = Stable, pr_remote = False, pr_connected = False, pr_ice = [], pr_server = sid\<rparr>"

datatype transport = Pending | Direct | Sfu

record broadcast_transport =
  bt_p2p :: bool
  bt_sfuAvailable :: bool

record viewer_state =
  vw_pc :: nat
  vw_pendingIce :: "string list"
  vw_hasStream :: bool
  vw_serverId :: "server_id option"
  vw_transport :: transport
  vw_sfuAvailable :: bool
  vw_timeout :: bool

text \<open>A signal sent, with the peer it belongs to, if it belongs to one.\<close>

record sent_signal =
  ss_server :: "server_id option"
  ss_target :: int
  ss_type :: signal_type
  ss_payload :: string
  ss_peer :: "nat option"

datatype share_task =
    Capturing "int option"                        \<comment> \<open>\<open>getDisplayMedia\<close>; the session of the tab\<close>
  | BcOffering nat nat nat                        \<comment> \<open>peer, epoch, stream\<close>
  | BcSettingLocal nat nat nat string
  | BcSettingAnswer nat
  | VwOffering int nat bool                       \<comment> \<open>broadcaster, peer, after a fallback\<close>
  | VwSettingLocal int nat string
  | VwSettingAnswer int nat
  | VwSettingOffer int nat                        \<comment> \<open>a direct offer\<close>
  | VwAnswering int nat
  | VwSettingDirect int nat string

record share_world =
  sw_peers :: "(nat, peer) jmap"
  sw_nextPeer :: nat
  sw_nextStream :: nat
  sw_live :: "nat jset"                        \<comment> \<open>screen captures that are running\<close>
  localStream :: "nat option"
  broadcasterPc :: "nat option"
  broadcasterPcEpoch :: nat
  broadcasterAwaitingAnswer :: "nat option"
  broadcasterServerId :: "server_id option"
  broadcasterChannelId :: "int option"
  broadcasterPendingIce :: "string list"
  broadcasterIceTimeout :: "nat option"
  endedListeners :: "nat jset"                 \<comment> \<open>streams whose end is listened for\<close>
  viewerPcs :: "(int, viewer_state) jmap"
  broadcastTransports :: "(server_id option \<times> int, broadcast_transport) jmap"
  previewPc :: "signaling option"
  nativeBroadcast :: bool
  sw_activeServerId :: "server_id option"
  sw_ownSession :: "int option"
  sw_currentChannel :: "int option"
  broadcastingSessions :: "int jset"
  watchingSession :: "int option"
  watchingOwnSession :: "int option"
  isSharingOwn :: bool
  broadcastingOwnSession :: "int option"
  webrtcConnecting :: bool
  webrtcError :: "string option"
  p2pRelayAvailable :: bool
  sfuAvailable :: bool
  sw_tasks :: "share_task list"
  sw_sent :: "sent_signal list"

definition share_initial :: share_world where
  "share_initial =
     \<lparr>sw_peers = [], sw_nextPeer = 0, sw_nextStream = 0, sw_live = [], localStream = None, broadcasterPc = None,
      broadcasterPcEpoch = 0, broadcasterAwaitingAnswer = None, broadcasterServerId = None, broadcasterChannelId = None,
      broadcasterPendingIce = [], broadcasterIceTimeout = None, endedListeners = [], viewerPcs = [], broadcastTransports = [],
      previewPc = None, nativeBroadcast = False, sw_activeServerId = None, sw_ownSession = None, sw_currentChannel = None,
      broadcastingSessions = [], watchingSession = None, watchingOwnSession = None, isSharingOwn = False,
      broadcastingOwnSession = None, webrtcConnecting = False, webrtcError = None, p2pRelayAvailable = False,
      sfuAvailable = False, sw_tasks = [], sw_sent = []\<rparr>"

section \<open>Peers and signals\<close>

definition peer_of :: "nat \<Rightarrow> share_world \<Rightarrow> peer" where
  "peer_of i w = (case map_get (sw_peers w) i of Some p \<Rightarrow> p | None \<Rightarrow> (new_peer None)\<lparr>pr_signaling := SigClosed\<rparr>)"

definition with_peer :: "nat \<Rightarrow> (peer \<Rightarrow> peer) \<Rightarrow> share_world \<Rightarrow> share_world" where
  "with_peer i f w = w\<lparr>sw_peers := map_set i (f (peer_of i w)) (sw_peers w)\<rparr>"

definition open_peer :: "nat \<Rightarrow> share_world \<Rightarrow> bool" where
  "open_peer i w \<longleftrightarrow> pr_signaling (peer_of i w) \<noteq> SigClosed"

text \<open>\<open>new RTCPeerConnection\<close> and \<open>close\<close>; a closed peer keeps its number.\<close>

definition create_peer :: "server_id option \<Rightarrow> share_world \<Rightarrow> nat \<times> share_world" where
  "create_peer sid w =
     (sw_nextPeer w, w\<lparr>sw_peers := map_set (sw_nextPeer w) (new_peer sid) (sw_peers w), sw_nextPeer := sw_nextPeer w + 1\<rparr>)"

definition close_peer :: "nat \<Rightarrow> share_world \<Rightarrow> share_world" where
  "close_peer i w = with_peer i (\<lambda>p. p\<lparr>pr_signaling := SigClosed, pr_connected := False\<rparr>) w"

definition set_signaling :: "nat \<Rightarrow> signaling \<Rightarrow> share_world \<Rightarrow> share_world" where
  "set_signaling i s w = (if open_peer i w then with_peer i (\<lambda>p. p\<lparr>pr_signaling := s\<rparr>) w else w)"

definition set_remote :: "nat \<Rightarrow> signaling \<Rightarrow> share_world \<Rightarrow> share_world" where
  "set_remote i s w = (if open_peer i w then with_peer i (\<lambda>p. p\<lparr>pr_signaling := s, pr_remote := True\<rparr>) w else w)"

definition add_ice :: "nat \<Rightarrow> string list \<Rightarrow> share_world \<Rightarrow> share_world" where
  "add_ice i cs w = with_peer i (\<lambda>p. p\<lparr>pr_ice := pr_ice p @ cs\<rparr>) w"

definition sendSignal :: "nat option \<Rightarrow> int \<Rightarrow> signal_type \<Rightarrow> string \<Rightarrow> server_id option \<Rightarrow> share_world \<Rightarrow> share_world" where
  "sendSignal pc target ty payload serverId w =
     w\<lparr>sw_sent := sw_sent w @ [\<lparr>ss_server = serverId, ss_target = target, ss_type = ty, ss_payload = payload, ss_peer = pc\<rparr>]\<rparr>"

definition broadcastSignal :: "nat option \<Rightarrow> signal_type \<Rightarrow> server_id option \<Rightarrow> share_world \<Rightarrow> share_world" where
  "broadcastSignal pc ty serverId w = sendSignal pc 0 ty '''' serverId w"

definition start_task :: "share_task \<Rightarrow> share_world \<Rightarrow> share_world" where
  "start_task t w = w\<lparr>sw_tasks := sw_tasks w @ [t]\<rparr>"

definition showWebRtcError :: "string \<Rightarrow> share_world \<Rightarrow> share_world" where
  "showWebRtcError msg w = w\<lparr>webrtcError := Some msg\<rparr>"

definition rememberTransport ::
  "(string \<Rightarrow> broadcast_transport option) \<Rightarrow> int \<Rightarrow> server_id option \<Rightarrow> string \<Rightarrow> share_world \<Rightarrow> share_world" where
  "rememberTransport parse session serverId payload w =
     w\<lparr>broadcastTransports :=
        (case parse payload of
           Some t \<Rightarrow> map_set (serverId, session) t (broadcastTransports w)
         | None \<Rightarrow> map_del (serverId, session) (broadcastTransports w))\<rparr>"

section \<open>Broadcasting\<close>

definition flushBroadcasterIce :: "share_world \<Rightarrow> share_world" where
  "flushBroadcasterIce w =
     (case broadcasterPc w of
        None \<Rightarrow> w
      | Some pc \<Rightarrow> (add_ice pc (broadcasterPendingIce w) w)\<lparr>broadcasterPendingIce := []\<rparr>)"

definition close_broadcaster :: "share_world \<Rightarrow> share_world" where
  "close_broadcaster w =
     (case broadcasterPc w of None \<Rightarrow> w | Some pc \<Rightarrow> (close_peer pc w)\<lparr>broadcasterPc := None\<rparr>)"

text \<open>\<open>connectBroadcasterToServer\<close> up to its first await.\<close>

definition connectBroadcasterToServer :: "share_world \<Rightarrow> share_world" where
  "connectBroadcasterToServer w =
     (case localStream w of
        None \<Rightarrow> w
      | Some stream \<Rightarrow>
          (let w1 = (close_broadcaster (w\<lparr>broadcasterServerId := sw_activeServerId w\<rparr>))
                      \<lparr>broadcasterPendingIce := [], broadcasterAwaitingAnswer := None\<rparr>;
               (pc, w2) = create_peer (sw_activeServerId w) w1;
               epoch = broadcasterPcEpoch w + 1
           in start_task (BcOffering pc epoch stream)
                (w2\<lparr>broadcasterPc := Some pc, broadcasterPcEpoch := epoch, webrtcConnecting := True\<rparr>)))"

definition stop_capture :: "share_world \<Rightarrow> share_world" where
  "stop_capture w =
     (case localStream w of
        None \<Rightarrow> w
      | Some s \<Rightarrow> w\<lparr>sw_live := set_remove s (sw_live w), localStream := None\<rparr>)"

definition stopBroadcasting :: "share_world \<Rightarrow> share_world" where
  "stopBroadcasting w =
     (close_broadcaster (stop_capture (w\<lparr>broadcasterIceTimeout := None, webrtcConnecting := False\<rparr>)))
       \<lparr>broadcasterPendingIce := [], broadcasterAwaitingAnswer := None, broadcasterServerId := None, broadcasterChannelId := None\<rparr>"

text \<open>The store after a broadcast: \<open>own\<close> is the session taken from the list of broadcasters.\<close>

definition forget_own_broadcast :: "int option \<Rightarrow> share_world \<Rightarrow> share_world" where
  "forget_own_broadcast own w =
     w\<lparr>isSharingOwn := False, broadcastingOwnSession := None,
       broadcastingSessions := (case own of Some s \<Rightarrow> if s = 0 then broadcastingSessions w else set_remove s (broadcastingSessions w)
                                | None \<Rightarrow> broadcastingSessions w)\<rparr>"

definition truthy_session :: "int option \<Rightarrow> bool" where
  "truthy_session s \<longleftrightarrow> s \<noteq> None \<and> s \<noteq> Some 0"

definition SHARING_FAILED :: string where
  "SHARING_FAILED = ''Screen sharing failed: unable to reach the WebRTC server. Check that the required ports are not blocked by your firewall.''"

text \<open>The broadcast over the peer \<open>pc\<close> has failed: its handlers send to the server of the peer.\<close>

definition broadcast_failed :: "nat \<Rightarrow> share_world \<Rightarrow> share_world" where
  "broadcast_failed pc w =
     (let own = sw_ownSession w;
          w1 = forget_own_broadcast own (stopBroadcasting w);
          w2 = (if truthy_session own then broadcastSignal (Some pc) SigStop (pr_server (peer_of pc w)) w1 else w1)
      in showWebRtcError SHARING_FAILED w2)"

text \<open>The peer of the broadcast reports its connection.\<close>

datatype connection_report = RepConnected | RepFailed | RepDisconnected

definition report :: "nat \<Rightarrow> connection_report \<Rightarrow> share_world \<Rightarrow> share_world" where
  "report pc r w = (if open_peer pc w then with_peer pc (\<lambda>p. p\<lparr>pr_connected := (r = RepConnected)\<rparr>) w else w)"

definition onBroadcasterState :: "nat \<Rightarrow> connection_report \<Rightarrow> share_world \<Rightarrow> share_world" where
  "onBroadcasterState pc r w =
     (let w0 = report pc r w
      in if broadcasterPc w \<noteq> Some pc then w0
         else case r of
           RepConnected \<Rightarrow> w0\<lparr>broadcasterIceTimeout := None, webrtcConnecting := False\<rparr>
         | RepFailed \<Rightarrow> broadcast_failed pc w0
         | RepDisconnected \<Rightarrow> w0)"

definition broadcaster_timeout :: "share_world \<Rightarrow> share_world" where
  "broadcaster_timeout w =
     (case broadcasterIceTimeout w of
        None \<Rightarrow> w
      | Some pc \<Rightarrow>
          (let w1 = w\<lparr>broadcasterIceTimeout := None\<rparr>
           in if broadcasterPc w \<noteq> Some pc \<or> pr_connected (peer_of pc w) then w1
              else broadcast_failed pc (close_peer pc w1)))"

section \<open>Watching\<close>

definition flushViewerIce :: "int \<Rightarrow> share_world \<Rightarrow> share_world" where
  "flushViewerIce session w =
     (case map_get (viewerPcs w) session of
        None \<Rightarrow> w
      | Some v \<Rightarrow> (add_ice (vw_pc v) (vw_pendingIce v) w)\<lparr>viewerPcs := map_set session (v\<lparr>vw_pendingIce := []\<rparr>) (viewerPcs w)\<rparr>)"

definition closeViewer :: "int \<Rightarrow> share_world \<Rightarrow> share_world" where
  "closeViewer session w =
     (case map_get (viewerPcs w) session of
        None \<Rightarrow> w
      | Some v \<Rightarrow>
          (let w1 = (if vw_transport v \<noteq> Sfu then sendSignal (Some (vw_pc v)) session P2pLeave '''' (vw_serverId v) w else w)
           in (close_peer (vw_pc v) w1)\<lparr>viewerPcs := map_del session (viewerPcs w)\<rparr>))"

definition closeAllViewers :: "share_world \<Rightarrow> share_world" where
  "closeAllViewers w = (foldl (\<lambda>w s. closeViewer s w) w (map_keys (viewerPcs w)))\<lparr>viewerPcs := []\<rparr>"

text \<open>\<open>startWatching\<close> up to its first await; \<open>pinned\<close> is \<open>None\<close> where the argument is left out.\<close>

definition startWatching :: "int \<Rightarrow> bool \<Rightarrow> server_id option option \<Rightarrow> share_world \<Rightarrow> share_world" where
  "startWatching session forceSfu pinned w =
     (if map_has (viewerPcs w) session then w
      else let sid = (case pinned of None \<Rightarrow> sw_activeServerId w | Some p \<Rightarrow> p);
               announced = map_get (broadcastTransports w) (sid, session);
               direct = (\<not> forceSfu \<and> (case announced of Some t \<Rightarrow> bt_p2p t | None \<Rightarrow> False) \<and> p2pRelayAvailable w);
               (pc, w1) = create_peer sid (w\<lparr>previewPc := None\<rparr>);
               v = \<lparr>vw_pc = pc, vw_pendingIce = [], vw_hasStream = False, vw_serverId = sid,
                    vw_transport = (if direct then Pending else Sfu),
                    vw_sfuAvailable = (case announced of Some t \<Rightarrow> bt_sfuAvailable t | None \<Rightarrow> sfuAvailable w), vw_timeout = True\<rparr>;
               w2 = w1\<lparr>viewerPcs := map_set session v (viewerPcs w1)\<rparr>
           in if direct then sendSignal (Some pc) session P2pRequest '''' sid w2 else start_task (VwOffering session pc forceSfu) w2)"

definition NO_FALLBACK :: string where
  "NO_FALLBACK = ''Direct screen sharing failed and this server has no SFU fallback.''"

definition fallbackViewer :: "int \<Rightarrow> nat \<Rightarrow> share_world \<Rightarrow> share_world" where
  "fallbackViewer session pc w =
     (case map_get (viewerPcs w) session of
        None \<Rightarrow> w
      | Some v \<Rightarrow>
          if vw_pc v \<noteq> pc then w
          else let w1 = closeViewer session w
               in if vw_transport v \<noteq> Sfu \<and> vw_sfuAvailable v then startWatching session True (Some (vw_serverId v)) w1
                  else if sw_activeServerId w = vw_serverId v
                  then (showWebRtcError (if vw_sfuAvailable v then ''Screen sharing connection failed.'' else NO_FALLBACK) w1)
                         \<lparr>watchingSession := None, watchingOwnSession := None\<rparr>
                  else w1)"

definition viewer_is :: "int \<Rightarrow> nat \<Rightarrow> share_world \<Rightarrow> bool" where
  "viewer_is session pc w \<longleftrightarrow> map_option vw_pc (map_get (viewerPcs w) session) = Some pc"

definition onViewerState :: "int \<Rightarrow> nat \<Rightarrow> connection_report \<Rightarrow> share_world \<Rightarrow> share_world" where
  "onViewerState session pc r w =
     (let w0 = report pc r w
      in case map_get (viewerPcs w) session of
           None \<Rightarrow> w0
         | Some v \<Rightarrow>
             if vw_pc v \<noteq> pc then w0
             else if r = RepConnected then w0\<lparr>viewerPcs := map_set session (v\<lparr>vw_timeout := False\<rparr>) (viewerPcs w)\<rparr>
             else if vw_transport v \<noteq> Sfu then fallbackViewer session pc w0
             else let w1 = closeViewer session w0
                  in if watchingSession w = Some session then w1\<lparr>watchingSession := None, watchingOwnSession := None\<rparr> else w1)"

definition viewer_timeout :: "int \<Rightarrow> nat \<Rightarrow> share_world \<Rightarrow> share_world" where
  "viewer_timeout session pc w =
     (case map_get (viewerPcs w) session of
        None \<Rightarrow> w
      | Some v \<Rightarrow> if vw_pc v = pc \<and> vw_timeout v then fallbackViewer session pc w else w)"

definition onTrack :: "int \<Rightarrow> nat \<Rightarrow> share_world \<Rightarrow> share_world" where
  "onTrack session pc w =
     (case map_get (viewerPcs w) session of
        None \<Rightarrow> w
      | Some v \<Rightarrow> if vw_pc v \<noteq> pc then w else w\<lparr>viewerPcs := map_set session (v\<lparr>vw_hasStream := True\<rparr>) (viewerPcs w)\<rparr>)"

text \<open>A candidate of an own peer goes to the other side; a closed peer finds none.\<close>

definition onBroadcasterCandidate :: "string \<Rightarrow> share_world \<Rightarrow> share_world" where
  "onBroadcasterCandidate c w =
     (case broadcasterPc w of
        None \<Rightarrow> w
      | Some pc \<Rightarrow> sendSignal (Some pc) 0 IceCandidate c (pr_server (peer_of pc w)) w)"

definition onViewerCandidate :: "int \<Rightarrow> string \<Rightarrow> share_world \<Rightarrow> share_world" where
  "onViewerCandidate session c w =
     (case map_get (viewerPcs w) session of
        None \<Rightarrow> w
      | Some v \<Rightarrow>
          sendSignal (Some (vw_pc v)) session (if vw_transport v = Sfu then IceCandidate else P2pIce) c (pr_server (peer_of (vw_pc v) w)) w)"

text \<open>A candidate of a direct connection that the peer refuses.\<close>

definition ice_rejected :: "int \<Rightarrow> nat \<Rightarrow> share_world \<Rightarrow> share_world" where
  "ice_rejected session pc w =
     (case map_get (viewerPcs w) session of
        None \<Rightarrow> w
      | Some v \<Rightarrow> if vw_transport v = Sfu then w else fallbackViewer session pc w)"

definition acceptDirectOffer :: "int \<Rightarrow> share_world \<Rightarrow> share_world" where
  "acceptDirectOffer session w =
     (case map_get (viewerPcs w) session of
        None \<Rightarrow> w
      | Some v \<Rightarrow>
          if vw_transport v \<noteq> Pending then w
          else start_task (VwSettingOffer session (vw_pc v))
                 (w\<lparr>viewerPcs := map_set session (v\<lparr>vw_transport := Direct\<rparr>) (viewerPcs w)\<rparr>))"

section \<open>Incoming signals\<close>

definition answer_other :: "server_id option \<Rightarrow> share_world \<Rightarrow> share_world" where
  "answer_other serverId w =
     (case broadcasterPc w of
        Some pc \<Rightarrow>
          if broadcasterServerId w = serverId \<and> pr_signaling (peer_of pc w) = HaveLocalOffer
          then start_task (BcSettingAnswer pc) (w\<lparr>broadcasterAwaitingAnswer := None\<rparr>)
          else w
      | None \<Rightarrow> w)"

text \<open>
  An answer goes to the viewer of its sender when that one waits for it, else to the broadcaster.
  The preview, which comes last, keeps its own state.
\<close>

definition routeSdpAnswer :: "int \<Rightarrow> server_id option \<Rightarrow> share_world \<Rightarrow> share_world" where
  "routeSdpAnswer sender serverId w =
     (case map_get (viewerPcs w) sender of
        Some v \<Rightarrow>
          if vw_serverId v = serverId \<and> vw_transport v = Sfu \<and> pr_signaling (peer_of (vw_pc v) w) = HaveLocalOffer
          then start_task (VwSettingAnswer sender (vw_pc v)) w
          else answer_other serverId w
      | None \<Rightarrow> answer_other serverId w)"

text \<open>
  Parsing of texts: \<open>js_transport\<close> gives the transport a START announces; \<open>js_candidate\<close> is
  \<open>None\<close> for a text that is no JSON and \<open>Some None\<close> for null.
\<close>

record share_json =
  js_transport :: "string \<Rightarrow> broadcast_transport option"
  js_candidate :: "string \<Rightarrow> string option option"

definition viewer_ice :: "int \<Rightarrow> viewer_state \<Rightarrow> string \<Rightarrow> share_world \<Rightarrow> share_world" where
  "viewer_ice session v c w =
     (if pr_remote (peer_of (vw_pc v) w) then add_ice (vw_pc v) [c] w
      else w\<lparr>viewerPcs := map_set session (v\<lparr>vw_pendingIce := vw_pendingIce v @ [c]\<rparr>) (viewerPcs w)\<rparr>)"

definition ice_to_viewer :: "int \<Rightarrow> string \<Rightarrow> server_id option \<Rightarrow> share_world \<Rightarrow> share_world" where
  "ice_to_viewer sender c serverId w =
     (case map_get (viewerPcs w) sender of
        Some v \<Rightarrow> if vw_serverId v = serverId \<and> vw_transport v = Sfu then viewer_ice sender v c w else w
      | None \<Rightarrow> w)"

definition routeIceCandidate :: "share_json \<Rightarrow> int \<Rightarrow> string \<Rightarrow> server_id option \<Rightarrow> share_world \<Rightarrow> share_world" where
  "routeIceCandidate js sender payload serverId w =
     (case js_candidate js payload of
        Some (Some c) \<Rightarrow>
          (case broadcasterPc w of
             Some pc \<Rightarrow>
               if broadcasterServerId w = serverId \<and> broadcastingOwnSession w = Some sender
               then (if pr_remote (peer_of pc w) then add_ice pc [c] w
                     else w\<lparr>broadcasterPendingIce := broadcasterPendingIce w @ [c]\<rparr>)
               else ice_to_viewer sender c serverId w
           | None \<Rightarrow> ice_to_viewer sender c serverId w)
      | _ \<Rightarrow> w)"

definition direct_signal :: "share_json \<Rightarrow> int \<Rightarrow> viewer_state \<Rightarrow> signal_type \<Rightarrow> string \<Rightarrow> share_world \<Rightarrow> share_world" where
  "direct_signal js sender v ty payload w =
     (case ty of
        P2pOffer \<Rightarrow> acceptDirectOffer sender w
      | P2pDecline \<Rightarrow> fallbackViewer sender (vw_pc v) w
      | P2pIce \<Rightarrow>
          (case js_candidate js payload of
             None \<Rightarrow> fallbackViewer sender (vw_pc v) w
           | Some c \<Rightarrow>
               if pr_remote (peer_of (vw_pc v) w) \<or> length (vw_pendingIce v) < 64
               then viewer_ice sender v (case c of Some t \<Rightarrow> t | None \<Rightarrow> ''null'') w else w)
      | _ \<Rightarrow> w)"

definition is_direct :: "signal_type \<Rightarrow> bool" where
  "is_direct ty \<longleftrightarrow> ty \<in> {P2pOffer, P2pAnswer, P2pIce, P2pRequest, P2pDecline, P2pLeave}"

definition onStop :: "int \<Rightarrow> server_id option \<Rightarrow> share_world \<Rightarrow> share_world" where
  "onStop sender serverId w =
     (if serverId \<noteq> sw_activeServerId w
      then (if (case map_get (viewerPcs w) sender of Some v \<Rightarrow> vw_serverId v = serverId | None \<Rightarrow> False)
            then closeViewer sender w else w)
      else let cleared = (watchingSession w = Some sender)
           in closeViewer sender (w\<lparr>broadcastingSessions := set_remove sender (broadcastingSessions w),
                watchingSession := (if cleared then None else watchingSession w),
                watchingOwnSession := (if cleared then None else watchingOwnSession w)\<rparr>))"

definition handleSignal :: "share_json \<Rightarrow> int \<Rightarrow> signal_type \<Rightarrow> string \<Rightarrow> server_id option \<Rightarrow> share_world \<Rightarrow> share_world" where
  "handleSignal js sender ty payload serverId w0 =
     (let viewer = map_get (viewerPcs w0) sender;
          w = (if ty = SigStart then rememberTransport (js_transport js) sender serverId payload w0
               else if ty = SigStop then w0\<lparr>broadcastTransports := map_del (serverId, sender) (broadcastTransports w0)\<rparr>
               else w0)
      in if is_direct ty
         then (case viewer of
                 None \<Rightarrow> w
               | Some v \<Rightarrow> if vw_serverId v \<noteq> serverId \<or> vw_transport v = Sfu then w else direct_signal js sender v ty payload w)
         else if serverId \<noteq> sw_activeServerId w \<and> serverId \<noteq> broadcasterServerId w
                 \<and> (case viewer of None \<Rightarrow> True | Some v \<Rightarrow> serverId \<noteq> vw_serverId v)
         then w
         else case ty of
           SigStart \<Rightarrow>
             if serverId \<noteq> sw_activeServerId w then w else w\<lparr>broadcastingSessions := set_add sender (broadcastingSessions w)\<rparr>
         | SigStop \<Rightarrow> onStop sender serverId w
         | SdpAnswer \<Rightarrow> routeSdpAnswer sender serverId w
         | IceCandidate \<Rightarrow> routeIceCandidate js sender payload serverId w
         | _ \<Rightarrow> w)"

section \<open>The hook\<close>

definition startSharing :: "share_world \<Rightarrow> share_world" where
  "startSharing w =
     (if localStream w \<noteq> None \<or> nativeBroadcast w then w
      else start_task (Capturing (sw_ownSession w))
        (if sfuAvailable w then w
         else showWebRtcError ''This server does not have a WebRTC relay configured. Screen sharing is unlikely to work.'' w))"

text \<open>The user has chosen a screen: \<open>own\<close> is the session of the tab that asked.\<close>

definition captured :: "int option \<Rightarrow> share_world \<Rightarrow> share_world" where
  "captured own w =
     (let stream = sw_nextStream w;
          w1 = w\<lparr>sw_nextStream := stream + 1, sw_live := set_add stream (sw_live w), localStream := Some stream,
                 broadcasterChannelId := sw_currentChannel w, isSharingOwn := True, broadcastingOwnSession := own,
                 broadcastingSessions := (case own of Some s \<Rightarrow> if s = 0 then broadcastingSessions w else set_add s (broadcastingSessions w)
                                          | None \<Rightarrow> broadcastingSessions w)\<rparr>
      in connectBroadcasterToServer (broadcastSignal None SigStart (sw_activeServerId w) w1))"

definition track_ended :: "nat \<Rightarrow> share_world \<Rightarrow> share_world" where
  "track_ended stream w =
     (if stream \<notin> set (sw_live w) then w
      else let w0 = w\<lparr>sw_live := set_remove stream (sw_live w)\<rparr>
           in if stream \<notin> set (endedListeners w) then w0
              else let sid = broadcasterServerId w0; pc = broadcasterPc w0
                   in broadcastSignal pc SigStop sid (forget_own_broadcast (sw_ownSession w) (stopBroadcasting w0)))"

definition stopSharing :: "share_world \<Rightarrow> share_world" where
  "stopSharing w =
     (if nativeBroadcast w then w
      else let sid = broadcasterServerId w; pc = broadcasterPc w;
               w1 = forget_own_broadcast (sw_ownSession w) (stopBroadcasting w)
           in if truthy_session (sw_ownSession w) then broadcastSignal pc SigStop sid w1 else w1)"

definition watchBroadcast :: "int \<Rightarrow> share_world \<Rightarrow> share_world" where
  "watchBroadcast session w =
     startWatching session False None (w\<lparr>watchingSession := Some session, watchingOwnSession := sw_ownSession w\<rparr>)"

definition stopWatching :: "share_world \<Rightarrow> share_world" where
  "stopWatching w = w\<lparr>watchingSession := None, watchingOwnSession := None\<rparr>"

text \<open>The effects of the hook: the snapshot of a tab, watching whoever broadcasts, late joiners, disconnecting.\<close>

definition restore_snapshot :: "int list \<Rightarrow> share_world \<Rightarrow> share_world" where
  "restore_snapshot sessions w =
     (let own = sw_ownSession w;
          base = set_of_list sessions
      in w\<lparr>broadcastingSessions :=
            (case own of
               Some s \<Rightarrow> if broadcastingOwnSession w = own \<and> s \<in> set (broadcastingSessions w) then set_add s base else base
             | None \<Rightarrow> base)\<rparr>)"

definition auto_connect :: "share_world \<Rightarrow> share_world" where
  "auto_connect w =
     (if \<not> truthy_session (sw_ownSession w) then w
      else let w1 = foldl (\<lambda>w s. if Some s \<noteq> sw_ownSession w then startWatching s False None w else w) w (broadcastingSessions w)
           in foldl (\<lambda>w2 (s, v). if vw_serverId v = sw_activeServerId w \<and> s \<notin> set (broadcastingSessions w) then closeViewer s w2 else w2)
                w1 (viewerPcs w1))"

definition announce_again :: "bool \<Rightarrow> share_world \<Rightarrow> share_world" where
  "announce_again hasNewMembers w =
     (if localStream w = None \<or> \<not> truthy_session (sw_ownSession w) \<or> sw_currentChannel w = None \<or> \<not> hasNewMembers then w
      else broadcastSignal (broadcasterPc w) SigStart (broadcasterServerId w) w)"

definition no_session_cleanup :: "share_world \<Rightarrow> share_world" where
  "no_session_cleanup w =
     (if truthy_session (sw_ownSession w) then w
      else closeAllViewers (if nativeBroadcast w then w else stopBroadcasting w))"

text \<open>What a tab shows.\<close>

definition isBroadcasting :: "share_world \<Rightarrow> bool" where
  "isBroadcasting w \<longleftrightarrow> broadcastingOwnSession w \<noteq> None \<and> broadcastingOwnSession w = sw_ownSession w"

definition watched_here :: "share_world \<Rightarrow> int option" where
  "watched_here w =
     (if watchingOwnSession w \<noteq> None \<and> watchingOwnSession w = sw_ownSession w then watchingSession w else None)"


section \<open>Promises and events\<close>

definition listen_end :: "nat \<Rightarrow> share_world \<Rightarrow> share_world" where
  "listen_end stream w = w\<lparr>endedListeners := set_add stream (endedListeners w)\<rparr>"

text \<open>A promise resolves with a text, the description where it has one.\<close>

fun resolved :: "share_task \<Rightarrow> string \<Rightarrow> share_world \<Rightarrow> share_world" where
  "resolved (Capturing own) sdp w = captured own w"
| "resolved (BcOffering pc epoch stream) sdp w =
     (if broadcasterPc w = Some pc then start_task (BcSettingLocal pc epoch stream sdp) w else listen_end stream w)"
| "resolved (BcSettingLocal pc epoch stream offer) sdp w =
     (let w1 = set_signaling pc HaveLocalOffer w
      in listen_end stream
          (if broadcasterPc w = Some pc
           then (sendSignal (Some pc) 0 SdpOffer offer (pr_server (peer_of pc w)) (w1\<lparr>broadcasterAwaitingAnswer := Some epoch\<rparr>))
                  \<lparr>broadcasterIceTimeout := Some pc\<rparr>
           else w1))"
| "resolved (BcSettingAnswer pc) sdp w = flushBroadcasterIce (set_remote pc Stable w)"
| "resolved (VwOffering session pc retry) sdp w =
     (if viewer_is session pc w then start_task (VwSettingLocal session pc sdp) w else w)"
| "resolved (VwSettingLocal session pc offer) sdp w =
     (let w1 = set_signaling pc HaveLocalOffer w
      in if viewer_is session pc w then sendSignal (Some pc) session SdpOffer offer (pr_server (peer_of pc w)) w1 else w1)"
| "resolved (VwSettingAnswer session pc) sdp w = flushViewerIce session (set_remote pc Stable w)"
| "resolved (VwSettingOffer session pc) sdp w =
     (let w1 = set_remote pc HaveRemoteOffer w
      in if viewer_is session pc w then start_task (VwAnswering session pc) (flushViewerIce session w1) else w1)"
| "resolved (VwAnswering session pc) sdp w =
     (if viewer_is session pc w then start_task (VwSettingDirect session pc sdp) w else w)"
| "resolved (VwSettingDirect session pc answer) sdp w =
     (let w1 = set_signaling pc Stable w
      in if viewer_is session pc w then sendSignal (Some pc) session P2pAnswer answer (pr_server (peer_of pc w)) w1 else w1)"

fun rejected :: "share_task \<Rightarrow> string \<Rightarrow> share_world \<Rightarrow> share_world" where
  "rejected (VwSettingOffer session pc) e w = fallbackViewer session pc w"
| "rejected (VwAnswering session pc) e w = fallbackViewer session pc w"
| "rejected (VwSettingDirect session pc answer) e w = fallbackViewer session pc w"
| "rejected (VwOffering session pc retry) e w = (if retry then showWebRtcError e w else w)"
| "rejected t e w = w"

datatype share_event =
    StartSharing
  | StopSharing
  | Watch int
  | StopWatching
  | Resolve nat string
  | Reject nat string
  | BroadcasterState nat connection_report
  | BroadcasterTimeout
  | BroadcasterCandidate string
  | ViewerState int nat connection_report
  | ViewerTimeout int nat
  | ViewerTrack int nat
  | ViewerCandidate int string
  | IceRejected int nat
  | TrackEnded nat
  | SignalIn int signal_type string "server_id option"
  | SwitchTab "server_id option" "int option" "int option"
  | ServerConfig bool bool
  | Snapshot "int list"
  | AutoConnect
  | AnnounceAgain bool
  | NoSessionCleanup

fun share_step :: "share_json \<Rightarrow> share_world \<Rightarrow> share_event \<Rightarrow> share_world" where
  "share_step js w StartSharing = startSharing w"
| "share_step js w StopSharing = stopSharing w"
| "share_step js w (Watch s) = watchBroadcast s w"
| "share_step js w StopWatching = stopWatching w"
| "share_step js w (Resolve i sdp) =
     (if i < length (sw_tasks w)
      then resolved (sw_tasks w ! i) sdp (w\<lparr>sw_tasks := take i (sw_tasks w) @ drop (Suc i) (sw_tasks w)\<rparr>) else w)"
| "share_step js w (Reject i e) =
     (if i < length (sw_tasks w)
      then rejected (sw_tasks w ! i) e (w\<lparr>sw_tasks := take i (sw_tasks w) @ drop (Suc i) (sw_tasks w)\<rparr>) else w)"
| "share_step js w (BroadcasterState pc r) = onBroadcasterState pc r w"
| "share_step js w BroadcasterTimeout = broadcaster_timeout w"
| "share_step js w (BroadcasterCandidate c) = onBroadcasterCandidate c w"
| "share_step js w (ViewerState s pc r) = onViewerState s pc r w"
| "share_step js w (ViewerTimeout s pc) = viewer_timeout s pc w"
| "share_step js w (ViewerTrack s pc) = onTrack s pc w"
| "share_step js w (ViewerCandidate s c) = onViewerCandidate s c w"
| "share_step js w (IceRejected s pc) = ice_rejected s pc w"
| "share_step js w (TrackEnded stream) = track_ended stream w"
| "share_step js w (SignalIn sender ty payload sid) = handleSignal js sender ty payload sid w"
| "share_step js w (SwitchTab sid own ch) = w\<lparr>sw_activeServerId := sid, sw_ownSession := own, sw_currentChannel := ch\<rparr>"
| "share_step js w (ServerConfig sfu p2p) = w\<lparr>sfuAvailable := sfu, p2pRelayAvailable := p2p\<rparr>"
| "share_step js w (Snapshot ss) = restore_snapshot ss w"
| "share_step js w AutoConnect = auto_connect w"
| "share_step js w (AnnounceAgain b) = announce_again b w"
| "share_step js w NoSessionCleanup = no_session_cleanup w"


section \<open>The invariant\<close>

definition peer_exists :: "nat \<Rightarrow> share_world \<Rightarrow> bool" where
  "peer_exists i w \<longleftrightarrow> map_get (sw_peers w) i \<noteq> None"

definition owned :: "nat \<Rightarrow> share_world \<Rightarrow> bool" where
  "owned i w \<longleftrightarrow> broadcasterPc w = Some i \<or> (\<exists>s v. map_get (viewerPcs w) s = Some v \<and> vw_pc v = i)"

definition viewers_ok :: "share_world \<Rightarrow> bool" where
  "viewers_ok w \<longleftrightarrow>
     (\<forall>s v. map_get (viewerPcs w) s = Some v \<longrightarrow>
        open_peer (vw_pc v) w \<and> pr_server (peer_of (vw_pc v) w) = vw_serverId v \<and> broadcasterPc w \<noteq> Some (vw_pc v)
        \<and> (\<forall>s' v'. map_get (viewerPcs w) s' = Some v' \<and> vw_pc v' = vw_pc v \<longrightarrow> s' = s))"

definition broadcaster_ok :: "share_world \<Rightarrow> bool" where
  "broadcaster_ok w \<longleftrightarrow>
     (\<forall>pc. broadcasterPc w = Some pc \<longrightarrow> open_peer pc w \<and> pr_server (peer_of pc w) = broadcasterServerId w)"

definition sent_ok :: "share_world \<Rightarrow> bool" where
  "sent_ok w \<longleftrightarrow>
     (\<forall>g \<in> set (sw_sent w). \<forall>p. ss_peer g = Some p \<longrightarrow> peer_exists p w \<and> ss_server g = pr_server (peer_of p w))"

definition share_inv :: "share_world \<Rightarrow> bool" where
  "share_inv w \<longleftrightarrow>
     (\<forall>i. peer_exists i w \<longrightarrow> i < sw_nextPeer w) \<and> viewers_ok w \<and> broadcaster_ok w \<and> (\<forall>i. open_peer i w \<longrightarrow> owned i w) \<and> sent_ok w"

text \<open>Only six fields matter.\<close>

lemma share_inv_cong:
  assumes "sw_peers w' = sw_peers w" "sw_nextPeer w' = sw_nextPeer w" "viewerPcs w' = viewerPcs w"
    "broadcasterPc w' = broadcasterPc w" "broadcasterServerId w' = broadcasterServerId w" "sw_sent w' = sw_sent w"
  shows "share_inv w' = share_inv w"
  using assms
  by (simp add: share_inv_def viewers_ok_def broadcaster_ok_def sent_ok_def owned_def peer_exists_def open_peer_def peer_of_def)

lemma share_inv_initial: "share_inv share_initial"
  by (simp add: share_inv_def share_initial_def viewers_ok_def broadcaster_ok_def sent_ok_def peer_exists_def open_peer_def peer_of_def)

lemma peer_of_with_peer [simp]:
  "peer_of j (with_peer i f w) = (if j = i then f (peer_of i w) else peer_of j w)"
  "peer_exists j (with_peer i f w) \<longleftrightarrow> j = i \<or> peer_exists j w"
  by (simp_all add: peer_of_def with_peer_def peer_exists_def)

lemma with_peer_fields [simp]:
  "viewerPcs (with_peer i f w) = viewerPcs w" "broadcasterPc (with_peer i f w) = broadcasterPc w"
  "broadcasterServerId (with_peer i f w) = broadcasterServerId w" "sw_sent (with_peer i f w) = sw_sent w"
  "sw_nextPeer (with_peer i f w) = sw_nextPeer w" "sw_activeServerId (with_peer i f w) = sw_activeServerId w"
  "sw_tasks (with_peer i f w) = sw_tasks w" "watchingSession (with_peer i f w) = watchingSession w"
  "localStream (with_peer i f w) = localStream w" "sw_ownSession (with_peer i f w) = sw_ownSession w"
  by (simp_all add: with_peer_def)

lemma open_exists: "open_peer i w \<Longrightarrow> peer_exists i w"
  by (auto simp: open_peer_def peer_of_def peer_exists_def split: option.splits)

text \<open>What keeps a peer open or closed and on its server changes nothing.\<close>

definition keeps :: "(peer \<Rightarrow> peer) \<Rightarrow> bool" where
  "keeps f \<longleftrightarrow> (\<forall>p. pr_server (f p) = pr_server p \<and> (pr_signaling (f p) = SigClosed \<longleftrightarrow> pr_signaling p = SigClosed))"

lemma inv_with_peer:
  assumes "share_inv w" "peer_exists i w" "keeps f"
  shows "share_inv (with_peer i f w)"
proof -
  have "open_peer j (with_peer i f w) = open_peer j w" for j using assms(3) by (simp add: open_peer_def keeps_def)
  moreover have "pr_server (peer_of j (with_peer i f w)) = pr_server (peer_of j w)" for j using assms(3) by (simp add: keeps_def)
  ultimately show ?thesis using assms(1,2)
    by (auto simp: share_inv_def viewers_ok_def broadcaster_ok_def sent_ok_def owned_def simp del: peer_of_with_peer(1))
qed

lemma inv_with_open:
  assumes "share_inv w" "open_peer i w"
    "\<And>p. pr_signaling p \<noteq> SigClosed \<Longrightarrow> pr_server (f p) = pr_server p \<and> pr_signaling (f p) \<noteq> SigClosed"
  shows "share_inv (with_peer i f w)"
proof -
  let ?f = "\<lambda>p. if pr_signaling p = SigClosed then p else f p"
  have "share_inv (with_peer i ?f w)" using assms open_exists by (intro inv_with_peer) (auto simp: keeps_def)
  moreover have "with_peer i ?f w = with_peer i f w" using assms(2) by (simp add: with_peer_def open_peer_def)
  ultimately show ?thesis by simp
qed

lemma inv_set_signaling:
  assumes "share_inv w" "s \<noteq> SigClosed"
  shows "share_inv (set_signaling i s w)" "share_inv (set_remote i s w)"
  unfolding set_signaling_def set_remote_def using assms by (auto intro!: inv_with_open)

lemma inv_add_ice: "share_inv w \<Longrightarrow> peer_exists i w \<Longrightarrow> share_inv (add_ice i cs w)"
  by (auto simp: add_ice_def keeps_def intro!: inv_with_peer)

lemma inv_connection:
  "share_inv w \<Longrightarrow> open_peer i w \<Longrightarrow> share_inv (with_peer i (\<lambda>p. p\<lparr>pr_connected := b\<rparr>) w)"
  by (auto simp: keeps_def intro!: inv_with_peer open_exists)

lemma inv_update_viewer:
  assumes "share_inv w" "map_get (viewerPcs w) s = Some v" "vw_pc v' = vw_pc v" "vw_serverId v' = vw_serverId v"
  shows "share_inv (w\<lparr>viewerPcs := map_set s v' (viewerPcs w)\<rparr>)"
proof -
  let ?w = "w\<lparr>viewerPcs := map_set s v' (viewerPcs w)\<rparr>"
  have same: "peer_of j ?w = peer_of j w" "open_peer j ?w = open_peer j w" "peer_exists j ?w = peer_exists j w" for j
    by (simp_all add: peer_of_def open_peer_def peer_exists_def)
  have "(\<exists>s' x. ((map_get (viewerPcs w))(s \<mapsto> v')) s' = Some x \<and> vw_pc x = j) \<longleftrightarrow>
      (\<exists>s' x. map_get (viewerPcs w) s' = Some x \<and> vw_pc x = j)" for j
    using assms(2,3) by (metis fun_upd_apply option.inject)
  then have "owned j ?w = owned j w" for j by (simp add: owned_def)
  moreover have "viewers_ok ?w" using assms by (auto simp: share_inv_def viewers_ok_def same)
  ultimately show ?thesis using assms(1) by (simp add: share_inv_def broadcaster_ok_def sent_ok_def same)
qed

lemma inv_send:
  assumes "share_inv w" "\<And>p. pc = Some p \<Longrightarrow> peer_exists p w \<and> sid = pr_server (peer_of p w)"
  shows "share_inv (sendSignal pc target ty payload sid w)"
proof -
  let ?w = "sendSignal pc target ty payload sid w"
  have same: "peer_of j ?w = peer_of j w" "open_peer j ?w = open_peer j w" "peer_exists j ?w = peer_exists j w"
    "owned j ?w = owned j w" for j
    by (simp_all add: peer_of_def open_peer_def peer_exists_def owned_def sendSignal_def)
  have "viewers_ok ?w = viewers_ok w" "broadcaster_ok ?w = broadcaster_ok w" "sw_nextPeer ?w = sw_nextPeer w"
    by (simp_all add: viewers_ok_def broadcaster_ok_def same) (simp_all add: sendSignal_def)
  moreover have "sent_ok ?w" using assms by (auto simp: sent_ok_def same share_inv_def) (auto simp: sendSignal_def)
  ultimately show ?thesis using assms(1) by (simp add: share_inv_def same)
qed


lemma close_peer_view:
  "open_peer j (close_peer i w) \<longleftrightarrow> j \<noteq> i \<and> open_peer j w"
  "pr_server (peer_of j (close_peer i w)) = pr_server (peer_of j w)"
  "peer_exists j (close_peer i w) \<longleftrightarrow> j = i \<or> peer_exists j w"
  by (auto simp: close_peer_def open_peer_def)

lemma close_peer_fields [simp]:
  "viewerPcs (close_peer i w) = viewerPcs w" "broadcasterPc (close_peer i w) = broadcasterPc w"
  "broadcasterServerId (close_peer i w) = broadcasterServerId w" "sw_sent (close_peer i w) = sw_sent w"
  "sw_nextPeer (close_peer i w) = sw_nextPeer w" "sw_activeServerId (close_peer i w) = sw_activeServerId w"
  "localStream (close_peer i w) = localStream w" "sw_ownSession (close_peer i w) = sw_ownSession w"
  by (simp_all add: close_peer_def)

text \<open>The peers of a world do not depend on the fields above them.\<close>

lemma peer_views [simp]:
  "open_peer j (w\<lparr>viewerPcs := m\<rparr>) = open_peer j w" "peer_of j (w\<lparr>viewerPcs := m\<rparr>) = peer_of j w"
  "peer_exists j (w\<lparr>viewerPcs := m\<rparr>) = peer_exists j w"
  "open_peer j (w\<lparr>broadcasterPc := b\<rparr>) = open_peer j w" "peer_of j (w\<lparr>broadcasterPc := b\<rparr>) = peer_of j w"
  "peer_exists j (w\<lparr>broadcasterPc := b\<rparr>) = peer_exists j w"
  "open_peer j (w\<lparr>broadcasterServerId := sid\<rparr>) = open_peer j w" "peer_of j (w\<lparr>broadcasterServerId := sid\<rparr>) = peer_of j w"
  "peer_exists j (w\<lparr>broadcasterServerId := sid\<rparr>) = peer_exists j w"
  "peer_of j (w\<lparr>broadcasterAwaitingAnswer := a\<rparr>) = peer_of j w" "peer_exists j (w\<lparr>broadcasterAwaitingAnswer := a\<rparr>) = peer_exists j w"
  by (simp_all add: open_peer_def peer_of_def peer_exists_def)

lemma inv_drop_viewer:
  assumes "share_inv w" "map_get (viewerPcs w) s = Some v"
  shows "share_inv ((close_peer (vw_pc v) w)\<lparr>viewerPcs := map_del s (viewerPcs w)\<rparr>)"
proof -
  let ?w = "(close_peer (vw_pc v) w)\<lparr>viewerPcs := map_del s (viewerPcs w)\<rparr>"
  have v: "open_peer (vw_pc v) w" "broadcasterPc w \<noteq> Some (vw_pc v)"
    "\<And>s' v'. map_get (viewerPcs w) s' = Some v' \<Longrightarrow> vw_pc v' = vw_pc v \<Longrightarrow> s' = s"
    using assms by (auto simp: share_inv_def viewers_ok_def)
  have ex: "peer_exists j (close_peer (vw_pc v) w) \<longleftrightarrow> peer_exists j w" for j using open_exists [OF v(1)] by (auto simp: close_peer_view)
  have "viewers_ok ?w" using assms(1) v(2,3) by (auto simp: share_inv_def viewers_ok_def close_peer_view split: if_splits)
  moreover have "broadcaster_ok ?w" using assms(1) v(2) by (auto simp: share_inv_def broadcaster_ok_def close_peer_view)
  moreover have "owned i ?w" if i: "open_peer i ?w" for i
  proof -
    have "i \<noteq> vw_pc v" "open_peer i w" using i by (auto simp: close_peer_view)
    then have "owned i w" using assms(1) by (simp add: share_inv_def)
    then show ?thesis
    proof (cases "broadcasterPc w = Some i")
      case False
      with \<open>owned i w\<close> obtain s' v' where o: "map_get (viewerPcs w) s' = Some v'" "vw_pc v' = i" by (auto simp: owned_def)
      then have "s' \<noteq> s" using assms(2) \<open>i \<noteq> vw_pc v\<close> by auto
      then have "map_get (map_del s (viewerPcs w)) s' = Some v'" using o(1) by simp
      then show ?thesis using o(2) unfolding owned_def by (intro disjI2 exI [of _ s'] exI [of _ v']) simp
    qed (simp add: owned_def)
  qed
  moreover have "sent_ok ?w" using assms(1) by (auto simp: share_inv_def sent_ok_def ex close_peer_view)
  ultimately show ?thesis using assms(1) by (simp add: share_inv_def ex)
qed

lemma inv_drop_broadcaster:
  assumes "share_inv w"
  shows "share_inv (close_broadcaster w)"
proof (cases "broadcasterPc w")
  case (Some pc)
  let ?w = "(close_peer pc w)\<lparr>broadcasterPc := None\<rparr>"
  have pc: "open_peer pc w" using assms Some by (auto simp: share_inv_def broadcaster_ok_def)
  have ex: "peer_exists j (close_peer pc w) \<longleftrightarrow> peer_exists j w" for j using open_exists [OF pc] by (auto simp: close_peer_view)
  have "viewers_ok ?w" using assms Some by (auto simp: share_inv_def viewers_ok_def close_peer_view)
  moreover have "owned i ?w" if "open_peer i ?w" for i
    using that assms Some by (auto simp: share_inv_def owned_def close_peer_view)
  moreover have "sent_ok ?w" using assms by (auto simp: share_inv_def sent_ok_def ex close_peer_view)
  ultimately have "share_inv ?w" using assms by (simp add: share_inv_def ex broadcaster_ok_def)
  then show ?thesis by (simp add: close_broadcaster_def Some)
qed (use assms in \<open>simp add: close_broadcaster_def\<close>)

lemma create_peer_view:
  assumes "create_peer sid w = (pc, w1)"
  shows "pc = sw_nextPeer w" "sw_nextPeer w1 = Suc pc" "viewerPcs w1 = viewerPcs w" "broadcasterPc w1 = broadcasterPc w"
    "broadcasterServerId w1 = broadcasterServerId w" "sw_sent w1 = sw_sent w"
    "peer_of j w1 = (if j = pc then new_peer sid else peer_of j w)"
    "peer_exists j w1 \<longleftrightarrow> j = pc \<or> peer_exists j w" "open_peer j w1 \<longleftrightarrow> j = pc \<or> open_peer j w"
proof -
  show p: "peer_of j w1 = (if j = pc then new_peer sid else peer_of j w)" for j
    using assms by (auto simp: create_peer_def peer_of_def)
  show "open_peer j w1 \<longleftrightarrow> j = pc \<or> open_peer j w" by (simp add: open_peer_def p new_peer_def)
qed (use assms in \<open>auto simp: create_peer_def peer_exists_def\<close>)

lemma inv_new_viewer:
  assumes "share_inv w" "map_get (viewerPcs w) s = None" "create_peer sid w = (pc, w1)" "vw_pc v = pc" "vw_serverId v = sid"
  shows "share_inv (w1\<lparr>viewerPcs := map_set s v (viewerPcs w1)\<rparr>)"
proof -
  note c = create_peer_view [OF assms(3)]
  have fresh: "peer_exists j w \<Longrightarrow> j < pc" for j using assms(1) c(1) by (simp add: share_inv_def)
  have old: "\<forall>s' x. map_get (viewerPcs w) s' = Some x \<longrightarrow> vw_pc x \<noteq> pc" "broadcasterPc w \<noteq> Some pc"
    using assms(1) fresh open_exists by (force simp: share_inv_def viewers_ok_def broadcaster_ok_def)+
  let ?w = "w1\<lparr>viewerPcs := map_set s v (viewerPcs w1)\<rparr>"
  have "viewers_ok ?w"
    unfolding viewers_ok_def
  proof (intro allI impI)
    fix s' x assume x: "map_get (viewerPcs ?w) s' = Some x"
    show "open_peer (vw_pc x) ?w \<and> pr_server (peer_of (vw_pc x) ?w) = vw_serverId x \<and> broadcasterPc ?w \<noteq> Some (vw_pc x)
        \<and> (\<forall>s'' y. map_get (viewerPcs ?w) s'' = Some y \<and> vw_pc y = vw_pc x \<longrightarrow> s'' = s')"
    proof (cases "s' = s")
      case True
      then show ?thesis using x assms(4,5) old by (auto simp: c new_peer_def split: if_splits)
    next
      case False
      then have "map_get (viewerPcs w) s' = Some x" using x by (simp add: c)
      then show ?thesis using assms(1,4) old False by (auto simp: share_inv_def viewers_ok_def c split: if_splits) blast
    qed
  qed
  moreover have "broadcaster_ok ?w" using assms(1) old by (auto simp: share_inv_def broadcaster_ok_def c)
  moreover have "owned i ?w" if "open_peer i ?w" for i
  proof (cases "i = pc")
    case True
    then show ?thesis using assms(4) unfolding owned_def by (intro disjI2 exI [of _ s] exI [of _ v]) simp
  next
    case False
    then have "owned i w" using that assms(1) by (simp add: c share_inv_def)
    then show ?thesis using assms(2) unfolding owned_def by (auto simp: c) (metis option.distinct(1))
  qed
  moreover have "sent_ok ?w" using assms(1) fresh by (auto simp: share_inv_def sent_ok_def c)
  ultimately show ?thesis using fresh by (auto simp: share_inv_def c less_Suc_eq)
qed

lemma inv_new_broadcaster:
  assumes "share_inv w" "broadcasterPc w = None" "create_peer sid w = (pc, w1)"
  shows "share_inv (w1\<lparr>broadcasterPc := Some pc, broadcasterServerId := sid\<rparr>)"
proof -
  note c = create_peer_view [OF assms(3)]
  have fresh: "peer_exists j w \<Longrightarrow> j < pc" for j using assms(1) c(1) by (simp add: share_inv_def)
  have old: "\<forall>s' x. map_get (viewerPcs w) s' = Some x \<longrightarrow> vw_pc x \<noteq> pc"
    using assms(1) fresh open_exists by (force simp: share_inv_def viewers_ok_def)
  let ?w = "w1\<lparr>broadcasterPc := Some pc, broadcasterServerId := sid\<rparr>"
  have "viewers_ok ?w" using assms(1) old by (auto simp: share_inv_def viewers_ok_def c) blast
  moreover have "broadcaster_ok ?w" by (simp add: broadcaster_ok_def c new_peer_def)
  moreover have "owned i ?w" if "open_peer i ?w" for i using that assms(1,2) by (auto simp: share_inv_def owned_def c)
  moreover have "sent_ok ?w" using assms(1) fresh by (auto simp: share_inv_def sent_ok_def c)
  ultimately show ?thesis using fresh by (auto simp: share_inv_def c less_Suc_eq)
qed


lemma share_inv_frame [simp]:
  "share_inv (w\<lparr>sw_nextStream := x_sw_nextStream\<rparr>) = share_inv w"
  "share_inv (w\<lparr>sw_live := x_sw_live\<rparr>) = share_inv w"
  "share_inv (w\<lparr>localStream := x_localStream\<rparr>) = share_inv w"
  "share_inv (w\<lparr>broadcasterPcEpoch := x_broadcasterPcEpoch\<rparr>) = share_inv w"
  "share_inv (w\<lparr>broadcasterAwaitingAnswer := x_broadcasterAwaitingAnswer\<rparr>) = share_inv w"
  "share_inv (w\<lparr>broadcasterChannelId := x_broadcasterChannelId\<rparr>) = share_inv w"
  "share_inv (w\<lparr>broadcasterPendingIce := x_broadcasterPendingIce\<rparr>) = share_inv w"
  "share_inv (w\<lparr>broadcasterIceTimeout := x_broadcasterIceTimeout\<rparr>) = share_inv w"
  "share_inv (w\<lparr>endedListeners := x_endedListeners\<rparr>) = share_inv w"
  "share_inv (w\<lparr>broadcastTransports := x_broadcastTransports\<rparr>) = share_inv w"
  "share_inv (w\<lparr>previewPc := x_previewPc\<rparr>) = share_inv w"
  "share_inv (w\<lparr>nativeBroadcast := x_nativeBroadcast\<rparr>) = share_inv w"
  "share_inv (w\<lparr>sw_activeServerId := x_sw_activeServerId\<rparr>) = share_inv w"
  "share_inv (w\<lparr>sw_ownSession := x_sw_ownSession\<rparr>) = share_inv w"
  "share_inv (w\<lparr>sw_currentChannel := x_sw_currentChannel\<rparr>) = share_inv w"
  "share_inv (w\<lparr>broadcastingSessions := x_broadcastingSessions\<rparr>) = share_inv w"
  "share_inv (w\<lparr>watchingSession := x_watchingSession\<rparr>) = share_inv w"
  "share_inv (w\<lparr>watchingOwnSession := x_watchingOwnSession\<rparr>) = share_inv w"
  "share_inv (w\<lparr>isSharingOwn := x_isSharingOwn\<rparr>) = share_inv w"
  "share_inv (w\<lparr>broadcastingOwnSession := x_broadcastingOwnSession\<rparr>) = share_inv w"
  "share_inv (w\<lparr>webrtcConnecting := x_webrtcConnecting\<rparr>) = share_inv w"
  "share_inv (w\<lparr>webrtcError := x_webrtcError\<rparr>) = share_inv w"
  "share_inv (w\<lparr>p2pRelayAvailable := x_p2pRelayAvailable\<rparr>) = share_inv w"
  "share_inv (w\<lparr>sfuAvailable := x_sfuAvailable\<rparr>) = share_inv w"
  "share_inv (w\<lparr>sw_tasks := x_sw_tasks\<rparr>) = share_inv w"
  by (rule share_inv_cong; simp)+

lemma share_inv_moves [simp]:
  "share_inv (showWebRtcError msg w) = share_inv w" "share_inv (start_task t w) = share_inv w"
  "share_inv (listen_end stream w) = share_inv w" "share_inv (rememberTransport parse s sid payload w) = share_inv w"
  by (simp_all add: showWebRtcError_def start_task_def listen_end_def rememberTransport_def)

lemma viewer_known: "share_inv w \<Longrightarrow> map_get (viewerPcs w) s = Some v \<Longrightarrow>
    open_peer (vw_pc v) w \<and> peer_exists (vw_pc v) w \<and> pr_server (peer_of (vw_pc v) w) = vw_serverId v"
  using open_exists by (auto simp: share_inv_def viewers_ok_def)

lemma broadcaster_known: "share_inv w \<Longrightarrow> broadcasterPc w = Some pc \<Longrightarrow>
    open_peer pc w \<and> peer_exists pc w \<and> pr_server (peer_of pc w) = broadcasterServerId w"
  using open_exists by (auto simp: share_inv_def broadcaster_ok_def)

lemma send_fields [simp]:
  "viewerPcs (sendSignal pc t ty payload sid w) = viewerPcs w" "broadcasterPc (sendSignal pc t ty payload sid w) = broadcasterPc w"
  "sw_activeServerId (sendSignal pc t ty payload sid w) = sw_activeServerId w"
  "localStream (sendSignal pc t ty payload sid w) = localStream w"
  "peer_of j (sendSignal pc t ty payload sid w) = peer_of j w" "peer_exists j (sendSignal pc t ty payload sid w) = peer_exists j w"
  by (simp_all add: sendSignal_def peer_of_def peer_exists_def)

lemma inv_closeViewer: "share_inv w \<Longrightarrow> share_inv (closeViewer s w)"
proof (cases "map_get (viewerPcs w) s")
  case (Some v)
  assume w: "share_inv w"
  let ?w1 = "if vw_transport v \<noteq> Sfu then sendSignal (Some (vw_pc v)) s P2pLeave '''' (vw_serverId v) w else w"
  have "share_inv ?w1" "map_get (viewerPcs ?w1) s = Some v" "viewerPcs ?w1 = viewerPcs w"
    using w Some viewer_known by (auto intro!: inv_send)
  then have "share_inv ((close_peer (vw_pc v) ?w1)\<lparr>viewerPcs := map_del s (viewerPcs w)\<rparr>)" using inv_drop_viewer [of ?w1 s v] by simp
  then show ?thesis using Some by (simp add: closeViewer_def Let_def)
qed (simp add: closeViewer_def)

lemma viewers_closeViewer: "viewerPcs (closeViewer s w) = map_del s (viewerPcs w)"
  by (auto simp: closeViewer_def Let_def map_del_absent map_has_def split: option.splits)

lemma inv_startWatching: "share_inv w \<Longrightarrow> share_inv (startWatching s force pinned w)"
proof (cases "map_has (viewerPcs w) s")
  case False
  assume w: "share_inv w"
  have none: "map_get (viewerPcs w) s = None" using False by (simp add: map_has_def)
  define sid where "sid = (case pinned of None \<Rightarrow> sw_activeServerId w | Some p \<Rightarrow> p)"
  obtain pc w1 where c: "create_peer sid (w\<lparr>previewPc := None\<rparr>) = (pc, w1)" by fastforce
  have new: "share_inv (w1\<lparr>viewerPcs := map_set s v (viewerPcs w1)\<rparr>)" if "vw_pc v = pc" "vw_serverId v = sid" for v
    using inv_new_viewer [OF _ _ c that] w none by simp
  have "peer_exists pc w1" "pr_server (peer_of pc w1) = sid" using create_peer_view(7,8) [OF c, of pc] by (simp_all add: new_peer_def)
  then show ?thesis using False new by (auto simp: startWatching_def sid_def [symmetric] c Let_def intro!: inv_send)
qed (simp add: startWatching_def)

lemma inv_fallbackViewer: "share_inv w \<Longrightarrow> share_inv (fallbackViewer s pc w)"
  by (auto simp: fallbackViewer_def Let_def inv_closeViewer inv_startWatching split: option.splits)

lemma inv_stop_capture: "share_inv w \<Longrightarrow> share_inv (stop_capture w)"
  by (auto simp: stop_capture_def split: option.splits)

lemma broadcaster_closed: "broadcasterPc (close_broadcaster w) = None"
  by (simp add: close_broadcaster_def split: option.splits)

lemma inv_server_free: "broadcasterPc w = None \<Longrightarrow> share_inv (w\<lparr>broadcasterServerId := sid\<rparr>) = share_inv w"
  by (simp add: share_inv_def viewers_ok_def broadcaster_ok_def sent_ok_def owned_def)

lemma inv_stopBroadcasting: "share_inv w \<Longrightarrow> share_inv (stopBroadcasting w)"
  by (simp add: stopBroadcasting_def inv_server_free broadcaster_closed inv_drop_broadcaster inv_stop_capture)

lemma close_broadcaster_server:
  "close_broadcaster (w\<lparr>broadcasterServerId := sid\<rparr>) = (close_broadcaster w)\<lparr>broadcasterServerId := sid\<rparr>"
  by (simp add: close_broadcaster_def close_peer_def with_peer_def peer_of_def split: option.splits)

lemma inv_connectBroadcaster: "share_inv w \<Longrightarrow> share_inv (connectBroadcasterToServer w)"
proof (cases "localStream w")
  case (Some stream)
  assume w: "share_inv w"
  let ?w1 = "(close_broadcaster (w\<lparr>broadcasterServerId := sw_activeServerId w\<rparr>))\<lparr>broadcasterPendingIce := [], broadcasterAwaitingAnswer := None\<rparr>"
  obtain pc w2 where c: "create_peer (sw_activeServerId w) ?w1 = (pc, w2)" by fastforce
  have closed: "broadcasterPc ?w1 = None" by (simp add: broadcaster_closed)
  have "share_inv ?w1"
    by (simp add: close_broadcaster_server inv_server_free broadcaster_closed inv_drop_broadcaster w)
  then have "share_inv (w2\<lparr>broadcasterPc := Some pc, broadcasterServerId := sw_activeServerId w\<rparr>)"
    by (rule inv_new_broadcaster [OF _ closed c])
  moreover have "broadcasterServerId w2 = sw_activeServerId w"
    using create_peer_view(5) [OF c] by (simp add: close_broadcaster_server)
  then have "share_inv (w2\<lparr>broadcasterPc := Some pc\<rparr>) = share_inv (w2\<lparr>broadcasterPc := Some pc, broadcasterServerId := sw_activeServerId w\<rparr>)"
    by (intro share_inv_cong) simp_all
  ultimately have "share_inv (w2\<lparr>broadcasterPc := Some pc\<rparr>)" by simp
  then show ?thesis using Some c by (simp add: connectBroadcasterToServer_def Let_def)
qed (simp add: connectBroadcasterToServer_def)


section \<open>Every event keeps it\<close>

lemma inv_flushBroadcasterIce: "share_inv w \<Longrightarrow> share_inv (flushBroadcasterIce w)"
  using broadcaster_known by (auto simp: flushBroadcasterIce_def intro!: inv_add_ice split: option.splits)

lemma inv_flushViewerIce:
  assumes "share_inv w"
  shows "share_inv (flushViewerIce s w)"
proof (cases "map_get (viewerPcs w) s")
  case (Some v)
  have "share_inv (add_ice (vw_pc v) (vw_pendingIce v) w)" using assms Some viewer_known by (auto intro!: inv_add_ice)
  moreover have "viewerPcs (add_ice (vw_pc v) (vw_pendingIce v) w) = viewerPcs w" by (simp add: add_ice_def)
  ultimately show ?thesis
    using inv_update_viewer [of "add_ice (vw_pc v) (vw_pendingIce v) w" s v "v\<lparr>vw_pendingIce := []\<rparr>"] Some by (simp add: flushViewerIce_def)
qed (use assms in \<open>simp add: flushViewerIce_def\<close>)

lemma inv_viewer_ice:
  "share_inv w \<Longrightarrow> map_get (viewerPcs w) s = Some v \<Longrightarrow> share_inv (viewer_ice s v c w)"
  using viewer_known by (auto simp: viewer_ice_def intro!: inv_add_ice inv_update_viewer)

lemma inv_acceptDirectOffer: "share_inv w \<Longrightarrow> share_inv (acceptDirectOffer s w)"
  by (auto simp: acceptDirectOffer_def intro!: inv_update_viewer split: option.splits)

lemma inv_forget_own_broadcast: "share_inv (forget_own_broadcast own w) = share_inv w"
  by (simp add: forget_own_broadcast_def)

lemma known_after_stop:
  assumes "peer_exists p w"
  shows "peer_exists p (forget_own_broadcast own (stopBroadcasting w))"
    "pr_server (peer_of p (forget_own_broadcast own (stopBroadcasting w))) = pr_server (peer_of p w)"
proof -
  have fields: "sw_peers (forget_own_broadcast own (stopBroadcasting w)) =
      sw_peers (close_broadcaster (stop_capture (w\<lparr>broadcasterIceTimeout := None, webrtcConnecting := False\<rparr>)))"
    by (simp add: forget_own_broadcast_def stopBroadcasting_def)
  have base: "sw_peers (stop_capture (w\<lparr>broadcasterIceTimeout := None, webrtcConnecting := False\<rparr>)) = sw_peers w"
    by (simp add: stop_capture_def split: option.splits)
  show "peer_exists p (forget_own_broadcast own (stopBroadcasting w))"
    using assms by (simp add: peer_exists_def fields close_broadcaster_def close_peer_def with_peer_def base split: option.splits)
  show "pr_server (peer_of p (forget_own_broadcast own (stopBroadcasting w))) = pr_server (peer_of p w)"
    by (simp add: peer_of_def fields close_broadcaster_def close_peer_def with_peer_def base split: option.splits)
qed

text \<open>The STOP of a broadcast goes where its peer belongs.\<close>

lemma inv_stop_signal:
  assumes "share_inv w" "\<And>p. pc = Some p \<Longrightarrow> peer_exists p w \<and> sid = pr_server (peer_of p w)"
  shows "share_inv (broadcastSignal pc SigStop sid (forget_own_broadcast own (stopBroadcasting w)))"
  unfolding broadcastSignal_def
  by (rule inv_send) (use assms known_after_stop inv_stopBroadcasting in \<open>auto simp: inv_forget_own_broadcast\<close>)

lemma inv_broadcast_failed: "share_inv w \<Longrightarrow> peer_exists pc w \<Longrightarrow> share_inv (broadcast_failed pc w)"
  by (auto simp: broadcast_failed_def Let_def inv_forget_own_broadcast inv_stopBroadcasting intro!: inv_stop_signal)

lemma inv_report: "share_inv w \<Longrightarrow> share_inv (report pc r w)"
  by (simp add: report_def inv_connection)

lemma report_fields [simp]:
  "viewerPcs (report pc r w) = viewerPcs w" "broadcasterPc (report pc r w) = broadcasterPc w"
  by (simp_all add: report_def)

lemma inv_onBroadcasterState: "share_inv w \<Longrightarrow> share_inv (onBroadcasterState pc r w)"
  using inv_report [of w pc r] broadcaster_known [of "report pc r w" pc]
  by (auto simp: onBroadcasterState_def Let_def inv_broadcast_failed split: connection_report.splits)

lemma inv_broadcaster_timeout:
  assumes "share_inv w"
  shows "share_inv (broadcaster_timeout w)"
proof (cases "broadcasterIceTimeout w")
  case (Some pc)
  let ?w = "w\<lparr>broadcasterIceTimeout := None\<rparr>"
  show ?thesis
  proof (cases "broadcasterPc w \<noteq> Some pc \<or> pr_connected (peer_of pc w)")
    case False
    then have bc: "broadcasterPc ?w = Some pc" by simp
    have stop: "stopBroadcasting (close_peer pc ?w) = stopBroadcasting ?w"
      using bc by (simp add: stopBroadcasting_def stop_capture_def close_broadcaster_def close_peer_def with_peer_def peer_of_def
          map_set_set split: option.splits)
    have "peer_exists pc ?w" "share_inv ?w" using broadcaster_known [of ?w pc] bc assms by auto
    then have "share_inv (broadcast_failed pc ?w)" by (intro inv_broadcast_failed)
    then show ?thesis using Some False stop
      by (auto simp: broadcaster_timeout_def broadcast_failed_def close_peer_view Let_def split: if_splits)
  qed (use assms Some in \<open>auto simp: broadcaster_timeout_def\<close>)
qed (use assms in \<open>simp add: broadcaster_timeout_def\<close>)


lemma inv_onViewerState:
  assumes "share_inv w"
  shows "share_inv (onViewerState s pc r w)"
proof -
  have w0: "share_inv (report pc r w)" using assms by (rule inv_report)
  show ?thesis
  proof (cases "map_get (viewerPcs w) s")
    case (Some v)
    have "share_inv ((report pc r w)\<lparr>viewerPcs := map_set s (v\<lparr>vw_timeout := False\<rparr>) (viewerPcs w)\<rparr>)"
      using inv_update_viewer [OF w0, of s v "v\<lparr>vw_timeout := False\<rparr>"] Some by simp
    then show ?thesis using w0 Some by (auto simp: onViewerState_def Let_def inv_fallbackViewer inv_closeViewer)
  qed (use w0 in \<open>simp add: onViewerState_def\<close>)
qed

lemma inv_signals:
  assumes "share_inv w"
  shows "share_inv (onBroadcasterCandidate c w)" "share_inv (onViewerCandidate s c w)" "share_inv (announce_again b w)"
  using assms broadcaster_known viewer_known
  by (auto simp: onBroadcasterCandidate_def onViewerCandidate_def announce_again_def broadcastSignal_def intro!: inv_send
      split: option.splits)

lemma inv_resolved:
  assumes "share_inv w"
  shows "share_inv (resolved t sdp w)"
proof (cases t)
  case (Capturing own)
  then show ?thesis using assms
    by (auto simp: captured_def Let_def broadcastSignal_def intro!: inv_connectBroadcaster inv_send)
next
  case (BcSettingLocal pc epoch stream offer)
  have w1: "share_inv (set_signaling pc HaveLocalOffer w)" using assms by (simp add: inv_set_signaling)
  have "broadcasterPc w = Some pc \<Longrightarrow> peer_exists pc (set_signaling pc HaveLocalOffer w)
      \<and> pr_server (peer_of pc w) = pr_server (peer_of pc (set_signaling pc HaveLocalOffer w))"
    using broadcaster_known [OF assms] by (simp add: set_signaling_def)
  then show ?thesis using w1 BcSettingLocal by (auto simp: Let_def intro!: inv_send)
next
  case (VwSettingLocal s pc offer)
  have w1: "share_inv (set_signaling pc HaveLocalOffer w)" using assms by (simp add: inv_set_signaling)
  have "viewer_is s pc w \<Longrightarrow> peer_exists pc (set_signaling pc HaveLocalOffer w)
      \<and> pr_server (peer_of pc w) = pr_server (peer_of pc (set_signaling pc HaveLocalOffer w))"
    using viewer_known [OF assms] by (auto simp: set_signaling_def viewer_is_def)
  then show ?thesis using w1 VwSettingLocal by (auto simp: Let_def intro!: inv_send)
next
  case (VwSettingDirect s pc answer)
  have w1: "share_inv (set_signaling pc Stable w)" using assms by (simp add: inv_set_signaling)
  have "viewer_is s pc w \<Longrightarrow> peer_exists pc (set_signaling pc Stable w)
      \<and> pr_server (peer_of pc w) = pr_server (peer_of pc (set_signaling pc Stable w))"
    using viewer_known [OF assms] by (auto simp: set_signaling_def viewer_is_def)
  then show ?thesis using w1 VwSettingDirect by (auto simp: Let_def intro!: inv_send)
qed (use assms in \<open>auto simp: Let_def inv_set_signaling inv_flushViewerIce inv_flushBroadcasterIce\<close>)

lemma inv_rejected: "share_inv w \<Longrightarrow> share_inv (rejected t e w)"
  by (cases t) (simp_all add: inv_fallbackViewer)

lemma inv_handleSignal:
  assumes "share_inv w"
  shows "share_inv (handleSignal js sender ty payload sid w)"
proof -
  define w' where "w' = (if ty = SigStart then rememberTransport (js_transport js) sender sid payload w
    else if ty = SigStop then w\<lparr>broadcastTransports := map_del (sid, sender) (broadcastTransports w)\<rparr> else w)"
  have inv: "share_inv w'" and viewers: "viewerPcs w' = viewerPcs w" using assms by (simp_all add: w'_def rememberTransport_def)
  have "share_inv (answer_other sid w')" using inv by (simp add: answer_other_def split: option.splits)
  then have "share_inv (routeSdpAnswer sender sid w')" using inv by (simp add: routeSdpAnswer_def split: option.splits)
  moreover have ice: "share_inv (ice_to_viewer sender c sid w')" for c
    using inv by (auto simp: ice_to_viewer_def intro: inv_viewer_ice split: option.splits)
  then have "share_inv (routeIceCandidate js sender payload sid w')"
    using inv broadcaster_known by (auto simp: routeIceCandidate_def intro!: inv_add_ice split: option.splits)
  moreover have "share_inv (onStop sender sid w')" using inv by (simp add: onStop_def Let_def inv_closeViewer)
  moreover have "share_inv (direct_signal js sender v ty payload w')" if "map_get (viewerPcs w) sender = Some v" for v
    using inv that viewers
    by (auto simp: direct_signal_def intro!: inv_acceptDirectOffer inv_fallbackViewer inv_viewer_ice split: signal_type.splits option.splits)
  ultimately show ?thesis using inv unfolding handleSignal_def Let_def w'_def [symmetric]
    by (auto split: option.splits signal_type.splits)
qed

lemma inv_closeAllViewers:
  assumes "share_inv w"
  shows "share_inv (closeAllViewers w)"
proof -
  have fold: "share_inv (foldl (\<lambda>w s. closeViewer s w) w ks)" if "share_inv w" for ks w
    using that by (induction ks arbitrary: w) (simp_all add: inv_closeViewer)
  have get: "map_get (viewerPcs (foldl (\<lambda>w s. closeViewer s w) w ks)) k = (if k \<in> set ks then None else map_get (viewerPcs w) k)" for ks w k
    by (induction ks arbitrary: w) (auto simp: viewers_closeViewer)
  let ?w = "foldl (\<lambda>w s. closeViewer s w) w (map_keys (viewerPcs w))"
  have none: "k \<notin> fst ` set (viewerPcs ?w)" for k
    using get [where ks = "map_keys (viewerPcs w)" and w = w and k = k] by (simp add: map_keys_def map_get_None_iff [symmetric] split: if_splits)
  have "viewerPcs ?w = []"
  proof (cases "viewerPcs ?w")
    case (Cons x xs)
    then show ?thesis using none [of "fst x"] by simp
  qed
  then have "?w\<lparr>viewerPcs := []\<rparr> = ?w" by simp
  then show ?thesis using fold [OF assms, of "map_keys (viewerPcs w)"] by (simp add: closeAllViewers_def)
qed

lemma inv_auto_connect:
  assumes "share_inv w"
  shows "share_inv (auto_connect w)"
proof -
  have a: "share_inv (foldl (\<lambda>w s. if Some s \<noteq> sw_ownSession w then startWatching s False None w else w) w ss)" if "share_inv w" for ss w
    using that by (induction ss arbitrary: w) (simp_all add: inv_startWatching)
  have b: "share_inv (foldl (\<lambda>w2 (s, v). if P s v then closeViewer s w2 else w2) w2 vs)" if "share_inv w2" for P w2 vs
    using that by (induction vs arbitrary: w2) (auto simp: inv_closeViewer)
  show ?thesis unfolding auto_connect_def Let_def using assms by (auto intro!: a b)
qed

lemma share_inv_step: "share_inv w \<Longrightarrow> share_inv (share_step js w e)"
proof (cases e)
  case StopSharing
  assume w: "share_inv w"
  show ?thesis using StopSharing w broadcaster_known [OF w]
    by (auto simp: stopSharing_def Let_def inv_stopBroadcasting inv_forget_own_broadcast intro!: inv_stop_signal)
next
  case (TrackEnded stream)
  assume w: "share_inv w"
  have "share_inv (w\<lparr>sw_live := l\<rparr>)" "\<And>p. broadcasterPc w = Some p \<Longrightarrow> peer_exists p (w\<lparr>sw_live := l\<rparr>) \<and> broadcasterServerId w = pr_server (peer_of p (w\<lparr>sw_live := l\<rparr>))" for l
    using w broadcaster_known [OF w] by (simp_all add: peer_exists_def peer_of_def)
  then show ?thesis using TrackEnded by (auto simp: track_ended_def Let_def intro!: inv_stop_signal)
qed (auto simp: startSharing_def watchBroadcast_def stopWatching_def inv_startWatching inv_resolved inv_rejected
    inv_onBroadcasterState inv_broadcaster_timeout inv_signals inv_onViewerState viewer_timeout_def inv_fallbackViewer onTrack_def
    inv_handleSignal restore_snapshot_def inv_auto_connect no_session_cleanup_def inv_closeAllViewers inv_stopBroadcasting ice_rejected_def Let_def
    intro!: inv_update_viewer split: option.splits)

interpretation share: event_machine "share_step js" share_inv for js
  by unfold_locales (rule share_inv_step)


section \<open>Properties\<close>

definition share_run :: "share_json \<Rightarrow> share_event list \<Rightarrow> share_world" where
  "share_run js es = foldl (share_step js) share_initial es"

lemma share_run_inv: "share_inv (share_run js es)"
  unfolding share_run_def by (rule share.run_inv) (rule share_inv_initial)

text \<open>
  C3: No peer connection is left behind: after any events, whatever order promises, reports, timers and
  signals come in, every peer connection that is still open is the one of the broadcast or of exactly
  one viewer, and those are all open.
\<close>

theorem no_peer_leaks:
  assumes "w = share_run js es"
  shows "(open_peer i w \<longrightarrow> broadcasterPc w = Some i \<or> (\<exists>!s. map_option vw_pc (map_get (viewerPcs w) s) = Some i))
    \<and> (broadcasterPc w = Some i \<or> map_option vw_pc (map_get (viewerPcs w) s) = Some i \<longrightarrow> open_peer i w)"
proof -
  have inv: "share_inv w" using share_run_inv assms by simp
  have "\<exists>!s. map_option vw_pc (map_get (viewerPcs w) s) = Some i" if o: "open_peer i w" "broadcasterPc w \<noteq> Some i"
  proof -
    obtain s v where v: "map_get (viewerPcs w) s = Some v" "vw_pc v = i" using inv o by (auto simp: share_inv_def owned_def)
    show ?thesis
    proof (rule ex1I [of _ s])
      fix s' assume "map_option vw_pc (map_get (viewerPcs w) s') = Some i"
      then show "s' = s" using inv v by (auto simp: share_inv_def viewers_ok_def)
    qed (simp add: v)
  qed
  then show ?thesis using viewer_known [OF inv] broadcaster_known [OF inv] by auto
qed

definition example_json :: share_json where
  "example_json = \<lparr>js_transport = (\<lambda>t. if t = ''p2p'' then Some \<lparr>bt_p2p = True, bt_sfuAvailable = True\<rparr> else None),
     js_candidate = (\<lambda>t. Some (Some t))\<rparr>"

definition direct_failure :: "share_event list" where
  "direct_failure = [SwitchTab (Some ''A'') (Some 5) (Some 1), ServerConfig True True, SignalIn 9 SigStart ''p2p'' (Some ''A''),
     AutoConnect, ViewerTimeout 9 0]"

lemmas share_eval = share_run_def share_initial_def handleSignal_def rememberTransport_def is_direct_def auto_connect_def truthy_session_def
  startWatching_def create_peer_def viewer_timeout_def fallbackViewer_def closeViewer_def close_peer_def with_peer_def peer_of_def new_peer_def
  sendSignal_def start_task_def map_has_def map_del_def set_add_def open_peer_def startSharing_def captured_def broadcastSignal_def connectBroadcasterToServer_def
  close_broadcaster_def stopSharing_def stopBroadcasting_def stop_capture_def forget_own_broadcast_def set_remove_def showWebRtcError_def
  no_session_cleanup_def closeAllViewers_def map_keys_def Let_def

theorem no_peer_leaks_witness:
  "\<not> open_peer 0 (share_run example_json direct_failure) \<and> open_peer 1 (share_run example_json direct_failure)
    \<and> (\<exists>!s. map_option vw_pc (map_get (viewerPcs (share_run example_json direct_failure)) s) = Some 1)"
  using no_peer_leaks [OF refl, of 1 example_json direct_failure]
  by (simp add: direct_failure_def example_json_def share_eval)

text \<open>
  C4: A signal that belongs to a peer connection is sent through the server connection the peer was made
  for, whichever tab is in front when it is sent; this includes candidates found late, the end of a
  broadcast and leaving a direct connection.
\<close>

theorem signals_stay_on_their_connection:
  assumes "w = share_run js es" "g \<in> set (sw_sent w)" "ss_peer g = Some p"
  shows "ss_server g = pr_server (peer_of p w)"
  using share_run_inv [of js es] assms by (auto simp: share_inv_def sent_ok_def)

theorem signals_stay_on_their_connection_witness:
  "\<exists>g \<in> set (sw_sent (share_run example_json (direct_failure @ [SwitchTab (Some ''B'') (Some 7) None, ViewerCandidate 9 ''c'']))).
     ss_type g = IceCandidate
     \<and> ss_server g = pr_server (peer_of 1 (share_run example_json (direct_failure @ [SwitchTab (Some ''B'') (Some 7) None, ViewerCandidate 9 ''c''])))
     \<and> ss_server g = Some ''A''"
proof -
  let ?w = "share_run example_json (direct_failure @ [SwitchTab (Some ''B'') (Some 7) None, ViewerCandidate 9 ''c''])"
  let ?g = "\<lparr>ss_server = Some ''A'', ss_target = 9, ss_type = IceCandidate, ss_payload = ''c'', ss_peer = Some 1\<rparr>"
  have g: "?g \<in> set (sw_sent ?w)" by (simp add: direct_failure_def example_json_def share_eval onViewerCandidate_def)
  show ?thesis using signals_stay_on_their_connection [OF refl g, of 1] g by (intro bexI [of _ ?g]) simp_all
qed

text \<open>
  A direct connection that fails is tried once more through the relay, over the same server, when
  the relay is there; a connection through the relay that fails is closed and not tried again.
\<close>

theorem fallback_happens_once:
  assumes "w = share_run js es" "map_get (viewerPcs w) s = Some v" "vw_pc v = pc"
  shows "if vw_transport v \<noteq> Sfu \<and> vw_sfuAvailable v
    then \<exists>v'. map_get (viewerPcs (fallbackViewer s pc w)) s = Some v' \<and> vw_transport v' = Sfu \<and> vw_serverId v' = vw_serverId v
           \<and> vw_pc v' \<noteq> pc \<and> map_get (viewerPcs (fallbackViewer s (vw_pc v') (fallbackViewer s pc w))) s = None
    else map_get (viewerPcs (fallbackViewer s pc w)) s = None"
proof -
  have closed: "map_get (viewerPcs (closeViewer s u)) s = None" for u by (simp add: viewers_closeViewer)
  have sfu: "map_get (viewerPcs (fallbackViewer s (vw_pc x) u)) s = None" if "map_get (viewerPcs u) s = Some x" "vw_transport x = Sfu" for x u
    using that closed by (simp add: fallbackViewer_def showWebRtcError_def Let_def)
  show ?thesis
  proof (cases "vw_transport v \<noteq> Sfu \<and> vw_sfuAvailable v")
    case True
    let ?w1 = "closeViewer s w"
    have "pc < sw_nextPeer w" using share_run_inv [of js es] viewer_known assms by (auto simp: share_inv_def)
    moreover have "sw_nextPeer ?w1 = sw_nextPeer w" using assms(2) by (simp add: closeViewer_def sendSignal_def Let_def)
    ultimately obtain v' where "map_get (viewerPcs (startWatching s True (Some (vw_serverId v)) ?w1)) s = Some v'"
      "vw_transport v' = Sfu" "vw_serverId v' = vw_serverId v" "vw_pc v' \<noteq> pc"
      using closed [of w] by (simp add: startWatching_def map_has_def create_peer_def start_task_def Let_def)
    moreover have "fallbackViewer s pc w = startWatching s True (Some (vw_serverId v)) ?w1"
      using True assms(2,3) by (simp add: fallbackViewer_def Let_def)
    ultimately show ?thesis using True sfu by auto
  next
    case False
    then show ?thesis using assms(2,3) closed by (auto simp: fallbackViewer_def showWebRtcError_def Let_def)
  qed
qed

definition direct_start :: "share_event list" where
  "direct_start = [SwitchTab (Some ''A'') (Some 5) (Some 1), ServerConfig True True, SignalIn 9 SigStart ''p2p'' (Some ''A''), AutoConnect]"

theorem fallback_happens_once_witness:
  "\<exists>v'. map_get (viewerPcs (fallbackViewer 9 0 (share_run example_json direct_start))) 9 = Some v' \<and> vw_transport v' = Sfu
    \<and> map_get (viewerPcs (fallbackViewer 9 (vw_pc v') (fallbackViewer 9 0 (share_run example_json direct_start)))) 9 = None"
proof -
  let ?v = "\<lparr>vw_pc = 0, vw_pendingIce = [], vw_hasStream = False, vw_serverId = Some ''A'', vw_transport = Pending,
    vw_sfuAvailable = True, vw_timeout = True\<rparr>"
  have "map_get (viewerPcs (share_run example_json direct_start)) 9 = Some ?v"
    by (simp add: direct_start_def example_json_def share_eval)
  from fallback_happens_once [OF refl this, of 0] show ?thesis by auto
qed


section \<open>Runs that show how the parts meet\<close>

text \<open>
  The check for a running capture comes before the picker, which a second click can open again: the
  first capture keeps running after the broadcast has been stopped.
\<close>

lemma second_capture_leaks:
  "let w = share_run example_json [SwitchTab (Some ''A'') (Some 5) (Some 1), StartSharing, StartSharing, Resolve 0 '''', Resolve 0 '''',
     StopSharing]
   in localStream w = None \<and> sw_live w = [0] \<and> \<not> isSharingOwn w"
  by (simp add: example_json_def share_eval)

text \<open>
  The server of a broadcast is the one in front when the picker closes, its session the one of the tab
  that asked: a switch of tabs between them announces the broadcast of one tab to the other.
\<close>

lemma share_on_other_tab:
  "let w = share_run example_json [SwitchTab (Some ''A'') (Some 5) (Some 1), StartSharing, SwitchTab (Some ''B'') (Some 7) (Some 2), Resolve 0 '''']
   in broadcasterServerId w = Some ''B'' \<and> broadcastingOwnSession w = Some 5 \<and> \<not> isBroadcasting w
     \<and> map (\<lambda>g. (ss_server g, ss_type g)) (sw_sent w) = [(Some ''B'', SigStart)]"
  by (simp add: example_json_def share_eval isBroadcasting_def)

text \<open>A connection that fails for good ends what is watched, also where that is another broadcast.\<close>

lemma failure_ends_other_watch:
  "let w = share_run example_json [SwitchTab (Some ''A'') (Some 5) (Some 1), SignalIn 9 SigStart '''' (Some ''A''),
       SignalIn 8 SigStart '''' (Some ''A''), AutoConnect, Watch 8];
       w' = share_step example_json w (ViewerTimeout 9 0)
   in watched_here w = Some 8 \<and> watched_here w' = None \<and> map_has (viewerPcs w') 8"
  by (simp add: example_json_def share_eval watched_here_def watchBroadcast_def)

text \<open>
  The effect for a lost session runs for the tab in front: where it runs in a tab without a session, it
  ends the broadcast of another tab, nobody is told, and the other tab still takes itself for
  broadcasting.
\<close>

lemma empty_tab_stops_broadcast:
  "let w = share_run example_json [SwitchTab (Some ''A'') (Some 5) (Some 1), StartSharing, Resolve 0 '''', SwitchTab None None None,
       NoSessionCleanup, SwitchTab (Some ''A'') (Some 5) (Some 1)]
   in localStream w = None \<and> isBroadcasting w \<and> map ss_type (sw_sent w) = [SigStart]"
  by (simp add: example_json_def share_eval isBroadcasting_def)

text \<open>Viewers are kept by session alone: the same number on another server is not watched.\<close>

lemma same_session_blocks_watch:
  "let w = share_run example_json [SwitchTab (Some ''A'') (Some 5) (Some 1), Watch 9, SwitchTab (Some ''B'') (Some 7) None, Watch 9]
   in watched_here w = Some 9 \<and> map_option vw_serverId (map_get (viewerPcs w) 9) = Some (Some ''A'')"
  by (simp add: example_json_def share_eval watched_here_def watchBroadcast_def)

end
