(* ===== verification/LiveDocMeta.thy ===== *)
theory LiveDocMeta
  imports Complex_Main AppTypes
begin

text \<open>
  What the users of a live document share beside its text, \<open>components/chat/livedoc/useLiveDoc.ts\<close>:
  title, page setup, decoration and the bands at the top and bottom of the pages, all kept in the one
  map \<open>meta\<close> of the document; and the connection of one user to the document.

  Every user writes to the map, so a value can be anything; a value \<open>undefined\<close> is as good as no value.
  A transaction is one step.  Numbers that are not finite are kept apart from the finite ones, which are
  rational.  A group of settings is read and written by functions with the laws of the locale
  \<open>shared_settings\<close>: reading depends on the group's own keys, and a patch changes what it names.
\<close>

section \<open>The shared map\<close>

datatype js_number = Finite rat | Infinite bool | NotANumber

datatype meta_value = MetaStr string | MetaNum js_number | MetaBool bool | MetaOther

type_synonym meta = "(string, meta_value) jmap"

definition is_str :: "meta_value option \<Rightarrow> string option" where
  "is_str v = (case v of Some (MetaStr s) \<Rightarrow> Some s | _ \<Rightarrow> None)"

definition is_true :: "meta_value option \<Rightarrow> bool" where
  "is_true v \<longleftrightarrow> v = Some (MetaBool True)"

text \<open>Writing a field of a patch that is there, and one that is not.\<close>

definition put_opt :: "string \<Rightarrow> meta_value option \<Rightarrow> meta \<Rightarrow> meta" where
  "put_opt k v m = (case v of None \<Rightarrow> m | Some x \<Rightarrow> map_set k x m)"

lemma get_put_opt [simp]: "map_get (put_opt k v m) j = (if j = k then or_opt v (map_get m k) else map_get m j)"
  by (simp add: put_opt_def or_opt_def split: option.split)

section \<open>Settings of a document\<close>

locale shared_settings =
  fixes fetch :: "meta \<Rightarrow> 's"
    and patch :: "'p \<Rightarrow> meta \<Rightarrow> meta"
    and keys :: "string list"
    and stored :: "meta \<Rightarrow> 'v"
    and resolve :: "'v \<Rightarrow> 's"
    and override :: "'p \<Rightarrow> 'v \<Rightarrow> 'v"
  assumes fetch_stored: "fetch m = resolve (stored m)"
    and stored_patch: "stored (patch p m) = override p (stored m)"
    and stored_local: "(\<And>k. k \<in> set keys \<Longrightarrow> map_get m k = map_get m' k) \<Longrightarrow> stored m = stored m'"
    and patch_local: "k \<notin> set keys \<Longrightarrow> map_get (patch p m) k = map_get m k"
begin

lemma fetch_patch: "fetch (patch p m) = resolve (override p (stored m))"
  by (simp add: fetch_stored stored_patch)

lemma patches: "stored (foldl (\<lambda>m p. patch p m) m ps) = foldl (\<lambda>v p. override p v) (stored m) ps"
  by (induction ps arbitrary: m) (simp_all add: stored_patch)

lemma fetch_foreign: "(\<And>k. k \<in> set keys \<Longrightarrow> map_get m' k = map_get m k) \<Longrightarrow> fetch m' = fetch m"
  using stored_local [of m' m] by (simp add: fetch_stored)

lemma patches_local: "k \<notin> set keys \<Longrightarrow> map_get (foldl (\<lambda>m p. patch p m) m ps) k = map_get m k"
  by (induction ps arbitrary: m) (simp_all add: patch_local)

end

section \<open>Title\<close>

definition readTitle :: "string \<Rightarrow> meta \<Rightarrow> string" where
  "readTitle fallback m =
     (case is_str (map_get m ''title'') of
        Some t \<Rightarrow> if trim t \<noteq> '''' then t else fallback
      | None \<Rightarrow> fallback)"

definition setLiveDocTitle :: "string \<Rightarrow> meta \<Rightarrow> meta" where
  "setLiveDocTitle title m = (let trimmed = trim title in if trimmed \<noteq> '''' then map_set ''title'' (MetaStr trimmed) m else m)"

section \<open>Page setup\<close>

datatype page_size = A4 | Letter | Legal
datatype orientation = Portrait | Landscape
datatype page_margin = NormalMargin | Narrow | Moderate | Wide | Mirrored
datatype ruler_unit = Cm | Inch
datatype page_columns = One | Two | Three

record page_setup =
  ps_size :: page_size
  ps_orientation :: orientation
  ps_margin :: page_margin
  ps_marginX :: "rat option"
  ps_marginY :: "rat option"
  ps_rulerUnit :: ruler_unit
  ps_columns :: "page_columns option"

definition defaultRulerUnit :: "page_size \<Rightarrow> ruler_unit" where
  "defaultRulerUnit sz = (if sz = A4 then Cm else Inch)"

definition DEFAULT_PAGE_SETUP :: page_setup where
  "DEFAULT_PAGE_SETUP =
     \<lparr>ps_size = A4, ps_orientation = Portrait, ps_margin = NormalMargin, ps_marginX = None, ps_marginY = None,
      ps_rulerUnit = defaultRulerUnit A4, ps_columns = None\<rparr>"

fun PAGE_PX :: "page_size \<Rightarrow> rat \<times> rat" where
  "PAGE_PX A4 = (794, 1123)"
| "PAGE_PX Letter = (816, 1056)"
| "PAGE_PX Legal = (816, 1344)"

fun MARGIN_PX :: "page_margin \<Rightarrow> rat \<times> rat" where
  "MARGIN_PX NormalMargin = (96, 96)"
| "MARGIN_PX Narrow = (48, 48)"
| "MARGIN_PX Moderate = (72, 96)"
| "MARGIN_PX Wide = (192, 96)"
| "MARGIN_PX Mirrored = (120, 96)"

fun size_name :: "page_size \<Rightarrow> string" where
  "size_name A4 = ''a4''"
| "size_name Letter = ''letter''"
| "size_name Legal = ''legal''"

fun margin_name :: "page_margin \<Rightarrow> string" where
  "margin_name NormalMargin = ''normal''"
| "margin_name Narrow = ''narrow''"
| "margin_name Moderate = ''moderate''"
| "margin_name Wide = ''wide''"
| "margin_name Mirrored = ''mirrored''"

fun unit_name :: "ruler_unit \<Rightarrow> string" where
  "unit_name Cm = ''cm''"
| "unit_name Inch = ''in''"

fun orientation_name :: "orientation \<Rightarrow> string" where
  "orientation_name Portrait = ''portrait''"
| "orientation_name Landscape = ''landscape''"

fun columns_number :: "page_columns \<Rightarrow> rat" where
  "columns_number One = 1"
| "columns_number Two = 2"
| "columns_number Three = 3"

text \<open>The guards of the code give the value they accept.\<close>

definition isPageSize :: "meta_value option \<Rightarrow> page_size option" where
  "isPageSize v = List.find (\<lambda>s. v = Some (MetaStr (size_name s))) [A4, Letter, Legal]"

definition isPageMargin :: "meta_value option \<Rightarrow> page_margin option" where
  "isPageMargin v = List.find (\<lambda>s. v = Some (MetaStr (margin_name s))) [NormalMargin, Narrow, Moderate, Wide, Mirrored]"

definition margin_px :: "js_number \<Rightarrow> rat option" where
  "margin_px n = (case n of Finite q \<Rightarrow> if 0 \<le> q then Some q else None | _ \<Rightarrow> None)"

definition isMarginPx :: "meta_value option \<Rightarrow> rat option" where
  "isMarginPx v = (case v of Some (MetaNum n) \<Rightarrow> margin_px n | _ \<Rightarrow> None)"

definition isRulerUnit :: "meta_value option \<Rightarrow> ruler_unit option" where
  "isRulerUnit v = List.find (\<lambda>s. v = Some (MetaStr (unit_name s))) [Cm, Inch]"

definition isPageColumns :: "meta_value option \<Rightarrow> page_columns option" where
  "isPageColumns v = List.find (\<lambda>s. v = Some (MetaNum (Finite (columns_number s)))) [One, Two, Three]"

definition readPageSetup :: "meta option \<Rightarrow> page_setup" where
  "readPageSetup doc =
     (case doc of
        None \<Rightarrow> DEFAULT_PAGE_SETUP
      | Some m \<Rightarrow>
          (let resolvedSize = or_else (isPageSize (map_get m ''pageSize'')) (ps_size DEFAULT_PAGE_SETUP)
           in \<lparr>ps_size = resolvedSize,
               ps_orientation = (if map_get m ''pageOrientation'' = Some (MetaStr ''landscape'') then Landscape else Portrait),
               ps_margin = or_else (isPageMargin (map_get m ''pageMargin'')) (ps_margin DEFAULT_PAGE_SETUP),
               ps_marginX = isMarginPx (map_get m ''pageMarginX''),
               ps_marginY = isMarginPx (map_get m ''pageMarginY''),
               ps_rulerUnit = or_else (isRulerUnit (map_get m ''pageRulerUnit'')) (defaultRulerUnit resolvedSize),
               ps_columns = isPageColumns (map_get m ''pageColumns'')\<rparr>))"

record page_patch =
  pp_size :: "page_size option"
  pp_orientation :: "orientation option"
  pp_margin :: "page_margin option"
  pp_marginX :: "js_number option"
  pp_marginY :: "js_number option"
  pp_rulerUnit :: "ruler_unit option"
  pp_columns :: "page_columns option"

definition set_margin_px :: "string \<Rightarrow> js_number option \<Rightarrow> meta \<Rightarrow> meta" where
  "set_margin_px k n m = put_opt k (map_option (\<lambda>q. MetaNum (Finite q)) (Option.bind n margin_px)) m"

definition setLiveDocPageSetup :: "page_patch \<Rightarrow> meta \<Rightarrow> meta" where
  "setLiveDocPageSetup p m =
     (let m1 = put_opt ''pageSize'' (map_option (MetaStr \<circ> size_name) (pp_size p)) m;
          m2 = put_opt ''pageOrientation'' (map_option (MetaStr \<circ> orientation_name) (pp_orientation p)) m1;
          m3 = (case pp_margin p of
                  None \<Rightarrow> m2
                | Some g \<Rightarrow> map_del ''pageMarginY'' (map_del ''pageMarginX'' (map_set ''pageMargin'' (MetaStr (margin_name g)) m2)));
          m4 = set_margin_px ''pageMarginY'' (pp_marginY p) (set_margin_px ''pageMarginX'' (pp_marginX p) m3);
          m5 = put_opt ''pageRulerUnit'' (map_option (MetaStr \<circ> unit_name) (pp_rulerUnit p)) m4
      in case pp_columns p of
           None \<Rightarrow> m5
         | Some One \<Rightarrow> map_del ''pageColumns'' m5
         | Some c \<Rightarrow> map_set ''pageColumns'' (MetaNum (Finite (columns_number c))) m5)"

definition resolveMarginsPx :: "page_setup \<Rightarrow> rat \<times> rat" where
  "resolveMarginsPx s =
     (or_else (ps_marginX s) (fst (MARGIN_PX (ps_margin s))), or_else (ps_marginY s) (snd (MARGIN_PX (ps_margin s))))"

record page_geometry =
  pg_width :: rat
  pg_height :: rat
  pg_marginX :: rat
  pg_marginY :: rat

definition pageGeometryPx :: "page_setup \<Rightarrow> page_geometry" where
  "pageGeometryPx s =
     (let (w, h) = PAGE_PX (ps_size s); portrait = (ps_orientation s = Portrait); (x, y) = resolveMarginsPx s
      in \<lparr>pg_width = (if portrait then w else h), pg_height = (if portrait then h else w), pg_marginX = x, pg_marginY = y\<rparr>)"

text \<open>What is stored of a page setup, and what a patch does to it.\<close>

record page_stored =
  st_size :: "page_size option"
  st_landscape :: bool
  st_margin :: "page_margin option"
  st_marginX :: "rat option"
  st_marginY :: "rat option"
  st_rulerUnit :: "ruler_unit option"
  st_columns :: "page_columns option"

definition page_keys :: "string list" where
  "page_keys = [''pageSize'', ''pageOrientation'', ''pageMargin'', ''pageMarginX'', ''pageMarginY'', ''pageRulerUnit'', ''pageColumns'']"

definition page_view :: "meta \<Rightarrow> page_stored" where
  "page_view m =
     \<lparr>st_size = isPageSize (map_get m ''pageSize''), st_landscape = (map_get m ''pageOrientation'' = Some (MetaStr ''landscape'')),
      st_margin = isPageMargin (map_get m ''pageMargin''), st_marginX = isMarginPx (map_get m ''pageMarginX''),
      st_marginY = isMarginPx (map_get m ''pageMarginY''), st_rulerUnit = isRulerUnit (map_get m ''pageRulerUnit''),
      st_columns = isPageColumns (map_get m ''pageColumns'')\<rparr>"

definition page_resolve :: "page_stored \<Rightarrow> page_setup" where
  "page_resolve v =
     \<lparr>ps_size = or_else (st_size v) A4, ps_orientation = (if st_landscape v then Landscape else Portrait),
      ps_margin = or_else (st_margin v) NormalMargin, ps_marginX = st_marginX v, ps_marginY = st_marginY v,
      ps_rulerUnit = or_else (st_rulerUnit v) (defaultRulerUnit (or_else (st_size v) A4)), ps_columns = st_columns v\<rparr>"

definition custom_margin :: "page_patch \<Rightarrow> js_number option \<Rightarrow> rat option \<Rightarrow> rat option" where
  "custom_margin p n old = or_opt (Option.bind n margin_px) (if pp_margin p = None then old else None)"

definition page_override :: "page_patch \<Rightarrow> page_stored \<Rightarrow> page_stored" where
  "page_override p v =
     \<lparr>st_size = or_opt (pp_size p) (st_size v),
      st_landscape = (case pp_orientation p of None \<Rightarrow> st_landscape v | Some o1 \<Rightarrow> o1 = Landscape),
      st_margin = or_opt (pp_margin p) (st_margin v),
      st_marginX = custom_margin p (pp_marginX p) (st_marginX v),
      st_marginY = custom_margin p (pp_marginY p) (st_marginY v),
      st_rulerUnit = or_opt (pp_rulerUnit p) (st_rulerUnit v),
      st_columns = (case pp_columns p of None \<Rightarrow> st_columns v | Some One \<Rightarrow> None | Some c \<Rightarrow> Some c)\<rparr>"

lemma guards_accept [simp]:
  "isPageSize (Some (MetaStr (size_name s))) = Some s"
  "isPageMargin (Some (MetaStr (margin_name g))) = Some g"
  "isRulerUnit (Some (MetaStr (unit_name u))) = Some u"
  "isPageColumns (Some (MetaNum (Finite (columns_number c)))) = Some c"
proof -
  show "isPageSize (Some (MetaStr (size_name s))) = Some s" by (cases s) (simp_all add: isPageSize_def)
  show "isPageMargin (Some (MetaStr (margin_name g))) = Some g" by (cases g) (simp_all add: isPageMargin_def)
  show "isRulerUnit (Some (MetaStr (unit_name u))) = Some u" by (cases u) (simp_all add: isRulerUnit_def)
  show "isPageColumns (Some (MetaNum (Finite (columns_number c)))) = Some c" by (cases c) (simp_all add: isPageColumns_def)
qed

lemma guards_absent [simp]: "isPageColumns None = None" "isMarginPx None = None"
  by (simp_all add: isPageColumns_def isMarginPx_def)

lemma margin_px_ge: "margin_px n = Some q \<Longrightarrow> 0 \<le> q"
  by (auto simp: margin_px_def split: js_number.splits if_splits)

lemma isMarginPx_px [simp]: "margin_px n = Some q \<Longrightarrow> isMarginPx (Some (MetaNum (Finite q))) = Some q"
  using margin_px_ge [of n q] by (simp add: isMarginPx_def margin_px_def)

lemma page_patch_get:
  "map_get (setLiveDocPageSetup p m) ''pageSize'' = or_opt (map_option (MetaStr \<circ> size_name) (pp_size p)) (map_get m ''pageSize'')"
  "map_get (setLiveDocPageSetup p m) ''pageOrientation'' =
     or_opt (map_option (MetaStr \<circ> orientation_name) (pp_orientation p)) (map_get m ''pageOrientation'')"
  "map_get (setLiveDocPageSetup p m) ''pageMargin'' = or_opt (map_option (MetaStr \<circ> margin_name) (pp_margin p)) (map_get m ''pageMargin'')"
  "map_get (setLiveDocPageSetup p m) ''pageMarginX'' =
     or_opt (map_option (\<lambda>q. MetaNum (Finite q)) (Option.bind (pp_marginX p) margin_px))
       (if pp_margin p = None then map_get m ''pageMarginX'' else None)"
  "map_get (setLiveDocPageSetup p m) ''pageMarginY'' =
     or_opt (map_option (\<lambda>q. MetaNum (Finite q)) (Option.bind (pp_marginY p) margin_px))
       (if pp_margin p = None then map_get m ''pageMarginY'' else None)"
  "map_get (setLiveDocPageSetup p m) ''pageRulerUnit'' = or_opt (map_option (MetaStr \<circ> unit_name) (pp_rulerUnit p)) (map_get m ''pageRulerUnit'')"
  "map_get (setLiveDocPageSetup p m) ''pageColumns'' =
     (case pp_columns p of None \<Rightarrow> map_get m ''pageColumns'' | Some One \<Rightarrow> None | Some c \<Rightarrow> Some (MetaNum (Finite (columns_number c))))"
  by (simp_all add: setLiveDocPageSetup_def set_margin_px_def Let_def split: option.split page_columns.split)

lemma columns_accepted [simp]:
  "isPageColumns (Some (MetaNum (Finite 2))) = Some Two" "isPageColumns (Some (MetaNum (Finite 3))) = Some Three"
  using guards_accept(4) [of Two] guards_accept(4) [of Three] by simp_all

text \<open>A guard reads what a patch wrote, and else what it read before.\<close>

lemma guard_after_patch:
  "(\<And>x. f (Some (g x)) = Some x) \<Longrightarrow> f (or_opt (map_option g a) b) = or_opt a (f b)"
  "(\<And>x. a = Some x \<Longrightarrow> f (Some (g x)) = Some x) \<Longrightarrow> f (or_opt (map_option g a) b) = or_opt a (f b)"
  by (cases a; simp)+

lemma margin_after_patch:
  "isMarginPx (or_opt (map_option (\<lambda>q. MetaNum (Finite q)) (Option.bind n margin_px)) b) = or_opt (Option.bind n margin_px) (isMarginPx b)"
  by (rule guard_after_patch(2)) (auto simp: bind_eq_Some_conv)

lemma landscape_name [simp]: "orientation_name o1 = ''landscape'' \<longleftrightarrow> o1 = Landscape"
  by (cases o1) simp_all

interpretation page: shared_settings "\<lambda>m. readPageSetup (Some m)" setLiveDocPageSetup page_keys page_view page_resolve page_override
proof
  fix m m' :: meta and p k
  show "readPageSetup (Some m) = page_resolve (page_view m)"
    by (simp add: readPageSetup_def page_resolve_def page_view_def Let_def DEFAULT_PAGE_SETUP_def)
  show "page_view m = page_view m'" if "\<And>k. k \<in> set page_keys \<Longrightarrow> map_get m k = map_get m' k"
    using that by (simp add: page_view_def page_keys_def)
  show "map_get (setLiveDocPageSetup p m) k = map_get m k" if "k \<notin> set page_keys"
    using that by (simp add: setLiveDocPageSetup_def page_keys_def set_margin_px_def Let_def split: option.split page_columns.split)
  show "page_view (setLiveDocPageSetup p m) = page_override p (page_view m)"
    by (simp add: page_view_def page_override_def page_patch_get guard_after_patch(1) margin_after_patch custom_margin_def o_def
        split: option.split page_columns.split)
qed


section \<open>Decoration\<close>

datatype page_border = NoBorder | Thin | Medium

fun border_name :: "page_border \<Rightarrow> string" where
  "border_name NoBorder = ''none''"
| "border_name Thin = ''thin''"
| "border_name Medium = ''medium''"

record decoration =
  de_border :: page_border
  de_watermark :: string

definition DEFAULT_DECORATION :: decoration where
  "DEFAULT_DECORATION = \<lparr>de_border = NoBorder, de_watermark = ''''\<rparr>"

definition isPageBorder :: "meta_value option \<Rightarrow> page_border option" where
  "isPageBorder v = List.find (\<lambda>b. v = Some (MetaStr (border_name b))) [NoBorder, Thin, Medium]"

definition readDecoration :: "meta option \<Rightarrow> decoration" where
  "readDecoration doc =
     (case doc of
        None \<Rightarrow> DEFAULT_DECORATION
      | Some m \<Rightarrow> \<lparr>de_border = or_else (isPageBorder (map_get m ''pageBorder'')) (de_border DEFAULT_DECORATION),
                  de_watermark = or_else (is_str (map_get m ''watermark'')) (de_watermark DEFAULT_DECORATION)\<rparr>)"

record decoration_patch =
  dp_border :: "page_border option"
  dp_watermark :: "string option"

definition setLiveDocDecoration :: "decoration_patch \<Rightarrow> meta \<Rightarrow> meta" where
  "setLiveDocDecoration p m =
     put_opt ''watermark'' (map_option (\<lambda>w. MetaStr (take 80 w)) (dp_watermark p))
       (put_opt ''pageBorder'' (map_option (MetaStr \<circ> border_name) (dp_border p)) m)"

definition decoration_keys :: "string list" where
  "decoration_keys = [''pageBorder'', ''watermark'']"

definition decoration_override :: "decoration_patch \<Rightarrow> decoration \<Rightarrow> decoration" where
  "decoration_override p d =
     \<lparr>de_border = or_else (dp_border p) (de_border d), de_watermark = or_else (map_option (take 80) (dp_watermark p)) (de_watermark d)\<rparr>"

lemma border_accepted [simp]: "isPageBorder (Some (MetaStr (border_name b))) = Some b"
  by (cases b) (simp_all add: isPageBorder_def)

lemma str_accepted [simp]: "is_str (Some (MetaStr s)) = Some s" "is_str None = None"
  by (simp_all add: is_str_def)

lemma or_else_or_opt: "or_else (or_opt a b) c = or_else a (or_else b c)"
  by (cases a) simp_all

lemma str_after_patch: "is_str (or_opt (map_option (\<lambda>w. MetaStr (f w)) a) b) = or_opt (map_option f a) (is_str b)"
  by (cases a) simp_all

interpretation deco: shared_settings "\<lambda>m. readDecoration (Some m)" setLiveDocDecoration decoration_keys
  "\<lambda>m. readDecoration (Some m)" "\<lambda>d. d" decoration_override
  by unfold_locales
    (simp_all add: readDecoration_def setLiveDocDecoration_def decoration_override_def decoration_keys_def DEFAULT_DECORATION_def
      guard_after_patch(1) str_after_patch or_else_or_opt)

section \<open>Header, footer and page number\<close>

datatype band_style = Blank | ThreeColumns | Austin | Banded | Facet | Filigree | Grid | Integral
datatype page_number_style = PageOf | Page | Plain | Dash | Slashed | Roman

fun band_name :: "band_style \<Rightarrow> string" where
  "band_name Blank = ''blank''"
| "band_name ThreeColumns = ''threeColumns''"
| "band_name Austin = ''austin''"
| "band_name Banded = ''banded''"
| "band_name Facet = ''facet''"
| "band_name Filigree = ''filigree''"
| "band_name Grid = ''grid''"
| "band_name Integral = ''integral''"

fun number_style_name :: "page_number_style \<Rightarrow> string" where
  "number_style_name PageOf = ''page-of''"
| "number_style_name Page = ''page''"
| "number_style_name Plain = ''plain''"
| "number_style_name Dash = ''dash''"
| "number_style_name Slashed = ''slash''"
| "number_style_name Roman = ''roman''"

definition BAND_STYLES :: "band_style list" where
  "BAND_STYLES = [Blank, ThreeColumns, Austin, Banded, Facet, Filigree, Grid, Integral]"

definition PAGE_NUMBER_STYLES :: "page_number_style list" where
  "PAGE_NUMBER_STYLES = [PageOf, Page, Plain, Dash, Slashed, Roman]"

definition HEADER_FOOTER_MAX :: nat where
  "HEADER_FOOTER_MAX = 200"

record header_footer =
  hf_headerEnabled :: bool
  hf_footerEnabled :: bool
  hf_header :: string
  hf_footer :: string
  hf_showPageNumber :: bool
  hf_headerStyle :: band_style
  hf_footerStyle :: band_style
  hf_pageNumberStyle :: page_number_style

definition DEFAULT_HEADER_FOOTER :: header_footer where
  "DEFAULT_HEADER_FOOTER =
     \<lparr>hf_headerEnabled = False, hf_footerEnabled = False, hf_header = '''', hf_footer = '''', hf_showPageNumber = False,
      hf_headerStyle = Blank, hf_footerStyle = Blank, hf_pageNumberStyle = PageOf\<rparr>"

definition band_style_of :: "meta_value option \<Rightarrow> band_style option" where
  "band_style_of v = List.find (\<lambda>s. v = Some (MetaStr (band_name s))) BAND_STYLES"

definition readBandStyle :: "meta_value option \<Rightarrow> band_style \<Rightarrow> band_style" where
  "readBandStyle v fallback = or_else (band_style_of v) fallback"

definition number_style_of :: "meta_value option \<Rightarrow> page_number_style option" where
  "number_style_of v = List.find (\<lambda>s. v = Some (MetaStr (number_style_name s))) PAGE_NUMBER_STYLES"

definition band_flag :: "bool \<Rightarrow> meta_value option \<Rightarrow> bool" where
  "band_flag legacy v = (if v = None then legacy else is_true v)"

definition readHeaderFooter :: "meta option \<Rightarrow> header_footer" where
  "readHeaderFooter doc =
     (case doc of
        None \<Rightarrow> DEFAULT_HEADER_FOOTER
      | Some m \<Rightarrow>
          (let legacyEnabled = is_true (map_get m ''headerFooterEnabled'')
           in \<lparr>hf_headerEnabled = band_flag legacyEnabled (map_get m ''headerEnabled''),
               hf_footerEnabled = band_flag legacyEnabled (map_get m ''footerEnabled''),
               hf_header = or_else (is_str (map_get m ''headerText'')) (hf_header DEFAULT_HEADER_FOOTER),
               hf_footer = or_else (is_str (map_get m ''footerText'')) (hf_footer DEFAULT_HEADER_FOOTER),
               hf_showPageNumber = is_true (map_get m ''showPageNumber''),
               hf_headerStyle = readBandStyle (map_get m ''headerStyle'') (hf_headerStyle DEFAULT_HEADER_FOOTER),
               hf_footerStyle = readBandStyle (map_get m ''footerStyle'') (hf_footerStyle DEFAULT_HEADER_FOOTER),
               hf_pageNumberStyle = or_else (number_style_of (map_get m ''pageNumberStyle''))
                 (hf_pageNumberStyle DEFAULT_HEADER_FOOTER)\<rparr>))"

record header_footer_patch =
  hp_headerEnabled :: "bool option"
  hp_footerEnabled :: "bool option"
  hp_header :: "string option"
  hp_footer :: "string option"
  hp_showPageNumber :: "bool option"
  hp_headerStyle :: "band_style option"
  hp_footerStyle :: "band_style option"
  hp_pageNumberStyle :: "page_number_style option"

definition setLiveDocHeaderFooter :: "header_footer_patch \<Rightarrow> meta \<Rightarrow> meta" where
  "setLiveDocHeaderFooter p m =
     (let m1 = put_opt ''headerEnabled'' (map_option MetaBool (hp_headerEnabled p)) m;
          m2 = put_opt ''footerEnabled'' (map_option MetaBool (hp_footerEnabled p)) m1;
          m3 = put_opt ''headerText'' (map_option (\<lambda>s. MetaStr (take HEADER_FOOTER_MAX s)) (hp_header p)) m2;
          m4 = put_opt ''footerText'' (map_option (\<lambda>s. MetaStr (take HEADER_FOOTER_MAX s)) (hp_footer p)) m3;
          m5 = put_opt ''showPageNumber'' (map_option MetaBool (hp_showPageNumber p)) m4;
          m6 = put_opt ''headerStyle'' (map_option (MetaStr \<circ> band_name) (hp_headerStyle p)) m5;
          m7 = put_opt ''footerStyle'' (map_option (MetaStr \<circ> band_name) (hp_footerStyle p)) m6
      in put_opt ''pageNumberStyle'' (map_option (MetaStr \<circ> number_style_name) (hp_pageNumberStyle p)) m7)"

definition band_keys :: "string list" where
  "band_keys = [''headerFooterEnabled'', ''headerEnabled'', ''footerEnabled'', ''headerText'', ''footerText'', ''showPageNumber'',
     ''headerStyle'', ''footerStyle'', ''pageNumberStyle'']"

definition band_override :: "header_footer_patch \<Rightarrow> header_footer \<Rightarrow> header_footer" where
  "band_override p h =
     \<lparr>hf_headerEnabled = or_else (hp_headerEnabled p) (hf_headerEnabled h),
      hf_footerEnabled = or_else (hp_footerEnabled p) (hf_footerEnabled h),
      hf_header = or_else (map_option (take HEADER_FOOTER_MAX) (hp_header p)) (hf_header h),
      hf_footer = or_else (map_option (take HEADER_FOOTER_MAX) (hp_footer p)) (hf_footer h),
      hf_showPageNumber = or_else (hp_showPageNumber p) (hf_showPageNumber h),
      hf_headerStyle = or_else (hp_headerStyle p) (hf_headerStyle h),
      hf_footerStyle = or_else (hp_footerStyle p) (hf_footerStyle h),
      hf_pageNumberStyle = or_else (hp_pageNumberStyle p) (hf_pageNumberStyle h)\<rparr>"

lemma styles_accepted [simp]:
  "band_style_of (Some (MetaStr (band_name s))) = Some s" "number_style_of (Some (MetaStr (number_style_name n))) = Some n"
proof -
  show "band_style_of (Some (MetaStr (band_name s))) = Some s" by (cases s) (simp_all add: band_style_of_def BAND_STYLES_def)
  show "number_style_of (Some (MetaStr (number_style_name n))) = Some n"
    by (cases n) (simp_all add: number_style_of_def PAGE_NUMBER_STYLES_def)
qed

lemma flag_after_patch:
  "band_flag l (or_opt (map_option MetaBool a) b) = or_else a (band_flag l b)"
  "is_true (or_opt (map_option MetaBool a) b) = or_else a (is_true b)"
  by (cases a; simp add: band_flag_def is_true_def)+

lemma bands_after_patch:
  "readHeaderFooter (Some (setLiveDocHeaderFooter p m)) = band_override p (readHeaderFooter (Some m))"
  by (simp add: readHeaderFooter_def setLiveDocHeaderFooter_def band_override_def Let_def readBandStyle_def
      guard_after_patch(1) str_after_patch or_else_or_opt flag_after_patch)

interpretation bands: shared_settings "\<lambda>m. readHeaderFooter (Some m)" setLiveDocHeaderFooter band_keys
  "\<lambda>m. readHeaderFooter (Some m)" "\<lambda>h. h" band_override
  by unfold_locales
    (simp_all add: bands_after_patch, simp_all add: readHeaderFooter_def setLiveDocHeaderFooter_def band_keys_def Let_def)

interpretation caption: shared_settings "readTitle fb" setLiveDocTitle "[''title'']" "readTitle fb" "\<lambda>t. t"
  "\<lambda>p t. if trim p \<noteq> '''' then trim p else t" for fb
proof
  show "readTitle fb (setLiveDocTitle p m) = (if trim p \<noteq> '''' then trim p else readTitle fb m)" for p m
    by (simp add: readTitle_def setLiveDocTitle_def Let_def)
qed (simp_all add: readTitle_def setLiveDocTitle_def Let_def)

section \<open>Page numbers\<close>

definition ROMAN :: "(nat \<times> string) list" where
  "ROMAN = [(1000, ''m''), (900, ''cm''), (500, ''d''), (400, ''cd''), (100, ''c''), (90, ''xc''), (50, ''l''), (40, ''xl''),
     (10, ''x''), (9, ''ix''), (5, ''v''), (4, ''iv''), (1, ''i'')]"

text \<open>\<open>while (rem >= value)\<close>; the values of the table are positive.\<close>

fun take_value :: "nat \<Rightarrow> string \<Rightarrow> nat \<Rightarrow> string \<Rightarrow> nat \<times> string" where
  "take_value v sy rem out = (if 0 < v \<and> v \<le> rem then take_value v sy (rem - v) (out @ sy) else (rem, out))"

declare take_value.simps [simp del]

definition toRoman :: "int \<Rightarrow> string" where
  "toRoman n =
     (if n \<le> 0 then show_int n
      else snd (foldl (\<lambda>(rem, out) (v, sy). take_value v sy rem out) (nat n, '''') ROMAN))"

definition formatPageNumber :: "(string \<Rightarrow> int \<Rightarrow> int option \<Rightarrow> string) \<Rightarrow> page_number_style \<Rightarrow> int \<Rightarrow> int option \<Rightarrow> string" where
  "formatPageNumber t style pageNumber pageCount =
     (let totalPages = (case pageCount of Some c \<Rightarrow> if c > 0 then c else pageNumber | None \<Rightarrow> pageNumber)
      in case style of
           Plain \<Rightarrow> show_int pageNumber
         | Dash \<Rightarrow> ''- '' @ show_int pageNumber @ '' -''
         | Slashed \<Rightarrow> show_int pageNumber @ '' / '' @ show_int totalPages
         | Roman \<Rightarrow> toRoman pageNumber
         | Page \<Rightarrow> t ''liveDoc.headerFooter.pageNumber'' pageNumber None
         | PageOf \<Rightarrow>
             if totalPages > 1 then t ''liveDoc.headerFooter.pageNumberOf'' pageNumber (Some totalPages)
             else t ''liveDoc.headerFooter.pageNumber'' pageNumber None)"

section \<open>Connection\<close>

definition ws_proto :: "string \<Rightarrow> string" where
  "ws_proto wsUrl = (if starts_with wsUrl ''wss://'' then ''wss://'' else ''ws://'')"

definition wsBase :: "string \<Rightarrow> string" where
  "wsBase wsUrl =
     (let proto = ws_proto wsUrl; rest = drop (length proto) wsUrl
      in case index_of rest (CHR ''/'') of Some i \<Rightarrow> proto @ take i rest | None \<Rightarrow> wsUrl)"

definition wsPath :: "string \<Rightarrow> string" where
  "wsPath wsUrl =
     (let proto = ws_proto wsUrl; rest = drop (length proto) wsUrl
      in case index_of rest (CHR ''/'') of Some i \<Rightarrow> drop (i + 1) rest | None \<Rightarrow> '''')"

datatype doc_status = DocConnecting | DocConnected | DocDisconnected

record awareness_user =
  aw_name :: "string option"
  aw_color :: "string option"
  aw_session :: "int option"         \<comment> \<open>when it is a number\<close>

record doc_peer =
  dpe_session :: int
  dpe_name :: string
  dpe_color :: string
  dpe_isLocal :: bool

record doc_connection =
  dc_status :: doc_status
  dc_peerCount :: nat
  dc_peers :: "doc_peer list"
  dc_error :: "string option"

definition INVALID_URL :: string where
  "INVALID_URL = ''Invalid document URL received from server.''"

text \<open>The start of the effect: the address of the provider, if the URL has one.\<close>

definition connect_doc :: "string \<Rightarrow> doc_connection \<Rightarrow> (string \<times> string) option \<times> doc_connection" where
  "connect_doc wsUrl c =
     (if wsBase wsUrl = '''' \<or> wsPath wsUrl = '''' then (None, c\<lparr>dc_status := DocDisconnected, dc_error := Some INVALID_URL\<rparr>)
      else (Some (wsBase wsUrl, wsPath wsUrl), c\<lparr>dc_error := None\<rparr>))"

definition onStatus :: "string \<Rightarrow> doc_connection \<Rightarrow> doc_connection" where
  "onStatus status c =
     (if status = ''connected'' then c\<lparr>dc_status := DocConnected, dc_error := None\<rparr>
      else if status = ''connecting'' then c\<lparr>dc_status := DocConnecting\<rparr>
      else c\<lparr>dc_status := DocDisconnected\<rparr>)"

text \<open>The message of an error event, where it has one.\<close>

definition onError :: "string option \<Rightarrow> doc_connection \<Rightarrow> doc_connection" where
  "onError msg c = c\<lparr>dc_status := DocDisconnected, dc_error := Some (or_else msg ''WebSocket connection failed.'')\<rparr>"

fun doc_peers :: "nat \<Rightarrow> int jset \<Rightarrow> (nat \<times> awareness_user option) list \<Rightarrow> doc_peer list" where
  "doc_peers local seen [] = []"
| "doc_peers local seen ((clientId, u) # rest) =
     (case Option.bind u (\<lambda>u. map_option (Pair u) (aw_session u)) of
        None \<Rightarrow> doc_peers local seen rest
      | Some (u, s) \<Rightarrow>
          if set_has seen s then doc_peers local seen rest
          else \<lparr>dpe_session = s, dpe_name = or_else (aw_name u) '''', dpe_color = or_else (aw_color u) ''#999'',
                dpe_isLocal = (clientId = local)\<rparr> # doc_peers local (set_add s seen) rest)"

definition onAwareness :: "nat \<Rightarrow> (nat \<times> awareness_user option) list \<Rightarrow> doc_connection \<Rightarrow> doc_connection" where
  "onAwareness local states c = c\<lparr>dc_peerCount := length states, dc_peers := doc_peers local [] states\<rparr>"


section \<open>Settings: properties\<close>

text \<open>
  However many patches are applied to a document, whatever other clients have stored in it, the page
  setup is read from the stored fields the patches override: the last size, orientation, preset or unit
  wins, a preset drops custom margins, an invalid margin changes nothing, and a ruler unit that was never
  chosen follows the size of the page.
\<close>

theorem page_setup_follows_patches:
  "readPageSetup (Some (foldl (\<lambda>m p. setLiveDocPageSetup p m) m ps)) = page_resolve (foldl (\<lambda>v p. page_override p v) (page_view m) ps)"
  by (simp only: page.fetch_stored page.patches)

text \<open>
  A patch of one group of settings leaves the others as they read before: page setup, decoration,
  bands and title never disturb each other, and turning one band on or off never changes the other,
  also in documents that still have the old flag for both.
\<close>

theorem settings_do_not_interfere:
  "readPageSetup (Some (setLiveDocDecoration d (setLiveDocHeaderFooter h (setLiveDocTitle t m)))) = readPageSetup (Some m)
    \<and> readDecoration (Some (setLiveDocPageSetup p (setLiveDocHeaderFooter h (setLiveDocTitle t m)))) = readDecoration (Some m)
    \<and> readHeaderFooter (Some (setLiveDocPageSetup p (setLiveDocDecoration d (setLiveDocTitle t m)))) = readHeaderFooter (Some m)
    \<and> readTitle fallback (setLiveDocPageSetup p (setLiveDocDecoration d (setLiveDocHeaderFooter h m))) = readTitle fallback m
    \<and> readHeaderFooter (Some (setLiveDocHeaderFooter h m)) = band_override h (readHeaderFooter (Some m))"
proof (intro conjI)
  note locals = page.patch_local deco.patch_local bands.patch_local caption.patch_local
  note all_keys = page_keys_def decoration_keys_def band_keys_def
  show "readPageSetup (Some (setLiveDocDecoration d (setLiveDocHeaderFooter h (setLiveDocTitle t m)))) = readPageSetup (Some m)"
    by (rule page.fetch_foreign) (auto simp: locals all_keys)
  show "readDecoration (Some (setLiveDocPageSetup p (setLiveDocHeaderFooter h (setLiveDocTitle t m)))) = readDecoration (Some m)"
    by (rule deco.fetch_foreign) (auto simp: locals all_keys)
  show "readHeaderFooter (Some (setLiveDocPageSetup p (setLiveDocDecoration d (setLiveDocTitle t m)))) = readHeaderFooter (Some m)"
    by (rule bands.fetch_foreign) (auto simp: locals all_keys)
  show "readTitle fallback (setLiveDocPageSetup p (setLiveDocDecoration d (setLiveDocHeaderFooter h m))) = readTitle fallback m"
    by (rule caption.fetch_foreign) (auto simp: locals all_keys)
  show "readHeaderFooter (Some (setLiveDocHeaderFooter h m)) = band_override h (readHeaderFooter (Some m))"
    by (rule bands.stored_patch)
qed

section \<open>Roman page numbers\<close>

lemma take_value_step: "0 < v \<Longrightarrow> v \<le> rem \<Longrightarrow> take_value v sy rem out = take_value v sy (rem - v) (out @ sy)"
  by (subst take_value.simps) simp

lemma take_value_done: "rem < v \<Longrightarrow> take_value v sy rem out = (rem, out)"
  by (subst take_value.simps) simp

text \<open>Reading: a smaller letter before a larger one is subtracted.\<close>

fun letter_value :: "char \<Rightarrow> int" where
  "letter_value c =
     (if c = CHR ''m'' then 1000 else if c = CHR ''d'' then 500 else if c = CHR ''c'' then 100 else if c = CHR ''l'' then 50
      else if c = CHR ''x'' then 10 else if c = CHR ''v'' then 5 else if c = CHR ''i'' then 1 else 0)"

fun roman_value :: "string \<Rightarrow> int" where
  "roman_value [] = 0"
| "roman_value [c] = letter_value c"
| "roman_value (c # d # r) = (if letter_value c < letter_value d then - letter_value c else letter_value c) + roman_value (d # r)"

lemma roman_value_append:
  "a = [] \<or> b = [] \<or> letter_value (hd b) \<le> letter_value (last a) \<Longrightarrow> roman_value (a @ b) = roman_value a + roman_value b"
proof (induction a rule: roman_value.induct)
  case (2 c)
  then show ?case by (cases b) auto
next
  case (3 c d r)
  then have "roman_value ((d # r) @ b) = roman_value (d # r) + roman_value b" by simp
  then show ?case by simp
qed simp

lemma roman_thousands: "roman_value (concat (replicate k ''m'') @ s) = 1000 * int k + roman_value s"
proof (induction k)
  case (Suc k)
  let ?t = "concat (replicate k ''m'') @ s"
  have "roman_value (''m'' @ ?t) = roman_value ''m'' + roman_value ?t" by (rule roman_value_append) auto
  then show ?case using Suc by simp
qed simp

lemma take_thousands: "take_value 1000 ''m'' n out = (n mod 1000, out @ concat (replicate (n div 1000) ''m''))"
proof (induction n arbitrary: out rule: less_induct)
  case (less n)
  show ?case
  proof (cases "1000 \<le> n")
    case True
    then have "n div 1000 = Suc ((n - 1000) div 1000)" "n mod 1000 = (n - 1000) mod 1000" by (simp_all add: le_div_geq le_mod_geq)
    then show ?thesis using True less [of "n - 1000" "out @ ''m''"] by (simp add: take_value_step)
  qed (simp add: take_value_done)
qed

text \<open>The three lower digits, as the table spells them.\<close>

definition roman_digit :: "char \<Rightarrow> char \<Rightarrow> char \<Rightarrow> nat \<Rightarrow> string" where
  "roman_digit i v x d = [[], [i], [i, i], [i, i, i], [i, v], [v], [v, i], [v, i, i], [v, i, i, i], [i, x]] ! d"

lemma less_ten: "d < 10 \<Longrightarrow> d = 0 \<or> d = 1 \<or> d = 2 \<or> d = 3 \<or> d = 4 \<or> d = 5 \<or> d = 6 \<or> d = 7 \<or> d = 8 \<or> d = (9 :: nat)"
  by arith

definition digit_rows :: "nat \<Rightarrow> char \<Rightarrow> char \<Rightarrow> char \<Rightarrow> (nat \<times> string) list" where
  "digit_rows u i v x = [(9 * u, [i, x]), (5 * u, [v]), (4 * u, [i, v]), (u, [i])]"

definition take_digit :: "nat \<Rightarrow> char \<Rightarrow> char \<Rightarrow> char \<Rightarrow> nat \<times> string \<Rightarrow> nat \<times> string" where
  "take_digit u i v x p = foldl (\<lambda>(rem, out) (v, sy). take_value v sy rem out) p (digit_rows u i v x)"

lemma ROMAN_rows:
  "ROMAN = (1000, ''m'') # digit_rows 100 (CHR ''c'') (CHR ''d'') (CHR ''m'') @ digit_rows 10 (CHR ''x'') (CHR ''l'') (CHR ''c'')
     @ digit_rows 1 (CHR ''i'') (CHR ''v'') (CHR ''x'')"
  by (simp add: ROMAN_def digit_rows_def)

lemma take_digit_spells:
  assumes "d < 10" "r < u"
  shows "take_digit u i v x (d * u + r, out) = (r, out @ roman_digit i v x d)"
  using less_ten [OF assms(1)] assms(2)
  by (elim disjE) (simp_all add: take_digit_def digit_rows_def roman_digit_def take_value_step take_value_done)

lemma toRoman_digits:
  assumes "0 < n"
  shows "toRoman (int n) = concat (replicate (n div 1000) ''m'') @ roman_digit (CHR ''c'') (CHR ''d'') (CHR ''m'') (n div 100 mod 10)
    @ roman_digit (CHR ''x'') (CHR ''l'') (CHR ''c'') (n div 10 mod 10) @ roman_digit (CHR ''i'') (CHR ''v'') (CHR ''x'') (n mod 10)"
proof -
  let ?k = "n mod 1000"
  have split: "?k = (n div 100 mod 10) * 100 + n mod 100" "n mod 100 = (n div 10 mod 10) * 10 + n mod 10"
    using mod_mult2_eq [of n 100 10] mod_mult2_eq [of n 10 10] by simp_all
  have table: "foldl (\<lambda>(rem, out) (v, sy). take_value v sy rem out) p ROMAN =
      take_digit 1 (CHR ''i'') (CHR ''v'') (CHR ''x'') (take_digit 10 (CHR ''x'') (CHR ''l'') (CHR ''c'')
        (take_digit 100 (CHR ''c'') (CHR ''d'') (CHR ''m'') ((\<lambda>(rem, out). take_value 1000 ''m'' rem out) p)))" for p
    by (cases p) (simp add: ROMAN_rows take_digit_def)
  have "take_digit 100 (CHR ''c'') (CHR ''d'') (CHR ''m'') (?k, s) = (n mod 100, s @ roman_digit (CHR ''c'') (CHR ''d'') (CHR ''m'') (n div 100 mod 10))" for s
    unfolding split(1) by (rule take_digit_spells) simp_all
  moreover have "take_digit 10 (CHR ''x'') (CHR ''l'') (CHR ''c'') (n mod 100, s) =
      (n mod 10, s @ roman_digit (CHR ''x'') (CHR ''l'') (CHR ''c'') (n div 10 mod 10))" for s
    unfolding split(2) by (rule take_digit_spells) simp_all
  moreover have "take_digit 1 (CHR ''i'') (CHR ''v'') (CHR ''x'') (n mod 10, s) = (0, s @ roman_digit (CHR ''i'') (CHR ''v'') (CHR ''x'') (n mod 10))" for s
    using take_digit_spells [of "n mod 10" 0 1] by simp
  ultimately show ?thesis using assms by (simp add: toRoman_def table take_thousands)
qed

lemma roman_digit_value:
  assumes "d < 10" "letter_value i = u" "letter_value v = 5 * u" "letter_value x = 10 * u" "0 < u"
  shows "roman_value (roman_digit i v x d) = int d * u"
    "roman_digit i v x d \<noteq> [] \<Longrightarrow> u \<le> letter_value (last (roman_digit i v x d)) \<and> letter_value (hd (roman_digit i v x d)) \<le> 5 * u"
  using less_ten [OF assms(1)] assms(2-) by (elim disjE; simp add: roman_digit_def)+

lemma digits_int: "nat n = 1000 * a + 100 * b + 10 * c + d \<Longrightarrow> 0 < n \<Longrightarrow> n = 1000 * int a + int b * 100 + int c * 10 + int d"
  by linarith

text \<open>
  A page number that is positive is spelled in roman numerals that read as that number, however large
  it is; the other numbers are spelled in decimals.
\<close>

theorem roman_numbers_read_back:
  "if 0 < n then roman_value (toRoman n) = n else toRoman n = show_int n"
proof (cases "0 < n")
  case True
  define a b c d where "a = nat n div 1000" and "b = nat n div 100 mod 10" and "c = nat n div 10 mod 10" and "d = nat n mod 10"
  note digits = this
  let ?h = "roman_digit (CHR ''c'') (CHR ''d'') (CHR ''m'') b"
  let ?t = "roman_digit (CHR ''x'') (CHR ''l'') (CHR ''c'') c"
  let ?u = "roman_digit (CHR ''i'') (CHR ''v'') (CHR ''x'') d"
  have "nat n = 1000 * a + 100 * b + 10 * c + d"
    using mod_mult2_eq [of "nat n" 100 10] mod_mult2_eq [of "nat n" 10 10] div_mod_decomp [of "nat n" 1000] by (simp add: digits)
  then have n: "n = 1000 * int a + int b * 100 + int c * 10 + int d" using True by (rule digits_int)
  have k: "int (nat n) = n" using True by simp
  have spelled: "toRoman n = concat (replicate a ''m'') @ ?h @ ?t @ ?u"
    unfolding digits using toRoman_digits [of "nat n", unfolded k] True by (simp only: zero_less_nat_eq)
  have small: "b < 10" "c < 10" "d < 10" by (simp_all add: digits)
  have hundreds: "roman_value ?h = int b * 100" "?h \<noteq> [] \<Longrightarrow> 100 \<le> letter_value (last ?h)"
    using roman_digit_value [OF small(1), of "CHR ''c''" 100 "CHR ''d''" "CHR ''m''"] by auto
  have tens: "roman_value ?t = int c * 10" "?t \<noteq> [] \<Longrightarrow> 10 \<le> letter_value (last ?t) \<and> letter_value (hd ?t) \<le> 50"
    using roman_digit_value [OF small(2), of "CHR ''x''" 10 "CHR ''l''" "CHR ''c''"] by auto
  have units: "roman_value ?u = int d" "?u \<noteq> [] \<Longrightarrow> letter_value (hd ?u) \<le> 5"
    using roman_digit_value [OF small(3), of "CHR ''i''" 1 "CHR ''v''" "CHR ''x''"] by auto
  have tu: "roman_value (?t @ ?u) = roman_value ?t + roman_value ?u"
    by (rule roman_value_append) (use tens(2) units(2) in linarith)
  have "letter_value (hd (?t @ ?u)) \<le> 50" if "?t @ ?u \<noteq> []"
    using that tens(2) units(2) by (cases "?t = []") auto
  then have "?h = [] \<or> ?t @ ?u = [] \<or> letter_value (hd (?t @ ?u)) \<le> letter_value (last ?h)" using hundreds(2) by linarith
  then have "roman_value (?h @ ?t @ ?u) = roman_value ?h + roman_value (?t @ ?u)" by (rule roman_value_append)
  then have "roman_value (toRoman n) = n" unfolding spelled using n tu hundreds(1) tens(1) units(1) by (simp only: roman_thousands)
  then show ?thesis using True by simp
qed (simp add: toRoman_def)

section \<open>Connection: properties\<close>

lemma index_of_take: "index_of xs x = Some i \<Longrightarrow> x \<notin> set (take i xs)"
  by (induction xs arbitrary: i) (auto split: if_splits option.splits simp: take_Cons')

text \<open>
  The connection of a document goes to the server and the path of its URL: a URL of a web socket is
  taken apart at the first slash behind its host, and a URL without a path is refused with an error.
\<close>

theorem document_url_taken_apart:
  assumes "starts_with u ''ws://'' \<or> starts_with u ''wss://''"
  shows "case connect_doc u c of
      (Some (host, path), c') \<Rightarrow> host @ ''/'' @ path = u \<and> path \<noteq> [] \<and> starts_with host (ws_proto u)
        \<and> CHR ''/'' \<notin> set (drop (length (ws_proto u)) host) \<and> dc_error c' = None
    | (None, c') \<Rightarrow> dc_status c' = DocDisconnected \<and> dc_error c' = Some INVALID_URL"
proof (cases "index_of (drop (length (ws_proto u)) u) (CHR ''/'')")
  case None
  then show ?thesis by (simp add: connect_doc_def wsBase_def wsPath_def Let_def)
next
  case (Some i)
  let ?rest = "drop (length (ws_proto u)) u"
  have u: "ws_proto u @ ?rest = u" using assms by (auto simp: ws_proto_def starts_with_def prefix_def)
  have i: "i < length ?rest" "?rest ! i = CHR ''/''" using index_of_Some [OF Some] by simp_all
  have "take i ?rest @ ''/'' @ drop (i + 1) ?rest = ?rest" using id_take_nth_drop [OF i(1)] i(2) by simp
  then have "(ws_proto u @ take i ?rest) @ ''/'' @ drop (i + 1) ?rest = u" using u by (metis append_assoc)
  moreover have "CHR ''/'' \<notin> set (take i ?rest)" using Some by (rule index_of_take)
  ultimately show ?thesis using Some by (auto simp: connect_doc_def wsBase_def wsPath_def Let_def starts_with_def)
qed

theorem document_url_taken_apart_witness:
  "fst (connect_doc ''wss://host:3001/ws/1/42/notes'' \<lparr>dc_status = DocConnecting, dc_peerCount = 0, dc_peers = [], dc_error = None\<rparr>)
     = Some (''wss://host:3001'', ''ws/1/42/notes'')
   \<and> ''wss://host:3001'' @ ''/'' @ ''ws/1/42/notes'' = ''wss://host:3001/ws/1/42/notes''"
  using document_url_taken_apart [of "''wss://host:3001/ws/1/42/notes''"
      "\<lparr>dc_status = DocConnecting, dc_peerCount = 0, dc_peers = [], dc_error = None\<rparr>"]
  by (simp add: connect_doc_def wsBase_def wsPath_def ws_proto_def starts_with_def Let_def)

text \<open>Users are listed once, in the order of their first client.\<close>

lemma doc_peers_sessions:
  "distinct (map dpe_session (doc_peers local seen states)) \<and> set (map dpe_session (doc_peers local seen states)) =
     {s. \<exists>(c, u) \<in> set states. Option.bind u aw_session = Some s} - set seen"
proof (induction states arbitrary: seen)
  case (Cons st states)
  obtain c u where st: "st = (c, u)" by (cases st)
  show ?case
  proof (cases "Option.bind u aw_session")
    case None
    then have "Option.bind u (\<lambda>u. map_option (Pair u) (aw_session u)) = None" by (cases u) auto
    then show ?thesis using Cons None by (simp add: st)
  next
    case (Some s)
    then obtain a where "u = Some a" "aw_session a = Some s" by (auto simp: bind_eq_Some_conv)
    then show ?thesis using Cons [of seen] Cons [of "set_add s seen"] by (auto simp: st)
  qed
qed simp

text \<open>An address that is none of a web socket is not refused, but taken apart after five characters.\<close>

lemma other_address_accepted:
  "fst (connect_doc ''https://host/ws/1'' c) = Some (''ws://:'', ''/host/ws/1'')"
  by (simp add: connect_doc_def wsBase_def wsPath_def ws_proto_def starts_with_def Let_def)

text \<open>A second client of a user who is there already takes the place of the own one.\<close>

lemma own_user_not_local:
  "doc_peers 2 [] [(1, Some \<lparr>aw_name = Some ''me'', aw_color = None, aw_session = Some 5\<rparr>),
     (2, Some \<lparr>aw_name = Some ''me'', aw_color = None, aw_session = Some 5\<rparr>)]
   = [\<lparr>dpe_session = 5, dpe_name = ''me'', dpe_color = ''#999'', dpe_isLocal = False\<rparr>]"
  by simp

end
