(* ===== verification/LiveDocMarkdown.thy ===== *)
theory LiveDocMarkdown
  imports MarkdownHtml SafeHtml
begin

text \<open>
  Reading the markdown view of a live document, \<open>components/chat/livedoc/liveDocMarkdown.ts\<close> from
  \<open>markdownToEditorHtml\<close> on: blocks line by line, lists by their indentation, pipe tables, and inline
  marks by one scan for each expression of the source.

  Loops over line numbers are functions of the lines that are left.  The loop of \<open>parseBlocks\<close> goes on
  behind what a block consumed, which may be nothing: it is a partial function, and \<open>None\<close> means that the
  code throws or never returns.  \<open>reader_ends\<close> shows that it returns on lines without line terminators,
  which are the lines \<open>markdownToEditorHtml\<close> hands to it.  Characters are those below 256, so the line
  separators of Unicode (U+2028, U+2029), which \<open>split\<close> keeps inside a line, are outside the model; a
  carriage return inside a line shows what they do (\<open>separator_never_ends\<close>, \<open>separator_throws\<close>).  The
  name of a mentioned user, by the digits of the session, is an argument.
\<close>

section \<open>Inline text\<close>

definition is_letter :: "char \<Rightarrow> bool" where
  "is_letter c \<longleftrightarrow> (let n = (of_char c :: nat) in (97 \<le> n \<and> n \<le> 122) \<or> (65 \<le> n \<and> n \<le> 90))"

definition is_md_word :: "char \<Rightarrow> bool" where
  "is_md_word c \<longleftrightarrow> is_letter c \<or> is_digit c \<or> c = CHR ''_''"

text \<open>\<open>[a-zA-Z][a-zA-Z0-9]*\b\<close>: the name and what follows it.\<close>

definition tag_name :: "string \<Rightarrow> (string \<times> string) option" where
  "tag_name s =
     (let name = takeWhile (\<lambda>c. is_letter c \<or> is_digit c) s; rest = drop (length name) s
      in if name \<noteq> [] \<and> is_letter (hd name) \<and> \<not> prefix ''_'' rest then Some (name, rest) else None)"

definition escape_lt :: "string \<Rightarrow> string" where
  "escape_lt s = replace_char (CHR ''>'') ''&gt;'' (replace_char (CHR ''<'') ''&lt;'' (replace_char (CHR ''&'') ''&amp;'' s))"

definition quot :: "string \<Rightarrow> string" where
  "quot s = replace_char (CHR 0x22) ''&quot;'' s"

definition attr :: "string \<Rightarrow> string \<Rightarrow> string" where
  "attr k v = CHR '' '' # k @ CHR ''='' # quoted v"

definition mention_span :: "string \<Rightarrow> string \<Rightarrow> string \<Rightarrow> string" where
  "mention_span kind v label =
     tag (''span'' @ attr ''class'' (''mention mention-'' @ kind) @ attr (''data-mention-'' @ (if kind = ''user'' then ''session'' else kind)) v)
       @ CHR ''@'' # label @ tag ''/span''"

definition md_user_mention :: "(string \<Rightarrow> string option) \<Rightarrow> string matcher" where
  "md_user_mention resolve prev s =
     (case strip_prefix ''<@'' s of
        None \<Rightarrow> None
      | Some t \<Rightarrow>
          (let sid = takeWhile is_digit t
           in if sid \<noteq> [] \<and> prefix ''>'' (drop (length sid) t)
              then Some (length sid + 3, mention_span ''user'' sid (escape_lt (or_else (resolve sid) (''user-'' @ sid))))
              else None))"

definition md_role_mention :: "string matcher" where
  "md_role_mention prev s =
     (case strip_prefix ''<@&'' s of
        None \<Rightarrow> None
      | Some t \<Rightarrow>
          (let name = takeWhile (\<lambda>c. c \<noteq> CHR ''>'' \<and> \<not> is_ws c) t; safe = quot (replace_char (CHR ''&'') ''&amp;'' name)
           in if name \<noteq> [] \<and> prefix ''>'' (drop (length name) t)
              then Some (length name + 4, mention_span ''role'' safe safe) else None))"

text \<open>\<open>(^|\s)@word\b\<close>, with the character before the mention.\<close>

definition md_all_mention :: "string \<Rightarrow> string matcher" where
  "md_all_mention word prev s =
     (let here = (\<lambda>t. prefix (CHR ''@'' # word) t \<and> \<not> (case drop (length word + 1) t of [] \<Rightarrow> False | c # _ \<Rightarrow> is_md_word c))
      in if prev = None \<and> here s then Some (length word + 1, [])
         else case s of [] \<Rightarrow> None | c # t \<Rightarrow> if is_ws c \<and> here t then Some (length word + 2, [c]) else None)"

definition match_html_tag :: "string matcher" where
  "match_html_tag prev s =
     (case strip_prefix ''<'' s of
        None \<Rightarrow> None
      | Some t \<Rightarrow>
          (case tag_name (if prefix ''/'' t then tl t else t) of
             None \<Rightarrow> None
           | Some (name, rest) \<Rightarrow>
               (let r = dropWhile (\<lambda>c. c \<noteq> CHR ''<'' \<and> c \<noteq> CHR ''>'') rest
                in if prefix ''>'' r then Some (length s - length r + 1, take (length s - length r + 1) s) else None)))"

definition match_run :: "char \<Rightarrow> string \<Rightarrow> string matcher" where
  "match_run d name prev s =
     (case strip_prefix [d, d] s of
        None \<Rightarrow> None
      | Some t \<Rightarrow>
          (let body = takeWhile (\<lambda>c. c \<noteq> d \<and> c \<noteq> CHR 0x0A) t
           in if body \<noteq> [] \<and> prefix [d, d] (drop (length body) t)
              then Some (length body + 4, tag name @ body @ tag (CHR ''/'' # name)) else None))"

text \<open>\<open>(^|[^*])\*([^*\n]+?)\*(?!\*)\<close>.\<close>

definition emphasis :: "string \<Rightarrow> (nat \<times> string) option" where
  "emphasis s =
     (case strip_prefix ''*'' s of
        None \<Rightarrow> None
      | Some t \<Rightarrow>
          (let body = takeWhile (\<lambda>c. c \<noteq> CHR ''*'' \<and> c \<noteq> CHR 0x0A) t; r = drop (length body) t
           in if body \<noteq> [] \<and> prefix ''*'' r \<and> \<not> prefix ''**'' r then Some (length body + 2, tag ''em'' @ body @ tag ''/em'') else None))"

definition match_emphasis :: "string matcher" where
  "match_emphasis prev s =
     (case (if prev = None then emphasis s else None) of
        Some m \<Rightarrow> Some m
      | None \<Rightarrow>
          (case s of [] \<Rightarrow> None | c # t \<Rightarrow>
             if c = CHR ''*'' then None else map_option (\<lambda>(n, r). (n + 1, c # r)) (emphasis t)))"

definition match_md_image :: "string matcher" where
  "match_md_image prev s =
     (case strip_prefix ''!['' s of
        None \<Rightarrow> None
      | Some t \<Rightarrow>
          (let alt = takeWhile (\<lambda>c. c \<noteq> CHR '']'') t in
           case strip_prefix ''](''  (drop (length alt) t) of
             None \<Rightarrow> None
           | Some u \<Rightarrow>
               (let url = takeWhile (\<lambda>c. c \<noteq> CHR '')'' \<and> \<not> is_ws c) u; v = drop (length url) u;
                    ws = takeWhile is_ws v; w = drop (length ws) v;
                    image = (\<lambda>title. tag (''img'' @ attr ''src'' (quot url) @ attr ''alt'' (quot alt)
                               @ (if title = [] then [] else attr ''title'' (quot title))))
                in if url = [] then None
                   else if prefix '')'' v then Some (length s - length v + 1, image [])
                   else if ws \<noteq> [] \<and> prefix [CHR 0x22] w
                   then (let title = takeWhile (\<lambda>c. c \<noteq> CHR 0x22) (tl w); x = drop (length title) (tl w)
                         in if prefix (CHR 0x22 # '')'') x then Some (length s - length x + 2, image title) else None)
                   else None)))"

definition match_md_link :: "string matcher" where
  "match_md_link prev s =
     (case strip_prefix ''['' s of
        None \<Rightarrow> None
      | Some t \<Rightarrow>
          (let label = takeWhile (\<lambda>c. c \<noteq> CHR '']'' \<and> c \<noteq> CHR 0x0A) t in
           case strip_prefix ''](''  (drop (length label) t) of
             None \<Rightarrow> None
           | Some u \<Rightarrow>
               (let url = takeWhile (\<lambda>c. c \<noteq> CHR '')'' \<and> \<not> is_ws c) u
                in if label \<noteq> [] \<and> url \<noteq> [] \<and> prefix '')'' (drop (length url) u)
                   then Some (length label + length url + 4,
                     tag (CHR ''a'' # attr ''href'' (quot url) @ attr ''target'' ''_blank'' @ attr ''rel'' ''noopener noreferrer'') @ label @ tag ''/a'')
                   else None)))"

definition md_escaped :: "char \<Rightarrow> bool" where
  "md_escaped c \<longleftrightarrow> c \<in> set [CHR 0x5C, CHR 0x60, CHR ''*'', CHR ''_'', CHR ''['', CHR '']'']"

definition match_unescape :: "string matcher" where
  "match_unescape prev s = (case s of b # c # t \<Rightarrow> if b = CHR 0x5C \<and> md_escaped c then Some (2, [c]) else None | _ \<Rightarrow> None)"

definition stash_md :: "string matcher \<Rightarrow> string \<times> string list \<Rightarrow> string \<times> string list" where
  "stash_md m p = stash_from m (stash_ref ''H'') None (snd p) (fst p)"

text \<open>A mention of everyone keeps the character before it in front of the reference.\<close>

function stash_lead :: "string \<Rightarrow> string \<Rightarrow> char option \<Rightarrow> string list \<Rightarrow> string \<Rightarrow> string \<times> string list" where
  "stash_lead word html prev st [] = ([], st)"
| "stash_lead word html prev st (c # s) =
     (case md_all_mention word prev (c # s) of
        None \<Rightarrow> (let (out, st') = stash_lead word html (Some c) st s in (c # out, st'))
      | Some (n, lead) \<Rightarrow>
          (let (out, st') = stash_lead word html (Some (last (c # take (n - 1) s))) (st @ [html]) (drop (n - 1) s)
           in (lead @ stash_ref ''H'' (length st) @ out, st')))"
  by pat_completeness auto
termination by (relation "measure (\<lambda>(word, html, prev, st, s). length s)") auto

definition inline_math :: "string \<Rightarrow> string" where
  "inline_math latex = tag (''span'' @ attr ''data-type'' ''inlineMath'' @ attr ''data-latex'' (quot latex)) @ tag ''/span''"

definition inline_formats :: "string \<Rightarrow> string" where
  "inline_formats s =
     replace_all (match_run (CHR ''='') ''mark'')
       (replace_all (match_run (CHR ''~'') ''s'')
         (replace_all (match_run (CHR ''_'') ''u'')
           (replace_all match_emphasis
             (replace_all (match_run (CHR ''*'') ''strong'')
               (replace_all match_md_link
                 (replace_all match_md_image
                   (replace_all (match_between (CHR ''$'') (\<lambda>c. c \<noteq> CHR 0x0A) inline_math)
                     (replace_all (match_between (CHR 0x60) (\<lambda>c. c \<noteq> CHR 0x0A) (\<lambda>code. tag ''code'' @ code @ tag ''/code'')) s))))))))"

definition parseInline :: "(string \<Rightarrow> string option) \<Rightarrow> string \<Rightarrow> string" where
  "parseInline resolve txt =
     (let p1 = stash_md (md_user_mention resolve) (txt, []);
          p2 = stash_md md_role_mention p1;
          p3 = stash_lead ''everyone'' (mention_span ''everyone'' ''1'' ''everyone'') None (snd p2) (fst p2);
          p4 = stash_lead ''here'' (mention_span ''here'' ''1'' ''here'') None (snd p3) (fst p3);
          (s, stash) = stash_md match_html_tag p4
      in replace_all (match_ref ''H'' (\<lambda>x. x) stash) (replace_all match_unescape (inline_formats (escape_lt s))))"

section \<open>Lines\<close>

definition RAW_BLOCK_TAGS :: "string list" where
  "RAW_BLOCK_TAGS = [''h1'', ''h2'', ''h3'', ''h4'', ''h5'', ''h6'', ''p'', ''div'', ''table'', ''figure'', ''figcaption'', ''blockquote'',
     ''ul'', ''ol'', ''pre'', ''hr'', ''img'']"

definition raw_tag :: "string \<Rightarrow> string option" where
  "raw_tag line =
     (case Option.bind (strip_prefix ''<'' line) tag_name of
        None \<Rightarrow> None
      | Some (name, _) \<Rightarrow> if to_lower name \<in> set RAW_BLOCK_TAGS then Some (to_lower name) else None)"

text \<open>What \<open>(.*)$\<close> matches: the dot matches no line terminator.\<close>

definition dot_text :: "string \<Rightarrow> bool" where
  "dot_text s \<longleftrightarrow> list_all is_dot s"

text \<open>\<open>^(#{1,6})\s\<close>, and \<open>^(#{1,6})\s+(.*)$\<close>: the level and the text.\<close>

definition heading_start :: "string \<Rightarrow> bool" where
  "heading_start line \<longleftrightarrow>
     (let n = length (takeWhile (\<lambda>c. c = CHR ''#'') line)
      in 1 \<le> n \<and> n \<le> 6 \<and> (case drop n line of [] \<Rightarrow> False | c # _ \<Rightarrow> is_ws c))"

definition heading_line :: "string \<Rightarrow> (nat \<times> string) option" where
  "heading_line line =
     (let hashes = takeWhile (\<lambda>c. c = CHR ''#'') line; rest = drop (length hashes) line; t = dropWhile is_ws rest
      in if 1 \<le> length hashes \<and> length hashes \<le> 6 \<and> (case rest of [] \<Rightarrow> False | c # _ \<Rightarrow> is_ws c) \<and> dot_text t
         then Some (length hashes, t) else None)"

definition rule_line :: "string \<Rightarrow> bool" where
  "rule_line line \<longleftrightarrow>
     (let t = trim line in 3 \<le> length t \<and> list_ex (\<lambda>c. list_all (\<lambda>x. x = c) t) [CHR ''-'', CHR ''*'', CHR ''_''])"

definition quote_line :: "string \<Rightarrow> string option" where
  "quote_line line =
     (case line of
        [] \<Rightarrow> None
      | c # t \<Rightarrow> if c = CHR ''>'' then Some (case t of [] \<Rightarrow> [] | d # u \<Rightarrow> if is_ws d then u else t) else None)"

text \<open>
  \<open>^(\s*)([-*+]|\d+[.)])\s+\<close>: indentation, whether it is numbered, and what follows; with \<open>(.*)$\<close> behind it
  what follows is the text of the item.
\<close>

definition list_open :: "string \<Rightarrow> (nat \<times> bool \<times> string) option" where
  "list_open line =
     (let ws = takeWhile is_ws line; t = drop (length ws) line; ds = takeWhile is_digit t;
          after = (case t of
             [] \<Rightarrow> None
           | c # u \<Rightarrow>
               if c \<in> set ''-*+'' then Some (False, u)
               else if ds \<noteq> [] \<and> (prefix ''.'' (drop (length ds) t) \<or> prefix '')'' (drop (length ds) t))
               then Some (True, drop (length ds + 1) t) else None)
      in case after of
           Some (ordered, c # u) \<Rightarrow> if is_ws c then Some (length ws, ordered, dropWhile is_ws u) else None
         | _ \<Rightarrow> None)"

definition list_line :: "string \<Rightarrow> (nat \<times> bool \<times> string) option" where
  "list_line line =
     (case list_open line of
        None \<Rightarrow> None
      | Some (indent, ordered, body) \<Rightarrow> if dot_text body then Some (indent, ordered, body) else None)"

definition task_prefix :: "string \<Rightarrow> (bool \<times> string) option" where
  "task_prefix s =
     (case s of
        a # x # b # c # t \<Rightarrow>
          if a = CHR ''['' \<and> x \<in> set '' xX'' \<and> b = CHR '']'' \<and> is_ws c
          then Some (x \<noteq> CHR '' '', dropWhile is_ws t) else None
      | _ \<Rightarrow> None)"

definition isBlockStart :: "string \<Rightarrow> bool" where
  "isBlockStart line \<longleftrightarrow>
     heading_start line \<or> line = ''$$'' \<or> prefix FENCE line \<or> rule_line line \<or> quote_line line \<noteq> None
     \<or> list_open line \<noteq> None \<or> raw_tag line \<noteq> None"

section \<open>Raw blocks\<close>

text \<open>Occurrences of \<open><tag\b\<close>, and whether \<open></tag\s*>\<close> occurs; both ignore case.\<close>

definition match_opening :: "string \<Rightarrow> unit matcher" where
  "match_opening name prev s =
     (case strip_ci (CHR ''<'' # name) s of
        None \<Rightarrow> None
      | Some t \<Rightarrow> if (case t of [] \<Rightarrow> False | c # _ \<Rightarrow> is_md_word c) then None else Some (length name + 1, ()))"

definition match_closing :: "string \<Rightarrow> unit matcher" where
  "match_closing name prev s =
     (case strip_ci (''</'' @ name) s of
        None \<Rightarrow> None
      | Some t \<Rightarrow> if prefix ''>'' (dropWhile is_ws t) then Some (length s - length (dropWhile is_ws t) + 1, ()) else None)"

definition openings :: "string \<Rightarrow> string \<Rightarrow> int" where
  "openings name line = int (length (match_all (match_opening name) line))"

definition closings :: "string \<Rightarrow> string \<Rightarrow> int" where
  "closings name line = (if match_all (match_closing name) line = [] then 0 else 1)"

text \<open>\<open>n\<close> lines have been collected.\<close>

fun collect_raw :: "string \<Rightarrow> nat \<Rightarrow> int \<Rightarrow> string list \<Rightarrow> nat" where
  "collect_raw name n depth [] = n"
| "collect_raw name n depth (line # rest) =
     (let d = depth + openings name line - closings name line
      in if d \<le> 0 then n + 1
         else if trim line = [] \<and> 1 \<le> n then n
         else collect_raw name (n + 1) d rest)"

definition collectRawHtmlBlock :: "string list \<Rightarrow> string \<Rightarrow> nat" where
  "collectRawHtmlBlock ls name = (if name = ''hr'' \<or> name = ''img'' then 1 else collect_raw name 0 0 ls)"

section \<open>Tables\<close>

fun split_cells :: "string \<Rightarrow> string \<Rightarrow> string list" where
  "split_cells cur [] = [cur]"
| "split_cells cur (c # t) =
     (if c = CHR 0x5C \<and> prefix ''|'' t then split_cells (cur @ ''|'') (tl t)
      else if c = CHR ''|'' then cur # split_cells [] t
      else split_cells (cur @ [c]) t)"

definition splitTableRow :: "string \<Rightarrow> string list" where
  "splitTableRow line =
     (let t = trim line;
          t1 = (if prefix ''|'' t then tl t else t);
          t2 = (if suffix ''|'' t1 \<and> \<not> suffix [CHR 0x5C, CHR ''|''] t1 then butlast t1 else t1)
      in map trim (split_cells [] t2))"

definition delimiter_cell :: "string \<Rightarrow> bool" where
  "delimiter_cell c \<longleftrightarrow>
     (let t = (if prefix '':'' c then tl c else c); dashes = takeWhile (\<lambda>x. x = CHR ''-'') t
      in dashes \<noteq> [] \<and> (drop (length dashes) t = [] \<or> drop (length dashes) t = '':''))"

definition isTableDelimiterRow :: "string \<Rightarrow> bool" where
  "isTableDelimiterRow line \<longleftrightarrow> CHR ''-'' \<in> set line \<and> list_all delimiter_cell (splitTableRow line)"

definition parseTableAlign :: "string \<Rightarrow> string option" where
  "parseTableAlign cell =
     (let left = prefix '':'' cell; right = suffix '':'' cell
      in if left \<and> right then Some ''center'' else if right then Some ''right'' else if left then Some ''left'' else None)"

definition startsTable :: "string list \<Rightarrow> bool" where
  "startsTable ls =
     (case ls of line # next_line # _ \<Rightarrow> CHR ''|'' \<in> set line \<and> isTableDelimiterRow next_line | _ \<Rightarrow> False)"

definition table_cell :: "(string \<Rightarrow> string option) \<Rightarrow> string \<Rightarrow> string option \<Rightarrow> bool \<Rightarrow> string" where
  "table_cell resolve txt align isHeader =
     (let t = (if isHeader then ''th'' else ''td'');
          style = (case align of None \<Rightarrow> [] | Some a \<Rightarrow> if a = ''left'' then [] else attr ''style'' (''text-align: '' @ a))
      in tag t @ tag (''p'' @ style) @ parseInline resolve txt @ tag ''/p'' @ tag (CHR ''/'' # t))"

definition nth_or :: "'a \<Rightarrow> 'a list \<Rightarrow> nat \<Rightarrow> 'a" where
  "nth_or d xs i = (if i < length xs then xs ! i else d)"

definition table_row :: "(string \<Rightarrow> string option) \<Rightarrow> string option list \<Rightarrow> nat \<Rightarrow> string list \<Rightarrow> bool \<Rightarrow> string" where
  "table_row resolve aligns colCount cells isHeader =
     tag ''tr'' @ concat (map (\<lambda>c. table_cell resolve (nth_or [] cells c) (nth_or None aligns c) isHeader) [0..<colCount]) @ tag ''/tr''"

definition table_body_lines :: "string list \<Rightarrow> string list" where
  "table_body_lines ls = takeWhile (\<lambda>l. trim l \<noteq> [] \<and> CHR ''|'' \<in> set l \<and> \<not> isBlockStart l) ls"

definition parseTableBlock :: "(string \<Rightarrow> string option) \<Rightarrow> string list \<Rightarrow> string \<times> nat" where
  "parseTableBlock resolve ls =
     (let header = splitTableRow (ls ! 0);
          aligns = map parseTableAlign (splitTableRow (ls ! 1));
          body_lines = table_body_lines (drop 2 ls);
          body = map splitTableRow body_lines;
          colCount = fold max (map length body) (length header)
      in (tag ''table'' @ tag ''tbody'' @ table_row resolve aligns colCount header True
            @ concat (map (\<lambda>r. table_row resolve aligns colCount r False) body) @ tag ''/tbody'' @ tag ''/table'',
          2 + length body_lines))"

section \<open>Lists\<close>

record md_item =
  it_content :: "string list"
  it_nested :: "string option"
  it_checked :: "bool option"

definition join_lines :: "string list \<Rightarrow> string" where
  "join_lines ls = join_with (CHR 0x0A) ls"

definition item_html :: "(string \<Rightarrow> string option) \<Rightarrow> bool \<Rightarrow> md_item \<Rightarrow> string" where
  "item_html resolve isTaskList it =
     (let inline = parseInline resolve (join_lines (it_content it)); nested = or_else (it_nested it) []
      in if isTaskList
         then tag (''li'' @ attr ''data-type'' ''taskItem'' @ attr ''data-checked'' (if it_checked it = Some True then ''true'' else ''false''))
                @ tag ''p'' @ inline @ tag ''/p'' @ nested @ tag ''/li''
         else tag ''li'' @ inline @ nested @ tag ''/li'')"

definition list_html :: "(string \<Rightarrow> string option) \<Rightarrow> bool \<Rightarrow> bool \<Rightarrow> md_item list \<Rightarrow> string" where
  "list_html resolve ordered isTaskList items =
     (let renderedItems = concat (map (item_html resolve isTaskList) items)
      in if isTaskList then tag (''ul'' @ attr ''data-type'' ''taskList'') @ renderedItems @ tag ''/ul''
         else tag (if ordered then ''ol'' else ''ul'') @ renderedItems @ tag (if ordered then ''/ol'' else ''/ul''))"

definition new_item :: "bool \<Rightarrow> string \<Rightarrow> md_item" where
  "new_item isTaskList body =
     (case (if isTaskList then task_prefix body else None) of
        Some (checked, rest) \<Rightarrow> \<lparr>it_content = [rest], it_nested = None, it_checked = Some checked\<rparr>
      | None \<Rightarrow> \<lparr>it_content = [body], it_nested = None, it_checked = None\<rparr>)"

definition continuation :: "nat \<Rightarrow> string \<Rightarrow> bool" where
  "continuation baseIndent line \<longleftrightarrow>
     trim line \<noteq> [] \<and> list_open line = None \<and> prefix (replicate (baseIndent + 2) (CHR '' '')) line"

definition set_nested :: "string \<Rightarrow> md_item list \<Rightarrow> md_item list" where
  "set_nested html items = (if items = [] then [] else butlast items @ [(last items)\<lparr>it_nested := Some html\<rparr>])"

text \<open>
  The loop of \<open>parseListBlock\<close>: the items so far and the lines consumed; a deeper line starts the function
  again, whose first line gives the indentation and the kind of the list.
\<close>

function (sequential) list_loop :: "(string \<Rightarrow> string option) \<Rightarrow> nat \<Rightarrow> bool \<Rightarrow> md_item list \<Rightarrow> nat \<Rightarrow> string list \<Rightarrow> md_item list \<times> nat" where
  "list_loop resolve baseIndent isTaskList items n [] = (items, n)"
| "list_loop resolve baseIndent isTaskList items n (l # ls) =
     (case list_line l of
        None \<Rightarrow> (items, n)
      | Some (indent, ordered, body) \<Rightarrow>
          if indent < baseIndent then (items, n)
          else if indent > baseIndent
          then (let task = (\<not> ordered \<and> task_prefix body \<noteq> None);
                    cs = takeWhile (continuation indent) ls;
                    first = (new_item task body)\<lparr>it_content := it_content (new_item task body) @ map (drop (indent + 2)) cs\<rparr>;
                    (subitems, consumed) = list_loop resolve indent task [first] (1 + length cs) (drop (length cs) ls)
                in list_loop resolve baseIndent isTaskList (set_nested (list_html resolve ordered task subitems) items)
                     (n + consumed) (drop (max 1 consumed) (l # ls)))
          else (let cs = takeWhile (continuation baseIndent) ls;
                    it = new_item isTaskList body
                in list_loop resolve baseIndent isTaskList
                     (items @ [it\<lparr>it_content := it_content it @ map (drop (baseIndent + 2)) cs\<rparr>])
                     (n + 1 + length cs) (drop (length cs) ls)))"
  by pat_completeness auto
termination by (relation "measure (\<lambda>(resolve, b, t, items, n, ls). length ls)") auto

declare list_loop.simps [simp del]

text \<open>\<open>None\<close>: the first line does not match, and reading the match throws.\<close>

definition parseListBlock :: "(string \<Rightarrow> string option) \<Rightarrow> string list \<Rightarrow> (string \<times> nat) option" where
  "parseListBlock resolve ls =
     (case ls of
        [] \<Rightarrow> None
      | l # _ \<Rightarrow>
          (case list_line l of
             None \<Rightarrow> None
           | Some (baseIndent, ordered, body) \<Rightarrow>
               (let isTaskList = (\<not> ordered \<and> task_prefix body \<noteq> None);
                    (items, consumed) = list_loop resolve baseIndent isTaskList [] 0 ls
                in Some (list_html resolve ordered isTaskList items, consumed))))"


section \<open>Blocks\<close>

fun paragraph_lines :: "string list \<Rightarrow> string list" where
  "paragraph_lines [] = []"
| "paragraph_lines (l # ls) =
     (if trim l \<noteq> [] \<and> \<not> isBlockStart l \<and> \<not> startsTable (l # ls) then l # paragraph_lines ls else [])"

fun hard_breaks :: "string list \<Rightarrow> string list" where
  "hard_breaks (l # k # ls) = (if suffix ''  '' l then take (length l - 2) l @ tag ''br'' else l) # hard_breaks (k # ls)"
| "hard_breaks ls = ls"

text \<open>What one turn of the loop of \<open>parseBlocks\<close> appends; the lines of a quotation are blocks themselves.\<close>

datatype block_out = Html string | Quotation "string list"

definition math_block :: "string list \<Rightarrow> block_out \<times> nat" where
  "math_block rest =
     (let body = takeWhile (\<lambda>l. l \<noteq> ''$$'') rest
      in (Html (tag (''div'' @ attr ''data-type'' ''block-math'' @ attr ''data-latex'' (quot (trim (join_lines body)))) @ tag ''/div''),
          1 + length body + (if length body < length rest then 1 else 0)))"

definition code_block :: "string \<Rightarrow> string list \<Rightarrow> block_out \<times> nat" where
  "code_block line rest =
     (let lang = trim (drop 3 line); body = takeWhile (\<lambda>l. \<not> prefix FENCE l) rest
      in (Html (tag ''pre'' @ tag (code_tag lang) @ escapeHtml (join_lines body) @ tag ''/code'' @ tag ''/pre''),
          1 + length body + (if length body < length rest then 1 else 0)))"

definition quote_lines :: "string list \<Rightarrow> string list" where
  "quote_lines ls = map (\<lambda>l. or_else (quote_line l) l) (takeWhile (\<lambda>l. quote_line l \<noteq> None) ls)"

definition next_block :: "(string \<Rightarrow> string option) \<Rightarrow> string list \<Rightarrow> (block_out \<times> nat) option" where
  "next_block resolve ls =
     (let line = hd ls; rest = tl ls
      in case raw_tag line of
           Some name \<Rightarrow> (let consumed = collectRawHtmlBlock ls name in Some (Html (join_lines (take consumed ls)), consumed))
         | None \<Rightarrow>
             (case heading_line line of
                Some (level, t) \<Rightarrow>
                  (let h = CHR ''h'' # show_nat level in Some (Html (tag h @ parseInline resolve (trim t) @ tag (CHR ''/'' # h)), 1))
              | None \<Rightarrow>
                  if line = ''$$'' then Some (math_block rest)
                  else if prefix FENCE line then Some (code_block line rest)
                  else if rule_line line then Some (Html (tag ''hr''), 1)
                  else if quote_line line \<noteq> None then Some (Quotation (quote_lines ls), length (quote_lines ls))
                  else if list_open line \<noteq> None then map_option (\<lambda>(html, consumed). (Html html, consumed)) (parseListBlock resolve ls)
                  else if startsTable ls then (case parseTableBlock resolve ls of (html, consumed) \<Rightarrow> Some (Html html, consumed))
                  else (let buf = paragraph_lines ls
                        in Some (Html (tag ''p'' @ parseInline resolve (join_lines (hard_breaks buf)) @ tag ''/p''), length buf))))"

text \<open>
  The loop itself.  A turn that consumes no line leaves it where it was, and it never ends; a list whose first
  line does not match throws.
\<close>

partial_function (option) parseBlocks :: "(string \<Rightarrow> string option) \<Rightarrow> string list \<Rightarrow> string option" where
  "parseBlocks resolve ls =
     (case ls of
        [] \<Rightarrow> Some []
      | line # rest \<Rightarrow>
          if trim line = [] then parseBlocks resolve rest
          else (case next_block resolve ls of
             None \<Rightarrow> None
           | Some (Html html, consumed) \<Rightarrow>
               Option.bind (parseBlocks resolve (drop consumed ls)) (\<lambda>out. Some (html @ out))
           | Some (Quotation buf, consumed) \<Rightarrow>
               Option.bind (parseBlocks resolve buf) (\<lambda>inner.
                 Option.bind (parseBlocks resolve (drop consumed ls)) (\<lambda>out.
                   Some (tag ''blockquote'' @ inner @ tag ''/blockquote'' @ out)))))"

declare parseBlocks.simps [code]

text \<open>\<open>markdown.replaceAll(/\r\n?/g, "\n").split("\n")\<close>.\<close>

definition match_cr :: "string matcher" where
  "match_cr prev s =
     (case s of
        [] \<Rightarrow> None
      | c # t \<Rightarrow> if c = CHR 0x0D then Some (if prefix [CHR 0x0A] t then 2 else 1, [CHR 0x0A]) else None)"

definition markdown_lines :: "string \<Rightarrow> string list" where
  "markdown_lines markdown = split_on (CHR 0x0A) (replace_all match_cr markdown)"

definition markdownToEditorHtml :: "(string \<Rightarrow> string option) \<Rightarrow> string \<Rightarrow> string option" where
  "markdownToEditorHtml resolve markdown = (if trim markdown = [] then Some [] else parseBlocks resolve (markdown_lines markdown))"


section \<open>The reader ends\<close>

definition lines_size :: "string list \<Rightarrow> nat" where
  "lines_size ls = sum_list (map (\<lambda>l. Suc (length l)) ls)"

lemma lines_size_simps [simp]: "lines_size [] = 0" "lines_size (l # ls) = Suc (length l) + lines_size ls"
  by (simp_all add: lines_size_def)

lemma lines_size_drop: "lines_size (drop n ls) \<le> lines_size ls"
proof (induction ls arbitrary: n)
  case (Cons l ls)
  show ?case using Cons [of "n - 1"] by (cases n) auto
qed simp

lemma quote_line_shorter: "quote_line l = Some t \<Longrightarrow> length t < length l"
  by (auto simp: quote_line_def split: list.splits if_splits)

lemma quote_lines_size: "lines_size (quote_lines ls) \<le> lines_size ls"
proof (induction ls)
  case (Cons l ls)
  then show ?case using quote_line_shorter [of l] by (cases "quote_line l") (fastforce simp: quote_lines_def)+
qed (simp add: quote_lines_def)

lemma collect_raw_bounds: "n \<le> collect_raw name n d ls \<and> collect_raw name n d ls \<le> n + length ls"
proof (induction name n d ls rule: collect_raw.induct)
  case (2 name n depth line rest)
  show ?case using 2 by (auto simp: Let_def)
qed simp

lemma collect_raw_first: "1 \<le> collect_raw name 0 d (l # ls)"
  using collect_raw_bounds [of 1 name _ ls] by (simp add: Let_def)

lemma length_while: "length (takeWhile P ls) \<le> length ls"
  by (rule length_takeWhile_le)

lemma list_loop_bounds:
  "n \<le> snd (list_loop resolve b t items n ls) \<and> snd (list_loop resolve b t items n ls) \<le> n + length ls"
proof (induction resolve b t items n ls rule: list_loop.induct)
  case (2 resolve b t items n l ls)
  show ?case
  proof (cases "list_line l")
    case None
    then show ?thesis by (simp add: list_loop.simps)
  next
    case (Some r)
    obtain indent ordered body where r: "r = (indent, ordered, body)" by (cases r)
    consider "indent < b" | "indent = b" | "b < indent" by linarith
    then show ?thesis
    proof cases
      case 1
      then show ?thesis using Some r by (simp add: list_loop.simps)
    next
      case same: 2
      let ?cs = "takeWhile (continuation b) ls"
      let ?it = "(new_item t body)\<lparr>it_content := it_content (new_item t body) @ map (drop (b + 2)) ?cs\<rparr>"
      have eq: "list_loop resolve b t items n (l # ls) = list_loop resolve b t (items @ [?it]) (n + 1 + length ?cs) (drop (length ?cs) ls)"
        using Some r same by (simp add: list_loop.simps(2) Let_def)
      have "n + 1 + length ?cs \<le> snd (list_loop resolve b t items n (l # ls))
          \<and> snd (list_loop resolve b t items n (l # ls)) \<le> n + 1 + length ?cs + (length ls - length ?cs)"
        unfolding eq using 2(3) [OF Some r [symmetric] refl] same by simp
      then show ?thesis using length_while [of "continuation b" ls] by (elim conjE) (intro conjI; simp)
    next
      case deeper: 3
      let ?task = "\<not> ordered \<and> task_prefix body \<noteq> None"
      let ?cs = "takeWhile (continuation indent) ls"
      let ?first = "(new_item ?task body)\<lparr>it_content := it_content (new_item ?task body) @ map (drop (indent + 2)) ?cs\<rparr>"
      obtain subitems consumed where sub: "list_loop resolve indent ?task [?first] (1 + length ?cs) (drop (length ?cs) ls) = (subitems, consumed)"
        by fastforce
      have "1 + length ?cs \<le> consumed \<and> consumed \<le> 1 + length ?cs + (length ls - length ?cs)"
        using 2(1) [OF Some r [symmetric] refl] deeper sub by simp
      then have c: "1 \<le> consumed" "consumed \<le> Suc (length ls)" using length_while [of "continuation indent" ls] by linarith+
      have eq: "list_loop resolve b t items n (l # ls) =
          list_loop resolve b t (set_nested (list_html resolve ordered ?task subitems) items) (n + consumed) (drop (max 1 consumed) (l # ls))"
        using Some r deeper sub by (simp add: list_loop.simps(2) Let_def)
      have "\<not> indent < b" using deeper by simp
      note ih = 2(2) [OF Some r [symmetric] refl this deeper refl refl refl sub [symmetric] refl]
      have "n + consumed \<le> k \<and> k \<le> n + consumed + length (drop (max 1 consumed) (l # ls)) \<Longrightarrow> n \<le> k \<and> k \<le> n + length (l # ls)" for k
        using c by auto
      then show ?thesis unfolding eq using ih by blast
    qed
  qed
qed (simp add: list_loop.simps)

lemma parseListBlock_bounds:
  assumes "list_line l \<noteq> None"
  shows "\<exists>html n. parseListBlock resolve (l # ls) = Some (html, n) \<and> 1 \<le> n \<and> n \<le> Suc (length ls)"
proof -
  obtain b ordered body where l: "list_line l = Some (b, ordered, body)" using assms by (cases "list_line l") auto
  let ?task = "\<not> ordered \<and> task_prefix body \<noteq> None"
  have "1 \<le> snd (list_loop resolve b ?task [] 0 (l # ls))"
    using list_loop_bounds [of "Suc (length (takeWhile (continuation b) ls))"] by (simp add: list_loop.simps l Let_def) (meson Suc_le_eq le_trans Suc_le_mono zero_le le_less_trans less_le_trans zero_less_Suc)
  then show ?thesis
    using list_loop_bounds [of 0 resolve b ?task "[]" "l # ls"] by (simp add: parseListBlock_def l case_prod_beta Let_def)
qed

lemma paragraph_bounds: "length (paragraph_lines ls) \<le> length ls"
  by (induction ls) auto

text \<open>On a line without a terminator the expressions with the dot match where those without it do.\<close>

lemma dot_text_sub [simp]:
  "dot_text []" "dot_text (c # s) \<longleftrightarrow> is_dot c \<and> dot_text s"
  "dot_text s \<Longrightarrow> dot_text (drop n s)" "dot_text s \<Longrightarrow> dot_text (dropWhile P s)"
  unfolding dot_text_def list_all_iff by (auto dest: in_set_dropD set_dropWhileD)

lemma dot_text_tail: "drop n s = c # u \<Longrightarrow> dot_text s \<Longrightarrow> dot_text u"
  using dot_text_sub(3) [of s n] by simp

lemma heading_line_start: "dot_text line \<Longrightarrow> heading_line line = None \<longleftrightarrow> \<not> heading_start line"
  by (auto simp: heading_line_def heading_start_def Let_def)

lemma list_open_dot_text: "dot_text line \<Longrightarrow> list_open line = Some (i, k, body) \<Longrightarrow> dot_text body"
  by (auto simp: list_open_def Let_def drop_Cons' split: list.splits if_splits option.splits dest!: dot_text_tail)

lemma list_line_start: "dot_text line \<Longrightarrow> list_line line = None \<longleftrightarrow> list_open line = None"
  using list_open_dot_text [of line] by (auto simp: list_line_def split: option.splits)

lemma quote_lines_dot_text: "list_all dot_text ls \<Longrightarrow> list_all dot_text (quote_lines ls)"
  by (induction ls) (auto simp: quote_lines_def quote_line_def split: list.splits)

lemma list_all_drop_lines: "list_all P ls \<Longrightarrow> list_all P (drop n ls)"
  by (auto simp: list_all_iff dest: in_set_dropD)

text \<open>Every turn takes at least one line, and the lines of a quotation are shorter than what it was read from.\<close>

definition block_fits :: "string list \<Rightarrow> block_out \<times> nat \<Rightarrow> bool" where
  "block_fits ls p \<longleftrightarrow>
     1 \<le> snd p \<and> snd p \<le> length ls
     \<and> (case fst p of Html html \<Rightarrow> True | Quotation q \<Rightarrow> q = quote_lines ls \<and> quote_line (hd ls) \<noteq> None)"

lemma math_block_fits: "block_fits (line # rest) (math_block rest)"
  using length_while [of "\<lambda>l. l \<noteq> ''$$''" rest] by (simp add: block_fits_def math_block_def Let_def)

lemma code_block_fits: "block_fits (line # rest) (code_block line rest)"
  using length_while [of "\<lambda>l. \<not> prefix FENCE l" rest] by (simp add: block_fits_def code_block_def Let_def)

lemma quotation_fits:
  "quote_line line \<noteq> None \<Longrightarrow> block_fits (line # rest) (Quotation (quote_lines (line # rest)), length (quote_lines (line # rest)))"
  using length_while [of "\<lambda>l. quote_line l \<noteq> None" rest] by (simp add: block_fits_def quote_lines_def)

lemma raw_block_fits: "block_fits (line # rest) (Html html, collectRawHtmlBlock (line # rest) name)"
  using collect_raw_first [of name 0 line rest] collect_raw_bounds [of 0 name 0 "line # rest"]
  by (simp add: block_fits_def collectRawHtmlBlock_def)

lemma table_fits: "startsTable (line # rest) \<Longrightarrow> block_fits (line # rest) (Html html, snd (parseTableBlock resolve (line # rest)))"
  using length_while [of "\<lambda>l. trim l \<noteq> [] \<and> CHR ''|'' \<in> set l \<and> \<not> isBlockStart l" "drop 2 (line # rest)"]
  by (auto simp: block_fits_def parseTableBlock_def startsTable_def table_body_lines_def Let_def split: list.splits)

lemma paragraph_fits:
  assumes "trim line \<noteq> []" "\<not> isBlockStart line" "\<not> startsTable (line # rest)"
  shows "block_fits (line # rest) (Html html, length (paragraph_lines (line # rest)))"
  using assms paragraph_bounds [of rest] by (simp add: block_fits_def)

lemma next_block_fits:
  assumes "trim line \<noteq> []" "dot_text line"
  shows "\<exists>p. next_block resolve (line # rest) = Some p \<and> block_fits (line # rest) p"
proof (cases "raw_tag line = None \<and> heading_line line = None")
  case False
  then show ?thesis
    using raw_block_fits [of line rest] by (cases "raw_tag line") (auto simp: next_block_def block_fits_def Let_def)
next
  case True
  then have plain: "raw_tag line = None" "heading_line line = None" "\<not> heading_start line"
    using heading_line_start [OF assms(2)] by simp_all
  consider "line = ''$$''" | "line \<noteq> ''$$''" "prefix FENCE line" | "line \<noteq> ''$$''" "\<not> prefix FENCE line" "rule_line line"
    | "line \<noteq> ''$$''" "\<not> prefix FENCE line" "\<not> rule_line line" "quote_line line \<noteq> None"
    | "line \<noteq> ''$$''" "\<not> prefix FENCE line" "\<not> rule_line line" "quote_line line = None" "list_open line \<noteq> None"
    | "line \<noteq> ''$$''" "\<not> prefix FENCE line" "\<not> rule_line line" "quote_line line = None" "list_open line = None" "startsTable (line # rest)"
    | "line \<noteq> ''$$''" "\<not> prefix FENCE line" "\<not> rule_line line" "quote_line line = None" "list_open line = None"
      "\<not> isBlockStart line" "\<not> startsTable (line # rest)"
    using plain unfolding isBlockStart_def by blast
  then show ?thesis
  proof cases
    case 1
    then show ?thesis using plain math_block_fits by (simp add: next_block_def)
  next
    case 2
    then show ?thesis using plain code_block_fits by (simp add: next_block_def)
  next
    case 3
    then show ?thesis using plain by (simp add: next_block_def block_fits_def)
  next
    case 4
    then show ?thesis using plain quotation_fits by (simp add: next_block_def)
  next
    case 5
    then show ?thesis
      using plain parseListBlock_bounds [of line resolve rest] list_line_start [OF assms(2)]
      by (auto simp: next_block_def block_fits_def)
  next
    case 6
    then show ?thesis using plain table_fits by (simp add: next_block_def case_prod_beta)
  next
    case 7
    then show ?thesis
      using plain paragraph_fits [OF assms(1)] by (simp add: next_block_def Let_def del: paragraph_lines.simps)
  qed
qed

lemma later_lines: "1 \<le> n \<Longrightarrow> lines_size (drop n (line # rest)) < lines_size (line # rest)"
  using lines_size_drop [of "n - 1" rest] by (cases n) auto

lemma quotation_smaller:
  assumes "quote_line l \<noteq> None"
  shows "lines_size (quote_lines (l # ls)) < lines_size (l # ls)"
proof -
  obtain t where t: "quote_line l = Some t" using assms by auto
  then have "quote_lines (l # ls) = t # quote_lines ls" by (simp add: quote_lines_def)
  then show ?thesis using quote_lines_size [of ls] quote_line_shorter [OF t] by simp
qed

lemma parseBlocks_returns: "list_all dot_text ls \<Longrightarrow> \<exists>html. parseBlocks resolve ls = Some html"
proof (induction ls rule: measure_induct_rule [of lines_size])
  case (less ls)
  show ?case
  proof (cases ls)
    case Nil
    then show ?thesis by (simp add: parseBlocks.simps)
  next
    case (Cons line rest)
    show ?thesis
    proof (cases "trim line = []")
      case True
      then show ?thesis using less Cons by (simp add: parseBlocks.simps [of resolve "line # rest"])
    next
      case False
      obtain b n where b: "next_block resolve ls = Some (b, n)" and fits: "block_fits ls (b, n)"
        using next_block_fits [OF False] less.prems Cons by fastforce
      have "lines_size (drop n ls) < lines_size ls" using later_lines fits unfolding Cons block_fits_def by simp
      then obtain out where out: "parseBlocks resolve (drop n ls) = Some out"
        using less.IH list_all_drop_lines [OF less.prems] by blast
      show ?thesis
      proof (cases b)
        case (Html html)
        then show ?thesis using b out False Cons by (simp add: parseBlocks.simps [of resolve "line # rest"])
      next
        case (Quotation q)
        then have q: "q = quote_lines ls" "lines_size q < lines_size ls"
          using fits quotation_smaller unfolding Cons block_fits_def by auto
        then obtain inner where "parseBlocks resolve q = Some inner"
          using less.IH [of q] quote_lines_dot_text [OF less.prems] by blast
        then show ?thesis using b out False Cons Quotation by (simp add: parseBlocks.simps [of resolve "line # rest"])
      qed
    qed
  qed
qed

text \<open>The lines of a text hold no line terminator of this model.\<close>

lemma split_pieces: "list_all (\<lambda>p. c \<notin> set p \<and> set p \<subseteq> set s) (split_on c s)"
  by (induction s) (force simp: list_all_iff split: list.splits)+

lemma no_carriage_return: "CHR 0x0D \<notin> set (replace_all match_cr s)"
proof -
  have "CHR 0x0D \<notin> set (replace_from match_cr prev s)" for prev
  proof (induction "length s" arbitrary: s prev rule: less_induct)
    case less
    then show ?case
    proof (cases s)
      case (Cons c u)
      then show ?thesis using less [of u] less [of "drop 1 u"] by (auto simp: match_cr_def)
    qed simp
  qed
  then show ?thesis by (simp add: replace_all_def)
qed

lemma markdown_lines_dot_text: "list_all dot_text (markdown_lines s)"
  using no_carriage_return [of s] split_pieces [of "CHR 0x0A" "replace_all match_cr s"]
  unfolding list_all_iff dot_text_def is_dot_def markdown_lines_def by blast

lemma markdown_returns: "\<exists>html. markdownToEditorHtml resolve markdown = Some html"
  using parseBlocks_returns [OF markdown_lines_dot_text] by (simp add: markdownToEditorHtml_def)

text \<open>
  C37: The reader of markdown returns on every text of this model, that is on every text without Unicode
  line separators, and its loop over blocks returns on all lines without line terminators, whatever they
  hold: unclosed raw blocks, fences and formulas, lists of any shape, tables without rows.  The loop is
  modelled with what each block consumes, so a turn that takes no line would not return; no list throws.
\<close>

theorem reader_ends:
  assumes "list_all dot_text ls"
  shows "(\<exists>html. parseBlocks resolve ls = Some html) \<and> (\<exists>html. markdownToEditorHtml resolve markdown = Some html)"
  using parseBlocks_returns [OF assms] markdown_returns by blast

theorem reader_ends_witness:
  "(\<exists>html. parseBlocks (\<lambda>s. None) [''``'' @ ''`x'', ''# a'', ''- b''] = Some html)
   \<and> (\<exists>html. markdownToEditorHtml (\<lambda>s. None) ''> a'' = Some html)"
proof -
  have "list_all dot_text [''``'' @ ''`x'', ''# a'', ''- b'']" by code_simp
  then show ?thesis by (rule reader_ends)
qed

text \<open>
  A line terminator inside a line: a heading with one starts a block but is not read as a heading, so the
  branch of paragraphs takes no line, for ever; a list line with one throws.
\<close>

lemma separator_never_ends: "parseBlocks resolve [''# a'' @ [CHR 0x0D] @ ''b''] = None"
proof -
  let ?l = "''# a'' @ [CHR 0x0D] @ ''b''"
  have facts: "trim ?l \<noteq> []" "raw_tag ?l = None" "heading_line ?l = None" "?l \<noteq> ''$$''" "\<not> prefix FENCE ?l" "\<not> rule_line ?l"
    "quote_line ?l = None" "list_open ?l = None" "\<not> startsTable [?l]" "paragraph_lines [?l] = []"
    by code_simp+
  then have "next_block resolve [?l] = Some (Html (tag ''p'' @ parseInline resolve (join_lines (hard_breaks [])) @ tag ''/p''), 0)"
    by (simp add: next_block_def Let_def del: paragraph_lines.simps)
  then have "parseBlocks resolve [?l] = Option.bind (parseBlocks resolve [?l])
      (\<lambda>out. Some ((tag ''p'' @ parseInline resolve (join_lines (hard_breaks [])) @ tag ''/p'') @ out))"
    using facts(1) by (subst parseBlocks.simps) simp
  then show ?thesis by (cases "parseBlocks resolve [?l]") (auto simp: tag_def)
qed

lemma separator_throws: "next_block resolve [''- a'' @ [CHR 0x0D] @ ''b''] = None"
proof -
  have "raw_tag (''- a'' @ [CHR 0x0D] @ ''b'') = None" "heading_line (''- a'' @ [CHR 0x0D] @ ''b'') = None"
    "\<not> prefix FENCE (''- a'' @ [CHR 0x0D] @ ''b'')" "\<not> rule_line (''- a'' @ [CHR 0x0D] @ ''b'')"
    "quote_line (''- a'' @ [CHR 0x0D] @ ''b'') = None" "list_open (''- a'' @ [CHR 0x0D] @ ''b'') \<noteq> None"
    "list_line (''- a'' @ [CHR 0x0D] @ ''b'') = None"
    by code_simp+
  then show ?thesis by (simp add: next_block_def parseListBlock_def)
qed

end
