(* ===== verification/LiveDocExport.thy ===== *)
theory LiveDocExport
  imports LiveDocMarkdown
begin

text \<open>
  Writing a live document as markdown, the exporter of \<open>components/chat/livedoc/liveDocMarkdown.ts\<close>, from
  the nodes of its HTML.  Parsing and printing HTML, and \<open>Number\<close> of an attribute, are the platform's and
  are the fields of \<open>md_env\<close> with the detector of languages of the caller.

  A pipe table is read back with the same cells and alignments (\<open>table_read_back\<close>); the marks of blocks
  can be taken out again, and say where the blocks stand (\<open>sentinels_strip_clean\<close>).  The last section has
  texts that do not survive.
\<close>

record md_env =
  parseFromString :: "string \<Rightarrow> dom list option"          \<comment> \<open>the children of the root\<close>
  outerHTML :: "dom \<Rightarrow> string"
  withInnerHTML :: "string \<Rightarrow> attributes \<Rightarrow> string \<Rightarrow> string"   \<comment> \<open>a clone whose \<open>innerHTML\<close> is set, printed\<close>
  numberOf :: "string \<Rightarrow> int option"                    \<comment> \<open>\<open>None\<close> is NaN\<close>
  detectLanguage :: "(string \<Rightarrow> string option) option"

section \<open>Pieces\<close>

fun join_str :: "string \<Rightarrow> string list \<Rightarrow> string" where
  "join_str sep [] = []"
| "join_str sep [s] = s"
| "join_str sep (s # t # r) = s @ sep @ join_str sep (t # r)"

definition escapeMd :: "string \<Rightarrow> string" where
  "escapeMd s = replace_all (char_matcher (\<lambda>c. if md_escaped c then Some [CHR 0x5C, c] else None)) s"

definition decodeHtmlEntities :: "string \<Rightarrow> string" where
  "decodeHtmlEntities v =
     replace_all (lit ''&#39;'' [CHR 0x27])
       (replace_all (lit ''&quot;'' [CHR 0x22])
         (replace_all (lit ''&gt;'' ''>'') (replace_all (lit ''&lt;'' ''<'') (replace_all (lit ''&amp;'' ''&'') v))))"

definition wrapIfContent :: "string \<Rightarrow> string \<Rightarrow> string" where
  "wrapIfContent inner marker = (if inner = [] then [] else marker @ inner @ marker)"

text \<open>\<open>/text-align:\s*([a-zA-Z]+)/i\<close>.\<close>

fun find_align :: "string \<Rightarrow> string option" where
  "find_align [] = None"
| "find_align (c # s) =
     (case strip_ci ''text-align:'' (c # s) of
        None \<Rightarrow> find_align s
      | Some t \<Rightarrow> (let v = takeWhile is_letter (dropWhile is_ws t) in if v = [] then find_align s else Some v))"

definition readAlign :: "attributes \<Rightarrow> string option" where
  "readAlign attrs =
     (case find_align (getAttribute ''style'' attrs) of
        None \<Rightarrow> None
      | Some m \<Rightarrow> let v = to_lower m in if v = ''left'' then None else Some v)"

definition imgToMarkdown :: "attributes \<Rightarrow> string option" where
  "imgToMarkdown attrs =
     (let src = getAttribute ''src'' attrs;
          alt = replace_char (CHR '']'') [CHR 0x5C, CHR '']''] (replace_char (CHR ''['') [CHR 0x5C, CHR ''[''] (getAttribute ''alt'' attrs));
          title = getAttribute ''title'' attrs;
          titlePart = (if title = [] then [] else CHR '' '' # quoted (replace_char (CHR 0x22) [CHR 0x5C, CHR 0x22] title))
      in if src = [] \<or> list_ex (\<lambda>c. is_ws c \<or> c = CHR ''('' \<or> c = CHR '')'') src then None
         else if \<not> list_all (\<lambda>(k, v). to_lower k \<in> {''src'', ''alt'', ''title''}) attrs then None
         else Some (''!['' @ alt @ '']('' @ src @ titlePart @ '')''))"

section \<open>Inline\<close>

definition raw_or :: "md_env \<Rightarrow> string \<Rightarrow> attributes \<Rightarrow> string \<Rightarrow> string \<Rightarrow> string" where
  "raw_or env t attrs inner other =
     (if map_has attrs ''style'' \<or> map_has attrs ''class'' then withInnerHTML env t attrs inner else other)"

definition span_md :: "md_env \<Rightarrow> attributes \<Rightarrow> string \<Rightarrow> string" where
  "span_md env attrs inner =
     (if includes_str (to_lower (getAttribute ''data-type'' attrs)) ''math''
      then CHR ''$'' # decodeHtmlEntities (getAttribute ''data-latex'' attrs) @ ''$''
      else if map_has attrs ''data-mention-session'' then ''<@'' @ getAttribute ''data-mention-session'' attrs @ ''>''
      else if map_has attrs ''data-mention-role'' then ''<@&'' @ getAttribute ''data-mention-role'' attrs @ ''>''
      else if map_has attrs ''data-mention-everyone'' then ''@everyone''
      else if map_has attrs ''data-mention-here'' then ''@here''
      else if map_has attrs ''data-livedoc-bookmark'' \<or> map_has attrs ''data-livedoc-xref'' then withInnerHTML env ''span'' attrs inner
      else raw_or env ''span'' attrs inner inner)"

definition inline_element :: "md_env \<Rightarrow> string \<Rightarrow> attributes \<Rightarrow> dom list \<Rightarrow> string \<Rightarrow> string" where
  "inline_element env t attrs ch inner =
     (if t = ''strong'' \<or> t = ''b'' then wrapIfContent inner ''**''
      else if t = ''em'' \<or> t = ''i'' then wrapIfContent inner ''*''
      else if t = ''u'' then wrapIfContent inner ''__''
      else if t = ''s'' \<or> t = ''del'' \<or> t = ''strike'' then wrapIfContent inner ''~~''
      else if t = ''sub'' \<or> t = ''sup''
      then (if map_has attrs ''data-livedoc-endnote'' then withInnerHTML env t attrs inner
            else if inner = [] then [] else withInnerHTML env t attrs inner)
      else if t = ''code'' then CHR 0x60 # text_of ch @ [CHR 0x60]
      else if t = ''br'' then ''  '' @ [CHR 0x0A]
      else if t = ''a''
      then (let href = getAttribute ''href'' attrs in CHR ''['' # (if inner = [] then href else inner) @ ''](''  @ href @ '')'')
      else if t = ''img'' then or_else (imgToMarkdown attrs) (outerHTML env (Element t attrs ch))
      else if t = ''span'' then span_md env attrs inner
      else if t = ''mark'' then raw_or env t attrs inner (wrapIfContent inner ''=='')
      else raw_or env t attrs inner inner)"

text \<open>\<open>serializeInlineNode\<close> over the children of an element.\<close>

fun inline_md :: "md_env \<Rightarrow> dom list \<Rightarrow> string" where
  "inline_md env [] = []"
| "inline_md env (TextNode s # r) = escapeMd s @ inline_md env r"
| "inline_md env (CommentNode s # r) = inline_md env r"
| "inline_md env (Element t attrs ch # r) = inline_element env t attrs ch (inline_md env ch) @ inline_md env r"

section \<open>Lists\<close>

definition is_task_list :: "string \<Rightarrow> attributes \<Rightarrow> bool" where
  "is_task_list t attrs \<longleftrightarrow> t = ''ul'' \<and> map_get attrs ''data-type'' = Some ''taskList''"

definition flattened :: "bool \<Rightarrow> string \<Rightarrow> bool" where
  "flattened task t \<longleftrightarrow> t = ''p'' \<or> task \<and> (t = ''div'' \<or> t = ''label'')"

fun item_inline :: "md_env \<Rightarrow> bool \<Rightarrow> dom list \<Rightarrow> string" where
  "item_inline env task [] = []"
| "item_inline env task (Element t attrs ch # r) =
     (if t = ''ul'' \<or> t = ''ol'' then [] else if flattened task t then inline_md env ch else inline_md env [Element t attrs ch])
       @ item_inline env task r"
| "item_inline env task (n # r) = inline_md env [n] @ item_inline env task r"

definition item_head :: "md_env \<Rightarrow> bool \<Rightarrow> dom list \<Rightarrow> string" where
  "item_head env task ch = replace_char (CHR 0x0A) '' '' (trim (item_inline env task ch))"

definition indent_lines :: "string \<Rightarrow> string" where
  "indent_lines nested = join_lines (map (\<lambda>l. ''  '' @ l) (split_on (CHR 0x0A) nested))"

definition list_marker :: "bool \<Rightarrow> int option \<Rightarrow> string" where
  "list_marker ordered n = (if ordered then (case n of Some i \<Rightarrow> show_int i | None \<Rightarrow> ''NaN'') @ ''. '' else ''- '')"

definition list_start :: "md_env \<Rightarrow> bool \<Rightarrow> attributes \<Rightarrow> int option" where
  "list_start env ordered attrs = (if ordered then numberOf env (or_else (map_get attrs ''start'') ''1'') else Some 0)"

text \<open>The lines of \<open>serializeList\<close> and \<open>serializeTaskList\<close>, and the nested lists of an item.\<close>

fun list_lines :: "md_env \<Rightarrow> bool \<Rightarrow> int option \<Rightarrow> dom list \<Rightarrow> string list"
  and task_lines :: "md_env \<Rightarrow> dom list \<Rightarrow> string list"
  and nested_lists :: "md_env \<Rightarrow> bool \<Rightarrow> dom list \<Rightarrow> string list" where
  "list_lines env ordered n [] = []"
| "list_lines env ordered n (Element t attrs ch # r) =
     (if t = ''li''
      then (list_marker ordered n @ item_head env False ch) # map indent_lines (nested_lists env False ch)
             @ list_lines env ordered (map_option (\<lambda>i. i + 1) n) r
      else list_lines env ordered n r)"
| "list_lines env ordered n (TextNode s # r) = list_lines env ordered n r"
| "list_lines env ordered n (CommentNode s # r) = list_lines env ordered n r"
| "task_lines env [] = []"
| "task_lines env (Element t attrs ch # r) =
     (if t = ''li''
      then ((if map_get attrs ''data-checked'' = Some ''true'' then ''- [x] '' else ''- [ ] '') @ item_head env True ch)
             # map indent_lines (nested_lists env True ch) @ task_lines env r
      else task_lines env r)"
| "task_lines env (TextNode s # r) = task_lines env r"
| "task_lines env (CommentNode s # r) = task_lines env r"
| "nested_lists env task [] = []"
| "nested_lists env task (Element t attrs ch # r) =
     (if task \<and> is_task_list t attrs then [join_lines (task_lines env ch)]
      else if t = ''ul'' \<or> t = ''ol'' then [join_lines (list_lines env (t = ''ol'') (list_start env (t = ''ol'') attrs) ch)]
      else []) @ nested_lists env task r"
| "nested_lists env task (TextNode s # r) = nested_lists env task r"
| "nested_lists env task (CommentNode s # r) = nested_lists env task r"

definition serializeList :: "md_env \<Rightarrow> bool \<Rightarrow> attributes \<Rightarrow> dom list \<Rightarrow> string" where
  "serializeList env ordered attrs ch = join_lines (list_lines env ordered (list_start env ordered attrs) ch)"

definition serializeTaskList :: "md_env \<Rightarrow> dom list \<Rightarrow> string" where
  "serializeTaskList env ch = join_lines (task_lines env ch)"

section \<open>Tables\<close>

definition INLINE_CELL_TAGS :: "string list" where
  "INLINE_CELL_TAGS = [''strong'', ''b'', ''em'', ''i'', ''u'', ''s'', ''del'', ''strike'', ''sub'', ''sup'', ''code'', ''br'', ''a'',
     ''img'', ''span'', ''mark'', ''font'']"

record serialized_cell =
  sc_text :: string
  sc_align :: "string option"
  sc_header :: bool

definition row_children :: "dom \<Rightarrow> dom list list" where
  "row_children n = (case n of Element t attrs ch \<Rightarrow> if t = ''tr'' then [ch] else [] | _ \<Rightarrow> [])"

text \<open>The rows, by their children.\<close>

definition collectTableRows :: "dom list \<Rightarrow> dom list list" where
  "collectTableRows ch =
     concat (map (\<lambda>n. case n of
        Element t attrs sub \<Rightarrow>
          if t = ''tr'' then [sub]
          else if t = ''thead'' \<or> t = ''tbody'' \<or> t = ''tfoot'' then concat (map row_children sub) else []
      | _ \<Rightarrow> []) ch)"

fun cell_parts :: "md_env \<Rightarrow> string list \<Rightarrow> string option \<Rightarrow> dom list \<Rightarrow> (string list \<times> string option) option" where
  "cell_parts env parts align [] = Some (parts, align)"
| "cell_parts env parts align (TextNode s # r) = cell_parts env (parts @ [escapeMd s]) align r"
| "cell_parts env parts align (CommentNode s # r) = cell_parts env parts align r"
| "cell_parts env parts align (Element t attrs ch # r) =
     (if t = ''p'' \<or> t = ''div''
      then cell_parts env (parts @ (if parts \<noteq> [] \<and> trim (last parts) \<noteq> [] then [tag ''br''] else []) @ [inline_md env ch])
             (or_opt (readAlign attrs) align) r
      else if t \<in> set INLINE_CELL_TAGS then cell_parts env (parts @ [inline_md env [Element t attrs ch]]) align r
      else None)"

definition match_newlines :: "string \<Rightarrow> nat \<Rightarrow> string matcher" where
  "match_newlines r least prev s =
     (let n = length (takeWhile (\<lambda>c. c = CHR 0x0A) s) in if least \<le> n \<and> 1 \<le> n then Some (n, r) else None)"

definition escape_pipes :: "string \<Rightarrow> string" where
  "escape_pipes s = replace_char (CHR ''|'') [CHR 0x5C, CHR ''|''] s"

definition one_line :: "string \<Rightarrow> string" where
  "one_line s = replace_all (match_newlines '' '' 1) (replace_all (lit (''  '' @ [CHR 0x0A]) (tag ''br'')) s)"

definition serializeCell :: "md_env \<Rightarrow> string \<Rightarrow> dom list \<Rightarrow> serialized_cell option" where
  "serializeCell env t ch =
     map_option (\<lambda>(parts, align).
        \<lparr>sc_text = trim (escape_pipes (one_line (concat parts))), sc_align = align, sc_header = (t = ''th'')\<rparr>)
       (cell_parts env [] None ch)"

text \<open>The cells of one row; \<open>None\<close> for a merged cell or one that is not inline.\<close>

fun row_cells :: "md_env \<Rightarrow> dom list \<Rightarrow> serialized_cell list option" where
  "row_cells env [] = Some []"
| "row_cells env (Element t attrs ch # r) =
     (if t \<noteq> ''td'' \<and> t \<noteq> ''th'' then row_cells env r
      else let span = (\<lambda>k. case numberOf env (or_else (map_get attrs k) ''1'') of Some i \<Rightarrow> 1 < i | None \<Rightarrow> False)
           in if span ''colspan'' \<or> span ''rowspan'' then None
              else case serializeCell env t ch of
                     None \<Rightarrow> None
                   | Some c \<Rightarrow> map_option (Cons c) (row_cells env r))"
| "row_cells env (n # r) = row_cells env r"

fun table_matrix :: "md_env \<Rightarrow> dom list list \<Rightarrow> serialized_cell list list option" where
  "table_matrix env [] = Some []"
| "table_matrix env (tr # rows) =
     (case row_cells env tr of
        None \<Rightarrow> None
      | Some cells \<Rightarrow> map_option (\<lambda>m. if cells = [] then m else cells # m) (table_matrix env rows))"

definition column_align :: "serialized_cell list list \<Rightarrow> nat \<Rightarrow> string option" where
  "column_align matrix c =
     Option.bind (List.find (\<lambda>row. c < length row \<and> or_else (sc_align (row ! c)) [] \<noteq> []) matrix) (\<lambda>row. sc_align (row ! c))"

definition delim_cell :: "string option \<Rightarrow> string" where
  "delim_cell a =
     (if a = Some ''center'' then '':-:'' else if a = Some ''right'' then ''--:'' else if a = Some ''left'' then '':--'' else ''---'')"

definition pipe_row :: "string list \<Rightarrow> string" where
  "pipe_row ts = ''| '' @ join_str '' | '' ts @ '' |''"

definition row_texts :: "nat \<Rightarrow> serialized_cell list \<Rightarrow> string list" where
  "row_texts colCount row = map (\<lambda>c. if c < length row then sc_text (row ! c) else []) [0..<colCount]"

definition column_count :: "serialized_cell list list \<Rightarrow> nat" where
  "column_count matrix = fold max (map length matrix) 0"

definition table_lines_md :: "serialized_cell list list \<Rightarrow> string list" where
  "table_lines_md matrix =
     (let colCount = column_count matrix
      in pipe_row (row_texts colCount (hd matrix)) # pipe_row (map (\<lambda>c. delim_cell (column_align matrix c)) [0..<colCount])
           # map (\<lambda>row. pipe_row (row_texts colCount row)) (tl matrix))"

definition tableToMarkdown :: "md_env \<Rightarrow> dom list \<Rightarrow> string option" where
  "tableToMarkdown env ch =
     (case table_matrix env (collectTableRows ch) of
        None \<Rightarrow> None
      | Some matrix \<Rightarrow> if column_count matrix = 0 then None else Some (join_lines (table_lines_md matrix)))"

section \<open>Blocks\<close>

fun first_code :: "dom list \<Rightarrow> (attributes \<times> dom list) option" where
  "first_code [] = None"
| "first_code (Element t attrs ch # r) = (if t = ''code'' then Some (attrs, ch) else or_opt (first_code ch) (first_code r))"
| "first_code (n # r) = first_code r"

fun class_language :: "string \<Rightarrow> string" where
  "class_language [] = []"
| "class_language (c # s) =
     (case strip_prefix ''language-'' (c # s) of
        Some t \<Rightarrow> (let lang = takeWhile is_lang_char t in if lang = [] then class_language s else lang)
      | None \<Rightarrow> class_language s)"

definition pre_md :: "md_env \<Rightarrow> dom list \<Rightarrow> string" where
  "pre_md env ch =
     (let code = first_code ch;
          langCls = (case code of Some (attrs, _) \<Rightarrow> getAttribute ''class'' attrs | None \<Rightarrow> []);
          body = drop_last_newline (case code of Some (_, sub) \<Rightarrow> text_of sub | None \<Rightarrow> text_of ch);
          lang = class_language langCls;
          shown = (if lang \<noteq> [] then lang
                   else case detectLanguage env of Some d \<Rightarrow> or_else (d body) [] | None \<Rightarrow> [])
      in FENCE @ shown @ CHR 0x0A # body @ CHR 0x0A # FENCE)"

definition quote_md :: "string \<Rightarrow> string" where
  "quote_md blocks =
     (let inner = trim blocks
      in if inner = [] then ''> ''
         else join_lines (map (\<lambda>l. if l = [] then ''>'' else ''> '' @ l) (split_on (CHR 0x0A) inner)))"

definition div_md :: "md_env \<Rightarrow> attributes \<Rightarrow> dom list \<Rightarrow> string \<Rightarrow> string" where
  "div_md env attrs ch blocks =
     (let raw = outerHTML env (Element ''div'' attrs ch)
      in if list_ex (map_has attrs) [''data-page-break'', ''data-section-break'', ''data-livedoc-toc'', ''data-livedoc-endnotes''] then raw
         else if map_get attrs ''data-type'' = Some ''block-math''
         then join_lines [''$$'', decodeHtmlEntities (getAttribute ''data-latex'' attrs), ''$$'']
         else if list_ex (map_has attrs) [''style'', ''align'', ''class''] then raw else blocks)"

definition heading_level :: "string \<Rightarrow> nat option" where
  "heading_level t = index_of [''h1'', ''h2'', ''h3'', ''h4'', ''h5'', ''h6''] t"

text \<open>One element at block level; \<open>blocks\<close> is what its children give as blocks.\<close>

definition block_element :: "md_env \<Rightarrow> string \<Rightarrow> attributes \<Rightarrow> dom list \<Rightarrow> string \<Rightarrow> string" where
  "block_element env t attrs ch blocks =
     (let raw = outerHTML env (Element t attrs ch); styled = (or_else (readAlign attrs) [] \<noteq> [] \<or> map_has attrs ''data-dropcap'')
      in case heading_level t of
           Some i \<Rightarrow> if styled then raw else replicate (i + 1) (CHR ''#'') @ CHR '' '' # trim (inline_md env ch)
         | None \<Rightarrow>
             if t = ''p''
             then (if styled then raw
                   else let inline = inline_md env ch in if trim inline = [] then tag ''p'' @ tag ''/p'' else inline)
             else if t = ''br'' then ''  ''
             else if t = ''hr'' then ''---''
             else if t = ''blockquote'' then quote_md blocks
             else if is_task_list t attrs then serializeTaskList env ch
             else if t = ''ul'' \<or> t = ''ol'' then serializeList env (t = ''ol'') attrs ch
             else if t = ''pre'' then pre_md env ch
             else if t = ''img'' then or_else (imgToMarkdown attrs) raw
             else if t = ''table'' then or_else (tableToMarkdown env ch) raw
             else if t = ''figure'' then raw
             else if t = ''figcaption'' \<and> map_has attrs ''data-livedoc-caption'' then raw
             else if t = ''div'' then div_md env attrs ch blocks
             else inline_md env ch)"

definition join_blocks :: "string list \<Rightarrow> string" where
  "join_blocks chunks = join_str [CHR 0x0A, CHR 0x0A] (filter (\<lambda>c. c \<noteq> []) chunks)"

text \<open>\<open>serializeBlockNode\<close> of every node.\<close>

fun block_chunks :: "md_env \<Rightarrow> dom list \<Rightarrow> string list" where
  "block_chunks env [] = []"
| "block_chunks env (TextNode s # r) = escapeMd (trim s) # block_chunks env r"
| "block_chunks env (CommentNode s # r) = [] # block_chunks env r"
| "block_chunks env (Element t attrs ch # r) = block_element env t attrs ch (join_blocks (block_chunks env ch)) # block_chunks env r"

definition sentinel :: "nat \<Rightarrow> string" where
  "sentinel i = NUL # show_nat i @ [NUL]"

definition marked_chunks :: "bool \<Rightarrow> string list \<Rightarrow> string list" where
  "marked_chunks mark chunks =
     map (\<lambda>(i, c). if mark then sentinel i @ c else c) (filter (\<lambda>(i, c). c \<noteq> []) (enumerate 0 chunks))"

definition serializeTopLevel :: "md_env \<Rightarrow> bool \<Rightarrow> dom list \<Rightarrow> string" where
  "serializeTopLevel env mark nodes = join_str [CHR 0x0A, CHR 0x0A] (marked_chunks mark (block_chunks env nodes))"

definition trim_end :: "string \<Rightarrow> string" where
  "trim_end s = rev (dropWhile is_ws (rev s))"

definition tidy :: "string \<Rightarrow> string" where
  "tidy out = trim_end (dropWhile (\<lambda>c. c = CHR 0x0A) (replace_all (match_newlines [CHR 0x0A, CHR 0x0A] 3) out)) @ [CHR 0x0A]"

definition editorHtmlToMarkdown :: "md_env \<Rightarrow> bool \<Rightarrow> string \<Rightarrow> string" where
  "editorHtmlToMarkdown env mark html =
     (if trim html = [] then []
      else case parseFromString env html of None \<Rightarrow> [] | Some nodes \<Rightarrow> tidy (serializeTopLevel env mark nodes))"

section \<open>Taking the marks out\<close>

text \<open>\<open>NUL([0-9]+)NUL\<close> at a position: the index and the rest.\<close>

definition sentinel_here :: "string \<Rightarrow> (nat \<times> string) option" where
  "sentinel_here s =
     (case strip_prefix [NUL] s of
        None \<Rightarrow> None
      | Some t \<Rightarrow>
          (let ds = takeWhile is_digit t
           in if ds \<noteq> [] \<and> prefix [NUL] (drop (length ds) t) then Some (read_digits ds, drop (length ds + 1) t) else None))"

lemma sentinel_here_shorter: "sentinel_here s = Some (i, t) \<Longrightarrow> length t < length s"
  by (auto simp: sentinel_here_def Let_def split: option.splits if_splits)

text \<open>The text so far and the offsets; a later mark of the same index wins.\<close>

function strip_marks :: "string \<Rightarrow> (nat, nat) jmap \<Rightarrow> string \<Rightarrow> string \<times> (nat, nat) jmap" where
  "strip_marks acc starts s =
     (case s of
        [] \<Rightarrow> (acc, starts)
      | c # r \<Rightarrow>
          (case sentinel_here s of
             Some (i, t) \<Rightarrow> strip_marks acc (map_set i (length acc) starts) t
           | None \<Rightarrow> strip_marks (acc @ [c]) starts r))"
  by pat_completeness auto
termination by (relation "measure (\<lambda>(acc, starts, s). length s)") (auto dest: sentinel_here_shorter)

declare strip_marks.simps [simp del]

definition stripBlockSentinels :: "string \<Rightarrow> string \<times> (nat, nat) jmap" where
  "stripBlockSentinels txt = strip_marks [] [] txt"


section \<open>Tables are read back\<close>

lemma escape_pipes_concat: "escape_pipes s = concat (map (\<lambda>c. if c = CHR ''|'' then [CHR 0x5C, CHR ''|''] else [c]) s)"
proof -
  have "(\<lambda>c. or_else (if c = CHR ''|'' then Some [CHR 0x5C, CHR ''|''] else None) [c]) =
      (\<lambda>c. if c = CHR ''|'' then [CHR 0x5C, CHR ''|''] else [c])" by auto
  then show ?thesis by (simp add: escape_pipes_def replace_char_def replace_all_chars)
qed

lemma escape_pipes_simps [simp]:
  "escape_pipes [] = []"
  "escape_pipes (c # s) = (if c = CHR ''|'' then CHR 0x5C # CHR ''|'' # escape_pipes s else c # escape_pipes s)"
  "escape_pipes (s @ t) = escape_pipes s @ escape_pipes t"
  by (simp_all add: escape_pipes_concat)

lemma escape_pipes_chars: "c \<in> set (escape_pipes s) \<Longrightarrow> c \<in> set s \<or> c = CHR 0x5C"
  by (induction s) (auto split: if_splits)

lemma escape_pipes_Nil [simp]: "escape_pipes s = [] \<longleftrightarrow> s = []"
  by (cases s) auto

lemma pipe_not_ws [simp]: "\<not> is_ws (CHR ''|'')" "\<not> is_ws (CHR 0x5C)" "is_ws (CHR '' '')"
  by (simp_all add: is_ws_def)

lemma dropWhile_escape: "dropWhile is_ws (escape_pipes s) = escape_pipes (dropWhile is_ws s)"
  by (induction s) auto

lemma dropWhile_rev_escape: "dropWhile is_ws (rev (escape_pipes s)) = rev (escape_pipes (rev (dropWhile is_ws (rev s))))"
  by (induction s rule: rev_induct) (auto simp: dropWhile_append)

lemma trim_escape: "trim (escape_pipes s) = escape_pipes (trim s)"
  by (simp add: trim_def dropWhile_escape dropWhile_rev_escape)

text \<open>A cell between blanks is read as it was before its pipes were escaped.\<close>

lemma split_cells_escape:
  "rest = [] \<or> hd rest \<noteq> CHR ''|'' \<Longrightarrow> split_cells cur (escape_pipes v @ rest) = split_cells (cur @ v) rest"
proof (induction v arbitrary: cur)
  case (Cons c v)
  have IH: "split_cells cur (escape_pipes v @ rest) = split_cells (cur @ v) rest" for cur using Cons by blast
  show ?case
  proof (cases "c = CHR ''|''")
    case False
    have "\<not> prefix ''|'' (escape_pipes v @ rest)" using Cons.prems by (cases v; cases rest) (auto simp: prefix_def)
    then show ?thesis using False IH by simp
  qed (simp add: IH)
qed simp

lemma split_cells_row:
  "vs \<noteq> [] \<Longrightarrow> split_cells [] (CHR '' '' # join_str '' | '' (map escape_pipes vs) @ '' '') = map (\<lambda>v. CHR '' '' # v @ '' '') vs"
proof (induction vs rule: induct_list012)
  case (2 v)
  then show ?case using split_cells_escape [of "'' ''" "'' ''" v] by simp
next
  case (3 v w vs)
  let ?rest = "CHR '' '' # CHR ''|'' # CHR '' '' # join_str '' | '' (map escape_pipes (w # vs)) @ '' ''"
  have "split_cells '' '' (escape_pipes v @ ?rest) = split_cells ('' '' @ v) ?rest" by (rule split_cells_escape) simp
  then show ?case using 3 by simp
qed simp

lemma trim_padded: "trim v = v \<Longrightarrow> trim (CHR '' '' # v @ '' '') = v"
proof (cases "v = []")
  case False
  assume v: "trim v = v"
  have "\<not> (\<forall>c \<in> set v. is_ws c)"
  proof
    assume "\<forall>c \<in> set v. is_ws c"
    then have nil: "dropWhile is_ws v = []" by simp
    have "trim v = []" by (simp only: trim_def nil) simp
    then show False using v False by simp
  qed
  then have "dropWhile is_ws (v @ '' '') = dropWhile is_ws v @ '' ''" by (auto simp: dropWhile_append)
  then show ?thesis using v by (simp add: trim_def)
qed (simp add: trim_def)

lemma splitTableRow_pipe_row:
  assumes "vs \<noteq> []" "\<forall>v \<in> set vs. trim v = v"
  shows "splitTableRow (pipe_row (map escape_pipes vs)) = vs"
proof -
  let ?inner = "CHR '' '' # join_str '' | '' (map escape_pipes vs) @ '' ''"
  have row: "pipe_row (map escape_pipes vs) = CHR ''|'' # ?inner @ ''|''" by (simp add: pipe_row_def)
  have "trim (CHR ''|'' # ?inner @ ''|'') = CHR ''|'' # ?inner @ ''|''" by (simp add: trim_def)
  moreover have "suffix ''|'' (?inner @ ''|'')" "\<not> suffix [CHR 0x5C, CHR ''|''] (?inner @ ''|'')" by (auto simp: suffix_def)
  moreover have "butlast (?inner @ ''|'') = ?inner" by (simp only: butlast_snoc)
  ultimately have "splitTableRow (pipe_row (map escape_pipes vs)) = map trim (split_cells [] ?inner)"
    by (simp only: splitTableRow_def row Let_def) simp
  then show ?thesis using assms split_cells_row [OF assms(1)] by (simp add: trim_padded map_idI)
qed

text \<open>A row that is written ends and begins with a pipe and a blank, and starts no other block.\<close>

lemma pipe_row_line:
  "trim (pipe_row ts) \<noteq> []" "CHR ''|'' \<in> set (pipe_row ts)" "\<not> isBlockStart (pipe_row ts)"
proof -
  obtain r where r: "pipe_row ts = CHR ''|'' # CHR '' '' # r @ ''|''" by (simp add: pipe_row_def)
  have t: "trim (pipe_row ts) = pipe_row ts" unfolding r by (simp add: trim_def)
  then show "trim (pipe_row ts) \<noteq> []" "CHR ''|'' \<in> set (pipe_row ts)" by (simp_all add: r)
  have "\<not> rule_line (pipe_row ts)" by (simp add: rule_line_def t) (simp add: r)
  then show "\<not> isBlockStart (pipe_row ts)"
    by (simp add: isBlockStart_def) (simp add: r heading_start_def FENCE_def quote_line_def list_open_def raw_tag_def strip_prefix_def is_digit_def Let_def)
qed

lemma split_join_lines: "ls \<noteq> [] \<Longrightarrow> \<forall>l \<in> set ls. CHR 0x0A \<notin> set l \<Longrightarrow> split_on (CHR 0x0A) (join_lines ls) = ls"
proof (induction ls rule: induct_list012)
  have one: "CHR 0x0A \<notin> set l \<Longrightarrow> split_on (CHR 0x0A) l = [l]" for l by (induction l) auto
  case (2 l)
  then show ?case using one by (simp add: join_lines_def)
next
  case (3 l k ls)
  have cons: "CHR 0x0A \<notin> set l \<Longrightarrow> split_on (CHR 0x0A) (l @ CHR 0x0A # s) = l # split_on (CHR 0x0A) s" for l s
    by (induction l) auto
  show ?case using 3 by (simp add: join_lines_def cons)
qed simp

section \<open>The cells of a table\<close>

lemma match_newlines_none: "CHR 0x0A \<notin> set (replace_all (match_newlines '' '' 1) s)"
proof -
  have "CHR 0x0A \<notin> set (replace_from (match_newlines '' '' 1) prev s)" for prev
  proof (induction "length s" arbitrary: s prev rule: less_induct)
    case less
    then show ?case
    proof (cases s)
      case (Cons c t)
      then show ?thesis using less [of t] less [of "drop (length (takeWhile (\<lambda>c. c = CHR 0x0A) s) - 1) t"]
        by (auto simp: match_newlines_def Let_def)
    qed simp
  qed
  then show ?thesis by (simp add: replace_all_def)
qed

definition cell_text_ok :: "string \<Rightarrow> bool" where
  "cell_text_ok s \<longleftrightarrow> (\<exists>v. s = escape_pipes v \<and> trim v = v \<and> CHR 0x0A \<notin> set v)"

lemma cell_text_Nil [simp]: "cell_text_ok []"
  by (auto simp: cell_text_ok_def trim_def intro!: exI [of _ "[]"])

lemma serializeCell_ok: "serializeCell env t ch = Some c \<Longrightarrow> cell_text_ok (sc_text c)"
proof -
  assume "serializeCell env t ch = Some c"
  then obtain parts where c: "sc_text c = escape_pipes (trim (one_line (concat parts)))"
    by (auto simp: serializeCell_def trim_escape)
  moreover have "CHR 0x0A \<notin> set (trim (one_line (concat parts)))"
    using match_newlines_none set_trim unfolding one_line_def by blast
  ultimately show ?thesis unfolding cell_text_ok_def using trim_idem by blast
qed

lemma row_cells_ok: "row_cells env ch = Some cs \<Longrightarrow> \<forall>c \<in> set cs. cell_text_ok (sc_text c)"
  by (induction env ch arbitrary: cs rule: row_cells.induct)
    (auto simp: Let_def split: if_splits option.splits dest: serializeCell_ok)

lemma table_matrix_ok:
  "table_matrix env rows = Some m \<Longrightarrow> \<forall>row \<in> set m. row \<noteq> [] \<and> (\<forall>c \<in> set row. cell_text_ok (sc_text c))"
proof (induction env rows arbitrary: m rule: table_matrix.induct)
  case (2 env tr rows)
  then obtain cells m' where "row_cells env tr = Some cells" "table_matrix env rows = Some m'"
    "m = (if cells = [] then m' else cells # m')" by (auto split: option.splits)
  then show ?case using 2(1) [of cells m'] row_cells_ok [of env tr cells] by auto
qed simp

lemma all_cell_texts:
  "\<forall>s \<in> set xs. cell_text_ok s \<Longrightarrow> \<exists>vs. xs = map escape_pipes vs \<and> (\<forall>v \<in> set vs. trim v = v \<and> CHR 0x0A \<notin> set v)"
proof (induction xs)
  case (Cons s xs)
  then obtain vs where "xs = map escape_pipes vs" "\<forall>v \<in> set vs. trim v = v \<and> CHR 0x0A \<notin> set v" by auto
  moreover obtain v where "s = escape_pipes v" "trim v = v" "CHR 0x0A \<notin> set v" using Cons.prems by (auto simp: cell_text_ok_def)
  ultimately show ?case by (intro exI [of _ "v # vs"]) simp
qed simp

lemma row_texts_ok:
  assumes "\<forall>c \<in> set row. cell_text_ok (sc_text c)"
  shows "\<exists>vs. row_texts n row = map escape_pipes vs \<and> length vs = n \<and> (\<forall>v \<in> set vs. trim v = v \<and> CHR 0x0A \<notin> set v)"
proof -
  have "\<forall>s \<in> set (row_texts n row). cell_text_ok s" using assms by (auto simp: row_texts_def)
  from all_cell_texts [OF this] obtain vs where vs: "row_texts n row = map escape_pipes vs"
    "\<forall>v \<in> set vs. trim v = v \<and> CHR 0x0A \<notin> set v" by blast
  have "length vs = length (row_texts n row)" by (simp add: vs(1))
  then show ?thesis using vs by (intro exI [of _ vs]) (simp add: row_texts_def)
qed


lemma delim_cell_ok:
  "escape_pipes (delim_cell a) = delim_cell a" "trim (delim_cell a) = delim_cell a" "CHR 0x0A \<notin> set (delim_cell a)"
  "delimiter_cell (delim_cell a)" "CHR ''-'' \<in> set (delim_cell a)"
  by (simp_all add: delim_cell_def trim_def is_ws_def delimiter_cell_def)

definition kept_align :: "string option \<Rightarrow> string option" where
  "kept_align a = (if a \<in> {Some ''center'', Some ''right'', Some ''left''} then a else None)"

lemma delim_cell_align: "parseTableAlign (delim_cell a) = kept_align a"
  by (auto simp: parseTableAlign_def delim_cell_def kept_align_def suffix_def Let_def)

lemma pipe_row_no_newline: "\<forall>t \<in> set ts. CHR 0x0A \<notin> set t \<Longrightarrow> CHR 0x0A \<notin> set (pipe_row ts)"
proof -
  have "\<forall>t \<in> set ts. CHR 0x0A \<notin> set t \<Longrightarrow> CHR 0x0A \<notin> set (join_str '' | '' ts)" by (induction ts rule: induct_list012) auto
  then show "\<forall>t \<in> set ts. CHR 0x0A \<notin> set t \<Longrightarrow> CHR 0x0A \<notin> set (pipe_row ts)" by (simp add: pipe_row_def)
qed

lemma row_read_back:
  assumes "0 < n" "\<forall>c \<in> set row. cell_text_ok (sc_text c)"
  shows "map escape_pipes (splitTableRow (pipe_row (row_texts n row))) = row_texts n row" "CHR 0x0A \<notin> set (pipe_row (row_texts n row))"
proof -
  obtain vs where vs: "row_texts n row = map escape_pipes vs" "length vs = n" "\<forall>v \<in> set vs. trim v = v \<and> CHR 0x0A \<notin> set v"
    using row_texts_ok [OF assms(2)] by blast
  then have "splitTableRow (pipe_row (map escape_pipes vs)) = vs" using assms(1) by (intro splitTableRow_pipe_row) auto
  then show "map escape_pipes (splitTableRow (pipe_row (row_texts n row))) = row_texts n row" using vs(1) by simp
  show "CHR 0x0A \<notin> set (pipe_row (row_texts n row))"
    unfolding vs(1) using vs(3) escape_pipes_chars by (intro pipe_row_no_newline) fastforce
qed

lemma delim_row_read_back:
  assumes "0 < n"
  shows "splitTableRow (pipe_row (map (\<lambda>c. delim_cell (f c)) [0..<n])) = map (\<lambda>c. delim_cell (f c)) [0..<n]"
    "isTableDelimiterRow (pipe_row (map (\<lambda>c. delim_cell (f c)) [0..<n]))"
    "CHR 0x0A \<notin> set (pipe_row (map (\<lambda>c. delim_cell (f c)) [0..<n]))"
proof -
  let ?ds = "map (\<lambda>c. delim_cell (f c)) [0..<n]"
  have esc: "map escape_pipes ?ds = ?ds" by (simp add: delim_cell_ok)
  show split: "splitTableRow (pipe_row ?ds) = ?ds"
    using splitTableRow_pipe_row [of ?ds] assms by (simp only: esc) (simp add: delim_cell_ok)
  have "CHR ''-'' \<in> set (join_str '' | '' ts)" if "ts \<noteq> []" "\<forall>t \<in> set ts. CHR ''-'' \<in> set t" for ts
    using that by (induction ts rule: induct_list012) auto
  from this [of ?ds] have "CHR ''-'' \<in> set (pipe_row ?ds)" using assms by (simp add: pipe_row_def delim_cell_ok)
  then show "isTableDelimiterRow (pipe_row ?ds)" by (simp add: isTableDelimiterRow_def split list_all_iff delim_cell_ok)
  show "CHR 0x0A \<notin> set (pipe_row ?ds)" by (rule pipe_row_no_newline) (simp add: delim_cell_ok)
qed

text \<open>
  A table that is written as a pipe table is read back as that table: the reader takes all its lines,
  every cell has its text again, pipes and backslashes included, short rows are filled up, and a column
  that is centred or to the right is so again.
\<close>

theorem table_read_back:
  assumes "tableToMarkdown env ch = Some md"
  shows "\<exists>matrix. table_matrix env (collectTableRows ch) = Some matrix \<and>
    (let ls = split_on (CHR 0x0A) md; n = column_count matrix
     in startsTable ls \<and> length ls = length matrix + 1 \<and> snd (parseTableBlock resolve ls) = length ls
       \<and> map escape_pipes (splitTableRow (ls ! 0)) = row_texts n (hd matrix)
       \<and> map parseTableAlign (splitTableRow (ls ! 1)) = map (\<lambda>c. kept_align (column_align matrix c)) [0..<n]
       \<and> map (\<lambda>l. map escape_pipes (splitTableRow l)) (drop 2 ls) = map (row_texts n) (tl matrix))"
proof -
  obtain matrix where m: "table_matrix env (collectTableRows ch) = Some matrix" "column_count matrix \<noteq> 0"
    and md: "md = join_lines (table_lines_md matrix)"
    using assms by (auto simp: tableToMarkdown_def split: option.splits if_splits)
  let ?n = "column_count matrix" and ?ls = "table_lines_md matrix"
  obtain header body where hb: "matrix = header # body" using m(2) by (cases matrix) (auto simp: column_count_def)
  have n: "0 < ?n" using m(2) by simp
  have ok: "\<forall>c \<in> set row. cell_text_ok (sc_text c)" if "row \<in> set matrix" for row
    using table_matrix_ok [OF m(1)] that by blast
  have ls: "?ls = pipe_row (row_texts ?n header) # pipe_row (map (\<lambda>c. delim_cell (column_align matrix c)) [0..<?n])
      # map (\<lambda>row. pipe_row (row_texts ?n row)) body"
    by (simp add: table_lines_md_def hb Let_def)
  have members: "header \<in> set matrix" "set body \<subseteq> set matrix" using hb by auto
  have "\<forall>l \<in> set ?ls. CHR 0x0A \<notin> set l"
    unfolding ls using row_read_back(2) [OF n ok] delim_row_read_back(3) [OF n] members by auto
  moreover have "?ls \<noteq> []" by (simp add: ls)
  ultimately have "split_on (CHR 0x0A) (join_lines ?ls) = ?ls" by (intro split_join_lines)
  then have split: "split_on (CHR 0x0A) md = ?ls" by (simp only: md)
  have body_lines: "table_body_lines (map (\<lambda>row. pipe_row (row_texts ?n row)) body) = map (\<lambda>row. pipe_row (row_texts ?n row)) body"
    unfolding table_body_lines_def using pipe_row_line by (intro takeWhile_eq_all_conv [THEN iffD2]) auto
  have "map (\<lambda>l. map escape_pipes (splitTableRow l)) (map (\<lambda>row. pipe_row (row_texts ?n row)) body) = map (row_texts ?n) body"
    using row_read_back(1) [OF n ok] hb by simp
  moreover have "startsTable ?ls" using pipe_row_line(2) delim_row_read_back(2) [OF n] by (simp add: ls startsTable_def)
  moreover have "snd (parseTableBlock resolve ?ls) = length ?ls" by (simp add: parseTableBlock_def Let_def ls body_lines)
  moreover have "map escape_pipes (splitTableRow (?ls ! 0)) = row_texts ?n header" using row_read_back(1) [OF n ok [OF members(1)]] by (simp add: ls)
  moreover have "map parseTableAlign (splitTableRow (?ls ! 1)) = map (\<lambda>c. kept_align (column_align matrix c)) [0..<?n]"
    by (simp add: ls delim_row_read_back(1) [OF n] delim_cell_align)
  moreover have "length ?ls = length matrix + 1" "drop 2 ?ls = map (\<lambda>row. pipe_row (row_texts ?n row)) body" "hd matrix = header" "tl matrix = body"
    unfolding ls by (simp_all add: hb)
  ultimately show ?thesis unfolding split Let_def using m(1) by (intro exI [of _ matrix]) simp
qed

definition plain_env :: md_env where
  "plain_env = \<lparr>parseFromString = (\<lambda>s. None), outerHTML = (\<lambda>d. []), withInnerHTML = (\<lambda>t a s. s), numberOf = (\<lambda>s. Some 1), detectLanguage = None\<rparr>"

definition example_table :: "dom list" where
  "example_table =
     [Element ''tbody'' [] [
        Element ''tr'' [] [Element ''th'' [] [Element ''p'' [(''style'', ''text-align: center'')] [TextNode ''a|b'']], Element ''th'' [] [TextNode ''n'']],
        Element ''tr'' [] [Element ''td'' [] [Element ''p'' [] [TextNode [CHR 0x5C]]]]]]"

definition example_table_md :: string where
  "example_table_md =
     join_lines [''| a'' @ [CHR 0x5C] @ ''|b | n |'', ''| :-: | --- |'', ''| '' @ [CHR 0x5C, CHR 0x5C] @ '' |  |'']"

lemma example_table_written: "tableToMarkdown plain_env example_table = Some example_table_md"
  by code_simp

theorem table_read_back_witness:
  "\<exists>matrix. table_matrix plain_env (collectTableRows example_table) = Some matrix \<and> startsTable (split_on (CHR 0x0A) example_table_md)
     \<and> map escape_pipes (splitTableRow (split_on (CHR 0x0A) example_table_md ! 0)) = row_texts (column_count matrix) (hd matrix)"
  using table_read_back [OF example_table_written, of "\<lambda>s. None"] unfolding Let_def by blast


section \<open>Texts that do not survive\<close>

text \<open>Stars, backticks and brackets that were typed as text: the escape is not seen by the scan for marks.\<close>

lemma escaped_stars_become_emphasis:
  "parseInline (\<lambda>s. None) (escapeMd ''*a*'') = [CHR 0x5C] @ ''<em>a'' @ [CHR 0x5C] @ ''</em>''"
  by code_simp

lemma escaped_backticks_become_code:
  "parseInline (\<lambda>s. None) (escapeMd [CHR 0x60, CHR ''a'', CHR 0x60]) = [CHR 0x5C] @ ''<code>a'' @ [CHR 0x5C] @ ''</code>''"
  by code_simp

text \<open>A tag that was typed as text becomes a tag.\<close>

lemma typed_tag_becomes_tag: "parseInline (\<lambda>s. None) (inline_md plain_env [TextNode ''<s>x'']) = ''<s>x''"
  by code_simp

text \<open>Signs that are not escaped at all: a number sign, a dollar, two tildes.\<close>

lemma typed_signs_become_marks:
  "parseBlocks (\<lambda>s. None) (block_chunks plain_env [Element ''p'' [] [TextNode ''# x'']]) = Some ''<h1>x</h1>''"
  "parseInline (\<lambda>s. None) (escapeMd ''~~x~~'') = ''<s>x</s>''"
  by code_simp+

text \<open>Blank lines of a code block are removed with those between blocks.\<close>

lemma code_loses_blank_lines:
  "tidy (serializeTopLevel plain_env False [Element ''pre'' [] [Element ''code'' [] [TextNode (join_lines [''a'', [], [], ''b''])]]])
     = join_lines [FENCE, ''a'', [], ''b'', FENCE, []]"
  by code_simp

text \<open>A code block with a fence in it ends there.\<close>

lemma fence_in_code_ends_block:
  "map_option fst (next_block (\<lambda>s. None) (split_on (CHR 0x0A) (pre_md plain_env [Element ''code'' [] [TextNode (join_lines [''a'', FENCE, ''b''])]])))
     = Some (Html ''<pre><code>a</code></pre>'')"
  by code_simp

text \<open>The paragraphs of a list item are run together.\<close>

lemma item_paragraphs_fused:
  "block_chunks plain_env [Element ''ul'' [] [Element ''li'' [] [Element ''p'' [] [TextNode ''one''], Element ''p'' [] [TextNode ''two'']]]]
     = [''- onetwo'']"
  by code_simp

text \<open>A second nested list of an item, less indented than the first, replaces the first.\<close>

lemma nested_list_lost:
  "map_option fst (parseListBlock (\<lambda>s. None) [''- a'', ''    - b'', ''  - c'']) = Some ''<ul><li>a<ul><li>c</li></ul></li></ul>''"
  by code_simp

text \<open>So does a list behind a numbered one in the same item, which the exporter writes with the same indentation.\<close>

lemma two_lists_of_item_merged:
  "map_option fst (parseListBlock (\<lambda>s. None) (split_on (CHR 0x0A) (serializeList plain_env False []
      [Element ''li'' [] [TextNode ''a'', Element ''ol'' [] [Element ''li'' [] [TextNode ''b'']], Element ''ul'' [] [Element ''li'' [] [TextNode ''c'']]]])))
     = Some ''<ul><li>a<ol><li>b</li><li>c</li></ol></li></ul>''"
  by code_simp


section \<open>Marks are taken out again\<close>

abbreviation newline :: char where
  "newline \<equiv> CHR 0x0A"

definition collapse :: "string \<Rightarrow> string" where
  "collapse s = replace_all (match_newlines [newline, newline] 3) s"

lemma match_newlines_prev: "replace_from (match_newlines r k) p s = replace_from (match_newlines r k) q s"
proof (cases s)
  case (Cons c t)
  have "match_newlines r k p s = match_newlines r k q s" by (simp add: match_newlines_def)
  then show ?thesis using Cons by (cases "match_newlines r k q (c # t)") (auto split: option.splits)
qed simp

lemma match_newlines_later: "replace_from (match_newlines r k) (Some c) s = replace_from (match_newlines r k) None s"
  by (rule match_newlines_prev)

lemma collapse_scan:
  "collapse (c # t) =
     (let n = length (takeWhile (\<lambda>c. c = newline) (c # t))
      in if 3 \<le> n then newline # newline # collapse (drop n (c # t)) else c # collapse t)"
proof -
  let ?n = "length (takeWhile (\<lambda>c. c = newline) (c # t))"
  have "drop (?n - 1) t = drop ?n (c # t)" if "3 \<le> ?n" using that by (cases ?n) auto
  then show ?thesis
    by (simp add: collapse_def replace_all_def match_newlines_def [of _ _ _ "c # t"] match_newlines_later Let_def del: takeWhile.simps)
qed

lemma collapse_Cons:
  "collapse [] = []"
  "c \<noteq> newline \<Longrightarrow> collapse (c # s) = c # collapse s"
  "s \<noteq> [] \<Longrightarrow> hd s = newline \<Longrightarrow> length (takeWhile (\<lambda>c. c = newline) s) < 3 \<Longrightarrow> collapse s = newline # collapse (tl s)"
  "3 \<le> length (takeWhile (\<lambda>c. c = newline) s) \<Longrightarrow>
     collapse s = newline # newline # collapse (drop (length (takeWhile (\<lambda>c. c = newline) s)) s)"
proof -
  show "collapse [] = []" by (simp add: collapse_def replace_all_def)
  show "collapse (c # s) = c # collapse s" if "c \<noteq> newline" for c s using that by (simp add: collapse_scan)
  show "collapse s = newline # collapse (tl s)"
    if "s \<noteq> []" "hd s = newline" "length (takeWhile (\<lambda>c. c = newline) s) < 3" for s
  proof -
    have "hd s # tl s = s" using that(1) by simp
    note e = collapse_scan [of "hd s" "tl s", unfolded this Let_def]
    have "\<not> 3 \<le> length (takeWhile (\<lambda>c. c = newline) s)" using that(3) by simp
    then show ?thesis using e that(2) by (simp only: if_False)
  qed
  show "collapse s = newline # newline # collapse (drop (length (takeWhile (\<lambda>c. c = newline) s)) s)"
    if "3 \<le> length (takeWhile (\<lambda>c. c = newline) s)" for s
  proof -
    have "s \<noteq> []" using that by auto
    then have "hd s # tl s = s" by simp
    note e = collapse_scan [of "hd s" "tl s", unfolded this Let_def]
    then show ?thesis using that by (simp only: if_True)
  qed
qed

lemma collapse_append: "t = [] \<or> hd t \<noteq> newline \<Longrightarrow> collapse (s @ t) = collapse s @ collapse t"
proof (induction "length s" arbitrary: s rule: less_induct)
  case less
  let ?P = "\<lambda>c. c = newline"
  have tw: "takeWhile ?P (s @ t) = takeWhile ?P s"
  proof (cases "\<forall>c \<in> set s. ?P c")
    case True
    then have "takeWhile ?P (s @ t) = s @ takeWhile ?P t" by (intro takeWhile_append2) blast
    also have "takeWhile ?P t = []" using less.prems by (cases t) auto
    also have "s @ [] = takeWhile ?P s" unfolding takeWhile_eq_all_conv [THEN iffD2, OF True] by (rule append_Nil2)
    finally show ?thesis .
  next
    case False
    then obtain x where "x \<in> set s" "\<not> ?P x" by blast
    then show ?thesis by (rule takeWhile_append1)
  qed
  show ?case
  proof (cases s)
    case (Cons c u)
    consider "c \<noteq> newline" | "c = newline" "length (takeWhile ?P s) < 3" | "3 \<le> length (takeWhile ?P s)" by linarith
    then show ?thesis
    proof cases
      case 1
      then show ?thesis using less Cons by (simp add: collapse_Cons(2))
    next
      case 2
      then have "collapse (s @ t) = newline # collapse (u @ t)" "collapse s = newline # collapse u"
        using tw Cons collapse_Cons(3) [of "s @ t"] collapse_Cons(3) [of s] by simp_all
      then show ?thesis using less Cons by simp
    next
      case 3
      let ?n = "length (takeWhile ?P s)"
      have n: "?n \<le> length s" by (rule length_takeWhile_le)
      have "collapse (s @ t) = newline # newline # collapse (drop ?n s @ t)"
        using collapse_Cons(4) [of "s @ t"] tw 3 n by simp
      moreover have "collapse s = newline # newline # collapse (drop ?n s)" using collapse_Cons(4) [OF 3] .
      moreover have "length (drop ?n s) < length s" using 3 n by simp
      ultimately show ?thesis using less by simp
    qed
  qed (simp add: collapse_Cons(1))
qed

lemma collapse_plain: "newline \<notin> set s \<Longrightarrow> collapse s = s"
  by (induction s) (auto simp: collapse_Cons)

lemma collapse_hd: "s \<noteq> [] \<Longrightarrow> hd s \<noteq> newline \<Longrightarrow> collapse s \<noteq> [] \<and> hd (collapse s) = hd s"
  by (cases s) (auto simp: collapse_Cons)

lemma collapse_set: "c \<noteq> newline \<Longrightarrow> c \<in> set (collapse s) \<longleftrightarrow> c \<in> set s"
proof (induction "length s" arbitrary: s rule: less_induct)
  case less
  let ?P = "\<lambda>c. c = newline"
  show ?case
  proof (cases s)
    case (Cons d u)
    consider "d \<noteq> newline" | "d = newline" "length (takeWhile ?P s) < 3" | "3 \<le> length (takeWhile ?P s)" by linarith
    then show ?thesis
    proof cases
      case 3
      have "set s = set (takeWhile ?P s) \<union> set (drop (length (takeWhile ?P s)) s)"
        by (metis dropWhile_eq_drop set_append takeWhile_dropWhile_id)
      then have "c \<in> set s \<longleftrightarrow> c \<in> set (drop (length (takeWhile ?P s)) s)" using less.prems set_takeWhileD by fastforce
      moreover have "length (drop (length (takeWhile ?P s)) s) < length s" using 3 Cons by simp
      ultimately show ?thesis using less collapse_Cons(4) [OF 3] by simp
    qed (use less Cons collapse_Cons(3) [of s] in \<open>auto simp: collapse_Cons(2)\<close>)
  qed (simp add: collapse_Cons(1))
qed

text \<open>The pieces between the marks: every block with the lines behind it.\<close>

definition chunk_ok :: "string \<Rightarrow> bool" where
  "chunk_ok c \<longleftrightarrow> c \<noteq> [] \<and> hd c \<noteq> newline \<and> NUL \<notin> set c \<and> (\<exists>x \<in> set c. \<not> is_ws x)"

fun pieces :: "(nat \<times> string) list \<Rightarrow> (nat \<times> string) list" where
  "pieces [] = []"
| "pieces [(i, c)] = [(i, trim_end (collapse c) @ [newline])]"
| "pieces ((i, c) # q # ps) = (i, collapse (c @ [newline, newline])) # pieces (q # ps)"

definition marked :: "(nat \<times> string) list \<Rightarrow> string" where
  "marked ps = concat (map (\<lambda>(i, d). sentinel i @ d) ps)"

lemma sentinel_chars: "newline \<notin> set (sentinel i)" "sentinel i \<noteq> []" "hd (sentinel i) = NUL"
  by (auto simp: sentinel_def NUL_def dest!: show_nat_digits) (simp add: is_digit_def)

lemma trim_end_append: "(\<exists>x \<in> set t. \<not> is_ws x) \<Longrightarrow> trim_end (s @ t) = s @ trim_end t"
  by (auto simp: trim_end_def dropWhile_append)

abbreviation mark_if :: "bool \<Rightarrow> nat \<times> string \<Rightarrow> string" where
  "mark_if m \<equiv> (\<lambda>(i, c). if m then sentinel i @ c else c)"

lemma join_chunks_collapse:
  "\<forall>(i, c) \<in> set ps. chunk_ok c \<Longrightarrow> ps \<noteq> [] \<Longrightarrow>
    trim_end (collapse (join_str [newline, newline] (map (mark_if m) ps))) @ [newline]
      = (if m then marked (pieces ps) else concat (map snd (pieces ps)))
    \<and> join_str [newline, newline] (map (mark_if m) ps) \<noteq> [] \<and> hd (join_str [newline, newline] (map (mark_if m) ps)) \<noteq> newline
    \<and> (\<exists>x \<in> set (collapse (join_str [newline, newline] (map (mark_if m) ps))). \<not> is_ws x)"
proof (induction ps rule: pieces.induct)
  case (2 i c)
  have c: "c \<noteq> []" "hd c \<noteq> newline" "\<exists>x \<in> set c. \<not> is_ws x" using 2(1) by (auto simp: chunk_ok_def)
  have ws: "\<exists>x \<in> set (collapse c). \<not> is_ws x"
  proof -
    obtain x where "x \<in> set c" "\<not> is_ws x" using c(3) by blast
    moreover from this have "x \<noteq> newline" by (auto simp: is_ws_def)
    ultimately show ?thesis using collapse_set [of x c] by blast
  qed
  have "collapse (sentinel i @ c) = sentinel i @ collapse c" using c by (simp add: collapse_append collapse_plain sentinel_chars)
  then show ?case using ws c by (auto simp: marked_def trim_end_append sentinel_chars NUL_def)
next
  case (3 i c q ps)
  let ?mk = "mark_if m"
  let ?J = "join_str [newline, newline] (map ?mk (q # ps))"
  have c: "c \<noteq> []" "hd c \<noteq> newline" using 3(2) by (auto simp: chunk_ok_def)
  have IH: "trim_end (collapse ?J) @ [newline] = (if m then marked (pieces (q # ps)) else concat (map snd (pieces (q # ps))))"
    "?J \<noteq> []" "hd ?J \<noteq> newline" "\<exists>x \<in> set (collapse ?J). \<not> is_ws x" using 3 by auto
  have J: "join_str [newline, newline] (map ?mk ((i, c) # q # ps)) = (if m then sentinel i else []) @ (c @ [newline, newline]) @ ?J" by simp
  have "collapse ((c @ [newline, newline]) @ ?J) = collapse (c @ [newline, newline]) @ collapse ?J" using IH(2,3) by (intro collapse_append) blast
  moreover have "collapse (sentinel i @ (c @ [newline, newline]) @ ?J) = sentinel i @ collapse ((c @ [newline, newline]) @ ?J)"
    using c by (subst collapse_append) (simp_all add: collapse_plain sentinel_chars)
  ultimately have C: "collapse (join_str [newline, newline] (map ?mk ((i, c) # q # ps))) =
      (if m then sentinel i else []) @ collapse (c @ [newline, newline]) @ collapse ?J"
    unfolding J by (cases m) (simp_all only: if_True if_False append_Nil)
  have "trim_end (collapse (join_str [newline, newline] (map ?mk ((i, c) # q # ps)))) @ [newline]
      = (if m then sentinel i else []) @ collapse (c @ [newline, newline]) @ (if m then marked (pieces (q # ps)) else concat (map snd (pieces (q # ps))))"
    unfolding C IH(1) [symmetric] using IH(4) by (simp only: append_assoc [symmetric] trim_end_append)
  then have "trim_end (collapse (join_str [newline, newline] (map ?mk ((i, c) # q # ps)))) @ [newline]
      = (if m then marked (pieces ((i, c) # q # ps)) else concat (map snd (pieces ((i, c) # q # ps))))"
    by (simp add: marked_def)
  moreover have "\<exists>x \<in> set (collapse (join_str [newline, newline] (map ?mk ((i, c) # q # ps)))). \<not> is_ws x"
    unfolding C using IH(4) by auto
  moreover have "join_str [newline, newline] (map ?mk ((i, c) # q # ps)) \<noteq> [] \<and> hd (join_str [newline, newline] (map ?mk ((i, c) # q # ps))) \<noteq> newline"
    unfolding J using c by (cases m) (simp_all add: sentinel_chars NUL_def)
  ultimately show ?case by blast
qed simp


lemma sentinel_here_sentinel: "sentinel_here (sentinel i @ s) = Some (i, s)"
proof -
  have "takeWhile is_digit (show_nat i @ NUL # s) = show_nat i"
    using show_nat_digits [of _ i] by (simp add: takeWhile_append NUL_def is_digit_def)
  then show ?thesis by (simp add: sentinel_here_def sentinel_def strip_prefix_def)
qed

lemma strip_marks_sentinel: "strip_marks acc st (sentinel i @ s) = strip_marks acc (map_set i (length acc) st) s"
proof -
  obtain c r where "sentinel i @ s = c # r" by (cases "sentinel i @ s") (simp add: sentinel_def)
  then show ?thesis using sentinel_here_sentinel [of i s] by (subst strip_marks.simps) simp
qed

lemma strip_marks_plain: "NUL \<notin> set d \<Longrightarrow> strip_marks acc st (d @ s) = strip_marks (acc @ d) st s"
proof (induction d arbitrary: acc)
  case (Cons c d)
  then have "sentinel_here (c # d @ s) = None" by (simp add: sentinel_here_def strip_prefix_def)
  then show ?case using Cons by (subst strip_marks.simps) simp
qed simp

fun offsets :: "nat \<Rightarrow> (nat \<times> string) list \<Rightarrow> (nat \<times> nat) list" where
  "offsets n [] = []"
| "offsets n ((i, d) # ps) = (i, n) # offsets (n + length d) ps"

lemma strip_marks_marked:
  "\<forall>(i, d) \<in> set ps. NUL \<notin> set d \<Longrightarrow>
    strip_marks acc st (marked ps) = (acc @ concat (map snd ps), foldl (\<lambda>s p. map_set (fst p) (snd p) s) st (offsets (length acc) ps))"
proof (induction ps arbitrary: acc st)
  case Nil
  then show ?case by (simp add: marked_def strip_marks.simps)
next
  case (Cons p ps)
  obtain i d where p: "p = (i, d)" by (cases p)
  have "marked (p # ps) = sentinel i @ d @ marked ps" by (simp add: marked_def p)
  then show ?case using Cons by (simp add: p strip_marks_sentinel strip_marks_plain)
qed

lemma offsets_keys: "map fst (offsets n ps) = map fst ps"
  by (induction n ps rule: offsets.induct) auto

lemma offsets_text:
  "(i, d) \<in> set ps \<Longrightarrow> d \<noteq> [] \<Longrightarrow>
    \<exists>off. (i, off) \<in> set (offsets n ps) \<and> n \<le> off \<and> off - n < length (concat (map snd ps)) \<and> concat (map snd ps) ! (off - n) = hd d
      \<and> prefix d (drop (off - n) (concat (map snd ps)))"
proof (induction n ps rule: offsets.induct)
  case (2 n j e ps)
  show ?case
  proof (cases "(i, d) = (j, e)")
    case True
    then show ?thesis using 2 by (intro exI [of _ n]) (auto simp: nth_append hd_conv_nth)
  next
    case False
    then obtain off where off: "(i, off) \<in> set (offsets (n + length e) ps)" "n + length e \<le> off"
      "off - (n + length e) < length (concat (map snd ps))" "concat (map snd ps) ! (off - (n + length e)) = hd d"
      "prefix d (drop (off - (n + length e)) (concat (map snd ps)))"
      using 2 by auto
    moreover have "off - n - length e = off - (n + length e)" by simp
    ultimately show ?thesis by (intro exI [of _ off]) (auto simp: nth_append)
  qed
qed simp

lemma trim_end_prefix: "\<exists>x \<in> set t. \<not> is_ws x \<Longrightarrow> trim_end t \<noteq> [] \<and> hd (trim_end t) = hd t \<and> set (trim_end t) \<subseteq> set t"
proof -
  assume ws: "\<exists>x \<in> set t. \<not> is_ws x"
  have ne: "trim_end t \<noteq> []" using ws by (simp add: trim_end_def)
  obtain z where "rev t = z @ dropWhile is_ws (rev t)" by (metis takeWhile_dropWhile_id)
  then have "t = trim_end t @ rev z" unfolding trim_end_def by (metis rev_append rev_rev_ident)
  then have "hd t = hd (trim_end t)" using ne by (metis hd_append2)
  then show ?thesis using ne set_dropWhileD [of _ is_ws "rev t"] by (auto simp: trim_end_def)
qed

lemma collapse_append_left: "s = [] \<or> last s \<noteq> newline \<Longrightarrow> collapse (s @ t) = collapse s @ collapse t"
proof (cases s rule: rev_cases)
  case (snoc r x)
  assume "s = [] \<or> last s \<noteq> newline"
  then have x: "x \<noteq> newline" using snoc by simp
  have "collapse (r @ x # u) = collapse r @ x # collapse u" for u
    using collapse_append [of "x # u" r] x by (simp add: collapse_Cons)
  from this [of t] this [of "[]"] show ?thesis by (simp add: snoc collapse_Cons)
qed (simp add: collapse_Cons)

text \<open>What is left of a block when line breaks are added behind it.\<close>

lemma collapse_keeps_block: "prefix (trim_end (collapse c)) (collapse (c @ w))"
proof -
  let ?b = "takeWhile is_ws (rev c)" and ?a = "dropWhile is_ws (rev c)"
  have "c = rev (?b @ ?a)" unfolding takeWhile_dropWhile_id by simp
  then have c: "c = rev ?a @ rev ?b" by (simp only: rev_append)
  have "rev ?a = [] \<or> last (rev ?a) \<noteq> newline"
    using hd_dropWhile [of is_ws "rev c"] by (cases ?a) (auto simp: is_ws_def)
  then have split: "collapse (rev ?a @ v) = collapse (rev ?a) @ collapse v" for v by (rule collapse_append_left)
  have blank: "\<forall>x \<in> set (collapse (rev ?b)). is_ws x"
  proof
    fix x
    assume "x \<in> set (collapse (rev ?b))"
    then show "is_ws x"
      using collapse_set [of x "rev ?b"] set_takeWhileD [of x is_ws "rev c"] by (cases "x = newline") (auto simp: is_ws_def)
  qed
  have "collapse c = collapse (rev ?a) @ collapse (rev ?b)" using split [of "rev ?b"] c by simp
  then have "trim_end (collapse c) = trim_end (collapse (rev ?a))" using blank by (simp add: trim_end_def dropWhile_append)
  moreover have "suffix (dropWhile is_ws (rev (collapse (rev ?a)))) (rev (collapse (rev ?a)))" by (rule suffix_dropWhile)
  ultimately have "prefix (trim_end (collapse c)) (collapse (rev ?a))" by (simp add: trim_end_def suffix_to_prefix)
  moreover have "c @ w = rev ?a @ rev ?b @ w" using c by (metis append_assoc)
  then have "collapse (c @ w) = collapse (rev ?a) @ collapse (rev ?b @ w)" using split [of "rev ?b @ w"] by (simp only:)
  ultimately show ?thesis by (simp add: prefix_append)
qed

lemma pieces_ok:
  "\<forall>(i, c) \<in> set ps. chunk_ok c \<Longrightarrow> map fst (pieces ps) = map fst ps \<and> (\<forall>(i, d) \<in> set (pieces ps). NUL \<notin> set d \<and> d \<noteq> [])
    \<and> (\<forall>(i, c) \<in> set ps. \<exists>d. (i, d) \<in> set (pieces ps) \<and> hd d = hd c \<and> prefix (trim_end (collapse c)) d)"
proof (induction ps rule: pieces.induct)
  case (2 i c)
  have c: "c \<noteq> []" "hd c \<noteq> newline" "NUL \<notin> set c" "\<exists>x \<in> set c. \<not> is_ws x" using 2 by (auto simp: chunk_ok_def)
  have "\<exists>x \<in> set (collapse c). \<not> is_ws x"
  proof -
    obtain x where "x \<in> set c" "\<not> is_ws x" using c(4) by blast
    moreover from this have "x \<noteq> newline" by (auto simp: is_ws_def)
    ultimately show ?thesis using collapse_set [of x c] by blast
  qed
  from trim_end_prefix [OF this] have "trim_end (collapse c) \<noteq> []" "hd (trim_end (collapse c)) = hd c" "NUL \<notin> set (trim_end (collapse c))"
    using collapse_hd [OF c(1,2)] c(3) collapse_set [of NUL c] by (auto simp: NUL_def)
  then show ?case by (simp add: NUL_def)
next
  case (3 i c q ps)
  have c: "c \<noteq> []" "hd c \<noteq> newline" "NUL \<notin> set c" using 3(2) by (auto simp: chunk_ok_def)
  have "collapse (c @ [newline, newline]) \<noteq> [] \<and> hd (collapse (c @ [newline, newline])) = hd c"
    using collapse_hd [of "c @ [newline, newline]"] c by simp
  moreover have "NUL \<notin> set (collapse (c @ [newline, newline]))" using c(3) collapse_set [of NUL "c @ [newline, newline]"] by (simp add: NUL_def)
  moreover have IH: "map fst (pieces (q # ps)) = map fst (q # ps) \<and> (\<forall>(i, d) \<in> set (pieces (q # ps)). NUL \<notin> set d \<and> d \<noteq> [])
    \<and> (\<forall>(i, c) \<in> set (q # ps). \<exists>d. (i, d) \<in> set (pieces (q # ps)) \<and> hd d = hd c \<and> prefix (trim_end (collapse c)) d)" using 3 by auto
  moreover have "prefix (trim_end (collapse c)) (collapse (c @ [newline, newline]))" by (rule collapse_keeps_block)
  ultimately show ?case by fastforce
qed simp

definition real_chunks :: "string list \<Rightarrow> (nat \<times> string) list" where
  "real_chunks chunks = filter (\<lambda>(i, c). c \<noteq> []) (enumerate 0 chunks)"

lemma distinct_real_chunks: "distinct (map fst (real_chunks chunks))"
  unfolding real_chunks_def by (rule distinct_map_filter) (simp add: enumerate_eq_zip)

lemma tidy_marked:
  assumes "\<forall>(i, c) \<in> set (real_chunks (block_chunks env nodes)). chunk_ok c" "real_chunks (block_chunks env nodes) \<noteq> []"
  shows "tidy (serializeTopLevel env m nodes)
    = (if m then marked (pieces (real_chunks (block_chunks env nodes))) else concat (map snd (pieces (real_chunks (block_chunks env nodes)))))"
proof -
  let ?J = "join_str [newline, newline] (map (mark_if m) (real_chunks (block_chunks env nodes)))"
  have J: "serializeTopLevel env m nodes = ?J" by (simp add: serializeTopLevel_def marked_chunks_def real_chunks_def)
  have facts: "trim_end (collapse ?J) @ [newline] = (if m then marked (pieces (real_chunks (block_chunks env nodes)))
      else concat (map snd (pieces (real_chunks (block_chunks env nodes)))))" "?J \<noteq> []" "hd ?J \<noteq> newline"
    using join_chunks_collapse [OF assms, of m] by auto
  have "dropWhile (\<lambda>c. c = newline) (collapse ?J) = collapse ?J"
    using collapse_hd [OF facts(2,3)] facts(3) by (intro dropWhile_idem_hd) simp
  then show ?thesis using facts(1) unfolding tidy_def J collapse_def by simp
qed

text \<open>
  C38: Where the text of every block does not start with a line break, is not only blanks and does not
  hold the mark's character (\<open>chunk_ok\<close>; \<open>marked_text_differs\<close> shows what happens otherwise), taking the
  marks out of a marked text gives exactly the text written without marks.  The offset kept for a block is
  inside that text, and the text of the block stands there, with its runs of line breaks collapsed and
  without the blanks at its end.
\<close>

theorem sentinels_strip_clean:
  assumes "\<forall>(i, c) \<in> set (real_chunks (block_chunks env nodes)). chunk_ok c"
  shows "fst (stripBlockSentinels (tidy (serializeTopLevel env True nodes))) = tidy (serializeTopLevel env False nodes)
    \<and> (\<forall>(i, c) \<in> set (real_chunks (block_chunks env nodes)).
        \<exists>off. map_get (snd (stripBlockSentinels (tidy (serializeTopLevel env True nodes)))) i = Some off
          \<and> off < length (tidy (serializeTopLevel env False nodes)) \<and> tidy (serializeTopLevel env False nodes) ! off = hd c
          \<and> prefix (trim_end (collapse c)) (drop off (tidy (serializeTopLevel env False nodes))))"
proof (cases "real_chunks (block_chunks env nodes) = []")
  case True
  then have "serializeTopLevel env m nodes = []" for m by (simp add: serializeTopLevel_def marked_chunks_def real_chunks_def)
  then have "tidy (serializeTopLevel env m nodes) = [newline]" for m by (simp add: tidy_def trim_end_def replace_all_def)
  then show ?thesis using True by (simp add: stripBlockSentinels_def strip_marks.simps sentinel_here_def strip_prefix_def NUL_def)
next
  case False
  let ?ps = "real_chunks (block_chunks env nodes)"
  note tidied = tidy_marked [OF assms False]
  note ok = pieces_ok [OF assms]
  have "\<forall>(i, d) \<in> set (pieces ?ps). NUL \<notin> set d" using ok by fast
  from strip_marks_marked [OF this, of "[]" "[]"]
  have strip: "stripBlockSentinels (tidy (serializeTopLevel env True nodes)) =
      (concat (map snd (pieces ?ps)), foldl (\<lambda>s p. map_set (fst p) (snd p) s) [] (offsets 0 (pieces ?ps)))"
    by (simp add: tidied stripBlockSentinels_def)
  have "distinct (map fst (offsets 0 (pieces ?ps)))" using ok distinct_real_chunks by (simp add: offsets_keys)
  then have get: "map_get (foldl (\<lambda>s p. map_set (fst p) (snd p) s) [] (offsets 0 (pieces ?ps))) i = Some off"
    if "(i, off) \<in> set (offsets 0 (pieces ?ps))" for i off
  proof -
    have "map_of (rev (offsets 0 (pieces ?ps))) i = Some off"
      using that \<open>distinct (map fst (offsets 0 (pieces ?ps)))\<close> by (simp add: map_of_eq_Some_iff rev_map [symmetric])
    then show ?thesis using jm.put_all [of "[]" "offsets 0 (pieces ?ps)" i] by simp
  qed
  show ?thesis
  proof (intro conjI)
    show "fst (stripBlockSentinels (tidy (serializeTopLevel env True nodes))) = tidy (serializeTopLevel env False nodes)"
      unfolding strip by (simp add: tidied)
    show "\<forall>(i, c) \<in> set ?ps. \<exists>off. map_get (snd (stripBlockSentinels (tidy (serializeTopLevel env True nodes)))) i = Some off
        \<and> off < length (tidy (serializeTopLevel env False nodes)) \<and> tidy (serializeTopLevel env False nodes) ! off = hd c
        \<and> prefix (trim_end (collapse c)) (drop off (tidy (serializeTopLevel env False nodes)))"
    proof (clarify)
      fix i c
      assume "(i, c) \<in> set ?ps"
      then obtain d where d: "(i, d) \<in> set (pieces ?ps)" "hd d = hd c" "d \<noteq> []" "prefix (trim_end (collapse c)) d" using ok by fast
      from offsets_text [OF d(1,3), of 0] obtain off where "(i, off) \<in> set (offsets 0 (pieces ?ps))"
        "off < length (concat (map snd (pieces ?ps)))" "concat (map snd (pieces ?ps)) ! off = hd d"
        "prefix d (drop off (concat (map snd (pieces ?ps))))" by auto
      then show "\<exists>off. map_get (snd (stripBlockSentinels (tidy (serializeTopLevel env True nodes)))) i = Some off
        \<and> off < length (tidy (serializeTopLevel env False nodes)) \<and> tidy (serializeTopLevel env False nodes) ! off = hd c
        \<and> prefix (trim_end (collapse c)) (drop off (tidy (serializeTopLevel env False nodes)))"
        unfolding strip using d(2) prefix_order.trans [OF d(4)] by (intro exI [of _ off]) (simp add: tidied get)
    qed
  qed
qed

theorem sentinels_strip_clean_witness:
  "fst (stripBlockSentinels (tidy (serializeTopLevel plain_env True
     [Element ''h1'' [] [TextNode ''T''], TextNode '' '', Element ''p'' [] [TextNode ''x'']])))
     = tidy (serializeTopLevel plain_env False [Element ''h1'' [] [TextNode ''T''], TextNode '' '', Element ''p'' [] [TextNode ''x'']])"
proof -
  have "\<forall>(i, c) \<in> set (real_chunks (block_chunks plain_env
      [Element ''h1'' [] [TextNode ''T''], TextNode '' '', Element ''p'' [] [TextNode ''x'']])). chunk_ok c"
    by code_simp
  from sentinels_strip_clean [OF this] show ?thesis by blast
qed

text \<open>A block that starts with line breaks loses some of them only without its mark.\<close>

lemma marked_text_differs:
  "fst (stripBlockSentinels (tidy (serializeTopLevel plain_env True
     [Element ''p'' [] [TextNode ''a''], Element ''p'' [] [TextNode (newline # newline # ''b'')]])))
     \<noteq> tidy (serializeTopLevel plain_env False
     [Element ''p'' [] [TextNode ''a''], Element ''p'' [] [TextNode (newline # newline # ''b'')]])"
  by code_simp

end
