(* ===== verification/LiveDocFrontMatter.thy ===== *)
theory LiveDocFrontMatter
  imports LiveDocMeta SafeHtml JsRegex
begin

text \<open>
  The settings of a live document as a block of metadata above its Markdown,
  \<open>components/chat/livedoc/liveDocFrontMatter.ts\<close>, and how the Markdown view writes an edited block back to
  the shared map (\<open>applyToDoc\<close> in \<open>LiveDocMarkdownView.tsx\<close>).

  What is written reads back as the same settings (\<open>front_matter_read_back\<close>), so saving a view whose block
  was not edited leaves the shared map alone where nobody else changed the settings since the block was shown
  (\<open>unedited_block_writes_nothing\<close>, \<open>unedited_block_overwrites\<close>), and only a block of the
  client's own keys is ever taken off a text (\<open>only_own_block_is_taken\<close>).

  \<open>fm_env\<close> has the parts of the language that are not restated: numerals other than plain digits, the
  numerals of numbers from \<open>10 ^ 21\<close> on, and code units above 255 in an escape.
\<close>

record fm_env =
  otherNumber :: "string \<Rightarrow> js_number"
  bigNumber :: "int \<Rightarrow> string"
  wideUnit :: "nat \<Rightarrow> char"

abbreviation LF :: char where "LF \<equiv> CHR 0x0A"
abbreviation CR :: char where "CR \<equiv> CHR 0x0D"
abbreviation DQ :: char where "DQ \<equiv> CHR 0x22"
abbreviation BSL :: char where "BSL \<equiv> CHR 0x5C"

section \<open>Strings and numbers of the language\<close>

definition hex_char :: "nat \<Rightarrow> char" where
  "hex_char d = (if d < 10 then char_of (48 + d) else char_of (87 + d))"

definition json_char :: "char \<Rightarrow> string" where
  "json_char c =
     (let n = (of_char c :: nat)
      in if n = 34 \<or> n = 92 then [BSL, c]
         else if n = 8 then [BSL, CHR ''b''] else if n = 9 then [BSL, CHR ''t''] else if n = 10 then [BSL, CHR ''n'']
         else if n = 12 then [BSL, CHR ''f''] else if n = 13 then [BSL, CHR ''r'']
         else if n < 32 then [BSL, CHR ''u'', CHR ''0'', CHR ''0'', hex_char (n div 16), hex_char (n mod 16)]
         else [c])"

text \<open>\<open>JSON.stringify\<close> of a string.\<close>

definition yamlString :: "string \<Rightarrow> string" where
  "yamlString v = DQ # concat (map json_char v) @ [DQ]"

definition hex_value :: "char \<Rightarrow> nat option" where
  "hex_value c =
     (let n = (of_char c :: nat)
      in if 48 \<le> n \<and> n \<le> 57 then Some (n - 48) else if 65 \<le> n \<and> n \<le> 70 then Some (n - 55)
         else if 97 \<le> n \<and> n \<le> 102 then Some (n - 87) else None)"

fun hex4 :: "string \<Rightarrow> nat option" where
  "hex4 (a # b # c # d # s) =
     (case (hex_value a, hex_value b, hex_value c, hex_value d) of
        (Some i, Some j, Some k, Some l) \<Rightarrow> Some (((i * 16 + j) * 16 + k) * 16 + l)
      | _ \<Rightarrow> None)"
| "hex4 _ = None"

definition json_unescape :: "char \<Rightarrow> char option" where
  "json_unescape d =
     (if d = DQ \<or> d = BSL \<or> d = CHR ''/'' then Some d
      else if d = CHR ''b'' then Some (CHR 0x08) else if d = CHR ''t'' then Some (CHR 0x09)
      else if d = CHR ''n'' then Some LF else if d = CHR ''f'' then Some (CHR 0x0C)
      else if d = CHR ''r'' then Some CR else None)"

definition unit_char :: "fm_env \<Rightarrow> nat \<Rightarrow> char" where
  "unit_char E n = (if n < 256 then char_of n else wideUnit E n)"

text \<open>\<open>JSON.parse\<close> behind the opening quotation mark of a string that ends the text.\<close>

fun json_rest :: "fm_env \<Rightarrow> string \<Rightarrow> string option" where
  "json_rest E [] = None"
| "json_rest E [c] = (if c = DQ then Some [] else None)"
| "json_rest E (c # d # s) =
     (if c = DQ then None
      else if c = BSL then
        (if d = CHR ''u'' then
           (case hex4 s of None \<Rightarrow> None | Some n \<Rightarrow> map_option ((#) (unit_char E n)) (json_rest E (drop 4 s)))
         else (case json_unescape d of None \<Rightarrow> None | Some x \<Rightarrow> map_option ((#) x) (json_rest E s)))
      else if (of_char c :: nat) < 32 then None
      else map_option ((#) c) (json_rest E (d # s)))"

text \<open>\<open>Number\<close> of a string, and a rounded number in a template.\<close>

definition number_of_string :: "fm_env \<Rightarrow> string \<Rightarrow> js_number" where
  "number_of_string E v =
     (let t = trim v
      in if t = [] then Finite 0
         else if list_all is_digit t then
           (case round_double (int (read_digits t)) of Some i \<Rightarrow> Finite (of_int i) | None \<Rightarrow> Infinite False)
         else otherNumber E t)"

definition roundOf :: "rat \<Rightarrow> int" where
  "roundOf q = \<lfloor>q + 1 / 2\<rfloor>"

definition show_number :: "fm_env \<Rightarrow> int \<Rightarrow> string" where
  "show_number E i = (if \<bar>i\<bar> < 10 ^ 21 then show_int i else bigNumber E i)"

section \<open>Writing the block\<close>

definition KNOWN_KEYS :: "string list" where
  "KNOWN_KEYS = [''header'', ''footer'', ''page-numbers'', ''header-style'', ''footer-style'', ''page-size'', ''orientation'',
     ''margin'', ''margin-x'', ''margin-y'', ''columns'', ''border'', ''watermark'']"

record layout_meta =
  lm_pageSetup :: page_setup
  lm_decoration :: decoration

definition key_line :: "string \<Rightarrow> string \<Rightarrow> string" where
  "key_line k v = k @ '': '' @ v"

definition margin_line :: "fm_env \<Rightarrow> string \<Rightarrow> rat option \<Rightarrow> string list" where
  "margin_line E k m = (case m of None \<Rightarrow> [] | Some q \<Rightarrow> [key_line k (show_number E (roundOf q))])"

definition layout_lines :: "fm_env \<Rightarrow> layout_meta \<Rightarrow> string list" where
  "layout_lines E l =
     (let ps = lm_pageSetup l; deco = lm_decoration l
      in [key_line ''page-size'' (size_name (ps_size ps)), key_line ''orientation'' (orientation_name (ps_orientation ps)),
          key_line ''margin'' (margin_name (ps_margin ps))]
         @ margin_line E ''margin-x'' (ps_marginX ps) @ margin_line E ''margin-y'' (ps_marginY ps)
         @ [key_line ''columns'' (show_number E \<lfloor>columns_number (or_else (ps_columns ps) One)\<rfloor>)]
         @ (if de_border deco \<noteq> NoBorder then [key_line ''border'' (border_name (de_border deco))] else [])
         @ (if trim (de_watermark deco) \<noteq> [] then [key_line ''watermark'' (yamlString (de_watermark deco))] else []))"

definition band_lines :: "string \<Rightarrow> string \<Rightarrow> string \<Rightarrow> band_style \<Rightarrow> string list" where
  "band_lines k sk v st =
     key_line k (yamlString v) # (if st \<noteq> Blank then [key_line sk (band_name st)] else [])"

definition front_lines :: "fm_env \<Rightarrow> header_footer \<Rightarrow> layout_meta option \<Rightarrow> string list" where
  "front_lines E hf layout =
     (case layout of None \<Rightarrow> [] | Some l \<Rightarrow> layout_lines E l)
     @ (if hf_headerEnabled hf then band_lines ''header'' ''header-style'' (hf_header hf) (hf_headerStyle hf) else [])
     @ (if hf_footerEnabled hf then band_lines ''footer'' ''footer-style'' (hf_footer hf) (hf_footerStyle hf) else [])
     @ (if hf_showPageNumber hf then [key_line ''page-numbers'' (number_style_name (hf_pageNumberStyle hf))] else [])"

definition serializeFrontMatter :: "fm_env \<Rightarrow> header_footer \<Rightarrow> layout_meta option \<Rightarrow> string" where
  "serializeFrontMatter E hf layout =
     (let ls = front_lines E hf layout
      in if ls = [] then [] else ''---'' @ [LF] @ join_with LF ls @ [LF] @ ''---'' @ [LF, LF])"

section \<open>Reading the block\<close>

definition parseScalar :: "fm_env \<Rightarrow> string \<Rightarrow> string" where
  "parseScalar E raw =
     (let v = trim raw
      in if 2 \<le> length v \<and> hd v = DQ \<and> last v = DQ
         then (case json_rest E (tl v) of Some s \<Rightarrow> s | None \<Rightarrow> butlast (tl v))
         else if 2 \<le> length v \<and> hd v = CHR 0x27 \<and> last v = CHR 0x27 then butlast (tl v)
         else v)"

definition asBandStyle :: "string \<Rightarrow> band_style" where
  "asBandStyle v = or_else (band_style_of (Some (MetaStr v))) Blank"

definition asPageNumberStyle :: "string \<Rightarrow> page_number_style" where
  "asPageNumberStyle v = or_else (number_style_of (Some (MetaStr v))) PageOf"

definition asPageSize :: "string \<Rightarrow> page_size option" where
  "asPageSize v = List.find (\<lambda>s. v = size_name s) [A4, Letter, Legal]"

definition asOrientation :: "string \<Rightarrow> orientation option" where
  "asOrientation v = List.find (\<lambda>s. v = orientation_name s) [Portrait, Landscape]"

definition asMargin :: "string \<Rightarrow> page_margin option" where
  "asMargin v = List.find (\<lambda>s. v = margin_name s) [NormalMargin, Narrow, Moderate, Wide, Mirrored]"

definition asColumns :: "fm_env \<Rightarrow> string \<Rightarrow> page_columns option" where
  "asColumns E v = List.find (\<lambda>c. number_of_string E v = Finite (columns_number c)) [One, Two, Three]"

definition asBorder :: "string \<Rightarrow> page_border option" where
  "asBorder v = List.find (\<lambda>b. v = border_name b) [NoBorder, Thin, Medium]"

definition asPx :: "fm_env \<Rightarrow> string \<Rightarrow> js_number option" where
  "asPx E v = map_option Finite (margin_px (number_of_string E v))"

text \<open>\<open>\r?\n\<close>, and the delimiters of \<open>FRONT_MATTER_RE\<close>; the content is the shortest that has a closing one.\<close>

definition match_eol :: "string \<Rightarrow> string option" where
  "match_eol s = or_opt (strip_prefix [CR, LF] s) (strip_prefix [LF] s)"

definition skip_blanks :: "string \<Rightarrow> string" where
  "skip_blanks s = dropWhile (\<lambda>c. c = CHR '' '' \<or> c = CHR 0x09) s"

definition open_block :: "string \<Rightarrow> string option" where
  "open_block s = Option.bind (strip_prefix ''---'' s) (\<lambda>t. match_eol (skip_blanks t))"

definition close_block :: "string \<Rightarrow> string option" where
  "close_block s =
     Option.bind (match_eol s) (\<lambda>t. Option.bind (strip_prefix ''---'' t)
       (\<lambda>u. let w = skip_blanks u in if w = [] then Some [] else match_eol w))"

fun until_close :: "string \<Rightarrow> (string \<times> string) option" where
  "until_close [] = None"
| "until_close (c # s) =
     (case close_block (c # s) of
        Some rest \<Rightarrow> Some ([], rest)
      | None \<Rightarrow> map_option (apfst ((#) c)) (until_close s))"

definition FRONT_MATTER_RE :: "string \<Rightarrow> (string \<times> string) option" where
  "FRONT_MATTER_RE s = Option.bind (open_block s) until_close"

text \<open>\<open>split(/\r?\n/)\<close>.\<close>

fun crlf_lines :: "string \<Rightarrow> string list" where
  "crlf_lines [] = [[]]"
| "crlf_lines (c # s) =
     (if c = LF then [] # crlf_lines s
      else if c = CR \<and> starts_with s [LF] then crlf_lines s
      else case crlf_lines s of [] \<Rightarrow> [[c]] | h # t \<Rightarrow> (c # h) # t)"

definition put_line :: "fm_env \<Rightarrow> (string, string) jmap \<Rightarrow> string \<Rightarrow> (string, string) jmap" where
  "put_line E m line =
     (case index_of line (CHR '':'') of
        None \<Rightarrow> m
      | Some i \<Rightarrow>
          (let key = to_lower (trim (take i line))
           in if key \<noteq> [] then map_set key (parseScalar E (drop (i + 1) line)) m else m))"

definition front_fields :: "fm_env \<Rightarrow> string \<Rightarrow> (string, string) jmap" where
  "front_fields E s = foldl (put_line E) [] (crlf_lines s)"

record parsed_front =
  pf_patch :: "header_footer_patch option"
  pf_pageSetup :: "page_patch option"
  pf_decoration :: "decoration_patch option"
  pf_body :: string

definition non_empty :: "string option \<Rightarrow> string option" where
  "non_empty v = (if v = Some [] then None else v)"

definition bands_of :: "(string, string) jmap \<Rightarrow> header_footer_patch" where
  "bands_of f =
     (let headerEnabled = map_has f ''header''; footerEnabled = map_has f ''footer'';
          raw = map_get f ''page-numbers'';
          showPageNumber = (case raw of None \<Rightarrow> False | Some v \<Rightarrow> v \<noteq> [] \<and> to_lower v \<noteq> ''false'')
      in \<lparr>hp_headerEnabled = Some headerEnabled, hp_footerEnabled = Some footerEnabled,
          hp_header = (if headerEnabled then Some (or_else (map_get f ''header'') []) else None),
          hp_footer = (if footerEnabled then Some (or_else (map_get f ''footer'') []) else None),
          hp_showPageNumber = Some showPageNumber,
          hp_headerStyle = (if headerEnabled then map_option asBandStyle (non_empty (map_get f ''header-style'')) else None),
          hp_footerStyle = (if footerEnabled then map_option asBandStyle (non_empty (map_get f ''footer-style'')) else None),
          hp_pageNumberStyle =
            (if showPageNumber then map_option (\<lambda>v. if to_lower v = ''true'' then PageOf else asPageNumberStyle v) raw
             else None)\<rparr>)"

definition geometry_of :: "fm_env \<Rightarrow> (string, string) jmap \<Rightarrow> page_patch" where
  "geometry_of E f =
     \<lparr>pp_size = Option.bind (map_get f ''page-size'') asPageSize,
      pp_orientation = Option.bind (map_get f ''orientation'') asOrientation,
      pp_margin = Option.bind (map_get f ''margin'') asMargin,
      pp_marginX = Option.bind (map_get f ''margin-x'') (asPx E),
      pp_marginY = Option.bind (map_get f ''margin-y'') (asPx E),
      pp_rulerUnit = None,
      pp_columns = Option.bind (map_get f ''columns'') (asColumns E)\<rparr>"

definition decoration_of :: "(string, string) jmap \<Rightarrow> decoration_patch" where
  "decoration_of f =
     \<lparr>dp_border = Option.bind (map_get f ''border'') asBorder, dp_watermark = map_get f ''watermark''\<rparr>"

definition no_page_patch :: page_patch where
  "no_page_patch = \<lparr>pp_size = None, pp_orientation = None, pp_margin = None, pp_marginX = None, pp_marginY = None,
     pp_rulerUnit = None, pp_columns = None\<rparr>"

definition no_decoration_patch :: decoration_patch where
  "no_decoration_patch = \<lparr>dp_border = None, dp_watermark = None\<rparr>"

definition no_front :: "string \<Rightarrow> parsed_front" where
  "no_front s = \<lparr>pf_patch = None, pf_pageSetup = None, pf_decoration = None, pf_body = s\<rparr>"

definition parseFrontMatter :: "fm_env \<Rightarrow> string \<Rightarrow> parsed_front" where
  "parseFrontMatter E s =
     (case FRONT_MATTER_RE s of
        None \<Rightarrow> no_front s
      | Some (content, rest) \<Rightarrow>
          (let f = front_fields E content; ps = geometry_of E f; deco = decoration_of f
           in if list_ex (\<lambda>k. k \<in> set KNOWN_KEYS) (map_keys f)
              then \<lparr>pf_patch = Some (bands_of f),
                    pf_pageSetup = (if ps = no_page_patch then None else Some ps),
                    pf_decoration = (if deco = no_decoration_patch then None else Some deco),
                    pf_body = or_else (match_eol rest) rest\<rparr>
              else no_front s))"

section \<open>Writing an edited block back\<close>

definition merge_bands :: "header_footer_patch \<Rightarrow> header_footer \<Rightarrow> header_footer" where
  "merge_bands p h =
     \<lparr>hf_headerEnabled = or_else (hp_headerEnabled p) (hf_headerEnabled h),
      hf_footerEnabled = or_else (hp_footerEnabled p) (hf_footerEnabled h),
      hf_header = or_else (hp_header p) (hf_header h), hf_footer = or_else (hp_footer p) (hf_footer h),
      hf_showPageNumber = or_else (hp_showPageNumber p) (hf_showPageNumber h),
      hf_headerStyle = or_else (hp_headerStyle p) (hf_headerStyle h),
      hf_footerStyle = or_else (hp_footerStyle p) (hf_footerStyle h),
      hf_pageNumberStyle = or_else (hp_pageNumberStyle p) (hf_pageNumberStyle h)\<rparr>"

definition merge_page :: "page_patch \<Rightarrow> page_setup \<Rightarrow> page_setup" where
  "merge_page p s =
     \<lparr>ps_size = or_else (pp_size p) (ps_size s), ps_orientation = or_else (pp_orientation p) (ps_orientation s),
      ps_margin = or_else (pp_margin p) (ps_margin s),
      ps_marginX = or_opt (Option.bind (pp_marginX p) margin_px) (ps_marginX s),
      ps_marginY = or_opt (Option.bind (pp_marginY p) margin_px) (ps_marginY s),
      ps_rulerUnit = or_else (pp_rulerUnit p) (ps_rulerUnit s), ps_columns = or_opt (pp_columns p) (ps_columns s)\<rparr>"

definition merge_decoration :: "decoration_patch \<Rightarrow> decoration \<Rightarrow> decoration" where
  "merge_decoration p d = \<lparr>de_border = or_else (dp_border p) (de_border d), de_watermark = or_else (dp_watermark p) (de_watermark d)\<rparr>"

text \<open>
  The settings the view last saw are \<open>hf\<close> and \<open>l\<close>, the shared map at the time of writing \<open>m\<close>.  A patch that
  is not there is the patch that changes nothing.
\<close>

definition applySettings :: "fm_env \<Rightarrow> header_footer \<Rightarrow> layout_meta \<Rightarrow> parsed_front \<Rightarrow> meta \<Rightarrow> meta" where
  "applySettings E hf l p m =
     (let mergedHf = (case pf_patch p of None \<Rightarrow> hf | Some q \<Rightarrow> merge_bands q hf);
          mergedPs = (case pf_pageSetup p of None \<Rightarrow> lm_pageSetup l | Some q \<Rightarrow> merge_page q (lm_pageSetup l));
          mergedDeco = (case pf_decoration p of None \<Rightarrow> lm_decoration l | Some q \<Rightarrow> merge_decoration q (lm_decoration l));
          before = serializeFrontMatter E hf (Some l);
          after = serializeFrontMatter E mergedHf (Some \<lparr>lm_pageSetup = mergedPs, lm_decoration = mergedDeco\<rparr>)
      in if (pf_patch p \<noteq> None \<or> pf_pageSetup p \<noteq> None \<or> pf_decoration p \<noteq> None) \<and> after \<noteq> before
         then (let m1 = (case pf_patch p of None \<Rightarrow> m | Some q \<Rightarrow> setLiveDocHeaderFooter q m);
                   m2 = (case pf_pageSetup p of None \<Rightarrow> m1 | Some q \<Rightarrow> setLiveDocPageSetup q m1)
               in case pf_decoration p of None \<Rightarrow> m2 | Some q \<Rightarrow> setLiveDocDecoration q m2)
         else m)"

section \<open>Strings and numbers read back\<close>

lemma hex_value_char [simp]: "d < 16 \<Longrightarrow> hex_value (hex_char d) = Some d"
  by (auto simp: hex_value_def hex_char_def Let_def)

lemma json_rest_plain:
  "t \<noteq> [] \<Longrightarrow> c \<noteq> DQ \<Longrightarrow> c \<noteq> BSL \<Longrightarrow> \<not> (of_char c :: nat) < 32 \<Longrightarrow> json_rest E (c # t) = map_option ((#) c) (json_rest E t)"
  by (cases t) auto

lemma json_rest_simple:
  "d \<noteq> CHR ''u'' \<Longrightarrow> json_rest E (BSL # d # t) = (case json_unescape d of None \<Rightarrow> None | Some x \<Rightarrow> map_option ((#) x) (json_rest E t))"
  by (cases t) auto

lemma json_rest_hex:
  assumes "(of_char c :: nat) < 32"
  shows "json_rest E (BSL # CHR ''u'' # CHR ''0'' # CHR ''0'' # hex_char (of_char c div 16) # hex_char (of_char c mod 16) # t)
    = map_option ((#) c) (json_rest E t)"
proof -
  let ?n = "of_char c :: nat"
  have d: "hex_value (hex_char (?n div 16)) = Some (?n div 16)" "hex_value (hex_char (?n mod 16)) = Some (?n mod 16)"
    using assms by simp_all
  have z: "hex_value (CHR ''0'') = Some 0" by (simp add: hex_value_def)
  have "?n div 16 * 16 + ?n mod 16 = ?n" by simp
  then show ?thesis using assms d by (simp add: z unit_char_def)
qed

lemma of_char_eq: "(of_char c :: nat) = n \<longleftrightarrow> c = char_of n \<and> n < 256"
proof
  show "c = char_of n \<and> n < 256" if "(of_char c :: nat) = n" using that nat_of_char_less_256 [of c] by auto
qed simp

lemma json_rest_char: "t \<noteq> [] \<Longrightarrow> json_rest E (json_char c @ t) = map_option ((#) c) (json_rest E t)"
proof -
  assume t: "t \<noteq> []"
  let ?n = "of_char c :: nat"
  have special: "c = char_of ?n" by simp
  have escapes: "char_of (34 :: nat) = DQ" "char_of (92 :: nat) = BSL" "char_of (8 :: nat) = CHR 0x08" "char_of (9 :: nat) = CHR 0x09"
    "char_of (10 :: nat) = LF" "char_of (12 :: nat) = CHR 0x0C" "char_of (13 :: nat) = CR"
    by (simp_all add: char_of_def bit_Suc_0_iff)
  consider "?n \<in> {34, 92}" | "?n \<in> {8, 9, 10, 12, 13}" | "?n < 32" "?n \<notin> {8, 9, 10, 12, 13}" | "32 \<le> ?n" "?n \<notin> {34, 92}"
    by fastforce
  then show ?thesis
  proof cases
    case 1
    then consider "c = DQ" | "c = BSL" using special escapes by fastforce
    then show ?thesis by cases (simp_all add: json_char_def json_rest_simple json_unescape_def)
  next
    case 2
    then consider "c = CHR 0x08" | "c = CHR 0x09" | "c = LF" | "c = CHR 0x0C" | "c = CR" using special escapes by fastforce
    then show ?thesis by cases (simp_all add: json_char_def json_rest_simple json_unescape_def)
  next
    case 3
    then show ?thesis by (simp add: json_char_def Let_def json_rest_hex del: json_rest.simps hex4.simps)
  next
    case 4
    then have "c \<noteq> DQ" "c \<noteq> BSL" by auto
    with 4 t show ?thesis by (simp add: json_char_def Let_def json_rest_plain)
  qed
qed

lemma json_read_back: "json_rest E (concat (map json_char v) @ [DQ]) = Some v"
  by (induction v) (simp_all add: json_rest_char)

lemma json_char_clean: "x \<in> set (json_char c) \<Longrightarrow> 32 \<le> (of_char x :: nat)"
proof -
  have "32 \<le> (of_char (hex_char d) :: nat)" if "d < 16" for d using that by (auto simp: hex_char_def)
  then show "x \<in> set (json_char c) \<Longrightarrow> 32 \<le> (of_char x :: nat)"
    by (auto simp: json_char_def Let_def split: if_splits)
qed

lemma trim_kept: "s \<noteq> [] \<Longrightarrow> \<not> is_ws (hd s) \<Longrightarrow> \<not> is_ws (last s) \<Longrightarrow> trim s = s"
proof -
  assume s: "s \<noteq> []" "\<not> is_ws (hd s)" "\<not> is_ws (last s)"
  then have "dropWhile is_ws s = s" "dropWhile is_ws (rev s) = rev s"
    by (auto intro!: dropWhile_idem_hd simp: hd_rev)
  then show ?thesis by (simp add: trim_def)
qed

lemma trim_space [simp]: "trim (CHR '' '' # s) = trim s"
  by (simp add: trim_def is_ws_def)

lemma scalar_quoted [simp]: "parseScalar E (CHR '' '' # yamlString v) = v"
proof -
  have "trim (yamlString v) = yamlString v" by (rule trim_kept) (simp_all add: yamlString_def is_ws_def)
  then show ?thesis by (simp add: parseScalar_def yamlString_def json_read_back)
qed

lemma scalar_plain: "v \<noteq> [] \<Longrightarrow> \<forall>c \<in> set v. \<not> is_ws c \<Longrightarrow> hd v \<noteq> DQ \<Longrightarrow> hd v \<noteq> CHR 0x27 \<Longrightarrow> parseScalar E (CHR '' '' # v) = v"
  by (simp add: parseScalar_def trim_kept)

text \<open>Written numbers: those a double holds exactly.\<close>

lemma number_shown:
  assumes "0 \<le> i" "i \<le> MAX_EXACT"
  shows "show_number E i = show_nat (nat i)" "number_of_string E (show_nat (nat i)) = Finite (of_int i)"
proof -
  show "show_number E i = show_nat (nat i)" using assms by (simp add: show_number_def show_int_def MAX_EXACT_def)
  have "\<forall>c \<in> set (show_nat (nat i)). is_digit c" by (simp add: show_nat_digits)
  moreover from this have "trim (show_nat (nat i)) = show_nat (nat i)" by (intro trim_kept) (auto dest!: digit_not_ws)
  ultimately show "number_of_string E (show_nat (nat i)) = Finite (of_int i)"
    using assms by (simp add: number_of_string_def Let_def list_all_iff)
qed

lemma scalar_nat [simp]: "parseScalar E (CHR '' '' # show_nat n) = show_nat n"
proof (rule scalar_plain)
  have d: "\<forall>c \<in> set (show_nat n). is_digit c" by (simp add: show_nat_digits)
  then show "\<forall>c \<in> set (show_nat n). \<not> is_ws c" by (blast dest: digit_not_ws)
  have "is_digit (hd (show_nat n))" using d by simp
  then show "hd (show_nat n) \<noteq> DQ" "hd (show_nat n) \<noteq> CHR 0x27" by (auto simp: is_digit_def)
qed simp

section \<open>The lines read back\<close>

lemma put_key_line:
  assumes "CHR '':'' \<notin> set k" "to_lower (trim k) = k" "k \<noteq> []"
  shows "put_line E m (key_line k v) = map_set k (parseScalar E (CHR '' '' # v)) m"
proof -
  have "index_of (k @ CHR '':'' # w) (CHR '':'') = Some (length k)" for w
    using assms(1) by (induction k) auto
  then show ?thesis using assms(2,3) by (simp add: put_line_def key_line_def)
qed

text \<open>The keys with what is written behind them and what it stands for.\<close>

type_synonym written = "(string \<times> string \<times> string) list"

definition margin_pairs :: "string \<Rightarrow> rat option \<Rightarrow> written" where
  "margin_pairs k m = (case m of None \<Rightarrow> [] | Some q \<Rightarrow> let s = show_nat (nat (roundOf q)) in [(k, s, s)])"

definition plain_pair :: "string \<Rightarrow> string \<Rightarrow> written" where
  "plain_pair k v = [(k, v, v)]"

definition quoted_pair :: "string \<Rightarrow> string \<Rightarrow> written" where
  "quoted_pair k v = [(k, yamlString v, v)]"

definition front_pairs :: "header_footer \<Rightarrow> layout_meta \<Rightarrow> written" where
  "front_pairs hf l =
     (let ps = lm_pageSetup l; deco = lm_decoration l
      in plain_pair ''page-size'' (size_name (ps_size ps)) @ plain_pair ''orientation'' (orientation_name (ps_orientation ps))
         @ plain_pair ''margin'' (margin_name (ps_margin ps))
         @ margin_pairs ''margin-x'' (ps_marginX ps) @ margin_pairs ''margin-y'' (ps_marginY ps)
         @ plain_pair ''columns'' (show_nat (nat \<lfloor>columns_number (or_else (ps_columns ps) One)\<rfloor>))
         @ (if de_border deco \<noteq> NoBorder then plain_pair ''border'' (border_name (de_border deco)) else [])
         @ (if trim (de_watermark deco) \<noteq> [] then quoted_pair ''watermark'' (de_watermark deco) else [])
         @ (if hf_headerEnabled hf then quoted_pair ''header'' (hf_header hf) else [])
         @ (if hf_headerEnabled hf \<and> hf_headerStyle hf \<noteq> Blank then plain_pair ''header-style'' (band_name (hf_headerStyle hf)) else [])
         @ (if hf_footerEnabled hf then quoted_pair ''footer'' (hf_footer hf) else [])
         @ (if hf_footerEnabled hf \<and> hf_footerStyle hf \<noteq> Blank then plain_pair ''footer-style'' (band_name (hf_footerStyle hf)) else [])
         @ (if hf_showPageNumber hf then plain_pair ''page-numbers'' (number_style_name (hf_pageNumberStyle hf)) else []))"

text \<open>Margins whose rounded value a double holds exactly.\<close>

definition margin_exact :: "rat option \<Rightarrow> bool" where
  "margin_exact m = (case m of None \<Rightarrow> True | Some q \<Rightarrow> 0 \<le> q \<and> roundOf q \<le> MAX_EXACT)"

definition margins_exact :: "layout_meta \<Rightarrow> bool" where
  "margins_exact l \<longleftrightarrow> margin_exact (ps_marginX (lm_pageSetup l)) \<and> margin_exact (ps_marginY (lm_pageSetup l))"

lemma round_nonneg: "0 \<le> q \<Longrightarrow> 0 \<le> roundOf q"
  by (simp add: roundOf_def)

lemma round_of_int [simp]: "roundOf (of_int i) = i"
  by (simp add: roundOf_def floor_eq_iff)

lemma margin_line_pairs: "margin_exact m \<Longrightarrow> margin_line E k m = map (\<lambda>(k, w, v). key_line k w) (margin_pairs k m)"
  by (auto simp: margin_exact_def margin_line_def margin_pairs_def number_shown round_nonneg Let_def split: option.splits)

lemma columns_floor: "0 \<le> \<lfloor>columns_number c\<rfloor>" "\<lfloor>columns_number c\<rfloor> \<le> MAX_EXACT" "of_int \<lfloor>columns_number c\<rfloor> = columns_number c"
  by (cases c; simp add: MAX_EXACT_def)+

lemma front_lines_pairs:
  assumes "margins_exact l"
  shows "front_lines E hf (Some l) = map (\<lambda>(k, w, v). key_line k w) (front_pairs hf l)"
proof -
  have cond: "map f (if c then a else b) = (if c then map f a else map f b)" for f :: "string \<times> string \<times> string \<Rightarrow> string" and c a b
    by simp
  show ?thesis
    using assms
    by (simp add: front_lines_def front_pairs_def layout_lines_def band_lines_def plain_pair_def quoted_pair_def Let_def
        margin_line_pairs margins_exact_def number_shown(1) [OF columns_floor(1,2)] cond)
qed

lemma names_plain [simp]:
  "parseScalar E (CHR '' '' # size_name s) = size_name s"
  "parseScalar E (CHR '' '' # orientation_name ori) = orientation_name ori"
  "parseScalar E (CHR '' '' # margin_name g) = margin_name g"
  "parseScalar E (CHR '' '' # border_name b) = border_name b"
  "parseScalar E (CHR '' '' # band_name st) = band_name st"
  "parseScalar E (CHR '' '' # number_style_name n) = number_style_name n"
  by (cases s, simp_all add: scalar_plain is_ws_def) (cases ori, simp_all add: scalar_plain is_ws_def,
    cases g, simp_all add: scalar_plain is_ws_def, cases b, simp_all add: scalar_plain is_ws_def,
    cases st, simp_all add: scalar_plain is_ws_def, cases n, simp_all add: scalar_plain is_ws_def)

definition well_written :: "fm_env \<Rightarrow> written \<Rightarrow> bool" where
  "well_written E ps \<longleftrightarrow> list_all (\<lambda>(k, w, v). k \<in> set KNOWN_KEYS \<and> parseScalar E (CHR '' '' # w) = v) ps"

lemma well_written_simps [simp]:
  "well_written E []" "well_written E (a @ b) \<longleftrightarrow> well_written E a \<and> well_written E b"
  "well_written E (plain_pair k v) \<longleftrightarrow> k \<in> set KNOWN_KEYS \<and> parseScalar E (CHR '' '' # v) = v"
  "well_written E (quoted_pair k v) \<longleftrightarrow> k \<in> set KNOWN_KEYS"
  "well_written E (margin_pairs k m) \<longleftrightarrow> m = None \<or> k \<in> set KNOWN_KEYS"
  by (simp_all add: well_written_def plain_pair_def quoted_pair_def) (cases m; simp add: margin_pairs_def Let_def)

lemma known_key: "k \<in> set KNOWN_KEYS \<Longrightarrow> CHR '':'' \<notin> set k \<and> to_lower (trim k) = k \<and> k \<noteq> []"
  by (auto simp: KNOWN_KEYS_def to_lower_def lower_char_def trim_def is_ws_def)

lemma front_pairs_written: "well_written E (front_pairs hf l)"
  by (simp add: front_pairs_def Let_def KNOWN_KEYS_def)

definition fields_of :: "written \<Rightarrow> (string, string) jmap" where
  "fields_of ps = foldl (\<lambda>m (k, w, v). map_set k v m) [] ps"

lemma fields_written:
  assumes "well_written E ps"
  shows "foldl (put_line E) m (map (\<lambda>(k, w, v). key_line k w) ps) = foldl (\<lambda>m (k, w, v). map_set k v m) m ps"
  using assms
proof (induction ps arbitrary: m)
  case (Cons p ps)
  obtain k w v where p: "p = (k, w, v)" by (cases p)
  from Cons.prems have "k \<in> set KNOWN_KEYS" "parseScalar E (CHR '' '' # w) = v" "well_written E ps"
    by (auto simp: p well_written_def)
  with Cons.IH show ?case by (simp add: p put_key_line known_key)
qed simp

fun last_of :: "written \<Rightarrow> string \<Rightarrow> string option" where
  "last_of [] j = None"
| "last_of ((k, w, v) # ps) j = or_opt (last_of ps j) (if j = k then Some v else None)"

lemma or_opt_None [simp]: "or_opt a None = a"
  by (cases a) simp_all

lemma last_of_append [simp]: "last_of (a @ b) j = or_opt (last_of b j) (last_of a j)"
  by (induction a j rule: last_of.induct) (auto simp: or_opt_def split: option.split)

lemma get_fields: "map_get (foldl (\<lambda>m (k, w, v). map_set k v m) m ps) j = or_opt (last_of ps j) (map_get m j)"
  by (induction ps j arbitrary: m rule: last_of.induct) (auto simp: or_opt_def split: option.split)

lemma get_fields_of: "map_get (fields_of ps) j = last_of ps j"
  by (simp add: fields_of_def get_fields or_opt_def split: option.split)

section \<open>The block is found again\<close>

text \<open>Lines that break neither the block nor each other.\<close>

definition quiet_line :: "string \<Rightarrow> bool" where
  "quiet_line l \<longleftrightarrow> l \<noteq> [] \<and> hd l \<noteq> CHR ''-'' \<and> LF \<notin> set l \<and> CR \<notin> set l"

lemma crlf_one: "LF \<notin> set l \<Longrightarrow> CR \<notin> set l \<Longrightarrow> crlf_lines l = [l]"
  by (induction l) auto

lemma crlf_cons: "LF \<notin> set l \<Longrightarrow> CR \<notin> set l \<Longrightarrow> crlf_lines (l @ LF # s) = l # crlf_lines s"
  by (induction l) auto

lemma crlf_join: "ls \<noteq> [] \<Longrightarrow> \<forall>l \<in> set ls. quiet_line l \<Longrightarrow> crlf_lines (join_with LF ls) = ls"
  by (induction LF ls rule: join_with.induct) (auto simp: quiet_line_def crlf_one crlf_cons)

lemma close_none:
  assumes "s \<noteq> []" "hd s \<noteq> LF \<or> tl s \<noteq> [] \<and> hd (tl s) \<noteq> CHR ''-''" "hd s \<noteq> CR"
  shows "close_block s = None"
  using assms by (cases s; cases "tl s") (auto simp: close_block_def match_eol_def strip_prefix_def prefix_def split: if_splits)

lemma until_quiet:
  assumes "LF \<notin> set l" "CR \<notin> set l"
  shows "until_close (l @ s) = map_option (apfst ((@) l)) (until_close s)"
  using assms
proof (induction l)
  case (Cons c l)
  have "close_block (c # l @ s) = None" using Cons.prems by (intro close_none) auto
  moreover have "apfst ((#) c) \<circ> apfst ((@) l) = (apfst (\<lambda>a. c # l @ a) :: string \<times> string \<Rightarrow> _)" by (auto simp: fun_eq_iff)
  ultimately show ?case using Cons by (simp add: option.map_comp)
qed (cases "until_close s"; simp add: prod_eq_iff)

lemma until_close_join:
  assumes "ls \<noteq> []" "\<forall>l \<in> set ls. quiet_line l"
  shows "until_close (join_with LF ls @ LF # ''---'' @ LF # rest) = Some (join_with LF ls, rest)"
  using assms
proof (induction LF ls rule: join_with.induct)
  case (2 l)
  have "close_block (LF # ''---'' @ LF # rest) = Some rest"
    by (simp add: close_block_def match_eol_def strip_prefix_def skip_blanks_def)
  then have "until_close (LF # ''---'' @ LF # rest) = Some ([], rest)" by simp
  with 2 show ?case by (simp add: until_quiet quiet_line_def del: until_close.simps)
next
  case (3 l l' r)
  let ?J = "join_with LF (l' # r)"
  have IH: "until_close (?J @ LF # ''---'' @ LF # rest) = Some (?J, rest)" using 3 by simp
  have l': "quiet_line l'" and l: "quiet_line l" using 3 by auto
  obtain c w where J: "?J = c # w" and c: "c \<noteq> CHR ''-''"
    using l' by (cases l'; cases r) (auto simp: quiet_line_def)
  have "close_block (LF # ?J @ LF # ''---'' @ LF # rest) = None"
    using c by (intro close_none) (auto simp: J)
  then have "until_close (LF # ?J @ LF # ''---'' @ LF # rest) = Some (LF # ?J, rest)" by (simp add: IH [simplified])
  with l show ?case by (simp add: until_quiet quiet_line_def del: until_close.simps)
qed simp

lemma quiet_key_line: "k \<in> set KNOWN_KEYS \<Longrightarrow> LF \<notin> set w \<Longrightarrow> CR \<notin> set w \<Longrightarrow> quiet_line (key_line k w)"
  by (auto simp: KNOWN_KEYS_def quiet_line_def key_line_def)

definition quiet_pairs :: "written \<Rightarrow> bool" where
  "quiet_pairs ps \<longleftrightarrow> list_all (\<lambda>(k, w, v). LF \<notin> set w \<and> CR \<notin> set w) ps"

lemma yaml_clean: "LF \<notin> set (yamlString v)" "CR \<notin> set (yamlString v)"
  by (auto simp: yamlString_def dest!: json_char_clean)

lemma nat_clean: "LF \<notin> set (show_nat n)" "CR \<notin> set (show_nat n)"
  using show_nat_digits [of LF n] show_nat_digits [of CR n] by (auto simp: is_digit_def)

lemma quiet_pairs_simps [simp]:
  "quiet_pairs []" "quiet_pairs (a @ b) \<longleftrightarrow> quiet_pairs a \<and> quiet_pairs b" "quiet_pairs (quoted_pair k v)"
  "quiet_pairs (margin_pairs k m)" "quiet_pairs (plain_pair k (show_nat n))" "quiet_pairs (plain_pair k (size_name sz))"
  "quiet_pairs (plain_pair k (orientation_name ori))" "quiet_pairs (plain_pair k (margin_name g))"
  "quiet_pairs (plain_pair k (border_name bo))" "quiet_pairs (plain_pair k (band_name st))"
  "quiet_pairs (plain_pair k (number_style_name n'))"
  by (simp_all add: quiet_pairs_def plain_pair_def quoted_pair_def yaml_clean nat_clean)
    (cases m, simp_all add: margin_pairs_def nat_clean Let_def, cases sz, simp_all, cases ori, simp_all, cases g, simp_all,
     cases bo, simp_all, cases st, simp_all, cases n', simp_all)

lemma front_pairs_quiet: "quiet_pairs (front_pairs hf l)"
  by (simp add: front_pairs_def Let_def)

lemma lines_quiet:
  assumes "well_written E ps" "quiet_pairs ps"
  shows "\<forall>x \<in> set (map (\<lambda>(k, w, v). key_line k w) ps). quiet_line x"
  using assms by (auto simp: well_written_def quiet_pairs_def list_all_iff intro!: quiet_key_line)

lemma front_matter_fields:
  assumes "margins_exact l"
  shows "\<exists>content. FRONT_MATTER_RE (serializeFrontMatter E hf (Some l) @ body) = Some (content, LF # body)
    \<and> front_fields E content = fields_of (front_pairs hf l)"
proof -
  let ?ls = "map (\<lambda>(k, w, v). key_line k w) (front_pairs hf l)"
  have ne: "?ls \<noteq> []" by (simp add: front_pairs_def plain_pair_def Let_def)
  have q: "\<forall>x \<in> set ?ls. quiet_line x" by (rule lines_quiet [OF front_pairs_written front_pairs_quiet])
  have whole: "serializeFrontMatter E hf (Some l) @ body = ''---'' @ LF # join_with LF ?ls @ LF # ''---'' @ LF # LF # body"
    using ne by (simp add: serializeFrontMatter_def front_lines_pairs [OF assms])
  have "open_block (''---'' @ LF # s) = Some s" for s
    by (simp add: open_block_def match_eol_def strip_prefix_def skip_blanks_def)
  then have "FRONT_MATTER_RE (serializeFrontMatter E hf (Some l) @ body) = Some (join_with LF ?ls, LF # body)"
    unfolding whole FRONT_MATTER_RE_def using until_close_join [OF ne q] by simp
  moreover have "front_fields E (join_with LF ?ls) = fields_of (front_pairs hf l)"
    by (simp only: front_fields_def crlf_join [OF ne q] fields_written [OF front_pairs_written] fields_of_def)
  ultimately show ?thesis by blast
qed

section \<open>What the block says\<close>

text \<open>The patches a block stands for that shows the settings \<open>hf\<close> and \<open>l\<close>.\<close>

definition shown_bands :: "header_footer \<Rightarrow> header_footer_patch" where
  "shown_bands hf =
     (let shown = (\<lambda>en st. if en \<and> st \<noteq> Blank then Some st else None)
      in \<lparr>hp_headerEnabled = Some (hf_headerEnabled hf), hp_footerEnabled = Some (hf_footerEnabled hf),
          hp_header = (if hf_headerEnabled hf then Some (hf_header hf) else None),
          hp_footer = (if hf_footerEnabled hf then Some (hf_footer hf) else None),
          hp_showPageNumber = Some (hf_showPageNumber hf),
          hp_headerStyle = shown (hf_headerEnabled hf) (hf_headerStyle hf),
          hp_footerStyle = shown (hf_footerEnabled hf) (hf_footerStyle hf),
          hp_pageNumberStyle = (if hf_showPageNumber hf then Some (hf_pageNumberStyle hf) else None)\<rparr>)"

definition shown_margin :: "rat option \<Rightarrow> js_number option" where
  "shown_margin m = map_option (\<lambda>q. Finite (of_int (roundOf q))) m"

definition shown_page :: "page_setup \<Rightarrow> page_patch" where
  "shown_page ps =
     \<lparr>pp_size = Some (ps_size ps), pp_orientation = Some (ps_orientation ps), pp_margin = Some (ps_margin ps),
      pp_marginX = shown_margin (ps_marginX ps), pp_marginY = shown_margin (ps_marginY ps), pp_rulerUnit = None,
      pp_columns = Some (or_else (ps_columns ps) One)\<rparr>"

definition shown_decoration :: "decoration \<Rightarrow> decoration_patch" where
  "shown_decoration d =
     \<lparr>dp_border = (if de_border d \<noteq> NoBorder then Some (de_border d) else None),
      dp_watermark = (if trim (de_watermark d) \<noteq> [] then Some (de_watermark d) else None)\<rparr>"

lemma last_of_pieces [simp]:
  "last_of (plain_pair k v) j = (if j = k then Some v else None)"
  "last_of (quoted_pair k v) j = (if j = k then Some v else None)"
  "last_of (margin_pairs k m) j = (if j = k then map_option (\<lambda>q. show_nat (nat (roundOf q))) m else None)"
  "last_of (if c then a else b) j = (if c then last_of a j else last_of b j)"
  by (cases m; simp add: plain_pair_def quoted_pair_def margin_pairs_def Let_def)+

lemma field_values:
  fixes hf l
  defines "f \<equiv> fields_of (front_pairs hf l)"
  shows "map_get f ''page-size'' = Some (size_name (ps_size (lm_pageSetup l)))"
    "map_get f ''orientation'' = Some (orientation_name (ps_orientation (lm_pageSetup l)))"
    "map_get f ''margin'' = Some (margin_name (ps_margin (lm_pageSetup l)))"
    "map_get f ''margin-x'' = map_option (\<lambda>q. show_nat (nat (roundOf q))) (ps_marginX (lm_pageSetup l))"
    "map_get f ''margin-y'' = map_option (\<lambda>q. show_nat (nat (roundOf q))) (ps_marginY (lm_pageSetup l))"
    "map_get f ''columns'' = Some (show_nat (nat \<lfloor>columns_number (or_else (ps_columns (lm_pageSetup l)) One)\<rfloor>))"
    "map_get f ''border'' = (if de_border (lm_decoration l) \<noteq> NoBorder then Some (border_name (de_border (lm_decoration l))) else None)"
    "map_get f ''watermark'' = (if trim (de_watermark (lm_decoration l)) \<noteq> [] then Some (de_watermark (lm_decoration l)) else None)"
    "map_get f ''header'' = (if hf_headerEnabled hf then Some (hf_header hf) else None)"
    "map_get f ''footer'' = (if hf_footerEnabled hf then Some (hf_footer hf) else None)"
    "map_get f ''header-style'' = (if hf_headerEnabled hf \<and> hf_headerStyle hf \<noteq> Blank then Some (band_name (hf_headerStyle hf)) else None)"
    "map_get f ''footer-style'' = (if hf_footerEnabled hf \<and> hf_footerStyle hf \<noteq> Blank then Some (band_name (hf_footerStyle hf)) else None)"
    "map_get f ''page-numbers'' = (if hf_showPageNumber hf then Some (number_style_name (hf_pageNumberStyle hf)) else None)"
  by (simp_all add: f_def get_fields_of front_pairs_def Let_def)

lemma names_read [simp]:
  "asPageSize (size_name s) = Some s" "asOrientation (orientation_name ori) = Some ori" "asMargin (margin_name g) = Some g"
  "asBorder (border_name b) = Some b" "asBandStyle (band_name st) = st" "asPageNumberStyle (number_style_name n) = n"
  by (cases s, simp_all add: asPageSize_def) (cases ori, simp_all add: asOrientation_def, cases g, simp_all add: asMargin_def,
    cases b, simp_all add: asBorder_def, simp_all add: asBandStyle_def asPageNumberStyle_def)

lemma names_not_flags [simp]:
  "number_style_name n \<noteq> []" "to_lower (number_style_name n) \<noteq> ''false''" "to_lower (number_style_name n) \<noteq> ''true''"
  "band_name st \<noteq> []"
  by (cases n; simp add: to_lower_def lower_char_def)+ (cases st; simp)

lemma columns_read [simp]: "asColumns E (show_nat (nat \<lfloor>columns_number c\<rfloor>)) = Some c"
  by (cases c) (simp_all only: asColumns_def number_shown(2) [OF columns_floor(1,2)] columns_floor(3), simp_all)

lemma margin_read: "margin_exact (Some q) \<Longrightarrow> asPx E (show_nat (nat (roundOf q))) = Some (Finite (of_int (roundOf q)))"
  by (simp add: margin_exact_def asPx_def number_shown round_nonneg margin_px_def)

lemma bands_shown: "bands_of (fields_of (front_pairs hf l)) = shown_bands hf"
  by (simp add: bands_of_def shown_bands_def field_values Let_def map_has_def non_empty_def)

lemma geometry_shown: "margins_exact l \<Longrightarrow> geometry_of E (fields_of (front_pairs hf l)) = shown_page (lm_pageSetup l)"
  by (cases "ps_marginX (lm_pageSetup l)"; cases "ps_marginY (lm_pageSetup l)")
    (simp_all add: geometry_of_def shown_page_def shown_margin_def field_values margins_exact_def margin_read)

lemma decoration_shown: "decoration_of (fields_of (front_pairs hf l)) = shown_decoration (lm_decoration l)"
  by (simp add: decoration_of_def shown_decoration_def field_values)

lemma key_listed: "map_get m k = Some v \<Longrightarrow> k \<in> set (map_keys m)"
  by (auto simp: map_keys_def dest!: map_get_in_set intro!: image_eqI [where x = "(k, v)"])

lemma own_block_known: "list_ex (\<lambda>k. k \<in> set KNOWN_KEYS) (map_keys (fields_of (front_pairs hf l)))"
  using key_listed [OF field_values(1) [of hf l]] by (auto simp: list_ex_iff KNOWN_KEYS_def)

lemma merge_shown [simp]:
  "merge_bands (shown_bands hf) hf = hf" "merge_decoration (shown_decoration d) d = d"
  by (simp_all add: merge_bands_def shown_bands_def merge_decoration_def shown_decoration_def Let_def)

lemma page_merged:
  assumes "margin_exact (ps_marginX s)" "margin_exact (ps_marginY s)"
  shows "merge_page (shown_page s) s =
    s\<lparr>ps_marginX := map_option (of_int \<circ> roundOf) (ps_marginX s), ps_marginY := map_option (of_int \<circ> roundOf) (ps_marginY s),
      ps_columns := Some (or_else (ps_columns s) One)\<rparr>"
  using assms
  by (cases "ps_marginX s"; cases "ps_marginY s")
    (simp_all add: merge_page_def shown_page_def shown_margin_def margin_px_def margin_exact_def round_nonneg)

lemma front_matter_reads:
  assumes "margins_exact l"
  shows "parseFrontMatter E (serializeFrontMatter E hf (Some l) @ body) =
    \<lparr>pf_patch = Some (shown_bands hf), pf_pageSetup = Some (shown_page (lm_pageSetup l)),
     pf_decoration = (if shown_decoration (lm_decoration l) = no_decoration_patch then None
                      else Some (shown_decoration (lm_decoration l))),
     pf_body = body\<rparr>"
proof -
  obtain content where "FRONT_MATTER_RE (serializeFrontMatter E hf (Some l) @ body) = Some (content, LF # body)"
    and "front_fields E content = fields_of (front_pairs hf l)"
    using front_matter_fields [OF assms] by blast
  moreover have "shown_page (lm_pageSetup l) \<noteq> no_page_patch" by (simp add: shown_page_def no_page_patch_def)
  moreover have "match_eol (LF # body) = Some body" by (simp add: match_eol_def strip_prefix_def)
  ultimately show ?thesis
    by (simp add: parseFrontMatter_def own_block_known bands_shown geometry_shown [OF assms] decoration_shown Let_def)
qed

text \<open>
  C35: A block of metadata above a text reads back as exactly the settings it shows, band by band, page
  field by page field and with margins as whole pixels, and the text below it comes back unchanged,
  whatever header, footer, watermark and text contain.
\<close>

theorem front_matter_read_back:
  assumes "margins_exact l"
  shows "parseFrontMatter E (serializeFrontMatter E hf (Some l) @ body) =
    \<lparr>pf_patch = Some (shown_bands hf), pf_pageSetup = Some (shown_page (lm_pageSetup l)),
     pf_decoration = (if shown_decoration (lm_decoration l) = no_decoration_patch then None
                      else Some (shown_decoration (lm_decoration l))),
     pf_body = body\<rparr>"
  by (rule front_matter_reads [OF assms])

definition plain_fm_env :: fm_env where
  "plain_fm_env = \<lparr>otherNumber = (\<lambda>s. NotANumber), bigNumber = show_int, wideUnit = (\<lambda>n. CHR ''?'')\<rparr>"

definition example_bands :: header_footer where
  "example_bands = DEFAULT_HEADER_FOOTER\<lparr>hf_headerEnabled := True, hf_header := [DQ, BSL, LF, CHR '':'', CHR 0x01],
     hf_headerStyle := Austin\<rparr>"

definition example_layout :: layout_meta where
  "example_layout = \<lparr>lm_pageSetup = DEFAULT_PAGE_SETUP\<lparr>ps_marginX := Some (191 / 2)\<rparr>, lm_decoration = DEFAULT_DECORATION\<rparr>"

lemma example_layout_exact: "margins_exact example_layout"
  by (simp add: margins_exact_def margin_exact_def example_layout_def DEFAULT_PAGE_SETUP_def roundOf_def MAX_EXACT_def)

theorem front_matter_read_back_witness:
  "pf_patch (parseFrontMatter plain_fm_env (serializeFrontMatter plain_fm_env example_bands (Some example_layout) @ ''---''))
     = Some \<lparr>hp_headerEnabled = Some True, hp_footerEnabled = Some False, hp_header = Some [DQ, BSL, LF, CHR '':'', CHR 0x01],
             hp_footer = None, hp_showPageNumber = Some False, hp_headerStyle = Some Austin, hp_footerStyle = None,
             hp_pageNumberStyle = None\<rparr>"
  by (simp add: front_matter_read_back [OF example_layout_exact] shown_bands_def example_bands_def DEFAULT_HEADER_FOOTER_def)

lemma serialize_merged:
  assumes "margins_exact l"
  shows "serializeFrontMatter E hf (Some \<lparr>lm_pageSetup = merge_page (shown_page (lm_pageSetup l)) (lm_pageSetup l),
      lm_decoration = lm_decoration l\<rparr>) = serializeFrontMatter E hf (Some l)"
proof -
  have "margin_line E k (map_option (of_int \<circ> roundOf) m) = margin_line E k m" for k m
    by (cases m) (simp_all add: margin_line_def)
  then show ?thesis
    using assms by (simp add: serializeFrontMatter_def front_lines_def layout_lines_def page_merged margins_exact_def Let_def)
qed

lemma unedited_block:
  assumes "margins_exact l"
  shows "applySettings E hf l (parseFrontMatter E (serializeFrontMatter E hf (Some l) @ body)) m = m"
proof (cases "shown_decoration (lm_decoration l) = no_decoration_patch")
  case True
  then show ?thesis
    using serialize_merged [OF assms, of E hf] by (simp add: applySettings_def front_matter_reads [OF assms] Let_def)
next
  case False
  then show ?thesis
    using serialize_merged [OF assms, of E hf] by (simp add: applySettings_def front_matter_reads [OF assms] Let_def)
qed

text \<open>
  C40: Where the settings at the time of saving are those the block was written from, and its margins are
  numbers below \<open>2 ^ 53\<close>, saving a view whose block of metadata was not edited writes nothing to the shared
  map, whatever was done to the text below it: neither rounded margins nor defaults that were shown reach the
  other users.  Where another user changed the settings in the meantime this fails
  (\<open>unedited_block_overwrites\<close>).
\<close>

theorem unedited_block_writes_nothing:
  assumes "margins_exact l"
  shows "applySettings E hf l (parseFrontMatter E (serializeFrontMatter E hf (Some l) @ body)) m = m"
  by (rule unedited_block [OF assms])

theorem unedited_block_writes_nothing_witness:
  "applySettings plain_fm_env example_bands example_layout
     (parseFrontMatter plain_fm_env (serializeFrontMatter plain_fm_env example_bands (Some example_layout) @ ''new text''))
     [(''pageMarginX'', MetaNum (Finite (191 / 2)))] = [(''pageMarginX'', MetaNum (Finite (191 / 2)))]"
  by (rule unedited_block_writes_nothing [OF example_layout_exact])

text \<open>
  Another user changes the bands while a change of the text waits to be applied: the block that was not edited
  still shows the old bands and writes them back.
\<close>

lemma unedited_block_overwrites:
  "let l = \<lparr>lm_pageSetup = DEFAULT_PAGE_SETUP, lm_decoration = DEFAULT_DECORATION\<rparr>;
       shown = parseFrontMatter plain_fm_env (serializeFrontMatter plain_fm_env example_bands (Some l) @ ''text'')
   in map_get (applySettings plain_fm_env (example_bands\<lparr>hf_headerEnabled := False\<rparr>) l shown [(''headerEnabled'', MetaBool False)])
        ''headerEnabled'' = Some (MetaBool True)"
  by code_simp

section \<open>What is taken off a text\<close>

lemma trim_around: "list_all is_ws a \<Longrightarrow> list_all is_ws b \<Longrightarrow> trim (a @ s @ b) = trim s"
proof -
  assume a: "list_all is_ws a" and b: "list_all is_ws b"
  have front: "trim (a @ t) = trim t" for t using a by (simp add: trim_def list_all_iff dropWhile_append)
  have "trim (s @ b) = trim s"
  proof (cases "list_all is_ws s")
    case True
    then have "dropWhile is_ws (s @ b) = []" "dropWhile is_ws s = []" using b by (auto simp: list_all_iff dropWhile_eq_Nil_conv)
    then show ?thesis by (simp only: trim_def)
  next
    case False
    then have "dropWhile is_ws (s @ b) = dropWhile is_ws s @ b" by (auto simp: list_all_iff dropWhile_append)
    then show ?thesis using b by (simp add: trim_def list_all_iff dropWhile_append)
  qed
  with front show ?thesis by simp
qed

lemma eol_taken: "match_eol s = Some t \<Longrightarrow> \<exists>e. s = e @ t \<and> list_all is_ws e"
  by (auto simp: match_eol_def or_opt_def is_ws_def split: option.splits)

lemma blanks_taken: "\<exists>e. s = e @ skip_blanks s \<and> list_all is_ws e"
proof -
  let ?P = "\<lambda>c. c = CHR '' '' \<or> c = CHR 0x09"
  have "s = takeWhile ?P s @ skip_blanks s" by (simp add: skip_blanks_def)
  moreover have "list_all is_ws (takeWhile ?P s)" by (auto simp: list_all_iff is_ws_def dest!: set_takeWhileD)
  ultimately show ?thesis by blast
qed

lemma trim_rule: "list_all is_ws a \<Longrightarrow> list_all is_ws b \<Longrightarrow> trim (a @ ''---'' @ b) = ''---''"
  by (simp only: trim_around) (simp add: trim_def is_ws_def)

lemma open_taken: "open_block s = Some t \<Longrightarrow> \<exists>a. s = a @ t \<and> trim a = ''---''"
proof -
  assume "open_block s = Some t"
  then obtain u where s: "s = ''---'' @ u" and m: "match_eol (skip_blanks u) = Some t" by (auto simp: open_block_def bind_eq_Some_conv)
  obtain e f where "u = e @ skip_blanks u" "skip_blanks u = f @ t" "list_all is_ws e" "list_all is_ws f"
    using blanks_taken [of u] eol_taken [OF m] by blast
  then have "s = ([] @ ''---'' @ (e @ f)) @ t" "trim ([] @ ''---'' @ (e @ f)) = ''---''"
    using s by (simp, intro trim_rule) simp_all
  then show ?thesis by blast
qed

lemma close_taken: "close_block s = Some t \<Longrightarrow> \<exists>a. s = a @ t \<and> trim a = ''---''"
proof -
  assume "close_block s = Some t"
  then obtain u v where m: "match_eol s = Some (''---'' @ v)"
    and r: "(if skip_blanks v = [] then Some [] else match_eol (skip_blanks v)) = Some t"
    by (auto simp: close_block_def bind_eq_Some_conv Let_def)
  obtain e where e: "s = e @ ''---'' @ v" "list_all is_ws e" using eol_taken [OF m] by blast
  obtain f where f: "v = f @ skip_blanks v" "list_all is_ws f" using blanks_taken by blast
  obtain g where g: "skip_blanks v = g @ t" "list_all is_ws g"
    using r eol_taken [of "skip_blanks v" t] by (auto split: if_splits)
  have "trim (e @ ''---'' @ (f @ g)) = ''---''" using e f g by (intro trim_rule) simp_all
  moreover have "s = (e @ ''---'' @ (f @ g)) @ t" using e f g by simp
  ultimately show ?thesis by blast
qed

lemma until_taken: "until_close s = Some (content, t) \<Longrightarrow> \<exists>a. s = content @ a @ t \<and> trim a = ''---''"
  by (induction s arbitrary: content) (auto split: option.splits dest: close_taken)

lemma field_of_line:
  "k \<in> set (map_keys (foldl (put_line E) m ls)) \<Longrightarrow>
    k \<in> set (map_keys m) \<or> (\<exists>x \<in> set ls. CHR '':'' \<in> set x \<and> to_lower (trim (takeWhile (\<lambda>c. c \<noteq> CHR '':'') x)) = k)"
proof (induction ls arbitrary: m)
  case (Cons x ls)
  have "take i x = takeWhile (\<lambda>c. c \<noteq> CHR '':'') x \<and> CHR '':'' \<in> set x" if "index_of x (CHR '':'') = Some i" for i
    using that by (induction x arbitrary: i) (auto split: if_splits)
  then have "k \<in> set (map_keys (put_line E m x)) \<Longrightarrow>
      k \<in> set (map_keys m) \<or> CHR '':'' \<in> set x \<and> to_lower (trim (takeWhile (\<lambda>c. c \<noteq> CHR '':'') x)) = k" for k
    by (auto simp: put_line_def Let_def map_keys_def split: option.splits if_splits)
  with Cons.IH [of "put_line E m x"] Cons.prems show ?case by auto
qed simp

text \<open>
  The reader of metadata either leaves a text as it is and changes no setting, or what it takes off the
  text is a rule, lines with a key of the client's own among them, and a rule, and the rest of the text
  stays: a document that merely begins with a horizontal rule loses nothing.
\<close>

theorem only_own_block_is_taken:
  "parseFrontMatter E s = no_front s \<or>
    (\<exists>a content c e. s = a @ content @ c @ e @ pf_body (parseFrontMatter E s) \<and> trim a = ''---'' \<and> trim c = ''---''
      \<and> e \<in> {[], [LF], [CR, LF]}
      \<and> (\<exists>line \<in> set (crlf_lines content). CHR '':'' \<in> set line
           \<and> to_lower (trim (takeWhile (\<lambda>x. x \<noteq> CHR '':'') line)) \<in> set KNOWN_KEYS))"
proof (cases "parseFrontMatter E s = no_front s")
  case False
  then obtain content rest where re: "FRONT_MATTER_RE s = Some (content, rest)"
    and known: "list_ex (\<lambda>k. k \<in> set KNOWN_KEYS) (map_keys (front_fields E content))"
    and body: "pf_body (parseFrontMatter E s) = or_else (match_eol rest) rest"
    by (auto simp: parseFrontMatter_def Let_def split: option.splits if_splits)
  obtain t where "open_block s = Some t" "until_close t = Some (content, rest)"
    using re by (auto simp: FRONT_MATTER_RE_def bind_eq_Some_conv)
  then obtain a c where s: "s = a @ content @ c @ rest" "trim a = ''---''" "trim c = ''---''"
    using open_taken until_taken by metis
  obtain e where e: "rest = e @ pf_body (parseFrontMatter E s)" "e \<in> {[], [LF], [CR, LF]}"
    unfolding body by (cases "match_eol rest") (auto simp: match_eol_def or_opt_def split: option.splits)
  obtain k where "k \<in> set (map_keys (front_fields E content))" "k \<in> set KNOWN_KEYS" using known by (auto simp: list_ex_iff)
  then obtain line where "line \<in> set (crlf_lines content)" "CHR '':'' \<in> set line"
    "to_lower (trim (takeWhile (\<lambda>x. x \<noteq> CHR '':'') line)) \<in> set KNOWN_KEYS"
    unfolding front_fields_def using field_of_line [of k E "[]" "crlf_lines content"] by (auto simp: map_keys_def)
  then show ?thesis using s e by metis
qed simp

section \<open>What goes wrong\<close>

text \<open>
  The comment at the head of the module says that a missing key leaves its setting untouched.  Taking out the
  line of a custom margin does that while nothing else is edited; together with a new header the margin is
  wiped for every user, as the line of the preset, which is always there, drops custom margins.
\<close>

definition without_margin :: string where
  "without_margin = join_with LF [''---'', ''margin: normal'', ''header: New'', ''---'', ''Text'']"

definition without_margin_only :: string where
  "without_margin_only = join_with LF [''---'', ''margin: normal'', ''---'', ''Text'']"

lemma missing_margin_wiped:
  "map_get (applySettings plain_fm_env DEFAULT_HEADER_FOOTER example_layout (parseFrontMatter plain_fm_env without_margin_only)
      [(''pageMarginX'', MetaNum (Finite (191 / 2)))]) ''pageMarginX'' = Some (MetaNum (Finite (191 / 2)))"
  "map_get (applySettings plain_fm_env DEFAULT_HEADER_FOOTER example_layout (parseFrontMatter plain_fm_env without_margin)
      [(''pageMarginX'', MetaNum (Finite (191 / 2)))]) ''pageMarginX'' = None"
  by code_simp+

text \<open>A margin whose value has just been deleted, to type another, is a margin of no pixels at all.\<close>

lemma empty_margin_is_zero:
  "Option.bind (pf_pageSetup (parseFrontMatter plain_fm_env (join_with LF [''---'', ''margin-x: '', ''---'', ''Text'']))) pp_marginX
    = Some (Finite 0)"
  by code_simp

end
