(* ===== verification/LiveDocOverlay.thy ===== *)
theory LiveDocOverlay
  imports Mentions
begin

text \<open>
  The Markdown source of a live document as it is drawn (\<open>components/chat/livedoc/LiveDocMarkdownView.tsx\<close>).
  A text area holds the source; an overlay of spans over it shows mentions and collapsed images as chips,
  the highlighting, the selection, the caret and the carets of other users.  The overlay spells the source
  with every chip in place of its marker and has exactly one caret (\<open>overlay_spells_source\<close>), and the caret
  stands where the mapping of offsets says (\<open>caret_where_mapped\<close>).

  Source and chips are over any type of characters, \<open>chars\<close> holds what the code tests of them.
\<close>

section \<open>Data\<close>

datatype chip_kind = UserChip | RoleChip | EveryoneChip | HereChip | ImageChip

record 'c overlay_chip =
  oc_start :: nat
  oc_end :: nat
  oc_kind :: chip_kind
  oc_display :: "'c list"

record overlay_selection =
  os_caret :: int
  os_selFrom :: int
  os_selTo :: int
  os_showCaret :: bool

record remote_caret =
  rc_offset :: nat
  rc_color :: string
  rc_name :: string

datatype 'c onode =
    TextSpan string bool "'c list"          \<comment> \<open>class of the highlighter, selected, text\<close>
  | ChipSpan chip_kind bool "'c list"
  | CaretMark
  | RemoteMark string string
  | PageAnchor
  | TrailSpace

type_synonym 'c hljs_tokens = "('c list \<times> string) list"

section \<open>The chips of a source\<close>

text \<open>A code unit of the source: one below 256, or one of the brackets of a collapsed image.\<close>

datatype unit16 = Ch char | TokOpen | TokClose

type_synonym source = "unit16 list"

definition narrow :: "string \<Rightarrow> source" where
  "narrow s = map Ch s"

definition strip_src :: "string \<Rightarrow> source \<Rightarrow> source option" where
  "strip_src p s = (if take (length p) s = narrow p then Some (drop (length p) s) else None)"

definition unit_holds :: "(char \<Rightarrow> bool) \<Rightarrow> unit16 \<Rightarrow> bool" where
  "unit_holds P u = (case u of Ch c \<Rightarrow> P c | _ \<Rightarrow> False)"

definition chars_of :: "source \<Rightarrow> string" where
  "chars_of s = concat (map (\<lambda>u. case u of Ch c \<Rightarrow> [c] | _ \<Rightarrow> []) s)"

text \<open>\<open>\<lbrakk>[^\<rbrakk>]*\<rbrakk>\<close>: the length of a token at a position.\<close>

definition token_here :: "source \<Rightarrow> nat option" where
  "token_here s =
     (case s of
        TokOpen # t \<Rightarrow> (let n = length (takeWhile (\<lambda>u. u \<noteq> TokClose) t) in if n < length t then Some (n + 2) else None)
      | _ \<Rightarrow> None)"

definition user_here :: "source \<Rightarrow> string option" where
  "user_here s =
     (case strip_src ''<@'' s of
        None \<Rightarrow> None
      | Some t \<Rightarrow> (let ds = takeWhile (unit_holds is_digit) t
                  in if ds \<noteq> [] \<and> strip_src ''>'' (drop (length ds) t) \<noteq> None then Some (chars_of ds) else None))"

definition role_here :: "source \<Rightarrow> source option" where
  "role_here s =
     (case strip_src ''<@&'' s of
        None \<Rightarrow> None
      | Some t \<Rightarrow> (let r = takeWhile (\<lambda>u. \<not> unit_holds (\<lambda>c. c = CHR ''>'' \<or> is_ws c) u) t
                  in if r \<noteq> [] \<and> strip_src ''>'' (drop (length r) t) \<noteq> None then Some r else None))"

definition all_here :: "string \<Rightarrow> source \<Rightarrow> bool" where
  "all_here w s \<longleftrightarrow> (case strip_src (CHR ''@'' # w) s of None \<Rightarrow> False | Some [] \<Rightarrow> True | Some (u # _) \<Rightarrow> \<not> unit_holds is_word u)"

text \<open>A match at a position: its length, what kind of chip it is and what is shown.\<close>

definition chip_here :: "(int \<Rightarrow> string option) \<Rightarrow> source \<Rightarrow> (nat \<times> chip_kind \<times> source) option" where
  "chip_here resolveName s =
     (case token_here s of
        Some n \<Rightarrow> Some (n, ImageChip, take n s)
      | None \<Rightarrow>
          (case user_here s of
             Some ds \<Rightarrow>
               Some (length ds + 3, UserChip,
                 narrow (CHR ''@'' # or_else (Option.bind (round_double (int (read_digits ds))) resolveName) (''user-'' @ ds)))
           | None \<Rightarrow>
               (case role_here s of
                  Some r \<Rightarrow> Some (length r + 4, RoleChip, Ch (CHR ''@'') # r)
                | None \<Rightarrow>
                    if all_here ''everyone'' s then Some (9, EveryoneChip, take 9 s)
                    else if all_here ''here'' s then Some (5, HereChip, take 5 s) else None)))"

text \<open>\<open>@everyone\<close> and \<open>@here\<close> behind anything but white space are passed over.\<close>

definition chip_counts :: "chip_kind \<Rightarrow> unit16 option \<Rightarrow> bool" where
  "chip_counts k prev \<longleftrightarrow> k \<notin> {EveryoneChip, HereChip} \<or> (case prev of None \<Rightarrow> True | Some u \<Rightarrow> unit_holds is_ws u)"

function chips_scan :: "(int \<Rightarrow> string option) \<Rightarrow> unit16 option \<Rightarrow> nat \<Rightarrow> source \<Rightarrow> unit16 overlay_chip list" where
  "chips_scan resolveName prev pos s =
     (case s of
        [] \<Rightarrow> []
      | u # r \<Rightarrow>
          (case chip_here resolveName s of
             None \<Rightarrow> chips_scan resolveName (Some u) (pos + 1) r
           | Some (n, k, label) \<Rightarrow>
               (if chip_counts k prev
                then [\<lparr>oc_start = pos, oc_end = pos + n, oc_kind = k, oc_display = label\<rparr>] else [])
               @ (if n = 0 then [] else chips_scan resolveName (Some (s ! (n - 1))) (pos + n) (drop n s))))"
  by pat_completeness auto
termination by (relation "measure (\<lambda>(r, p, n, s). length s)") auto

declare chips_scan.simps [simp del]

definition findChips :: "(int \<Rightarrow> string option) \<Rightarrow> source \<Rightarrow> unit16 overlay_chip list" where
  "findChips resolveName s = chips_scan resolveName None 0 s"

section \<open>Offsets\<close>

definition chip_delta :: "'c overlay_chip \<Rightarrow> int" where
  "chip_delta c = int (length (oc_display c)) - (int (oc_end c) - int (oc_start c))"

fun sourceToOverlayOffset :: "'c overlay_chip list \<Rightarrow> nat \<Rightarrow> int" where
  "sourceToOverlayOffset [] pos = int pos"
| "sourceToOverlayOffset (c # cs) pos =
     (if oc_end c \<le> pos then sourceToOverlayOffset cs pos + chip_delta c else int pos)"

section \<open>Drawing\<close>

text \<open>The class at a position: the last token that starts at or before it.\<close>

fun cls_from :: "nat \<Rightarrow> string \<Rightarrow> 'c hljs_tokens \<Rightarrow> nat \<Rightarrow> string" where
  "cls_from p cur [] pos = cur"
| "cls_from p cur ((t, cls) # ts) pos = (if p \<le> pos then cls_from (p + length t) cls ts pos else cur)"

definition clsAt :: "'c hljs_tokens \<Rightarrow> nat \<Rightarrow> string" where
  "clsAt tokens pos = (case tokens of [] \<Rightarrow> [] | (t, cls) # ts \<Rightarrow> cls_from (length t) cls ts pos)"

fun token_starts :: "nat \<Rightarrow> 'c hljs_tokens \<Rightarrow> nat list" where
  "token_starts p [] = []"
| "token_starts p ((t, cls) # ts) = p # token_starts (p + length t) ts"

record 'c overlay_input =
  oi_text :: "'c list"
  oi_tokens :: "'c hljs_tokens"
  oi_chips :: "'c overlay_chip list"
  oi_sel :: overlay_selection
  oi_remotes :: "remote_caret list"
  oi_anchors :: "nat list"

definition hasSel :: "overlay_selection \<Rightarrow> bool" where
  "hasSel s \<longleftrightarrow> 0 \<le> os_selFrom s \<and> os_selFrom s < os_selTo s"

definition drawCaret :: "overlay_selection \<Rightarrow> bool" where
  "drawCaret s \<longleftrightarrow> os_showCaret s \<and> \<not> hasSel s \<and> 0 \<le> os_caret s"

definition emitAt :: "'c overlay_input \<Rightarrow> nat \<Rightarrow> 'c onode list" where
  "emitAt i pos =
     map (\<lambda>rc. RemoteMark (rc_color rc) (rc_name rc)) (filter (\<lambda>rc. rc_offset rc = pos) (oi_remotes i))
     @ map (\<lambda>off. PageAnchor) (filter (\<lambda>off. off = pos) (oi_anchors i))"

definition overlay_bounds :: "'c overlay_input \<Rightarrow> int list" where
  "overlay_bounds i =
     (let s = oi_sel i
      in [0, int (length (oi_text i))] @ map int (token_starts 0 (oi_tokens i))
        @ concat (map (\<lambda>c. [int (oc_start c), int (oc_end c)]) (oi_chips i))
        @ map (int \<circ> rc_offset) (oi_remotes i) @ map int (oi_anchors i)
        @ (if drawCaret s then [os_caret s] else []) @ (if hasSel s then [os_selFrom s, os_selTo s] else []))"

definition ordered_bounds :: "'c overlay_input \<Rightarrow> nat list" where
  "ordered_bounds i =
     map nat (sort (remdups (filter (\<lambda>b. 0 \<le> b \<and> b \<le> int (length (oi_text i))) (overlay_bounds i))))"

definition chipByStart :: "'c overlay_chip list \<Rightarrow> nat \<Rightarrow> 'c overlay_chip option" where
  "chipByStart chips p = map_of (rev (map (\<lambda>c. (oc_start c, c)) chips)) p"

text \<open>
  The loop over the bounds.  A chip ends behind its start, so the bounds below its end are skipped from the
  next one on.
\<close>

function overlay_loop :: "'c overlay_input \<Rightarrow> bool \<Rightarrow> nat list \<Rightarrow> 'c onode list \<times> bool" where
  "overlay_loop i caretDone [] = ([], caretDone)"
| "overlay_loop i caretDone [b] = ([], caretDone)"
| "overlay_loop i caretDone (from # til # bs) =
     (let s = oi_sel i;
          here = (\<not> caretDone \<and> int from = os_caret s);
          lead = (if here then [CaretMark] else []) @ emitAt i from;
          done1 = (caretDone \<or> here)
      in case chipByStart (oi_chips i) from of
           Some c \<Rightarrow>
             (let inSel = (hasSel s \<and> int from < os_selTo s \<and> os_selFrom s < int (oc_end c));
                  snap = (\<not> done1 \<and> int (oc_start c) < os_caret s \<and> os_caret s \<le> int (oc_end c));
                  (nodes, d) = overlay_loop i (done1 \<or> snap) (dropWhile (\<lambda>b. b < oc_end c) (til # bs))
              in (lead @ [ChipSpan (oc_kind c) inSel (oc_display c)] @ (if snap then [CaretMark] else []) @ nodes, d))
         | None \<Rightarrow>
             (let piece = slice from til (oi_text i);
                  inSel = (hasSel s \<and> os_selFrom s \<le> int from \<and> int til \<le> os_selTo s);
                  (nodes, d) = overlay_loop i done1 (til # bs)
              in (lead @ (if piece \<noteq> [] then [TextSpan (clsAt (oi_tokens i) from) inSel piece] else []) @ nodes, d)))"
  by pat_completeness auto
termination
  by (relation "measure (\<lambda>(i, d, bs). length bs)") (auto intro!: le_less_trans [OF length_dropWhile_le])

definition buildOverlayNodes :: "('c \<Rightarrow> bool) \<Rightarrow> 'c overlay_input \<Rightarrow> 'c onode list" where
  "buildOverlayNodes is_newline i =
     (let (nodes, caretDone) = overlay_loop i (\<not> drawCaret (oi_sel i)) (ordered_bounds i)
      in nodes @ (if caretDone then [] else [CaretMark]) @ emitAt i (length (oi_text i))
         @ (if oi_text i \<noteq> [] \<and> is_newline (last (oi_text i)) then [TrailSpace] else []))"

section \<open>The overlay spells the source\<close>

text \<open>The source from a position on with the chips of a list in place of their markers.\<close>

fun with_chips :: "nat \<Rightarrow> 'c overlay_chip list \<Rightarrow> 'c list \<Rightarrow> 'c list" where
  "with_chips p [] s = drop p s"
| "with_chips p (c # cs) s = slice p (oc_start c) s @ oc_display c @ with_chips (oc_end c) cs s"

fun chips_from :: "nat \<Rightarrow> nat \<Rightarrow> 'c overlay_chip list \<Rightarrow> bool" where
  "chips_from p n [] \<longleftrightarrow> p \<le> n"
| "chips_from p n (c # cs) \<longleftrightarrow> p \<le> oc_start c \<and> oc_start c < oc_end c \<and> chips_from (oc_end c) n cs"

fun spelled :: "'c onode \<Rightarrow> 'c list" where
  "spelled (TextSpan cls sel t) = t"
| "spelled (ChipSpan k sel t) = t"
| "spelled _ = []"

abbreviation spell :: "'c onode list \<Rightarrow> 'c list" where
  "spell ns \<equiv> concat (map spelled ns)"

abbreviation carets :: "'c onode list \<Rightarrow> nat" where
  "carets ns \<equiv> length (filter (\<lambda>x. x = CaretMark) ns)"

lemma chips_from_le: "chips_from p n cs \<Longrightarrow> p \<le> n"
  by (induction cs arbitrary: p) fastforce+

lemma chips_from_mono: "chips_from p n cs \<Longrightarrow> q \<le> p \<Longrightarrow> chips_from q n cs"
  by (cases cs) auto

lemma chips_from_starts: "chips_from p n cs \<Longrightarrow> c \<in> set cs \<Longrightarrow> p \<le> oc_start c \<and> oc_start c < oc_end c \<and> oc_end c \<le> n"
proof (induction cs arbitrary: p)
  case (Cons d cs)
  then show ?case using chips_from_le [of "oc_end d" n cs] by (cases "c = d") fastforce+
qed simp

lemma emit_spelled [simp]: "spell (emitAt i p) = []" "carets (emitAt i p) = 0" "CaretMark \<notin> set (emitAt i p)"
  by (auto simp: emitAt_def filter_empty_conv)

text \<open>What the loop finds at a bound when the chips before it are drawn.\<close>

definition chips_left :: "'c overlay_input \<Rightarrow> nat \<Rightarrow> 'c overlay_chip list \<Rightarrow> bool" where
  "chips_left i p cs \<longleftrightarrow> chips_from p (length (oi_text i)) cs
     \<and> (\<exists>before. oi_chips i = before @ cs \<and> (\<forall>c \<in> set before. oc_start c < p))"

lemma no_start: "\<forall>c \<in> set cs. oc_start c \<noteq> p \<Longrightarrow> map_of (rev (map (\<lambda>c. (oc_start c, c)) cs)) p = None"
  by (auto simp: map_of_eq_None_iff)

lemma chip_found:
  assumes "chips_left i p cs"
  shows "chipByStart (oi_chips i) p = (case cs of c # _ \<Rightarrow> if oc_start c = p then Some c else None | [] \<Rightarrow> None)"
proof -
  obtain before where b: "oi_chips i = before @ cs" "\<forall>c \<in> set before. oc_start c \<noteq> p" and cs: "chips_from p (length (oi_text i)) cs"
    using assms by (auto simp: chips_left_def)
  have "\<forall>d \<in> set (tl cs). oc_start d \<noteq> p"
    using cs by (cases cs) (auto dest!: chips_from_starts)
  then show ?thesis
    using b by (cases cs) (auto simp: chipByStart_def map_add_def no_start)
qed

lemma chips_left_chip: "chips_left i p (c # cs) \<Longrightarrow> chips_left i (oc_end c) cs"
  unfolding chips_left_def by (force intro: exI [of _ "_ @ [c]"])

lemma chips_left_text: "chips_left i p cs \<Longrightarrow> chips_from q (length (oi_text i)) cs \<Longrightarrow> p \<le> q \<Longrightarrow> chips_left i q cs"
  unfolding chips_left_def by (meson order_less_le_trans)

lemma slice_join: "p \<le> q \<Longrightarrow> slice p q s @ drop q s = drop p s" "p \<le> q \<Longrightarrow> q \<le> r \<Longrightarrow> slice p q s @ slice q r s = slice p r s"
proof -
  assume "p \<le> q"
  then have d: "drop q s = drop (q - p) (drop p s)" by simp
  show "slice p q s @ drop q s = drop p s" unfolding d slice_def by (rule append_take_drop_id)
  show "slice p q s @ slice q r s = slice p r s" if "q \<le> r"
    using \<open>p \<le> q\<close> that take_add [of "q - p" "r - q" "drop p s"] unfolding slice_def d by simp
qed

lemma with_chips_split:
  assumes "chips_from q n cs" "p \<le> q"
  shows "with_chips p cs s = slice p q s @ with_chips q cs s"
proof (cases cs)
  case (Cons c r)
  with assms have "slice p q s @ slice q (oc_start c) s = slice p (oc_start c) s" by (intro slice_join) simp_all
  then show ?thesis by (simp add: Cons)
qed (simp add: slice_join assms)

lemma left_bounds: "chips_left i p cs \<Longrightarrow> c \<in> set cs \<Longrightarrow> p \<le> oc_start c \<and> oc_start c < oc_end c \<and> oc_end c \<le> length (oi_text i)"
  using chips_from_starts by (fastforce simp: chips_left_def)

text \<open>Where the loop stands: the bounds left, and the chips left, which start and end at bounds.\<close>

definition loop_at :: "'c overlay_input \<Rightarrow> nat list \<Rightarrow> 'c overlay_chip list \<Rightarrow> bool" where
  "loop_at i bs cs \<longleftrightarrow> bs \<noteq> [] \<and> chips_left i (hd bs) cs \<and> sorted_wrt (<) bs \<and> last bs = length (oi_text i)
     \<and> (\<forall>c \<in> set cs. oc_start c \<in> set bs \<and> oc_end c \<in> set bs)"

lemma loop_end: "loop_at i [p] cs \<Longrightarrow> cs = [] \<and> p = length (oi_text i)"
  using left_bounds [of i p cs "hd cs"] by (cases cs) (auto simp: loop_at_def)

lemma loop_text:
  assumes "loop_at i (p # til # bs) cs" "chipByStart (oi_chips i) p = None"
  shows "loop_at i (til # bs) cs" "p < til" "with_chips p cs (oi_text i) = slice p til (oi_text i) @ with_chips til cs (oi_text i)"
    "\<forall>c \<in> set cs. til \<le> oc_start c"
proof -
  have left: "chips_left i p cs" and bs: "sorted_wrt (<) (p # til # bs)" "last (til # bs) = length (oi_text i)"
    and mem: "\<forall>c \<in> set cs. oc_start c \<in> set (p # til # bs) \<and> oc_end c \<in> set (p # til # bs)"
    using assms(1) by (auto simp: loop_at_def)
  have starts: "oc_start c \<noteq> p" if "c \<in> set cs" for c
  proof (cases cs)
    case (Cons d ds)
    have "oc_start d \<noteq> p" using chip_found [OF left] assms(2) by (simp add: Cons split: if_splits)
    moreover have "oc_start d \<le> oc_start c"
      using left that chips_from_starts [of "oc_end d" "length (oi_text i)" ds c] by (auto simp: Cons chips_left_def)
    ultimately show ?thesis using left_bounds [OF left, of d] by (simp add: Cons)
  qed (use that in simp)
  have ends: "oc_end c \<noteq> p" if "c \<in> set cs" for c using left_bounds [OF left that] by simp
  show later: "\<forall>c \<in> set cs. til \<le> oc_start c"
    using mem bs starts by fastforce
  show "p < til" using bs by simp
  have "til \<le> length (oi_text i)" using bs by (cases bs) (auto simp: le_less split: if_splits dest!: last_in_set)
  then have from_til: "chips_from til (length (oi_text i)) cs"
    using left later by (cases cs) (auto simp: chips_left_def)
  then have "chips_left i til cs" using left \<open>p < til\<close> by (auto intro: chips_left_text)
  then show "loop_at i (til # bs) cs" using bs mem starts ends by (auto simp: loop_at_def)
  show "with_chips p cs (oi_text i) = slice p til (oi_text i) @ with_chips til cs (oi_text i)"
    using from_til \<open>p < til\<close> by (intro with_chips_split) simp_all
qed

lemma dropWhile_to: "sorted_wrt (<) bs \<Longrightarrow> (e :: nat) \<in> set bs \<Longrightarrow> \<exists>r. dropWhile (\<lambda>b. b < e) bs = e # r \<and> set r = {b \<in> set bs. e < b} \<and> sorted_wrt (<) (e # r)
    \<and> last (e # r) = last bs \<and> length r < length bs"
proof (induction bs)
  case (Cons b bs)
  show ?case
  proof (cases "b = e")
    case True
    with Cons.prems show ?thesis by auto
  next
    case False
    then have b: "b < e" "e \<in> set bs" using Cons.prems by auto
    obtain r where r: "dropWhile (\<lambda>b. b < e) bs = e # r" "set r = {b \<in> set bs. e < b}" "sorted_wrt (<) (e # r)"
      "last (e # r) = last bs" "length r < length bs"
      using Cons.IH Cons.prems b by auto
    have rset: "set r = {x \<in> set (b # bs). e < x}" unfolding r(2) using b(1) by auto
    have "bs \<noteq> []" using b(2) by auto
    then have rlast: "last (e # r) = last (b # bs)" using r(4) by (simp only: last_ConsR) simp
    have "dropWhile (\<lambda>b. b < e) (b # bs) = e # r" "length r < length (b # bs)" using r(1,5) b(1) by simp_all
    then show ?thesis using rset rlast r(3) by blast
  qed
qed simp

lemma loop_chip:
  assumes "loop_at i (p # til # bs) cs" "chipByStart (oi_chips i) p = Some c"
  shows "\<exists>r cs'. dropWhile (\<lambda>b. b < oc_end c) (til # bs) = oc_end c # r \<and> length r < length (til # bs) \<and> cs = c # cs'
    \<and> oc_start c = p \<and> p < oc_end c \<and> loop_at i (oc_end c # r) cs' \<and> set r = {b \<in> set (til # bs). oc_end c < b}"
proof -
  have left: "chips_left i p cs" and bs: "sorted_wrt (<) (til # bs)" "last (til # bs) = length (oi_text i)"
    and mem: "\<forall>c \<in> set cs. oc_start c \<in> set (p # til # bs) \<and> oc_end c \<in> set (p # til # bs)"
    using assms(1) by (auto simp: loop_at_def)
  obtain cs' where cs: "cs = c # cs'" and start: "oc_start c = p"
    using chip_found [OF left] assms(2) by (auto split: list.splits if_splits)
  have stop: "p < oc_end c" "oc_end c \<in> set (til # bs)" using left_bounds [OF left, of c] mem by (auto simp: cs start)
  obtain r where r: "dropWhile (\<lambda>b. b < oc_end c) (til # bs) = oc_end c # r" "set r = {b \<in> set (til # bs). oc_end c < b}"
    "sorted_wrt (<) (oc_end c # r)" "last (oc_end c # r) = last (til # bs)" "length r < length (til # bs)"
    using dropWhile_to [OF bs(1) stop(2)] by blast
  have left': "chips_left i (oc_end c) cs'" using left by (simp add: cs chips_left_chip)
  have "oc_start d \<in> set (oc_end c # r) \<and> oc_end d \<in> set (oc_end c # r)" if "d \<in> set cs'" for d
    using left_bounds [OF left' that] mem stop that r(2) by (auto simp: cs)
  then have "loop_at i (oc_end c # r) cs'" using left' r(3,4) bs(2) by (auto simp: loop_at_def)
  then show ?thesis using r cs start stop by blast
qed

lemma loop_spells: "loop_at i bs cs \<Longrightarrow> spell (fst (overlay_loop i d bs)) = with_chips (hd bs) cs (oi_text i)"
proof (induction "length bs" arbitrary: bs cs d rule: less_induct)
  case less
  consider p where "bs = [p]" | p til r where "bs = p # til # r" using less.prems by (metis loop_at_def list.exhaust)
  then show ?case
  proof cases
    case 1
    then show ?thesis using loop_end [of i p cs] less.prems by simp
  next
    case 2
    show ?thesis
    proof (cases "chipByStart (oi_chips i) p")
      case None
      have "spell (fst (overlay_loop i d' (til # r))) = with_chips til cs (oi_text i)" for d'
        using less.hyps [of "til # r" cs d'] loop_text(1) [of i p til r cs] less.prems None 2 by simp
      then show ?thesis using loop_text(3) [of i p til r cs] less.prems None 2 by (simp add: Let_def split_beta)
    next
      case (Some c)
      obtain r' cs' where r': "dropWhile (\<lambda>b. b < oc_end c) (til # r) = oc_end c # r'" "length r' < length (til # r)" "cs = c # cs'"
        "oc_start c = p" "p < oc_end c" "loop_at i (oc_end c # r') cs'"
        using loop_chip [of i p til r cs c] less.prems Some 2 by blast
      have "spell (fst (overlay_loop i d' (oc_end c # r'))) = with_chips (oc_end c) cs' (oi_text i)" for d'
        using less.hyps [of "oc_end c # r'" cs' d'] r' 2 by simp
      then show ?thesis using r' Some 2 by (simp add: Let_def split_beta slice_def)
    qed
  qed
qed

lemma bounds_sorted: "sorted_wrt (<) (ordered_bounds i)"
proof -
  let ?bs = "sort (remdups (filter (\<lambda>b. 0 \<le> b \<and> b \<le> int (length (oi_text i))) (overlay_bounds i)))"
  have "sorted_wrt (\<lambda>a b. nat a < nat b) ?bs"
  proof (rule sorted_wrt_mono_rel)
    show "sorted_wrt (<) ?bs" by (simp add: strict_sorted_iff)
    show "nat a < nat b" if "a \<in> set ?bs" "b \<in> set ?bs" "a < b" for a b using that by simp
  qed
  then show ?thesis by (simp add: ordered_bounds_def sorted_wrt_map)
qed

lemma in_bounds: "b \<in> set (ordered_bounds i) \<longleftrightarrow> b \<le> length (oi_text i) \<and> int b \<in> set (overlay_bounds i)"
proof -
  let ?S = "{x \<in> set (overlay_bounds i). 0 \<le> x \<and> x \<le> int (length (oi_text i))}"
  have "set (ordered_bounds i) = nat ` ?S" by (simp add: ordered_bounds_def)
  moreover have "b \<in> nat ` ?S \<longleftrightarrow> int b \<in> ?S"
  proof
    show "b \<in> nat ` ?S" if "int b \<in> ?S" using that by (intro image_eqI [of _ _ "int b"]) simp
  qed auto
  ultimately show ?thesis by auto
qed

lemma sorted_last: "sorted xs \<Longrightarrow> x \<in> set xs \<Longrightarrow> x \<le> last xs"
  by (induction xs) auto

lemma bounds_ends: "ordered_bounds i \<noteq> []" "hd (ordered_bounds i) = 0" "last (ordered_bounds i) = length (oi_text i)"
proof -
  let ?n = "length (oi_text i)"
  have mem: "0 \<in> set (ordered_bounds i)" "?n \<in> set (ordered_bounds i)" and le: "\<forall>b \<in> set (ordered_bounds i). b \<le> ?n"
    by (auto simp: in_bounds overlay_bounds_def Let_def)
  then show ne: "ordered_bounds i \<noteq> []" by auto
  have s: "sorted (ordered_bounds i)" using bounds_sorted strict_sorted_imp_sorted by blast
  have "hd (ordered_bounds i) \<le> 0" using s mem(1) ne by (cases "ordered_bounds i") auto
  then show "hd (ordered_bounds i) = 0" by simp
  have "?n \<le> last (ordered_bounds i)" using s mem(2) by (rule sorted_last)
  then show "last (ordered_bounds i) = ?n" using le ne by (meson last_in_set le_antisym)
qed

lemma loop_start:
  assumes "chips_from 0 (length (oi_text i)) (oi_chips i)"
  shows "loop_at i (ordered_bounds i) (oi_chips i)"
proof -
  have "chips_left i 0 (oi_chips i)" using assms by (simp add: chips_left_def)
  moreover have "oc_start c \<in> set (ordered_bounds i) \<and> oc_end c \<in> set (ordered_bounds i)" if "c \<in> set (oi_chips i)" for c
  proof -
    have "oc_start c < oc_end c \<and> oc_end c \<le> length (oi_text i)" using chips_from_starts [OF assms that] by simp
    moreover have "int (oc_start c) \<in> set (overlay_bounds i)" "int (oc_end c) \<in> set (overlay_bounds i)"
      using that by (auto simp: overlay_bounds_def Let_def intro: rev_image_eqI)
    ultimately show ?thesis by (simp add: in_bounds)
  qed
  ultimately show ?thesis by (simp add: loop_at_def bounds_sorted bounds_ends)
qed

lemma loop_carets:
  "carets (fst (overlay_loop i d bs)) + (if d then 1 else 0) = (if snd (overlay_loop i d bs) then 1 else 0)"
proof (induction "length bs" arbitrary: bs d rule: less_induct)
  case less
  consider "bs = []" | p where "bs = [p]" | p til r where "bs = p # til # r" by (metis list.exhaust)
  then show ?case
  proof cases
    case 3
    show ?thesis
    proof (cases "chipByStart (oi_chips i) p")
      case None
      then show ?thesis using less [of "til # r" True] less [of "til # r" d] 3
        by (cases d; cases "int p = os_caret (oi_sel i)"; cases "snd (overlay_loop i d (til # r))"; cases "snd (overlay_loop i True (til # r))")
          (simp_all add: Let_def split_beta)
    next
      case (Some c)
      let ?r = "dropWhile (\<lambda>b. b < oc_end c) (til # r)"
      have "length ?r < length bs" using length_dropWhile_le [of "\<lambda>b. b < oc_end c" "til # r"] 3 by (simp del: dropWhile.simps)
      then have "carets (fst (overlay_loop i d' ?r)) + (if d' then 1 else 0) = (if snd (overlay_loop i d' ?r) then 1 else 0)" for d'
        by (rule less)
      note IH = this
      have "carets (fst (overlay_loop i True ?r)) = 0 \<and> snd (overlay_loop i True ?r)"
        using IH [of True] by (cases "snd (overlay_loop i True ?r)") (simp_all del: dropWhile.simps)
      moreover have "carets (fst (overlay_loop i False ?r)) = (if snd (overlay_loop i False ?r) then 1 else 0)"
        using IH [of False] by (simp del: dropWhile.simps)
      ultimately show ?thesis using Some 3
        by (cases d; cases "int p = os_caret (oi_sel i)"; cases "int (oc_start c) < os_caret (oi_sel i)";
            cases "os_caret (oi_sel i) \<le> int (oc_end c)")
          (simp_all add: Let_def split_beta del: dropWhile.simps)
    qed
  qed simp_all
qed

lemma strip_src_length: "strip_src p s = Some t \<Longrightarrow> length s = length p + length t"
proof -
  assume "strip_src p s = Some t"
  then have "take (length p) s = narrow p" "t = drop (length p) s" by (auto simp: strip_src_def split: if_splits)
  moreover from this(1) have "length p \<le> length s" by (metis length_map length_take min.cobounded1 narrow_def)
  ultimately show ?thesis by simp
qed

lemma chars_of_digits: "\<forall>u \<in> set us. unit_holds P u \<Longrightarrow> length (chars_of us) = length us"
  by (induction us) (auto simp: chars_of_def unit_holds_def split: unit16.splits)

lemma strip_gt: "strip_src ''>'' (drop n t) = Some r \<Longrightarrow> n + 1 + length r = length t"
  by (cases "n \<le> length t") (auto dest!: strip_src_length)

lemma chip_here_length:
  assumes "chip_here f s = Some (n, k, d)"
  shows "0 < n \<and> n \<le> length s"
proof -
  have token: "0 < m \<and> m \<le> length s" if "token_here s = Some m" for m
    using that by (auto simp: token_here_def Let_def split: list.splits unit16.splits if_splits)
  have user: "length ds + 3 \<le> length s" if u: "user_here s = Some ds" for ds
  proof -
    obtain t where t1: "strip_src ''<@'' s = Some t" "ds = chars_of (takeWhile (unit_holds is_digit) t)"
      and "strip_src ''>'' (drop (length (takeWhile (unit_holds is_digit) t)) t) \<noteq> None"
      using u by (auto simp: user_here_def Let_def split: option.splits if_splits)
    then obtain r where t: "strip_src ''<@'' s = Some t" "ds = chars_of (takeWhile (unit_holds is_digit) t)"
      "strip_src ''>'' (drop (length (takeWhile (unit_holds is_digit) t)) t) = Some r" by blast
    have "length ds = length (takeWhile (unit_holds is_digit) t)"
      unfolding t(2) by (rule chars_of_digits) (auto dest: set_takeWhileD)
    then show ?thesis using strip_src_length [OF t(1)] strip_gt [OF t(3)] by simp
  qed
  have role: "length q + 4 \<le> length s" if "role_here s = Some q" for q
    using that by (auto simp: role_here_def Let_def split: option.splits if_splits dest!: strip_src_length strip_gt)
  have every: "length w + 1 \<le> length s" if "all_here w s" for w
    using that by (auto simp: all_here_def split: option.splits dest!: strip_src_length)
  show ?thesis
    using assms token user role every [of "''everyone''"] every [of "''here''"]
    by (auto simp: chip_here_def split: option.splits if_splits dest: user role)
qed

lemma chips_scan_from: "chips_from pos (pos + length s) (chips_scan f prev pos s)"
proof (induction f prev pos s rule: chips_scan.induct)
  case (1 f prev pos s)
  show ?case
  proof (cases s)
    case Nil
    then show ?thesis by (simp add: chips_scan.simps)
  next
    case (Cons u r)
    show ?thesis
    proof (cases "chip_here f s")
      case None
      have "chips_from (pos + 1) (pos + 1 + length r) (chips_scan f (Some u) (pos + 1) r)" using 1(1) Cons None by blast
      then have "chips_from pos (pos + 1 + length r) (chips_scan f (Some u) (pos + 1) r)" by (rule chips_from_mono) simp
      then show ?thesis using Cons None by (simp add: chips_scan.simps [of f prev pos "u # r"])
    next
      case (Some m)
      obtain n k d where m: "m = (n, k, d)" by (cases m)
      have n: "0 < n" "n \<le> length s" using chip_here_length [of f s n k d] Some m by auto
      have "chips_from (pos + n) (pos + n + length (drop n s)) (chips_scan f (Some (s ! (n - 1))) (pos + n) (drop n s))"
        using 1(2) Cons Some m n by blast
      then have rest: "chips_from (pos + n) (pos + length s) (chips_scan f (Some (s ! (n - 1))) (pos + n) (drop n s))" using n by simp
      have "chips_scan f prev pos s =
          (if chip_counts k prev then [\<lparr>oc_start = pos, oc_end = pos + n, oc_kind = k, oc_display = d\<rparr>] else [])
          @ chips_scan f (Some (s ! (n - 1))) (pos + n) (drop n s)"
        using Cons Some m n by (simp add: chips_scan.simps [of f prev pos "u # r"])
      then show ?thesis using rest chips_from_mono [OF rest, of pos] n by simp
    qed
  qed
qed

lemma found_chips: "chips_from 0 (length s) (findChips f s)"
  using chips_scan_from [of 0 s f None] by (simp add: findChips_def)

lemma overlay_spells:
  assumes "chips_from 0 (length (oi_text i)) (oi_chips i)"
  shows "spell (buildOverlayNodes nl i) = with_chips 0 (oi_chips i) (oi_text i)
    \<and> carets (buildOverlayNodes nl i) = (if drawCaret (oi_sel i) then 1 else 0)"
proof -
  have "spell (fst (overlay_loop i d (ordered_bounds i))) = with_chips 0 (oi_chips i) (oi_text i)" for d
    using loop_spells [OF loop_start [OF assms]] by (simp add: bounds_ends)
  moreover have "carets (fst (overlay_loop i (\<not> drawCaret (oi_sel i)) (ordered_bounds i))) + (if drawCaret (oi_sel i) then 0 else 1)
      = (if snd (overlay_loop i (\<not> drawCaret (oi_sel i)) (ordered_bounds i)) then 1 else 0)"
    using loop_carets [of i "\<not> drawCaret (oi_sel i)" "ordered_bounds i"]
    by (cases "drawCaret (oi_sel i)"; cases "snd (overlay_loop i (\<not> drawCaret (oi_sel i)) (ordered_bounds i))") simp_all
  ultimately show ?thesis
    unfolding buildOverlayNodes_def by (auto simp: split_beta split: if_splits)
qed

text \<open>
  C34: Whatever the highlighting, the selection and the carets, the overlay shows the source with each chip
  in place of its marker, nothing twice and nothing left out, and it has one caret when one is to be drawn
  and none otherwise.
\<close>

theorem overlay_spells_source:
  "spell (buildOverlayNodes nl (i\<lparr>oi_chips := findChips resolveName (oi_text i)\<rparr>))
     = with_chips 0 (findChips resolveName (oi_text i)) (oi_text i)
   \<and> carets (buildOverlayNodes nl (i\<lparr>oi_chips := findChips resolveName (oi_text i)\<rparr>)) = (if drawCaret (oi_sel i) then 1 else 0)"
  using overlay_spells [of "i\<lparr>oi_chips := findChips resolveName (oi_text i)\<rparr>" nl] found_chips [of "oi_text i" resolveName] by simp

section \<open>The caret stands where offsets are mapped to\<close>

text \<open>A caret inside a chip goes to its end.\<close>

definition snap_to :: "'c overlay_chip list \<Rightarrow> nat \<Rightarrow> nat" where
  "snap_to cs k = (case List.find (\<lambda>c. oc_start c < k \<and> k < oc_end c) cs of Some c \<Rightarrow> oc_end c | None \<Rightarrow> k)"

abbreviation before_caret :: "'c onode list \<Rightarrow> 'c list" where
  "before_caret ns \<equiv> spell (takeWhile (\<lambda>x. x \<noteq> CaretMark) ns)"

lemma offset_before: "chips_from k n cs \<Longrightarrow> sourceToOverlayOffset cs k = int k"
  by (cases cs) auto

lemma snap_simps:
  "chips_from k n cs \<Longrightarrow> snap_to cs k = k"
  "oc_end c \<le> k \<Longrightarrow> snap_to (c # cs) k = snap_to cs k"
proof -
  show "snap_to cs k = k" if "chips_from k n cs"
  proof -
    have "List.find (\<lambda>c. oc_start c < k \<and> k < oc_end c) cs = None"
      using chips_from_starts [OF that] by (fastforce simp: find_None_iff)
    then show ?thesis by (simp add: snap_to_def)
  qed
qed (simp add: snap_to_def)

lemma snap_later: "k \<le> snap_to cs k"
  by (auto simp: snap_to_def find_Some_iff split: option.splits)

lemma caret_past_emit: "before_caret (emitAt i p @ ns) = before_caret ns"
proof -
  have "takeWhile (\<lambda>x. x \<noteq> CaretMark) (emitAt i p @ ns) = emitAt i p @ takeWhile (\<lambda>x. x \<noteq> CaretMark) ns"
    by (rule takeWhile_append2) (use emit_spelled(3) [of i p] in auto)
  then show ?thesis by simp
qed

lemma slice_length: "p \<le> q \<Longrightarrow> q \<le> length s \<Longrightarrow> length (slice p q s) = q - p"
  by (simp add: slice_def)

lemma loop_caret:
  assumes "loop_at i bs cs" "os_caret (oi_sel i) = int k" "k \<in> set bs"
  shows "int (length (before_caret (fst (overlay_loop i False bs) @ (if snd (overlay_loop i False bs) then [] else [CaretMark]))))
    = sourceToOverlayOffset cs (snap_to cs k) - int (hd bs)"
  using assms
proof (induction "length bs" arbitrary: bs cs rule: less_induct)
  case less
  consider p where "bs = [p]" | p til r where "bs = p # til # r" using less.prems by (metis loop_at_def list.exhaust)
  then show ?case
  proof cases
    case 1
    then show ?thesis using loop_end [of i p cs] less.prems by (simp add: snap_to_def)
  next
    case 2
    have le: "p \<le> k" using less.prems(1,3) by (auto simp: loop_at_def 2)
    have from_p: "chips_from p (length (oi_text i)) cs" using less.prems(1) by (simp add: loop_at_def chips_left_def 2)
    show ?thesis
    proof (cases "k = p")
      case True
      then have "\<exists>ns. fst (overlay_loop i False bs) = CaretMark # ns"
        using less.prems(2) by (cases "chipByStart (oi_chips i) p") (simp_all add: 2 Let_def split_beta)
      then show ?thesis using from_p by (auto simp: True 2 snap_simps offset_before)
    next
      case False
      then have k: "k \<in> set (til # r)" "p < k" "int p \<noteq> os_caret (oi_sel i)" using le less.prems by (auto simp: 2)
      show ?thesis
      proof (cases "chipByStart (oi_chips i) p")
        case None
        let ?L = "overlay_loop i False (til # r)"
        have next_at: "loop_at i (til # r) cs" "p < til" using loop_text [of i p til r cs] less.prems(1) None 2 by auto
        have IH: "int (length (before_caret (fst ?L @ (if snd ?L then [] else [CaretMark])))) = sourceToOverlayOffset cs (snap_to cs k) - int til"
          using less.hyps [of "til # r" cs] next_at(1) less.prems(2) k 2 by simp
        have "til \<le> length (oi_text i)"
          using next_at(1) chips_from_le by (fastforce simp: loop_at_def chips_left_def)
        then have "length (slice p til (oi_text i)) = til - p" using next_at(2) by (simp add: slice_length)
        moreover from this have "slice p til (oi_text i) \<noteq> []" using next_at(2) by (metis list.size(3) zero_less_diff less_irrefl)
        ultimately show ?thesis
          using IH None k(3) next_at(2) by (simp add: 2 Let_def split_beta caret_past_emit)
      next
        case (Some c)
        let ?r = "dropWhile (\<lambda>b. b < oc_end c) (til # r)"
        obtain r' cs' where r': "?r = oc_end c # r'" "length r' < length (til # r)" "cs = c # cs'"
          "oc_start c = p" "p < oc_end c" "loop_at i (oc_end c # r') cs'" "set r' = {b \<in> set (til # r). oc_end c < b}"
          using loop_chip [of i p til r cs c] less.prems Some 2 by blast
        have from_end: "chips_from (oc_end c) (length (oi_text i)) cs'" using r'(6) by (simp add: loop_at_def chips_left_def)
        show ?thesis
        proof (cases "k \<le> oc_end c")
          case True
          have "snap_to cs k = oc_end c"
          proof (cases "k = oc_end c")
            case True
            then show ?thesis using snap_simps(2) [of c k cs'] snap_simps(1) [of k _ cs'] from_end by (simp add: r')
          next
            case False
            then show ?thesis using True k(2) by (simp add: snap_to_def r')
          qed
          moreover have "sourceToOverlayOffset cs (oc_end c) = int p + int (length (oc_display c))"
            using offset_before [OF from_end] r' by (simp add: chip_delta_def)
          moreover have "\<exists>ns. fst (overlay_loop i False bs) = emitAt i p @ ChipSpan (oc_kind c) (hasSel (oi_sel i)
              \<and> int p < os_selTo (oi_sel i) \<and> os_selFrom (oi_sel i) < int (oc_end c)) (oc_display c) # CaretMark # ns"
            using Some k True less.prems(2) r' by (simp add: 2 Let_def split_beta)
          ultimately show ?thesis by (auto simp: 2 caret_past_emit)
        next
          case False
          let ?L = "overlay_loop i False (oc_end c # r')"
          have "k \<in> set (oc_end c # r')" using k(1) False r'(7) by simp
          then have IH: "int (length (before_caret (fst ?L @ (if snd ?L then [] else [CaretMark])))) =
              sourceToOverlayOffset cs' (snap_to cs' k) - int (oc_end c)"
            using less.hyps [of "oc_end c # r'" cs'] r' less.prems(2) 2 by simp
          have "snap_to cs k = snap_to cs' k" "oc_end c \<le> snap_to cs' k"
            using False snap_simps(2) [of c k cs'] snap_later [of k cs'] by (simp_all add: r')
          then have "sourceToOverlayOffset cs (snap_to cs k) - int p
              = int (length (oc_display c)) + (sourceToOverlayOffset cs' (snap_to cs' k) - int (oc_end c))"
            using r' by (simp add: chip_delta_def)
          moreover have "\<not> os_caret (oi_sel i) \<le> int (oc_end c)"
            using less.prems(2) False by simp
          ultimately show ?thesis
            using IH Some k(3) r' by (simp add: 2 Let_def split_beta caret_past_emit)
        qed
      qed
    qed
  qed
qed

lemma caret_mapped:
  assumes "chips_from 0 (length (oi_text i)) (oi_chips i)" "drawCaret (oi_sel i)" "os_caret (oi_sel i) = int k" "k \<le> length (oi_text i)"
  shows "int (length (before_caret (buildOverlayNodes nl i))) = sourceToOverlayOffset (oi_chips i) (snap_to (oi_chips i) k)"
proof -
  let ?L = "overlay_loop i False (ordered_bounds i)"
  let ?full = "fst ?L @ (if snd ?L then [] else [CaretMark])"
  have "int k \<in> set (overlay_bounds i)" using assms(2,3) by (simp add: overlay_bounds_def Let_def)
  then have "k \<in> set (ordered_bounds i)" using assms(4) by (simp add: in_bounds)
  then have L: "int (length (before_caret ?full)) = sourceToOverlayOffset (oi_chips i) (snap_to (oi_chips i) k)"
    using loop_caret [OF loop_start [OF assms(1)] assms(3)] by (simp add: bounds_ends)
  have "length (filter (\<lambda>x. x = CaretMark) ?full) = 1"
    using loop_carets [of i False "ordered_bounds i"] by (cases "snd ?L") simp_all
  then have "filter (\<lambda>x. x = CaretMark) ?full \<noteq> []" by (intro notI) simp
  then have "CaretMark \<in> set ?full" unfolding filter_empty_conv by blast
  then have "takeWhile (\<lambda>x. x \<noteq> CaretMark) (?full @ ns) = takeWhile (\<lambda>x. x \<noteq> CaretMark) ?full" for ns
    by (rule takeWhile_append1) simp
  then have "before_caret (buildOverlayNodes nl i) = before_caret ?full"
    using assms(2) by (simp add: buildOverlayNodes_def split_beta)
  then show ?thesis using L by simp
qed

text \<open>
  The caret that is drawn stands as many characters behind the start of the overlay as the mapping of
  offsets says, whatever chips come before it; inside a chip it stands at the end of the chip.
\<close>

theorem caret_where_mapped:
  assumes "drawCaret (oi_sel i)" "os_caret (oi_sel i) = int k" "k \<le> length (oi_text i)"
    and "chips = findChips resolveName (oi_text i)"
  shows "int (length (before_caret (buildOverlayNodes nl (i\<lparr>oi_chips := chips\<rparr>)))) = sourceToOverlayOffset chips (snap_to chips k)"
  using caret_mapped [of "i\<lparr>oi_chips := chips\<rparr>" k nl] found_chips [of "oi_text i" resolveName] assms by simp

definition mention_input :: "unit16 overlay_input" where
  "mention_input =
     \<lparr>oi_text = narrow ''hi <@7> you'', oi_tokens = [(narrow ''hi <@7> you'', ''hljs'')], oi_chips = [],
      oi_sel = \<lparr>os_caret = 8, os_selFrom = -1, os_selTo = -1, os_showCaret = True\<rparr>,
      oi_remotes = [\<lparr>rc_offset = 5, rc_color = ''red'', rc_name = ''Eve''\<rparr>], oi_anchors = []\<rparr>"

theorem caret_where_mapped_witness:
  "int (length (before_caret (buildOverlayNodes (\<lambda>u. u = Ch (CHR 0x0A))
       (mention_input\<lparr>oi_chips := findChips (\<lambda>n. Some ''Alice'') (oi_text mention_input)\<rparr>)))) = 10"
proof -
  let ?cs = "findChips (\<lambda>n. Some ''Alice'') (oi_text mention_input)"
  have c: "?cs = [\<lparr>oc_start = 3, oc_end = 7, oc_kind = UserChip, oc_display = narrow ''@Alice''\<rparr>]" by code_simp
  have "int (length (before_caret (buildOverlayNodes (\<lambda>u. u = Ch (CHR 0x0A)) (mention_input\<lparr>oi_chips := ?cs\<rparr>))))
      = sourceToOverlayOffset ?cs (snap_to ?cs 8)"
    by (rule caret_where_mapped [where resolveName = "\<lambda>n. Some ''Alice''"])
      (simp_all add: mention_input_def drawCaret_def hasSel_def narrow_def)
  also have "\<dots> = 10" unfolding c by (simp add: snap_to_def chip_delta_def narrow_def)
  finally show ?thesis .
qed

section \<open>What goes wrong\<close>

text \<open>
  The comment on \<open>RemoteCaret\<close> says that a collaborator's caret is drawn inline.  The own caret snaps to the end
  of a chip it is in; the caret of another user inside a mention is not drawn at all.
\<close>

lemma remote_caret_in_chip_lost:
  "filter (\<lambda>x. case x of RemoteMark c n \<Rightarrow> True | _ \<Rightarrow> False)
     (buildOverlayNodes (\<lambda>u. u = Ch (CHR 0x0A))
       (mention_input\<lparr>oi_chips := findChips (\<lambda>n. Some ''Alice'') (oi_text mention_input)\<rparr>)) = []"
  by code_simp

end
