(* ===== verification/LiveDocImages.thy ===== *)
theory LiveDocImages
  imports LiveDocOverlay
begin

text \<open>
  Images in the Markdown source of a live document.  \<open>components/chat/livedoc/liveDocMarkdownImages.ts\<close> puts
  a short token in place of every long base64 payload and puts the payloads back: whatever is done to the
  source that keeps tokens whole does the same to the images (\<open>images_follow_tokens\<close>).  The \<open>beforeinput\<close>
  handler of \<open>LiveDocMarkdownView.tsx\<close> keeps them whole (\<open>tokens_stay_whole\<close>).
\<close>

section \<open>Collapsing payloads\<close>

definition is_mime_char :: "char \<Rightarrow> bool" where
  "is_mime_char c \<longleftrightarrow> is_word c \<or> c \<in> {CHR ''.'', CHR ''+'', CHR ''/'', CHR ''-''}"

definition is_param_char :: "char \<Rightarrow> bool" where
  "is_param_char c \<longleftrightarrow> is_word c \<or> c \<in> {CHR ''.'', CHR ''+'', CHR ''-''}"

definition is_base64 :: "char \<Rightarrow> bool" where
  "is_base64 c \<longleftrightarrow> (is_word c \<and> c \<noteq> CHR ''_'') \<or> c \<in> {CHR ''+'', CHR ''/'', CHR ''=''}"

text \<open>One parameter \<open>;name=value\<close>, and as many as there are; each gives its length.\<close>

definition uri_param :: "string \<Rightarrow> nat option" where
  "uri_param s =
     (case s of
        c # t \<Rightarrow>
          (let k = length (takeWhile is_param_char t);
               v = length (takeWhile is_param_char (drop (k + 1) t))
           in if c = CHR '';'' \<and> 0 < k \<and> take 1 (drop k t) = ''='' \<and> 0 < v then Some (k + v + 2) else None)
      | [] \<Rightarrow> None)"

function uri_params :: "string \<Rightarrow> nat" where
  "uri_params s = (case uri_param s of None \<Rightarrow> 0 | Some n \<Rightarrow> if n = 0 then 0 else n + uri_params (drop n s))"
  by pat_completeness auto
termination by (relation "measure length") (auto simp: uri_param_def Let_def split: list.splits if_splits)

declare uri_params.simps [simp del]

text \<open>\<open>DATA_URI_RE\<close> at a position: the lengths of prefix and payload.\<close>

definition data_uri :: "string \<Rightarrow> (nat \<times> nat) option" where
  "data_uri s =
     (let mime = length (takeWhile is_mime_char (drop 5 s));
          a = 5 + mime + uri_params (drop (5 + mime) s);
          payload = length (takeWhile is_base64 (drop (a + 8) s))
      in if prefix ''data:'' s \<and> 0 < mime \<and> prefix '';base64,'' (drop a s) \<and> 48 \<le> payload then Some (a + 8, payload) else None)"

definition one_digit :: "nat \<Rightarrow> nat \<Rightarrow> string" where
  "one_digit x d = (let n = (20 * x + d) div (2 * d) in show_nat (n div 10) @ ''.'' @ show_nat (n mod 10))"

definition humanSize :: "nat \<Rightarrow> string" where
  "humanSize payloadLength =
     (let bytes = payloadLength * 3 div 4
      in if bytes < 1024 then show_nat bytes @ '' B''
         else if bytes < 1024 * 1024 then one_digit bytes 1024 @ '' KB''
         else one_digit bytes (1024 * 1024) @ '' MB'')"

definition image_token :: "nat \<Rightarrow> string \<Rightarrow> source" where
  "image_token n payload =
     TokOpen # narrow (''image#'' @ show_nat n @ [CHR '' '', CHR 0xB7, CHR '' ''] @ humanSize (length payload)) @ [TokClose]"

text \<open>\<open>n\<close> payloads are replaced so far.\<close>

function abbrev_from :: "nat \<Rightarrow> string \<Rightarrow> source \<times> (source \<times> string) list" where
  "abbrev_from n s =
     (case s of
        [] \<Rightarrow> ([], [])
      | c # r \<Rightarrow>
          (case data_uri s of
             None \<Rightarrow> (case abbrev_from n r of (t, m) \<Rightarrow> (Ch c # t, m))
           | Some (a, k) \<Rightarrow>
               (let payload = take k (drop a s); token = image_token (n + 1) payload
                in if k = 0 then ([], [])
                   else case abbrev_from (n + 1) (drop (a + k) s) of
                     (t, m) \<Rightarrow> (narrow (take a s) @ token @ t, (token, payload) # m))))"
  by pat_completeness auto
termination by (relation "measure (\<lambda>(n, s). length s)") auto

declare abbrev_from.simps [simp del]

text \<open>The tokens are different, so the map is the list of the pairs in the order they were made.\<close>

definition abbreviateBase64 :: "string \<Rightarrow> source \<times> (source, string) jmap" where
  "abbreviateBase64 markdown = abbrev_from 0 markdown"

text \<open>\<open>out.split(token).join(payload)\<close>; an empty token, which is never made, would be found at every place.\<close>

function replace_src :: "source \<Rightarrow> source \<Rightarrow> source \<Rightarrow> source" where
  "replace_src token payload s =
     (case s of
        [] \<Rightarrow> []
      | u # r \<Rightarrow>
          if token \<noteq> [] \<and> prefix token s then payload @ replace_src token payload (drop (length token) s)
          else u # replace_src token payload r)"
  by pat_completeness auto
termination by (relation "measure (\<lambda>(t, p, s). length s)") auto

declare replace_src.simps [simp del]

definition expandBase64 :: "source \<Rightarrow> (source, string) jmap \<Rightarrow> source" where
  "expandBase64 s m =
     (if m = [] then s
      else foldl (\<lambda>out (token, payload). if sublist token out then replace_src token (narrow payload) out else out) s m)"

section \<open>Payloads come back\<close>

definition framed :: "source \<Rightarrow> bool" where
  "framed t \<longleftrightarrow> (\<exists>b. t = TokOpen # b @ [TokClose] \<and> TokOpen \<notin> set b \<and> TokClose \<notin> set b)"

definition bare :: "source \<Rightarrow> bool" where
  "bare t \<longleftrightarrow> TokOpen \<notin> set t \<and> TokClose \<notin> set t"

lemma bare_narrow [simp]: "bare (narrow s)"
  by (auto simp: bare_def narrow_def)

lemma narrow_append [simp]: "narrow (a @ b) = narrow a @ narrow b" "narrow [] = []"
  by (simp_all add: narrow_def)

lemma framed_token: "framed (image_token n p)"
  by (auto simp: framed_def image_token_def narrow_def)

lemma replace_nil [simp]: "replace_src t p [] = []"
  by (simp add: replace_src.simps)

lemma replace_skip: "u \<noteq> TokOpen \<Longrightarrow> framed t \<Longrightarrow> replace_src t p (u # s) = u # replace_src t p s"
  by (subst replace_src.simps) (auto simp: framed_def)

lemma replace_skips: "TokOpen \<notin> set b \<Longrightarrow> framed t \<Longrightarrow> replace_src t p (b @ s) = b @ replace_src t p s"
  by (induction b) (auto simp: replace_skip)

lemma framed_prefix: "framed t \<Longrightarrow> framed q \<Longrightarrow> prefix t (q @ s) \<Longrightarrow> t = q"
proof -
  assume "framed t" "framed q" and pre: "prefix t (q @ s)"
  then obtain a b where t: "t = TokOpen # a @ [TokClose]" "TokClose \<notin> set a" and q: "q = TokOpen # b @ [TokClose]" "TokClose \<notin> set b"
    by (auto simp: framed_def)
  obtain z where "b @ TokClose # s = a @ TokClose # z" using pre by (auto simp: t q prefix_def)
  then have "takeWhile (\<lambda>u. u \<noteq> TokClose) (b @ TokClose # s) = takeWhile (\<lambda>u. u \<noteq> TokClose) (a @ TokClose # z)" by simp
  moreover have "takeWhile (\<lambda>u. u \<noteq> TokClose) (x @ TokClose # y) = x" if "TokClose \<notin> set x" for x y
    using that by (induction x) auto
  ultimately have "a = b" using t(2) q(2) by simp
  then show ?thesis by (simp add: t q)
qed

lemma replace_other: "framed t \<Longrightarrow> framed q \<Longrightarrow> q \<noteq> t \<Longrightarrow> replace_src t p (q @ s) = q @ replace_src t p s"
proof -
  assume t: "framed t" and q: "framed q" and ne: "q \<noteq> t"
  then obtain b where b: "q = TokOpen # b @ [TokClose]" "TokOpen \<notin> set b" by (auto simp: framed_def)
  have "\<not> prefix t (q @ s)" using framed_prefix t q ne by blast
  then have "replace_src t p (q @ s) = TokOpen # replace_src t p ((b @ [TokClose]) @ s)"
    by (subst replace_src.simps) (simp add: b)
  also have "replace_src t p ((b @ [TokClose]) @ s) = (b @ [TokClose]) @ replace_src t p s"
    using b t by (intro replace_skips) auto
  finally show ?thesis by (simp add: b)
qed

lemma replace_same: "framed t \<Longrightarrow> replace_src t p (t @ s) = p @ replace_src t p s"
  by (subst replace_src.simps) (auto simp: framed_def)

text \<open>A source in pieces, each without brackets or a whole token.\<close>

lemma replace_pieces:
  "framed t \<Longrightarrow> \<forall>x \<in> set xs. bare x \<or> framed x \<Longrightarrow>
    replace_src t p (concat xs) = concat (map (\<lambda>x. if x = t then p else x) xs)"
proof (induction xs)
  case (Cons x xs)
  have t: "framed t" and x: "bare x \<or> framed x" using Cons.prems by simp_all
  have "x \<noteq> t" if "bare x" using that t by (auto simp: bare_def framed_def)
  then show ?case using Cons x t
    by (cases "x = t") (auto simp: replace_same replace_other replace_skips bare_def)
qed simp

lemma replace_absent: "\<not> sublist t s \<Longrightarrow> replace_src t p s = s"
proof (induction t p s rule: replace_src.induct)
  case (1 t p s)
  show ?case
  proof (cases s)
    case (Cons u r)
    then have "\<not> prefix t s" "\<not> sublist t r" using 1(3) by (auto simp: sublist_Cons_right)
    then show ?thesis using 1(2) Cons by (subst replace_src.simps) simp
  qed simp
qed

type_synonym source_segment = "string + source \<times> string"

fun seg_source :: "source_segment \<Rightarrow> source" where
  "seg_source (Inl s) = narrow s"
| "seg_source (Inr (t, p)) = t"

fun seg_text :: "source_segment \<Rightarrow> string" where
  "seg_text (Inl s) = s"
| "seg_text (Inr (t, p)) = p"

fun seg_in :: "(source \<times> string) list \<Rightarrow> source_segment \<Rightarrow> bool" where
  "seg_in m (Inl s) \<longleftrightarrow> True"
| "seg_in m (Inr tp) \<longleftrightarrow> tp \<in> set m"

text \<open>A segment when the tokens of \<open>done\<close> are expanded.\<close>

fun seg_after :: "source set \<Rightarrow> source_segment \<Rightarrow> source" where
  "seg_after D (Inl s) = narrow s"
| "seg_after D (Inr (t, p)) = (if t \<in> D then narrow p else t)"

definition tokens_ok :: "(source \<times> string) list \<Rightarrow> bool" where
  "tokens_ok m \<longleftrightarrow> distinct (map fst m) \<and> (\<forall>(t, p) \<in> set m. framed t)"

lemma expand_fold:
  assumes "tokens_ok M" "list_all (seg_in M) segs" "set m \<subseteq> set M"
  shows "foldl (\<lambda>out (token, payload). if sublist token out then replace_src token (narrow payload) out else out)
      (concat (map (seg_after D) segs)) m = concat (map (seg_after (D \<union> fst ` set m)) segs)"
  using assms(3)
proof (induction m arbitrary: D)
  case (Cons x m)
  obtain t p where x: "x = (t, p)" by (cases x)
  have tp: "(t, p) \<in> set M" using Cons.prems x by simp
  have t: "framed t" using tp assms(1) by (auto simp: tokens_ok_def)
  have pieces: "bare (seg_after D s) \<or> framed (seg_after D s)" if "s \<in> set segs" for s
  proof (cases s)
    case (Inr q)
    then have "q \<in> set M" using assms(2) that by (force simp: list_all_iff)
    then have "framed (fst q)" using assms(1) by (auto simp: tokens_ok_def)
    then show ?thesis by (cases q) (simp add: Inr)
  qed simp
  have step: "(if seg_after D s = t then narrow p else seg_after D s) = seg_after (insert t D) s" if s: "s \<in> set segs" for s
  proof (cases s)
    case (Inl a)
    have "narrow a \<noteq> t" using t by (metis bare_def bare_narrow framed_def list.set_intros(1))
    then show ?thesis by (simp add: Inl)
  next
    case (Inr q)
    obtain t' p' where q: "q = (t', p')" by (cases q)
    have q': "(t', p') \<in> set M" using assms(2) s by (auto simp: list_all_iff Inr q)
    have "narrow p' \<noteq> t" using t by (metis bare_def bare_narrow framed_def list.set_intros(1))
    moreover have "p' = p" if "t' = t"
      using assms(1) q' tp that unfolding tokens_ok_def by (metis eq_key_imp_eq_value)
    ultimately show ?thesis by (auto simp: Inr q)
  qed
  let ?out = "concat (map (seg_after D) segs)"
  have "replace_src t (narrow p) ?out = concat (map (\<lambda>x. if x = t then narrow p else x) (map (seg_after D) segs))"
    using t pieces by (intro replace_pieces) auto
  also have "\<dots> = concat (map (seg_after (insert t D)) segs)"
    using step by (simp add: o_def cong: map_cong)
  finally have "(if sublist t ?out then replace_src t (narrow p) ?out else ?out) = concat (map (seg_after (insert t D)) segs)"
    using replace_absent [of t ?out "narrow p"] by auto
  then show ?case using Cons.IH [of "insert t D"] Cons.prems x by simp
qed simp

lemma expand_segments:
  assumes "tokens_ok m" "list_all (seg_in m) segs"
  shows "expandBase64 (concat (map seg_source segs)) m = narrow (concat (map seg_text segs))"
proof -
  have src: "seg_source s = seg_after {} s" for s by (cases s rule: seg_source.cases) simp_all
  have all_done: "seg_after (fst ` set m) s = narrow (seg_text s)" if "s \<in> set segs" for s
    using assms(2) that by (cases s rule: seg_source.cases) (force simp: list_all_iff)+
  have "concat (map (seg_after (fst ` set m)) segs) = narrow (concat (map seg_text segs))"
    using all_done by (induction segs) auto
  moreover have "expandBase64 (concat (map seg_source segs)) m = concat (map (seg_after ({} \<union> fst ` set m)) segs)"
  proof (cases "m = []")
    case False
    then show ?thesis using expand_fold [OF assms subset_refl, of "{}"] by (simp add: expandBase64_def src cong: map_cong)
  qed (simp add: expandBase64_def src cong: map_cong)
  ultimately show ?thesis by simp
qed

lemma data_uri_fits:
  assumes "data_uri s = Some (a, k)"
  shows "0 < k" "a + k \<le> length s"
proof -
  from assms have k: "k = length (takeWhile is_base64 (drop a s))" "48 \<le> k" unfolding data_uri_def Let_def by (auto split: if_splits)
  show "0 < k" using k(2) by (rule less_le_trans [rotated]) simp
  have "k \<le> length (drop a s)" unfolding k(1) by (rule length_takeWhile_le)
  then show "a + k \<le> length s" using k(2) by simp
qed

text \<open>What the tokens of a text are, and the segments it is made of.\<close>

lemma token_inject: "image_token n p = image_token n' p' \<Longrightarrow> n = n'"
proof -
  assume "image_token n p = image_token n' p'"
  then have "map Ch (show_nat n @ CHR '' '' # CHR 0xB7 # CHR '' '' # humanSize (length p)) @ [TokClose]
      = map Ch (show_nat n' @ CHR '' '' # CHR 0xB7 # CHR '' '' # humanSize (length p')) @ [TokClose]"
    by (simp add: image_token_def narrow_def)
  then have "map Ch (show_nat n @ CHR '' '' # CHR 0xB7 # CHR '' '' # humanSize (length p))
      = map Ch (show_nat n' @ CHR '' '' # CHR 0xB7 # CHR '' '' # humanSize (length p'))" by (simp only: append1_eq_conv)
  then have "show_nat n @ CHR '' '' # CHR 0xB7 # CHR '' '' # humanSize (length p)
      = show_nat n' @ CHR '' '' # CHR 0xB7 # CHR '' '' # humanSize (length p')" by (rule map_injective) (simp add: inj_def)
  from arg_cong [OF this, of "takeWhile is_digit"] show "n = n'" by (simp add: is_digit_def)
qed

lemma abbrev_parts:
  assumes "abbrev_from n s = (t, m)"
  shows "(\<exists>segs. t = concat (map seg_source segs) \<and> s = concat (map seg_text segs) \<and> list_all (seg_in m) segs)
    \<and> tokens_ok m \<and> (\<forall>(x, p) \<in> set m. \<exists>k. n < k \<and> x = image_token k p)"
  using assms
proof (induction n s arbitrary: t m rule: abbrev_from.induct)
  case (1 n s)
  show ?case
  proof (cases s)
    case Nil
    then show ?thesis using 1(3) by (auto simp: abbrev_from.simps tokens_ok_def intro: exI [of _ "[]"])
  next
    case (Cons c r)
    show ?thesis
    proof (cases "data_uri s")
      case None
      obtain t' m' where rec: "abbrev_from n r = (t', m')" by (cases "abbrev_from n r")
      then have tm: "t = Ch c # t'" "m = m'" using 1(3) None Cons by (auto simp: abbrev_from.simps [of n "c # r"])
      obtain segs where segs: "t' = concat (map seg_source segs)" "r = concat (map seg_text segs)" "list_all (seg_in m') segs"
        and rest: "tokens_ok m'" "\<forall>(x, p) \<in> set m'. \<exists>k. n < k \<and> x = image_token k p"
        using 1(1) [OF Cons None rec] by blast
      have "t = concat (map seg_source (Inl [c] # segs))" "s = concat (map seg_text (Inl [c] # segs))"
        "list_all (seg_in m) (Inl [c] # segs)" using segs tm Cons by (simp_all add: narrow_def)
      then show ?thesis using rest tm by blast
    next
      case (Some ak)
      obtain a k where ak: "ak = (a, k)" by (cases ak)
      have fit: "0 < k" "a + k \<le> length s" using data_uri_fits [of s a k] Some ak by simp_all
      let ?p = "take k (drop a s)"
      let ?tok = "image_token (n + 1) ?p"
      obtain t' m' where rec: "abbrev_from (n + 1) (drop (a + k) s) = (t', m')" by (cases "abbrev_from (n + 1) (drop (a + k) s)")
      have tm: "t = narrow (take a s) @ ?tok @ t'" "m = (?tok, ?p) # m'"
        using 1(3) Some ak fit rec Cons by (auto simp: abbrev_from.simps [of n "c # r"] Let_def)
      obtain segs where segs: "t' = concat (map seg_source segs)" "drop (a + k) s = concat (map seg_text segs)" "list_all (seg_in m') segs"
        and rest: "tokens_ok m'" "\<forall>(x, p) \<in> set m'. \<exists>k. n + 1 < k \<and> x = image_token k p"
        using 1(2) [OF Cons Some ak [symmetric] refl refl _ rec] fit by blast
      let ?segs = "Inl (take a s) # Inr (?tok, ?p) # segs"
      have "s = take a s @ ?p @ drop (a + k) s" by (metis append_take_drop_id drop_drop add.commute)
      then have "t = concat (map seg_source ?segs)" "s = concat (map seg_text ?segs)" using segs tm by simp_all
      moreover have "list_all (seg_in m) ?segs"
      proof -
        have "seg_in m x" if "seg_in m' x" for x using that by (cases x) (simp_all add: tm)
        then show ?thesis using segs(3) by (simp add: list_all_iff tm)
      qed
      moreover have "?tok \<notin> fst ` set m'" using rest(2) token_inject by fastforce
      then have "tokens_ok m" using rest(1) framed_token by (simp add: tokens_ok_def tm)
      moreover have "\<exists>k. n < k \<and> x = image_token k p" if "(x, p) \<in> set m" for x p
      proof (cases "(x, p) \<in> set m'")
        case True
        then obtain k where "n + 1 < k" "x = image_token k p" using rest(2) by blast
        then show ?thesis by (intro exI [of _ k]) simp
      qed (use that tm in auto)
      then have "\<forall>(x, p) \<in> set m. \<exists>k. n < k \<and> x = image_token k p" by blast
      ultimately show ?thesis by blast
    qed
  qed
qed

lemma abbreviated_ok: "tokens_ok (snd (abbreviateBase64 md))"
  using abbrev_parts [of 0 md] by (cases "abbrev_from 0 md") (simp add: abbreviateBase64_def)

text \<open>
  Putting payloads back undoes collapsing them, for every text; and when the source is taken apart into
  text and whole tokens and put together in any other way, with tokens moved, copied or left out, the text
  that is applied has exactly the images the tokens stand for at those places.
\<close>

theorem images_follow_tokens:
  assumes "list_all (seg_in (snd (abbreviateBase64 md))) segs"
  shows "expandBase64 (concat (map seg_source segs)) (snd (abbreviateBase64 md)) = narrow (concat (map seg_text segs))
    \<and> expandBase64 (fst (abbreviateBase64 md)) (snd (abbreviateBase64 md)) = narrow md"
proof
  show "expandBase64 (concat (map seg_source segs)) (snd (abbreviateBase64 md)) = narrow (concat (map seg_text segs))"
    by (rule expand_segments [OF abbreviated_ok assms])
  obtain t m where tm: "abbrev_from 0 md = (t, m)" by (cases "abbrev_from 0 md")
  obtain ss where "t = concat (map seg_source ss)" "md = concat (map seg_text ss)" "list_all (seg_in m) ss" "tokens_ok m"
    using abbrev_parts [OF tm] by blast
  then have "expandBase64 t m = narrow md" using expand_segments by metis
  then show "expandBase64 (fst (abbreviateBase64 md)) (snd (abbreviateBase64 md)) = narrow md"
    by (simp add: abbreviateBase64_def tm)
qed

definition example_payload :: string where
  "example_payload = replicate 48 (CHR ''A'')"

definition example_uri :: string where
  "example_uri = ''data:image/png;base64,'' @ example_payload"

lemma example_collapsed:
  "abbreviateBase64 example_uri = (narrow ''data:image/png;base64,'' @ image_token 1 example_payload, [(image_token 1 example_payload, example_payload)])"
  by code_simp

theorem images_follow_tokens_witness:
  "expandBase64 (image_token 1 example_payload @ narrow ''x'' @ image_token 1 example_payload) (snd (abbreviateBase64 example_uri))
    = narrow (example_payload @ ''x'' @ example_payload)"
proof -
  let ?i = "Inr (image_token 1 example_payload, example_payload) :: source_segment"
  have "list_all (seg_in (snd (abbreviateBase64 example_uri))) [?i, Inl ''x'', ?i]" unfolding example_collapsed by simp
  from images_follow_tokens [OF this] show ?thesis by simp
qed

section \<open>Tokens stay whole\<close>

text \<open>\<open>tokenRanges\<close>: the expression has the brackets at its ends, so the first closing one ends a token.\<close>

function ranges_from :: "nat \<Rightarrow> source \<Rightarrow> (nat \<times> nat) list" where
  "ranges_from pos s =
     (case s of
        [] \<Rightarrow> []
      | u # r \<Rightarrow>
          (case token_here s of
             Some n \<Rightarrow> (pos, pos + n) # ranges_from (pos + n) (drop (n - 1) r)
           | None \<Rightarrow> ranges_from (pos + 1) r))"
  by pat_completeness auto
termination by (relation "measure (\<lambda>(n, s). length s)") auto

declare ranges_from.simps [simp del]

definition tokenRanges :: "source \<Rightarrow> (nat \<times> nat) list" where
  "tokenRanges s = ranges_from 0 s"

text \<open>
  The handler: what the event does is left to the browser, is prevented, or is prevented with the source
  replaced by another and the caret put.  Positions before the start are negative.
\<close>

datatype input_effect = Native | Blocked | Replaced source nat

definition includes_backward :: "string \<Rightarrow> bool" where
  "includes_backward ty \<longleftrightarrow> includes_str (to_lower ty) ''backward''"

definition cover_token :: "int \<times> int \<times> bool \<Rightarrow> nat \<times> nat \<Rightarrow> int \<times> int \<times> bool" where
  "cover_token acc r =
     (case acc of (from, til, hit) \<Rightarrow>
        if from < int (snd r) \<and> int (fst r) < til then (min from (int (fst r)), max til (int (snd r)), True) else acc)"

definition beforeInput :: "string \<Rightarrow> nat \<Rightarrow> nat \<Rightarrow> source \<Rightarrow> input_effect" where
  "beforeInput ty selStart selEnd value =
     (let ranges = tokenRanges value
      in if ranges = [] then Native
         else if starts_with ty ''delete''
         then (let from = (if selStart = selEnd \<and> includes_backward ty then int selStart - 1 else int selStart);
                   til = (if selStart = selEnd \<and> \<not> includes_backward ty then int selEnd + 1 else int selEnd);
                   (a, b, hit) = foldl cover_token (from, til, False) ranges
               in if hit then Replaced (take (nat a) value @ drop (nat b) value) (nat a) else Native)
         else if list_ex (\<lambda>(rf, rt). let overlaps = selStart < rt \<and> rf < selEnd; fullyCovers = selStart \<le> rf \<and> rt \<le> selEnd;
                                        caretInside = rf < selStart \<and> selStart < rt
                                    in (overlaps \<and> \<not> fullyCovers) \<or> caretInside) ranges
         then Blocked else Native)"

text \<open>
  What the browser does when it is left to it: text is put in place of the selection; a deletion without a
  selection takes one code unit.  Deletions of words and lines take what the browser calls one.
\<close>

definition native_edit :: "string \<Rightarrow> string \<Rightarrow> nat \<Rightarrow> nat \<Rightarrow> source \<Rightarrow> source" where
  "native_edit ty ins selStart selEnd value =
     (if starts_with ty ''delete''
      then (if selStart = selEnd \<and> includes_backward ty then take (selStart - 1) value @ drop selEnd value
            else if selStart = selEnd then take selStart value @ drop (selEnd + 1) value
            else take selStart value @ drop selEnd value)
      else take selStart value @ narrow ins @ drop selEnd value)"

definition after_input :: "string \<Rightarrow> string \<Rightarrow> nat \<Rightarrow> nat \<Rightarrow> source \<Rightarrow> source" where
  "after_input ty ins selStart selEnd value =
     (case beforeInput ty selStart selEnd value of
        Native \<Rightarrow> native_edit ty ins selStart selEnd value
      | Blocked \<Rightarrow> value
      | Replaced v caret \<Rightarrow> v)"

fun seg_ranges :: "nat \<Rightarrow> source_segment list \<Rightarrow> (nat \<times> nat) list" where
  "seg_ranges p [] = []"
| "seg_ranges p (Inl s # r) = seg_ranges (p + length s) r"
| "seg_ranges p (Inr (t, q) # r) = (p, p + length t) # seg_ranges (p + length t) r"

lemma narrow_length [simp]: "length (narrow s) = length s"
  by (simp add: narrow_def)

lemma ranges_narrow: "ranges_from p (narrow s @ v) = ranges_from (p + length s) v"
proof (induction s arbitrary: p)
  case (Cons c s)
  then show ?case by (subst ranges_from.simps) (simp add: narrow_def token_here_def)
qed (simp add: narrow_def)

lemma ranges_token: "framed t \<Longrightarrow> ranges_from p (t @ v) = (p, p + length t) # ranges_from (p + length t) v"
proof -
  assume "framed t"
  then obtain b where t: "t = TokOpen # b @ [TokClose]" "TokClose \<notin> set b" by (auto simp: framed_def)
  have "takeWhile (\<lambda>u. u \<noteq> TokClose) (b @ TokClose # v) = b" using t(2) by (induction b) auto
  then have "token_here (t @ v) = Some (length t)" by (simp add: token_here_def t)
  then show ?thesis by (subst ranges_from.simps) (simp add: t)
qed

lemma ranges_segments:
  "tokens_ok m \<Longrightarrow> list_all (seg_in m) segs \<Longrightarrow> ranges_from p (concat (map seg_source segs)) = seg_ranges p segs"
proof (induction p segs rule: seg_ranges.induct)
  case (1 p)
  then show ?case by (simp add: ranges_from.simps)
next
  case (3 p t q r)
  then have "framed t" by (auto simp: tokens_ok_def)
  with 3 show ?case by (simp add: ranges_token)
qed (simp add: ranges_narrow)

text \<open>A position that is in no token takes a source apart into pieces of the same kind.\<close>

definition clean_at :: "(nat \<times> nat) list \<Rightarrow> nat \<Rightarrow> bool" where
  "clean_at rs p \<longleftrightarrow> list_all (\<lambda>(f, t). p \<le> f \<or> t \<le> p) rs"

lemma cut_segments:
  "clean_at (seg_ranges p segs) (p + k) \<Longrightarrow> list_all (seg_in m) segs \<Longrightarrow>
    (\<exists>xs. take k (concat (map seg_source segs)) = concat (map seg_source xs) \<and> list_all (seg_in m) xs)
    \<and> (\<exists>xs. drop k (concat (map seg_source segs)) = concat (map seg_source xs) \<and> list_all (seg_in m) xs)"
proof (induction p segs arbitrary: k rule: seg_ranges.induct)
  case (1 p)
  show ?case by (auto intro: exI [of _ "[]"])
next
  case (2 p s r)
  let ?R = "concat (map seg_source r)"
  show ?case
  proof (cases "length s \<le> k")
    case True
    then have eq: "p + k = (p + length s) + (k - length s)" by simp
    have clean: "clean_at (seg_ranges (p + length s) r) (p + length s + (k - length s))" using 2(2) by (simp only: eq [symmetric] seg_ranges.simps)
    obtain xs ys where xs: "take (k - length s) ?R = concat (map seg_source xs)" "list_all (seg_in m) xs"
      and ys: "drop (k - length s) ?R = concat (map seg_source ys)" "list_all (seg_in m) ys"
      using 2(1) [OF clean] 2(3) by auto
    have "take k (narrow s @ ?R) = concat (map seg_source (Inl s # xs))" using True xs by simp
    moreover have "drop k (narrow s @ ?R) = concat (map seg_source ys)" using True ys by simp
    moreover have "list_all (seg_in m) (Inl s # xs)" using xs by simp
    ultimately show ?thesis using ys(2) by (intro conjI exI [of _ "Inl s # xs"] exI [of _ ys]) simp_all
  next
    case False
    then have "take k (narrow s @ ?R) = concat (map seg_source [Inl (take k s)])"
      "drop k (narrow s @ ?R) = concat (map seg_source (Inl (drop k s) # r))"
      by (simp_all add: narrow_def take_map drop_map)
    moreover have "list_all (seg_in m) [Inl (take k s)]" "list_all (seg_in m) (Inl (drop k s) # r)" using 2(3) by simp_all
    moreover have "concat (map seg_source (Inl s # r)) = narrow s @ ?R" by simp
    ultimately show ?thesis by (intro conjI exI [of _ "[Inl (take k s)]"] exI [of _ "Inl (drop k s) # r"]) simp_all
  qed
next
  case (3 p t q r)
  let ?R = "concat (map seg_source r)"
  have k: "k = 0 \<or> length t \<le> k" using 3(2) by (auto simp: clean_at_def)
  show ?case
  proof (cases "length t \<le> k")
    case True
    then have eq: "p + k = (p + length t) + (k - length t)" by simp
    have clean: "clean_at (seg_ranges (p + length t) r) (p + length t + (k - length t))" using 3(2) by (simp add: clean_at_def eq [symmetric])
    obtain xs ys where xs: "take (k - length t) ?R = concat (map seg_source xs)" "list_all (seg_in m) xs"
      and ys: "drop (k - length t) ?R = concat (map seg_source ys)" "list_all (seg_in m) ys"
      using 3(1) [OF clean] 3(3) by auto
    have "take k (t @ ?R) = concat (map seg_source (Inr (t, q) # xs))" using True xs by simp
    moreover have "drop k (t @ ?R) = concat (map seg_source ys)" using True ys by simp
    moreover have "list_all (seg_in m) (Inr (t, q) # xs)" using xs 3(3) by simp
    ultimately show ?thesis using ys(2) by (intro conjI exI [of _ "Inr (t, q) # xs"] exI [of _ ys]) simp_all
  next
    case False
    then have "k = 0" using k by simp
    then show ?thesis using 3(3) by (intro conjI exI [of _ "[]"] exI [of _ "Inr (t, q) # r"]) simp_all
  qed
qed

definition kept_whole :: "int \<Rightarrow> int \<Rightarrow> nat \<times> nat \<Rightarrow> bool" where
  "kept_whole a b r \<longleftrightarrow> b \<le> int (fst r) \<or> int (snd r) \<le> a \<or> a \<le> int (fst r) \<and> int (snd r) \<le> b"

definition in_order :: "(nat \<times> nat) list \<Rightarrow> bool" where
  "in_order rs \<longleftrightarrow> sorted_wrt (\<lambda>r s. snd r \<le> fst s) rs \<and> list_all (\<lambda>r. fst r < snd r) rs"

lemma cover_step:
  assumes "a \<le> b" "cover_token (a, b, h) r = (a', b', h')" "fst r < snd r"
  shows "a' \<le> b'" "kept_whole a' b' r"
    "kept_whole a b q \<Longrightarrow> snd q \<le> fst r \<Longrightarrow> fst q < snd q \<Longrightarrow> kept_whole a' b' q"
  using assms by (auto simp: cover_token_def kept_whole_def split: if_splits)

lemma cover_all:
  "in_order rs \<Longrightarrow> a \<le> b \<Longrightarrow> \<forall>q \<in> D. kept_whole a b q \<and> fst q < snd q \<and> (\<forall>r \<in> set rs. snd q \<le> fst r) \<Longrightarrow>
    foldl cover_token (a, b, h) rs = (a', b', h') \<Longrightarrow> a' \<le> b' \<and> (\<forall>q \<in> D \<union> set rs. kept_whole a' b' q)"
proof (induction rs arbitrary: a b h D)
  case (Cons r rs)
  obtain a1 b1 h1 where step: "cover_token (a, b, h) r = (a1, b1, h1)" by (cases "cover_token (a, b, h) r")
  have r: "fst r < snd r" "\<forall>s \<in> set rs. snd r \<le> fst s" "in_order rs" using Cons.prems(1) by (auto simp: in_order_def)
  have q: "\<forall>q \<in> insert r D. kept_whole a1 b1 q \<and> fst q < snd q \<and> (\<forall>s \<in> set rs. snd q \<le> fst s)"
  proof
    fix q assume q: "q \<in> insert r D"
    show "kept_whole a1 b1 q \<and> fst q < snd q \<and> (\<forall>s \<in> set rs. snd q \<le> fst s)"
    proof (cases "q = r")
      case True
      then show ?thesis using cover_step(2) [OF Cons.prems(2) step r(1)] r by simp
    next
      case False
      then have q: "kept_whole a b q" "fst q < snd q" "snd q \<le> fst r" "\<forall>s \<in> set rs. snd q \<le> fst s"
        using q Cons.prems(3) by auto
      then show ?thesis using cover_step(3) [OF Cons.prems(2) step r(1) q(1,3,2)] by simp
    qed
  qed
  have "foldl cover_token (a1, b1, h1) rs = (a', b', h')" using Cons.prems(4) step by simp
  from Cons.IH [OF r(3) cover_step(1) [OF Cons.prems(2) step r(1)] q this] show ?case by auto
qed simp

lemma cover_missed: "foldl cover_token (a, b, h) rs = (a', b', False) \<Longrightarrow> \<not> h \<and> a' = a \<and> b' = b"
proof (induction rs arbitrary: a b h)
  case (Cons r rs)
  obtain a1 b1 h1 where step: "cover_token (a, b, h) r = (a1, b1, h1)" by (cases "cover_token (a, b, h) r")
  then have "foldl cover_token (a1, b1, h1) rs = (a', b', False)" using Cons.prems by simp
  then have "\<not> h1 \<and> a' = a1 \<and> b' = b1" by (rule Cons.IH)
  then show ?case using step by (auto simp: cover_token_def split: if_splits)
qed simp

lemma seg_ranges_order:
  "tokens_ok m \<Longrightarrow> list_all (seg_in m) segs \<Longrightarrow> in_order (seg_ranges p segs) \<and> (\<forall>r \<in> set (seg_ranges p segs). p \<le> fst r)"
proof (induction p segs rule: seg_ranges.induct)
  case (3 p t q r)
  then have "framed t" by (auto simp: tokens_ok_def)
  then have "0 < length t" by (auto simp: framed_def)
  moreover have "in_order (seg_ranges (p + length t) r)" "\<forall>x \<in> set (seg_ranges (p + length t) r). p + length t \<le> fst x" using 3 by simp_all
  ultimately show ?case by (force simp: in_order_def)
qed (force simp: in_order_def)+

lemma clean_whole: "list_all (kept_whole a b) rs \<Longrightarrow> a \<le> b \<Longrightarrow> clean_at rs (nat a) \<and> clean_at rs (nat b)"
  by (force simp: clean_at_def kept_whole_def list_all_iff)

text \<open>A deletion, whether the handler or the browser does it, takes a range that no token is partly in.\<close>

lemma deletion_range:
  assumes "starts_with ty ''delete''" "selStart \<le> selEnd" "in_order (tokenRanges value)"
  shows "\<exists>a b. after_input ty ins selStart selEnd value = take (nat a) value @ drop (nat b) value \<and> a \<le> b
    \<and> list_all (kept_whole a b) (tokenRanges value)"
proof -
  let ?from = "if selStart = selEnd \<and> includes_backward ty then int selStart - 1 else int selStart"
  let ?til = "if selStart = selEnd \<and> \<not> includes_backward ty then int selEnd + 1 else int selEnd"
  obtain a b hit where fold: "foldl cover_token (?from, ?til, False) (tokenRanges value) = (a, b, hit)"
    by (cases "foldl cover_token (?from, ?til, False) (tokenRanges value)")
  have le: "?from \<le> ?til" using assms(2) by auto
  have kept: "a \<le> b \<and> list_all (kept_whole a b) (tokenRanges value)"
    using cover_all [OF assms(3) le, of "{}" False] fold by (simp add: list_all_iff)
  have native: "native_edit ty ins selStart selEnd value = take (nat ?from) value @ drop (nat ?til) value"
  proof -
    have "nat (int selEnd - 1) = selEnd - 1" "nat (int selEnd + 1) = selEnd + 1" by arith+
    then show ?thesis using assms(1) by (simp add: native_edit_def)
  qed
  have "after_input ty ins selStart selEnd value = take (nat a) value @ drop (nat b) value"
  proof (cases "tokenRanges value = [] \<or> \<not> hit")
    case True
    have "a = ?from \<and> b = ?til" using True fold cover_missed [of ?from ?til False "tokenRanges value" a b] by auto
    then have "native_edit ty ins selStart selEnd value = take (nat a) value @ drop (nat b) value" using native by simp
    then show ?thesis using True assms(1) fold by (auto simp: after_input_def beforeInput_def Let_def)
  next
    case False
    then show ?thesis using assms(1) fold by (simp add: after_input_def beforeInput_def Let_def)
  qed
  with kept show ?thesis by blast
qed

lemma insertion_clean:
  assumes "\<not> starts_with ty ''delete''" "selStart \<le> selEnd" "beforeInput ty selStart selEnd value = Native"
  shows "clean_at (tokenRanges value) selStart \<and> clean_at (tokenRanges value) selEnd"
proof (cases "tokenRanges value = []")
  case False
  let ?bad = "\<lambda>(rf, rt). let overlaps = selStart < rt \<and> rf < selEnd; fullyCovers = selStart \<le> rf \<and> rt \<le> selEnd;
      caretInside = rf < selStart \<and> selStart < rt in (overlaps \<and> \<not> fullyCovers) \<or> caretInside"
  have "\<not> list_ex ?bad (tokenRanges value)" using assms(1,3) False by (auto simp: beforeInput_def Let_def split: if_splits)
  then have "\<not> ?bad r" if "r \<in> set (tokenRanges value)" for r using that by (auto simp: list_ex_iff)
  then have "(selStart \<le> fst r \<or> snd r \<le> selStart) \<and> (selEnd \<le> fst r \<or> snd r \<le> selEnd)" if "r \<in> set (tokenRanges value)" for r
    using that assms(2) by (fastforce simp: Let_def split_beta)
  then show ?thesis by (simp add: clean_at_def list_all_iff split_beta)
qed (simp add: clean_at_def)

text \<open>
  C32: Typing, pasting and deleting never leave a part of a token: whatever the selection is, the source after
  an input event is made of text and whole tokens again if it was before, so every image that is still
  there is applied with its payload.
\<close>

theorem edits_keep_images:
  assumes "value = concat (map seg_source segs)" "list_all (seg_in (snd (abbreviateBase64 md))) segs" "selStart \<le> selEnd"
  shows "\<exists>segs'. after_input ty ins selStart selEnd value = concat (map seg_source segs')
    \<and> list_all (seg_in (snd (abbreviateBase64 md))) segs'
    \<and> expandBase64 (after_input ty ins selStart selEnd value) (snd (abbreviateBase64 md)) = narrow (concat (map seg_text segs'))"
proof -
  let ?m = "snd (abbreviateBase64 md)"
  have ranges: "tokenRanges value = seg_ranges 0 segs"
    unfolding tokenRanges_def assms(1) by (rule ranges_segments [OF abbreviated_ok assms(2)])
  have order: "in_order (tokenRanges value)"
    using seg_ranges_order [OF abbreviated_ok assms(2)] by (simp add: ranges)
  have cut: "\<exists>zs. take a value @ narrow s @ drop b value = concat (map seg_source zs) \<and> list_all (seg_in ?m) zs"
    if clean: "clean_at (tokenRanges value) a" "clean_at (tokenRanges value) b" for a b s
  proof -
    obtain xs where "take a value = concat (map seg_source xs)" "list_all (seg_in ?m) xs"
      using cut_segments [of 0 segs a ?m] clean(1) assms(1,2) ranges by auto
    moreover obtain ys where "drop b value = concat (map seg_source ys)" "list_all (seg_in ?m) ys"
      using cut_segments [of 0 segs b ?m] clean(2) assms(1,2) ranges by auto
    ultimately show ?thesis by (intro exI [of _ "xs @ Inl s # ys"]) simp
  qed
  have "\<exists>segs'. after_input ty ins selStart selEnd value = concat (map seg_source segs') \<and> list_all (seg_in ?m) segs'"
  proof (cases "starts_with ty ''delete''")
    case True
    obtain a b where ab: "after_input ty ins selStart selEnd value = take (nat a) value @ drop (nat b) value" "a \<le> b"
      "list_all (kept_whole a b) (tokenRanges value)"
      using deletion_range [OF True assms(3) order] by blast
    then have "clean_at (tokenRanges value) (nat a)" "clean_at (tokenRanges value) (nat b)" using clean_whole by blast+
    from cut [OF this, of "[]"] ab(1) show ?thesis by auto
  next
    case False
    show ?thesis
    proof (cases "beforeInput ty selStart selEnd value")
      case Native
      have "clean_at (tokenRanges value) selStart" "clean_at (tokenRanges value) selEnd"
        using insertion_clean [OF False assms(3) Native] by blast+
      from cut [OF this, of ins] show ?thesis using False Native by (auto simp: after_input_def native_edit_def)
    next
      case Blocked
      then show ?thesis using assms(1,2) by (auto simp: after_input_def)
    next
      case (Replaced v c)
      then show ?thesis using False by (auto simp: beforeInput_def Let_def split: if_splits)
    qed
  qed
  then show ?thesis using expand_segments [OF abbreviated_ok] by metis
qed

theorem edits_keep_images_witness:
  "\<exists>segs'. after_input ''deleteContentBackward'' [] 45 45 (narrow ''data:image/png;base64,'' @ image_token 1 example_payload)
    = concat (map seg_source segs')"
proof -
  have "list_all (seg_in (snd (abbreviateBase64 example_uri)))
      [Inl ''data:image/png;base64,'', Inr (image_token 1 example_payload, example_payload)]"
    unfolding example_collapsed by simp
  from edits_keep_images [OF refl this order_refl, of "''deleteContentBackward''" "[]" 45] show ?thesis by auto
qed

section \<open>What goes wrong\<close>

text \<open>
  The tab key is handled by \<open>onKeyDown\<close>, which no \<open>beforeinput\<close> event follows: pressed inside a token it
  breaks the token, and the payload is not put back.
\<close>

definition tab_key :: "nat \<Rightarrow> nat \<Rightarrow> source \<Rightarrow> source" where
  "tab_key selStart selEnd value = take selStart value @ narrow ''  '' @ drop selEnd value"

lemma tab_breaks_token:
  "let v = tab_key 25 25 (fst (abbreviateBase64 example_uri)) in expandBase64 v (snd (abbreviateBase64 example_uri)) = v"
  by code_simp

text \<open>
  Without a selection the handler looks at the one unit next to the caret: deleting a word or line from behind
  other text removes the end of a token.  Here the browser deletes the last two units of a source that ends
  with a token and a space.
\<close>

lemma word_deletion_not_stopped:
  "let v = fst (abbreviateBase64 example_uri) @ narrow '' '' in beforeInput ''deleteWordBackward'' (length v) (length v) v = Native"
  by code_simp

end
