(* ===== verification/LiveDocView.thy ===== *)
theory LiveDocView
  imports LiveDocImages LiveDocFrontMatter LiveDocExport
begin

text \<open>
  The Markdown view of a live document at work (\<open>components/chat/livedoc/LiveDocMarkdownView.tsx\<close>): the text
  area, the pause before an edit is applied, and the document that other users change meanwhile.  It puts
  together the converter, the metadata block and the collapsed images.

  The view writes nothing the user did not type (\<open>view_writes_only_typed\<close>), a text that was typed reaches the
  document however the view is left (\<open>typed_text_reaches_document\<close>), and an edit below the metadata leaves
  the shared settings alone (\<open>body_edit_keeps_settings\<close>).

  The editor is third-party code: \<open>vc_setContent\<close> is the content it makes of markup, \<open>vc_getHTML\<close> the markup of a
  content.  A bracket that belongs to no token any more is beyond the strings of the converter and given to
  it as a question mark.
\<close>

section \<open>State\<close>

record 'd view_ctx =
  vc_env :: md_env
  vc_fm :: fm_env
  vc_resolve :: "string \<Rightarrow> string option"
  vc_setContent :: "string \<Rightarrow> 'd"
  vc_getHTML :: "'d \<Rightarrow> string"

text \<open>The references of the component, the document, and the texts applied so far.\<close>

record 'd md_view =
  vw_text :: source
  vw_dirty :: bool
  vw_editing :: bool
  vw_timer :: "source option"
  vw_map :: "(source, string) jmap"
  vw_blockStarts :: "(nat, nat) jmap"
  vw_headerFooter :: header_footer
  vw_layout :: layout_meta
  vw_readOnly :: bool
  vw_destroyed :: bool
  vw_content :: 'd
  vw_meta :: meta
  vw_applied :: "source list"

definition to_chars :: "source \<Rightarrow> string" where
  "to_chars s = map (\<lambda>u. case u of Ch c \<Rightarrow> c | _ \<Rightarrow> CHR ''?'') s"

section \<open>Reading the document\<close>

text \<open>\<open>stripBlockSentinels\<close> over a source; a sentinel has no brackets.\<close>

definition sentinel_src :: "source \<Rightarrow> (nat \<times> source) option" where
  "sentinel_src s =
     (let chars = chars_of (takeWhile (unit_holds (\<lambda>c. True)) s)
      in case sentinel_here chars of None \<Rightarrow> None | Some (i, t) \<Rightarrow> Some (i, drop (length chars - length t) s))"

lemma sentinel_src_shorter: "sentinel_src s = Some (i, t) \<Longrightarrow> length t < length s"
proof -
  assume s: "sentinel_src s = Some (i, t)"
  let ?chars = "chars_of (takeWhile (unit_holds (\<lambda>c. True)) s)"
  obtain r where r: "sentinel_here ?chars = Some (i, r)" "t = drop (length ?chars - length r) s"
    using s by (auto simp: sentinel_src_def Let_def split: option.splits)
  have "length r < length ?chars" by (rule sentinel_here_shorter [OF r(1)])
  moreover have "s \<noteq> []" using r(1) by (intro notI) (simp add: sentinel_here_def chars_of_def strip_prefix_def)
  ultimately show ?thesis unfolding r(2) length_drop by (intro diff_less) simp_all
qed

function strip_source :: "source \<Rightarrow> (nat, nat) jmap \<Rightarrow> source \<Rightarrow> source \<times> (nat, nat) jmap" where
  "strip_source acc starts s =
     (case s of
        [] \<Rightarrow> (acc, starts)
      | u # r \<Rightarrow>
          (case sentinel_src s of
             Some (i, t) \<Rightarrow> strip_source acc (map_set i (length acc) starts) t
           | None \<Rightarrow> strip_source (acc @ [u]) starts r))"
  by pat_completeness auto
termination by (relation "measure (\<lambda>(acc, starts, s). length s)") (auto dest: sentinel_src_shorter)

declare strip_source.simps [simp del]

definition readDisplay :: "'d view_ctx \<Rightarrow> 'd md_view \<Rightarrow> source \<times> (source, string) jmap \<times> (nat, nat) jmap" where
  "readDisplay cx v =
     (let (t, m) = abbreviateBase64 (editorHtmlToMarkdown (vc_env cx) True (vc_getHTML cx (vw_content v)));
          withFront = narrow (serializeFrontMatter (vc_fm cx) (vw_headerFooter v) (Some (vw_layout v))) @ t;
          (txt, starts) = strip_source [] [] withFront
      in (txt, m, starts))"

definition showDocument :: "'d view_ctx \<Rightarrow> 'd md_view \<Rightarrow> 'd md_view" where
  "showDocument cx v =
     (let (txt, m, starts) = readDisplay cx v in v\<lparr>vw_text := txt, vw_map := m, vw_blockStarts := starts\<rparr>)"

section \<open>Writing the document\<close>

text \<open>The conversion returns on every text of this model (\<open>editor_html_returned\<close>), so the default stands for nothing.\<close>

definition editor_html :: "'d view_ctx \<Rightarrow> string \<Rightarrow> string" where
  "editor_html cx full = or_else (markdownToEditorHtml (vc_resolve cx) full) []"

lemma editor_html_returned: "markdownToEditorHtml (vc_resolve cx) full = Some (editor_html cx full)"
  using markdown_returns [of "vc_resolve cx" full] by (auto simp: editor_html_def)

definition applyToDoc :: "'d view_ctx \<Rightarrow> source \<Rightarrow> 'd md_view \<Rightarrow> 'd md_view" where
  "applyToDoc cx display v =
     (if vw_destroyed v \<or> vw_readOnly v then v
      else let p = parseFrontMatter (vc_fm cx) (to_chars display);
               body = drop (length display - length (pf_body p)) display;
               full = expandBase64 body (vw_map v)
           in v\<lparr>vw_meta := applySettings (vc_fm cx) (vw_headerFooter v) (vw_layout v) p (vw_meta v),
                vw_content := vc_setContent cx (editor_html cx (to_chars full)),
                vw_dirty := False, vw_editing := False, vw_applied := vw_applied v @ [display]\<rparr>)"

definition onChange :: "source \<Rightarrow> 'd md_view \<Rightarrow> 'd md_view" where
  "onChange value v = v\<lparr>vw_text := value, vw_dirty := True, vw_editing := True, vw_timer := Some value\<rparr>"

definition reload :: "'d view_ctx \<Rightarrow> 'd md_view \<Rightarrow> 'd md_view" where
  "reload cx v = showDocument cx (v\<lparr>vw_timer := None, vw_dirty := False, vw_editing := False\<rparr>)"

text \<open>The clean-up of the effect that flushes edits.\<close>

definition flush :: "'d view_ctx \<Rightarrow> 'd md_view \<Rightarrow> 'd md_view" where
  "flush cx v =
     (let w = v\<lparr>vw_timer := None\<rparr>
      in if vw_dirty v \<and> \<not> vw_readOnly v then applyToDoc cx (vw_text v) w else w)"

definition refresh :: "'d view_ctx \<Rightarrow> 'd md_view \<Rightarrow> 'd md_view" where
  "refresh cx v = (if vw_dirty v then v else showDocument cx v)"

section \<open>Events\<close>

text \<open>
  \<open>DocChanged\<close> and \<open>MetaChanged\<close> are changes by other users or elsewhere in the client, \<open>SettingsSeen\<close> is the
  render that follows a change of the shared map.  An update that \<open>applyToDoc\<close> itself causes is ignored by
  the view, so it is no event.
\<close>

datatype 'd view_event =
    Typed source
  | TimerFired
  | DocChanged 'd
  | MetaChanged meta
  | SettingsSeen
  | ReloadClicked
  | ReadOnlySet bool
  | Unmounted

fun view_step :: "'d view_ctx \<Rightarrow> 'd view_event \<Rightarrow> 'd md_view \<Rightarrow> 'd md_view" where
  "view_step cx (Typed value) v = onChange value v"
| "view_step cx TimerFired v =
     (case vw_timer v of None \<Rightarrow> v | Some value \<Rightarrow> applyToDoc cx value (v\<lparr>vw_timer := None\<rparr>))"
| "view_step cx (DocChanged d) v = refresh cx (v\<lparr>vw_content := d\<rparr>)"
| "view_step cx (MetaChanged m) v = v\<lparr>vw_meta := m\<rparr>"
| "view_step cx SettingsSeen v =
     refresh cx (v\<lparr>vw_headerFooter := readHeaderFooter (Some (vw_meta v)),
       vw_layout := \<lparr>lm_pageSetup = readPageSetup (Some (vw_meta v)), lm_decoration = readDecoration (Some (vw_meta v))\<rparr>\<rparr>)"
| "view_step cx ReloadClicked v = reload cx v"
| "view_step cx (ReadOnlySet b) v = (if b = vw_readOnly v then v else (flush cx v)\<lparr>vw_readOnly := b\<rparr>)"
| "view_step cx Unmounted v = flush cx v"

abbreviation view_run :: "'d view_ctx \<Rightarrow> 'd view_event list \<Rightarrow> 'd md_view \<Rightarrow> 'd md_view" where
  "view_run cx es v \<equiv> foldl (\<lambda>v e. view_step cx e v) v es"

section \<open>What reaches the document\<close>

lemma showDocument_fields [simp]:
  "vw_dirty (showDocument cx v) = vw_dirty v" "vw_editing (showDocument cx v) = vw_editing v"
  "vw_timer (showDocument cx v) = vw_timer v" "vw_headerFooter (showDocument cx v) = vw_headerFooter v"
  "vw_layout (showDocument cx v) = vw_layout v" "vw_readOnly (showDocument cx v) = vw_readOnly v"
  "vw_destroyed (showDocument cx v) = vw_destroyed v" "vw_content (showDocument cx v) = vw_content v"
  "vw_meta (showDocument cx v) = vw_meta v" "vw_applied (showDocument cx v) = vw_applied v"
  by (simp_all add: showDocument_def split_beta Let_def)

lemma applyToDoc_fields [simp]:
  "vw_timer (applyToDoc cx d v) = vw_timer v" "vw_text (applyToDoc cx d v) = vw_text v"
  "vw_readOnly (applyToDoc cx d v) = vw_readOnly v" "vw_destroyed (applyToDoc cx d v) = vw_destroyed v"
  by (simp_all add: applyToDoc_def Let_def)

lemma applyToDoc_applied:
  "vw_applied (applyToDoc cx d v) = (if vw_destroyed v \<or> vw_readOnly v then vw_applied v else vw_applied v @ [d])"
  "vw_dirty (applyToDoc cx d v) \<longleftrightarrow> vw_dirty v \<and> (vw_destroyed v \<or> vw_readOnly v)"
  by (simp_all add: applyToDoc_def Let_def)

fun typed_of :: "'d view_event \<Rightarrow> source set" where
  "typed_of (Typed t) = {t}"
| "typed_of _ = {}"

definition typed_texts :: "'d view_event list \<Rightarrow> source set" where
  "typed_texts es = \<Union> (typed_of ` set es)"

text \<open>The document when only others write it.\<close>

fun others_step :: "'d \<times> meta \<Rightarrow> 'd view_event \<Rightarrow> 'd \<times> meta" where
  "others_step (d, m) (DocChanged d') = (d', m)"
| "others_step (d, m) (MetaChanged m') = (d, m')"
| "others_step (d, m) _ = (d, m)"

text \<open>Every text on its way to the document is one that was typed.\<close>

definition only_typed :: "source set \<Rightarrow> 'd md_view \<Rightarrow> bool" where
  "only_typed T v \<longleftrightarrow> set (vw_applied v) \<subseteq> T \<and> (vw_dirty v \<longrightarrow> vw_text v \<in> T) \<and> set_option (vw_timer v) \<subseteq> T"

interpretation typing: event_machine "\<lambda>(T, v) e. (T \<union> typed_of e, view_step cx e v)" "\<lambda>(T, v). only_typed T v" for cx :: "'d view_ctx"
proof
  fix s :: "source set \<times> 'd md_view" and e :: "'d view_event"
  obtain T v where s: "s = (T, v)" by (cases s)
  assume "case s of (T, v) \<Rightarrow> only_typed T v"
  then have inv: "only_typed T v" by (simp add: s)
  have "only_typed (T \<union> typed_of e) (view_step cx e v)"
  proof (cases e)
    case TimerFired
    then show ?thesis using inv by (cases "vw_timer v") (auto simp: only_typed_def applyToDoc_applied)
  qed (use inv in \<open>auto simp: only_typed_def applyToDoc_applied onChange_def refresh_def reload_def flush_def Let_def\<close>)
  then show "case (case s of (T, v) \<Rightarrow> \<lambda>e. (T \<union> typed_of e, view_step cx e v)) e of (T, v) \<Rightarrow> only_typed T v" by (simp add: s)
qed

lemma typing_run: "foldl (\<lambda>(T, v) e. (T \<union> typed_of e, view_step cx e v)) (T, v) es = (T \<union> typed_texts es, view_run cx es v)"
  by (induction es arbitrary: T v) (auto simp: typed_texts_def)

lemma idle_step:
  assumes "\<not> vw_dirty v" "vw_timer v = None" "typed_of e = {}"
  shows "\<not> vw_dirty (view_step cx e v) \<and> vw_timer (view_step cx e v) = None
    \<and> (vw_content (view_step cx e v), vw_meta (view_step cx e v)) = others_step (vw_content v, vw_meta v) e"
  using assms by (cases e) (simp_all add: refresh_def reload_def flush_def Let_def)

lemma idle_run:
  "\<not> vw_dirty v \<Longrightarrow> vw_timer v = None \<Longrightarrow> typed_texts es = {} \<Longrightarrow>
    (vw_content (view_run cx es v), vw_meta (view_run cx es v)) = foldl others_step (vw_content v, vw_meta v) es"
proof (induction es arbitrary: v)
  case (Cons e es)
  then have "typed_of e = {}" "typed_texts es = {}" by (simp_all add: typed_texts_def)
  with Cons idle_step [of v e cx] show ?case by simp
qed simp

text \<open>
  C30: Whatever happens around it, the Markdown view applies no text the user did not type in it; while
  nothing is typed the document and its settings are exactly what the others made of them, so looking at the
  source, which not everything survives, changes nothing.
\<close>

theorem view_writes_only_typed:
  assumes "\<not> vw_dirty v" "vw_timer v = None" "vw_applied v = []"
  shows "set (vw_applied (view_run cx es v)) \<subseteq> typed_texts es
    \<and> (typed_texts es = {} \<longrightarrow> (vw_content (view_run cx es v), vw_meta (view_run cx es v)) = foldl others_step (vw_content v, vw_meta v) es)"
proof
  have "only_typed {} v" using assms by (simp add: only_typed_def)
  then have "only_typed (typed_texts es) (view_run cx es v)"
    using typing.run_inv [of "({}, v)" cx es] by (simp add: typing_run)
  then show "set (vw_applied (view_run cx es v)) \<subseteq> typed_texts es" by (simp add: only_typed_def)
qed (use idle_run assms in blast)

text \<open>An edit is waiting, or it is the last text that was applied.\<close>

definition on_its_way :: "source \<Rightarrow> 'd md_view \<Rightarrow> bool" where
  "on_its_way t v \<longleftrightarrow> \<not> vw_destroyed v \<and>
    (if vw_dirty v then vw_text v = t \<and> vw_timer v = Some t \<and> \<not> vw_readOnly v
     else vw_timer v = None \<and> vw_applied v \<noteq> [] \<and> last (vw_applied v) = t)"

fun keeps_edit :: "'d view_event \<Rightarrow> bool" where
  "keeps_edit (Typed t) = False"
| "keeps_edit ReloadClicked = False"
| "keeps_edit _ = True"

lemma on_its_way_step: "on_its_way t v \<Longrightarrow> keeps_edit e \<Longrightarrow> on_its_way t (view_step cx e v)"
proof (cases e)
  case TimerFired
  assume "on_its_way t v"
  then show ?thesis using TimerFired by (cases "vw_dirty v") (auto simp: on_its_way_def applyToDoc_applied)
qed (auto simp: on_its_way_def applyToDoc_applied refresh_def flush_def Let_def split: if_splits)

lemma on_its_way_run: "on_its_way t v \<Longrightarrow> list_all keeps_edit es \<Longrightarrow> on_its_way t (view_run cx es v)"
  by (induction es arbitrary: v) (auto intro: on_its_way_step)

text \<open>
  C29: A text typed in a writable view is applied to the document: at the latest when the view is left,
  whatever comes in between from the timer, other users or the settings, unless the user types on or
  reloads; and it is then the last text that was applied.
\<close>

theorem typed_text_reaches_document:
  assumes "\<not> vw_readOnly v" "\<not> vw_destroyed v" "list_all keeps_edit es"
  shows "vw_applied (view_run cx (Typed t # es @ [Unmounted]) v) \<noteq> []
    \<and> last (vw_applied (view_run cx (Typed t # es @ [Unmounted]) v)) = t
    \<and> \<not> vw_dirty (view_run cx (Typed t # es @ [Unmounted]) v)"
proof -
  have "on_its_way t (view_step cx (Typed t) v)" using assms(1,2) by (simp add: on_its_way_def onChange_def)
  then have "on_its_way t (view_run cx es (view_step cx (Typed t) v))" using assms(3) by (rule on_its_way_run)
  then show ?thesis
    by (auto simp: on_its_way_def flush_def Let_def applyToDoc_applied split: if_splits)
qed

lemma to_chars_narrow [simp]: "to_chars (narrow s) = s"
  by (simp add: to_chars_def narrow_def o_def)

lemma to_chars_append [simp]: "to_chars (a @ b) = to_chars a @ to_chars b" "length (to_chars a) = length a"
  by (simp_all add: to_chars_def)

text \<open>
  Applying a source whose metadata block is the one that was shown replaces the content of the document
  by the converted text below it, with its images, and leaves the shared settings as they are.
\<close>

theorem body_edit_keeps_settings:
  assumes "margins_exact (vw_layout v)" "\<not> vw_readOnly v" "\<not> vw_destroyed v"
  shows "applyToDoc cx (narrow (serializeFrontMatter (vc_fm cx) (vw_headerFooter v) (Some (vw_layout v))) @ body) v =
    v\<lparr>vw_content := vc_setContent cx (editor_html cx (to_chars (expandBase64 body (vw_map v)))),
      vw_dirty := False, vw_editing := False,
      vw_applied := vw_applied v @ [narrow (serializeFrontMatter (vc_fm cx) (vw_headerFooter v) (Some (vw_layout v))) @ body]\<rparr>"
proof -
  let ?front = "serializeFrontMatter (vc_fm cx) (vw_headerFooter v) (Some (vw_layout v))"
  let ?p = "parseFrontMatter (vc_fm cx) (?front @ to_chars body)"
  have "pf_body ?p = to_chars body" by (simp add: front_matter_reads [OF assms(1)])
  moreover have "applySettings (vc_fm cx) (vw_headerFooter v) (vw_layout v) ?p (vw_meta v) = vw_meta v"
    by (rule unedited_block [OF assms(1)])
  ultimately show ?thesis using assms(2,3) by (simp add: applyToDoc_def Let_def)
qed

section \<open>Concrete runs\<close>

definition plain_ctx :: "string view_ctx" where
  "plain_ctx = \<lparr>vc_env = plain_env, vc_fm = plain_fm_env, vc_resolve = (\<lambda>s. None), vc_setContent = (\<lambda>h. h), vc_getHTML = (\<lambda>d. d)\<rparr>"

definition fresh_view :: "string md_view" where
  "fresh_view =
     \<lparr>vw_text = [], vw_dirty = False, vw_editing = False, vw_timer = None, vw_map = [], vw_blockStarts = [],
      vw_headerFooter = DEFAULT_HEADER_FOOTER, vw_layout = example_layout, vw_readOnly = False, vw_destroyed = False,
      vw_content = [], vw_meta = [], vw_applied = []\<rparr>"

theorem view_writes_only_typed_witness:
  "vw_content (view_run plain_ctx [DocChanged ''x'', SettingsSeen, ReloadClicked, Unmounted] fresh_view) = ''x''"
proof -
  have "\<not> vw_dirty fresh_view" "vw_timer fresh_view = None" "vw_applied fresh_view = []" by (simp_all add: fresh_view_def)
  from view_writes_only_typed [OF this, of plain_ctx "[DocChanged ''x'', SettingsSeen, ReloadClicked, Unmounted]"]
  show ?thesis by (simp add: typed_texts_def)
qed

theorem typed_text_reaches_document_witness:
  "last (vw_applied (view_run plain_ctx (Typed (narrow ''new'') # [DocChanged ''x'', SettingsSeen] @ [Unmounted]) fresh_view)) = narrow ''new''"
proof -
  have "\<not> vw_readOnly fresh_view" "\<not> vw_destroyed fresh_view" "list_all keeps_edit [DocChanged ''x'', SettingsSeen]"
    by (simp_all add: fresh_view_def)
  from typed_text_reaches_document [OF this, of plain_ctx "narrow ''new''"] show ?thesis by blast
qed

theorem body_edit_keeps_settings_witness:
  "vw_meta (applyToDoc plain_ctx
      (narrow (serializeFrontMatter plain_fm_env DEFAULT_HEADER_FOOTER (Some example_layout)) @ narrow ''new'') fresh_view) = []"
proof -
  have "margins_exact (vw_layout fresh_view)" "\<not> vw_readOnly fresh_view" "\<not> vw_destroyed fresh_view"
    by (simp_all add: fresh_view_def example_layout_exact)
  from body_edit_keeps_settings [OF this, of plain_ctx "narrow ''new''"] show ?thesis by (simp add: fresh_view_def plain_ctx_def)
qed

section \<open>What goes wrong\<close>

text \<open>
  The tab key is handled without regard to \<open>readOnly\<close>.  In a view that must not write it makes the text dirty,
  and as \<open>applyToDoc\<close> returns at once it stays dirty: the view shows no change of the document any more.  When
  the user may write again, leaving the view puts the old text over all that was written meanwhile.
\<close>

fun no_unlock :: "'d view_event \<Rightarrow> bool" where
  "no_unlock (Typed t) = False"
| "no_unlock ReloadClicked = False"
| "no_unlock (ReadOnlySet b) = b"
| "no_unlock _ = True"

lemma read_only_tab_freezes_view:
  "vw_readOnly v \<Longrightarrow> list_all no_unlock es \<Longrightarrow>
    vw_text (view_run cx (Typed t # es) v) = t \<and> vw_dirty (view_run cx (Typed t # es) v)"
proof -
  assume "vw_readOnly v" and es: "list_all no_unlock es"
  have step: "vw_text (view_step cx e w) = t \<and> vw_dirty (view_step cx e w) \<and> vw_readOnly (view_step cx e w)"
    if "vw_text w = t \<and> vw_dirty w \<and> vw_readOnly w" "no_unlock e" for e and w
    using that by (cases e) (auto simp: refresh_def flush_def Let_def applyToDoc_applied split: option.splits)
  have run: "list_all no_unlock xs \<Longrightarrow> vw_text w = t \<and> vw_dirty w \<and> vw_readOnly w \<Longrightarrow>
      vw_text (view_run cx xs w) = t \<and> vw_dirty (view_run cx xs w) \<and> vw_readOnly (view_run cx xs w)" for xs w
    using step by (induction xs arbitrary: w) simp_all
  have "vw_text (onChange t v) = t \<and> vw_dirty (onChange t v) \<and> vw_readOnly (onChange t v)"
    using \<open>vw_readOnly v\<close> by (simp add: onChange_def)
  from run [OF es this] show ?thesis by simp
qed

lemma frozen_view_overwrites:
  "vw_content (view_run plain_ctx [ReadOnlySet True, Typed (narrow ''old''), DocChanged ''written by others'', ReadOnlySet False, Unmounted]
     fresh_view) = vc_setContent plain_ctx (editor_html plain_ctx ''old'')"
  by (simp add: plain_ctx_def fresh_view_def onChange_def flush_def refresh_def Let_def applyToDoc_def expandBase64_def
      parseFrontMatter_def FRONT_MATTER_RE_def open_block_def strip_prefix_def no_front_def)

end
