(* ===== verification/MessageSelection.thy ===== *)
theory MessageSelection
  imports MessageBody
begin

text \<open>
  Picking messages of a conversation: \<open>components/chat/message/useMessageSelection.ts\<close>, with the selection mode,
  the context menu, deleting, quoting and copying.  Every handler is a step of its own; the deletion is cut at
  the reply of the server.

  Only messages the user picked are ever deleted, one request at a time (\<open>deletes_only_picked\<close>); a
  selection of text over several messages picks exactly the messages it spans
  (\<open>range_selection_exact\<close>); copying a message that was sent without markup copies what was typed
  (\<open>copy_gives_typed_text\<close>).
\<close>

unbundle bit_operations_syntax

section \<open>State\<close>

datatype toast_variant = ToastSuccess | ToastError

record toast =
  to_message :: string
  to_variant :: toast_variant

text \<open>
  The hook and the quotes of the chat view.  \<open>sl_timers\<close> are the long-press timers that run, \<open>sl_longPress\<close> is
  the one the reference holds, and \<open>sl_inflight\<close> the deletions that are not answered.
\<close>

record msg_selection =
  sl_mode :: bool
  sl_ids :: "string jset"
  sl_menu :: "(int \<times> int \<times> chat_message) option"
  sl_confirm :: "string list option"
  sl_toast :: "toast option"
  sl_isDeleting :: bool
  sl_isDeletingRef :: bool
  sl_timers :: "(nat \<times> chat_message) list"
  sl_longPress :: "nat option"
  sl_nextTimer :: nat
  sl_quotes :: "chat_message list"
  sl_channel :: "int option"
  sl_dm :: "int option"
  sl_inflight :: "(int \<times> string list) list"

definition fresh_selection :: "int option \<Rightarrow> int option \<Rightarrow> msg_selection" where
  "fresh_selection ch dm =
     \<lparr>sl_mode = False, sl_ids = [], sl_menu = None, sl_confirm = None, sl_toast = None, sl_isDeleting = False,
      sl_isDeletingRef = False, sl_timers = [], sl_longPress = None, sl_nextTimer = 0, sl_quotes = [],
      sl_channel = ch, sl_dm = dm, sl_inflight = []\<rparr>"

datatype selection_call = DeleteMessages int "string list" | WriteClipboard string

definition no_id :: "chat_message \<Rightarrow> bool" where
  "no_id m \<longleftrightarrow> cm_message_id m = None \<or> cm_message_id m = Some []"

definition PERM_DELETE_MESSAGE :: int where
  "PERM_DELETE_MESSAGE = 0x1000"

definition canDeleteMessages :: "channel_entry option \<Rightarrow> bool" where
  "canDeleteMessages ch =
     (case ch of
        None \<Rightarrow> False
      | Some c \<Rightarrow>
          (case ch_permissions c of
             None \<Rightarrow> False
           | Some p \<Rightarrow> (case ch_pchat_protocol c of None \<Rightarrow> False | Some pr \<Rightarrow> pr \<noteq> ProtoNone \<and> p AND PERM_DELETE_MESSAGE \<noteq> 0)))"

section \<open>Picking\<close>

definition toggleMsgSelection :: "string \<Rightarrow> msg_selection \<Rightarrow> msg_selection" where
  "toggleMsgSelection i s =
     s\<lparr>sl_ids := (if set_has (sl_ids s) i then set_remove i (sl_ids s) else set_add i (sl_ids s))\<rparr>"

definition enterSelectionMode :: "chat_message \<Rightarrow> msg_selection \<Rightarrow> msg_selection" where
  "enterSelectionMode m s = (if no_id m then s else s\<lparr>sl_mode := True, sl_ids := [the (cm_message_id m)]\<rparr>)"

definition exitSelectionMode :: "msg_selection \<Rightarrow> msg_selection" where
  "exitSelectionMode s = s\<lparr>sl_mode := False, sl_ids := []\<rparr>"

definition handleMessageContextMenu :: "int \<Rightarrow> int \<Rightarrow> chat_message \<Rightarrow> msg_selection \<Rightarrow> msg_selection" where
  "handleMessageContextMenu x y m s = (if no_id m then s else s\<lparr>sl_menu := Some (x, y, m)\<rparr>)"

text \<open>A text selection: the message identifiers of the rows in order, and those its two ends are in.\<close>

definition selection_range :: "string list \<Rightarrow> string option \<Rightarrow> string option \<Rightarrow> string jset option" where
  "selection_range rows anchorId focusId =
     (case (anchorId, focusId) of
        (Some a, Some f) \<Rightarrow>
          if a = [] \<or> f = [] \<or> a = f then None
          else (case (index_of rows a, index_of rows f) of
                  (Some i, Some j) \<Rightarrow>
                    (let ids = set_of_list (filter (\<lambda>r. r \<noteq> []) (map ((!) rows) [min i j..<Suc (max i j)]))
                     in if 2 \<le> length ids then Some ids else None)
                | _ \<Rightarrow> None)
      | _ \<Rightarrow> None)"

definition textSelectionChange :: "bool \<Rightarrow> string list \<Rightarrow> string option \<Rightarrow> string option \<Rightarrow> msg_selection \<Rightarrow> msg_selection" where
  "textSelectionChange canDelete rows anchorId focusId s =
     (if \<not> canDelete \<or> sl_mode s then s
      else case selection_range rows anchorId focusId of
             None \<Rightarrow> s
           | Some ids \<Rightarrow> s\<lparr>sl_mode := True, sl_ids := ids\<rparr>)"

section \<open>Deleting\<close>

definition handleSingleDelete :: "chat_message \<Rightarrow> msg_selection \<Rightarrow> msg_selection" where
  "handleSingleDelete m s = (if no_id m then s else s\<lparr>sl_confirm := Some [the (cm_message_id m)]\<rparr>)"

definition handleBulkDelete :: "msg_selection \<Rightarrow> msg_selection" where
  "handleBulkDelete s = (if sl_ids s = [] then s else s\<lparr>sl_confirm := Some (sl_ids s)\<rparr>)"

definition confirmDelete :: "msg_selection \<Rightarrow> msg_selection \<times> selection_call list" where
  "confirmDelete s =
     (case (sl_confirm s, sl_channel s) of
        (Some ids, Some ch) \<Rightarrow>
          if sl_isDeletingRef s then (s, [])
          else (s\<lparr>sl_isDeletingRef := True, sl_isDeleting := True, sl_inflight := sl_inflight s @ [(ch, ids)]\<rparr>,
                [DeleteMessages ch ids])
      | _ \<Rightarrow> (s, []))"

definition deleted_toast :: "bool \<Rightarrow> nat \<Rightarrow> toast" where
  "deleted_toast ok n =
     (if \<not> ok then \<lparr>to_message = ''Failed to delete messages'', to_variant = ToastError\<rparr>
      else \<lparr>to_message = (if n = 1 then ''Message deleted'' else show_nat n @ '' messages deleted''), to_variant = ToastSuccess\<rparr>)"

text \<open>The reply to the oldest request.\<close>

definition confirmDelete_done :: "bool \<Rightarrow> msg_selection \<Rightarrow> msg_selection" where
  "confirmDelete_done ok s =
     (case sl_inflight s of
        [] \<Rightarrow> s
      | (ch, ids) # r \<Rightarrow>
          exitSelectionMode (s\<lparr>sl_inflight := r, sl_toast := Some (deleted_toast ok (length ids)), sl_isDeletingRef := False,
            sl_isDeleting := False, sl_confirm := None\<rparr>))"

section \<open>Touch\<close>

definition handleTouchStart :: "chat_message \<Rightarrow> msg_selection \<Rightarrow> msg_selection" where
  "handleTouchStart m s =
     (if sl_mode s \<or> no_id m then s
      else s\<lparr>sl_timers := sl_timers s @ [(sl_nextTimer s, m)], sl_longPress := Some (sl_nextTimer s),
             sl_nextTimer := sl_nextTimer s + 1\<rparr>)"

definition longPressFires :: "nat \<Rightarrow> int \<Rightarrow> int \<Rightarrow> msg_selection \<Rightarrow> msg_selection" where
  "longPressFires k x y s =
     (case map_of (sl_timers s) k of
        None \<Rightarrow> s
      | Some m \<Rightarrow> s\<lparr>sl_timers := filter (\<lambda>t. fst t \<noteq> k) (sl_timers s), sl_menu := Some (x, y, m), sl_longPress := None\<rparr>)"

definition cancelLongPress :: "msg_selection \<Rightarrow> msg_selection" where
  "cancelLongPress s =
     (case sl_longPress s of
        None \<Rightarrow> s
      | Some k \<Rightarrow> s\<lparr>sl_timers := filter (\<lambda>t. fst t \<noteq> k) (sl_timers s), sl_longPress := None\<rparr>)"

section \<open>Quoting and copying\<close>

definition handleCite :: "chat_message \<Rightarrow> msg_selection \<Rightarrow> msg_selection" where
  "handleCite m s =
     (if no_id m \<or> list_ex (\<lambda>q. cm_message_id q = cm_message_id m) (sl_quotes s) then s
      else s\<lparr>sl_quotes := sl_quotes s @ [m]\<rparr>)"

definition removePendingQuote :: "string \<Rightarrow> msg_selection \<Rightarrow> msg_selection" where
  "removePendingQuote i s = s\<lparr>sl_quotes := filter (\<lambda>q. cm_message_id q \<noteq> Some i) (sl_quotes s)\<rparr>"

text \<open>\<open>/<[^>]*>/\<close> at a position; the tag may be empty.\<close>

definition match_any_tag :: "string matcher" where
  "match_any_tag prev s =
     (case s of
        c # t \<Rightarrow> (let n = length (takeWhile (\<lambda>x. x \<noteq> CHR ''>'') t) in if c = CHR ''<'' \<and> n < length t then Some (n + 2, []) else None)
      | [] \<Rightarrow> None)"

definition copy_text :: "string \<Rightarrow> string" where
  "copy_text body = trim (decode_entities (replace_all match_any_tag body))"

section \<open>Events\<close>

text \<open>
  After every event the effect runs that leaves the selection mode when nothing is selected; changing the
  conversation clears selection and quotes.
\<close>

definition auto_exit :: "msg_selection \<Rightarrow> msg_selection" where
  "auto_exit s = (if sl_mode s \<and> sl_ids s = [] then s\<lparr>sl_mode := False\<rparr> else s)"

definition switch_conversation :: "int option \<Rightarrow> int option \<Rightarrow> msg_selection \<Rightarrow> msg_selection" where
  "switch_conversation ch dm s =
     (if ch = sl_channel s \<and> dm = sl_dm s then s
      else (exitSelectionMode s)\<lparr>sl_channel := ch, sl_dm := dm, sl_quotes := []\<rparr>)"

datatype selection_event =
    Toggle string | EnterMode chat_message | ExitMode
  | OpenMenu int int chat_message | CloseMenu
  | TextSelected bool "string list" "string option" "string option"
  | AskSingle chat_message | AskBulk | CancelAsk | Confirm | DeleteReply bool
  | TouchStart chat_message | TouchEnd | LongPress nat int int
  | CiteMessage chat_message | DropQuote string | CopyText chat_message
  | ConversationChanged "int option" "int option"
  | ShowToast toast | CloseToast

fun selection_handle :: "selection_event \<Rightarrow> msg_selection \<Rightarrow> msg_selection \<times> selection_call list" where
  "selection_handle (Toggle i) s = (toggleMsgSelection i s, [])"
| "selection_handle (EnterMode m) s = (enterSelectionMode m s, [])"
| "selection_handle ExitMode s = (exitSelectionMode s, [])"
| "selection_handle (OpenMenu x y m) s = (handleMessageContextMenu x y m s, [])"
| "selection_handle CloseMenu s = (s\<lparr>sl_menu := None\<rparr>, [])"
| "selection_handle (TextSelected cd rows a f) s = (textSelectionChange cd rows a f s, [])"
| "selection_handle (AskSingle m) s = (handleSingleDelete m s, [])"
| "selection_handle AskBulk s = (handleBulkDelete s, [])"
| "selection_handle CancelAsk s = (s\<lparr>sl_confirm := None\<rparr>, [])"
| "selection_handle Confirm s = confirmDelete s"
| "selection_handle (DeleteReply ok) s = (confirmDelete_done ok s, [])"
| "selection_handle (TouchStart m) s = (handleTouchStart m s, [])"
| "selection_handle TouchEnd s = (cancelLongPress s, [])"
| "selection_handle (LongPress k x y) s = (longPressFires k x y s, [])"
| "selection_handle (CiteMessage m) s = (handleCite m s, [])"
| "selection_handle (DropQuote i) s = (removePendingQuote i s, [])"
| "selection_handle (CopyText m) s = (s, [WriteClipboard (copy_text (cm_body m))])"
| "selection_handle (ConversationChanged ch dm) s = (switch_conversation ch dm s, [])"
| "selection_handle (ShowToast t) s = (s\<lparr>sl_toast := Some t\<rparr>, [])"
| "selection_handle CloseToast s = (s\<lparr>sl_toast := None\<rparr>, [])"

text \<open>The state with the calls made so far.\<close>

definition selection_step :: "msg_selection \<times> selection_call list \<Rightarrow> selection_event \<Rightarrow> msg_selection \<times> selection_call list" where
  "selection_step w e = (let (s, calls) = selection_handle e (fst w) in (auto_exit s, snd w @ calls))"

section \<open>Only what was picked is deleted\<close>

fun id_of :: "chat_message \<Rightarrow> string set" where
  "id_of m = (if no_id m then {} else {the (cm_message_id m)})"

text \<open>The messages an event picks.\<close>

fun picked_by :: "selection_event \<Rightarrow> string set" where
  "picked_by (Toggle i) = {i}"
| "picked_by (EnterMode m) = id_of m"
| "picked_by (AskSingle m) = id_of m"
| "picked_by (TextSelected cd rows a f) = (case selection_range rows a f of None \<Rightarrow> {} | Some ids \<Rightarrow> set ids)"
| "picked_by _ = {}"

definition picked :: "selection_event list \<Rightarrow> string set" where
  "picked es = \<Union> (picked_by ` set es)"

fun requested :: "selection_call list \<Rightarrow> string list list" where
  "requested [] = []"
| "requested (DeleteMessages ch ids # r) = ids # requested r"
| "requested (WriteClipboard t # r) = requested r"

definition ids_ok :: "string set \<Rightarrow> string list \<Rightarrow> bool" where
  "ids_ok P ids \<longleftrightarrow> ids \<noteq> [] \<and> distinct ids \<and> set ids \<subseteq> P"

definition selection_ok :: "string set \<Rightarrow> msg_selection \<times> selection_call list \<Rightarrow> bool" where
  "selection_ok P w \<longleftrightarrow>
     (let s = fst w
      in distinct (sl_ids s) \<and> set (sl_ids s) \<subseteq> P \<and> (sl_mode s \<longrightarrow> sl_ids s \<noteq> [])
         \<and> (case sl_confirm s of None \<Rightarrow> True | Some ids \<Rightarrow> ids_ok P ids)
         \<and> length (sl_inflight s) = (if sl_isDeletingRef s then 1 else 0) \<and> sl_isDeleting s = sl_isDeletingRef s
         \<and> list_all (ids_ok P) (requested (snd w))
         \<and> distinct (map cm_message_id (sl_quotes s)) \<and> list_all (\<lambda>m. \<not> no_id m) (sl_quotes s))"

lemma requested_append [simp]: "requested (a @ b) = requested a @ requested b"
  by (induction a rule: requested.induct) simp_all

lemma range_distinct: "selection_range rows a f = Some ids \<Longrightarrow> distinct ids \<and> ids \<noteq> []"
  by (auto simp: selection_range_def Let_def split: option.splits if_splits)

lemma ids_ok_mono: "ids_ok P ids \<Longrightarrow> P \<subseteq> Q \<Longrightarrow> ids_ok Q ids"
  by (auto simp: ids_ok_def)

lemma auto_exit_fields [simp]:
  "sl_ids (auto_exit s) = sl_ids s" "sl_confirm (auto_exit s) = sl_confirm s" "sl_isDeleting (auto_exit s) = sl_isDeleting s"
  "sl_isDeletingRef (auto_exit s) = sl_isDeletingRef s" "sl_inflight (auto_exit s) = sl_inflight s"
  "sl_quotes (auto_exit s) = sl_quotes s" "sl_mode (auto_exit s) \<longleftrightarrow> sl_mode s \<and> sl_ids s \<noteq> []"
  by (auto simp: auto_exit_def)

lemma selection_ok_mono: "selection_ok P w \<Longrightarrow> P \<subseteq> Q \<Longrightarrow> selection_ok Q w"
  unfolding selection_ok_def Let_def
  by (auto simp: list_all_iff split: option.splits intro: ids_ok_mono)

lemma selection_step_ok:
  assumes "selection_ok P w"
  shows "selection_ok (P \<union> picked_by e) (selection_step w e)"
proof -
  have Q: "selection_ok (P \<union> picked_by e) w" by (rule selection_ok_mono [OF assms]) simp
  obtain s log where w: "w = (s, log)" by (cases w)
  show ?thesis
  proof (cases e)
    case (TextSelected cd rows a f)
    then show ?thesis
      using Q range_distinct [of rows a f]
      by (auto simp: w selection_ok_def selection_step_def textSelectionChange_def split: option.splits)
  next
    case Confirm
    then show ?thesis
      using Q by (auto simp: w selection_ok_def selection_step_def confirmDelete_def split: option.splits)
  next
    case (DeleteReply ok)
    then show ?thesis
      using Q by (cases "sl_inflight s") (auto simp: w selection_ok_def selection_step_def confirmDelete_done_def exitSelectionMode_def split: if_splits)
  next
    case (CiteMessage m)
    then show ?thesis
      using Q by (auto simp: w selection_ok_def selection_step_def handleCite_def list_ex_iff)
  next
    case (DropQuote i)
    then show ?thesis
      using Q by (auto simp: w selection_ok_def selection_step_def removePendingQuote_def list_all_iff distinct_map_filter)
  qed (use Q in \<open>auto simp: w selection_ok_def selection_step_def ids_ok_def toggleMsgSelection_def enterSelectionMode_def
      exitSelectionMode_def handleMessageContextMenu_def handleSingleDelete_def handleBulkDelete_def handleTouchStart_def
      longPressFires_def cancelLongPress_def switch_conversation_def split: option.splits if_splits\<close>)
qed

interpretation selecting: event_machine "\<lambda>(P, w) e. (P \<union> picked_by e, selection_step w e)" "\<lambda>(P, w). selection_ok P w"
  by unfold_locales (simp add: split_beta selection_step_ok)

lemma selecting_run: "foldl (\<lambda>(P, w) e. (P \<union> picked_by e, selection_step w e)) (P, w) es = (P \<union> picked es, foldl selection_step w es)"
  by (induction es arbitrary: P w) (auto simp: picked_def)

abbreviation selection_run :: "selection_event list \<Rightarrow> int option \<Rightarrow> int option \<Rightarrow> msg_selection \<times> selection_call list" where
  "selection_run es ch dm \<equiv> foldl selection_step (fresh_selection ch dm, []) es"

lemma selection_run_ok: "selection_ok (picked es) (selection_run es ch dm)"
proof -
  have "selection_ok {} (fresh_selection ch dm, [])" by (simp add: selection_ok_def fresh_selection_def)
  then show ?thesis using selecting.run_inv [of "({}, (fresh_selection ch dm, []))" es] by (simp add: selecting_run)
qed

text \<open>
  C31: Through every sequence of events each deletion request names at least one message, none twice, and only
  messages the user picked, by click, menu or text selection; at most one request is waiting for its reply;
  and the selection mode is never left on with nothing selected.
\<close>

theorem deletes_only_picked:
  "list_all (ids_ok (picked es)) (requested (snd (selection_run es ch dm)))
   \<and> length (sl_inflight (fst (selection_run es ch dm))) \<le> 1
   \<and> \<not> (sl_mode (fst (selection_run es ch dm)) \<and> sl_ids (fst (selection_run es ch dm)) = [])
   \<and> distinct (map cm_message_id (sl_quotes (fst (selection_run es ch dm))))"
  using selection_run_ok [of es ch dm] by (auto simp: selection_ok_def Let_def)

section \<open>Selecting text over several messages\<close>

text \<open>
  Selecting text from inside one message to inside another one picks exactly the messages from the one to
  the other, whichever way the selection was made, provided the rows have different messages; and nothing is
  picked when the ends are in the same message or outside of messages.
\<close>

theorem range_selection_exact:
  assumes "distinct rows" "[] \<notin> set rows" "i < j" "j < length rows"
  shows "selection_range rows (Some (rows ! i)) (Some (rows ! j)) = Some (set_of_list (take (j + 1 - i) (drop i rows)))
    \<and> selection_range rows (Some (rows ! j)) (Some (rows ! i)) = Some (set_of_list (take (j + 1 - i) (drop i rows)))
    \<and> selection_range rows (Some (rows ! i)) (Some (rows ! i)) = None
    \<and> set (set_of_list (take (j + 1 - i) (drop i rows))) = {rows ! k | k. i \<le> k \<and> k \<le> j}"
proof -
  have idx: "index_of rows (rows ! i) = Some i" "index_of rows (rows ! j) = Some j"
    using assms by (simp_all add: index_of_nth)
  have mem: "rows ! k \<in> set rows" if "k \<le> j" for k using that assms(4) by simp
  have "rows ! i \<noteq> rows ! j" using assms by (simp add: nth_eq_iff_index_eq)
  moreover have "rows ! k \<noteq> []" if "k \<le> j" for k using mem [OF that] assms(2) by metis
  ultimately have ne: "rows ! i \<noteq> rows ! j" "rows ! i \<noteq> []" "rows ! j \<noteq> []" using assms(3) by simp_all
  let ?seg = "map ((!) rows) [i..<Suc j]"
  have seg: "?seg = take (j + 1 - i) (drop i rows)"
    using assms(3,4) by (intro nth_equalityI) (auto simp: nth_append simp del: upt_Suc)
  have keep: "filter (\<lambda>r. r \<noteq> []) ?seg = ?seg"
    using \<open>\<And>k. k \<le> j \<Longrightarrow> rows ! k \<noteq> []\<close> by (auto simp: filter_id_conv simp del: upt_Suc)
  have set_seg: "set ?seg = {rows ! k | k. i \<le> k \<and> k \<le> j}" by (auto simp: less_Suc_eq_le simp del: upt_Suc)
  have "{rows ! i, rows ! j} \<subseteq> set (set_of_list ?seg)" using assms(3) by (auto simp del: upt_Suc)
  then have "card {rows ! i, rows ! j} \<le> length (set_of_list ?seg)"
    using distinct_card [of "set_of_list ?seg"] card_mono [of "set (set_of_list ?seg)"] by (metis distinct_set_of_list List.finite_set)
  then have two: "2 \<le> length (set_of_list ?seg)" using ne(1) by simp
  have mm: "min i j = i" "max i j = j" "min j i = i" "max j i = j" using assms(3) by simp_all
  have range: "selection_range rows (Some (rows ! i)) (Some (rows ! j)) = Some (set_of_list ?seg)"
    "selection_range rows (Some (rows ! j)) (Some (rows ! i)) = Some (set_of_list ?seg)"
    using ne ne(1) [symmetric] two idx
    by (simp_all only: selection_range_def prod.case option.case idx mm keep Let_def if_True if_False simp_thms)
  show ?thesis using range set_seg unfolding seg by (simp add: selection_range_def)
qed

theorem range_selection_exact_witness:
  "selection_range [''m1'', ''m2'', ''m3''] (Some ''m3'') (Some ''m2'') = Some [''m2'', ''m3'']"
proof -
  have "distinct [''m1'', ''m2'', ''m3'']" "[] \<notin> set [''m1'', ''m2'', ''m3'']" "1 < (2 :: nat)" "2 < length [''m1'', ''m2'', ''m3'']" by simp_all
  from range_selection_exact [OF this] show ?thesis by (simp add: set_of_list_def set_add_def)
qed

section \<open>Copying\<close>

lemma no_tags: "CHR ''<'' \<notin> set s \<Longrightarrow> replace_all match_any_tag s = s"
  by (rule replace_all_none) (auto simp: match_any_tag_def Let_def suffix_def split: list.splits)

text \<open>
  The text that is copied from a message whose draft was only escaped is the draft without the white space
  around it, with all its signs.
\<close>

theorem copy_gives_typed_text: "copy_text (escape_markup draft) = trim draft"
proof -
  have "CHR ''<'' \<notin> set (escape_markup draft)" using no_angle_escape [of draft] by (simp add: no_angle_def)
  then show ?thesis by (simp add: copy_text_def no_tags) (simp add: escape_markup_esc decode_escaped)
qed

section \<open>What goes wrong\<close>

text \<open>Line breaks of a message are tags, which copying strips: the lines are glued together.\<close>

lemma copied_lines_glued: "copy_text (markdownToHtml [CHR ''a'', CHR 0x0A, CHR ''b'']) = ''ab''"
  by code_simp

definition some_message :: "string \<Rightarrow> chat_message" where
  "some_message i =
     \<lparr>cm_sender_session = None, cm_sender_name = ''Alice'', cm_sender_hash = None, cm_body = ''x'', cm_channel_id = 1,
      cm_is_own = False, cm_dm_session = None, cm_message_id = Some i, cm_timestamp = None, cm_is_legacy = None,
      cm_edited_at = None, cm_pinned = None, cm_pinned_by = None, cm_pinned_at = None, cm_plugin_name = None,
      cm_plugin_components = None\<rparr>"

text \<open>
  The question whether to delete stays open when the conversation changes, and the request names the channel
  that is selected when it is answered: messages of channel 1 are asked to be deleted in channel 2.
\<close>

lemma deletion_in_other_channel:
  "snd (selection_run [AskSingle (some_message ''m1''), ConversationChanged (Some 2) None, Confirm] (Some 1) None) = [DeleteMessages 2 [''m1'']]"
  by code_simp

text \<open>
  A second touch replaces the reference to the timer of the first without stopping it: the menu of the first
  message opens although all touches ended.
\<close>

lemma second_touch_leaks_timer:
  "sl_menu (fst (selection_run [TouchStart (some_message ''m1''), TouchStart (some_message ''m2''), TouchEnd, TouchEnd, LongPress 0 5 5] (Some 1) None))
    = Some (5, 5, some_message ''m1'')"
  by code_simp

end
