(* ===== verification/SavedLists.thy ===== *)
theory SavedLists
  imports AppTypes
begin

text \<open>
  Lists kept in files: the friends (\<open>friendsStorage.ts\<close>), the saved servers with their passwords
  (\<open>serverStorage.ts\<close>), and the encoding of avatars (\<open>utils/base64.ts\<close>).

  An operation reads the whole list, and later writes a whole list; between the two other operations may run.
  Through every such interleaving no two entries are the same friend (\<open>friends_stay_distinct\<close>), but an
  operation can undo another, which the last section shows.  The bytes of an avatar come back from its
  encoding (\<open>avatar_bytes_come_back\<close>).
\<close>

section \<open>Base 64\<close>

definition b64_char :: "nat \<Rightarrow> char" where
  "b64_char n =
     (if n < 26 then char_of (65 + n) else if n < 52 then char_of (71 + n) else if n < 62 then char_of (n - 4)
      else if n = 62 then CHR ''+'' else CHR ''/'')"

definition b64_value :: "char \<Rightarrow> nat option" where
  "b64_value c =
     (let n = (of_char c :: nat)
      in if 65 \<le> n \<and> n \<le> 90 then Some (n - 65) else if 97 \<le> n \<and> n \<le> 122 then Some (n - 71)
         else if 48 \<le> n \<and> n \<le> 57 then Some (n + 4) else if c = CHR ''+'' then Some 62 else if c = CHR ''/'' then Some 63 else None)"

text \<open>\<open>btoa\<close> over bytes.\<close>

fun bytesToBase64 :: "nat list \<Rightarrow> string" where
  "bytesToBase64 (a # b # c # r) =
     [b64_char (a div 4), b64_char (a mod 4 * 16 + b div 16), b64_char (b mod 16 * 4 + c div 64), b64_char (c mod 64)]
     @ bytesToBase64 r"
| "bytesToBase64 [a, b] = [b64_char (a div 4), b64_char (a mod 4 * 16 + b div 16), b64_char (b mod 16 * 4), CHR ''='']"
| "bytesToBase64 [a] = [b64_char (a div 4), b64_char (a mod 4 * 16), CHR ''='', CHR ''='']"
| "bytesToBase64 [] = []"

text \<open>
  \<open>atob\<close>: white space is left out, up to two signs of equality at the end of a text of full length too; a text
  of a length that no bytes have, or with another character, is refused; bits that make no byte are dropped.
\<close>

fun sextets_to_bytes :: "nat list \<Rightarrow> nat list option" where
  "sextets_to_bytes (p # q # r # s # t) =
     map_option (\<lambda>bs. [p * 4 + q div 16, q mod 16 * 16 + r div 4, r mod 4 * 64 + s] @ bs) (sextets_to_bytes t)"
| "sextets_to_bytes [p, q, r] = Some [p * 4 + q div 16, q mod 16 * 16 + r div 4]"
| "sextets_to_bytes [p, q] = Some [p * 4 + q div 16]"
| "sextets_to_bytes [p] = None"
| "sextets_to_bytes [] = Some []"

definition drop_padding :: "string \<Rightarrow> string" where
  "drop_padding s =
     (if length s mod 4 = 0
      then (let t = (if s \<noteq> [] \<and> last s = CHR ''='' then butlast s else s)
            in if t \<noteq> s \<and> t \<noteq> [] \<and> last t = CHR ''='' then butlast t else t)
      else s)"

definition is_ascii_ws :: "char \<Rightarrow> bool" where
  "is_ascii_ws c \<longleftrightarrow> (of_char c :: nat) \<in> {9, 10, 12, 13, 32}"

definition base64ToBytes :: "string \<Rightarrow> nat list option" where
  "base64ToBytes b64 =
     (let vs = map b64_value (drop_padding (filter (\<lambda>c. \<not> is_ascii_ws c) b64))
      in if list_all (\<lambda>v. v \<noteq> None) vs then sextets_to_bytes (map the vs) else None)"

section \<open>Friends\<close>

record friend =
  fr_id :: string
  fr_userName :: string
  fr_userHash :: "string option"
  fr_serverId :: "string option"
  fr_serverLabel :: "string option"
  fr_addedAt :: int
  fr_avatar :: "string option"
  fr_avatarSize :: "nat option"
  fr_avatarUpdatedAt :: "int option"

record friend_input =
  fi_userName :: string
  fi_userHash :: "string option"
  fi_serverId :: "string option"
  fi_serverLabel :: "string option"

definition has_text :: "string option \<Rightarrow> bool" where
  "has_text v \<longleftrightarrow> v \<noteq> None \<and> v \<noteq> Some []"

text \<open>The three fields that say who it is: hash, server and name.\<close>

type_synonym identity = "string option \<times> string option \<times> string"

definition isSameFriend :: "identity \<Rightarrow> identity \<Rightarrow> bool" where
  "isSameFriend a b =
     (if has_text (fst a) \<and> has_text (fst b) then fst a = fst b
      else if has_text (fst a) \<or> has_text (fst b) then False
      else fst (snd a) = fst (snd b) \<and> snd (snd a) = snd (snd b))"

definition friend_identity :: "friend \<Rightarrow> identity" where
  "friend_identity f = (fr_userHash f, fr_serverId f, fr_userName f)"

definition input_identity :: "friend_input \<Rightarrow> identity" where
  "input_identity i = (fi_userHash i, fi_serverId i, fi_userName i)"

definition hasFriend :: "identity \<Rightarrow> friend list \<Rightarrow> bool" where
  "hasFriend i fs \<longleftrightarrow> list_ex (\<lambda>f. isSameFriend (friend_identity f) i) fs"

definition new_friend :: "friend_input \<Rightarrow> string \<Rightarrow> int \<Rightarrow> friend" where
  "new_friend i uuid now =
     \<lparr>fr_id = uuid, fr_userName = fi_userName i, fr_userHash = fi_userHash i, fr_serverId = fi_serverId i,
      fr_serverLabel = fi_serverLabel i, fr_addedAt = now, fr_avatar = None, fr_avatarSize = None, fr_avatarUpdatedAt = None\<rparr>"

text \<open>The list an operation writes when it has read a list; \<open>None\<close> when it writes nothing.\<close>

definition addFriend :: "friend_input \<Rightarrow> string \<Rightarrow> int \<Rightarrow> friend list \<Rightarrow> friend list option" where
  "addFriend i uuid now fs =
     (case List.find (\<lambda>f. isSameFriend (friend_identity f) (input_identity i)) fs of
        Some f \<Rightarrow> None
      | None \<Rightarrow> Some (fs @ [new_friend i uuid now]))"

definition removeFriend :: "string \<Rightarrow> friend list \<Rightarrow> friend list option" where
  "removeFriend i fs = (let next = filter (\<lambda>f. fr_id f \<noteq> i) fs in if length next \<noteq> length fs then Some next else None)"

definition updateFriendAvatar :: "string \<Rightarrow> nat list \<Rightarrow> int \<Rightarrow> friend list \<Rightarrow> friend list option" where
  "updateFriendAvatar i bytes now fs =
     (case index_of (map fr_id fs) i of
        None \<Rightarrow> None
      | Some idx \<Rightarrow>
          (let current = fs ! idx; b64 = bytesToBase64 bytes
           in if bytes = [] then None
              else if fr_avatarSize current = Some (length bytes) \<and> fr_avatar current \<noteq> None then None
              else if fr_avatar current = Some b64 then None
              else Some (fs[idx := current\<lparr>fr_avatar := Some b64, fr_avatarSize := Some (length bytes), fr_avatarUpdatedAt := Some now\<rparr>])))"

datatype friend_op =
    AddFriend friend_input string int
  | RemoveFriend string
  | UpdateAvatar string "nat list" int

fun friend_edit :: "friend_op \<Rightarrow> friend list \<Rightarrow> friend list option" where
  "friend_edit (AddFriend i uuid now) fs = addFriend i uuid now fs"
| "friend_edit (RemoveFriend i) fs = removeFriend i fs"
| "friend_edit (UpdateAvatar i bytes now) fs = updateFriendAvatar i bytes now fs"

section \<open>Operations that overlap\<close>

text \<open>
  An operation waits for its read and then for its write; \<open>fw_changes\<close> counts the events that tell the views
  about a change.
\<close>

datatype friend_task = Reading friend_op | Writing "friend list"

record friend_world =
  fw_disk :: "friend list"
  fw_tasks :: "friend_task list"
  fw_changes :: nat

datatype friend_event = CallFriends friend_op | Proceed nat

definition drop_nth :: "nat \<Rightarrow> 'a list \<Rightarrow> 'a list" where
  "drop_nth k xs = take k xs @ drop (Suc k) xs"

fun friend_step :: "friend_world \<Rightarrow> friend_event \<Rightarrow> friend_world" where
  "friend_step w (CallFriends op) = w\<lparr>fw_tasks := fw_tasks w @ [Reading op]\<rparr>"
| "friend_step w (Proceed k) =
     (if length (fw_tasks w) \<le> k then w
      else case fw_tasks w ! k of
             Reading op \<Rightarrow>
               (case friend_edit op (fw_disk w) of
                  None \<Rightarrow> w\<lparr>fw_tasks := drop_nth k (fw_tasks w)\<rparr>
                | Some fs \<Rightarrow> w\<lparr>fw_tasks := (fw_tasks w)[k := Writing fs]\<rparr>)
           | Writing fs \<Rightarrow> w\<lparr>fw_disk := fs, fw_tasks := drop_nth k (fw_tasks w), fw_changes := fw_changes w + 1\<rparr>)"

section \<open>Servers and passwords\<close>

record saved_server =
  sv_id :: string
  sv_label :: string
  sv_host :: string
  sv_port :: int
  sv_username :: string
  sv_cert_label :: "string option"
  sv_favorite :: "bool option"      \<comment> \<open>missing in old files\<close>

record server_files =
  sf_servers :: "saved_server list option"
  sf_passwords :: "(string, string) jmap option"

definition getSavedServers :: "server_files \<Rightarrow> saved_server list" where
  "getSavedServers w = map (\<lambda>s. s\<lparr>sv_favorite := Some (or_else (sv_favorite s) False)\<rparr>) (or_else (sf_servers w) [])"

definition addServer :: "saved_server \<Rightarrow> string \<Rightarrow> server_files \<Rightarrow> server_files" where
  "addServer s uuid w = w\<lparr>sf_servers := Some (s\<lparr>sv_id := uuid\<rparr> # getSavedServers w)\<rparr>"

definition getServerPassword :: "string \<Rightarrow> server_files \<Rightarrow> string option" where
  "getServerPassword i w = map_get (or_else (sf_passwords w) []) i"

definition setServerPassword :: "string \<Rightarrow> string option \<Rightarrow> server_files \<Rightarrow> server_files" where
  "setServerPassword i pw w =
     (let m = or_else (sf_passwords w) []
      in w\<lparr>sf_passwords := Some (case pw of Some p \<Rightarrow> if p \<noteq> [] then map_set i p m else map_del i m | None \<Rightarrow> map_del i m)\<rparr>)"

definition removeServerPassword :: "string \<Rightarrow> server_files \<Rightarrow> server_files" where
  "removeServerPassword i w = setServerPassword i None w"

definition removeServer :: "string \<Rightarrow> server_files \<Rightarrow> server_files" where
  "removeServer i w = removeServerPassword i (w\<lparr>sf_servers := Some (filter (\<lambda>s. sv_id s \<noteq> i) (getSavedServers w))\<rparr>)"

text \<open>The fields of a patch that are there.\<close>

record server_patch =
  sp_label :: "string option"
  sp_host :: "string option"
  sp_port :: "int option"
  sp_username :: "string option"
  sp_cert_label :: "string option option"
  sp_favorite :: "bool option"

definition updateServer :: "string \<Rightarrow> server_patch \<Rightarrow> server_files \<Rightarrow> server_files" where
  "updateServer i p w =
     (let servers = getSavedServers w
      in case index_of (map sv_id servers) i of
           None \<Rightarrow> w
         | Some idx \<Rightarrow>
             w\<lparr>sf_servers := Some (servers[idx := (servers ! idx)\<lparr>sv_label := or_else (sp_label p) (sv_label (servers ! idx)),
                 sv_host := or_else (sp_host p) (sv_host (servers ! idx)), sv_port := or_else (sp_port p) (sv_port (servers ! idx)),
                 sv_username := or_else (sp_username p) (sv_username (servers ! idx)),
                 sv_cert_label := or_else (sp_cert_label p) (sv_cert_label (servers ! idx)),
                 sv_favorite := or_opt (sp_favorite p) (sv_favorite (servers ! idx))\<rparr>])\<rparr>)"

section \<open>Nobody is in the list twice\<close>

definition no_twins :: "friend list \<Rightarrow> bool" where
  "no_twins fs \<longleftrightarrow> sorted_wrt (\<lambda>a b. \<not> isSameFriend a b) (map friend_identity fs)"

lemma friend_edit_no_twins: "no_twins fs \<Longrightarrow> friend_edit op fs = Some gs \<Longrightarrow> no_twins gs"
proof (cases op)
  case (AddFriend i uuid now)
  assume fs: "no_twins fs" and "friend_edit op fs = Some gs"
  then have gs: "gs = fs @ [new_friend i uuid now]" and "\<forall>f \<in> set fs. \<not> isSameFriend (friend_identity f) (input_identity i)"
    by (auto simp: AddFriend addFriend_def find_None_iff split: option.splits)
  moreover have "friend_identity (new_friend i uuid now) = input_identity i"
    by (simp add: friend_identity_def new_friend_def input_identity_def)
  ultimately show ?thesis using fs by (simp add: no_twins_def sorted_wrt_append)
next
  case (RemoveFriend i)
  assume "no_twins fs" "friend_edit op fs = Some gs"
  then show ?thesis
    by (auto simp: RemoveFriend removeFriend_def no_twins_def Let_def sorted_wrt_map intro: sorted_wrt_filter split: if_splits)
next
  case (UpdateAvatar i bytes now)
  assume fs: "no_twins fs" and "friend_edit op fs = Some gs"
  then obtain idx a n u where idx: "index_of (map fr_id fs) i = Some idx"
    and gs: "gs = fs[idx := (fs ! idx)\<lparr>fr_avatar := a, fr_avatarSize := n, fr_avatarUpdatedAt := u\<rparr>]"
    by (auto simp: UpdateAvatar updateFriendAvatar_def Let_def split: option.splits if_splits)
  have "idx < length fs" using index_of_Some [OF idx] by simp
  then have "map friend_identity gs = map friend_identity fs"
    by (simp add: gs map_update friend_identity_def list_update_same_conv)
  then show ?thesis using fs by (simp add: no_twins_def)
qed

definition friends_ok :: "friend_world \<Rightarrow> bool" where
  "friends_ok w \<longleftrightarrow> no_twins (fw_disk w) \<and> (\<forall>fs. Writing fs \<in> set (fw_tasks w) \<longrightarrow> no_twins fs)"

lemma set_drop_nth: "set (drop_nth k xs) \<subseteq> set xs"
  by (auto simp: drop_nth_def dest: in_set_takeD in_set_dropD)

interpretation friends: event_machine friend_step friends_ok
proof
  fix w e
  assume ok: "friends_ok w"
  show "friends_ok (friend_step w e)"
  proof (cases e)
    case (CallFriends op)
    then show ?thesis using ok by (simp add: friends_ok_def)
  next
    case (Proceed k)
    show ?thesis
    proof (cases "k < length (fw_tasks w)")
      case True
      then have mem: "fw_tasks w ! k \<in> set (fw_tasks w)" by simp
      show ?thesis
      proof (cases "fw_tasks w ! k")
        case (Reading op)
        show ?thesis
        proof (cases "friend_edit op (fw_disk w)")
          case None
          then show ?thesis using ok True Reading Proceed set_drop_nth [of k "fw_tasks w"] by (auto simp: friends_ok_def)
        next
          case (Some fs)
          then have "no_twins fs" using ok friend_edit_no_twins by (auto simp: friends_ok_def)
          then show ?thesis using ok True Reading Proceed Some
            by (auto simp: friends_ok_def dest!: set_update_subset_insert [THEN subsetD])
        qed
      next
        case (Writing fs)
        then have "no_twins fs" using ok mem by (auto simp: friends_ok_def)
        then show ?thesis using ok True Writing Proceed set_drop_nth [of k "fw_tasks w"] by (auto simp: friends_ok_def)
      qed
    qed (use ok Proceed in simp)
  qed
qed

text \<open>
  C33: However operations on the friends overlap, no two entries of the saved list are the same friend: neither
  the same certificate, nor, without certificates, the same name on the same server.
\<close>

theorem friends_stay_distinct:
  "no_twins (fw_disk (foldl friend_step \<lparr>fw_disk = [], fw_tasks = [], fw_changes = 0\<rparr> es))"
proof -
  have "friends_ok \<lparr>fw_disk = [], fw_tasks = [], fw_changes = 0\<rparr>" by (simp add: friends_ok_def no_twins_def)
  from friends.run_inv [OF this, of es] show ?thesis by (simp add: friends_ok_def)
qed

section \<open>Avatars come back\<close>

fun sextets :: "nat list \<Rightarrow> nat list" where
  "sextets (a # b # c # r) = [a div 4, a mod 4 * 16 + b div 16, b mod 16 * 4 + c div 64, c mod 64] @ sextets r"
| "sextets [a, b] = [a div 4, a mod 4 * 16 + b div 16, b mod 16 * 4]"
| "sextets [a] = [a div 4, a mod 4 * 16]"
| "sextets [] = []"

fun padding :: "nat list \<Rightarrow> string" where
  "padding (a # b # c # r) = padding r"
| "padding [a, b] = ''=''"
| "padding [a] = ''==''"
| "padding [] = []"

lemma encoded_sextets: "bytesToBase64 bs = map b64_char (sextets bs) @ padding bs"
  by (induction bs rule: bytesToBase64.induct) simp_all

lemma join_parts: "m < k \<Longrightarrow> 0 < k \<Longrightarrow> (x * k + m) div k = (x :: nat)" "m < k \<Longrightarrow> (x * k + m) mod k = (m :: nat)"
  by simp_all

lemma sextets_decoded: "\<forall>b \<in> set bs. b < 256 \<Longrightarrow> sextets_to_bytes (sextets bs) = Some bs"
proof (induction bs rule: sextets.induct)
  case (1 a b c r)
  have small: "b div 16 < 16" "c div 64 < 4" using 1 by (simp_all add: less_mult_imp_div_less)
  have "(a mod 4 * 16 + b div 16) div 16 = a mod 4" "(a mod 4 * 16 + b div 16) mod 16 = b div 16"
    "(b mod 16 * 4 + c div 64) div 4 = b mod 16" "(b mod 16 * 4 + c div 64) mod 4 = c div 64"
    by (rule join_parts; use small in simp)+
  moreover have "a div 4 * 4 + a mod 4 = a" "b div 16 * 16 + b mod 16 = b" "c div 64 * 64 + c mod 64 = c"
    by (rule div_mult_mod_eq)+
  ultimately show ?case using 1 by simp
next
  case (2 a b)
  have small: "b div 16 < 16" using 2 by (simp add: less_mult_imp_div_less)
  have "(a mod 4 * 16 + b div 16) div 16 = a mod 4" "(a mod 4 * 16 + b div 16) mod 16 = b div 16"
    by (rule join_parts; use small in simp)+
  moreover have "a div 4 * 4 + a mod 4 = a" "b div 16 * 16 + b mod 16 = b" by (rule div_mult_mod_eq)+
  ultimately show ?case by simp
next
  case (3 a)
  have "a div 4 * 4 + a mod 4 = a" by (rule div_mult_mod_eq)
  then show ?case by simp
qed simp

lemma sextets_small: "\<forall>b \<in> set bs. b < 256 \<Longrightarrow> \<forall>n \<in> set (sextets bs). n < 64"
proof (induction bs rule: sextets.induct)
  case (1 a b c r)
  have "a div 4 < 64" "b div 16 < 16" "c div 64 < 4" using 1 by (simp_all add: less_mult_imp_div_less)
  moreover have "a mod 4 < 4" "b mod 16 < 16" "c mod 64 < 64" by simp_all
  ultimately have "a mod 4 * 16 + b div 16 < 64" "b mod 16 * 4 + c div 64 < 64" "a div 4 < 64" by linarith+
  then show ?case using 1 by simp
next
  case (2 a b)
  have "a div 4 < 64" "b div 16 < 16" using 2 by (simp_all add: less_mult_imp_div_less)
  moreover have "a mod 4 < 4" "b mod 16 < 16" by simp_all
  ultimately have "a mod 4 * 16 + b div 16 < 64" "b mod 16 * 4 < 64" "a div 4 < 64" by linarith+
  then show ?case by simp
next
  case (3 a)
  have "a div 4 < 64" using 3 by (simp add: less_mult_imp_div_less)
  moreover have "a mod 4 * 16 < 64" using mod_less_divisor [of 4 a] by linarith
  ultimately show ?case by simp
qed simp

lemma b64_cases:
  assumes "n < 64"
  obtains "n < 26" "of_char (b64_char n) = 65 + n" | "26 \<le> n" "n < 52" "of_char (b64_char n) = 71 + n"
    | "52 \<le> n" "n < 62" "of_char (b64_char n) = n - 4" | "n = 62" "b64_char n = CHR ''+''" | "n = 63" "b64_char n = CHR ''/''"
  using assms by (cases "n < 26"; cases "n < 52"; cases "n < 62"; cases "n = 62") (auto simp: b64_char_def)

lemma b64_read: "n < 64 \<Longrightarrow> b64_value (b64_char n) = Some n"
  by (erule b64_cases, simp_all add: b64_value_def Let_def) arith

lemma b64_plain: "n < 64 \<Longrightarrow> b64_char n \<noteq> CHR ''='' \<and> \<not> is_ascii_ws (b64_char n)"
proof -
  have eq: "(of_char (CHR ''='') :: nat) = 61" by simp
  show "n < 64 \<Longrightarrow> b64_char n \<noteq> CHR ''='' \<and> \<not> is_ascii_ws (b64_char n)"
    by (erule b64_cases) (auto simp: is_ascii_ws_def dest!: arg_cong [where f = "of_char :: char \<Rightarrow> nat"])
qed

lemma encoded_length: "(length (sextets bs) + length (padding bs)) mod 4 = 0"
  by (induction bs rule: sextets.induct) (simp_all add: mod_Suc)

lemma padding_cases: "padding bs \<in> {[], ''='', ''==''} \<and> (sextets bs = [] \<longrightarrow> padding bs = [])"
  by (induction bs rule: sextets.induct) auto

lemma padding_dropped:
  assumes "\<forall>b \<in> set bs. b < 256"
  shows "drop_padding (bytesToBase64 bs) = map b64_char (sextets bs)"
proof -
  let ?s = "map b64_char (sextets bs)"
  have ne: "?s \<noteq> [] \<Longrightarrow> last ?s \<noteq> CHR ''=''"
    using sextets_small [OF assms] b64_plain by (simp add: last_map)
  have "length (?s @ padding bs) mod 4 = 0" using encoded_length by simp
  then show ?thesis
    using padding_cases [of bs] ne unfolding encoded_sextets drop_padding_def
    by (auto simp: Let_def butlast_append)
qed

text \<open>The bytes of every avatar come back from the text it is saved as.\<close>

theorem avatar_bytes_come_back:
  assumes "\<forall>b \<in> set bs. b < 256"
  shows "base64ToBytes (bytesToBase64 bs) = Some bs"
proof -
  let ?s = "map b64_char (sextets bs)"
  have small: "\<forall>n \<in> set (sextets bs). n < 64" by (rule sextets_small [OF assms])
  have "padding bs \<in> {[], ''='', ''==''}" using padding_cases by blast
  then have "\<forall>c \<in> set (bytesToBase64 bs). \<not> is_ascii_ws c"
    unfolding encoded_sextets using small b64_plain by (auto simp: is_ascii_ws_def)
  then have "filter (\<lambda>c. \<not> is_ascii_ws c) (bytesToBase64 bs) = bytesToBase64 bs" by (simp add: filter_id_conv)
  then have "base64ToBytes (bytesToBase64 bs) =
      (if list_all (\<lambda>v. v \<noteq> None) (map b64_value ?s) then sextets_to_bytes (map the (map b64_value ?s)) else None)"
    by (simp add: base64ToBytes_def padding_dropped [OF assms] Let_def)
  moreover have "map b64_value ?s = map Some (sextets bs)" using small b64_read by simp
  moreover have "map the (map Some (sextets bs)) = sextets bs" by (simp add: o_def)
  moreover have "list_all (\<lambda>v. v \<noteq> None) (map Some (sextets bs))" by (simp add: list_all_iff)
  ultimately show ?thesis using sextets_decoded [OF assms] by (simp only: if_True)
qed

theorem avatar_bytes_come_back_witness: "base64ToBytes (bytesToBase64 [0, 255, 17, 128]) = Some [0, 255, 17, 128]"
  by (rule avatar_bytes_come_back) simp

section \<open>Servers and their passwords\<close>

text \<open>A removed server is gone with its password; the others keep theirs.\<close>

lemma removed_server_forgotten:
  "i \<notin> sv_id ` set (getSavedServers (removeServer i w)) \<and> getServerPassword i (removeServer i w) = None
    \<and> getServerPassword j (removeServer i w) = (if j = i then None else getServerPassword j w)"
  by (auto simp: removeServer_def removeServerPassword_def setServerPassword_def getServerPassword_def getSavedServers_def Let_def)

lemma password_read_back:
  "getServerPassword i (setServerPassword i pw w) = (if has_text pw then pw else None)"
  by (auto simp: getServerPassword_def setServerPassword_def has_text_def Let_def split: option.split)

section \<open>What goes wrong\<close>

definition bob :: friend where
  "bob = new_friend \<lparr>fi_userName = ''Bob'', fi_userHash = Some ''b0b'', fi_serverId = None, fi_serverLabel = None\<rparr> ''1'' 0"

definition known_bob :: friend_world where
  "known_bob = \<lparr>fw_disk = [bob], fw_tasks = [], fw_changes = 0\<rparr>"

text \<open>Operations that overlap undo each other: of two friends added at the same time one is lost.\<close>

lemma overlapping_adds_lose_one:
  "map fr_userName (fw_disk (foldl friend_step known_bob
     [CallFriends (AddFriend \<lparr>fi_userName = ''Ann'', fi_userHash = Some ''a'', fi_serverId = None, fi_serverLabel = None\<rparr> ''2'' 0),
      CallFriends (AddFriend \<lparr>fi_userName = ''Cid'', fi_userHash = Some ''c'', fi_serverId = None, fi_serverLabel = None\<rparr> ''3'' 0),
      Proceed 0, Proceed 1, Proceed 0, Proceed 0])) = [''Bob'', ''Cid'']"
  by code_simp

text \<open>
  The list is refreshed with new avatars in the background: a friend removed between the read and the write of
  such a refresh is back in the list.
\<close>

lemma removed_friend_returns:
  "map fr_userName (fw_disk (foldl friend_step known_bob
     [CallFriends (UpdateAvatar ''1'' [1, 2, 3] 5), Proceed 0, CallFriends (RemoveFriend ''1''), Proceed 1, Proceed 1, Proceed 0])) = [''Bob'']"
  by code_simp

text \<open>
  The comment says that nothing is done when the bytes are identical to what is cached: a new avatar of the same
  size as the old one is not saved either.
\<close>

lemma same_size_avatar_not_saved:
  "updateFriendAvatar ''1'' [9, 9, 9] 6 (the (updateFriendAvatar ''1'' [1, 2, 3] 5 [bob])) = None"
  by code_simp

end
