(* ===== verification/LiveDocBibtex.thy ===== *)
theory LiveDocBibtex
  imports SafeHtml JsRegex
begin

text \<open>
  The sources a live document cites: the items of \<open>components/chat/livedoc/liveDocCslTypes.ts\<close> with their
  helpers, and the converter from and to BibTeX of \<open>liveDocBibtex.ts\<close>.

  The readers keep a position in a text that only moves forward; here they take what is left of the text and
  return what they leave.  Two things come from outside: \<open>draw\<close>, the random letters of a generated key, and
  \<open>inh\<close>, what a lookup in a plain object finds among the members every object inherits
  (\<open>constructor\<close> for instance), given as text.  Years are printed as integers, which is exact up to
  \<open>2 ^ 53\<close>.

  A library of well-formed sources that is exported reads back as the same sources
  (\<open>exported_library_reads_back\<close>); the reader of a file consumes it to the end whatever it holds, each
  definition being total.
\<close>

section \<open>Sources\<close>

record csl_name =
  nm_family :: "string option"
  nm_given :: "string option"
  nm_literal :: "string option"

record csl_date =
  dt_date_parts :: "int list list option"
  dt_raw :: "string option"

record csl_item =
  it_id :: string
  it_type :: string
  it_title :: "string option"
  it_author :: "csl_name list option"
  it_editor :: "csl_name list option"
  it_issued :: "csl_date option"
  it_container_title :: "string option"
  it_collection_title :: "string option"
  it_publisher :: "string option"
  it_publisher_place :: "string option"
  it_edition :: "string option"
  it_volume :: "string option"
  it_issue :: "string option"
  it_page :: "string option"
  it_number :: "string option"
  it_URL :: "string option"
  it_DOI :: "string option"
  it_ISBN :: "string option"
  it_ISSN :: "string option"
  it_abstract :: "string option"
  it_note :: "string option"

definition blank_item :: "string \<Rightarrow> string \<Rightarrow> csl_item" where
  "blank_item i ty =
     \<lparr>it_id = i, it_type = ty, it_title = None, it_author = None, it_editor = None, it_issued = None,
      it_container_title = None, it_collection_title = None, it_publisher = None, it_publisher_place = None,
      it_edition = None, it_volume = None, it_issue = None, it_page = None, it_number = None, it_URL = None,
      it_DOI = None, it_ISBN = None, it_ISSN = None, it_abstract = None, it_note = None\<rparr>"

text \<open>A field that is absent and one that is empty are the same to the code.\<close>

definition present :: "string option \<Rightarrow> string" where
  "present v = or_else v []"

text \<open>\<open>item.issued?.["date-parts"]?.[0]?.[0]\<close>\<close>

fun head_opt :: "'a list \<Rightarrow> 'a option" where
  "head_opt [] = None"
| "head_opt (x # xs) = Some x"

definition first_year :: "csl_date option \<Rightarrow> int option" where
  "first_year d =
     Option.bind d (\<lambda>d. Option.bind (dt_date_parts d) (\<lambda>ps. Option.bind (head_opt ps) head_opt))"

definition id_char :: "char \<Rightarrow> bool" where
  "id_char c \<longleftrightarrow> is_digit c \<or> (let n = (of_char c :: nat) in 97 \<le> n \<and> n \<le> 122)"

definition makeSourceId :: "string \<Rightarrow> csl_name list option \<Rightarrow> csl_date option \<Rightarrow> string" where
  "makeSourceId draw author issued =
     (let first = Option.bind author head_opt;
          namePart = take 20 (filter id_char (to_lower
            (or_else (or_opt (Option.bind first nm_family) (Option.bind first nm_literal)) ''source'')));
          base = (if namePart = [] then ''source'' else namePart)
                 @ (case first_year issued of None \<Rightarrow> [] | Some y \<Rightarrow> show_int y)
      in base @ ''-'' @ draw)"

definition issuedYear :: "csl_item \<Rightarrow> string" where
  "issuedYear item =
     (case first_year (it_issued item) of None \<Rightarrow> [] | Some y \<Rightarrow> if y = 0 then [] else show_int y)"

text \<open>\<open>[n.family, n.given].filter(Boolean).join(", ")\<close>\<close>

fun join_text :: "string \<Rightarrow> string list \<Rightarrow> string" where
  "join_text sep [] = []"
| "join_text sep [s] = s"
| "join_text sep (s # t # r) = s @ sep @ join_text sep (t # r)"

definition family_given :: "csl_name \<Rightarrow> string" where
  "family_given n = join_text '', '' (filter (\<lambda>s. s \<noteq> []) [present (nm_family n), present (nm_given n)])"

definition primaryAuthor :: "csl_item \<Rightarrow> string" where
  "primaryAuthor item =
     (case or_opt (Option.bind (it_author item) head_opt) (Option.bind (it_editor item) head_opt) of
        None \<Rightarrow> []
      | Some a \<Rightarrow> if present (nm_literal a) \<noteq> [] then present (nm_literal a) else family_given a)"

definition sourceLabel :: "csl_item \<Rightarrow> string" where
  "sourceLabel item =
     (let who = (if primaryAuthor item \<noteq> [] then primaryAuthor item else or_else (it_title item) (it_id item));
          year = issuedYear item;
          title = (if present (it_title item) \<noteq> [] then '' - '' @ present (it_title item) else [])
      in if year \<noteq> [] then who @ '' ('' @ year @ '')'' @ title else who @ title)"

text \<open>
  \<open>split(/\s+and\s+/i)\<close>: the length of a separator at the start of a text, and the pieces between them.
\<close>

definition and_sep :: "string \<Rightarrow> nat option" where
  "and_sep s =
     (let w = takeWhile is_ws s; r = dropWhile is_ws s; v = takeWhile is_ws (drop 3 r)
      in if w \<noteq> [] \<and> to_lower (take 3 r) = ''and'' \<and> v \<noteq> [] then Some (length w + 3 + length v) else None)"

lemma and_sep_pos: "and_sep s = Some n \<Longrightarrow> 0 < n"
  by (auto simp: and_sep_def Let_def split: if_splits)

function split_and :: "string \<Rightarrow> string \<Rightarrow> string list" where
  "split_and cur [] = [rev cur]"
| "split_and cur (c # s) =
     (case and_sep (c # s) of
        None \<Rightarrow> split_and (c # cur) s
      | Some n \<Rightarrow> rev cur # split_and [] (drop n (c # s)))"
  by pat_completeness auto
termination by (relation "measure (length \<circ> snd)") (auto dest: and_sep_pos)

text \<open>\<open>split(/\s+/)\<close> of a text without white space at its ends.\<close>

fun word_split :: "string \<Rightarrow> string \<Rightarrow> string list" where
  "word_split cur [] = (if cur = [] then [] else [rev cur])"
| "word_split cur (c # s) =
     (if is_ws c then (if cur = [] then word_split [] s else rev cur # word_split [] s)
      else word_split (c # cur) s)"

definition name_of :: "string \<Rightarrow> csl_name" where
  "name_of p =
     (if CHR '','' \<in> set p
      then (let ps = map trim (take 2 (split_on (CHR '','') p))
            in \<lparr>nm_family = Some (hd ps), nm_given = Some (ps ! 1), nm_literal = None\<rparr>)
      else (let tokens = word_split [] p
            in if length tokens = 1 then \<lparr>nm_family = Some (hd tokens), nm_given = None, nm_literal = None\<rparr>
               else \<lparr>nm_family = Some (last tokens), nm_given = Some (join_text '' '' (butlast tokens)), nm_literal = None\<rparr>))"

definition parseAuthors :: "string \<Rightarrow> csl_name list" where
  "parseAuthors input =
     (let trimmed = trim input
      in if trimmed = [] then []
         else (let parts = (if CHR '';'' \<in> set trimmed then split_on (CHR '';'') trimmed else split_and [] trimmed)
               in map name_of (filter (\<lambda>p. p \<noteq> []) (map trim parts))))"

definition authorsToString :: "csl_name list option \<Rightarrow> string" where
  "authorsToString names =
     (case names of None \<Rightarrow> []
      | Some ns \<Rightarrow> join_text ''; '' (map (\<lambda>n. if present (nm_literal n) \<noteq> [] then present (nm_literal n)
                                              else family_given n) ns))"

definition yearToDate :: "string \<Rightarrow> csl_date option" where
  "yearToDate year = map_option (\<lambda>n. \<lparr>dt_date_parts = Some [[n]], dt_raw = None\<rparr>) (parse_int year)"

section \<open>Reading BibTeX\<close>

definition TYPE_TO_CSL :: "(string \<times> string) list" where
  "TYPE_TO_CSL =
     [(''article'', ''article-journal''), (''book'', ''book''), (''booklet'', ''book''), (''inbook'', ''chapter''),
      (''incollection'', ''chapter''), (''inproceedings'', ''paper-conference''), (''conference'', ''paper-conference''),
      (''manual'', ''report''), (''mastersthesis'', ''thesis''), (''phdthesis'', ''thesis''), (''techreport'', ''report''),
      (''misc'', ''document''), (''online'', ''webpage''), (''electronic'', ''webpage''), (''unpublished'', ''manuscript'')]"

definition CSL_TO_TYPE :: "(string \<times> string) list" where
  "CSL_TO_TYPE =
     [(''article-journal'', ''article''), (''article-magazine'', ''article''), (''article-newspaper'', ''article''),
      (''book'', ''book''), (''chapter'', ''incollection''), (''paper-conference'', ''inproceedings''),
      (''report'', ''techreport''), (''thesis'', ''phdthesis''), (''webpage'', ''online''), (''document'', ''misc''),
      (''manuscript'', ''unpublished'')]"

definition table_or :: "(string \<Rightarrow> string option) \<Rightarrow> (string \<times> string) list \<Rightarrow> string \<Rightarrow> string \<Rightarrow> string" where
  "table_or inh tbl k d = or_else (or_opt (map_of tbl k) (inh k)) d"

definition latin_letter :: "char \<Rightarrow> bool" where
  "latin_letter c \<longleftrightarrow> (let n = (of_char c :: nat) in (65 \<le> n \<and> n \<le> 90) \<or> (97 \<le> n \<and> n \<le> 122))"

text \<open>\<open>\{\\([a-zA-Z]+)\s+([a-zA-Z])\}\<close>, replaced by its second group\<close>

definition match_command_group :: "string matcher" where
  "match_command_group prev s =
     (case s of
        c1 # c2 # t \<Rightarrow>
          if c1 = CHR ''{'' \<and> c2 = CHR 0x5C
          then (let name = takeWhile latin_letter t; t1 = dropWhile latin_letter t;
                    ws = takeWhile is_ws t1; t2 = dropWhile is_ws t1
                in if name \<noteq> [] \<and> ws \<noteq> []
                   then (case t2 of
                           l # e # _ \<Rightarrow> if latin_letter l \<and> e = CHR ''}''
                                       then Some (4 + length name + length ws, [l]) else None
                         | _ \<Rightarrow> None)
                   else None)
          else None
      | _ \<Rightarrow> None)"

text \<open>\<open>\\["'`^~=.]\{?([a-zA-Z])\}?\<close>, replaced by the letter\<close>

definition match_accent :: "string matcher" where
  "match_accent prev s =
     (case s of
        c1 # c2 # t \<Rightarrow>
          if c1 = CHR 0x5C \<and> c2 \<in> {CHR 0x22, CHR 0x27, CHR 0x60, CHR ''^'', CHR ''~'', CHR ''='', CHR ''.''}
          then (let k = (if take 1 t = ''{'' then 1 else 0)
                in case drop k t of
                     l # u \<Rightarrow> if latin_letter l then Some (3 + k + (if take 1 u = ''}'' then 1 else 0), [l]) else None
                   | [] \<Rightarrow> None)
          else None
      | _ \<Rightarrow> None)"

text \<open>\<open>\\[a-zA-Z]+\s?\<close>, dropped\<close>

definition match_command :: "string matcher" where
  "match_command prev s =
     (case s of
        c # t \<Rightarrow>
          if c = CHR 0x5C \<and> takeWhile latin_letter t \<noteq> []
          then Some (1 + length (takeWhile latin_letter t)
                     + (case dropWhile latin_letter t of d # _ \<Rightarrow> if is_ws d then 1 else 0 | [] \<Rightarrow> 0), [])
          else None
      | [] \<Rightarrow> None)"

text \<open>\<open>replace(/\s+/g, " ")\<close>: the flag says that the character before was white space.\<close>

fun collapse_ws :: "bool \<Rightarrow> string \<Rightarrow> string" where
  "collapse_ws b [] = []"
| "collapse_ws b (c # s) =
     (if is_ws c then (if b then collapse_ws True s else CHR '' '' # collapse_ws True s) else c # collapse_ws False s)"

definition drop_braces :: "string \<Rightarrow> string" where
  "drop_braces s = filter (\<lambda>c. c \<noteq> CHR ''{'' \<and> c \<noteq> CHR ''}'') s"

definition cleanLatex :: "string \<Rightarrow> string" where
  "cleanLatex v =
     trim (collapse_ws False (map (\<lambda>c. if c = CHR ''~'' then CHR '' '' else c)
       (drop_braces (replace_all match_command (replace_all match_accent (replace_all match_command_group v))))))"

text \<open>The value in braces, the value in quotes, the bare value.\<close>

fun braced :: "int \<Rightarrow> string \<Rightarrow> string \<times> string" where
  "braced d [] = ([], [])"
| "braced d (c # s) =
     (if c = CHR ''{'' then (let (out, r) = braced (d + 1) s in (if 0 < d then c # out else out, r))
      else if c = CHR ''}'' then
        (if d - 1 = 0 then ([], s) else (let (out, r) = braced (d - 1) s in (c # out, r)))
      else (let (out, r) = braced d s in (c # out, r)))"

definition quoted_value :: "string \<Rightarrow> string \<times> string" where
  "quoted_value s = (takeWhile (\<lambda>c. c \<noteq> CHR 0x22) s, drop 1 (dropWhile (\<lambda>c. c \<noteq> CHR 0x22) s))"

definition bare_char :: "char \<Rightarrow> bool" where
  "bare_char c \<longleftrightarrow> c \<noteq> CHR '','' \<and> c \<noteq> CHR ''}''"

definition readValue :: "string \<Rightarrow> string \<times> string" where
  "readValue src =
     (let s = dropWhile is_ws src
      in if take 1 s = ''{'' then braced 0 s
         else if take 1 s = [CHR 0x22] then quoted_value (drop 1 s)
         else (trim (takeWhile bare_char s), dropWhile bare_char s))"

text \<open>The pairs of an entry up to its closing brace; a later field of the same name replaces the earlier one.\<close>

definition field_gap :: "char \<Rightarrow> bool" where
  "field_gap c \<longleftrightarrow> is_ws c \<or> c = CHR '',''"

definition name_char :: "char \<Rightarrow> bool" where
  "name_char c \<longleftrightarrow> c \<noteq> CHR ''='' \<and> c \<noteq> CHR ''}''"

definition after_value :: "string \<Rightarrow> string" where
  "after_value s = (let t = dropWhile is_ws s in if take 1 t = '','' then drop 1 t else t)"

lemma braced_shorter: "length (snd (braced d s)) \<le> length s"
  by (induction d s rule: braced.induct) (auto simp: Let_def split: prod.splits)

lemma readValue_shorter: "length (snd (readValue s)) \<le> length s"
proof -
  have d: "length (dropWhile P t) \<le> length t" for P :: "char \<Rightarrow> bool" and t by (rule length_dropWhile_le)
  show ?thesis
    using braced_shorter [of 0 "dropWhile is_ws s"] d [of is_ws s] d [of bare_char "dropWhile is_ws s"]
      d [of "\<lambda>c. c \<noteq> CHR 0x22" "drop 1 (dropWhile is_ws s)"]
    by (auto simp: readValue_def quoted_value_def Let_def)
qed

lemma after_value_shorter: "length (after_value s) \<le> length s"
  using length_dropWhile_le [of is_ws s] by (auto simp: after_value_def Let_def)

function parse_fields :: "(string, string) jmap \<Rightarrow> string \<Rightarrow> (string, string) jmap \<times> string" where
  "parse_fields fs s =
     (if s = [] then (fs, [])
      else (let s1 = dropWhile field_gap s
            in if take 1 s1 = ''}'' then (fs, drop 1 s1)
               else (let name = takeWhile name_char s1; s2 = dropWhile name_char s1
                     in if take 1 s2 = ''}'' then (fs, drop 1 s2)
                        else (let (v, s4) = readValue (drop 1 s2);
                                  fieldName = to_lower (trim name)
                              in parse_fields (if fieldName = [] then fs else map_set fieldName v fs)
                                   (after_value s4)))))"
  by pat_completeness auto

lemma fields_step_shorter:
  assumes "s \<noteq> []" "readValue (drop 1 (dropWhile name_char (dropWhile field_gap s))) = (v, s4)"
  shows "length (after_value s4) < length s"
proof -
  let ?t = "dropWhile name_char (dropWhile field_gap s)"
  have t: "length ?t \<le> length s"
    using length_dropWhile_le [of name_char "dropWhile field_gap s"] length_dropWhile_le [of field_gap s] by simp
  have "length s4 \<le> length (drop 1 ?t)" using readValue_shorter [of "drop 1 ?t"] assms(2) by simp
  moreover have "length (drop 1 ?t) = length ?t - 1" by (rule length_drop)
  moreover have "0 < length s" using assms(1) by simp
  ultimately show ?thesis using after_value_shorter [of s4] t by linarith
qed

termination parse_fields
proof (relation "measure (length \<circ> snd)", goal_cases)
  case (2 fs s x xa xb xc a b xd)
  then show ?case using fields_step_shorter [of s a b] by simp
qed simp

declare parse_fields.simps [simp del]

text \<open>The entries: type, key and fields; what stands between two entries is skipped.\<close>

definition not_at :: "char \<Rightarrow> bool" where
  "not_at c \<longleftrightarrow> c \<noteq> CHR ''@''"

definition not_open :: "char \<Rightarrow> bool" where
  "not_open c \<longleftrightarrow> c \<noteq> CHR ''{''"

definition skipped_type :: "string \<Rightarrow> bool" where
  "skipped_type ty \<longleftrightarrow> ty \<in> set [''comment'', ''preamble'', ''string'']"

type_synonym bib_entry = "string \<times> string \<times> (string, string) jmap"

lemma parse_fields_shorter: "length (snd (parse_fields fs s)) \<le> length s"
proof (induction fs s rule: parse_fields.induct)
  case (1 fs s)
  let ?s1 = "dropWhile field_gap s"
  let ?s2 = "dropWhile name_char ?s1"
  have le: "length ?s1 \<le> length s" "length ?s2 \<le> length ?s1" by (rule length_dropWhile_le)+
  obtain v s4 where rv: "readValue (drop 1 ?s2) = (v, s4)" by (cases "readValue (drop 1 ?s2)")
  show ?case
  proof (cases "s = [] \<or> take 1 ?s1 = ''}'' \<or> take 1 ?s2 = ''}''")
    case True
    then show ?thesis using le by (subst parse_fields.simps) (auto simp: Let_def rv simp del: One_nat_def)
  next
    case False
    then have step: "parse_fields fs s =
        parse_fields (if to_lower (trim (takeWhile name_char ?s1)) = [] then fs
                      else map_set (to_lower (trim (takeWhile name_char ?s1))) v fs) (after_value s4)"
      by (subst parse_fields.simps) (simp add: Let_def rv del: One_nat_def)
    have "length (after_value s4) < length s" using False rv by (intro fields_step_shorter) auto
    moreover have "length (snd (parse_fields fs s)) \<le> length (after_value s4)"
      unfolding step by (rule "1.IH") (use False rv in auto)
    ultimately show ?thesis by linarith
  qed
qed

function bib_entries :: "string \<Rightarrow> bib_entry list" where
  "bib_entries s =
     (case dropWhile not_at s of
        [] \<Rightarrow> []
      | _ # t \<Rightarrow>
          (case dropWhile not_open t of
             [] \<Rightarrow> []
           | _ # b \<Rightarrow>
               (let ty = to_lower (trim (takeWhile not_open t))
                in if skipped_type ty then bib_entries b
                   else (let key = trim (takeWhile bare_char b);
                             (fs, rest) = parse_fields [] (drop 1 (dropWhile bare_char b))
                         in (ty, key, fs) # bib_entries rest))))"
  by pat_completeness auto

lemma entry_step_shorter:
  assumes "dropWhile not_at s = a # t" "dropWhile not_open t = e # b"
  shows "length b < length s" "parse_fields [] (drop 1 (dropWhile bare_char b)) = (fs, rest) \<Longrightarrow> length rest < length s"
proof -
  have "length (a # t) \<le> length s" "length (e # b) \<le> length t"
    using length_dropWhile_le [of not_at s] length_dropWhile_le [of not_open t] assms by simp_all
  then show b: "length b < length s" by simp
  assume "parse_fields [] (drop 1 (dropWhile bare_char b)) = (fs, rest)"
  then show "length rest < length s"
    using parse_fields_shorter [of "[]" "drop 1 (dropWhile bare_char b)"] length_dropWhile_le [of bare_char b] b by simp
qed

termination bib_entries
proof (relation "measure length", goal_cases)
  case (2 s x t y b)
  then show ?case using entry_step_shorter(1) [of s x t y b] by simp
next
  case (3 s x t y b ty key p fs rest)
  then show ?case using entry_step_shorter(2) [of s x t y b fs rest] by simp
qed simp

declare bib_entries.simps [simp del]

fun unix_newlines :: "string \<Rightarrow> string" where
  "unix_newlines [] = []"
| "unix_newlines (c # s) =
     (if c = CHR 0x0D then CHR 0x0A # (case s of [] \<Rightarrow> [] | d # t \<Rightarrow> if d = CHR 0x0A then unix_newlines t else unix_newlines s)
      else c # unix_newlines s)"

text \<open>Each \<open>if (f.x) item.x = ...\<close>\<close>

definition field_of :: "(string, string) jmap \<Rightarrow> string list \<Rightarrow> string" where
  "field_of f ks = (case filter (\<lambda>v. v \<noteq> []) (map (\<lambda>k. present (map_get f k)) ks) of [] \<Rightarrow> [] | v # _ \<Rightarrow> v)"

definition when_present :: "string \<Rightarrow> (string \<Rightarrow> 'a) \<Rightarrow> 'a option" where
  "when_present v g = (if v = [] then None else Some (g v))"

fun undouble :: "string \<Rightarrow> string" where
  "undouble (a # b # s) = (if a = CHR ''-'' \<and> b = CHR ''-'' then a # undouble s else a # undouble (b # s))"
| "undouble s = s"

definition fieldsToCsl :: "(string \<Rightarrow> string option) \<Rightarrow> string \<Rightarrow> bib_entry \<Rightarrow> csl_item" where
  "fieldsToCsl inh draw e =
     (let (bibType, key, f) = e;
          year = (if field_of f [''year''] \<noteq> [] then field_of f [''year''] else take 4 (field_of f [''date'']))
      in \<lparr>it_id = (if key \<noteq> [] then key else makeSourceId draw None None),
          it_type = table_or inh TYPE_TO_CSL bibType ''document'',
          it_title = when_present (field_of f [''title'']) cleanLatex,
          it_author = when_present (field_of f [''author'']) (parseAuthors \<circ> cleanLatex),
          it_editor = when_present (field_of f [''editor'']) (parseAuthors \<circ> cleanLatex),
          it_issued = (if year = [] then None else yearToDate year),
          it_container_title = when_present (field_of f [''journal'', ''journaltitle'', ''booktitle'']) cleanLatex,
          it_collection_title = when_present (field_of f [''series'']) cleanLatex,
          it_publisher = when_present (field_of f [''publisher'']) cleanLatex,
          it_publisher_place = when_present (field_of f [''address'', ''location'']) cleanLatex,
          it_edition = when_present (field_of f [''edition'']) cleanLatex,
          it_volume = when_present (field_of f [''volume'']) id,
          it_issue = when_present (field_of f [''number'', ''issue'']) id,
          it_page = when_present (field_of f [''pages'']) undouble,
          it_number = None,
          it_URL = when_present (field_of f [''url'']) id,
          it_DOI = when_present (field_of f [''doi'']) id,
          it_ISBN = when_present (field_of f [''isbn'']) id,
          it_ISSN = when_present (field_of f [''issn'']) id,
          it_abstract = when_present (field_of f [''abstract'']) cleanLatex,
          it_note = when_present (field_of f [''note'']) cleanLatex\<rparr>)"

text \<open>\<open>draw i\<close> are the letters drawn for the entry at place \<open>i\<close>.\<close>

definition parseBibtex :: "(string \<Rightarrow> string option) \<Rightarrow> (nat \<Rightarrow> string) \<Rightarrow> string \<Rightarrow> csl_item list" where
  "parseBibtex inh draw input =
     (let es = bib_entries (unix_newlines input)
      in map (\<lambda>(i, e). fieldsToCsl inh (draw i) e) (zip [0..<length es] es))"

section \<open>Writing BibTeX\<close>

definition name_bibtex :: "csl_name \<Rightarrow> string" where
  "name_bibtex n =
     (if present (nm_literal n) \<noteq> [] then ''{'' @ present (nm_literal n) @ ''}'' else family_given n)"

definition namesToBibtex :: "csl_name list option \<Rightarrow> string" where
  "namesToBibtex names = (case names of None \<Rightarrow> [] | Some ns \<Rightarrow> join_text '' and '' (map name_bibtex ns))"

definition field_if :: "bool \<Rightarrow> string \<Rightarrow> string \<Rightarrow> (string \<times> string) list" where
  "field_if b k v = (if b then [(k, v)] else [])"

definition opt_field :: "string \<Rightarrow> string option \<Rightarrow> (string \<Rightarrow> string) \<Rightarrow> (string \<times> string) list" where
  "opt_field k v g = field_if (present v \<noteq> []) k (g (present v))"

definition double_dash :: "string \<Rightarrow> string" where
  "double_dash s = concat (map (\<lambda>c. if c = CHR ''-'' then ''--'' else [c]) s)"

definition bib_fields :: "csl_item \<Rightarrow> (string \<times> string) list" where
  "bib_fields item =
     opt_field ''title'' (it_title item) drop_braces
     @ field_if (or_else (it_author item) [] \<noteq> []) ''author'' (namesToBibtex (it_author item))
     @ field_if (or_else (it_editor item) [] \<noteq> []) ''editor'' (namesToBibtex (it_editor item))
     @ field_if (issuedYear item \<noteq> []) ''year'' (issuedYear item)
     @ opt_field (if it_type item = ''book'' \<or> it_type item = ''chapter'' then ''booktitle'' else ''journal'')
         (it_container_title item) drop_braces
     @ opt_field ''series'' (it_collection_title item) drop_braces
     @ opt_field ''publisher'' (it_publisher item) drop_braces
     @ opt_field ''address'' (it_publisher_place item) drop_braces
     @ opt_field ''edition'' (it_edition item) drop_braces
     @ opt_field ''volume'' (it_volume item) id
     @ opt_field ''number'' (it_issue item) id
     @ opt_field ''pages'' (it_page item) double_dash
     @ opt_field ''url'' (it_URL item) id
     @ opt_field ''doi'' (it_DOI item) id
     @ opt_field ''isbn'' (it_ISBN item) id
     @ opt_field ''issn'' (it_ISSN item) id
     @ opt_field ''note'' (it_note item) drop_braces"

definition field_line :: "string \<times> string \<Rightarrow> string" where
  "field_line kv = ''  '' @ fst kv @ '' = {'' @ snd kv @ ''}''"

definition itemToBibtex :: "(string \<Rightarrow> string option) \<Rightarrow> csl_item \<Rightarrow> string" where
  "itemToBibtex inh item =
     ''@'' @ table_or inh CSL_TO_TYPE (it_type item) ''misc'' @ ''{'' @ it_id item @ [CHR '','', CHR 0x0A]
     @ join_text [CHR '','', CHR 0x0A] (map field_line (bib_fields item)) @ [CHR 0x0A, CHR ''}'']"

definition toBibtex :: "(string \<Rightarrow> string option) \<Rightarrow> csl_item list \<Rightarrow> string" where
  "toBibtex inh items = join_text [CHR 0x0A, CHR 0x0A] (map (itemToBibtex inh) items) @ [CHR 0x0A]"

section \<open>The fields of an entry read back\<close>

text \<open>A value whose braces match, inside \<open>d\<close> open ones.\<close>

fun balanced :: "nat \<Rightarrow> string \<Rightarrow> bool" where
  "balanced d [] \<longleftrightarrow> d = 0"
| "balanced d (c # s) \<longleftrightarrow>
     (if c = CHR ''{'' then balanced (Suc d) s
      else if c = CHR ''}'' then 0 < d \<and> balanced (d - 1) s
      else balanced d s)"

lemma braced_balanced: "balanced d v \<Longrightarrow> braced (int d + 1) (v @ CHR ''}'' # r) = (v, r)"
proof (induction d v rule: balanced.induct)
  case (2 d c s)
  show ?case
  proof (cases "c = CHR ''}''")
    case True
    then show ?thesis using 2 by (cases d) (auto simp: Let_def add.commute)
  next
    case False
    then show ?thesis using 2 by (auto simp: Let_def add.commute)
  qed
qed simp

definition field_key :: "string \<Rightarrow> bool" where
  "field_key k \<longleftrightarrow> k \<noteq> [] \<and> list_all (\<lambda>c. name_char c \<and> \<not> field_gap c) k \<and> to_lower k = k"

lemma trim_before_ws:
  assumes "s \<noteq> []" "\<not> is_ws (hd s)" "\<not> is_ws (last s)" "list_all is_ws w"
  shows "trim (s @ w) = s"
proof -
  have "dropWhile is_ws (s @ w) = s @ w" using assms(1,2) by (cases s) auto
  moreover have "dropWhile is_ws (rev w @ rev s) = rev s"
    using assms by (subst dropWhile_append2) (auto simp: list_all_iff hd_rev dropWhile_idem_hd)
  ultimately show ?thesis by (simp add: trim_def)
qed

lemma trim_id: "s \<noteq> [] \<Longrightarrow> \<not> is_ws (hd s) \<Longrightarrow> \<not> is_ws (last s) \<Longrightarrow> trim s = s"
  using trim_before_ws [of s "[]"] by simp

lemma ws_codes [simp]: "is_ws CHR '' ''" "is_ws (CHR 0x0A)" "\<not> is_ws (CHR ''{'')" "\<not> is_ws (CHR ''}'')" "\<not> is_ws (CHR '','')"
  by (simp_all add: is_ws_def)

lemma gap_codes [simp]: "field_gap CHR '' ''" "field_gap (CHR 0x0A)" "field_gap CHR '',''" "\<not> field_gap (CHR ''}'')"
  by (simp_all add: field_gap_def)

lemma takeWhile_stop: "list_all P a \<Longrightarrow> \<not> P c \<Longrightarrow> takeWhile P (a @ c # r) = a"
  by (induction a) auto

lemma dropWhile_stop: "list_all P a \<Longrightarrow> \<not> P c \<Longrightarrow> dropWhile P (a @ c # r) = c # r"
  by (induction a) auto

lemma dropWhile_skip: "list_all P a \<Longrightarrow> dropWhile P (a @ s) = dropWhile P s"
  by (induction a) auto

lemma parse_fields_end: "list_all field_gap g \<Longrightarrow> parse_fields fs (g @ CHR ''}'' # r) = (fs, r)"
  by (subst parse_fields.simps) (simp add: dropWhile_stop Let_def)

lemma parse_fields_pair:
  assumes "list_all field_gap g" "field_key k" "balanced 0 v"
  shows "parse_fields fs (g @ field_line (k, v) @ r) = parse_fields (map_set k v fs) (after_value r)"
proof -
  have k: "k \<noteq> []" "list_all (\<lambda>c. name_char c \<and> \<not> field_gap c) k" "to_lower k = k"
    using assms(2) by (simp_all add: field_key_def)
  then have kn: "list_all name_char k" "\<forall>c \<in> set k. \<not> is_ws c"
    by (auto simp: list_all_iff field_gap_def)
  define s where "s = g @ field_line (k, v) @ r"
  have line: "s = (g @ ''  '') @ k @ '' = {'' @ v @ ''}'' @ r"
    by (simp add: s_def field_line_def)
  obtain c k' where kc: "k = c # k'" "\<not> field_gap c" "c \<noteq> CHR ''}''"
    using k by (cases k) (auto simp: name_char_def)
  have s1: "dropWhile field_gap s = k @ '' = {'' @ v @ ''}'' @ r"
    unfolding line using assms(1) kc by (subst dropWhile_skip) auto
  have nm: "takeWhile name_char (k @ '' = {'' @ v @ ''}'' @ r) = k @ '' ''"
    using takeWhile_stop [of name_char "k @ '' ''" "CHR ''=''" "'' {'' @ v @ ''}'' @ r"] kn
    by (simp add: name_char_def)
  have s2: "dropWhile name_char (k @ '' = {'' @ v @ ''}'' @ r) = ''= {'' @ v @ ''}'' @ r"
    using dropWhile_stop [of name_char "k @ '' ''" "CHR ''=''" "'' {'' @ v @ ''}'' @ r"] kn
    by (simp add: name_char_def)
  have val: "readValue ('' {'' @ v @ ''}'' @ r) = (v, r)"
    using braced_balanced [OF assms(3), of r] by (simp add: readValue_def Let_def)
  have tk: "to_lower (trim (k @ '' '')) = k"
    using trim_before_ws [of k "'' ''"] k kn by simp
  have ne: "s \<noteq> []" by (simp add: line)
  have t1: "take 1 (k @ '' = {'' @ v @ ''}'' @ r) \<noteq> ''}''" using kc by simp
  have t2: "take 1 (''= {'' @ v @ ''}'' @ r) \<noteq> ''}''" "drop 1 (''= {'' @ v @ ''}'' @ r) = '' {'' @ v @ ''}'' @ r"
    by simp_all
  have "parse_fields fs s = parse_fields (map_set k v fs) (after_value r)"
    by (subst parse_fields.simps, unfold Let_def s1 nm s2 t2(2) val tk) (use ne t1 t2(1) k(1) in simp)
  then show ?thesis by (simp add: s_def)
qed

lemma after_value_comma: "after_value (CHR '','' # CHR 0x0A # s) = CHR 0x0A # s"
  by (simp add: after_value_def)

lemma after_value_close: "after_value (CHR 0x0A # CHR ''}'' # s) = CHR ''}'' # s"
  by (simp add: after_value_def)

lemma parse_fields_all:
  assumes "list_all (\<lambda>kv. field_key (fst kv) \<and> balanced 0 (snd kv)) kvs" "list_all field_gap g"
  shows "parse_fields fs (g @ join_text [CHR '','', CHR 0x0A] (map field_line kvs) @ [CHR 0x0A, CHR ''}''] @ r) =
           (foldl (\<lambda>m kv. map_set (fst kv) (snd kv) m) fs kvs, r)"
  using assms
proof (induction kvs arbitrary: fs g rule: induct_list012)
  case 1
  then show ?case
    using parse_fields_end [of "g @ [CHR 0x0A]" fs r] by simp
next
  case (2 kv)
  then show ?case
    using parse_fields_pair [of g "fst kv" "snd kv" fs "CHR 0x0A # CHR ''}'' # r"]
      parse_fields_end [of "[]" "map_set (fst kv) (snd kv) fs" r]
    by (simp add: after_value_close)
next
  case (3 kv kw kvs)
  have "parse_fields (map_set (fst kv) (snd kv) fs)
          ([CHR 0x0A] @ join_text [CHR '','', CHR 0x0A] (map field_line (kw # kvs)) @ [CHR 0x0A, CHR ''}''] @ r) =
        (foldl (\<lambda>m kv. map_set (fst kv) (snd kv) m) (map_set (fst kv) (snd kv) fs) (kw # kvs), r)"
    using 3 by (intro "3.IH"(2)) simp_all
  then show ?case
    using parse_fields_pair [of g "fst kv" "snd kv" fs
        "CHR '','' # CHR 0x0A # join_text [CHR '','', CHR 0x0A] (map field_line (kw # kvs)) @ [CHR 0x0A, CHR ''}''] @ r"] 3(3,4)
    by (simp add: after_value_comma)
qed

section \<open>The entries of a file read back\<close>

definition entry_text :: "string \<Rightarrow> string \<Rightarrow> (string \<times> string) list \<Rightarrow> string" where
  "entry_text ty key kvs =
     ''@'' @ ty @ ''{'' @ key @ [CHR '','', CHR 0x0A]
     @ join_text [CHR '','', CHR 0x0A] (map field_line kvs) @ [CHR 0x0A, CHR ''}'']"

definition key_ok :: "string \<Rightarrow> bool" where
  "key_ok key \<longleftrightarrow> key \<noteq> [] \<and> trim key = key \<and> list_all bare_char key"

definition type_ok :: "string \<Rightarrow> bool" where
  "type_ok ty \<longleftrightarrow> to_lower (trim ty) = ty \<and> list_all not_open ty \<and> \<not> skipped_type ty"

definition fields_ok :: "(string \<times> string) list \<Rightarrow> bool" where
  "fields_ok kvs \<longleftrightarrow> list_all (\<lambda>kv. field_key (fst kv) \<and> balanced 0 (snd kv)) kvs"

definition set_all :: "(string \<times> string) list \<Rightarrow> (string, string) jmap" where
  "set_all kvs = foldl (\<lambda>m kv. map_set (fst kv) (snd kv) m) [] kvs"

lemma bib_entries_gap: "list_all not_at w \<Longrightarrow> bib_entries (w @ s) = bib_entries s"
  by (subst (1 2) bib_entries.simps) (simp add: dropWhile_skip)

lemma bib_entries_entry:
  assumes "type_ok ty" "key_ok key" "fields_ok kvs"
  shows "bib_entries (entry_text ty key kvs @ r) = (ty, key, set_all kvs) # bib_entries r"
proof -
  define body where
    "body = join_text [CHR '','', CHR 0x0A] (map field_line kvs) @ [CHR 0x0A, CHR ''}''] @ r"
  define b where "b = key @ CHR '','' # CHR 0x0A # body"
  have s: "entry_text ty key kvs @ r = CHR ''@'' # ty @ CHR ''{'' # b"
    by (simp add: entry_text_def body_def b_def)
  have a: "\<not> not_at (CHR ''@'')" by (simp add: not_at_def)
  have o1: "dropWhile not_open (ty @ CHR ''{'' # b) = CHR ''{'' # b" "takeWhile not_open (ty @ CHR ''{'' # b) = ty"
    using assms(1) by (auto simp: type_ok_def intro!: dropWhile_stop takeWhile_stop) (simp_all add: not_open_def)
  have k1: "takeWhile bare_char b = key" "dropWhile bare_char b = CHR '','' # CHR 0x0A # body"
    unfolding b_def using assms(2)
    by (auto simp: key_ok_def intro!: dropWhile_stop takeWhile_stop) (simp_all add: bare_char_def)
  have f: "parse_fields [] (CHR 0x0A # body) = (set_all kvs, r)"
    using parse_fields_all [of kvs "[CHR 0x0A]" "[]" r] assms(3) by (simp add: fields_ok_def set_all_def body_def)
  show ?thesis
    unfolding s using assms
    by (subst bib_entries.simps) (simp add: a o1 k1 f type_ok_def key_ok_def Let_def)
qed

lemma unix_newlines_id: "CHR 0x0D \<notin> set s \<Longrightarrow> unix_newlines s = s"
  by (induction s rule: unix_newlines.induct) auto

section \<open>Values that survive the cleaning\<close>

text \<open>
  Text without backslashes, braces and tildes whose words are separated by single spaces, as an author types it.
\<close>

definition special :: "char \<Rightarrow> bool" where
  "special c \<longleftrightarrow> c \<in> set [CHR 0x5C, CHR ''{'', CHR ''}'', CHR ''~'']"

fun spaced :: "bool \<Rightarrow> string \<Rightarrow> bool" where
  "spaced b [] \<longleftrightarrow> \<not> b"
| "spaced b (c # s) \<longleftrightarrow>
     (if c = CHR '' '' then \<not> b \<and> spaced True s
      else \<not> is_ws c \<and> \<not> special c \<and> spaced False s)"

definition plain_words :: "string \<Rightarrow> bool" where
  "plain_words s \<longleftrightarrow> spaced True s"

lemma spaced_False: "spaced True s \<Longrightarrow> spaced False s"
  by (cases s) auto

lemma spaced_chars: "spaced b s \<Longrightarrow> c \<in> set s \<Longrightarrow> \<not> special c \<and> c \<noteq> CHR 0x0D"
proof (induction b s rule: spaced.induct)
  case (2 b d s)
  have "is_ws (CHR 0x0D)" "\<not> special CHR '' ''" by (simp_all add: is_ws_def special_def)
  then show ?case using 2 by (cases "d = CHR '' ''"; cases "c = d") auto
qed simp

lemma spaced_free:
  assumes "spaced b s"
  shows "CHR 0x5C \<notin> set s" "CHR ''{'' \<notin> set s" "CHR ''}'' \<notin> set s" "CHR ''~'' \<notin> set s" "CHR 0x0D \<notin> set s"
  using spaced_chars [OF assms] by (auto simp: special_def)

lemma spaced_last: "spaced b s \<Longrightarrow> s \<noteq> [] \<Longrightarrow> \<not> is_ws (last s)"
  by (induction b s rule: spaced.induct) (auto split: if_splits)

lemma spaced_hd: "spaced True s \<Longrightarrow> s \<noteq> [] \<and> \<not> is_ws (hd s)"
  by (cases s) (auto split: if_splits)

lemma spaced_ws: "spaced b s \<Longrightarrow> c \<in> set s \<Longrightarrow> is_ws c \<Longrightarrow> c = CHR '' ''"
  by (induction b s rule: spaced.induct) (auto split: if_splits)

lemma spaced_join: "spaced b s \<Longrightarrow> spaced True t \<Longrightarrow> spaced b (s @ CHR '' '' # t)"
  by (induction b s rule: spaced.induct) auto

lemma spaced_snoc: "spaced b s \<Longrightarrow> \<not> is_ws c \<Longrightarrow> \<not> special c \<Longrightarrow> spaced b (s @ [c])"
  by (induction b s rule: spaced.induct) auto

lemma collapse_spaced: "spaced b s \<Longrightarrow> collapse_ws b s = s"
  by (induction b s rule: spaced.induct) (auto split: if_splits)

lemma replace_all_id:
  assumes "\<And>prev c t. c \<in> set s \<Longrightarrow> m prev (c # t) = None"
  shows "replace_all m s = s"
proof -
  have "replace_from m prev s = s" for prev
    using assms by (induction s arbitrary: prev) auto
  then show ?thesis by (simp add: replace_all_def)
qed

lemma matchers_idle:
  assumes "c \<noteq> CHR 0x5C"
  shows "match_accent p (c # t) = None" "match_command p (c # t) = None"
    "c \<noteq> CHR ''{'' \<Longrightarrow> match_command_group p (c # t) = None"
  using assms
  by (auto simp: match_accent_def match_command_def match_command_group_def split: list.splits)

lemma trim_plain: "plain_words s \<Longrightarrow> trim s = s"
  using spaced_hd [of s] spaced_last [of True s] by (simp add: plain_words_def trim_id)

lemma drop_braces_plain: "plain_words s \<Longrightarrow> drop_braces s = s"
  using spaced_free [of True s] by (auto simp: plain_words_def drop_braces_def filter_id_conv)

lemma balanced_free: "CHR ''{'' \<notin> set s \<Longrightarrow> CHR ''}'' \<notin> set s \<Longrightarrow> balanced d s \<longleftrightarrow> d = 0"
  by (induction s) auto

lemma balanced_plain: "plain_words s \<Longrightarrow> balanced 0 s"
  using spaced_free [of True s] by (simp add: plain_words_def balanced_free)

lemma cleanLatex_plain:
  assumes "plain_words s"
  shows "cleanLatex s = s"
proof -
  have no: "c \<noteq> CHR 0x5C \<and> c \<noteq> CHR ''{'' \<and> c \<noteq> CHR ''~''" if "c \<in> set s" for c
    using spaced_free [of True s] assms that by (auto simp: plain_words_def)
  then have "replace_all match_command_group s = s" "replace_all match_accent s = s" "replace_all match_command s = s"
    by (auto intro!: replace_all_id simp: matchers_idle)
  moreover have "map (\<lambda>c. if c = CHR ''~'' then CHR '' '' else c) s = s"
    using no by (intro map_idI) auto
  moreover have "collapse_ws False s = s"
    using assms by (simp add: plain_words_def spaced_False collapse_spaced)
  ultimately show ?thesis
    using assms by (simp add: cleanLatex_def drop_braces_plain trim_plain)
qed

section \<open>Names read back\<close>

text \<open>No separator starts inside the text, nor at its end when white space follows.\<close>

fun and_free :: "string \<Rightarrow> bool" where
  "and_free [] \<longleftrightarrow> True"
| "and_free (c # s) \<longleftrightarrow> and_sep ((c # s) @ '' '') = None \<and> and_free s"

definition name_text_ok :: "string \<Rightarrow> bool" where
  "name_text_ok t \<longleftrightarrow> plain_words t \<and> CHR '';'' \<notin> set t \<and> and_free t"

definition name_ok :: "csl_name \<Rightarrow> bool" where
  "name_ok n \<longleftrightarrow>
     nm_literal n = None \<and> name_text_ok (family_given n)
     \<and> (case nm_family n of
          None \<Rightarrow> False
        | Some f \<Rightarrow>
            plain_words f \<and> CHR '','' \<notin> set f
            \<and> (case nm_given n of
                 None \<Rightarrow> list_all (\<lambda>c. \<not> is_ws c) f
               | Some g \<Rightarrow> plain_words g \<and> CHR '','' \<notin> set g))"

lemma lower_a: "lower_char c = CHR ''a'' \<Longrightarrow> \<not> is_ws c"
  by (auto simp: is_ws_def lower_char_def Let_def split: if_splits)

lemma lower_ws [simp]:
  "is_ws c \<Longrightarrow> lower_char c \<noteq> CHR ''a''" "is_ws c \<Longrightarrow> lower_char c \<noteq> CHR ''n''" "is_ws c \<Longrightarrow> lower_char c \<noteq> CHR ''d''"
  by (auto simp: is_ws_def lower_char_def Let_def split: if_splits)

lemma take3_and: "to_lower (take 3 r) = ''and'' \<longleftrightarrow>
    (\<exists>a b c t. r = a # b # c # t \<and> lower_char a = CHR ''a'' \<and> lower_char b = CHR ''n'' \<and> lower_char c = CHR ''d'')"
proof -
  consider "r = []" | a where "r = [a]" | a b where "r = [a, b]" | a b c t where "r = a # b # c # t"
    by (metis list.exhaust)
  then show ?thesis by cases (auto simp: to_lower_def numeral_3_eq_3)
qed

lemma and_sep_Some: "and_sep s \<noteq> None \<longleftrightarrow>
    (\<exists>w a b c v t. s = w @ a # b # c # v # t \<and> w \<noteq> [] \<and> list_all is_ws w \<and> is_ws v
       \<and> lower_char a = CHR ''a'' \<and> lower_char b = CHR ''n'' \<and> lower_char c = CHR ''d'')"
proof
  assume "and_sep s \<noteq> None"
  then have sep: "takeWhile is_ws s \<noteq> []" "to_lower (take 3 (dropWhile is_ws s)) = ''and''"
      "takeWhile is_ws (drop 3 (dropWhile is_ws s)) \<noteq> []"
    by (simp_all add: and_sep_def Let_def split: if_splits)
  from sep(2) obtain a b c t where r: "dropWhile is_ws s = a # b # c # t"
    and abc: "lower_char a = CHR ''a''" "lower_char b = CHR ''n''" "lower_char c = CHR ''d''"
    unfolding take3_and by blast
  have w: "takeWhile is_ws s \<noteq> []" and v: "takeWhile is_ws t \<noteq> []" using sep(1,3) by (simp_all add: r numeral_3_eq_3)
  obtain x y where "t = x # y" "is_ws x" using v by (cases t) (auto split: if_splits)
  moreover have "s = takeWhile is_ws s @ a # b # c # t" using r by (metis takeWhile_dropWhile_id)
  moreover have "list_all is_ws (takeWhile is_ws s)" by (auto simp: list_all_iff dest: set_takeWhileD)
  ultimately show "\<exists>w a b c v t. s = w @ a # b # c # v # t \<and> w \<noteq> [] \<and> list_all is_ws w \<and> is_ws v
       \<and> lower_char a = CHR ''a'' \<and> lower_char b = CHR ''n'' \<and> lower_char c = CHR ''d''"
    using w abc by blast
next
  assume "\<exists>w a b c v t. s = w @ a # b # c # v # t \<and> w \<noteq> [] \<and> list_all is_ws w \<and> is_ws v
       \<and> lower_char a = CHR ''a'' \<and> lower_char b = CHR ''n'' \<and> lower_char c = CHR ''d''"
  then obtain w a b c v t where s: "s = w @ a # b # c # v # t" "w \<noteq> []" "list_all is_ws w" "is_ws v"
    and abc: "lower_char a = CHR ''a''" "lower_char b = CHR ''n''" "lower_char c = CHR ''d''" by blast
  have "takeWhile is_ws s = w" "dropWhile is_ws s = a # b # c # v # t"
    unfolding s(1) using s(3) lower_a [OF abc(1)] by (auto intro: takeWhile_stop dropWhile_stop)
  then show "and_sep s \<noteq> None"
    using s(2,4) abc by (simp add: and_sep_def Let_def to_lower_def numeral_3_eq_3)
qed

text \<open>What follows a text that ends in a letter does not matter, as long as it starts with white space.\<close>

lemma and_sep_context:
  assumes "s \<noteq> []" "\<not> is_ws (last s)" "and_sep (s @ '' '') = None" "rest = [] \<or> is_ws (hd rest)"
  shows "and_sep (s @ rest) = None"
proof (rule ccontr)
  assume "and_sep (s @ rest) \<noteq> None"
  then obtain w a b c v t where e: "s @ rest = w @ a # b # c # v # t" "w \<noteq> []" "list_all is_ws w" "is_ws v"
    and abc: "lower_char a = CHR ''a''" "lower_char b = CHR ''n''" "lower_char c = CHR ''d''"
    unfolding and_sep_Some by blast
  have nws: "\<not> is_ws a" "\<not> is_ws b" "\<not> is_ws c" using abc by (auto dest: lower_ws)
  have n: "(s @ rest) ! length s = hd rest" if "rest \<noteq> []" using that by (simp add: nth_append hd_conv_nth)
  have long: "length w + 3 \<le> length s"
  proof (rule ccontr)
    assume short: "\<not> length w + 3 \<le> length s"
    then have rest: "rest \<noteq> []" using arg_cong [OF e(1), of length] by auto
    then have "is_ws ((s @ rest) ! length s)" using n assms(4) by simp
    show False
    proof (cases "length s \<le> length w")
      case True
      have "last s = (s @ rest) ! (length s - 1)"
        using assms(1) by (simp add: last_conv_nth nth_append)
      also have "\<dots> = w ! (length s - 1)"
        using True assms(1) by (simp add: e(1) nth_append) (metis Suc_pred diff_less le_trans length_greater_0_conv lessI less_le_trans not_less)
      finally show False using True assms(1,2) e(3) by (cases s) (auto simp: list_all_length)
    next
      case False
      then consider "length s = length w + 1" | "length s = length w + 2" using short by linarith
      then show False using \<open>is_ws ((s @ rest) ! length s)\<close> nws by cases (simp_all add: e(1) nth_append)
    qed
  qed
  define k where "k = length s - length w - 3"
  define u where "u = take k (v # t)"
  have "length s - length w = Suc (Suc (Suc k))" using long by (simp add: k_def)
  moreover have "s = w @ take (length s - length w) (a # b # c # v # t)"
    using arg_cong [OF e(1), of "take (length s)"] long by simp
  ultimately have s: "s = w @ a # b # c # u" by (simp add: u_def)
  have "u @ rest = v # t" using e(1) by (simp add: s)
  then have "\<exists>v' t'. u @ '' '' = v' # t' \<and> is_ws v'" using e(4) by (cases u) auto
  then have "and_sep (s @ '' '') \<noteq> None"
    unfolding and_sep_Some s using e(2,3) abc by (metis append_Cons append_assoc)
  with assms(3) show False by simp
qed

lemma split_and_text:
  assumes "s = [] \<or> \<not> is_ws (last s)" "and_free s" "rest = [] \<or> is_ws (hd rest)"
  shows "split_and cur (s @ rest) = split_and (rev s @ cur) rest"
  using assms
proof (induction s arbitrary: cur)
  case (Cons c s)
  have "and_sep ((c # s) @ rest) = None"
    by (rule and_sep_context) (use Cons.prems in auto)
  then have "split_and cur ((c # s) @ rest) = split_and (c # cur) (s @ rest)" by simp
  also have "\<dots> = split_and (rev s @ c # cur) rest"
    using Cons.prems by (intro Cons.IH) (auto split: if_splits)
  finally show ?case by simp
qed simp

lemma and_sep_separator:
  assumes "t \<noteq> []" "\<not> is_ws (hd t)"
  shows "and_sep ('' and '' @ t) = Some 5"
proof -
  obtain c u where t: "t = c # u" "\<not> is_ws c" using assms by (cases t) auto
  have "\<not> is_ws CHR ''a''" by (simp add: is_ws_def)
  moreover have "to_lower ''and'' = ''and''" by code_simp
  ultimately show ?thesis by (simp add: and_sep_def Let_def t numeral_3_eq_3)
qed

lemma split_and_join:
  assumes "ts \<noteq> []" "list_all (\<lambda>t. plain_words t \<and> and_free t) ts"
  shows "split_and [] (join_text '' and '' ts) = ts"
  using assms
proof (induction ts rule: induct_list012)
  case (2 t)
  then show ?case
    using split_and_text [of t "[]" "[]"] spaced_last [of True t] by (auto simp: plain_words_def)
next
  case (3 t u ts)
  define r where "r = join_text '' and '' (u # ts)"
  have IH: "split_and [] r = u # ts" using 3 by (simp add: r_def)
  have u: "u \<noteq> []" "\<not> is_ws (hd u)" using spaced_hd [of u] 3(4) by (auto simp: plain_words_def)
  have r: "r \<noteq> []" "\<not> is_ws (hd r)" using u by (cases ts; simp add: r_def)+
  have "split_and [] (t @ '' and '' @ r) = split_and (rev t @ []) ('' and '' @ r)"
    using spaced_last [of True t] 3(4) by (intro split_and_text) (auto simp: plain_words_def)
  also have "\<dots> = t # split_and [] r" using and_sep_separator [OF r] by simp
  finally show ?case using IH by (simp add: r_def)
qed simp

lemma split_on_fresh: "c \<notin> set s \<Longrightarrow> split_on c s = [s]"
  by (induction s) auto

lemma split_on_first: "c \<notin> set s \<Longrightarrow> split_on c (s @ c # t) = s # split_on c t"
  by (induction s) auto

lemma word_split_one: "list_all (\<lambda>c. \<not> is_ws c) s \<Longrightarrow> cur @ s \<noteq> [] \<Longrightarrow> word_split cur s = [rev cur @ s]"
  by (induction s arbitrary: cur) auto

lemma plain_not_Nil: "plain_words s \<Longrightarrow> s \<noteq> []"
  by (auto simp: plain_words_def)

lemma name_reads_back:
  assumes "name_ok n"
  shows "name_of (family_given n) = n"
proof -
  obtain f where f: "nm_family n = Some f" "plain_words f" "CHR '','' \<notin> set f" and lit: "nm_literal n = None"
    using assms by (auto simp: name_ok_def split: option.splits)
  show ?thesis
  proof (cases "nm_given n")
    case None
    then have w: "list_all (\<lambda>c. \<not> is_ws c) f" using assms f by (simp add: name_ok_def)
    have "family_given n = f" using None f plain_not_Nil [of f] by (simp add: family_given_def present_def)
    then show ?thesis
      using f lit None word_split_one [OF w, of "[]"] plain_not_Nil [of f] by (simp add: name_of_def Let_def)
  next
    case (Some g)
    then have g: "plain_words g" "CHR '','' \<notin> set g" using assms f by (simp_all add: name_ok_def)
    have e: "family_given n = f @ CHR '','' # CHR '' '' # g"
      using Some f g plain_not_Nil by (simp add: family_given_def present_def)
    have sp: "split_on (CHR '','') (family_given n) = [f, CHR '' '' # g]"
      unfolding e using f(3) g(2) by (simp add: split_on_first split_on_fresh)
    have "trim (CHR '' '' # g) = g" using trim_plain [OF g(1)] by (simp add: trim_def)
    then show ?thesis
      using f lit Some trim_plain [OF f(2)] by (simp add: name_of_def sp Let_def) (simp add: e)
  qed
qed

lemma spaced_and: "spaced True s \<Longrightarrow> spaced True t \<Longrightarrow> spaced True (s @ '' and '' @ t)"
proof -
  assume "spaced True s" "spaced True t"
  moreover from this have "spaced True (''and'' @ CHR '' '' # t)"
    by (intro spaced_join) (auto simp: is_ws_def special_def)
  ultimately show ?thesis using spaced_join [of True s "''and '' @ t"] by simp
qed

lemma join_plain:
  "ts \<noteq> [] \<Longrightarrow> list_all plain_words ts \<Longrightarrow> plain_words (join_text '' and '' ts)"
proof (induction ts rule: induct_list012)
  case (3 t u ts)
  then show ?case using spaced_and [of t "join_text '' and '' (u # ts)"] by (simp add: plain_words_def)
qed simp_all

lemma set_join_text: "set (join_text sep ts) \<subseteq> set sep \<union> \<Union> (set ` set ts)"
  by (induction sep ts rule: join_text.induct) auto

lemma names_text_plain:
  assumes "ns \<noteq> []" "list_all name_ok ns"
  shows "plain_words (namesToBibtex (Some ns))" "namesToBibtex (Some ns) = join_text '' and '' (map family_given ns)"
proof -
  have "map name_bibtex ns = map family_given ns"
    using assms(2) by (auto simp: list_all_iff name_ok_def name_bibtex_def present_def)
  then show e: "namesToBibtex (Some ns) = join_text '' and '' (map family_given ns)"
    by (simp add: namesToBibtex_def del: map_eq_conv)
  show "plain_words (namesToBibtex (Some ns))"
    unfolding e using assms by (intro join_plain) (auto simp: list_all_iff name_ok_def name_text_ok_def)
qed

lemma names_read_back:
  assumes "ns \<noteq> []" "list_all name_ok ns"
  shows "parseAuthors (cleanLatex (namesToBibtex (Some ns))) = ns"
proof -
  let ?ts = "map family_given ns"
  let ?j = "join_text '' and '' ?ts"
  have ok: "list_all (\<lambda>t. plain_words t \<and> and_free t) ?ts" "\<forall>t \<in> set ?ts. trim t = t \<and> t \<noteq> []"
    using assms(2) by (auto simp: list_all_iff name_ok_def name_text_ok_def trim_plain plain_not_Nil)
  have p: "plain_words ?j" using names_text_plain [OF assms] by simp
  have "CHR '';'' \<notin> set ?j"
    using set_join_text [of "'' and ''" ?ts] assms(2) by (auto simp: list_all_iff name_ok_def name_text_ok_def)
  then have "parseAuthors ?j = map name_of (filter (\<lambda>p. p \<noteq> []) (map trim ?ts))"
    using split_and_join [of ?ts] ok(1) assms(1) trim_plain [OF p] plain_not_Nil [OF p]
    by (simp add: parseAuthors_def Let_def)
  also have "map trim ?ts = ?ts" using ok(2) by (intro map_idI) auto
  also have "filter (\<lambda>p. p \<noteq> []) ?ts = ?ts" using ok(2) by (simp add: filter_id_conv)
  also have "map name_of ?ts = ns"
    using assms(2) by (simp add: map_idI name_reads_back list_all_iff)
  finally show ?thesis using names_text_plain [OF assms] by (simp add: cleanLatex_plain)
qed

section \<open>A library reads back\<close>

text \<open>
  A source the format can carry: a type with a counterpart, a key without commas and braces, titles and names as an
  author types them, and no field without a counterpart.  The fields copied as they are may hold anything
  with matching braces.
\<close>

definition opt_ok :: "(string \<Rightarrow> bool) \<Rightarrow> string option \<Rightarrow> bool" where
  "opt_ok P v = (case v of None \<Rightarrow> True | Some s \<Rightarrow> s \<noteq> [] \<and> P s)"

definition raw_ok :: "string \<Rightarrow> bool" where
  "raw_ok s \<longleftrightarrow> balanced 0 s \<and> CHR 0x0D \<notin> set s"

definition names_ok :: "csl_name list option \<Rightarrow> bool" where
  "names_ok ns = (case ns of None \<Rightarrow> True | Some l \<Rightarrow> l \<noteq> [] \<and> list_all name_ok l)"

definition date_ok :: "csl_date option \<Rightarrow> bool" where
  "date_ok d =
     (case d of None \<Rightarrow> True
      | Some d \<Rightarrow> dt_raw d = None \<and>
          (case dt_date_parts d of
             Some [[y]] \<Rightarrow> y \<noteq> 0 \<and> \<bar>y\<bar> \<le> MAX_EXACT
           | _ \<Rightarrow> False))"

definition carried_types :: "string list" where
  "carried_types =
     [''article-journal'', ''book'', ''chapter'', ''paper-conference'', ''report'', ''thesis'', ''webpage'',
      ''document'', ''manuscript'']"

definition export_ok :: "csl_item \<Rightarrow> bool" where
  "export_ok it \<longleftrightarrow>
     it_type it \<in> set carried_types \<and> key_ok (it_id it) \<and> CHR 0x0D \<notin> set (it_id it)
     \<and> list_all (opt_ok plain_words)
         [it_title it, it_container_title it, it_collection_title it, it_publisher it, it_publisher_place it,
          it_edition it, it_note it]
     \<and> list_all (opt_ok raw_ok)
         [it_volume it, it_issue it, it_page it, it_URL it, it_DOI it, it_ISBN it, it_ISSN it]
     \<and> names_ok (it_author it) \<and> names_ok (it_editor it) \<and> date_ok (it_issued it)
     \<and> it_number it = None \<and> it_abstract it = None"

lemma undouble_double: "undouble (double_dash s) = s"
proof -
  have single: "undouble (a # s) = a # undouble s" if "a \<noteq> CHR ''-''" for a s
    using that by (cases s) auto
  show ?thesis by (induction s) (auto simp: double_dash_def single)
qed

lemma double_dash_facts:
  "balanced d (double_dash s) = balanced d s" "set (double_dash s) = set s" "double_dash s = [] \<longleftrightarrow> s = []"
proof -
  show "balanced d (double_dash s) = balanced d s"
    by (induction s arbitrary: d) (auto simp: double_dash_def)
  show "set (double_dash s) = set s" by (auto simp: double_dash_def split: if_splits)
  show "double_dash s = [] \<longleftrightarrow> s = []" by (cases s) (auto simp: double_dash_def)
qed

lemma show_int_chars: "c \<in> set (show_int i) \<Longrightarrow> is_digit c \<or> c = CHR ''-''"
  by (auto simp: show_int_def split: if_splits dest: show_nat_digits)

lemma raw_show_int: "raw_ok (show_int i)"
proof -
  have "c \<notin> {CHR ''{'', CHR ''}'', CHR 0x0D}" if "c \<in> set (show_int i)" for c
    using show_int_chars [OF that] by (auto simp: is_digit_def)
  then have "CHR ''{'' \<notin> set (show_int i)" "CHR ''}'' \<notin> set (show_int i)" "CHR 0x0D \<notin> set (show_int i)" by auto
  then show ?thesis by (simp add: raw_ok_def balanced_free)
qed

lemma raw_nil: "raw_ok []"
  by (simp add: raw_ok_def)

lemma show_int_not_Nil [simp]: "show_int i \<noteq> []"
  by (simp add: show_int_def)

lemma raw_plain: "plain_words s \<Longrightarrow> raw_ok s"
  using spaced_free [of True s] by (simp add: raw_ok_def balanced_plain) (simp add: plain_words_def)

text \<open>Lookups in the written fields.\<close>

lemma map_get_foldl:
  "map_get (foldl (\<lambda>m kv. map_set (fst kv) (snd kv) m) m kvs) k =
     (case map_get (rev kvs) k of Some v \<Rightarrow> Some v | None \<Rightarrow> map_get m k)"
proof (induction kvs rule: rev_induct)
  case (snoc kv kvs)
  then show ?case by (cases kv) auto
qed simp

lemma map_get_append: "map_get (a @ b) k = (case map_get a k of Some v \<Rightarrow> Some v | None \<Rightarrow> map_get b k)"
  by (induction a k rule: map_get.induct) auto

lemma map_get_set_all: "map_get (set_all kvs) k = map_get (rev kvs) k"
  by (simp add: set_all_def map_get_foldl split: option.splits)

lemma field_if_facts [simp]:
  "rev (field_if b k v) = field_if b k v"
  "map_get (field_if b k v) k' = (if b \<and> k = k' then Some v else None)"
  by (simp_all add: field_if_def)

lemma opt_field_facts [simp]:
  "rev (opt_field k v g) = opt_field k v g"
  "map_get (opt_field k v g) k' = (if present v \<noteq> [] \<and> k = k' then Some (g (present v)) else None)"
  by (simp_all add: opt_field_def)

lemma field_of_one: "field_of f [k] = present (map_get f k)"
  by (simp add: field_of_def split: list.splits)

lemma fields_read_one:
  "field_of (set_all (bib_fields it)) [''title''] = (if present (it_title it) = [] then [] else drop_braces (present (it_title it)))"
  "field_of (set_all (bib_fields it)) [''author''] = (if or_else (it_author it) [] = [] then [] else namesToBibtex (it_author it))"
  "field_of (set_all (bib_fields it)) [''editor''] = (if or_else (it_editor it) [] = [] then [] else namesToBibtex (it_editor it))"
  "field_of (set_all (bib_fields it)) [''year''] = issuedYear it"
  "field_of (set_all (bib_fields it)) [''date''] = []"
  "field_of (set_all (bib_fields it)) [''series''] = (if present (it_collection_title it) = [] then [] else drop_braces (present (it_collection_title it)))"
  "field_of (set_all (bib_fields it)) [''publisher''] = (if present (it_publisher it) = [] then [] else drop_braces (present (it_publisher it)))"
  "field_of (set_all (bib_fields it)) [''edition''] = (if present (it_edition it) = [] then [] else drop_braces (present (it_edition it)))"
  "field_of (set_all (bib_fields it)) [''volume''] = present (it_volume it)"
  "field_of (set_all (bib_fields it)) [''pages''] = (if present (it_page it) = [] then [] else double_dash (present (it_page it)))"
  "field_of (set_all (bib_fields it)) [''url''] = present (it_URL it)"
  "field_of (set_all (bib_fields it)) [''doi''] = present (it_DOI it)"
  "field_of (set_all (bib_fields it)) [''isbn''] = present (it_ISBN it)"
  "field_of (set_all (bib_fields it)) [''issn''] = present (it_ISSN it)"
  "field_of (set_all (bib_fields it)) [''abstract''] = []"
  "field_of (set_all (bib_fields it)) [''note''] = (if present (it_note it) = [] then [] else drop_braces (present (it_note it)))"
  unfolding field_of_one map_get_set_all bib_fields_def rev_append map_get_append
  by (simp_all add: present_def)

lemma fields_read_several:
  "field_of (set_all (bib_fields it)) [''journal'', ''journaltitle'', ''booktitle''] =
     (if present (it_container_title it) = [] then [] else drop_braces (present (it_container_title it)))"
  "field_of (set_all (bib_fields it)) [''address'', ''location''] =
     (if present (it_publisher_place it) = [] then [] else drop_braces (present (it_publisher_place it)))"
  "field_of (set_all (bib_fields it)) [''number'', ''issue''] = present (it_issue it)"
  unfolding field_of_def list.map map_get_set_all bib_fields_def rev_append map_get_append
  by (simp_all add: present_def)

lemma opt_okD: "opt_ok P v \<Longrightarrow> present v \<noteq> [] \<Longrightarrow> P (present v)"
  by (auto simp: opt_ok_def present_def split: option.splits)

lemma read_plain: "opt_ok plain_words v \<Longrightarrow> when_present (if present v = [] then [] else drop_braces (present v)) cleanLatex = v"
  by (cases v) (auto simp: opt_ok_def present_def when_present_def drop_braces_plain cleanLatex_plain)

lemma read_raw: "opt_ok P v \<Longrightarrow> when_present (present v) id = v"
  by (cases v) (auto simp: opt_ok_def present_def when_present_def)

lemma read_page: "opt_ok P v \<Longrightarrow> when_present (if present v = [] then [] else double_dash (present v)) undouble = v"
  by (cases v) (auto simp: opt_ok_def present_def when_present_def undouble_double double_dash_facts(3))

lemma read_names:
  assumes "names_ok ns"
  shows "when_present (if or_else ns [] = [] then [] else namesToBibtex ns) (parseAuthors \<circ> cleanLatex) = ns"
proof (cases ns)
  case (Some l)
  then have l: "l \<noteq> []" "list_all name_ok l" using assms by (simp_all add: names_ok_def)
  then show ?thesis
    using names_read_back [OF l] names_text_plain(1) [OF l] plain_not_Nil Some by (auto simp: when_present_def)
qed (simp add: when_present_def)

lemma read_date:
  assumes "date_ok (it_issued it)"
  shows "(if issuedYear it = [] then None else yearToDate (issuedYear it)) = it_issued it"
proof (cases "it_issued it")
  case (Some d)
  then obtain y where y: "dt_date_parts d = Some [[y]]" "dt_raw d = None" "y \<noteq> 0" "\<bar>y\<bar> \<le> MAX_EXACT"
    using assms by (auto simp: date_ok_def split: option.splits list.splits)
  then show ?thesis using Some by (cases d) (simp add: issuedYear_def first_year_def yearToDate_def)
qed (simp add: issuedYear_def first_year_def)

lemma type_reads_back:
  assumes "ty \<in> set carried_types"
  shows "table_or inh TYPE_TO_CSL (table_or inh CSL_TO_TYPE ty ''misc'') ''document'' = ty"
    "type_ok (table_or inh CSL_TO_TYPE ty ''misc'')" "CHR 0x0D \<notin> set (table_or inh CSL_TO_TYPE ty ''misc'')"
proof -
  define s where "s = the (map_of CSL_TO_TYPE ty)"
  have all: "list_all (\<lambda>ty. map_of CSL_TO_TYPE ty \<noteq> None
        \<and> map_of TYPE_TO_CSL (the (map_of CSL_TO_TYPE ty)) = Some ty
        \<and> type_ok (the (map_of CSL_TO_TYPE ty)) \<and> CHR 0x0D \<notin> set (the (map_of CSL_TO_TYPE ty))) carried_types"
    by code_simp
  then have s: "map_of CSL_TO_TYPE ty = Some s" "map_of TYPE_TO_CSL s = Some ty" "type_ok s" "CHR 0x0D \<notin> set s"
    using assms by (auto simp: list_all_iff s_def)
  then show "table_or inh TYPE_TO_CSL (table_or inh CSL_TO_TYPE ty ''misc'') ''document'' = ty"
    "type_ok (table_or inh CSL_TO_TYPE ty ''misc'')" "CHR 0x0D \<notin> set (table_or inh CSL_TO_TYPE ty ''misc'')"
    by (simp_all add: table_or_def)
qed

lemma item_reads_back:
  assumes "export_ok it"
  shows "fieldsToCsl inh draw (table_or inh CSL_TO_TYPE (it_type it) ''misc'', it_id it, set_all (bib_fields it)) = it"
proof -
  have p: "opt_ok plain_words (it_title it)" "opt_ok plain_words (it_container_title it)"
      "opt_ok plain_words (it_collection_title it)" "opt_ok plain_words (it_publisher it)"
      "opt_ok plain_words (it_publisher_place it)" "opt_ok plain_words (it_edition it)" "opt_ok plain_words (it_note it)"
    and r: "opt_ok raw_ok (it_volume it)" "opt_ok raw_ok (it_issue it)" "opt_ok raw_ok (it_page it)"
      "opt_ok raw_ok (it_URL it)" "opt_ok raw_ok (it_DOI it)" "opt_ok raw_ok (it_ISBN it)" "opt_ok raw_ok (it_ISSN it)"
    and n: "names_ok (it_author it)" "names_ok (it_editor it)" "date_ok (it_issued it)"
      "it_number it = None" "it_abstract it = None" "it_type it \<in> set carried_types" "it_id it \<noteq> []"
    using assms by (simp_all add: export_ok_def key_ok_def)
  have year: "(if (if issuedYear it \<noteq> [] then issuedYear it else take 4 []) = [] then None
      else yearToDate (if issuedYear it \<noteq> [] then issuedYear it else take 4 [])) = it_issued it"
    using read_date [OF n(3)] by (cases "issuedYear it = []") simp_all
  show ?thesis
    unfolding fieldsToCsl_def Let_def prod.case fields_read_one fields_read_several
      read_plain [OF p(1)] read_plain [OF p(2)] read_plain [OF p(3)] read_plain [OF p(4)] read_plain [OF p(5)]
      read_plain [OF p(6)] read_plain [OF p(7)] read_raw [OF r(1)] read_raw [OF r(2)] read_page [OF r(3)]
      read_raw [OF r(4)] read_raw [OF r(5)] read_raw [OF r(6)] read_raw [OF r(7)] read_names [OF n(1)]
      read_names [OF n(2)] type_reads_back(1) [OF n(6)] year
    using n(4,5,7) by (cases it) (simp add: when_present_def)
qed

text \<open>What is written has fields the reader takes apart, and no carriage return.\<close>

lemma list_all_field_if: "list_all Q (field_if b k v) \<longleftrightarrow> (b \<longrightarrow> Q (k, v))"
  by (simp add: field_if_def)

lemma list_all_opt_field: "list_all Q (opt_field k v g) \<longleftrightarrow> (present v \<noteq> [] \<longrightarrow> Q (k, g (present v)))"
  by (simp add: opt_field_def list_all_field_if)

lemma written_plain: "opt_ok plain_words v \<Longrightarrow> present v \<noteq> [] \<Longrightarrow> raw_ok (drop_braces (present v))"
  by (auto dest: opt_okD simp: drop_braces_plain raw_plain)

lemma written_names: "names_ok ns \<Longrightarrow> or_else ns [] \<noteq> [] \<Longrightarrow> raw_ok (namesToBibtex ns)"
  by (cases ns) (auto simp: names_ok_def intro!: raw_plain names_text_plain(1))

lemma written_page: "opt_ok raw_ok v \<Longrightarrow> present v \<noteq> [] \<Longrightarrow> raw_ok (double_dash (present v))"
  by (auto dest!: opt_okD simp: raw_ok_def double_dash_facts)

lemma written_year: "raw_ok (issuedYear it)"
  using raw_show_int by (simp add: issuedYear_def raw_nil split: option.split)

lemma field_keys:
  "list_all (\<lambda>k. field_key k \<and> CHR 0x0D \<notin> set k)
     [''title'', ''author'', ''editor'', ''year'', ''booktitle'', ''journal'', ''series'', ''publisher'', ''address'',
      ''edition'', ''volume'', ''number'', ''pages'', ''url'', ''doi'', ''isbn'', ''issn'', ''note'']"
  by code_simp

definition line_ok :: "string \<times> string \<Rightarrow> bool" where
  "line_ok kv \<longleftrightarrow> field_key (fst kv) \<and> CHR 0x0D \<notin> set (fst kv) \<and> raw_ok (snd kv)"

lemma written_fields: "export_ok it \<Longrightarrow> list_all line_ok (bib_fields it)"
  using field_keys
  by (simp add: export_ok_def bib_fields_def list_all_field_if list_all_opt_field line_ok_def
      written_plain written_names written_page written_year opt_okD)

lemma export_item:
  assumes "export_ok it"
  shows "itemToBibtex inh it = entry_text (table_or inh CSL_TO_TYPE (it_type it) ''misc'') (it_id it) (bib_fields it)"
    "CHR 0x0D \<notin> set (itemToBibtex inh it)" "fields_ok (bib_fields it)"
proof -
  have w: "list_all line_ok (bib_fields it)" using written_fields [OF assms] .
  show "itemToBibtex inh it = entry_text (table_or inh CSL_TO_TYPE (it_type it) ''misc'') (it_id it) (bib_fields it)"
    by (simp add: itemToBibtex_def entry_text_def)
  show "fields_ok (bib_fields it)"
    using w by (auto simp: fields_ok_def list_all_iff line_ok_def raw_ok_def)
  have "CHR 0x0D \<notin> set (field_line kv)" if "kv \<in> set (bib_fields it)" for kv
    using w that by (auto simp: list_all_iff line_ok_def raw_ok_def field_line_def)
  then have "CHR 0x0D \<notin> set (join_text [CHR '','', CHR 0x0A] (map field_line (bib_fields it)))"
    using set_join_text [of "[CHR '','', CHR 0x0A]" "map field_line (bib_fields it)"] by auto
  then show "CHR 0x0D \<notin> set (itemToBibtex inh it)"
    using assms type_reads_back(3) [of "it_type it" inh] by (auto simp: itemToBibtex_def export_ok_def)
qed

lemma bib_entries_library:
  assumes "list_all export_ok items"
  shows "bib_entries (toBibtex inh items) =
    map (\<lambda>it. (table_or inh CSL_TO_TYPE (it_type it) ''misc'', it_id it, set_all (bib_fields it))) items"
proof -
  let ?e = "\<lambda>it. (table_or inh CSL_TO_TYPE (it_type it) ''misc'', it_id it, set_all (bib_fields it))"
  have nl: "list_all not_at [CHR 0x0A]" "list_all not_at [CHR 0x0A, CHR 0x0A]" by (simp_all add: not_at_def)
  have one: "bib_entries (itemToBibtex inh it @ r) = ?e it # bib_entries r" if "export_ok it" for it r
    using that type_reads_back(2) [of "it_type it" inh] export_item(3) [OF that]
    unfolding export_item(1) [OF that] by (intro bib_entries_entry) (simp_all add: export_ok_def)
  have none: "bib_entries [] = []" by (subst bib_entries.simps) simp
  have "bib_entries (join_text [CHR 0x0A, CHR 0x0A] (map (itemToBibtex inh) items) @ [CHR 0x0A]) = map ?e items"
    using assms
  proof (induction items rule: induct_list012)
    case 1
    then show ?case using bib_entries_gap [OF nl(1), of "[]"] none by simp
  next
    case (2 it)
    then show ?case using one [of it "[CHR 0x0A]"] bib_entries_gap [OF nl(1), of "[]"] none by simp
  next
    case (3 it iu items)
    then show ?case
      using one [of it "[CHR 0x0A, CHR 0x0A] @ join_text [CHR 0x0A, CHR 0x0A] (map (itemToBibtex inh) (iu # items)) @ [CHR 0x0A]"]
        bib_entries_gap [OF nl(2)] by simp
  qed
  then show ?thesis by (simp add: toBibtex_def)
qed

text \<open>
  C36: Sources with a key, a type BibTeX knows, titles and names typed without LaTeX, and dates that are years, that
  are written to a BibTeX file and read from it again are the same sources, in the same order and with every field.
\<close>

theorem exported_library_reads_back:
  assumes "list_all export_ok items"
  shows "parseBibtex inh draw (toBibtex inh items) = items"
proof -
  have "CHR 0x0D \<notin> set (toBibtex inh items)"
    using set_join_text [of "[CHR 0x0A, CHR 0x0A]" "map (itemToBibtex inh) items"] assms export_item(2)
    by (auto simp: toBibtex_def list_all_iff)
  then have "parseBibtex inh draw (toBibtex inh items) =
      map (\<lambda>(i, e). fieldsToCsl inh (draw i) e) (zip [0..<length items] (map (\<lambda>it.
        (table_or inh CSL_TO_TYPE (it_type it) ''misc'', it_id it, set_all (bib_fields it))) items))"
    by (simp add: parseBibtex_def unix_newlines_id bib_entries_library [OF assms])
  also have "\<dots> = items"
    by (rule nth_equalityI) (use assms in \<open>auto simp: list_all_length item_reads_back\<close>)
  finally show ?thesis .
qed

definition example_source :: csl_item where
  "example_source = (blank_item ''smith2020'' ''article-journal'')
     \<lparr>it_title := Some ''On Typing and Androids'',
      it_author := Some [\<lparr>nm_family = Some ''Smith'', nm_given = Some ''Ann'', nm_literal = None\<rparr>,
                         \<lparr>nm_family = Some ''Plato'', nm_given = None, nm_literal = None\<rparr>],
      it_issued := Some \<lparr>dt_date_parts = Some [[2020]], dt_raw = None\<rparr>,
      it_page := Some ''145-182'', it_URL := Some ''https://example.org/{a}?b=c,d''\<rparr>"

theorem exported_library_reads_back_witness:
  "parseBibtex (\<lambda>_. None) (\<lambda>_. []) (toBibtex (\<lambda>_. None) [example_source, example_source]) = [example_source, example_source]"
proof -
  have "list_all export_ok [example_source, example_source]" by code_simp
  then show ?thesis by (rule exported_library_reads_back)
qed

section \<open>Where files do not read as they should\<close>

text \<open>
  A quotation mark inside braces does not end a quoted value in BibTeX: here it does, the title is cut at the
  accent and the fields after it are lost.
\<close>

definition quoted_file :: string where
  "quoted_file = ''@book{k, title = '' @ [CHR 0x22] @ ''G{'' @ [CHR 0x5C, CHR 0x22] @ ''o}del'' @ [CHR 0x22]
     @ '', publisher = {X}}''"

lemma quoted_accent_cuts_title:
  "bib_entries quoted_file = [(''book'', ''k'', [(''title'', ''G{'' @ [CHR 0x5C])])]"
  by code_simp

text \<open>An entry without fields takes the next entry for its own field.\<close>

lemma bare_entry_swallows_next:
  "bib_entries ''@misc{a} @book{b, title = {T}}'' = [(''misc'', ''a'', [(''@book{b, title'', ''T'')])]"
  by code_simp

text \<open>The braces around an institution are dropped before its name is read, which makes it a person.\<close>

lemma institution_becomes_person:
  "parseAuthors (cleanLatex (namesToBibtex (Some [\<lparr>nm_family = None, nm_given = None, nm_literal = Some ''World Health Organization''\<rparr>])))
     = [\<lparr>nm_family = Some ''Organization'', nm_given = Some ''World Health'', nm_literal = None\<rparr>]"
  by code_simp

text \<open>An abstract is read but never written.\<close>

lemma abstract_not_written:
  "toBibtex inh [it\<lparr>it_abstract := a\<rparr>] = toBibtex inh [it]"
  by (simp add: toBibtex_def itemToBibtex_def bib_fields_def issuedYear_def)

end
