(* ===== verification/LiveDocSources.thy ===== *)
theory LiveDocSources
  imports LiveDocBibtex JsSort
begin

text \<open>
  The two lists of sources a live document works with: the list of the document in the shared map
  (\<open>components/chat/livedoc/useLiveDocSources.ts\<close>), the personal library of the user kept on the file
  server (\<open>liveDocMasterSourcesStore.ts\<close>), the form that edits one source (\<open>LiveDocSourceEditor.tsx\<close>) and
  the import and export of the source manager (\<open>LiveDocSourceManager.tsx\<close>).

  The library is loaded by a call that may be answered late, and written some time after each change; a step
  is a change, the answer of a load or the end of that time.  Once the library is loaded and no older change waits
  to be written, every write holds all of it that the user did not remove (\<open>library_edits_keep_loaded\<close>).  The string comparison of the
  locale is a parameter, a document is written as text of a list directly, and the answer of a load comes as what
  \<open>JSON.parse\<close> makes of it.
\<close>

section \<open>The list of the document\<close>

type_synonym doc_sources = "(string, csl_item) jmap"

definition sourceSortKey :: "csl_item \<Rightarrow> string" where
  "sourceSortKey item =
     (let a = Option.bind (it_author item) head_opt
      in to_lower (or_else (or_opt (or_opt (Option.bind a nm_family) (Option.bind a nm_literal)) (it_title item)) (it_id item)))"

definition listLiveDocSources :: "(string \<Rightarrow> string \<Rightarrow> int) \<Rightarrow> doc_sources option \<Rightarrow> csl_item list" where
  "listLiveDocSources localeCompare doc =
     (case doc of None \<Rightarrow> []
      | Some m \<Rightarrow> js_sort (\<lambda>a b. localeCompare (sourceSortKey a) (sourceSortKey b)) (map_values m))"

definition setLiveDocSource :: "csl_item \<Rightarrow> doc_sources \<Rightarrow> doc_sources" where
  "setLiveDocSource item m = map_set (it_id item) item m"

definition deleteLiveDocSource :: "string \<Rightarrow> doc_sources \<Rightarrow> doc_sources" where
  "deleteLiveDocSource i m = map_del i m"

definition getLiveDocSource :: "doc_sources option \<Rightarrow> string \<Rightarrow> csl_item option" where
  "getLiveDocSource doc i = Option.bind doc (\<lambda>m. map_get m i)"

text \<open>The citation style; \<open>None\<close> in the map is a value that is absent or no string.\<close>

definition DEFAULT_CITATION_STYLE :: string where
  "DEFAULT_CITATION_STYLE = ''apa''"

definition useLiveDocCitationStyle :: "string option \<Rightarrow> string" where
  "useLiveDocCitationStyle v = or_else v DEFAULT_CITATION_STYLE"

section \<open>The library of the user\<close>

record source_library =
  lb_sources :: "csl_item list"
  lb_loaded :: bool
  lb_available :: bool

type_synonym put_call = "(string \<times> string) \<times> csl_item list"

text \<open>
  The library with the credentials of the file server, the write waiting for its time, the number of loads
  under way and the writes made.
\<close>

record library_world =
  lw_library :: source_library
  lw_creds :: "(string \<times> string) option"
  lw_persistTimer :: "put_call option"
  lw_loads :: nat
  lw_puts :: "put_call list"

definition initial_library :: library_world where
  "initial_library =
     \<lparr>lw_library = \<lparr>lb_sources = [], lb_loaded = False, lb_available = False\<rparr>, lw_creds = None,
      lw_persistTimer = None, lw_loads = 0, lw_puts = []\<rparr>"

definition schedule_library :: "csl_item list \<Rightarrow> library_world \<Rightarrow> library_world" where
  "schedule_library sources w =
     (case lw_creds w of None \<Rightarrow> w | Some c \<Rightarrow> w\<lparr>lw_persistTimer := Some (c, sources)\<rparr>)"

definition mutate_library :: "csl_item list \<Rightarrow> library_world \<Rightarrow> library_world" where
  "mutate_library items w = schedule_library items (w\<lparr>lw_library := (lw_library w)\<lparr>lb_sources := items\<rparr>\<rparr>)"

definition other_sources :: "string \<Rightarrow> csl_item list \<Rightarrow> csl_item list" where
  "other_sources i items = filter (\<lambda>s. it_id s \<noteq> i) items"

definition upsert_source :: "csl_item \<Rightarrow> library_world \<Rightarrow> library_world" where
  "upsert_source item w = mutate_library (other_sources (it_id item) (lb_sources (lw_library w)) @ [item]) w"

definition remove_source :: "string \<Rightarrow> library_world \<Rightarrow> library_world" where
  "remove_source i w = mutate_library (other_sources i (lb_sources (lw_library w))) w"

definition load_library :: "library_world \<Rightarrow> library_world" where
  "load_library w =
     (case lw_creds w of
        None \<Rightarrow> w\<lparr>lw_library := (lw_library w)\<lparr>lb_loaded := True, lb_available := False\<rparr>\<rparr>
      | Some c \<Rightarrow> w\<lparr>lw_loads := Suc (lw_loads w)\<rparr>)"

text \<open>What the server answers: nothing stored, a list, another value, or an error or a text that is no JSON.\<close>

datatype library_reply = NothingStored | LibraryStored "csl_item list" | OtherValue | ReplyFailed

definition load_library_reply :: "library_reply \<Rightarrow> library_world \<Rightarrow> library_world" where
  "load_library_reply r w =
     (let l = lw_library w;
          good = (\<lambda>items. w\<lparr>lw_loads := lw_loads w - 1,
                            lw_library := \<lparr>lb_sources = items, lb_loaded = True, lb_available = True\<rparr>\<rparr>)
      in if lw_loads w = 0 then w
         else case r of
                NothingStored \<Rightarrow> good []
              | LibraryStored items \<Rightarrow> good items
              | OtherValue \<Rightarrow> good []
              | ReplyFailed \<Rightarrow> w\<lparr>lw_loads := lw_loads w - 1, lw_library := l\<lparr>lb_loaded := True, lb_available := False\<rparr>\<rparr>)"

definition write_library :: "library_world \<Rightarrow> library_world" where
  "write_library w =
     (case lw_persistTimer w of None \<Rightarrow> w
      | Some p \<Rightarrow> w\<lparr>lw_persistTimer := None, lw_puts := lw_puts w @ [p]\<rparr>)"

datatype library_event =
    CredsChange "(string \<times> string) option" | LoadLibrary | LibraryReply library_reply
  | UpsertSource csl_item | RemoveSource string | PersistFires

fun library_step :: "library_world \<Rightarrow> library_event \<Rightarrow> library_world" where
  "library_step w (CredsChange c) = w\<lparr>lw_creds := c\<rparr>"
| "library_step w LoadLibrary = load_library w"
| "library_step w (LibraryReply r) = load_library_reply r w"
| "library_step w (UpsertSource item) = upsert_source item w"
| "library_step w (RemoveSource i) = remove_source i w"
| "library_step w PersistFires = write_library w"

section \<open>Importing\<close>

definition import_one :: "doc_sources \<times> library_world \<Rightarrow> csl_item \<Rightarrow> doc_sources \<times> library_world" where
  "import_one dw item = (setLiveDocSource item (fst dw), upsert_source item (snd dw))"

definition importBibtex ::
  "(string \<Rightarrow> string option) \<Rightarrow> (nat \<Rightarrow> string) \<Rightarrow> string \<Rightarrow> doc_sources \<times> library_world \<Rightarrow> doc_sources \<times> library_world" where
  "importBibtex inh draw txt dw = foldl import_one dw (parseBibtex inh draw txt)"

section \<open>The form of a source\<close>

record source_form =
  sf_type :: string
  sf_title :: string
  sf_authors :: string
  sf_year :: string
  sf_container :: string
  sf_publisher :: string
  sf_place :: string
  sf_volume :: string
  sf_issue :: string
  sf_page :: string
  sf_edition :: string
  sf_url :: string
  sf_doi :: string

definition open_form :: "csl_item option \<Rightarrow> source_form" where
  "open_form init =
     (let get = (\<lambda>f. present (Option.bind init f))
      in \<lparr>sf_type = (case init of None \<Rightarrow> ''book'' | Some it \<Rightarrow> it_type it),
          sf_title = get it_title, sf_authors = authorsToString (Option.bind init it_author),
          sf_year = (case init of None \<Rightarrow> [] | Some it \<Rightarrow> issuedYear it),
          sf_container = get it_container_title, sf_publisher = get it_publisher, sf_place = get it_publisher_place,
          sf_volume = get it_volume, sf_issue = get it_issue, sf_page = get it_page, sf_edition = get it_edition,
          sf_url = get it_URL, sf_doi = get it_DOI\<rparr>)"

definition form_value :: "string \<Rightarrow> string option" where
  "form_value v = (if trim v = [] then None else Some (trim v))"

definition save_form :: "string \<Rightarrow> csl_item option \<Rightarrow> source_form \<Rightarrow> csl_item" where
  "save_form draw init f =
     (let authors = parseAuthors (sf_authors f);
          date = yearToDate (sf_year f);
          base = (case init of None \<Rightarrow> blank_item (makeSourceId draw (Some authors) date) (sf_type f) | Some it \<Rightarrow> it)
      in base\<lparr>it_type := sf_type f, it_title := form_value (sf_title f),
              it_author := (if authors = [] then None else Some authors), it_issued := date,
              it_container_title := form_value (sf_container f), it_publisher := form_value (sf_publisher f),
              it_publisher_place := form_value (sf_place f), it_volume := form_value (sf_volume f),
              it_issue := form_value (sf_issue f), it_page := form_value (sf_page f),
              it_edition := form_value (sf_edition f), it_URL := form_value (sf_url f), it_DOI := form_value (sf_doi f)\<rparr>)"

section \<open>The library keeps each source once and loses none\<close>

definition source_ids :: "csl_item list \<Rightarrow> string list" where
  "source_ids items = map it_id items"

lemma ids_other [simp]: "set (source_ids (other_sources i items)) = set (source_ids items) - {i}"
  by (auto simp: source_ids_def other_sources_def)

lemma ids_append [simp]: "source_ids (a @ b) = source_ids a @ source_ids b" "source_ids [x] = [it_id x]" "source_ids [] = []"
  by (simp_all add: source_ids_def)

lemma distinct_other: "distinct (source_ids items) \<Longrightarrow> distinct (source_ids (other_sources i items))"
  by (simp add: source_ids_def other_sources_def distinct_map_filter)

lemmas library_defs =
  load_library_def load_library_reply_def write_library_def upsert_source_def remove_source_def mutate_library_def
  schedule_library_def

definition library_ok :: "library_world \<Rightarrow> bool" where
  "library_ok w \<longleftrightarrow>
     distinct (source_ids (lb_sources (lw_library w)))
     \<and> (case lw_persistTimer w of None \<Rightarrow> True | Some p \<Rightarrow> distinct (source_ids (snd p)))
     \<and> list_all (\<lambda>p. distinct (source_ids (snd p))) (lw_puts w)"

fun answer_ok :: "library_event \<Rightarrow> bool" where
  "answer_ok (LibraryReply (LibraryStored items)) \<longleftrightarrow> distinct (source_ids items)"
| "answer_ok _ \<longleftrightarrow> True"

lemma library_step_ok:
  assumes "library_ok w" "answer_ok e"
  shows "library_ok (library_step w e)"
proof (cases e)
  case (LibraryReply r)
  then show ?thesis using assms by (cases r) (auto simp: library_ok_def library_defs Let_def)
qed (use assms in \<open>auto simp: library_ok_def library_defs distinct_other split: option.splits\<close>)

lemma library_keys_distinct:
  "list_all answer_ok es \<Longrightarrow> library_ok (foldl library_step initial_library es)"
proof (induction es rule: rev_induct)
  case Nil
  then show ?case by (simp add: library_ok_def initial_library_def)
qed (simp add: library_step_ok)

text \<open>The changes a user makes to a loaded library.\<close>

fun edit_event :: "library_event \<Rightarrow> bool" where
  "edit_event LoadLibrary \<longleftrightarrow> False"
| "edit_event (LibraryReply r) \<longleftrightarrow> False"
| "edit_event _ \<longleftrightarrow> True"

text \<open>A source is in the library, in the write that waits and in the writes made after the first \<open>n\<close>.\<close>

definition everywhere :: "nat \<Rightarrow> string \<Rightarrow> library_world \<Rightarrow> bool" where
  "everywhere n i w \<longleftrightarrow>
     i \<in> set (source_ids (lb_sources (lw_library w)))
     \<and> (case lw_persistTimer w of None \<Rightarrow> True | Some p \<Rightarrow> i \<in> set (source_ids (snd p)))
     \<and> n \<le> length (lw_puts w) \<and> (\<forall>p \<in> set (drop n (lw_puts w)). i \<in> set (source_ids (snd p)))"

lemma everywhere_step:
  assumes "everywhere n i w" "edit_event e" "e \<noteq> RemoveSource i"
  shows "everywhere n i (library_step w e)"
  using assms by (cases e) (auto simp: everywhere_def library_defs split: option.splits)

lemma everywhere_run:
  "everywhere n i w \<Longrightarrow> list_all edit_event es \<Longrightarrow> RemoveSource i \<notin> set es \<Longrightarrow> everywhere n i (foldl library_step w es)"
  by (induction es rule: rev_induct) (auto simp: everywhere_step)

text \<open>
  C39: From a state of the personal library on, and until it is loaded again, every write to the server
  holds each source of that state the user did not remove, whatever is added, replaced, removed or lost of the
  credentials.  The write that waits in that state, if there is one, has to hold the source as well: where a
  change was made before the answer of a load, the write it left waiting does not
  (\<open>pending_write_drops_loaded\<close>).
\<close>

theorem library_edits_keep_loaded:
  assumes "\<forall>q. lw_persistTimer w = Some q \<longrightarrow> i \<in> it_id ` set (snd q)" "list_all edit_event es"
    "p \<in> set (drop (length (lw_puts w)) (lw_puts (foldl library_step w es)))"
    "i \<in> it_id ` set (lb_sources (lw_library w))" "RemoveSource i \<notin> set es"
  shows "i \<in> it_id ` set (snd p)"
proof -
  have "everywhere (length (lw_puts w)) i w"
    using assms(1,4) by (auto simp: everywhere_def source_ids_def split: option.splits)
  then have "everywhere (length (lw_puts w)) i (foldl library_step w es)" using assms(2,5) by (rule everywhere_run)
  then show ?thesis using assms(3) by (auto simp: everywhere_def source_ids_def)
qed

definition loaded_library :: library_world where
  "loaded_library =
     foldl library_step initial_library
       [CredsChange (Some (''u'', ''j'')), LoadLibrary,
        LibraryReply (LibraryStored [blank_item ''a'' ''book'', blank_item ''b'' ''book''])]"

theorem library_edits_keep_loaded_witness:
  "''a'' \<in> it_id ` set [blank_item ''a'' ''book'', blank_item ''c'' ''book'']"
proof -
  let ?w = "library_step loaded_library (UpsertSource (blank_item ''d'' ''book''))"
  let ?es = "[RemoveSource ''b'', RemoveSource ''d'', UpsertSource (blank_item ''c'' ''book''), PersistFires]"
  let ?p = "((''u'', ''j''), [blank_item ''a'' ''book'', blank_item ''c'' ''book''])"
  have "lw_persistTimer ?w = Some ((''u'', ''j''), map (\<lambda>i. blank_item i ''book'') [''a'', ''b'', ''d''])" by code_simp
  then have "\<forall>q. lw_persistTimer ?w = Some q \<longrightarrow> ''a'' \<in> it_id ` set (snd q)" by (simp add: blank_item_def)
  moreover have "list_all edit_event ?es" "?p \<in> set (drop (length (lw_puts ?w)) (lw_puts (foldl library_step ?w ?es)))"
      "''a'' \<in> it_id ` set (lb_sources (lw_library ?w))"
    by code_simp+
  moreover have "RemoveSource ''a'' \<notin> set ?es" by simp
  ultimately have "''a'' \<in> it_id ` set (snd ?p)" by (rule library_edits_keep_loaded)
  then show ?thesis by simp
qed

text \<open>
  A change made before the answer of the load leaves a write waiting that was taken from the empty library;
  when it fires it replaces what is stored, although the library shows the loaded sources.
\<close>

lemma pending_write_drops_loaded:
  "let w = foldl library_step initial_library
      [CredsChange (Some (''u'', ''j'')), LoadLibrary, UpsertSource (blank_item ''c'' ''book''),
       LibraryReply (LibraryStored [blank_item ''a'' ''book'', blank_item ''b'' ''book'']), PersistFires]
   in map (source_ids \<circ> snd) (lw_puts w) = [[''c'']] \<and> source_ids (lb_sources (lw_library w)) = [''a'', ''b'']"
  by code_simp

text \<open>Before the library is loaded this fails: what is written then replaces the whole library on the server.\<close>

lemma early_edit_wipes_library:
  "lw_puts (foldl library_step initial_library
      [CredsChange (Some (''u'', ''j'')), LoadLibrary, LibraryReply ReplyFailed,
       UpsertSource (blank_item ''c'' ''book''), PersistFires])
   = [((''u'', ''j''), [blank_item ''c'' ''book''])]"
  by code_simp

text \<open>A load while a change waits to be written brings the old list back, and the next change writes it.\<close>

lemma reload_loses_pending_source:
  "map (source_ids \<circ> snd) (lw_puts (foldl library_step loaded_library
      [UpsertSource (blank_item ''c'' ''book''), LoadLibrary,
       LibraryReply (LibraryStored [blank_item ''a'' ''book'', blank_item ''b'' ''book'']), PersistFires,
       UpsertSource (blank_item ''d'' ''book''), PersistFires]))
   = [[''a'', ''b'', ''c''], [''a'', ''b'', ''d'']]"
  by code_simp

section \<open>An import reaches both lists\<close>

definition library_find :: "string \<Rightarrow> csl_item list \<Rightarrow> csl_item option" where
  "library_find i items = List.find (\<lambda>s. it_id s = i) items"

lemma find_other: "library_find i (other_sources j items @ [x]) =
    (if it_id x = j \<and> i = j then Some x else if i = j then None else
       case library_find i items of Some s \<Rightarrow> Some s | None \<Rightarrow> if it_id x = i then Some x else None)"
  by (induction items) (auto simp: library_find_def other_sources_def)

lemma import_one_agrees:
  "getLiveDocSource (Some (fst (import_one dw item))) (it_id item) = Some item"
  "library_find (it_id item) (lb_sources (lw_library (snd (import_one dw item)))) = Some item"
  "i \<noteq> it_id item \<Longrightarrow> getLiveDocSource (Some (fst (import_one dw item))) i = getLiveDocSource (Some (fst dw)) i"
  "i \<noteq> it_id item \<Longrightarrow> library_find i (lb_sources (lw_library (snd (import_one dw item)))) = library_find i (lb_sources (lw_library (snd dw)))"
  by (auto simp: import_one_def setLiveDocSource_def getLiveDocSource_def upsert_source_def mutate_library_def
      schedule_library_def find_other split: option.splits)

text \<open>
  After a BibTeX file was imported, each of its sources is in the document and in the personal library under its
  key, in both as the last entry of the file with that key.
\<close>

theorem import_reaches_both_lists:
  assumes "item \<in> set (parseBibtex inh draw txt)"
  shows "\<exists>last \<in> set (parseBibtex inh draw txt).
     it_id last = it_id item
     \<and> getLiveDocSource (Some (fst (importBibtex inh draw txt dw))) (it_id item) = Some last
     \<and> library_find (it_id item) (lb_sources (lw_library (snd (importBibtex inh draw txt dw)))) = Some last"
proof -
  have "item \<in> set items \<Longrightarrow> \<exists>last \<in> set items. it_id last = it_id item
     \<and> getLiveDocSource (Some (fst (foldl import_one dw items))) (it_id item) = Some last
     \<and> library_find (it_id item) (lb_sources (lw_library (snd (foldl import_one dw items)))) = Some last" for items
  proof (induction items rule: rev_induct)
    case (snoc x items)
    show ?case
    proof (cases "it_id item = it_id x")
      case True
      then show ?thesis by (intro bexI [of _ x]) (simp_all add: import_one_agrees)
    next
      case False
      then show ?thesis using snoc by (auto simp: import_one_agrees)
    qed
  qed simp
  then show ?thesis using assms by (simp add: importBibtex_def)
qed

theorem import_reaches_both_lists_witness:
  "\<exists>last \<in> set (parseBibtex (\<lambda>_. None) (\<lambda>_. []) ''@book{k, title = {T}}'').
     it_id last = ''k''
     \<and> getLiveDocSource (Some (fst (importBibtex (\<lambda>_. None) (\<lambda>_. []) ''@book{k, title = {T}}'' ([], initial_library)))) ''k'' = Some last
     \<and> library_find ''k'' (lb_sources (lw_library (snd (importBibtex (\<lambda>_. None) (\<lambda>_. []) ''@book{k, title = {T}}'' ([], initial_library))))) = Some last"
proof -
  let ?it = "(blank_item ''k'' ''book'')\<lparr>it_title := Some ''T''\<rparr>"
  have "?it \<in> set (parseBibtex (\<lambda>_. None) (\<lambda>_. []) ''@book{k, title = {T}}'')" by code_simp
  from import_reaches_both_lists [OF this, of "([], initial_library)"] show ?thesis by (simp add: blank_item_def)
qed

section \<open>Saving a form that was not changed\<close>

definition trimmed :: "string \<Rightarrow> bool" where
  "trimmed s \<longleftrightarrow> trim s = s"

definition form_ok :: "csl_item \<Rightarrow> bool" where
  "form_ok it \<longleftrightarrow>
     list_all (opt_ok trimmed)
       [it_title it, it_container_title it, it_publisher it, it_publisher_place it, it_volume it, it_issue it,
        it_page it, it_edition it, it_URL it, it_DOI it]
     \<and> names_ok (it_author it) \<and> date_ok (it_issued it)"

lemma form_value_present: "opt_ok trimmed v \<Longrightarrow> form_value (present v) = v"
  by (cases v) (auto simp: opt_ok_def form_value_def present_def trimmed_def)

lemma split_on_joined:
  assumes "ts \<noteq> []" "\<forall>t \<in> set ts. CHR '';'' \<notin> set t"
  shows "map trim (split_on (CHR '';'') (join_text ''; '' ts)) = map trim ts"
  using assms
proof (induction ts rule: induct_list012)
  case (2 t)
  then show ?case by (simp add: split_on_fresh)
next
  case (3 t u ts)
  define r where "r = join_text ''; '' (u # ts)"
  have ws: "map trim (split_on (CHR '';'') (CHR '' '' # r)) = map trim (split_on (CHR '';'') r)"
    by (cases "split_on (CHR '';'') r") (simp_all add: trim_def)
  have "split_on (CHR '';'') (t @ CHR '';'' # CHR '' '' # r) = t # split_on (CHR '';'') (CHR '' '' # r)"
    using 3 by (simp add: split_on_first)
  moreover have "map trim (split_on (CHR '';'') r) = map trim (u # ts)" using 3 by (simp add: r_def)
  ultimately show ?case using ws by (simp add: r_def)
qed simp

lemma join_semi_last:
  assumes "ts \<noteq> []" "list_all plain_words ts"
  shows "join_text sep ts \<noteq> [] \<and> \<not> is_ws (hd (join_text sep ts)) \<and> \<not> is_ws (last (join_text sep ts))"
  using assms
proof (induction ts rule: induct_list012)
  case (2 t)
  then show ?case using spaced_hd [of t] spaced_last [of True t] by (auto simp: plain_words_def)
next
  case (3 t u ts)
  then show ?case using spaced_hd [of t] by (auto simp: plain_words_def hd_append last_append)
qed simp

lemma authors_read_back:
  assumes "ns \<noteq> []" "list_all name_ok ns"
  shows "parseAuthors (authorsToString (Some ns)) = ns"
proof -
  let ?ts = "map family_given ns"
  let ?j = "join_text ''; '' ?ts"
  have "map (\<lambda>n. if present (nm_literal n) \<noteq> [] then present (nm_literal n) else family_given n) ns = ?ts"
    using assms(2) by (auto simp: list_all_iff name_ok_def present_def)
  then have a: "authorsToString (Some ns) = ?j" by (simp add: authorsToString_def del: map_eq_conv)
  have ok: "list_all plain_words ?ts" "\<forall>t \<in> set ?ts. CHR '';'' \<notin> set t" "\<forall>t \<in> set ?ts. trim t = t \<and> t \<noteq> [] \<and> and_free t"
    using assms(2) by (auto simp: list_all_iff name_ok_def name_text_ok_def trim_plain plain_not_Nil)
  have j: "?j \<noteq> []" "trim ?j = ?j" using join_semi_last [of ?ts "''; ''"] ok(1) assms(1) by (simp_all add: trim_id)
  have parts: "map trim (if CHR '';'' \<in> set ?j then split_on (CHR '';'') ?j else split_and [] ?j) = ?ts"
  proof (cases "CHR '';'' \<in> set ?j")
    case True
    then show ?thesis using split_on_joined [of ?ts] ok assms(1) by (simp add: map_idI)
  next
    case False
    moreover have "CHR '';'' \<in> set ?j" if "ns = n # m # r" for n m r using that by simp
    ultimately obtain n where n: "ns = [n]" using assms(1) by (metis list.exhaust)
    then show ?thesis using False split_and_join [of ?ts] ok by simp
  qed
  have "parseAuthors ?j = map name_of (filter (\<lambda>p. p \<noteq> []) ?ts)"
    using parts j by (simp add: parseAuthors_def Let_def)
  also have "filter (\<lambda>p. p \<noteq> []) ?ts = ?ts" using ok(3) by (simp add: filter_id_conv)
  also have "map name_of ?ts = ns" using assms(2) by (simp add: map_idI name_reads_back list_all_iff)
  finally show ?thesis by (simp add: a)
qed

lemma form_authors:
  assumes "names_ok ns"
  shows "(if parseAuthors (authorsToString ns) = [] then None else Some (parseAuthors (authorsToString ns))) = ns"
  using assms authors_read_back
  by (cases ns) (auto simp: names_ok_def authorsToString_def parseAuthors_def)

lemma form_date: "date_ok (it_issued it) \<Longrightarrow> yearToDate (issuedYear it) = it_issued it"
  using read_date [of it]
  by (cases "issuedYear it = []") (auto simp: yearToDate_def parse_int_def parse_sign_def trim_start_def)

text \<open>
  Opening a source in its form and saving it without a change gives the same source back, when its texts have no
  white space at their ends, its authors are persons and its date is a year.
\<close>

theorem unchanged_form_keeps_source:
  assumes "form_ok it"
  shows "save_form draw (Some it) (open_form (Some it)) = it"
proof -
  have a: "(if parseAuthors (authorsToString (it_author it)) = [] then None
      else Some (parseAuthors (authorsToString (it_author it)))) = it_author it"
    using assms by (intro form_authors) (simp add: form_ok_def)
  show ?thesis
    using assms a form_date [of it]
    by (simp add: save_form_def open_form_def Let_def form_ok_def form_value_present)
qed

theorem unchanged_form_keeps_source_witness:
  "save_form [] (Some example_source) (open_form (Some example_source)) = example_source"
proof -
  have "form_ok example_source" by code_simp
  then show ?thesis by (rule unchanged_form_keeps_source)
qed

text \<open>An institution becomes a person, and of a full date only the year is left.\<close>

definition institution_source :: csl_item where
  "institution_source = (blank_item ''who'' ''report'')
     \<lparr>it_author := Some [\<lparr>nm_family = None, nm_given = None, nm_literal = Some ''World Health Organization''\<rparr>],
      it_issued := Some \<lparr>dt_date_parts = Some [[2020, 5, 1]], dt_raw = None\<rparr>\<rparr>"

lemma saved_parts:
  "it_author (save_form draw (Some it) (open_form (Some it))) =
     (let authors = parseAuthors (authorsToString (it_author it)) in if authors = [] then None else Some authors)"
  "it_issued (save_form draw (Some it) (open_form (Some it))) = yearToDate (issuedYear it)"
  by (simp_all add: save_form_def open_form_def Let_def)

lemma form_changes_institution_and_date:
  "it_author (save_form [] (Some institution_source) (open_form (Some institution_source)))
     = Some [\<lparr>nm_family = Some ''Organization'', nm_given = Some ''World Health'', nm_literal = None\<rparr>]"
  "it_issued (save_form [] (Some institution_source) (open_form (Some institution_source)))
     = Some \<lparr>dt_date_parts = Some [[2020]], dt_raw = None\<rparr>"
  unfolding saved_parts by code_simp+

end
