(* ===== verification/Spec2Isabelle.thy ===== *)
theory Spec2Isabelle
  imports Prelude AppTypes Windowing Reactions ReadReceipts Watch DmHistory Polls ChatStore ChatLoop
    PchatStore LiveDocStore Signals AppState Sessions Connection ConnLoop
    PluginTrust PluginGate PluginDispatch Sidebar Slash Markdown MarkdownHtml Mentions HtmlSafety MessageBody Composer
    Offload SafeHtml ChannelTree LazyBlobs Media MessageList ChatSend ScreenShare LiveDocMeta LiveDocMarkdown LiveDocExport LiveDocFrontMatter
    LiveDocOverlay LiveDocImages LiveDocView MessageSelection SavedLists LiveDocBibtex LiveDocSources
begin

text \<open>
  A verification library for the FancyMumble client, the TypeScript application under
  \<open>crates/mumble-tauri/ui/src\<close>.  All paths below are relative to that directory.

  \<^bold>\<open>The program.\<close>  The client is a single-threaded application around one store (\<open>store.ts\<close> and
  \<open>store/*.ts\<close>): actions called by the views and listeners on backend events read and replace
  slices of its state, and await commands of the native backend.  Around it stand components with
  state of their own: reactions, polls, read receipts, watching together, direct-message history,
  the plugin surfaces, the live-document sidebar, the cache of avatars and the swapping out of heavy
  messages; and the text pipeline from the chat input to the page: composer, slash commands,
  mentions, conversion to HTML, sanitising.

  \<^bold>\<open>Shared theories.\<close>  \<open>Prelude\<close> has JavaScript maps and sets as insertion-ordered lists, the string
  operations the code uses, and the generic locales: \<open>keyed_store\<close> (the laws of a map),
  \<open>event_machine\<close> (a handler that keeps an invariant keeps it along every sequence of events) and
  \<open>simulation\<close> (a handler that implements an abstract one).  \<open>JsText\<close> has searching and number
  parsing with the rounding of doubles, \<open>JsRegex\<close> global replacement as functions that match at a
  position, \<open>JsSort\<close> stable sorting; \<open>AppTypes\<close> the value types of \<open>types.ts\<close>.

  \<^bold>\<open>The store.\<close>  \<open>ChatStore\<close> models selection, sending, optimistic messages and message lists,
  \<open>ChatLoop\<close> its event loop: a late reply never overwrites a newer view, no placeholder is stuck.
  \<open>PchatStore\<close> is persistent chat with keys and custodians, \<open>LiveDocStore\<close> the live documents of each
  tab, \<open>Signals\<close> screen-share announcements.  \<open>AppState\<close> puts the slices together; \<open>Sessions\<close> is the
  server tabs and their badges, \<open>Connection\<close> and \<open>ConnLoop\<close> connecting and reconnecting: a disconnect
  the user asked for is final, any other is retried with growing delays.  \<open>PluginTrust\<close>,
  \<open>PluginGate\<close> and \<open>PluginDispatch\<close> are manifests, consent, plugin messages, the file server and the
  voice and log listeners: a plugin acts only with consent in force.

  \<^bold>\<open>Components with state of their own.\<close>  \<open>Reactions\<close> (\<open>components/chat/reaction\<close>), \<open>ReadReceipts\<close>,
  \<open>Watch\<close> (\<open>components/chat/watch\<close>: the host election), \<open>Polls\<close>, \<open>DmHistory\<close> (\<open>dmStorage.ts\<close>),
  \<open>Sidebar\<close> (\<open>components/chat/livedoc/sidebarModel.ts\<close>, \<open>sidebarStore.ts\<close>), \<open>Windowing\<close> (the render
  window of the message list), \<open>Offload\<close> (\<open>messageOffload.ts\<close>), \<open>LazyBlobs\<close> (\<open>lazyBlobs.ts\<close>),
  \<open>ChannelTree\<close> (hiding, listing and reordering channels), \<open>ScreenShare\<close>
  (\<open>components/chat/stream/useScreenShare.ts\<close>: the broadcast, its viewers and the fallback to the relay), \<open>SavedLists\<close>
  (\<open>friendsStorage.ts\<close>, \<open>serverStorage.ts\<close>: lists kept in files, with operations that overlap).

  \<^bold>\<open>Text.\<close>  \<open>Slash\<close> parses slash commands, \<open>Mentions\<close> finds, inserts and renders mentions, \<open>Markdown\<close>
  is the formatted overlay of the input, \<open>MarkdownHtml\<close> the conversion to a message body and back,
  \<open>Composer\<close> the input with its menus; \<open>HtmlSafety\<close> and \<open>MessageBody\<close> show that a body contains only the
  client's own tags and that a message without marks, links and mentions survives editing; \<open>SafeHtml\<close> is the sanitiser of markup
  and addresses from others.

  \<^bold>\<open>Sending and reading.\<close>  \<open>Media\<close> fits images and videos into the size limit and writes gallery markers
  (\<open>utils/media.ts\<close>, \<open>utils/gallery.ts\<close>), \<open>ChatSend\<close> is what the composer sends: text, edits, files,
  galleries, pasted images and the attachment tray (\<open>components/chat/useChatSend.ts\<close>,
  \<open>useDragDropAttachments.ts\<close>); \<open>MessageList\<close> is the list the reader sees
  (\<open>components/chat/ChatMessageList.tsx\<close>): every message has its row, and a gallery that was sent as
  separate messages is one grid again.  \<open>MessageSelection\<close> is
  picking, deleting, quoting and copying messages (\<open>components/chat/message/useMessageSelection.ts\<close>).

  \<^bold>\<open>Live documents.\<close>  \<open>LiveDocMeta\<close> models the settings the collaborators of a document share and the
  address a document is opened by (\<open>components/chat/livedoc/useLiveDoc.ts\<close>): the locale
  \<open>shared_settings\<close> is the contract of one settings object, interpreted for page, decoration, bands and
  captions.  \<open>LiveDocMarkdown\<close> and \<open>LiveDocExport\<close> are the two halves of \<open>liveDocMarkdown.ts\<close> in the same
  directory, the parser from Markdown to the markup of the editor and the serializer back;
  \<open>LiveDocFrontMatter\<close> is the block of metadata above the Markdown (\<open>liveDocFrontMatter.ts\<close>) and how an
  edited block is written back to the shared settings.  \<open>LiveDocOverlay\<close>, \<open>LiveDocImages\<close>
  and \<open>LiveDocView\<close> are the Markdown view (\<open>LiveDocMarkdownView.tsx\<close>, \<open>liveDocMarkdownImages.ts\<close>): what it draws
  over the source, collapsed images and the edits that keep them, and the run of the view from typing to
  the document while others change it.  \<open>LiveDocBibtex\<close> and \<open>LiveDocSources\<close> are the sources a document
  cites: their conversion from and to BibTeX (\<open>liveDocBibtex.ts\<close>, \<open>liveDocCslTypes.ts\<close>), the list of the document
  and the personal library (\<open>useLiveDocSources.ts\<close>, \<open>liveDocMasterSourcesStore.ts\<close>) and the form of a
  source; formatting citations is the work of a third-party engine.

  \<^bold>\<open>How state and effects are modelled.\<close>  Each slice of the store is a record with the field names of the
  source.  Actions are functions from the state to the state and, where the code calls out, the calls
  it makes.  An asynchronous function is cut at its awaits: the part up to an await leaves a task, the
  part behind it is a step of its own that takes the reply as an argument, so that the loops cover
  every interleaving of replies, events and actions.  In \<open>Sessions\<close> the local part of a disconnect
  and the calls of \<open>switchServer\<close> are one uninterrupted execution; the writes of the selected channel and
  of the message list that \<open>switchServer\<close> and the restore at the start make without a guard are also steps of
  \<open>ChatLoop\<close>, with their awaits.  Errors are \<open>None\<close>, the left part of a sum, or a constructor of the
  reply type.  Functions of the source that may not terminate are partial functions; their results
  are proved to exist on the inputs they end on, and shown not to on others (\<open>LiveDocMarkdown\<close>,
  \<open>MessageList\<close>).  There is no fuel in the models.

  \<^bold>\<open>Data.\<close>  Strings are lists of code units below 256, so Unicode line separators are outside the
  models.  Numbers that are identifiers, counts or
  timestamps are integers or naturals; where the code parses numbers, the rounding and overflow of
  doubles are written out.  JSON that crosses the process boundary is given by its parsed value.
  Comparison by locale, the syntax highlighter, encryption, the purifier of markup, avatar addresses
  and the answers of the backend are parameters or arguments.

  \<^bold>\<open>Properties.\<close>  The theorems stand in the theories of their components, each behind a text that states
  it.  A property that holds under a condition only names it, and as a rule a lemma beside it shows what
  happens otherwise.  Lemmas in sections on what goes wrong prove, on concrete runs, where the code does not do
  what its comments say.

  \<^bold>\<open>Not modelled.\<close>  The native backend and its crates; the markup, layout and pointer handling of the
  views; the editor extensions of live documents, which are built on a third-party editor; capture,
  coding and transport of audio and video; pages for settings and administration; translations, themes and
  assets; plain reading and writing of preference files.  These parts are markup, platform calls or
  third-party code, or hold no logic of their own.
\<close>

end
